(* ===== verification/Qprelude.thy ===== *)
theory Qprelude
  imports Main "HOL-Library.Word"
begin

text \<open>
  Shared vocabulary of the qstack development: the machine types of the C code, the return
  codes of \<^verbatim>\<open>ps.h\<close>, the result type for code that may call \<^verbatim>\<open>exit\<close>, and the
  generic facts on words, ring slices and lists on which the component theories rest.

  Pointers are natural numbers and \<^verbatim>\<open>NULL\<close> is \<open>0\<close>; the objects behind them live
  in explicit stores (functions from addresses to records) wherever a component mutates them.
\<close>

section \<open>Machine types and return codes\<close>

type_synonym ptr = nat
type_synonym u8 = "8 word"
type_synonym u16 = "16 word"
type_synonym u32 = "32 word"
type_synonym u64 = "64 word"

abbreviation NULL :: ptr where "NULL \<equiv> 0"

definition TRUE :: int where "TRUE = 1"
definition FALSE :: int where "FALSE = 0"
definition SUCCESS :: int where "SUCCESS = 1"
definition FAILED :: int where "FAILED = - 2"
definition ERROR :: int where "ERROR = - 1"

lemmas ret_codes = TRUE_def FALSE_def SUCCESS_def FAILED_def ERROR_def

lemma ret_codes_distinct [simp]:
  "SUCCESS \<noteq> FAILED" "FAILED \<noteq> SUCCESS" "SUCCESS \<noteq> ERROR" "ERROR \<noteq> SUCCESS"
  "FAILED \<noteq> ERROR" "ERROR \<noteq> FAILED"
  by (simp_all add: ret_codes)

text \<open>A C condition on an \<^verbatim>\<open>int\<close>: everything but zero is true.\<close>

definition truthy :: "int \<Rightarrow> bool" where
  "truthy n \<longleftrightarrow> n \<noteq> 0"

lemma truthy_codes [simp]: "truthy SUCCESS" "truthy FAILED" "truthy ERROR"
  by (simp_all add: truthy_def ret_codes)

text \<open>
  \<^verbatim>\<open>TRACE_ERR\<close>, \<^verbatim>\<open>TRACE_ERROR\<close> and \<^verbatim>\<open>TRACE_EXIT\<close> end the process with
  \<^verbatim>\<open>exit(0)\<close>; some paths leave defined C behaviour altogether, and a walk over a list whose
  links form a cycle does not end. All three are values.
\<close>

datatype halt = Exit0 | Undefined | Diverges

type_synonym 'a result = "halt + 'a"

definition bind_r :: "'e + 'a \<Rightarrow> ('a \<Rightarrow> 'e + 'b) \<Rightarrow> 'e + 'b" where
  "bind_r m f = (case m of Inl e \<Rightarrow> Inl e | Inr a \<Rightarrow> f a)"

lemma bind_r_simps [simp]:
  "bind_r (Inl e) f = Inl e" "bind_r (Inr a) f = f a"
  by (simp_all add: bind_r_def)

lemma bind_r_Inr_iff: "bind_r m f = Inr b \<longleftrightarrow> (\<exists>a. m = Inr a \<and> f a = Inr b)"
  by (cases m) simp_all

text \<open>
  A property of the result of code that may halt: it holds of the value, if there is one. Code is
  taken apart from the front: first what the first step establishes, then the rest with it.
\<close>

definition post :: "'e + 'a \<Rightarrow> ('a \<Rightarrow> bool) \<Rightarrow> bool" where
  "post m P \<longleftrightarrow> (\<forall>a. m = Inr a \<longrightarrow> P a)"

lemma post_simps [simp]:
  "post (Inl e) P" "post (Inr a) P \<longleftrightarrow> P a"
  "post (if b then m else m') P \<longleftrightarrow> (if b then post m P else post m' P)"
  by (simp_all add: post_def)

lemma post_bind: "post (bind_r m f) P \<longleftrightarrow> post m (\<lambda>a. post (f a) P)"
  by (cases m) (simp_all add: post_def)

lemma post_bindI: "post m Q \<Longrightarrow> (\<And>a. Q a \<Longrightarrow> post (f a) P) \<Longrightarrow> post (bind_r m f) P"
  unfolding post_bind by (auto simp: post_def)

lemma post_mono: "post m Q \<Longrightarrow> (\<And>a. Q a \<Longrightarrow> P a) \<Longrightarrow> post m P"
  by (simp add: post_def)

lemma postD: "post m P \<Longrightarrow> m = Inr a \<Longrightarrow> P a"
  by (simp add: post_def)

section \<open>Words\<close>

named_theorems word_nat \<open>facts that move 32-bit arithmetic to the naturals\<close>

lemma unat_word_less [simp]: "unat (w :: 'a::len word) < 2 ^ LENGTH('a)"
  by (rule unsigned_less)

lemma unat_succ_below [word_nat]:
  "p < s \<Longrightarrow> unat (p + 1 :: 'a::len word) = unat p + 1"
  by (simp add: word_less_nat_alt unat_word_ariths)
    (metis Suc_eq_plus1 Suc_lessI less_trans_Suc mod_less not_less_eq unsigned_less)

lemma word_pos_iff: "0 < (w :: 'a::len word) \<longleftrightarrow> 0 < unat w"
  by (simp add: word_less_nat_alt)

lemmas word_order_nat [word_nat] = word_less_nat_alt word_le_nat_alt

lemma unat_sub_le [word_nat]: "(b :: 'a::len word) \<le> a \<Longrightarrow> unat (a - b) = unat a - unat b"
  by (rule unat_sub)

section \<open>Ring slices\<close>

text \<open>The \<open>n\<close> entries of the array \<open>xs\<close> read from index \<open>t\<close> on, wrapping at its end.\<close>

definition ring_slice :: "'a list \<Rightarrow> nat \<Rightarrow> nat \<Rightarrow> 'a list" where
  "ring_slice xs t n = map (\<lambda>i. xs ! ((t + i) mod length xs)) [0..<n]"

lemma length_ring_slice [simp]: "length (ring_slice xs t n) = n"
  by (simp add: ring_slice_def)

lemma ring_slice_0 [simp]: "ring_slice xs t 0 = []"
  by (simp add: ring_slice_def)

lemma mod_add_inj:
  assumes "i < n" "j < (n::nat)"
  shows "(t + i) mod n = (t + j) mod n \<longleftrightarrow> i = j"
proof -
  have "inj_on (\<lambda>k. (t + k) mod n) {..<n}"
  proof (rule inj_onI)
    fix a b assume ab: "a \<in> {..<n}" "b \<in> {..<n}" and eq: "(t + a) mod n = (t + b) mod n"
    have "int n dvd int (t + a) - int (t + b)"
      using eq by (metis mod_eq_dvd_iff zmod_int)
    then have "int n dvd int a - int b" by simp
    moreover have "\<bar>int a - int b\<bar> < int n" using ab by auto
    ultimately have "int a - int b = 0"
      using dvd_imp_le_int [of "int a - int b" "int n"] by linarith
    then show "a = b" by simp
  qed
  then show ?thesis using assms by (auto dest: inj_onD)
qed

lemma ring_slice_Suc:
  assumes "t < length xs"
  shows "ring_slice xs t (Suc n) = xs ! t # ring_slice xs ((t + 1) mod length xs) n"
proof -
  have "((t + 1) mod length xs + i) mod length xs = (t + Suc i) mod length xs" for i
    by (simp add: mod_add_left_eq)
  then show ?thesis
    using assms by (simp add: ring_slice_def upt_conv_Cons map_Suc_upt [symmetric] del: upt_Suc)
qed

lemma ring_slice_update_snoc:
  assumes "n < length xs"
  shows "ring_slice (xs[(t + n) mod length xs := x]) t (Suc n) = ring_slice xs t n @ [x]"
proof -
  have "0 < length xs" using assms by (rule le_less_trans [OF le0])
  then show ?thesis
    using assms by (auto simp: ring_slice_def nth_list_update mod_add_inj)
qed

lemma ring_slice_update_other:
  assumes "n < length xs"
  shows "ring_slice (xs[(t + n) mod length xs := x]) t n = ring_slice xs t n"
proof -
  have "0 < length xs" using assms by (rule le_less_trans [OF le0])
  then show ?thesis
    using assms by (auto simp: ring_slice_def nth_list_update mod_add_inj)
qed

section \<open>Lists\<close>

lemma filter_eq_single: "distinct xs \<Longrightarrow> x \<in> set xs \<Longrightarrow> filter ((=) x) xs = [x]"
  by (induction xs) (auto simp: filter_empty_conv)

end
