(* ===== verification/Fifo_Spec.thy ===== *)
theory Fifo_Spec
  imports Qprelude
begin

text \<open>
  The contract of a bounded first-in first-out queue of pointers, as every queue of the stack
  promises it to its clients: an insertion fails with \<^verbatim>\<open>FAILED\<close> exactly when the queue is
  full and otherwise appends, a removal returns \<^verbatim>\<open>NULL\<close> exactly when the queue is empty and
  otherwise takes the oldest item. What follows for a client is proved once, here.
\<close>

fun add_all :: "('q \<Rightarrow> 'a \<Rightarrow> int \<times> 'q) \<Rightarrow> 'q \<Rightarrow> 'a list \<Rightarrow> int list \<times> 'q" where
  "add_all add q [] = ([], q)"
| "add_all add q (x # xs) =
     (let (r, q1) = add q x; (rs, q2) = add_all add q1 xs in (r # rs, q2))"

fun get_n :: "('q \<Rightarrow> 'a \<times> 'q) \<Rightarrow> nat \<Rightarrow> 'q \<Rightarrow> 'a list \<times> 'q" where
  "get_n get 0 q = ([], q)"
| "get_n get (Suc n) q =
     (let (x, q1) = get q; (xs, q2) = get_n get n q1 in (x # xs, q2))"

locale bounded_fifo =
  fixes add :: "'q \<Rightarrow> ptr \<Rightarrow> int \<times> 'q"
    and get :: "'q \<Rightarrow> ptr \<times> 'q"
    and contents :: "'q \<Rightarrow> ptr list"
    and capacity :: "'q \<Rightarrow> nat"
    and invar :: "'q \<Rightarrow> bool"
  assumes contents_bound: "invar q \<Longrightarrow> length (contents q) \<le> capacity q"
    and add_full: "invar q \<Longrightarrow> length (contents q) = capacity q \<Longrightarrow> add q x = (FAILED, q)"
    and add_room: "invar q \<Longrightarrow> length (contents q) < capacity q \<Longrightarrow>
      fst (add q x) = SUCCESS \<and> contents (snd (add q x)) = contents q @ [x]
      \<and> capacity (snd (add q x)) = capacity q \<and> invar (snd (add q x))"
    and get_empty: "invar q \<Longrightarrow> contents q = [] \<Longrightarrow> get q = (NULL, q)"
    and get_item: "invar q \<Longrightarrow> contents q = x # xs \<Longrightarrow>
      fst (get q) = x \<and> contents (snd (get q)) = xs
      \<and> capacity (snd (get q)) = capacity q \<and> invar (snd (get q))"
begin

lemma add_invar: "invar q \<Longrightarrow> invar (snd (add q x))"
  using contents_bound [of q] add_full [of q x] add_room [of q x]
  by (cases "length (contents q) = capacity q") auto

lemma get_invar: "invar q \<Longrightarrow> invar (snd (get q))"
  using get_empty [of q] get_item [of q] by (cases "contents q") auto

lemma add_capacity: "invar q \<Longrightarrow> capacity (snd (add q x)) = capacity q"
  using contents_bound [of q] add_full [of q x] add_room [of q x]
  by (cases "length (contents q) = capacity q") auto

lemma add_success_iff: "invar q \<Longrightarrow> fst (add q x) = SUCCESS \<longleftrightarrow> length (contents q) < capacity q"
  using contents_bound [of q] add_full [of q x] add_room [of q x]
  by (cases "length (contents q) = capacity q") auto

lemma add_all_room:
  "invar q \<Longrightarrow> length (contents q) + length xs \<le> capacity q \<Longrightarrow>
   fst (add_all add q xs) = replicate (length xs) SUCCESS
   \<and> contents (snd (add_all add q xs)) = contents q @ xs \<and> invar (snd (add_all add q xs))"
proof (induction xs arbitrary: q)
  case (Cons x xs)
  then show ?case
    using add_room [of q x] Cons.IH [of "snd (add q x)"] by (auto simp: split_beta Let_def)
qed simp

lemma get_n_contents:
  "invar q \<Longrightarrow> n \<le> length (contents q) \<Longrightarrow>
   fst (get_n get n q) = take n (contents q)
   \<and> contents (snd (get_n get n q)) = drop n (contents q) \<and> invar (snd (get_n get n q))"
proof (induction n arbitrary: q)
  case (Suc n)
  then obtain x xs where "contents q = x # xs" by (cases "contents q") auto
  then show ?case
    using Suc get_item [of q x xs] Suc.IH [of "snd (get q)"] by (auto simp: split_beta Let_def)
qed simp

text \<open>What is put into an empty queue comes out in the order it was put in, and nothing else.\<close>

lemma fifo_roundtrip:
  assumes "invar q" "contents q = []" "length xs \<le> capacity q"
  shows "fst (get_n get (length xs) (snd (add_all add q xs))) = xs"
    and "contents (snd (get_n get (length xs) (snd (add_all add q xs)))) = []"
  using add_all_room [of q xs] get_n_contents [of "snd (add_all add q xs)" "length xs"] assms
  by auto

text \<open>Whatever is offered, the queue keeps a prefix of it that fills it up and refuses the rest.\<close>

lemma add_all_overflow:
  "invar q \<Longrightarrow>
   contents (snd (add_all add q xs)) = contents q @ take (capacity q - length (contents q)) xs
   \<and> fst (add_all add q xs) =
       replicate (min (length xs) (capacity q - length (contents q))) SUCCESS
       @ replicate (length xs - (capacity q - length (contents q))) FAILED"
proof (induction xs arbitrary: q)
  case (Cons x xs)
  show ?case
  proof (cases "length (contents q) = capacity q")
    case True
    then show ?thesis using Cons.IH [OF Cons.prems] Cons.prems
      by (simp add: add_full split_beta Let_def)
  next
    case False
    then have less: "length (contents q) < capacity q" using contents_bound Cons.prems by fastforce
    then obtain k where k: "capacity q = Suc (length (contents q) + k)"
      using less_imp_Suc_add by blast
    then show ?thesis
      using add_room [OF Cons.prems less, of x] Cons.IH [of "snd (add q x)"]
      by (auto simp: split_beta Let_def)
  qed
qed simp

end

end
