(* ===== verification/Circular_Queue.thy ===== *)
theory Circular_Queue
  imports Fifo_Spec
begin

text \<open>
  The circular queue of \<^verbatim>\<open>tools/src/include/circular_queue.h\<close> in its built
  configuration (\<^verbatim>\<open>SIMPLE_HEADTAIL\<close>, own ring instead of \<^verbatim>\<open>rte_ring\<close>): the
  calloc'ed queue, the direct queue whose eight slots are part of the structure, and the
  mempool of preallocated rings. \<^verbatim>\<open>head\<close> is the next slot to write and \<^verbatim>\<open>tail\<close>
  the next slot to read; a full queue keeps one slot free. Every operation refines an operation
  on the list of queued items, bounded by \<open>size - 1\<close>.
\<close>

section \<open>State and operations\<close>

record circular_queue =
  cq_head :: u32
  cq_queue :: "ptr list"
  cq_size :: u32
  cq_tail :: u32

definition STATIC_BUFF_SIZE :: u32 where
  "STATIC_BUFF_SIZE = 8"

definition cirq_pree :: "circular_queue \<Rightarrow> u32 \<Rightarrow> u32" where
  "cirq_pree q p = (if p \<noteq> 0 then p - 1 else cq_size q - 1)"

definition cirq_succ :: "circular_queue \<Rightarrow> u32 \<Rightarrow> u32" where
  "cirq_succ q p = (p + 1) mod cq_size q"

definition cirq_full :: "circular_queue \<Rightarrow> bool" where
  "cirq_full q \<longleftrightarrow> cirq_succ q (cq_head q) = cq_tail q"

definition cirq_empty :: "circular_queue \<Rightarrow> bool" where
  "cirq_empty q \<longleftrightarrow> cq_head q = cq_tail q"

definition cirq_count :: "circular_queue \<Rightarrow> u32" where
  "cirq_count q =
     (if cq_head q \<ge> cq_tail q then cq_head q - cq_tail q
      else cq_head q + cq_size q - cq_tail q)"

definition cirq_init :: "circular_queue \<Rightarrow> u32 \<Rightarrow> circular_queue" where
  "cirq_init q sz =
     q\<lparr>cq_head := 0, cq_tail := 0, cq_size := sz, cq_queue := replicate (unat sz) NULL\<rparr>"

definition cirq_add :: "circular_queue \<Rightarrow> ptr \<Rightarrow> int \<times> circular_queue" where
  "cirq_add q item =
     (if cirq_full q then (FAILED, q)
      else let q1 = q\<lparr>cq_queue := (cq_queue q)[unat (cq_head q) := item]\<rparr>;
               q2 = q1\<lparr>cq_head := cirq_succ q1 (cq_head q1)\<rparr>
           in (SUCCESS, q2))"

definition cirq_get :: "circular_queue \<Rightarrow> ptr \<times> circular_queue" where
  "cirq_get q =
     (if cirq_empty q then (NULL, q)
      else let ret = cq_queue q ! unat (cq_tail q);
               q1 = q\<lparr>cq_tail := cirq_succ q (cq_tail q)\<rparr>
           in (ret, q1))"

definition cirq_prefetch :: "circular_queue \<Rightarrow> ptr" where
  "cirq_prefetch q = (if cirq_empty q then NULL else cq_queue q ! unat (cq_tail q))"

text \<open>
  \<^verbatim>\<open>cirq_get_wslot\<close> returns the address of the slot under \<^verbatim>\<open>head\<close>; an address
  inside the array is its index. \<^verbatim>\<open>cirq_writen\<close> publishes that slot.
\<close>

definition cirq_get_wslot :: "circular_queue \<Rightarrow> nat" where
  "cirq_get_wslot q = unat (cq_head q)"

definition cirq_writen :: "circular_queue \<Rightarrow> int \<times> circular_queue" where
  "cirq_writen q =
     (if cirq_full q then (FAILED, q)
      else (SUCCESS, q\<lparr>cq_head := cirq_succ q (cq_head q)\<rparr>))"

text \<open>\<open>mem\<close> is the block \<^verbatim>\<open>calloc(q->size, slot_size)\<close> returns.\<close>

definition cirq_init_slot :: "circular_queue \<Rightarrow> nat \<Rightarrow> ptr \<Rightarrow> circular_queue" where
  "cirq_init_slot q slot_size mem =
     q\<lparr>cq_queue := map (\<lambda>i. mem + i * slot_size) [0..<unat (cq_size q)]\<rparr>"

fun scan_slots :: "ptr list \<Rightarrow> ptr \<Rightarrow> nat list \<Rightarrow> int" where
  "scan_slots a item [] = - 1"
| "scan_slots a item (i # is) = (if a ! i = item then int i else scan_slots a item is)"

text \<open>
  \<^verbatim>\<open>cirq_scan\<close> tests \<^verbatim>\<open>if (cirq_empty)\<close>, the address of the function, where it
  means to call it; an address of a function is never null.
\<close>

definition cirq_empty_address_nonnull :: bool where
  "cirq_empty_address_nonnull = True"

definition cirq_scan :: "circular_queue \<Rightarrow> ptr \<Rightarrow> int" where
  "cirq_scan q item =
     (if cirq_empty_address_nonnull then - 1
      else if cq_head q > cq_tail q
      then scan_slots (cq_queue q) item [unat (cq_tail q)..<unat (cq_head q)]
      else scan_slots (cq_queue q) item
             ([unat (cq_tail q)..<unat (cq_size q)] @ [0..<unat (cq_head q)]))"

subsection \<open>Direct queues\<close>

text \<open>The union member \<^verbatim>\<open>d_queue\<close> is the array itself: \<open>cq_queue\<close> of eight slots.\<close>

definition dir_cirq_init :: "circular_queue \<Rightarrow> int \<times> circular_queue" where
  "dir_cirq_init q = (SUCCESS, q\<lparr>cq_head := 0, cq_tail := 0, cq_size := STATIC_BUFF_SIZE\<rparr>)"

definition dir_cirq_add :: "circular_queue \<Rightarrow> ptr \<Rightarrow> int \<times> circular_queue" where
  "dir_cirq_add q item =
     (if cirq_full q then (FAILED, q)
      else let q1 = q\<lparr>cq_queue := (cq_queue q)[unat (cq_head q) := item]\<rparr>
           in (SUCCESS, q1\<lparr>cq_head := cirq_succ q1 (cq_head q1)\<rparr>))"

definition dir_cirq_get :: "circular_queue \<Rightarrow> ptr \<times> circular_queue" where
  "dir_cirq_get q =
     (if cirq_empty q then (NULL, q)
      else (cq_queue q ! unat (cq_tail q), q\<lparr>cq_tail := cirq_succ q (cq_tail q)\<rparr>))"

subsection \<open>The mempool of preallocated rings\<close>

record fast_cirq_mempool =
  fm_free_queues :: "ptr list"
  fm_size :: u32
  fm_point :: u32
  fm_length :: u32

text \<open>
  \<open>tmp\<close> is the block \<^verbatim>\<open>calloc(size, length * sizeof(void *))\<close> returns; the pool's
  entry \<open>i\<close> is its \<open>i\<close>-th ring of \<open>length\<close> pointers of eight bytes.
\<close>

definition fast_cirq_mempool_init ::
    "fast_cirq_mempool \<Rightarrow> u32 \<Rightarrow> u32 \<Rightarrow> ptr \<Rightarrow> fast_cirq_mempool" where
  "fast_cirq_mempool_init mp sz len tmp =
     mp\<lparr>fm_size := sz, fm_point := sz - 1, fm_length := len,
        fm_free_queues := map (\<lambda>i. tmp + i * unat len * 8) [0..<unat sz]\<rparr>"

definition fast_cirq_mempool_alloc :: "fast_cirq_mempool \<Rightarrow> (ptr \<times> fast_cirq_mempool) result" where
  "fast_cirq_mempool_alloc mp =
     (if fm_point mp \<noteq> 0
      then Inr (fm_free_queues mp ! unat (fm_point mp), mp\<lparr>fm_point := fm_point mp - 1\<rparr>)
      else Inl Exit0)"

definition fast_cirq_mempool_free :: "fast_cirq_mempool \<Rightarrow> ptr \<Rightarrow> fast_cirq_mempool result" where
  "fast_cirq_mempool_free mp item =
     (if fm_point mp = fm_size mp - 1 then Inl Exit0
      else Inr (mp\<lparr>fm_free_queues := (fm_free_queues mp)[unat (fm_point mp) := item],
                  fm_point := fm_point mp + 1\<rparr>))"

text \<open>
  \<^verbatim>\<open>cirq_init_fast\<close> takes its ring from the pool: the address it got is returned beside the
  queue, whose array keeps what the ring held. \<open>ring\<close> reads the ring at an address.
\<close>

definition cirq_init_fast ::
    "(ptr \<Rightarrow> ptr list) \<Rightarrow> circular_queue \<Rightarrow> fast_cirq_mempool
     \<Rightarrow> (int \<times> ptr \<times> circular_queue \<times> fast_cirq_mempool) result" where
  "cirq_init_fast ring q mp =
     bind_r (fast_cirq_mempool_alloc mp) (\<lambda>(chunk, mp').
       Inr (SUCCESS, chunk,
            q\<lparr>cq_head := 0, cq_tail := 0, cq_size := fm_length mp, cq_queue := ring chunk\<rparr>, mp'))"

definition cirq_destroy_fast ::
    "circular_queue \<Rightarrow> ptr \<Rightarrow> fast_cirq_mempool \<Rightarrow> fast_cirq_mempool result" where
  "cirq_destroy_fast q chunk mp =
     (if \<not> cirq_empty q then Inl Exit0 else fast_cirq_mempool_free mp chunk)"

section \<open>Well-formed queues and the items they hold\<close>

definition cirq_wf :: "circular_queue \<Rightarrow> bool" where
  "cirq_wf q \<longleftrightarrow> 0 < cq_size q \<and> length (cq_queue q) = unat (cq_size q)
     \<and> cq_head q < cq_size q \<and> cq_tail q < cq_size q"

definition cirq_list :: "circular_queue \<Rightarrow> ptr list" where
  "cirq_list q = ring_slice (cq_queue q) (unat (cq_tail q)) (unat (cirq_count q))"

definition cirq_capacity :: "circular_queue \<Rightarrow> nat" where
  "cirq_capacity q = unat (cq_size q) - 1"

lemma cirq_wfD:
  assumes "cirq_wf q"
  shows "0 < unat (cq_size q)" "length (cq_queue q) = unat (cq_size q)"
    "unat (cq_head q) < unat (cq_size q)" "unat (cq_tail q) < unat (cq_size q)"
  using assms by (auto simp: cirq_wf_def word_less_nat_alt)

lemma unat_cirq_succ:
  assumes "p < cq_size q"
  shows "unat (cirq_succ q p) = (unat p + 1) mod unat (cq_size q)"
  using assms by (simp add: cirq_succ_def unat_mod unat_succ_below)

lemma cirq_succ_less: "0 < cq_size q \<Longrightarrow> p < cq_size q \<Longrightarrow> cirq_succ q p < cq_size q"
  by (simp add: word_less_nat_alt unat_cirq_succ)

lemma cirq_succ_cong [simp]:
  "cirq_succ (q\<lparr>cq_head := h\<rparr>) = cirq_succ q" "cirq_succ (q\<lparr>cq_tail := t\<rparr>) = cirq_succ q"
  "cirq_succ (q\<lparr>cq_queue := xs\<rparr>) = cirq_succ q"
  by (simp_all add: cirq_succ_def fun_eq_iff)

lemma unat_cirq_count:
  assumes "cirq_wf q"
  shows "unat (cirq_count q) =
    (if unat (cq_tail q) \<le> unat (cq_head q) then unat (cq_head q) - unat (cq_tail q)
     else unat (cq_head q) + unat (cq_size q) - unat (cq_tail q))"
proof (cases "cq_tail q \<le> cq_head q")
  case True
  then show ?thesis by (simp add: cirq_count_def unat_sub word_le_nat_alt)
next
  case False
  define d where "d = cq_tail q - cq_head q"
  have d: "unat d = unat (cq_tail q) - unat (cq_head q)"
    using False by (simp add: d_def unat_sub)
  have "d \<le> cq_size q"
    using cirq_wfD [OF assms] d by (simp add: word_le_nat_alt)
  then have "unat (cq_size q - d) = unat (cq_size q) - unat d" by (simp add: unat_sub)
  moreover have "cirq_count q = cq_size q - d"
    using False by (simp add: cirq_count_def d_def algebra_simps)
  ultimately show ?thesis
    using False cirq_wfD [OF assms] d by (simp add: word_le_nat_alt)
qed

lemma length_cirq_list: "length (cirq_list q) = unat (cirq_count q)"
  by (simp add: cirq_list_def)

lemma cirq_count_mod:
  assumes "cirq_wf q"
  shows "unat (cirq_count q) < unat (cq_size q)"
    and "(unat (cq_tail q) + unat (cirq_count q)) mod unat (cq_size q) = unat (cq_head q)"
  using cirq_wfD [OF assms] by (auto simp: unat_cirq_count [OF assms])

lemma cirq_empty_iff:
  assumes "cirq_wf q"
  shows "cirq_empty q \<longleftrightarrow> cirq_list q = []"
proof -
  have "cirq_list q = [] \<longleftrightarrow> unat (cirq_count q) = 0"
    using length_cirq_list [of q] by (metis length_0_conv)
  also have "\<dots> \<longleftrightarrow> unat (cq_head q) = unat (cq_tail q)"
    using cirq_wfD [OF assms] by (auto simp: unat_cirq_count [OF assms])
  finally show ?thesis by (simp add: cirq_empty_def word_unat_eq_iff)
qed

lemma cirq_full_iff:
  assumes "cirq_wf q"
  shows "cirq_full q \<longleftrightarrow> length (cirq_list q) = cirq_capacity q"
proof -
  have "cirq_full q \<longleftrightarrow> (unat (cq_head q) + 1) mod unat (cq_size q) = unat (cq_tail q)"
    using assms by (simp add: cirq_full_def word_unat_eq_iff unat_cirq_succ cirq_wf_def)
  also have "\<dots> \<longleftrightarrow> unat (cirq_count q) = unat (cq_size q) - 1"
    using cirq_wfD [OF assms]
    by (cases "unat (cq_head q) + 1 = unat (cq_size q)") (auto simp: unat_cirq_count [OF assms])
  finally show ?thesis by (simp add: length_cirq_list cirq_capacity_def)
qed

lemma cirq_list_bound: "cirq_wf q \<Longrightarrow> length (cirq_list q) \<le> cirq_capacity q"
  using cirq_count_mod(1) [of q] by (simp add: length_cirq_list cirq_capacity_def)

text \<open>Moving \<^verbatim>\<open>head\<close> or \<^verbatim>\<open>tail\<close> by one slot changes the count by one.\<close>

lemma cirq_count_head_succ:
  assumes wf: "cirq_wf q" and nf: "\<not> cirq_full q"
  shows "unat (cirq_count (q\<lparr>cq_head := cirq_succ q (cq_head q)\<rparr>)) = Suc (unat (cirq_count q))"
proof -
  let ?q = "q\<lparr>cq_head := cirq_succ q (cq_head q)\<rparr>"
  have wf': "cirq_wf ?q" using wf by (simp add: cirq_wf_def cirq_succ_less)
  have nf': "(unat (cq_head q) + 1) mod unat (cq_size q) \<noteq> unat (cq_tail q)"
    using nf wf by (simp add: cirq_full_def word_unat_eq_iff unat_cirq_succ cirq_wf_def)
  have h: "unat (cirq_succ q (cq_head q)) = (unat (cq_head q) + 1) mod unat (cq_size q)"
    using wf by (simp add: unat_cirq_succ cirq_wf_def)
  show ?thesis
    using nf' cirq_wfD [OF wf] h
    by (cases "unat (cq_head q) + 1 = unat (cq_size q)")
      (auto simp: unat_cirq_count [OF wf] unat_cirq_count [OF wf'])
qed

lemma cirq_count_tail_succ:
  assumes wf: "cirq_wf q" and ne: "\<not> cirq_empty q"
  shows "unat (cirq_count q) = Suc (unat (cirq_count (q\<lparr>cq_tail := cirq_succ q (cq_tail q)\<rparr>)))"
proof -
  let ?q = "q\<lparr>cq_tail := cirq_succ q (cq_tail q)\<rparr>"
  have wf': "cirq_wf ?q" using wf by (simp add: cirq_wf_def cirq_succ_less)
  have ne': "unat (cq_head q) \<noteq> unat (cq_tail q)"
    using ne by (simp add: cirq_empty_def word_unat_eq_iff)
  have t: "unat (cirq_succ q (cq_tail q)) = (unat (cq_tail q) + 1) mod unat (cq_size q)"
    using wf by (simp add: unat_cirq_succ cirq_wf_def)
  show ?thesis
    using ne' cirq_wfD [OF wf] t
    by (cases "unat (cq_tail q) + 1 = unat (cq_size q)")
      (auto simp: unat_cirq_count [OF wf] unat_cirq_count [OF wf'])
qed

text \<open>The two halves of an insertion: the write into the free slot, then its publication.\<close>

lemma cirq_list_write:
  assumes "cirq_wf q"
  shows "cirq_list (q\<lparr>cq_queue := (cq_queue q)[unat (cq_head q) := x]\<rparr>) = cirq_list q"
proof -
  have "cirq_count (q\<lparr>cq_queue := ys\<rparr>) = cirq_count q" for ys by (simp add: cirq_count_def)
  then show ?thesis
    using cirq_count_mod [OF assms] cirq_wfD [OF assms]
      ring_slice_update_other [of "unat (cirq_count q)" "cq_queue q" "unat (cq_tail q)" x]
    by (simp add: cirq_list_def)
qed

lemma ring_slice_snoc: "ring_slice xs t (Suc n) = ring_slice xs t n @ [xs ! ((t + n) mod length xs)]"
  by (simp add: ring_slice_def)

lemma cirq_list_publish:
  assumes wf: "cirq_wf q" and nf: "\<not> cirq_full q"
  shows "cirq_list (q\<lparr>cq_head := cirq_succ q (cq_head q)\<rparr>)
    = cirq_list q @ [cq_queue q ! unat (cq_head q)]"
  using cirq_count_mod [OF wf] cirq_wfD [OF wf]
  by (simp add: cirq_list_def cirq_count_head_succ [OF wf nf] ring_slice_snoc)

lemma cirq_list_take:
  assumes wf: "cirq_wf q" and ne: "\<not> cirq_empty q"
  shows "cirq_list q
    = cq_queue q ! unat (cq_tail q) # cirq_list (q\<lparr>cq_tail := cirq_succ q (cq_tail q)\<rparr>)"
  using cirq_wfD [OF wf] wf
  by (simp add: cirq_list_def cirq_count_tail_succ [OF wf ne] ring_slice_Suc unat_cirq_succ
      cirq_wf_def)

lemma cirq_wf_write: "cirq_wf q \<Longrightarrow> cirq_wf (q\<lparr>cq_queue := (cq_queue q)[i := x]\<rparr>)"
  by (simp add: cirq_wf_def)

lemma cirq_wf_succ:
  "cirq_wf q \<Longrightarrow> cirq_wf (q\<lparr>cq_head := cirq_succ q (cq_head q)\<rparr>)"
  "cirq_wf q \<Longrightarrow> cirq_wf (q\<lparr>cq_tail := cirq_succ q (cq_tail q)\<rparr>)"
  by (simp_all add: cirq_wf_def cirq_succ_less)

lemma cirq_full_write [simp]: "cirq_full (q\<lparr>cq_queue := xs\<rparr>) = cirq_full q"
  by (simp add: cirq_full_def)

section \<open>The queues implement the FIFO contract\<close>

lemma cirq_add_room:
  assumes wf: "cirq_wf q" and nf: "\<not> cirq_full q"
  shows "fst (cirq_add q x) = SUCCESS" "cirq_list (snd (cirq_add q x)) = cirq_list q @ [x]"
    "cq_size (snd (cirq_add q x)) = cq_size q" "cirq_wf (snd (cirq_add q x))"
proof -
  let ?q1 = "q\<lparr>cq_queue := (cq_queue q)[unat (cq_head q) := x]\<rparr>"
  have wf1: "cirq_wf ?q1" using wf by (rule cirq_wf_write)
  have add: "cirq_add q x = (SUCCESS, ?q1\<lparr>cq_head := cirq_succ ?q1 (cq_head ?q1)\<rparr>)"
    using nf by (simp add: cirq_add_def Let_def)
  show "fst (cirq_add q x) = SUCCESS" "cq_size (snd (cirq_add q x)) = cq_size q"
    by (simp_all add: add)
  show "cirq_list (snd (cirq_add q x)) = cirq_list q @ [x]"
    using cirq_list_publish [OF wf1] nf cirq_list_write [OF wf, of x] cirq_wfD [OF wf]
    by (simp add: add)
  show "cirq_wf (snd (cirq_add q x))"
    using cirq_wf_succ(1) [OF wf1] by (simp add: add)
qed

lemma cirq_get_item:
  assumes wf: "cirq_wf q" and c: "cirq_list q = x # xs"
  shows "fst (cirq_get q) = x" "cirq_list (snd (cirq_get q)) = xs"
    "cq_size (snd (cirq_get q)) = cq_size q" "cirq_wf (snd (cirq_get q))"
proof -
  have ne: "\<not> cirq_empty q" using c by (simp add: cirq_empty_iff [OF wf])
  have get: "cirq_get q
      = (cq_queue q ! unat (cq_tail q), q\<lparr>cq_tail := cirq_succ q (cq_tail q)\<rparr>)"
    using ne by (simp add: cirq_get_def Let_def)
  show "fst (cirq_get q) = x" "cirq_list (snd (cirq_get q)) = xs"
    using cirq_list_take [OF wf ne] c by (simp_all add: get)
  show "cq_size (snd (cirq_get q)) = cq_size q" "cirq_wf (snd (cirq_get q))"
    using cirq_wf_succ(2) [OF wf] by (simp_all add: get)
qed

interpretation cq: bounded_fifo cirq_add cirq_get cirq_list cirq_capacity cirq_wf
proof unfold_locales
  fix q x assume "cirq_wf q" "length (cirq_list q) = cirq_capacity q"
  then show "cirq_add q x = (FAILED, q)" by (simp add: cirq_full_iff cirq_add_def)
next
  fix q x assume "cirq_wf q" "length (cirq_list q) < cirq_capacity q"
  then show "fst (cirq_add q x) = SUCCESS \<and> cirq_list (snd (cirq_add q x)) = cirq_list q @ [x]
      \<and> cirq_capacity (snd (cirq_add q x)) = cirq_capacity q \<and> cirq_wf (snd (cirq_add q x))"
    using cirq_add_room [of q x] by (simp add: cirq_full_iff cirq_capacity_def)
next
  fix q assume "cirq_wf q" "cirq_list q = []"
  then show "cirq_get q = (NULL, q)" by (simp add: cirq_empty_iff cirq_get_def)
next
  fix q x xs assume "cirq_wf q" "cirq_list q = x # xs"
  then show "fst (cirq_get q) = x \<and> cirq_list (snd (cirq_get q)) = xs
      \<and> cirq_capacity (snd (cirq_get q)) = cirq_capacity q \<and> cirq_wf (snd (cirq_get q))"
    using cirq_get_item [of q x xs] by (simp add: cirq_capacity_def)
qed (simp add: cirq_list_bound)

text \<open>
  The direct queue runs the same code on the array inside the structure: a well-formed one has
  exactly \<^verbatim>\<open>STATIC_BUFF_SIZE\<close> slots and holds up to seven items.
\<close>

lemma dir_cirq_eq: "dir_cirq_add = cirq_add" "dir_cirq_get = cirq_get"
  by (simp_all add: fun_eq_iff dir_cirq_add_def cirq_add_def dir_cirq_get_def cirq_get_def Let_def)

definition dir_cirq_wf :: "circular_queue \<Rightarrow> bool" where
  "dir_cirq_wf q \<longleftrightarrow> cirq_wf q \<and> cq_size q = STATIC_BUFF_SIZE"

lemma cirq_size_kept [simp]:
  "cq_size (snd (cirq_add q x)) = cq_size q" "cq_size (snd (cirq_get q)) = cq_size q"
  by (simp_all add: cirq_add_def cirq_get_def Let_def)

lemma dir_capacity: "dir_cirq_wf q \<Longrightarrow> cirq_capacity q = 7"
  by (simp add: dir_cirq_wf_def cirq_capacity_def STATIC_BUFF_SIZE_def)

interpretation dcq: bounded_fifo dir_cirq_add dir_cirq_get cirq_list cirq_capacity dir_cirq_wf
  by unfold_locales
    (simp_all add: dir_cirq_eq dir_cirq_wf_def cq.contents_bound cq.add_full cq.add_room
      cq.get_empty cq.get_item)

lemma cirq_init_wf:
  assumes "0 < sz"
  shows "cirq_wf (cirq_init q sz)" "cirq_list (cirq_init q sz) = []"
    "cirq_capacity (cirq_init q sz) = unat sz - 1"
  using assms
  by (simp_all add: cirq_init_def cirq_wf_def cirq_list_def cirq_count_def cirq_capacity_def)

lemma dir_cirq_init_wf:
  assumes "length (cq_queue q) = 8"
  shows "dir_cirq_wf (snd (dir_cirq_init q))" "cirq_list (snd (dir_cirq_init q)) = []"
  using assms
  by (simp_all add: dir_cirq_init_def dir_cirq_wf_def cirq_wf_def STATIC_BUFF_SIZE_def
      cirq_list_def cirq_count_def)

lemma cirq_prefetch_hd:
  "cirq_wf q \<Longrightarrow> cirq_prefetch q = (if cirq_list q = [] then NULL else hd (cirq_list q))"
  using cirq_list_take [of q]
  by (metis cirq_empty_iff cirq_prefetch_def list.sel(1))

lemma cirq_add_via_wslot:
  "cirq_add q x = cirq_writen (q\<lparr>cq_queue := (cq_queue q)[cirq_get_wslot q := x]\<rparr>)
   \<or> cirq_full q"
  by (simp add: cirq_add_def cirq_writen_def cirq_get_wslot_def Let_def)

section \<open>Properties of the mempool\<close>

text \<open>Allocations alone hand out different rings until the pool is exhausted.\<close>

fun fm_alloc_n :: "nat \<Rightarrow> fast_cirq_mempool \<Rightarrow> ptr list result" where
  "fm_alloc_n 0 mp = Inr []"
| "fm_alloc_n (Suc n) mp =
     bind_r (fast_cirq_mempool_alloc mp) (\<lambda>(c, mp').
       bind_r (fm_alloc_n n mp') (\<lambda>cs. Inr (c # cs)))"

lemma fm_alloc_n_rev:
  assumes "unat (fm_point mp) < length (fm_free_queues mp)" "n \<le> unat (fm_point mp)"
  shows "fm_alloc_n n mp
    = Inr (rev (take n (drop (Suc (unat (fm_point mp) - n)) (fm_free_queues mp))))"
  using assms
proof (induction n arbitrary: mp)
  case (Suc n)
  let ?p = "fm_point mp" and ?fq = "fm_free_queues mp"
  have nz: "?p \<noteq> 0" using Suc.prems by auto
  then have dec: "unat (?p - 1) = unat ?p - 1" by (simp add: unat_minus_one)
  let ?mp = "mp\<lparr>fm_point := ?p - 1\<rparr>"
  have "fm_alloc_n n ?mp = Inr (rev (take n (drop (Suc (unat ?p - 1 - n)) ?fq)))"
    using Suc.IH [of ?mp] Suc.prems dec by simp
  moreover have "take (Suc n) (drop (Suc (unat ?p - Suc n)) ?fq)
      = take n (drop (Suc (unat ?p - 1 - n)) ?fq) @ [?fq ! unat ?p]"
    using Suc.prems by (simp add: take_Suc_conv_app_nth)
  ultimately show ?case
    using nz by (simp add: fast_cirq_mempool_alloc_def)
qed simp

section \<open>Main properties\<close>

text \<open>
  From a freshly initialised queue of any size, up to \<open>size - 1\<close> items that
  are added come out of \<^verbatim>\<open>cirq_get\<close> in the order in which they were added, after which the
  queue is empty again.
\<close>

lemma cirq_roundtrip:
  assumes "0 < sz" "length xs \<le> unat sz - 1"
  shows "fst (get_n cirq_get (length xs) (snd (add_all cirq_add (cirq_init q sz) xs))) = xs
    \<and> cirq_empty (snd (get_n cirq_get (length xs) (snd (add_all cirq_add (cirq_init q sz) xs))))"
proof -
  note init = cirq_init_wf [OF assms(1), of q]
  note filled = cq.add_all_room [OF init(1), of xs]
  have "cirq_wf (snd (get_n cirq_get (length xs) (snd (add_all cirq_add (cirq_init q sz) xs))))"
    using filled cq.get_n_contents [of "snd (add_all cirq_add (cirq_init q sz) xs)" "length xs"]
      init assms(2) by simp
  then show ?thesis
    using cq.fifo_roundtrip [OF init(1,2), of xs] init(3) assms(2) by (simp add: cirq_empty_iff)
qed

definition queue0 :: circular_queue where
  "queue0 = \<lparr>cq_head = 0, cq_queue = [], cq_size = 0, cq_tail = 0\<rparr>"

theorem cirq_roundtrip_witness:
  "fst (get_n cirq_get (length [7, 8, 9 :: ptr])
     (snd (add_all cirq_add (cirq_init queue0 4) [7, 8, 9]))) = [7, 8, 9]"
  using cirq_roundtrip [of 4 "[7, 8, 9]" queue0] by (simp del: get_n.simps add_all.simps)

text \<open>
  Offered any list of items, a well-formed queue accepts with
  \<^verbatim>\<open>SUCCESS\<close> exactly the longest prefix that fits into its \<open>size - 1\<close> usable slots,
  answers \<^verbatim>\<open>FAILED\<close> to every later one, and never loses or overwrites an item it holds.
\<close>

lemma cirq_overflow:
  assumes "cirq_wf q"
  shows "cirq_list (snd (add_all cirq_add q xs))
      = cirq_list q @ take (unat (cq_size q) - 1 - length (cirq_list q)) xs
    \<and> fst (add_all cirq_add q xs)
      = replicate (min (length xs) (unat (cq_size q) - 1 - length (cirq_list q))) SUCCESS
        @ replicate (length xs - (unat (cq_size q) - 1 - length (cirq_list q))) FAILED"
  using cq.add_all_overflow [OF assms, of xs] by (simp add: cirq_capacity_def)

theorem cirq_overflow_witness:
  "cirq_list (snd (add_all cirq_add (cirq_init queue0 3) [5, 6, 7])) = [5, 6]
   \<and> fst (add_all cirq_add (cirq_init queue0 3) [5, 6, 7]) = [SUCCESS, SUCCESS, FAILED]"
proof -
  have "cq_size (cirq_init queue0 3) = 3" by (simp add: cirq_init_def)
  then show ?thesis
    using cirq_overflow [OF cirq_init_wf(1) [of 3 queue0], of "[5, 6, 7]"]
      cirq_init_wf(2) [of 3 queue0]
    by (simp del: add_all.simps)
qed

text \<open>
  \<^verbatim>\<open>cirq_count\<close> is computed in 32 bits, where \<open>head + size\<close> may wrap around;
  on a well-formed queue the result is still the number of slots between \<^verbatim>\<open>tail\<close> and
  \<^verbatim>\<open>head\<close> modulo the size, and the tests for empty and full agree with it.
\<close>

lemma cirq_count_correct:
  assumes "cirq_wf q"
  shows "uint (cirq_count q) = (uint (cq_head q) - uint (cq_tail q)) mod uint (cq_size q)
    \<and> (cirq_empty q \<longleftrightarrow> cirq_count q = 0)
    \<and> (cirq_full q \<longleftrightarrow> cirq_count q = cq_size q - 1)"
proof (intro conjI)
  have c: "uint (cirq_count q) < uint (cq_size q)"
    using cirq_count_mod(1) [OF assms] by (simp add: word_less_nat_alt flip: word_less_def)
  have "(uint (cq_tail q) + uint (cirq_count q)) mod uint (cq_size q) = uint (cq_head q)"
    using arg_cong [OF cirq_count_mod(2) [OF assms], of int] by (simp add: zmod_int)
  then have "(uint (cq_head q) - uint (cq_tail q)) mod uint (cq_size q)
      = uint (cirq_count q) mod uint (cq_size q)"
    by (metis add_diff_cancel_left' mod_diff_left_eq)
  then show "uint (cirq_count q) = (uint (cq_head q) - uint (cq_tail q)) mod uint (cq_size q)"
    using c by simp
  show "cirq_empty q \<longleftrightarrow> cirq_count q = 0"
    using length_cirq_list [of q] by (auto simp: cirq_empty_iff [OF assms] unat_eq_0)
  have "0 < cq_size q" using assms by (simp add: cirq_wf_def)
  then have "unat (cq_size q - 1) = unat (cq_size q) - 1" by (simp add: unat_minus_one)
  then show "cirq_full q \<longleftrightarrow> cirq_count q = cq_size q - 1"
    by (simp add: cirq_full_iff [OF assms] length_cirq_list cirq_capacity_def word_unat_eq_iff)
qed

lemma cirq_count_correct_witness:
  "cirq_count \<lparr>cq_head = 1, cq_queue = [4, 5, 6], cq_size = 3, cq_tail = 2\<rparr> = 2"
  using cirq_count_correct [of "\<lparr>cq_head = 1, cq_queue = [4, 5, 6], cq_size = 3, cq_tail = 2\<rparr>"]
  by (simp add: cirq_wf_def cirq_full_def cirq_succ_def)

text \<open>
  The ring mempool decrements its index after an allocation and increments it
  after writing a freed ring back, so the two do not meet at the same slot: after one
  allocation is freed, the next two allocations both return that same ring.
\<close>

lemma fast_cirq_mempool_double_alloc:
  assumes "3 \<le> sz" "unat sz < 2 ^ 31"
  shows "\<exists>c mp1 mp2 mp3 mp4.
      fast_cirq_mempool_alloc (fast_cirq_mempool_init mp sz len tmp) = Inr (c, mp1)
    \<and> fast_cirq_mempool_free mp1 c = Inr mp2
    \<and> fast_cirq_mempool_alloc mp2 = Inr (c, mp3)
    \<and> fast_cirq_mempool_alloc mp3 = Inr (c, mp4)"
proof -
  have n: "3 \<le> unat sz" using assms by (simp add: word_le_nat_alt)
  have m1: "unat (sz - 1) = unat sz - 1" "unat (sz - 2) = unat sz - 2"
    using n by (simp_all add: unat_sub word_le_nat_alt)
  have nz: "sz - 1 \<noteq> 0" "sz - 2 \<noteq> 0" "sz - 2 \<noteq> sz - 1"
    using n m1 by (auto simp: word_unat_eq_iff)
  have steps: "sz - 1 - 1 = sz - 2" "sz - 2 + 1 = sz - 1" by (simp_all add: algebra_simps)
  show ?thesis
    using n nz by (simp add: fast_cirq_mempool_alloc_def fast_cirq_mempool_init_def
        fast_cirq_mempool_free_def steps m1)
qed

lemma fast_cirq_mempool_double_alloc_witness:
  "\<exists>c mp1 mp2 mp3 mp4.
      fast_cirq_mempool_alloc (fast_cirq_mempool_init
        \<lparr>fm_free_queues = [], fm_size = 0, fm_point = 0, fm_length = 0\<rparr> 4 8 4096) = Inr (c, mp1)
    \<and> fast_cirq_mempool_free mp1 c = Inr mp2
    \<and> fast_cirq_mempool_alloc mp2 = Inr (c, mp3)
    \<and> fast_cirq_mempool_alloc mp3 = Inr (c, mp4)"
  by (rule fast_cirq_mempool_double_alloc) simp_all

end
