(* ===== verification/Spsc_Queue.thy ===== *)
theory Spsc_Queue
  imports Circular_Queue
begin

text \<open>
  A circular queue between two threads. The stack shares every ring between one producer and
  one consumer with no lock: \<^verbatim>\<open>cirq_add\<close> tests for a full ring, writes the slot, fences and
  then moves \<^verbatim>\<open>head\<close>; \<^verbatim>\<open>cirq_get\<close> tests for an empty ring, reads the slot, fences
  and then moves \<^verbatim>\<open>tail\<close>. The step relation interleaves these accesses one by one; the
  fences keep them in program order. The histories \<open>sent\<close> and \<open>received\<close> are the
  items whose \<^verbatim>\<open>cirq_add\<close> or \<^verbatim>\<open>cirq_get\<close> has completed.
\<close>

section \<open>Interleaved steps\<close>

datatype producer_pc = P_idle | P_write ptr | P_publish ptr
datatype consumer_pc = C_idle | C_read | C_advance ptr

record spsc =
  sp_ring :: circular_queue
  sp_prod :: producer_pc
  sp_cons :: consumer_pc
  sp_sent :: "ptr list"
  sp_received :: "ptr list"

inductive spsc_step :: "spsc \<Rightarrow> spsc \<Rightarrow> bool" where
  add_refused: "sp_prod s = P_idle \<Longrightarrow> cirq_full (sp_ring s) \<Longrightarrow> spsc_step s s"
| add_test: "sp_prod s = P_idle \<Longrightarrow> \<not> cirq_full (sp_ring s) \<Longrightarrow>
    spsc_step s (s\<lparr>sp_prod := P_write x\<rparr>)"
| add_write: "sp_prod s = P_write x \<Longrightarrow>
    spsc_step s (s\<lparr>sp_prod := P_publish x,
      sp_ring := (sp_ring s)\<lparr>cq_queue := (cq_queue (sp_ring s))[unat (cq_head (sp_ring s)) := x]\<rparr>\<rparr>)"
| add_publish: "sp_prod s = P_publish x \<Longrightarrow>
    spsc_step s (s\<lparr>sp_prod := P_idle, sp_sent := sp_sent s @ [x],
      sp_ring := (sp_ring s)\<lparr>cq_head := cirq_succ (sp_ring s) (cq_head (sp_ring s))\<rparr>\<rparr>)"
| get_refused: "sp_cons s = C_idle \<Longrightarrow> cirq_empty (sp_ring s) \<Longrightarrow> spsc_step s s"
| get_test: "sp_cons s = C_idle \<Longrightarrow> \<not> cirq_empty (sp_ring s) \<Longrightarrow>
    spsc_step s (s\<lparr>sp_cons := C_read\<rparr>)"
| get_read: "sp_cons s = C_read \<Longrightarrow>
    spsc_step s (s\<lparr>sp_cons := C_advance (cq_queue (sp_ring s) ! unat (cq_tail (sp_ring s)))\<rparr>)"
| get_advance: "sp_cons s = C_advance x \<Longrightarrow>
    spsc_step s (s\<lparr>sp_cons := C_idle, sp_received := sp_received s @ [x],
      sp_ring := (sp_ring s)\<lparr>cq_tail := cirq_succ (sp_ring s) (cq_tail (sp_ring s))\<rparr>\<rparr>)"

definition spsc_start :: "circular_queue \<Rightarrow> u32 \<Rightarrow> spsc" where
  "spsc_start q sz = \<lparr>sp_ring = cirq_init q sz, sp_prod = P_idle, sp_cons = C_idle,
     sp_sent = [], sp_received = []\<rparr>"

inductive spsc_reachable :: "circular_queue \<Rightarrow> u32 \<Rightarrow> spsc \<Rightarrow> bool" for q sz where
  spsc_init: "spsc_reachable q sz (spsc_start q sz)"
| spsc_next: "spsc_reachable q sz s \<Longrightarrow> spsc_step s s' \<Longrightarrow> spsc_reachable q sz s'"

section \<open>The invariant\<close>

definition prod_ok :: "spsc \<Rightarrow> bool" where
  "prod_ok s \<longleftrightarrow> (case sp_prod s of
       P_idle \<Rightarrow> True
     | P_write x \<Rightarrow> \<not> cirq_full (sp_ring s)
     | P_publish x \<Rightarrow> \<not> cirq_full (sp_ring s)
         \<and> cq_queue (sp_ring s) ! unat (cq_head (sp_ring s)) = x)"

definition cons_ok :: "spsc \<Rightarrow> bool" where
  "cons_ok s \<longleftrightarrow> (case sp_cons s of
       C_idle \<Rightarrow> True
     | C_read \<Rightarrow> cirq_list (sp_ring s) \<noteq> []
     | C_advance x \<Rightarrow> cirq_list (sp_ring s) \<noteq> [] \<and> hd (cirq_list (sp_ring s)) = x)"

definition spsc_inv :: "spsc \<Rightarrow> bool" where
  "spsc_inv s \<longleftrightarrow> cirq_wf (sp_ring s) \<and> sp_sent s = sp_received s @ cirq_list (sp_ring s)
     \<and> prod_ok s \<and> cons_ok s"

lemmas spsc_inv_defs = spsc_inv_def prod_ok_def cons_ok_def

text \<open>The consumer's move of \<^verbatim>\<open>tail\<close> can only make room.\<close>

lemma not_full_after_take:
  assumes "cirq_wf q" "\<not> cirq_empty q"
  shows "\<not> cirq_full (q\<lparr>cq_tail := cirq_succ q (cq_tail q)\<rparr>)"
proof -
  let ?q = "q\<lparr>cq_tail := cirq_succ q (cq_tail q)\<rparr>"
  have "length (cirq_list ?q) < cirq_capacity ?q"
    using cirq_list_take [OF assms] cirq_list_bound [OF assms(1)]
    by (simp add: cirq_capacity_def)
  then show ?thesis using cirq_wf_succ(2) [OF assms(1)] by (simp add: cirq_full_iff)
qed

lemma spsc_inv_start: "0 < sz \<Longrightarrow> spsc_inv (spsc_start q sz)"
  by (simp add: spsc_inv_defs spsc_start_def cirq_init_wf)

lemma spsc_inv_step:
  assumes "spsc_step s s'" "spsc_inv s"
  shows "spsc_inv s'"
  using assms
proof cases
  case (add_write x)
  let ?q = "sp_ring s" and ?w = "(sp_ring s)\<lparr>cq_queue := (cq_queue (sp_ring s))[unat (cq_head (sp_ring s)) := x]\<rparr>"
  have wf: "cirq_wf ?q" and nf: "\<not> cirq_full ?q"
    using assms(2) add_write by (simp_all add: spsc_inv_defs)
  have "cirq_wf ?w" "cirq_list ?w = cirq_list ?q"
    using wf by (simp_all add: cirq_wf_write cirq_list_write)
  then show ?thesis
    using assms(2) add_write nf cirq_wfD [OF wf]
    by (cases "sp_cons s") (simp_all add: spsc_inv_defs)
next
  case (add_publish x)
  have wf: "cirq_wf (sp_ring s)" and nf: "\<not> cirq_full (sp_ring s)"
    and x: "cq_queue (sp_ring s) ! unat (cq_head (sp_ring s)) = x"
    using assms(2) add_publish by (simp_all add: spsc_inv_defs)
  show ?thesis
    using assms(2) add_publish cirq_list_publish [OF wf nf] cirq_wf_succ(1) [OF wf] x
    by (cases "sp_cons s") (simp_all add: spsc_inv_defs)
next
  case get_read
  have wf: "cirq_wf (sp_ring s)" and ne: "\<not> cirq_empty (sp_ring s)"
    using assms(2) get_read by (simp_all add: spsc_inv_defs cirq_empty_iff)
  have "hd (cirq_list (sp_ring s)) = cq_queue (sp_ring s) ! unat (cq_tail (sp_ring s))"
    using cirq_list_take [OF wf ne] by (metis list.sel(1))
  then show ?thesis
    using assms(2) get_read by (cases "sp_prod s") (simp_all add: spsc_inv_defs)
next
  case (get_advance x)
  have wf: "cirq_wf (sp_ring s)" and ne: "\<not> cirq_empty (sp_ring s)"
    using assms(2) get_advance by (simp_all add: spsc_inv_defs cirq_empty_iff)
  obtain ys where "cirq_list (sp_ring s) = x # ys"
      "cirq_list ((sp_ring s)\<lparr>cq_tail := cirq_succ (sp_ring s) (cq_tail (sp_ring s))\<rparr>) = ys"
    using cirq_list_take [OF wf ne] assms(2) get_advance
    by (auto simp: spsc_inv_defs)
  then show ?thesis
    using assms(2) get_advance cirq_wf_succ(2) [OF wf] not_full_after_take [OF wf ne]
    by (cases "sp_prod s") (simp_all add: spsc_inv_defs)
qed (use assms in \<open>auto simp: spsc_inv_defs cirq_empty_iff split: producer_pc.splits consumer_pc.splits\<close>)

lemma spsc_inv_reachable:
  assumes "spsc_reachable q sz s" "0 < sz"
  shows "spsc_inv s"
  using assms by (induction rule: spsc_reachable.induct) (auto intro: spsc_inv_start spsc_inv_step)

lemma spsc_size:
  assumes "spsc_reachable q sz s"
  shows "cq_size (sp_ring s) = sz"
  using assms
proof (induction rule: spsc_reachable.induct)
  case spsc_init
  then show ?case by (simp add: spsc_start_def cirq_init_def)
next
  case (spsc_next s s')
  from spsc_next(2,3) show ?case by (cases rule: spsc_step.cases) simp_all
qed

section \<open>Main properties\<close>

text \<open>
  C17 (safety). In every interleaving of one producer and one consumer, started on an
  initialised ring of any size, the items received so far followed by the items in the ring are
  exactly the items sent, in order: none is lost, duplicated or reordered, and the ring never
  holds more than \<open>size - 1\<close> of them.
\<close>

theorem spsc_fifo:
  assumes "0 < sz" "spsc_reachable q sz s"
  shows "sp_sent s = sp_received s @ cirq_list (sp_ring s)
    \<and> length (cirq_list (sp_ring s)) \<le> unat sz - 1"
proof -
  have "spsc_inv s" using assms by (intro spsc_inv_reachable)
  then show ?thesis
    using cirq_list_bound [of "sp_ring s"] spsc_size [OF assms(2)]
    by (simp add: spsc_inv_def cirq_capacity_def)
qed

text \<open>The three accesses of an unimpeded producer are one call of \<^verbatim>\<open>cirq_add\<close>.\<close>

lemma spsc_add_steps:
  assumes "sp_prod s = P_idle" "\<not> cirq_full (sp_ring s)"
  shows "spsc_step\<^sup>*\<^sup>* s
    (s\<lparr>sp_prod := P_idle, sp_sent := sp_sent s @ [x], sp_ring := snd (cirq_add (sp_ring s) x)\<rparr>)"
proof -
  let ?r = "sp_ring s"
  let ?w = "?r\<lparr>cq_queue := (cq_queue ?r)[unat (cq_head ?r) := x]\<rparr>"
  let ?s1 = "s\<lparr>sp_prod := P_write x\<rparr>" and ?s2 = "s\<lparr>sp_prod := P_publish x, sp_ring := ?w\<rparr>"
  have 1: "spsc_step s ?s1" using assms by (rule add_test)
  have 2: "spsc_step ?s1 ?s2" using add_write [of ?s1 x] by simp
  have 3: "spsc_step ?s2 (s\<lparr>sp_prod := P_idle, sp_sent := sp_sent s @ [x], sp_ring := snd (cirq_add ?r x)\<rparr>)"
    using add_publish [of ?s2 x] assms by (simp add: cirq_add_def Let_def)
  show ?thesis
    by (rule converse_rtranclp_into_rtranclp, rule 1, rule converse_rtranclp_into_rtranclp,
        rule 2, rule r_into_rtranclp, rule 3)
qed

lemma spsc_reachable_star:
  "spsc_step\<^sup>*\<^sup>* s s' \<Longrightarrow> spsc_reachable q sz s \<Longrightarrow> spsc_reachable q sz s'"
  by (induction rule: rtranclp_induct) (auto intro: spsc_next)

theorem spsc_fifo_witness:
  "\<exists>s. spsc_reachable queue0 4 s \<and> sp_sent s = [9]
     \<and> sp_sent s = sp_received s @ cirq_list (sp_ring s)"
proof -
  let ?s = "spsc_start queue0 4"
  let ?t = "?s\<lparr>sp_prod := P_idle, sp_sent := sp_sent ?s @ [9], sp_ring := snd (cirq_add (sp_ring ?s) 9)\<rparr>"
  have "\<not> cirq_full (sp_ring ?s)"
    by (simp add: spsc_start_def cirq_full_def cirq_init_def cirq_succ_def)
  then have "spsc_reachable queue0 4 ?t"
    by (intro spsc_reachable_star [OF spsc_add_steps] spsc_init) (simp add: spsc_start_def)
  moreover have "sp_sent ?t = [9]" by (simp add: spsc_start_def)
  ultimately show ?thesis using spsc_fifo [of 4 queue0 ?t] by (intro exI [of _ ?t]) simp
qed

end
