(* ===== verification/Mempool.thy ===== *)
theory Mempool
  imports Qprelude "HOL-Library.Multiset"
begin

text \<open>
  Pools of chunks for streams and listeners: \<^verbatim>\<open>tools/mempool/src/dpdk_mempool.c\<close> and
  \<^verbatim>\<open>dpdk_chunk.c\<close>. Every core has a private pool of DPDK and all share a public one. Chunks of
  the public pool move in blocks of 1024: what a core takes waits in its list \<^verbatim>\<open>l_hpkt\<close>, what it
  gives back gathers in its list \<^verbatim>\<open>s_hpkt\<close>. The lists are linked through the heads of the chunks.

  DPDK's \<^verbatim>\<open>rte_mempool\<close> is a parameter: its operations are a record, and
  \<open>rte_mempool_laws\<close> is what its documentation says of them. Assertions are active in this library.
\<close>

section \<open>State\<close>

record chunk_head =
  ch_id :: nat
  ch_type :: int
  ch_size :: nat
  ch_pool :: ptr
  ch_next :: ptr
  ch_re :: ptr

text \<open>The size of the head: three integers with padding, and four pointers.\<close>

definition CHUNK_HEAD_LEN :: nat where "CHUNK_HEAD_LEN = 48"
definition MAX_CPUS :: nat where "MAX_CPUS = 40"
definition MAX_TYPES :: int where "MAX_TYPES = 20"
definition MAX_CORE :: nat where "MAX_CORE = 100"
definition ALLOC_NUM :: nat where "ALLOC_NUM = 1024"
definition TEST_ARR :: nat where "TEST_ARR = 1024"

text \<open>\<open>None\<close> is an entry of the array of private pools that was never written.\<close>

record Mempool_t =
  mt_type :: int
  mt_max_core :: nat
  mt_size :: nat
  mt_chunk_get :: bool
  mt_chunk_free :: bool
  mt_mempool_p :: "nat \<Rightarrow> ptr option"
  mt_mempool_s :: "ptr option"
  mt_l_len :: "nat \<Rightarrow> int"
  mt_l_pkt :: "nat \<Rightarrow> ptr"
  mt_l_hpkt :: "nat \<Rightarrow> ptr"
  mt_s_len :: "nat \<Rightarrow> int"
  mt_s_pkt :: "nat \<Rightarrow> ptr"
  mt_s_hpkt :: "nat \<Rightarrow> ptr"
  mt_cur_id :: nat

record 'm rte_pool_ops =
  rp_get :: "'m \<Rightarrow> ptr option \<times> 'm"
  rp_get_bulk :: "nat \<Rightarrow> 'm \<Rightarrow> ptr list option \<times> 'm"
  rp_put :: "ptr \<Rightarrow> 'm \<Rightarrow> 'm"
  rp_put_bulk :: "ptr list \<Rightarrow> 'm \<Rightarrow> 'm"
  rp_size :: "'m \<Rightarrow> nat"

text \<open>
  The heads of the chunks, the pool that DPDK notes in front of every object, and the pools behind
  their handles.
\<close>

record 'm cmem =
  cm_head :: "ptr \<Rightarrow> chunk_head"
  cm_hdr :: "ptr \<Rightarrow> ptr"
  cm_pool :: "ptr \<Rightarrow> 'm"

definition head_upd :: "ptr \<Rightarrow> (chunk_head \<Rightarrow> chunk_head) \<Rightarrow> 'm cmem \<Rightarrow> 'm cmem" where
  "head_upd p f m = m\<lparr>cm_head := (cm_head m)(p := f (cm_head m p))\<rparr>"

definition pool_upd :: "ptr \<Rightarrow> 'm \<Rightarrow> 'm cmem \<Rightarrow> 'm cmem" where
  "pool_upd h pl m = m\<lparr>cm_pool := (cm_pool m)(h := pl)\<rparr>"

section \<open>Taking a chunk\<close>

definition data_type_init_notype :: "ptr \<Rightarrow> int \<Rightarrow> ptr \<Rightarrow> nat \<Rightarrow> 'm cmem \<Rightarrow> int \<times> 'm cmem" where
  "data_type_init_notype mp type obj i m =
     (if obj = NULL then (- 1, m)
      else (2, head_upd obj (\<lambda>h. h\<lparr>ch_type := type, ch_id := i, ch_pool := mp, ch_re := obj + CHUNK_HEAD_LEN\<rparr>) m))"

text \<open>
  From the private pool, or from what the core took from the public pool before. The assertion on
  the pool of the chunk is an assignment.
\<close>

definition alloc_private ::
    "'m rte_pool_ops \<Rightarrow> ptr \<Rightarrow> nat \<Rightarrow> Mempool_t \<Rightarrow> 'm cmem \<Rightarrow> (ptr \<times> Mempool_t \<times> 'm cmem) result" where
  "alloc_private ops mp core_id mt m =
     (if mt_mempool_p mt core_id \<noteq> Some mp then Inl Exit0
      else let (r, pl) = rp_get ops (cm_pool m mp);
               m1 = pool_upd mp pl m;
               targ = (case r of None \<Rightarrow> NULL | Some x \<Rightarrow> x)
           in if targ \<noteq> NULL
              then let m2 = head_upd targ (\<lambda>h. h\<lparr>ch_pool := mp, ch_size := rp_size ops pl\<rparr>) m1
                   in Inr (ch_re (cm_head m2 targ), mt, m2)
              else let targ = mt_l_hpkt mt core_id
                   in if targ = NULL then Inr (NULL, mt, m1)
                      else let mt1 = mt\<lparr>mt_l_hpkt := (mt_l_hpkt mt)(core_id := ch_next (cm_head m1 targ)),
                                        mt_l_len := (mt_l_len mt)(core_id := mt_l_len mt core_id - 1)\<rparr>;
                               m2 = head_upd targ (\<lambda>h. h\<lparr>ch_size := rp_size ops pl\<rparr>) m1
                           in Inr (ch_re (cm_head m2 targ), mt1, m2))"

definition l_append :: "nat \<Rightarrow> ptr \<Rightarrow> Mempool_t \<Rightarrow> 'm cmem \<Rightarrow> Mempool_t \<times> 'm cmem" where
  "l_append core_id targ mt m =
     (if mt_l_len mt core_id = 0
      then (mt\<lparr>mt_l_pkt := (mt_l_pkt mt)(core_id := targ), mt_l_hpkt := (mt_l_hpkt mt)(core_id := targ),
               mt_l_len := (mt_l_len mt)(core_id := mt_l_len mt core_id + 1)\<rparr>,
            head_upd targ (\<lambda>h. h\<lparr>ch_next := NULL\<rparr>) m)
      else (mt\<lparr>mt_l_pkt := (mt_l_pkt mt)(core_id := targ),
               mt_l_len := (mt_l_len mt)(core_id := mt_l_len mt core_id + 1)\<rparr>,
            head_upd targ (\<lambda>h. h\<lparr>ch_next := NULL\<rparr>)
              (head_upd (mt_l_pkt mt core_id) (\<lambda>h. h\<lparr>ch_next := targ\<rparr>) m)))"

text \<open>All chunks of a block but the last go into the list; the last one is handed out.\<close>

fun public_loop :: "nat \<Rightarrow> ptr list \<Rightarrow> Mempool_t \<Rightarrow> 'm cmem \<Rightarrow> ptr \<times> Mempool_t \<times> 'm cmem" where
  "public_loop core_id [] mt m = (NULL, mt, m)"
| "public_loop core_id (targ # ts) mt m =
     (if targ = NULL then (NULL, mt, m)
      else if ts = [] then (ch_re (cm_head m targ), mt, m)
      else let (mt1, m1) = l_append core_id targ mt m in public_loop core_id ts mt1 m1)"

definition alloc_public ::
    "'m rte_pool_ops \<Rightarrow> ptr \<Rightarrow> nat \<Rightarrow> Mempool_t \<Rightarrow> 'm cmem \<Rightarrow> (ptr \<times> Mempool_t \<times> 'm cmem) result" where
  "alloc_public ops mp core_id mt m =
     (if mt_mempool_s mt \<noteq> Some mp then Inl Exit0
      else case rp_get_bulk ops ALLOC_NUM (cm_pool m mp) of
             (None, pl) \<Rightarrow> Inr (NULL, mt, pool_upd mp pl m)
           | (Some ts, pl) \<Rightarrow> Inr (public_loop core_id ts mt (pool_upd mp pl m)))"

definition chunk_alloc_notype ::
    "'m rte_pool_ops \<Rightarrow> ptr \<Rightarrow> int \<Rightarrow> nat \<Rightarrow> Mempool_t \<Rightarrow> 'm cmem \<Rightarrow> (ptr \<times> Mempool_t \<times> 'm cmem) result" where
  "chunk_alloc_notype ops mp type core_id mt m =
     (if mp = NULL then Inr (NULL, mt, m)
      else if type = 1 then alloc_private ops mp core_id mt m
      else alloc_public ops mp core_id mt m)"

definition mempool_alloc_chunk ::
    "'m rte_pool_ops \<Rightarrow> nat \<Rightarrow> Mempool_t \<Rightarrow> 'm cmem \<Rightarrow> (ptr \<times> Mempool_t \<times> 'm cmem) result" where
  "mempool_alloc_chunk ops core_id mt m =
     (if mt_type mt < 0 \<or> mt_type mt \<ge> MAX_TYPES then Inr (NULL, mt, m)
      else if \<not> mt_chunk_get mt then Inr (NULL, mt, m)
      else if core_id \<ge> MAX_CPUS then Inl Undefined
      else let mt1 = mt\<lparr>mt_cur_id := core_id\<rparr>
           in case mt_mempool_p mt1 core_id of
                None \<Rightarrow> Inl Undefined
              | Some mp \<Rightarrow> bind_r (chunk_alloc_notype ops mp 1 core_id mt1 m) (\<lambda>(target, mt2, m2).
                  if target \<noteq> NULL then Inr (target, mt2, m2)
                  else case mt_mempool_s mt2 of
                         None \<Rightarrow> Inl Undefined
                       | Some ms \<Rightarrow> chunk_alloc_notype ops ms 100 core_id mt2 m2))"

section \<open>Giving a chunk back\<close>

text \<open>The walk that fills the array with the gathered chunks.\<close>

fun collect_loop :: "nat \<Rightarrow> ptr \<Rightarrow> ptr \<Rightarrow> 'm cmem \<Rightarrow> ptr list result" where
  "collect_loop 0 point targ m = Inr []"
| "collect_loop (Suc i) point targ m =
     (if point = NULL then Inl Undefined
      else if ch_pool (cm_head m point) \<noteq> ch_pool (cm_head m targ) then Inl Exit0
      else bind_r (collect_loop i (ch_next (cm_head m point)) targ m) (\<lambda>ps. Inr (point # ps)))"

definition s_append :: "nat \<Rightarrow> ptr \<Rightarrow> Mempool_t \<Rightarrow> 'm cmem \<Rightarrow> (Mempool_t \<times> 'm cmem) result" where
  "s_append core targ mt m =
     (if mt_s_len mt core = 0
      then Inr (mt\<lparr>mt_s_pkt := (mt_s_pkt mt)(core := targ), mt_s_hpkt := (mt_s_hpkt mt)(core := targ),
                   mt_s_len := (mt_s_len mt)(core := mt_s_len mt core + 1)\<rparr>,
                head_upd targ (\<lambda>h. h\<lparr>ch_next := NULL\<rparr>) m)
      else if mt_s_pkt mt core = NULL then Inl Exit0
      else Inr (mt\<lparr>mt_s_pkt := (mt_s_pkt mt)(core := targ),
                   mt_s_len := (mt_s_len mt)(core := mt_s_len mt core + 1)\<rparr>,
                head_upd (mt_s_pkt mt core) (\<lambda>h. h\<lparr>ch_next := targ\<rparr>) (head_upd targ (\<lambda>h. h\<lparr>ch_next := NULL\<rparr>) m)))"

text \<open>A full block goes back to the public pool.\<close>

definition s_flush :: "'m rte_pool_ops \<Rightarrow> nat \<Rightarrow> ptr \<Rightarrow> Mempool_t \<Rightarrow> 'm cmem \<Rightarrow> (Mempool_t \<times> 'm cmem) result" where
  "s_flush ops core targ mt m =
     (if mt_s_len mt core \<noteq> int TEST_ARR then Inr (mt, m)
      else bind_r (collect_loop TEST_ARR (mt_s_hpkt mt core) targ m) (\<lambda>ps.
        case mt_mempool_s mt of
          None \<Rightarrow> Inl Undefined
        | Some ms \<Rightarrow> Inr (mt\<lparr>mt_s_len := (mt_s_len mt)(core := 0), mt_s_pkt := (mt_s_pkt mt)(core := NULL),
                            mt_s_hpkt := (mt_s_hpkt mt)(core := NULL)\<rparr>,
                          pool_upd ms (rp_put_bulk ops ps (cm_pool m ms)) m)))"

definition chunk_free_notype ::
    "'m rte_pool_ops \<Rightarrow> ptr \<Rightarrow> nat \<Rightarrow> Mempool_t \<Rightarrow> 'm cmem \<Rightarrow> (int \<times> Mempool_t \<times> 'm cmem) result" where
  "chunk_free_notype ops chunk core mt m =
     (if chunk < CHUNK_HEAD_LEN then Inl Undefined
      else let targ = chunk - CHUNK_HEAD_LEN
           in if targ = NULL \<or> ch_pool (cm_head m targ) = NULL then Inl Exit0
              else if mt_mempool_s mt = Some (cm_hdr m targ)
              then if core \<ge> MAX_CPUS then Inl Undefined
                   else bind_r (s_append core targ mt m) (\<lambda>(mt1, m1).
                        bind_r (s_flush ops core targ mt1 m1) (\<lambda>(mt2, m2). Inr (2, mt2, m2)))
              else let mp = ch_pool (cm_head m targ)
                   in Inr (2, mt, pool_upd mp (rp_put ops targ (cm_pool m mp)) m))"

definition mempool_free_chunk ::
    "'m rte_pool_ops \<Rightarrow> ptr \<Rightarrow> nat \<Rightarrow> Mempool_t \<Rightarrow> 'm cmem \<Rightarrow> (int \<times> Mempool_t \<times> 'm cmem) result" where
  "mempool_free_chunk ops chunk core_id mt m =
     (if chunk = NULL then Inr (- 1, mt, m)
      else if \<not> mt_chunk_free mt then Inr (0, mt, m)
      else chunk_free_notype ops chunk core_id mt m)"

definition mempool_destroy :: "Mempool_t \<Rightarrow> int" where
  "mempool_destroy mt = - 1"

section \<open>Making a pool\<close>

text \<open>
  \<open>mk i n size\<close> is what the \<open>i\<close>-th call of DPDK's creation function gives for \<open>n\<close>
  objects of \<open>size\<close> bytes: the handle, which is \<open>NULL\<close> if it fails, the objects and the pool. DPDK
  notes the pool in front of every object and calls \<^verbatim>\<open>data_type_init_notype\<close> on it.
\<close>

fun init_objects :: "ptr \<Rightarrow> int \<Rightarrow> nat \<Rightarrow> ptr list \<Rightarrow> 'm cmem \<Rightarrow> 'm cmem" where
  "init_objects mp type i [] m = m"
| "init_objects mp type i (obj # os) m =
     init_objects mp type (Suc i) os (snd (data_type_init_notype mp type obj i (m\<lparr>cm_hdr := (cm_hdr m)(obj := mp)\<rparr>)))"

definition rte_chunk_pool_create ::
    "(nat \<Rightarrow> nat \<Rightarrow> nat \<Rightarrow> ptr \<times> ptr list \<times> 'm) \<Rightarrow> nat \<Rightarrow> nat \<Rightarrow> nat \<Rightarrow> Mempool_t \<Rightarrow> 'm cmem \<Rightarrow> ptr \<times> 'm cmem" where
  "rte_chunk_pool_create mk i n priv_size targ m =
     (let (mp, os, pl) = mk i n (take_bit 16 priv_size)
      in if mp = NULL then (NULL, m) else (mp, init_objects mp (mt_type targ) 0 os (pool_upd mp pl m)))"

fun create_private ::
    "(nat \<Rightarrow> nat \<Rightarrow> nat \<Rightarrow> ptr \<times> ptr list \<times> 'm) \<Rightarrow> nat \<Rightarrow> nat \<Rightarrow> nat list \<Rightarrow> Mempool_t \<Rightarrow> 'm cmem \<Rightarrow> (Mempool_t \<times> 'm cmem) result" where
  "create_private mk n csz [] mt m = Inr (mt, m)"
| "create_private mk n csz (i # js) mt m =
     (let (mp, m1) = rte_chunk_pool_create mk i n csz mt m
      in if mp = NULL then Inl Exit0
         else if i \<ge> MAX_CPUS then Inl Undefined
         else create_private mk n csz js (mt\<lparr>mt_mempool_p := (mt_mempool_p mt)(i := Some mp)\<rparr>) m1)"

definition round_chunk :: "nat \<Rightarrow> nat" where
  "round_chunk n = (if n mod 64 \<noteq> 0 then (n div 64 + 1) * 64 else n)"

text \<open>\<open>ok\<close> tells whether there is memory for the record of the pool.\<close>

definition mempool_create ::
    "bool \<Rightarrow> (nat \<Rightarrow> nat \<Rightarrow> nat \<Rightarrow> ptr \<times> ptr list \<times> 'm) \<Rightarrow> nat \<Rightarrow> u32 \<Rightarrow> u32 \<Rightarrow> nat \<Rightarrow> 'm cmem \<Rightarrow> (Mempool_t option \<times> 'm cmem) result" where
  "mempool_create ok mk csize p_pool_size s_pool_size core_num m =
     (if \<not> ok \<or> core_num \<ge> MAX_CORE then Inr (None, m)
      else let chunk_size = round_chunk (CHUNK_HEAD_LEN + csize)
           in if sint (p_pool_size * of_nat core_num + s_pool_size + 1000) \<le> 0 then Inr (None, m)
              else let mt = \<lparr>mt_type = 2, mt_max_core = core_num, mt_size = chunk_size, mt_chunk_get = True, mt_chunk_free = True,
                             mt_mempool_p = (\<lambda>_. None), mt_mempool_s = None,
                             mt_l_len = (\<lambda>_. 0), mt_l_pkt = (\<lambda>_. NULL), mt_l_hpkt = (\<lambda>_. NULL),
                             mt_s_len = (\<lambda>_. 0), mt_s_pkt = (\<lambda>_. NULL), mt_s_hpkt = (\<lambda>_. NULL), mt_cur_id = 0\<rparr>
                   in bind_r (create_private mk (unat p_pool_size) chunk_size [0..<core_num] mt m) (\<lambda>(mt1, m1).
                        let (mp, m2) = rte_chunk_pool_create mk core_num (unat s_pool_size) chunk_size mt1 m1
                        in if mp = NULL then Inl Exit0 else Inr (Some (mt1\<lparr>mt_mempool_s := Some mp\<rparr>), m2)))"

section \<open>The invariant\<close>

text \<open>
  What DPDK promises of its pools: they hold objects, a single object is handed out unless the pool is
  empty, and a block is handed out as a whole or not at all.
\<close>

definition rte_mempool_laws :: "'m rte_pool_ops \<Rightarrow> ('m \<Rightarrow> ptr multiset) \<Rightarrow> bool" where
  "rte_mempool_laws ops objs \<longleftrightarrow>
     (\<forall>pl pl'. rp_get ops pl = (None, pl') \<longrightarrow> objs pl = {#} \<and> objs pl' = {#})
   \<and> (\<forall>pl x pl'. rp_get ops pl = (Some x, pl') \<longrightarrow> objs pl = add_mset x (objs pl'))
   \<and> (\<forall>n pl pl'. rp_get_bulk ops n pl = (None, pl') \<longrightarrow> size (objs pl) < n \<and> objs pl' = objs pl)
   \<and> (\<forall>n pl xs pl'. rp_get_bulk ops n pl = (Some xs, pl') \<longrightarrow> length xs = n \<and> objs pl = mset xs + objs pl')
   \<and> (\<forall>x pl. objs (rp_put ops x pl) = add_mset x (objs pl))
   \<and> (\<forall>xs pl. objs (rp_put_bulk ops xs pl) = mset xs + objs pl)"

text \<open>A linked list of \<open>n\<close> chunks from \<open>p\<close> on, with \<open>q\<close> as the last one.\<close>

fun cpath :: "(ptr \<Rightarrow> ptr) \<Rightarrow> ptr \<Rightarrow> ptr list \<Rightarrow> bool" where
  "cpath nx p [] \<longleftrightarrow> p = NULL"
| "cpath nx p (x # xs) \<longleftrightarrow> p = x \<and> x \<noteq> NULL \<and> cpath nx (nx x) xs"

definition clist :: "'m cmem \<Rightarrow> ptr \<Rightarrow> ptr \<Rightarrow> int \<Rightarrow> ptr list \<Rightarrow> bool" where
  "clist m p q n xs \<longleftrightarrow> cpath (\<lambda>x. ch_next (cm_head m x)) p xs \<and> n = int (length xs) \<and> (xs \<noteq> [] \<longrightarrow> q = last xs)"

abbreviation priv :: "Mempool_t \<Rightarrow> nat \<Rightarrow> ptr" where
  "priv mt c \<equiv> the (mt_mempool_p mt c)"

abbreviation publ :: "Mempool_t \<Rightarrow> ptr" where
  "publ mt \<equiv> the (mt_mempool_s mt)"

definition core_free :: "('m \<Rightarrow> ptr multiset) \<Rightarrow> Mempool_t \<Rightarrow> 'm cmem \<Rightarrow> (nat \<Rightarrow> ptr list) \<Rightarrow> (nat \<Rightarrow> ptr list) \<Rightarrow> nat \<Rightarrow> ptr multiset" where
  "core_free objs mt m L S c = objs (cm_pool m (priv mt c)) + mset (L c) + mset (S c)"

definition mp_free :: "('m \<Rightarrow> ptr multiset) \<Rightarrow> Mempool_t \<Rightarrow> 'm cmem \<Rightarrow> (nat \<Rightarrow> ptr list) \<Rightarrow> (nat \<Rightarrow> ptr list) \<Rightarrow> ptr multiset" where
  "mp_free objs mt m L S = (\<Sum>c<mt_max_core mt. core_free objs mt m L S c) + objs (cm_pool m (publ mt))"

definition handles_ok :: "Mempool_t \<Rightarrow> bool" where
  "handles_ok mt \<longleftrightarrow> mt_type mt = 2 \<and> mt_chunk_get mt \<and> mt_chunk_free mt \<and> mt_max_core mt \<le> MAX_CPUS
     \<and> (\<forall>c<mt_max_core mt. mt_mempool_p mt c \<noteq> None \<and> priv mt c \<noteq> NULL \<and> priv mt c \<noteq> publ mt)
     \<and> inj_on (priv mt) {..<mt_max_core mt} \<and> mt_mempool_s mt \<noteq> None \<and> publ mt \<noteq> NULL"

definition chunk_ok :: "Mempool_t \<Rightarrow> 'm cmem \<Rightarrow> ptr \<Rightarrow> bool" where
  "chunk_ok mt m x \<longleftrightarrow> x \<noteq> NULL \<and> ch_re (cm_head m x) = x + CHUNK_HEAD_LEN \<and> ch_pool (cm_head m x) = cm_hdr m x
     \<and> (cm_hdr m x = publ mt \<or> (\<exists>c<mt_max_core mt. cm_hdr m x = priv mt c))"

text \<open>
  \<open>L\<close> and \<open>S\<close> are the two lists of every core and \<open>U\<close> the chunks in use: every chunk is in
  exactly one place.
\<close>

definition mp_rel :: "('m \<Rightarrow> ptr multiset) \<Rightarrow> Mempool_t \<Rightarrow> 'm cmem \<Rightarrow> (nat \<Rightarrow> ptr list) \<Rightarrow> (nat \<Rightarrow> ptr list) \<Rightarrow> ptr multiset \<Rightarrow> bool" where
  "mp_rel objs mt m L S U \<longleftrightarrow> handles_ok mt
     \<and> (\<forall>c<mt_max_core mt. clist m (mt_l_hpkt mt c) (mt_l_pkt mt c) (mt_l_len mt c) (L c)
          \<and> clist m (mt_s_hpkt mt c) (mt_s_pkt mt c) (mt_s_len mt c) (S c) \<and> length (S c) < TEST_ARR)
     \<and> (\<forall>x. count (mp_free objs mt m L S + U) x \<le> 1)
     \<and> (\<forall>x\<in>#mp_free objs mt m L S + U. chunk_ok mt m x)
     \<and> (\<forall>c<mt_max_core mt. (\<forall>x\<in>#objs (cm_pool m (priv mt c)). cm_hdr m x = priv mt c)
          \<and> (\<forall>x\<in>set (L c) \<union> set (S c). cm_hdr m x = publ mt))
     \<and> (\<forall>x\<in>#objs (cm_pool m (publ mt)). cm_hdr m x = publ mt)"

section \<open>Lists and sums\<close>

lemma cpath_cong: "(\<And>x. x \<in> set xs \<Longrightarrow> nx' x = nx x) \<Longrightarrow> cpath nx' p xs = cpath nx p xs"
  by (induction xs arbitrary: p) auto

lemma cpath_snoc:
  assumes "cpath nx p xs" "xs \<noteq> []" "distinct xs" "t \<notin> set xs" "t \<noteq> NULL" "nx' (last xs) = t" "nx' t = NULL"
    "\<And>y. y \<noteq> last xs \<Longrightarrow> y \<noteq> t \<Longrightarrow> nx' y = nx y"
  shows "cpath nx' p (xs @ [t])"
  using assms
proof (induction xs arbitrary: p)
  case (Cons a as)
  show ?case
  proof (cases "as = []")
    case False
    then have "a \<noteq> last as" using Cons.prems(3) by auto
    then have "nx' a = nx a" using Cons.prems False by auto
    then show ?thesis using Cons False by auto
  qed (use Cons.prems in auto)
qed simp

lemma head_upd_simps [simp]:
  "cm_head (head_upd p f m) x = (if x = p then f (cm_head m p) else cm_head m x)"
  "cm_hdr (head_upd p f m) = cm_hdr m" "cm_pool (head_upd p f m) = cm_pool m"
  "cm_head (pool_upd h pl m) = cm_head m" "cm_hdr (pool_upd h pl m) = cm_hdr m"
  "cm_pool (pool_upd h pl m) h' = (if h' = h then pl else cm_pool m h')"
  by (auto simp: head_upd_def pool_upd_def)

lemma sum_one:
  fixes F :: "nat \<Rightarrow> 'a multiset"
  assumes "c < n" "\<And>c'. c' \<noteq> c \<Longrightarrow> c' < n \<Longrightarrow> F' c' = F c'" "F c = A + F' c"
  shows "(\<Sum>c<n. F c) = A + (\<Sum>c<n. F' c)"
proof -
  have "(\<Sum>c<n. F c) = F c + sum F ({..<n} - {c})" using assms(1) by (simp add: sum.remove)
  also have "sum F ({..<n} - {c}) = sum F' ({..<n} - {c})" by (rule sum.cong) (use assms(2) in auto)
  also have "F c + \<dots> = A + (\<Sum>c<n. F' c)" using assms(1,3) by (simp add: sum.remove [of _ c F'])
  finally show ?thesis .
qed

lemma sum_two_sub:
  fixes F :: "nat \<Rightarrow> 'a multiset"
  assumes "c < n" "c' < n" "c \<noteq> c'"
  shows "F c + F c' \<subseteq># (\<Sum>c<n. F c)"
proof -
  have "(\<Sum>c<n. F c) = F c + (F c' + sum F ({..<n} - {c} - {c'}))"
    using assms by (simp add: sum.remove [of _ c F] sum.remove [of _ c' F])
  then show ?thesis by (simp add: ac_simps)
qed

lemma sum_one_sub:
  fixes F :: "nat \<Rightarrow> 'a multiset"
  shows "c < n \<Longrightarrow> F c \<subseteq># (\<Sum>c<n. F c)"
  by (simp add: sum.remove [of _ c F])

text \<open>In a multiset without repetitions the parts are disjoint and lists in it have no repetitions.\<close>

lemma sub_once: "A \<subseteq># M \<Longrightarrow> (\<forall>x. count M x \<le> 1) \<Longrightarrow> \<forall>x. count A x \<le> 1"
  by (meson le_trans mset_subset_eq_count)

lemma once_disjoint: "(\<forall>x. count (A + B) x \<le> 1) \<Longrightarrow> x \<in># A \<Longrightarrow> x \<notin># B"
proof
  assume a: "\<forall>x. count (A + B) x \<le> 1" "x \<in># A" "x \<in># B"
  then have "1 \<le> count A x" "1 \<le> count B x" by (simp_all add: Suc_le_eq)
  moreover have "count A x + count B x \<le> 1" using a(1) by simp
  ultimately show False by linarith
qed

lemma once_distinct: "(\<forall>x. count (mset xs) x \<le> 1) \<Longrightarrow> distinct xs"
proof (induction xs)
  case (Cons a xs)
  have "count (mset xs) a = 0" using Cons.prems [rule_format, of a] by simp
  moreover have "count (mset xs) x \<le> 1" for x
    by (rule le_trans [OF _ Cons.prems [rule_format, of x]]) simp
  ultimately show ?case using Cons.IH by (simp add: count_eq_zero_iff)
qed simp

section \<open>Consequences of the invariant\<close>

lemma core_free_sub: "c < mt_max_core mt \<Longrightarrow> core_free objs mt m L S c \<subseteq># mp_free objs mt m L S"
  unfolding mp_free_def by (metis mset_subset_eq_add_left subset_mset.order_trans sum_one_sub)

lemma mp_rel_core:
  assumes "mp_rel objs mt m L S U" "c < mt_max_core mt"
  shows "distinct (L c)" "distinct (S c)" "set (L c) \<inter> set (S c) = {}"
    "x \<in># U \<Longrightarrow> x \<notin> set (L c)" "x \<in># U \<Longrightarrow> x \<notin> set (S c)"
    "x \<in># objs (cm_pool m (priv mt c)) \<Longrightarrow> x \<notin> set (L c)" "x \<in># objs (cm_pool m (priv mt c)) \<Longrightarrow> x \<notin> set (S c)"
    "x \<in># objs (cm_pool m (publ mt)) \<Longrightarrow> x \<notin> set (L c)" "x \<in># objs (cm_pool m (publ mt)) \<Longrightarrow> x \<notin> set (S c)"
proof -
  have once: "\<forall>x. count (mp_free objs mt m L S + U) x \<le> 1" using assms(1) by (simp add: mp_rel_def)
  have "core_free objs mt m L S c + objs (cm_pool m (publ mt)) + U \<subseteq># mp_free objs mt m L S + U"
    using sum_one_sub [OF assms(2), of "core_free objs mt m L S"] by (simp add: mp_free_def)
  then have o: "\<forall>x. count (core_free objs mt m L S c + objs (cm_pool m (publ mt)) + U) x \<le> 1"
    using sub_once once by blast
  have o1: "\<forall>x. count (mset (L c) + (mset (S c) + (U + objs (cm_pool m (priv mt c)) + objs (cm_pool m (publ mt))))) x \<le> 1"
    using o by (simp add: core_free_def ac_simps)
  have o2: "\<forall>x. count (mset (S c) + (mset (L c) + (U + objs (cm_pool m (priv mt c)) + objs (cm_pool m (publ mt))))) x \<le> 1"
    using o by (simp add: core_free_def ac_simps)
  show "distinct (L c)" by (rule once_distinct, rule sub_once [OF _ o1]) simp
  show "distinct (S c)" by (rule once_distinct, rule sub_once [OF _ o2]) simp
  show "set (L c) \<inter> set (S c) = {}" using once_disjoint [OF o1] by auto
  show "x \<in># U \<Longrightarrow> x \<notin> set (L c)" "x \<in># objs (cm_pool m (priv mt c)) \<Longrightarrow> x \<notin> set (L c)"
    "x \<in># objs (cm_pool m (publ mt)) \<Longrightarrow> x \<notin> set (L c)"
    using once_disjoint [OF o1] by auto
  show "x \<in># U \<Longrightarrow> x \<notin> set (S c)" "x \<in># objs (cm_pool m (priv mt c)) \<Longrightarrow> x \<notin> set (S c)"
    "x \<in># objs (cm_pool m (publ mt)) \<Longrightarrow> x \<notin> set (S c)"
    using once_disjoint [OF o2] by auto
qed

lemma mp_rel_two:
  assumes "mp_rel objs mt m L S U" "c < mt_max_core mt" "c' < mt_max_core mt" "c \<noteq> c'"
  shows "x \<in># core_free objs mt m L S c \<Longrightarrow> x \<notin> set (L c') \<and> x \<notin> set (S c')"
proof -
  have once: "\<forall>x. count (mp_free objs mt m L S + U) x \<le> 1" using assms(1) by (simp add: mp_rel_def)
  have "core_free objs mt m L S c + core_free objs mt m L S c' \<subseteq># mp_free objs mt m L S + U"
    using sum_two_sub [OF assms(2-4), of "core_free objs mt m L S"] unfolding mp_free_def
    by (metis mset_subset_eq_add_left subset_mset.order_trans)
  then have "\<forall>x. count (core_free objs mt m L S c + core_free objs mt m L S c') x \<le> 1"
    using sub_once once by blast
  from once_disjoint [OF this] show "x \<in># core_free objs mt m L S c \<Longrightarrow> x \<notin> set (L c') \<and> x \<notin> set (S c')"
    by (auto simp: core_free_def)
qed

lemma in_mp_free:
  "c < mt_max_core mt \<Longrightarrow> x \<in># core_free objs mt m L S c \<Longrightarrow> x \<in># mp_free objs mt m L S"
  "x \<in># objs (cm_pool m (publ mt)) \<Longrightarrow> x \<in># mp_free objs mt m L S"
  subgoal using mset_subset_eqD [OF core_free_sub] by blast
  by (simp add: mp_free_def)

text \<open>A step that moves chunks between the places and leaves their heads consistent keeps the invariant.\<close>

definition same_handles :: "Mempool_t \<Rightarrow> Mempool_t \<Rightarrow> bool" where
  "same_handles mt mt' \<longleftrightarrow> mt_type mt' = mt_type mt \<and> mt_chunk_get mt' = mt_chunk_get mt \<and> mt_chunk_free mt' = mt_chunk_free mt
     \<and> mt_max_core mt' = mt_max_core mt \<and> mt_mempool_p mt' = mt_mempool_p mt \<and> mt_mempool_s mt' = mt_mempool_s mt"

lemma mp_rel_move:
  assumes R: "mp_rel objs mt m L S U" and h: "same_handles mt mt'"
    and tot: "mp_free objs mt' m' L' S' + U' = mp_free objs mt m L S + U"
    and heads: "\<And>x. x \<in># mp_free objs mt m L S + U \<Longrightarrow>
      ch_re (cm_head m' x) = ch_re (cm_head m x) \<and> ch_pool (cm_head m' x) = ch_pool (cm_head m x)" "cm_hdr m' = cm_hdr m"
    and l: "\<And>c. c < mt_max_core mt \<Longrightarrow> clist m' (mt_l_hpkt mt' c) (mt_l_pkt mt' c) (mt_l_len mt' c) (L' c)
      \<and> clist m' (mt_s_hpkt mt' c) (mt_s_pkt mt' c) (mt_s_len mt' c) (S' c) \<and> length (S' c) < TEST_ARR"
    and home: "\<And>c x. c < mt_max_core mt \<Longrightarrow> x \<in># objs (cm_pool m' (priv mt c)) \<Longrightarrow> cm_hdr m x = priv mt c"
      "\<And>c x. c < mt_max_core mt \<Longrightarrow> x \<in> set (L' c) \<union> set (S' c) \<Longrightarrow> cm_hdr m x = publ mt"
      "\<And>x. x \<in># objs (cm_pool m' (publ mt)) \<Longrightarrow> cm_hdr m x = publ mt"
  shows "mp_rel objs mt' m' L' S' U'"
proof -
  have ok: "chunk_ok mt' m' x" if "x \<in># mp_free objs mt m L S + U" for x
    using R heads that h by (simp add: mp_rel_def chunk_ok_def same_handles_def)
  have hs: "handles_ok mt'" using R h by (simp add: mp_rel_def handles_ok_def same_handles_def)
  have once: "\<forall>x. count (mp_free objs mt m L S + U) x \<le> 1" using R by (simp add: mp_rel_def)
  show ?thesis
    unfolding mp_rel_def tot using ok hs once l home heads(2) h by (simp add: same_handles_def)
qed

lemma mp_rel_clist:
  assumes "mp_rel objs mt m L S U" "c < mt_max_core mt"
  shows "clist m (mt_l_hpkt mt c) (mt_l_pkt mt c) (mt_l_len mt c) (L c)"
    "clist m (mt_s_hpkt mt c) (mt_s_pkt mt c) (mt_s_len mt c) (S c)" "length (S c) < TEST_ARR"
  using assms by (auto simp: mp_rel_def)

lemma mp_rel_home:
  assumes "mp_rel objs mt m L S U"
  shows "c < mt_max_core mt \<Longrightarrow> x \<in># objs (cm_pool m (priv mt c)) \<Longrightarrow> cm_hdr m x = priv mt c"
    "c < mt_max_core mt \<Longrightarrow> x \<in> set (L c) \<union> set (S c) \<Longrightarrow> cm_hdr m x = publ mt"
    "x \<in># objs (cm_pool m (publ mt)) \<Longrightarrow> cm_hdr m x = publ mt"
    "x \<in># mp_free objs mt m L S + U \<Longrightarrow> chunk_ok mt m x"
  using assms by (auto simp: mp_rel_def)

lemma mp_rel_handles:
  assumes "mp_rel objs mt m L S U" "c < mt_max_core mt"
  shows "mt_mempool_p mt c = Some (priv mt c)" "priv mt c \<noteq> NULL" "priv mt c \<noteq> publ mt" "mt_mempool_s mt = Some (publ mt)"
    "publ mt \<noteq> NULL" "c < MAX_CPUS" "mt_type mt = 2" "mt_chunk_get mt" "mt_chunk_free mt"
    "c' < mt_max_core mt \<Longrightarrow> priv mt c' = priv mt c \<Longrightarrow> c' = c"
  using assms by (auto simp: mp_rel_def handles_ok_def dest: inj_onD)

lemma clist_heads:
  "(\<And>x. x \<in> set xs \<Longrightarrow> ch_next (cm_head m' x) = ch_next (cm_head m x)) \<Longrightarrow> clist m' p q n xs = clist m p q n xs"
  unfolding clist_def by (subst cpath_cong) auto

section \<open>Taking a chunk\<close>

lemma laws_get:
  assumes "rte_mempool_laws ops objs"
  shows "rp_get ops pl = (None, pl') \<Longrightarrow> objs pl = {#} \<and> objs pl' = {#}"
    "rp_get ops pl = (Some x, pl') \<Longrightarrow> objs pl = add_mset x (objs pl')"
    "rp_get_bulk ops n pl = (None, pl') \<Longrightarrow> size (objs pl) < n \<and> objs pl' = objs pl"
    "rp_get_bulk ops n pl = (Some xs, pl') \<Longrightarrow> length xs = n \<and> objs pl = mset xs + objs pl'"
    "objs (rp_put ops x pl) = add_mset x (objs pl)" "objs (rp_put_bulk ops xs pl) = mset xs + objs pl"
  using assms unfolding rte_mempool_laws_def by blast+

lemma private_get:
  assumes laws: "rte_mempool_laws ops objs" and R: "mp_rel objs mt m L S U" and c: "c < mt_max_core mt"
    and g: "rp_get ops (cm_pool m (priv mt c)) = (Some x, pl)"
  shows "\<exists>m'. alloc_private ops (priv mt c) c mt m = Inr (x + CHUNK_HEAD_LEN, mt, m')
    \<and> mp_free objs mt m L S = add_mset x (mp_free objs mt m' L S) \<and> mp_rel objs mt m' L S (add_mset x U)"
proof -
  have o: "objs (cm_pool m (priv mt c)) = add_mset x (objs pl)" using laws_get(2) [OF laws g] .
  have x: "chunk_ok mt m x" "cm_hdr m x = priv mt c"
    using mp_rel_home(1) [OF R c, of x] mp_rel_home(4) [OF R, of x] in_mp_free(1) [OF c, of x objs m L S] o
    by (auto simp: core_free_def)
  define m' where "m' = head_upd x (\<lambda>h. h\<lparr>ch_pool := priv mt c, ch_size := rp_size ops pl\<rparr>) (pool_upd (priv mt c) pl m)"
  have r: "alloc_private ops (priv mt c) c mt m = Inr (x + CHUNK_HEAD_LEN, mt, m')"
    using g x mp_rel_handles(1) [OF R c] by (simp add: alloc_private_def chunk_ok_def m'_def)
  have pool: "cm_pool m' (priv mt c') = cm_pool m (priv mt c')" if "c' < mt_max_core mt" "c' \<noteq> c" for c'
    using that mp_rel_handles(10) [OF R c] by (auto simp: m'_def)
  have pub: "cm_pool m' (publ mt) = cm_pool m (publ mt)" using mp_rel_handles(3) [OF R c] by (auto simp: m'_def)
  have mine: "cm_pool m' (priv mt c) = pl" by (simp add: m'_def)
  have cl': "clist m' p q n ys = clist m p q n ys" for p q n ys by (rule clist_heads) (simp add: m'_def)
  have "(\<Sum>c<mt_max_core mt. core_free objs mt m L S c) = {#x#} + (\<Sum>c<mt_max_core mt. core_free objs mt m' L S c)"
    by (rule sum_one [OF c]) (simp_all add: core_free_def pool mine o)
  then have free: "mp_free objs mt m L S = add_mset x (mp_free objs mt m' L S)" by (simp add: mp_free_def pub)
  have "mp_rel objs mt m' L S (add_mset x U)"
  proof (rule mp_rel_move [OF R])
    show "cm_hdr m x' = priv mt c'" if "c' < mt_max_core mt" "x' \<in># objs (cm_pool m' (priv mt c'))" for c' x'
      using that mp_rel_home(1) [OF R, of c' x'] pool [of c'] mine o by (cases "c' = c") auto
    show "clist m' (mt_l_hpkt mt c') (mt_l_pkt mt c') (mt_l_len mt c') (L c')
        \<and> clist m' (mt_s_hpkt mt c') (mt_s_pkt mt c') (mt_s_len mt c') (S c') \<and> length (S c') < TEST_ARR" if "c' < mt_max_core mt" for c'
      using mp_rel_clist [OF R that] by (simp add: cl')
    show "ch_re (cm_head m' y) = ch_re (cm_head m y) \<and> ch_pool (cm_head m' y) = ch_pool (cm_head m y)" for y
      using x by (simp add: m'_def chunk_ok_def)
    show "cm_hdr m' = cm_hdr m" by (simp add: m'_def)
  qed (use mp_rel_home(2,3) [OF R] in \<open>auto simp: free same_handles_def pub\<close>)
  then show ?thesis using r free by blast
qed

lemma private_list:
  assumes laws: "rte_mempool_laws ops objs" and R: "mp_rel objs mt m L S U" and c: "c < mt_max_core mt"
    and g: "rp_get ops (cm_pool m (priv mt c)) = (None, pl)" and L: "L c = x # xs"
  shows "\<exists>mt' m'. alloc_private ops (priv mt c) c mt m = Inr (x + CHUNK_HEAD_LEN, mt', m')
    \<and> mp_free objs mt m L S = add_mset x (mp_free objs mt' m' (L(c := xs)) S) \<and> mp_rel objs mt' m' (L(c := xs)) S (add_mset x U)
    \<and> mt_max_core mt' = mt_max_core mt"
proof -
  have o: "objs (cm_pool m (priv mt c)) = {#}" "objs pl = {#}" using laws_get(1) [OF laws g] by simp_all
  have cl: "clist m (mt_l_hpkt mt c) (mt_l_pkt mt c) (mt_l_len mt c) (x # xs)" using mp_rel_clist(1) [OF R c] L by simp
  have x: "chunk_ok mt m x"
    using mp_rel_home(4) [OF R, of x] in_mp_free(1) [OF c, of x objs m L S] L by (auto simp: core_free_def)
  define m' where "m' = head_upd x (\<lambda>h. h\<lparr>ch_size := rp_size ops pl\<rparr>) (pool_upd (priv mt c) pl m)"
  define mt' where "mt' = mt\<lparr>mt_l_hpkt := (mt_l_hpkt mt)(c := ch_next (cm_head m x)), mt_l_len := (mt_l_len mt)(c := mt_l_len mt c - 1)\<rparr>"
  have hp: "mt_l_hpkt mt c = x" "x \<noteq> NULL" using cl by (simp_all add: clist_def)
  have clx: "clist m (ch_next (cm_head m x)) (mt_l_pkt mt c) (mt_l_len mt c - 1) xs" using cl by (auto simp: clist_def)
  have r: "alloc_private ops (priv mt c) c mt m = Inr (x + CHUNK_HEAD_LEN, mt', m')"
    using g x hp mp_rel_handles(1) [OF R c] by (simp add: alloc_private_def chunk_ok_def m'_def mt'_def)
  have same: "same_handles mt mt'" by (simp add: same_handles_def mt'_def)
  have pool: "objs (cm_pool m' h) = objs (cm_pool m h)" for h using o by (simp add: m'_def)
  have "(\<Sum>c<mt_max_core mt. core_free objs mt m L S c) = {#x#} + (\<Sum>c'<mt_max_core mt. core_free objs mt' m' (L(c := xs)) S c')"
    by (rule sum_one [OF c]) (simp_all add: core_free_def pool o L mt'_def)
  then have free: "mp_free objs mt m L S = add_mset x (mp_free objs mt' m' (L(c := xs)) S)" by (simp add: mp_free_def pool mt'_def)
  have cl': "clist m' p q n ys = clist m p q n ys" for p q n ys by (rule clist_heads) (simp add: m'_def)
  have "mp_rel objs mt' m' (L(c := xs)) S (add_mset x U)"
  proof (rule mp_rel_move [OF R same])
    show "clist m' (mt_l_hpkt mt' c') (mt_l_pkt mt' c') (mt_l_len mt' c') ((L(c := xs)) c')
        \<and> clist m' (mt_s_hpkt mt' c') (mt_s_pkt mt' c') (mt_s_len mt' c') (S c') \<and> length (S c') < TEST_ARR" if "c' < mt_max_core mt" for c'
      using mp_rel_clist [OF R that] clx by (simp add: cl' mt'_def)
    show "cm_hdr m y = publ mt" if "c' < mt_max_core mt" "y \<in> set ((L(c := xs)) c') \<union> set (S c')" for c' y
      using mp_rel_home(2) [OF R that(1), of y] that(2) L by (cases "c' = c") auto
    show "ch_re (cm_head m' y) = ch_re (cm_head m y) \<and> ch_pool (cm_head m' y) = ch_pool (cm_head m y)" for y
      by (simp add: m'_def)
    show "cm_hdr m' = cm_hdr m" by (simp add: m'_def)
  qed (use mp_rel_home(1,3) [OF R] in \<open>auto simp: free pool\<close>)
  then show ?thesis using r free same unfolding same_handles_def by blast
qed

lemma private_none:
  assumes laws: "rte_mempool_laws ops objs" and R: "mp_rel objs mt m L S U" and c: "c < mt_max_core mt"
    and g: "rp_get ops (cm_pool m (priv mt c)) = (None, pl)" and L: "L c = []"
  shows "alloc_private ops (priv mt c) c mt m = Inr (NULL, mt, pool_upd (priv mt c) pl m)"
    "mp_free objs mt (pool_upd (priv mt c) pl m) L S = mp_free objs mt m L S" "mp_rel objs mt (pool_upd (priv mt c) pl m) L S U"
    "objs (cm_pool m (priv mt c)) = {#}"
proof -
  have o: "objs (cm_pool m (priv mt c)) = {#}" "objs pl = {#}" using laws_get(1) [OF laws g] by simp_all
  define m1 where "m1 = pool_upd (priv mt c) pl m"
  have pool: "objs (cm_pool m1 h) = objs (cm_pool m h)" for h using o by (simp add: m1_def)
  have eq: "cm_head m1 = cm_head m" "cm_hdr m1 = cm_hdr m" by (simp_all add: m1_def)
  have free: "mp_free objs mt m1 L S = mp_free objs mt m L S" by (simp add: mp_free_def core_free_def pool)
  then show "mp_free objs mt (pool_upd (priv mt c) pl m) L S = mp_free objs mt m L S" by (simp add: m1_def)
  have "mp_rel objs mt m1 L S U"
    using R unfolding mp_rel_def free by (simp add: pool clist_def chunk_ok_def eq)
  then show "mp_rel objs mt (pool_upd (priv mt c) pl m) L S U" by (simp add: m1_def)
  show "alloc_private ops (priv mt c) c mt m = Inr (NULL, mt, pool_upd (priv mt c) pl m)"
    using g mp_rel_clist(1) [OF R c] L mp_rel_handles(1) [OF R c] by (simp add: alloc_private_def clist_def)
qed (use laws_get(1) [OF laws g] in simp)

text \<open>The loop over a block appends all but its last chunk to the list of the core.\<close>

definition l_changed :: "nat \<Rightarrow> Mempool_t \<Rightarrow> Mempool_t \<Rightarrow> bool" where
  "l_changed c mt mt' \<longleftrightarrow> same_handles mt mt' \<and> mt_s_hpkt mt' = mt_s_hpkt mt \<and> mt_s_pkt mt' = mt_s_pkt mt \<and> mt_s_len mt' = mt_s_len mt
     \<and> (\<forall>c'. c' \<noteq> c \<longrightarrow> mt_l_hpkt mt' c' = mt_l_hpkt mt c' \<and> mt_l_pkt mt' c' = mt_l_pkt mt c' \<and> mt_l_len mt' c' = mt_l_len mt c')"

definition relinked :: "ptr set \<Rightarrow> 'm cmem \<Rightarrow> 'm cmem \<Rightarrow> bool" where
  "relinked X m m' \<longleftrightarrow> cm_hdr m' = cm_hdr m \<and> cm_pool m' = cm_pool m
     \<and> (\<forall>x. ch_re (cm_head m' x) = ch_re (cm_head m x) \<and> ch_pool (cm_head m' x) = ch_pool (cm_head m x))
     \<and> (\<forall>x. x \<notin> X \<longrightarrow> cm_head m' x = cm_head m x)"

lemma relinked_trans: "relinked X m m' \<Longrightarrow> relinked Y m' m'' \<Longrightarrow> X \<union> Y \<subseteq> Z \<Longrightarrow> relinked Z m m''"
  unfolding relinked_def by (metis Un_iff subsetD)

lemma l_changed_trans: "l_changed c mt mt' \<Longrightarrow> l_changed c mt' mt'' \<Longrightarrow> l_changed c mt mt''"
  by (simp add: l_changed_def same_handles_def)

lemma l_append_list:
  assumes "clist m (mt_l_hpkt mt c) (mt_l_pkt mt c) (mt_l_len mt c) xs" "distinct xs" "t \<notin> set xs" "t \<noteq> NULL"
  shows "\<exists>mt' m'. l_append c t mt m = (mt', m') \<and> clist m' (mt_l_hpkt mt' c) (mt_l_pkt mt' c) (mt_l_len mt' c) (xs @ [t])
    \<and> l_changed c mt mt' \<and> relinked (insert t (set xs)) m m'"
proof (cases "xs = []")
  case True
  then show ?thesis using assms
    by (auto simp: l_append_def clist_def l_changed_def same_handles_def relinked_def)
next
  case False
  let ?m = "head_upd t (\<lambda>h. h\<lparr>ch_next := NULL\<rparr>) (head_upd (mt_l_pkt mt c) (\<lambda>h. h\<lparr>ch_next := t\<rparr>) m)"
  have l: "mt_l_pkt mt c = last xs" "mt_l_len mt c = int (length xs)" "cpath (\<lambda>x. ch_next (cm_head m x)) (mt_l_hpkt mt c) xs"
    using assms(1) False by (simp_all add: clist_def)
  have tn: "t \<noteq> last xs" using assms(3) False by auto
  have "cpath (\<lambda>x. ch_next (cm_head ?m x)) (mt_l_hpkt mt c) (xs @ [t])"
    by (rule cpath_snoc [OF l(3) False assms(2-4)]) (use tn l(1) in auto)
  then show ?thesis
    using False l tn by (auto simp: l_append_def clist_def l_changed_def same_handles_def relinked_def)
qed

lemma public_loop_list:
  assumes "clist m (mt_l_hpkt mt c) (mt_l_pkt mt c) (mt_l_len mt c) xs" "distinct (xs @ ts)" "NULL \<notin> set ts" "ts \<noteq> []"
  shows "\<exists>mt' m'. public_loop c ts mt m = (ch_re (cm_head m (last ts)), mt', m')
    \<and> clist m' (mt_l_hpkt mt' c) (mt_l_pkt mt' c) (mt_l_len mt' c) (xs @ butlast ts)
    \<and> l_changed c mt mt' \<and> relinked (set xs \<union> set ts) m m'"
  using assms
proof (induction ts arbitrary: xs mt m)
  case (Cons t ts)
  show ?case
  proof (cases "ts = []")
    case True
    then show ?thesis using Cons.prems by (auto simp: l_changed_def same_handles_def relinked_def)
  next
    case False
    obtain mt1 m1 where s1: "l_append c t mt m = (mt1, m1)" "clist m1 (mt_l_hpkt mt1 c) (mt_l_pkt mt1 c) (mt_l_len mt1 c) (xs @ [t])"
        "l_changed c mt mt1" "relinked (insert t (set xs)) m m1"
      using l_append_list [OF Cons.prems(1), of t] Cons.prems(2,3) by auto
    obtain mt2 m2 where s2: "public_loop c ts mt1 m1 = (ch_re (cm_head m1 (last ts)), mt2, m2)"
        "clist m2 (mt_l_hpkt mt2 c) (mt_l_pkt mt2 c) (mt_l_len mt2 c) ((xs @ [t]) @ butlast ts)"
        "l_changed c mt1 mt2" "relinked (set (xs @ [t]) \<union> set ts) m1 m2"
      using Cons.IH [OF s1(2) _ _ False] Cons.prems(2,3) by auto
    have "ch_re (cm_head m1 (last ts)) = ch_re (cm_head m (last ts))" using s1(4) by (simp add: relinked_def)
    moreover have "relinked (set xs \<union> set (t # ts)) m m2" by (rule relinked_trans [OF s1(4) s2(4)]) auto
    ultimately show ?thesis
      using s1 s2 False Cons.prems(3) l_changed_trans [OF s1(3) s2(3)] by auto
  qed
qed simp

lemma public_block:
  assumes laws: "rte_mempool_laws ops objs" and R: "mp_rel objs mt m L S U" and c: "c < mt_max_core mt"
    and g: "rp_get_bulk ops ALLOC_NUM (cm_pool m (publ mt)) = (Some ts, pl)" and L: "L c = []"
  shows "\<exists>mt' m'. alloc_public ops (publ mt) c mt m = Inr (last ts + CHUNK_HEAD_LEN, mt', m')
    \<and> mp_free objs mt m L S = add_mset (last ts) (mp_free objs mt' m' (L(c := butlast ts)) S)
    \<and> mp_rel objs mt' m' (L(c := butlast ts)) S (add_mset (last ts) U) \<and> mt_max_core mt' = mt_max_core mt"
proof -
  have o: "length ts = ALLOC_NUM" "objs (cm_pool m (publ mt)) = mset ts + objs pl" using laws_get(4) [OF laws g] by simp_all
  have ne: "ts \<noteq> []" using o(1) by (auto simp: ALLOC_NUM_def)
  have pub: "x \<in># objs (cm_pool m (publ mt))" if "x \<in> set ts" for x using o(2) that by simp
  have ok: "chunk_ok mt m x" if "x \<in> set ts" for x
    using mp_rel_home(4) [OF R, of x] in_mp_free(2) [where L = L and S = S, of x objs m mt] pub [OF that] by simp
  have "\<forall>x. count (mset ts) x \<le> 1"
    by (rule sub_once [of _ "mp_free objs mt m L S + U"]) (use R in \<open>auto simp: mp_rel_def mp_free_def o(2)\<close>)
  then have d: "distinct ts" by (rule once_distinct)
  let ?m = "pool_upd (publ mt) pl m"
  have "clist ?m (mt_l_hpkt mt c) (mt_l_pkt mt c) (mt_l_len mt c) []" using mp_rel_clist(1) [OF R c] L by (simp add: clist_def)
  then obtain mt' m' where l: "public_loop c ts mt ?m = (ch_re (cm_head m (last ts)), mt', m')"
      "clist m' (mt_l_hpkt mt' c) (mt_l_pkt mt' c) (mt_l_len mt' c) (butlast ts)" "l_changed c mt mt'" "relinked (set ts) ?m m'"
    using public_loop_list [of ?m mt c "[]" ts] d ne ok by (auto simp: chunk_ok_def)
  have r: "alloc_public ops (publ mt) c mt m = Inr (last ts + CHUNK_HEAD_LEN, mt', m')"
    using g l(1) mp_rel_handles(4) [OF R c] ok [OF last_in_set [OF ne]] by (simp add: alloc_public_def chunk_ok_def)
  have same: "same_handles mt mt'" using l(3) by (simp add: l_changed_def)
  have pool: "cm_pool m' (priv mt c') = cm_pool m (priv mt c')" if "c' < mt_max_core mt" for c'
    using l(4) mp_rel_handles(3) [OF R that] by (simp add: relinked_def)
  have mine: "cm_pool m' (publ mt) = pl" using l(4) by (simp add: relinked_def)
  have "(\<Sum>c'<mt_max_core mt. core_free objs mt' m' (L(c := butlast ts)) S c')
      = mset (butlast ts) + (\<Sum>c'<mt_max_core mt. core_free objs mt m L S c')"
    by (rule sum_one [OF c]) (use same c in \<open>simp_all add: core_free_def pool L same_handles_def ac_simps\<close>)
  moreover have "mset ts = add_mset (last ts) (mset (butlast ts))"
    by (subst append_butlast_last_id [OF ne, symmetric]) simp
  ultimately have free: "mp_free objs mt m L S = add_mset (last ts) (mp_free objs mt' m' (L(c := butlast ts)) S)"
    using same by (simp add: mp_free_def mine o(2) same_handles_def)
  have other: "clist m' p q n ys = clist m p q n ys" if "set ys \<inter> set ts = {}" for p q n ys
    by (rule clist_heads) (use l(4) that in \<open>auto simp: relinked_def\<close>)
  have "mp_rel objs mt' m' (L(c := butlast ts)) S (add_mset (last ts) U)"
  proof (rule mp_rel_move [OF R same])
    show "clist m' (mt_l_hpkt mt' c') (mt_l_pkt mt' c') (mt_l_len mt' c') ((L(c := butlast ts)) c')
        \<and> clist m' (mt_s_hpkt mt' c') (mt_s_pkt mt' c') (mt_s_len mt' c') (S c') \<and> length (S c') < TEST_ARR" if "c' < mt_max_core mt" for c'
    proof -
      have "set (L c') \<inter> set ts = {}" "set (S c') \<inter> set ts = {}" using mp_rel_core(8,9) [OF R that] pub by auto
      then show ?thesis
        using mp_rel_clist [OF R that] l(2,3) by (cases "c' = c") (simp_all add: other l_changed_def)
    qed
    show "cm_hdr m y = publ mt" if "c' < mt_max_core mt" "y \<in> set ((L(c := butlast ts)) c') \<union> set (S c')" for c' y
      using mp_rel_home(2) [OF R that(1), of y] that(2) mp_rel_home(3) [OF R pub, of y]
      by (cases "c' = c") (auto dest: in_set_butlastD)
    show "ch_re (cm_head m' y) = ch_re (cm_head m y) \<and> ch_pool (cm_head m' y) = ch_pool (cm_head m y)" for y
      using l(4) by (simp add: relinked_def)
    show "cm_hdr m' = cm_hdr m" using l(4) by (simp add: relinked_def)
    show "cm_hdr m y = priv mt c'" if "c' < mt_max_core mt" "y \<in># objs (cm_pool m' (priv mt c'))" for c' y
      using mp_rel_home(1) [OF R that(1), of y] that pool by simp
    show "cm_hdr m y = publ mt" if "y \<in># objs (cm_pool m' (publ mt))" for y
      using mp_rel_home(3) [OF R, of y] that o(2) by (simp add: mine)
  qed (simp add: free)
  then show ?thesis using r free same unfolding same_handles_def by blast
qed

lemma mp_rel_cur:
  "mp_rel objs (mt\<lparr>mt_cur_id := c\<rparr>) m L S U = mp_rel objs mt m L S U"
  "mp_free objs (mt\<lparr>mt_cur_id := c\<rparr>) m L S = mp_free objs mt m L S"
  by (simp_all add: mp_rel_def handles_ok_def chunk_ok_def mp_free_def core_free_def)

lemma alloc_chunk_ok:
  assumes laws: "rte_mempool_laws ops objs" and R: "mp_rel objs mt m L S U" and c: "c < mt_max_core mt"
  shows "\<exists>p mt' m' L'. mempool_alloc_chunk ops c mt m = Inr (p, mt', m') \<and> mt_max_core mt' = mt_max_core mt
    \<and> (if p = NULL
       then objs (cm_pool m (priv mt c)) = {#} \<and> L c = [] \<and> size (objs (cm_pool m (publ mt))) < ALLOC_NUM
         \<and> mp_rel objs mt' m' L S U \<and> mp_free objs mt' m' L S = mp_free objs mt m L S
       else \<exists>x. p = x + CHUNK_HEAD_LEN \<and> mp_free objs mt m L S = add_mset x (mp_free objs mt' m' L' S)
         \<and> mp_rel objs mt' m' L' S (add_mset x U))"
proof -
  note hs = mp_rel_handles [OF R c]
  define mt1 where "mt1 = mt\<lparr>mt_cur_id := c\<rparr>"
  have R1: "mp_rel objs mt1 m L S U" "c < mt_max_core mt1" "mp_free objs mt1 m L S = mp_free objs mt m L S" "mt_max_core mt1 = mt_max_core mt"
    using R c by (simp_all add: mt1_def mp_rel_cur)
  have m1: "priv mt1 c = priv mt c" "publ mt1 = publ mt" "mt_mempool_p mt1 c = Some (priv mt c)" "mt_mempool_s mt1 = Some (publ mt)"
    using hs by (simp_all add: mt1_def)
  have top: "mempool_alloc_chunk ops c mt m = bind_r (alloc_private ops (priv mt c) c mt1 m) (\<lambda>(target, mt2, m2).
      if target \<noteq> NULL then Inr (target, mt2, m2)
      else case mt_mempool_s mt2 of None \<Rightarrow> Inl Undefined | Some ms \<Rightarrow> chunk_alloc_notype ops ms 100 c mt2 m2)"
  proof -
    obtain h where h: "mt_mempool_p mt c = Some h" using hs(1) by blast
    then show ?thesis using hs(2,6-8) by (simp add: mempool_alloc_chunk_def mt1_def chunk_alloc_notype_def MAX_TYPES_def)
  qed
  have nz: "x + CHUNK_HEAD_LEN \<noteq> NULL" for x by (simp add: CHUNK_HEAD_LEN_def)
  obtain r pl where g: "rp_get ops (cm_pool m (priv mt c)) = (r, pl)" by fastforce
  show ?thesis
  proof (cases r)
    case (Some x)
    then show ?thesis
      using private_get [OF laws R1(1,2), of x pl] g nz R1(3,4) unfolding top m1 by (auto intro!: exI [of _ L])
  next
    case None
    show ?thesis
    proof (cases "L c")
      case (Cons x xs)
      obtain mt2 m2 where "alloc_private ops (priv mt c) c mt1 m = Inr (x + CHUNK_HEAD_LEN, mt2, m2)"
          "mp_free objs mt1 m L S = add_mset x (mp_free objs mt2 m2 (L(c := xs)) S)" "mp_rel objs mt2 m2 (L(c := xs)) S (add_mset x U)"
          "mt_max_core mt2 = mt_max_core mt1"
        using private_list [OF laws R1(1,2), of pl x xs, unfolded m1(1,2), OF g [unfolded None] Cons] by blast
      then show ?thesis using nz [of x] R1(3,4) unfolding top by (auto intro!: exI [of _ "L(c := xs)"])
    next
      case Nil
      define m2 where "m2 = pool_upd (priv mt c) pl m"
      note n = private_none [OF laws R1(1,2), of pl, unfolded m1(1,2), OF g [unfolded None] Nil, folded m2_def]
      have pub: "cm_pool m2 (publ mt) = cm_pool m (publ mt)" using hs(3) by (auto simp: m2_def)
      have next_: "mempool_alloc_chunk ops c mt m = alloc_public ops (publ mt) c mt1 m2"
        unfolding top n(1) using m1 hs(5) by (simp add: chunk_alloc_notype_def)
      obtain rb plb where b: "rp_get_bulk ops ALLOC_NUM (cm_pool m2 (publ mt)) = (rb, plb)" by fastforce
      show ?thesis
      proof (cases rb)
        case (Some ts)
        obtain mt3 m3 where "alloc_public ops (publ mt) c mt1 m2 = Inr (last ts + CHUNK_HEAD_LEN, mt3, m3)"
            "mp_free objs mt1 m2 L S = add_mset (last ts) (mp_free objs mt3 m3 (L(c := butlast ts)) S)"
            "mp_rel objs mt3 m3 (L(c := butlast ts)) S (add_mset (last ts) U)" "mt_max_core mt3 = mt_max_core mt1"
          using public_block [OF laws n(3) R1(2), of ts plb, unfolded m1(1,2), OF b [unfolded Some] Nil] by blast
        then show ?thesis using nz [of "last ts"] n(2) R1(3,4) unfolding next_ by (auto intro!: exI [of _ "L(c := butlast ts)"])
      next
        case nb: None
        define m3 where "m3 = pool_upd (publ mt) plb m2"
        have l: "size (objs (cm_pool m (publ mt))) < ALLOC_NUM" "objs plb = objs (cm_pool m2 (publ mt))"
          using laws_get(3) [OF laws b [unfolded nb]] by (simp_all add: pub)
        have pool: "objs (cm_pool m3 h) = objs (cm_pool m2 h)" for h using l(2) by (simp add: m3_def)
        have eq: "cm_head m3 = cm_head m2" "cm_hdr m3 = cm_hdr m2" by (simp_all add: m3_def)
        have free: "mp_free objs mt1 m3 L S = mp_free objs mt1 m2 L S" by (simp add: mp_free_def core_free_def pool)
        have "mp_rel objs mt1 m3 L S U"
          using n(3) unfolding mp_rel_def free by (simp add: pool clist_def chunk_ok_def eq)
        moreover have "alloc_public ops (publ mt) c mt1 m2 = Inr (NULL, mt1, m3)"
          using b nb m1 by (simp add: alloc_public_def m3_def)
        ultimately show ?thesis using n(2,4) l(1) Nil free R1(3,4) unfolding next_ by auto
      qed
    qed
  qed
qed

section \<open>Giving a chunk back\<close>

definition s_changed :: "nat \<Rightarrow> Mempool_t \<Rightarrow> Mempool_t \<Rightarrow> bool" where
  "s_changed c mt mt' \<longleftrightarrow> same_handles mt mt' \<and> mt_l_hpkt mt' = mt_l_hpkt mt \<and> mt_l_pkt mt' = mt_l_pkt mt \<and> mt_l_len mt' = mt_l_len mt
     \<and> (\<forall>c'. c' \<noteq> c \<longrightarrow> mt_s_hpkt mt' c' = mt_s_hpkt mt c' \<and> mt_s_pkt mt' c' = mt_s_pkt mt c' \<and> mt_s_len mt' c' = mt_s_len mt c')"

lemma s_append_list:
  assumes "clist m (mt_s_hpkt mt c) (mt_s_pkt mt c) (mt_s_len mt c) xs" "distinct xs" "t \<notin> set xs" "t \<noteq> NULL" "NULL \<notin> set xs"
  shows "\<exists>mt' m'. s_append c t mt m = Inr (mt', m') \<and> clist m' (mt_s_hpkt mt' c) (mt_s_pkt mt' c) (mt_s_len mt' c) (xs @ [t])
    \<and> s_changed c mt mt' \<and> relinked (insert t (set xs)) m m'"
proof (cases "xs = []")
  case True
  then show ?thesis using assms
    by (auto simp: s_append_def clist_def s_changed_def same_handles_def relinked_def)
next
  case False
  let ?m = "head_upd (mt_s_pkt mt c) (\<lambda>h. h\<lparr>ch_next := t\<rparr>) (head_upd t (\<lambda>h. h\<lparr>ch_next := NULL\<rparr>) m)"
  have l: "mt_s_pkt mt c = last xs" "mt_s_len mt c = int (length xs)" "cpath (\<lambda>x. ch_next (cm_head m x)) (mt_s_hpkt mt c) xs"
    using assms(1) False by (simp_all add: clist_def)
  have tn: "t \<noteq> last xs" "last xs \<noteq> NULL" using assms(3,5) last_in_set [OF False] by metis+
  have "cpath (\<lambda>x. ch_next (cm_head ?m x)) (mt_s_hpkt mt c) (xs @ [t])"
    by (rule cpath_snoc [OF l(3) False assms(2-4)]) (use tn l(1) in auto)
  then show ?thesis
    using False l tn by (auto simp: s_append_def clist_def s_changed_def same_handles_def relinked_def)
qed

lemma collect_list:
  assumes "cpath (\<lambda>x. ch_next (cm_head m x)) p xs" "\<And>x. x \<in> set xs \<Longrightarrow> ch_pool (cm_head m x) = ch_pool (cm_head m t)"
  shows "collect_loop (length xs) p t m = Inr xs"
  using assms by (induction xs arbitrary: p) auto

text \<open>The chunk at the end of the list of its core, every other list as it was.\<close>

definition appended :: "nat \<Rightarrow> ptr \<Rightarrow> Mempool_t \<Rightarrow> 'm cmem \<Rightarrow> (nat \<Rightarrow> ptr list) \<Rightarrow> (nat \<Rightarrow> ptr list) \<Rightarrow> Mempool_t \<Rightarrow> 'm cmem \<Rightarrow> bool" where
  "appended c x mt m L S mt1 m1 \<longleftrightarrow> same_handles mt mt1 \<and> relinked (insert x (set (S c))) m m1
     \<and> clist m1 (mt_s_hpkt mt1 c) (mt_s_pkt mt1 c) (mt_s_len mt1 c) (S c @ [x])
     \<and> (\<forall>c'<mt_max_core mt. clist m1 (mt_l_hpkt mt1 c') (mt_l_pkt mt1 c') (mt_l_len mt1 c') (L c')
          \<and> (c' \<noteq> c \<longrightarrow> clist m1 (mt_s_hpkt mt1 c') (mt_s_pkt mt1 c') (mt_s_len mt1 c') (S c')))"

lemma appendedD:
  assumes "appended c x mt m L S mt1 m1"
  shows "same_handles mt mt1" "clist m1 (mt_s_hpkt mt1 c) (mt_s_pkt mt1 c) (mt_s_len mt1 c) (S c @ [x])"
    "c' < mt_max_core mt \<Longrightarrow> clist m1 (mt_l_hpkt mt1 c') (mt_l_pkt mt1 c') (mt_l_len mt1 c') (L c')"
    "c' < mt_max_core mt \<Longrightarrow> c' \<noteq> c \<Longrightarrow> clist m1 (mt_s_hpkt mt1 c') (mt_s_pkt mt1 c') (mt_s_len mt1 c') (S c')"
    "ch_re (cm_head m1 y) = ch_re (cm_head m y) \<and> ch_pool (cm_head m1 y) = ch_pool (cm_head m y)" "cm_hdr m1 = cm_hdr m"
    "cm_pool m1 = cm_pool m"
  using assms by (simp_all add: appended_def relinked_def)

lemma free_home:
  assumes R: "mp_rel objs mt m L S U" and c: "c < mt_max_core mt" and x: "x \<in># U" "cm_hdr m x = publ mt" and y: "y \<in> set (x # S c)"
  shows "chunk_ok mt m y" "cm_hdr m y = publ mt"
  using mp_rel_home(4) [OF R, of y] in_mp_free(1) [OF c, of y objs m L S] mp_rel_home(2) [OF R c, of y] y x
  by (auto simp: core_free_def)

lemma free_append:
  assumes R: "mp_rel objs mt m L S U" and c: "c < mt_max_core mt" and x: "x \<in># U" "cm_hdr m x = publ mt"
  shows "\<exists>mt1 m1. s_append c x mt m = Inr (mt1, m1) \<and> appended c x mt m L S mt1 m1"
proof -
  have nx: "x \<notin> set (S c)" "x \<noteq> NULL" "NULL \<notin> set (S c)"
    using mp_rel_core(5) [OF R c x(1)] free_home(1) [OF R c x] by (auto simp: chunk_ok_def)
  obtain mt1 m1 where a: "s_append c x mt m = Inr (mt1, m1)" "clist m1 (mt_s_hpkt mt1 c) (mt_s_pkt mt1 c) (mt_s_len mt1 c) (S c @ [x])"
      "s_changed c mt mt1" "relinked (insert x (set (S c))) m m1"
    using s_append_list [OF mp_rel_clist(2) [OF R c] mp_rel_core(2) [OF R c] nx(1,2,3)] by blast
  have other: "clist m1 p q n ys = clist m p q n ys" if "set ys \<inter> insert x (set (S c)) = {}" for p q n ys
    by (rule clist_heads) (use a(4) that in \<open>auto simp: relinked_def\<close>)
  have lists: "clist m1 (mt_l_hpkt mt1 c') (mt_l_pkt mt1 c') (mt_l_len mt1 c') (L c')"
      "c' \<noteq> c \<Longrightarrow> clist m1 (mt_s_hpkt mt1 c') (mt_s_pkt mt1 c') (mt_s_len mt1 c') (S c')" if "c' < mt_max_core mt" for c'
  proof -
    have "set (S c) \<inter> set (L c') = {}"
      using mp_rel_two [OF R c that] mp_rel_core(3) [OF R c] by (cases "c' = c") (auto simp: core_free_def)
    then show "clist m1 (mt_l_hpkt mt1 c') (mt_l_pkt mt1 c') (mt_l_len mt1 c') (L c')"
      using mp_rel_clist(1) [OF R that] mp_rel_core(4) [OF R that x(1)] a(3) by (subst other) (auto simp: s_changed_def)
    assume "c' \<noteq> c"
    then have "set (S c) \<inter> set (S c') = {}" using mp_rel_two [OF R c that] by (auto simp: core_free_def)
    then show "clist m1 (mt_s_hpkt mt1 c') (mt_s_pkt mt1 c') (mt_s_len mt1 c') (S c')"
      using mp_rel_clist(2) [OF R that] mp_rel_core(5) [OF R that x(1)] a(3) \<open>c' \<noteq> c\<close> by (subst other) (auto simp: s_changed_def)
  qed
  have "same_handles mt mt1" using a(3) by (simp add: s_changed_def)
  then have "appended c x mt m L S mt1 m1" unfolding appended_def using a(2,4) lists by blast
  then show ?thesis using a(1) by blast
qed

lemma free_keep:
  assumes R: "mp_rel objs mt m L S U" and c: "c < mt_max_core mt" and x: "x \<in># U" "cm_hdr m x = publ mt"
    and a: "appended c x mt m L S mt1 m1" and False: "length (S c) + 1 \<noteq> TEST_ARR"
  shows "\<exists>mt' m' S'. s_flush ops c x mt1 m1 = Inr (mt', m')
    \<and> mp_free objs mt' m' L S' = add_mset x (mp_free objs mt m L S) \<and> mp_rel objs mt' m' L S' (U - {#x#})
    \<and> mt_max_core mt' = mt_max_core mt"
proof -
  note same1 = appendedD(1) [OF a] and lists = appendedD(3,4) [OF a] and heads = appendedD(5-7) [OF a]
    and home = free_home(2) [OF R c x] and a2 = appendedD(2) [OF a]
  define S' where "S' = S(c := S c @ [x])"
  have r: "s_flush ops c x mt1 m1 = Inr (mt1, m1)" using a2 False by (simp add: s_flush_def clist_def)
  have "(\<Sum>c'<mt_max_core mt. core_free objs mt1 m1 L S' c') = {#x#} + (\<Sum>c'<mt_max_core mt. core_free objs mt m L S c')"
    by (rule sum_one [OF c]) (use same1 heads(3) in \<open>simp_all add: core_free_def same_handles_def S'_def\<close>)
  then have free: "mp_free objs mt1 m1 L S' = add_mset x (mp_free objs mt m L S)"
    using same1 heads(3) by (simp add: mp_free_def same_handles_def)
  have "mp_rel objs mt1 m1 L S' (U - {#x#})"
  proof (rule mp_rel_move [OF R same1])
    show "mp_free objs mt1 m1 L S' + (U - {#x#}) = mp_free objs mt m L S + U" using free x(1) by simp
    show "clist m1 (mt_l_hpkt mt1 c') (mt_l_pkt mt1 c') (mt_l_len mt1 c') (L c')
      \<and> clist m1 (mt_s_hpkt mt1 c') (mt_s_pkt mt1 c') (mt_s_len mt1 c') (S' c') \<and> length (S' c') < TEST_ARR" if "c' < mt_max_core mt" for c'
      using lists [OF that] a2 mp_rel_clist(3) [OF R that] False by (cases "c' = c") (auto simp: S'_def)
    show "cm_hdr m y = publ mt" if "c' < mt_max_core mt" "y \<in> set (L c') \<union> set (S' c')" for c' y
      using mp_rel_home(2) [OF R that(1), of y] that(2) home [of y] by (cases "c' = c") (auto simp: S'_def)
  qed (use heads mp_rel_home(1,3) [OF R] in auto)
  then show ?thesis using r free same1 by (auto simp: same_handles_def)
qed

lemma free_flush:
  assumes laws: "rte_mempool_laws ops objs" and R: "mp_rel objs mt m L S U" and c: "c < mt_max_core mt"
    and x: "x \<in># U" "cm_hdr m x = publ mt" and a: "appended c x mt m L S mt1 m1" and True: "length (S c) + 1 = TEST_ARR"
  shows "\<exists>mt' m' S'. s_flush ops c x mt1 m1 = Inr (mt', m')
    \<and> mp_free objs mt' m' L S' = add_mset x (mp_free objs mt m L S) \<and> mp_rel objs mt' m' L S' (U - {#x#})
    \<and> mt_max_core mt' = mt_max_core mt"
proof -
  note hs = mp_rel_handles [OF R c] and same1 = appendedD(1) [OF a] and lists = appendedD(3,4) [OF a]
    and heads = appendedD(5-7) [OF a] and ok = free_home(1) [OF R c x] and home = free_home(2) [OF R c x] and a2 = appendedD(2) [OF a]
  define S' where "S' = S(c := [])"
  define mt2 where "mt2 = mt1\<lparr>mt_s_len := (mt_s_len mt1)(c := 0), mt_s_pkt := (mt_s_pkt mt1)(c := NULL), mt_s_hpkt := (mt_s_hpkt mt1)(c := NULL)\<rparr>"
  define m2 where "m2 = pool_upd (publ mt) (rp_put_bulk ops (S c @ [x]) (cm_pool m (publ mt))) m1"
  have "ch_pool (cm_head m1 y) = publ mt" if "y \<in> set (S c @ [x])" for y
    using ok [of y] home [of y] heads that by (auto simp: chunk_ok_def)
  then have "collect_loop (length (S c @ [x])) (mt_s_hpkt mt1 c) x m1 = Inr (S c @ [x])"
    using a2 by (intro collect_list) (auto simp: clist_def)
  moreover have "length (S c @ [x]) = TEST_ARR" using True by simp
  ultimately have "collect_loop TEST_ARR (mt_s_hpkt mt1 c) x m1 = Inr (S c @ [x])" by metis
  moreover have "mt_s_len mt1 c = int TEST_ARR" using a2 True by (simp add: clist_def)
  ultimately have r: "s_flush ops c x mt1 m1 = Inr (mt2, m2)"
  proof -
    obtain ms where ms: "mt_mempool_s mt = Some ms" using hs(4) by blast
    show ?thesis if "collect_loop TEST_ARR (mt_s_hpkt mt1 c) x m1 = Inr (S c @ [x])" "mt_s_len mt1 c = int TEST_ARR"
      using that ms same1 heads(3) by (simp add: s_flush_def same_handles_def mt2_def m2_def)
  qed
  have same2: "same_handles mt mt2" using same1 by (simp add: same_handles_def mt2_def)
  have pool: "cm_pool m2 (priv mt c') = cm_pool m (priv mt c')" if "c' < mt_max_core mt" for c'
    using mp_rel_handles(3) [OF R that] heads(3) by (auto simp: m2_def)
  have pub: "objs (cm_pool m2 (publ mt)) = mset (S c @ [x]) + objs (cm_pool m (publ mt))"
    by (simp add: m2_def laws_get(6) [OF laws])
  have "(\<Sum>c'<mt_max_core mt. core_free objs mt m L S c') = mset (S c) + (\<Sum>c'<mt_max_core mt. core_free objs mt2 m2 L S' c')"
    by (rule sum_one [OF c]) (use same2 c in \<open>simp_all add: core_free_def same_handles_def S'_def pool ac_simps\<close>)
  then have free: "mp_free objs mt2 m2 L S' = add_mset x (mp_free objs mt m L S)"
    using same2 pub by (simp add: mp_free_def same_handles_def ac_simps)
  have cl: "clist m2 p q n ys = clist m1 p q n ys" for p q n ys by (rule clist_heads) (simp add: m2_def)
  have "mp_rel objs mt2 m2 L S' (U - {#x#})"
  proof (rule mp_rel_move [OF R same2])
    show "mp_free objs mt2 m2 L S' + (U - {#x#}) = mp_free objs mt m L S + U" using free x(1) by simp
    show "clist m2 (mt_l_hpkt mt2 c') (mt_l_pkt mt2 c') (mt_l_len mt2 c') (L c')
      \<and> clist m2 (mt_s_hpkt mt2 c') (mt_s_pkt mt2 c') (mt_s_len mt2 c') (S' c') \<and> length (S' c') < TEST_ARR" if "c' < mt_max_core mt" for c'
    proof (cases "c' = c")
      case True
      then show ?thesis using lists(1) [OF that] by (simp add: cl mt2_def S'_def) (simp add: clist_def TEST_ARR_def)
    next
      case False
      then show ?thesis using lists [OF that] mp_rel_clist(3) [OF R that] by (simp add: cl mt2_def S'_def)
    qed
    show "cm_hdr m y = publ mt" if "c' < mt_max_core mt" "y \<in> set (L c') \<union> set (S' c')" for c' y
      using mp_rel_home(2) [OF R that(1), of y] that(2) by (cases "c' = c") (auto simp: S'_def)
    show "cm_hdr m y = publ mt" if "y \<in># objs (cm_pool m2 (publ mt))" for y
      using that mp_rel_home(3) [OF R, of y] home [of y] by (auto simp: pub)
    show "cm_hdr m y = priv mt c'" if "c' < mt_max_core mt" "y \<in># objs (cm_pool m2 (priv mt c'))" for c' y
      using mp_rel_home(1) [OF R that(1), of y] that pool by simp
  qed (use heads in \<open>simp_all add: m2_def\<close>)
  then show ?thesis using r free same2 by (auto simp: same_handles_def)
qed

lemma free_public:
  assumes laws: "rte_mempool_laws ops objs" and R: "mp_rel objs mt m L S U" and c: "c < mt_max_core mt"
    and x: "x \<in># U" "cm_hdr m x = publ mt"
  shows "\<exists>mt' m' S'. bind_r (s_append c x mt m) (\<lambda>(mt1, m1). s_flush ops c x mt1 m1) = Inr (mt', m')
    \<and> mp_free objs mt' m' L S' = add_mset x (mp_free objs mt m L S) \<and> mp_rel objs mt' m' L S' (U - {#x#})
    \<and> mt_max_core mt' = mt_max_core mt"
proof -
  obtain mt1 m1 where a: "s_append c x mt m = Inr (mt1, m1)" "appended c x mt m L S mt1 m1" using free_append [OF R c x] by blast
  then show ?thesis using free_keep [OF R c x a(2), of ops] free_flush [OF laws R c x a(2)] by auto
qed

lemma free_private:
  assumes laws: "rte_mempool_laws ops objs" and R: "mp_rel objs mt m L S U"
    and x: "x \<in># U" "cm_hdr m x = priv mt c" and c: "c < mt_max_core mt"
    and m'_def: "m' = pool_upd (priv mt c) (rp_put ops x (cm_pool m (priv mt c))) m"
  shows "mp_free objs mt m' L S = add_mset x (mp_free objs mt m L S) \<and> mp_rel objs mt m' L S (U - {#x#})"
proof -
  have pool: "cm_pool m' (priv mt c') = cm_pool m (priv mt c')" if "c' < mt_max_core mt" "c' \<noteq> c" for c'
    using that mp_rel_handles(10) [OF R c] by (auto simp: m'_def)
  have pub: "cm_pool m' (publ mt) = cm_pool m (publ mt)" using mp_rel_handles(3) [OF R c] by (auto simp: m'_def)
  have mine: "objs (cm_pool m' (priv mt c)) = add_mset x (objs (cm_pool m (priv mt c)))" by (simp add: m'_def laws_get(5) [OF laws])
  have "(\<Sum>c'<mt_max_core mt. core_free objs mt m' L S c') = {#x#} + (\<Sum>c'<mt_max_core mt. core_free objs mt m L S c')"
    by (rule sum_one [OF c]) (simp_all add: core_free_def pool mine)
  then have free: "mp_free objs mt m' L S = add_mset x (mp_free objs mt m L S)" by (simp add: mp_free_def pub)
  have cl: "clist m' p q n ys = clist m p q n ys" for p q n ys by (rule clist_heads) (simp add: m'_def)
  have "mp_rel objs mt m' L S (U - {#x#})"
  proof (rule mp_rel_move [OF R])
    show "mp_free objs mt m' L S + (U - {#x#}) = mp_free objs mt m L S + U" using free x(1) by simp
    show "cm_hdr m y = priv mt c'" if "c' < mt_max_core mt" "y \<in># objs (cm_pool m' (priv mt c'))" for c' y
      using that mp_rel_home(1) [OF R, of c' y] pool [of c'] mine x(2) by (cases "c' = c") auto
    show "ch_re (cm_head m' y) = ch_re (cm_head m y) \<and> ch_pool (cm_head m' y) = ch_pool (cm_head m y)" for y by (simp add: m'_def)
    show "cm_hdr m' = cm_hdr m" by (simp add: m'_def)
  qed (use mp_rel_home(2,3) [OF R] mp_rel_clist [OF R] in \<open>auto simp: same_handles_def pub cl\<close>)
  then show ?thesis using free by simp
qed

lemma free_chunk_ok:
  assumes laws: "rte_mempool_laws ops objs" and R: "mp_rel objs mt m L S U" and c: "c < mt_max_core mt" and x: "x \<in># U"
  shows "\<exists>mt' m' S'. mempool_free_chunk ops (x + CHUNK_HEAD_LEN) c mt m = Inr (2, mt', m')
    \<and> mp_free objs mt' m' L S' = add_mset x (mp_free objs mt m L S) \<and> mp_rel objs mt' m' L S' (U - {#x#})
    \<and> mt_max_core mt' = mt_max_core mt"
proof -
  note hs = mp_rel_handles [OF R c]
  have ok: "chunk_ok mt m x" using mp_rel_home(4) [OF R, of x] x by simp
  then have nz: "x \<noteq> NULL" "ch_pool (cm_head m x) = cm_hdr m x" by (simp_all add: chunk_ok_def)
  show ?thesis
  proof (cases "cm_hdr m x = publ mt")
    case True
    obtain mt' m' S' where f: "bind_r (s_append c x mt m) (\<lambda>(mt1, m1). s_flush ops c x mt1 m1) = Inr (mt', m')"
        "mp_free objs mt' m' L S' = add_mset x (mp_free objs mt m L S)" "mp_rel objs mt' m' L S' (U - {#x#})"
        "mt_max_core mt' = mt_max_core mt"
      using free_public [OF laws R c x True] by blast
    then obtain mt1 m1 where "s_append c x mt m = Inr (mt1, m1)" "s_flush ops c x mt1 m1 = Inr (mt', m')"
      by (auto simp: bind_r_Inr_iff)
    then show ?thesis
      using f(2,3,4) hs(4-6,9) nz True by (auto simp: mempool_free_chunk_def chunk_free_notype_def CHUNK_HEAD_LEN_def)
  next
    case False
    then obtain c' where c': "c' < mt_max_core mt" "cm_hdr m x = priv mt c'" using ok by (auto simp: chunk_ok_def)
    define m' where "m' = pool_upd (priv mt c') (rp_put ops x (cm_pool m (priv mt c'))) m"
    have "mempool_free_chunk ops (x + CHUNK_HEAD_LEN) c mt m = Inr (2, mt, m')"
      using hs(4,9) nz False c' mp_rel_handles(2) [OF R c'(1)]
      by (auto simp: mempool_free_chunk_def chunk_free_notype_def CHUNK_HEAD_LEN_def m'_def Let_def)
    then show ?thesis using free_private [OF laws R x c'(2,1) m'_def] by blast
  qed
qed

section \<open>A new pool\<close>

text \<open>What is assumed of the creation of the pools: they exist, are different and hold different new objects.\<close>

definition pools_made :: "(nat \<Rightarrow> nat \<Rightarrow> nat \<Rightarrow> ptr \<times> ptr list \<times> 'm) \<Rightarrow> ('m \<Rightarrow> ptr multiset) \<Rightarrow> (nat \<Rightarrow> nat) \<Rightarrow> nat \<Rightarrow> nat \<Rightarrow> bool" where
  "pools_made mk objs num sz n \<longleftrightarrow> (let h = (\<lambda>i. fst (mk i (num i) sz)); os = (\<lambda>i. fst (snd (mk i (num i) sz))) in
     inj_on h {..n} \<and> (\<forall>i\<le>n. h i \<noteq> NULL \<and> objs (snd (snd (mk i (num i) sz))) = mset (os i) \<and> distinct (os i) \<and> NULL \<notin> set (os i))
     \<and> (\<forall>i\<le>n. \<forall>j\<le>n. i \<noteq> j \<longrightarrow> set (os i) \<inter> set (os j) = {}))"

lemma init_objects_others:
  "cm_pool (init_objects mp type i os m) = cm_pool m"
  "x \<notin> set os \<Longrightarrow> cm_hdr (init_objects mp type i os m) x = cm_hdr m x \<and> cm_head (init_objects mp type i os m) x = cm_head m x"
  by (induction os arbitrary: i m) (simp_all add: data_type_init_notype_def)

lemma init_objects_done:
  "NULL \<notin> set os \<Longrightarrow> x \<in> set os \<Longrightarrow> cm_hdr (init_objects mp type i os m) x = mp
     \<and> ch_re (cm_head (init_objects mp type i os m) x) = x + CHUNK_HEAD_LEN \<and> ch_pool (cm_head (init_objects mp type i os m) x) = mp"
proof (induction os arbitrary: i m)
  case (Cons a os)
  show ?case
  proof (cases "x \<in> set os")
    case False
    then show ?thesis using Cons.prems False by (simp add: data_type_init_notype_def init_objects_others(2))
  qed (use Cons in simp)
qed simp

text \<open>After the first \<open>n\<close> pools are made they hold their objects, with consistent heads.\<close>

definition made :: "(nat \<Rightarrow> ptr) \<Rightarrow> (nat \<Rightarrow> ptr list) \<Rightarrow> (nat \<Rightarrow> 'm) \<Rightarrow> nat \<Rightarrow> 'm cmem \<Rightarrow> bool" where
  "made h os pl n m \<longleftrightarrow> (\<forall>i<n. cm_pool m (h i) = pl i
     \<and> (\<forall>x\<in>set (os i). cm_hdr m x = h i \<and> ch_re (cm_head m x) = x + CHUNK_HEAD_LEN \<and> ch_pool (cm_head m x) = h i))"

lemma made_step:
  assumes "made h os pl n m" "inj_on h {..n}" "\<forall>i\<le>n. NULL \<notin> set (os i)" "\<forall>i\<le>n. \<forall>j\<le>n. i \<noteq> j \<longrightarrow> set (os i) \<inter> set (os j) = {}"
  shows "made h os pl (Suc n) (init_objects (h n) type 0 (os n) (pool_upd (h n) (pl n) m))"
  unfolding made_def
proof (intro allI impI)
  fix i assume "i < Suc n"
  then show "cm_pool (init_objects (h n) type 0 (os n) (pool_upd (h n) (pl n) m)) (h i) = pl i
    \<and> (\<forall>x\<in>set (os i). cm_hdr (init_objects (h n) type 0 (os n) (pool_upd (h n) (pl n) m)) x = h i
      \<and> ch_re (cm_head (init_objects (h n) type 0 (os n) (pool_upd (h n) (pl n) m)) x) = x + CHUNK_HEAD_LEN
      \<and> ch_pool (cm_head (init_objects (h n) type 0 (os n) (pool_upd (h n) (pl n) m)) x) = h i)"
  proof (cases "i = n")
    case True
    then show ?thesis using assms(3) by (simp add: init_objects_others(1) init_objects_done)
  next
    case False
    then have "i < n" using \<open>i < Suc n\<close> by simp
    moreover have "h i \<noteq> h n" using inj_onD [OF assms(2), of i n] \<open>i < n\<close> by auto
    moreover have "x \<notin> set (os n)" if "x \<in> set (os i)" for x using assms(4) \<open>i < n\<close> that by (metis disjoint_iff le_refl less_imp_le less_irrefl)
    ultimately show ?thesis using assms(1) by (simp add: made_def init_objects_others)
  qed
qed


lemma create_private_made:
  assumes pm: "pools_made mk objs num sz n"
    and defs: "h = (\<lambda>i. fst (mk i (num i) sz))" "os = (\<lambda>i. fst (snd (mk i (num i) sz)))" "pl = (\<lambda>i. snd (snd (mk i (num i) sz)))"
    and m: "made h os pl k m" and k: "k \<le> n" "n \<le> MAX_CPUS" "\<And>i. i < n \<Longrightarrow> num i = q" "sz = take_bit 16 csz"
  shows "\<exists>m'. create_private mk q csz [k..<n] mt m
      = Inr (mt\<lparr>mt_mempool_p := (\<lambda>i. if k \<le> i \<and> i < n then Some (h i) else mt_mempool_p mt i)\<rparr>, m') \<and> made h os pl n m'"
  using m k(1)
proof (induction "n - k" arbitrary: k mt m)
  case 0
  then have "k = n" by simp
  moreover have "(\<lambda>i. if n \<le> i \<and> i < n then Some (h i) else mt_mempool_p mt i) = mt_mempool_p mt" by (auto simp: fun_eq_iff)
  ultimately show ?case using 0 by simp
next
  case (Suc d)
  then have k: "k < n" by simp
  have P: "inj_on h {..n}" "\<And>i. i \<le> n \<Longrightarrow> h i \<noteq> NULL \<and> NULL \<notin> set (os i)" "\<forall>i\<le>n. \<forall>j\<le>n. i \<noteq> j \<longrightarrow> set (os i) \<inter> set (os j) = {}"
    using pm unfolding pools_made_def Let_def defs by blast+
  define m1 where "m1 = init_objects (h k) (mt_type mt) 0 (os k) (pool_upd (h k) (pl k) m)"
  have c: "rte_chunk_pool_create mk k q csz mt m = (h k, m1)"
    using k assms(8,9) P(2) [of k] by (auto simp: rte_chunk_pool_create_def defs m1_def split_beta)
  have md: "made h os pl (Suc k) m1"
    unfolding m1_def by (rule made_step [OF Suc.prems(1)]) (use P k inj_on_subset [OF P(1), of "{..k}"] in auto)
  obtain m' where m': "create_private mk q csz [Suc k..<n] (mt\<lparr>mt_mempool_p := (mt_mempool_p mt)(k := Some (h k))\<rparr>) m1
      = Inr (mt\<lparr>mt_mempool_p := (\<lambda>i. if Suc k \<le> i \<and> i < n then Some (h i) else ((mt_mempool_p mt)(k := Some (h k))) i)\<rparr>, m')"
      "made h os pl n m'"
  proof -
    have "d = n - Suc k" "Suc k \<le> n" using Suc.hyps(2) k by simp_all
    from Suc.hyps(1) [OF this(1) md this(2), of "mt\<lparr>mt_mempool_p := (mt_mempool_p mt)(k := Some (h k))\<rparr>"]
    show ?thesis using that by (auto cong: if_cong)
  qed
  have eq: "(\<lambda>i. if Suc k \<le> i \<and> i < n then Some (h i) else ((mt_mempool_p mt)(k := Some (h k))) i)
      = (\<lambda>i. if k \<le> i \<and> i < n then Some (h i) else mt_mempool_p mt i)"
    using k by (auto simp: fun_eq_iff)
  have "create_private mk q csz (k # [Suc k..<n]) mt m = create_private mk q csz [Suc k..<n] (mt\<lparr>mt_mempool_p := (mt_mempool_p mt)(k := Some (h k))\<rparr>) m1"
    using c P(2) [of k] k \<open>n \<le> MAX_CPUS\<close> by simp
  then show ?case using m' k unfolding eq upt_conv_Cons [OF k] by auto
qed

lemma disjoint_once:
  fixes n :: nat
  assumes "\<forall>i\<le>n. distinct (os i)" "\<forall>i\<le>n. \<forall>j\<le>n. i \<noteq> j \<longrightarrow> set (os i) \<inter> set (os j) = {}"
  shows "count (\<Sum>i\<le>n. mset (os i)) x \<le> 1"
  using assms
proof (induction n)
  case 0
  then show ?case by (simp add: distinct_count_atmost_1)
next
  case (Suc n)
  have "count (mset (os (Suc n))) x = (if x \<in> set (os (Suc n)) then 1 else 0)"
    using Suc.prems(1) by (simp add: distinct_count_atmost_1)
  moreover have "count (\<Sum>i\<le>n. mset (os i)) x = 0" if "x \<in> set (os (Suc n))"
  proof -
    have "x \<notin> set (os i)" if "i \<le> n" for i
      using Suc.prems(2) [rule_format, of i "Suc n"] \<open>x \<in> set (os (Suc n))\<close> that by auto
    then show ?thesis by (auto simp: count_sum count_eq_zero_iff)
  qed
  ultimately show ?case using Suc by (auto split: if_splits)
qed

lemma create_ok:
  assumes pm: "pools_made mk objs (\<lambda>i. if i < n then unat p else unat s) (take_bit 16 (round_chunk (CHUNK_HEAD_LEN + csize))) n"
    and n: "n \<le> MAX_CPUS" and zone: "0 < sint (p * of_nat n + s + 1000)"
    and os: "os = (\<lambda>i. fst (snd (mk i (if i < n then unat p else unat s) (take_bit 16 (round_chunk (CHUNK_HEAD_LEN + csize))))))"
  shows "\<exists>mt m'. mempool_create True mk csize p s n m = Inr (Some mt, m') \<and> mt_max_core mt = n
    \<and> mp_rel objs mt m' (\<lambda>_. []) (\<lambda>_. []) {#} \<and> mp_free objs mt m' (\<lambda>_. []) (\<lambda>_. []) = (\<Sum>i\<le>n. mset (os i))"
proof -
  define csz where "csz = round_chunk (CHUNK_HEAD_LEN + csize)"
  define num where "num = (\<lambda>i. if i < n then unat p else unat s)"
  define h where "h = (\<lambda>i. fst (mk i (num i) (take_bit 16 csz)))"
  define pl where "pl = (\<lambda>i. snd (snd (mk i (num i) (take_bit 16 csz))))"
  have os: "os = (\<lambda>i. fst (snd (mk i (num i) (take_bit 16 csz))))" by (simp add: os num_def csz_def)
  have pm: "pools_made mk objs num (take_bit 16 csz) n" using pm by (simp add: num_def csz_def)
  have P: "inj_on h {..n}" "\<And>i. i \<le> n \<Longrightarrow> h i \<noteq> NULL \<and> NULL \<notin> set (os i) \<and> objs (pl i) = mset (os i) \<and> distinct (os i)"
      "\<forall>i\<le>n. \<forall>j\<le>n. i \<noteq> j \<longrightarrow> set (os i) \<inter> set (os j) = {}"
    using pm unfolding pools_made_def Let_def h_def os pl_def by blast+
  define mt0 where "mt0 = \<lparr>mt_type = 2, mt_max_core = n, mt_size = csz, mt_chunk_get = True, mt_chunk_free = True,
    mt_mempool_p = (\<lambda>_. None), mt_mempool_s = None, mt_l_len = (\<lambda>_. 0), mt_l_pkt = (\<lambda>_. NULL), mt_l_hpkt = (\<lambda>_. NULL),
    mt_s_len = (\<lambda>_. 0), mt_s_pkt = (\<lambda>_. NULL), mt_s_hpkt = (\<lambda>_. NULL), mt_cur_id = 0\<rparr>"
  define mt1 where "mt1 = mt0\<lparr>mt_mempool_p := (\<lambda>i. if 0 \<le> i \<and> i < n then Some (h i) else mt_mempool_p mt0 i)\<rparr>"
  obtain m1 where m1: "create_private mk (unat p) csz [0..<n] mt0 m = Inr (mt1, m1)" "made h os pl n m1"
    using create_private_made [OF pm h_def os pl_def, of 0 m "unat p" csz mt0] n by (auto simp: made_def num_def mt1_def)
  define m2 where "m2 = init_objects (h n) 2 0 (os n) (pool_upd (h n) (pl n) m1)"
  define mt2 where "mt2 = mt1\<lparr>mt_mempool_s := Some (h n)\<rparr>"
  have "rte_chunk_pool_create mk n (unat s) csz mt1 m1 = (h n, m2)"
    using P(2) [of n] by (auto simp: rte_chunk_pool_create_def h_def os pl_def m2_def split_beta num_def mt1_def mt0_def)
  then have r: "mempool_create True mk csize p s n m = Inr (Some mt2, m2)"
    using m1(1) n zone P(2) [of n] by (simp add: mempool_create_def MAX_CORE_def MAX_CPUS_def csz_def [symmetric] mt0_def [symmetric] mt2_def)
  have made: "made h os pl (Suc n) m2" unfolding m2_def by (rule made_step [OF m1(2)]) (use P in auto)
  then have M: "cm_pool m2 (h i) = pl i" "x \<in> set (os i) \<Longrightarrow> cm_hdr m2 x = h i \<and> ch_re (cm_head m2 x) = x + CHUNK_HEAD_LEN \<and> ch_pool (cm_head m2 x) = h i"
    if "i \<le> n" for i x using that unfolding made_def less_Suc_eq_le by blast+
  have T: "mt_max_core mt2 = n" "\<And>i. i < n \<Longrightarrow> mt_mempool_p mt2 i = Some (h i)" "mt_mempool_s mt2 = Some (h n)"
    by (simp_all add: mt2_def mt1_def mt0_def)
  have free: "mp_free objs mt2 m2 (\<lambda>_. []) (\<lambda>_. []) = (\<Sum>i\<le>n. mset (os i))"
    using T M P(2) by (simp add: mp_free_def core_free_def lessThan_Suc_atMost [symmetric])
  have in_free: "\<exists>i\<le>n. x \<in> set (os i)" if "x \<in># (\<Sum>i\<le>n. mset (os i))" for x using that by (auto simp: set_mset_sum)
  have "h i \<noteq> h n" if "i < n" for i using inj_onD [OF P(1), of i n] that by auto
  moreover have "inj_on (priv mt2) {..<n}" by (rule inj_onI) (use T(2) inj_onD [OF P(1)] in auto)
  moreover have "mt_type mt2 = 2" "mt_chunk_get mt2" "mt_chunk_free mt2" by (simp_all add: mt2_def mt1_def mt0_def)
  ultimately have "handles_ok mt2" using T P(2) n by (simp add: handles_ok_def)
  moreover have "chunk_ok mt2 m2 x" if x: "x \<in># (\<Sum>i\<le>n. mset (os i))" for x
  proof -
    obtain i where i: "i \<le> n" "x \<in> set (os i)" using in_free [OF x] by blast
    then have "x \<noteq> NULL" using P(2) by metis
    moreover have "i = n \<or> i < n" using i by auto
    ultimately show ?thesis using M(2) [OF i] T by (auto simp: chunk_ok_def)
  qed
  ultimately have "mp_rel objs mt2 m2 (\<lambda>_. []) (\<lambda>_. []) {#}"
    unfolding mp_rel_def free using T M P disjoint_once [of n os]
    by (simp add: clist_def TEST_ARR_def mt2_def mt1_def mt0_def)
  then show ?thesis using r T(1) free by blast
qed

section \<open>Main properties\<close>

text \<open>Requests of the cores; what is in use is the ghost part of the state.\<close>

inductive pool_step :: "'m rte_pool_ops \<Rightarrow> nat \<Rightarrow> Mempool_t \<times> 'm cmem \<times> ptr multiset \<Rightarrow> Mempool_t \<times> 'm cmem \<times> ptr multiset \<Rightarrow> bool"
  for ops n where
  alloc: "c < n \<Longrightarrow> mempool_alloc_chunk ops c mt m = Inr (p, mt', m') \<Longrightarrow> p \<noteq> NULL \<Longrightarrow>
    pool_step ops n (mt, m, U) (mt', m', add_mset (p - CHUNK_HEAD_LEN) U)"
| alloc_fails: "c < n \<Longrightarrow> mempool_alloc_chunk ops c mt m = Inr (NULL, mt', m') \<Longrightarrow> pool_step ops n (mt, m, U) (mt', m', U)"
| free: "c < n \<Longrightarrow> x \<in># U \<Longrightarrow> mempool_free_chunk ops (x + CHUNK_HEAD_LEN) c mt m = Inr (r, mt', m') \<Longrightarrow>
    pool_step ops n (mt, m, U) (mt', m', U - {#x#})"

inductive_cases pool_stepE: "pool_step ops n (mt, m, U) s'"

definition pool_inv :: "('m \<Rightarrow> ptr multiset) \<Rightarrow> nat \<Rightarrow> ptr multiset \<Rightarrow> Mempool_t \<times> 'm cmem \<times> ptr multiset \<Rightarrow> bool" where
  "pool_inv objs n A = (\<lambda>(mt, m, U). mt_max_core mt = n
     \<and> (\<exists>L S. mp_rel objs mt m L S U \<and> mp_free objs mt m L S + U = A))"

lemma pool_step_inv:
  assumes laws: "rte_mempool_laws ops objs" and st: "pool_step ops n s s'" and inv: "pool_inv objs n A s"
  shows "pool_inv objs n A s'"
  using st
proof cases
  case (alloc c mt m p mt' m' U)
  obtain L S where R: "mp_rel objs mt m L S U" "mp_free objs mt m L S + U = A" "mt_max_core mt = n"
    using inv by (auto simp: pool_inv_def alloc(1))
  obtain L' x where "p = x + CHUNK_HEAD_LEN" "mp_free objs mt m L S = add_mset x (mp_free objs mt' m' L' S)"
      "mp_rel objs mt' m' L' S (add_mset x U)" "mt_max_core mt' = n"
    using alloc_chunk_ok [OF laws R(1), of c] alloc R(3) by auto
  then show ?thesis using R(2) unfolding alloc(2) pool_inv_def by auto
next
  case (alloc_fails c mt m mt' m' U)
  obtain L S where R: "mp_rel objs mt m L S U" "mp_free objs mt m L S + U = A" "mt_max_core mt = n"
    using inv by (auto simp: pool_inv_def alloc_fails(1))
  have "mp_rel objs mt' m' L S U" "mp_free objs mt' m' L S = mp_free objs mt m L S" "mt_max_core mt' = n"
    using alloc_chunk_ok [OF laws R(1), of c] alloc_fails R(3) by auto
  then show ?thesis using R(2) unfolding alloc_fails(2) pool_inv_def prod.case by metis
next
  case (free c x U mt m r mt' m')
  obtain L S where R: "mp_rel objs mt m L S U" "mp_free objs mt m L S + U = A" "mt_max_core mt = n"
    using inv by (auto simp: pool_inv_def free(1))
  obtain S' where "mp_free objs mt' m' L S' = add_mset x (mp_free objs mt m L S)" "mp_rel objs mt' m' L S' (U - {#x#})" "mt_max_core mt' = n"
    using free_chunk_ok [OF laws R(1), of c x] free R(3) by auto
  moreover from this have "mp_free objs mt' m' L S' + (U - {#x#}) = A" unfolding R(2) [symmetric] using free(4) by (auto simp: insert_DiffM)
  ultimately show ?thesis unfolding free(2) pool_inv_def prod.case by metis
qed

lemma pool_run_inv:
  assumes laws: "rte_mempool_laws ops objs" and run: "(pool_step ops n)\<^sup>*\<^sup>* s s'" and inv: "pool_inv objs n A s"
  shows "pool_inv objs n A s'"
  using run inv by (induction rule: rtranclp_induct) (auto intro: pool_step_inv [OF laws])

text \<open>
  C18 (invariant). Whatever sequence of requests the cores make of a new pool, no chunk is lost and none is
  handed out twice: what is in use, what the pools hold and what is linked into the two lists of every core
  (\<open>L\<close> from \<^verbatim>\<open>l_hpkt\<close> and \<open>S\<close> from \<^verbatim>\<open>s_hpkt\<close>, which follow the next pointers of the chunks and have the
  recorded lengths and tails) are at every moment together the chunks the pool was made with, each once. A request never leaves defined behaviour; a chunk it
  hands out was free, and it finds none only if the private pool of the core and its list are empty and
  the public pool holds less than a block of 1024, so that a smaller public pool is never used.
\<close>

theorem chunks_conserved:
  assumes laws: "rte_mempool_laws ops objs"
    and made: "pools_made mk objs (\<lambda>i. if i < n then unat p else unat s) (take_bit 16 (round_chunk (CHUNK_HEAD_LEN + csize))) n"
    and n: "n \<le> MAX_CPUS" "0 < sint (p * of_nat n + s + 1000)"
    and new: "mempool_create True mk csize p s n m0 = Inr (Some mt0, m1)"
    and run: "(pool_step ops n)\<^sup>*\<^sup>* (mt0, m1, {#}) (mt, m, U)"
    and os: "os = (\<lambda>i. fst (snd (mk i (if i < n then unat p else unat s) (take_bit 16 (round_chunk (CHUNK_HEAD_LEN + csize))))))"
  shows "\<exists>L S. mt_max_core mt = n \<and> (\<forall>c<n. clist m (mt_l_hpkt mt c) (mt_l_pkt mt c) (mt_l_len mt c) (L c)
      \<and> clist m (mt_s_hpkt mt c) (mt_s_pkt mt c) (mt_s_len mt c) (S c))
    \<and> mp_free objs mt m L S + U = (\<Sum>i\<le>n. mset (os i)) \<and> (\<forall>x. count (mp_free objs mt m L S + U) x \<le> 1)
    \<and> (\<forall>c<n. \<exists>q mt' m'. mempool_alloc_chunk ops c mt m = Inr (q, mt', m')
         \<and> (q = NULL \<longrightarrow> objs (cm_pool m (priv mt c)) = {#} \<and> L c = [] \<and> size (objs (cm_pool m (publ mt))) < ALLOC_NUM)
         \<and> (q \<noteq> NULL \<longrightarrow> q - CHUNK_HEAD_LEN \<in># mp_free objs mt m L S \<and> q - CHUNK_HEAD_LEN \<notin># U))"
proof -
  have "pool_inv objs n (\<Sum>i\<le>n. mset (os i)) (mt0, m1, {#})"
    using create_ok [OF made n os, of m0] new by (auto simp: pool_inv_def)
  from pool_run_inv [OF laws run this]
  obtain L S where R: "mp_rel objs mt m L S U" "mp_free objs mt m L S + U = (\<Sum>i\<le>n. mset (os i))" "mt_max_core mt = n"
    by (auto simp: pool_inv_def)
  have once: "\<forall>x. count (mp_free objs mt m L S + U) x \<le> 1" using R(1) by (simp add: mp_rel_def)
  have "\<exists>q mt' m'. mempool_alloc_chunk ops c mt m = Inr (q, mt', m')
         \<and> (q = NULL \<longrightarrow> objs (cm_pool m (priv mt c)) = {#} \<and> L c = [] \<and> size (objs (cm_pool m (publ mt))) < ALLOC_NUM)
         \<and> (q \<noteq> NULL \<longrightarrow> q - CHUNK_HEAD_LEN \<in># mp_free objs mt m L S \<and> q - CHUNK_HEAD_LEN \<notin># U)" if "c < n" for c
    using alloc_chunk_ok [OF laws R(1), of c] that R(3) once_disjoint [OF once] by (force split: if_splits)
  moreover have "\<forall>c<n. clist m (mt_l_hpkt mt c) (mt_l_pkt mt c) (mt_l_len mt c) (L c)
      \<and> clist m (mt_s_hpkt mt c) (mt_s_pkt mt c) (mt_s_len mt c) (S c)"
    using R(1,3) by (simp add: mp_rel_def)
  ultimately show ?thesis using R(2,3) once by blast
qed

text \<open>Pools that are lists: two chunks for the one core and one public chunk.\<close>

definition list_ops :: "ptr list rte_pool_ops" where
  "list_ops = \<lparr>rp_get = (\<lambda>pl. case pl of [] \<Rightarrow> (None, []) | x # xs \<Rightarrow> (Some x, xs)),
     rp_get_bulk = (\<lambda>n pl. if length pl < n then (None, pl) else (Some (take n pl), drop n pl)),
     rp_put = (\<lambda>x pl. pl @ [x]), rp_put_bulk = (\<lambda>xs pl. pl @ xs), rp_size = length\<rparr>"

definition list_mk :: "nat \<Rightarrow> nat \<Rightarrow> nat \<Rightarrow> ptr \<times> ptr list \<times> ptr list" where
  "list_mk i n sz = (i + 1, map (\<lambda>j. 1000 * (i + 1) + sz * j) [0..<n], map (\<lambda>j. 1000 * (i + 1) + sz * j) [0..<n])"

definition cmem0 :: "ptr list cmem" where
  "cmem0 = \<lparr>cm_head = (\<lambda>_. \<lparr>ch_id = 0, ch_type = 0, ch_size = 0, ch_pool = 0, ch_next = 0, ch_re = 0\<rparr>), cm_hdr = (\<lambda>_. 0), cm_pool = (\<lambda>_. [])\<rparr>"

lemma list_ops_laws: "rte_mempool_laws list_ops mset"
  by (auto simp: rte_mempool_laws_def list_ops_def split: list.splits if_splits)
    (metis append_take_drop_id mset_append)

lemma list_alloc:
  "(case mempool_create True list_mk 16 2 1 1 cmem0 of
      Inr (Some mt0, m1) \<Rightarrow> (case mempool_alloc_chunk list_ops 0 mt0 m1 of Inr (q, _, _) \<Rightarrow> q = 1048 | _ \<Rightarrow> False)
    | _ \<Rightarrow> False)"
  by (simp add: mempool_create_def rte_chunk_pool_create_def list_mk_def round_chunk_def CHUNK_HEAD_LEN_def MAX_CORE_def MAX_CPUS_def
      take_bit_eq_mod upt_rec data_type_init_notype_def mempool_alloc_chunk_def chunk_alloc_notype_def alloc_private_def list_ops_def
      MAX_TYPES_def cmem0_def Let_def)

lemma list_run:
  obtains mt0 m1 mt m where "mempool_create True list_mk 16 2 1 1 cmem0 = Inr (Some mt0, m1)"
    "(pool_step list_ops 1)\<^sup>*\<^sup>* (mt0, m1, {#}) (mt, m, {#1000#})"
proof -
  obtain mt0 m1 where c: "mempool_create True list_mk 16 2 1 1 cmem0 = Inr (Some mt0, m1)"
    using list_alloc by (cases "mempool_create True list_mk 16 2 1 1 cmem0") (auto split: option.splits prod.splits)
  moreover obtain mt m where "mempool_alloc_chunk list_ops 0 mt0 m1 = Inr (1048, mt, m)"
    using list_alloc unfolding c by (cases "mempool_alloc_chunk list_ops 0 mt0 m1") (auto split: prod.splits)
  moreover from this have "pool_step list_ops 1 (mt0, m1, {#}) (mt, m, {#1000#})"
    using pool_step.alloc [of 0 1 list_ops mt0 m1 1048 mt m "{#}"] by (simp add: CHUNK_HEAD_LEN_def)
  ultimately show ?thesis using that by blast
qed

lemma list_made:
  "pools_made list_mk mset (\<lambda>i. if i < 1 then unat (2 :: u32) else unat (1 :: u32)) (take_bit 16 (round_chunk (CHUNK_HEAD_LEN + 16))) 1"
  by (auto simp: pools_made_def list_mk_def round_chunk_def CHUNK_HEAD_LEN_def inj_on_def upt_rec less_Suc_eq_le le_Suc_eq take_bit_eq_mod)

theorem chunks_conserved_witness:
  "\<exists>mt0 m1 mt m L S. mempool_create True list_mk 16 2 1 1 cmem0 = Inr (Some mt0, m1)
    \<and> (pool_step list_ops 1)\<^sup>*\<^sup>* (mt0, m1, {#}) (mt, m, {#1000#})
    \<and> clist m (mt_l_hpkt mt 0) (mt_l_pkt mt 0) (mt_l_len mt 0) (L 0) \<and> mp_free mset mt m L S + {#1000#} = {#1000, 1064, 2000#}"
proof -
  obtain mt0 m1 mt m where r: "mempool_create True list_mk 16 2 1 1 cmem0 = Inr (Some mt0, m1)"
    "(pool_step list_ops 1)\<^sup>*\<^sup>* (mt0, m1, {#}) (mt, m, {#1000#})"
    by (rule list_run)
  have "(\<Sum>i\<le>(1::nat). mset (fst (snd (list_mk i (if i < 1 then unat (2 :: u32) else unat (1 :: u32)) (take_bit 16 (round_chunk (CHUNK_HEAD_LEN + 16)))))))
      = {#1000, 1064, 2000#}"
    by (simp add: list_mk_def round_chunk_def CHUNK_HEAD_LEN_def upt_rec take_bit_eq_mod)
  then show ?thesis
    using chunks_conserved [OF list_ops_laws list_made _ _ r refl] r by (auto simp: MAX_CPUS_def)
qed

end
