(* ===== verification/Socket.thy ===== *)
theory Socket
  imports Qprelude
begin

text \<open>
  The table of sockets: \<^verbatim>\<open>socket.c\<close> and \<^verbatim>\<open>socket.h\<close>. A socket is an index into the
  table, so a socket pointer is an index or \<open>None\<close> for \<^verbatim>\<open>NULL\<close>. Each stack thread has its
  own list of free sockets; \<^verbatim>\<open>qepoll_reset\<close>, which drops the socket's entry in the event
  system, is recorded in \<open>tb_qe_reset\<close>.
\<close>

section \<open>State\<close>

datatype socket_type = SOCK_TYPE_UNUSED | SOCK_TYPE_STREAM | SOCK_TYPE_LISTENER

record socket =
  so_socktype :: socket_type
  so_default_app :: u8
  so_opts :: u32
  so_epoll :: u32
  so_qe :: ptr
  so_stream :: ptr
  so_saddr :: "u32 \<times> u16"
  so_daddr :: "u32 \<times> u16"

record socket_table =
  tb_sockets :: "nat \<Rightarrow> socket"
  tb_free_socket :: "nat \<Rightarrow> nat list"
  tb_free_num :: "nat \<Rightarrow> int"
  tb_free_public :: "nat list"
  tb_free_public_num :: int
  tb_qe_reset :: "nat list"

definition Q_EPOLLNONE :: u32 where "Q_EPOLLNONE = 0"
definition Q_EPOLLIN :: u32 where "Q_EPOLLIN = 1"
definition Q_EPOLLOUT :: u32 where "Q_EPOLLOUT = 4"
definition Q_EPOLLERR :: u32 where "Q_EPOLLERR = 8"

section \<open>Operations\<close>

text \<open>The sockets of stack \<open>c\<close> are \<open>chunk\<close> indices from \<open>c * chunk\<close> on.\<close>

definition socket_init :: "socket \<Rightarrow> socket" where
  "socket_init k = k\<lparr>so_qe := NULL, so_socktype := SOCK_TYPE_UNUSED, so_saddr := (0, 0), so_stream := NULL\<rparr>"

definition socket_table_init ::
    "nat \<Rightarrow> nat \<Rightarrow> nat \<Rightarrow> nat \<Rightarrow> nat \<Rightarrow> socket \<Rightarrow> socket_table result" where
  "socket_table_init max_concurrency max_socket pub_socket stack_thread chunk zeroed =
     (if max_concurrency > max_socket then Inl Exit0
      else Inr \<lparr>
        tb_sockets = (\<lambda>i. if i < stack_thread * chunk \<or> max_socket \<le> i \<and> i < max_socket + pub_socket
                          then socket_init zeroed else zeroed),
        tb_free_socket = (\<lambda>c. if c < stack_thread then [c * chunk..<(c + 1) * chunk] else []),
        tb_free_num = (\<lambda>c. if c < stack_thread then int chunk else 0),
        tb_free_public = [max_socket..<max_socket + pub_socket],
        tb_free_public_num = int pub_socket,
        tb_qe_reset = []\<rparr>)"

definition socket_fresh :: "socket_type \<Rightarrow> socket \<Rightarrow> socket" where
  "socket_fresh socktype k =
     k\<lparr>so_socktype := socktype, so_opts := 0, so_epoll := 0, so_qe := NULL, so_stream := NULL,
       so_saddr := (0, 0), so_daddr := (0, 0)\<rparr>"

definition socket_alloc ::
    "nat \<Rightarrow> nat \<Rightarrow> socket_type \<Rightarrow> socket_table \<Rightarrow> nat option \<times> socket_table" where
  "socket_alloc stack_thread core_id socktype t =
     (if core_id \<ge> stack_thread
      then case tb_free_public t of
             [] \<Rightarrow> (None, t)
           | k # ks \<Rightarrow> (Some k, t\<lparr>tb_free_public := ks, tb_free_public_num := tb_free_public_num t - 1,
               tb_sockets := (tb_sockets t)(k := socket_fresh socktype (tb_sockets t k))\<rparr>)
      else case tb_free_socket t core_id of
             [] \<Rightarrow> (None, t)
           | k # ks \<Rightarrow> (Some k, t\<lparr>tb_free_socket := (tb_free_socket t)(core_id := ks),
               tb_free_num := (tb_free_num t)(core_id := tb_free_num t core_id - 1),
               tb_sockets := (tb_sockets t)(k := socket_fresh socktype (tb_sockets t k))\<rparr>))"

definition socket_free :: "nat \<Rightarrow> nat \<Rightarrow> socket_table \<Rightarrow> socket_table result" where
  "socket_free core_id sockid t =
     (let k = tb_sockets t sockid
      in if so_socktype k = SOCK_TYPE_UNUSED then Inl Exit0
         else Inr (t\<lparr>
           tb_sockets := (tb_sockets t)(sockid := k\<lparr>so_socktype := SOCK_TYPE_UNUSED,
             so_epoll := Q_EPOLLNONE, so_qe := NULL, so_stream := NULL\<rparr>),
           tb_qe_reset := (if so_qe k \<noteq> NULL then tb_qe_reset t @ [sockid] else tb_qe_reset t),
           tb_free_socket := (tb_free_socket t)(core_id := tb_free_socket t core_id @ [sockid]),
           tb_free_num := (tb_free_num t)(core_id := tb_free_num t core_id + 1)\<rparr>))"

definition bind_socket_with_qe :: "nat \<Rightarrow> ptr \<Rightarrow> socket_table \<Rightarrow> int \<times> socket_table" where
  "bind_socket_with_qe sockid qe t =
     (if so_qe (tb_sockets t sockid) \<noteq> NULL \<or> qe = NULL then (FALSE, t)
      else (SUCCESS, t\<lparr>tb_sockets := (tb_sockets t)(sockid := (tb_sockets t sockid)\<lparr>so_qe := qe\<rparr>)\<rparr>))"

section \<open>Invariant\<close>

text \<open>
  The free lists of the stack threads hold the unused sockets among the first \<open>n\<close>, each in
  one list and once, and the counters are their lengths.
\<close>

definition socket_table_inv :: "nat \<Rightarrow> nat \<Rightarrow> socket_table \<Rightarrow> bool" where
  "socket_table_inv n stacks t \<longleftrightarrow>
     (\<forall>c < stacks. distinct (tb_free_socket t c) \<and> tb_free_num t c = int (length (tb_free_socket t c)))
     \<and> (\<forall>c < stacks. \<forall>d < stacks. c \<noteq> d \<longrightarrow> set (tb_free_socket t c) \<inter> set (tb_free_socket t d) = {})
     \<and> (\<forall>k<n. so_socktype (tb_sockets t k) = SOCK_TYPE_UNUSED
          \<longleftrightarrow> (\<exists>c < stacks. k \<in> set (tb_free_socket t c)))
     \<and> (\<forall>c < stacks. \<forall>k\<in>set (tb_free_socket t c). k < n)"

lemma socket_table_init_inv:
  assumes "socket_table_init mc ms ps st chunk z = Inr t" "so_socktype z = SOCK_TYPE_UNUSED"
  shows "socket_table_inv (st * chunk) st t"
proof -
  have disj: "set [c * chunk..<(c + 1) * chunk] \<inter> set [d * chunk..<(d + 1) * chunk] = {}"
    if "c \<noteq> d" for c d
  proof -
    have "c + 1 \<le> d \<or> d + 1 \<le> c" using that by linarith
    then have "(c + 1) * chunk \<le> d * chunk \<or> (d + 1) * chunk \<le> c * chunk"
      by (metis mult_le_mono1)
    then show ?thesis by auto
  qed
  have cover: "k \<in> set [k div chunk * chunk..<(k div chunk + 1) * chunk] \<and> k div chunk < st"
    if "k < st * chunk" for k
  proof -
    have "0 < chunk" using that by (cases chunk) auto
    then show ?thesis
      using that div_times_less_eq_dividend [of k chunk] dividend_less_div_times [of chunk k]
      by (auto simp: less_mult_imp_div_less algebra_simps)
  qed
  have lt: "k < st * chunk" if "c < st" "k < (c + 1) * chunk" for c k
  proof -
    have "(c + 1) * chunk \<le> st * chunk" using that(1) by (intro mult_le_mono1) simp
    then show ?thesis using that(2) by linarith
  qed
  have t: "c < st \<Longrightarrow> tb_free_socket t c = [c * chunk..<(c + 1) * chunk]"
    "c < st \<Longrightarrow> tb_free_num t c = int chunk" "so_socktype (tb_sockets t k) = SOCK_TYPE_UNUSED" for c k
    using assms by (auto simp: socket_table_init_def socket_init_def split: if_splits)
  have "\<exists>c < st. k \<in> set (tb_free_socket t c)" if "k < st * chunk" for k
    using cover [OF that] t(1) by (intro exI [of _ "k div chunk"]) auto
  moreover have "k < st * chunk" if "c < st" "k \<in> set (tb_free_socket t c)" for c k
    using that lt [OF that(1)] t(1) by auto
  ultimately show ?thesis
    using disj unfolding socket_table_inv_def by (simp add: t)
qed

lemma socket_alloc_spec:
  assumes inv: "socket_table_inv n st t" and c: "c < st" and ty: "ty \<noteq> SOCK_TYPE_UNUSED"
  shows "case socket_alloc st c ty t of
      (None, t') \<Rightarrow> t' = t \<and> tb_free_socket t c = []
    | (Some k, t') \<Rightarrow> k < n \<and> so_socktype (tb_sockets t k) = SOCK_TYPE_UNUSED
        \<and> so_socktype (tb_sockets t' k) = ty \<and> so_stream (tb_sockets t' k) = NULL
        \<and> so_qe (tb_sockets t' k) = NULL
        \<and> (\<forall>j. j \<noteq> k \<longrightarrow> tb_sockets t' j = tb_sockets t j) \<and> socket_table_inv n st t'"
proof (cases "tb_free_socket t c")
  case Nil
  then show ?thesis using c by (simp add: socket_alloc_def)
next
  case (Cons k ks)
  let ?t = "t\<lparr>tb_free_socket := (tb_free_socket t)(c := ks),
    tb_free_num := (tb_free_num t)(c := tb_free_num t c - 1),
    tb_sockets := (tb_sockets t)(k := socket_fresh ty (tb_sockets t k))\<rparr>"
  have r: "socket_alloc st c ty t = (Some k, ?t)" using c Cons by (simp add: socket_alloc_def)
  have kn: "k < n" "so_socktype (tb_sockets t k) = SOCK_TYPE_UNUSED" "k \<notin> set ks" "distinct ks"
    and other: "\<And>d. d < st \<Longrightarrow> d \<noteq> c \<Longrightarrow> k \<notin> set (tb_free_socket t d)"
    using inv c Cons unfolding socket_table_inv_def by (force, force, force, force, fastforce)
  have "(\<exists>d < st. j \<in> set (tb_free_socket ?t d)) \<longleftrightarrow> j \<noteq> k \<and> (\<exists>d < st. j \<in> set (tb_free_socket t d))" for j
    using c Cons kn other by auto (metis set_ConsD)
  moreover have "so_socktype (tb_sockets ?t j) = SOCK_TYPE_UNUSED \<longleftrightarrow>
      j \<noteq> k \<and> so_socktype (tb_sockets t j) = SOCK_TYPE_UNUSED" for j
    using ty by (simp add: socket_fresh_def)
  moreover have "set ks \<inter> set (tb_free_socket t d) = {}" if "d < st" "d \<noteq> c" for d
    using inv c Cons that unfolding socket_table_inv_def by fastforce
  moreover have "set ks \<subseteq> {..<n}" using inv c Cons unfolding socket_table_inv_def by auto
  ultimately have "socket_table_inv n st ?t"
    using inv c Cons kn unfolding socket_table_inv_def by (simp add: Int_commute subset_eq)
  then show ?thesis using kn ty by (simp add: r) (simp add: socket_fresh_def)
qed

lemma socket_free_spec:
  assumes inv: "socket_table_inv n st t" and c: "c < st" and k: "k < n"
    "so_socktype (tb_sockets t k) \<noteq> SOCK_TYPE_UNUSED"
  shows "\<exists>t'. socket_free c k t = Inr t' \<and> socket_table_inv n st t'
    \<and> tb_free_socket t' c = tb_free_socket t c @ [k]
    \<and> (\<forall>j. j \<noteq> k \<longrightarrow> tb_sockets t' j = tb_sockets t j)"
proof -
  obtain t' where t': "socket_free c k t = Inr t'" using k by (auto simp: socket_free_def Let_def)
  then have f: "tb_free_socket t' = (tb_free_socket t)(c := tb_free_socket t c @ [k])"
    "tb_free_num t' = (tb_free_num t)(c := tb_free_num t c + 1)"
    "so_socktype (tb_sockets t' k) = SOCK_TYPE_UNUSED" "\<And>j. j \<noteq> k \<Longrightarrow> tb_sockets t' j = tb_sockets t j"
    using k by (auto simp: socket_free_def Let_def)
  have kf: "\<And>d. d < st \<Longrightarrow> k \<notin> set (tb_free_socket t d)" using inv k unfolding socket_table_inv_def by blast
  have "(\<exists>d < st. j \<in> set (tb_free_socket t' d)) \<longleftrightarrow> j = k \<or> (\<exists>d < st. j \<in> set (tb_free_socket t d))" for j
    using c by (auto simp: f)
  moreover have "so_socktype (tb_sockets t' j) = SOCK_TYPE_UNUSED \<longleftrightarrow>
      j = k \<or> so_socktype (tb_sockets t j) = SOCK_TYPE_UNUSED" for j
    using f(3,4) by (cases "j = k") auto
  ultimately have "socket_table_inv n st t'"
    using inv c kf k unfolding socket_table_inv_def by (auto simp: f(1,2))
  then show ?thesis using t' f by simp
qed

section \<open>Main property\<close>

text \<open>
  C27 (invariant). Allocating and freeing keep every socket either in use or in the free list of
  one stack thread, exactly once: an allocated socket was not in use before and is detached from
  any stream and event handle, every other socket is untouched, an allocation fails only when the
  thread's list is empty, and freeing a used socket makes it available to the freeing thread.
\<close>

theorem socket_table_sound:
  assumes "socket_table_inv n st t" "c < st" "ty \<noteq> SOCK_TYPE_UNUSED"
  shows "(case socket_alloc st c ty t of
      (None, t') \<Rightarrow> t' = t \<and> tb_free_socket t c = []
    | (Some k, t') \<Rightarrow> so_socktype (tb_sockets t k) = SOCK_TYPE_UNUSED
        \<and> so_socktype (tb_sockets t' k) = ty \<and> so_stream (tb_sockets t' k) = NULL
        \<and> so_qe (tb_sockets t' k) = NULL \<and> (\<forall>j. j \<noteq> k \<longrightarrow> tb_sockets t' j = tb_sockets t j)
        \<and> socket_table_inv n st t')
    \<and> (\<forall>k<n. so_socktype (tb_sockets t k) \<noteq> SOCK_TYPE_UNUSED \<longrightarrow>
        (\<exists>t'. socket_free c k t = Inr t' \<and> socket_table_inv n st t'
          \<and> tb_free_socket t' c = tb_free_socket t c @ [k]))"
proof (intro conjI allI impI)
  show "case socket_alloc st c ty t of
      (None, t') \<Rightarrow> t' = t \<and> tb_free_socket t c = []
    | (Some k, t') \<Rightarrow> so_socktype (tb_sockets t k) = SOCK_TYPE_UNUSED
        \<and> so_socktype (tb_sockets t' k) = ty \<and> so_stream (tb_sockets t' k) = NULL
        \<and> so_qe (tb_sockets t' k) = NULL \<and> (\<forall>j. j \<noteq> k \<longrightarrow> tb_sockets t' j = tb_sockets t j)
        \<and> socket_table_inv n st t'"
    using socket_alloc_spec [OF assms] by (simp split: prod.splits option.splits)
  show "\<exists>t'. socket_free c k t = Inr t' \<and> socket_table_inv n st t'
      \<and> tb_free_socket t' c = tb_free_socket t c @ [k]"
    if "k < n" "so_socktype (tb_sockets t k) \<noteq> SOCK_TYPE_UNUSED" for k
    using socket_free_spec [OF assms(1,2) that] by blast
qed

definition socket0 :: socket where
  "socket0 = \<lparr>so_socktype = SOCK_TYPE_UNUSED, so_default_app = 0, so_opts = 0, so_epoll = 0, so_qe = NULL,
     so_stream = NULL, so_saddr = (0, 0), so_daddr = (0, 0)\<rparr>"

theorem socket_table_sound_witness:
  "\<exists>t. socket_table_init 4 8 0 2 4 socket0 = Inr t \<and>
     so_socktype (tb_sockets (snd (socket_alloc 2 1 SOCK_TYPE_STREAM t)) 4) = SOCK_TYPE_STREAM"
proof -
  obtain t where t: "socket_table_init 4 8 0 2 4 socket0 = Inr t"
      "tb_free_socket t 1 = [4, 5, 6, 7]"
    by (simp add: socket_table_init_def upt_rec)
  have "socket_table_inv 8 2 t"
    using socket_table_init_inv [OF t(1)] by (simp add: socket0_def)
  from socket_table_sound [OF this, of 1 SOCK_TYPE_STREAM] show ?thesis
    using t by (auto simp: socket_alloc_def)
qed

end
