(* ===== verification/N21_Queue.thy ===== *)
theory N21_Queue
  imports Circular_Queue "HOL-Library.Multiset"
begin

text \<open>
  The n-to-1 queue of \<^verbatim>\<open>tools/src/include/n21_queue.h\<close>: one circular queue per producer and
  a consumer that visits them round robin, in the built configuration without ready flags and
  without counters (\<^verbatim>\<open>N21Q_DEQUEUE_STRONG\<close>), and the stream queues of
  \<^verbatim>\<open>stream_queue.h\<close> on top of it. The visiting loop is written with fuel; 256 rounds are
  enough because the index is an 8-bit number below \<^verbatim>\<open>queue_num\<close>.
\<close>

section \<open>State and operations\<close>

record n21_queue =
  nq_queue_num :: u8
  nq_queue_point :: u8
  nq_queues :: "circular_queue list"

definition n21q_succ :: "n21_queue \<Rightarrow> u8 \<Rightarrow> u8" where
  "n21q_succ q p = (let p1 = p + 1 in if p1 = nq_queue_num q then 0 else p1)"

definition n21q_count :: "n21_queue \<Rightarrow> u32" where
  "n21q_count q = foldl (\<lambda>ret i. ret + cirq_count (nq_queues q ! i)) 0 [0..<unat (nq_queue_num q)]"

fun dequeue_strong_loop :: "nat \<Rightarrow> u8 \<Rightarrow> n21_queue \<Rightarrow> (ptr \<times> n21_queue) option" where
  "dequeue_strong_loop 0 start_point q = None"
| "dequeue_strong_loop (Suc fuel) start_point q =
     (let p = nq_queue_point q;
          (ret, c) = cirq_get (nq_queues q ! unat p);
          q1 = q\<lparr>nq_queues := (nq_queues q)[unat p := c], nq_queue_point := n21q_succ q p\<rparr>
      in if ret = NULL \<and> start_point \<noteq> nq_queue_point q1
         then dequeue_strong_loop fuel start_point q1
         else Some (ret, q1))"

definition do_n21q_dequeue_strong :: "n21_queue \<Rightarrow> (ptr \<times> n21_queue) option" where
  "do_n21q_dequeue_strong q = dequeue_strong_loop 256 (nq_queue_point q) q"

fun dequeue_local_loop :: "nat \<Rightarrow> u8 \<Rightarrow> n21_queue \<Rightarrow> (ptr \<times> n21_queue) option" where
  "dequeue_local_loop 0 start_point q = None"
| "dequeue_local_loop (Suc fuel) start_point q =
     (let p = nq_queue_point q;
          (ret, c) = cirq_get (nq_queues q ! unat p);
          q1 = q\<lparr>nq_queues := (nq_queues q)[unat p := c]\<rparr>;
          q2 = (if ret = NULL then q1\<lparr>nq_queue_point := n21q_succ q1 p\<rparr> else q1)
      in if ret = NULL \<and> start_point \<noteq> nq_queue_point q2
         then dequeue_local_loop fuel start_point q2
         else Some (ret, q2))"

definition n21q_dequeue_local :: "n21_queue \<Rightarrow> (ptr \<times> n21_queue) option" where
  "n21q_dequeue_local q = dequeue_local_loop 256 (nq_queue_point q) q"

definition do_n21q_dequeue :: "n21_queue \<Rightarrow> (ptr \<times> n21_queue) option" where
  "do_n21q_dequeue q = do_n21q_dequeue_strong q"

definition n21q_init :: "n21_queue \<Rightarrow> u8 \<Rightarrow> u32 \<Rightarrow> n21_queue" where
  "n21q_init q num sz =
     q\<lparr>nq_queue_num := num, nq_queue_point := 0,
       nq_queues := map (\<lambda>i. cirq_init \<lparr>cq_head = 0, cq_queue = [], cq_size = 0, cq_tail = 0\<rparr> sz)
                      [0..<unat num]\<rparr>"

definition n21q_enqueue :: "n21_queue \<Rightarrow> u8 \<Rightarrow> ptr \<Rightarrow> int \<times> n21_queue" where
  "n21q_enqueue q q_id item =
     (let (ret, c) = cirq_add (nq_queues q ! unat q_id) item
      in (ret, q\<lparr>nq_queues := (nq_queues q)[unat q_id := c]\<rparr>))"

definition n21q_dequeue :: "n21_queue \<Rightarrow> (ptr \<times> n21_queue) option" where
  "n21q_dequeue q = do_n21q_dequeue q"

definition n21q_dequeue_strong :: "n21_queue \<Rightarrow> (ptr \<times> n21_queue) option" where
  "n21q_dequeue_strong q = do_n21q_dequeue_strong q"

definition n21q_get_wslot :: "n21_queue \<Rightarrow> u8 \<Rightarrow> nat" where
  "n21q_get_wslot q q_id = cirq_get_wslot (nq_queues q ! unat q_id)"

text \<open>\<open>mems i\<close> is the block the \<open>i\<close>-th \<^verbatim>\<open>calloc\<close> of the slots returns.\<close>

definition n21q_init_slot :: "n21_queue \<Rightarrow> nat \<Rightarrow> (nat \<Rightarrow> ptr) \<Rightarrow> n21_queue" where
  "n21q_init_slot q slot_size mems =
     foldl (\<lambda>q i. q\<lparr>nq_queues := (nq_queues q)[i := cirq_init_slot (nq_queues q ! i) slot_size (mems i)]\<rparr>)
       q [0..<unat (nq_queue_num q)]"

definition n21q_writen :: "n21_queue \<Rightarrow> u8 \<Rightarrow> int \<times> n21_queue" where
  "n21q_writen q q_id =
     (let (ret, c) = cirq_writen (nq_queues q ! unat q_id)
      in (ret, q\<lparr>nq_queues := (nq_queues q)[unat q_id := c]\<rparr>))"

subsection \<open>Stream queues\<close>

definition streamq_init :: "n21_queue \<Rightarrow> u8 \<Rightarrow> u32 \<Rightarrow> n21_queue" where
  "streamq_init q num sz = n21q_init q num sz"

definition streamq_enqueue :: "n21_queue \<Rightarrow> u8 \<Rightarrow> ptr \<Rightarrow> int \<times> n21_queue" where
  "streamq_enqueue q q_id cur_stream = n21q_enqueue q q_id cur_stream"

definition streamq_dequeue :: "n21_queue \<Rightarrow> (ptr \<times> n21_queue) option" where
  "streamq_dequeue q = n21q_dequeue_strong q"

definition sstreamq_init :: "circular_queue \<Rightarrow> u32 \<Rightarrow> circular_queue" where
  "sstreamq_init q sz = cirq_init q sz"

definition sstreamq_enqueue :: "circular_queue \<Rightarrow> ptr \<Rightarrow> int \<times> circular_queue" where
  "sstreamq_enqueue q cur_stream = cirq_add q cur_stream"

definition sstreamq_dequeue :: "circular_queue \<Rightarrow> ptr \<times> circular_queue" where
  "sstreamq_dequeue q = cirq_get q"

section \<open>Round robin over the producers' queues\<close>

definition n21q_wf :: "n21_queue \<Rightarrow> bool" where
  "n21q_wf q \<longleftrightarrow> length (nq_queues q) = unat (nq_queue_num q) \<and> nq_queue_point q < nq_queue_num q
     \<and> (\<forall>c\<in>set (nq_queues q). cirq_wf c \<and> NULL \<notin> set (cirq_list c))"

text \<open>The \<open>k\<close> indices visited from \<open>p\<close> on.\<close>

definition rr_scan :: "nat \<Rightarrow> nat \<Rightarrow> nat \<Rightarrow> nat list" where
  "rr_scan n p k = map (\<lambda>j. (p + j) mod n) [0..<k]"

lemma rr_scan_Suc: "p < n \<Longrightarrow> rr_scan n p (Suc k) = p # rr_scan n ((p + 1) mod n) k"
  unfolding rr_scan_def by (simp add: upt_conv_Cons map_Suc_upt [symmetric] mod_add_left_eq del: upt_Suc)

lemma rr_scan_0 [simp]: "rr_scan n p 0 = []"
  by (simp add: rr_scan_def)

lemma set_rr_scan:
  assumes "p < n"
  shows "set (rr_scan n p n) = {..<n}"
proof -
  have "inj_on (\<lambda>j. (p + j) mod n) {..<n}" by (auto simp: inj_on_def mod_add_inj)
  moreover have "(\<lambda>j. (p + j) mod n) ` {..<n} \<subseteq> {..<n}" using assms by auto
  ultimately have "(\<lambda>j. (p + j) mod n) ` {..<n} = {..<n}" by (simp add: endo_inj_surj)
  then show ?thesis by (simp add: rr_scan_def atLeast0LessThan)
qed

definition n21q_has :: "n21_queue \<Rightarrow> nat \<Rightarrow> bool" where
  "n21q_has q i \<longleftrightarrow> cirq_list (nq_queues q ! i) \<noteq> []"

definition n21q_take :: "n21_queue \<Rightarrow> nat \<Rightarrow> n21_queue" where
  "n21q_take q i = q\<lparr>nq_queues := (nq_queues q)[i := snd (cirq_get (nq_queues q ! i))]\<rparr>"

lemma unat_n21q_succ:
  assumes "p < nq_queue_num q"
  shows "unat (n21q_succ q p) = (unat p + 1) mod unat (nq_queue_num q)"
proof -
  have s: "unat (p + 1) = unat p + 1" using assms by (rule unat_succ_below)
  show ?thesis
    using assms s
    by (cases "p + 1 = nq_queue_num q")
      (auto simp: n21q_succ_def Let_def word_unat_eq_iff word_less_nat_alt)
qed

lemma n21q_wf_queue:
  assumes "n21q_wf q" "i < unat (nq_queue_num q)"
  shows "cirq_wf (nq_queues q ! i)" "NULL \<notin> set (cirq_list (nq_queues q ! i))"
  using assms by (auto simp: n21q_wf_def)

lemma n21q_wf_take:
  assumes wf: "n21q_wf q" and i: "i < unat (nq_queue_num q)"
  shows "n21q_wf (n21q_take q i)"
proof -
  let ?c = "nq_queues q ! i"
  have "cirq_wf (snd (cirq_get ?c))"
    using n21q_wf_queue [OF wf i] by (simp add: cq.get_invar)
  moreover have "NULL \<notin> set (cirq_list (snd (cirq_get ?c)))"
    using n21q_wf_queue [OF wf i] cq.get_empty [of ?c] cq.get_item [of ?c]
    by (cases "cirq_list ?c") auto
  ultimately show ?thesis
    using wf by (auto simp: n21q_wf_def n21q_take_def dest!: set_update_subset_insert [THEN subsetD])
qed

lemma n21q_get_cases:
  assumes wf: "n21q_wf q" and i: "i < unat (nq_queue_num q)"
  shows "\<not> n21q_has q i \<Longrightarrow> cirq_get (nq_queues q ! i) = (NULL, nq_queues q ! i)"
    and "n21q_has q i \<Longrightarrow> fst (cirq_get (nq_queues q ! i)) = hd (cirq_list (nq_queues q ! i))
      \<and> hd (cirq_list (nq_queues q ! i)) \<noteq> NULL"
proof -
  show "\<not> n21q_has q i \<Longrightarrow> cirq_get (nq_queues q ! i) = (NULL, nq_queues q ! i)"
    using n21q_wf_queue [OF wf i] by (simp add: n21q_has_def cq.get_empty)
  assume "n21q_has q i"
  then obtain x xs where c: "cirq_list (nq_queues q ! i) = x # xs"
    by (auto simp: n21q_has_def neq_Nil_conv)
  then show "fst (cirq_get (nq_queues q ! i)) = hd (cirq_list (nq_queues q ! i))
      \<and> hd (cirq_list (nq_queues q ! i)) \<noteq> NULL"
    using cq.get_item [OF n21q_wf_queue(1) [OF wf i] c] n21q_wf_queue(2) [OF wf i] by auto
qed

text \<open>One round of the loop is one look at the queue under the index.\<close>

definition n21q_result :: "n21_queue \<Rightarrow> u8 \<Rightarrow> nat list \<Rightarrow> ptr \<times> n21_queue" where
  "n21q_result q start visits = (case find (n21q_has q) visits of
       None \<Rightarrow> (NULL, q\<lparr>nq_queue_point := start\<rparr>)
     | Some i \<Rightarrow> (hd (cirq_list (nq_queues q ! i)),
         (n21q_take q i)\<lparr>nq_queue_point := n21q_succ q (of_nat i)\<rparr>))"

lemma n21q_result_point: "n21q_result (q\<lparr>nq_queue_point := x\<rparr>) start visits = n21q_result q start visits"
proof -
  have has: "n21q_has (q\<lparr>nq_queue_point := x\<rparr>) = n21q_has q" by (simp add: n21q_has_def fun_eq_iff)
  show ?thesis
    by (simp add: n21q_result_def has n21q_take_def n21q_succ_def split: option.split)
qed

lemma n21q_result_skip: "\<not> n21q_has q i \<Longrightarrow> n21q_result q start (i # visits) = n21q_result q start visits"
  by (simp add: n21q_result_def)

lemma dequeue_strong_loop_result:
  assumes "n21q_wf q" "0 < k" "k \<le> fuel"
    "(unat (nq_queue_point q) + k) mod unat (nq_queue_num q) = unat start"
  shows "k \<le> unat (nq_queue_num q) \<Longrightarrow> dequeue_strong_loop fuel start q
    = Some (n21q_result q start (rr_scan (unat (nq_queue_num q)) (unat (nq_queue_point q)) k))"
  using assms
proof (induction fuel arbitrary: q k)
  case (Suc fuel)
  note IH = Suc.IH and prems = Suc.prems
  let ?n = "unat (nq_queue_num q)" and ?p = "nq_queue_point q"
  have p: "unat ?p < ?n" and pw: "?p < nq_queue_num q"
    using prems by (simp_all add: n21q_wf_def word_less_nat_alt)
  obtain k' where k: "k = Suc k'" using prems by (cases k) auto
  have scan: "rr_scan ?n (unat ?p) k = unat ?p # rr_scan ?n ((unat ?p + 1) mod ?n) k'"
    using p by (simp add: k rr_scan_Suc)
  note cases = n21q_get_cases [OF prems(2) p]
  show ?case
  proof (cases "n21q_has q (unat ?p)")
    case True
    then show ?thesis
      using cases(2) scan by (auto simp: n21q_result_def n21q_take_def split_beta Let_def)
  next
    case False
    let ?q = "q\<lparr>nq_queue_point := n21q_succ q ?p\<rparr>"
    have nxt: "unat (n21q_succ q ?p) = (unat ?p + 1) mod ?n" using pw by (rule unat_n21q_succ)
    have wf': "n21q_wf ?q" using prems(2) p nxt by (simp add: n21q_wf_def word_less_nat_alt)
    have dist: "((unat ?p + 1) mod ?n + k') mod ?n = unat start"
      using prems(5) by (simp add: k mod_add_left_eq)
    have upd: "q\<lparr>nq_queues := (nq_queues q)[unat ?p := nq_queues q ! unat ?p], nq_queue_point := x\<rparr>
      = q\<lparr>nq_queue_point := x\<rparr>" for x by simp
    show ?thesis
    proof (cases k')
      case 0
      then have "n21q_succ q ?p = start" using dist nxt by (simp add: word_unat_eq_iff)
      then show ?thesis
        using cases(1) [OF False] scan False 0 by (simp add: n21q_result_def upd)
    next
      case (Suc k'')
      have "k' < ?n" using prems(1) k by simp
      then have "start \<noteq> n21q_succ q ?p"
        using dist nxt Suc p mod_add_inj [of k' ?n 0 "(unat ?p + 1) mod ?n"] by auto
      moreover have "dequeue_strong_loop fuel start ?q
          = Some (n21q_result ?q start (rr_scan ?n ((unat ?p + 1) mod ?n) k'))"
        using IH [where q = ?q and k = k'] wf' dist prems k Suc nxt by simp
      ultimately show ?thesis
        using cases(1) [OF False] scan False by (simp add: upd n21q_result_point n21q_result_skip)
    qed
  qed
qed simp

lemma n21q_dequeue_strong_result:
  assumes "n21q_wf q"
  shows "n21q_dequeue_strong q = Some (n21q_result q (nq_queue_point q)
    (rr_scan (unat (nq_queue_num q)) (unat (nq_queue_point q)) (unat (nq_queue_num q))))"
proof -
  have "unat (nq_queue_point q) < unat (nq_queue_num q)" "unat (nq_queue_num q) \<le> 256"
    using assms unat_word_less [of "nq_queue_num q"] by (simp_all add: n21q_wf_def word_less_nat_alt)
  then show ?thesis
    unfolding n21q_dequeue_strong_def do_n21q_dequeue_strong_def
    using assms by (intro dequeue_strong_loop_result) simp_all
qed

lemma n21q_wf_point:
  assumes "n21q_wf q" "p < nq_queue_num q"
  shows "n21q_wf (q\<lparr>nq_queue_point := p\<rparr>)"
  using assms by (simp add: n21q_wf_def)

lemma n21q_succ_less: "p < nq_queue_num q \<Longrightarrow> n21q_succ q p < nq_queue_num q"
  using unat_n21q_succ [of p q] by (simp add: word_less_nat_alt)

lemma n21q_of_nat:
  assumes "i < unat (nq_queue_num q)"
  shows "unat (of_nat i :: u8) = i" "(of_nat i :: u8) < nq_queue_num q"
proof -
  have "i < 256" using assms unat_word_less [of "nq_queue_num q"] by simp
  then show "unat (of_nat i :: u8) = i" by (simp add: unat_of_nat)
  then show "(of_nat i :: u8) < nq_queue_num q" using assms by (simp add: word_less_nat_alt)
qed

lemma n21q_result_wf:
  assumes "n21q_wf q" "set visits \<subseteq> {..<unat (nq_queue_num q)}" "start < nq_queue_num q"
  shows "n21q_wf (snd (n21q_result q start visits))"
proof (cases "find (n21q_has q) visits")
  case None
  then show ?thesis using assms by (simp add: n21q_result_def n21q_wf_point)
next
  case (Some i)
  then have i: "i < unat (nq_queue_num q)"
    using assms(2) by (auto simp: find_Some_iff dest: nth_mem)
  then show ?thesis
    using n21q_wf_take [OF assms(1) i] n21q_of_nat [OF i] Some
    by (simp add: n21q_result_def n21q_wf_point n21q_succ_less n21q_take_def)
qed

section \<open>The items of all producers\<close>

text \<open>
  All items in the queue. A dequeue takes one of them, and finds none only when there are none: a
  contract that does not mention the order in which the producers are visited.
\<close>

definition n21q_items :: "n21_queue \<Rightarrow> ptr multiset" where
  "n21q_items q = sum_list (map (\<lambda>c. mset (cirq_list c)) (nq_queues q))"

lemma sum_list_update_remove:
  fixes xs :: "'a multiset list"
  assumes "i < length xs" "xs ! i = add_mset x y"
  shows "sum_list xs = add_mset x (sum_list (xs[i := y]))"
  using assms
proof (induction xs arbitrary: i)
  case (Cons z zs)
  then show ?case by (cases i) auto
qed simp

lemma n21q_items_take:
  assumes "n21q_wf q" "i < unat (nq_queue_num q)" "cirq_list (nq_queues q ! i) = x # xs"
  shows "n21q_items q = add_mset x (n21q_items (n21q_take q i))"
proof -
  let ?ms = "map (\<lambda>c. mset (cirq_list c)) (nq_queues q)"
  have i: "i < length (nq_queues q)" using assms by (simp add: n21q_wf_def)
  have "?ms ! i = add_mset x (mset xs)" using i assms(3) by simp
  moreover have "cirq_list (snd (cirq_get (nq_queues q ! i))) = xs"
    using cirq_get_item(2) [OF n21q_wf_queue(1) [OF assms(1,2)] assms(3)] .
  ultimately show ?thesis
    using sum_list_update_remove [of i ?ms x "mset xs"] i by (simp add: n21q_items_def n21q_take_def map_update)
qed

lemma n21q_items_point [simp]: "n21q_items (q\<lparr>nq_queue_point := p\<rparr>) = n21q_items q"
  by (simp add: n21q_items_def)

lemma n21q_dequeue_items:
  assumes wf: "n21q_wf q"
  obtains x q' where "n21q_dequeue_strong q = Some (x, q')" "n21q_wf q'" "nq_queue_num q' = nq_queue_num q"
    "x = NULL \<Longrightarrow> n21q_items q = {#} \<and> n21q_items q' = {#}" "x \<noteq> NULL \<Longrightarrow> n21q_items q = add_mset x (n21q_items q')"
proof -
  let ?n = "unat (nq_queue_num q)" and ?p = "nq_queue_point q"
  let ?v = "rr_scan ?n (unat ?p) ?n"
  let ?r = "n21q_result q ?p ?v"
  have p: "unat ?p < ?n" "?p < nq_queue_num q" using wf by (simp_all add: n21q_wf_def word_less_nat_alt)
  note v = set_rr_scan [OF p(1)]
  have deq: "n21q_dequeue_strong q = Some (fst ?r, snd ?r)" using n21q_dequeue_strong_result [OF wf] by simp
  have wf': "n21q_wf (snd ?r)" using n21q_result_wf [OF wf _ p(2)] v by simp
  show thesis
  proof (cases "find (n21q_has q) ?v")
    case None
    then have "\<not> n21q_has q i" if "i < ?n" for i using that v by (auto simp: find_None_iff)
    then have "\<forall>c\<in>set (nq_queues q). cirq_list c = []"
      using wf by (auto simp: n21q_has_def n21q_wf_def in_set_conv_nth)
    moreover have "sum_list (map (\<lambda>c. mset (cirq_list c)) cs) = {#}" if "\<forall>c\<in>set cs. cirq_list c = []" for cs
      using that by (induction cs) auto
    ultimately have "n21q_items q = {#}" by (simp add: n21q_items_def)
    then show thesis using that [OF deq wf'] None by (simp add: n21q_result_def)
  next
    case (Some i)
    then have i: "i < ?n" "n21q_has q i" using v by (auto simp: find_Some_iff dest: nth_mem)
    then obtain x xs where c: "cirq_list (nq_queues q ! i) = x # xs" by (auto simp: n21q_has_def neq_Nil_conv)
    then have "x \<noteq> NULL" using n21q_wf_queue(2) [OF wf i(1)] by auto
    then show thesis using that [OF deq wf'] Some c n21q_items_take [OF wf i(1) c]
      by (simp add: n21q_result_def n21q_take_def)
  qed
qed

lemma sum_list_mset_size: "size (n21q_items q) = sum_list (map (\<lambda>c. length (cirq_list c)) (nq_queues q))"
proof -
  have "size (sum_list (map (\<lambda>c. mset (cirq_list c)) cs)) = sum_list (map (\<lambda>c. length (cirq_list c)) cs)" for cs
    by (induction cs) auto
  then show ?thesis by (simp add: n21q_items_def)
qed

text \<open>A run of dequeues by the consumer.\<close>

fun n21q_drain :: "nat \<Rightarrow> n21_queue \<Rightarrow> ptr list option" where
  "n21q_drain 0 q = Some []"
| "n21q_drain (Suc k) q = (case n21q_dequeue_strong q of
      None \<Rightarrow> None
    | Some (x, q') \<Rightarrow> map_option (Cons x) (n21q_drain k q'))"

lemma n21q_drain_total: "n21q_wf q \<Longrightarrow> \<exists>rs. n21q_drain k q = Some rs"
proof (induction k arbitrary: q)
  case (Suc k)
  let ?r = "n21q_result q (nq_queue_point q)
    (rr_scan (unat (nq_queue_num q)) (unat (nq_queue_point q)) (unat (nq_queue_num q)))"
  have "n21q_wf (snd ?r)"
    using Suc.prems
    by (intro n21q_result_wf) (auto simp: set_rr_scan n21q_wf_def word_less_nat_alt)
  then obtain rs where "n21q_drain k (snd ?r) = Some rs" using Suc.IH by blast
  then show ?case
    using n21q_dequeue_strong_result [OF Suc.prems] by (simp add: split_beta)
qed simp

lemma rr_scan_nth: "j < k \<Longrightarrow> rr_scan n p k ! j = (p + j) mod n"
  by (simp add: rr_scan_def)

text \<open>The queue \<open>d\<close> places ahead of the index is served within \<open>d + 1\<close> dequeues.\<close>

lemma n21q_drain_serves:
  assumes "n21q_wf q" "d < m" "d < unat (nq_queue_num q)"
    "j = (unat (nq_queue_point q) + d) mod unat (nq_queue_num q)"
    "cirq_list (nq_queues q ! j) = x # xs"
  shows "\<exists>rs. n21q_drain m q = Some rs \<and> x \<in> set rs"
  using assms
proof (induction m arbitrary: q d)
  case (Suc m)
  let ?n = "unat (nq_queue_num q)" and ?p = "unat (nq_queue_point q)"
  have p: "?p < ?n" using Suc.prems(1) by (simp add: n21q_wf_def word_less_nat_alt)
  have hasj: "n21q_has q (rr_scan ?n ?p ?n ! d)"
    using Suc.prems by (simp add: n21q_has_def rr_scan_nth)
  obtain e where e: "e < ?n" "n21q_has q ((?p + e) mod ?n)"
      "find (n21q_has q) (rr_scan ?n ?p ?n) = Some ((?p + e) mod ?n)" "e \<le> d"
  proof -
    obtain i where "find (n21q_has q) (rr_scan ?n ?p ?n) = Some i"
      using hasj Suc.prems(3) nth_mem [of d "rr_scan ?n ?p ?n"]
      by (cases "find (n21q_has q) (rr_scan ?n ?p ?n)") (auto simp: find_None_iff rr_scan_def)
    moreover from this obtain e where "e < ?n" "n21q_has q (rr_scan ?n ?p ?n ! e)"
        "i = rr_scan ?n ?p ?n ! e" "\<forall>k<e. \<not> n21q_has q (rr_scan ?n ?p ?n ! k)"
      by (auto simp: find_Some_iff rr_scan_def)
    ultimately show thesis
      using that hasj by (metis linorder_not_less rr_scan_nth)
  qed
  let ?i = "(?p + e) mod ?n"
  let ?q = "(n21q_take q ?i)\<lparr>nq_queue_point := n21q_succ q (of_nat ?i)\<rparr>"
  have i: "?i < ?n" using p by simp
  have deq: "n21q_dequeue_strong q = Some (hd (cirq_list (nq_queues q ! ?i)), ?q)"
    using n21q_dequeue_strong_result [OF Suc.prems(1)] e by (simp add: n21q_result_def)
  have wf': "n21q_wf ?q"
    using n21q_wf_take [OF Suc.prems(1) i] n21q_of_nat [OF i]
    by (intro n21q_wf_point) (simp_all add: n21q_take_def n21q_succ_less)
  show ?case
  proof (cases "e = d")
    case True
    obtain rs where "n21q_drain m ?q = Some rs" using n21q_drain_total [OF wf'] by blast
    then show ?thesis using deq True Suc.prems by simp
  next
    case False
    with e have ed: "e < d" by simp
    have ne: "?i \<noteq> j" using ed Suc.prems e by (simp add: mod_add_inj)
    have pt: "unat (nq_queue_point ?q) = (?i + 1) mod ?n"
      using n21q_of_nat [OF i] unat_n21q_succ [of "of_nat ?i" q] by simp
    have "((?i + 1) mod ?n + (d - e - 1)) mod ?n = (?p + d) mod ?n"
    proof -
      have "((?i + 1) mod ?n + (d - e - 1)) mod ?n = (?p + e + 1 + (d - e - 1)) mod ?n"
        by (simp add: mod_simps)
      then show ?thesis using ed by simp
    qed
    then have "\<exists>rs. n21q_drain m ?q = Some rs \<and> x \<in> set rs"
      using Suc.IH [OF wf', of "d - e - 1"] Suc.prems ed pt ne
      by (simp add: n21q_take_def)
    then show ?thesis using deq by auto
  qed
qed simp

text \<open>The local variant differs from the strong one only in where it leaves the index.\<close>

definition advance_point :: "ptr \<times> n21_queue \<Rightarrow> ptr \<times> n21_queue" where
  "advance_point r = (case r of (x, q) \<Rightarrow>
     (x, if x = NULL then q else q\<lparr>nq_queue_point := n21q_succ q (nq_queue_point q)\<rparr>))"

lemma n21q_succ_cong [simp]:
  "n21q_succ (q\<lparr>nq_queues := cs\<rparr>) = n21q_succ q" "n21q_succ (q\<lparr>nq_queue_point := p\<rparr>) = n21q_succ q"
  by (simp_all add: n21q_succ_def fun_eq_iff)

lemma dequeue_local_loop_strong:
  "dequeue_strong_loop fuel start q = map_option advance_point (dequeue_local_loop fuel start q)"
  by (induction fuel arbitrary: q) (auto simp: advance_point_def split_beta Let_def)

lemma n21q_result_cases:
  assumes wf: "n21q_wf q" and p: "start < nq_queue_num q"
    and v: "set visits = {..<unat (nq_queue_num q)}"
  shows "(fst (n21q_result q start visits) = NULL \<longleftrightarrow>
           (\<forall>i<unat (nq_queue_num q). cirq_list (nq_queues q ! i) = []))
    \<and> (fst (n21q_result q start visits) = NULL \<longrightarrow>
         snd (n21q_result q start visits) = q\<lparr>nq_queue_point := start\<rparr>)
    \<and> (fst (n21q_result q start visits) \<noteq> NULL \<longrightarrow>
         (\<exists>i<unat (nq_queue_num q). \<exists>xs c.
            cirq_list (nq_queues q ! i) = fst (n21q_result q start visits) # xs
          \<and> cirq_list c = xs
          \<and> nq_queues (snd (n21q_result q start visits)) = (nq_queues q)[i := c]))"
proof (cases "find (n21q_has q) visits")
  case None
  then have "\<forall>i<unat (nq_queue_num q). cirq_list (nq_queues q ! i) = []"
    using v by (auto simp: find_None_iff n21q_has_def)
  then show ?thesis using None by (simp add: n21q_result_def)
next
  case (Some i)
  then have i: "i < unat (nq_queue_num q)" and h: "n21q_has q i"
    using v by (auto simp: find_Some_iff dest: nth_mem)
  then obtain x xs where c: "cirq_list (nq_queues q ! i) = x # xs"
    by (auto simp: n21q_has_def neq_Nil_conv)
  then have "x \<noteq> NULL" "cirq_list (snd (cirq_get (nq_queues q ! i))) = xs"
    using n21q_wf_queue [OF wf i] cirq_get_item(2) [OF _ c] by auto
  then show ?thesis using Some i c by (auto simp: n21q_result_def n21q_take_def)
qed

text \<open>
  The producers are served in turn: from the index on, the first producer with an item gives its oldest
  one, and the index moves behind that producer.
\<close>

lemma streamq_dequeue_turn:
  assumes wf: "n21q_wf q" and has: "\<exists>i<unat (nq_queue_num q). cirq_list (nq_queues q ! i) \<noteq> []"
  obtains d i x c q' where "d < unat (nq_queue_num q)" "i = (unat (nq_queue_point q) + d) mod unat (nq_queue_num q)"
    "\<forall>e<d. cirq_list (nq_queues q ! ((unat (nq_queue_point q) + e) mod unat (nq_queue_num q))) = []"
    "cirq_list (nq_queues q ! i) = x # cirq_list c" "x \<noteq> NULL" "streamq_dequeue q = Some (x, q')"
    "nq_queues q' = (nq_queues q)[i := c]" "unat (nq_queue_point q') = (i + 1) mod unat (nq_queue_num q)"
proof -
  let ?n = "unat (nq_queue_num q)" and ?p = "unat (nq_queue_point q)"
  have p: "?p < ?n" using wf by (simp add: n21q_wf_def word_less_nat_alt)
  obtain d where d: "d < ?n" "find (n21q_has q) (rr_scan ?n ?p ?n) = Some ((?p + d) mod ?n)" "n21q_has q ((?p + d) mod ?n)"
      "\<forall>e<d. \<not> n21q_has q ((?p + e) mod ?n)"
  proof -
    obtain i where "i \<in> set (rr_scan ?n ?p ?n)" "n21q_has q i" using has set_rr_scan [OF p] by (auto simp: n21q_has_def)
    then obtain j where j: "find (n21q_has q) (rr_scan ?n ?p ?n) = Some j"
      by (cases "find (n21q_has q) (rr_scan ?n ?p ?n)") (auto simp: find_None_iff)
    then obtain e where "e < ?n" "n21q_has q ((?p + e) mod ?n)" "j = (?p + e) mod ?n" "\<forall>f<e. \<not> n21q_has q ((?p + f) mod ?n)"
      by (auto simp: find_Some_iff rr_scan_def)
    then show thesis using that [of e] j by simp
  qed
  let ?i = "(?p + d) mod ?n"
  have i: "?i < ?n" using p by simp
  obtain x xs where c: "cirq_list (nq_queues q ! ?i) = x # xs" using d(3) by (auto simp: n21q_has_def neq_Nil_conv)
  then have x: "x \<noteq> NULL" "cirq_list (snd (cirq_get (nq_queues q ! ?i))) = xs"
    using n21q_wf_queue [OF wf i] cirq_get_item(2) [OF _ c] by auto
  let ?q' = "(n21q_take q ?i)\<lparr>nq_queue_point := n21q_succ q (of_nat ?i)\<rparr>"
  have deq: "streamq_dequeue q = Some (x, ?q')"
    using n21q_dequeue_strong_result [OF wf] d(2) c by (simp add: streamq_dequeue_def n21q_result_def)
  show thesis
    by (rule that [OF d(1) refl _ _ x(1) deq, of "snd (cirq_get (nq_queues q ! ?i))"])
      (use d(4) c x(2) unat_n21q_succ [OF n21q_of_nat(2) [OF i]] n21q_of_nat(1) [OF i] in
        \<open>simp_all add: n21q_has_def n21q_take_def\<close>)
qed

lemma streamq_dequeue_none:
  assumes wf: "n21q_wf q" and none: "\<forall>i<unat (nq_queue_num q). cirq_list (nq_queues q ! i) = []"
  shows "streamq_dequeue q = Some (NULL, q)"
proof -
  let ?n = "unat (nq_queue_num q)" and ?p = "unat (nq_queue_point q)"
  have "?p < ?n" using wf by (simp add: n21q_wf_def word_less_nat_alt)
  then have "find (n21q_has q) (rr_scan ?n ?p ?n) = None"
    using none set_rr_scan [of ?p ?n] by (auto simp: find_None_iff n21q_has_def)
  then show ?thesis using n21q_dequeue_strong_result [OF wf] by (simp add: streamq_dequeue_def n21q_result_def)
qed

lemma n21q_init_wf:
  assumes "0 < num" "0 < sz"
  shows "n21q_wf (n21q_init q num sz)"
  using assms cirq_init_wf [OF assms(2)] by (auto simp: n21q_wf_def n21q_init_def)

lemma n21q_enqueue_wf:
  assumes wf: "n21q_wf q" and i: "q_id < nq_queue_num q" and x: "x \<noteq> NULL"
  shows "n21q_wf (snd (n21q_enqueue q q_id x))"
proof -
  let ?c = "nq_queues q ! unat q_id"
  have c: "cirq_wf ?c" "NULL \<notin> set (cirq_list ?c)"
    using n21q_wf_queue [OF wf] i by (simp_all add: word_less_nat_alt)
  have "cirq_wf (snd (cirq_add ?c x))" using c by (simp add: cq.add_invar)
  moreover have "NULL \<notin> set (cirq_list (snd (cirq_add ?c x)))"
    using c x cirq_add_room(2) [OF c(1), of x] by (cases "cirq_full ?c") (auto simp: cirq_add_def)
  ultimately show ?thesis
    using wf by (auto simp: n21q_wf_def n21q_enqueue_def split_beta Let_def
        dest!: set_update_subset_insert [THEN subsetD])
qed

lemma n21q_enqueue_queue:
  assumes "n21q_wf q" "q_id < nq_queue_num q" "\<not> cirq_full (nq_queues q ! unat q_id)"
  shows "cirq_list (nq_queues (snd (n21q_enqueue q q_id x)) ! unat q_id)
    = cirq_list (nq_queues q ! unat q_id) @ [x]"
  using assms cirq_add_room(2) [of "nq_queues q ! unat q_id" x]
    n21q_wf_queue(1) [OF assms(1), of "unat q_id"]
  by (simp add: n21q_enqueue_def split_beta Let_def n21q_wf_def word_less_nat_alt)

lemma n21q_enqueue_items:
  assumes wf: "n21q_wf q" and i: "q_id < nq_queue_num q" and nf: "\<not> cirq_full (nq_queues q ! unat q_id)"
  shows "n21q_items (snd (n21q_enqueue q q_id x)) = add_mset x (n21q_items q)"
proof -
  let ?q1 = "snd (n21q_enqueue q q_id x)" and ?i = "unat q_id"
  let ?ms = "\<lambda>q. map (\<lambda>c. mset (cirq_list c)) (nq_queues q)"
  have l: "?i < length (nq_queues q)" using wf i by (simp add: n21q_wf_def word_less_nat_alt)
  have q1: "nq_queues ?q1 = (nq_queues q)[?i := nq_queues ?q1 ! ?i]"
    using l by (simp add: n21q_enqueue_def split_beta Let_def)
  have new: "?ms ?q1 ! ?i = add_mset x (?ms q ! ?i)"
    using l n21q_enqueue_queue [OF wf i nf, of x] by (subst q1) simp
  have "length (?ms ?q1) = length (?ms q)" by (subst q1) simp
  moreover have "(?ms ?q1)[?i := ?ms q ! ?i] = ?ms q" by (subst q1) (simp add: map_update list_update_same_conv l)
  ultimately show ?thesis
    using sum_list_update_remove [of ?i "?ms ?q1", OF _ new] l by (simp add: n21q_items_def)
qed

lemma streamq_roundtrip:
  assumes "n21q_wf q" "q_id < nq_queue_num q" "\<not> cirq_full (nq_queues q ! unat q_id)" "n21q_items q = {#}" "x \<noteq> NULL"
  obtains q1 where "streamq_dequeue (snd (streamq_enqueue q q_id x)) = Some (x, q1)" "n21q_wf q1" "n21q_items q1 = {#}"
proof -
  let ?q = "snd (n21q_enqueue q q_id x)"
  have wf: "n21q_wf ?q" by (rule n21q_enqueue_wf [OF assms(1,2,5)])
  have it: "n21q_items ?q = {#x#}" using n21q_enqueue_items [OF assms(1-3), of x] assms(4) by simp
  obtain y q1 where "n21q_dequeue_strong ?q = Some (y, q1)" "n21q_wf q1"
    "y = NULL \<Longrightarrow> n21q_items ?q = {#}" "y \<noteq> NULL \<Longrightarrow> n21q_items ?q = add_mset y (n21q_items q1)"
    using n21q_dequeue_items [OF wf] by metis
  then show thesis using it that by (cases "y = NULL") (auto simp: streamq_dequeue_def streamq_enqueue_def)
qed

lemma streamq_empty:
  assumes "n21q_wf q" "n21q_items q = {#}"
  obtains q1 where "streamq_dequeue q = Some (NULL, q1)" "n21q_wf q1" "n21q_items q1 = {#}"
proof -
  obtain y q1 where "n21q_dequeue_strong q = Some (y, q1)" "n21q_wf q1" "y = NULL \<Longrightarrow> n21q_items q1 = {#}"
    "y \<noteq> NULL \<Longrightarrow> n21q_items q = add_mset y (n21q_items q1)"
    using n21q_dequeue_items [OF assms(1)] by metis
  then show thesis using assms(2) that by (cases "y = NULL") (auto simp: streamq_dequeue_def)
qed

definition n21_example :: n21_queue where
  "n21_example =
     n21q_init \<lparr>nq_queue_num = 0, nq_queue_point = 0, nq_queues = []\<rparr> 2 4"

lemma n21_example_wf: "n21q_wf n21_example" "nq_queue_num n21_example = 2"
  by (simp_all add: n21_example_def n21q_init_wf) (simp add: n21q_init_def)

lemma n21_example_full:
  "\<not> cirq_full (nq_queues n21_example ! 1)" "cirq_list (nq_queues n21_example ! 1) = []"
  by (simp_all add: n21_example_def n21q_init_def cirq_init_def cirq_full_def cirq_succ_def
      cirq_list_def cirq_count_def nth_map)

definition n21_example90 :: n21_queue where
  "n21_example90 = snd (n21q_enqueue n21_example 1 90)"

lemma n21_example90:
  "n21q_wf n21_example90" "nq_queue_num n21_example90 = 2"
  "cirq_list (nq_queues n21_example90 ! 1) = [90]"
  using n21q_enqueue_wf [OF n21_example_wf(1), of 1 90] n21_example_wf
    n21q_enqueue_queue [OF n21_example_wf(1), of 1 90] n21_example_full
  by (simp_all add: n21_example90_def)
    (simp add: n21q_enqueue_def split_beta Let_def n21_example_wf)

section \<open>Main properties\<close>

text \<open>
  C19 (functional). On a well-formed n-to-1 queue the dequeue loop returns within its
  \<^verbatim>\<open>queue_num\<close> rounds; it returns \<^verbatim>\<open>NULL\<close> exactly when every producer's queue is
  empty, and then leaves the queue as it was; otherwise it removes the oldest item of one
  producer's queue and touches no other.
\<close>

theorem n21q_dequeue_strong_correct:
  assumes "n21q_wf q"
  shows "\<exists>x q'. n21q_dequeue_strong q = Some (x, q') \<and> n21q_wf q'
    \<and> (x = NULL \<longleftrightarrow> (\<forall>i<unat (nq_queue_num q). cirq_list (nq_queues q ! i) = []))
    \<and> (x = NULL \<longrightarrow> q' = q)
    \<and> (x \<noteq> NULL \<longrightarrow> (\<exists>i<unat (nq_queue_num q). \<exists>c. cirq_list (nq_queues q ! i) = x # cirq_list c
          \<and> nq_queues q' = (nq_queues q)[i := c]))"
proof -
  let ?v = "rr_scan (unat (nq_queue_num q)) (unat (nq_queue_point q)) (unat (nq_queue_num q))"
  have p: "nq_queue_point q < nq_queue_num q" using assms by (simp add: n21q_wf_def)
  then have v: "set ?v = {..<unat (nq_queue_num q)}"
    by (simp add: set_rr_scan word_less_nat_alt)
  show ?thesis
    using n21q_dequeue_strong_result [OF assms] n21q_result_cases [OF assms p v]
      n21q_result_wf [OF assms _ p, of ?v] v
    by (intro exI [of _ "fst (n21q_result q (nq_queue_point q) ?v)"]
        exI [of _ "snd (n21q_result q (nq_queue_point q) ?v)"]) auto
qed

theorem n21q_dequeue_strong_correct_witness:
  "\<exists>x q'. n21q_dequeue_strong n21_example90 = Some (x, q') \<and> x \<noteq> NULL"
proof -
  have "\<not> (\<forall>i<unat (nq_queue_num n21_example90). cirq_list (nq_queues n21_example90 ! i) = [])"
    using n21_example90(2,3) by (intro notI) (drule spec [of _ 1], simp)
  then show ?thesis using n21q_dequeue_strong_correct [OF n21_example90(1)] by blast
qed

text \<open>
  The consumer is fair: whatever the other producers have queued, the item at
  the head of any producer's queue is handed out within \<^verbatim>\<open>queue_num\<close> dequeues.
\<close>

lemma n21q_fair:
  assumes "n21q_wf q" "j < unat (nq_queue_num q)" "cirq_list (nq_queues q ! j) = x # xs"
  shows "\<exists>rs. n21q_drain (unat (nq_queue_num q)) q = Some rs \<and> x \<in> set rs"
proof -
  let ?n = "unat (nq_queue_num q)" and ?p = "unat (nq_queue_point q)"
  have "?p < ?n" using assms(1) by (simp add: n21q_wf_def word_less_nat_alt)
  then have "j \<in> set (rr_scan ?n ?p ?n)" using assms(2) by (simp add: set_rr_scan)
  then obtain d where "d < ?n" "j = (?p + d) mod ?n" by (auto simp: rr_scan_def)
  then show ?thesis using n21q_drain_serves [OF assms(1), of d ?n j x xs] assms(3) by simp
qed

theorem n21q_fair_witness:
  "\<exists>rs. n21q_drain (unat (nq_queue_num n21_example90)) n21_example90 = Some rs \<and> 90 \<in> set rs"
  using n21q_fair [OF n21_example90(1), of 1 90 "[]"] n21_example90 by simp

text \<open>
  \<^verbatim>\<open>n21q_dequeue_local\<close> returns the same item and leaves the same queues as
  \<^verbatim>\<open>n21q_dequeue_strong\<close>; the strong variant only moves the index one further after a hit.
\<close>

lemma n21q_dequeue_local_strong:
  "n21q_dequeue_strong q = map_option advance_point (n21q_dequeue_local q)"
  unfolding n21q_dequeue_strong_def do_n21q_dequeue_strong_def n21q_dequeue_local_def
  by (rule dequeue_local_loop_strong)

end
