(* ===== verification/Protocol.thy ===== *)
theory Protocol
  imports Qprelude
begin

text \<open>
  The protocol helpers of \<^verbatim>\<open>qstack/src/include/protocol.h\<close>: sequence number comparison on
  the circle of 32-bit numbers, the TCP checksum, address masks, and the enumerations of TCP
  states, options and close reasons. The host is little-endian, so \<^verbatim>\<open>ntohl\<close> and
  \<^verbatim>\<open>ntohs\<close> swap bytes.
\<close>

unbundle bit_operations_syntax

section \<open>Flags, states and options\<close>

definition TCP_FLAG_FIN :: u8 where "TCP_FLAG_FIN = 0x01"
definition TCP_FLAG_SYN :: u8 where "TCP_FLAG_SYN = 0x02"
definition TCP_FLAG_RST :: u8 where "TCP_FLAG_RST = 0x04"
definition TCP_FLAG_PSH :: u8 where "TCP_FLAG_PSH = 0x08"
definition TCP_FLAG_ACK :: u8 where "TCP_FLAG_ACK = 0x10"
definition TCP_FLAG_URG :: u8 where "TCP_FLAG_URG = 0x20"
definition TCP_FLAG_SACK :: u8 where "TCP_FLAG_SACK = 0x40"
definition TCP_FLAG_WACK :: u8 where "TCP_FLAG_WACK = 0x80"

lemmas tcp_flag_defs = TCP_FLAG_FIN_def TCP_FLAG_SYN_def TCP_FLAG_RST_def TCP_FLAG_PSH_def
  TCP_FLAG_ACK_def TCP_FLAG_URG_def TCP_FLAG_SACK_def TCP_FLAG_WACK_def

text \<open>\<^verbatim>\<open>flags & TCP_FLAG_X\<close> as a condition.\<close>

definition has_flag :: "u8 \<Rightarrow> u8 \<Rightarrow> bool" where
  "has_flag flags f \<longleftrightarrow> flags AND f \<noteq> 0"

datatype tcp_state =
    TCP_ST_CLOSED | TCP_ST_LISTEN | TCP_ST_SYN_SENT | TCP_ST_SYN_RCVD | TCP_ST_ESTABLISHED
  | TCP_ST_FIN_WAIT_1 | TCP_ST_FIN_WAIT_2 | TCP_ST_CLOSE_WAIT | TCP_ST_CLOSING
  | TCP_ST_LAST_ACK | TCP_ST_TIME_WAIT

text \<open>The enumeration values order the states; the code compares them with \<^verbatim>\<open>>=\<close>.\<close>

fun tcp_state_num :: "tcp_state \<Rightarrow> nat" where
  "tcp_state_num TCP_ST_CLOSED = 0"
| "tcp_state_num TCP_ST_LISTEN = 1"
| "tcp_state_num TCP_ST_SYN_SENT = 2"
| "tcp_state_num TCP_ST_SYN_RCVD = 3"
| "tcp_state_num TCP_ST_ESTABLISHED = 4"
| "tcp_state_num TCP_ST_FIN_WAIT_1 = 5"
| "tcp_state_num TCP_ST_FIN_WAIT_2 = 6"
| "tcp_state_num TCP_ST_CLOSE_WAIT = 7"
| "tcp_state_num TCP_ST_CLOSING = 8"
| "tcp_state_num TCP_ST_LAST_ACK = 9"
| "tcp_state_num TCP_ST_TIME_WAIT = 10"

lemma tcp_state_num_inj: "tcp_state_num a = tcp_state_num b \<longleftrightarrow> a = b"
  by (cases a; cases b) simp_all

instantiation tcp_state :: linorder
begin

definition less_eq_tcp_state :: "tcp_state \<Rightarrow> tcp_state \<Rightarrow> bool" where
  "a \<le> b \<longleftrightarrow> tcp_state_num a \<le> tcp_state_num b"

definition less_tcp_state :: "tcp_state \<Rightarrow> tcp_state \<Rightarrow> bool" where
  "a < b \<longleftrightarrow> tcp_state_num a < tcp_state_num b"

instance
  by standard (auto simp: less_eq_tcp_state_def less_tcp_state_def tcp_state_num_inj)

end

text \<open>
  A close reason is stored in a 4-bit field of the stream. The field can hold values the
  enumeration does not name.
\<close>

definition TCP_NOT_CLOSED :: "4 word" where "TCP_NOT_CLOSED = 0"
definition TCP_ACTIVE_CLOSE :: "4 word" where "TCP_ACTIVE_CLOSE = 1"
definition TCP_PASSIVE_CLOSE :: "4 word" where "TCP_PASSIVE_CLOSE = 2"
definition TCP_CONN_FAIL :: "4 word" where "TCP_CONN_FAIL = 3"
definition TCP_CONN_LOST :: "4 word" where "TCP_CONN_LOST = 4"
definition TCP_RESET :: "4 word" where "TCP_RESET = 5"
definition TCP_NO_MEM :: "4 word" where "TCP_NO_MEM = 6"
definition TCP_NOT_ACCEPTED :: "4 word" where "TCP_NOT_ACCEPTED = 7"
definition TCP_TIMEDOUT :: "4 word" where "TCP_TIMEDOUT = 8"

lemmas close_reason_defs = TCP_NOT_CLOSED_def TCP_ACTIVE_CLOSE_def TCP_PASSIVE_CLOSE_def
  TCP_CONN_FAIL_def TCP_CONN_LOST_def TCP_RESET_def TCP_NO_MEM_def TCP_NOT_ACCEPTED_def
  TCP_TIMEDOUT_def

section \<open>Byte order\<close>

definition ntohs :: "u16 \<Rightarrow> u16" where
  "ntohs w = push_bit 8 (w AND 0xFF) OR drop_bit 8 w"

definition ntohl :: "u32 \<Rightarrow> u32" where
  "ntohl w = push_bit 24 (w AND 0xFF) OR push_bit 8 (w AND 0xFF00)
     OR drop_bit 8 (w AND 0xFF0000) OR drop_bit 24 w"

abbreviation htons :: "u16 \<Rightarrow> u16" where "htons \<equiv> ntohs"
abbreviation htonl :: "u32 \<Rightarrow> u32" where "htonl \<equiv> ntohl"

lemma byte_masks:
  "(0xFF :: 'a::len word) = mask 8" "(0xFF00 :: 'a::len word) = push_bit 8 (mask 8)"
  "(0xFF0000 :: 'a::len word) = push_bit 16 (mask 8)"
  by (simp_all add: mask_eq_exp_minus_1 push_bit_eq_mult)

lemma ntohs_ntohs [simp]: "ntohs (ntohs w) = w"
  unfolding ntohs_def byte_masks
  by (rule bit_word_eqI) (auto simp: bit_simps)

lemma bit_ntohl: "bit (ntohl w) n \<longleftrightarrow> n < 32 \<and>
    bit w (if n < 8 then n + 24 else if n < 16 then n + 8 else if n < 24 then n - 8 else n - 24)"
proof -
  consider "n < 8" | "8 \<le> n" "n < 16" | "16 \<le> n" "n < 24" | "24 \<le> n" "n < 32" | "32 \<le> n" by linarith
  then show ?thesis
  proof cases
    case 1
    then show ?thesis by (simp add: ntohl_def byte_masks bit_simps add.commute)
  next
    case 2
    then show ?thesis using bit_imp_le_length [of w "n + 24"]
      by (auto simp: ntohl_def byte_masks bit_simps add.commute)
  next
    case 3
    then show ?thesis using bit_imp_le_length [of w "n + 24"]
      by (auto simp: ntohl_def byte_masks bit_simps add.commute)
  next
    case 4
    then show ?thesis using bit_imp_le_length [of w "n + 24"]
      by (auto simp: ntohl_def byte_masks bit_simps add.commute)
  next
    case 5
    then show ?thesis using bit_imp_le_length [of w "n + 24"] by (auto simp: ntohl_def byte_masks bit_simps add.commute)
  qed
qed

lemma ntohl_ntohl [simp]: "ntohl (ntohl w) = w"
  by (rule bit_word_eqI) (auto simp: bit_ntohl)

section \<open>Sequence numbers\<close>

definition TCP_SEQ_LT :: "u32 \<Rightarrow> u32 \<Rightarrow> bool" where
  "TCP_SEQ_LT a b \<longleftrightarrow> sint (a - b) < 0"
definition TCP_SEQ_LEQ :: "u32 \<Rightarrow> u32 \<Rightarrow> bool" where
  "TCP_SEQ_LEQ a b \<longleftrightarrow> sint (a - b) \<le> 0"
definition TCP_SEQ_GT :: "u32 \<Rightarrow> u32 \<Rightarrow> bool" where
  "TCP_SEQ_GT a b \<longleftrightarrow> sint (a - b) > 0"
definition TCP_SEQ_GEQ :: "u32 \<Rightarrow> u32 \<Rightarrow> bool" where
  "TCP_SEQ_GEQ a b \<longleftrightarrow> sint (a - b) \<ge> 0"
definition TCP_SEQ_BETWEEN :: "u32 \<Rightarrow> u32 \<Rightarrow> u32 \<Rightarrow> bool" where
  "TCP_SEQ_BETWEEN a b c \<longleftrightarrow> TCP_SEQ_GEQ a b \<and> TCP_SEQ_LEQ a c"

lemmas seq_defs = TCP_SEQ_LT_def TCP_SEQ_LEQ_def TCP_SEQ_GT_def TCP_SEQ_GEQ_def
  TCP_SEQ_BETWEEN_def

section \<open>Checksum and masks\<close>

text \<open>
  \<open>buf\<close> is the memory from the TCP header on, in 16-bit words as the machine loads them.
\<close>

fun csum_loop :: "u16 list \<Rightarrow> nat \<Rightarrow> u32 \<Rightarrow> u32" where
  "csum_loop buf 0 s = s"
| "csum_loop buf (Suc n) s = csum_loop (tl buf) n (s + ucast (hd buf))"

definition csum_sum :: "u16 list \<Rightarrow> u16 \<Rightarrow> u32 \<Rightarrow> u32 \<Rightarrow> u32" where
  "csum_sum buf len saddr daddr =
     (let s0 = csum_loop buf (unat len div 2) 0;
          s1 = (if odd (unat len) then s0 + ucast (buf ! (unat len div 2) AND ntohs 0xFF00) else s0);
          s2 = s1 + ((saddr AND 0x0000FFFF) + drop_bit 16 saddr);
          s3 = s2 + ((daddr AND 0x0000FFFF) + drop_bit 16 daddr);
          s4 = s3 + ucast (htons len)
      in s4 + ucast (htons 6))"

definition csum_fold :: "u32 \<Rightarrow> u16" where
  "csum_fold s =
     (let s1 = drop_bit 16 s + (s AND 0xFFFF);
          s2 = s1 + drop_bit 16 s1
      in ucast (NOT s2))"

definition tcp_csum :: "u16 list \<Rightarrow> u16 \<Rightarrow> u32 \<Rightarrow> u32 \<Rightarrow> u16" where
  "tcp_csum buf len saddr daddr = csum_fold (csum_sum buf len saddr daddr)"

text \<open>A shift by 32 or more is undefined, which a mask of 0 or above 31 bits reaches.\<close>

definition ip_masked :: "u32 \<Rightarrow> u8 \<Rightarrow> u32 result" where
  "ip_masked addr mlen =
     (if mlen = 0 \<or> 31 < mlen then Inl Undefined
      else let addr_h = ntohl addr;
               ret = addr_h AND push_bit (32 - unat mlen) (push_bit (unat mlen) 1 - 1)
           in Inr (htonl ret))"

definition IP_GET_TAIL :: "u32 \<Rightarrow> u32" where
  "IP_GET_TAIL a = drop_bit 24 (push_bit 24 (ntohl a))"

section \<open>Sequence numbers in a window\<close>

lemma uint_small: "unat (a::u32) < 2 ^ 31 \<Longrightarrow> uint a < 2 ^ 31"
  using of_nat_less_iff [of "unat a" "2 ^ 31", where ?'a = int] by simp

lemma sint_diff_small:
  assumes "unat (a::u32) < 2 ^ 31" "unat b < 2 ^ 31"
  shows "sint (a - b) = int (unat a) - int (unat b)"
proof -
  have lt: "uint a < 2 ^ 31" "uint b < 2 ^ 31" "0 \<le> uint a" "0 \<le> uint b"
    using uint_small [OF assms(1)] uint_small [OF assms(2)] by simp_all
  have st: "signed_take_bit 31 (uint a) = uint a" "signed_take_bit 31 (uint b) = uint b"
    "signed_take_bit 31 (uint a - uint b) = uint a - uint b"
    by (intro signed_take_bit_int_eq_self; use lt in linarith)+
  then have s: "sint a = uint a" "sint b = uint b" by (simp_all add: sint_uint)
  show ?thesis unfolding sint_word_ariths s using st by simp
qed

lemma seq_window:
  assumes "unat (a - base :: u32) < 2 ^ 31" "unat (b - base) < 2 ^ 31"
  shows "sint (a - b) = int (unat (a - base)) - int (unat (b - base))"
  using sint_diff_small [OF assms] by simp

lemma seq_window_simps:
  assumes "unat (a - base) < 2 ^ 31" "unat (b - base) < 2 ^ 31"
  shows "TCP_SEQ_LT a b \<longleftrightarrow> unat (a - base) < unat (b - base)"
    "TCP_SEQ_LEQ a b \<longleftrightarrow> unat (a - base) \<le> unat (b - base)"
    "TCP_SEQ_GT a b \<longleftrightarrow> unat (a - base) > unat (b - base)"
    "TCP_SEQ_GEQ a b \<longleftrightarrow> unat (a - base) \<ge> unat (b - base)"
  using seq_window [OF assms] by (simp_all only: seq_defs) linarith+

lemma seq_refl [simp]:
  "TCP_SEQ_LEQ a a" "TCP_SEQ_GEQ a a" "\<not> TCP_SEQ_LT a a" "\<not> TCP_SEQ_GT a a"
  by (simp_all add: seq_defs)

lemma seq_not: "\<not> TCP_SEQ_LEQ a b \<longleftrightarrow> TCP_SEQ_GT a b" "\<not> TCP_SEQ_LT a b \<longleftrightarrow> TCP_SEQ_GEQ a b"
  by (auto simp: seq_defs)

section \<open>The checksum verifies\<close>

lemma unat_add_bound:
  assumes "unat (a::u32) \<le> x" "unat b \<le> y" "x + y < 2 ^ 32"
  shows "unat (a + b) = unat a + unat b" "unat (a + b) \<le> x + y"
  using assms by (simp_all add: unat_word_ariths)

lemma unat_ucast16: "unat (ucast (w :: u16) :: u32) = unat w"
  using unat_word_less [of w] by (simp add: unsigned_ucast_eq take_bit_nat_eq_self)

lemma unat16_le: "unat (w :: u16) \<le> 65535"
  using unat_word_less [of w] by simp

lemma csum_loop_bound:
  "unat s + n * 65535 < 2 ^ 32 \<Longrightarrow> unat (csum_loop buf n s) \<le> unat s + n * 65535"
proof (induction n arbitrary: buf s)
  case (Suc n)
  have "unat (s + ucast (hd buf)) = unat s + unat (hd buf)"
    using unat_add_bound(1) [of s "unat s" "ucast (hd buf)" 65535] Suc.prems unat16_le [of "hd buf"]
    by (simp add: unat_ucast16)
  then show ?case
    using Suc.IH [of "s + ucast (hd buf)" "tl buf"] Suc.prems unat16_le [of "hd buf"] by simp
qed simp

lemma csum_loop_shift: "csum_loop buf n (x + y) = csum_loop buf n x + y"
proof (induction n arbitrary: buf x)
  case (Suc n)
  then show ?case using Suc.IH [of "tl buf" "x + ucast (hd buf)"] by (simp add: ac_simps)
qed simp

lemma csum_loop_update:
  "k < n \<Longrightarrow> n \<le> length buf \<Longrightarrow> buf ! k = 0 \<Longrightarrow>
   csum_loop (buf[k := c]) n s = csum_loop buf n s + ucast c"
proof (induction n arbitrary: k buf s)
  case (Suc n)
  note IH = Suc.IH and prems = Suc.prems
  obtain b bs where b: "buf = b # bs" using Suc.prems by (cases buf) auto
  show ?case
  proof (cases k)
    case 0
    then show ?thesis using Suc.prems b csum_loop_shift [of bs n s "ucast c"] by simp
  next
    case (Suc j)
    then show ?thesis using IH [of j bs "s + ucast b"] prems b by simp
  qed
qed simp

text \<open>The one's complement fold on naturals.\<close>

definition fold16 :: "nat \<Rightarrow> nat" where
  "fold16 s = (let s1 = s div 65536 + s mod 65536 in (s1 + s1 div 65536) mod 65536)"

lemma fold16_facts:
  assumes "s < 2 ^ 32"
  shows "fold16 s \<le> 65535" "0 < s \<Longrightarrow> 0 < fold16 s" "fold16 s mod 65535 = s mod 65535"
proof -
  define p where "p = s div 65536 + s mod 65536"
  have s: "s = 65535 * (s div 65536) + p" using div_mult_mod_eq [of s 65536] by (simp add: p_def)
  have p: "p \<le> 131070"
    using assms less_mult_imp_div_less [of s 65536 65536] by (simp add: p_def)
  have eq: "fold16 s = (if p < 65536 then p else p - 65535)"
  proof (cases "p < 65536")
    case False
    then have d: "p div 65536 = 1" using p by (intro div_nat_eqI) simp_all
    have "(p + 1) mod 65536 = p + 1 - 65536" using False p by (simp add: le_mod_geq)
    then show ?thesis using False d by (simp add: fold16_def p_def)
  qed (simp add: fold16_def p_def)
  show "fold16 s \<le> 65535" using eq p by (simp split: if_splits)
  show "0 < s \<Longrightarrow> 0 < fold16 s"
    using eq div_mult_mod_eq [of s 65536] by (auto simp: p_def split: if_splits)
  have "p mod 65535 = s mod 65535" using s by (metis mod_mult_self4)
  then show "fold16 s mod 65535 = s mod 65535"
    using eq le_mod_geq [of 65535 p] by (auto split: if_splits)
qed

lemma fold16_complement:
  assumes "0 < s" "s + 65535 < 2 ^ 32"
  shows "fold16 (s + (65535 - fold16 s)) = 65535"
proof -
  let ?t = "s + (65535 - fold16 s)"
  have s: "s < 2 ^ 32" "?t < 2 ^ 32" "0 < ?t" using assms by simp_all
  note f = fold16_facts [OF s(1)] and g = fold16_facts [OF s(2)]
  have "fold16 s mod 65535 = (s + 65535) mod 65535" using f(3) by simp
  then have "65535 dvd s + 65535 - fold16 s"
    using f(1) mod_eq_dvd_iff_nat [of "fold16 s" "s + 65535" 65535] by simp
  then have "?t mod 65535 = 0" using f(1) by simp
  then have "fold16 ?t mod 65535 = 0" using g(3) by simp
  moreover have "0 < fold16 ?t" "fold16 ?t \<le> 65535" using g(1,2) s(3) by blast+
  ultimately show ?thesis by (cases "fold16 ?t < 65535") auto
qed

lemma unat_low16: "unat ((s :: u32) AND 0xFFFF) = unat s mod 65536"
proof -
  have "s AND 0xFFFF = take_bit 16 s" by (simp add: take_bit_eq_mask mask_eq_exp_minus_1)
  then show ?thesis by (simp add: unat_mod take_bit_eq_mod)
qed

lemma unat_high16: "unat (drop_bit 16 (s :: u32)) = unat s div 65536"
  by (simp add: unat_div drop_bit_eq_div)

lemma unat_csum_fold: "unat (csum_fold s) = 65535 - fold16 (unat s)"
proof -
  let ?s1 = "drop_bit 16 s + (s AND 0xFFFF)"
  have lt: "unat s < 65536 * 65536" using unat_word_less [of s] by simp
  have b: "unat (drop_bit 16 s) \<le> 65535" "unat (s AND 0xFFFF) \<le> 65535"
    using less_mult_imp_div_less [OF lt]
    by (simp_all add: unat_high16 unat_low16)
  have 1: "unat ?s1 = unat s div 65536 + unat s mod 65536" "unat ?s1 \<le> 131070"
    using unat_add_bound [OF b] by (simp_all add: unat_high16 unat_low16)
  have 2: "unat (?s1 + drop_bit 16 ?s1) = unat ?s1 + unat ?s1 div 65536"
    using unat_add_bound(1) [OF 1(2), of "drop_bit 16 ?s1" 65536] 1(2)
    by (simp add: unat_high16 div_le_mono)
  have 3: "unat (ucast (NOT w) :: u16) = 65535 - unat w mod 65536" for w :: u32
  proof -
    have "(ucast (NOT w) :: u16) = NOT (ucast w)" 
      by (rule bit_word_eqI) (auto simp: bit_unsigned_iff bit_not_iff)
    also have "\<dots> = - 1 - ucast w" by (simp add: not_eq_complement)
    finally show ?thesis
      by (simp add: unat_sub unsigned_ucast_eq take_bit_eq_mod unsigned_minus_1_eq_mask
          mask_eq_exp_minus_1)
  qed
  show ?thesis
    by (simp add: csum_fold_def Let_def 3 2 fold16_def flip: 1(1))
qed

lemma csum_sum_bounds:
  "0 < unat (csum_sum buf len saddr daddr) \<and> unat (csum_sum buf len saddr daddr) + 65535 < 2 ^ 32"
proof -
  let ?n = "unat len div 2"
  have n: "?n \<le> 32767" using unat_word_less [of len] by simp
  define s0 where "s0 = csum_loop buf ?n 0"
  define s1 where "s1 = (if odd (unat len) then s0 + ucast (buf ! ?n AND ntohs 0xFF00) else s0)"
  define s2 where "s2 = s1 + ((saddr AND 0x0000FFFF) + drop_bit 16 saddr)"
  define s3 where "s3 = s2 + ((daddr AND 0x0000FFFF) + drop_bit 16 daddr)"
  define s4 where "s4 = s3 + ucast (htons len)"
  have c: "csum_sum buf len saddr daddr = s4 + ucast (htons 6)"
    by (simp add: csum_sum_def s4_def s3_def s2_def s1_def s0_def Let_def)
  have addr: "unat ((a AND 0xFFFF) + drop_bit 16 a) \<le> 131070" for a :: u32
  proof -
    have "unat a < 65536 * 65536" using unat_word_less [of a] by simp
    then have "unat (a AND 0xFFFF) \<le> 65535" "unat (drop_bit 16 a) \<le> 65535"
      using less_mult_imp_div_less [of "unat a" 65536 65536] by (simp_all add: unat_high16 unat_low16)
    then show ?thesis using unat_add_bound(2) by fastforce
  qed
  have half: "unat (ucast (w :: u16) :: u32) \<le> 65535" for w
    by (simp add: unat_ucast16 unat16_le)
  have b0: "unat s0 \<le> 2147385345"
    using csum_loop_bound [of 0 ?n buf] n by (simp add: s0_def)
  have b1: "unat s1 \<le> 2147450880"
    using unat_add_bound(2) [OF b0 half] b0 by (simp add: s1_def)
  have b2: "unat s2 \<le> 2147581950"
    using unat_add_bound(2) [OF b1 addr] by (simp add: s2_def)
  have b3: "unat s3 \<le> 2147713020"
    using unat_add_bound(2) [OF b2 addr] by (simp add: s3_def)
  have b4: "unat s4 \<le> 2147778555"
    using unat_add_bound(2) [OF b3 half] by (simp add: s4_def)
  have "unat (ucast (htons 6) :: u32) = 1536" by (simp add: unat_ucast16 ntohs_def)
  then show ?thesis
    using unat_add_bound [OF b4 half, of "htons 6"] by (simp add: c)
qed

lemma csum_sum_update:
  assumes "k < unat len div 2" "unat len div 2 < length buf" "buf ! k = 0"
  shows "csum_sum (buf[k := c]) len saddr daddr = csum_sum buf len saddr daddr + ucast c"
  using assms by (simp add: csum_sum_def Let_def csum_loop_update)

section \<open>Main properties\<close>

text \<open>
  C20 (bounds). Sequence numbers are compared by the sign of their 32-bit difference. For any
  two numbers within half the circle after a base (the left edge of a window, say), the four
  comparisons agree with the order of the distances from that base, also when the numbers
  themselves wrap around.
\<close>

theorem seq_compare_in_window:
  assumes "unat (a - base) < 2 ^ 31" "unat (b - base) < 2 ^ 31"
  shows "(TCP_SEQ_LT a b \<longleftrightarrow> unat (a - base) < unat (b - base))
    \<and> (TCP_SEQ_LEQ a b \<longleftrightarrow> unat (a - base) \<le> unat (b - base))
    \<and> (TCP_SEQ_GT a b \<longleftrightarrow> unat (b - base) < unat (a - base))
    \<and> (TCP_SEQ_GEQ a b \<longleftrightarrow> unat (b - base) \<le> unat (a - base))"
  using seq_window_simps [OF assms] by blast

theorem seq_compare_in_window_witness:
  "TCP_SEQ_LT 0xFFFFFFF0 16 \<and> \<not> TCP_SEQ_LEQ 16 0xFFFFFFF0"
  using seq_compare_in_window [of "0xFFFFFFF0" "0xFFFFFF00" 16]
    seq_compare_in_window [of 16 "0xFFFFFF00" "0xFFFFFFF0"] by simp

text \<open>
  C21 (functional). Put into the zeroed checksum field of a segment, the value
  \<^verbatim>\<open>tcp_csum\<close> computes makes the segment verify: recomputed over the result it is zero. The
  32-bit accumulator never overflows, whatever the length.
\<close>

theorem tcp_csum_verifies:
  assumes "k < unat len div 2" "unat len div 2 < length buf" "buf ! k = 0"
  shows "tcp_csum (buf[k := tcp_csum buf len saddr daddr]) len saddr daddr = 0"
proof -
  let ?s = "csum_sum buf len saddr daddr"
  let ?c = "csum_fold ?s"
  have b: "0 < unat ?s" "unat ?s + 65535 < 2 ^ 32" using csum_sum_bounds by blast+
  have c: "unat ?c = 65535 - fold16 (unat ?s)" by (rule unat_csum_fold)
  have "unat (?s + ucast ?c) = unat ?s + unat ?c"
    using unat_add_bound(1) [of ?s "unat ?s" "ucast ?c" 65535] b by (simp add: unat_ucast16 unat16_le)
  then have "unat (csum_fold (?s + ucast ?c)) = 0"
    using fold16_complement [OF b] c by (simp add: unat_csum_fold)
  then show ?thesis
    by (simp add: tcp_csum_def csum_sum_update [OF assms] unat_eq_0)
qed

theorem tcp_csum_verifies_witness:
  "tcp_csum ([0x1234, 0xFFFF, 0, 7, 9][2 := tcp_csum [0x1234, 0xFFFF, 0, 7, 9] 9 0x0100007F 0x0200007F])
     9 0x0100007F 0x0200007F = 0"
  by (rule tcp_csum_verifies) simp_all

text \<open>
  For prefix lengths from 1 to 31 \<^verbatim>\<open>ip_masked\<close> keeps exactly the leading
  bits of the address in host order; a prefix length of 0 or of 32 and more shifts by 32 bits
  or more, which C leaves undefined.
\<close>

lemma ip_masked_prefix:
  "(0 < mlen \<and> mlen \<le> 31 \<longrightarrow>
      (\<exists>r. ip_masked addr mlen = Inr (htonl r)
         \<and> (\<forall>i<32. bit r i \<longleftrightarrow> 32 - unat mlen \<le> i \<and> bit (ntohl addr) i)))
   \<and> (mlen = 0 \<or> 31 < mlen \<longrightarrow> ip_masked addr mlen = Inl Undefined)"
proof (intro conjI impI)
  assume m: "0 < mlen \<and> mlen \<le> 31"
  let ?m = "unat mlen"
  have u: "0 < ?m" "?m \<le> 31" using m by (simp_all add: word_le_nat_alt word_less_nat_alt)
  let ?r = "ntohl addr AND push_bit (32 - ?m) (push_bit ?m 1 - 1)"
  have "push_bit ?m 1 - 1 = (mask ?m :: u32)" by (simp add: mask_eq_exp_minus_1 push_bit_eq_mult)
  then have "\<forall>i<32. bit ?r i \<longleftrightarrow> 32 - ?m \<le> i \<and> bit (ntohl addr) i"
    using u by (auto simp: bit_and_iff bit_push_bit_iff bit_mask_iff)
  moreover have "ip_masked addr mlen = Inr (htonl ?r)"
    using m by (auto simp: ip_masked_def Let_def)
  ultimately show "\<exists>r. ip_masked addr mlen = Inr (htonl r)
      \<and> (\<forall>i<32. bit r i \<longleftrightarrow> 32 - unat mlen \<le> i \<and> bit (ntohl addr) i)" by blast
qed (simp add: ip_masked_def)

lemma ip_masked_prefix_witness:
  "\<exists>r. ip_masked 0x0101A8C0 24 = Inr (htonl r) \<and> \<not> bit r 0 \<and> bit r 8"
  using ip_masked_prefix [of 24 "0x0101A8C0"]
  by (auto simp: ntohl_def)

end
