(* ===== verification/Mbuf.thy ===== *)
theory Mbuf
  imports Protocol
begin

text \<open>
  Packet buffers: \<^verbatim>\<open>qstack/src/include/mbuf.h\<close>. An mbuf lives at an address in an explicit
  heap, because the same mbuf may sit in several queues of a stream at once and the code relies
  on that sharing. The packet an mbuf carries is kept as its parsed headers. Singly linked lists
  of mbufs are modelled at the level of their pointers and refine plain lists.
\<close>

section \<open>The mbuf and the heap\<close>

record ethhdr =
  eth_dest :: "u8 list"
  eth_source :: "u8 list"
  eth_proto :: u16

record iphdr =
  ip_ihl :: nat
  ip_version :: nat
  ip_tos :: u8
  ip_tot_len :: u16
  ip_id :: u16
  ip_frag_off :: u16
  ip_ttl :: u8
  ip_protocol :: u8
  ip_check :: u16
  ip_saddr :: u32
  ip_daddr :: u32

record tcphdr =
  th_source :: u16
  th_dest :: u16
  th_seq :: u32
  th_ack_seq :: u32
  th_doff :: nat
  th_fin :: bool
  th_syn :: bool
  th_rst :: bool
  th_psh :: bool
  th_ack :: bool
  th_urg :: bool
  th_window :: u16
  th_check :: u16
  th_urg_ptr :: u16

record arphdr =
  ar_hrd :: u16
  ar_pro :: u16
  ar_hln :: u8
  ar_pln :: u8
  ar_op :: u16
  ar_sha :: "u8 list"
  ar_sip :: u32
  ar_tha :: "u8 list"
  ar_tip :: u32

record mbuf =
  mb_buf_addr :: nat
  mb_data_off :: u16
  mb_pkt_len :: u32
  mb_data_len :: u16
  mb_tx_offload :: u64
  mb_state :: "4 word"
  mb_priority :: bool
  mb_holding :: bool
  mb_payload_len :: u16
  mb_tcp_seq :: u32
  mb_buf_next :: ptr
  mb_eth :: ethhdr
  mb_iph :: iphdr
  mb_tcph :: tcphdr
  mb_opts :: "u8 list"
  mb_arph :: arphdr

definition ETHERNET_HEADER_LEN :: nat where "ETHERNET_HEADER_LEN = 14"
definition IP_HEADER_LEN :: nat where "IP_HEADER_LEN = 20"
definition TCP_HEADER_LEN :: nat where "TCP_HEADER_LEN = 20"
definition TOTAL_TCP_HEADER_LEN :: nat where "TOTAL_TCP_HEADER_LEN = 54"

lemmas header_lens = ETHERNET_HEADER_LEN_def IP_HEADER_LEN_def TCP_HEADER_LEN_def
  TOTAL_TCP_HEADER_LEN_def

definition MBUF_STATE_FREE :: "4 word" where "MBUF_STATE_FREE = 0"
definition MBUF_STATE_RCVED :: "4 word" where "MBUF_STATE_RCVED = 1"
definition MBUF_STATE_RBUFFED :: "4 word" where "MBUF_STATE_RBUFFED = 2"
definition MBUF_STATE_RREAD :: "4 word" where "MBUF_STATE_RREAD = 3"
definition MBUF_STATE_RDONE :: "4 word" where "MBUF_STATE_RDONE = 4"
definition MBUF_STATE_TALLOC :: "4 word" where "MBUF_STATE_TALLOC = 5"
definition MBUF_STATE_TBUFFED :: "4 word" where "MBUF_STATE_TBUFFED = 6"
definition MBUF_STATE_TGNRT :: "4 word" where "MBUF_STATE_TGNRT = 7"
definition MBUF_STATE_SENT :: "4 word" where "MBUF_STATE_SENT = 8"
definition MBUF_STATE_LOSS :: "4 word" where "MBUF_STATE_LOSS = 9"
definition MBUF_STATE_RETRANS :: "4 word" where "MBUF_STATE_RETRANS = 10"
definition MBUF_STATE_ACKED :: "4 word" where "MBUF_STATE_ACKED = 11"

lemmas mbuf_state_defs = MBUF_STATE_FREE_def MBUF_STATE_RCVED_def MBUF_STATE_RBUFFED_def
  MBUF_STATE_RREAD_def MBUF_STATE_RDONE_def MBUF_STATE_TALLOC_def MBUF_STATE_TBUFFED_def
  MBUF_STATE_TGNRT_def MBUF_STATE_SENT_def MBUF_STATE_LOSS_def MBUF_STATE_RETRANS_def
  MBUF_STATE_ACKED_def

text \<open>
  \<open>mm_released\<close> lists the mbufs handed back to the driver with the core that did it, in
  order; \<open>mm_count\<close> is the number of mbufs the pools hold, which bounds every walk over a
  list of different mbufs.
\<close>

type_synonym mheap = "ptr \<Rightarrow> mbuf"

record mbufs =
  mm_heap :: mheap
  mm_released :: "(nat \<times> ptr) list"
  mm_count :: nat

definition heap_upd :: "ptr \<Rightarrow> (mbuf \<Rightarrow> mbuf) \<Rightarrow> mbufs \<Rightarrow> mbufs" where
  "heap_upd p f m = m\<lparr>mm_heap := (mm_heap m)(p := f (mm_heap m p))\<rparr>"

section \<open>Offload lengths\<close>

text \<open>
  The length fields of an \<^verbatim>\<open>rte_mbuf\<close> are bit fields of \<^verbatim>\<open>tx_offload\<close>: 7 bits of
  \<^verbatim>\<open>l2_len\<close>, 9 of \<^verbatim>\<open>l3_len\<close>, 8 of \<^verbatim>\<open>l4_len\<close>, 16 of \<^verbatim>\<open>tso_segsz\<close>, 9 and
  7 of the outer lengths.
\<close>

definition l2_len :: "u64 \<Rightarrow> u64" where "l2_len w = take_bit 7 w"
definition l3_len :: "u64 \<Rightarrow> u64" where "l3_len w = take_bit 9 (drop_bit 7 w)"
definition l4_len :: "u64 \<Rightarrow> u64" where "l4_len w = take_bit 8 (drop_bit 16 w)"
definition tso_segsz :: "u64 \<Rightarrow> u64" where "tso_segsz w = take_bit 16 (drop_bit 24 w)"
definition outer_l3_len :: "u64 \<Rightarrow> u64" where "outer_l3_len w = take_bit 9 (drop_bit 40 w)"
definition outer_l2_len :: "u64 \<Rightarrow> u64" where "outer_l2_len w = take_bit 7 (drop_bit 49 w)"

definition set_l4_len :: "u64 \<Rightarrow> u64 \<Rightarrow> u64" where
  "set_l4_len v w = (w AND NOT (push_bit 16 0xFF)) OR push_bit 16 (take_bit 8 v)"

definition mbuf_set_tx_offload ::
    "mbuf \<Rightarrow> u64 \<Rightarrow> u64 \<Rightarrow> u64 \<Rightarrow> u64 \<Rightarrow> u64 \<Rightarrow> u64 \<Rightarrow> mbuf" where
  "mbuf_set_tx_offload mb l2 l3 l4 tso ol3 ol2 =
     mb\<lparr>mb_tx_offload := push_bit 49 ol2 + push_bit 40 ol3 + push_bit 24 tso
        + push_bit 16 l4 + push_bit 7 l3 + l2\<rparr>"

section \<open>Access functions\<close>

definition mbuf_get_tcp_payload_len :: "mbuf \<Rightarrow> u32" where
  "mbuf_get_tcp_payload_len mb =
     mb_pkt_len mb - of_nat ETHERNET_HEADER_LEN - of_nat IP_HEADER_LEN
       - ucast (l4_len (mb_tx_offload mb))"

definition MBUF_GET_BUFF :: "mbuf \<Rightarrow> ptr" where
  "MBUF_GET_BUFF mb = mb_buf_addr mb + unat (mb_data_off mb)"

definition mbuf_get_buff_ptr :: "mheap \<Rightarrow> ptr \<Rightarrow> ptr" where
  "mbuf_get_buff_ptr h p = (if p \<noteq> NULL then MBUF_GET_BUFF (h p) else NULL)"

definition mbuf_get_payload_ptr :: "mheap \<Rightarrow> ptr \<Rightarrow> ptr" where
  "mbuf_get_payload_ptr h p =
     (if p \<noteq> NULL \<and> l4_len (mb_tx_offload (h p)) \<noteq> 0
      then MBUF_GET_BUFF (h p) + ETHERNET_HEADER_LEN + IP_HEADER_LEN
             + unat (l4_len (mb_tx_offload (h p)))
      else NULL)"

definition mbuf_get_ip_ptr :: "mheap \<Rightarrow> ptr \<Rightarrow> ptr" where
  "mbuf_get_ip_ptr h p = (if p \<noteq> NULL then MBUF_GET_BUFF (h p) + ETHERNET_HEADER_LEN else NULL)"

definition mbuf_get_arp_ptr :: "mheap \<Rightarrow> ptr \<Rightarrow> ptr" where
  "mbuf_get_arp_ptr h p = (if p \<noteq> NULL then MBUF_GET_BUFF (h p) + ETHERNET_HEADER_LEN else NULL)"

definition mbuf_get_tcp_ptr :: "mheap \<Rightarrow> ptr \<Rightarrow> ptr" where
  "mbuf_get_tcp_ptr h p =
     (if p \<noteq> NULL then MBUF_GET_BUFF (h p) + ETHERNET_HEADER_LEN + IP_HEADER_LEN else NULL)"

definition mbuf_get_icmp_ptr :: "mheap \<Rightarrow> ptr \<Rightarrow> ptr" where
  "mbuf_get_icmp_ptr h p =
     (if p \<noteq> NULL then MBUF_GET_BUFF (h p) + ETHERNET_HEADER_LEN + IP_HEADER_LEN else NULL)"

text \<open>
  \<^verbatim>\<open>io_free_mbuf\<close> passes the mbuf to the driver's release queue, here the log
  \<open>mm_released\<close>. A second free of the same mbuf is only reported, so it is logged twice.
\<close>

definition io_free_mbuf :: "nat \<Rightarrow> ptr \<Rightarrow> mbufs \<Rightarrow> mbufs" where
  "io_free_mbuf core_id p m = m\<lparr>mm_released := mm_released m @ [(core_id, p)]\<rparr>"

definition mbuf_free :: "nat \<Rightarrow> ptr \<Rightarrow> mbufs \<Rightarrow> mbufs result" where
  "mbuf_free core_id p m =
     (if p = NULL then Inl Exit0
      else Inr (io_free_mbuf core_id p (heap_upd p (mb_state_update (\<lambda>_. MBUF_STATE_FREE)) m)))"

section \<open>Lists of mbufs\<close>

record mbuf_list =
  ml_head :: ptr
  ml_tail :: ptr

definition mbuf_list_init :: "mbuf_list \<Rightarrow> mbuf_list" where
  "mbuf_list_init l = l\<lparr>ml_head := NULL, ml_tail := NULL\<rparr>"

definition set_next :: "ptr \<Rightarrow> ptr \<Rightarrow> mbufs \<Rightarrow> mbufs" where
  "set_next p q m = heap_upd p (mb_buf_next_update (\<lambda>_. q)) m"

definition mbuf_list_pop :: "mbuf_list \<Rightarrow> mbufs \<Rightarrow> ptr \<times> mbuf_list \<times> mbufs" where
  "mbuf_list_pop l m =
     (let ret = ml_head l
      in if ret \<noteq> NULL
         then let l1 = l\<lparr>ml_head := mb_buf_next (mm_heap m ret)\<rparr>;
                  m1 = set_next ret NULL m;
                  l2 = (if ml_head l1 = NULL then l1\<lparr>ml_tail := NULL\<rparr> else l1)
              in (ret, l2, m1)
         else (ret, l, m))"

definition mbuf_list_append :: "mbuf_list \<Rightarrow> ptr \<Rightarrow> mbufs \<Rightarrow> mbuf_list \<times> mbufs" where
  "mbuf_list_append l p m =
     (if ml_tail l = NULL
      then (l\<lparr>ml_head := p, ml_tail := p\<rparr>, set_next p NULL m)
      else (l\<lparr>ml_tail := p\<rparr>, set_next p NULL (set_next (ml_tail l) p m)))"

definition mbuf_list_insert :: "mbuf_list \<Rightarrow> ptr \<Rightarrow> ptr \<Rightarrow> mbufs \<Rightarrow> mbuf_list \<times> mbufs" where
  "mbuf_list_insert l b1 b2 m =
     (let m1 = set_next b2 (mb_buf_next (mm_heap m b1)) m;
          m2 = set_next b1 b2 m1
      in (if mb_buf_next (mm_heap m2 b2) = NULL then l\<lparr>ml_tail := b2\<rparr> else l, m2))"

definition mbuf_list_add_head :: "mbuf_list \<Rightarrow> ptr \<Rightarrow> mbufs \<Rightarrow> mbuf_list \<times> mbufs" where
  "mbuf_list_add_head l p m =
     (let m1 = set_next p (ml_head l) m;
          l1 = l\<lparr>ml_head := p\<rparr>
      in (if mb_buf_next (mm_heap m1 p) = NULL then l1\<lparr>ml_tail := p\<rparr> else l1, m1))"

definition mbuf_list_merge ::
    "mbuf_list \<Rightarrow> mbuf_list \<Rightarrow> mbufs \<Rightarrow> mbuf_list \<times> mbuf_list \<times> mbufs" where
  "mbuf_list_merge l1 l2 m =
     (let (l1', m') =
        (if ml_tail l1 = NULL then (l1\<lparr>ml_head := ml_head l2, ml_tail := ml_tail l2\<rparr>, m)
         else if ml_head l2 \<noteq> NULL
         then (l1\<lparr>ml_tail := ml_tail l2\<rparr>, set_next (ml_tail l1) (ml_head l2) m)
         else (l1, m))
      in (l1', l2\<lparr>ml_head := NULL, ml_tail := NULL\<rparr>, m'))"

fun list_free_loop :: "nat \<Rightarrow> nat \<Rightarrow> ptr \<Rightarrow> mbufs \<Rightarrow> mbufs result" where
  "list_free_loop 0 core_id iter m = (if iter = NULL then Inr m else Inl Diverges)"
| "list_free_loop (Suc fuel) core_id iter m =
     (if iter = NULL then Inr m
      else let nxt = mb_buf_next (mm_heap m iter)
           in bind_r (mbuf_free core_id iter m) (list_free_loop fuel core_id nxt))"

definition mbuf_list_free :: "nat \<Rightarrow> mbuf_list \<Rightarrow> mbufs \<Rightarrow> (mbuf_list \<times> mbufs) result" where
  "mbuf_list_free core_id l m =
     bind_r (list_free_loop (mm_count m) core_id (ml_head l) m) (\<lambda>m'.
       Inr (l\<lparr>ml_head := NULL, ml_tail := NULL\<rparr>, m'))"

section \<open>The lists refine lists\<close>

text \<open>
  \<open>mlist h l xs\<close>: the links from the head of \<open>l\<close> run through exactly the different,
  non-null mbufs \<open>xs\<close>, and the tail pointer is the last of them.
\<close>

fun chain :: "mheap \<Rightarrow> ptr \<Rightarrow> ptr list \<Rightarrow> bool" where
  "chain h p [] \<longleftrightarrow> p = NULL"
| "chain h p (x # xs) \<longleftrightarrow> p = x \<and> x \<noteq> NULL \<and> chain h (mb_buf_next (h x)) xs"

definition mlist :: "mheap \<Rightarrow> mbuf_list \<Rightarrow> ptr list \<Rightarrow> bool" where
  "mlist h l xs \<longleftrightarrow> chain h (ml_head l) xs \<and> distinct xs
     \<and> ml_tail l = (if xs = [] then NULL else last xs)"

named_theorems heap_simps \<open>reading a heap after an update\<close>

lemma heap_upd_get [heap_simps]:
  "mm_heap (heap_upd p f m) q = (if q = p then f (mm_heap m p) else mm_heap m q)"
  by (simp add: heap_upd_def)

lemma set_next_get [heap_simps]:
  "mb_buf_next (mm_heap (set_next p n m) q) = (if q = p then n else mb_buf_next (mm_heap m q))"
  by (simp add: set_next_def heap_upd_get)

lemma heap_upd_fields [simp]:
  "mm_released (heap_upd p f m) = mm_released m" "mm_count (heap_upd p f m) = mm_count m"
  "mm_released (set_next p n m) = mm_released m" "mm_count (set_next p n m) = mm_count m"
  by (simp_all add: heap_upd_def set_next_def)

lemma chain_cong:
  "(\<And>x. x \<in> set xs \<Longrightarrow> mb_buf_next (h x) = mb_buf_next (h' x)) \<Longrightarrow> chain h p xs = chain h' p xs"
  by (induction xs arbitrary: p) auto

lemma chain_not_null: "chain h p xs \<Longrightarrow> NULL \<notin> set xs"
  by (induction xs arbitrary: p) auto

lemma chain_append_link:
  assumes "chain h p xs" "distinct xs" "x \<notin> set xs" "x \<noteq> NULL"
    "chain h x (x # ys)" "set xs \<inter> set (x # ys) = {}" "xs \<noteq> []"
    "mb_buf_next (h' (last xs)) = x"
    "\<And>y. y \<noteq> last xs \<Longrightarrow> mb_buf_next (h' y) = mb_buf_next (h y)"
  shows "chain h' p (xs @ x # ys)"
  using assms
proof (induction xs arbitrary: p)
  case (Cons a as)
  have tail: "chain h' x (x # ys)"
  proof -
    have "last (a # as) \<notin> set (x # ys)" using Cons.prems(6) by (metis Cons.prems(7) disjoint_iff last_in_set)
    then have "chain h' x (x # ys) = chain h x (x # ys)"
      using Cons.prems(9) by (intro chain_cong) metis
    then show ?thesis using Cons.prems(5) by blast
  qed
  show ?case
  proof (cases "as = []")
    case True
    then show ?thesis using Cons.prems tail by simp
  next
    case False
    then have "a \<noteq> last as" using Cons.prems(2) by auto
    then show ?thesis
      using Cons.IH [of "mb_buf_next (h a)"] Cons.prems False by auto
  qed
qed simp

lemma chain_heap_eq:
  "chain h p xs \<Longrightarrow> (\<And>x. x \<in> set xs \<Longrightarrow> mb_buf_next (h' x) = mb_buf_next (h x)) \<Longrightarrow> chain h' p xs"
  using chain_cong [of xs h' h p] by simp

lemma mlist_heap_eq:
  "mlist h l xs \<Longrightarrow> (\<And>x. x \<in> set xs \<Longrightarrow> mb_buf_next (h' x) = mb_buf_next (h x)) \<Longrightarrow> mlist h' l xs"
  by (auto simp: mlist_def intro: chain_heap_eq)

lemma mlist_distinct: "mlist h l xs \<Longrightarrow> distinct xs"
  by (simp add: mlist_def)

lemma mlist_not_null: "mlist h l xs \<Longrightarrow> NULL \<notin> set xs"
  by (auto simp: mlist_def dest: chain_not_null)

lemma mlist_empty_iff: "mlist h l xs \<Longrightarrow> ml_head l = NULL \<longleftrightarrow> xs = []"
  by (cases xs) (auto simp: mlist_def)

lemma mlist_tail_iff: "mlist h l xs \<Longrightarrow> ml_tail l = NULL \<longleftrightarrow> xs = []"
  using mlist_not_null [of h l xs] by (auto simp: mlist_def) (metis last_in_set neq0_conv)

lemma mlist_init: "mlist h (mbuf_list_init l) []"
  by (simp add: mlist_def mbuf_list_init_def)

lemma mlist_unique: "mlist h l xs \<Longrightarrow> mlist h l ys \<Longrightarrow> xs = ys"
proof -
  have "chain h p xs \<Longrightarrow> chain h p ys \<Longrightarrow> xs = ys" for p
  proof (induction xs arbitrary: p ys)
    case Nil
    then show ?case by (cases ys) auto
  next
    case (Cons x xs)
    then show ?case by (cases ys) auto
  qed
  then show "mlist h l xs \<Longrightarrow> mlist h l ys \<Longrightarrow> xs = ys" by (auto simp: mlist_def)
qed

lemma mbuf_list_pop_empty:
  "mlist (mm_heap m) l [] \<Longrightarrow> mbuf_list_pop l m = (NULL, l, m)"
  by (simp add: mbuf_list_pop_def mlist_def Let_def)

lemma mbuf_list_pop_cons:
  assumes "mlist (mm_heap m) l (x # xs)"
  shows "\<exists>l'. mbuf_list_pop l m = (x, l', set_next x NULL m) \<and> mlist (mm_heap (set_next x NULL m)) l' xs"
proof -
  have c: "ml_head l = x" "x \<noteq> NULL" "chain (mm_heap m) (mb_buf_next (mm_heap m x)) xs"
    "distinct xs" "x \<notin> set xs"
    using assms by (auto simp: mlist_def)
  let ?l = "l\<lparr>ml_head := mb_buf_next (mm_heap m x)\<rparr>"
  let ?l' = "if ml_head ?l = NULL then ?l\<lparr>ml_tail := NULL\<rparr> else ?l"
  have "chain (mm_heap (set_next x NULL m)) (mb_buf_next (mm_heap m x)) xs"
    using c by (intro chain_heap_eq [OF c(3)]) (auto simp: heap_simps)
  moreover have "mb_buf_next (mm_heap m x) = NULL \<longleftrightarrow> xs = []" using c(3) by (cases xs) auto
  ultimately have "mlist (mm_heap (set_next x NULL m)) ?l' xs"
    using c assms by (auto simp: mlist_def)
  then show ?thesis using c by (auto simp: mbuf_list_pop_def Let_def)
qed

lemma mbuf_list_append_mlist:
  assumes l: "mlist (mm_heap m) l xs" and x: "x \<notin> set xs" "x \<noteq> NULL"
  shows "mlist (mm_heap (snd (mbuf_list_append l x m))) (fst (mbuf_list_append l x m)) (xs @ [x])"
proof (cases "xs = []")
  case True
  then show ?thesis using l x by (simp add: mbuf_list_append_def mlist_def heap_simps)
next
  case False
  then have t: "ml_tail l = last xs" "last xs \<noteq> NULL" "last xs \<noteq> x"
    using l x mlist_not_null [OF l] by (auto simp: mlist_def) (metis last_in_set neq0_conv)
  let ?m = "set_next x NULL m"
  have "chain (mm_heap ?m) (ml_head l) xs"
    using l x by (auto simp: mlist_def heap_simps elim!: chain_heap_eq)
  then have "chain (mm_heap (set_next x NULL (set_next (last xs) x m))) (ml_head l) (xs @ x # [])"
    by (rule chain_append_link [where h = "mm_heap ?m"])
      (use x l False t in \<open>auto simp: mlist_def heap_simps\<close>)
  then show ?thesis using l x t False by (simp add: mbuf_list_append_def mlist_def)
qed

lemma mbuf_list_append_mem:
  "mm_released (snd (mbuf_list_append l x m)) = mm_released m"
  "mm_count (snd (mbuf_list_append l x m)) = mm_count m"
  by (simp_all add: mbuf_list_append_def)

lemma chain_suffix: "chain h p (xs @ y # ys) \<Longrightarrow> chain h (mb_buf_next (h y)) ys"
  by (induction xs arbitrary: p) auto

text \<open>Splicing \<open>z\<close> in after \<open>y\<close>.\<close>

lemma chain_splice:
  assumes "chain h p (xs @ y # ys)" "distinct (xs @ y # ys)" "z \<notin> set (xs @ y # ys)" "z \<noteq> NULL"
    "mb_buf_next (h' y) = z" "mb_buf_next (h' z) = mb_buf_next (h y)"
    "\<And>q. q \<noteq> y \<Longrightarrow> q \<noteq> z \<Longrightarrow> mb_buf_next (h' q) = mb_buf_next (h q)"
  shows "chain h' p (xs @ y # z # ys)"
  using assms
proof (induction xs arbitrary: p)
  case Nil
  then have "chain h (mb_buf_next (h y)) ys" by simp
  moreover have "mb_buf_next (h' x) = mb_buf_next (h x)" if "x \<in> set ys" for x
    by (rule Nil.prems(7)) (use Nil.prems(2,3) that in auto)
  ultimately have "chain h' (mb_buf_next (h y)) ys" by (rule chain_heap_eq)
  then show ?case using Nil.prems by simp
next
  case (Cons a xs)
  then show ?case by auto
qed

lemma mbuf_list_insert_mlist:
  assumes l: "mlist (mm_heap m) l (xs @ b1 # ys)" and b: "b2 \<notin> set (xs @ b1 # ys)" "b2 \<noteq> NULL"
  shows "mlist (mm_heap (snd (mbuf_list_insert l b1 b2 m))) (fst (mbuf_list_insert l b1 b2 m))
    (xs @ b1 # b2 # ys)"
proof -
  have ne: "b1 \<noteq> b2" using b by auto
  let ?m = "set_next b1 b2 (set_next b2 (mb_buf_next (mm_heap m b1)) m)"
  have c: "chain (mm_heap ?m) (ml_head l) (xs @ b1 # b2 # ys)"
    by (rule chain_splice [of "mm_heap m"]) (use l b ne in \<open>auto simp: mlist_def heap_simps\<close>)
  have "chain (mm_heap m) (mb_buf_next (mm_heap m b1)) ys"
    using l by (auto simp: mlist_def dest: chain_suffix)
  then have n: "mb_buf_next (mm_heap ?m b2) = NULL \<longleftrightarrow> ys = []"
    using ne by (cases ys) (auto simp: heap_simps)
  show ?thesis
    using c l b n by (auto simp: mbuf_list_insert_def mlist_def Let_def)
qed

lemma mbuf_list_add_head_mlist:
  assumes l: "mlist (mm_heap m) l xs" and x: "x \<notin> set xs" "x \<noteq> NULL"
  shows "mlist (mm_heap (snd (mbuf_list_add_head l x m))) (fst (mbuf_list_add_head l x m)) (x # xs)"
proof -
  have "chain (mm_heap (set_next x (ml_head l) m)) (ml_head l) xs"
    using l x by (auto simp: mlist_def heap_simps elim!: chain_heap_eq)
  then show ?thesis
    using l x mlist_empty_iff [OF l]
    by (auto simp: mbuf_list_add_head_def mlist_def heap_simps Let_def)
qed

lemma mbuf_list_merge_mlist:
  assumes l1: "mlist (mm_heap m) l1 xs" and l2: "mlist (mm_heap m) l2 ys"
    and d: "set xs \<inter> set ys = {}" and r: "mbuf_list_merge l1 l2 m = (l1', l2', m')"
  shows "mlist (mm_heap m') l1' (xs @ ys) \<and> mlist (mm_heap m') l2' []"
proof (cases "xs = [] \<or> ys = []")
  case True
  then show ?thesis
    using l1 l2 r mlist_tail_iff [OF l1] mlist_empty_iff [OF l2]
    by (auto simp: mbuf_list_merge_def mlist_def split: if_splits)
next
  case False
  then obtain z zs where ys: "ys = z # zs" by (cases ys) auto
  have z: "ml_head l2 = z" "z \<noteq> NULL" using l2 ys by (auto simp: mlist_def)
  have t: "ml_tail l1 = last xs" "ml_tail l1 \<noteq> NULL"
    using l1 False mlist_tail_iff [OF l1] by (simp_all add: mlist_def)
  have "chain (mm_heap (set_next (last xs) z m)) (ml_head l1) (xs @ z # zs)"
    by (rule chain_append_link [where h = "mm_heap m"])
      (use l1 l2 ys d False z in \<open>auto simp: mlist_def heap_simps\<close>)
  then show ?thesis
    using l1 l2 r t z ys d False by (auto simp: mbuf_list_merge_def mlist_def)
qed

lemma mbuf_free_mem:
  assumes "p \<noteq> NULL"
  shows "\<exists>m'. mbuf_free c p m = Inr m' \<and> mm_released m' = mm_released m @ [(c, p)]
    \<and> mm_count m' = mm_count m \<and> (\<forall>q. mb_buf_next (mm_heap m' q) = mb_buf_next (mm_heap m q))
    \<and> (\<forall>q. q \<noteq> p \<longrightarrow> mm_heap m' q = mm_heap m q) \<and> mb_state (mm_heap m' p) = MBUF_STATE_FREE"
  using assms by (simp add: mbuf_free_def io_free_mbuf_def heap_upd_get)

lemma list_free_loop_chain:
  "chain (mm_heap m) p xs \<Longrightarrow> distinct xs \<Longrightarrow> length xs \<le> fuel \<Longrightarrow>
   \<exists>m'. list_free_loop fuel c p m = Inr m'
     \<and> mm_released m' = mm_released m @ map (Pair c) xs \<and> mm_count m' = mm_count m
     \<and> (\<forall>q. mb_buf_next (mm_heap m' q) = mb_buf_next (mm_heap m q))
     \<and> (\<forall>q. q \<notin> set xs \<longrightarrow> mm_heap m' q = mm_heap m q)
     \<and> (\<forall>q\<in>set xs. mb_state (mm_heap m' q) = MBUF_STATE_FREE)"
proof (induction xs arbitrary: p m fuel)
  case Nil
  then show ?case by (cases fuel) auto
next
  case (Cons x xs)
  then obtain f where f: "fuel = Suc f" by (cases fuel) auto
  have p: "p = x" "x \<noteq> NULL" using Cons.prems by auto
  obtain m1 where m1: "mbuf_free c x m = Inr m1" "mm_released m1 = mm_released m @ [(c, x)]"
      "mm_count m1 = mm_count m" "\<forall>q. mb_buf_next (mm_heap m1 q) = mb_buf_next (mm_heap m q)"
      "\<forall>q. q \<noteq> x \<longrightarrow> mm_heap m1 q = mm_heap m q" "mb_state (mm_heap m1 x) = MBUF_STATE_FREE"
    using mbuf_free_mem [OF p(2), of c m] by auto
  have "chain (mm_heap m1) (mb_buf_next (mm_heap m x)) xs"
    using Cons.prems(1) m1(4) by (auto elim!: chain_heap_eq)
  then obtain m' where m': "list_free_loop f c (mb_buf_next (mm_heap m x)) m1 = Inr m'"
      "mm_released m' = mm_released m1 @ map (Pair c) xs" "mm_count m' = mm_count m1"
      "\<forall>q. mb_buf_next (mm_heap m' q) = mb_buf_next (mm_heap m1 q)"
      "\<forall>q. q \<notin> set xs \<longrightarrow> mm_heap m' q = mm_heap m1 q"
      "\<forall>q\<in>set xs. mb_state (mm_heap m' q) = MBUF_STATE_FREE"
    using Cons.IH [of m1 "mb_buf_next (mm_heap m x)" f] Cons.prems f by auto
  have "mb_state (mm_heap m' x) = MBUF_STATE_FREE"
    using m'(5) m1(6) Cons.prems(2) by simp
  then show ?case using m1 m' p f by (auto simp: Let_def)
qed

section \<open>Packing the offload lengths\<close>

lemma unat_push:
  assumes "unat (x::u64) < 2 ^ n" "n + k \<le> 64"
  shows "unat (push_bit k x) = unat x * 2 ^ k"
proof -
  have "unat x * 2 ^ k < 2 ^ n * 2 ^ k" using assms by simp
  also have "\<dots> = 2 ^ (n + k)" by (simp add: power_add)
  also have "\<dots> \<le> 2 ^ 64" using assms(2) by (intro power_increasing) auto
  finally have "take_bit 64 (push_bit k (unat x)) = unat x * 2 ^ k"
    by (simp add: push_bit_eq_mult take_bit_nat_eq_self)
  then show ?thesis by (simp add: unsigned_push_bit_eq)
qed

lemma unat_add64: "unat (a::u64) + unat b < 2 ^ 64 \<Longrightarrow> unat (a + b) = unat a + unat b"
  by (simp add: unat_word_ariths)

definition pack :: "nat \<Rightarrow> nat \<Rightarrow> nat \<Rightarrow> nat" where
  "pack n a b = a + 2 ^ n * b"

lemma pack_simps:
  assumes "a < 2 ^ n"
  shows "pack n a b mod 2 ^ n = a" "pack n a b div 2 ^ (n + k) = b div 2 ^ k"
  using assms by (simp_all add: pack_def power_add div_mult2_eq)

lemma tx_offload_unat:
  assumes "unat l2 < 2 ^ 7" "unat l3 < 2 ^ 9" "unat l4 < 2 ^ 8" "unat tso < 2 ^ 16"
    "unat ol3 < 2 ^ 9" "unat ol2 < 2 ^ 7"
  shows "unat (mb_tx_offload (mbuf_set_tx_offload mb l2 l3 l4 tso ol3 ol2)) =
    pack 7 (unat l2) (pack 9 (unat l3) (pack 8 (unat l4) (pack 16 (unat tso)
      (pack 9 (unat ol3) (unat ol2)))))"
  using assms unat_push [OF assms(6), of 49] unat_push [OF assms(5), of 40]
    unat_push [OF assms(4), of 24] unat_push [OF assms(3), of 16] unat_push [OF assms(2), of 7]
  by (simp add: mbuf_set_tx_offload_def unat_add64 pack_def)

lemma unat_field: "unat (take_bit n (drop_bit k (w::u64))) = (unat w div 2 ^ k) mod 2 ^ n"
  unfolding unsigned_take_bit_eq unsigned_drop_bit_eq
  using unat_word_less [of w] by (simp add: take_bit_eq_mod drop_bit_eq_div take_bit_nat_eq_self)

section \<open>Sample memory\<close>

definition mbuf0 :: mbuf where
  "mbuf0 = \<lparr>mb_buf_addr = 0, mb_data_off = 128, mb_pkt_len = 0, mb_data_len = 0, mb_tx_offload = 0,
     mb_state = 0, mb_priority = False, mb_holding = False, mb_payload_len = 0, mb_tcp_seq = 0,
     mb_buf_next = 0,
     mb_eth = \<lparr>eth_dest = [], eth_source = [], eth_proto = 0\<rparr>,
     mb_iph = \<lparr>ip_ihl = 5, ip_version = 4, ip_tos = 0, ip_tot_len = 0, ip_id = 0, ip_frag_off = 0, ip_ttl = 0,
        ip_protocol = 6, ip_check = 0, ip_saddr = 0, ip_daddr = 0\<rparr>,
     mb_tcph = \<lparr>th_source = 0, th_dest = 0, th_seq = 0, th_ack_seq = 0, th_doff = 5, th_fin = False,
        th_syn = False, th_rst = False, th_psh = False, th_ack = False, th_urg = False,
        th_window = 0, th_check = 0, th_urg_ptr = 0\<rparr>,
     mb_opts = [],
     mb_arph = \<lparr>ar_hrd = 0, ar_pro = 0, ar_hln = 0, ar_pln = 0, ar_op = 0, ar_sha = [], ar_sip = 0, ar_tha = [],
        ar_tip = 0\<rparr>\<rparr>"

text \<open>The mbufs 3 and 7, linked in this order.\<close>

definition mem37 :: mbufs where
  "mem37 = \<lparr>mm_heap = (\<lambda>_. mbuf0)(3 := mbuf0\<lparr>mb_buf_next := 7\<rparr>), mm_released = [], mm_count = 8\<rparr>"

definition list37 :: mbuf_list where
  "list37 = \<lparr>ml_head = 3, ml_tail = 7\<rparr>"

lemma list37: "mlist (mm_heap mem37) list37 [3, 7]" "mm_count mem37 = 8" "mm_released mem37 = []"
  by (simp_all add: mlist_def mem37_def list37_def mbuf0_def)

section \<open>Main properties\<close>

text \<open>
  \<^verbatim>\<open>mbuf_set_tx_offload\<close> writes the six length fields with shifts and
  additions into one 64-bit word; whenever each length fits into its bit field, reading the
  fields back gives exactly the lengths that were set.
\<close>

lemma mbuf_set_tx_offload_fields:
  assumes "unat l2 < 2 ^ 7" "unat l3 < 2 ^ 9" "unat l4 < 2 ^ 8" "unat tso < 2 ^ 16"
    "unat ol3 < 2 ^ 9" "unat ol2 < 2 ^ 7"
    and w_def: "w = mb_tx_offload (mbuf_set_tx_offload mb l2 l3 l4 tso ol3 ol2)"
  shows "l2_len w = l2 \<and> l3_len w = l3 \<and> l4_len w = l4 \<and> tso_segsz w = tso
    \<and> outer_l3_len w = ol3 \<and> outer_l2_len w = ol2"
proof -
  note u = tx_offload_unat [OF assms(1-6), of mb, folded w_def]
  note p = pack_simps [OF assms(1)] pack_simps [OF assms(2)] pack_simps [OF assms(3)]
    pack_simps [OF assms(4)] pack_simps [OF assms(5)]
  have "unat (take_bit 7 (drop_bit 0 w)) = unat l2"
    unfolding unat_field u using p(1) by simp
  moreover have "unat (take_bit 9 (drop_bit (7 + 0) w)) = unat l3"
    unfolding unat_field u p(2) using p(3) by simp
  moreover have "unat (take_bit 8 (drop_bit (7 + (9 + 0)) w)) = unat l4"
    unfolding unat_field u p(2) p(4) using p(5) by simp
  moreover have "unat (take_bit 16 (drop_bit (7 + (9 + (8 + 0))) w)) = unat tso"
    unfolding unat_field u p(2) p(4) p(6) using p(7) by simp
  moreover have "unat (take_bit 9 (drop_bit (7 + (9 + (8 + (16 + 0)))) w)) = unat ol3"
    unfolding unat_field u p(2) p(4) p(6) p(8) using p(9) by simp
  moreover have "unat (take_bit 7 (drop_bit (7 + (9 + (8 + (16 + (9 + 0))))) w)) = unat ol2"
    unfolding unat_field u p(2) p(4) p(6) p(8) p(10) using assms(6) by simp
  ultimately show ?thesis
    by (simp add: l2_len_def l3_len_def l4_len_def tso_segsz_def outer_l3_len_def
        outer_l2_len_def word_unat_eq_iff)
qed

lemma mbuf_set_tx_offload_fields_witness:
  "l4_len (mb_tx_offload (mbuf_set_tx_offload mbuf0 14 20 28 1460 0 0)) = 28"
  using mbuf_set_tx_offload_fields [OF _ _ _ _ _ _ refl, of 14 20 28 1460 0 0 mbuf0] by simp

text \<open>
  C22 (refinement). The pointer operations on mbuf lists are operations on the sequence of mbufs
  they link: popping takes the first, appending and adding at the head put one mbuf at either
  end, inserting puts one after a given one, merging concatenates, and every one of them keeps
  the head and tail pointers right.
\<close>

theorem mbuf_list_refines:
  assumes "mlist (mm_heap m) l xs" "x \<noteq> NULL" "x \<notin> set xs"
  shows "mlist (mm_heap (snd (mbuf_list_append l x m))) (fst (mbuf_list_append l x m)) (xs @ [x])
    \<and> mlist (mm_heap (snd (mbuf_list_add_head l x m))) (fst (mbuf_list_add_head l x m)) (x # xs)
    \<and> (\<forall>ys b zs. xs = ys @ b # zs \<longrightarrow>
         mlist (mm_heap (snd (mbuf_list_insert l b x m))) (fst (mbuf_list_insert l b x m))
           (ys @ b # x # zs))
    \<and> (\<forall>k ys k1 k2 m'. mlist (mm_heap m) k ys \<longrightarrow> set xs \<inter> set ys = {} \<longrightarrow>
         mbuf_list_merge l k m = (k1, k2, m') \<longrightarrow>
         mlist (mm_heap m') k1 (xs @ ys) \<and> mlist (mm_heap m') k2 [])
    \<and> (case mbuf_list_pop l m of (p, l', m') \<Rightarrow>
         p = (if xs = [] then NULL else hd xs) \<and> mlist (mm_heap m') l' (tl xs))"
proof (intro conjI allI impI)
  show "mlist (mm_heap (snd (mbuf_list_append l x m))) (fst (mbuf_list_append l x m)) (xs @ [x])"
    using assms by (intro mbuf_list_append_mlist)
  show "mlist (mm_heap (snd (mbuf_list_add_head l x m))) (fst (mbuf_list_add_head l x m)) (x # xs)"
    using assms by (intro mbuf_list_add_head_mlist)
  show "mlist (mm_heap (snd (mbuf_list_insert l b x m))) (fst (mbuf_list_insert l b x m))
      (ys @ b # x # zs)" if "xs = ys @ b # zs" for ys b zs
    using assms that by (intro mbuf_list_insert_mlist) auto
  fix k ys k1 k2 m'
  assume k: "mlist (mm_heap m) k ys" "set xs \<inter> set ys = {}" "mbuf_list_merge l k m = (k1, k2, m')"
  show "mlist (mm_heap m') k1 (xs @ ys)" "mlist (mm_heap m') k2 []"
    using mbuf_list_merge_mlist [OF assms(1) k] by blast+
next
  show "case mbuf_list_pop l m of (p, l', m') \<Rightarrow>
      p = (if xs = [] then NULL else hd xs) \<and> mlist (mm_heap m') l' (tl xs)"
  proof (cases xs)
    case Nil
    then show ?thesis using assms(1) mbuf_list_pop_empty [of m l] by simp
  next
    case (Cons y ys)
    then show ?thesis using assms(1) mbuf_list_pop_cons [of m l y ys] by auto
  qed
qed

theorem mbuf_list_refines_witness:
  "mlist (mm_heap (snd (mbuf_list_append list37 5 mem37))) (fst (mbuf_list_append list37 5 mem37))
     ([3, 7] @ [5])"
  using mbuf_list_refines [OF list37(1), of 5] by simp

text \<open>
  Freeing a list ends and hands every mbuf of it back to the driver exactly
  once, in list order, leaving the list empty and no other mbuf touched, although each mbuf is
  released before the next link is followed.
\<close>

lemma mbuf_list_free_releases:
  assumes "mlist (mm_heap m) l xs" "length xs \<le> mm_count m"
  shows "\<exists>l' m'. mbuf_list_free c l m = Inr (l', m') \<and> mlist (mm_heap m') l' []
    \<and> mm_released m' = mm_released m @ map (Pair c) xs
    \<and> (\<forall>q\<in>set xs. mb_state (mm_heap m' q) = MBUF_STATE_FREE)
    \<and> (\<forall>q. q \<notin> set xs \<longrightarrow> mm_heap m' q = mm_heap m q)"
proof -
  have c: "chain (mm_heap m) (ml_head l) xs" "distinct xs" using assms(1) by (auto simp: mlist_def)
  obtain m' where "list_free_loop (mm_count m) c (ml_head l) m = Inr m'"
      "mm_released m' = mm_released m @ map (Pair c) xs"
      "\<forall>q. q \<notin> set xs \<longrightarrow> mm_heap m' q = mm_heap m q"
      "\<forall>q\<in>set xs. mb_state (mm_heap m' q) = MBUF_STATE_FREE"
    using list_free_loop_chain [OF c assms(2), of c] by blast
  then show ?thesis by (auto simp: mbuf_list_free_def mlist_def)
qed

lemma mbuf_list_free_releases_witness:
  "\<exists>l' m'. mbuf_list_free 2 list37 mem37 = Inr (l', m') \<and> mm_released m' = [(2, 3), (2, 7)]"
  using mbuf_list_free_releases [OF list37(1), of 2] list37(2,3) by auto

end
