(* ===== verification/Mbuf_Queue.thy ===== *)
theory Mbuf_Queue
  imports Circular_Queue Mbuf
begin

text \<open>
  Queues of mbufs: \<^verbatim>\<open>qstack/src/include/mbuf_queue.h\<close> as it is built, with
  \<^verbatim>\<open>DIRECT_CIRCULAR_QUEUE\<close>: the direct queue of eight slots, of which seven can be used.
\<close>

section \<open>Operations\<close>

definition mbufq_mp_init :: "fast_cirq_mempool \<Rightarrow> u32 \<Rightarrow> u32 \<Rightarrow> fast_cirq_mempool" where
  "mbufq_mp_init mp sz len = mp"

definition mbufq_init :: "circular_queue \<Rightarrow> int \<times> circular_queue" where
  "mbufq_init q = dir_cirq_init q"

definition mbufq_enqueue :: "circular_queue \<Rightarrow> ptr \<Rightarrow> int \<times> circular_queue" where
  "mbufq_enqueue q mbuf = dir_cirq_add q mbuf"

definition mbufq_dequeue :: "circular_queue \<Rightarrow> ptr \<times> circular_queue" where
  "mbufq_dequeue q = dir_cirq_get q"

definition mbufq_empty :: "circular_queue \<Rightarrow> bool" where
  "mbufq_empty q = cirq_empty q"

fun mbufq_clear_loop :: "nat \<Rightarrow> nat \<Rightarrow> circular_queue \<Rightarrow> mbufs \<Rightarrow> (circular_queue \<times> mbufs) result" where
  "mbufq_clear_loop 0 core_id q m = Inl Diverges"
| "mbufq_clear_loop (Suc fuel) core_id q m =
     (let (mbuf, q1) = mbufq_dequeue q
      in if mbuf = NULL then Inr (q1, m)
         else bind_r (mbuf_free core_id mbuf m) (mbufq_clear_loop fuel core_id q1))"

text \<open>Each round takes one of the at most \<open>size - 1\<close> items, so \<open>size\<close> rounds are enough.\<close>

definition mbufq_clear :: "nat \<Rightarrow> circular_queue \<Rightarrow> mbufs \<Rightarrow> (circular_queue \<times> mbufs) result" where
  "mbufq_clear core_id q m = mbufq_clear_loop (unat (cq_size q)) core_id q m"

section \<open>Contract\<close>

interpretation mq: bounded_fifo mbufq_enqueue mbufq_dequeue cirq_list cirq_capacity dir_cirq_wf
  by unfold_locales
    (simp_all add: mbufq_enqueue_def mbufq_dequeue_def dcq.contents_bound dcq.add_full dcq.add_room
      dcq.get_empty dcq.get_item)

lemma mbufq_init_wf:
  "length (cq_queue q) = 8 \<Longrightarrow> dir_cirq_wf (snd (mbufq_init q)) \<and> cirq_list (snd (mbufq_init q)) = []"
  by (simp add: mbufq_init_def dir_cirq_init_wf)

lemma mbufq_enqueue_full:
  "dir_cirq_wf q \<Longrightarrow> length (cirq_list q) = 7 \<Longrightarrow> mbufq_enqueue q x = (FAILED, q)"
  by (rule mq.add_full) (simp_all add: dir_capacity)

lemma mbufq_enqueue_room:
  "dir_cirq_wf q \<Longrightarrow> length (cirq_list q) < 7 \<Longrightarrow>
   \<exists>q'. mbufq_enqueue q x = (SUCCESS, q') \<and> cirq_list q' = cirq_list q @ [x] \<and> dir_cirq_wf q'"
  using mq.add_room [of q x] by (cases "mbufq_enqueue q x") (simp add: dir_capacity)

lemma mbufq_dequeue_empty: "dir_cirq_wf q \<Longrightarrow> cirq_list q = [] \<Longrightarrow> mbufq_dequeue q = (NULL, q)"
  by (rule mq.get_empty)

lemma mbufq_dequeue_item:
  "dir_cirq_wf q \<Longrightarrow> cirq_list q = x # xs \<Longrightarrow>
   \<exists>q'. mbufq_dequeue q = (x, q') \<and> cirq_list q' = xs \<and> dir_cirq_wf q'"
  using mq.get_item [of q x xs] by (cases "mbufq_dequeue q") simp

lemma dir_list_bound: "dir_cirq_wf q \<Longrightarrow> length (cirq_list q) \<le> 7"
  using mq.contents_bound [of q] by (simp add: dir_capacity)

text \<open>Clearing frees every queued mbuf once, in order, even one that is queued twice.\<close>

lemma mbufq_clear_loop_frees:
  "dir_cirq_wf q \<Longrightarrow> cirq_list q = xs \<Longrightarrow> NULL \<notin> set xs \<Longrightarrow> length xs < fuel \<Longrightarrow>
   \<exists>q' m'. mbufq_clear_loop fuel c q m = Inr (q', m') \<and> dir_cirq_wf q' \<and> cirq_list q' = []
     \<and> mm_released m' = mm_released m @ map (Pair c) xs \<and> mm_count m' = mm_count m
     \<and> (\<forall>p. mb_buf_next (mm_heap m' p) = mb_buf_next (mm_heap m p))"
proof (induction xs arbitrary: q m fuel)
  case Nil
  then show ?case by (cases fuel) (auto simp: mbufq_dequeue_empty)
next
  case (Cons x xs)
  then obtain f where f: "fuel = Suc f" by (cases fuel) auto
  obtain q1 where q1: "mbufq_dequeue q = (x, q1)" "cirq_list q1 = xs" "dir_cirq_wf q1"
    using mbufq_dequeue_item [OF Cons.prems(1,2)] by blast
  have x: "x \<noteq> NULL" using Cons.prems by auto
  obtain m1 where m1: "mbuf_free c x m = Inr m1" "mm_released m1 = mm_released m @ [(c, x)]"
      "mm_count m1 = mm_count m" "\<forall>q. mb_buf_next (mm_heap m1 q) = mb_buf_next (mm_heap m q)"
    using mbuf_free_mem [OF x, of c m] by auto
  show ?case
    using Cons.IH [OF q1(3,2), of f m1] Cons.prems f q1 m1 x by auto
qed

lemma mbufq_clear_frees:
  assumes "dir_cirq_wf q" "NULL \<notin> set (cirq_list q)"
  shows "\<exists>q' m'. mbufq_clear c q m = Inr (q', m') \<and> dir_cirq_wf q' \<and> cirq_list q' = []
    \<and> mm_released m' = mm_released m @ map (Pair c) (cirq_list q) \<and> mm_count m' = mm_count m
    \<and> (\<forall>p. mb_buf_next (mm_heap m' p) = mb_buf_next (mm_heap m p))"
proof -
  have "unat (cq_size q) = 8" using assms(1) by (simp add: dir_cirq_wf_def STATIC_BUFF_SIZE_def)
  then show ?thesis
    using mbufq_clear_loop_frees [OF assms(1) refl assms(2), of 8 c m] dir_list_bound [OF assms(1)]
    by (simp add: mbufq_clear_def)
qed

end
