(* ===== verification/Tcp_Recv_Buff.thy ===== *)
theory Tcp_Recv_Buff
  imports Mbuf_Queue
begin

text \<open>
  The receive buffer of a stream: \<^verbatim>\<open>tcp_recv_buff.c\<close> and \<^verbatim>\<open>tcp_recv_buff.h\<close> as they
  are built, with \<^verbatim>\<open>PRIORITY_RECV_BUFF\<close>. Merged segments wait in \<^verbatim>\<open>merged_q\<close>,
  segments that arrived too early in the ordered list \<^verbatim>\<open>ooo_list\<close>, and segments of high
  priority in \<^verbatim>\<open>high_q\<close> as well. The buffer is a field of its stream, so the tests of its
  address against \<^verbatim>\<open>NULL\<close> never fire. Statistics and trace output are left out.
\<close>

section \<open>State\<close>

record tcp_recv_buffer =
  rb_merged_q :: circular_queue
  rb_ooo_list :: mbuf_list
  rb_high_q :: circular_queue
  rb_size :: u32
  rb_init_seq :: u32
  rb_head_seq :: u32
  rb_merged_next :: u32

definition seg_seq :: "mbufs \<Rightarrow> ptr \<Rightarrow> u32" where
  "seg_seq m p = mb_tcp_seq (mm_heap m p)"

definition seg_end :: "mbufs \<Rightarrow> ptr \<Rightarrow> u32" where
  "seg_end m p = mb_tcp_seq (mm_heap m p) + ucast (mb_payload_len (mm_heap m p))"

section \<open>The out-of-order list\<close>

text \<open>
  The result is an \<^verbatim>\<open>int\<close> read from a \<^verbatim>\<open>uint8_t\<close>, so \<^verbatim>\<open>FAILED\<close> comes out as 254.
  For a segment before the head the code calls \<^verbatim>\<open>mbuf_list_add_head(mbuf, list)\<close> with its
  two arguments swapped: the list header is then written as if it were an mbuf.
\<close>

definition ret_u8 :: "int \<Rightarrow> int" where
  "ret_u8 r = r mod 256"

fun ooo_insert_loop ::
    "nat \<Rightarrow> mbuf_list \<Rightarrow> ptr \<Rightarrow> ptr \<Rightarrow> mbufs \<Rightarrow> (int \<times> mbuf_list \<times> mbufs) result" where
  "ooo_insert_loop 0 l p mbuf m = Inl Diverges"
| "ooo_insert_loop (Suc fuel) l p mbuf m =
     (let nxt = mb_buf_next (mm_heap m p)
      in if nxt = NULL then Inr (ret_u8 FAILED, l, m)
         else if TCP_SEQ_LEQ (seg_end m p) (seg_seq m mbuf)
                 \<and> TCP_SEQ_LEQ (seg_end m mbuf) (seg_seq m nxt)
         then let (l', m') = mbuf_list_insert l p mbuf m in Inr (ret_u8 SUCCESS, l', m')
         else ooo_insert_loop fuel l nxt mbuf m)"

definition ooo_insert :: "tcp_recv_buffer \<Rightarrow> ptr \<Rightarrow> mbufs \<Rightarrow> (int \<times> tcp_recv_buffer \<times> mbufs) result" where
  "ooo_insert buff mbuf m =
     (let l = rb_ooo_list buff
      in if ml_head l = NULL
         then Inr (ret_u8 SUCCESS, buff\<lparr>rb_ooo_list := l\<lparr>ml_head := mbuf, ml_tail := mbuf\<rparr>\<rparr>, m)
         else if TCP_SEQ_LEQ (seg_end m (ml_tail l)) (seg_seq m mbuf)
         then let (l', m') = mbuf_list_append l mbuf m
              in Inr (ret_u8 SUCCESS, buff\<lparr>rb_ooo_list := l'\<rparr>, m')
         else if TCP_SEQ_LEQ (seg_end m mbuf) (seg_seq m (ml_head l))
         then Inl Undefined
         else bind_r (ooo_insert_loop (mm_count m) l (ml_head l) mbuf m) (\<lambda>(r, l', m').
                Inr (r, buff\<lparr>rb_ooo_list := l'\<rparr>, m')))"

text \<open>
  \<^verbatim>\<open>try_merge_ooo\<close> adds to \<^verbatim>\<open>merged_q\<close> with \<^verbatim>\<open>cirq_add\<close>, not with
  \<^verbatim>\<open>mbufq_enqueue\<close>. In a direct queue the pointer \<^verbatim>\<open>queue\<close> shares its storage with
  slot 0, so on a queue that is not full the item is written through an mbuf's own address.
\<close>

definition cirq_add_on_direct :: "circular_queue \<Rightarrow> ptr \<Rightarrow> (int \<times> circular_queue) result" where
  "cirq_add_on_direct q item = (if cirq_full q then Inr (FAILED, q) else Inl Undefined)"

fun try_merge_ooo_loop ::
    "nat \<Rightarrow> nat \<Rightarrow> u32 \<Rightarrow> tcp_recv_buffer \<Rightarrow> mbufs \<Rightarrow> (u32 \<times> tcp_recv_buffer \<times> mbufs) result" where
  "try_merge_ooo_loop 0 stack_id ret buff m = Inl Diverges"
| "try_merge_ooo_loop (Suc fuel) stack_id ret buff m =
     (let l = rb_ooo_list buff
      in if ml_head l \<noteq> NULL \<and> TCP_SEQ_LEQ (seg_seq m (ml_head l)) (rb_merged_next buff)
         then let (mbuf, l1, m1) = mbuf_list_pop l m;
                  buff1 = buff\<lparr>rb_ooo_list := l1\<rparr>
              in if seg_seq m1 mbuf \<noteq> rb_merged_next buff1
                 then bind_r (mbuf_free stack_id mbuf m1) (try_merge_ooo_loop fuel stack_id ret buff1)
                 else bind_r (cirq_add_on_direct (rb_merged_q buff1) mbuf) (\<lambda>(r, q1).
                   if truthy r
                   then try_merge_ooo_loop fuel stack_id
                          (if mb_priority (mm_heap m1 mbuf) then ret else ret + 1)
                          (buff1\<lparr>rb_merged_q := q1, rb_merged_next := rb_merged_next buff1
                             + ucast (mb_payload_len (mm_heap m1 mbuf))\<rparr>) m1
                   else bind_r (mbuf_free stack_id mbuf m1) (\<lambda>m2.
                          Inr (ret, buff1\<lparr>rb_merged_q := q1\<rparr>, m2)))
         else Inr (ret, buff, m))"

definition try_merge_ooo ::
    "nat \<Rightarrow> tcp_recv_buffer \<Rightarrow> mbufs \<Rightarrow> (u32 \<times> tcp_recv_buffer \<times> mbufs) result" where
  "try_merge_ooo stack_id buff m = try_merge_ooo_loop (Suc (mm_count m)) stack_id 0 buff m"

section \<open>Operations\<close>

definition rb_init :: "u32 \<Rightarrow> tcp_recv_buffer \<Rightarrow> u32 \<Rightarrow> tcp_recv_buffer" where
  "rb_init rcvbuf_size buff init_seq =
     buff\<lparr>rb_init_seq := init_seq,
          rb_merged_q := snd (mbufq_init (rb_merged_q buff)),
          rb_size := 1400 * rcvbuf_size,
          rb_head_seq := init_seq,
          rb_merged_next := init_seq,
          rb_ooo_list := mbuf_list_init (rb_ooo_list buff),
          rb_high_q := snd (mbufq_init (rb_high_q buff))\<rparr>"

text \<open>\<^verbatim>\<open>rb_free\<close> is a \<^verbatim>\<open>TRACE_TODO\<close>, which ends the process.\<close>

definition rb_free :: "tcp_recv_buffer \<Rightarrow> tcp_recv_buffer result" where
  "rb_free buff = Inl Exit0"

definition rb_merged_len :: "tcp_recv_buffer \<Rightarrow> u32" where
  "rb_merged_len buff = rb_merged_next buff - rb_head_seq buff"

definition rb_update_seq :: "tcp_recv_buffer \<Rightarrow> u32 \<Rightarrow> tcp_recv_buffer" where
  "rb_update_seq buff init_seq =
     buff\<lparr>rb_init_seq := init_seq, rb_head_seq := init_seq, rb_merged_next := init_seq\<rparr>"

definition set_holding :: "bool \<Rightarrow> ptr \<Rightarrow> mbufs \<Rightarrow> mbufs" where
  "set_holding b p m = heap_upd p (mb_holding_update (\<lambda>_. b)) m"

definition set_mbuf_state :: "4 word \<Rightarrow> ptr \<Rightarrow> mbufs \<Rightarrow> mbufs" where
  "set_mbuf_state s p m = heap_upd p (mb_state_update (\<lambda>_. s)) m"

text \<open>The part of \<^verbatim>\<open>rb_put\<close> that offers a segment of high priority to \<^verbatim>\<open>high_q\<close>.\<close>

definition rb_put_high :: "tcp_recv_buffer \<Rightarrow> ptr \<Rightarrow> mbufs \<Rightarrow> tcp_recv_buffer \<times> mbufs" where
  "rb_put_high buff mbuf m =
     (let m1 = set_holding False mbuf m
      in if mb_priority (mm_heap m1 mbuf)
         then let (r, q) = mbufq_enqueue (rb_high_q buff) mbuf
              in if r = SUCCESS
                 then (buff\<lparr>rb_high_q := q\<rparr>,
                       set_mbuf_state MBUF_STATE_RBUFFED mbuf (set_holding True mbuf m1))
                 else (buff\<lparr>rb_high_q := q\<rparr>, m1)
         else (buff, m1))"

definition rb_put ::
    "nat \<Rightarrow> tcp_recv_buffer \<Rightarrow> ptr \<Rightarrow> mbufs \<Rightarrow> (int \<times> tcp_recv_buffer \<times> mbufs) result" where
  "rb_put stack_id buff mbuf m =
     (let buf_seq_next = seg_end m mbuf
      in if TCP_SEQ_GT buf_seq_next (rb_head_seq buff + rb_size buff)
         then Inr (FAILED, buff, m)
         else
           let (buff1, m1) = rb_put_high buff mbuf m;
               done = (\<lambda>ret buff2 m2.
                 Inr (ret, buff2,
                      if \<not> mb_priority (mm_heap m2 mbuf)
                      then set_mbuf_state MBUF_STATE_RBUFFED mbuf m2 else m2))
           in if seg_seq m1 mbuf = rb_merged_next buff1
              then let (r, q) = mbufq_enqueue (rb_merged_q buff1) mbuf;
                       buff2 = buff1\<lparr>rb_merged_q := q\<rparr>
                   in if truthy r
                      then bind_r (try_merge_ooo stack_id
                                     (buff2\<lparr>rb_merged_next := buf_seq_next\<rparr>) m1)
                             (\<lambda>(n, buff3, m3). done (sint (1 + n)) buff3 m3)
                      else Inr (FAILED, buff2, m1)
              else bind_r (ooo_insert buff1 mbuf m1) (\<lambda>(r, buff2, m2).
                     if SUCCESS \<noteq> r then Inr (FAILED, buff2, m2) else done 0 buff2 m2))"

text \<open>Each round of the two loops takes an item off a queue of at most seven.\<close>

fun try_get_high_mbuf ::
    "nat \<Rightarrow> nat \<Rightarrow> tcp_recv_buffer \<Rightarrow> mbufs \<Rightarrow> (ptr \<times> tcp_recv_buffer \<times> mbufs) result" where
  "try_get_high_mbuf 0 core_id buff m = Inl Diverges"
| "try_get_high_mbuf (Suc fuel) core_id buff m =
     (let (mbuf, q) = mbufq_dequeue (rb_high_q buff);
          buff1 = buff\<lparr>rb_high_q := q\<rparr>
      in if mbuf = NULL then Inr (NULL, buff1, m)
         else if mb_state (mm_heap m mbuf) = MBUF_STATE_RBUFFED
         then if seg_seq m mbuf = rb_head_seq buff1
              then let (h, mq) = mbufq_dequeue (rb_merged_q buff1);
                       buff2 = buff1\<lparr>rb_merged_q := mq\<rparr>
                   in if h \<noteq> NULL
                      then Inr (mbuf, buff2\<lparr>rb_head_seq := rb_head_seq buff2
                                  + ucast (mb_payload_len (mm_heap m mbuf))\<rparr>,
                                set_holding False mbuf m)
                      else Inr (mbuf, buff2, m)
              else Inr (mbuf, buff1, m)
         else bind_r (mbuf_free core_id mbuf m) (try_get_high_mbuf fuel core_id buff1))"

fun try_get_merged_mbuf ::
    "nat \<Rightarrow> nat \<Rightarrow> tcp_recv_buffer \<Rightarrow> mbufs \<Rightarrow> (ptr \<times> tcp_recv_buffer \<times> mbufs) result" where
  "try_get_merged_mbuf 0 core_id buff m = Inl Diverges"
| "try_get_merged_mbuf (Suc fuel) core_id buff m =
     (let (mbuf, q) = mbufq_dequeue (rb_merged_q buff);
          buff1 = buff\<lparr>rb_merged_q := q\<rparr>
      in if mbuf = NULL then Inr (NULL, buff1, m)
         else let buff2 = buff1\<lparr>rb_head_seq := rb_head_seq buff1
                            + ucast (mb_payload_len (mm_heap m mbuf))\<rparr>
              in if mb_state (mm_heap m mbuf) = MBUF_STATE_RBUFFED
                 then Inr (mbuf, buff2, m)
                 else bind_r (mbuf_free core_id mbuf m) (try_get_merged_mbuf fuel core_id buff2))"

definition rb_get :: "nat \<Rightarrow> tcp_recv_buffer \<Rightarrow> mbufs \<Rightarrow> (ptr \<times> tcp_recv_buffer \<times> mbufs) result" where
  "rb_get core_id buff m =
     bind_r (try_get_high_mbuf (unat (cq_size (rb_high_q buff))) core_id buff m)
       (\<lambda>(mbuf, buff1, m1).
         bind_r (if mbuf = NULL
                 then try_get_merged_mbuf (unat (cq_size (rb_merged_q buff1))) core_id buff1 m1
                 else Inr (mbuf, buff1, m1))
           (\<lambda>(mbuf, buff2, m2).
             if mbuf \<noteq> NULL \<and> mbuf_get_payload_ptr (mm_heap m2) mbuf = NULL
             then Inl Exit0 else Inr (mbuf, buff2, m2)))"

definition rb_clear :: "nat \<Rightarrow> tcp_recv_buffer \<Rightarrow> mbufs \<Rightarrow> (tcp_recv_buffer \<times> mbufs) result" where
  "rb_clear stack_id buff m =
     bind_r (mbufq_clear stack_id (rb_merged_q buff) m) (\<lambda>(mq, m1).
     bind_r (mbuf_list_free stack_id (rb_ooo_list buff) m1) (\<lambda>(ol, m2).
     bind_r (mbufq_clear stack_id (rb_high_q buff) m2) (\<lambda>(hq, m3).
       Inr (buff\<lparr>rb_merged_q := mq, rb_ooo_list := ol, rb_high_q := hq\<rparr>, m3))))"

section \<open>Invariant\<close>

text \<open>
  \<open>seg_chain m s xs e\<close>: the segments \<open>xs\<close> follow each other without a gap from
  sequence number \<open>s\<close> to \<open>e\<close>.
\<close>

fun seg_chain :: "mbufs \<Rightarrow> u32 \<Rightarrow> ptr list \<Rightarrow> u32 \<Rightarrow> bool" where
  "seg_chain m s [] e \<longleftrightarrow> s = e"
| "seg_chain m s (x # xs) e \<longleftrightarrow> seg_seq m x = s \<and> seg_chain m (seg_end m x) xs e"

definition ooo_ordered :: "mbufs \<Rightarrow> ptr list \<Rightarrow> bool" where
  "ooo_ordered m xs \<longleftrightarrow> successively (\<lambda>p q. TCP_SEQ_LEQ (seg_end m p) (seg_seq m q)) xs"

text \<open>
  \<open>rb_rel m b ms os hs\<close>: the buffer \<open>b\<close> holds the merged segments \<open>ms\<close>, the
  early segments \<open>os\<close> and the segments \<open>hs\<close> of high priority. The mbufs of the pools
  are the addresses from 1 to \<open>mm_count\<close>.
\<close>

definition rb_rel :: "mbufs \<Rightarrow> tcp_recv_buffer \<Rightarrow> ptr list \<Rightarrow> ptr list \<Rightarrow> ptr list \<Rightarrow> bool" where
  "rb_rel m b ms os hs \<longleftrightarrow>
     dir_cirq_wf (rb_merged_q b) \<and> cirq_list (rb_merged_q b) = ms \<and> NULL \<notin> set ms
     \<and> dir_cirq_wf (rb_high_q b) \<and> cirq_list (rb_high_q b) = hs \<and> NULL \<notin> set hs
     \<and> mlist (mm_heap m) (rb_ooo_list b) os \<and> (\<forall>p\<in>set os. p \<le> mm_count m)
     \<and> seg_chain m (rb_head_seq b) ms (rb_merged_next b) \<and> ooo_ordered m os"

text \<open>
  What the operations on the buffer leave of every mbuf: its place in the sequence space, its
  priority and its link.
\<close>

definition seg_kept :: "mbufs \<Rightarrow> mbufs \<Rightarrow> bool" where
  "seg_kept m m' \<longleftrightarrow> mm_count m' = mm_count m \<and>
     (\<forall>p. mb_tcp_seq (mm_heap m' p) = mb_tcp_seq (mm_heap m p)
        \<and> mb_payload_len (mm_heap m' p) = mb_payload_len (mm_heap m p)
        \<and> mb_priority (mm_heap m' p) = mb_priority (mm_heap m p)
        \<and> mb_tx_offload (mm_heap m' p) = mb_tx_offload (mm_heap m p))"

lemma seg_kept_refl [simp]: "seg_kept m m"
  by (simp add: seg_kept_def)

lemma seg_kept_trans [trans]: "seg_kept m1 m2 \<Longrightarrow> seg_kept m2 m3 \<Longrightarrow> seg_kept m1 m3"
  by (simp add: seg_kept_def)

lemma seg_kept_simps:
  assumes "seg_kept m m'"
  shows "seg_seq m' p = seg_seq m p" "seg_end m' p = seg_end m p"
    "seg_chain m' s xs e = seg_chain m s xs e" "ooo_ordered m' xs = ooo_ordered m xs"
    "mb_priority (mm_heap m' p) = mb_priority (mm_heap m p)" "mm_count m' = mm_count m"
proof -
  show seq: "seg_seq m' p = seg_seq m p" "seg_end m' p = seg_end m p" for p
    using assms by (simp_all add: seg_kept_def seg_seq_def seg_end_def)
  show "seg_chain m' s xs e = seg_chain m s xs e"
    by (induction xs arbitrary: s) (simp_all add: seq)
  show "ooo_ordered m' xs = ooo_ordered m xs" by (simp add: ooo_ordered_def seq)
qed (use assms in \<open>simp_all add: seg_kept_def\<close>)

lemma seg_kept_updates [simp]:
  "seg_kept m (set_next p q m)" "seg_kept m (set_holding b p m)" "seg_kept m (set_mbuf_state s p m)"
  by (simp_all add: seg_kept_def set_next_def set_holding_def set_mbuf_state_def heap_upd_def)

lemma seg_kept_free: "mbuf_free c p m = Inr m' \<Longrightarrow> seg_kept m m'"
  by (auto simp: mbuf_free_def io_free_mbuf_def heap_upd_def seg_kept_def split: if_splits)

lemma seg_chain_snoc: "seg_chain m s (xs @ [x]) e \<longleftrightarrow> seg_chain m s xs (seg_seq m x) \<and> seg_end m x = e"
  by (induction xs arbitrary: s) auto

text \<open>Updates of the state and the hold flag of an mbuf keep the links.\<close>

lemma mlist_next_cong:
  "(\<And>x. mb_buf_next (h' x) = mb_buf_next (h x)) \<Longrightarrow> mlist h' l xs = mlist h l xs"
  using mlist_heap_eq [of h l xs h'] mlist_heap_eq [of h' l xs h] by auto

lemma mlist_state_updates [simp]:
  "mlist (mm_heap (set_holding b p m)) l xs = mlist (mm_heap m) l xs"
  "mlist (mm_heap (set_mbuf_state s p m)) l xs = mlist (mm_heap m) l xs"
proof -
  show "mlist (mm_heap (set_holding b p m)) l xs = mlist (mm_heap m) l xs"
    by (rule mlist_next_cong) (simp add: set_holding_def heap_upd_def)
  show "mlist (mm_heap (set_mbuf_state s p m)) l xs = mlist (mm_heap m) l xs"
    by (rule mlist_next_cong) (simp add: set_mbuf_state_def heap_upd_def)
qed

lemma rb_rel_heap:
  assumes "rb_rel m b ms os hs" "seg_kept m m'" "mlist (mm_heap m') (rb_ooo_list b) os"
  shows "rb_rel m' b ms os hs"
  using assms by (simp add: rb_rel_def seg_kept_simps)

lemma rb_rel_state_updates [simp]:
  "rb_rel (set_holding f p m) b ms os hs = rb_rel m b ms os hs"
  "rb_rel (set_mbuf_state s p m) b ms os hs = rb_rel m b ms os hs"
  by (simp_all add: rb_rel_def seg_kept_simps [OF seg_kept_updates(2)]
      seg_kept_simps [OF seg_kept_updates(3)])

section \<open>Early segments\<close>

lemma ret_u8_codes [simp]: "ret_u8 SUCCESS = SUCCESS" "ret_u8 FAILED = 254" "SUCCESS \<noteq> 254"
  by (simp_all add: ret_u8_def ret_codes)

lemma ooo_ordered_insert:
  "ooo_ordered m (ys @ p # zs) \<Longrightarrow> TCP_SEQ_LEQ (seg_end m p) (seg_seq m x) \<Longrightarrow>
   (zs \<noteq> [] \<Longrightarrow> TCP_SEQ_LEQ (seg_end m x) (seg_seq m (hd zs))) \<Longrightarrow> ooo_ordered m (ys @ p # x # zs)"
  by (cases zs) (auto simp: ooo_ordered_def successively_append_iff)

lemma mbuf_list_insert_kept: "seg_kept m (snd (mbuf_list_insert l p x m))"
  unfolding mbuf_list_insert_def Let_def snd_conv
  by (rule seg_kept_trans) (rule seg_kept_updates)+

lemma mbuf_list_append_kept: "seg_kept m (snd (mbuf_list_append l x m))"
  by (auto simp: mbuf_list_append_def intro: seg_kept_trans seg_kept_updates)

lemma mlist_suffix_next:
  assumes "mlist h l (ys @ p # zs)"
  shows "mb_buf_next (h p) = (if zs = [] then NULL else hd zs)"
proof -
  have "chain h (ml_head l) (ys @ p # zs)" using assms by (simp add: mlist_def)
  from chain_suffix [OF this] show ?thesis by (cases zs) auto
qed

lemma ooo_insert_loop_spec:
  assumes "mlist (mm_heap m) l (ys @ p # zs)" "ooo_ordered m (ys @ p # zs)"
    "x \<noteq> NULL" "x \<notin> set (ys @ p # zs)" "length zs < fuel"
  shows "ooo_insert_loop fuel l p x m = Inr (254, l, m) \<or>
    (\<exists>l' m' as bs. ooo_insert_loop fuel l p x m = Inr (SUCCESS, l', m') \<and> seg_kept m m'
       \<and> ys @ p # zs = as @ bs \<and> mlist (mm_heap m') l' (as @ x # bs) \<and> ooo_ordered m' (as @ x # bs))"
  using assms
proof (induction zs arbitrary: ys p fuel)
  case Nil
  then show ?case by (cases fuel) (simp_all add: mlist_suffix_next)
next
  case (Cons z zs)
  then obtain f where f: "fuel = Suc f" by (cases fuel) auto
  have nx: "mb_buf_next (mm_heap m p) = z" using mlist_suffix_next [OF Cons.prems(1)] by simp
  have z: "z \<noteq> NULL" using mlist_not_null [OF Cons.prems(1)] by auto
  show ?case
  proof (cases "TCP_SEQ_LEQ (seg_end m p) (seg_seq m x) \<and> TCP_SEQ_LEQ (seg_end m x) (seg_seq m z)")
    case True
    obtain l' m' where ins: "mbuf_list_insert l p x m = (l', m')" by (cases "mbuf_list_insert l p x m")
    have kept: "seg_kept m m'" using mbuf_list_insert_kept [of m l p x] ins by simp
    have "mlist (mm_heap m') l' (ys @ p # x # z # zs)"
      using mbuf_list_insert_mlist [of m l ys p "z # zs" x] Cons.prems ins by simp
    moreover have "ooo_ordered m' (ys @ p # x # z # zs)"
      using ooo_ordered_insert [OF Cons.prems(2)] True by (simp add: seg_kept_simps [OF kept])
    ultimately show ?thesis
      using f nx z True ins kept
      by (intro disjI2 exI [of _ l'] exI [of _ m'] exI [of _ "ys @ [p]"] exI [of _ "z # zs"]) simp
  next
    case False
    then have "ooo_insert_loop fuel l p x m = ooo_insert_loop f l z x m"
      using f nx z by (simp only: ooo_insert_loop.simps Let_def if_False)
    then show ?thesis using Cons.IH [of "ys @ [p]" z f] Cons.prems f by simp
  qed
qed

lemma rb_rel_ooo_bound:
  assumes "rb_rel m b ms os hs"
  shows "length os \<le> mm_count m"
proof -
  have "distinct os" "set os \<subseteq> {1..mm_count m}"
    using assms mlist_distinct mlist_not_null by (auto simp: rb_rel_def Suc_le_eq) (metis neq0_conv)
  then show ?thesis using card_mono [of "{1..mm_count m}" "set os"] by (simp add: distinct_card)
qed

text \<open>
  Inserting an early segment either puts it at a place where the list stays ordered, or refuses
  it and changes nothing; only a segment before the whole list leads to undefined behaviour.
\<close>

lemma ooo_insert_spec:
  assumes rel: "rb_rel m b ms os hs" and x: "x \<noteq> NULL" "x \<notin> set os" "x \<le> mm_count m"
    and nx: "mb_buf_next (mm_heap m x) = NULL"
  shows "case ooo_insert b x m of
      Inl e \<Rightarrow> e = Undefined \<and> os \<noteq> [] \<and> TCP_SEQ_LEQ (seg_end m x) (seg_seq m (hd os))
    | Inr (r, b', m') \<Rightarrow> seg_kept m m' \<and> (if r = SUCCESS
        then \<exists>as bs. os = as @ bs \<and> rb_rel m' b' ms (as @ x # bs) hs
        else r = 254 \<and> b' = b \<and> m' = m)"
proof -
  let ?l = "rb_ooo_list b"
  have l: "mlist (mm_heap m) ?l os" and ord: "ooo_ordered m os" using rel by (auto simp: rb_rel_def)
  show ?thesis
  proof (cases os)
    case Nil
    then show ?thesis
      using l nx x rel by (auto simp: ooo_insert_def Let_def mlist_def rb_rel_def ooo_ordered_def
          intro!: exI [of _ "[]"])
  next
    case (Cons y ys)
    have hd: "ml_head ?l = y" "y \<noteq> NULL" and tl: "ml_tail ?l = last os"
      using l Cons by (auto simp: mlist_def)
    have fuel: "length ys < mm_count m" using rb_rel_ooo_bound [OF rel] Cons by simp
    consider (tail) "TCP_SEQ_LEQ (seg_end m (last os)) (seg_seq m x)"
      | (front) "\<not> TCP_SEQ_LEQ (seg_end m (last os)) (seg_seq m x)"
          "TCP_SEQ_LEQ (seg_end m x) (seg_seq m y)"
      | (mid) "\<not> TCP_SEQ_LEQ (seg_end m (last os)) (seg_seq m x)"
          "\<not> TCP_SEQ_LEQ (seg_end m x) (seg_seq m y)" by blast
    then show ?thesis
    proof cases
      case tail
      obtain l' m' where ap: "mbuf_list_append ?l x m = (l', m')"
        by (cases "mbuf_list_append ?l x m")
      have kept: "seg_kept m m'" using mbuf_list_append_kept [of m ?l x] ap by simp
      have "mlist (mm_heap m') l' (os @ [x])"
        using mbuf_list_append_mlist [OF l x(2,1)] ap by simp
      moreover have "ooo_ordered m (os @ [x])"
        using tail ord by (simp add: ooo_ordered_def successively_append_iff)
      ultimately have "rb_rel m' (b\<lparr>rb_ooo_list := l'\<rparr>) ms (os @ x # []) hs"
        using rel x by (auto simp: rb_rel_def seg_kept_simps [OF kept])
      then show ?thesis using tail hd tl ap kept by (auto simp: ooo_insert_def Let_def)
    next
      case front
      then show ?thesis using hd tl Cons by (simp add: ooo_insert_def Let_def)
    next
      case mid
      have eq: "ooo_insert b x m = bind_r (ooo_insert_loop (mm_count m) ?l y x m) (\<lambda>(r, l', m').
          Inr (r, b\<lparr>rb_ooo_list := l'\<rparr>, m'))"
        using mid hd tl by (simp add: ooo_insert_def Let_def)
      have "b\<lparr>rb_ooo_list := ?l\<rparr> = b" by simp
      moreover have "rb_rel m' (b\<lparr>rb_ooo_list := l'\<rparr>) ms (as @ x # bs) hs"
        if "seg_kept m m'" "os = as @ bs" "mlist (mm_heap m') l' (as @ x # bs)"
          "ooo_ordered m' (as @ x # bs)" for l' m' as bs
        using that rel x by (auto simp: rb_rel_def seg_kept_simps [OF that(1)])
      ultimately show ?thesis
        using ooo_insert_loop_spec [of m ?l "[]" y ys x "mm_count m"] l ord x Cons fuel
        unfolding eq by (auto simp del: append_Cons) blast
    qed
  qed
qed

section \<open>Putting segments in\<close>

lemma rb_put_high_spec:
  assumes rel: "rb_rel m b ms os hs" and x: "x \<noteq> NULL" and r: "rb_put_high b x m = (b1, m1)"
  shows "seg_kept m m1 \<and> mm_released m1 = mm_released m
    \<and> (\<forall>p. mb_buf_next (mm_heap m1 p) = mb_buf_next (mm_heap m p))
    \<and> (\<forall>p. p \<noteq> x \<longrightarrow> mm_heap m1 p = mm_heap m p)
    \<and> rb_head_seq b1 = rb_head_seq b \<and> rb_merged_next b1 = rb_merged_next b \<and> rb_size b1 = rb_size b
    \<and> rb_merged_q b1 = rb_merged_q b \<and> rb_ooo_list b1 = rb_ooo_list b
    \<and> (if mb_priority (mm_heap m x) \<and> length hs < 7
       then rb_rel m1 b1 ms os (hs @ [x]) \<and> mb_state (mm_heap m1 x) = MBUF_STATE_RBUFFED
       else rb_rel m1 b1 ms os hs \<and> mb_state (mm_heap m1 x) = mb_state (mm_heap m x))"
proof -
  have wf: "dir_cirq_wf (rb_high_q b)" "cirq_list (rb_high_q b) = hs" using rel by (auto simp: rb_rel_def)
  have p: "mb_priority (mm_heap (set_holding False x m) x) = mb_priority (mm_heap m x)"
    by (simp add: set_holding_def heap_upd_def)
  note upd = set_holding_def set_mbuf_state_def heap_upd_def
  have k: "seg_kept m (set_mbuf_state MBUF_STATE_RBUFFED x (set_holding True x (set_holding False x m)))"
    by (simp add: seg_kept_def upd)
  consider (low) "\<not> mb_priority (mm_heap m x)"
    | (full) "mb_priority (mm_heap m x)" "length hs = 7"
    | (room) "mb_priority (mm_heap m x)" "length hs < 7"
    using dir_list_bound [OF wf(1)] wf(2) by fastforce
  then show ?thesis
  proof cases
    case low
    then show ?thesis using r rel by (auto simp: rb_put_high_def Let_def p) (auto simp: upd)
  next
    case full
    then have "mbufq_enqueue (rb_high_q b) x = (FAILED, rb_high_q b)"
      using mbufq_enqueue_full [of "rb_high_q b" x] wf by simp
    then show ?thesis
      using full r rel by (auto simp: rb_put_high_def Let_def p) (auto simp: upd)
  next
    case room
    then obtain q where q: "mbufq_enqueue (rb_high_q b) x = (SUCCESS, q)" "cirq_list q = hs @ [x]"
        "dir_cirq_wf q"
      using mbufq_enqueue_room [of "rb_high_q b" x] wf by auto
    have b1: "b1 = b\<lparr>rb_high_q := q\<rparr>"
      and m1: "m1 = set_mbuf_state MBUF_STATE_RBUFFED x (set_holding True x (set_holding False x m))"
      using room r q by (simp_all add: rb_put_high_def Let_def p)
    have "rb_rel m1 b1 ms os (hs @ [x])"
      unfolding m1 b1 rb_rel_state_updates using rel q x by (simp add: rb_rel_def)
    then show ?thesis using room k b1 m1 by (auto simp: upd)
  qed
qed

text \<open>With nothing to merge the walk over the early segments stops at once.\<close>

lemma try_merge_ooo_none:
  assumes "mlist (mm_heap m) (rb_ooo_list b) os"
    "os = [] \<or> TCP_SEQ_GT (seg_seq m (hd os)) (rb_merged_next b)"
  shows "try_merge_ooo c b m = Inr (0, b, m)"
proof -
  have "os \<noteq> [] \<Longrightarrow> ml_head (rb_ooo_list b) = hd os" using assms(1) by (cases os) (auto simp: mlist_def)
  then show ?thesis
    using assms mlist_empty_iff [OF assms(1)] by (auto simp: try_merge_ooo_def seq_not [symmetric])
qed

text \<open>What the put leaves untouched besides the segment itself.\<close>

definition rb_frame :: "ptr \<Rightarrow> mbufs \<Rightarrow> tcp_recv_buffer \<Rightarrow> mbufs \<Rightarrow> tcp_recv_buffer \<Rightarrow> bool" where
  "rb_frame x m b m' b' \<longleftrightarrow> seg_kept m m' \<and> mm_released m' = mm_released m
     \<and> (\<forall>p. p \<noteq> x \<longrightarrow> mm_heap m' p = mm_heap m p)
     \<and> rb_head_seq b' = rb_head_seq b \<and> rb_size b' = rb_size b"

definition high_after :: "mbufs \<Rightarrow> ptr \<Rightarrow> ptr list \<Rightarrow> ptr list" where
  "high_after m x hs = (if mb_priority (mm_heap m x) \<and> length hs < 7 then hs @ [x] else hs)"

definition state_after :: "mbufs \<Rightarrow> ptr \<Rightarrow> ptr list \<Rightarrow> 4 word" where
  "state_after m x hs =
     (if mb_priority (mm_heap m x) \<and> 7 \<le> length hs then mb_state (mm_heap m x)
      else MBUF_STATE_RBUFFED)"

lemma rb_put_next:
  assumes rel: "rb_rel m b ms os hs" and x: "x \<noteq> NULL"
    and seq: "seg_seq m x = rb_merged_next b"
    and win: "\<not> TCP_SEQ_GT (seg_end m x) (rb_head_seq b + rb_size b)"
    and ooo: "os = [] \<or> TCP_SEQ_GT (seg_seq m (hd os)) (seg_end m x)"
  shows "\<exists>b' m'. rb_put c b x m = Inr (1, b', m') \<and> rb_frame x m b m' b'
    \<and> rb_merged_next b' = seg_end m x
    \<and> rb_merged_q b' = snd (mbufq_enqueue (rb_merged_q b) x)
    \<and> cirq_list (rb_high_q b') = high_after m x hs \<and> mb_state (mm_heap m' x) = state_after m x hs
    \<and> (length ms < 7 \<longrightarrow> rb_rel m' b' (ms @ [x]) os (high_after m x hs))"
proof -
  obtain b1 m1 where h: "rb_put_high b x m = (b1, m1)" by (cases "rb_put_high b x m")
  note hi = rb_put_high_spec [OF rel x h]
  obtain r q where q: "mbufq_enqueue (rb_merged_q b) x = (r, q)" by (cases "mbufq_enqueue (rb_merged_q b) x")
  have r: "truthy r" using q by (auto simp: mbufq_enqueue_def dir_cirq_add_def split: if_splits)
  have kept: "seg_kept m m1" using hi by blast
  have rel1: "rb_rel m1 b1 ms os (high_after m x hs)" using hi by (auto simp: high_after_def split: if_splits)
  let ?b2 = "b1\<lparr>rb_merged_q := q, rb_merged_next := seg_end m x\<rparr>"
  let ?m2 = "if \<not> mb_priority (mm_heap m1 x) then set_mbuf_state MBUF_STATE_RBUFFED x m1 else m1"
  have none: "try_merge_ooo c ?b2 m1 = Inr (0, ?b2, m1)"
    using rel1 ooo by (intro try_merge_ooo_none [where os = os])
      (auto simp: rb_rel_def seg_kept_simps [OF kept])
  have put: "rb_put c b x m = Inr (1, ?b2, ?m2)"
    using win seq h q r none hi by (auto simp: rb_put_def Let_def seg_kept_simps [OF kept])
  have st: "mb_state (mm_heap ?m2 x) = state_after m x hs"
    using hi by (auto simp: state_after_def set_mbuf_state_def heap_upd_def seg_kept_simps [OF kept]
        split: if_splits)
  have fr: "rb_frame x m b ?m2 ?b2"
    using hi seg_kept_trans [OF kept seg_kept_updates(3)]
    by (auto simp: rb_frame_def) (auto simp: set_mbuf_state_def heap_upd_def)
  have "rb_rel ?m2 ?b2 (ms @ [x]) os (high_after m x hs)" if "length ms < 7"
  proof -
    have "dir_cirq_wf (rb_merged_q b)" "cirq_list (rb_merged_q b) = ms"
      using rel by (simp_all add: rb_rel_def)
    then have "dir_cirq_wf q" "cirq_list q = ms @ [x]"
      using mbufq_enqueue_room [of "rb_merged_q b" x] that q by auto
    then have "rb_rel m1 ?b2 (ms @ [x]) os (high_after m x hs)"
      using rel1 x seq hi by (simp add: rb_rel_def seg_chain_snoc seg_kept_simps [OF kept])
    then show ?thesis by simp
  qed
  then show ?thesis using put fr st q rel1 by (auto simp: rb_rel_def)
qed

section \<open>Taking segments out\<close>

definition unread :: "mbufs \<Rightarrow> ptr \<Rightarrow> bool" where
  "unread m p \<longleftrightarrow> mb_state (mm_heap m p) = MBUF_STATE_RBUFFED"

definition first_of :: "ptr list \<Rightarrow> ptr" where
  "first_of xs = (if xs = [] then NULL else hd xs)"

lemma rb_rel_free:
  assumes "rb_rel m b ms os hs" "mbuf_free c p m = Inr m'"
  shows "rb_rel m' b ms os hs"
proof (rule rb_rel_heap [OF assms(1) seg_kept_free [OF assms(2)]])
  have "mlist (mm_heap m') (rb_ooo_list b) os = mlist (mm_heap m) (rb_ooo_list b) os"
    by (rule mlist_next_cong)
      (use assms(2) in \<open>auto simp: mbuf_free_def io_free_mbuf_def heap_upd_def split: if_splits\<close>)
  then show "mlist (mm_heap m') (rb_ooo_list b) os" using assms(1) by (simp add: rb_rel_def)
qed

lemma rb_rel_merged_item:
  assumes "rb_rel m b (x # ms) os hs"
  obtains q where "mbufq_dequeue (rb_merged_q b) = (x, q)" "x \<noteq> NULL" "seg_seq m x = rb_head_seq b"
    "rb_rel m (b\<lparr>rb_merged_q := q, rb_head_seq := seg_end m x\<rparr>) ms os hs"
proof -
  have wf: "dir_cirq_wf (rb_merged_q b)" "cirq_list (rb_merged_q b) = x # ms"
    using assms by (simp_all add: rb_rel_def)
  obtain q where "mbufq_dequeue (rb_merged_q b) = (x, q)" "cirq_list q = ms" "dir_cirq_wf q"
    using mbufq_dequeue_item [OF wf] by blast
  then show ?thesis using that assms by (simp add: rb_rel_def)
qed

lemma rb_rel_high_item:
  assumes "rb_rel m b ms os (x # hs)"
  obtains q where "mbufq_dequeue (rb_high_q b) = (x, q)" "x \<noteq> NULL"
    "rb_rel m (b\<lparr>rb_high_q := q\<rparr>) ms os hs"
proof -
  have wf: "dir_cirq_wf (rb_high_q b)" "cirq_list (rb_high_q b) = x # hs"
    using assms by (simp_all add: rb_rel_def)
  obtain q where "mbufq_dequeue (rb_high_q b) = (x, q)" "cirq_list q = hs" "dir_cirq_wf q"
    using mbufq_dequeue_item [OF wf] by blast
  then show ?thesis using that assms by (simp add: rb_rel_def)
qed

lemma rb_rel_empty_queues:
  "rb_rel m b [] os hs \<Longrightarrow> mbufq_dequeue (rb_merged_q b) = (NULL, rb_merged_q b)"
  "rb_rel m b ms os [] \<Longrightarrow> mbufq_dequeue (rb_high_q b) = (NULL, rb_high_q b)"
  by (simp_all add: rb_rel_def mbufq_dequeue_empty)

text \<open>
  The merged queue hands out its first unread segment and releases the read ones before it.
\<close>

lemma try_get_merged_spec:
  "rb_rel m b ms os hs \<Longrightarrow> distinct ms \<Longrightarrow> length ms < fuel \<Longrightarrow>
   \<exists>b' m'. try_get_merged_mbuf fuel c b m = Inr (first_of (dropWhile (\<lambda>p. \<not> unread m p) ms), b', m')
     \<and> rb_rel m' b' (tl (dropWhile (\<lambda>p. \<not> unread m p) ms)) os hs \<and> seg_kept m m'
     \<and> mm_released m' = mm_released m @ map (Pair c) (takeWhile (\<lambda>p. \<not> unread m p) ms)
     \<and> (\<forall>p. p \<notin> set (takeWhile (\<lambda>p. \<not> unread m p) ms) \<longrightarrow> mm_heap m' p = mm_heap m p)"
proof (induction ms arbitrary: b m fuel)
  case Nil
  then show ?case
    using rb_rel_empty_queues(1) [OF Nil.prems(1)] by (cases fuel) (auto simp: first_of_def)
next
  case (Cons x ms)
  then obtain f where f: "fuel = Suc f" by (cases fuel) auto
  obtain q where q: "mbufq_dequeue (rb_merged_q b) = (x, q)" "x \<noteq> NULL" "seg_seq m x = rb_head_seq b"
    "rb_rel m (b\<lparr>rb_merged_q := q, rb_head_seq := seg_end m x\<rparr>) ms os hs" (is "rb_rel m ?b ms os hs")
    using rb_rel_merged_item [OF Cons.prems(1)] by blast
  have hs: "rb_head_seq b + ucast (mb_payload_len (mm_heap m x)) = seg_end m x"
    using q(3) by (simp add: seg_end_def seg_seq_def)
  show ?case
  proof (cases "unread m x")
    case True
    then show ?thesis using f q hs by (auto simp: unread_def first_of_def Let_def)
  next
    case False
    obtain m1 where m1: "mbuf_free c x m = Inr m1" "mm_released m1 = mm_released m @ [(c, x)]"
        "\<forall>p. p \<noteq> x \<longrightarrow> mm_heap m1 p = mm_heap m p"
      using mbuf_free_mem [OF q(2), of c m] by auto
    have eq: "try_get_merged_mbuf fuel c b m = try_get_merged_mbuf f c ?b m1"
      using f q hs m1(1) False by (simp add: unread_def Let_def)
    have un: "p \<in> set ms \<Longrightarrow> unread m1 p = unread m p" for p
      using m1(3) Cons.prems(2) by (metis distinct.simps(2) unread_def)
    then have dw: "dropWhile (\<lambda>p. \<not> unread m1 p) ms = dropWhile (\<lambda>p. \<not> unread m p) ms"
      "takeWhile (\<lambda>p. \<not> unread m1 p) ms = takeWhile (\<lambda>p. \<not> unread m p) ms"
      by (auto intro: dropWhile_cong takeWhile_cong)
    have "rb_rel m1 ?b ms os hs" using rb_rel_free [OF q(4) m1(1)] .
    then obtain b' m' where
      "try_get_merged_mbuf f c ?b m1 = Inr (first_of (dropWhile (\<lambda>p. \<not> unread m p) ms), b', m')"
      "rb_rel m' b' (tl (dropWhile (\<lambda>p. \<not> unread m p) ms)) os hs" "seg_kept m1 m'"
      "mm_released m' = mm_released m1 @ map (Pair c) (takeWhile (\<lambda>p. \<not> unread m p) ms)"
      "\<forall>p. p \<notin> set (takeWhile (\<lambda>p. \<not> unread m p) ms) \<longrightarrow> mm_heap m' p = mm_heap m1 p"
      using Cons.IH [of m1 ?b f] Cons.prems f unfolding dw by auto
    then show ?thesis
      using eq False m1 seg_kept_trans [OF seg_kept_free [OF m1(1)]] by auto
  qed
qed

definition has_payload :: "mbufs \<Rightarrow> ptr \<Rightarrow> bool" where
  "has_payload m p \<longleftrightarrow> l4_len (mb_tx_offload (mm_heap m p)) \<noteq> 0"

lemma has_payload_kept: "seg_kept m m' \<Longrightarrow> has_payload m' p = has_payload m p"
  by (simp add: has_payload_def seg_kept_def)

lemma payload_ptr_not_null:
  "p \<noteq> NULL \<Longrightarrow> has_payload m p \<Longrightarrow> mbuf_get_payload_ptr (mm_heap m) p \<noteq> NULL"
  by (simp add: mbuf_get_payload_ptr_def has_payload_def header_lens)

lemma first_of_mem: "first_of xs \<noteq> NULL \<Longrightarrow> first_of xs \<in> set xs"
  by (cases xs) (simp_all add: first_of_def)

lemma try_get_empty:
  "fuel \<noteq> 0 \<Longrightarrow> rb_rel m b ms os [] \<Longrightarrow> try_get_high_mbuf fuel c b m = Inr (NULL, b, m)"
  "fuel \<noteq> 0 \<Longrightarrow> rb_rel m b [] os hs \<Longrightarrow> try_get_merged_mbuf fuel c b m = Inr (NULL, b, m)"
  using rb_rel_empty_queues [of m b] by (cases fuel; force)+

lemma rb_rel_fuel:
  "rb_rel m b ms os hs \<Longrightarrow> unat (cq_size (rb_high_q b)) = 8 \<and> unat (cq_size (rb_merged_q b)) = 8"
  by (simp add: rb_rel_def dir_cirq_wf_def STATIC_BUFF_SIZE_def)

lemma rb_get_empty: "rb_rel m b [] os [] \<Longrightarrow> rb_get c b m = Inr (NULL, b, m)"
  using try_get_empty [of 8 m b] rb_rel_fuel [of m b] by (simp add: rb_get_def)

lemma rb_get_low:
  assumes rel: "rb_rel m b ms os []" and d: "distinct ms" and pl: "\<forall>p\<in>set ms. has_payload m p"
  shows "\<exists>b' m'. rb_get c b m = Inr (first_of (dropWhile (\<lambda>p. \<not> unread m p) ms), b', m')
     \<and> rb_rel m' b' (tl (dropWhile (\<lambda>p. \<not> unread m p) ms)) os [] \<and> seg_kept m m'
     \<and> mm_released m' = mm_released m @ map (Pair c) (takeWhile (\<lambda>p. \<not> unread m p) ms)
     \<and> (\<forall>p. p \<notin> set (takeWhile (\<lambda>p. \<not> unread m p) ms) \<longrightarrow> mm_heap m' p = mm_heap m p)"
proof -
  let ?x = "first_of (dropWhile (\<lambda>p. \<not> unread m p) ms)"
  note sz = rb_rel_fuel [OF rel]
  have hi: "try_get_high_mbuf 8 c b m = Inr (NULL, b, m)" using try_get_empty(1) [OF _ rel] by simp
  have "length ms < 8" using rel dir_list_bound [of "rb_merged_q b"] by (auto simp: rb_rel_def)
  then obtain b' m' where g: "try_get_merged_mbuf 8 c b m = Inr (?x, b', m')"
      "rb_rel m' b' (tl (dropWhile (\<lambda>p. \<not> unread m p) ms)) os []" "seg_kept m m'"
      "mm_released m' = mm_released m @ map (Pair c) (takeWhile (\<lambda>p. \<not> unread m p) ms)"
      "\<forall>p. p \<notin> set (takeWhile (\<lambda>p. \<not> unread m p) ms) \<longrightarrow> mm_heap m' p = mm_heap m p"
    using try_get_merged_spec [OF rel d, of 8 c] by blast
  have "?x \<noteq> NULL \<Longrightarrow> has_payload m' ?x"
    using first_of_mem [of "dropWhile (\<lambda>p. \<not> unread m p) ms"] pl has_payload_kept [OF g(3)]
    by (metis set_dropWhileD)
  then have "?x = NULL \<or> mbuf_get_payload_ptr (mm_heap m') ?x \<noteq> NULL"
    using payload_ptr_not_null by blast
  then have "rb_get c b m = Inr (?x, b', m')"
    using hi g(1) by (auto simp: rb_get_def sz)
  then show ?thesis using g by blast
qed

section \<open>A whole stream of segments\<close>

fun rb_put_all :: "nat \<Rightarrow> tcp_recv_buffer \<Rightarrow> ptr list \<Rightarrow> mbufs \<Rightarrow>
    (int list \<times> tcp_recv_buffer \<times> mbufs) result" where
  "rb_put_all c b [] m = Inr ([], b, m)"
| "rb_put_all c b (x # xs) m = bind_r (rb_put c b x m) (\<lambda>(r, b1, m1).
     bind_r (rb_put_all c b1 xs m1) (\<lambda>(rs, b2, m2). Inr (r # rs, b2, m2)))"

fun rb_get_n :: "nat \<Rightarrow> nat \<Rightarrow> tcp_recv_buffer \<Rightarrow> mbufs \<Rightarrow>
    (ptr list \<times> tcp_recv_buffer \<times> mbufs) result" where
  "rb_get_n 0 c b m = Inr ([], b, m)"
| "rb_get_n (Suc n) c b m = bind_r (rb_get c b m) (\<lambda>(x, b1, m1).
     bind_r (rb_get_n n c b1 m1) (\<lambda>(xs, b2, m2). Inr (x # xs, b2, m2)))"

text \<open>A segment that may be put: low priority, with a payload, inside the window.\<close>

definition seg_ok :: "mbufs \<Rightarrow> tcp_recv_buffer \<Rightarrow> ptr \<Rightarrow> bool" where
  "seg_ok m b x \<longleftrightarrow> x \<noteq> NULL \<and> \<not> mb_priority (mm_heap m x) \<and> has_payload m x
     \<and> \<not> TCP_SEQ_GT (seg_end m x) (rb_head_seq b + rb_size b)"

lemma rb_put_all_spec:
  "rb_rel m b ms [] [] \<Longrightarrow> seg_chain m (rb_merged_next b) xs e \<Longrightarrow> distinct (ms @ xs) \<Longrightarrow>
   length ms + length xs \<le> 7 \<Longrightarrow> \<forall>x\<in>set xs. seg_ok m b x \<Longrightarrow> \<forall>x\<in>set ms. unread m x \<Longrightarrow>
   \<exists>b' m'. rb_put_all c b xs m = Inr (replicate (length xs) 1, b', m')
     \<and> rb_rel m' b' (ms @ xs) [] [] \<and> seg_kept m m' \<and> mm_released m' = mm_released m
     \<and> rb_merged_next b' = e \<and> (\<forall>x\<in>set (ms @ xs). unread m' x)"
proof (induction xs arbitrary: b m ms)
  case Nil
  then show ?case by simp
next
  case (Cons x xs)
  have x: "x \<noteq> NULL" "seg_seq m x = rb_merged_next b" "\<not> mb_priority (mm_heap m x)"
    "\<not> TCP_SEQ_GT (seg_end m x) (rb_head_seq b + rb_size b)"
    using Cons.prems(2,5) by (auto simp: seg_ok_def)
  obtain b1 m1 where b1: "rb_put c b x m = Inr (1, b1, m1)" "rb_frame x m b m1 b1"
      "rb_merged_next b1 = seg_end m x" "mb_state (mm_heap m1 x) = MBUF_STATE_RBUFFED"
      "rb_rel m1 b1 (ms @ [x]) [] []"
    using rb_put_next [OF Cons.prems(1) x(1,2,4), of c] Cons.prems(4) x(3)
    by (auto simp: high_after_def state_after_def)
  have kept: "seg_kept m m1" using b1(2) by (simp add: rb_frame_def)
  have "\<forall>y\<in>set xs. seg_ok m1 b1 y"
    using Cons.prems(5) b1(2) by (auto simp: seg_ok_def rb_frame_def seg_kept_simps [OF kept]
        has_payload_kept [OF kept])
  moreover have "\<forall>y\<in>set (ms @ [x]). unread m1 y"
    using Cons.prems(3,6) b1(2,4) by (auto simp: unread_def rb_frame_def)
  ultimately obtain b' m' where b': "rb_put_all c b1 xs m1 = Inr (replicate (length xs) 1, b', m')"
      "rb_rel m' b' (ms @ x # xs) [] []" "seg_kept m1 m'" "mm_released m' = mm_released m1"
      "rb_merged_next b' = e" "\<forall>y\<in>set (ms @ x # xs). unread m' y"
    using Cons.IH [OF b1(5)] Cons.prems(2-4) b1(3) by (auto simp: seg_kept_simps [OF kept])
  then show ?case
    using b1(1,2) seg_kept_trans [OF kept b'(3)] by (auto simp: rb_frame_def)
qed

lemma rb_get_n_spec:
  "rb_rel m b ms [] [] \<Longrightarrow> distinct ms \<Longrightarrow> \<forall>x\<in>set ms. unread m x \<and> has_payload m x \<Longrightarrow>
   \<exists>b'. rb_get_n (length ms) c b m = Inr (ms, b', m) \<and> rb_rel m b' [] [] []"
proof (induction ms arbitrary: b)
  case Nil
  then show ?case by simp
next
  case (Cons x ms)
  obtain b1 m1 where b1: "rb_get c b m = Inr (x, b1, m1)" "rb_rel m1 b1 ms [] []" "seg_kept m m1"
      "mm_released m1 = mm_released m" "\<forall>p. mm_heap m1 p = mm_heap m p"
    using rb_get_low [OF Cons.prems(1,2), of c] Cons.prems(3) by (auto simp: first_of_def)
  have "m1 = m"
    using b1(3-5) by (intro mbufs.equality) (auto simp: seg_kept_def)
  then show ?case using Cons.IH [of b1] Cons.prems b1(1,2) by auto
qed

text \<open>
  Reading until nothing is left delivers the unread segments in order and releases the others,
  each once.
\<close>

lemma rb_drain:
  "rb_rel m b ms os [] \<Longrightarrow> distinct ms \<Longrightarrow> \<forall>x\<in>set ms. has_payload m x \<Longrightarrow>
   \<exists>b1 m1 b2 m2. rb_get_n (length (filter (unread m) ms)) c b m = Inr (filter (unread m) ms, b1, m1)
     \<and> rb_get c b1 m1 = Inr (NULL, b2, m2) \<and> rb_rel m2 b2 [] os []
     \<and> mm_released m2 = mm_released m @ map (Pair c) (filter (\<lambda>p. \<not> unread m p) ms)"
proof (induction "length (filter (unread m) ms)" arbitrary: m b ms)
  case 0
  then have none: "filter (unread m) ms = []" by simp
  then have w: "takeWhile (\<lambda>p. \<not> unread m p) ms = ms" "dropWhile (\<lambda>p. \<not> unread m p) ms = []"
      "filter (\<lambda>p. \<not> unread m p) ms = ms"
    by (simp_all add: filter_empty_conv filter_id_conv)
  show ?case using rb_get_low [OF 0(2-4), of c] unfolding w none by (auto simp: first_of_def)
next
  case (Suc n)
  let ?tw = "takeWhile (\<lambda>p. \<not> unread m p) ms" and ?dw = "dropWhile (\<lambda>p. \<not> unread m p) ms"
  have split: "ms = ?tw @ ?dw" by simp
  have tw: "filter (unread m) ?tw = []" "filter (\<lambda>p. \<not> unread m p) ?tw = ?tw"
    by (auto simp: filter_empty_conv filter_id_conv dest: set_takeWhileD)
  have "\<exists>p\<in>set ms. unread m p" using Suc.hyps(2) by (metis Zero_not_Suc filter_False list.size(3))
  then obtain x r where dw: "?dw = x # r" "unread m x"
    by (cases ?dw) (auto simp: dropWhile_eq_Nil_conv dropWhile_eq_Cons_conv)
  obtain b1 m1 where g: "rb_get c b m = Inr (x, b1, m1)" "rb_rel m1 b1 r os []" "seg_kept m m1"
      "mm_released m1 = mm_released m @ map (Pair c) ?tw"
      "\<forall>p. p \<notin> set ?tw \<longrightarrow> mm_heap m1 p = mm_heap m p"
    using rb_get_low [OF Suc.prems, of c] dw by (auto simp: first_of_def)
  have ms: "ms = ?tw @ x # r" using split dw(1) by simp
  have d: "distinct (?tw @ x # r)" using Suc.prems(2) ms by metis
  then have "p \<in> set r \<Longrightarrow> unread m1 p = unread m p" for p
    using g(5) by (auto simp: unread_def)
  then have fr: "filter (unread m1) r = filter (unread m) r"
      "filter (\<lambda>p. \<not> unread m1 p) r = filter (\<lambda>p. \<not> unread m p) r"
    by (auto cong: filter_cong)
  have fm: "filter (unread m) ms = x # filter (unread m) r"
      "filter (\<lambda>p. \<not> unread m p) ms = ?tw @ filter (\<lambda>p. \<not> unread m p) r"
    using ms tw dw(2) by (metis append_Nil filter.simps(2) filter_append)+
  have "\<forall>y\<in>set r. has_payload m1 y"
    using Suc.prems(3) ms by (metis (no_types) Un_iff g(3) has_payload_kept list.set_intros(2) set_append)
  then obtain b2 m2 b3 m3 where
    "rb_get_n (length (filter (unread m) r)) c b1 m1 = Inr (filter (unread m) r, b2, m2)"
    "rb_get c b2 m2 = Inr (NULL, b3, m3)" "rb_rel m3 b3 [] os []"
    "mm_released m3 = mm_released m1 @ map (Pair c) (filter (\<lambda>p. \<not> unread m p) r)"
    using Suc.hyps(1) [OF _ g(2)] Suc.hyps(2) d fm(1) unfolding fr by auto
  then show ?case using g(1,4) fm by auto
qed

lemma rb_get_high:
  assumes rel: "rb_rel m b ms os [x]" and x: "unread m x" "has_payload m x"
    and seq: "seg_seq m x \<noteq> rb_head_seq b"
  shows "\<exists>b'. rb_get c b m = Inr (x, b', m) \<and> rb_rel m b' ms os []"
proof -
  obtain q where q: "mbufq_dequeue (rb_high_q b) = (x, q)" "x \<noteq> NULL"
      "rb_rel m (b\<lparr>rb_high_q := q\<rparr>) ms os []"
    using rb_rel_high_item [OF rel] by blast
  have "try_get_high_mbuf (Suc 7) c b m = Inr (x, b\<lparr>rb_high_q := q\<rparr>, m)"
    using q(1,2) x seq unfolding try_get_high_mbuf.simps by (simp add: unread_def)
  then show ?thesis
    using q(2,3) payload_ptr_not_null [OF q(2) x(2)] rb_rel_fuel [OF rel] by (simp add: rb_get_def)
qed

section \<open>Releasing the buffer\<close>

lemma mbufq_clear_loop_kept: "mbufq_clear_loop fuel c q m = Inr (q', m') \<Longrightarrow> seg_kept m m'"
proof (induction fuel arbitrary: q m)
  case (Suc fuel)
  obtain x q1 where d: "mbufq_dequeue q = (x, q1)" by (cases "mbufq_dequeue q")
  show ?case
  proof (cases "x = NULL")
    case False
    then obtain m1 where "mbuf_free c x m = Inr m1" "mbufq_clear_loop fuel c q1 m1 = Inr (q', m')"
      using Suc.prems d by (auto simp: bind_r_Inr_iff)
    then show ?thesis using seg_kept_trans [OF seg_kept_free Suc.IH] by blast
  qed (use Suc.prems d in simp)
qed simp

lemma mbufq_clear_kept: "mbufq_clear c q m = Inr (q', m') \<Longrightarrow> seg_kept m m'"
  by (simp add: mbufq_clear_def mbufq_clear_loop_kept)

lemma list_free_loop_kept: "list_free_loop fuel c p m = Inr m' \<Longrightarrow> seg_kept m m'"
proof (induction fuel arbitrary: p m)
  case (Suc fuel)
  show ?case
  proof (cases "p = NULL")
    case False
    then obtain m1 where "mbuf_free c p m = Inr m1"
        "list_free_loop fuel c (mb_buf_next (mm_heap m p)) m1 = Inr m'"
      using Suc.prems by (auto simp: bind_r_Inr_iff Let_def)
    then show ?thesis using seg_kept_trans [OF seg_kept_free Suc.IH] by blast
  qed (use Suc.prems in simp)
qed (simp split: if_splits)

lemma rb_clear_spec:
  assumes rel: "rb_rel m b ms os hs"
  shows "\<exists>b' m'. rb_clear c b m = Inr (b', m') \<and> cirq_list (rb_merged_q b') = []
    \<and> cirq_list (rb_high_q b') = [] \<and> mlist (mm_heap m') (rb_ooo_list b') []
    \<and> dir_cirq_wf (rb_merged_q b') \<and> dir_cirq_wf (rb_high_q b')
    \<and> mm_released m' = mm_released m @ map (Pair c) (ms @ os @ hs) \<and> seg_kept m m'
    \<and> (\<forall>p. mb_buf_next (mm_heap m' p) = mb_buf_next (mm_heap m p))
    \<and> rb_head_seq b' = rb_head_seq b \<and> rb_merged_next b' = rb_merged_next b \<and> rb_size b' = rb_size b"
proof -
  have wf: "dir_cirq_wf (rb_merged_q b)" "NULL \<notin> set (cirq_list (rb_merged_q b))"
    "dir_cirq_wf (rb_high_q b)" "NULL \<notin> set (cirq_list (rb_high_q b))"
    "cirq_list (rb_merged_q b) = ms" "cirq_list (rb_high_q b) = hs"
    using rel by (auto simp: rb_rel_def)
  obtain mq m1 where m1: "mbufq_clear c (rb_merged_q b) m = Inr (mq, m1)" "cirq_list mq = []" "dir_cirq_wf mq"
      "mm_released m1 = mm_released m @ map (Pair c) ms" "mm_count m1 = mm_count m"
      "\<forall>p. mb_buf_next (mm_heap m1 p) = mb_buf_next (mm_heap m p)"
    using mbufq_clear_frees [OF wf(1,2), of c m] wf(5) by auto
  have "mlist (mm_heap m) (rb_ooo_list b) os" using rel by (simp add: rb_rel_def)
  then have l: "chain (mm_heap m1) (ml_head (rb_ooo_list b)) os" "distinct os"
    using m1(6) mlist_next_cong [of "mm_heap m1" "mm_heap m"] by (auto simp: mlist_def)
  obtain m2 where m2: "list_free_loop (mm_count m1) c (ml_head (rb_ooo_list b)) m1 = Inr m2"
      "mm_released m2 = mm_released m1 @ map (Pair c) os"
      "\<forall>p. mb_buf_next (mm_heap m2 p) = mb_buf_next (mm_heap m1 p)"
    using list_free_loop_chain [OF l, of "mm_count m1" c] rb_rel_ooo_bound [OF rel] m1(5) by auto
  obtain hq m3 where m3: "mbufq_clear c (rb_high_q b) m2 = Inr (hq, m3)" "cirq_list hq = []" "dir_cirq_wf hq"
      "mm_released m3 = mm_released m2 @ map (Pair c) hs"
      "\<forall>p. mb_buf_next (mm_heap m3 p) = mb_buf_next (mm_heap m2 p)"
    using mbufq_clear_frees [OF wf(3,4), of c m2] wf(6) by auto
  have "seg_kept m m3"
    using seg_kept_trans [OF mbufq_clear_kept [OF m1(1)] seg_kept_trans
        [OF list_free_loop_kept [OF m2(1)] mbufq_clear_kept [OF m3(1)]]] .
  then show ?thesis
    using m1 m2 m3 by (auto simp: rb_clear_def mbuf_list_free_def mlist_def)
qed

section \<open>Sample buffer\<close>

text \<open>
  An empty buffer at sequence number \<^verbatim>\<open>0xFFFFFF00\<close>, and a pool in which mbuf \<open>n\<close>
  carries the \<open>n\<close>th segment of 256 bytes from there, so the second segment starts at 0.
\<close>

definition dq0 :: circular_queue where
  "dq0 = \<lparr>cq_head = 0, cq_queue = replicate 8 NULL, cq_size = 8, cq_tail = 0\<rparr>"

definition rb0 :: tcp_recv_buffer where
  "rb0 = \<lparr>rb_merged_q = dq0, rb_ooo_list = \<lparr>ml_head = NULL, ml_tail = NULL\<rparr>, rb_high_q = dq0,
     rb_size = 11200, rb_init_seq = 0xFFFFFF00, rb_head_seq = 0xFFFFFF00, rb_merged_next = 0xFFFFFF00\<rparr>"

definition seg0 :: "ptr \<Rightarrow> mbuf" where
  "seg0 n = mbuf0\<lparr>mb_tx_offload := 0x140A0E, mb_payload_len := 256,
     mb_tcp_seq := 0xFFFFFE00 + 256 * of_nat n\<rparr>"

definition mem_segs :: mbufs where
  "mem_segs = \<lparr>mm_heap = seg0, mm_released = [], mm_count = 100\<rparr>"

lemma dq0: "dir_cirq_wf dq0" "cirq_list dq0 = []"
  by (simp_all add: dq0_def dir_cirq_wf_def cirq_wf_def cirq_list_def cirq_count_def STATIC_BUFF_SIZE_def)

lemma rb0_rel: "rb_rel mem_segs rb0 [] [] []"
  by (simp add: rb_rel_def rb0_def dq0 mlist_def ooo_ordered_def)

text \<open>Three segments wait, the second of them also in the queue of high priority.\<close>

definition rb_pri :: tcp_recv_buffer where
  "rb_pri = rb0\<lparr>rb_merged_q := dq0\<lparr>cq_queue := [1, 2, 3, 0, 0, 0, 0, 0], cq_head := 3\<rparr>,
     rb_high_q := dq0\<lparr>cq_queue := [2, 0, 0, 0, 0, 0, 0, 0], cq_head := 1\<rparr>, rb_merged_next := 0x200\<rparr>"

definition mem_pri :: mbufs where
  "mem_pri = mem_segs\<lparr>mm_heap := (\<lambda>p. (seg0 p)\<lparr>mb_state := MBUF_STATE_RBUFFED\<rparr>)\<rparr>"

definition rb_full :: tcp_recv_buffer where
  "rb_full = rb0\<lparr>rb_merged_q := dq0\<lparr>cq_queue := [1, 2, 3, 4, 5, 6, 7, 0], cq_head := 7\<rparr>,
     rb_merged_next := 0x600\<rparr>"

text \<open>The queue of high priority is full and segment 8 is a fresh one of high priority.\<close>

definition rb_high_full :: tcp_recv_buffer where
  "rb_high_full = rb0\<lparr>rb_high_q := dq0\<lparr>cq_queue := [11, 12, 13, 14, 15, 16, 17, 0], cq_head := 7\<rparr>\<rparr>"

definition mem_high :: mbufs where
  "mem_high = mem_segs\<lparr>mm_heap := (\<lambda>p. (seg0 p)\<lparr>mb_priority := True\<rparr>)\<rparr>"

lemmas sample_defs = rb_high_full_def mem_high_def dq0_def rb0_def seg0_def mem_segs_def mbuf0_def rb_pri_def mem_pri_def rb_full_def
  seg_seq_def seg_end_def seg_ok_def has_payload_def unread_def l4_len_def drop_bit_eq_div
  take_bit_eq_mod seq_defs

lemma sample_queues:
  "dir_cirq_wf (rb_merged_q rb_pri)" "cirq_list (rb_merged_q rb_pri) = [1, 2, 3]"
  "dir_cirq_wf (rb_high_q rb_pri)" "cirq_list (rb_high_q rb_pri) = [2]"
  "dir_cirq_wf (rb_merged_q rb_full)" "cirq_list (rb_merged_q rb_full) = [1, 2, 3, 4, 5, 6, 7]"
  "rb_high_q rb_full = dq0"
  by (simp_all add: sample_defs dir_cirq_wf_def cirq_wf_def cirq_list_def cirq_count_def
      STATIC_BUFF_SIZE_def ring_slice_def upt_rec)

lemma rb_pri:
  "rb_rel mem_pri rb_pri [1, 2, 3] [] [2]"
  "\<forall>y\<in>set [1, 2, 3]. unread mem_pri y \<and> has_payload mem_pri y"
  "seg_seq mem_pri 2 \<noteq> rb_head_seq rb_pri"
  using sample_queues by (simp_all add: rb_rel_def mlist_def ooo_ordered_def sample_defs)

lemma rb_full:
  "rb_rel mem_segs rb_full [1, 2, 3, 4, 5, 6, 7] [] []"
  "\<not> mb_priority (mm_heap mem_segs 8)" "seg_seq mem_segs 8 = rb_merged_next rb_full"
  "\<not> TCP_SEQ_GT (seg_end mem_segs 8) (rb_head_seq rb_full + rb_size rb_full)"
  "seg_end mem_segs 8 = 0x700"
  using sample_queues dq0 by (simp_all add: rb_rel_def mlist_def ooo_ordered_def sample_defs)

lemma rb_high_full:
  "rb_rel mem_high rb_high_full [] [] [11, 12, 13, 14, 15, 16, 17]"
  "mb_priority (mm_heap mem_high 1)" "\<not> unread mem_high 1" "has_payload mem_high 1"
  "seg_seq mem_high 1 = rb_merged_next rb_high_full"
  "\<not> TCP_SEQ_GT (seg_end mem_high 1) (rb_head_seq rb_high_full + rb_size rb_high_full)"
proof -
  have "dir_cirq_wf (rb_high_q rb_high_full)"
    "cirq_list (rb_high_q rb_high_full) = [11, 12, 13, 14, 15, 16, 17]" "rb_merged_q rb_high_full = dq0"
    by (simp_all add: sample_defs dir_cirq_wf_def cirq_wf_def cirq_list_def cirq_count_def
        STATIC_BUFF_SIZE_def ring_slice_def upt_rec)
  then show "rb_rel mem_high rb_high_full [] [] [11, 12, 13, 14, 15, 16, 17]"
    using dq0 by (simp add: rb_rel_def mlist_def ooo_ordered_def) (simp add: sample_defs)
qed (simp_all add: sample_defs mbuf_state_defs)

section \<open>Main properties\<close>

text \<open>
  C23 (roundtrip). Segments that arrive in sequence are delivered to the application in
  sequence: up to seven segments of low priority that follow each other from the next expected
  sequence number are all accepted by \<^verbatim>\<open>rb_put\<close>, \<^verbatim>\<open>rb_get\<close> returns exactly these
  mbufs in order, and nothing is released or left over. The sequence numbers may wrap.
\<close>

theorem rb_in_order_delivery:
  assumes "rb_rel m b [] [] []" "seg_chain m (rb_merged_next b) xs e" "distinct xs"
    "length xs \<le> 7" "\<forall>x\<in>set xs. seg_ok m b x"
  shows "\<exists>b1 m1 b2. rb_put_all c b xs m = Inr (replicate (length xs) 1, b1, m1)
    \<and> rb_merged_len b1 = e - rb_merged_next b
    \<and> rb_get_n (length xs) k b1 m1 = Inr (xs, b2, m1)
    \<and> rb_get k b2 m1 = Inr (NULL, b2, m1) \<and> rb_merged_len b2 = 0 \<and> mm_released m1 = mm_released m"
proof -
  obtain b1 m1 where 1: "rb_put_all c b xs m = Inr (replicate (length xs) 1, b1, m1)"
      "rb_rel m1 b1 xs [] []" "seg_kept m m1" "mm_released m1 = mm_released m"
      "rb_merged_next b1 = e" "\<forall>x\<in>set xs. unread m1 x"
    using rb_put_all_spec [OF assms(1,2), of c] assms(3-5) by auto
  have start: "seg_chain m1 s ys e' \<Longrightarrow> seg_chain m1 s' ys e' \<Longrightarrow> ys \<noteq> [] \<Longrightarrow> s = s'" for s s' ys e'
    by (cases ys) auto
  have "seg_chain m1 (rb_head_seq b1) xs e" "seg_chain m1 (rb_merged_next b) xs e"
    using 1(2,3,5) assms(2) by (auto simp: rb_rel_def seg_kept_simps)
  then have len: "rb_merged_len b1 = e - rb_merged_next b"
    using start 1(5) by (cases "xs = []") (auto simp: rb_merged_len_def)
  have pl: "\<forall>x\<in>set xs. unread m1 x \<and> has_payload m1 x"
    using 1(6) assms(5) by (auto simp: seg_ok_def has_payload_kept [OF 1(3)])
  obtain b2 where 2: "rb_get_n (length xs) k b1 m1 = Inr (xs, b2, m1)" "rb_rel m1 b2 [] [] []"
    using rb_get_n_spec [OF 1(2) assms(3) pl] by blast
  have "rb_get k b2 m1 = Inr (NULL, b2, m1)" using rb_get_empty [OF 2(2)] .
  moreover have "rb_merged_len b2 = 0" using 2(2) by (simp add: rb_rel_def rb_merged_len_def)
  ultimately show ?thesis using 1 2 len by blast
qed

theorem rb_in_order_delivery_witness:
  "\<exists>b1 m1 b2. rb_put_all 0 rb0 [1, 2, 3] mem_segs = Inr ([1, 1, 1], b1, m1)
     \<and> rb_get_n 3 0 b1 m1 = Inr ([1, 2, 3], b2, m1)"
proof -
  have "seg_chain mem_segs (rb_merged_next rb0) [1, 2, 3] 0x200"
    "\<forall>x\<in>set [1, 2, 3]. seg_ok mem_segs rb0 x"
    by (simp_all add: mem_segs_def rb0_def seg0_def seg_seq_def seg_end_def seg_ok_def mbuf0_def
        has_payload_def l4_len_def drop_bit_eq_div take_bit_eq_mod seq_defs)
  from rb_in_order_delivery [OF rb0_rel this(1) _ _ this(2), of 0 0] show ?thesis
    by (auto simp: numeral_eq_Suc)
qed

text \<open>
  A segment of low priority that is not the next expected one goes into the
  out-of-order list at a place where the list stays ordered and free of overlaps, or is refused
  as a duplicate with the buffer unchanged. The one exception is a segment that lies before the
  first early segment: there the swapped arguments make the behaviour undefined.
\<close>

lemma rb_put_early:
  assumes rel: "rb_rel m b ms os hs" and x: "x \<noteq> NULL" "x \<notin> set os" "x \<le> mm_count m"
    and nx: "mb_buf_next (mm_heap m x) = NULL" and low: "\<not> mb_priority (mm_heap m x)"
    and seq: "seg_seq m x \<noteq> rb_merged_next b"
    and win: "\<not> TCP_SEQ_GT (seg_end m x) (rb_head_seq b + rb_size b)"
  shows "case rb_put c b x m of
      Inl e \<Rightarrow> e = Undefined \<and> os \<noteq> [] \<and> TCP_SEQ_LEQ (seg_end m x) (seg_seq m (hd os))
    | Inr (r, b', m') \<Rightarrow> seg_kept m m' \<and>
        (r = 0 \<and> unread m' x \<and> (\<exists>as bs. os = as @ bs \<and> rb_rel m' b' ms (as @ x # bs) hs)
         \<or> r = FAILED \<and> rb_rel m' b' ms os hs)"
proof -
  obtain b1 m1 where h: "rb_put_high b x m = (b1, m1)" by (cases "rb_put_high b x m")
  note hi = rb_put_high_spec [OF rel x(1) h]
  have kept: "seg_kept m m1" and rel1: "rb_rel m1 b1 ms os hs" using hi low by auto
  have put: "rb_put c b x m = bind_r (ooo_insert b1 x m1) (\<lambda>(r, b2, m2).
      if SUCCESS \<noteq> r then Inr (FAILED, b2, m2)
      else Inr (0, b2, if \<not> mb_priority (mm_heap m2 x)
                       then set_mbuf_state MBUF_STATE_RBUFFED x m2 else m2))"
    using win seq hi h by (simp add: rb_put_def Let_def seg_kept_simps [OF kept])
  have st: "unread (set_mbuf_state MBUF_STATE_RBUFFED x m2) x" for m2
    by (simp add: unread_def set_mbuf_state_def heap_upd_def)
  have "x \<le> mm_count m1" "mb_buf_next (mm_heap m1 x) = NULL"
    using x(3) nx hi seg_kept_simps(6) [OF kept] by auto
  from ooo_insert_spec [OF rel1 x(1,2) this] show ?thesis
    unfolding put using low kept rel1
    by (auto simp: seg_kept_simps [OF kept] seg_kept_simps(5) st ret_codes_distinct
        split: sum.splits if_splits intro: seg_kept_trans seg_kept_updates) blast+
qed

theorem rb_put_early_witness:
  "case rb_put 0 rb0 3 mem_segs of Inl e \<Rightarrow> False
   | Inr (r, b', m') \<Rightarrow> r = 0 \<and> rb_rel m' b' [] [3] [] \<or> r = FAILED"
proof -
  have "seg_seq mem_segs 3 \<noteq> rb_merged_next rb0"
    "\<not> TCP_SEQ_GT (seg_end mem_segs 3) (rb_head_seq rb0 + rb_size rb0)"
    "mb_buf_next (mm_heap mem_segs 3) = NULL" "\<not> mb_priority (mm_heap mem_segs 3)"
    "3 \<le> mm_count mem_segs"
    by (simp_all add: mem_segs_def rb0_def seg0_def seg_seq_def seg_end_def mbuf0_def seq_defs)
  from rb_put_early [OF rb0_rel _ _ this(5,3,4,1,2), of 0] show ?thesis
    by (auto split: sum.splits)
qed

text \<open>
  C24 (functional). Priority reading: a segment of high priority that waits behind others is
  delivered first; once the application has marked it read, the remaining reads deliver the other
  segments in sequence, the segment is not delivered again, and it is released exactly once.
\<close>

theorem rb_priority_delivery:
  assumes rel: "rb_rel m b ms os [x]" and d: "distinct ms" and x: "x \<in> set ms"
    and un: "\<forall>y\<in>set ms. unread m y \<and> has_payload m y"
    and seq: "seg_seq m x \<noteq> rb_head_seq b"
  shows "\<exists>b1 b2 m2 b3 m3. rb_get k b m = Inr (x, b1, m)
    \<and> rb_get_n (length (remove1 x ms)) k b1 (set_mbuf_state MBUF_STATE_RREAD x m)
        = Inr (remove1 x ms, b2, m2)
    \<and> rb_get k b2 m2 = Inr (NULL, b3, m3) \<and> mm_released m3 = mm_released m @ [(k, x)]"
proof -
  let ?m = "set_mbuf_state MBUF_STATE_RREAD x m"
  obtain b1 where b1: "rb_get k b m = Inr (x, b1, m)" "rb_rel m b1 ms os []"
    using rb_get_high [OF rel] un x seq by blast
  have u: "y \<in> set ms \<Longrightarrow> unread ?m y \<longleftrightarrow> y \<noteq> x" for y
    using un by (auto simp: unread_def set_mbuf_state_def heap_upd_def mbuf_state_defs)
  have "filter (unread ?m) ms = filter (\<lambda>y. y \<noteq> x) ms" "filter (\<lambda>y. \<not> unread ?m y) ms = filter ((=) x) ms"
    using u by (auto intro!: filter_cong)
  moreover have "filter (\<lambda>y. y \<noteq> x) ms = remove1 x ms"
    using d by (simp add: distinct_remove1_removeAll removeAll_filter_not_eq eq_commute)
  moreover have "filter ((=) x) ms = [x]" using d x by (rule filter_eq_single)
  ultimately have f: "filter (unread ?m) ms = remove1 x ms" "filter (\<lambda>y. \<not> unread ?m y) ms = [x]"
    by simp_all
  have "\<forall>y\<in>set ms. has_payload ?m y" using un has_payload_kept [OF seg_kept_updates(3)] by simp
  moreover have "rb_rel ?m b1 ms os []" "mm_released ?m = mm_released m"
    using b1(2) by (simp, simp add: set_mbuf_state_def)
  ultimately obtain b2 m2 b3 m3 where
    "rb_get_n (length (remove1 x ms)) k b1 ?m = Inr (remove1 x ms, b2, m2)"
    "rb_get k b2 m2 = Inr (NULL, b3, m3)" "mm_released m3 = mm_released m @ [(k, x)]"
    using rb_drain [of ?m b1 ms os k] d unfolding f by auto
  then show ?thesis using b1(1) by blast
qed

theorem rb_priority_delivery_witness:
  "\<exists>b1 b2 m2. rb_get 4 rb_pri mem_pri = Inr (2, b1, mem_pri) \<and>
     rb_get_n 2 4 b1 (set_mbuf_state MBUF_STATE_RREAD 2 mem_pri) = Inr ([1, 3], b2, m2)"
  using rb_priority_delivery [OF rb_pri(1) _ _ rb_pri(2,3), of 4]
  by (auto simp del: rb_get_n.simps simp: numeral_2_eq_2)

text \<open>
  Data loss on a full buffer: with seven segments queued, the next segment in
  sequence is reported as accepted and the next expected sequence number moves past it, but the
  segment is in none of the queues and was not released. The test of the return value of
  \<^verbatim>\<open>mbufq_enqueue\<close> accepts \<^verbatim>\<open>FAILED\<close> because it is not zero.
\<close>

lemma rb_put_full_loses:
  assumes "rb_rel m b ms [] hs" "length ms = 7" "x \<noteq> NULL" "x \<notin> set ms" "x \<notin> set hs"
    "\<not> mb_priority (mm_heap m x)" "seg_seq m x = rb_merged_next b"
    "\<not> TCP_SEQ_GT (seg_end m x) (rb_head_seq b + rb_size b)"
  shows "\<exists>b' m'. rb_put c b x m = Inr (1, b', m') \<and> rb_merged_next b' = seg_end m x
    \<and> cirq_list (rb_merged_q b') = ms \<and> cirq_list (rb_high_q b') = hs
    \<and> mm_released m' = mm_released m"
proof -
  have "mbufq_enqueue (rb_merged_q b) x = (FAILED, rb_merged_q b)"
    using assms(1,2) mbufq_enqueue_full [of "rb_merged_q b" x] by (simp add: rb_rel_def)
  then show ?thesis
    using rb_put_next [OF assms(1,3,7,8), of c] assms(1,6)
    by (auto simp: rb_frame_def high_after_def rb_rel_def)
qed

lemma rb_put_full_loses_witness:
  "\<exists>b' m'. rb_put 0 rb_full 8 mem_segs = Inr (1, b', m') \<and> rb_merged_next b' = 0x700
     \<and> cirq_list (rb_merged_q b') = [1, 2, 3, 4, 5, 6, 7]"
  using rb_put_full_loses [OF rb_full(1), of 8 0] rb_full(2-5) by auto

text \<open>
  Closing a gap is undefined: when the segment in sequence reaches the first early
  segment and \<^verbatim>\<open>merged_q\<close> still has room for it, \<^verbatim>\<open>try_merge_ooo\<close> writes through
  the wrong member of the queue's union. Reassembly of out-of-order data never completes.
\<close>

lemma rb_put_merge_undefined:
  assumes rel: "rb_rel m b ms (y # ys) hs" and len: "length ms < 6" and x: "x \<noteq> NULL"
    and seq: "seg_seq m x = rb_merged_next b" "seg_seq m y = seg_end m x"
    and win: "\<not> TCP_SEQ_GT (seg_end m x) (rb_head_seq b + rb_size b)"
  shows "rb_put c b x m = Inl Undefined"
proof -
  obtain b1 m1 where h: "rb_put_high b x m = (b1, m1)" by (cases "rb_put_high b x m")
  note hi = rb_put_high_spec [OF rel x h]
  have kept: "seg_kept m m1" using hi by blast
  have wf: "dir_cirq_wf (rb_merged_q b)" "cirq_list (rb_merged_q b) = ms"
    using rel by (simp_all add: rb_rel_def)
  then obtain q where q: "mbufq_enqueue (rb_merged_q b) x = (SUCCESS, q)" "cirq_list q = ms @ [x]"
      "dir_cirq_wf q"
    using mbufq_enqueue_room [OF wf(1), of x] len by auto
  have nf: "\<not> cirq_full q"
    using q len cirq_full_iff [of q] dir_capacity [OF q(3)] by (simp add: dir_cirq_wf_def)
  let ?b2 = "b1\<lparr>rb_merged_q := q, rb_merged_next := seg_end m x\<rparr>"
  have l: "mlist (mm_heap m1) (rb_ooo_list ?b2) (y # ys)" using hi by (auto simp: rb_rel_def split: if_splits)
  then have hd: "ml_head (rb_ooo_list ?b2) = y" "y \<noteq> NULL" by (auto simp: mlist_def)
  obtain l' where pop: "mbuf_list_pop (rb_ooo_list ?b2) m1 = (y, l', set_next y NULL m1)"
    using mbuf_list_pop_cons [OF l] by blast
  have "try_merge_ooo c ?b2 m1 = Inl Undefined"
    using hd pop seq(2) nf
    by (simp add: try_merge_ooo_def seg_kept_simps [OF kept] seg_kept_simps [OF seg_kept_updates(1)]
        cirq_add_on_direct_def)
  then show ?thesis
    using win seq(1) h q(1) hi by (simp add: rb_put_def Let_def seg_kept_simps [OF kept])
qed

theorem rb_put_merge_undefined_witness:
  "rb_put 0 (rb0\<lparr>rb_ooo_list := \<lparr>ml_head = 2, ml_tail = 2\<rparr>\<rparr>) 1 mem_segs = Inl Undefined"
proof (rule rb_put_merge_undefined)
  show "rb_rel mem_segs (rb0\<lparr>rb_ooo_list := \<lparr>ml_head = 2, ml_tail = 2\<rparr>\<rparr>) [] (2 # []) []"
    using rb0_rel by (simp add: rb_rel_def mlist_def ooo_ordered_def sample_defs)
qed (simp_all add: sample_defs)

text \<open>
  \<^verbatim>\<open>rb_clear\<close> hands every mbuf of the three containers back to the driver, so a
  segment of high priority that is still unread, which sits in \<^verbatim>\<open>high_q\<close> and in
  \<^verbatim>\<open>merged_q\<close>, is released twice.
\<close>

lemma rb_clear_releases:
  assumes rel: "rb_rel m b ms os hs"
  shows "\<exists>b' m'. rb_clear c b m = Inr (b', m') \<and> cirq_list (rb_merged_q b') = []
    \<and> cirq_list (rb_high_q b') = [] \<and> mlist (mm_heap m') (rb_ooo_list b') []
    \<and> mm_released m' = mm_released m @ map (Pair c) (ms @ os @ hs)
    \<and> (\<forall>x. x \<in> set ms \<and> x \<in> set hs \<longrightarrow> count_list (mm_released m') (c, x) \<ge> 2)"
proof -
  obtain b' m' where r: "rb_clear c b m = Inr (b', m')" "cirq_list (rb_merged_q b') = []"
      "cirq_list (rb_high_q b') = []" "mlist (mm_heap m') (rb_ooo_list b') []"
      "mm_released m' = mm_released m @ map (Pair c) (ms @ os @ hs)"
    using rb_clear_spec [OF rel, of c] by blast
  have "2 \<le> count_list (mm_released m') (c, x)" if "x \<in> set ms" "x \<in> set hs" for x
  proof -
    have "1 \<le> count_list (map (Pair c) zs) (c, x)" if "x \<in> set zs" for zs
      using that by (simp add: Suc_le_eq count_list_0_iff zero_less_iff_neq_zero image_iff)
    from this [OF that(1)] this [OF that(2)] show ?thesis using r(5) by simp
  qed
  then show ?thesis using r by blast
qed

lemma rb_clear_releases_witness:
  "\<exists>b' m'. rb_clear 1 rb_pri mem_pri = Inr (b', m') \<and> 2 \<le> count_list (mm_released m') (1, 2)"
  using rb_clear_releases [OF rb_pri(1), of 1] by (auto simp: sample_defs)

text \<open>
  A segment of high priority that finds \<^verbatim>\<open>high_q\<close> full is accepted into
  \<^verbatim>\<open>merged_q\<close> without being marked as buffered. When the queue of high priority has been read
  empty, the next read takes it for a segment already read: it releases the segment undelivered
  and moves on to the data after it.
\<close>

lemma rb_put_high_overflow:
  assumes rel: "rb_rel m b [] [] hs" "length hs = 7" and x: "x \<noteq> NULL" "mb_priority (mm_heap m x)"
    "\<not> unread m x" "has_payload m x" and seq: "seg_seq m x = rb_merged_next b"
    and win: "\<not> TCP_SEQ_GT (seg_end m x) (rb_head_seq b + rb_size b)"
  shows "\<exists>b1 m1. rb_put c b x m = Inr (1, b1, m1) \<and> rb_rel m1 b1 [x] [] hs \<and>
    (\<forall>b2. rb_rel m1 b2 [x] [] [] \<longrightarrow> (\<exists>b3 m3. rb_get k b2 m1 = Inr (NULL, b3, m3)
       \<and> mm_released m3 = mm_released m @ [(k, x)] \<and> rb_head_seq b3 = seg_end m x))"
proof -
  obtain b1 m1 where 1: "rb_put c b x m = Inr (1, b1, m1)" "rb_rel m1 b1 [x] [] hs"
      "rb_frame x m b m1 b1" "mb_state (mm_heap m1 x) = mb_state (mm_heap m x)"
      "rb_merged_next b1 = seg_end m x"
    using rb_put_next [OF rel(1) x(1) seq win, of c] rel(2) x(2)
    by (auto simp: high_after_def state_after_def)
  have kept: "seg_kept m m1" "mm_released m1 = mm_released m" using 1(3) by (simp_all add: rb_frame_def)
  have "\<exists>b3 m3. rb_get k b2 m1 = Inr (NULL, b3, m3)
      \<and> mm_released m3 = mm_released m @ [(k, x)] \<and> rb_head_seq b3 = seg_end m x"
    if r: "rb_rel m1 b2 [x] [] []" for b2
  proof -
    have pl: "\<forall>p\<in>set [x]. has_payload m1 p" and nu: "\<not> unread m1 x"
      using x 1(4) by (simp_all add: has_payload_kept [OF kept(1)] unread_def)
    obtain b3 m3 where "rb_get k b2 m1 = Inr (NULL, b3, m3)" "rb_rel m3 b3 [] [] []"
        "mm_released m3 = mm_released m1 @ [(k, x)]" "seg_kept m1 m3"
      using rb_get_low [OF r _ pl, of k] nu by (auto simp: first_of_def)
    moreover have "rb_head_seq b3 = seg_end m x"
      if "rb_get k b2 m1 = Inr (NULL, b3, m3)" for b3 m3
    proof -
      obtain q where q: "mbufq_dequeue (rb_merged_q b2) = (x, q)" "seg_seq m1 x = rb_head_seq b2"
          "rb_rel m1 (b2\<lparr>rb_merged_q := q, rb_head_seq := seg_end m1 x\<rparr>) [] [] []" (is "rb_rel m1 ?b [] [] []")
        using rb_rel_merged_item [OF r] by blast
      obtain m2 where m2: "mbuf_free k x m1 = Inr m2" using mbuf_free_mem [OF x(1)] by blast
      have "try_get_merged_mbuf (Suc 7) k b2 m1 = try_get_merged_mbuf 7 k ?b m2"
        using q(1,2) nu m2 x(1) unfolding try_get_merged_mbuf.simps
        by (simp add: unread_def seg_end_def seg_seq_def)
      also have "\<dots> = Inr (NULL, ?b, m2)" by (rule try_get_empty(2) [OF _ rb_rel_free [OF q(3) m2]]) simp
      finally have "rb_get k b2 m1 = Inr (NULL, ?b, m2)"
        using try_get_empty(1) [OF _ r, of 8 k] rb_rel_fuel [OF r] by (simp add: rb_get_def)
      then show ?thesis using that by (auto simp: seg_kept_simps [OF kept(1)])
    qed
    ultimately show ?thesis using kept(2) by auto
  qed
  then show ?thesis using 1(1,2) by blast
qed

lemma rb_put_high_overflow_witness:
  "\<exists>b1 m1. rb_put 0 rb_high_full 1 mem_high = Inr (1, b1, m1)
     \<and> rb_rel m1 b1 [1] [] [11, 12, 13, 14, 15, 16, 17]"
  using rb_put_high_overflow [OF rb_high_full(1), of 1 0 0] rb_high_full(2-) by auto

end
