(* ===== verification/Tcp_Send_Buff.thy ===== *)
theory Tcp_Send_Buff
  imports Tcp_Recv_Buff
begin

text \<open>
  The send buffer of a stream: \<^verbatim>\<open>tcp_send_buff.c\<close> and \<^verbatim>\<open>tcp_send_buff.h\<close>. Data the
  application handed over waits in \<^verbatim>\<open>usnd_q\<close> (or \<^verbatim>\<open>husnd_q\<close> for high priority), data
  sent and not acknowledged in \<^verbatim>\<open>uack_list\<close>, data to be sent again in
  \<^verbatim>\<open>retrans_list\<close>.
\<close>

section \<open>State and operations\<close>

record tcp_send_buffer =
  sb_usnd_q :: circular_queue
  sb_husnd_q :: circular_queue
  sb_uack_list :: mbuf_list
  sb_retrans_list :: mbuf_list
  sb_size :: u32
  sb_head_seq :: u32
  sb_next_seq :: u32

definition sb_init :: "u32 \<Rightarrow> tcp_send_buffer \<Rightarrow> u32 \<Rightarrow> tcp_send_buffer" where
  "sb_init sndbuf_size buff init_seq =
     buff\<lparr>sb_uack_list := mbuf_list_init (sb_uack_list buff),
          sb_retrans_list := mbuf_list_init (sb_retrans_list buff),
          sb_usnd_q := snd (mbufq_init (sb_usnd_q buff)),
          sb_husnd_q := snd (mbufq_init (sb_husnd_q buff)),
          sb_size := 1400 * sndbuf_size,
          sb_head_seq := init_seq,
          sb_next_seq := init_seq\<rparr>"

definition sb_free :: "nat \<Rightarrow> tcp_send_buffer \<Rightarrow> mbufs \<Rightarrow> (int \<times> tcp_send_buffer \<times> mbufs) result" where
  "sb_free stack_id buff m =
     bind_r (mbufq_clear stack_id (sb_usnd_q buff) m) (\<lambda>(q, m1).
     bind_r (mbuf_list_free stack_id (sb_uack_list buff) m1) (\<lambda>(ul, m2).
     bind_r (mbuf_list_free stack_id (sb_retrans_list buff) m2) (\<lambda>(rl, m3).
       Inr (SUCCESS, buff\<lparr>sb_usnd_q := q, sb_uack_list := ul, sb_retrans_list := rl\<rparr>, m3))))"

definition sb_len :: "tcp_send_buffer \<Rightarrow> u32" where
  "sb_len buff = sb_next_seq buff - sb_head_seq buff"

definition sb_put :: "tcp_send_buffer \<Rightarrow> ptr \<Rightarrow> mbufs \<Rightarrow> int \<times> tcp_send_buffer \<times> mbufs" where
  "sb_put buff mbuf m =
     (let len = ucast (mb_payload_len (mm_heap m mbuf)) :: u32;
          to_put = min len (sb_size buff - sb_len buff)
      in if to_put \<le> 0 then (FAILED, buff, m)
         else
           let m1 = heap_upd mbuf (\<lambda>mb. mb\<lparr>mb_payload_len := ucast to_put,
                      mb_tcp_seq := sb_next_seq buff, mb_state := MBUF_STATE_TBUFFED\<rparr>) m;
               buff1 = buff\<lparr>sb_next_seq := sb_next_seq buff + to_put\<rparr>;
               (ret, buff2) =
                 (if \<not> mb_priority (mm_heap m1 mbuf)
                  then let (r, q) = mbufq_enqueue (sb_usnd_q buff1) mbuf
                       in (r, buff1\<lparr>sb_usnd_q := q\<rparr>)
                  else let (r, q) = mbufq_enqueue (sb_husnd_q buff1) mbuf
                       in (r, buff1\<lparr>sb_husnd_q := q\<rparr>))
           in if ret \<noteq> SUCCESS then (FAILED, buff2, m1) else (sint to_put, buff2, m1))"

text \<open>
  \<^verbatim>\<open>sb_reset_retrans\<close> ends without a \<^verbatim>\<open>return\<close> when it has done its work; the value a
  caller would read is then not determined, written \<open>None\<close>.
\<close>

fun mark_loss :: "nat \<Rightarrow> ptr \<Rightarrow> mbufs \<Rightarrow> mbufs result" where
  "mark_loss 0 mbuf m = (if mbuf = NULL then Inr m else Inl Diverges)"
| "mark_loss (Suc fuel) mbuf m =
     (if mbuf = NULL then Inr m
      else let m1 = set_mbuf_state MBUF_STATE_LOSS mbuf m
           in mark_loss fuel (mb_buf_next (mm_heap m1 mbuf)) m1)"

definition sb_reset_retrans ::
    "tcp_send_buffer \<Rightarrow> mbufs \<Rightarrow> (int option \<times> tcp_send_buffer \<times> mbufs) result" where
  "sb_reset_retrans buff m =
     (if ml_head (sb_uack_list buff) = NULL then Inr (Some FAILED, buff, m)
      else if ml_head (sb_retrans_list buff) \<noteq> NULL then Inr (Some ERROR, buff, m)
      else
        let buff1 = buff\<lparr>sb_retrans_list := sb_uack_list buff,
                         sb_uack_list := \<lparr>ml_head = NULL, ml_tail = NULL\<rparr>\<rparr>
        in bind_r (mark_loss (mm_count m) (ml_head (sb_retrans_list buff1)) m)
             (\<lambda>m1. Inr (None, buff1, m1)))"

text \<open>The loop over one of the two lists; it moves \<^verbatim>\<open>head_seq\<close> over what it frees.\<close>

fun remove_acked_loop ::
    "nat \<Rightarrow> nat \<Rightarrow> u32 \<Rightarrow> mbuf_list \<Rightarrow> u32 \<Rightarrow> mbufs \<Rightarrow> (mbuf_list \<times> u32 \<times> mbufs) result" where
  "remove_acked_loop 0 stack_id ack_seq l hseq m = Inl Diverges"
| "remove_acked_loop (Suc fuel) stack_id ack_seq l hseq m =
     (let mbuf = ml_head l
      in if mbuf \<noteq> NULL \<and> TCP_SEQ_LEQ (seg_end m mbuf) ack_seq
         then let (p, l1, m1) = mbuf_list_pop l m;
                  hseq1 = hseq + ucast (mb_payload_len (mm_heap m1 mbuf))
              in bind_r (mbuf_free stack_id mbuf m1) (remove_acked_loop fuel stack_id ack_seq l1 hseq1)
         else Inr (l, hseq, m))"

definition sb_remove_acked ::
    "nat \<Rightarrow> tcp_send_buffer \<Rightarrow> u32 \<Rightarrow> mbufs \<Rightarrow> (int \<times> tcp_send_buffer \<times> mbufs) result" where
  "sb_remove_acked stack_id buff ack_seq m =
     bind_r (remove_acked_loop (Suc (mm_count m)) stack_id ack_seq
               (sb_uack_list buff) (sb_head_seq buff) m) (\<lambda>(ul, hseq1, m1).
     bind_r (remove_acked_loop (Suc (mm_count m1)) stack_id ack_seq
               (sb_retrans_list buff) hseq1 m1) (\<lambda>(rl, hseq2, m2).
       Inr (SUCCESS, buff\<lparr>sb_uack_list := ul, sb_retrans_list := rl, sb_head_seq := hseq2\<rparr>, m2)))"

section \<open>Invariant\<close>

text \<open>
  \<open>sb_rel m b us rs qs hs\<close>: \<open>us\<close> waits for an acknowledgement, \<open>rs\<close> for
  retransmission, \<open>qs\<close> and \<open>hs\<close> for their first transmission at low and high priority.
  \<open>sb_contig\<close>: without data of high priority, the buffer holds every byte from
  \<^verbatim>\<open>head_seq\<close> to \<^verbatim>\<open>next_seq\<close> once and in order.
\<close>

definition sb_rel ::
    "mbufs \<Rightarrow> tcp_send_buffer \<Rightarrow> ptr list \<Rightarrow> ptr list \<Rightarrow> ptr list \<Rightarrow> ptr list \<Rightarrow> bool" where
  "sb_rel m b us rs qs hs \<longleftrightarrow>
     mlist (mm_heap m) (sb_uack_list b) us \<and> mlist (mm_heap m) (sb_retrans_list b) rs
     \<and> (\<forall>p\<in>set us \<union> set rs. p \<le> mm_count m) \<and> set us \<inter> set rs = {}
     \<and> dir_cirq_wf (sb_usnd_q b) \<and> cirq_list (sb_usnd_q b) = qs \<and> NULL \<notin> set qs
     \<and> dir_cirq_wf (sb_husnd_q b) \<and> cirq_list (sb_husnd_q b) = hs \<and> NULL \<notin> set hs"

definition sb_contig :: "mbufs \<Rightarrow> tcp_send_buffer \<Rightarrow> ptr list \<Rightarrow> bool" where
  "sb_contig m b xs \<longleftrightarrow> seg_chain m (sb_head_seq b) xs (sb_next_seq b)"

definition seg_bytes :: "mbufs \<Rightarrow> ptr list \<Rightarrow> nat" where
  "seg_bytes m xs = (\<Sum>x\<leftarrow>xs. unat (mb_payload_len (mm_heap m x)))"

lemma seg_bytes_simps [simp]:
  "seg_bytes m [] = 0"
  "seg_bytes m (x # xs) = unat (mb_payload_len (mm_heap m x)) + seg_bytes m xs"
  "seg_bytes m (xs @ ys) = seg_bytes m xs + seg_bytes m ys"
  by (simp_all add: seg_bytes_def)

lemma seg_bytes_kept: "seg_kept m m' \<Longrightarrow> seg_bytes m' xs = seg_bytes m xs"
  by (induction xs) (simp_all add: seg_kept_def)

lemma pool_bound:
  assumes "mlist h l xs" "\<forall>p\<in>set xs. p \<le> n"
  shows "length xs \<le> n"
proof -
  have "distinct xs" "set xs \<subseteq> {1..n}"
    using assms mlist_distinct mlist_not_null by (auto simp: Suc_le_eq) (metis neq0_conv)
  then show ?thesis using card_mono [of "{1..n}" "set xs"] by (simp add: distinct_card)
qed

text \<open>Places in a run of segments, as distances from its start.\<close>

lemma seg_chain_append:
  "seg_chain m s (xs @ ys) e \<longleftrightarrow> (\<exists>k. seg_chain m s xs k \<and> seg_chain m k ys e)"
  by (induction xs arbitrary: s) auto

lemma seg_chain_bytes: "seg_chain m s xs e \<Longrightarrow> e = s + of_nat (seg_bytes m xs)"
proof (induction xs arbitrary: s)
  case (Cons x xs)
  have "e = seg_end m x + of_nat (seg_bytes m xs)" using Cons.prems by (intro Cons.IH) simp
  then show ?case using Cons.prems by (simp add: seg_end_def seg_seq_def add.assoc)
qed simp

lemma unat_of_nat_u32: "n < 2 ^ 31 \<Longrightarrow> unat (of_nat n :: u32) = n"
  by (simp add: unat_of_nat)

lemma seg_offset:
  assumes "seg_chain m s (as @ x # bs) e" "seg_bytes m (as @ x # bs) < 2 ^ 31"
  shows "unat (seg_seq m x - s) = seg_bytes m as" "unat (seg_end m x - s) = seg_bytes m (as @ [x])"
proof -
  have "seg_chain m s as (seg_seq m x)" "seg_chain m s (as @ [x]) (seg_end m x)"
    using assms(1) by (auto simp: seg_chain_append)
  from this [THEN seg_chain_bytes]
  have "seg_seq m x - s = of_nat (seg_bytes m as)" "seg_end m x - s = of_nat (seg_bytes m (as @ [x]))"
    by (metis add_diff_cancel_left')+
  then show "unat (seg_seq m x - s) = seg_bytes m as" "unat (seg_end m x - s) = seg_bytes m (as @ [x])"
    using assms(2) unat_of_nat_u32 [of "seg_bytes m as"] unat_of_nat_u32 [of "seg_bytes m (as @ [x])"]
    by (simp_all del: of_nat_add)
qed

section \<open>Removing acknowledged data\<close>

definition acked :: "mbufs \<Rightarrow> u32 \<Rightarrow> ptr \<Rightarrow> bool" where
  "acked m a p \<longleftrightarrow> TCP_SEQ_LEQ (seg_end m p) a"

text \<open>What removing leaves of the mbufs that are not removed.\<close>

lemma remove_acked_loop_spec:
  "mlist (mm_heap m) l xs \<Longrightarrow> length xs < fuel \<Longrightarrow>
   \<exists>l' m'. remove_acked_loop fuel c a l h m =
       Inr (l', h + of_nat (seg_bytes m (takeWhile (acked m a) xs)), m')
     \<and> mlist (mm_heap m') l' (dropWhile (acked m a) xs) \<and> seg_kept m m'
     \<and> mm_released m' = mm_released m @ map (Pair c) (takeWhile (acked m a) xs)
     \<and> (\<forall>p. p \<notin> set (takeWhile (acked m a) xs) \<longrightarrow> mm_heap m' p = mm_heap m p)"
proof (induction xs arbitrary: l h m fuel)
  case Nil
  then show ?case by (cases fuel) (auto simp: mlist_def)
next
  case (Cons x xs)
  then obtain f where f: "fuel = Suc f" by (cases fuel) auto
  have hd: "ml_head l = x" "x \<noteq> NULL" using Cons.prems(1) by (auto simp: mlist_def)
  show ?case
  proof (cases "acked m a x")
    case False
    then show ?thesis using f hd Cons.prems(1) by (simp add: acked_def)
  next
    case True
    let ?m1 = "set_next x NULL m"
    obtain l1 where pop: "mbuf_list_pop l m = (x, l1, ?m1)" "mlist (mm_heap ?m1) l1 xs"
      using mbuf_list_pop_cons [OF Cons.prems(1)] by blast
    obtain m2 where m2: "mbuf_free c x ?m1 = Inr m2" "mm_released m2 = mm_released ?m1 @ [(c, x)]"
        "\<forall>q. mb_buf_next (mm_heap m2 q) = mb_buf_next (mm_heap ?m1 q)"
        "\<forall>q. q \<noteq> x \<longrightarrow> mm_heap m2 q = mm_heap ?m1 q"
      using mbuf_free_mem [OF hd(2), of c ?m1] by auto
    have kept: "seg_kept m m2"
      using seg_kept_trans [OF seg_kept_updates(1) seg_kept_free [OF m2(1)]] .
    have ak: "acked m2 a = acked m a" by (rule ext) (simp add: acked_def seg_kept_simps [OF kept])
    have l2: "mlist (mm_heap m2) l1 xs" using mlist_heap_eq [OF pop(2)] m2(3) by blast
    have hp: "mb_payload_len (mm_heap ?m1 x) = mb_payload_len (mm_heap m x)"
      by (simp add: set_next_def heap_upd_def)
    have m1r: "mm_released ?m1 = mm_released m" "q \<noteq> x \<Longrightarrow> mm_heap ?m1 q = mm_heap m q" for q
      by (simp_all add: set_next_def heap_upd_def)
    obtain l' m' where r:
      "remove_acked_loop f c a l1 (h + ucast (mb_payload_len (mm_heap m x))) m2 =
         Inr (l', h + ucast (mb_payload_len (mm_heap m x))
                 + of_nat (seg_bytes m (takeWhile (acked m a) xs)), m')"
      "mlist (mm_heap m') l' (dropWhile (acked m a) xs)" "seg_kept m2 m'"
      "mm_released m' = mm_released m2 @ map (Pair c) (takeWhile (acked m a) xs)"
      "\<forall>p. p \<notin> set (takeWhile (acked m a) xs) \<longrightarrow> mm_heap m' p = mm_heap m2 p"
      using Cons.IH [OF l2, of f "h + ucast (mb_payload_len (mm_heap m x))"] Cons.prems(2) f unfolding ak seg_bytes_kept [OF kept] by auto
    have "remove_acked_loop fuel c a l h m =
        remove_acked_loop f c a l1 (h + ucast (mb_payload_len (mm_heap m x))) m2"
      using f hd pop(1) m2(1) hp True by (simp add: acked_def)
    then show ?thesis
      using r True m2(2,4) m1r seg_kept_trans [OF kept r(3)] by (auto simp: add.assoc)
  qed
qed

lemma acked_offset:
  assumes "seg_chain m s (as @ x # bs) e" "seg_bytes m (as @ x # bs) < 2 ^ 31" "unat (a - s) < 2 ^ 31"
  shows "acked m a x \<longleftrightarrow> seg_bytes m (as @ [x]) \<le> unat (a - s)"
  using seg_offset(2) [OF assms(1,2)] assms seq_window_simps(2) [of "seg_end m x" s a]
  by (simp add: acked_def)

text \<open>Acknowledged segments form a prefix, also across the two lists.\<close>

lemma acked_prefix:
  assumes "seg_chain m s (us @ rs @ qs) e" "seg_bytes m (us @ rs @ qs) < 2 ^ 31" "unat (a - s) < 2 ^ 31"
  shows "takeWhile (acked m a) us @ takeWhile (acked m a) rs = takeWhile (acked m a) (us @ rs)"
    "dropWhile (acked m a) us @ dropWhile (acked m a) rs = dropWhile (acked m a) (us @ rs)"
proof -
  have rs: "\<not> acked m a y" if x: "x \<in> set us" "\<not> acked m a x" and y: "y \<in> set rs" for x y
  proof -
    obtain as bs where us: "us = as @ x # bs" using split_list [OF x(1)] by blast
    obtain cs ds where rs: "rs = cs @ y # ds" using split_list [OF y] by blast
    have "\<not> seg_bytes m (as @ [x]) \<le> unat (a - s)"
      using acked_offset [of m s as x "bs @ rs @ qs" e a] assms us x(2) by simp
    then have "\<not> seg_bytes m ((us @ cs) @ [y]) \<le> unat (a - s)" using us by simp
    then show ?thesis
      using acked_offset [of m s "us @ cs" y "ds @ qs" e a] assms rs by simp
  qed
  have "(\<forall>x\<in>set us. acked m a x) \<or> (\<exists>x\<in>set us. \<not> acked m a x) \<and> (\<forall>y\<in>set rs. \<not> acked m a y)"
    using rs by blast
  moreover have "takeWhile (acked m a) rs = []" "dropWhile (acked m a) rs = rs"
    if "\<forall>y\<in>set rs. \<not> acked m a y" using that by (cases rs; simp)+
  ultimately show "takeWhile (acked m a) us @ takeWhile (acked m a) rs = takeWhile (acked m a) (us @ rs)"
    "dropWhile (acked m a) us @ dropWhile (acked m a) rs = dropWhile (acked m a) (us @ rs)"
    by (auto simp: takeWhile_append dropWhile_append)
qed

lemma filter_prefix:
  "(\<And>as x bs y. xs = as @ x # bs \<Longrightarrow> y \<in> set bs \<Longrightarrow> P y \<Longrightarrow> P x) \<Longrightarrow> filter P xs = takeWhile P xs"
proof (induction xs)
  case (Cons z zs)
  show ?case
  proof (cases "P z")
    case True
    have "filter P zs = takeWhile P zs"
      by (rule Cons.IH) (metis Cons.prems append_Cons)
    then show ?thesis using True by simp
  next
    case False
    then have "filter P zs = []" using Cons.prems [of "[]" z zs] by (auto simp: filter_empty_conv)
    then show ?thesis using False by simp
  qed
qed simp

lemma acked_filter:
  assumes "seg_chain m s (us @ rs @ qs) e" "seg_bytes m (us @ rs @ qs) < 2 ^ 31" "unat (a - s) < 2 ^ 31"
  shows "filter (acked m a) (us @ rs) = takeWhile (acked m a) (us @ rs)"
proof (rule filter_prefix)
  fix as x bs y
  assume eq: "us @ rs = as @ x # bs" and y: "y \<in> set bs" "acked m a y"
  obtain cs ds where bs: "bs = cs @ y # ds" using split_list [OF y(1)] by blast
  have all: "us @ rs @ qs = as @ x # (bs @ qs)" "us @ rs @ qs = (as @ x # cs) @ y # (ds @ qs)"
    using arg_cong [OF eq, of "\<lambda>zs. zs @ qs"] bs by simp_all
  have "seg_bytes m ((as @ x # cs) @ [y]) \<le> unat (a - s)"
    using acked_offset [of m s "as @ x # cs" y "ds @ qs" e a, folded all(2)] assms y(2) by simp
  then show "acked m a x"
    using acked_offset [of m s as x "bs @ qs" e a, folded all(1)] assms by simp
qed

lemma acked_bytes:
  assumes "seg_chain m s (xs @ qs) e" "seg_bytes m (xs @ qs) < 2 ^ 31" "unat (a - s) < 2 ^ 31"
  shows "seg_bytes m (takeWhile (acked m a) xs) \<le> unat (a - s)"
proof (cases "takeWhile (acked m a) xs" rule: rev_cases)
  case (snoc ys y)
  then have y: "acked m a y" by (metis in_set_conv_decomp set_takeWhileD)
  have "xs = ys @ y # dropWhile (acked m a) xs"
    using takeWhile_dropWhile_id [of "acked m a" xs] snoc by simp
  then have eq: "xs @ qs = ys @ y # dropWhile (acked m a) xs @ qs"
    by (metis append.assoc append_Cons)
  show ?thesis
    using acked_offset [of m s ys y "dropWhile (acked m a) xs @ qs" e a, folded eq] assms y snoc by simp
qed simp

lemma sb_remove_acked_lists:
  assumes rel: "sb_rel m b us rs qs hs"
  shows "\<exists>b' m'. sb_remove_acked c b a m = Inr (SUCCESS, b', m')
    \<and> sb_rel m' b' (dropWhile (acked m a) us) (dropWhile (acked m a) rs) qs hs
    \<and> sb_head_seq b' = sb_head_seq b + of_nat (seg_bytes m (takeWhile (acked m a) us))
        + of_nat (seg_bytes m (takeWhile (acked m a) rs))
    \<and> sb_next_seq b' = sb_next_seq b \<and> sb_size b' = sb_size b \<and> seg_kept m m'
    \<and> mm_released m' = mm_released m @
        map (Pair c) (takeWhile (acked m a) us @ takeWhile (acked m a) rs)
    \<and> (\<forall>p. p \<notin> set us \<union> set rs \<longrightarrow> mm_heap m' p = mm_heap m p)"
proof -
  let ?ak = "acked m a"
  have us: "mlist (mm_heap m) (sb_uack_list b) us" "length us \<le> mm_count m"
    and rs: "mlist (mm_heap m) (sb_retrans_list b) rs" "length rs \<le> mm_count m"
    and dj: "set us \<inter> set rs = {}"
    using rel by (auto simp: sb_rel_def intro: pool_bound)
  obtain ul m1 where 1: "remove_acked_loop (Suc (mm_count m)) c a (sb_uack_list b) (sb_head_seq b) m =
        Inr (ul, sb_head_seq b + of_nat (seg_bytes m (takeWhile ?ak us)), m1)"
      "mlist (mm_heap m1) ul (dropWhile ?ak us)" "seg_kept m m1"
      "mm_released m1 = mm_released m @ map (Pair c) (takeWhile ?ak us)"
      "\<forall>p. p \<notin> set (takeWhile ?ak us) \<longrightarrow> mm_heap m1 p = mm_heap m p"
    using remove_acked_loop_spec [OF us(1), of "Suc (mm_count m)" c a "sb_head_seq b"] us(2) by auto
  have ak: "acked m1 a = ?ak" by (rule ext) (simp add: acked_def seg_kept_simps [OF 1(3)])
  have "p \<in> set rs \<Longrightarrow> mm_heap m1 p = mm_heap m p" for p
    using 1(5) dj by (metis IntI emptyE set_takeWhileD)
  then have rs1: "mlist (mm_heap m1) (sb_retrans_list b) rs" using mlist_heap_eq [OF rs(1)] by auto
  obtain rl m2 where 2: "remove_acked_loop (Suc (mm_count m1)) c a (sb_retrans_list b)
        (sb_head_seq b + of_nat (seg_bytes m (takeWhile ?ak us))) m1 =
        Inr (rl, sb_head_seq b + of_nat (seg_bytes m (takeWhile ?ak us))
             + of_nat (seg_bytes m (takeWhile ?ak rs)), m2)"
      "mlist (mm_heap m2) rl (dropWhile ?ak rs)" "seg_kept m1 m2"
      "mm_released m2 = mm_released m1 @ map (Pair c) (takeWhile ?ak rs)"
      "\<forall>p. p \<notin> set (takeWhile ?ak rs) \<longrightarrow> mm_heap m2 p = mm_heap m1 p"
    using remove_acked_loop_spec [OF rs1, of "Suc (mm_count m1)" c a
        "sb_head_seq b + of_nat (seg_bytes m (takeWhile ?ak us))"] rs(2) 1(3)
    unfolding ak seg_bytes_kept [OF 1(3)] by (auto simp: seg_kept_def)
  have "p \<in> set us \<Longrightarrow> mm_heap m2 p = mm_heap m1 p" for p
    using 2(5) dj by (metis IntI emptyE set_takeWhileD)
  then have "mlist (mm_heap m2) ul (dropWhile ?ak us)"
    using mlist_heap_eq [OF 1(2)] by (metis set_dropWhileD)
  then have "sb_rel m2 (b\<lparr>sb_uack_list := ul, sb_retrans_list := rl, sb_head_seq := h\<rparr>)
      (dropWhile ?ak us) (dropWhile ?ak rs) qs hs" for h
    using rel 2(2) seg_kept_trans [OF 1(3) 2(3)]
    by (auto simp: sb_rel_def seg_kept_def dest: set_dropWhileD)
  moreover have "\<forall>p. p \<notin> set us \<union> set rs \<longrightarrow> mm_heap m2 p = mm_heap m p"
    using 1(5) 2(5) by (metis UnI1 UnI2 set_takeWhileD)
  ultimately show ?thesis
    using 1(1,4) 2(1,4) seg_kept_trans [OF 1(3) 2(3)] by (auto simp: sb_remove_acked_def)
qed

section \<open>Putting data in\<close>

lemma ucast_u16_u32:
  "(ucast (ucast (w :: u16) :: u32) :: u16) = w" "sint (ucast (w :: u16) :: u32) = int (unat w)"
proof -
  show "(ucast (ucast w :: u32) :: u16) = w" by transfer (simp add: take_bit_take_bit)
  show "sint (ucast w :: u32) = int (unat w)"
    using sint_diff_small [of "ucast w" 0] unat16_le [of w] by (simp add: unat_ucast16)
qed

lemma sb_put_kept:
  assumes r: "sb_put b x m = (r, b', m')" and ne: "mb_payload_len (mm_heap m x) \<noteq> 0"
    and fit: "ucast (mb_payload_len (mm_heap m x)) \<le> sb_size b - sb_len b"
  shows "mm_heap m' = (mm_heap m)(x := (mm_heap m x)\<lparr>mb_tcp_seq := sb_next_seq b, mb_state := MBUF_STATE_TBUFFED\<rparr>)"
    "mm_count m' = mm_count m" "mm_released m' = mm_released m"
    "sb_next_seq b' = sb_next_seq b + ucast (mb_payload_len (mm_heap m x))"
    "sb_head_seq b' = sb_head_seq b" "sb_uack_list b' = sb_uack_list b"
    "sb_retrans_list b' = sb_retrans_list b" "sb_size b' = sb_size b"
    "\<not> mb_priority (mm_heap m x) \<Longrightarrow> sb_husnd_q b' = sb_husnd_q b"
    "\<not> mb_priority (mm_heap m x) \<Longrightarrow> mbufq_enqueue (sb_usnd_q b) x = (q, u) \<Longrightarrow> sb_usnd_q b' = u \<and>
       r = (if q = SUCCESS then int (unat (mb_payload_len (mm_heap m x))) else FAILED)"
proof -
  let ?len = "ucast (mb_payload_len (mm_heap m x)) :: u32"
  have len: "min ?len (sb_size b - sb_len b) = ?len" "\<not> ?len \<le> 0"
    using fit ne unat_ucast16 [of "mb_payload_len (mm_heap m x)"]
    by (simp_all add: min_def word_unat_eq_iff)
  note u = ucast_u16_u32
  show "mm_heap m' = (mm_heap m)(x := (mm_heap m x)\<lparr>mb_tcp_seq := sb_next_seq b, mb_state := MBUF_STATE_TBUFFED\<rparr>)"
    "mm_count m' = mm_count m" "mm_released m' = mm_released m"
    "sb_next_seq b' = sb_next_seq b + ?len"
    "sb_head_seq b' = sb_head_seq b" "sb_uack_list b' = sb_uack_list b"
    "sb_retrans_list b' = sb_retrans_list b" "sb_size b' = sb_size b"
    using r len u by (auto simp: sb_put_def Let_def heap_upd_def split: if_splits prod.splits)
  show "\<not> mb_priority (mm_heap m x) \<Longrightarrow> sb_husnd_q b' = sb_husnd_q b"
    "\<not> mb_priority (mm_heap m x) \<Longrightarrow> mbufq_enqueue (sb_usnd_q b) x = (q, u) \<Longrightarrow> sb_usnd_q b' = u \<and>
       r = (if q = SUCCESS then int (unat (mb_payload_len (mm_heap m x))) else FAILED)"
    using r len u by (auto simp: sb_put_def Let_def heap_upd_def split: if_splits prod.splits)
qed

section \<open>Preparing the retransmission\<close>

lemma mark_loss_spec:
  "chain (mm_heap m) p xs \<Longrightarrow> distinct xs \<Longrightarrow> length xs \<le> fuel \<Longrightarrow>
   \<exists>m'. mark_loss fuel p m = Inr m' \<and> seg_kept m m' \<and> mm_released m' = mm_released m
     \<and> (\<forall>q. mb_buf_next (mm_heap m' q) = mb_buf_next (mm_heap m q))
     \<and> (\<forall>q. q \<notin> set xs \<longrightarrow> mm_heap m' q = mm_heap m q)
     \<and> (\<forall>q\<in>set xs. mb_state (mm_heap m' q) = MBUF_STATE_LOSS)"
proof (induction xs arbitrary: p m fuel)
  case Nil
  then show ?case by (cases fuel) auto
next
  case (Cons x xs)
  then obtain f where f: "fuel = Suc f" by (cases fuel) auto
  have p: "p = x" "x \<noteq> NULL" using Cons.prems by auto
  let ?m = "set_mbuf_state MBUF_STATE_LOSS x m"
  have nx: "mb_buf_next (mm_heap ?m q) = mb_buf_next (mm_heap m q)" for q
    by (simp add: set_mbuf_state_def heap_upd_def)
  have m: "mm_released ?m = mm_released m" "q \<noteq> x \<Longrightarrow> mm_heap ?m q = mm_heap m q"
      "mb_state (mm_heap ?m x) = MBUF_STATE_LOSS" for q
    by (simp_all add: set_mbuf_state_def heap_upd_def)
  have "chain (mm_heap ?m) (mb_buf_next (mm_heap ?m x)) xs"
    using Cons.prems(1) chain_heap_eq [of "mm_heap m" _ xs "mm_heap ?m"] nx by auto
  then obtain m' where m': "mark_loss f (mb_buf_next (mm_heap ?m x)) ?m = Inr m'" "seg_kept ?m m'"
      "mm_released m' = mm_released ?m" "\<forall>q. mb_buf_next (mm_heap m' q) = mb_buf_next (mm_heap ?m q)"
      "\<forall>q. q \<notin> set xs \<longrightarrow> mm_heap m' q = mm_heap ?m q"
      "\<forall>q\<in>set xs. mb_state (mm_heap m' q) = MBUF_STATE_LOSS"
    using Cons.IH [of ?m "mb_buf_next (mm_heap ?m x)" f] Cons.prems f by auto
  moreover have "seg_kept m m'" using seg_kept_trans [OF seg_kept_updates(3) m'(2)] .
  moreover have "mb_state (mm_heap m' x) = MBUF_STATE_LOSS" using m'(5) m(3) Cons.prems(2) by simp
  ultimately show ?case using f p nx m by (auto simp: Let_def)
qed

lemma sb_reset_retrans_spec:
  assumes rel: "sb_rel m b us rs qs hs"
  shows "(us = [] \<longrightarrow> sb_reset_retrans b m = Inr (Some FAILED, b, m))
    \<and> (us \<noteq> [] \<and> rs \<noteq> [] \<longrightarrow> sb_reset_retrans b m = Inr (Some ERROR, b, m))
    \<and> (us \<noteq> [] \<and> rs = [] \<longrightarrow> (\<exists>b' m'. sb_reset_retrans b m = Inr (None, b', m')
         \<and> sb_rel m' b' [] us qs hs \<and> seg_kept m m'
         \<and> (\<forall>q. mb_buf_next (mm_heap m' q) = mb_buf_next (mm_heap m q))
         \<and> (\<forall>p\<in>set us. mb_state (mm_heap m' p) = MBUF_STATE_LOSS)
         \<and> (\<forall>p. p \<notin> set us \<longrightarrow> mm_heap m' p = mm_heap m p)))"
proof -
  have l: "mlist (mm_heap m) (sb_uack_list b) us" "mlist (mm_heap m) (sb_retrans_list b) rs"
    and n: "length us \<le> mm_count m"
    using rel by (auto simp: sb_rel_def intro: pool_bound)
  note e = mlist_empty_iff [OF l(1)] mlist_empty_iff [OF l(2)]
  have c: "chain (mm_heap m) (ml_head (sb_uack_list b)) us" "distinct us" using l(1) by (auto simp: mlist_def)
  obtain m' where m': "mark_loss (mm_count m) (ml_head (sb_uack_list b)) m = Inr m'" "seg_kept m m'"
      "\<forall>q. mb_buf_next (mm_heap m' q) = mb_buf_next (mm_heap m q)"
      "\<forall>q. q \<notin> set us \<longrightarrow> mm_heap m' q = mm_heap m q"
      "\<forall>q\<in>set us. mb_state (mm_heap m' q) = MBUF_STATE_LOSS"
    using mark_loss_spec [OF c n] by blast
  have l': "mlist (mm_heap m') k zs = mlist (mm_heap m) k zs" for k zs
    by (rule mlist_next_cong) (use m'(3) in simp)
  let ?b = "b\<lparr>sb_retrans_list := sb_uack_list b, sb_uack_list := \<lparr>ml_head = NULL, ml_tail = NULL\<rparr>\<rparr>"
  have "sb_rel m' ?b [] us qs hs"
    using rel m'(2) by (simp add: sb_rel_def l' seg_kept_simps) (simp add: mlist_def)
  then show ?thesis using e m' by (auto simp: sb_reset_retrans_def)
qed

section \<open>Releasing the buffer\<close>

lemma sb_free_spec:
  assumes rel: "sb_rel m b us rs qs hs"
  shows "\<exists>b' m'. sb_free c b m = Inr (SUCCESS, b', m') \<and> sb_rel m' b' [] [] [] hs
    \<and> mm_released m' = mm_released m @ map (Pair c) (qs @ us @ rs) \<and> seg_kept m m'
    \<and> (\<forall>p. mb_buf_next (mm_heap m' p) = mb_buf_next (mm_heap m p))"
proof -
  have wf: "dir_cirq_wf (sb_usnd_q b)" "NULL \<notin> set (cirq_list (sb_usnd_q b))" "cirq_list (sb_usnd_q b) = qs"
    using rel by (auto simp: sb_rel_def)
  have l: "mlist (mm_heap m) (sb_uack_list b) us" "mlist (mm_heap m) (sb_retrans_list b) rs"
    "length us \<le> mm_count m" "length rs \<le> mm_count m"
    using rel by (auto simp: sb_rel_def intro: pool_bound)
  obtain q m1 where m1: "mbufq_clear c (sb_usnd_q b) m = Inr (q, m1)" "dir_cirq_wf q" "cirq_list q = []"
      "mm_released m1 = mm_released m @ map (Pair c) qs" "mm_count m1 = mm_count m"
      "\<forall>p. mb_buf_next (mm_heap m1 p) = mb_buf_next (mm_heap m p)"
    using mbufq_clear_frees [OF wf(1,2), of c m] wf(3) by auto
  have k1: "seg_kept m m1" using mbufq_clear_kept [OF m1(1)] .
  have c1: "chain (mm_heap m1) (ml_head (sb_uack_list b)) us" "distinct us"
    using mlist_heap_eq [OF l(1)] m1(6) by (auto simp: mlist_def)
  obtain m2 where m2: "list_free_loop (mm_count m1) c (ml_head (sb_uack_list b)) m1 = Inr m2"
      "mm_released m2 = mm_released m1 @ map (Pair c) us" "mm_count m2 = mm_count m1"
      "\<forall>p. mb_buf_next (mm_heap m2 p) = mb_buf_next (mm_heap m1 p)"
    using list_free_loop_chain [OF c1, of "mm_count m1" c] l(3) m1(5) by auto
  have c2: "chain (mm_heap m2) (ml_head (sb_retrans_list b)) rs" "distinct rs"
    using mlist_heap_eq [OF l(2)] m1(6) m2(4) by (auto simp: mlist_def)
  obtain m3 where m3: "list_free_loop (mm_count m2) c (ml_head (sb_retrans_list b)) m2 = Inr m3"
      "mm_released m3 = mm_released m2 @ map (Pair c) rs" "mm_count m3 = mm_count m2"
      "\<forall>p. mb_buf_next (mm_heap m3 p) = mb_buf_next (mm_heap m2 p)"
    using list_free_loop_chain [OF c2, of "mm_count m2" c] l(4) m1(5) m2(3) by auto
  have "seg_kept m m3"
    using seg_kept_trans [OF k1 seg_kept_trans [OF list_free_loop_kept [OF m2(1)] list_free_loop_kept [OF m3(1)]]] .
  then show ?thesis
    using rel m1 m2 m3 by (auto simp: sb_free_def mbuf_list_free_def sb_rel_def mlist_def)
qed

section \<open>Main properties\<close>

text \<open>
  C25 (invariant). Data the application puts into a buffer with room in its queue is appended
  unchanged behind everything not yet acknowledged: the call returns the number of bytes, the mbuf
  gets the next sequence number, and the buffer still holds every byte between \<^verbatim>\<open>head_seq\<close>
  and \<^verbatim>\<open>next_seq\<close> once and in order.
\<close>

theorem sb_put_appends:
  assumes rel: "sb_rel m b us rs qs []" and contig: "sb_contig m b (us @ rs @ qs)"
    and x: "x \<noteq> NULL" "x \<notin> set (us @ rs @ qs)" "\<not> mb_priority (mm_heap m x)"
      "mb_payload_len (mm_heap m x) \<noteq> 0"
    and fit: "ucast (mb_payload_len (mm_heap m x)) \<le> sb_size b - sb_len b" and room: "length qs < 7"
  shows "\<exists>b' m'. sb_put b x m = (int (unat (mb_payload_len (mm_heap m x))), b', m')
    \<and> sb_rel m' b' us rs (qs @ [x]) [] \<and> sb_contig m' b' (us @ rs @ qs @ [x])
    \<and> seg_seq m' x = sb_next_seq b \<and> sb_len b' = sb_len b + ucast (mb_payload_len (mm_heap m x))"
proof -
  obtain r b' m' where r: "sb_put b x m = (r, b', m')" by (cases "sb_put b x m")
  note k = sb_put_kept [OF r x(4) fit]
  have wf: "dir_cirq_wf (sb_usnd_q b)" "cirq_list (sb_usnd_q b) = qs" using rel by (auto simp: sb_rel_def)
  obtain u where u: "mbufq_enqueue (sb_usnd_q b) x = (SUCCESS, u)" "cirq_list u = qs @ [x]" "dir_cirq_wf u"
    using mbufq_enqueue_room [OF wf(1), of x] wf(2) room by auto
  have l: "mlist (mm_heap m') l zs = mlist (mm_heap m) l zs" for l zs
    by (rule mlist_next_cong) (simp add: k(1))
  have old: "seg_seq m' p = seg_seq m p" "seg_end m' p = seg_end m p" if "p \<noteq> x" for p
    using that by (simp_all add: seg_seq_def seg_end_def k(1))
  have ch: "seg_chain m' s zs e = seg_chain m s zs e" if "x \<notin> set zs" for s zs e
    using that by (induction zs arbitrary: s) (auto simp: old)
  have new: "seg_seq m' x = sb_next_seq b" "seg_end m' x = sb_next_seq b'"
    by (simp_all add: seg_seq_def seg_end_def k(1,4))
  have "seg_chain m' (sb_head_seq b') ((us @ rs @ qs) @ [x]) (sb_next_seq b')"
    using contig ch [OF x(2)] new unfolding seg_chain_snoc by (simp add: sb_contig_def k(5))
  moreover have "sb_rel m' b' us rs (qs @ [x]) []"
    using rel u x(1) k(10) [OF x(3) u(1)] k(9) [OF x(3)]
    by (simp add: sb_rel_def l k(2,6,7))
  ultimately show ?thesis
    using r k(10) [OF x(3) u(1)] new(1) by (simp add: sb_contig_def sb_len_def k(4,5))
qed

text \<open>An empty send buffer at sequence number 1000 and mbufs of 256 bytes to send.\<close>

definition sb0 :: tcp_send_buffer where
  "sb0 = \<lparr>sb_usnd_q = dq0, sb_husnd_q = dq0, sb_uack_list = \<lparr>ml_head = NULL, ml_tail = NULL\<rparr>,
     sb_retrans_list = \<lparr>ml_head = NULL, ml_tail = NULL\<rparr>, sb_size = 11200, sb_head_seq = 1000,
     sb_next_seq = 1000\<rparr>"

lemma sb0: "sb_rel m sb0 [] [] [] []" "sb_contig m sb0 []" "sb_len sb0 = 0" "sb_size sb0 = 11200"
  using dq0 by (simp_all add: sb_rel_def sb0_def mlist_def sb_contig_def sb_len_def)

theorem sb_put_appends_witness:
  "\<exists>b' m'. sb_put sb0 5 mem_segs = (256, b', m') \<and> sb_rel m' b' [] [] [5] []"
proof -
  have "\<not> mb_priority (mm_heap mem_segs 5)" "mb_payload_len (mm_heap mem_segs 5) = 256"
    by (simp_all add: sample_defs)
  then show ?thesis
    using sb_put_appends [OF sb0(1), of mem_segs 5] sb0(2-) by (auto simp: sb_contig_def sb0_def)
qed

text \<open>
  Putting data into a full queue returns \<^verbatim>\<open>FAILED\<close> but has already moved
  \<^verbatim>\<open>next_seq\<close> over it: the buffer no longer covers its sequence range, so the next data put
  starts after a hole that no segment will ever fill.
\<close>

lemma sb_put_full_hole:
  assumes rel: "sb_rel m b us rs qs hs" and contig: "sb_contig m b (us @ rs @ qs)"
    and x: "x \<notin> set (us @ rs @ qs)" "\<not> mb_priority (mm_heap m x)" "mb_payload_len (mm_heap m x) \<noteq> 0"
    and fit: "ucast (mb_payload_len (mm_heap m x)) \<le> sb_size b - sb_len b" and full: "length qs = 7"
  shows "\<exists>b' m'. sb_put b x m = (FAILED, b', m') \<and> cirq_list (sb_usnd_q b') = qs
    \<and> sb_next_seq b' = sb_next_seq b + ucast (mb_payload_len (mm_heap m x))
    \<and> \<not> sb_contig m' b' (us @ rs @ qs)"
proof -
  obtain r b' m' where r: "sb_put b x m = (r, b', m')" by (cases "sb_put b x m")
  note k = sb_put_kept [OF r x(3) fit]
  have "dir_cirq_wf (sb_usnd_q b)" "cirq_list (sb_usnd_q b) = qs" using rel by (auto simp: sb_rel_def)
  then have u: "mbufq_enqueue (sb_usnd_q b) x = (FAILED, sb_usnd_q b)" "cirq_list (sb_usnd_q b) = qs"
    using mbufq_enqueue_full [of "sb_usnd_q b" x] full by auto
  have ch: "seg_chain m' s zs e = seg_chain m s zs e" if "x \<notin> set zs" for s zs e
    using that by (induction zs arbitrary: s) (auto simp: seg_seq_def seg_end_def k(1))
  have uniq: "seg_chain m s zs e \<Longrightarrow> seg_chain m s zs e' \<Longrightarrow> e = e'" for s zs e e'
    using seg_chain_bytes by metis
  have "sb_next_seq b' \<noteq> sb_next_seq b"
    using x(3) unat_ucast16 [of "mb_payload_len (mm_heap m x)"] by (auto simp: k(4) unat_eq_0)
  then have "\<not> sb_contig m' b' (us @ rs @ qs)"
    using contig ch [OF x(1)] uniq by (auto simp: sb_contig_def k(5))
  then show ?thesis using r k(10) [OF x(2) u(1)] u(2) k(4) by simp
qed

definition sb_full :: tcp_send_buffer where
  "sb_full = sb0\<lparr>sb_usnd_q := dq0\<lparr>cq_queue := [1, 2, 3, 4, 5, 6, 7, 0], cq_head := 7\<rparr>,
     sb_head_seq := 0xFFFFFF00, sb_next_seq := 0x600\<rparr>"

lemma sb_full:
  "sb_rel mem_segs sb_full [] [] [1, 2, 3, 4, 5, 6, 7] []"
  "sb_contig mem_segs sb_full [1, 2, 3, 4, 5, 6, 7]"
proof -
  have "dir_cirq_wf (sb_usnd_q sb_full)" "cirq_list (sb_usnd_q sb_full) = [1, 2, 3, 4, 5, 6, 7]"
    by (simp_all add: sb_full_def sb0_def sample_defs dir_cirq_wf_def cirq_wf_def cirq_list_def
        cirq_count_def STATIC_BUFF_SIZE_def ring_slice_def upt_rec)
  then show "sb_rel mem_segs sb_full [] [] [1, 2, 3, 4, 5, 6, 7] []"
    using sb0(1) [of mem_segs] by (auto simp: sb_rel_def sb_full_def)
qed (simp add: sb_contig_def sb_full_def sb0_def sample_defs)

lemma sb_put_full_hole_witness:
  "\<exists>b' m'. sb_put sb_full 8 mem_segs = (FAILED, b', m') \<and> sb_next_seq b' = 0x700"
proof -
  have "\<not> mb_priority (mm_heap mem_segs 8)" "mb_payload_len (mm_heap mem_segs 8) = 256"
      "sb_next_seq sb_full = 0x600" "sb_size sb_full - sb_len sb_full = 9408"
    by (simp_all add: sample_defs sb_full_def sb0_def sb_len_def)
  then show ?thesis
    using sb_put_full_hole [OF sb_full(1), of 8] sb_full(2) by auto
qed

lemma sb_acked_exact:
  assumes rel: "sb_rel m b us rs qs hs" and contig: "sb_contig m b (us @ rs @ qs)"
    and small: "seg_bytes m (us @ rs @ qs) < 2 ^ 31" and a: "unat (a - sb_head_seq b) < 2 ^ 31"
  shows "\<exists>b' m'. sb_remove_acked c b a m = Inr (SUCCESS, b', m')
    \<and> sb_rel m' b' (dropWhile (acked m a) us) (dropWhile (acked m a) rs) qs hs
    \<and> sb_contig m' b' (dropWhile (acked m a) us @ dropWhile (acked m a) rs @ qs)
    \<and> mm_released m' = mm_released m @ map (Pair c) (filter (acked m a) (us @ rs))
    \<and> TCP_SEQ_LEQ (sb_head_seq b') a"
proof -
  let ?ak = "acked m a" and ?h = "sb_head_seq b"
  have ch: "seg_chain m ?h (us @ rs @ qs) (sb_next_seq b)" using contig by (simp add: sb_contig_def)
  note pre = acked_prefix [OF ch small a]
  obtain b' m' where r: "sb_remove_acked c b a m = Inr (SUCCESS, b', m')"
      "sb_rel m' b' (dropWhile ?ak us) (dropWhile ?ak rs) qs hs"
      "sb_head_seq b' = ?h + of_nat (seg_bytes m (takeWhile ?ak us)) + of_nat (seg_bytes m (takeWhile ?ak rs))"
      "sb_next_seq b' = sb_next_seq b" "seg_kept m m'"
      "mm_released m' = mm_released m @ map (Pair c) (takeWhile ?ak us @ takeWhile ?ak rs)"
    using sb_remove_acked_lists [OF rel, of c a] by blast
  have h': "sb_head_seq b' = ?h + of_nat (seg_bytes m (takeWhile ?ak (us @ rs)))"
    using r(3) by (simp add: pre(1) [symmetric])
  have "seg_chain m ?h (takeWhile ?ak (us @ rs) @ dropWhile ?ak (us @ rs) @ qs) (sb_next_seq b)"
    using ch by (metis append.assoc takeWhile_dropWhile_id)
  then have "seg_chain m (sb_head_seq b') (dropWhile ?ak (us @ rs) @ qs) (sb_next_seq b')"
    using seg_chain_bytes h' r(4) unfolding seg_chain_append by metis
  then have c': "sb_contig m' b' (dropWhile ?ak us @ dropWhile ?ak rs @ qs)"
    by (simp add: sb_contig_def seg_kept_simps [OF r(5)] pre(2) [symmetric])
  have le: "seg_bytes m (takeWhile ?ak (us @ rs)) \<le> unat (a - ?h)"
    using acked_bytes [of m ?h "us @ rs" qs "sb_next_seq b" a] ch small a by simp
  have "unat (sb_head_seq b' - ?h) = seg_bytes m (takeWhile ?ak (us @ rs))"
    using le a by (simp add: h' unat_of_nat_u32 del: seg_bytes_simps)
  then have "TCP_SEQ_LEQ (sb_head_seq b') a" using le a by (simp add: seq_window_simps(2) [where base = ?h])
  moreover have "filter ?ak (us @ rs) = takeWhile ?ak (us @ rs)"
    using acked_filter [OF ch small a] .
  ultimately show ?thesis using r c' pre(1) by metis
qed

text \<open>
  C26 (functional). An acknowledgement between \<^verbatim>\<open>head_seq\<close> and \<^verbatim>\<open>next_seq\<close> frees
  exactly the segments it covers completely, each once and in order, from the unacknowledged and
  then from the retransmission list; \<^verbatim>\<open>head_seq\<close> ends at the first byte still held, never
  after the acknowledged one, and the buffer stays contiguous.
\<close>

theorem sb_remove_acked_exact:
  assumes rel: "sb_rel m b us rs qs hs" and contig: "sb_contig m b (us @ rs @ qs)"
    and small: "seg_bytes m (us @ rs @ qs) < 2 ^ 31" and a: "unat (a - sb_head_seq b) < 2 ^ 31"
  shows "\<exists>b' m'. sb_remove_acked c b a m = Inr (SUCCESS, b', m')
    \<and> sb_rel m' b' (dropWhile (acked m a) us) (dropWhile (acked m a) rs) qs hs
    \<and> sb_contig m' b' (dropWhile (acked m a) us @ dropWhile (acked m a) rs @ qs)
    \<and> mm_released m' = mm_released m @ map (Pair c) (filter (acked m a) (us @ rs))
    \<and> TCP_SEQ_LEQ (sb_head_seq b') a"
  using assms by (rule sb_acked_exact)

definition sb_sent :: tcp_send_buffer where
  "sb_sent = sb0\<lparr>sb_uack_list := \<lparr>ml_head = 1, ml_tail = 2\<rparr>, sb_retrans_list := \<lparr>ml_head = 3, ml_tail = 3\<rparr>,
     sb_head_seq := 0xFFFFFF00, sb_next_seq := 0x200\<rparr>"

definition mem_sent :: mbufs where
  "mem_sent = mem_segs\<lparr>mm_heap := seg0(1 := (seg0 1)\<lparr>mb_buf_next := 2\<rparr>)\<rparr>"

lemma sb_sent:
  "sb_rel mem_sent sb_sent [1, 2] [3] [] []" "sb_contig mem_sent sb_sent [1, 2, 3]"
  using sb0(1) [of mem_sent]
  by (simp_all add: sb_rel_def sb_contig_def sb_sent_def mlist_def mem_sent_def seg0_def
      mbuf0_def mem_segs_def seg_seq_def seg_end_def sb0_def)

theorem sb_remove_acked_exact_witness:
  "\<exists>b' m'. sb_remove_acked 0 sb_sent 0x80 mem_sent = Inr (SUCCESS, b', m')
     \<and> mm_released m' = [(0, 1)] \<and> sb_rel m' b' [2] [3] [] []"
proof -
  have ak: "acked mem_sent 0x80 1" "\<not> acked mem_sent 0x80 2" "\<not> acked mem_sent 0x80 3"
      "seg_bytes mem_sent ([1, 2] @ [3] @ []) < 2 ^ 31" "unat (0x80 - sb_head_seq sb_sent) < 2 ^ 31"
      "mm_released mem_sent = []"
    by (simp_all add: acked_def mem_sent_def sb_sent_def seg0_def mbuf0_def mem_segs_def seg_end_def
        seq_defs sb0_def)
  then show ?thesis
    using sb_remove_acked_exact [OF sb_sent(1) _ ak(4,5), of 0] sb_sent(2) by auto
qed

text \<open>
  \<^verbatim>\<open>sb_reset_retrans\<close> refuses when nothing is unacknowledged or a
  retransmission is still under way, and otherwise moves all unacknowledged segments in order to
  the retransmission list and marks each of them lost; then it returns no value.
\<close>

lemma sb_reset_retrans_moves:
  assumes rel: "sb_rel m b us rs qs hs"
  shows "(us = [] \<longrightarrow> sb_reset_retrans b m = Inr (Some FAILED, b, m))
    \<and> (us \<noteq> [] \<and> rs \<noteq> [] \<longrightarrow> sb_reset_retrans b m = Inr (Some ERROR, b, m))
    \<and> (us \<noteq> [] \<and> rs = [] \<longrightarrow> (\<exists>b' m'. sb_reset_retrans b m = Inr (None, b', m')
         \<and> sb_rel m' b' [] us qs hs \<and> seg_kept m m'
         \<and> (\<forall>p\<in>set us. mb_state (mm_heap m' p) = MBUF_STATE_LOSS)
         \<and> (\<forall>p. p \<notin> set us \<longrightarrow> mm_heap m' p = mm_heap m p)))"
  using sb_reset_retrans_spec [OF rel] by blast

theorem sb_reset_retrans_moves_witness:
  "\<exists>b' m'. sb_reset_retrans (sb_sent\<lparr>sb_retrans_list := \<lparr>ml_head = NULL, ml_tail = NULL\<rparr>\<rparr>) mem_sent
     = Inr (None, b', m') \<and> sb_rel m' b' [] [1, 2] [] []"
proof -
  have "sb_rel mem_sent (sb_sent\<lparr>sb_retrans_list := \<lparr>ml_head = NULL, ml_tail = NULL\<rparr>\<rparr>) [1, 2] [] [] []"
    using sb_sent(1) by (simp add: sb_rel_def) (simp add: mlist_def)
  from sb_reset_retrans_moves [OF this] show ?thesis by auto
qed

text \<open>
  \<^verbatim>\<open>sb_free\<close> gives back the data of low priority and of both lists, each mbuf
  once, but leaves \<^verbatim>\<open>husnd_q\<close> as it is: unsent data of high priority is never released.
\<close>

lemma sb_free_leaves_high:
  assumes rel: "sb_rel m b us rs qs hs"
  shows "\<exists>b' m'. sb_free c b m = Inr (SUCCESS, b', m') \<and> sb_rel m' b' [] [] [] hs
    \<and> mm_released m' = mm_released m @ map (Pair c) (qs @ us @ rs)"
  using sb_free_spec [OF rel, of c] by blast

lemma sb_free_leaves_high_witness:
  "\<exists>b' m'. sb_free 0 sb_sent mem_sent = Inr (SUCCESS, b', m') \<and> mm_released m' = [(0, 1), (0, 2), (0, 3)]"
  using sb_free_leaves_high [OF sb_sent(1), of 0] by (auto simp: mem_sent_def mem_segs_def)

end
