(* ===== verification/Arp_Table.thy ===== *)
theory Arp_Table
  imports Protocol
begin

text \<open>
  The tables of \<^verbatim>\<open>arp.c\<close>: the hash table of learned addresses, the queue of requests in
  progress and the static table that the configuration fills. The hash table is an array of linked
  lists, here lists, and implements a finite map from addresses to hardware addresses
  (\<open>keyed_table\<close>). Memory for an entry comes from \<^verbatim>\<open>calloc\<close>, whose successes and
  failures are a sequence in the state.
\<close>

section \<open>State\<close>

record arp_table =
  at_ip :: u32
  at_ip_mask :: u32
  at_haddr :: "u8 list"
  at_last_used :: u32

record arp_queue_entry =
  aq_ip :: u32
  aq_nif_out :: nat
  aq_ts_out :: u32

record arp_state =
  ar_tables :: "arp_table list list"
  ar_list :: "arp_queue_entry list"
  ar_sarp_table :: "arp_table list"
  ar_sarp_num :: u32
  ar_calloc :: "nat \<Rightarrow> bool"
  ar_calloc_idx :: nat

definition ETH_ALEN :: nat where "ETH_ALEN = 6"
definition ARP_TABLE_SIZE :: u32 where "ARP_TABLE_SIZE = 16"
definition FULL_ARP_TABLE_SIZE :: nat where "FULL_ARP_TABLE_SIZE = 17"
definition STATIC_ARP_NUM :: nat where "STATIC_ARP_NUM = 16"

definition HASH :: "u32 \<Rightarrow> nat" where
  "HASH ip = unat (htonl ip AND (ARP_TABLE_SIZE - 1))"

definition arp_calloc :: "arp_state \<Rightarrow> bool \<times> arp_state" where
  "arp_calloc s = (ar_calloc s (ar_calloc_idx s), s\<lparr>ar_calloc_idx := ar_calloc_idx s + 1\<rparr>)"

section \<open>Learned addresses\<close>

definition arp_init :: "arp_state \<Rightarrow> int \<times> arp_state" where
  "arp_init s = (SUCCESS, s\<lparr>ar_tables := replicate FULL_ARP_TABLE_SIZE [], ar_list := []\<rparr>)"

text \<open>The walk over a bucket: the position of the entry for the address.\<close>

fun arp_find :: "u32 \<Rightarrow> arp_table list \<Rightarrow> nat option" where
  "arp_find ip [] = None"
| "arp_find ip (e # es) = (if at_ip e = ip then Some 0 else map_option Suc (arp_find ip es))"

definition arp_update :: "u32 \<Rightarrow> nat \<Rightarrow> u8 list \<Rightarrow> u32 \<Rightarrow> arp_table list list \<Rightarrow> arp_table list list" where
  "arp_update ip i haddr cur_ts t =
     t[HASH ip := (t ! HASH ip)[i := (t ! HASH ip ! i)\<lparr>at_haddr := haddr, at_last_used := cur_ts\<rparr>]]"

definition arp_add :: "u32 \<Rightarrow> u8 list \<Rightarrow> u32 \<Rightarrow> arp_table list list \<Rightarrow> arp_table list list" where
  "arp_add ip haddr cur_ts t =
     t[HASH ip := \<lparr>at_ip = ip, at_ip_mask = - 1, at_haddr = haddr, at_last_used = cur_ts\<rparr> # t ! HASH ip]"

definition register_arp_entry :: "u32 \<Rightarrow> u8 list \<Rightarrow> u32 \<Rightarrow> arp_state \<Rightarrow> int \<times> arp_state" where
  "register_arp_entry ip haddr cur_ts s =
     (case arp_find ip (ar_tables s ! HASH ip) of
        Some i \<Rightarrow> (SUCCESS, s\<lparr>ar_tables := arp_update ip i haddr cur_ts (ar_tables s)\<rparr>)
      | None \<Rightarrow>
          let (ok, s1) = arp_calloc s
          in if \<not> ok then (ERROR, s1)
             else (SUCCESS, s1\<lparr>ar_tables := arp_add ip haddr cur_ts (ar_tables s1)\<rparr>))"

section \<open>Static addresses\<close>

text \<open>
  \<^verbatim>\<open>sscanf\<close> stores each hexadecimal number as a whole \<^verbatim>\<open>unsigned int\<close>, four bytes in
  the processor's order, at consecutive bytes of the hardware address; the last store runs over its
  end into the padding and the first byte of \<^verbatim>\<open>last_used\<close>. \<open>vals\<close> are the numbers
  \<^verbatim>\<open>sscanf\<close> read, \<open>ip\<close> is what \<^verbatim>\<open>inet_addr\<close> returned.
\<close>

definition le_bytes :: "u32 \<Rightarrow> u8 list" where
  "le_bytes v = [ucast v, ucast (drop_bit 8 v), ucast (drop_bit 16 v), ucast (drop_bit 24 v)]"

definition of_le_bytes :: "u8 list \<Rightarrow> u32" where
  "of_le_bytes bs = ucast (bs ! 0) OR push_bit 8 (ucast (bs ! 1)) OR push_bit 16 (ucast (bs ! 2))
     OR push_bit 24 (ucast (bs ! 3))"

fun store_words :: "nat \<Rightarrow> u32 list \<Rightarrow> u8 list \<Rightarrow> u8 list" where
  "store_words i [] bs = bs"
| "store_words i (v # vs) bs = store_words (i + 1) vs (take i bs @ le_bytes v @ drop (i + 4) bs)"

definition sscanf_haddr :: "u32 list \<Rightarrow> arp_table \<Rightarrow> arp_table" where
  "sscanf_haddr vals e =
     (let bs = store_words 0 vals (at_haddr e @ [0, 0] @ le_bytes (at_last_used e))
      in e\<lparr>at_haddr := take ETH_ALEN bs, at_last_used := of_le_bytes (drop 8 bs)\<rparr>)"

text \<open>A shift by 32 bits, for a mask of 0 or of 32 bits, is undefined.\<close>

definition sarp_set :: "u32 \<Rightarrow> u8 \<Rightarrow> u32 list \<Rightarrow> arp_state \<Rightarrow> arp_state result" where
  "sarp_set ip mlen vals s =
     (let i = unat (ar_sarp_num s)
      in if i \<ge> STATIC_ARP_NUM \<or> mlen = 0 \<or> 31 < mlen then Inl Undefined
         else let e = (ar_sarp_table s ! i)\<lparr>at_ip := ip,
                    at_ip_mask := htonl (push_bit (32 - unat mlen) (push_bit (unat mlen) 1 - 1))\<rparr>
              in Inr (s\<lparr>ar_sarp_num := ar_sarp_num s + 1,
                        ar_sarp_table := (ar_sarp_table s)[i := sscanf_haddr vals e]\<rparr>))"

fun sarp_scan :: "u32 \<Rightarrow> arp_table list \<Rightarrow> u8 list option" where
  "sarp_scan dip [] = None"
| "sarp_scan dip (e # es) =
     (if at_ip e AND at_ip_mask e = dip AND at_ip_mask e then Some (at_haddr e) else sarp_scan dip es)"

definition sarp_lookup :: "u32 \<Rightarrow> arp_state \<Rightarrow> u8 list option" where
  "sarp_lookup dip s = sarp_scan dip (take (unat (ar_sarp_num s)) (ar_sarp_table s))"

definition get_dst_hwaddr :: "u32 \<Rightarrow> arp_state \<Rightarrow> u8 list result" where
  "get_dst_hwaddr dip s =
     (case sarp_lookup dip s of None \<Rightarrow> Inl Exit0 | Some haddr \<Rightarrow> Inr (take ETH_ALEN haddr))"

section \<open>A table with keys\<close>

text \<open>
  What a table with keys promises: a key is looked up to the value last put under it, and putting a
  key changes no other. Then any sequence of puts leaves the map of the last values.
\<close>

locale keyed_table =
  fixes empty :: 't
    and put :: "'k \<Rightarrow> 'v \<Rightarrow> 't \<Rightarrow> 't"
    and get :: "'t \<Rightarrow> 'k \<Rightarrow> 'v option"
    and invar :: "'t \<Rightarrow> bool"
  assumes empty_invar: "invar empty"
    and get_empty: "get empty k = None"
    and put_invar: "invar t \<Longrightarrow> invar (put k v t)"
    and get_put: "invar t \<Longrightarrow> get (put k v t) j = (if j = k then Some v else get t j)"
begin

lemma put_all_invar: "invar t \<Longrightarrow> invar (fold (\<lambda>(k, v). put k v) kvs t)"
  by (induction kvs arbitrary: t) (auto simp: put_invar)

lemma get_put_all: "invar t \<Longrightarrow> get (fold (\<lambda>(k, v). put k v) kvs t) = get t ++ map_of (rev kvs)"
proof (induction kvs arbitrary: t)
  case (Cons kv kvs)
  obtain k v where kv: "kv = (k, v)" by (cases kv)
  have "get (put k v t) = (get t)(k \<mapsto> v)" using get_put [OF Cons.prems, of k v] by (simp add: fun_eq_iff)
  then show ?case
    using Cons.IH [OF put_invar [OF Cons.prems]] by (simp only: kv) (simp, simp add: fun_upd_def)
qed simp

lemma get_put_all_empty: "get (fold (\<lambda>(k, v). put k v) kvs empty) = map_of (rev kvs)"
  using get_put_all [OF empty_invar, of kvs] by (simp add: get_empty map_add_def fun_eq_iff split: option.split)

end

section \<open>The hash table as a map\<close>

text \<open>
  Every entry is in the bucket of its address, and no bucket has two entries for an address; the
  bucket beyond the hash values, for proxies, is empty.
\<close>

definition arp_tables_inv :: "arp_table list list \<Rightarrow> bool" where
  "arp_tables_inv t \<longleftrightarrow> length t = FULL_ARP_TABLE_SIZE
     \<and> (\<forall>b < FULL_ARP_TABLE_SIZE. distinct (map at_ip (t ! b)) \<and> (\<forall>e\<in>set (t ! b). HASH (at_ip e) = b))"

definition arp_lookup :: "arp_table list list \<Rightarrow> u32 \<Rightarrow> (u8 list \<times> u32) option" where
  "arp_lookup t ip =
     map_option (\<lambda>i. let e = t ! HASH ip ! i in (at_haddr e, at_last_used e)) (arp_find ip (t ! HASH ip))"

definition arp_put :: "u32 \<Rightarrow> u8 list \<times> u32 \<Rightarrow> arp_table list list \<Rightarrow> arp_table list list" where
  "arp_put ip v t =
     (case arp_find ip (t ! HASH ip) of
        Some i \<Rightarrow> arp_update ip i (fst v) (snd v) t
      | None \<Rightarrow> arp_add ip (fst v) (snd v) t)"

lemma HASH_less [simp]: "HASH ip < 16" "HASH ip < FULL_ARP_TABLE_SIZE"
proof -
  have "htonl ip AND (ARP_TABLE_SIZE - 1) = take_bit 4 (htonl ip)"
    by (simp add: ARP_TABLE_SIZE_def take_bit_eq_mask mask_numeral and.commute)
  then have "unat (htonl ip AND (ARP_TABLE_SIZE - 1)) < 2 ^ 4"
    using take_bit_nat_less_exp [of 4 "unat (htonl ip)"] by (simp add: unsigned_take_bit_eq)
  then show "HASH ip < 16" "HASH ip < FULL_ARP_TABLE_SIZE"
    by (simp_all add: HASH_def FULL_ARP_TABLE_SIZE_def)
qed

lemma arp_find_Some: "arp_find ip es = Some i \<Longrightarrow> i < length es \<and> at_ip (es ! i) = ip"
  by (induction es arbitrary: i) (auto split: if_splits)

lemma arp_find_None: "arp_find ip es = None \<longleftrightarrow> ip \<notin> at_ip ` set es"
  by (induction es) auto

lemma arp_find_unique:
  "distinct (map at_ip es) \<Longrightarrow> i < length es \<Longrightarrow> arp_find (at_ip (es ! i)) es = Some i"
proof (induction es arbitrary: i)
  case (Cons e es)
  then show ?case by (cases i) auto
qed simp

lemma arp_find_map: "map at_ip es = map at_ip es' \<Longrightarrow> arp_find ip es = arp_find ip es'"
  by (induction es es' rule: list_induct2') auto

lemma map_at_ip_update [simp]:
  "map at_ip (es[i := (es ! i)\<lparr>at_haddr := h, at_last_used := ts\<rparr>]) = map at_ip es"
proof (rule nth_equalityI)
  fix n assume "n < length (map at_ip (es[i := (es ! i)\<lparr>at_haddr := h, at_last_used := ts\<rparr>]))"
  then show "map at_ip (es[i := (es ! i)\<lparr>at_haddr := h, at_last_used := ts\<rparr>]) ! n = map at_ip es ! n"
    by (cases "n = i") simp_all
qed simp

interpretation arpt: keyed_table "replicate FULL_ARP_TABLE_SIZE []" arp_put arp_lookup arp_tables_inv
proof
  show "arp_tables_inv (replicate FULL_ARP_TABLE_SIZE [])" by (simp add: arp_tables_inv_def)
  show "arp_lookup (replicate FULL_ARP_TABLE_SIZE []) k = None" for k by (simp add: arp_lookup_def)
next
  fix t k and v :: "u8 list \<times> u32"
  assume inv: "arp_tables_inv t"
  then have len: "length t = FULL_ARP_TABLE_SIZE" by (simp add: arp_tables_inv_def)
  have dist: "distinct (map at_ip (t ! HASH k))" and keys: "e \<in> set (t ! HASH k) \<Longrightarrow> HASH (at_ip e) = HASH k" for e
    using inv by (auto simp: arp_tables_inv_def)
  let ?es = "t ! HASH k"
  show "arp_tables_inv (arp_put k v t)"
  proof (cases "arp_find k ?es")
    case None
    then have "arp_put k v t = arp_add k (fst v) (snd v) t" "k \<notin> at_ip ` set ?es"
      by (simp_all add: arp_put_def arp_find_None [symmetric])
    then show ?thesis using inv by (auto simp: arp_add_def arp_tables_inv_def nth_list_update)
  next
    case (Some i)
    let ?es' = "?es[i := (?es ! i)\<lparr>at_haddr := fst v, at_last_used := snd v\<rparr>]"
    have "at_ip ` set ?es' = at_ip ` set ?es" unfolding set_map [symmetric] by simp
    moreover have "HASH (at_ip e) = HASH k" if "e \<in> set ?es'" for e
    proof -
      have "at_ip e \<in> at_ip ` set ?es" using that calculation by blast
      then show ?thesis using keys by auto
    qed
    ultimately show ?thesis using Some inv dist
      by (auto simp: arp_put_def arp_update_def arp_tables_inv_def nth_list_update)
  qed
  show "arp_lookup (arp_put k v t) j = (if j = k then Some v else arp_lookup t j)" for j
  proof (cases "arp_find k ?es")
    case None
    then show ?thesis using len
      by (auto simp: arp_put_def arp_add_def arp_lookup_def nth_list_update option.map_comp o_def Let_def)
  next
    case (Some i)
    have i: "i < length ?es" "at_ip (?es ! i) = k" using arp_find_Some [OF Some] by auto
    have f: "arp_find j (?es[i := (?es ! i)\<lparr>at_haddr := fst v, at_last_used := snd v\<rparr>]) = arp_find j ?es" for j
      by (rule arp_find_map) simp
    have t': "arp_put k v t ! HASH j = (if HASH j = HASH k
        then ?es[i := (?es ! i)\<lparr>at_haddr := fst v, at_last_used := snd v\<rparr>] else t ! HASH j)"
      using Some len by (simp add: arp_put_def arp_update_def nth_list_update)
    show ?thesis
    proof (cases "HASH j = HASH k")
      case True
      have "n \<noteq> i" if "arp_find j ?es = Some n" "j \<noteq> k" for n
        using arp_find_Some [OF that(1)] i that(2) by auto
      then show ?thesis using True t' Some i
        by (cases "arp_find j ?es") (auto simp: arp_lookup_def f Let_def)
    next
      case False
      then show ?thesis using t' by (auto simp: arp_lookup_def)
    qed
  qed
qed

text \<open>Registering an address is putting it, unless a new entry is needed and there is no memory.\<close>

lemma register_arp_entry_put:
  assumes "register_arp_entry ip haddr ts s = (r, s')"
  shows "r = SUCCESS \<and> ar_tables s' = arp_put ip (haddr, ts) (ar_tables s)
    \<or> r = ERROR \<and> ar_tables s' = ar_tables s \<and> arp_find ip (ar_tables s ! HASH ip) = None
        \<and> \<not> ar_calloc s (ar_calloc_idx s)"
  using assms by (auto simp: register_arp_entry_def arp_put_def arp_calloc_def Let_def
      split: option.splits if_splits)

lemma register_arp_entry_frame:
  assumes "register_arp_entry ip haddr ts s = (r, s')"
  shows "ar_list s' = ar_list s" "ar_sarp_table s' = ar_sarp_table s" "ar_sarp_num s' = ar_sarp_num s"
    "ar_calloc s' = ar_calloc s"
  using assms by (auto simp: register_arp_entry_def arp_calloc_def Let_def split: option.splits if_splits)

section \<open>The static table as a list of prefixes\<close>

text \<open>Two addresses, in network order, that agree in their first \<open>m\<close> bits.\<close>

definition same_prefix :: "nat \<Rightarrow> u32 \<Rightarrow> u32 \<Rightarrow> bool" where
  "same_prefix m a b \<longleftrightarrow> drop_bit (32 - m) (ntohl a) = drop_bit (32 - m) (ntohl b)"

fun sarp_set_all :: "(u32 \<times> u8 \<times> u32 list) list \<Rightarrow> arp_state \<Rightarrow> arp_state result" where
  "sarp_set_all [] s = Inr s"
| "sarp_set_all ((ip, m, vals) # rules) s = bind_r (sarp_set ip m vals s) (sarp_set_all rules)"

text \<open>The hardware address of the first of the rules whose prefix the address has.\<close>

fun first_prefix :: "u32 \<Rightarrow> (u32 \<times> u8 \<times> u32 list) list \<Rightarrow> u8 list option" where
  "first_prefix dip [] = None"
| "first_prefix dip ((ip, m, vals) # rules) =
     (if same_prefix (unat m) ip dip then Some (map ucast vals) else first_prefix dip rules)"

definition sarp_rule_ok :: "u32 \<times> u8 \<times> u32 list \<Rightarrow> bool" where
  "sarp_rule_ok r \<longleftrightarrow> (case r of (ip, m, vals) \<Rightarrow> 0 < m \<and> m \<le> 31 \<and> length vals = ETH_ALEN)"

definition sarp_inv :: "arp_state \<Rightarrow> bool" where
  "sarp_inv s \<longleftrightarrow> length (ar_sarp_table s) = STATIC_ARP_NUM \<and> unat (ar_sarp_num s) \<le> STATIC_ARP_NUM
     \<and> (\<forall>e\<in>set (ar_sarp_table s). length (at_haddr e) = ETH_ALEN)"

lemma ntohl_and: "ntohl (a AND b) = ntohl a AND ntohl b"
  by (rule bit_word_eqI) (auto simp: bit_ntohl bit_and_iff)

lemma ntohl_inj: "ntohl a = ntohl b \<longleftrightarrow> a = b"
  by (metis ntohl_ntohl)

lemma masked_eq_prefix:
  assumes "0 < m" "m \<le> 31"
  shows "(a AND htonl (push_bit (32 - m) (push_bit m 1 - 1)) = b AND htonl (push_bit (32 - m) (push_bit m 1 - 1)))
    \<longleftrightarrow> same_prefix m a b"
proof -
  let ?M = "push_bit (32 - m) (mask m) :: u32"
  have M: "push_bit (32 - m) (push_bit m 1 - 1 :: u32) = ?M"
    by (simp add: mask_eq_exp_minus_1 push_bit_eq_mult)
  have bM: "bit (x AND ?M) n \<longleftrightarrow> n < 32 \<and> 32 - m \<le> n \<and> bit x n" for x n
    using assms by (auto simp: bit_simps dest: bit_imp_le_length)
  have below: "bit (ntohl x) n \<Longrightarrow> n < 32" for x n by (simp add: bit_ntohl)
  have "(a AND htonl ?M = b AND htonl ?M) \<longleftrightarrow> ntohl a AND ?M = ntohl b AND ?M"
    by (subst ntohl_inj [symmetric]) (simp add: ntohl_and)
  also have "\<dots> \<longleftrightarrow> (\<forall>n. 32 - m \<le> n \<longrightarrow> bit (ntohl a) n = bit (ntohl b) n)"
  proof
    assume "ntohl a AND ?M = ntohl b AND ?M"
    then have "bit (ntohl a AND ?M) n = bit (ntohl b AND ?M) n" for n by simp
    then show "\<forall>n. 32 - m \<le> n \<longrightarrow> bit (ntohl a) n = bit (ntohl b) n" unfolding bM using below by blast
  next
    assume "\<forall>n. 32 - m \<le> n \<longrightarrow> bit (ntohl a) n = bit (ntohl b) n"
    then show "ntohl a AND ?M = ntohl b AND ?M" by (intro bit_word_eqI) (auto simp only: bM)
  qed
  also have "\<dots> \<longleftrightarrow> same_prefix m a b"
  proof -
    have "(\<forall>n. 32 - m \<le> n \<longrightarrow> bit (ntohl a) n = bit (ntohl b) n)
        \<longleftrightarrow> (\<forall>k. bit (ntohl a) (32 - m + k) = bit (ntohl b) (32 - m + k))"
      by (metis le_add1 le_add_diff_inverse)
    moreover have "bit (ntohl x) (32 - m + k) \<Longrightarrow> k < 32" for x k using below [of x "32 - m + k"] by simp
    ultimately show ?thesis by (auto simp: same_prefix_def bit_eq_iff bit_drop_bit_eq)
  qed
  finally show ?thesis unfolding M .
qed

lemma sscanf_haddr_six:
  assumes "length vals = ETH_ALEN" "length (at_haddr e) = ETH_ALEN"
  shows "at_haddr (sscanf_haddr vals e) = map ucast vals"
proof -
  obtain a b c d f g where v: "vals = [a, b, c, d, f, g]"
    using assms(1) by (auto simp: ETH_ALEN_def numeral_eq_Suc length_Suc_conv)
  obtain h0 h1 h2 h3 h4 h5 where h: "at_haddr e = [h0, h1, h2, h3, h4, h5]"
    using assms(2) by (auto simp: ETH_ALEN_def numeral_eq_Suc length_Suc_conv)
  show ?thesis by (simp add: v h sscanf_haddr_def le_bytes_def ETH_ALEN_def Let_def)
qed

lemma sscanf_haddr_frame [simp]:
  "at_ip (sscanf_haddr vals e) = at_ip e" "at_ip_mask (sscanf_haddr vals e) = at_ip_mask e"
  by (simp_all add: sscanf_haddr_def Let_def)

lemma sarp_set_step:
  assumes inv: "sarp_inv s" and rule: "sarp_rule_ok (ip, m, vals)" and room: "unat (ar_sarp_num s) < STATIC_ARP_NUM"
  obtains s' where "sarp_set ip m vals s = Inr s'" "sarp_inv s'"
    "unat (ar_sarp_num s') = unat (ar_sarp_num s) + 1"
    "\<And>dip. sarp_lookup dip s' = (case sarp_lookup dip s of Some h \<Rightarrow> Some h | None \<Rightarrow> first_prefix dip [(ip, m, vals)])"
proof -
  define i where "i = unat (ar_sarp_num s)"
  define e where "e = (ar_sarp_table s ! i)\<lparr>at_ip := ip,
    at_ip_mask := htonl (push_bit (32 - unat m) (push_bit (unat m) 1 - 1))\<rparr>"
  define s' where "s' = s\<lparr>ar_sarp_num := ar_sarp_num s + 1, ar_sarp_table := (ar_sarp_table s)[i := sscanf_haddr vals e]\<rparr>"
  have m: "0 < unat m" "unat m \<le> 31" "length vals = ETH_ALEN"
    using rule by (simp_all add: sarp_rule_ok_def word_less_nat_alt word_le_nat_alt)
  have len: "i < length (ar_sarp_table s)" "length (at_haddr (ar_sarp_table s ! i)) = ETH_ALEN"
    using inv room by (auto simp: sarp_inv_def i_def)
  have set: "sarp_set ip m vals s = Inr s'"
    using room m by (auto simp: sarp_set_def Let_def s'_def i_def e_def word_less_nat_alt unat_eq_zero)
  have num: "unat (ar_sarp_num s') = i + 1"
    using room by (simp add: s'_def i_def unat_word_ariths STATIC_ARP_NUM_def)
  have h: "at_haddr (sscanf_haddr vals e) = map ucast vals"
    using sscanf_haddr_six m(3) len(2) by (simp add: e_def)
  have "set (ar_sarp_table s') \<subseteq> insert (sscanf_haddr vals e) (set (ar_sarp_table s))"
    by (simp add: s'_def set_update_subset_insert)
  then have inv': "sarp_inv s'"
    using inv num room h m(3) by (auto simp: sarp_inv_def i_def s'_def)
  have "take (i + 1) (ar_sarp_table s') = take i (ar_sarp_table s) @ [sscanf_haddr vals e]"
    using len(1) by (simp add: s'_def take_Suc_conv_app_nth)
  then have "sarp_lookup dip s' = sarp_scan dip (take i (ar_sarp_table s) @ [sscanf_haddr vals e])" for dip
    by (simp add: sarp_lookup_def num)
  moreover have "sarp_scan dip (es @ [x]) = (case sarp_scan dip es of Some h \<Rightarrow> Some h | None \<Rightarrow> sarp_scan dip [x])" for es x dip
    by (induction es) auto
  moreover have "sarp_scan dip [sscanf_haddr vals e] = first_prefix dip [(ip, m, vals)]" for dip
    using masked_eq_prefix [OF m(1,2), of ip dip] h by (simp add: e_def)
  ultimately have "sarp_lookup dip s' = (case sarp_lookup dip s of Some h \<Rightarrow> Some h | None \<Rightarrow> first_prefix dip [(ip, m, vals)])" for dip
    by (simp only: sarp_lookup_def i_def)
  then show thesis using that set inv' num by (simp add: i_def)
qed

lemma sarp_set_all_lookup:
  assumes "sarp_inv s" "\<forall>r\<in>set rules. sarp_rule_ok r" "unat (ar_sarp_num s) + length rules \<le> STATIC_ARP_NUM"
  shows "\<exists>s'. sarp_set_all rules s = Inr s'
    \<and> (\<forall>dip. sarp_lookup dip s' = (case sarp_lookup dip s of Some h \<Rightarrow> Some h | None \<Rightarrow> first_prefix dip rules))"
  using assms
proof (induction rules arbitrary: s)
  case Nil
  then show ?case by (auto split: option.splits)
next
  case (Cons r rules)
  obtain ip m vals where r: "r = (ip, m, vals)" by (cases r)
  obtain s1 where s1: "sarp_set ip m vals s = Inr s1" "sarp_inv s1" "unat (ar_sarp_num s1) = unat (ar_sarp_num s) + 1"
    "\<And>dip. sarp_lookup dip s1 = (case sarp_lookup dip s of Some h \<Rightarrow> Some h | None \<Rightarrow> first_prefix dip [(ip, m, vals)])"
    using sarp_set_step [of s ip m vals] Cons.prems r by auto
  obtain s' where "sarp_set_all rules s1 = Inr s'"
    "\<forall>dip. sarp_lookup dip s' = (case sarp_lookup dip s1 of Some h \<Rightarrow> Some h | None \<Rightarrow> first_prefix dip rules)"
    using Cons.IH [OF s1(2)] Cons.prems s1(3) by auto
  then show ?case using s1 by (auto simp: r split: option.splits)
qed

end
