(* ===== verification/Stack.thy ===== *)
theory Stack
  imports Socket N21_Queue Tcp_Send_Buff Arp_Table
begin

text \<open>
  The state of a stack thread: the stream of \<^verbatim>\<open>tcp_stream.h\<close> and what the stack context
  (\<^verbatim>\<open>qstack.h\<close>) and the global context hold for it. Streams live at addresses of an explicit
  store, because timers, queues, the hash table and sockets all point at them. Fields that no
  modelled operation uses are left out.

  Code outside the repository enters as data: \<open>env\<close> holds the three operations of DPDK's
  \<^verbatim>\<open>rte_hash\<close> and the configuration; the free chunks and mbufs that DPDK's pools will hand out
  next, and the numbers \<^verbatim>\<open>rand\<close> will return, are sequences in the state.
\<close>

section \<open>Constants\<close>

definition TCP_DEFAULT_MSS :: u16 where "TCP_DEFAULT_MSS = 1460"
definition TCP_DEFAULT_WSCALE :: u8 where "TCP_DEFAULT_WSCALE = 7"
definition TCP_INIT_CWND :: u32 where "TCP_INIT_CWND = 4"
definition TCP_INITIAL_WINDOW :: u32 where "TCP_INITIAL_WINDOW = 14600"
definition TCP_MAX_RTX :: u8 where "TCP_MAX_RTX = 16"
definition TCP_MAX_WINDOW :: u32 where "TCP_MAX_WINDOW = 65535"

text \<open>Timer constants in ticks of one millisecond.\<close>

definition TCP_TIMEWAIT :: u32 where "TCP_TIMEWAIT = 5000"
definition TCP_INITIAL_RTO :: u32 where "TCP_INITIAL_RTO = 500"
definition TCP_TIMEOUT :: u32 where "TCP_TIMEOUT = 300000"
definition RTO_STORAGE :: int where "RTO_STORAGE = 3000"

section \<open>Streams\<close>

record tcp_recv_vars =
  rv_rcvbuf :: tcp_recv_buffer
  rv_rcv_wnd :: u32
  rv_irs :: u32
  rv_snd_wl1 :: u32
  rv_snd_wl2 :: u32
  rv_dup_acks :: u8
  rv_last_ack_seq :: u32
  rv_ts_recent :: u32
  rv_ts_last_ts_upd :: u32

record tcp_send_vars =
  sv_sndbuf :: tcp_send_buffer
  sv_snd_una :: u32
  sv_snd_wnd :: u32
  sv_is_wack :: bool
  sv_is_fin_sent :: bool
  sv_ack_cnt :: "6 word"
  sv_on_control_queue :: bool
  sv_on_send_queue :: bool
  sv_on_ack_queue :: bool
  sv_on_closeq :: bool
  sv_on_resetq :: bool
  sv_ip_id :: u16
  sv_mss :: u16
  sv_eff_mss :: u16
  sv_wscale_mine :: u8
  sv_wscale_peer :: u8
  sv_peer_wnd :: u32
  sv_iss :: u32
  sv_fss :: u32
  sv_nif_out :: u8
  sv_nrtx :: u8
  sv_rto :: u32
  sv_cwnd :: u32
  sv_ssthresh :: u32
  sv_ts_lastack_sent :: u32

datatype event_list_state = Pdev_EMPTY | Pdev_WRITING | Pdev_WRITEN | Pdev_READING | Pdev_READ

datatype qevent_nature = Q_READ | Q_ACCEPT

record qepoll_event =
  qe_pri :: u8
  qe_core :: nat
  qe_apid :: nat
  qe_nature :: qevent_nature
  qe_sockid :: nat

record tcp_stream =
  st_id :: nat
  st_snd_nxt :: u32
  st_rcv_nxt :: u32
  st_saddr :: u32
  st_daddr :: u32
  st_sport :: u16
  st_dport :: u16
  st_dhw_addr :: "u8 list"
  st_state :: tcp_state
  st_close_reason :: "4 word"
  st_pdev_st :: event_list_state
  st_ts_rto :: u32
  st_last_active_ts :: u32
  st_ts_tw_expire :: u32
  st_on_rto_idx :: int
  st_on_timeout_list :: bool
  st_on_timewait_list :: bool
  st_saw_timestamp :: bool
  st_sack_permit :: bool
  st_control_list_waiting :: bool
  st_have_reset :: bool
  st_closed :: bool
  st_priority :: bool
  st_rcvvar :: tcp_recv_vars
  st_sndvar :: tcp_send_vars
  st_socket :: "nat option"
  st_pending_events :: "qepoll_event list"
  st_listener :: "nat option"

section \<open>Hash table of streams\<close>

record ipv4_5tuple =
  qt_proto :: u8
  qt_ip_src :: u32
  qt_ip_dst :: u32
  qt_port_src :: u16
  qt_port_dst :: u16

record 'h env =
  ev_hash_add :: "'h \<Rightarrow> ipv4_5tuple \<Rightarrow> ptr \<Rightarrow> int \<times> 'h"
  ev_hash_lookup :: "'h \<Rightarrow> ipv4_5tuple \<Rightarrow> int \<times> ptr"
  ev_hash_del :: "'h \<Rightarrow> ipv4_5tuple \<Rightarrow> int \<times> 'h"
  ev_stack_thread :: nat
  ev_app_thread :: nat
  ev_max_concurrency :: nat
  ev_rcvbuf_size :: u32
  ev_sndbuf_size :: u32
  ev_ip_addr :: u32
  ev_haddr :: "u8 list"

definition EINVAL :: int where "EINVAL = 22"
definition ENOENT :: int where "ENOENT = 2"
definition ENOSPC :: int where "ENOSPC = 28"

lemmas errno_defs = EINVAL_def ENOENT_def ENOSPC_def

text \<open>An error code that is none of the expected ones leaves the result undetermined.\<close>

definition ht_insert :: "'h env \<Rightarrow> 'h \<Rightarrow> ipv4_5tuple \<Rightarrow> ptr \<Rightarrow> int option \<times> 'h" where
  "ht_insert ev ht key value =
     (let (err, ht1) = ev_hash_add ev ht key value
      in if err \<ge> 0 then (Some err, ht1)
         else if err = - EINVAL then (Some err, ht1)
         else if err = - ENOSPC then (Some err, ht1)
         else (None, ht1))"

definition ht_search :: "'h env \<Rightarrow> 'h \<Rightarrow> ipv4_5tuple \<Rightarrow> ptr" where
  "ht_search ev ht key =
     (let (err, value) = ev_hash_lookup ev ht key in if err < 0 then NULL else value)"

definition ht_delete :: "'h env \<Rightarrow> 'h \<Rightarrow> ipv4_5tuple \<Rightarrow> int \<times> 'h" where
  "ht_delete ev ht key =
     (let (err, ht1) = ev_hash_del ev ht key
      in if err = 0 then (SUCCESS, ht1)
         else if err = - EINVAL then (ERROR, ht1)
         else if err = - ENOENT then (ERROR, ht1)
         else (1, ht1))"

abbreviation StreamHTSearch :: "'h env \<Rightarrow> 'h \<Rightarrow> ipv4_5tuple \<Rightarrow> ptr" where
  "StreamHTSearch \<equiv> ht_search"

text \<open>
  What DPDK documents of \<^verbatim>\<open>rte_hash\<close>: a lookup returns the data of the last insertion of
  the key that was not deleted; insertion and deletion affect no other key; deletion returns the
  non-negative position of the key, or an error if the key is absent.
\<close>

definition rte_hash_laws :: "'h env \<Rightarrow> bool" where
  "rte_hash_laws ev \<longleftrightarrow>
     (\<forall>h k v. case ev_hash_add ev h k v of (e, h') \<Rightarrow>
        (0 \<le> e \<longrightarrow> 0 \<le> fst (ev_hash_lookup ev h' k) \<and> snd (ev_hash_lookup ev h' k) = v)
        \<and> (e < 0 \<longrightarrow> ev_hash_lookup ev h' k = ev_hash_lookup ev h k)
        \<and> (\<forall>j. j \<noteq> k \<longrightarrow> ev_hash_lookup ev h' j = ev_hash_lookup ev h j))
     \<and> (\<forall>h k. case ev_hash_del ev h k of (e, h') \<Rightarrow>
        fst (ev_hash_lookup ev h' k) < 0
        \<and> (0 \<le> fst (ev_hash_lookup ev h k) \<longrightarrow> 0 \<le> e)
        \<and> (\<forall>j. j \<noteq> k \<longrightarrow> ev_hash_lookup ev h' j = ev_hash_lookup ev h j))"

lemma ht_search_insert:
  assumes "rte_hash_laws ev" "ht_insert ev h k v = (Some r, h')" "0 \<le> r"
  shows "ht_search ev h' k = v" "j \<noteq> k \<Longrightarrow> ht_search ev h' j = ht_search ev h j"
proof -
  obtain e h1 where a: "ev_hash_add ev h k v = (e, h1)" by (cases "ev_hash_add ev h k v")
  have e: "h1 = h'" "0 \<le> e"
    using a assms(2,3) by (auto simp: ht_insert_def errno_defs split: if_splits)
  have "(0 \<le> e \<longrightarrow> 0 \<le> fst (ev_hash_lookup ev h1 k) \<and> snd (ev_hash_lookup ev h1 k) = v)
      \<and> (\<forall>j. j \<noteq> k \<longrightarrow> ev_hash_lookup ev h1 j = ev_hash_lookup ev h j)"
    using assms(1) a unfolding rte_hash_laws_def by (metis (mono_tags, lifting) case_prod_conv)
  then show "ht_search ev h' k = v" "j \<noteq> k \<Longrightarrow> ht_search ev h' j = ht_search ev h j"
    using e by (auto simp: ht_search_def split: prod.splits)
qed

lemma ht_search_delete:
  assumes "rte_hash_laws ev" "ht_delete ev h k = (r, h')"
  shows "ht_search ev h' k = NULL" "j \<noteq> k \<Longrightarrow> ht_search ev h' j = ht_search ev h j"
proof -
  obtain e h1 where a: "ev_hash_del ev h k = (e, h1)" by (cases "ev_hash_del ev h k")
  have e: "h1 = h'" using a assms(2) by (auto simp: ht_delete_def split: if_splits)
  have "fst (ev_hash_lookup ev h1 k) < 0 \<and> (\<forall>j. j \<noteq> k \<longrightarrow> ev_hash_lookup ev h1 j = ev_hash_lookup ev h j)"
    using assms(1) a unfolding rte_hash_laws_def by (metis (mono_tags, lifting) case_prod_conv)
  then show "ht_search ev h' k = NULL" "j \<noteq> k \<Longrightarrow> ht_search ev h' j = ht_search ev h j"
    using e by (auto simp: ht_search_def split: prod.splits)
qed

section \<open>The stack\<close>

record tcp_listener =
  ls_sockid :: nat
  ls_port :: u16
  ls_socket :: "nat option"
  ls_acceptq :: "nat \<Rightarrow> n21_queue"

text \<open>
  The network card behind DPDK: the packets the next calls of \<^verbatim>\<open>rte_eth_rx_burst\<close> will return,
  how many packets the next calls of \<^verbatim>\<open>rte_eth_tx_burst\<close> will accept, and the packets accepted so
  far. \<open>nic_freed\<close> lists the mbufs \<^verbatim>\<open>rte_pktmbuf_free\<close> took back.
\<close>

record nic =
  nic_rx :: "ptr list list"
  nic_tx_room :: "nat list"
  nic_sent :: "ptr list"
  nic_freed :: "ptr list"

record dpdk_private_context =
  dp_th_mbufs :: circular_queue
  dp_tl_mbufs :: circular_queue
  dp_rh_mbufs :: circular_queue
  dp_rl_mbufs :: circular_queue
  dp_pkts_txburst :: "ptr list"
  dp_tx_num :: nat
  dp_free_queue :: n21_queue
  dp_rxfree_queue :: n21_queue
  dp_tx_pool :: "ptr list"
  dp_nic :: nic

record 'h qstack =
  qs_stack_id :: nat
  qs_streams :: "ptr \<Rightarrow> tcp_stream"
  qs_mem :: mbufs
  qs_control_queue :: circular_queue
  qs_ack_queue :: circular_queue
  qs_send_event_queue :: n21_queue
  qs_send_hevent_queue :: n21_queue
  qs_close_queue :: n21_queue
  qs_connect_queue :: n21_queue
  qs_rto_list :: "ptr list"
  qs_timewait_list :: "ptr list"
  qs_timeout_list :: "ptr list"
  qs_stream_ht :: 'h
  qs_stream_pool :: "ptr list"
  qs_flow_cnt :: u32
  qs_sockets :: socket_table
  qs_listener :: "nat \<Rightarrow> tcp_listener"
  qs_listener0 :: "nat option"
  qs_dpdk :: dpdk_private_context
  qs_arp :: arp_state
  qs_events :: "(u32 \<times> qepoll_event) list"
  qs_rand :: "nat \<Rightarrow> u32"
  qs_rand_idx :: nat

definition st_upd :: "ptr \<Rightarrow> (tcp_stream \<Rightarrow> tcp_stream) \<Rightarrow> 'h qstack \<Rightarrow> 'h qstack" where
  "st_upd p f s = s\<lparr>qs_streams := (qs_streams s)(p := f (qs_streams s p))\<rparr>"

definition sv_upd :: "ptr \<Rightarrow> (tcp_send_vars \<Rightarrow> tcp_send_vars) \<Rightarrow> 'h qstack \<Rightarrow> 'h qstack" where
  "sv_upd p f s = st_upd p (st_sndvar_update f) s"

definition rv_upd :: "ptr \<Rightarrow> (tcp_recv_vars \<Rightarrow> tcp_recv_vars) \<Rightarrow> 'h qstack \<Rightarrow> 'h qstack" where
  "rv_upd p f s = st_upd p (st_rcvvar_update f) s"

abbreviation sndvar :: "'h qstack \<Rightarrow> ptr \<Rightarrow> tcp_send_vars" where
  "sndvar s p \<equiv> st_sndvar (qs_streams s p)"

abbreviation rcvvar :: "'h qstack \<Rightarrow> ptr \<Rightarrow> tcp_recv_vars" where
  "rcvvar s p \<equiv> st_rcvvar (qs_streams s p)"

text \<open>
  \<^verbatim>\<open>TAILQ_REMOVE\<close> rewrites the neighbours through the element's own links: on a list that does
  not hold the element it corrupts memory.
\<close>

definition tailq_remove :: "ptr \<Rightarrow> ptr list \<Rightarrow> ptr list result" where
  "tailq_remove p xs = (if p \<in> set xs then Inr (remove1 p xs) else Inl Undefined)"

named_theorems stack_simps \<open>reading the state after an update\<close>

lemma st_upd_simps [stack_simps]:
  "qs_streams (st_upd p f s) q = (if q = p then f (qs_streams s p) else qs_streams s q)"
  "qs_streams (sv_upd p g s) q =
     (if q = p then st_sndvar_update g (qs_streams s p) else qs_streams s q)"
  "qs_streams (rv_upd p h s) q =
     (if q = p then st_rcvvar_update h (qs_streams s p) else qs_streams s q)"
  by (simp_all add: st_upd_def sv_upd_def rv_upd_def)

lemma st_upd_frame [simp]:
  "qs_rto_list (st_upd p f s) = qs_rto_list s"
  "qs_timewait_list (st_upd p f s) = qs_timewait_list s"
  "qs_timeout_list (st_upd p f s) = qs_timeout_list s"
  "qs_control_queue (st_upd p f s) = qs_control_queue s"
  "qs_ack_queue (st_upd p f s) = qs_ack_queue s"
  "qs_send_event_queue (st_upd p f s) = qs_send_event_queue s"
  "qs_send_hevent_queue (st_upd p f s) = qs_send_hevent_queue s"
  "qs_close_queue (st_upd p f s) = qs_close_queue s"
  "qs_mem (st_upd p f s) = qs_mem s" "qs_stack_id (st_upd p f s) = qs_stack_id s"
  "qs_stream_ht (st_upd p f s) = qs_stream_ht s" "qs_stream_pool (st_upd p f s) = qs_stream_pool s"
  "qs_sockets (st_upd p f s) = qs_sockets s" "qs_flow_cnt (st_upd p f s) = qs_flow_cnt s"
  "qs_dpdk (st_upd p f s) = qs_dpdk s" "qs_events (st_upd p f s) = qs_events s"
  "qs_listener (st_upd p f s) = qs_listener s" "qs_listener0 (st_upd p f s) = qs_listener0 s"
  "qs_rand (st_upd p f s) = qs_rand s" "qs_rand_idx (st_upd p f s) = qs_rand_idx s"
  by (simp_all add: st_upd_def)

lemma sv_upd_frame [simp]:
  "qs_rto_list (sv_upd p g s) = qs_rto_list s"
  "qs_timewait_list (sv_upd p g s) = qs_timewait_list s"
  "qs_timeout_list (sv_upd p g s) = qs_timeout_list s"
  "qs_control_queue (sv_upd p g s) = qs_control_queue s"
  "qs_ack_queue (sv_upd p g s) = qs_ack_queue s"
  "qs_send_event_queue (sv_upd p g s) = qs_send_event_queue s"
  "qs_send_hevent_queue (sv_upd p g s) = qs_send_hevent_queue s"
  "qs_close_queue (sv_upd p g s) = qs_close_queue s"
  "qs_mem (sv_upd p g s) = qs_mem s"
  "qs_stack_id (sv_upd p g s) = qs_stack_id s"
  "qs_stream_ht (sv_upd p g s) = qs_stream_ht s"
  "qs_stream_pool (sv_upd p g s) = qs_stream_pool s"
  "qs_sockets (sv_upd p g s) = qs_sockets s"
  "qs_flow_cnt (sv_upd p g s) = qs_flow_cnt s"
  "qs_dpdk (sv_upd p g s) = qs_dpdk s"
  "qs_events (sv_upd p g s) = qs_events s"
  "qs_listener (sv_upd p g s) = qs_listener s"
  "qs_listener0 (sv_upd p g s) = qs_listener0 s"
  "qs_rand (sv_upd p g s) = qs_rand s"
  "qs_rand_idx (sv_upd p g s) = qs_rand_idx s"
  by (simp_all add: sv_upd_def)

lemma rv_upd_frame [simp]:
  "qs_rto_list (rv_upd p h s) = qs_rto_list s"
  "qs_timewait_list (rv_upd p h s) = qs_timewait_list s"
  "qs_timeout_list (rv_upd p h s) = qs_timeout_list s"
  "qs_control_queue (rv_upd p h s) = qs_control_queue s"
  "qs_ack_queue (rv_upd p h s) = qs_ack_queue s"
  "qs_send_event_queue (rv_upd p h s) = qs_send_event_queue s"
  "qs_send_hevent_queue (rv_upd p h s) = qs_send_hevent_queue s"
  "qs_close_queue (rv_upd p h s) = qs_close_queue s"
  "qs_mem (rv_upd p h s) = qs_mem s"
  "qs_stack_id (rv_upd p h s) = qs_stack_id s"
  "qs_stream_ht (rv_upd p h s) = qs_stream_ht s"
  "qs_stream_pool (rv_upd p h s) = qs_stream_pool s"
  "qs_sockets (rv_upd p h s) = qs_sockets s"
  "qs_flow_cnt (rv_upd p h s) = qs_flow_cnt s"
  "qs_dpdk (rv_upd p h s) = qs_dpdk s"
  "qs_events (rv_upd p h s) = qs_events s"
  "qs_listener (rv_upd p h s) = qs_listener s"
  "qs_listener0 (rv_upd p h s) = qs_listener0 s"
  "qs_rand (rv_upd p h s) = qs_rand s"
  "qs_rand_idx (rv_upd p h s) = qs_rand_idx s"
  by (simp_all add: rv_upd_def)

end
