(* ===== verification/Timer_Lists.thy ===== *)
theory Timer_Lists
  imports Stack
begin

text \<open>
  The three timer lists of a stack thread, from \<^verbatim>\<open>timer.h\<close> as it is built: one list of
  streams with a retransmission timer (\<^verbatim>\<open>TCP_SIMPLE_RTO\<close>), one of streams in TIME_WAIT and one
  of all streams for the inactivity timeout. The first two use the same link of the stream, so no
  stream may be on both. The walks over the lists are in theory \<open>Timer\<close>.
\<close>

section \<open>Operations\<close>

definition rto_list_add :: "ptr \<Rightarrow> u32 \<Rightarrow> 'h qstack \<Rightarrow> int \<times> 'h qstack" where
  "rto_list_add p cur_ts s =
     (if st_on_rto_idx (qs_streams s p) = 0
      then let s1 = st_upd p (\<lambda>st. st\<lparr>st_ts_rto := cur_ts + sv_rto (st_sndvar st)\<rparr>) s
           in if \<not> st_on_timewait_list (qs_streams s1 p)
              then let s2 = st_upd p (\<lambda>st. st\<lparr>st_on_rto_idx := RTO_STORAGE\<rparr>) s1
                   in (0, s2\<lparr>qs_rto_list := qs_rto_list s2 @ [p]\<rparr>)
              else (1, s1)
      else (1, s))"

definition rto_list_remove :: "ptr \<Rightarrow> 'h qstack \<Rightarrow> (int \<times> 'h qstack) result" where
  "rto_list_remove p s =
     (if st_on_rto_idx (qs_streams s p) \<noteq> 0
      then bind_r (tailq_remove p (qs_rto_list s)) (\<lambda>l.
             let s1 = st_upd p (\<lambda>st. st\<lparr>st_on_rto_idx := 0\<rparr>) (s\<lparr>qs_rto_list := l\<rparr>)
             in Inr (0, sv_upd p (\<lambda>sv. sv\<lparr>sv_nrtx := 0\<rparr>) s1))
      else Inr (1, s))"

definition rto_list_update :: "ptr \<Rightarrow> u32 \<Rightarrow> 'h qstack \<Rightarrow> 'h qstack result" where
  "rto_list_update p cur_ts s =
     bind_r (rto_list_remove p s) (\<lambda>(_, s1). Inr (snd (rto_list_add p cur_ts s1)))"

definition timewait_list_add :: "ptr \<Rightarrow> u32 \<Rightarrow> 'h qstack \<Rightarrow> 'h qstack result" where
  "timewait_list_add p cur_ts s =
     (let s1 = st_upd p (\<lambda>st. st\<lparr>st_ts_tw_expire := cur_ts + TCP_TIMEWAIT\<rparr>) s
      in if st_on_timewait_list (qs_streams s1 p)
         then bind_r (tailq_remove p (qs_timewait_list s1)) (\<lambda>l.
                Inr (s1\<lparr>qs_timewait_list := l @ [p]\<rparr>))
         else bind_r (if st_on_rto_idx (qs_streams s1 p) \<ge> 0 then rto_list_remove p s1 else Inr (0, s1))
                (\<lambda>(_, s2).
                  let s3 = st_upd p (\<lambda>st. st\<lparr>st_on_timewait_list := True\<rparr>) s2
                  in Inr (s3\<lparr>qs_timewait_list := qs_timewait_list s3 @ [p]\<rparr>)))"

definition timewait_list_remove :: "ptr \<Rightarrow> 'h qstack \<Rightarrow> (int \<times> 'h qstack) result" where
  "timewait_list_remove p s =
     (if \<not> st_on_timewait_list (qs_streams s p) then Inr (1, s)
      else bind_r (tailq_remove p (qs_timewait_list s)) (\<lambda>l.
             Inr (0, st_upd p (\<lambda>st. st\<lparr>st_on_timewait_list := False\<rparr>) (s\<lparr>qs_timewait_list := l\<rparr>))))"

definition timeout_list_add :: "ptr \<Rightarrow> u32 \<Rightarrow> 'h qstack \<Rightarrow> int \<times> 'h qstack" where
  "timeout_list_add p cur_ts s =
     (let s1 = st_upd p (\<lambda>st. st\<lparr>st_last_active_ts := cur_ts\<rparr>) s
      in if \<not> st_on_timeout_list (qs_streams s1 p)
         then let s2 = st_upd p (\<lambda>st. st\<lparr>st_on_timeout_list := True\<rparr>) s1
              in (0, s2\<lparr>qs_timeout_list := qs_timeout_list s2 @ [p]\<rparr>)
         else (1, s1))"

definition timeout_list_remove :: "ptr \<Rightarrow> 'h qstack \<Rightarrow> (int \<times> 'h qstack) result" where
  "timeout_list_remove p s =
     (if \<not> st_on_timeout_list (qs_streams s p) then Inr (1, s)
      else bind_r (tailq_remove p (qs_timeout_list s)) (\<lambda>l.
             Inr (0, st_upd p (\<lambda>st. st\<lparr>st_on_timeout_list := False\<rparr>) (s\<lparr>qs_timeout_list := l\<rparr>))))"

definition timeout_list_update :: "ptr \<Rightarrow> u32 \<Rightarrow> 'h qstack \<Rightarrow> 'h qstack result" where
  "timeout_list_update p cur_ts s =
     (let s1 = st_upd p (\<lambda>st. st\<lparr>st_last_active_ts := cur_ts\<rparr>) s
      in if st_on_timeout_list (qs_streams s1 p)
         then bind_r (tailq_remove p (qs_timeout_list s1)) (\<lambda>l.
                Inr (s1\<lparr>qs_timeout_list := l @ [p]\<rparr>))
         else Inr s1)"

definition timer_init :: "'h qstack \<Rightarrow> 'h qstack" where
  "timer_init s = s\<lparr>qs_rto_list := [], qs_timewait_list := [], qs_timeout_list := []\<rparr>"

section \<open>Invariant\<close>

text \<open>
  A stream's flags say exactly on which lists it is, no list holds a stream twice, and no stream
  is on both lists that share a link.
\<close>

definition timer_inv :: "'h qstack \<Rightarrow> bool" where
  "timer_inv s \<longleftrightarrow> distinct (qs_rto_list s) \<and> distinct (qs_timewait_list s) \<and> distinct (qs_timeout_list s)
     \<and> (\<forall>p. p \<in> set (qs_rto_list s) \<longleftrightarrow> st_on_rto_idx (qs_streams s p) \<noteq> 0)
     \<and> (\<forall>p. p \<in> set (qs_timewait_list s) \<longleftrightarrow> st_on_timewait_list (qs_streams s p))
     \<and> (\<forall>p. p \<in> set (qs_timeout_list s) \<longleftrightarrow> st_on_timeout_list (qs_streams s p))
     \<and> (\<forall>p. st_on_rto_idx (qs_streams s p) \<ge> 0)
     \<and> set (qs_rto_list s) \<inter> set (qs_timewait_list s) = {}"

text \<open>The flags and lists of the timers, which most operations leave as they are.\<close>

definition same_timers :: "'h qstack \<Rightarrow> 'h qstack \<Rightarrow> bool" where
  "same_timers s s' \<longleftrightarrow> qs_rto_list s' = qs_rto_list s \<and> qs_timewait_list s' = qs_timewait_list s
     \<and> qs_timeout_list s' = qs_timeout_list s
     \<and> (\<forall>p. st_on_rto_idx (qs_streams s' p) = st_on_rto_idx (qs_streams s p)
          \<and> st_on_timewait_list (qs_streams s' p) = st_on_timewait_list (qs_streams s p)
          \<and> st_on_timeout_list (qs_streams s' p) = st_on_timeout_list (qs_streams s p))"

lemma same_timers_refl [simp, intro]: "same_timers s s"
  by (simp add: same_timers_def)

lemma same_timers_trans [trans]: "same_timers s1 s2 \<Longrightarrow> same_timers s2 s3 \<Longrightarrow> same_timers s1 s3"
  by (simp add: same_timers_def)

lemma timer_inv_same: "same_timers s s' \<Longrightarrow> timer_inv s' = timer_inv s"
  by (simp add: same_timers_def timer_inv_def)

lemma same_timers_upd [intro]:
  "(\<And>st. st_on_rto_idx (f st) = st_on_rto_idx st \<and> st_on_timewait_list (f st) = st_on_timewait_list st
     \<and> st_on_timeout_list (f st) = st_on_timeout_list st) \<Longrightarrow> same_timers s (st_upd p f s)"
  by (simp add: same_timers_def st_upd_simps)

lemma same_timers_vars [simp, intro]: "same_timers s (sv_upd p g s)" "same_timers s (rv_upd p h s)"
  by (simp_all add: same_timers_def st_upd_simps)

lemma tailq_remove_mem [simp]: "p \<in> set xs \<Longrightarrow> tailq_remove p xs = Inr (remove1 p xs)"
  by (simp add: tailq_remove_def)

lemma rto_list_add_inv:
  assumes "timer_inv s"
  shows "timer_inv (snd (rto_list_add p ts s))"
  using assms unfolding timer_inv_def
  by (auto simp: rto_list_add_def Let_def stack_simps RTO_STORAGE_def)

lemma rto_list_remove_inv:
  assumes inv: "timer_inv s"
  shows "\<exists>r s'. rto_list_remove p s = Inr (r, s') \<and> timer_inv s'
    \<and> qs_rto_list s' = remove1 p (qs_rto_list s) \<and> qs_timewait_list s' = qs_timewait_list s
    \<and> qs_timeout_list s' = qs_timeout_list s \<and> st_on_rto_idx (qs_streams s' p) = 0
    \<and> st_on_timewait_list (qs_streams s' p) = st_on_timewait_list (qs_streams s p)"
proof (cases "p \<in> set (qs_rto_list s)")
  case True
  then have on: "st_on_rto_idx (qs_streams s p) \<noteq> 0" using inv by (simp add: timer_inv_def)
  let ?s = "sv_upd p (\<lambda>sv. sv\<lparr>sv_nrtx := 0\<rparr>) (st_upd p (\<lambda>st. st\<lparr>st_on_rto_idx := 0\<rparr>)
      (s\<lparr>qs_rto_list := remove1 p (qs_rto_list s)\<rparr>))"
  have "rto_list_remove p s = Inr (0, ?s)" using True on by (simp add: rto_list_remove_def)
  moreover have "timer_inv ?s"
    using inv unfolding timer_inv_def by (auto simp: stack_simps dest: notin_set_remove1)
  ultimately show ?thesis by (simp add: stack_simps)
next
  case False
  then have "st_on_rto_idx (qs_streams s p) = 0" using inv by (simp add: timer_inv_def)
  then show ?thesis using inv False by (simp add: rto_list_remove_def remove1_idem)
qed

lemma rto_list_update_inv:
  assumes "timer_inv s"
  shows "\<exists>s'. rto_list_update p ts s = Inr s' \<and> timer_inv s'"
  using rto_list_remove_inv [OF assms, of p] rto_list_add_inv
  by (force simp: rto_list_update_def)

lemma timewait_list_add_inv:
  assumes inv: "timer_inv s"
  shows "\<exists>s'. timewait_list_add p ts s = Inr s' \<and> timer_inv s' \<and> st_on_timewait_list (qs_streams s' p)
    \<and> last (qs_timewait_list s') = p"
proof -
  let ?s1 = "st_upd p (\<lambda>st. st\<lparr>st_ts_tw_expire := ts + TCP_TIMEWAIT\<rparr>) s"
  have "same_timers s ?s1" by (rule same_timers_upd) simp
  then have inv1: "timer_inv ?s1" using inv by (simp add: timer_inv_same)
  show ?thesis
  proof (cases "st_on_timewait_list (qs_streams ?s1 p)")
    case True
    then have m: "p \<in> set (qs_timewait_list ?s1)" using inv1 by (simp add: timer_inv_def)
    then have "timewait_list_add p ts s =
        Inr (?s1\<lparr>qs_timewait_list := remove1 p (qs_timewait_list ?s1) @ [p]\<rparr>)"
      using True by (simp add: timewait_list_add_def Let_def)
    moreover have "timer_inv (?s1\<lparr>qs_timewait_list := remove1 p (qs_timewait_list ?s1) @ [p]\<rparr>)"
      using inv1 m unfolding timer_inv_def by (auto dest: notin_set_remove1)
    ultimately show ?thesis using True by simp
  next
    case False
    obtain r s2 where s2: "rto_list_remove p ?s1 = Inr (r, s2)" "timer_inv s2"
        "st_on_rto_idx (qs_streams s2 p) = 0" "\<not> st_on_timewait_list (qs_streams s2 p)"
      using rto_list_remove_inv [OF inv1, of p] False by auto
    have "st_on_rto_idx (qs_streams ?s1 p) \<ge> 0" using inv1 by (simp add: timer_inv_def)
    then have "timewait_list_add p ts s =
        (let s3 = st_upd p (\<lambda>st. st\<lparr>st_on_timewait_list := True\<rparr>) s2
         in Inr (s3\<lparr>qs_timewait_list := qs_timewait_list s3 @ [p]\<rparr>))"
      using False s2(1) by (simp add: timewait_list_add_def Let_def)
    then show ?thesis
      using s2(2-) unfolding timer_inv_def by (auto simp: Let_def stack_simps)
  qed
qed

lemma timewait_list_remove_inv:
  assumes inv: "timer_inv s"
  shows "\<exists>r s'. timewait_list_remove p s = Inr (r, s') \<and> timer_inv s'
    \<and> qs_timewait_list s' = remove1 p (qs_timewait_list s) \<and> qs_rto_list s' = qs_rto_list s
    \<and> qs_timeout_list s' = qs_timeout_list s"
proof (cases "p \<in> set (qs_timewait_list s)")
  case True
  then have on: "st_on_timewait_list (qs_streams s p)" using inv by (simp add: timer_inv_def)
  let ?s = "st_upd p (\<lambda>st. st\<lparr>st_on_timewait_list := False\<rparr>)
      (s\<lparr>qs_timewait_list := remove1 p (qs_timewait_list s)\<rparr>)"
  have "timewait_list_remove p s = Inr (0, ?s)" using True on by (simp add: timewait_list_remove_def)
  moreover have "timer_inv ?s"
    using inv unfolding timer_inv_def by (auto simp: stack_simps dest: notin_set_remove1)
  ultimately show ?thesis by simp
next
  case False
  then have "\<not> st_on_timewait_list (qs_streams s p)" using inv by (simp add: timer_inv_def)
  then show ?thesis using inv False by (simp add: timewait_list_remove_def remove1_idem)
qed

lemma timeout_list_add_inv:
  assumes "timer_inv s"
  shows "timer_inv (snd (timeout_list_add p ts s))"
  using assms unfolding timer_inv_def
  by (auto simp: timeout_list_add_def Let_def stack_simps)

lemma timeout_list_remove_inv:
  assumes inv: "timer_inv s"
  shows "\<exists>r s'. timeout_list_remove p s = Inr (r, s') \<and> timer_inv s'
    \<and> qs_timeout_list s' = remove1 p (qs_timeout_list s) \<and> qs_rto_list s' = qs_rto_list s
    \<and> qs_timewait_list s' = qs_timewait_list s"
proof (cases "p \<in> set (qs_timeout_list s)")
  case True
  then have on: "st_on_timeout_list (qs_streams s p)" using inv by (simp add: timer_inv_def)
  let ?s = "st_upd p (\<lambda>st. st\<lparr>st_on_timeout_list := False\<rparr>)
      (s\<lparr>qs_timeout_list := remove1 p (qs_timeout_list s)\<rparr>)"
  have "timeout_list_remove p s = Inr (0, ?s)" using True on by (simp add: timeout_list_remove_def)
  moreover have "timer_inv ?s"
    using inv unfolding timer_inv_def by (auto simp: stack_simps dest: notin_set_remove1)
  ultimately show ?thesis by simp
next
  case False
  then have "\<not> st_on_timeout_list (qs_streams s p)" using inv by (simp add: timer_inv_def)
  then show ?thesis using inv False by (simp add: timeout_list_remove_def remove1_idem)
qed

lemma timeout_list_update_inv:
  assumes inv: "timer_inv s"
  shows "\<exists>s'. timeout_list_update p ts s = Inr s' \<and> timer_inv s'"
proof -
  let ?s1 = "st_upd p (\<lambda>st. st\<lparr>st_last_active_ts := ts\<rparr>) s"
  have "same_timers s ?s1" by (rule same_timers_upd) simp
  then have inv1: "timer_inv ?s1" using inv by (simp add: timer_inv_same)
  show ?thesis
  proof (cases "st_on_timeout_list (qs_streams ?s1 p)")
    case True
    then have m: "p \<in> set (qs_timeout_list ?s1)" using inv1 by (simp add: timer_inv_def)
    have "timer_inv (?s1\<lparr>qs_timeout_list := remove1 p (qs_timeout_list ?s1) @ [p]\<rparr>)"
      using inv1 m unfolding timer_inv_def by (auto dest: notin_set_remove1)
    then show ?thesis using True m by (simp add: timeout_list_update_def Let_def)
  next
    case False
    then show ?thesis using inv1 by (simp add: timeout_list_update_def Let_def)
  qed
qed

section \<open>What the list operations leave alone\<close>

text \<open>
  \<open>timer_frame s s'\<close>: apart from the timer lists, the timer fields and the retransmission
  counts of the streams, the two states are the same.
\<close>

definition no_timer_fields :: "tcp_stream \<Rightarrow> tcp_stream" where
  "no_timer_fields st = st\<lparr>st_ts_rto := 0, st_on_rto_idx := 0, st_on_timewait_list := False,
     st_on_timeout_list := False, st_last_active_ts := 0, st_ts_tw_expire := 0,
     st_sndvar := (st_sndvar st)\<lparr>sv_nrtx := 0\<rparr>\<rparr>"

definition no_timers :: "'h qstack \<Rightarrow> 'h qstack" where
  "no_timers s = s\<lparr>qs_rto_list := [], qs_timewait_list := [], qs_timeout_list := [],
     qs_streams := (\<lambda>q. no_timer_fields (qs_streams s q))\<rparr>"

definition timer_frame :: "'h qstack \<Rightarrow> 'h qstack \<Rightarrow> bool" where
  "timer_frame s s' \<longleftrightarrow> no_timers s' = no_timers s"

lemma timer_frame_refl [simp]: "timer_frame s s"
  by (simp add: timer_frame_def)

lemma timer_frame_trans [trans]: "timer_frame s1 s2 \<Longrightarrow> timer_frame s2 s3 \<Longrightarrow> timer_frame s1 s3"
  by (simp add: timer_frame_def)

lemma timer_frame_stream:
  assumes "timer_frame s s'"
  shows "no_timer_fields (qs_streams s' q) = no_timer_fields (qs_streams s q)"
  using arg_cong [OF assms [unfolded timer_frame_def], of "\<lambda>s. qs_streams s q"]
  by (simp add: no_timers_def)

lemma timer_frameD:
  assumes "timer_frame s s'"
  shows "st_state (qs_streams s' q) = st_state (qs_streams s q)"
    "st_socket (qs_streams s' q) = st_socket (qs_streams s q)"
    "rcvvar s' q = rcvvar s q" "sv_sndbuf (sndvar s' q) = sv_sndbuf (sndvar s q)"
    "st_saddr (qs_streams s' q) = st_saddr (qs_streams s q)"
    "st_daddr (qs_streams s' q) = st_daddr (qs_streams s q)"
    "st_sport (qs_streams s' q) = st_sport (qs_streams s q)"
    "st_dport (qs_streams s' q) = st_dport (qs_streams s q)"
    "sv_on_control_queue (sndvar s' q) = sv_on_control_queue (sndvar s q)"
    "qs_mem s' = qs_mem s" "qs_stack_id s' = qs_stack_id s" "qs_sockets s' = qs_sockets s"
    "qs_stream_ht s' = qs_stream_ht s" "qs_stream_pool s' = qs_stream_pool s"
    "qs_control_queue s' = qs_control_queue s" "qs_ack_queue s' = qs_ack_queue s"
    "qs_send_event_queue s' = qs_send_event_queue s" "qs_events s' = qs_events s"
    "qs_dpdk s' = qs_dpdk s" "qs_send_hevent_queue s' = qs_send_hevent_queue s"
    "qs_close_queue s' = qs_close_queue s"
proof -
  note f = timer_frame_stream [OF assms, of q] assms [unfolded timer_frame_def]
  note st = f(1) [unfolded no_timer_fields_def] and qs = f(2) [unfolded no_timers_def]
  show "st_state (qs_streams s' q) = st_state (qs_streams s q)"
    using arg_cong [OF st, of st_state] by simp
  show "st_socket (qs_streams s' q) = st_socket (qs_streams s q)"
    using arg_cong [OF st, of st_socket] by simp
  show "rcvvar s' q = rcvvar s q" using arg_cong [OF st, of st_rcvvar] by simp
  show "sv_sndbuf (sndvar s' q) = sv_sndbuf (sndvar s q)"
    using arg_cong [OF st, of "\<lambda>x. sv_sndbuf (st_sndvar x)"] by simp
  show "st_saddr (qs_streams s' q) = st_saddr (qs_streams s q)"
    using arg_cong [OF st, of st_saddr] by simp
  show "st_daddr (qs_streams s' q) = st_daddr (qs_streams s q)"
    using arg_cong [OF st, of st_daddr] by simp
  show "st_sport (qs_streams s' q) = st_sport (qs_streams s q)"
    using arg_cong [OF st, of st_sport] by simp
  show "st_dport (qs_streams s' q) = st_dport (qs_streams s q)"
    using arg_cong [OF st, of st_dport] by simp
  show "sv_on_control_queue (sndvar s' q) = sv_on_control_queue (sndvar s q)"
    using arg_cong [OF st, of "\<lambda>x. sv_on_control_queue (st_sndvar x)"] by simp
  show "qs_mem s' = qs_mem s" using arg_cong [OF qs, of qs_mem] by simp
  show "qs_stack_id s' = qs_stack_id s" using arg_cong [OF qs, of qs_stack_id] by simp
  show "qs_sockets s' = qs_sockets s" using arg_cong [OF qs, of qs_sockets] by simp
  show "qs_stream_ht s' = qs_stream_ht s" using arg_cong [OF qs, of qs_stream_ht] by simp
  show "qs_stream_pool s' = qs_stream_pool s" using arg_cong [OF qs, of qs_stream_pool] by simp
  show "qs_control_queue s' = qs_control_queue s" using arg_cong [OF qs, of qs_control_queue] by simp
  show "qs_ack_queue s' = qs_ack_queue s" using arg_cong [OF qs, of qs_ack_queue] by simp
  show "qs_send_event_queue s' = qs_send_event_queue s"
    using arg_cong [OF qs, of qs_send_event_queue] by simp
  show "qs_events s' = qs_events s" using arg_cong [OF qs, of qs_events] by simp
  show "qs_dpdk s' = qs_dpdk s" using arg_cong [OF qs, of qs_dpdk] by simp
  show "qs_send_hevent_queue s' = qs_send_hevent_queue s"
    using arg_cong [OF qs, of qs_send_hevent_queue] by simp
  show "qs_close_queue s' = qs_close_queue s" using arg_cong [OF qs, of qs_close_queue] by simp
qed

lemma no_timers_simps:
  "no_timers (s\<lparr>qs_rto_list := rl\<rparr>) = no_timers s" "no_timers (s\<lparr>qs_timewait_list := wl\<rparr>) = no_timers s"
  "no_timers (s\<lparr>qs_timeout_list := ol\<rparr>) = no_timers s"
  "(\<And>st. no_timer_fields (f st) = no_timer_fields st) \<Longrightarrow> no_timers (st_upd p f s) = no_timers s"
  by (simp_all add: no_timers_def st_upd_def fun_eq_iff)

lemma timer_frame_ops:
  "timer_frame s (snd (rto_list_add p ts s))"
  "rto_list_remove p s = Inr (r, s') \<Longrightarrow> timer_frame s s'"
  "timewait_list_remove p s = Inr (r, s') \<Longrightarrow> timer_frame s s'"
  "timeout_list_remove p s = Inr (r, s') \<Longrightarrow> timer_frame s s'"
  "timer_frame s (snd (timeout_list_add p ts s))"
proof -
  note nt = no_timers_simps no_timer_fields_def
  show "timer_frame s (snd (rto_list_add p ts s))"
    by (simp add: timer_frame_def rto_list_add_def Let_def nt)
  show "rto_list_remove p s = Inr (r, s') \<Longrightarrow> timer_frame s s'"
    by (auto simp: timer_frame_def rto_list_remove_def Let_def nt sv_upd_def bind_r_Inr_iff split: if_splits)
  show "timewait_list_remove p s = Inr (r, s') \<Longrightarrow> timer_frame s s'"
    by (auto simp: timer_frame_def timewait_list_remove_def nt bind_r_Inr_iff split: if_splits)
  show "timeout_list_remove p s = Inr (r, s') \<Longrightarrow> timer_frame s s'"
    by (auto simp: timer_frame_def timeout_list_remove_def nt bind_r_Inr_iff split: if_splits)
  show "timer_frame s (snd (timeout_list_add p ts s))"
    by (simp add: timer_frame_def timeout_list_add_def Let_def nt)
qed

lemma timer_frame_update:
  "timeout_list_update p ts s = Inr s' \<Longrightarrow> timer_frame s s'"
  "rto_list_update p ts s = Inr s' \<Longrightarrow> timer_frame s s'"
  "timewait_list_add p ts s = Inr s' \<Longrightarrow> timer_frame s s'"
proof -
  note nt = no_timers_simps no_timer_fields_def
  show "timeout_list_update p ts s = Inr s' \<Longrightarrow> timer_frame s s'"
    by (auto simp: timer_frame_def timeout_list_update_def Let_def nt bind_r_Inr_iff split: if_splits)
  show "rto_list_update p ts s = Inr s' \<Longrightarrow> timer_frame s s'"
    using timer_frame_ops(1,2) timer_frame_trans
    by (fastforce simp: rto_list_update_def bind_r_Inr_iff)
  show "timewait_list_add p ts s = Inr s' \<Longrightarrow> timer_frame s s'"
    using timer_frame_ops(2) [of p "st_upd p (\<lambda>st. st\<lparr>st_ts_tw_expire := ts + TCP_TIMEWAIT\<rparr>) s"]
    by (auto simp: timer_frame_def timewait_list_add_def Let_def nt bind_r_Inr_iff split: if_splits)
qed

end
