(* ===== verification/Tcp_Stream.thy ===== *)
theory Tcp_Stream
  imports Timer_Lists
begin

text \<open>
  Creation, closing and destruction of streams (\<^verbatim>\<open>tcp_stream.c\<close>) and the queues on which a
  stream waits to send (the queue functions of \<^verbatim>\<open>tcp_out.c\<close> and \<^verbatim>\<open>tcp_out.h\<close>).
\<close>

section \<open>Queues of streams that wait to send\<close>

definition control_queue_add :: "ptr \<Rightarrow> 'h qstack \<Rightarrow> int \<times> 'h qstack" where
  "control_queue_add p s =
     (if \<not> sv_on_control_queue (sndvar s p)
      then let (ret, q) = sstreamq_enqueue (qs_control_queue s) p;
               s1 = s\<lparr>qs_control_queue := q\<rparr>
           in if ret = SUCCESS then (ret, sv_upd p (\<lambda>sv. sv\<lparr>sv_on_control_queue := True\<rparr>) s1)
              else (ret, s1)
      else (SUCCESS, s))"

definition ack_queue_add :: "ptr \<Rightarrow> 'h qstack \<Rightarrow> int \<times> 'h qstack" where
  "ack_queue_add p s =
     (if sv_ack_cnt (sndvar s p) \<noteq> 0 \<and> \<not> sv_on_ack_queue (sndvar s p)
      then let (ret, q) = sstreamq_enqueue (qs_ack_queue s) p;
               s1 = s\<lparr>qs_ack_queue := q\<rparr>
           in if ret = SUCCESS then (ret, sv_upd p (\<lambda>sv. sv\<lparr>sv_on_ack_queue := True\<rparr>) s1)
              else (ret, s1)
      else (SUCCESS, s))"

datatype ack_opt = ACK_OPT_NOW | ACK_OPT_AGGREGATE | ACK_OPT_WACK

definition enqueue_ack :: "ptr \<Rightarrow> ack_opt \<Rightarrow> 'h qstack \<Rightarrow> int \<times> 'h qstack" where
  "enqueue_ack p opt s =
     ack_queue_add p
       (case opt of
          ACK_OPT_NOW \<Rightarrow>
            if sv_ack_cnt (sndvar s p) < 63
            then sv_upd p (\<lambda>sv. sv\<lparr>sv_ack_cnt := sv_ack_cnt sv + 1\<rparr>) s else s
        | ACK_OPT_AGGREGATE \<Rightarrow>
            if sv_ack_cnt (sndvar s p) = 0 then sv_upd p (\<lambda>sv. sv\<lparr>sv_ack_cnt := 1\<rparr>) s else s
        | ACK_OPT_WACK \<Rightarrow> sv_upd p (\<lambda>sv. sv\<lparr>sv_is_wack := True\<rparr>) s)"

definition send_event_queue_select :: "u8 \<Rightarrow> u8" where
  "send_event_queue_select core_id = core_id"

definition send_event_enqueue :: "n21_queue \<Rightarrow> u8 \<Rightarrow> ptr \<Rightarrow> int \<times> n21_queue" where
  "send_event_enqueue q core_id p = streamq_enqueue q (send_event_queue_select core_id) p"

definition send_event_add :: "nat \<Rightarrow> ptr \<Rightarrow> bool \<Rightarrow> 'h qstack \<Rightarrow> int \<times> 'h qstack" where
  "send_event_add core_id p pri s =
     (if pri
      then let (r, q) = send_event_enqueue (qs_send_hevent_queue s) (of_nat core_id) p
           in (r, s\<lparr>qs_send_hevent_queue := q\<rparr>)
      else let (r, q) = send_event_enqueue (qs_send_event_queue s) (of_nat core_id) p
           in (r, s\<lparr>qs_send_event_queue := q\<rparr>))"

section \<open>Creating a stream\<close>

definition zero_queue :: circular_queue where
  "zero_queue = \<lparr>cq_head = 0, cq_queue = replicate (unat STATIC_BUFF_SIZE) NULL, cq_size = 0, cq_tail = 0\<rparr>"

definition zero_stream :: tcp_stream where
  "zero_stream = \<lparr>st_id = 0, st_snd_nxt = 0, st_rcv_nxt = 0, st_saddr = 0, st_daddr = 0, st_sport = 0,
     st_dport = 0, st_dhw_addr = replicate 6 0, st_state = TCP_ST_CLOSED, st_close_reason = 0,
     st_pdev_st = Pdev_EMPTY, st_ts_rto = 0, st_last_active_ts = 0, st_ts_tw_expire = 0,
     st_on_rto_idx = 0, st_on_timeout_list = False, st_on_timewait_list = False,
     st_saw_timestamp = False, st_sack_permit = False, st_control_list_waiting = False,
     st_have_reset = False, st_closed = False, st_priority = False,
     st_rcvvar = \<lparr>
       rv_rcvbuf = \<lparr>rb_merged_q = zero_queue, rb_ooo_list = \<lparr>ml_head = NULL, ml_tail = NULL\<rparr>,
         rb_high_q = zero_queue, rb_size = 0, rb_init_seq = 0, rb_head_seq = 0, rb_merged_next = 0\<rparr>,
       rv_rcv_wnd = 0, rv_irs = 0, rv_snd_wl1 = 0, rv_snd_wl2 = 0, rv_dup_acks = 0,
       rv_last_ack_seq = 0, rv_ts_recent = 0, rv_ts_last_ts_upd = 0\<rparr>,
     st_sndvar = \<lparr>
       sv_sndbuf = \<lparr>sb_usnd_q = zero_queue, sb_husnd_q = zero_queue,
         sb_uack_list = \<lparr>ml_head = NULL, ml_tail = NULL\<rparr>,
         sb_retrans_list = \<lparr>ml_head = NULL, ml_tail = NULL\<rparr>,
         sb_size = 0, sb_head_seq = 0, sb_next_seq = 0\<rparr>,
       sv_snd_una = 0, sv_snd_wnd = 0, sv_is_wack = False, sv_is_fin_sent = False, sv_ack_cnt = 0,
       sv_on_control_queue = False, sv_on_send_queue = False, sv_on_ack_queue = False,
       sv_on_closeq = False, sv_on_resetq = False, sv_ip_id = 0, sv_mss = 0, sv_eff_mss = 0,
       sv_wscale_mine = 0, sv_wscale_peer = 0, sv_peer_wnd = 0, sv_iss = 0, sv_fss = 0,
       sv_nif_out = 0, sv_nrtx = 0, sv_rto = 0, sv_cwnd = 0, sv_ssthresh = 0,
       sv_ts_lastack_sent = 0\<rparr>,
     st_socket = None, st_pending_events = [], st_listener = None\<rparr>"

definition stream_qtuple :: "tcp_stream \<Rightarrow> ipv4_5tuple" where
  "stream_qtuple st = \<lparr>qt_proto = 6, qt_ip_src = st_saddr st, qt_ip_dst = st_daddr st,
     qt_port_src = st_sport st, qt_port_dst = st_dport st\<rparr>"

text \<open>The receive and send variables of a new stream.\<close>

definition init_rcvvar :: "u32 \<Rightarrow> u32 \<Rightarrow> tcp_recv_vars \<Rightarrow> tcp_recv_vars" where
  "init_rcvvar rcvbuf_size irs rv =
     rv\<lparr>rv_irs := irs, rv_rcv_wnd := TCP_INITIAL_WINDOW, rv_snd_wl1 := irs - 1,
        rv_rcvbuf := rb_init rcvbuf_size (rv_rcvbuf rv) (irs + 1)\<rparr>"

definition init_sndvar :: "u32 \<Rightarrow> u32 \<Rightarrow> tcp_send_vars \<Rightarrow> tcp_send_vars" where
  "init_sndvar sndbuf_size iss sv =
     sv\<lparr>sv_ip_id := 0, sv_mss := TCP_DEFAULT_MSS, sv_eff_mss := TCP_DEFAULT_MSS,
        sv_wscale_mine := TCP_DEFAULT_WSCALE, sv_wscale_peer := 0, sv_nif_out := 0, sv_iss := iss,
        sv_snd_una := iss, sv_snd_wnd := TCP_INIT_CWND, sv_rto := TCP_INITIAL_RTO,
        sv_sndbuf := sb_init sndbuf_size (sv_sndbuf sv) (iss + 1)\<rparr>"

definition tcp_stream_create ::
    "'h env \<Rightarrow> nat option \<Rightarrow> u32 \<Rightarrow> u16 \<Rightarrow> u32 \<Rightarrow> u16 \<Rightarrow> u32 \<Rightarrow> 'h qstack \<Rightarrow> (ptr \<times> 'h qstack) result" where
  "tcp_stream_create ev sock saddr sport daddr dport seq s =
     (case qs_stream_pool s of
        [] \<Rightarrow> Inl Exit0
      | p # ps \<Rightarrow>
          let st1 = zero_stream\<lparr>st_saddr := saddr, st_sport := sport, st_daddr := daddr, st_dport := dport\<rparr>;
              (ret, ht) = ht_insert ev (qs_stream_ht s) (stream_qtuple st1) p;
              st2 = (case sock of None \<Rightarrow> st1 | Some k \<Rightarrow> st1\<lparr>st_socket := Some k, st_id := k\<rparr>);
              tb = (case sock of None \<Rightarrow> qs_sockets s
                    | Some k \<Rightarrow> (qs_sockets s)\<lparr>tb_sockets := (tb_sockets (qs_sockets s))
                        (k := (tb_sockets (qs_sockets s) k)\<lparr>so_stream := p\<rparr>)\<rparr>);
              iss = qs_rand s (qs_rand_idx s);
              st3 = st2\<lparr>st_state := TCP_ST_LISTEN, st_on_rto_idx := 0, st_priority := False,
                        st_rcvvar := init_rcvvar (ev_rcvbuf_size ev) seq (st_rcvvar st2),
                        st_sndvar := init_sndvar (ev_sndbuf_size ev) iss (st_sndvar st2),
                        st_rcv_nxt := seq, st_snd_nxt := iss, st_pending_events := []\<rparr>
          in Inr (p, s\<lparr>qs_stream_pool := ps, qs_stream_ht := ht, qs_flow_cnt := qs_flow_cnt s + 1,
                       qs_sockets := tb, qs_rand_idx := qs_rand_idx s + 1,
                       qs_streams := (qs_streams s)(p := st3)\<rparr>))"

section \<open>Closing and destroying a stream\<close>

definition tcp_stream_close :: "nat \<Rightarrow> ptr \<Rightarrow> 'h qstack \<Rightarrow> int \<times> 'h qstack" where
  "tcp_stream_close core_id p s =
     (if st_closed (qs_streams s p) then (0, s)
      else let s1 = st_upd p (\<lambda>st. st\<lparr>st_closed := True\<rparr>) s;
               state = st_state (qs_streams s1 p)
           in if state \<noteq> TCP_ST_ESTABLISHED \<and> state \<noteq> TCP_ST_CLOSE_WAIT then (- 1, s1)
              else let (_, q) = streamq_enqueue (qs_close_queue s1) (of_nat core_id) p
                   in (0, sv_upd p (\<lambda>sv. sv\<lparr>sv_on_closeq := True\<rparr>) (s1\<lparr>qs_close_queue := q\<rparr>)))"

text \<open>The buffers and the socket of a stream are released before its memory.\<close>

definition stream_release_buffers :: "ptr \<Rightarrow> 'h qstack \<Rightarrow> 'h qstack result" where
  "stream_release_buffers p s =
     bind_r (sb_free (qs_stack_id s) (sv_sndbuf (sndvar s p)) (qs_mem s)) (\<lambda>(_, sb, m1).
     let s1 = sv_upd p (\<lambda>sv. sv\<lparr>sv_sndbuf := sb\<rparr>) (s\<lparr>qs_mem := m1\<rparr>)
     in bind_r (rb_clear (qs_stack_id s1) (rv_rcvbuf (rcvvar s1 p)) (qs_mem s1)) (\<lambda>(rb, m2).
          Inr (rv_upd p (\<lambda>rv. rv\<lparr>rv_rcvbuf := rb\<rparr>) (s1\<lparr>qs_mem := m2\<rparr>))))"

definition stream_release_socket :: "ptr \<Rightarrow> 'h qstack \<Rightarrow> 'h qstack result" where
  "stream_release_socket p s =
     (case st_socket (qs_streams s p) of
        None \<Rightarrow> Inr s
      | Some k \<Rightarrow> bind_r (socket_free (qs_stack_id s) k (qs_sockets s)) (\<lambda>tb.
          Inr (s\<lparr>qs_sockets := tb\<rparr>)))"

definition tcp_stream_destroy :: "'h env \<Rightarrow> ptr \<Rightarrow> 'h qstack \<Rightarrow> 'h qstack result" where
  "tcp_stream_destroy ev p s =
     bind_r (if st_on_timeout_list (qs_streams s p) then timeout_list_remove p s else Inr (0, s)) (\<lambda>(_, s1).
     bind_r (if st_on_timewait_list (qs_streams s1 p) then timewait_list_remove p s1 else Inr (0, s1)) (\<lambda>(_, s2).
     bind_r (if st_on_rto_idx (qs_streams s2 p) \<noteq> 0 then rto_list_remove p s2 else Inr (0, s2)) (\<lambda>(_, s3).
     let (ret, ht) = ht_delete ev (qs_stream_ht s3) (stream_qtuple (qs_streams s3 p));
         s4 = s3\<lparr>qs_stream_ht := ht, qs_flow_cnt := qs_flow_cnt s3 - 1\<rparr>
     in bind_r (stream_release_buffers p s4) (\<lambda>s5.
        bind_r (stream_release_socket p s5) (\<lambda>s6.
          Inr (s6\<lparr>qs_stream_pool := qs_stream_pool s6 @ [p]\<rparr>))))))"

section \<open>What destroying a stream does\<close>

text \<open>The stream's buffers are well formed, whatever they hold.\<close>

definition buffers_ok :: "'h qstack \<Rightarrow> ptr \<Rightarrow> bool" where
  "buffers_ok s p \<longleftrightarrow>
     (\<exists>us rs qs hs. sb_rel (qs_mem s) (sv_sndbuf (sndvar s p)) us rs qs hs)
     \<and> (\<exists>ms os hs. rb_rel (qs_mem s) (rv_rcvbuf (rcvvar s p)) ms os hs)"

definition socket_in_use :: "'h qstack \<Rightarrow> ptr \<Rightarrow> bool" where
  "socket_in_use s p \<longleftrightarrow> (\<forall>k. st_socket (qs_streams s p) = Some k \<longrightarrow>
     so_socktype (tb_sockets (qs_sockets s) k) \<noteq> SOCK_TYPE_UNUSED)"

text \<open>Nothing changes the place of an mbuf in the sequence space or in a list.\<close>

definition links_kept :: "mbufs \<Rightarrow> mbufs \<Rightarrow> bool" where
  "links_kept m m' \<longleftrightarrow> seg_kept m m' \<and> (\<forall>q. mb_buf_next (mm_heap m' q) = mb_buf_next (mm_heap m q))"

lemma links_kept_refl [simp]: "links_kept m m"
  by (simp add: links_kept_def)

lemma links_kept_trans [trans]: "links_kept m1 m2 \<Longrightarrow> links_kept m2 m3 \<Longrightarrow> links_kept m1 m3"
  unfolding links_kept_def using seg_kept_trans by auto

lemma links_kept_mlist: "links_kept m m' \<Longrightarrow> mlist (mm_heap m) l xs \<Longrightarrow> mlist (mm_heap m') l xs"
  using mlist_heap_eq [of "mm_heap m" l xs "mm_heap m'"] by (simp add: links_kept_def)

lemma links_kept_rel:
  assumes "links_kept m m'"
  shows "sb_rel m sb us rs qs hs \<Longrightarrow> sb_rel m' sb us rs qs hs" "rb_rel m rb ms os js \<Longrightarrow> rb_rel m' rb ms os js"
proof -
  have k: "seg_kept m m'" "mm_count m' = mm_count m" using assms by (simp_all add: links_kept_def seg_kept_def)
  show "sb_rel m sb us rs qs hs \<Longrightarrow> sb_rel m' sb us rs qs hs"
    using links_kept_mlist [OF assms] by (simp add: sb_rel_def k(2))
  show "rb_rel m rb ms os js \<Longrightarrow> rb_rel m' rb ms os js"
    using rb_rel_heap k(1) links_kept_mlist [OF assms] by (meson rb_rel_def)
qed

lemma buffers_ok_kept:
  assumes "buffers_ok s q" "links_kept (qs_mem s) (qs_mem s')"
    "sv_sndbuf (sndvar s' q) = sv_sndbuf (sndvar s q)" "rv_rcvbuf (rcvvar s' q) = rv_rcvbuf (rcvvar s q)"
  shows "buffers_ok s' q"
  using assms(1) links_kept_rel [OF assms(2)] unfolding buffers_ok_def assms(3,4) by blast

lemma stream_release_buffers_spec:
  assumes "buffers_ok s p"
  shows "\<exists>s'. stream_release_buffers p s = Inr s' \<and> same_timers s s'
    \<and> (\<forall>q. q \<noteq> p \<longrightarrow> qs_streams s' q = qs_streams s q) \<and> links_kept (qs_mem s) (qs_mem s')
    \<and> st_socket (qs_streams s' p) = st_socket (qs_streams s p) \<and> st_state (qs_streams s' p) = st_state (qs_streams s p)
    \<and> sv_on_control_queue (sndvar s' p) = sv_on_control_queue (sndvar s p)
    \<and> qs_sockets s' = qs_sockets s \<and> qs_stream_ht s' = qs_stream_ht s \<and> qs_stream_pool s' = qs_stream_pool s
    \<and> qs_control_queue s' = qs_control_queue s \<and> qs_stack_id s' = qs_stack_id s"
proof -
  obtain us rs qs hs ms os his where sb: "sb_rel (qs_mem s) (sv_sndbuf (sndvar s p)) us rs qs hs"
    and rb: "rb_rel (qs_mem s) (rv_rcvbuf (rcvvar s p)) ms os his"
    using assms by (auto simp: buffers_ok_def)
  obtain b1 m1 where 1: "sb_free (qs_stack_id s) (sv_sndbuf (sndvar s p)) (qs_mem s) = Inr (SUCCESS, b1, m1)"
      "seg_kept (qs_mem s) m1" "\<forall>q. mb_buf_next (mm_heap m1 q) = mb_buf_next (mm_heap (qs_mem s) q)"
    using sb_free_spec [OF sb, of "qs_stack_id s"] by blast
  have "mlist (mm_heap m1) (rb_ooo_list (rv_rcvbuf (rcvvar s p))) os"
    using rb 1(3) mlist_heap_eq [of "mm_heap (qs_mem s)" _ os "mm_heap m1"] by (simp add: rb_rel_def)
  from rb_rel_heap [OF rb 1(2) this] have "rb_rel m1 (rv_rcvbuf (rcvvar s p)) ms os his" .
  then obtain b2 m2 where 2: "rb_clear (qs_stack_id s) (rv_rcvbuf (rcvvar s p)) m1 = Inr (b2, m2)"
      "seg_kept m1 m2" "\<forall>q. mb_buf_next (mm_heap m2 q) = mb_buf_next (mm_heap m1 q)"
    using rb_clear_spec [of m1 "rv_rcvbuf (rcvvar s p)" ms os his "qs_stack_id s"] by auto
  have "links_kept (qs_mem s) m2"
    using 1(2,3) 2(2,3) seg_kept_trans [OF 1(2) 2(2)] by (simp add: links_kept_def)
  then show ?thesis
    using 1(1) 2(1) by (simp add: stream_release_buffers_def Let_def same_timers_def stack_simps rv_upd_def)
qed

lemma stream_release_socket_spec:
  assumes "socket_in_use s p"
  shows "\<exists>tb. stream_release_socket p s = Inr (s\<lparr>qs_sockets := tb\<rparr>)
    \<and> (\<forall>k. st_socket (qs_streams s p) = Some k \<longrightarrow>
         socket_free (qs_stack_id s) k (qs_sockets s) = Inr tb \<and>
         so_socktype (tb_sockets tb k) = SOCK_TYPE_UNUSED)
    \<and> (\<forall>k. st_socket (qs_streams s p) \<noteq> Some k \<longrightarrow> tb_sockets tb k = tb_sockets (qs_sockets s) k)"
proof (cases "st_socket (qs_streams s p)")
  case None
  then show ?thesis by (intro exI [of _ "qs_sockets s"]) (simp add: stream_release_socket_def)
next
  case (Some k)
  then have "so_socktype (tb_sockets (qs_sockets s) k) \<noteq> SOCK_TYPE_UNUSED"
    using assms by (simp add: socket_in_use_def)
  then obtain tb where "socket_free (qs_stack_id s) k (qs_sockets s) = Inr tb"
      "so_socktype (tb_sockets tb k) = SOCK_TYPE_UNUSED"
      "\<forall>j. j \<noteq> k \<longrightarrow> tb_sockets tb j = tb_sockets (qs_sockets s) j"
    by (simp add: socket_free_def Let_def)
  then show ?thesis using Some by (intro exI [of _ tb]) (simp add: stream_release_socket_def)
qed

definition on_no_timer :: "'h qstack \<Rightarrow> ptr \<Rightarrow> bool" where
  "on_no_timer s p \<longleftrightarrow> p \<notin> set (qs_rto_list s) \<and> p \<notin> set (qs_timewait_list s) \<and> p \<notin> set (qs_timeout_list s)"

lemma timer_remove_other:
  assumes "q \<noteq> p"
  shows "rto_list_remove p s = Inr (r, s') \<Longrightarrow> qs_streams s' q = qs_streams s q"
    "timewait_list_remove p s = Inr (r, s') \<Longrightarrow> qs_streams s' q = qs_streams s q"
    "timeout_list_remove p s = Inr (r, s') \<Longrightarrow> qs_streams s' q = qs_streams s q"
  using assms
  by (auto simp: rto_list_remove_def timewait_list_remove_def timeout_list_remove_def Let_def stack_simps
      bind_r_Inr_iff split: if_splits)

lemma destroy_timers:
  assumes inv: "timer_inv s"
  shows "\<exists>s3. bind_r (if st_on_timeout_list (qs_streams s p) then timeout_list_remove p s else Inr (0, s)) (\<lambda>(_, s1).
     bind_r (if st_on_timewait_list (qs_streams s1 p) then timewait_list_remove p s1 else Inr (0, s1)) (\<lambda>(_, s2).
     bind_r (if st_on_rto_idx (qs_streams s2 p) \<noteq> 0 then rto_list_remove p s2 else Inr (0, s2)) (\<lambda>(_, s3). f s3))) = f s3
     \<and> timer_inv s3 \<and> on_no_timer s3 p \<and> timer_frame s s3
     \<and> qs_rto_list s3 = remove1 p (qs_rto_list s) \<and> qs_timewait_list s3 = remove1 p (qs_timewait_list s)
     \<and> qs_timeout_list s3 = remove1 p (qs_timeout_list s)
     \<and> (\<forall>q. q \<noteq> p \<longrightarrow> qs_streams s3 q = qs_streams s q)"
proof -
  have gone: "p \<notin> set (remove1 p (qs_rto_list s))" "p \<notin> set (remove1 p (qs_timewait_list s))"
    "p \<notin> set (remove1 p (qs_timeout_list s))"
    using inv by (simp_all add: timer_inv_def)
  obtain r1 s1 where 1: "timeout_list_remove p s = Inr (r1, s1)" "timer_inv s1" "timer_frame s s1"
      "qs_timeout_list s1 = remove1 p (qs_timeout_list s)"
      "qs_rto_list s1 = qs_rto_list s" "qs_timewait_list s1 = qs_timewait_list s"
    using timeout_list_remove_inv [OF inv, of p] timer_frame_ops(4) by metis
  have 11: "(if st_on_timeout_list (qs_streams s p) then timeout_list_remove p s else Inr (0, s))
      = Inr (if st_on_timeout_list (qs_streams s p) then r1 else 0, s1)"
    using 1(1) by (auto simp: timeout_list_remove_def)
  obtain r2 s2 where 2: "timewait_list_remove p s1 = Inr (r2, s2)" "timer_inv s2" "timer_frame s1 s2"
      "qs_timewait_list s2 = remove1 p (qs_timewait_list s1)"
      "qs_rto_list s2 = qs_rto_list s1" "qs_timeout_list s2 = qs_timeout_list s1"
    using timewait_list_remove_inv [OF 1(2), of p] timer_frame_ops(3) by metis
  have 22: "(if st_on_timewait_list (qs_streams s1 p) then timewait_list_remove p s1 else Inr (0, s1))
      = Inr (if st_on_timewait_list (qs_streams s1 p) then r2 else 0, s2)"
    using 2(1) by (auto simp: timewait_list_remove_def)
  obtain r3 s3 where 3: "rto_list_remove p s2 = Inr (r3, s3)" "timer_inv s3" "timer_frame s2 s3"
      "qs_rto_list s3 = remove1 p (qs_rto_list s2)"
      "qs_timewait_list s3 = qs_timewait_list s2" "qs_timeout_list s3 = qs_timeout_list s2"
    using rto_list_remove_inv [OF 2(2), of p] timer_frame_ops(2) by metis
  have 33: "(if st_on_rto_idx (qs_streams s2 p) \<noteq> 0 then rto_list_remove p s2 else Inr (0, s2))
      = Inr (if st_on_rto_idx (qs_streams s2 p) \<noteq> 0 then r3 else 0, s3)"
    using 3(1) by (auto simp: rto_list_remove_def)
  show ?thesis
    unfolding 11 using 1(4-) 2(4-) 3(2,4-) gone timer_remove_other(1) [OF _ 3(1)] timer_remove_other(2) [OF _ 2(1)]
      timer_remove_other(3) [OF _ 1(1)] timer_frame_trans [OF 1(3) timer_frame_trans [OF 2(3) 3(3)]]
    by (intro exI [of _ s3]) (simp add: on_no_timer_def 22 33)
qed

lemma tcp_stream_destroy_spec:
  assumes inv: "timer_inv s" and buf: "buffers_ok s p" and sock: "socket_in_use s p"
  shows "\<exists>s'. tcp_stream_destroy ev p s = Inr s' \<and> timer_inv s' \<and> on_no_timer s' p
    \<and> qs_rto_list s' = remove1 p (qs_rto_list s) \<and> qs_timewait_list s' = remove1 p (qs_timewait_list s)
    \<and> qs_timeout_list s' = remove1 p (qs_timeout_list s)
    \<and> qs_stream_ht s' = snd (ht_delete ev (qs_stream_ht s) (stream_qtuple (qs_streams s p)))
    \<and> qs_stream_pool s' = qs_stream_pool s @ [p]
    \<and> (\<forall>k. st_socket (qs_streams s p) = Some k \<longrightarrow>
         so_socktype (tb_sockets (qs_sockets s') k) = SOCK_TYPE_UNUSED)
    \<and> (\<forall>q. q \<noteq> p \<longrightarrow> qs_streams s' q = qs_streams s q)
    \<and> (\<forall>k. st_socket (qs_streams s p) \<noteq> Some k \<longrightarrow>
         tb_sockets (qs_sockets s') k = tb_sockets (qs_sockets s) k)
    \<and> (\<forall>q. q \<noteq> p \<longrightarrow> buffers_ok s q \<longrightarrow> buffers_ok s' q)
    \<and> st_state (qs_streams s' p) = st_state (qs_streams s p)
    \<and> qs_control_queue s' = qs_control_queue s
    \<and> sv_on_control_queue (sndvar s' p) = sv_on_control_queue (sndvar s p)"
proof -
  let ?f = "\<lambda>s3. let (ret, ht) = ht_delete ev (qs_stream_ht s3) (stream_qtuple (qs_streams s3 p));
         s4 = s3\<lparr>qs_stream_ht := ht, qs_flow_cnt := qs_flow_cnt s3 - 1\<rparr>
     in bind_r (stream_release_buffers p s4) (\<lambda>s5.
        bind_r (stream_release_socket p s5) (\<lambda>s6.
          Inr (s6\<lparr>qs_stream_pool := qs_stream_pool s6 @ [p]\<rparr>)))"
  obtain s3 where 3: "tcp_stream_destroy ev p s = ?f s3" "timer_inv s3" "on_no_timer s3 p"
      "timer_frame s s3" "qs_rto_list s3 = remove1 p (qs_rto_list s)"
      "qs_timewait_list s3 = remove1 p (qs_timewait_list s)"
      "qs_timeout_list s3 = remove1 p (qs_timeout_list s)" "\<forall>q. q \<noteq> p \<longrightarrow> qs_streams s3 q = qs_streams s q"
    using destroy_timers [OF inv, of p ?f] unfolding tcp_stream_destroy_def by blast
  note fr = timer_frameD [OF 3(4)]
  have key: "stream_qtuple (qs_streams s3 p) = stream_qtuple (qs_streams s p)"
    by (simp add: stream_qtuple_def fr)
  define ht where "ht = snd (ht_delete ev (qs_stream_ht s) (stream_qtuple (qs_streams s p)))"
  let ?s4 = "s3\<lparr>qs_stream_ht := ht, qs_flow_cnt := qs_flow_cnt s3 - 1\<rparr>"
  have "buffers_ok ?s4 p" using buf by (simp add: buffers_ok_def fr)
  then obtain s5 where 5: "stream_release_buffers p ?s4 = Inr s5" "same_timers ?s4 s5"
      "\<forall>q. q \<noteq> p \<longrightarrow> qs_streams s5 q = qs_streams ?s4 q" "links_kept (qs_mem ?s4) (qs_mem s5)"
      "st_socket (qs_streams s5 p) = st_socket (qs_streams ?s4 p)"
      "st_state (qs_streams s5 p) = st_state (qs_streams ?s4 p)"
      "sv_on_control_queue (sndvar s5 p) = sv_on_control_queue (sndvar ?s4 p)"
      "qs_sockets s5 = qs_sockets ?s4" "qs_stream_ht s5 = ht" "qs_stream_pool s5 = qs_stream_pool ?s4"
      "qs_control_queue s5 = qs_control_queue ?s4"
    using stream_release_buffers_spec [of ?s4 p] by auto
  have "socket_in_use s5 p" using sock 5(5,8) by (simp add: socket_in_use_def fr)
  then obtain tb where 6: "stream_release_socket p s5 = Inr (s5\<lparr>qs_sockets := tb\<rparr>)"
      "\<forall>k. st_socket (qs_streams s5 p) = Some k \<longrightarrow> so_socktype (tb_sockets tb k) = SOCK_TYPE_UNUSED"
      "\<forall>k. st_socket (qs_streams s5 p) \<noteq> Some k \<longrightarrow> tb_sockets tb k = tb_sockets (qs_sockets s5) k"
    using stream_release_socket_spec by blast
  let ?s' = "s5\<lparr>qs_sockets := tb, qs_stream_pool := qs_stream_pool s5 @ [p]\<rparr>"
  have d: "tcp_stream_destroy ev p s = Inr ?s'"
    using 3(1) 5(1) 6(1) by (simp add: key fr ht_def split: prod.splits)
  have st: "same_timers s3 ?s'" using 5(2) by (simp add: same_timers_def)
  have "timer_inv ?s'" "on_no_timer ?s' p" using 3(2,3) st timer_inv_same [OF st]
    by (simp_all add: on_no_timer_def same_timers_def)
  moreover have "buffers_ok ?s' q" if "q \<noteq> p" "buffers_ok s q" for q
    using buffers_ok_kept [OF that(2), of ?s'] 5(3,4) that(1) by (simp add: fr)
  ultimately show ?thesis
    using d 3(5-8) st 5 6(2,3)
    by (simp add: fr ht_def same_timers_def)
qed

section \<open>What creating a stream does\<close>

definition empty_stream :: "'h qstack \<Rightarrow> ptr \<Rightarrow> bool" where
  "empty_stream s p \<longleftrightarrow>
     sb_rel (qs_mem s) (sv_sndbuf (sndvar s p)) [] [] [] []
     \<and> sb_contig (qs_mem s) (sv_sndbuf (sndvar s p)) []
     \<and> rb_rel (qs_mem s) (rv_rcvbuf (rcvvar s p)) [] [] []"

lemma zero_queue_init:
  "dir_cirq_wf (snd (mbufq_init zero_queue))" "cirq_list (snd (mbufq_init zero_queue)) = []"
  using mbufq_init_wf [of zero_queue] by (simp_all add: zero_queue_def STATIC_BUFF_SIZE_def)

lemma init_buffers:
  "sb_rel m (sb_init n (sv_sndbuf (st_sndvar zero_stream)) i) [] [] [] []"
  "sb_contig m (sb_init n (sv_sndbuf (st_sndvar zero_stream)) i) []"
  "rb_rel m (rb_init n (rv_rcvbuf (st_rcvvar zero_stream)) i) [] [] []"
  using zero_queue_init
  by (simp_all add: sb_rel_def sb_init_def sb_contig_def rb_rel_def rb_init_def zero_stream_def
      mlist_init ooo_ordered_def)

lemma tcp_stream_create_spec:
  assumes "qs_stream_pool s = p # ps"
  shows "\<exists>s'. tcp_stream_create ev sock saddr sport daddr dport seq s = Inr (p, s')
    \<and> st_state (qs_streams s' p) = TCP_ST_LISTEN \<and> empty_stream s' p
    \<and> qs_stream_ht s' = snd (ht_insert ev (qs_stream_ht s) (stream_qtuple (qs_streams s' p)) p)
    \<and> stream_qtuple (qs_streams s' p) = \<lparr>qt_proto = 6, qt_ip_src = saddr, qt_ip_dst = daddr,
         qt_port_src = sport, qt_port_dst = dport\<rparr>
    \<and> st_rcv_nxt (qs_streams s' p) = seq \<and> rb_merged_next (rv_rcvbuf (rcvvar s' p)) = seq + 1
    \<and> st_snd_nxt (qs_streams s' p) = sv_iss (sndvar s' p)
    \<and> sb_head_seq (sv_sndbuf (sndvar s' p)) = sv_iss (sndvar s' p) + 1
    \<and> st_socket (qs_streams s' p) = sock \<and> qs_stream_pool s' = ps
    \<and> (\<forall>k. sock = Some k \<longrightarrow> so_stream (tb_sockets (qs_sockets s') k) = p)
    \<and> (on_no_timer s p \<longrightarrow> timer_inv s \<longrightarrow> timer_inv s')"
proof -
  let ?iss = "qs_rand s (qs_rand_idx s)"
  define st1 where "st1 = zero_stream\<lparr>st_saddr := saddr, st_sport := sport, st_daddr := daddr, st_dport := dport\<rparr>"
  define st2 where "st2 = (case sock of None \<Rightarrow> st1 | Some k \<Rightarrow> st1\<lparr>st_socket := Some k, st_id := k\<rparr>)"
  define tb where "tb = (case sock of None \<Rightarrow> qs_sockets s
    | Some k \<Rightarrow> (qs_sockets s)\<lparr>tb_sockets := (tb_sockets (qs_sockets s))
        (k := (tb_sockets (qs_sockets s) k)\<lparr>so_stream := p\<rparr>)\<rparr>)"
  define st3 where "st3 = st2\<lparr>st_state := TCP_ST_LISTEN, st_on_rto_idx := 0, st_priority := False,
    st_rcvvar := init_rcvvar (ev_rcvbuf_size ev) seq (st_rcvvar st2),
    st_sndvar := init_sndvar (ev_sndbuf_size ev) ?iss (st_sndvar st2),
    st_rcv_nxt := seq, st_snd_nxt := ?iss, st_pending_events := []\<rparr>"
  define ht where "ht = snd (ht_insert ev (qs_stream_ht s) (stream_qtuple st1) p)"
  let ?s = "s\<lparr>qs_stream_pool := ps, qs_stream_ht := ht, qs_flow_cnt := qs_flow_cnt s + 1, qs_sockets := tb,
    qs_rand_idx := qs_rand_idx s + 1, qs_streams := (qs_streams s)(p := st3)\<rparr>"
  have r: "tcp_stream_create ev sock saddr sport daddr dport seq s = Inr (p, ?s)"
    unfolding tcp_stream_create_def assms st1_def st2_def st3_def tb_def ht_def
    by (simp add: Let_def case_prod_unfold)
  have z: "st_rcvvar st2 = st_rcvvar zero_stream" "st_sndvar st2 = st_sndvar zero_stream"
    "stream_qtuple st3 = stream_qtuple st1" "st_socket st3 = sock" "st_on_timewait_list st3 = False"
    "st_on_timeout_list st3 = False" "st_on_rto_idx st3 = 0"
    by (auto simp: st1_def st2_def st3_def stream_qtuple_def zero_stream_def split: option.splits)
  have q: "stream_qtuple st1 = \<lparr>qt_proto = 6, qt_ip_src = saddr, qt_ip_dst = daddr,
      qt_port_src = sport, qt_port_dst = dport\<rparr>" by (simp add: st1_def stream_qtuple_def)
  have "empty_stream ?s p"
    using init_buffers by (simp add: empty_stream_def st3_def z init_rcvvar_def init_sndvar_def)
  moreover have "timer_inv ?s" if "on_no_timer s p" "timer_inv s"
    using that z unfolding timer_inv_def on_no_timer_def by auto
  ultimately show ?thesis
    using r z(3,4) q by (auto simp: st3_def z(1,2) init_rcvvar_def init_sndvar_def rb_init_def sb_init_def ht_def tb_def)
qed

section \<open>Sample stack\<close>

text \<open>A hash table that is a plain map satisfies the laws; the sample stack has four free streams.\<close>

definition env0 :: "(ipv4_5tuple \<Rightarrow> ptr option) env" where
  "env0 = \<lparr>ev_hash_add = (\<lambda>h k v. (0, h(k := Some v))),
     ev_hash_lookup = (\<lambda>h k. case h k of None \<Rightarrow> (- ENOENT, NULL) | Some v \<Rightarrow> (0, v)),
     ev_hash_del = (\<lambda>h k. case h k of None \<Rightarrow> (- ENOENT, h) | Some v \<Rightarrow> (0, h(k := None))),
     ev_stack_thread = 1, ev_app_thread = 1, ev_max_concurrency = 4, ev_rcvbuf_size = 8, ev_sndbuf_size = 8,
     ev_ip_addr = 0x0A000001, ev_haddr = [2, 0, 0, 0, 0, 1]\<rparr>"

lemma env0_laws: "rte_hash_laws env0"
  by (auto simp: rte_hash_laws_def env0_def ENOENT_def split: option.splits)

definition squeue0 :: circular_queue where
  "squeue0 = sstreamq_init queue0 4"

definition nqueue0 :: n21_queue where
  "nqueue0 = n21_example"

lemma nqueue0_empty: "n21q_wf nqueue0" "n21q_items nqueue0 = {#}" "nq_queue_num nqueue0 = 2" "\<not> cirq_full (nq_queues nqueue0 ! 1)"
  using n21_example_wf by (simp_all add: nqueue0_def n21_example_def n21q_init_def n21q_items_def cirq_init_def cirq_list_def
      cirq_count_def upt_rec o_def cirq_full_def cirq_succ_def)

definition arp0 :: arp_state where
  "arp0 = \<lparr>ar_tables = replicate FULL_ARP_TABLE_SIZE [], ar_list = [],
     ar_sarp_table = replicate STATIC_ARP_NUM \<lparr>at_ip = 0, at_ip_mask = 0, at_haddr = replicate ETH_ALEN 0, at_last_used = 0\<rparr>,
     ar_sarp_num = 0, ar_calloc = (\<lambda>_. True), ar_calloc_idx = 0\<rparr>"

definition stack0 :: "(ipv4_5tuple \<Rightarrow> ptr option) qstack" where
  "stack0 = \<lparr>qs_stack_id = 0, qs_streams = (\<lambda>_. zero_stream), qs_mem = mem_segs, qs_control_queue = squeue0,
     qs_ack_queue = squeue0, qs_send_event_queue = nqueue0, qs_send_hevent_queue = nqueue0,
     qs_close_queue = nqueue0, qs_connect_queue = nqueue0, qs_rto_list = [], qs_timewait_list = [], qs_timeout_list = [],
     qs_stream_ht = (\<lambda>_. None), qs_stream_pool = [1, 2, 3, 4], qs_flow_cnt = 0,
     qs_sockets = \<lparr>tb_sockets = (\<lambda>_. socket0), tb_free_socket = (\<lambda>_. [0, 1, 2, 3]), tb_free_num = (\<lambda>_. 4),
       tb_free_public = [], tb_free_public_num = 0, tb_qe_reset = []\<rparr>,
     qs_listener = (\<lambda>_. \<lparr>ls_sockid = 0, ls_port = 80, ls_socket = None, ls_acceptq = (\<lambda>_. nqueue0)\<rparr>),
     qs_listener0 = None,
     qs_dpdk = \<lparr>dp_th_mbufs = squeue0, dp_tl_mbufs = squeue0, dp_rh_mbufs = squeue0, dp_rl_mbufs = squeue0,
       dp_pkts_txburst = replicate 256 NULL, dp_tx_num = 0, dp_free_queue = nqueue0, dp_rxfree_queue = nqueue0,
       dp_tx_pool = [5, 6, 7], dp_nic = \<lparr>nic_rx = [], nic_tx_room = [], nic_sent = [], nic_freed = []\<rparr>\<rparr>,
     qs_arp = arp0,
     qs_events = [], qs_rand = (\<lambda>i. of_nat i + 1000), qs_rand_idx = 0\<rparr>"

lemma stack0_timer_inv: "timer_inv stack0"
  by (simp add: timer_inv_def stack0_def zero_stream_def)

section \<open>Main properties\<close>

text \<open>
  Creating a stream takes a free chunk and gives a stream in LISTEN with empty
  buffers whose numbers fit together: it expects the byte after the peer's SYN, will number its
  own first byte one after its SYN, and is found in the hash table under its four-tuple unless
  the table is full; no other stream, timer or key changes.
\<close>

lemma tcp_stream_create_correct:
  assumes "rte_hash_laws ev" "qs_stream_pool s = p # ps" "timer_inv s" "on_no_timer s p"
    "\<And>key. 0 \<le> fst (ev_hash_add ev (qs_stream_ht s) key p)"
  shows "\<exists>s'. tcp_stream_create ev sock saddr sport daddr dport seq s = Inr (p, s')
    \<and> st_state (qs_streams s' p) = TCP_ST_LISTEN \<and> empty_stream s' p \<and> timer_inv s'
    \<and> rb_merged_next (rv_rcvbuf (rcvvar s' p)) = seq + 1
    \<and> sb_head_seq (sv_sndbuf (sndvar s' p)) = st_snd_nxt (qs_streams s' p) + 1
    \<and> ht_search ev (qs_stream_ht s') \<lparr>qt_proto = 6, qt_ip_src = saddr, qt_ip_dst = daddr,
         qt_port_src = sport, qt_port_dst = dport\<rparr> = p
    \<and> (\<forall>key. key \<noteq> \<lparr>qt_proto = 6, qt_ip_src = saddr, qt_ip_dst = daddr,
         qt_port_src = sport, qt_port_dst = dport\<rparr> \<longrightarrow>
         ht_search ev (qs_stream_ht s') key = ht_search ev (qs_stream_ht s) key)
    \<and> qs_stream_pool s' = ps \<and> (\<forall>k. sock = Some k \<longrightarrow> so_stream (tb_sockets (qs_sockets s') k) = p)"
proof -
  let ?key = "\<lparr>qt_proto = 6, qt_ip_src = saddr, qt_ip_dst = daddr, qt_port_src = sport, qt_port_dst = dport\<rparr>"
  obtain s' where s': "tcp_stream_create ev sock saddr sport daddr dport seq s = Inr (p, s')"
      "st_state (qs_streams s' p) = TCP_ST_LISTEN" "empty_stream s' p"
      "qs_stream_ht s' = snd (ht_insert ev (qs_stream_ht s) ?key p)"
      "rb_merged_next (rv_rcvbuf (rcvvar s' p)) = seq + 1"
      "sb_head_seq (sv_sndbuf (sndvar s' p)) = st_snd_nxt (qs_streams s' p) + 1"
      "qs_stream_pool s' = ps" "\<forall>k. sock = Some k \<longrightarrow> so_stream (tb_sockets (qs_sockets s') k) = p" "timer_inv s'"
    using tcp_stream_create_spec [OF assms(2), of ev sock saddr sport daddr dport seq] assms(3,4) by auto
  obtain r h where h: "ht_insert ev (qs_stream_ht s) ?key p = (Some r, h)" "0 \<le> r"
    using assms(5) [of ?key] by (simp add: ht_insert_def case_prod_unfold Let_def)
  show ?thesis
    using s' h ht_search_insert [OF assms(1) h] by auto
qed

theorem tcp_stream_create_correct_witness:
  "\<exists>s'. tcp_stream_create env0 (Some 2) 0x0A000001 80 0x0A000002 4000 77 stack0 = Inr (1, s')
     \<and> rb_merged_next (rv_rcvbuf (rcvvar s' 1)) = 78"
proof -
  have "qs_stream_pool stack0 = 1 # [2, 3, 4]" "on_no_timer stack0 1" by (simp_all add: stack0_def on_no_timer_def)
  moreover have "0 \<le> fst (ev_hash_add env0 (qs_stream_ht stack0) key 1)" for key by (simp add: env0_def)
  ultimately show ?thesis
    using tcp_stream_create_correct [where ev = env0 and s = stack0 and p = 1 and ps = "[2, 3, 4]" and
        sock = "Some 2" and saddr = "0x0A000001" and sport = 80 and daddr = "0x0A000002" and dport = 4000 and seq = 77]
      env0_laws stack0_timer_inv by auto
qed

text \<open>
  C29 (safety). Destroying a stream always succeeds and takes it off every timer list and out of
  the hash table, marks its socket unused and gives its memory back; every other stream is the record
  it was, its buffers stay well formed, and the other timers, keys and sockets stay as they were.
\<close>

theorem tcp_stream_destroy_complete:
  assumes "rte_hash_laws ev" "timer_inv s" "buffers_ok s p" "socket_in_use s p"
  shows "\<exists>s'. tcp_stream_destroy ev p s = Inr s' \<and> timer_inv s' \<and> on_no_timer s' p
    \<and> qs_rto_list s' = remove1 p (qs_rto_list s) \<and> qs_timewait_list s' = remove1 p (qs_timewait_list s)
    \<and> qs_timeout_list s' = remove1 p (qs_timeout_list s)
    \<and> ht_search ev (qs_stream_ht s') (stream_qtuple (qs_streams s p)) = NULL
    \<and> (\<forall>key. key \<noteq> stream_qtuple (qs_streams s p) \<longrightarrow>
         ht_search ev (qs_stream_ht s') key = ht_search ev (qs_stream_ht s) key)
    \<and> (\<forall>k. st_socket (qs_streams s p) = Some k \<longrightarrow>
         so_socktype (tb_sockets (qs_sockets s') k) = SOCK_TYPE_UNUSED)
    \<and> (\<forall>k. st_socket (qs_streams s p) \<noteq> Some k \<longrightarrow>
         tb_sockets (qs_sockets s') k = tb_sockets (qs_sockets s) k)
    \<and> (\<forall>q. q \<noteq> p \<longrightarrow> qs_streams s' q = qs_streams s q)
    \<and> (\<forall>q. q \<noteq> p \<longrightarrow> buffers_ok s q \<longrightarrow> buffers_ok s' q)
    \<and> qs_stream_pool s' = qs_stream_pool s @ [p]"
proof -
  obtain r h where h: "ht_delete ev (qs_stream_ht s) (stream_qtuple (qs_streams s p)) = (r, h)" by fastforce
  show ?thesis
    using tcp_stream_destroy_spec [OF assms(2-4), of ev] ht_search_delete [OF assms(1) h] by (auto simp: h)
qed

text \<open>A stack whose stream 1 is on two timer lists, has socket 2 and waits in the control queue.\<close>

definition stream1 :: tcp_stream where
  "stream1 = zero_stream\<lparr>st_state := TCP_ST_ESTABLISHED, st_sport := 80, st_dport := 4000, st_socket := Some 2,
     st_on_rto_idx := RTO_STORAGE, st_on_timeout_list := True,
     st_rcvvar := init_rcvvar 8 77 (st_rcvvar zero_stream),
     st_sndvar := (init_sndvar 8 1000 (st_sndvar zero_stream))\<lparr>sv_on_control_queue := True\<rparr>\<rparr>"

definition stack1 :: "(ipv4_5tuple \<Rightarrow> ptr option) qstack" where
  "stack1 = stack0\<lparr>qs_streams := (\<lambda>_. zero_stream)(1 := stream1), qs_stream_pool := [2, 3, 4],
     qs_rto_list := [1], qs_timeout_list := [1], qs_stream_ht := [stream_qtuple stream1 \<mapsto> 1],
     qs_control_queue := snd (sstreamq_enqueue squeue0 1),
     qs_sockets := (qs_sockets stack0)\<lparr>tb_free_socket := (\<lambda>_. [0, 1, 3]), tb_free_num := (\<lambda>_. 3),
       tb_sockets := (\<lambda>_. socket0)(2 := socket0\<lparr>so_socktype := SOCK_TYPE_STREAM, so_stream := 1\<rparr>)\<rparr>\<rparr>"

lemma stack1_ok:
  "timer_inv stack1" "buffers_ok stack1 1" "socket_in_use stack1 1"
  "cirq_list (qs_control_queue stack1) = [1]" "qs_streams stack1 1 = stream1"
proof -
  show "timer_inv stack1"
    by (simp add: timer_inv_def stack1_def stack0_def stream1_def zero_stream_def RTO_STORAGE_def)
  show st: "qs_streams stack1 1 = stream1" by (simp add: stack1_def)
  show "buffers_ok stack1 1"
    using init_buffers unfolding buffers_ok_def st stream1_def
    by (simp add: init_rcvvar_def init_sndvar_def) blast
  show "socket_in_use stack1 1" by (simp add: socket_in_use_def stack1_def stream1_def)
  show "cirq_list (qs_control_queue stack1) = [1]"
    by (simp add: stack1_def squeue0_def sstreamq_init_def cirq_init_def sstreamq_enqueue_def queue0_def cirq_add_def cirq_list_def ring_slice_def
        cirq_full_def cirq_succ_def cirq_count_def)
qed

theorem tcp_stream_destroy_complete_witness:
  "\<exists>s'. tcp_stream_destroy env0 1 stack1 = Inr s' \<and> on_no_timer s' 1
     \<and> so_socktype (tb_sockets (qs_sockets s') 2) = SOCK_TYPE_UNUSED"
  using tcp_stream_destroy_complete [OF env0_laws stack1_ok(1-3)]
  by (auto simp: stack1_ok(5) [unfolded One_nat_def] stream1_def)

text \<open>
  Destroying a stream does not take it off the control queue: a stream that waits
  there is afterwards both free memory and an entry of the queue, and the sender will use it.
\<close>

lemma tcp_stream_destroy_dangling:
  assumes "timer_inv s" "buffers_ok s p" "socket_in_use s p" "p \<in> set (cirq_list (qs_control_queue s))"
  shows "\<exists>s'. tcp_stream_destroy ev p s = Inr s'
    \<and> p \<in> set (qs_stream_pool s') \<and> p \<in> set (cirq_list (qs_control_queue s'))"
  using tcp_stream_destroy_spec [OF assms(1-3), of ev] assms(4) by auto

theorem tcp_stream_destroy_dangling_witness:
  "\<exists>s'. tcp_stream_destroy env0 1 stack1 = Inr s'
     \<and> 1 \<in> set (qs_stream_pool s') \<and> 1 \<in> set (cirq_list (qs_control_queue s'))"
  using tcp_stream_destroy_dangling [OF stack1_ok(1-3), of env0] stack1_ok(4) by simp

text \<open>
  A close before the connection is established is lost: it fails, but marks the
  stream closed, so that from then on, whatever the stream's state has become, a close reports
  success and never reaches the close queue.
\<close>

lemma tcp_stream_close_lost:
  assumes "st_state (qs_streams s p) \<noteq> TCP_ST_ESTABLISHED" "st_state (qs_streams s p) \<noteq> TCP_ST_CLOSE_WAIT"
    "\<not> st_closed (qs_streams s p)"
  shows "\<exists>s1. tcp_stream_close c p s = (- 1, s1) \<and> qs_close_queue s1 = qs_close_queue s
    \<and> (\<forall>s2 d. st_closed (qs_streams s2 p) = st_closed (qs_streams s1 p) \<longrightarrow>
         tcp_stream_close d p s2 = (0, s2))"
  using assms by (simp add: tcp_stream_close_def Let_def stack_simps)

lemma tcp_stream_close_lost_witness:
  "\<exists>s1. tcp_stream_close 0 2 stack1 = (- 1, s1) \<and>
     tcp_stream_close 0 2 (st_upd 2 (\<lambda>st. st\<lparr>st_state := TCP_ST_ESTABLISHED\<rparr>) s1)
       = (0, st_upd 2 (\<lambda>st. st\<lparr>st_state := TCP_ST_ESTABLISHED\<rparr>) s1)"
  using tcp_stream_close_lost [of stack1 2 0]
  by (auto simp: stack1_def zero_stream_def stack_simps)

end
