(* ===== verification/Timer.thy ===== *)
theory Timer
  imports Tcp_Stream
begin

text \<open>
  The walks over the timer lists and the reaction to a retransmission timeout
  (\<^verbatim>\<open>timer.h\<close>). Each walk reads the link to the next stream before it handles the current
  one and handling a stream takes no other stream off the list, so a walk follows the list it
  started with.
\<close>

section \<open>Operations\<close>

definition MAX_RTO_BATCH :: nat where "MAX_RTO_BATCH = 5"

text \<open>Queue the stream for sending after its unacknowledged data was moved for retransmission.\<close>

definition rto_resend :: "ptr \<Rightarrow> 'h qstack \<Rightarrow> 'h qstack result" where
  "rto_resend p s =
     bind_r (sb_reset_retrans (sv_sndbuf (sndvar s p)) (qs_mem s)) (\<lambda>(_, sb, m).
       let s1 = sv_upd p (\<lambda>sv. sv\<lparr>sv_sndbuf := sb\<rparr>) (s\<lparr>qs_mem := m\<rparr>);
           (_, q) = send_event_enqueue (qs_send_event_queue s1) (of_nat (qs_stack_id s1)) p
       in Inr (s1\<lparr>qs_send_event_queue := q\<rparr>))"

text \<open>The new timeout and the new window after a loss.\<close>

definition rto_backoff :: "tcp_send_vars \<Rightarrow> tcp_send_vars" where
  "rto_backoff sv =
     (let ss = (min (sv_cwnd sv) (sv_peer_wnd sv)) div 2;
          mss = ucast (sv_mss sv) :: u32
      in sv\<lparr>sv_rto := push_bit (unat (sv_nrtx sv)) TCP_INITIAL_RTO,
            sv_ssthresh := (if ss < 2 * mss then mss * 2 else ss),
            sv_cwnd := mss\<rparr>)"

definition handle_rto :: "'h env \<Rightarrow> u32 \<Rightarrow> ptr \<Rightarrow> 'h qstack \<Rightarrow> 'h qstack result" where
  "handle_rto ev cur_ts p s =
     (if sv_nrtx (sndvar s p) < TCP_MAX_RTX
      then
        let s1 = sv_upd p (\<lambda>sv. rto_backoff (sv\<lparr>sv_nrtx := sv_nrtx sv + 1\<rparr>)) s;
            s2 = st_upd p (\<lambda>st. st\<lparr>st_snd_nxt := sv_snd_una (st_sndvar st)\<rparr>) s1;
            state = st_state (qs_streams s2 p)
        in if state = TCP_ST_ESTABLISHED then rto_resend p s2
           else if state = TCP_ST_FIN_WAIT_1 \<or> state = TCP_ST_CLOSING \<or> state = TCP_ST_LAST_ACK
           then if sv_fss (sndvar s2 p) = 0 then Inl Exit0
                else if TCP_SEQ_LT (st_snd_nxt (qs_streams s2 p)) (sv_fss (sndvar s2 p))
                then rto_resend p s2
                else Inr (snd (control_queue_add p s2))
           else Inr (snd (control_queue_add p s2))
      else if st_state (qs_streams s p) < TCP_ST_ESTABLISHED
      then tcp_stream_destroy ev p
             (st_upd p (\<lambda>st. st\<lparr>st_state := TCP_ST_CLOSED, st_close_reason := TCP_CONN_FAIL\<rparr>) s)
      else tcp_stream_destroy ev p
             (st_upd p (\<lambda>st. st\<lparr>st_state := TCP_ST_CLOSED, st_close_reason := TCP_CONN_LOST\<rparr>) s))"

fun rto_walk :: "'h env \<Rightarrow> u32 \<Rightarrow> nat \<Rightarrow> ptr list \<Rightarrow> 'h qstack \<Rightarrow> (nat \<times> 'h qstack) result" where
  "rto_walk ev cur_ts cnt [] s = Inr (cnt, s)"
| "rto_walk ev cur_ts cnt (p # walk) s =
     (if cnt < MAX_RTO_BATCH
      then if sint (cur_ts - st_ts_rto (qs_streams s p)) < 0 then Inr (cnt, s)
           else let s1 = st_upd p (\<lambda>st. st\<lparr>st_on_rto_idx := 0\<rparr>) s
                in bind_r (tailq_remove p (qs_rto_list s1)) (\<lambda>l.
                   bind_r (handle_rto ev cur_ts p (s1\<lparr>qs_rto_list := l\<rparr>)) (\<lambda>s2.
                     rto_walk ev cur_ts (cnt + 1) walk s2))
      else Inr (cnt, s))"

definition rto_list_check :: "'h env \<Rightarrow> u32 \<Rightarrow> 'h qstack \<Rightarrow> (nat \<times> 'h qstack) result" where
  "rto_list_check ev cur_ts s = rto_walk ev cur_ts 0 (qs_rto_list s) s"

fun timewait_walk :: "'h env \<Rightarrow> u32 \<Rightarrow> nat \<Rightarrow> ptr list \<Rightarrow> 'h qstack \<Rightarrow> (nat \<times> 'h qstack) result" where
  "timewait_walk ev cur_ts cnt [] s = Inr (cnt, s)"
| "timewait_walk ev cur_ts cnt (p # walk) s =
     (if st_on_timewait_list (qs_streams s p)
      then if sint (cur_ts - st_ts_tw_expire (qs_streams s p)) < 0 then Inr (cnt, s)
           else let s1 = st_upd p (\<lambda>st. st\<lparr>st_on_timewait_list := False\<rparr>) s
                in bind_r (tailq_remove p (qs_timewait_list s1)) (\<lambda>l.
                   let s2 = st_upd p (\<lambda>st. st\<lparr>st_state := TCP_ST_CLOSED,
                              st_close_reason := TCP_ACTIVE_CLOSE\<rparr>) (s1\<lparr>qs_timewait_list := l\<rparr>)
                   in bind_r (tcp_stream_destroy ev p s2) (\<lambda>s3.
                        timewait_walk ev cur_ts (cnt + 1) walk s3))
      else bind_r (tailq_remove p (qs_timewait_list s)) (\<lambda>l.
             timewait_walk ev cur_ts cnt walk (s\<lparr>qs_timewait_list := l\<rparr>)))"

definition timewait_list_check :: "'h env \<Rightarrow> u32 \<Rightarrow> 'h qstack \<Rightarrow> (nat \<times> 'h qstack) result" where
  "timewait_list_check ev cur_ts s = timewait_walk ev cur_ts 0 (qs_timewait_list s) s"

text \<open>
  The reason stored is the number of ticks \<^verbatim>\<open>TCP_TIMEOUT\<close>, cut to the four bits of the
  field, not the reason \<^verbatim>\<open>TCP_TIMEDOUT\<close>.
\<close>

fun timeout_walk :: "'h env \<Rightarrow> u32 \<Rightarrow> nat \<Rightarrow> ptr list \<Rightarrow> 'h qstack \<Rightarrow> (nat \<times> 'h qstack) result" where
  "timeout_walk ev cur_ts cnt [] s = Inr (cnt, s)"
| "timeout_walk ev cur_ts cnt (p # walk) s =
     (if sint (cur_ts - st_last_active_ts (qs_streams s p)) < sint TCP_TIMEOUT then Inr (cnt, s)
      else let s1 = st_upd p (\<lambda>st. st\<lparr>st_on_timeout_list := False\<rparr>) s
           in bind_r (tailq_remove p (qs_timeout_list s1)) (\<lambda>l.
              let s2 = st_upd p (\<lambda>st. st\<lparr>st_state := TCP_ST_CLOSED,
                         st_close_reason := ucast TCP_TIMEOUT\<rparr>) (s1\<lparr>qs_timeout_list := l\<rparr>)
              in bind_r (tcp_stream_destroy ev p s2) (\<lambda>s3.
                   timeout_walk ev cur_ts (cnt + 1) walk s3)))"

definition timeout_list_check :: "'h env \<Rightarrow> u32 \<Rightarrow> 'h qstack \<Rightarrow> (nat \<times> 'h qstack) result" where
  "timeout_list_check ev cur_ts s = timeout_walk ev cur_ts 0 (qs_timeout_list s) s"

section \<open>Streams that can be destroyed\<close>

text \<open>
  The streams \<open>ps\<close> have well-formed buffers and a socket each that is in use and belongs to no
  other of them.
\<close>

definition streams_live :: "'h qstack \<Rightarrow> ptr set \<Rightarrow> bool" where
  "streams_live s ps \<longleftrightarrow>
     (\<forall>p\<in>ps. buffers_ok s p \<and> socket_in_use s p)
     \<and> (\<forall>p\<in>ps. \<forall>q\<in>ps. p \<noteq> q \<longrightarrow> st_socket (qs_streams s p) \<noteq> None \<longrightarrow>
          st_socket (qs_streams s p) \<noteq> st_socket (qs_streams s q))"

lemma streams_live_upd:
  assumes "streams_live s ps" "\<And>st. st_socket (f st) = st_socket st \<and> st_rcvvar (f st) = st_rcvvar st
    \<and> st_sndvar (f st) = st_sndvar st"
  shows "streams_live (st_upd p f s) ps"
  using assms by (simp add: streams_live_def buffers_ok_def socket_in_use_def stack_simps)

lemma streams_live_lists [simp]:
  "streams_live (s\<lparr>qs_rto_list := l\<rparr>) = streams_live s" "streams_live (s\<lparr>qs_timewait_list := l\<rparr>) = streams_live s"
  "streams_live (s\<lparr>qs_timeout_list := l\<rparr>) = streams_live s"
  by (simp_all add: streams_live_def buffers_ok_def socket_in_use_def fun_eq_iff)

lemma destroy_live:
  assumes inv: "timer_inv s" and live: "streams_live s (insert p ps)"
  shows "\<exists>s'. tcp_stream_destroy ev p s = Inr s' \<and> timer_inv s' \<and> on_no_timer s' p
    \<and> streams_live s' (ps - {p}) \<and> (\<forall>q. q \<noteq> p \<longrightarrow> qs_streams s' q = qs_streams s q)
    \<and> qs_rto_list s' = remove1 p (qs_rto_list s) \<and> qs_timewait_list s' = remove1 p (qs_timewait_list s)
    \<and> qs_timeout_list s' = remove1 p (qs_timeout_list s) \<and> qs_stream_pool s' = qs_stream_pool s @ [p]"
proof -
  have ok: "buffers_ok s p" "socket_in_use s p" using live by (auto simp: streams_live_def)
  obtain s' where s': "tcp_stream_destroy ev p s = Inr s'" "timer_inv s'" "on_no_timer s' p"
      "qs_rto_list s' = remove1 p (qs_rto_list s)" "qs_timewait_list s' = remove1 p (qs_timewait_list s)"
      "qs_timeout_list s' = remove1 p (qs_timeout_list s)" "qs_stream_pool s' = qs_stream_pool s @ [p]"
      "\<forall>q. q \<noteq> p \<longrightarrow> qs_streams s' q = qs_streams s q" "\<forall>q. q \<noteq> p \<longrightarrow> buffers_ok s q \<longrightarrow> buffers_ok s' q"
      "\<forall>k. st_socket (qs_streams s p) \<noteq> Some k \<longrightarrow> tb_sockets (qs_sockets s') k = tb_sockets (qs_sockets s) k"
    using tcp_stream_destroy_spec [OF inv ok, of ev] by auto
  have "socket_in_use s' q" if "q \<in> ps - {p}" for q
    using live that s'(8,10) unfolding socket_in_use_def streams_live_def by (metis DiffE insertCI option.distinct(1))
  then have "streams_live s' (ps - {p})"
    using live s'(8,9) by (simp add: streams_live_def)
  then show ?thesis using s' by blast
qed

lemma timer_inv_leave:
  assumes inv: "timer_inv s"
  shows "p \<in> set (qs_timeout_list s) \<Longrightarrow> timer_inv ((st_upd p (\<lambda>st. st\<lparr>st_on_timeout_list := False\<rparr>) s)
      \<lparr>qs_timeout_list := remove1 p (qs_timeout_list s)\<rparr>)"
    "p \<in> set (qs_timewait_list s) \<Longrightarrow> timer_inv ((st_upd p (\<lambda>st. st\<lparr>st_on_timewait_list := False\<rparr>) s)
      \<lparr>qs_timewait_list := remove1 p (qs_timewait_list s)\<rparr>)"
    "p \<in> set (qs_rto_list s) \<Longrightarrow> timer_inv ((st_upd p (\<lambda>st. st\<lparr>st_on_rto_idx := 0\<rparr>) s)
      \<lparr>qs_rto_list := remove1 p (qs_rto_list s)\<rparr>)"
  using inv unfolding timer_inv_def by (auto simp: stack_simps dest: notin_set_remove1)

lemma timer_inv_state:
  "(\<And>st. st_on_rto_idx (f st) = st_on_rto_idx st \<and> st_on_timewait_list (f st) = st_on_timewait_list st
     \<and> st_on_timeout_list (f st) = st_on_timeout_list st) \<Longrightarrow> timer_inv (st_upd p f s) = timer_inv s"
  by (rule timer_inv_same, rule same_timers_upd)

section \<open>The walks that destroy streams\<close>

text \<open>
  The walks over the TIME_WAIT list and over the list for inactivity share a contract: from its
  head on, a stream that has expired leaves the list and is destroyed, until one has not expired.
\<close>

locale expiring_list =
  fixes ev :: "'h env" and lst :: "'h qstack \<Rightarrow> ptr list" and expired :: "'h qstack \<Rightarrow> ptr \<Rightarrow> bool"
    and leave :: "ptr \<Rightarrow> 'h qstack \<Rightarrow> 'h qstack"
    and walk :: "nat \<Rightarrow> ptr list \<Rightarrow> 'h qstack \<Rightarrow> (nat \<times> 'h qstack) result"
  assumes walk_Nil: "walk cnt [] s = Inr (cnt, s)"
    and walk_stop: "timer_inv s \<Longrightarrow> lst s = p # ps \<Longrightarrow> \<not> expired s p \<Longrightarrow> walk cnt (p # ps) s = Inr (cnt, s)"
    and walk_fire: "timer_inv s \<Longrightarrow> lst s = p # ps \<Longrightarrow> expired s p \<Longrightarrow>
      walk cnt (p # ps) s = bind_r (tcp_stream_destroy ev p (leave p s)) (walk (cnt + 1) ps)"
    and lst_distinct: "timer_inv s \<Longrightarrow> distinct (lst s)"
    and leave_inv: "timer_inv s \<Longrightarrow> lst s = p # ps \<Longrightarrow> timer_inv (leave p s) \<and> lst (leave p s) = ps"
    and leave_live: "streams_live s A \<Longrightarrow> streams_live (leave p s) A"
    and leave_frame: "q \<noteq> p \<Longrightarrow> qs_streams (leave p s) q = qs_streams s q"
      "qs_stream_pool (leave p s) = qs_stream_pool s" "on_no_timer s q \<Longrightarrow> on_no_timer (leave p s) q"
    and lst_remove: "qs_timewait_list s' = remove1 p (qs_timewait_list s) \<Longrightarrow>
      qs_timeout_list s' = remove1 p (qs_timeout_list s) \<Longrightarrow> lst s' = remove1 p (lst s)"
    and expired_local: "qs_streams s' q = qs_streams s q \<Longrightarrow> expired s' q = expired s q"
begin

lemma walk_destroys:
  assumes "timer_inv s" "streams_live s (set ps)" "lst s = ps"
  shows "\<exists>s'. walk cnt ps s = Inr (cnt + length (takeWhile (expired s) ps), s')
    \<and> timer_inv s' \<and> lst s' = dropWhile (expired s) ps
    \<and> qs_stream_pool s' = qs_stream_pool s @ takeWhile (expired s) ps
    \<and> (\<forall>q. on_no_timer s q \<longrightarrow> on_no_timer s' q)
    \<and> (\<forall>q\<in>set (takeWhile (expired s) ps). on_no_timer s' q)
    \<and> (\<forall>q. q \<notin> set (takeWhile (expired s) ps) \<longrightarrow> qs_streams s' q = qs_streams s q)"
  using assms
proof (induction ps arbitrary: s cnt)
  case Nil
  then show ?case by (simp add: walk_Nil)
next
  case (Cons p ps)
  show ?case
  proof (cases "expired s p")
    case False
    then show ?thesis using Cons.prems by (simp add: walk_stop)
  next
    case True
    have d: "distinct (p # ps)" using lst_distinct [OF Cons.prems(1)] Cons.prems(3) by simp
    have i: "timer_inv (leave p s)" "lst (leave p s) = ps" using leave_inv [OF Cons.prems(1,3)] by simp_all
    have l: "streams_live (leave p s) (insert p (set ps))" using leave_live [OF Cons.prems(2)] by simp
    obtain s3 where s3: "tcp_stream_destroy ev p (leave p s) = Inr s3" "timer_inv s3" "on_no_timer s3 p"
        "streams_live s3 (set ps - {p})" "\<forall>q. q \<noteq> p \<longrightarrow> qs_streams s3 q = qs_streams (leave p s) q"
        "qs_rto_list s3 = remove1 p (qs_rto_list (leave p s))"
        "qs_timewait_list s3 = remove1 p (qs_timewait_list (leave p s))"
        "qs_timeout_list s3 = remove1 p (qs_timeout_list (leave p s))"
        "qs_stream_pool s3 = qs_stream_pool (leave p s) @ [p]"
      using destroy_live [OF i(1) l, of ev] by blast
    have ps: "set ps - {p} = set ps" "lst s3 = ps" using d lst_remove [OF s3(7,8)] i(2) by (simp_all add: remove1_idem)
    have same: "expired s3 q = expired s q" if "q \<in> set ps" for q
      using s3(5) leave_frame(1) [of q p s] that d by (intro expired_local) (metis distinct.simps(2))
    have no: "on_no_timer s3 q" if "on_no_timer s q" for q
      using leave_frame(3) [OF that, of p] s3(6-8) unfolding on_no_timer_def by (auto dest: notin_set_remove1)
    have eq: "takeWhile (expired s3) ps = takeWhile (expired s) ps" "dropWhile (expired s3) ps = dropWhile (expired s) ps"
      using same by (auto intro: takeWhile_cong dropWhile_cong)
    have w: "walk cnt (p # ps) s = walk (cnt + 1) ps s3"
      using walk_fire [OF Cons.prems(1,3) True] s3(1) by simp
    show ?thesis
      using Cons.IH [of s3 "cnt + 1"] s3(2-5,9) ps no True leave_frame(1,2) unfolding w by (auto simp: eq)
  qed
qed

end

definition timeout_expired :: "u32 \<Rightarrow> 'h qstack \<Rightarrow> ptr \<Rightarrow> bool" where
  "timeout_expired ts s p \<longleftrightarrow> sint TCP_TIMEOUT \<le> sint (ts - st_last_active_ts (qs_streams s p))"

definition timewait_expired :: "u32 \<Rightarrow> 'h qstack \<Rightarrow> ptr \<Rightarrow> bool" where
  "timewait_expired ts s p \<longleftrightarrow> 0 \<le> sint (ts - st_ts_tw_expire (qs_streams s p))"

definition timeout_leave :: "ptr \<Rightarrow> 'h qstack \<Rightarrow> 'h qstack" where
  "timeout_leave p s = st_upd p (\<lambda>st. st\<lparr>st_state := TCP_ST_CLOSED, st_close_reason := ucast TCP_TIMEOUT\<rparr>)
     ((st_upd p (\<lambda>st. st\<lparr>st_on_timeout_list := False\<rparr>) s)\<lparr>qs_timeout_list := remove1 p (qs_timeout_list s)\<rparr>)"

definition timewait_leave :: "ptr \<Rightarrow> 'h qstack \<Rightarrow> 'h qstack" where
  "timewait_leave p s = st_upd p (\<lambda>st. st\<lparr>st_state := TCP_ST_CLOSED, st_close_reason := TCP_ACTIVE_CLOSE\<rparr>)
     ((st_upd p (\<lambda>st. st\<lparr>st_on_timewait_list := False\<rparr>) s)\<lparr>qs_timewait_list := remove1 p (qs_timewait_list s)\<rparr>)"

lemma leave_keeps:
  "timer_inv s \<Longrightarrow> p \<in> set (qs_timeout_list s) \<Longrightarrow> timer_inv (timeout_leave p s)"
  "timer_inv s \<Longrightarrow> p \<in> set (qs_timewait_list s) \<Longrightarrow> timer_inv (timewait_leave p s)"
  "streams_live s A \<Longrightarrow> streams_live (timeout_leave p s) A"
  "streams_live s A \<Longrightarrow> streams_live (timewait_leave p s) A"
  unfolding timeout_leave_def timewait_leave_def
  by (simp_all add: timer_inv_state timer_inv_leave streams_live_upd)

interpretation idle: expiring_list ev qs_timeout_list "timeout_expired ts" timeout_leave "timeout_walk ev ts"
  for ev ts
proof (unfold_locales, goal_cases)
  case (5 s p ps)
  then show ?case using leave_keeps(1) [of s p] by (simp add: timeout_leave_def)
next
  case (6 s A p)
  then show ?case by (rule leave_keeps(3))
qed (auto simp: timeout_expired_def timeout_leave_def timer_inv_def on_no_timer_def stack_simps Let_def
    dest: notin_set_remove1)

interpretation tw: expiring_list ev qs_timewait_list "timewait_expired ts" timewait_leave "timewait_walk ev ts"
  for ev ts
proof (unfold_locales, goal_cases)
  case (5 s p ps)
  then show ?case using leave_keeps(2) [of s p] by (simp add: timewait_leave_def)
next
  case (6 s A p)
  then show ?case by (rule leave_keeps(4))
next
  case (2 s p ps cnt)
  then have "st_on_timewait_list (qs_streams s p)" unfolding timer_inv_def by (metis list.set_intros(1))
  then show ?case using 2 by (simp add: timewait_expired_def)
next
  case (3 s p ps cnt)
  then have "st_on_timewait_list (qs_streams s p)" unfolding timer_inv_def by (metis list.set_intros(1))
  then show ?case using 3 by (simp add: timewait_expired_def timewait_leave_def Let_def)
qed (auto simp: timewait_expired_def timewait_leave_def timer_inv_def on_no_timer_def stack_simps Let_def
    dest: notin_set_remove1)

section \<open>Retransmission timeouts\<close>

lemma rto_resend_spec:
  assumes "buffers_ok s p"
  shows "\<exists>s'. rto_resend p s = Inr s' \<and> same_timers s s' \<and> links_kept (qs_mem s) (qs_mem s')
    \<and> (\<forall>q. q \<noteq> p \<longrightarrow> qs_streams s' q = qs_streams s q) \<and> buffers_ok s' p
    \<and> qs_sockets s' = qs_sockets s \<and> qs_stream_pool s' = qs_stream_pool s
    \<and> (\<exists>sb. qs_streams s' p = st_sndvar_update (sv_sndbuf_update (\<lambda>_. sb)) (qs_streams s p))"
proof -
  obtain us rs qs hs ms os his where rel: "sb_rel (qs_mem s) (sv_sndbuf (sndvar s p)) us rs qs hs"
    and rb: "rb_rel (qs_mem s) (rv_rcvbuf (rcvvar s p)) ms os his"
    using assms by (auto simp: buffers_ok_def)
  have "\<exists>r b m us' rs'. sb_reset_retrans (sv_sndbuf (sndvar s p)) (qs_mem s) = Inr (r, b, m)
      \<and> sb_rel m b us' rs' qs hs \<and> links_kept (qs_mem s) m"
  proof (cases "us \<noteq> [] \<and> rs = []")
    case True
    then show ?thesis using sb_reset_retrans_spec [OF rel] by (fastforce simp: links_kept_def)
  next
    case False
    then show ?thesis using sb_reset_retrans_spec [OF rel] rel links_kept_refl by blast
  qed
  then obtain r b m us' rs' where b: "sb_reset_retrans (sv_sndbuf (sndvar s p)) (qs_mem s) = Inr (r, b, m)"
      "sb_rel m b us' rs' qs hs" "links_kept (qs_mem s) m" by blast
  let ?s1 = "sv_upd p (\<lambda>sv. sv\<lparr>sv_sndbuf := b\<rparr>) (s\<lparr>qs_mem := m\<rparr>)"
  obtain e q where q: "send_event_enqueue (qs_send_event_queue ?s1) (of_nat (qs_stack_id ?s1)) p = (e, q)"
    by fastforce
  have "rto_resend p s = Inr (?s1\<lparr>qs_send_event_queue := q\<rparr>)"
    using b(1) q by (simp add: rto_resend_def Let_def)
  moreover have "buffers_ok (?s1\<lparr>qs_send_event_queue := q\<rparr>) p"
    using b(2) links_kept_rel(2) [OF b(3) rb] unfolding buffers_ok_def by (auto simp: stack_simps)
  ultimately show ?thesis using b(3) by (auto simp: same_timers_def stack_simps)
qed

lemma rto_backoff_kept [simp]:
  "sv_nrtx (rto_backoff sv) = sv_nrtx sv" "sv_snd_una (rto_backoff sv) = sv_snd_una sv"
  "sv_sndbuf (rto_backoff sv) = sv_sndbuf sv" "sv_fss (rto_backoff sv) = sv_fss sv"
  by (simp_all add: rto_backoff_def Let_def)

lemma rto_backoff_values:
  assumes "unat (sv_nrtx sv) \<le> 16"
  shows "unat (sv_rto (rto_backoff sv)) = 500 * 2 ^ unat (sv_nrtx sv)"
    "unat (sv_cwnd (rto_backoff sv)) = unat (sv_mss sv)"
    "unat (sv_ssthresh (rto_backoff sv)) =
       max (min (unat (sv_cwnd sv)) (unat (sv_peer_wnd sv)) div 2) (2 * unat (sv_mss sv))"
proof -
  have "(2::nat) ^ unat (sv_nrtx sv) \<le> 2 ^ 16" using assms by (intro power_increasing) auto
  moreover have "push_bit (unat (sv_nrtx sv)) TCP_INITIAL_RTO = (of_nat (500 * 2 ^ unat (sv_nrtx sv)) :: u32)"
    by (simp add: TCP_INITIAL_RTO_def push_bit_eq_mult)
  ultimately show "unat (sv_rto (rto_backoff sv)) = 500 * 2 ^ unat (sv_nrtx sv)"
    by (simp only: rto_backoff_def Let_def) (simp add: unat_of_nat del: of_nat_mult of_nat_power)
  show "unat (sv_cwnd (rto_backoff sv)) = unat (sv_mss sv)"
    by (simp add: rto_backoff_def Let_def unat_ucast16)
  have m: "unat (2 * (ucast (sv_mss sv) :: u32)) = 2 * unat (sv_mss sv)"
    using unat16_le [of "sv_mss sv"] by (simp add: unat_word_ariths unat_ucast16)
  have c: "unat (min (sv_cwnd sv) (sv_peer_wnd sv) div 2) = min (unat (sv_cwnd sv)) (unat (sv_peer_wnd sv)) div 2"
    by (simp add: unat_div min_def word_le_nat_alt)
  show "unat (sv_ssthresh (rto_backoff sv)) =
       max (min (unat (sv_cwnd sv)) (unat (sv_peer_wnd sv)) div 2) (2 * unat (sv_mss sv))"
    using m c by (simp add: rto_backoff_def Let_def word_less_nat_alt mult.commute max_def)
qed

text \<open>What a timeout that does not end the connection leaves of the state.\<close>

definition rto_kept :: "ptr \<Rightarrow> 'h qstack \<Rightarrow> 'h qstack \<Rightarrow> bool" where
  "rto_kept p s s' \<longleftrightarrow> same_timers s s' \<and> links_kept (qs_mem s) (qs_mem s')
     \<and> (\<forall>q. q \<noteq> p \<longrightarrow> qs_streams s' q = qs_streams s q)
     \<and> st_socket (qs_streams s' p) = st_socket (qs_streams s p) \<and> buffers_ok s' p
     \<and> qs_sockets s' = qs_sockets s \<and> qs_stream_pool s' = qs_stream_pool s"

lemma rto_kept_trans: "rto_kept p s1 s2 \<Longrightarrow> rto_kept p s2 s3 \<Longrightarrow> rto_kept p s1 s3"
  unfolding rto_kept_def using links_kept_trans same_timers_trans by auto

lemma rto_kept_live:
  assumes "rto_kept p s s'" "streams_live s A"
  shows "streams_live s' A"
proof -
  have "buffers_ok s' q" if "q \<in> A" for q
    using assms that buffers_ok_kept [of s q s'] unfolding rto_kept_def streams_live_def by (cases "q = p") auto
  moreover have "st_socket (qs_streams s' q) = st_socket (qs_streams s q)" for q
    using assms(1) unfolding rto_kept_def by (cases "q = p") auto
  ultimately show ?thesis
    using assms by (simp add: streams_live_def socket_in_use_def rto_kept_def)
qed

definition fss_known :: "'h qstack \<Rightarrow> ptr \<Rightarrow> bool" where
  "fss_known s p \<longleftrightarrow>
     (st_state (qs_streams s p) \<in> {TCP_ST_FIN_WAIT_1, TCP_ST_CLOSING, TCP_ST_LAST_ACK} \<longrightarrow> sv_fss (sndvar s p) \<noteq> 0)"

lemma control_queue_add_kept:
  "buffers_ok s p \<Longrightarrow> rto_kept p s (snd (control_queue_add p s))"
  by (simp add: rto_kept_def control_queue_add_def same_timers_def stack_simps buffers_ok_def Let_def case_prod_unfold)

lemma rto_resend_kept:
  assumes "buffers_ok s p"
  shows "\<exists>s'. rto_resend p s = Inr s' \<and> rto_kept p s s'"
proof -
  obtain s' sb where s': "rto_resend p s = Inr s'" "same_timers s s'" "links_kept (qs_mem s) (qs_mem s')"
      "\<forall>q. q \<noteq> p \<longrightarrow> qs_streams s' q = qs_streams s q" "buffers_ok s' p" "qs_sockets s' = qs_sockets s"
      "qs_stream_pool s' = qs_stream_pool s"
      "qs_streams s' p = st_sndvar_update (sv_sndbuf_update (\<lambda>_. sb)) (qs_streams s p)"
    using rto_resend_spec [OF assms] by blast
  then show ?thesis by (simp add: rto_kept_def)
qed

lemma handle_rto_retry:
  assumes "sv_nrtx (sndvar s p) < TCP_MAX_RTX" "buffers_ok s p" "fss_known s p"
  shows "\<exists>s'. handle_rto ev ts p s = Inr s' \<and> rto_kept p s s'"
proof -
  let ?s1 = "sv_upd p (\<lambda>sv. rto_backoff (sv\<lparr>sv_nrtx := sv_nrtx sv + 1\<rparr>)) s"
  let ?s2 = "st_upd p (\<lambda>st. st\<lparr>st_snd_nxt := sv_snd_una (st_sndvar st)\<rparr>) ?s1"
  have b: "buffers_ok ?s2 p" using assms(2) by (simp add: buffers_ok_def stack_simps rto_backoff_def Let_def)
  have f: "fss_known ?s2 p" using assms(3) by (simp add: fss_known_def stack_simps rto_backoff_def Let_def)
  have k: "rto_kept p s ?s2" using b by (auto simp: rto_kept_def same_timers_def stack_simps)
  note tr = rto_kept_trans [OF k]
  have "\<exists>s'. rto_resend p ?s2 = Inr s' \<and> rto_kept p s s'"
    using rto_resend_kept [OF b] tr by blast
  moreover have "rto_kept p s (snd (control_queue_add p ?s2))" using tr control_queue_add_kept [OF b] .
  ultimately show ?thesis
    using f assms(1) by (auto simp: handle_rto_def Let_def fss_known_def)
qed

lemma handle_rto_total:
  assumes "timer_inv s" "streams_live s (insert p A)" "fss_known s p" "p \<notin> A"
    and off: "p \<notin> set (qs_rto_list s)"
  shows "\<exists>s'. handle_rto ev ts p s = Inr s' \<and> timer_inv s' \<and> streams_live s' A
    \<and> (\<forall>q. q \<noteq> p \<longrightarrow> qs_streams s' q = qs_streams s q) \<and> qs_rto_list s' = remove1 p (qs_rto_list s)"
proof (cases "sv_nrtx (sndvar s p) < TCP_MAX_RTX")
  case True
  have "buffers_ok s p" using assms(2) by (simp add: streams_live_def)
  then obtain s' where s': "handle_rto ev ts p s = Inr s'" "rto_kept p s s'"
    using handle_rto_retry [OF True _ assms(3)] by blast
  have st: "same_timers s s'" using s'(2) by (simp add: rto_kept_def)
  have "timer_inv s'" using assms(1) timer_inv_same [OF st] by simp
  moreover have "streams_live s' A" using rto_kept_live [OF s'(2) assms(2)] by (simp add: streams_live_def)
  ultimately show ?thesis
    using s' off st by (simp add: rto_kept_def same_timers_def remove1_idem)
next
  case False
  define f :: "tcp_stream \<Rightarrow> tcp_stream" where "f = (\<lambda>st. st\<lparr>st_state := TCP_ST_CLOSED, st_close_reason :=
      (if st_state (qs_streams s p) < TCP_ST_ESTABLISHED then TCP_CONN_FAIL else TCP_CONN_LOST)\<rparr>)"
  have h: "handle_rto ev ts p s = tcp_stream_destroy ev p (st_upd p f s)"
    using False by (simp add: handle_rto_def f_def)
  have "timer_inv (st_upd p f s)" using assms(1) by (subst timer_inv_state) (simp_all add: f_def)
  moreover have "streams_live (st_upd p f s) (insert p A)"
    using streams_live_upd [OF assms(2), of f] by (simp add: f_def)
  ultimately show ?thesis
    using destroy_live [of "st_upd p f s" p A ev] assms(4) h by (auto simp: stack_simps)
qed

definition rto_expired :: "u32 \<Rightarrow> 'h qstack \<Rightarrow> ptr \<Rightarrow> bool" where
  "rto_expired ts s p \<longleftrightarrow> 0 \<le> sint (ts - st_ts_rto (qs_streams s p))"

lemma rto_walk_spec:
  assumes "timer_inv s" "streams_live s (set ps)" "\<forall>p\<in>set ps. fss_known s p" "qs_rto_list s = ps" "cnt \<le> MAX_RTO_BATCH"
  shows "\<exists>s'. rto_walk ev ts cnt ps s =
      Inr (min MAX_RTO_BATCH (cnt + length (takeWhile (rto_expired ts s) ps)), s') \<and> timer_inv s'
    \<and> qs_rto_list s' = drop (min (MAX_RTO_BATCH - cnt) (length (takeWhile (rto_expired ts s) ps))) ps"
  using assms
proof (induction ps arbitrary: s cnt)
  case Nil
  then show ?case by simp
next
  case (Cons p ps)
  show ?case
  proof (cases "cnt < MAX_RTO_BATCH \<and> rto_expired ts s p")
    case False
    then show ?thesis using Cons.prems by (auto simp: rto_expired_def)
  next
    case True
    let ?s1 = "(st_upd p (\<lambda>st. st\<lparr>st_on_rto_idx := 0\<rparr>) s)\<lparr>qs_rto_list := ps\<rparr>"
    have d: "distinct (p # ps)" using Cons.prems(1,4) by (simp add: timer_inv_def)
    have i: "timer_inv ?s1" using timer_inv_leave(3) [OF Cons.prems(1), of p] Cons.prems(4) by simp
    have l: "streams_live ?s1 (insert p (set ps))" using Cons.prems(2) by (simp add: streams_live_upd)
    have f: "fss_known ?s1 q" if "q \<in> set (p # ps)" for q
      using Cons.prems(3) that by (auto simp: fss_known_def stack_simps)
    obtain s3 where s3: "handle_rto ev ts p ?s1 = Inr s3" "timer_inv s3" "streams_live s3 (set ps)"
        "\<forall>q. q \<noteq> p \<longrightarrow> qs_streams s3 q = qs_streams ?s1 q" "qs_rto_list s3 = remove1 p ps"
      using handle_rto_total [OF i l f, of ev ts] d by auto
    have same: "qs_streams s3 q = qs_streams s q" if "q \<in> set ps" for q
      using s3(4) that d by (auto simp: stack_simps)
    have ps: "qs_rto_list s3 = ps" "\<forall>q\<in>set ps. fss_known s3 q"
      using s3(5) d Cons.prems(3) same by (auto simp: remove1_idem fss_known_def)
    have eq: "takeWhile (rto_expired ts s3) ps = takeWhile (rto_expired ts s) ps"
      using same by (auto intro: takeWhile_cong simp: rto_expired_def)
    have w: "rto_walk ev ts cnt (p # ps) s = rto_walk ev ts (cnt + 1) ps s3"
      using True Cons.prems(4) s3(1) by (simp add: Let_def rto_expired_def)
    obtain k where k: "MAX_RTO_BATCH - cnt = Suc k" "MAX_RTO_BATCH - (cnt + 1) = k"
      using True by (cases "MAX_RTO_BATCH - cnt") auto
    have "cnt + 1 \<le> MAX_RTO_BATCH" using True by simp
    from Cons.IH [OF s3(2,3) ps(2,1) this] show ?thesis
      using True unfolding w eq k by simp
  qed
qed

section \<open>Main properties\<close>

text \<open>
  C30 (liveness). One check of the inactivity list destroys exactly the streams at its head that
  have been silent for \<^verbatim>\<open>TCP_TIMEOUT\<close>, and one check of the TIME_WAIT list exactly those at
  its head whose time has come: each is then on no timer list and its memory is free, the count
  returned is their number, and the first stream that has not expired is the new head.
\<close>

theorem expiry_checks_destroy:
  assumes "timer_inv s"
  shows "(streams_live s (set (qs_timeout_list s)) \<longrightarrow>
      (\<exists>s'. timeout_list_check ev ts s =
          Inr (length (takeWhile (timeout_expired ts s) (qs_timeout_list s)), s') \<and> timer_inv s'
        \<and> qs_timeout_list s' = dropWhile (timeout_expired ts s) (qs_timeout_list s)
        \<and> qs_stream_pool s' = qs_stream_pool s @ takeWhile (timeout_expired ts s) (qs_timeout_list s)
        \<and> (\<forall>q\<in>set (takeWhile (timeout_expired ts s) (qs_timeout_list s)). on_no_timer s' q)))
    \<and> (streams_live s (set (qs_timewait_list s)) \<longrightarrow>
      (\<exists>s'. timewait_list_check ev ts s =
          Inr (length (takeWhile (timewait_expired ts s) (qs_timewait_list s)), s') \<and> timer_inv s'
        \<and> qs_timewait_list s' = dropWhile (timewait_expired ts s) (qs_timewait_list s)
        \<and> qs_stream_pool s' = qs_stream_pool s @ takeWhile (timewait_expired ts s) (qs_timewait_list s)
        \<and> (\<forall>q\<in>set (takeWhile (timewait_expired ts s) (qs_timewait_list s)). on_no_timer s' q)))"
  using idle.walk_destroys [OF assms _ refl, of ev ts 0] tw.walk_destroys [OF assms _ refl, of ev ts 0]
  unfolding timeout_list_check_def timewait_list_check_def by (intro conjI) force+

lemma stack1_live: "streams_live stack1 {1}"
  using stack1_ok(2,3) by (simp add: streams_live_def)

theorem expiry_checks_destroy_witness:
  "\<exists>s'. timeout_list_check env0 300000 stack1 = Inr (1, s') \<and> qs_timeout_list s' = [] \<and> on_no_timer s' 1"
proof -
  have l: "qs_timeout_list stack1 = [1]" by (simp add: stack1_def)
  have e: "timeout_expired 300000 stack1 1"
    by (simp add: timeout_expired_def stack1_ok(5) [unfolded One_nat_def] stream1_def zero_stream_def TCP_TIMEOUT_def
        init_sndvar_def init_rcvvar_def)
  show ?thesis
    using expiry_checks_destroy [OF stack1_ok(1), of env0 300000] stack1_live e by (auto simp: l)
qed

text \<open>
  C31 (functional). When the retransmission timer of an established stream fires before the
  sixteenth retry, the timeout becomes 500 ms times two to the number of retries (so 1000 ms, the initial
  value, at the first, and twice that at the second), the window one
  segment and the threshold half the window but at least two segments, sending restarts at the
  first unacknowledged byte, and all unacknowledged data moves in order to the list of data to
  send again. In CLOSE_WAIT nothing is moved (\<open>handle_rto_close_wait_stuck\<close>).
\<close>

theorem handle_rto_backs_off:
  assumes n: "sv_nrtx (sndvar s p) < TCP_MAX_RTX" and est: "st_state (qs_streams s p) = TCP_ST_ESTABLISHED"
    and rel: "sb_rel (qs_mem s) (sv_sndbuf (sndvar s p)) us [] qs hs" and us: "us \<noteq> []"
  shows "\<exists>s'. handle_rto ev ts p s = Inr s'
    \<and> unat (sv_rto (sndvar s' p)) = 500 * 2 ^ Suc (unat (sv_nrtx (sndvar s p)))
    \<and> unat (sv_nrtx (sndvar s' p)) = Suc (unat (sv_nrtx (sndvar s p)))
    \<and> unat (sv_cwnd (sndvar s' p)) = unat (sv_mss (sndvar s p))
    \<and> unat (sv_ssthresh (sndvar s' p)) =
        max (min (unat (sv_cwnd (sndvar s p))) (unat (sv_peer_wnd (sndvar s p))) div 2) (2 * unat (sv_mss (sndvar s p)))
    \<and> st_snd_nxt (qs_streams s' p) = sv_snd_una (sndvar s p)
    \<and> sb_rel (qs_mem s') (sv_sndbuf (sndvar s' p)) [] us qs hs
    \<and> qs_send_event_queue s' = snd (streamq_enqueue (qs_send_event_queue s) (of_nat (qs_stack_id s)) p)"
proof -
  obtain b m where b: "sb_reset_retrans (sv_sndbuf (sndvar s p)) (qs_mem s) = Inr (None, b, m)"
      "sb_rel m b [] us qs hs"
    using sb_reset_retrans_spec [OF rel] us by blast
  have n1: "unat (sv_nrtx (sndvar s p) + 1) = Suc (unat (sv_nrtx (sndvar s p)))" "unat (sv_nrtx (sndvar s p)) < 16"
    using n unat_succ_below [OF n] by (simp_all add: TCP_MAX_RTX_def word_less_nat_alt)
  note v = rto_backoff_values [of "(sndvar s p)\<lparr>sv_nrtx := sv_nrtx (sndvar s p) + 1\<rparr>"]
  show ?thesis
    using b n est v n1
    by (simp add: handle_rto_def stack_simps rto_resend_def rto_backoff_kept Let_def
        send_event_enqueue_def send_event_queue_select_def case_prod_unfold)
qed

text \<open>Stream 1 of the sample with two segments that wait for an acknowledgement.\<close>

definition stack2 :: "(ipv4_5tuple \<Rightarrow> ptr option) qstack" where
  "stack2 = sv_upd 1 (\<lambda>sv. sv\<lparr>sv_sndbuf := sb_sent\<lparr>sb_retrans_list := \<lparr>ml_head = NULL, ml_tail = NULL\<rparr>\<rparr>,
     sv_cwnd := 20000, sv_peer_wnd := 65535\<rparr>) (stack1\<lparr>qs_mem := mem_sent\<rparr>)"

lemma stack2:
  "sb_rel (qs_mem stack2) (sv_sndbuf (sndvar stack2 1)) [1, 2] [] [] []"
  "st_state (qs_streams stack2 1) = TCP_ST_ESTABLISHED" "sv_nrtx (sndvar stack2 1) = 0"
proof -
  show "sb_rel (qs_mem stack2) (sv_sndbuf (sndvar stack2 1)) [1, 2] [] [] []"
    using sb_sent(1) by (simp add: stack2_def stack_simps sb_rel_def) (simp add: mlist_def)
  show "st_state (qs_streams stack2 1) = TCP_ST_ESTABLISHED" "sv_nrtx (sndvar stack2 1) = 0"
    by (simp_all add: stack2_def stack_simps stack1_def stream1_def init_sndvar_def zero_stream_def)
qed

theorem handle_rto_backs_off_witness:
  "\<exists>s'. handle_rto env0 600 1 stack2 = Inr s' \<and> unat (sv_rto (sndvar s' 1)) = 1000
     \<and> sb_rel (qs_mem s') (sv_sndbuf (sndvar s' 1)) [] [1, 2] [] []"
  using handle_rto_backs_off [OF _ stack2(2,1), of env0 600] stack2(3) by (auto simp: TCP_MAX_RTX_def)

text \<open>
  In CLOSE_WAIT, where the peer has closed but the application may still send, a
  timeout only queues the stream for a control packet: the unacknowledged data is not moved to the
  list of data to send again, although sending restarts before it.
\<close>

lemma handle_rto_close_wait_stuck:
  assumes "sv_nrtx (sndvar s p) < TCP_MAX_RTX" "st_state (qs_streams s p) = TCP_ST_CLOSE_WAIT"
  shows "\<exists>s'. handle_rto ev ts p s = Inr s' \<and> sv_sndbuf (sndvar s' p) = sv_sndbuf (sndvar s p)
    \<and> qs_mem s' = qs_mem s \<and> st_snd_nxt (qs_streams s' p) = sv_snd_una (sndvar s p)
    \<and> qs_send_event_queue s' = qs_send_event_queue s \<and> qs_send_hevent_queue s' = qs_send_hevent_queue s"
  using assms
  by (simp add: handle_rto_def Let_def stack_simps control_queue_add_def case_prod_unfold)

theorem handle_rto_close_wait_stuck_witness:
  "\<exists>s'. handle_rto env0 600 1 (st_upd 1 (\<lambda>st. st\<lparr>st_state := TCP_ST_CLOSE_WAIT\<rparr>) stack2) = Inr s'
     \<and> sb_rel (qs_mem s') (sv_sndbuf (sndvar s' 1)) [1, 2] [] [] []"
  using handle_rto_close_wait_stuck [of "st_upd 1 (\<lambda>st. st\<lparr>st_state := TCP_ST_CLOSE_WAIT\<rparr>) stack2" 1 env0 600]
    stack2 by (auto simp: stack_simps TCP_MAX_RTX_def)

text \<open>
  One check of the retransmission timers handles the streams at the head of the
  list whose timer has expired, at most five of them, each exactly once, ends, and keeps the timer
  lists consistent. Since the list is in the order in which the timers were started and not of
  their expiry, an unexpired stream at its head hides every expired one behind it.
\<close>

lemma rto_list_check_prefix:
  assumes "timer_inv s" "streams_live s (set (qs_rto_list s))" "\<forall>p\<in>set (qs_rto_list s). fss_known s p"
  shows "\<exists>s'. rto_list_check ev ts s =
      Inr (min 5 (length (takeWhile (rto_expired ts s) (qs_rto_list s))), s') \<and> timer_inv s'
    \<and> qs_rto_list s' = drop (min 5 (length (takeWhile (rto_expired ts s) (qs_rto_list s)))) (qs_rto_list s)"
  using rto_walk_spec [OF assms refl, of 0 ev ts] by (simp add: rto_list_check_def MAX_RTO_BATCH_def)

theorem rto_list_check_prefix_witness:
  "\<exists>s'. rto_list_check env0 600 stack1 = Inr (1, s') \<and> qs_rto_list s' = []"
proof -
  have l: "qs_rto_list stack1 = [1]" by (simp add: stack1_def)
  have e: "rto_expired 600 stack1 1" "fss_known stack1 1"
    by (simp_all add: rto_expired_def fss_known_def stack1_ok(5) [unfolded One_nat_def] stream1_def zero_stream_def
        init_sndvar_def init_rcvvar_def)
  show ?thesis
    using rto_list_check_prefix [OF stack1_ok(1), of env0 600] stack1_live e by (auto simp: l)
qed

end
