(* ===== verification/Packet_Out.thy ===== *)
theory Packet_Out
  imports Timer
begin

text \<open>
  From a segment to the driver: the Ethernet and IP headers (\<^verbatim>\<open>eth_out.c\<close>,
  \<^verbatim>\<open>ip_out.c\<close>), the TCP options and header of \<^verbatim>\<open>tcp_out.c\<close>, and the driver's
  transmit queue and its allocation of mbufs (\<^verbatim>\<open>io_module.c\<close>, \<^verbatim>\<open>dpdk_module.c\<close>).
  Checksums are left to the network card (\<^verbatim>\<open>IF_TX_CHECK\<close>) and written as 0. Multi-byte
  fields of the headers are kept in network order, as the code stores them. The mbufs in DPDK's
  pool are in the state in which \<^verbatim>\<open>rte_pktmbuf_alloc\<close> will return them.
\<close>

section \<open>Driver\<close>

definition mem_upd :: "ptr \<Rightarrow> (mbuf \<Rightarrow> mbuf) \<Rightarrow> 'h qstack \<Rightarrow> 'h qstack" where
  "mem_upd p f s = s\<lparr>qs_mem := heap_upd p f (qs_mem s)\<rparr>"

abbreviation mbuf_at :: "'h qstack \<Rightarrow> ptr \<Rightarrow> mbuf" where
  "mbuf_at s p \<equiv> mm_heap (qs_mem s) p"

text \<open>The branch of type 0, for the driver and the stack.\<close>

definition dpdk_alloc_mbuf :: "'h qstack \<Rightarrow> (ptr \<times> 'h qstack) result" where
  "dpdk_alloc_mbuf s =
     (case n21q_dequeue (dp_free_queue (qs_dpdk s)) of
        None \<Rightarrow> Inl Diverges
      | Some (p, q) \<Rightarrow>
          let d1 = (qs_dpdk s)\<lparr>dp_free_queue := q\<rparr>;
              (p1, d2) = (if p = NULL
                          then case dp_tx_pool d1 of [] \<Rightarrow> (NULL, d1) | x # xs \<Rightarrow> (x, d1\<lparr>dp_tx_pool := xs\<rparr>)
                          else (p, d1));
              s1 = s\<lparr>qs_dpdk := d2\<rparr>
          in if p1 = NULL then Inr (NULL, s1)
             else Inr (p1, mem_upd p1 (\<lambda>mb. mb\<lparr>mb_payload_len := 0, mb_tcp_seq := 0\<rparr>) s1))"

definition io_get_swmbuf :: "'h qstack \<Rightarrow> (ptr \<times> 'h qstack) result" where
  "io_get_swmbuf s = dpdk_alloc_mbuf s"

text \<open>The loop of \<^verbatim>\<open>dpdk_tx_send\<close> for the one mbuf its caller passes.\<close>

definition dpdk_tx_send :: "bool \<Rightarrow> ptr \<Rightarrow> 'h qstack \<Rightarrow> (int \<times> 'h qstack) result" where
  "dpdk_tx_send level mbuf s =
     (let s1 = mem_upd mbuf (\<lambda>mb. mb\<lparr>mb_priority := level\<rparr>) s;
          d = qs_dpdk s1;
          tx_mbufs = (if \<not> mb_priority (mbuf_at s1 mbuf) then dp_tl_mbufs d else dp_th_mbufs d)
      in if cirq_full tx_mbufs then Inl Exit0
         else let (ret, q) = cirq_add tx_mbufs mbuf
              in if ret \<noteq> SUCCESS then Inl Exit0
                 else Inr (1, s1\<lparr>qs_dpdk := (if \<not> mb_priority (mbuf_at s1 mbuf)
                                             then d\<lparr>dp_tl_mbufs := q\<rparr> else d\<lparr>dp_th_mbufs := q\<rparr>)\<rparr>))"

definition io_send_mbuf :: "ptr \<Rightarrow> u16 \<Rightarrow> 'h qstack \<Rightarrow> (int \<times> 'h qstack) result" where
  "io_send_mbuf mbuf len s =
     (if mbuf = NULL then Inl Exit0
      else dpdk_tx_send True mbuf (mem_upd mbuf (\<lambda>mb. mb\<lparr>
             mb_data_len := (if mb_data_len mb = 0 then len else mb_data_len mb),
             mb_pkt_len := (if mb_pkt_len mb = 0 then ucast len else mb_pkt_len mb)\<rparr>) s))"

section \<open>Ethernet and IP headers\<close>

definition ETH_P_IP :: u16 where "ETH_P_IP = 0x0800"
definition IPPROTO_TCP :: u8 where "IPPROTO_TCP = 6"

definition set_l2_len :: "u64 \<Rightarrow> u64 \<Rightarrow> u64" where
  "set_l2_len v w = (w AND NOT 0x7F) OR take_bit 7 v"

definition eth_hdr_generate :: "'h env \<Rightarrow> ptr \<Rightarrow> u16 \<Rightarrow> u8 list \<Rightarrow> 'h qstack \<Rightarrow> int \<times> 'h qstack" where
  "eth_hdr_generate ev mbuf h_proto dst_haddr s =
     (if mbuf = NULL then (FAILED, s)
      else (SUCCESS, mem_upd mbuf (\<lambda>mb. mb\<lparr>
             mb_eth := \<lparr>eth_dest = dst_haddr, eth_source = ev_haddr ev, eth_proto = htons h_proto\<rparr>,
             mb_tx_offload := set_l2_len (of_nat ETHERNET_HEADER_LEN) (mb_tx_offload mb)\<rparr>) s))"

definition generate_ip_packet :: "'h env \<Rightarrow> ptr \<Rightarrow> ptr \<Rightarrow> u16 \<Rightarrow> 'h qstack \<Rightarrow> (int \<times> 'h qstack) result" where
  "generate_ip_packet ev p mbuf tcplen s =
     (if mbuf = NULL then Inl Undefined
      else let (ret, s1) = eth_hdr_generate ev mbuf ETH_P_IP (st_dhw_addr (qs_streams s p)) s
           in if \<not> truthy ret then Inr (ret, s1)
              else let st = qs_streams s1 p;
                       s2 = sv_upd p (\<lambda>sv. sv\<lparr>sv_ip_id := sv_ip_id sv + 1\<rparr>) s1
                   in Inr (SUCCESS, mem_upd mbuf (\<lambda>mb. mb\<lparr>
                        mb_iph := \<lparr>ip_ihl = 5, ip_version = 4, ip_tos = 0,
                          ip_tot_len = htons (of_nat IP_HEADER_LEN + tcplen),
                          ip_id = htons (sv_ip_id (st_sndvar st)), ip_frag_off = htons 0x4000, ip_ttl = 64,
                          ip_protocol = IPPROTO_TCP, ip_check = 0,
                          ip_saddr = st_saddr st, ip_daddr = st_daddr st\<rparr>\<rparr>) s2))"

section \<open>TCP options and header\<close>

definition TCP_OPT_END :: u8 where "TCP_OPT_END = 0"
definition TCP_OPT_NOP :: u8 where "TCP_OPT_NOP = 1"
definition TCP_OPT_MSS :: u8 where "TCP_OPT_MSS = 2"
definition TCP_OPT_WSCALE :: u8 where "TCP_OPT_WSCALE = 3"
definition TCP_OPT_SACK_PERMIT :: u8 where "TCP_OPT_SACK_PERMIT = 4"
definition TCP_OPT_SACK :: u8 where "TCP_OPT_SACK = 5"
definition TCP_OPT_TIMESTAMP :: u8 where "TCP_OPT_TIMESTAMP = 8"
definition TCP_OPT_MSS_LEN :: u8 where "TCP_OPT_MSS_LEN = 4"
definition TCP_OPT_WSCALE_LEN :: u8 where "TCP_OPT_WSCALE_LEN = 3"

lemmas tcp_opt_defs = TCP_OPT_END_def TCP_OPT_NOP_def TCP_OPT_MSS_def TCP_OPT_WSCALE_def
  TCP_OPT_SACK_PERMIT_def TCP_OPT_SACK_def TCP_OPT_TIMESTAMP_def TCP_OPT_MSS_LEN_def TCP_OPT_WSCALE_LEN_def

definition calculate_option_length :: "u8 \<Rightarrow> u16" where
  "calculate_option_length flags =
     (if has_flag flags TCP_FLAG_SYN then ucast TCP_OPT_MSS_LEN + (ucast TCP_OPT_WSCALE_LEN + 1) else 0)"

definition GenerateTCPOptions :: "tcp_stream \<Rightarrow> u8 \<Rightarrow> u8 list" where
  "GenerateTCPOptions st flags =
     (if has_flag flags TCP_FLAG_SYN
      then let mss = sv_mss (st_sndvar st)
           in [TCP_OPT_MSS, TCP_OPT_MSS_LEN, ucast (drop_bit 8 mss), ucast (mss mod 256),
               TCP_OPT_NOP, TCP_OPT_WSCALE, TCP_OPT_WSCALE_LEN, sv_wscale_mine (st_sndvar st)]
      else [])"

text \<open>
  The sequence number of the segment: one less than the next for a window probe, that of the FIN
  for a FIN.
\<close>

definition out_seq :: "u8 \<Rightarrow> tcp_stream \<Rightarrow> u32" where
  "out_seq flags st =
     (if has_flag flags TCP_FLAG_WACK then st_snd_nxt st - 1
      else if has_flag flags TCP_FLAG_FIN then sv_fss (st_sndvar st)
      else st_snd_nxt st)"

definition out_fin :: "u8 \<Rightarrow> bool" where
  "out_fin flags \<longleftrightarrow> \<not> has_flag flags TCP_FLAG_WACK \<and> has_flag flags TCP_FLAG_FIN"

definition fill_tcp_header :: "u8 \<Rightarrow> u16 \<Rightarrow> tcp_stream \<Rightarrow> tcphdr \<Rightarrow> tcphdr" where
  "fill_tcp_header flags optlen st th =
     (let wscale = (if has_flag flags TCP_FLAG_SYN then 0 else sv_wscale_mine (st_sndvar st));
          window32 = drop_bit (unat wscale) (rv_rcv_wnd (st_rcvvar st))
      in \<lparr>th_source = st_sport st, th_dest = st_dport st, th_seq = htonl (out_seq flags st),
          th_ack_seq = (if has_flag flags TCP_FLAG_ACK then htonl (st_rcv_nxt st) else th_ack_seq th),
          th_doff = (TCP_HEADER_LEN + unat optlen) div 4, th_fin = out_fin flags,
          th_syn = has_flag flags TCP_FLAG_SYN, th_rst = has_flag flags TCP_FLAG_RST,
          th_psh = has_flag flags TCP_FLAG_PSH, th_ack = has_flag flags TCP_FLAG_ACK, th_urg = False,
          th_window = htons (ucast (min window32 TCP_MAX_WINDOW)), th_check = 0, th_urg_ptr = 0\<rparr>)"

text \<open>
  Everything \<^verbatim>\<open>send_tcp_packet\<close> does once the lower headers are written. The three
  conditions on the state of the mbuf are assignments, of which the first is always true, so every
  mbuf is left in state SENT.
\<close>

definition finish_tcp_packet :: "ptr \<Rightarrow> u32 \<Rightarrow> u8 \<Rightarrow> ptr \<Rightarrow> u32 \<Rightarrow> 'h qstack \<Rightarrow> (int \<times> 'h qstack) result" where
  "finish_tcp_packet p cur_ts flags mbuf payloadlen s =
     (let optlen = calculate_option_length flags;
          st = qs_streams s p;
          s1 = mem_upd mbuf (\<lambda>mb. mb\<lparr>mb_payload_len := ucast payloadlen\<rparr>) s
      in if mbuf_get_tcp_ptr (mm_heap (qs_mem s1)) mbuf = NULL then Inr (ERROR, s1)
         else
           let s2 = mem_upd mbuf (\<lambda>mb. mb\<lparr>
                      mb_tcph := fill_tcp_header flags optlen st (mb_tcph mb),
                      mb_tcp_seq := ntohl (th_seq (fill_tcp_header flags optlen st (mb_tcph mb))),
                      mb_opts := GenerateTCPOptions st flags,
                      mb_data_len := of_nat TOTAL_TCP_HEADER_LEN + optlen + mb_payload_len mb,
                      mb_pkt_len := of_nat TOTAL_TCP_HEADER_LEN + ucast optlen + ucast (mb_payload_len mb)\<rparr>) s1;
               s3 = sv_upd p (\<lambda>sv. sv\<lparr>sv_is_fin_sent := (sv_is_fin_sent sv \<or> out_fin flags)\<rparr>) s2
           in bind_r (if has_flag flags TCP_FLAG_ACK
                      then timeout_list_update p cur_ts
                             (sv_upd p (\<lambda>sv. sv\<lparr>sv_ts_lastack_sent := cur_ts\<rparr>) s3)
                      else Inr s3) (\<lambda>s4.
              let extra = (if has_flag flags TCP_FLAG_SYN \<or> out_fin flags then 1 else 0);
                  s5 = st_upd p (\<lambda>st. st\<lparr>st_snd_nxt := st_snd_nxt st + payloadlen + extra\<rparr>) s4;
                  s6 = mem_upd mbuf (\<lambda>mb. mb\<lparr>mb_state := MBUF_STATE_SENT\<rparr>) s5;
                  s7 = (if payloadlen + extra \<noteq> 0 then snd (rto_list_add p cur_ts s6) else s6)
              in bind_r (io_send_mbuf mbuf (mb_data_len (mbuf_at s7 mbuf)) s7) (\<lambda>(_, s8). Inr (SUCCESS, s8))))"

definition send_tcp_packet :: "'h env \<Rightarrow> ptr \<Rightarrow> u32 \<Rightarrow> u8 \<Rightarrow> ptr \<Rightarrow> u32 \<Rightarrow> 'h qstack \<Rightarrow> (int \<times> 'h qstack) result" where
  "send_tcp_packet ev p cur_ts flags mbuf_arg payloadlen s =
     (let optlen = calculate_option_length flags
      in if payloadlen > ucast (sv_mss (sndvar s p)) - ucast optlen then Inr (ERROR, s)
         else bind_r (if mbuf_arg = NULL then io_get_swmbuf s else Inr (mbuf_arg, s)) (\<lambda>(mbuf, s1).
           if mbuf = NULL then Inr (FAILED, s1)
           else let s2 = mem_upd mbuf (\<lambda>mb. mbuf_set_tx_offload mb (of_nat ETHERNET_HEADER_LEN)
                           (of_nat IP_HEADER_LEN) (of_nat TCP_HEADER_LEN + ucast optlen)
                           (ucast (mb_payload_len mb)) 0 0) s1
                in bind_r (generate_ip_packet ev p mbuf
                             (of_nat TCP_HEADER_LEN + optlen + ucast payloadlen) s2) (\<lambda>(ret, s3).
                     if ret \<noteq> SUCCESS then Inr (ret, s3)
                     else finish_tcp_packet p cur_ts flags mbuf payloadlen s3)))"

text \<open>A packet without a stream: the trace before any work ends the process.\<close>

definition send_tcp_packet_standalone :: "'h qstack \<Rightarrow> (int \<times> 'h qstack) result" where
  "send_tcp_packet_standalone s = Inl Exit0"

section \<open>What sending a packet does\<close>

text \<open>
  The mbuf as the driver gets it, and the state after sending up to the timers
  (\<open>timer_frame\<close>): one packet more in the transmit queue, and the stream's next sequence number
  behind the packet.
\<close>

definition wire_mbuf :: "u8 \<Rightarrow> u32 \<Rightarrow> tcp_stream \<Rightarrow> mbuf \<Rightarrow> mbuf" where
  "wire_mbuf flags len st mb =
     (let optlen = calculate_option_length flags
      in mb\<lparr>mb_payload_len := ucast len, mb_tcph := fill_tcp_header flags optlen st (mb_tcph mb),
            mb_tcp_seq := ntohl (htonl (out_seq flags st)), mb_opts := GenerateTCPOptions st flags,
            mb_data_len := of_nat TOTAL_TCP_HEADER_LEN + optlen + ucast len,
            mb_pkt_len := of_nat TOTAL_TCP_HEADER_LEN + ucast optlen + ucast (ucast len :: u16),
            mb_state := MBUF_STATE_SENT, mb_priority := True\<rparr>)"

definition out_extra :: "u8 \<Rightarrow> u32" where
  "out_extra flags = (if has_flag flags TCP_FLAG_SYN \<or> out_fin flags then 1 else 0)"

definition sent_stream :: "u32 \<Rightarrow> u8 \<Rightarrow> u32 \<Rightarrow> tcp_stream \<Rightarrow> tcp_stream" where
  "sent_stream cur_ts flags len st =
     st\<lparr>st_snd_nxt := st_snd_nxt st + len + out_extra flags,
        st_sndvar := (st_sndvar st)\<lparr>sv_is_fin_sent := (sv_is_fin_sent (st_sndvar st) \<or> out_fin flags),
          sv_ts_lastack_sent := (if has_flag flags TCP_FLAG_ACK then cur_ts
                                 else sv_ts_lastack_sent (st_sndvar st))\<rparr>\<rparr>"

definition sent_state :: "ptr \<Rightarrow> u32 \<Rightarrow> u8 \<Rightarrow> ptr \<Rightarrow> u32 \<Rightarrow> 'h qstack \<Rightarrow> 'h qstack" where
  "sent_state p cur_ts flags mbuf len s =
     (st_upd p (sent_stream cur_ts flags len) (mem_upd mbuf (wire_mbuf flags len (qs_streams s p)) s))
       \<lparr>qs_dpdk := (qs_dpdk s)\<lparr>dp_th_mbufs := snd (cirq_add (dp_th_mbufs (qs_dpdk s)) mbuf)\<rparr>\<rparr>"

lemma timer_frame_field:
  assumes "timer_frame s s'" "\<And>st. f (no_timer_fields st) = f st"
  shows "f (qs_streams s' q) = f (qs_streams s q)"
  using arg_cong [OF timer_frame_stream [OF assms(1), of q], of f] assms(2) by simp

lemma timer_frame_cong:
  "timer_frame s s' \<Longrightarrow> timer_frame (mem_upd b g s) (mem_upd b g s')"
  "timer_frame s s' \<Longrightarrow> timer_frame (s\<lparr>qs_dpdk := d\<rparr>) (s'\<lparr>qs_dpdk := d\<rparr>)"
  "timer_frame s s' \<Longrightarrow> (\<And>st. no_timer_fields (f st) = f (no_timer_fields st)) \<Longrightarrow>
     timer_frame (st_upd p f s) (st_upd p f s')"
proof -
  have 1: "no_timers (mem_upd b g s) = mem_upd b g (no_timers s)" for s :: "'h qstack"
    by (simp add: no_timers_def mem_upd_def)
  have 2: "no_timers (s\<lparr>qs_dpdk := d\<rparr>) = (no_timers s)\<lparr>qs_dpdk := d\<rparr>" for s :: "'h qstack"
    by (simp add: no_timers_def)
  have 3: "no_timers (st_upd p f s) = st_upd p f (no_timers s)"
    if "\<And>st. no_timer_fields (f st) = f (no_timer_fields st)" for s :: "'h qstack"
    using that by (simp add: no_timers_def st_upd_def fun_eq_iff)
  show "timer_frame s s' \<Longrightarrow> timer_frame (mem_upd b g s) (mem_upd b g s')" by (simp add: timer_frame_def 1)
  show "timer_frame s s' \<Longrightarrow> timer_frame (s\<lparr>qs_dpdk := d\<rparr>) (s'\<lparr>qs_dpdk := d\<rparr>)" by (simp add: timer_frame_def 2)
  show "timer_frame s s' \<Longrightarrow> (\<And>st. no_timer_fields (f st) = f (no_timer_fields st)) \<Longrightarrow>
     timer_frame (st_upd p f s) (st_upd p f s')" by (simp add: timer_frame_def 3)
qed

lemma mem_upd_get [stack_simps]:
  "mbuf_at (mem_upd b g s) q = (if q = b then g (mbuf_at s b) else mbuf_at s q)"
  by (simp add: mem_upd_def heap_upd_def)

lemma mem_upd_frame [simp]:
  "qs_streams (mem_upd b g s) = qs_streams s" "qs_dpdk (mem_upd b g s) = qs_dpdk s"
  "qs_control_queue (mem_upd b g s) = qs_control_queue s" "qs_ack_queue (mem_upd b g s) = qs_ack_queue s"
  "qs_send_event_queue (mem_upd b g s) = qs_send_event_queue s"
  "qs_send_hevent_queue (mem_upd b g s) = qs_send_hevent_queue s"
  "qs_stack_id (mem_upd b g s) = qs_stack_id s" "qs_sockets (mem_upd b g s) = qs_sockets s"
  "mm_released (qs_mem (mem_upd b g s)) = mm_released (qs_mem s)"
  "mm_count (qs_mem (mem_upd b g s)) = mm_count (qs_mem s)"
  "qs_rto_list (mem_upd b g s) = qs_rto_list s" "qs_timewait_list (mem_upd b g s) = qs_timewait_list s"
  "qs_timeout_list (mem_upd b g s) = qs_timeout_list s" "qs_stream_pool (mem_upd b g s) = qs_stream_pool s"
  "qs_stream_ht (mem_upd b g s) = qs_stream_ht s" "qs_events (mem_upd b g s) = qs_events s"
  "qs_listener (mem_upd b g s) = qs_listener s"
  by (simp_all add: mem_upd_def heap_upd_def)

lemma mem_upd_timers [simp]: "timer_inv (mem_upd b g s) = timer_inv s" "same_timers s (mem_upd b g s)"
  by (simp_all add: timer_inv_def same_timers_def)

lemma mem_upd_twice: "mem_upd b g (mem_upd b f s) = mem_upd b (\<lambda>mb. g (f mb)) s"
  by (simp add: mem_upd_def heap_upd_def)

lemma mem_upd_commute:
  "mem_upd b g (st_upd p f s) = st_upd p f (mem_upd b g s)" "mem_upd b g (sv_upd p h s) = sv_upd p h (mem_upd b g s)"
  by (simp_all add: mem_upd_def st_upd_def sv_upd_def)

lemma wire_pkt_len: "(of_nat TOTAL_TCP_HEADER_LEN + ucast (calculate_option_length flags) + ucast (x :: u16) :: u32) \<noteq> 0"
proof -
  have "unat x \<le> 65535" using unat16_le .
  moreover have "unat (ucast x :: u32) = unat x" by (rule unat_ucast16)
  ultimately have "unat (of_nat TOTAL_TCP_HEADER_LEN + ucast (calculate_option_length flags) + ucast x :: u32) \<noteq> 0"
    by (simp add: header_lens calculate_option_length_def tcp_opt_defs unat_word_ariths)
  then show ?thesis by auto
qed

lemma timeout_update_other:
  "timeout_list_update p ts s = Inr s' \<Longrightarrow> q \<noteq> p \<Longrightarrow> qs_streams s' q = qs_streams s q"
  by (auto simp: timeout_list_update_def Let_def stack_simps bind_r_Inr_iff split: if_splits)

lemma rto_list_add_other:
  "q \<noteq> p \<Longrightarrow> qs_streams (snd (rto_list_add p ts s)) q = qs_streams s q"
  "st_on_rto_idx (qs_streams (snd (rto_list_add p ts s)) p) \<noteq> 0
     \<or> st_on_timewait_list (qs_streams (snd (rto_list_add p ts s)) p)"
  by (auto simp: rto_list_add_def Let_def stack_simps RTO_STORAGE_def)

lemma io_send_mbuf_spec:
  assumes "mbuf \<noteq> NULL" "cirq_wf (dp_th_mbufs (qs_dpdk s))" "\<not> cirq_full (dp_th_mbufs (qs_dpdk s))"
    "mb_pkt_len (mbuf_at s mbuf) \<noteq> 0"
  shows "io_send_mbuf mbuf (mb_data_len (mbuf_at s mbuf)) s =
    Inr (1, (mem_upd mbuf (\<lambda>mb. mb\<lparr>mb_priority := True\<rparr>) s)
      \<lparr>qs_dpdk := (qs_dpdk s)\<lparr>dp_th_mbufs := snd (cirq_add (dp_th_mbufs (qs_dpdk s)) mbuf)\<rparr>\<rparr>)"
proof -
  have a: "fst (cirq_add (dp_th_mbufs (qs_dpdk s)) mbuf) = SUCCESS"
    using assms(3) by (simp add: cirq_add_def Let_def)
  have "mem_upd mbuf (\<lambda>mb. mb\<lparr>mb_data_len := (if mb_data_len mb = 0 then mb_data_len (mbuf_at s mbuf) else mb_data_len mb),
      mb_pkt_len := (if mb_pkt_len mb = 0 then ucast (mb_data_len (mbuf_at s mbuf)) else mb_pkt_len mb)\<rparr>) s = s"
    using assms(4) by (simp add: mem_upd_def heap_upd_def)
  then show ?thesis
    using assms a by (simp add: io_send_mbuf_def dpdk_tx_send_def Let_def stack_simps case_prod_unfold)
qed

lemma th_seq_fill: "th_seq (fill_tcp_header flags optlen st th) = htonl (out_seq flags st)"
  by (simp add: fill_tcp_header_def Let_def)

lemma sent_stream_steps:
  "st_upd p (\<lambda>st. st\<lparr>st_snd_nxt := st_snd_nxt st + len + out_extra flags\<rparr>)
     (sv_upd p (\<lambda>sv. if has_flag flags TCP_FLAG_ACK then sv\<lparr>sv_ts_lastack_sent := ts\<rparr> else sv)
       (sv_upd p (\<lambda>sv. sv\<lparr>sv_is_fin_sent := (sv_is_fin_sent sv \<or> out_fin flags)\<rparr>) s))
   = st_upd p (sent_stream ts flags len) s"
proof -
  have "(\<lambda>st. (st_sndvar_update (\<lambda>sv. if has_flag flags TCP_FLAG_ACK then sv\<lparr>sv_ts_lastack_sent := ts\<rparr> else sv)
      (st_sndvar_update (\<lambda>sv. sv\<lparr>sv_is_fin_sent := (sv_is_fin_sent sv \<or> out_fin flags)\<rparr>) st))
      \<lparr>st_snd_nxt := st_snd_nxt st + len + out_extra flags\<rparr>) = sent_stream ts flags len"
  proof
    fix st :: tcp_stream
    obtain sv where "st_sndvar st = sv" by simp
    then show "(st_sndvar_update (\<lambda>sv. if has_flag flags TCP_FLAG_ACK then sv\<lparr>sv_ts_lastack_sent := ts\<rparr> else sv)
      (st_sndvar_update (\<lambda>sv. sv\<lparr>sv_is_fin_sent := (sv_is_fin_sent sv \<or> out_fin flags)\<rparr>) st))
      \<lparr>st_snd_nxt := st_snd_nxt st + len + out_extra flags\<rparr> = sent_stream ts flags len st"
      by (cases st, cases sv) (simp add: sent_stream_def)
  qed
  then show ?thesis unfolding sv_upd_def st_upd_def by (simp add: fun_eq_iff)
qed

lemma finish_tcp_packet_spec:
  assumes inv: "timer_inv s" and mb: "mbuf \<noteq> NULL"
    and room: "cirq_wf (dp_th_mbufs (qs_dpdk s))" "\<not> cirq_full (dp_th_mbufs (qs_dpdk s))"
  shows "\<exists>s'. finish_tcp_packet p ts flags mbuf len s = Inr (SUCCESS, s') \<and> timer_inv s'
    \<and> timer_frame (sent_state p ts flags mbuf len s) s'
    \<and> (\<forall>q. q \<noteq> p \<longrightarrow> qs_streams s' q = qs_streams s q)
    \<and> (len + out_extra flags \<noteq> 0 \<longrightarrow>
         st_on_rto_idx (qs_streams s' p) \<noteq> 0 \<or> st_on_timewait_list (qs_streams s' p))"
proof -
  let ?w = "\<lambda>mb. (wire_mbuf flags len (qs_streams s p) mb)\<lparr>mb_state := mb_state mb, mb_priority := mb_priority mb\<rparr>"
  let ?s2 = "mem_upd mbuf ?w s"
  let ?sv = "\<lambda>sv. sv\<lparr>sv_is_fin_sent := (sv_is_fin_sent sv \<or> out_fin flags)\<rparr>"
  let ?la = "\<lambda>sv. if has_flag flags TCP_FLAG_ACK then sv\<lparr>sv_ts_lastack_sent := ts\<rparr> else sv"
  let ?s3 = "sv_upd p ?la (sv_upd p ?sv ?s2)"
  let ?f = "\<lambda>st. st\<lparr>st_snd_nxt := st_snd_nxt st + len + out_extra flags\<rparr>"
  have i3: "timer_inv ?s3" using inv by (simp add: timer_inv_same [OF same_timers_vars(1)])
  obtain s4 where s4: "(if has_flag flags TCP_FLAG_ACK then timeout_list_update p ts ?s3 else Inr ?s3) = Inr s4"
      "timer_inv s4" "timer_frame ?s3 s4" "\<forall>q. q \<noteq> p \<longrightarrow> qs_streams s4 q = qs_streams ?s3 q"
    using timeout_list_update_inv [OF i3, of p ts] i3 timer_frame_update(1) timeout_update_other
      timer_frame_refl by (cases "has_flag flags TCP_FLAG_ACK") fastforce+
  let ?s6 = "mem_upd mbuf (\<lambda>mb. mb\<lparr>mb_state := MBUF_STATE_SENT\<rparr>) (st_upd p ?f s4)"
  define s7 where "s7 = (if len + out_extra flags \<noteq> 0 then snd (rto_list_add p ts ?s6) else ?s6)"
  have s7: "timer_inv s7" "timer_frame ?s6 s7"
    using s4(2) rto_list_add_inv [of ?s6 p ts] timer_frame_ops(1) [of ?s6 p ts]
    by (simp_all add: s7_def timer_inv_state)
  have other: "\<forall>q. q \<noteq> p \<longrightarrow> qs_streams s7 q = qs_streams s q"
    using s4(4) by (simp add: s7_def stack_simps rto_list_add_other(1))
  have armed: "len + out_extra flags \<noteq> 0 \<longrightarrow> st_on_rto_idx (qs_streams s7 p) \<noteq> 0 \<or> st_on_timewait_list (qs_streams s7 p)"
    using rto_list_add_other(2) [of p ts ?s6] by (simp add: s7_def)
  have "timer_frame (mem_upd mbuf (\<lambda>mb. mb\<lparr>mb_state := MBUF_STATE_SENT\<rparr>) (st_upd p ?f ?s3)) ?s6"
    by (intro timer_frame_cong s4(3)) (simp add: no_timer_fields_def)
  then have fr: "timer_frame (mem_upd mbuf (\<lambda>mb. mb\<lparr>mb_state := MBUF_STATE_SENT\<rparr>) (st_upd p ?f ?s3)) s7"
    using timer_frame_trans s7(2) by blast
  note d7 = timer_frameD [OF fr]
  have "mb_pkt_len (mbuf_at s7 mbuf) \<noteq> 0"
    using wire_pkt_len by (simp add: d7 stack_simps mem_upd_commute wire_mbuf_def Let_def mem_upd_def heap_upd_def)
  then have send: "io_send_mbuf mbuf (mb_data_len (mbuf_at s7 mbuf)) s7 =
      Inr (1, (mem_upd mbuf (\<lambda>mb. mb\<lparr>mb_priority := True\<rparr>) s7)
        \<lparr>qs_dpdk := (qs_dpdk s)\<lparr>dp_th_mbufs := snd (cirq_add (dp_th_mbufs (qs_dpdk s)) mbuf)\<rparr>\<rparr>)"
    using io_send_mbuf_spec [OF mb, of s7] room by (simp add: d7)
  let ?s8 = "(mem_upd mbuf (\<lambda>mb. mb\<lparr>mb_priority := True\<rparr>) s7)
        \<lparr>qs_dpdk := (qs_dpdk s)\<lparr>dp_th_mbufs := snd (cirq_add (dp_th_mbufs (qs_dpdk s)) mbuf)\<rparr>\<rparr>"
  have w: "mem_upd mbuf (\<lambda>mb. mb\<lparr>
        mb_tcph := fill_tcp_header flags (calculate_option_length flags) (qs_streams s p) (mb_tcph mb),
        mb_tcp_seq := ntohl (th_seq (fill_tcp_header flags (calculate_option_length flags) (qs_streams s p) (mb_tcph mb))),
        mb_opts := GenerateTCPOptions (qs_streams s p) flags,
        mb_data_len := of_nat TOTAL_TCP_HEADER_LEN + calculate_option_length flags + mb_payload_len mb,
        mb_pkt_len := of_nat TOTAL_TCP_HEADER_LEN + ucast (calculate_option_length flags) + ucast (mb_payload_len mb)\<rparr>)
      (mem_upd mbuf (\<lambda>mb. mb\<lparr>mb_payload_len := ucast len\<rparr>) s) = ?s2"
    unfolding mem_upd_twice by (rule arg_cong [where f = "\<lambda>g. mem_upd mbuf g s"])
      (simp add: fun_eq_iff wire_mbuf_def Let_def th_seq_fill)
  have t: "mbuf_get_tcp_ptr (mm_heap (qs_mem (mem_upd mbuf (\<lambda>mb. mb\<lparr>mb_payload_len := ucast len\<rparr>) s))) mbuf \<noteq> NULL"
    using mb by (simp add: mbuf_get_tcp_ptr_def header_lens)
  have b: "bind_r (if has_flag flags TCP_FLAG_ACK then timeout_list_update p ts
        (sv_upd p (\<lambda>sv. sv\<lparr>sv_ts_lastack_sent := ts\<rparr>) (sv_upd p ?sv ?s2)) else Inr (sv_upd p ?sv ?s2)) g = g s4" for g
    using s4(1) by (cases "has_flag flags TCP_FLAG_ACK") (simp_all add: sv_upd_def st_upd_def comp_def)
  have fin: "finish_tcp_packet p ts flags mbuf len s = Inr (SUCCESS, ?s8)"
    using send t unfolding finish_tcp_packet_def Let_def w b out_extra_def [symmetric] s7_def [symmetric] by simp
  have "timer_frame (sent_state p ts flags mbuf len s) ?s8"
  proof -
    let ?d = "(qs_dpdk s)\<lparr>dp_th_mbufs := snd (cirq_add (dp_th_mbufs (qs_dpdk s)) mbuf)\<rparr>"
    have eq: "(mem_upd mbuf (\<lambda>mb. mb\<lparr>mb_priority := True\<rparr>) (mem_upd mbuf (\<lambda>mb. mb\<lparr>mb_state := MBUF_STATE_SENT\<rparr>)
        (st_upd p ?f ?s3)))\<lparr>qs_dpdk := ?d\<rparr> = sent_state p ts flags mbuf len s"
      unfolding mem_upd_commute mem_upd_twice sent_stream_steps by (simp add: sent_state_def wire_mbuf_def [abs_def] Let_def)
    show ?thesis unfolding eq [symmetric] by (intro timer_frame_cong(1,2) fr)
  qed
  moreover have "timer_inv ?s8" using s7(1) by (simp add: timer_inv_def)
  ultimately show ?thesis using fin other armed by auto
qed

text \<open>The state in which the lower headers of the mbuf are written.\<close>

definition headed_mbuf :: "'h env \<Rightarrow> u8 \<Rightarrow> u32 \<Rightarrow> tcp_stream \<Rightarrow> mbuf \<Rightarrow> mbuf" where
  "headed_mbuf ev flags len st mb =
     (let optlen = calculate_option_length flags;
          mb1 = mbuf_set_tx_offload mb (of_nat ETHERNET_HEADER_LEN) (of_nat IP_HEADER_LEN)
                  (of_nat TCP_HEADER_LEN + ucast optlen) (ucast (mb_payload_len mb)) 0 0
      in mb1\<lparr>mb_eth := \<lparr>eth_dest = st_dhw_addr st, eth_source = ev_haddr ev, eth_proto = htons ETH_P_IP\<rparr>,
             mb_tx_offload := set_l2_len (of_nat ETHERNET_HEADER_LEN) (mb_tx_offload mb1),
             mb_iph := \<lparr>ip_ihl = 5, ip_version = 4, ip_tos = 0,
               ip_tot_len = htons (of_nat IP_HEADER_LEN + (of_nat TCP_HEADER_LEN + optlen + ucast len)),
               ip_id = htons (sv_ip_id (st_sndvar st)), ip_frag_off = htons 0x4000, ip_ttl = 64,
               ip_protocol = IPPROTO_TCP, ip_check = 0, ip_saddr = st_saddr st, ip_daddr = st_daddr st\<rparr>\<rparr>)"

definition headed_state :: "'h env \<Rightarrow> ptr \<Rightarrow> u8 \<Rightarrow> ptr \<Rightarrow> u32 \<Rightarrow> 'h qstack \<Rightarrow> 'h qstack" where
  "headed_state ev p flags mbuf len s =
     sv_upd p (\<lambda>sv. sv\<lparr>sv_ip_id := sv_ip_id sv + 1\<rparr>)
       (mem_upd mbuf (headed_mbuf ev flags len (qs_streams s p)) s)"

lemma send_tcp_packet_steps:
  assumes "len \<le> ucast (sv_mss (sndvar s p)) - ucast (calculate_option_length flags)" "mbuf \<noteq> NULL"
  shows "send_tcp_packet ev p ts flags mbuf len s =
    finish_tcp_packet p ts flags mbuf len (headed_state ev p flags mbuf len s)"
proof -
  let ?o = "calculate_option_length flags"
  let ?f = "\<lambda>mb. mbuf_set_tx_offload mb (of_nat ETHERNET_HEADER_LEN) (of_nat IP_HEADER_LEN)
    (of_nat TCP_HEADER_LEN + ucast ?o) (ucast (mb_payload_len mb)) 0 0"
  have "generate_ip_packet ev p mbuf (of_nat TCP_HEADER_LEN + ?o + ucast len) (mem_upd mbuf ?f s)
      = Inr (SUCCESS, headed_state ev p flags mbuf len s)"
    using assms(2) by (simp add: generate_ip_packet_def eth_hdr_generate_def Let_def headed_state_def headed_mbuf_def
        truthy_def SUCCESS_def mem_upd_def sv_upd_def st_upd_def heap_upd_def)
  then show ?thesis using assms(2) leD [OF assms(1)] by (simp add: send_tcp_packet_def Let_def)
qed

lemma send_tcp_packet_spec:
  assumes inv: "timer_inv s" and mb: "mbuf \<noteq> NULL"
    and len: "len \<le> ucast (sv_mss (sndvar s p)) - ucast (calculate_option_length flags)"
    and room: "cirq_wf (dp_th_mbufs (qs_dpdk s))" "\<not> cirq_full (dp_th_mbufs (qs_dpdk s))"
  shows "\<exists>s'. send_tcp_packet ev p ts flags mbuf len s = Inr (SUCCESS, s') \<and> timer_inv s'
    \<and> timer_frame (sent_state p ts flags mbuf len (headed_state ev p flags mbuf len s)) s'
    \<and> (\<forall>q. q \<noteq> p \<longrightarrow> qs_streams s' q = qs_streams s q)
    \<and> (len + out_extra flags \<noteq> 0 \<longrightarrow>
         st_on_rto_idx (qs_streams s' p) \<noteq> 0 \<or> st_on_timewait_list (qs_streams s' p))"
proof -
  let ?s = "headed_state ev p flags mbuf len s"
  have "timer_inv ?s" using inv by (simp add: headed_state_def timer_inv_same [OF same_timers_vars(1)])
  moreover have "qs_dpdk ?s = qs_dpdk s" "q \<noteq> p \<Longrightarrow> qs_streams ?s q = qs_streams s q" for q
    by (simp_all add: headed_state_def stack_simps)
  ultimately show ?thesis
    using finish_tcp_packet_spec [of ?s mbuf p ts flags len] room mb send_tcp_packet_steps [OF len mb, of ev ts] by simp
qed

section \<open>Main property\<close>

lemma option_length:
  "length (GenerateTCPOptions st flags) = unat (calculate_option_length flags)"
  "unat (calculate_option_length flags) = (if has_flag flags TCP_FLAG_SYN then 8 else 0)"
  by (simp_all add: GenerateTCPOptions_def calculate_option_length_def tcp_opt_defs Let_def)

lemma option_length_ucast: "unat (ucast (calculate_option_length flags) :: u32) = unat (calculate_option_length flags)"
  by (rule unat_ucast16)

lemma payload_fits:
  assumes "unat len + unat (calculate_option_length flags) \<le> unat mss"
  shows "(len :: u32) \<le> ucast (mss :: u16) - ucast (calculate_option_length flags)"
proof -
  have "(ucast (calculate_option_length flags) :: u32) \<le> ucast mss"
    using assms by (simp add: word_le_nat_alt unat_ucast16)
  from unat_sub [OF this] show ?thesis using assms by (simp add: word_le_nat_alt unat_ucast16)
qed

text \<open>
  The lengths written into the headers: for a payload that fits into a segment, the IP length is
  the two headers and the payload, and the frame is the Ethernet header more.
\<close>

lemma out_lengths:
  assumes "unat (len :: u32) + unat (calculate_option_length flags) \<le> 65000"
  shows "unat (of_nat IP_HEADER_LEN + (of_nat TCP_HEADER_LEN + calculate_option_length flags + ucast len) :: u16)
      = 40 + unat (calculate_option_length flags) + unat len"
    "unat (of_nat TOTAL_TCP_HEADER_LEN + calculate_option_length flags + ucast len :: u16)
      = 54 + unat (calculate_option_length flags) + unat len"
    "unat (ucast len :: u16) = unat len"
proof -
  have u: "unat (ucast len :: u16) = unat len" using assms by (simp add: unsigned_ucast_eq take_bit_eq_mod)
  then show "unat (ucast len :: u16) = unat len" .
  show "unat (of_nat IP_HEADER_LEN + (of_nat TCP_HEADER_LEN + calculate_option_length flags + ucast len) :: u16)
      = 40 + unat (calculate_option_length flags) + unat len"
    using assms u by (simp add: header_lens unat_word_ariths)
  show "unat (of_nat TOTAL_TCP_HEADER_LEN + calculate_option_length flags + ucast len :: u16)
      = 54 + unat (calculate_option_length flags) + unat len"
    using assms u by (simp add: header_lens unat_word_ariths)
qed

text \<open>
  A segment that fits into the peer's maximum size and for which the transmit
  queue has room is put on the wire as the protocol asks: it carries the stream's next sequence
  number (that of the FIN for a FIN), acknowledges everything received when it acknowledges, its
  options fill its header, and the lengths of the TCP header, IP packet and frame agree with its
  payload. The stream's next sequence number moves over the payload and over a SYN or FIN, the
  retransmission timer runs if there is anything to be acknowledged, the mbuf is last in the
  transmit queue, and no other stream changes.
\<close>

lemma send_tcp_packet_wire:
  assumes inv: "timer_inv s" and mb: "mbuf \<noteq> NULL"
    and len: "unat len + unat (calculate_option_length flags) \<le> unat (sv_mss (sndvar s p))"
    and mss: "unat (sv_mss (sndvar s p)) \<le> 65000"
    and room: "cirq_wf (dp_th_mbufs (qs_dpdk s))" "\<not> cirq_full (dp_th_mbufs (qs_dpdk s))"
  shows "\<exists>s'. send_tcp_packet ev p ts flags mbuf len s = Inr (SUCCESS, s') \<and> timer_inv s'
    \<and> cirq_list (dp_th_mbufs (qs_dpdk s')) = cirq_list (dp_th_mbufs (qs_dpdk s)) @ [mbuf]
    \<and> ntohl (th_seq (mb_tcph (mbuf_at s' mbuf))) = out_seq flags (qs_streams s p)
    \<and> mb_tcp_seq (mbuf_at s' mbuf) = out_seq flags (qs_streams s p)
    \<and> (has_flag flags TCP_FLAG_ACK \<longrightarrow> ntohl (th_ack_seq (mb_tcph (mbuf_at s' mbuf))) = st_rcv_nxt (qs_streams s p))
    \<and> 4 * th_doff (mb_tcph (mbuf_at s' mbuf)) = 20 + length (mb_opts (mbuf_at s' mbuf))
    \<and> unat (ntohs (ip_tot_len (mb_iph (mbuf_at s' mbuf)))) =
        20 + 4 * th_doff (mb_tcph (mbuf_at s' mbuf)) + unat len
    \<and> unat (mb_data_len (mbuf_at s' mbuf)) = 14 + unat (ntohs (ip_tot_len (mb_iph (mbuf_at s' mbuf))))
    \<and> st_snd_nxt (qs_streams s' p) = st_snd_nxt (qs_streams s p) + len + out_extra flags
    \<and> (len + out_extra flags \<noteq> 0 \<longrightarrow>
         st_on_rto_idx (qs_streams s' p) \<noteq> 0 \<or> st_on_timewait_list (qs_streams s' p))
    \<and> (\<forall>q. q \<noteq> p \<longrightarrow> qs_streams s' q = qs_streams s q)"
proof -
  obtain s' where s': "send_tcp_packet ev p ts flags mbuf len s = Inr (SUCCESS, s')" "timer_inv s'"
      "timer_frame (sent_state p ts flags mbuf len (headed_state ev p flags mbuf len s)) s'"
      "\<forall>q. q \<noteq> p \<longrightarrow> qs_streams s' q = qs_streams s q"
      "len + out_extra flags \<noteq> 0 \<longrightarrow> st_on_rto_idx (qs_streams s' p) \<noteq> 0 \<or> st_on_timewait_list (qs_streams s' p)"
    using send_tcp_packet_spec [OF inv mb payload_fits [OF len] room, of ev ts] by blast
  let ?h = "headed_state ev p flags mbuf len s"
  have m: "mbuf_at s' mbuf = wire_mbuf flags len (qs_streams ?h p) (headed_mbuf ev flags len (qs_streams s p) (mbuf_at s mbuf))"
    by (simp add: timer_frameD [OF s'(3)] sent_state_def headed_state_def mem_upd_def heap_upd_def)
  have st: "out_seq flags (qs_streams ?h p) = out_seq flags (qs_streams s p)"
      "st_rcv_nxt (qs_streams ?h p) = st_rcv_nxt (qs_streams s p)"
    by (simp_all add: headed_state_def stack_simps out_seq_def)
  have q: "cirq_list (dp_th_mbufs (qs_dpdk s')) = cirq_list (dp_th_mbufs (qs_dpdk s)) @ [mbuf]"
    using cirq_add_room [of "dp_th_mbufs (qs_dpdk s)" mbuf] room
    by (simp add: timer_frameD [OF s'(3)] sent_state_def headed_state_def cirq_full_iff)
  have nx: "st_snd_nxt (qs_streams s' p) = st_snd_nxt (qs_streams s p) + len + out_extra flags"
    using timer_frame_field [OF s'(3), of st_snd_nxt p]
    by (simp add: no_timer_fields_def sent_state_def headed_state_def stack_simps sent_stream_def)
  have l: "unat len + unat (calculate_option_length flags) \<le> 65000" using len mss by linarith
  have d: "4 * th_doff (mb_tcph (mbuf_at s' mbuf)) = 20 + unat (calculate_option_length flags)"
    by (simp add: m wire_mbuf_def fill_tcp_header_def Let_def header_lens option_length(2))
  have o: "length (mb_opts (mbuf_at s' mbuf)) = unat (calculate_option_length flags)"
    by (simp add: m wire_mbuf_def Let_def option_length(1))
  have t: "ntohs (ip_tot_len (mb_iph (mbuf_at s' mbuf))) =
      of_nat IP_HEADER_LEN + (of_nat TCP_HEADER_LEN + calculate_option_length flags + ucast len)"
    by (simp add: m wire_mbuf_def headed_mbuf_def Let_def)
  have dl: "mb_data_len (mbuf_at s' mbuf) = of_nat TOTAL_TCP_HEADER_LEN + calculate_option_length flags + ucast len"
    by (simp add: m wire_mbuf_def Let_def)
  have "ntohl (th_seq (mb_tcph (mbuf_at s' mbuf))) = out_seq flags (qs_streams s p)"
      "mb_tcp_seq (mbuf_at s' mbuf) = out_seq flags (qs_streams s p)"
      "has_flag flags TCP_FLAG_ACK \<longrightarrow> ntohl (th_ack_seq (mb_tcph (mbuf_at s' mbuf))) = st_rcv_nxt (qs_streams s p)"
    by (simp_all add: m wire_mbuf_def Let_def th_seq_fill st) (simp add: fill_tcp_header_def st Let_def)
  then show ?thesis
    using s'(1,2,4,5) q nx d o t dl out_lengths [OF l] by simp
qed

definition stack3 :: "(ipv4_5tuple \<Rightarrow> ptr option) qstack" where
  "stack3 = stack1\<lparr>qs_rto_list := [], qs_streams := (qs_streams stack1)(1 := stream1\<lparr>st_on_rto_idx := 0, st_rcv_nxt := 77\<rparr>)\<rparr>"

lemma stack3_ok:
  "timer_inv stack3" "cirq_wf (dp_th_mbufs (qs_dpdk stack3))" "\<not> cirq_full (dp_th_mbufs (qs_dpdk stack3))"
  "sv_mss (sndvar stack3 1) = 1460" "cirq_list (dp_th_mbufs (qs_dpdk stack3)) = []"
  "st_snd_nxt (qs_streams stack3 1) = 0"
proof -
  show "timer_inv stack3"
    by (simp add: timer_inv_def stack3_def stack1_def stack0_def stream1_def zero_stream_def)
  have q: "dp_th_mbufs (qs_dpdk stack3) = squeue0" by (simp add: stack3_def stack1_def stack0_def)
  show "cirq_wf (dp_th_mbufs (qs_dpdk stack3))" "\<not> cirq_full (dp_th_mbufs (qs_dpdk stack3))"
      "cirq_list (dp_th_mbufs (qs_dpdk stack3)) = []"
    unfolding q by (simp_all add: squeue0_def sstreamq_init_def cirq_init_def queue0_def cirq_wf_def cirq_full_def
        cirq_succ_def cirq_list_def cirq_count_def)
  show "sv_mss (sndvar stack3 1) = 1460" "st_snd_nxt (qs_streams stack3 1) = 0"
    by (simp_all add: stack3_def stream1_def init_sndvar_def zero_stream_def TCP_DEFAULT_MSS_def)
qed

theorem send_tcp_packet_wire_witness:
  "\<exists>s'. send_tcp_packet env0 1 5 TCP_FLAG_ACK 5 100 stack3 = Inr (SUCCESS, s')
     \<and> cirq_list (dp_th_mbufs (qs_dpdk s')) = [5] \<and> st_snd_nxt (qs_streams s' 1) = 100"
proof -
  have f: "\<not> has_flag TCP_FLAG_ACK TCP_FLAG_SYN" "out_extra TCP_FLAG_ACK = 0"
    by (simp_all add: has_flag_def tcp_flag_defs out_extra_def out_fin_def)
  have "unat (100 :: u32) + unat (calculate_option_length TCP_FLAG_ACK) \<le> unat (sv_mss (sndvar stack3 1))"
    by (simp add: option_length(2) f stack3_ok(4) [unfolded One_nat_def])
  from send_tcp_packet_wire [OF stack3_ok(1) _ this _ stack3_ok(2,3), of 5 env0 5] show ?thesis
    using stack3_ok(4-6) f by auto
qed

end
