(* ===== verification/Tcp_Events.thy ===== *)
theory Tcp_Events
  imports Packet_Out
begin

text \<open>
  Events that the receive path raises for the application: the event functions of
  \<^verbatim>\<open>tcp_in.c\<close> and the list of pending events of \<^verbatim>\<open>qepoll.h\<close>. An event that reaches the
  event system is recorded in \<open>qs_events\<close> with its type, in order; what the event system does
  with it is the subject of theory \<open>Qepoll\<close>. \<^verbatim>\<open>CreateQevent\<close> takes its result from a ring of
  preallocated events; an event is here a value, so the reuse of a ring slot that is still pending
  is not represented. Waking the application thread is left out. Between the two tests of
  \<^verbatim>\<open>socket->qe\<close> the application may register the socket; the model runs the stack thread alone.
\<close>

section \<open>Event lists\<close>

definition event_list_init :: "qepoll_event list" where
  "event_list_init = []"

definition event_list_pop :: "qepoll_event list \<Rightarrow> qepoll_event option \<times> qepoll_event list" where
  "event_list_pop l = (case l of [] \<Rightarrow> (None, []) | e # es \<Rightarrow> (Some e, es))"

definition event_list_append :: "qepoll_event list \<Rightarrow> qepoll_event \<Rightarrow> qepoll_event list" where
  "event_list_append l e = l @ [e]"

definition CreateQevent :: "u8 \<Rightarrow> nat \<Rightarrow> nat \<Rightarrow> nat \<Rightarrow> qevent_nature \<Rightarrow> qepoll_event" where
  "CreateQevent pri core sockid dst type =
     \<lparr>qe_pri = pri, qe_core = core, qe_apid = dst, qe_nature = type, qe_sockid = sockid\<rparr>"

text \<open>
  The start of \<^verbatim>\<open>AddTimeEvent\<close> reads the state of the stream behind the socket, unless the
  socket is a listener.
\<close>

definition submit_event :: "u32 \<Rightarrow> qepoll_event \<Rightarrow> 'h qstack \<Rightarrow> 'h qstack result" where
  "submit_event event_type e s =
     (let k = tb_sockets (qs_sockets s) (qe_sockid e)
      in if so_socktype k \<noteq> SOCK_TYPE_LISTENER \<and> so_stream k = NULL then Inl Undefined
         else Inr (s\<lparr>qs_events := qs_events s @ [(event_type, e)]\<rparr>))"

section \<open>Raising events\<close>

definition add_pending_event :: "ptr \<Rightarrow> qepoll_event \<Rightarrow> 'h qstack \<Rightarrow> (int \<times> 'h qstack) result" where
  "add_pending_event p event s =
     (let s1 = st_upd p (\<lambda>st. st\<lparr>st_pdev_st := Pdev_WRITEN,
                 st_pending_events := event_list_append (st_pending_events st) event\<rparr>) s
      in case st_socket (qs_streams s1 p) of
           None \<Rightarrow> Inl Undefined
         | Some k \<Rightarrow>
             if so_qe (tb_sockets (qs_sockets s1) k) \<noteq> NULL
             then if st_pdev_st (qs_streams s1 p) \<noteq> Pdev_WRITEN then Inr (SUCCESS, s1)
                  else Inr (FALSE, st_upd p (\<lambda>st. st\<lparr>st_pending_events :=
                         snd (event_list_pop (st_pending_events st))\<rparr>) s1)
             else Inr (SUCCESS, s1))"

definition check_stream_event_validation :: "ptr \<Rightarrow> qepoll_event \<Rightarrow> 'h qstack \<Rightarrow> (bool \<times> 'h qstack) result" where
  "check_stream_event_validation p event s =
     (if (case st_socket (qs_streams s p) of None \<Rightarrow> False
          | Some k \<Rightarrow> so_qe (tb_sockets (qs_sockets s) k) \<noteq> NULL)
      then Inr (True, s)
      else bind_r (add_pending_event p event s) (\<lambda>(ret, s1).
             if ret = SUCCESS then Inr (False, s1)
             else if ret = 0 then Inr (True, s1) else Inl Undefined))"

text \<open>The application that is to handle a stream's events is chosen once and kept in the socket.\<close>

definition event_dest :: "'h env \<Rightarrow> ptr \<Rightarrow> 'h qstack \<Rightarrow> (nat \<times> 'h qstack) result" where
  "event_dest ev p s =
     (case st_socket (qs_streams s p) of
        None \<Rightarrow> Inl Undefined
      | Some k \<Rightarrow>
          let app = so_default_app (tb_sockets (qs_sockets s) k)
          in if app = - 1
             then if ev_stack_thread ev \<noteq> ev_app_thread ev \<and> ev_app_thread ev = 0 then Inl Undefined
                  else let app1 = (if ev_stack_thread ev = ev_app_thread ev then of_nat (qs_stack_id s)
                                   else of_nat (st_id (qs_streams s p) mod ev_app_thread ev));
                           tb = qs_sockets s
                       in Inr (unat app1, s\<lparr>qs_sockets := tb\<lparr>tb_sockets := (tb_sockets tb)
                            (k := (tb_sockets tb k)\<lparr>so_default_app := app1\<rparr>)\<rparr>\<rparr>)
             else Inr (unat app, s))"

definition add_epoll_event :: "u32 \<Rightarrow> int \<Rightarrow> nat \<Rightarrow> nat \<Rightarrow> ptr \<Rightarrow> 'h qstack \<Rightarrow> 'h qstack result" where
  "add_epoll_event event_type pri sockid dst p s =
     (let core = qs_stack_id s
      in if - 1 \<noteq> pri
         then let event = CreateQevent (of_int pri) core sockid dst Q_READ
              in bind_r (check_stream_event_validation p event s) (\<lambda>(valid, s1).
                   if \<not> valid then Inr s1 else submit_event event_type event s1)
         else submit_event event_type (CreateQevent 1 core sockid dst Q_ACCEPT) s)"

definition raise_event :: "'h env \<Rightarrow> u32 \<Rightarrow> int \<Rightarrow> ptr \<Rightarrow> 'h qstack \<Rightarrow> 'h qstack result" where
  "raise_event ev event_type pri p s =
     (if st_socket (qs_streams s p) \<noteq> None
      then bind_r (event_dest ev p s) (\<lambda>(dst, s1).
             add_epoll_event event_type pri (st_id (qs_streams s p)) dst p s1)
      else Inr s)"

definition raise_read_event :: "'h env \<Rightarrow> int \<Rightarrow> ptr \<Rightarrow> 'h qstack \<Rightarrow> 'h qstack result" where
  "raise_read_event ev pri p s = raise_event ev Q_EPOLLIN pri p s"

definition raise_write_event :: "'h env \<Rightarrow> ptr \<Rightarrow> 'h qstack \<Rightarrow> 'h qstack result" where
  "raise_write_event ev p s = raise_event ev Q_EPOLLOUT 0 p s"

definition raise_error_event :: "'h env \<Rightarrow> ptr \<Rightarrow> 'h qstack \<Rightarrow> 'h qstack result" where
  "raise_error_event ev p s = raise_event ev Q_EPOLLERR 0 p s"

definition raise_close_event :: "'h env \<Rightarrow> ptr \<Rightarrow> 'h qstack \<Rightarrow> 'h qstack result" where
  "raise_close_event ev p s = raise_read_event ev 1 p s"

text \<open>The stream joins the accept queue of its application, or is closed if that is full.\<close>

definition accept_enqueue :: "nat \<Rightarrow> nat \<Rightarrow> ptr \<Rightarrow> 'h qstack \<Rightarrow> 'h qstack" where
  "accept_enqueue l accepter p s =
     (let listener = qs_listener s l;
          (ret, q) = streamq_enqueue (ls_acceptq listener accepter) (of_nat (qs_stack_id s)) p;
          s1 = s\<lparr>qs_listener := (qs_listener s)(l := listener\<lparr>ls_acceptq :=
                   (ls_acceptq listener)(accepter := q)\<rparr>)\<rparr>
      in if ret < 0
         then st_upd p (\<lambda>st. st\<lparr>st_close_reason := TCP_NOT_ACCEPTED, st_state := TCP_ST_CLOSED\<rparr>) s1
         else s1)"

definition raise_accept_event :: "'h env \<Rightarrow> ptr \<Rightarrow> 'h qstack \<Rightarrow> 'h qstack result" where
  "raise_accept_event ev p s =
     bind_r (event_dest ev p s) (\<lambda>(accepter, s1).
     case st_listener (qs_streams s1 p) of
       None \<Rightarrow> Inl Undefined
     | Some l \<Rightarrow>
         let s2 = accept_enqueue l accepter p s1
         in case ls_socket (qs_listener s2 l) of
              None \<Rightarrow> Inr s2
            | Some k \<Rightarrow>
                if so_epoll (tb_sockets (qs_sockets s2) k) AND Q_EPOLLIN \<noteq> 0
                then add_epoll_event Q_EPOLLIN (- 1) (ls_sockid (qs_listener s2 l)) accepter p s2
                else Inr s2)"

section \<open>What an event leaves alone\<close>

text \<open>
  Raising an event changes of the stream only its pending events, and of the rest only the sockets'
  default applications, the accept queues and the recorded events.
\<close>

definition no_events :: "tcp_stream \<Rightarrow> tcp_stream" where
  "no_events st = st\<lparr>st_pdev_st := Pdev_EMPTY, st_pending_events := []\<rparr>"

definition event_frame :: "'h qstack \<Rightarrow> 'h qstack \<Rightarrow> bool" where
  "event_frame s s' \<longleftrightarrow> (\<forall>q. no_events (qs_streams s' q) = no_events (qs_streams s q))
     \<and> qs_mem s' = qs_mem s \<and> qs_control_queue s' = qs_control_queue s \<and> qs_ack_queue s' = qs_ack_queue s
     \<and> qs_send_event_queue s' = qs_send_event_queue s \<and> qs_send_hevent_queue s' = qs_send_hevent_queue s
     \<and> qs_close_queue s' = qs_close_queue s \<and> qs_rto_list s' = qs_rto_list s
     \<and> qs_timewait_list s' = qs_timewait_list s \<and> qs_timeout_list s' = qs_timeout_list s
     \<and> qs_stream_ht s' = qs_stream_ht s \<and> qs_stream_pool s' = qs_stream_pool s
     \<and> qs_stack_id s' = qs_stack_id s \<and> qs_dpdk s' = qs_dpdk s
     \<and> (\<forall>k. so_socktype (tb_sockets (qs_sockets s') k) = so_socktype (tb_sockets (qs_sockets s) k)
          \<and> so_stream (tb_sockets (qs_sockets s') k) = so_stream (tb_sockets (qs_sockets s) k)
          \<and> so_qe (tb_sockets (qs_sockets s') k) = so_qe (tb_sockets (qs_sockets s) k))"

lemma event_frame_refl [simp]: "event_frame s s"
  by (simp add: event_frame_def)

lemma event_frame_trans [trans]: "event_frame s1 s2 \<Longrightarrow> event_frame s2 s3 \<Longrightarrow> event_frame s1 s3"
  by (simp add: event_frame_def)

lemma event_frame_field:
  assumes "event_frame s s'" "\<And>st. f (no_events st) = f st"
  shows "f (qs_streams s' q) = f (qs_streams s q)"
  using assms by (metis event_frame_def)

lemma add_pending_event_frame: "add_pending_event p e s = Inr (r, s') \<Longrightarrow> event_frame s s'"
  by (auto simp: add_pending_event_def event_frame_def no_events_def Let_def stack_simps
      split: if_splits option.splits)

lemma check_validation_frame: "check_stream_event_validation p e s = Inr (r, s') \<Longrightarrow> event_frame s s'"
  by (auto simp: check_stream_event_validation_def bind_r_Inr_iff dest: add_pending_event_frame
      split: if_splits option.splits)

lemma event_dest_frame: "event_dest ev p s = Inr (r, s') \<Longrightarrow> event_frame s s'"
  by (auto simp: event_dest_def event_frame_def Let_def split: if_splits option.splits)

lemma submit_event_frame: "submit_event t e s = Inr s' \<Longrightarrow> event_frame s s'"
  by (auto simp: submit_event_def event_frame_def Let_def split: if_splits)

lemma add_epoll_event_frame: "add_epoll_event t pri k d p s = Inr s' \<Longrightarrow> event_frame s s'"
  by (auto simp: add_epoll_event_def bind_r_Inr_iff Let_def split: if_splits
      dest!: check_validation_frame submit_event_frame intro: event_frame_trans)

lemma raise_event_frame: "raise_event ev t pri p s = Inr s' \<Longrightarrow> event_frame s s'"
  by (auto simp: raise_event_def bind_r_Inr_iff split: if_splits
      dest!: event_dest_frame add_epoll_event_frame intro: event_frame_trans)

end
