(* ===== verification/Qepoll.thy ===== *)
theory Qepoll
  imports Tcp_Events
begin

text \<open>
  The event system of \<^verbatim>\<open>qepoll.c\<close>: bounded rings of events between every stack thread and
  every application, one per direction and priority, the routing of an event to its application,
  registration of sockets, and the calls by which an application collects its events.

  The memory that \<^verbatim>\<open>q_init_manager\<close> allocates is addressed by indices: a channel is an index
  into the array of channels, an event queue is addressed by its channel, its priority and its slot
  of the time wheel. Allocation is taken to succeed. The debugging stamps of an event, traces and
  statistics are left out, and so is the sleep of an application thread that found no event. The
  readings of the clock are a sequence in the state.
\<close>

section \<open>Constants and data\<close>

definition NUM_PRI :: nat where "NUM_PRI = 2"
definition QEPOLL_SIZE :: nat where "QEPOLL_SIZE = 6000000"
definition WHEEL_SIZE :: nat where "WHEEL_SIZE = 1"
definition MAX_SERVER_NUM :: int where "MAX_SERVER_NUM = 20"
definition MAX_FLOW_NUM :: nat where "MAX_FLOW_NUM = 14000000"
definition EBADF :: int where "EBADF = 9"
definition SOCK_STREAM :: int where "SOCK_STREAM = 1"

definition Q_EPOLLHUP :: u32 where "Q_EPOLLHUP = 16"

definition Q_EPOLL_CTL_ADD :: int where "Q_EPOLL_CTL_ADD = 1"
definition Q_EPOLL_CTL_DEL :: int where "Q_EPOLL_CTL_DEL = 2"
definition Q_EPOLL_CTL_MOD :: int where "Q_EPOLL_CTL_MOD = 3"

definition STACK_TO_QE :: u8 where "STACK_TO_QE = 1"
definition APP_TO_QE :: u8 where "APP_TO_QE = 2"

lemmas qepoll_consts = NUM_PRI_def WHEEL_SIZE_def STACK_TO_QE_def APP_TO_QE_def
  Q_EPOLL_CTL_ADD_def Q_EPOLL_CTL_DEL_def Q_EPOLL_CTL_MOD_def

text \<open>The fields of \<^verbatim>\<open>struct qepoll_event\<close> beyond those the receive path fills in.\<close>

record qepoll_item = qepoll_event +
  qi_dire :: u8
  qi_events :: u32
  qi_timeout :: int
  qi_data :: u64

record qevent_que =
  eq_start :: nat
  eq_end :: nat
  eq_size :: nat
  eq_qevent :: "qepoll_item list"

record qtimer =
  qt_qItemSize :: "nat \<Rightarrow> int"
  qt_llStartIdx :: "nat \<Rightarrow> int"
  qt_iItemSize :: int
  qt_ullStart :: u64

record chan =
  ch_id :: nat
  ch_src :: nat
  ch_dst :: nat
  ch_qTimeout :: qtimer

record qepoll =
  qp_qfd :: nat
  qp_size :: nat
  qp_sq_chan :: "nat option"
  qp_qs_chan :: "nat option"

record qepoll_manager =
  qm_qe :: qepoll
  qm_sq_chan :: nat
  qm_qs_chan :: nat

record socket_map =
  sm_socktype :: int
  sm_opts :: u32
  sm_qepoll :: u32
  sm_qevents :: u32
  sm_ep_data :: u64

record qevent_reg =
  rg_pr_core :: int
  rg_proc :: bool

text \<open>Channel, priority and slot of the wheel: the address of an event queue.\<close>

type_synonym eque_loc = "nat \<times> nat \<times> nat"

record qepoll_sys =
  qy_num_stack :: nat
  qy_num_server :: nat
  qy_num_app :: nat
  qy_efd :: int
  qy_smap :: "nat \<Rightarrow> socket_map"
  qy_chan :: "nat \<Rightarrow> chan"
  qy_eque :: "eque_loc \<Rightarrow> qevent_que"
  qy_qepoll :: "nat \<Rightarrow> qepoll_manager"
  qy_reg :: "nat \<Rightarrow> qevent_reg"
  qy_qev_count :: "nat \<Rightarrow> nat"
  qy_app_count :: "nat \<Rightarrow> nat"
  qy_clock :: "nat \<Rightarrow> u64"
  qy_ticks :: nat

section \<open>Event queues\<close>

definition EventQueueUsed :: "qevent_que \<Rightarrow> bool" where
  "EventQueueUsed eq \<longleftrightarrow> eq_end eq \<noteq> eq_start eq"

definition EventQueueFull :: "qevent_que \<Rightarrow> bool" where
  "EventQueueFull eq \<longleftrightarrow> (eq_end eq + 1) mod eq_size eq = eq_start eq"

definition zero_item :: qepoll_item where
  "zero_item = \<lparr>qe_pri = 0, qe_core = 0, qe_apid = 0, qe_nature = Q_READ, qe_sockid = 0,
     qi_dire = 0, qi_events = 0, qi_timeout = 0, qi_data = 0\<rparr>"

definition q_create_eque :: "nat \<Rightarrow> qevent_que" where
  "q_create_eque isize = \<lparr>eq_start = 0, eq_end = 0, eq_size = isize, eq_qevent = replicate isize zero_item\<rparr>"

text \<open>
  The end of \<^verbatim>\<open>AddTimeEvent\<close>: the slot under \<^verbatim>\<open>end\<close> is written first and published only if
  the queue is not full. What the slot held in the fields not written stays.
\<close>

definition slot_write :: "u32 \<Rightarrow> u64 \<Rightarrow> qepoll_item \<Rightarrow> qepoll_item \<Rightarrow> qepoll_item" where
  "slot_write event data qevent slot =
     slot\<lparr>qe_pri := qe_pri qevent, qe_sockid := qe_sockid qevent, qi_events := event, qi_data := data,
       qi_dire := qi_dire qevent, qe_apid := qe_apid qevent, qe_core := qe_core qevent\<rparr>"

definition eque_put :: "u32 \<Rightarrow> u64 \<Rightarrow> qepoll_item \<Rightarrow> qevent_que \<Rightarrow> int \<times> qevent_que" where
  "eque_put event data qevent eq =
     (let slot = slot_write event data qevent (eq_qevent eq ! eq_end eq);
          eq1 = eq\<lparr>eq_qevent := (eq_qevent eq)[eq_end eq := slot]\<rparr>
      in if EventQueueFull eq1 then (- 1, eq1)
         else (0, eq1\<lparr>eq_end := (eq_end eq1 + 1) mod eq_size eq1\<rparr>))"

section \<open>Adding events\<close>

definition smap_upd :: "nat \<Rightarrow> (socket_map \<Rightarrow> socket_map) \<Rightarrow> qepoll_sys \<Rightarrow> qepoll_sys" where
  "smap_upd k f y = y\<lparr>qy_smap := (qy_smap y)(k := f (qy_smap y k))\<rparr>"

definition timer_upd :: "nat \<Rightarrow> (qtimer \<Rightarrow> qtimer) \<Rightarrow> qepoll_sys \<Rightarrow> qepoll_sys" where
  "timer_upd c f y = y\<lparr>qy_chan := (qy_chan y)(c := ch_qTimeout_update f (qy_chan y c))\<rparr>"

abbreviation timer_of :: "qepoll_sys \<Rightarrow> nat \<Rightarrow> qtimer" where
  "timer_of y c \<equiv> ch_qTimeout (qy_chan y c)"

definition q_distribute_event :: "qepoll_item \<Rightarrow> bool \<Rightarrow> qepoll_sys \<Rightarrow> (int \<times> qepoll_sys) result" where
  "q_distribute_event qevent proc y =
     (let sockid = qe_sockid qevent
      in if qe_nature qevent \<noteq> Q_ACCEPT \<and> proc
         then if rg_pr_core (qy_reg y sockid) > - 1 then Inr (rg_pr_core (qy_reg y sockid), y) else Inl Exit0
         else let dst = int (qe_apid qevent)
              in Inr (dst, y\<lparr>qy_reg := (qy_reg y)(sockid := \<lparr>rg_pr_core = dst, rg_proc = True\<rparr>)\<rparr>))"

text \<open>
  The channel on which an event travels. Reading past the applications or the channels, or the
  channel of an application that has not called \<^verbatim>\<open>qepoll_create\<close>, is undefined.
\<close>

definition event_chan :: "qepoll_item \<Rightarrow> qepoll_sys \<Rightarrow> (nat \<times> nat \<times> qepoll_sys) result" where
  "event_chan qevent y =
     (let sockid = qe_sockid qevent; core = qe_core qevent; n = qy_num_stack y
      in if qi_dire qevent = STACK_TO_QE
         then bind_r (q_distribute_event qevent (rg_proc (qy_reg y sockid)) y) (\<lambda>(qid, y1).
                if qid < 0 \<or> qid \<ge> int (qy_num_server y1) then Inl Undefined
                else case qp_sq_chan (qm_qe (qy_qepoll y1 (nat qid))) of
                       None \<Rightarrow> Inl Undefined
                     | Some b \<Rightarrow>
                         if b + core \<ge> 2 * n * qy_num_server y1 then Inl Undefined
                         else let ch = qy_chan y1 (b + core)
                              in if ch_src ch = core \<and> int (ch_dst ch) = qid \<and> ch_id ch = core + nat qid * n
                                 then Inr (nat qid, b + core, y1) else Inl Exit0)
         else let qid = qe_apid qevent
              in if qid \<ge> qy_num_server y \<or> n = 0 then Inl Undefined
                 else case qp_qs_chan (qm_qe (qy_qepoll y qid)) of
                        None \<Rightarrow> Inl Undefined
                      | Some b \<Rightarrow> Inr (qid, b + sockid mod n, y))"

text \<open>
  The slot of the time wheel for an event with a timeout. The item of the wheel is taken from a
  ring of \<^verbatim>\<open>QEPOLL_SIZE / num_app\<close> entries in the second half of a buffer of
  \<^verbatim>\<open>MAX_FLOW_NUM / num_server\<close>; writing past that buffer is undefined.
\<close>

definition wheel_slot :: "u64 \<Rightarrow> nat \<Rightarrow> nat \<Rightarrow> nat \<Rightarrow> int \<Rightarrow> qepoll_sys \<Rightarrow> (nat \<times> qepoll_sys) result" where
  "wheel_slot allNow qid c pri timeout y =
     (let cnt = (if qy_app_count y qid \<ge> QEPOLL_SIZE div qy_num_app y then 0 else qy_app_count y qid);
          y1 = y\<lparr>qy_app_count := (qy_app_count y)(qid := cnt + 1)\<rparr>;
          y2 = (if qt_ullStart (timer_of y1 c) = 0
                then timer_upd c (\<lambda>t. t\<lparr>qt_ullStart := allNow,
                       qt_llStartIdx := (qt_llStartIdx t)(pri := 0)\<rparr>) y1
                else y1);
          t = timer_of y2 c; start = qt_ullStart t; expire = allNow + of_int timeout;
          diff = (if allNow < start then 0
                  else if start > expire then 0
                  else if expire - start \<ge> of_int (qt_iItemSize t) then of_int (qt_iItemSize t) - 1
                  else expire - start);
          room = MAX_FLOW_NUM div qy_num_server y - MAX_FLOW_NUM div (2 * qy_num_server y)
      in if qy_num_app y = 0 \<or> qt_qItemSize t pri \<le> 0 \<or> \<not> allNow < start \<and> cnt \<ge> room then Inl Undefined
         else Inr (unat ((of_int (qt_llStartIdx t pri) + diff) mod of_int (qt_qItemSize t pri)), y2))"

definition AddTimeEvent ::
    "u32 \<Rightarrow> u64 \<Rightarrow> qepoll_item \<Rightarrow> socket_table \<Rightarrow> qepoll_sys \<Rightarrow> (int \<times> qepoll_sys) result" where
  "AddTimeEvent event allNow qevent sockets y =
     (let pri = unat (qe_pri qevent); sockid = qe_sockid qevent; k = tb_sockets sockets sockid
      in if sockid \<ge> MAX_FLOW_NUM \<or> pri \<ge> NUM_PRI then Inl Undefined
         else if so_socktype k \<noteq> SOCK_TYPE_LISTENER \<and> so_stream k = NULL then Inl Undefined
         else bind_r (event_chan qevent y) (\<lambda>(qid, c, y1).
              bind_r (if qi_timeout qevent > 0 then wheel_slot allNow qid c pri (qi_timeout qevent) y1
                      else Inr (0, y1)) (\<lambda>(idx, y2).
              let y3 = smap_upd sockid (\<lambda>m. m\<lparr>sm_qepoll := event, sm_qevents := sm_qevents m OR event\<rparr>) y2;
                  (ret, eq) = eque_put event (sm_ep_data (qy_smap y3 sockid)) qevent (qy_eque y3 (c, pri, idx))
              in Inr (ret, y3\<lparr>qy_eque := (qy_eque y3)((c, pri, idx) := eq)\<rparr>))))"

section \<open>Collecting events\<close>

text \<open>
  The oldest event of a queue is handed out if the socket's events intersect its own; it leaves the
  queue in any case. \<open>evs\<close> is what the caller's buffer holds so far.
\<close>

definition event_valid :: "qepoll_sys \<Rightarrow> qepoll_item \<Rightarrow> bool" where
  "event_valid y e \<longleftrightarrow> sm_qepoll (qy_smap y (qe_sockid e)) AND qi_events e \<noteq> 0 \<and> qi_events e \<noteq> 0"

definition qepoll_qevent ::
    "eque_loc \<Rightarrow> qepoll_item list \<Rightarrow> qepoll_sys \<Rightarrow> bool \<times> qepoll_item list \<times> qepoll_sys" where
  "qepoll_qevent l evs y =
     (let eq = qy_eque y l; e = eq_qevent eq ! eq_start eq; sockid = qe_sockid e;
          validity = event_valid y e;
          (evs1, y1) = (if validity
                        then (evs @ [e], y\<lparr>qy_reg := (qy_reg y)(sockid := (qy_reg y sockid)\<lparr>rg_proc := False\<rparr>)\<rparr>)
                        else (evs, y))
      in (validity, evs1,
          y1\<lparr>qy_eque := (qy_eque y1)(l := eq\<lparr>eq_start := (eq_start eq + 1) mod eq_size eq\<rparr>)\<rparr>))"

text \<open>
  The loops over a queue. Every round removes an event, so the number of slots is enough fuel; the
  loop that needs more does not end.
\<close>

fun drain_loop ::
    "nat \<Rightarrow> nat \<Rightarrow> eque_loc \<Rightarrow> qepoll_item list \<Rightarrow> qepoll_sys \<Rightarrow> (qepoll_item list \<times> qepoll_sys) result" where
  "drain_loop fuel maxevents l evs y =
     (if EventQueueUsed (qy_eque y l) \<and> length evs < maxevents
      then (case fuel of
              0 \<Rightarrow> Inl Diverges
            | Suc n \<Rightarrow> (let (_, evs1, y1) = qepoll_qevent l evs y in drain_loop n maxevents l evs1 y1))
      else Inr (evs, y))"

definition drain ::
    "nat \<Rightarrow> eque_loc \<Rightarrow> qepoll_item list \<Rightarrow> qepoll_sys \<Rightarrow> (qepoll_item list \<times> qepoll_sys) result" where
  "drain maxevents l evs y = drain_loop (eq_size (qy_eque y l)) maxevents l evs y"

fun drain_all ::
    "nat \<Rightarrow> eque_loc list \<Rightarrow> qepoll_item list \<Rightarrow> qepoll_sys \<Rightarrow> (qepoll_item list \<times> qepoll_sys) result" where
  "drain_all maxevents [] evs y = Inr (evs, y)"
| "drain_all maxevents (l # ls) evs y =
     bind_r (drain maxevents l evs y) (\<lambda>(evs1, y1). drain_all maxevents ls evs1 y1)"

text \<open>
  After each event of low priority the queues of high priority are served again; \<open>again\<close> is that
  inner loop.
\<close>

fun low_loop ::
    "nat \<Rightarrow> nat \<Rightarrow> eque_loc \<Rightarrow> (qepoll_item list \<Rightarrow> qepoll_sys \<Rightarrow> (qepoll_item list \<times> qepoll_sys) result)
      \<Rightarrow> qepoll_item list \<Rightarrow> qepoll_sys \<Rightarrow> (qepoll_item list \<times> qepoll_sys) result" where
  "low_loop fuel maxevents l again evs y =
     (if EventQueueUsed (qy_eque y l) \<and> length evs < maxevents
      then (case fuel of
              0 \<Rightarrow> Inl Diverges
            | Suc n \<Rightarrow> (let (_, evs1, y1) = qepoll_qevent l evs y
                        in bind_r (again evs1 y1) (\<lambda>(evs2, y2). low_loop n maxevents l again evs2 y2)))
      else Inr (evs, y))"

definition poll_chan ::
    "nat \<Rightarrow> nat \<Rightarrow> qepoll_item list \<Rightarrow> qepoll_sys \<Rightarrow> (qepoll_item list \<times> qepoll_sys) result" where
  "poll_chan maxevents c evs y =
     bind_r (drain maxevents (c, 1, 0) evs y) (\<lambda>(evs1, y1).
     low_loop (eq_size (qy_eque y1 (c, 0, 0))) maxevents (c, 0, 0) (drain maxevents (c, 1, 0)) evs1 y1)"

subsection \<open>The time wheel\<close>

definition GetTickMS :: "qepoll_sys \<Rightarrow> u64 \<times> qepoll_sys" where
  "GetTickMS y = (qy_clock y (qy_ticks y), y\<lparr>qy_ticks := qy_ticks y + 1\<rparr>)"

definition wheel_locs :: "nat \<Rightarrow> nat \<Rightarrow> int \<Rightarrow> qepoll_sys \<Rightarrow> eque_loc list" where
  "wheel_locs c pri cnt y =
     map (\<lambda>i. (c, pri, nat ((qt_llStartIdx (timer_of y c) pri + int i) mod qt_qItemSize (timer_of y c) pri)))
       [0..<nat cnt]"

definition wheel_advance :: "nat \<Rightarrow> nat \<Rightarrow> int \<Rightarrow> qepoll_sys \<Rightarrow> qepoll_sys" where
  "wheel_advance c pri cnt y =
     timer_upd c (\<lambda>t. t\<lparr>qt_llStartIdx := (qt_llStartIdx t)(pri := qt_llStartIdx t pri + (cnt - 1))\<rparr>) y"

definition wheel_high ::
    "nat \<Rightarrow> nat \<Rightarrow> int \<Rightarrow> qepoll_item list \<Rightarrow> qepoll_sys \<Rightarrow> (qepoll_item list \<times> qepoll_sys) result" where
  "wheel_high maxevents c cnt evs y =
     bind_r (drain_all maxevents (wheel_locs c 1 cnt y) evs y) (\<lambda>(evs1, y1). Inr (evs1, wheel_advance c 1 cnt y1))"

fun wheel_low ::
    "nat \<Rightarrow> nat \<Rightarrow> int \<Rightarrow> eque_loc list \<Rightarrow> qepoll_item list \<Rightarrow> qepoll_sys
      \<Rightarrow> (qepoll_item list \<times> qepoll_sys) result" where
  "wheel_low maxevents c cnt [] evs y = Inr (evs, y)"
| "wheel_low maxevents c cnt (l # ls) evs y =
     bind_r (low_loop (eq_size (qy_eque y l)) maxevents l (wheel_high maxevents c cnt) evs y) (\<lambda>(evs1, y1).
     wheel_low maxevents c cnt ls evs1 y1)"

text \<open>
  One channel with a timeout. \<open>False\<close> is the early \<^verbatim>\<open>return 0\<close> of the caller: the clock is
  behind the wheel, or the time since its last turn does not fit into an \<^verbatim>\<open>int\<close>.
\<close>

definition poll_wheel ::
    "nat \<Rightarrow> nat \<Rightarrow> qepoll_item list \<Rightarrow> qepoll_sys \<Rightarrow> (bool \<times> qepoll_item list \<times> qepoll_sys) result" where
  "poll_wheel maxevents c evs y =
     (let (now1, y1) = GetTickMS y
      in if now1 < qt_ullStart (timer_of y1 c) then Inr (False, evs, snd (GetTickMS y1))
         else
           let y2 = (if qt_ullStart (timer_of y1 c) = 0
                     then let (now2, ya) = GetTickMS y1
                          in timer_upd c (\<lambda>t. t\<lparr>qt_ullStart := now2,
                               qt_llStartIdx := (qt_llStartIdx t)(0 := 0, 1 := 0)\<rparr>) ya
                     else y1);
               (now3, y3) = GetTickMS y2; t = timer_of y3 c;
               cnt0 = sint (ucast (now3 - qt_ullStart t + 1) :: 32 word);
               cnt1 = min cnt0 (qt_qItemSize t 1)
           in if cnt1 < 0 then Inr (False, evs, y3)
              else bind_r (wheel_high maxevents c cnt1 evs y3) (\<lambda>(evs4, y4).
                   let cnt2 = min cnt1 (qt_qItemSize (timer_of y4 c) 0)
                   in bind_r (wheel_low maxevents c cnt2 (wheel_locs c 0 cnt2 y4) evs4 y4) (\<lambda>(evs5, y5).
                      let (now6, y6) = GetTickMS y5
                      in Inr (True, evs5, wheel_advance c 0 cnt2 (timer_upd c (\<lambda>t. t\<lparr>qt_ullStart := now6\<rparr>) y6)))))"

subsection \<open>Waiting\<close>

text \<open>
  The channels an application polls: for each stack the one from the stack and the one from the
  application itself. The loop stops at a channel that makes the caller return \<open>0\<close>.
\<close>

definition wait_chans :: "nat \<Rightarrow> nat \<Rightarrow> nat \<Rightarrow> nat list" where
  "wait_chans n sq qs = concat (map (\<lambda>ns. [sq + ns, qs + ns]) [0..<n])"

fun wait_loop ::
    "int \<Rightarrow> nat \<Rightarrow> nat list \<Rightarrow> qepoll_item list \<Rightarrow> qepoll_sys
      \<Rightarrow> (bool \<times> qepoll_item list \<times> qepoll_sys) result" where
  "wait_loop timeout maxevents [] evs y = Inr (True, evs, y)"
| "wait_loop timeout maxevents (c # cs) evs y =
     (if timeout > 0
      then bind_r (poll_wheel maxevents c evs y) (\<lambda>(go, evs1, y1).
             if go then wait_loop timeout maxevents cs evs1 y1 else Inr (False, evs1, y1))
      else bind_r (poll_chan maxevents c evs y) (\<lambda>(evs1, y1). wait_loop timeout maxevents cs evs1 y1))"

text \<open>
  \<open>events\<close> is the caller's buffer; the result has the return value and what was written to it.
  The manager is read before \<^verbatim>\<open>efd\<close> is compared with its range.
  The configured number of stack threads is the one the manager was set up with.
\<close>

definition qepoll_wait ::
    "int \<Rightarrow> ptr \<Rightarrow> int \<Rightarrow> int \<Rightarrow> qepoll_sys \<Rightarrow> (int \<times> qepoll_item list \<times> qepoll_sys) result" where
  "qepoll_wait efd events maxevents timeout y =
     (if efd < 0 \<or> efd \<ge> int (qy_num_server y) then Inl Undefined
      else if efd \<ge> MAX_SERVER_NUM then Inr (- EBADF, [], y)
      else if qy_num_stack y = 0 then Inr (0, [], y)
      else if events = NULL \<or> maxevents \<le> 0 then Inr (- EINVAL, [], y)
      else case (qp_sq_chan (qm_qe (qy_qepoll y (nat efd))), qp_qs_chan (qm_qe (qy_qepoll y (nat efd)))) of
             (Some sq, Some qs) \<Rightarrow>
               bind_r (wait_loop timeout (nat maxevents) (wait_chans (qy_num_stack y) sq qs) [] y) (\<lambda>(go, evs, y1).
                 Inr (if go then int (length evs) else 0, evs, y1))
           | _ \<Rightarrow> Inl Undefined)"

subsection \<open>Explicit priorities\<close>

definition qepoll_mgt_wait ::
    "int \<Rightarrow> ptr \<Rightarrow> int \<Rightarrow> nat \<Rightarrow> qepoll_sys \<Rightarrow> (int \<times> qepoll_item list \<times> qepoll_sys) result" where
  "qepoll_mgt_wait app_id events maxevents pri y =
     (if app_id < 0 \<or> app_id \<ge> int (qy_num_server y) then Inl Undefined
      else if events = NULL \<or> maxevents \<le> 0 then Inr (- EINVAL, [], y)
      else if app_id \<ge> MAX_SERVER_NUM then Inr (- EBADF, [], y)
      else case qp_sq_chan (qm_qe (qy_qepoll y (nat app_id))) of
             None \<Rightarrow> if qy_num_stack y = 0 then Inr (0, [], y) else Inl Undefined
           | Some sq \<Rightarrow>
               bind_r (drain_all (nat maxevents) (map (\<lambda>ns. (sq + ns, pri, 0)) [0..<qy_num_stack y]) [] y)
                 (\<lambda>(evs, y1). Inr (int (length evs), evs, y1)))"

text \<open>
  \<^verbatim>\<open>eg_buf\<close> is the address of the buffer; \<^verbatim>\<open>eg_events\<close> is what the last call left in it, from
  its start.
\<close>

record evmgt_queue =
  eg_buf :: ptr
  eg_events :: "qepoll_item list"
  eg_num :: int
  eg_p :: nat

record event_mgt =
  em_size :: int
  em_lb :: int
  em_events_h :: evmgt_queue
  em_events_l :: evmgt_queue

definition evmgtq_init :: "ptr \<Rightarrow> evmgt_queue" where
  "evmgtq_init buf = \<lparr>eg_buf = buf, eg_events = [], eg_num = 0, eg_p = 0\<rparr>"

definition eventmgt_init :: "ptr \<Rightarrow> ptr \<Rightarrow> int \<Rightarrow> int \<Rightarrow> event_mgt" where
  "eventmgt_init buf_h buf_l maxsize lb =
     \<lparr>em_size = maxsize, em_lb = lb, em_events_h = evmgtq_init buf_h, em_events_l = evmgtq_init buf_l\<rparr>"

definition evmgtq_get :: "evmgt_queue \<Rightarrow> qepoll_item option \<times> evmgt_queue" where
  "evmgtq_get q =
     (if eg_num q \<noteq> 0 \<and> int (eg_p q) < eg_num q
      then (Some (eg_events q ! eg_p q), q\<lparr>eg_p := eg_p q + 1\<rparr>)
      else (None, q))"

definition evmgtq_fetch_events ::
    "evmgt_queue \<Rightarrow> int \<Rightarrow> int \<Rightarrow> nat \<Rightarrow> qepoll_sys \<Rightarrow> (evmgt_queue \<times> qepoll_sys) result" where
  "evmgtq_fetch_events q app_id maxevents pri y =
     bind_r (qepoll_mgt_wait app_id (eg_buf q) maxevents pri y) (\<lambda>(num, evs, y1).
       Inr (q\<lparr>eg_p := 0, eg_num := num, eg_events := evs\<rparr>, y1))"

text \<open>
  The call of the runtime's periodic check before, and the sleep after no event was found, are left
  out.
\<close>

definition eventmgt_get ::
    "int \<Rightarrow> event_mgt \<Rightarrow> qepoll_sys \<Rightarrow> (qepoll_item option \<times> event_mgt \<times> qepoll_sys) result" where
  "eventmgt_get efd mgt y =
     (case evmgtq_get (em_events_h mgt) of
        (Some e, h) \<Rightarrow> Inr (Some e, mgt\<lparr>em_events_h := h\<rparr>, y)
      | (None, _) \<Rightarrow>
          bind_r (evmgtq_fetch_events (em_events_h mgt) efd (em_size mgt) 1 y) (\<lambda>(h1, y1).
          case evmgtq_get h1 of
            (Some e, h2) \<Rightarrow> Inr (Some e, mgt\<lparr>em_events_h := h2\<rparr>, y1)
          | (None, _) \<Rightarrow>
              (case evmgtq_get (em_events_l mgt) of
                 (Some e, l) \<Rightarrow> Inr (Some e, mgt\<lparr>em_events_h := h1, em_events_l := l\<rparr>, y1)
               | (None, _) \<Rightarrow>
                   bind_r (evmgtq_fetch_events (em_events_l mgt) efd (em_lb mgt) 0 y1) (\<lambda>(l1, y2).
                   let (r, l2) = evmgtq_get l1
                   in Inr (r, mgt\<lparr>em_events_h := h1, em_events_l := l2\<rparr>, y2)))))"

section \<open>Registration\<close>

text \<open>
  Sockets and streams belong to the stack thread, whose state is \<open>s\<close>. The handle of application
  \<open>efd\<close> is the address \<open>efd + 1\<close>.
\<close>

definition get_pending_event :: "nat \<Rightarrow> 'h qstack \<Rightarrow> qepoll_event option \<times> 'h qstack" where
  "get_pending_event sockid s =
     (let k = tb_sockets (qs_sockets s) sockid; p = so_stream k
      in if p = NULL then (None, s)
         else if so_socktype k = SOCK_TYPE_STREAM \<and> st_pdev_st (qs_streams s p) = Pdev_WRITEN
         then let (ret, evs) = event_list_pop (st_pending_events (qs_streams s p))
              in (ret, st_upd p (\<lambda>st. st\<lparr>st_pending_events := evs, st_pdev_st := Pdev_READ\<rparr>) s)
         else (None, s))"

text \<open>An event made by \<^verbatim>\<open>CreateQevent\<close> for a stack thread; it has no timeout.\<close>

definition item_of :: "u8 \<Rightarrow> qepoll_event \<Rightarrow> qepoll_item" where
  "item_of dire e = qepoll_event.extend e (qepoll_item.fields dire 0 (- 1) 0)"

text \<open>
  The events a registered socket waits for are announced at once. The mask is read again for the
  second test, after \<^verbatim>\<open>AddTimeEvent\<close> may have changed it.
\<close>

definition add_registered ::
    "nat \<Rightarrow> u64 \<Rightarrow> qepoll_item \<Rightarrow> socket_table \<Rightarrow> qepoll_sys \<Rightarrow> qepoll_sys result" where
  "add_registered fd allNow event sockets y =
     bind_r (if sm_qepoll (qy_smap y fd) AND Q_EPOLLIN \<noteq> 0
             then AddTimeEvent Q_EPOLLIN allNow event sockets y else Inr (0, y)) (\<lambda>(_, y1).
     bind_r (if sm_qepoll (qy_smap y1 fd) AND Q_EPOLLOUT \<noteq> 0
             then AddTimeEvent Q_EPOLLOUT allNow event sockets y1 else Inr (0, y1)) (\<lambda>(_, y2).
     Inr y2))"

definition register_events :: "nat \<Rightarrow> qepoll_item \<Rightarrow> qepoll_sys \<Rightarrow> qepoll_sys" where
  "register_events fd event y =
     smap_upd fd (\<lambda>m. m\<lparr>sm_ep_data := qi_data event,
       sm_qepoll := qi_events event OR (Q_EPOLLERR OR Q_EPOLLHUP)\<rparr>) y"

text \<open>
  The first registration of a socket binds it to the application's handle and delivers the event
  that was waiting for that, if there is one.
\<close>

definition ctl_first ::
    "nat \<Rightarrow> nat \<Rightarrow> u64 \<Rightarrow> 'h qstack \<Rightarrow> qepoll_sys \<Rightarrow> ('h qstack \<times> qepoll_sys) result" where
  "ctl_first efd fd allNow s y =
     (let (_, tb) = bind_socket_with_qe fd (efd + 1) (qs_sockets s);
          (pend, s2) = get_pending_event fd (s\<lparr>qs_sockets := tb\<rparr>)
      in bind_r (case pend of
                   None \<Rightarrow> Inr (0, y)
                 | Some e \<Rightarrow> AddTimeEvent Q_EPOLLIN allNow ((item_of APP_TO_QE e)\<lparr>qe_apid := efd\<rparr>)
                               (qs_sockets s2) y)
           (\<lambda>(_, y1). Inr (s2, smap_upd fd (\<lambda>m. m\<lparr>sm_socktype := 2\<rparr>) y1)))"

definition qepoll_ctl ::
    "int \<Rightarrow> int \<Rightarrow> int \<Rightarrow> qepoll_item option \<Rightarrow> u64 \<Rightarrow> 'h qstack \<Rightarrow> qepoll_sys
      \<Rightarrow> (int \<times> 'h qstack \<times> qepoll_sys) result" where
  "qepoll_ctl efd op fd event allNow s y =
     (let k = nat fd
      in if efd < 0 \<or> efd \<ge> int (qy_num_server y) then Inl Undefined
         else if fd < 0 then Inr (- 1, s, y)
         else if event = None \<and> op \<noteq> Q_EPOLL_CTL_DEL then Inr (- 1, s, y)
         else if k \<ge> MAX_FLOW_NUM then Inl Undefined
         else if op = Q_EPOLL_CTL_ADD
         then (let e = (the event)\<lparr>qe_sockid := k, qe_apid := nat efd\<rparr>; y1 = register_events k e y
               in if sm_socktype (qy_smap y1 k) > 1 \<and> fd > 0
                  then bind_r (add_registered k allNow e (qs_sockets s) y1) (\<lambda>y2. Inr (0, s, y2))
                  else bind_r (ctl_first (nat efd) k allNow s y1) (\<lambda>(s2, y2). Inr (0, s2, y2)))
         else if op = Q_EPOLL_CTL_MOD
         then (let e = the event; y1 = register_events k e y
               in if sm_socktype (qy_smap y1 k) = SOCK_STREAM
                  then bind_r (add_registered k allNow e (qs_sockets s) y1) (\<lambda>y2. Inr (0, s, y2))
                  else Inr (0, s, y1))
         else if op = Q_EPOLL_CTL_DEL
         then if sm_qepoll (qy_smap y k) = 0 then Inr (- 1, s, y)
              else Inr (0, s, smap_upd k (\<lambda>m. m\<lparr>sm_qepoll := Q_EPOLLNONE\<rparr>) y)
         else Inr (0, s, y))"

definition q_free_map :: "nat \<Rightarrow> qepoll_sys \<Rightarrow> qepoll_sys" where
  "q_free_map sockid y =
     smap_upd sockid (\<lambda>m. m\<lparr>sm_socktype := 1, sm_opts := 0, sm_qepoll := 0, sm_qevents := 0\<rparr>) y"

definition qepoll_reset :: "nat \<Rightarrow> qepoll_sys \<Rightarrow> int \<times> qepoll_sys" where
  "qepoll_reset fd y = (0, q_free_map fd y)"

section \<open>Set-up\<close>

definition AllocateSocket :: "int \<Rightarrow> socket_map \<Rightarrow> socket_map" where
  "AllocateSocket socktype m =
     m\<lparr>sm_socktype := socktype, sm_opts := 0, sm_qepoll := 0, sm_qevents := 0, sm_ep_data := 0\<rparr>"

definition q_alloc_timeout :: "nat \<Rightarrow> qtimer" where
  "q_alloc_timeout qSize =
     \<lparr>qt_qItemSize = (\<lambda>_. int qSize), qt_llStartIdx = (\<lambda>_. 0), qt_iItemSize = int qSize, qt_ullStart = 0\<rparr>"

definition q_alloc_achan :: "nat \<Rightarrow> nat \<Rightarrow> nat \<Rightarrow> chan" where
  "q_alloc_achan s a i =
     (if i < s * a
      then \<lparr>ch_id = i, ch_src = i mod s, ch_dst = i div s, ch_qTimeout = q_alloc_timeout WHEEL_SIZE\<rparr>
      else let j = i - s * a
           in \<lparr>ch_id = i, ch_src = j div s, ch_dst = j mod s, ch_qTimeout = q_alloc_timeout WHEEL_SIZE\<rparr>)"

definition qepoll_manager_init :: "nat \<Rightarrow> nat \<Rightarrow> nat \<Rightarrow> qepoll_manager" where
  "qepoll_manager_init num_stack num_server i =
     \<lparr>qm_qe = \<lparr>qp_qfd = i, qp_size = 0, qp_sq_chan = None, qp_qs_chan = None\<rparr>,
      qm_sq_chan = num_stack * i, qm_qs_chan = num_stack * (num_server + i)\<rparr>"

definition q_init_manager :: "nat \<Rightarrow> nat \<Rightarrow> (nat \<Rightarrow> u64) \<Rightarrow> qepoll_sys" where
  "q_init_manager stack server clock =
     \<lparr>qy_num_stack = stack, qy_num_server = server, qy_num_app = 1, qy_efd = - 1,
      qy_smap = (\<lambda>_. AllocateSocket 1 \<lparr>sm_socktype = 0, sm_opts = 0, sm_qepoll = 0, sm_qevents = 0, sm_ep_data = 0\<rparr>),
      qy_chan = q_alloc_achan stack server,
      qy_eque = (\<lambda>_. q_create_eque (QEPOLL_SIZE div server div stack)),
      qy_qepoll = qepoll_manager_init stack server,
      qy_reg = (\<lambda>_. \<lparr>rg_pr_core = - 1, rg_proc = False\<rparr>),
      qy_qev_count = (\<lambda>_. 0), qy_app_count = (\<lambda>_. 0), qy_clock = clock, qy_ticks = 0\<rparr>"

text \<open>
  A new handle. The counter of handles is not compared with the number of applications; reading
  past them is undefined. \<open>conc\<close> and \<open>apps\<close> are the configured concurrency and number of
  application threads.
\<close>

definition qepoll_create :: "nat \<Rightarrow> nat \<Rightarrow> u32 \<Rightarrow> qepoll_sys \<Rightarrow> (int \<times> qepoll_sys) result" where
  "qepoll_create conc apps sz y =
     (if sz = 0 then Inr (- 1, y)
      else let qid = qy_efd y + 1
           in if qid < 0 \<or> qid \<ge> int (qy_num_server y) then Inl Undefined
              else let m = qy_qepoll y (nat qid)
                   in Inr (qid, y\<lparr>qy_efd := qid, qy_qepoll := (qy_qepoll y)(nat qid :=
                        m\<lparr>qm_qe := (qm_qe m)\<lparr>qp_size := conc div apps, qp_sq_chan := Some (qm_sq_chan m),
                            qp_qs_chan := Some (qm_qs_chan m)\<rparr>\<rparr>)\<rparr>))"

text \<open>
  \<^verbatim>\<open>CreateQevent\<close> takes an event from the ring of its thread; the result is the number of the
  event in that ring. The ring of an application starts in the middle of its buffer of
  \<^verbatim>\<open>QEPOLL_SIZE / num_server\<close> events and its counter wraps at \<^verbatim>\<open>QEPOLL_SIZE / num_app\<close>.
\<close>

definition CreateQevent_slot :: "nat \<Rightarrow> qepoll_sys \<Rightarrow> nat \<times> qepoll_sys" where
  "CreateQevent_slot core y =
     (if core \<ge> qy_num_stack y
      then let qid = core - qy_num_stack y;
               n = (if qy_app_count y qid \<ge> QEPOLL_SIZE div qy_num_app y then 0 else qy_app_count y qid)
           in (n, y\<lparr>qy_app_count := (qy_app_count y)(qid := n + 1)\<rparr>)
      else let n = (if qy_qev_count y core \<ge> QEPOLL_SIZE div qy_num_stack y then 0 else qy_qev_count y core)
           in (n, y\<lparr>qy_qev_count := (qy_qev_count y)(core := n + 1)\<rparr>))"

section \<open>Queues as lists\<close>

definition eque_wf :: "qevent_que \<Rightarrow> bool" where
  "eque_wf eq \<longleftrightarrow> eq_start eq < eq_size eq \<and> eq_end eq < eq_size eq \<and> length (eq_qevent eq) = eq_size eq"

definition eque_count :: "qevent_que \<Rightarrow> nat" where
  "eque_count eq = (eq_end eq + eq_size eq - eq_start eq) mod eq_size eq"

definition eque_list :: "qevent_que \<Rightarrow> qepoll_item list" where
  "eque_list eq = ring_slice (eq_qevent eq) (eq_start eq) (eque_count eq)"

abbreviation eque_drop :: "qevent_que \<Rightarrow> qevent_que" where
  "eque_drop eq \<equiv> eq\<lparr>eq_start := (eq_start eq + 1) mod eq_size eq\<rparr>"

lemma eque_count_less: "eque_wf eq \<Longrightarrow> eque_count eq < eq_size eq"
  by (simp add: eque_count_def eque_wf_def)

lemma eque_end_count: "eque_wf eq \<Longrightarrow> (eq_start eq + eque_count eq) mod eq_size eq = eq_end eq"
  by (simp add: eque_count_def eque_wf_def mod_add_right_eq)

lemma length_eque_list [simp]: "length (eque_list eq) = eque_count eq"
  by (simp add: eque_list_def)

lemma eque_count_0: "eque_wf eq \<Longrightarrow> eque_count eq = 0 \<longleftrightarrow> \<not> EventQueueUsed eq"
proof
  assume "eque_wf eq" "eque_count eq = 0"
  then show "\<not> EventQueueUsed eq" using eque_end_count [of eq] by (simp add: EventQueueUsed_def eque_wf_def)
qed (simp add: eque_count_def EventQueueUsed_def eque_wf_def)

lemma EventQueueUsed_iff: "eque_wf eq \<Longrightarrow> EventQueueUsed eq \<longleftrightarrow> eque_list eq \<noteq> []"
  using eque_count_0 [of eq] length_eque_list [of eq] by (metis length_0_conv)

lemma EventQueueFull_iff: "eque_wf eq \<Longrightarrow> EventQueueFull eq \<longleftrightarrow> eque_count eq = eq_size eq - 1"
proof -
  assume wf: "eque_wf eq"
  then have n: "eque_count eq < eq_size eq" "eq_start eq < eq_size eq"
    by (simp_all add: eque_count_less eque_wf_def)
  have "(eq_end eq + 1) mod eq_size eq = (eq_start eq + Suc (eque_count eq)) mod eq_size eq"
    using eque_end_count [OF wf] by (metis Suc_eq_plus1 add_Suc_right mod_Suc_eq)
  also have "\<dots> = eq_start eq \<longleftrightarrow> Suc (eque_count eq) = eq_size eq"
  proof (cases "Suc (eque_count eq) = eq_size eq")
    case False
    then show ?thesis using n mod_add_inj [of "Suc (eque_count eq)" "eq_size eq" 0 "eq_start eq"] by simp
  qed (use n in simp)
  finally show ?thesis using n by (auto simp: EventQueueFull_def)
qed

lemma eque_list_Cons:
  assumes "eque_wf eq" "EventQueueUsed eq"
  shows "eque_list eq = eq_qevent eq ! eq_start eq # eque_list (eque_drop eq)" "eque_wf (eque_drop eq)"
proof -
  let ?d = "eque_drop eq"
  have pos: "0 < eq_size eq" "eq_start eq < eq_size eq" using assms(1) by (auto simp: eque_wf_def)
  show wf: "eque_wf ?d" using assms(1) pos by (simp add: eque_wf_def)
  obtain m where m: "eque_count eq = Suc m"
    using assms by (metis eque_count_0 not0_implies_Suc)
  have "(eq_start eq + Suc m) mod eq_size eq = eq_end eq" using eque_end_count [OF assms(1)] m by simp
  moreover have "(eq_start ?d + eque_count ?d) mod eq_size eq = eq_end eq" using eque_end_count [OF wf] by simp
  ultimately have "((eq_start eq + 1) + m) mod eq_size eq = ((eq_start eq + 1) + eque_count ?d) mod eq_size eq"
    by (simp add: mod_add_left_eq)
  then have "eque_count ?d = m"
    using mod_add_inj [of m "eq_size eq" "eque_count ?d" "eq_start eq + 1"] eque_count_less [OF wf] eque_count_less [OF assms(1)] m
    by simp
  then show "eque_list eq = eq_qevent eq ! eq_start eq # eque_list ?d"
    using m assms(1) by (simp add: eque_list_def ring_slice_Suc eque_wf_def)
qed

lemma eque_put_cases:
  assumes "eque_wf eq"
  shows "eque_count eq < eq_size eq - 1 \<Longrightarrow> fst (eque_put event data q eq) = 0
      \<and> eque_list (snd (eque_put event data q eq))
        = eque_list eq @ [slot_write event data q (eq_qevent eq ! eq_end eq)]"
    and "eque_count eq = eq_size eq - 1 \<Longrightarrow> fst (eque_put event data q eq) = - 1
      \<and> eque_list (snd (eque_put event data q eq)) = eque_list eq"
    and "eque_wf (snd (eque_put event data q eq))" "eq_size (snd (eque_put event data q eq)) = eq_size eq"
proof -
  let ?x = "slot_write event data q (eq_qevent eq ! eq_end eq)"
  let ?q1 = "eq\<lparr>eq_qevent := (eq_qevent eq)[eq_end eq := ?x]\<rparr>"
  let ?q2 = "?q1\<lparr>eq_end := (eq_end eq + 1) mod eq_size eq\<rparr>"
  have wf1: "eque_wf ?q1" and wf2: "eque_wf ?q2" and len: "length (eq_qevent eq) = eq_size eq"
    using assms by (auto simp: eque_wf_def)
  have full: "EventQueueFull ?q1 \<longleftrightarrow> eque_count eq = eq_size eq - 1"
    using EventQueueFull_iff [OF wf1] by (simp add: eque_count_def)
  have upd: "(eq_qevent eq)[eq_end eq := ?x]
      = (eq_qevent eq)[(eq_start eq + eque_count eq) mod length (eq_qevent eq) := ?x]"
    using eque_end_count [OF assms] len by simp
  have l1: "eque_list ?q1 = eque_list eq"
    using ring_slice_update_other [of "eque_count eq" "eq_qevent eq" "eq_start eq" ?x] upd
      eque_count_less [OF assms] len by (simp add: eque_list_def eque_count_def)
  have c2: "eque_count ?q2 = Suc (eque_count eq)" if "eque_count eq < eq_size eq - 1"
  proof -
    have "(eq_start eq + eque_count ?q2) mod eq_size eq = (eq_start eq + Suc (eque_count eq)) mod eq_size eq"
      using eque_end_count [OF wf2] eque_end_count [OF assms]
      by (simp, metis Suc_eq_plus1 add_Suc_right mod_Suc_eq)
    then show ?thesis
      using that eque_count_less [OF wf2] mod_add_inj [of "eque_count ?q2" "eq_size eq" "Suc (eque_count eq)"]
      by simp
  qed
  have l2: "eque_list ?q2 = eque_list eq @ [?x]" if "eque_count eq < eq_size eq - 1"
    using ring_slice_update_snoc [of "eque_count eq" "eq_qevent eq" "eq_start eq" ?x] upd c2 [OF that]
      eque_count_less [OF assms] len by (simp add: eque_list_def)
  show "eque_count eq < eq_size eq - 1 \<Longrightarrow> fst (eque_put event data q eq) = 0
      \<and> eque_list (snd (eque_put event data q eq)) = eque_list eq @ [?x]"
    using full l2 by (simp add: eque_put_def Let_def)
  show "eque_count eq = eq_size eq - 1 \<Longrightarrow> fst (eque_put event data q eq) = - 1
      \<and> eque_list (snd (eque_put event data q eq)) = eque_list eq"
    using full l1 by (simp add: eque_put_def Let_def)
  show "eque_wf (snd (eque_put event data q eq))" "eq_size (snd (eque_put event data q eq)) = eq_size eq"
    using wf1 wf2 by (simp_all add: eque_put_def Let_def)
qed

end
