(* ===== verification/Event_Delivery.thy ===== *)
theory Event_Delivery
  imports Qepoll
begin

text \<open>
  What an application receives from the event system of theory \<open>Qepoll\<close>. A call that collects
  events works on a list of event queues; \<open>served\<close> states what it returns and what it leaves
  behind in terms of the lists these queues hold, and composes along the list of queues.
\<close>

section \<open>Serving a list of queues\<close>

declare split_paired_All [simp del]

definition ques_wf :: "qepoll_sys \<Rightarrow> bool" where
  "ques_wf y \<longleftrightarrow> (\<forall>l. eque_wf (qy_eque y l))"

definition queued :: "qepoll_sys \<Rightarrow> eque_loc list \<Rightarrow> qepoll_item list" where
  "queued y ls = concat (map (\<lambda>l. eque_list (qy_eque y l)) ls)"

definition poll_frame :: "qepoll_sys \<Rightarrow> qepoll_sys \<Rightarrow> bool" where
  "poll_frame y y' \<longleftrightarrow> y' = y\<lparr>qy_eque := qy_eque y', qy_reg := qy_reg y'\<rparr>
     \<and> (\<forall>k. rg_pr_core (qy_reg y' k) = rg_pr_core (qy_reg y k)
          \<and> (rg_proc (qy_reg y' k) \<longrightarrow> rg_proc (qy_reg y k)))"

definition served ::
    "nat \<Rightarrow> eque_loc list \<Rightarrow> qepoll_item list \<Rightarrow> qepoll_sys \<Rightarrow> qepoll_item list \<Rightarrow> qepoll_sys \<Rightarrow> bool" where
  "served m ls evs y evs' y' \<longleftrightarrow>
     ques_wf y' \<and> qy_smap y' = qy_smap y \<and> (\<forall>l. l \<notin> set ls \<longrightarrow> qy_eque y' l = qy_eque y l)
     \<and> evs' = evs @ take (m - length evs) (filter (event_valid y) (queued y ls))
     \<and> filter (event_valid y) (queued y' ls) = drop (m - length evs) (filter (event_valid y) (queued y ls))
     \<and> (length evs' < m \<longrightarrow> queued y' ls = [])"

lemma ques_wfD: "ques_wf y \<Longrightarrow> eque_wf (qy_eque y l)"
  by (simp add: ques_wf_def)

lemma event_valid_cong: "qy_smap y' = qy_smap y \<Longrightarrow> event_valid y' = event_valid y"
  by (rule ext) (simp add: event_valid_def)

lemma queued_simps [simp]:
  "queued y [] = []" "queued y (l # ls) = eque_list (qy_eque y l) @ queued y ls"
  "queued y (ls @ ls') = queued y ls @ queued y ls'"
  by (simp_all add: queued_def)

lemma queued_cong: "\<forall>l\<in>set ls. qy_eque y' l = qy_eque y l \<Longrightarrow> queued y' ls = queued y ls"
  by (induction ls) simp_all

lemma queued_mono:
  "(\<And>l. set (eque_list (qy_eque y l)) \<subseteq> set (eque_list (qy_eque y' l))) \<Longrightarrow> set (queued y ls) \<subseteq> set (queued y' ls)"
  unfolding queued_def set_concat set_map image_image by (rule UN_mono) simp_all

lemma poll_frame_refl [simp]: "poll_frame y y"
  by (simp add: poll_frame_def)

lemma poll_frame_trans [trans]: "poll_frame y y1 \<Longrightarrow> poll_frame y1 y2 \<Longrightarrow> poll_frame y y2"
  by (cases y, cases y1, cases y2) (simp add: poll_frame_def)

lemma poll_frame_fields:
  assumes "poll_frame y y'"
  shows "qy_smap y' = qy_smap y" "qy_chan y' = qy_chan y" "qy_qepoll y' = qy_qepoll y"
    "qy_ticks y' = qy_ticks y" "qy_clock y' = qy_clock y" "qy_num_stack y' = qy_num_stack y"
    "qy_num_server y' = qy_num_server y"
  using assms by (cases y; cases y'; simp add: poll_frame_def)+

lemma served_Nil: "ques_wf y \<Longrightarrow> served m [] evs y evs y"
  by (simp add: served_def)

lemma served_append:
  assumes "served m ls evs y evs1 y1" "served m ls' evs1 y1 evs2 y2" "set ls \<inter> set ls' = {}"
  shows "served m (ls @ ls') evs y evs2 y2"
proof -
  let ?f = "filter (event_valid y)"
  note v = event_valid_cong [of y1 y] and s1 = assms(1) [unfolded served_def] and s2 = assms(2) [unfolded served_def]
  have q: "queued y1 ls' = queued y ls'" "queued y2 ls = queued y1 ls"
    using s1 s2 assms(3) by (intro queued_cong ballI; blast)+
  have n: "m - length evs1 = m - length evs - length (?f (queued y ls))"
    using s1 by simp
  show ?thesis
    unfolding served_def using s1 s2 v q n by (auto simp: served_def)
qed

lemma queue_step:
  assumes wf: "ques_wf y" and used: "EventQueueUsed (qy_eque y l)" and room: "length evs < m"
    and step: "qepoll_qevent l evs y = (v, evs1, y1)"
  shows "ques_wf y1" "poll_frame y y1" "\<forall>k. k \<noteq> l \<longrightarrow> qy_eque y1 k = qy_eque y k"
    "\<exists>e. eque_list (qy_eque y l) = e # eque_list (qy_eque y1 l)
       \<and> evs1 = (if event_valid y e then evs @ [e] else evs)"
proof -
  note c = eque_list_Cons [OF _ used]
  have w: "eque_wf (qy_eque y l)" using wf by (simp add: ques_wf_def)
  show "ques_wf y1" "\<forall>k. k \<noteq> l \<longrightarrow> qy_eque y1 k = qy_eque y k"
    "\<exists>e. eque_list (qy_eque y l) = e # eque_list (qy_eque y1 l)
       \<and> evs1 = (if event_valid y e then evs @ [e] else evs)"
    using c [OF w] wf step by (auto simp: qepoll_qevent_def ques_wf_def Let_def split: if_splits)
  show "poll_frame y y1"
    using step by (cases y) (auto simp: qepoll_qevent_def poll_frame_def Let_def split: if_splits)
qed

declare drain_loop.simps [simp del] low_loop.simps [simp del]

lemma served_stop:
  assumes "ques_wf y" "\<not> (EventQueueUsed (qy_eque y l) \<and> length evs < m)"
  shows "served m [l] evs y evs y"
proof -
  have "eque_list (qy_eque y l) = [] \<or> m - length evs = 0"
    using assms EventQueueUsed_iff [OF ques_wfD] by auto
  then show ?thesis using assms(1) by (auto simp: served_def)
qed

lemma served_step:
  assumes rest: "served m [l] evs1 y1 evs' y'" and y1: "qy_smap y1 = qy_smap y"
    "\<forall>k. k \<noteq> l \<longrightarrow> qy_eque y1 k = qy_eque y k"
    and e: "eque_list (qy_eque y l) = e # eque_list (qy_eque y1 l)"
      "evs1 = (if event_valid y e then evs @ [e] else evs)" and room: "length evs < m"
  shows "served m [l] evs y evs' y'"
proof -
  obtain n where n: "m - length evs = Suc n" using room by (metis Suc_diff_Suc)
  then have "m - Suc (length evs) = n" by simp
  then show ?thesis
    using rest y1 e n event_valid_cong [OF y1(1)] by (auto simp: served_def)
qed

lemma drain_loop_served:
  "ques_wf y \<Longrightarrow> eque_count (qy_eque y l) \<le> fuel \<Longrightarrow>
   \<exists>evs' y'. drain_loop fuel m l evs y = Inr (evs', y') \<and> served m [l] evs y evs' y' \<and> poll_frame y y'
     \<and> \<not> (EventQueueUsed (qy_eque y' l) \<and> length evs' < m)"
proof (induction fuel arbitrary: evs y)
  case 0
  then have "\<not> EventQueueUsed (qy_eque y l)" by (simp add: eque_count_0 ques_wfD)
  then show ?case using 0 served_stop [of y l evs m] by (simp add: drain_loop.simps [of 0])
next
  case (Suc n)
  show ?case
  proof (cases "EventQueueUsed (qy_eque y l) \<and> length evs < m")
    case False
    then show ?thesis using served_stop [OF Suc.prems(1) False]
      by (auto simp: drain_loop.simps [of "Suc n"])
  next
    case True
    obtain v evs1 y1 where st: "qepoll_qevent l evs y = (v, evs1, y1)" by (cases "qepoll_qevent l evs y")
    note q = queue_step [OF Suc.prems(1) conjunct1 [OF True] conjunct2 [OF True] st]
    obtain e where e: "eque_list (qy_eque y l) = e # eque_list (qy_eque y1 l)"
      "evs1 = (if event_valid y e then evs @ [e] else evs)" using q(4) by blast
    have "eque_count (qy_eque y1 l) \<le> n"
      using arg_cong [OF e(1), of length] Suc.prems(2) by simp
    from Suc.IH [OF q(1) this, of evs1] obtain evs' y' where
      r: "drain_loop n m l evs1 y1 = Inr (evs', y')" "served m [l] evs1 y1 evs' y'" "poll_frame y1 y'"
        "\<not> (EventQueueUsed (qy_eque y' l) \<and> length evs' < m)" by blast
    have "served m [l] evs y evs' y'"
      using served_step [OF r(2) _ q(3) e] q(2) True by (simp add: poll_frame_fields)
    then show ?thesis
      using r st True poll_frame_trans [OF q(2) r(3)] by (simp add: drain_loop.simps [of "Suc n"])
  qed
qed

lemma drain_served:
  assumes "ques_wf y"
  shows "\<exists>evs' y'. drain m l evs y = Inr (evs', y') \<and> served m [l] evs y evs' y' \<and> poll_frame y y'
     \<and> \<not> (EventQueueUsed (qy_eque y' l) \<and> length evs' < m)"
  unfolding drain_def using assms eque_count_less [of "qy_eque y l"]
  by (intro drain_loop_served) (auto simp: ques_wfD)

lemma drain_idle: "\<not> (EventQueueUsed (qy_eque y l) \<and> length evs < m) \<Longrightarrow> drain m l evs y = Inr (evs, y)"
  by (auto simp: drain_def drain_loop.simps)

lemma drain_all_served:
  "ques_wf y \<Longrightarrow> distinct ls \<Longrightarrow>
   \<exists>evs' y'. drain_all m ls evs y = Inr (evs', y') \<and> served m ls evs y evs' y' \<and> poll_frame y y'"
proof (induction ls arbitrary: evs y)
  case (Cons l ls)
  obtain evs1 y1 where 1: "drain m l evs y = Inr (evs1, y1)" "served m [l] evs y evs1 y1" "poll_frame y y1"
    using drain_served [OF Cons.prems(1)] by blast
  then have "ques_wf y1" by (simp add: served_def)
  with Cons obtain evs2 y2 where 2: "drain_all m ls evs1 y1 = Inr (evs2, y2)" "served m ls evs1 y1 evs2 y2"
    "poll_frame y1 y2" by fastforce
  show ?case
    using 1 2 served_append [OF 1(2) 2(2)] poll_frame_trans [OF 1(3) 2(3)] Cons.prems(2) by simp
qed (simp add: served_Nil)

text \<open>
  Once the queue of high priority is drained, serving it again after each event of low priority does
  nothing as long as no event arrives meanwhile.
\<close>

lemma low_loop_drains:
  assumes again: "\<And>evs y. qy_chan y = ch \<Longrightarrow> \<not> EventQueueUsed (qy_eque y h) \<Longrightarrow> again evs y = Inr (evs, y)"
    and "h \<noteq> l"
  shows "qy_chan y = ch \<Longrightarrow> \<not> EventQueueUsed (qy_eque y h) \<or> m \<le> length evs \<Longrightarrow>
    low_loop fuel m l again evs y = drain_loop fuel m l evs y"
proof (induction fuel arbitrary: evs y)
  case (Suc n)
  obtain v evs1 y1 where st: "qepoll_qevent l evs y = (v, evs1, y1)" by (cases "qepoll_qevent l evs y")
  have "qy_eque y1 h = qy_eque y h" "qy_chan y1 = qy_chan y"
    using st assms(2) by (auto simp: qepoll_qevent_def Let_def split: if_splits)
  then show ?case
    using Suc st again by (auto simp: low_loop.simps [of "Suc n"] drain_loop.simps [of "Suc n"])
qed (simp add: low_loop.simps drain_loop.simps)

section \<open>One channel\<close>

definition chan_ques :: "nat \<Rightarrow> eque_loc list" where
  "chan_ques c = [(c, 1, 0), (c, 0, 0)]"

lemma poll_chan_served:
  assumes "ques_wf y"
  shows "\<exists>evs' y'. poll_chan m c evs y = Inr (evs', y') \<and> served m (chan_ques c) evs y evs' y' \<and> poll_frame y y'"
proof -
  let ?h = "(c, 1 :: nat, 0 :: nat)" and ?l = "(c, 0 :: nat, 0 :: nat)"
  obtain evs1 y1 where 1: "drain m ?h evs y = Inr (evs1, y1)" "served m [?h] evs y evs1 y1" "poll_frame y y1"
    "\<not> (EventQueueUsed (qy_eque y1 ?h) \<and> length evs1 < m)"
    using drain_served [OF assms] by blast
  then have wf1: "ques_wf y1" by (simp add: served_def)
  obtain evs2 y2 where 2: "drain m ?l evs1 y1 = Inr (evs2, y2)" "served m [?l] evs1 y1 evs2 y2" "poll_frame y1 y2"
    using drain_served [OF wf1] by blast
  have "low_loop (eq_size (qy_eque y1 ?l)) m ?l (drain m ?h) evs1 y1 = drain m ?l evs1 y1"
    unfolding drain_def [of m ?l] using 1(4) by (intro low_loop_drains [where h = ?h, OF _ _ refl]) (auto simp: drain_idle)
  then show ?thesis
    using 1(1) 2 served_append [OF 1(2) 2(2)] poll_frame_trans [OF 1(3) 2(3)]
    by (simp add: poll_chan_def chan_ques_def)
qed

definition ques_of :: "nat list \<Rightarrow> eque_loc list" where
  "ques_of cs = concat (map chan_ques cs)"

lemma ques_of_simps [simp]: "ques_of [] = []" "ques_of (c # cs) = chan_ques c @ ques_of cs"
  by (simp_all add: ques_of_def)

lemma fst_ques_of: "l \<in> set (ques_of cs) \<Longrightarrow> fst l \<in> set cs"
  by (induction cs) (auto simp: chan_ques_def)

lemma ques_of_disjoint: "c \<notin> set cs \<Longrightarrow> set (chan_ques c) \<inter> set (ques_of cs) = {}"
  using fst_ques_of by (fastforce simp: chan_ques_def)

lemma wait_loop_served:
  "ques_wf y \<Longrightarrow> distinct cs \<Longrightarrow> timeout \<le> 0 \<Longrightarrow>
   \<exists>evs' y'. wait_loop timeout m cs evs y = Inr (True, evs', y') \<and> served m (ques_of cs) evs y evs' y'
     \<and> poll_frame y y'"
proof (induction cs arbitrary: evs y)
  case (Cons c cs)
  obtain evs1 y1 where 1: "poll_chan m c evs y = Inr (evs1, y1)" "served m (chan_ques c) evs y evs1 y1"
    "poll_frame y y1" using poll_chan_served [OF Cons.prems(1)] by blast
  then have "ques_wf y1" by (simp add: served_def)
  with Cons obtain evs2 y2 where 2: "wait_loop timeout m cs evs1 y1 = Inr (True, evs2, y2)"
    "served m (ques_of cs) evs1 y1 evs2 y2" "poll_frame y1 y2" by fastforce
  show ?case
    using 1(1) 2(1) served_append [OF 1(2) 2(2) ques_of_disjoint] poll_frame_trans [OF 1(3) 2(3)] Cons.prems
    by simp
qed (simp add: served_Nil)

section \<open>The time wheel\<close>

text \<open>
  The wheel is built with a single slot, so a wait with a timeout serves the same queues, provided
  the clock does not go back and fewer than \<open>2 ^ 31 - 1\<close> milliseconds pass between the turns of
  a wheel. \<open>b\<close> is a time before all of them.
\<close>

definition one_slot :: "qepoll_sys \<Rightarrow> bool" where
  "one_slot y \<longleftrightarrow> (\<forall>c p. qt_qItemSize (timer_of y c) p = 1)"

definition clock_ok :: "u64 \<Rightarrow> qepoll_sys \<Rightarrow> bool" where
  "clock_ok b y \<longleftrightarrow> 0 < b \<and> (\<forall>i. b \<le> qy_clock y i \<and> unat (qy_clock y i) < unat b + (2 ^ 31 - 1)
       \<and> qy_clock y i \<le> qy_clock y (Suc i))
     \<and> (\<forall>c. qt_ullStart (timer_of y c) = 0
          \<or> b \<le> qt_ullStart (timer_of y c) \<and> qt_ullStart (timer_of y c) \<le> qy_clock y (qy_ticks y))"

lemma clock_mono: "clock_ok b y \<Longrightarrow> i \<le> j \<Longrightarrow> qy_clock y i \<le> qy_clock y j"
  by (rule lift_Suc_mono_le [of "qy_clock y"]) (auto simp: clock_ok_def)

lemma clock_ok_turn:
  assumes "clock_ok b y" "qy_ticks y \<le> qy_ticks y'" "\<And>d. d \<noteq> c \<Longrightarrow> timer_of y' d = timer_of y d"
    "qy_clock y' = qy_clock y" "b \<le> qt_ullStart (timer_of y' c)"
    "qt_ullStart (timer_of y' c) \<le> qy_clock y (qy_ticks y')"
  shows "clock_ok b y'"
proof -
  have "qt_ullStart (timer_of y' d) = 0
      \<or> b \<le> qt_ullStart (timer_of y' d) \<and> qt_ullStart (timer_of y' d) \<le> qy_clock y (qy_ticks y')" for d
  proof (cases "d = c")
    case False
    then show ?thesis
      using assms(1,3) order_trans [OF _ clock_mono [OF assms(1,2)]] by (auto simp: clock_ok_def)
  qed (use assms(5,6) in simp)
  then show ?thesis using assms(1,4) unfolding clock_ok_def by metis
qed

lemma wheel_locs_one: "one_slot y \<Longrightarrow> wheel_locs c p 1 y = [(c, p, 0)]"
  by (simp add: wheel_locs_def one_slot_def)

lemma wheel_advance_one: "wheel_advance c p 1 y = y"
proof -
  have "ch_qTimeout_update (\<lambda>t. t) (qy_chan y c) = qy_chan y c" by (cases "qy_chan y c") simp
  then have "(qy_chan y)(c := ch_qTimeout_update (\<lambda>t. t) (qy_chan y c)) = qy_chan y" by (metis fun_upd_triv)
  then show ?thesis by (simp add: wheel_advance_def timer_upd_def)
qed

lemma wheel_high_one: "one_slot y \<Longrightarrow> wheel_high m c 1 evs y = drain m (c, 1, 0) evs y"
  by (cases "drain m (c, 1, 0) evs y") (auto simp: wheel_high_def wheel_locs_one wheel_advance_one)

lemma sint_ucast_small: "unat (w :: u64) < 2 ^ 31 \<Longrightarrow> sint (ucast w :: 32 word) = int (unat w)"
proof -
  assume "unat w < 2 ^ 31"
  then have "int (unat w) < int (2 ^ 31)" by (simp only: of_nat_less_iff)
  then have u: "0 \<le> uint w" "uint w < 2 ^ 31" by simp_all
  then have "take_bit 32 (uint w) = uint w" "signed_take_bit 31 (uint w) = uint w"
    using signed_take_bit_int_eq_self [of 31 "uint w", OF order_trans [OF _ u(1)]]
    by (simp_all add: take_bit_int_eq_self)
  then show ?thesis by (simp add: sint_uint unsigned_ucast_eq)
qed

lemma wheel_turns:
  assumes "b \<le> start" "start \<le> now" "unat (now :: u64) < unat b + (2 ^ 31 - 1)"
  shows "min (sint (ucast (now - start + 1) :: 32 word)) 1 = 1"
proof -
  have "unat (now - start) = unat now - unat start" "unat b \<le> unat start"
    using assms by (simp_all add: word_le_nat_alt unat_sub)
  then have d: "unat (now - start) < 2 ^ 31 - 1" using assms(3) by auto
  then have "unat (now - start + 1) = unat (now - start) + 1"
    by (simp add: unat_word_ariths)
  then have "sint (ucast (now - start + 1) :: 32 word) = int (unat (now - start)) + 1"
    using d by (subst sint_ucast_small) auto
  then show ?thesis by simp
qed

lemma served_cong:
  assumes "served m ls evs y evs' y'" "qy_smap x = qy_smap y" "qy_eque x = qy_eque y"
    "qy_smap x' = qy_smap y'" "qy_eque x' = qy_eque y'"
  shows "served m ls evs x evs' x'"
proof -
  have "queued x = queued y" "queued x' = queued y'" by (rule ext, simp add: queued_def assms)+
  then show ?thesis
    using assms event_valid_cong [OF assms(2)] by (simp add: served_def ques_wf_def)
qed

lemma wheel_body_one:
  assumes "ques_wf y" "one_slot y"
  shows "bind_r (wheel_high m c 1 evs y) (\<lambda>(evs4, y4).
      let cnt2 = min 1 (qt_qItemSize (timer_of y4 c) 0)
      in bind_r (wheel_low m c cnt2 (wheel_locs c 0 cnt2 y4) evs4 y4) (k cnt2))
    = bind_r (poll_chan m c evs y) (k 1)"
proof -
  let ?h = "(c, 1 :: nat, 0 :: nat)" and ?l = "(c, 0 :: nat, 0 :: nat)"
  obtain evs1 y1 where 1: "drain m ?h evs y = Inr (evs1, y1)" "poll_frame y y1"
    "\<not> (EventQueueUsed (qy_eque y1 ?h) \<and> length evs1 < m)"
    using drain_served [OF assms(1)] by blast
  have one: "one_slot y1" using 1(2) assms(2) by (simp add: one_slot_def poll_frame_fields)
  have again: "wheel_high m c 1 evs' y' = Inr (evs', y')"
    if "qy_chan y' = qy_chan y1" "\<not> EventQueueUsed (qy_eque y' ?h)" for evs' y'
    using that one wheel_high_one [of y' m c evs'] by (simp add: one_slot_def drain_idle)
  have "low_loop n m ?l (wheel_high m c 1) evs1 y1 = drain_loop n m ?l evs1 y1"
    "low_loop n m ?l (drain m ?h) evs1 y1 = drain_loop n m ?l evs1 y1" for n
    using 1(3) again by (intro low_loop_drains [where h = ?h and ch = "qy_chan y1"]; auto simp: drain_idle)+
  then show ?thesis
    using 1(1) one assms(2)
    by (simp add: wheel_high_one wheel_locs_one poll_chan_def one_slot_def Let_def)
      (cases "drain_loop (eq_size (qy_eque y1 ?l)) m ?l evs1 y1"; auto)
qed

lemma timer_upd_simps [simp]:
  "qy_smap (timer_upd c f y) = qy_smap y" "qy_eque (timer_upd c f y) = qy_eque y"
  "qy_clock (timer_upd c f y) = qy_clock y" "qy_ticks (timer_upd c f y) = qy_ticks y"
  "timer_of (timer_upd c f y) d = (if d = c then f (timer_of y c) else timer_of y d)"
  by (simp_all add: timer_upd_def)

lemma poll_wheel_served:
  assumes "ques_wf y" "one_slot y" "clock_ok b y"
  shows "\<exists>evs' y'. poll_wheel m c evs y = Inr (True, evs', y') \<and> served m (chan_ques c) evs y evs' y'
     \<and> one_slot y' \<and> clock_ok b y'"
proof -
  let ?k = "qy_ticks y" and ?s = "qt_ullStart (timer_of y c)"
  define y1 where "y1 = y\<lparr>qy_ticks := ?k + 1\<rparr>"
  define y2 where "y2 = (if ?s = 0 then timer_upd c (\<lambda>t. t\<lparr>qt_ullStart := qy_clock y (?k + 1),
      qt_llStartIdx := (qt_llStartIdx t)(0 := 0, 1 := 0)\<rparr>) (y1\<lparr>qy_ticks := ?k + 2\<rparr>) else y1)"
  define y3 where "y3 = y2\<lparr>qy_ticks := qy_ticks y2 + 1\<rparr>"
  let ?start = "qt_ullStart (timer_of y3 c)"
  have "?s = 0 \<or> ?s \<le> qy_clock y ?k" using assms(3) unfolding clock_ok_def by blast
  then have ahead: "\<not> qy_clock y ?k < ?s" by auto
  have same: "qy_smap y3 = qy_smap y" "qy_eque y3 = qy_eque y" "qy_clock y3 = qy_clock y" "one_slot y3"
    using assms(2) by (auto simp: y1_def y2_def y3_def one_slot_def)
  have start: "b \<le> ?start" "?start \<le> qy_clock y (qy_ticks y2)"
    "unat (qy_clock y (qy_ticks y2)) < unat b + (2 ^ 31 - 1)"
    using assms(3) by (auto simp: y1_def y2_def y3_def clock_ok_def clock_mono [OF assms(3)] intro: order_trans)
  have wf3: "ques_wf y3" using assms(1) same by (simp add: ques_wf_def)
  obtain evs5 y5 where 5: "poll_chan m c evs y3 = Inr (evs5, y5)" "served m (chan_ques c) evs y3 evs5 y5"
    "poll_frame y3 y5" using poll_chan_served [OF wf3] by blast
  define y7 where "y7 = timer_upd c (\<lambda>t. t\<lparr>qt_ullStart := qy_clock y5 (qy_ticks y5)\<rparr>) (y5\<lparr>qy_ticks := qy_ticks y5 + 1\<rparr>)"
  note f = poll_frame_fields [OF 5(3)]
  have read: "GetTickMS y = (qy_clock y ?k, y1)" "timer_of y1 c = timer_of y c"
    "(if ?s = 0 then let (now2, ya) = GetTickMS y1 in timer_upd c (\<lambda>t. t\<lparr>qt_ullStart := now2,
        qt_llStartIdx := (qt_llStartIdx t)(0 := 0, 1 := 0)\<rparr>) ya else y1) = y2"
    "GetTickMS y2 = (qy_clock y (qy_ticks y2), y3)"
    "GetTickMS y5 = (qy_clock y5 (qy_ticks y5), y5\<lparr>qy_ticks := qy_ticks y5 + 1\<rparr>)"
    by (auto simp: GetTickMS_def y1_def y2_def y3_def Let_def)
  have one3: "qt_qItemSize (timer_of y3 c) 1 = 1" using same(4) by (simp add: one_slot_def)
  have "poll_wheel m c evs y = Inr (True, evs5, y7)"
    unfolding poll_wheel_def read(1) Let_def prod.case read(2) read(3) [unfolded Let_def] read(4) one3
    using ahead wheel_turns [OF start] 5(1) read(5) wheel_body_one [OF wf3 same(4), of m c evs
        "\<lambda>n (evs5, y5). case GetTickMS y5 of (now6, y6) \<Rightarrow>
           Inr (True, evs5, wheel_advance c 0 n (timer_upd c (\<lambda>t. t\<lparr>qt_ullStart := now6\<rparr>) y6))",
        unfolded Let_def]
    by (simp add: y7_def wheel_advance_one)
  moreover have "served m (chan_ques c) evs y evs5 y7"
    using same by (intro served_cong [OF 5(2)]) (simp_all add: y7_def)
  moreover have "one_slot y7" using same(4) f by (simp add: y7_def one_slot_def)
  moreover have "clock_ok b y7"
  proof (rule clock_ok_turn [OF assms(3), where c = c])
    have "qy_ticks y \<le> qy_ticks y3" "\<And>d. d \<noteq> c \<Longrightarrow> timer_of y3 d = timer_of y d"
      by (simp_all add: y1_def y2_def y3_def)
    then show "qy_ticks y \<le> qy_ticks y7" "\<And>d. d \<noteq> c \<Longrightarrow> timer_of y7 d = timer_of y d"
      using f by (simp_all add: y7_def)
  qed (use assms(3) same(3) f in \<open>auto simp: y7_def clock_ok_def\<close>)
  ultimately show ?thesis by blast
qed

lemma wait_loop_timed:
  "ques_wf y \<Longrightarrow> one_slot y \<Longrightarrow> clock_ok b y \<Longrightarrow> distinct cs \<Longrightarrow> 0 < timeout \<Longrightarrow>
   \<exists>evs' y'. wait_loop timeout m cs evs y = Inr (True, evs', y') \<and> served m (ques_of cs) evs y evs' y'"
proof (induction cs arbitrary: evs y)
  case (Cons c cs)
  obtain evs1 y1 where 1: "poll_wheel m c evs y = Inr (True, evs1, y1)" "served m (chan_ques c) evs y evs1 y1"
    "one_slot y1" "clock_ok b y1" using poll_wheel_served [OF Cons.prems(1-3)] by blast
  then have "ques_wf y1" by (simp add: served_def)
  with 1 Cons obtain evs2 y2 where 2: "wait_loop timeout m cs evs1 y1 = Inr (True, evs2, y2)"
    "served m (ques_of cs) evs1 y1 evs2 y2" by fastforce
  show ?case
    using 1(1) 2(1) served_append [OF 1(2) 2(2) ques_of_disjoint] Cons.prems by simp
qed (simp add: served_Nil)

section \<open>The system\<close>

text \<open>
  What \<^verbatim>\<open>q_init_manager\<close> sets up and every operation keeps: well-formed queues, a wheel of one
  slot, the layout of the channels, and for every socket whose events are bound to an application
  that this application has a handle.
\<close>

definition has_handle :: "qepoll_sys \<Rightarrow> nat \<Rightarrow> bool" where
  "has_handle y i \<longleftrightarrow> i < qy_num_server y
     \<and> qp_sq_chan (qm_qe (qy_qepoll y i)) = Some (qy_num_stack y * i)
     \<and> qp_qs_chan (qm_qe (qy_qepoll y i)) = Some (qy_num_stack y * (qy_num_server y + i))"

definition layout_ok :: "qepoll_sys \<Rightarrow> bool" where
  "layout_ok y \<longleftrightarrow> 0 < qy_num_stack y
     \<and> (\<forall>i < qy_num_server y. qm_sq_chan (qy_qepoll y i) = qy_num_stack y * i
          \<and> qm_qs_chan (qy_qepoll y i) = qy_num_stack y * (qy_num_server y + i))
     \<and> (\<forall>i < qy_num_stack y * qy_num_server y. ch_id (qy_chan y i) = i
          \<and> ch_src (qy_chan y i) = i mod qy_num_stack y \<and> ch_dst (qy_chan y i) = i div qy_num_stack y)"

definition qepoll_wf :: "qepoll_sys \<Rightarrow> bool" where
  "qepoll_wf y \<longleftrightarrow> ques_wf y \<and> one_slot y \<and> layout_ok y
     \<and> (\<forall>k. rg_proc (qy_reg y k) \<longrightarrow> (\<exists>i. rg_pr_core (qy_reg y k) = int i \<and> has_handle y i))"

lemma q_init_manager_wf:
  assumes "0 < stack" "0 < server" "stack * server \<le> QEPOLL_SIZE"
  shows "qepoll_wf (q_init_manager stack server clock)"
proof -
  have "0 < QEPOLL_SIZE div server div stack"
    using assms by (simp add: div_mult2_eq [symmetric] div_greater_zero_iff mult.commute)
  then show ?thesis
    using assms(1) by (simp add: q_init_manager_def qepoll_wf_def ques_wf_def one_slot_def layout_ok_def q_alloc_achan_def
        qepoll_manager_init_def q_alloc_timeout_def WHEEL_SIZE_def q_create_eque_def eque_wf_def Let_def)
qed

lemma qepoll_create_wf:
  assumes "qepoll_wf y" "qepoll_create conc apps sz y = Inr (qid, y')" "qid \<noteq> - 1"
  shows "qepoll_wf y'" "has_handle y' (nat qid)"
  using assms
  by (auto simp: qepoll_create_def qepoll_wf_def ques_wf_def one_slot_def layout_ok_def has_handle_def Let_def
      split: if_splits)

section \<open>Waiting for events\<close>

definition app_ques :: "qepoll_sys \<Rightarrow> nat \<Rightarrow> eque_loc list" where
  "app_ques y i = ques_of (wait_chans (qy_num_stack y) (qy_num_stack y * i) (qy_num_stack y * (qy_num_server y + i)))"

lemma wait_chans_Suc [simp]: "wait_chans (Suc n) sq qs = wait_chans n sq qs @ [sq + n, qs + n]"
  by (simp add: wait_chans_def)

lemma set_wait_chans: "set (wait_chans n sq qs) = {sq..<sq + n} \<union> {qs..<qs + n}"
  by (induction n) (auto simp: wait_chans_def)

lemma distinct_wait_chans: "sq + n \<le> qs \<Longrightarrow> distinct (wait_chans n sq qs)"
  by (induction n) (auto simp: set_wait_chans, simp add: wait_chans_def)

lemma app_chans_distinct:
  assumes "i < qy_num_server y"
  shows "distinct (wait_chans (qy_num_stack y) (qy_num_stack y * i) (qy_num_stack y * (qy_num_server y + i)))"
proof (rule distinct_wait_chans)
  have "qy_num_stack y * Suc i \<le> qy_num_stack y * (qy_num_server y + i)"
    using assms by (intro mult_le_mono2) simp
  then show "qy_num_stack y * i + qy_num_stack y \<le> qy_num_stack y * (qy_num_server y + i)" by simp
qed

lemma poll_frame_wf: "poll_frame y y' \<Longrightarrow> ques_wf y' \<Longrightarrow> qepoll_wf y \<Longrightarrow> qepoll_wf y'"
proof -
  assume f: "poll_frame y y'" and wf: "ques_wf y'" "qepoll_wf y"
  have reg: "rg_pr_core (qy_reg y' k) = rg_pr_core (qy_reg y k)" "rg_proc (qy_reg y' k) \<Longrightarrow> rg_proc (qy_reg y k)" for k
    using f by (simp_all add: poll_frame_def)
  have "has_handle y' i = has_handle y i" "one_slot y' = one_slot y" "layout_ok y' = layout_ok y" for i
    by (simp_all add: has_handle_def one_slot_def layout_ok_def poll_frame_fields [OF f])
  then show ?thesis using wf reg by (simp add: qepoll_wf_def)
qed

definition wait_ok :: "qepoll_sys \<Rightarrow> nat \<Rightarrow> ptr \<Rightarrow> int \<Rightarrow> bool" where
  "wait_ok y i events maxevents \<longleftrightarrow> qepoll_wf y \<and> has_handle y i \<and> int i < MAX_SERVER_NUM
     \<and> events \<noteq> NULL \<and> 0 < maxevents"

lemma qepoll_wait_unfold:
  assumes "wait_ok y i events maxevents"
  shows "qepoll_wait (int i) events maxevents timeout y =
    bind_r (wait_loop timeout (nat maxevents)
      (wait_chans (qy_num_stack y) (qy_num_stack y * i) (qy_num_stack y * (qy_num_server y + i))) [] y)
      (\<lambda>(go, evs, y1). Inr (if go then int (length evs) else 0, evs, y1))"
  using assms by (auto simp: wait_ok_def qepoll_wait_def has_handle_def qepoll_wf_def layout_ok_def)

lemma qepoll_wait_untimed:
  assumes "wait_ok y i events maxevents" "timeout \<le> 0"
  shows "\<exists>evs y'. qepoll_wait (int i) events maxevents timeout y = Inr (int (length evs), evs, y')
    \<and> served (nat maxevents) (app_ques y i) [] y evs y' \<and> qepoll_wf y'"
proof -
  have ok: "ques_wf y" "i < qy_num_server y" "qepoll_wf y"
    using assms(1) by (auto simp: wait_ok_def qepoll_wf_def has_handle_def)
  obtain evs y' where w: "wait_loop timeout (nat maxevents)
      (wait_chans (qy_num_stack y) (qy_num_stack y * i) (qy_num_stack y * (qy_num_server y + i))) [] y
      = Inr (True, evs, y')" "served (nat maxevents) (app_ques y i) [] y evs y'" "poll_frame y y'"
    using wait_loop_served [OF ok(1) app_chans_distinct [OF ok(2)] assms(2)] unfolding app_ques_def by blast
  then have "ques_wf y'" by (simp add: served_def)
  then show ?thesis
    using w qepoll_wait_unfold [OF assms(1)] poll_frame_wf [OF w(3) _ ok(3)] by simp
qed

lemma qepoll_wait_timed:
  assumes "wait_ok y i events maxevents" "0 < timeout" "clock_ok b y"
  shows "\<exists>evs y'. qepoll_wait (int i) events maxevents timeout y = Inr (int (length evs), evs, y')
    \<and> served (nat maxevents) (app_ques y i) [] y evs y'"
proof -
  have ok: "ques_wf y" "i < qy_num_server y" "one_slot y"
    using assms(1) by (auto simp: wait_ok_def qepoll_wf_def has_handle_def)
  obtain evs y' where w: "wait_loop timeout (nat maxevents)
      (wait_chans (qy_num_stack y) (qy_num_stack y * i) (qy_num_stack y * (qy_num_server y + i))) [] y
      = Inr (True, evs, y')" "served (nat maxevents) (app_ques y i) [] y evs y'"
    using wait_loop_timed [OF ok(1,3) assms(3) app_chans_distinct [OF ok(2)] assms(2)]
    unfolding app_ques_def by blast
  then show ?thesis using qepoll_wait_unfold [OF assms(1)] by simp
qed

section \<open>Adding events\<close>

definition event_ok :: "qepoll_sys \<Rightarrow> socket_table \<Rightarrow> qepoll_item \<Rightarrow> bool" where
  "event_ok y sockets q \<longleftrightarrow> qe_sockid q < MAX_FLOW_NUM \<and> unat (qe_pri q) < NUM_PRI
     \<and> (so_socktype (tb_sockets sockets (qe_sockid q)) = SOCK_TYPE_LISTENER
        \<or> so_stream (tb_sockets sockets (qe_sockid q)) \<noteq> NULL)
     \<and> qi_timeout q \<le> 0 \<and> qi_dire q = STACK_TO_QE \<and> qe_core q < qy_num_stack y \<and> has_handle y (qe_apid q)"

text \<open>A socket whose last event was not collected yet stays with the application that has it.\<close>

definition bound :: "qepoll_sys \<Rightarrow> qepoll_item \<Rightarrow> bool" where
  "bound y q \<longleftrightarrow> qe_nature q \<noteq> Q_ACCEPT \<and> rg_proc (qy_reg y (qe_sockid q))"

definition event_target :: "qepoll_sys \<Rightarrow> qepoll_item \<Rightarrow> nat" where
  "event_target y q = (if bound y q then nat (rg_pr_core (qy_reg y (qe_sockid q))) else qe_apid q)"

definition event_loc :: "qepoll_sys \<Rightarrow> qepoll_item \<Rightarrow> eque_loc" where
  "event_loc y q = (qy_num_stack y * event_target y q + qe_core q, unat (qe_pri q), 0)"

definition routed :: "qepoll_sys \<Rightarrow> qepoll_item \<Rightarrow> qepoll_sys" where
  "routed y q = (if bound y q then y
     else y\<lparr>qy_reg := (qy_reg y)(qe_sockid q := \<lparr>rg_pr_core = int (qe_apid q), rg_proc = True\<rparr>)\<rparr>)"

lemma event_target_handle: "qepoll_wf y \<Longrightarrow> event_ok y sockets q \<Longrightarrow> has_handle y (event_target y q)"
  by (auto simp: event_target_def bound_def qepoll_wf_def event_ok_def)

lemma q_distribute_event_routed:
  assumes "qepoll_wf y"
  shows "q_distribute_event q (rg_proc (qy_reg y (qe_sockid q))) y = Inr (int (event_target y q), routed y q)"
proof -
  have "0 \<le> rg_pr_core (qy_reg y (qe_sockid q))" if "rg_proc (qy_reg y (qe_sockid q))"
    using assms that unfolding qepoll_wf_def by (metis of_nat_0_le_iff)
  then show ?thesis
    by (auto simp: q_distribute_event_def event_target_def routed_def bound_def Let_def)
qed

lemma routed_simps [simp]:
  "qy_num_stack (routed y q) = qy_num_stack y" "qy_num_server (routed y q) = qy_num_server y"
  "qy_chan (routed y q) = qy_chan y" "qy_qepoll (routed y q) = qy_qepoll y"
  "qy_eque (routed y q) = qy_eque y" "qy_smap (routed y q) = qy_smap y"
  by (simp_all add: routed_def)

lemma event_chan_routed:
  assumes "qepoll_wf y" "event_ok y sockets q"
  shows "event_chan q y = Inr (event_target y q, qy_num_stack y * event_target y q + qe_core q, routed y q)"
proof -
  let ?t = "event_target y q" and ?n = "qy_num_stack y" and ?c = "qe_core q"
  have h: "has_handle y ?t" and c: "?c < ?n" and d: "qi_dire q = STACK_TO_QE" and lay: "layout_ok y"
    using assms event_target_handle [OF assms] by (auto simp: event_ok_def qepoll_wf_def)
  have "?n * ?t + ?c < ?n * Suc ?t" using c by simp
  also have "\<dots> \<le> ?n * qy_num_server y" using h by (intro mult_le_mono2) (simp add: has_handle_def)
  finally have "?n * ?t + ?c < ?n * qy_num_server y" .
  then have "ch_src (qy_chan y (?n * ?t + ?c)) = ?c" "ch_dst (qy_chan y (?n * ?t + ?c)) = ?t"
    "ch_id (qy_chan y (?n * ?t + ?c)) = ?n * ?t + ?c" "\<not> 2 * ?n * qy_num_server y \<le> ?n * ?t + ?c"
    using lay c by (simp_all add: layout_ok_def)
  then show ?thesis
    using h d q_distribute_event_routed [OF assms(1), of q]
    by (simp add: event_chan_def has_handle_def Let_def mult.commute)
qed

abbreviation put_event :: "u32 \<Rightarrow> qepoll_sys \<Rightarrow> qepoll_item \<Rightarrow> int \<times> qevent_que" where
  "put_event event y q \<equiv> eque_put event (sm_ep_data (qy_smap y (qe_sockid q))) q (qy_eque y (event_loc y q))"

definition announced :: "u32 \<Rightarrow> qepoll_item \<Rightarrow> qepoll_sys \<Rightarrow> qepoll_sys" where
  "announced event q y =
     (smap_upd (qe_sockid q) (\<lambda>m. m\<lparr>sm_qepoll := event, sm_qevents := sm_qevents m OR event\<rparr>) (routed y q))
       \<lparr>qy_eque := (qy_eque y)(event_loc y q := snd (put_event event y q))\<rparr>"

lemma AddTimeEvent_stack:
  assumes "qepoll_wf y" "event_ok y sockets q"
  shows "AddTimeEvent event now q sockets y = Inr (fst (put_event event y q), announced event q y)"
  using assms(2)
  by (auto simp: AddTimeEvent_def event_chan_routed [OF assms] event_ok_def announced_def smap_upd_def
      event_loc_def Let_def split_beta)

lemma announced_simps [simp]:
  "qy_num_stack (announced event q y) = qy_num_stack y" "qy_num_server (announced event q y) = qy_num_server y"
  "qy_chan (announced event q y) = qy_chan y" "qy_qepoll (announced event q y) = qy_qepoll y"
  "qy_reg (announced event q y) = qy_reg (routed y q)"
  "sm_qepoll (qy_smap (announced event q y) k)
     = (if k = qe_sockid q then event else sm_qepoll (qy_smap y k))"
  by (simp_all add: announced_def smap_upd_def)

lemma announced_wf:
  assumes "qepoll_wf y" "event_ok y sockets q"
  shows "qepoll_wf (announced event q y)"
proof -
  let ?y = "announced event q y"
  have "has_handle ?y i = has_handle y i" "one_slot ?y = one_slot y" "layout_ok ?y = layout_ok y" for i
    by (simp_all add: has_handle_def one_slot_def layout_ok_def)
  moreover have "ques_wf ?y"
    using assms(1) eque_put_cases(3) by (auto simp: ques_wf_def qepoll_wf_def announced_def)
  ultimately show ?thesis
    using assms by (auto simp: qepoll_wf_def routed_def event_ok_def)
qed

lemma announced_queue:
  assumes "qepoll_wf y"
  shows "eque_list (qy_eque (announced event q y) l) =
    (if l = event_loc y q \<and> eque_count (qy_eque y l) < eq_size (qy_eque y l) - 1
     then eque_list (qy_eque y l)
       @ [slot_write event (sm_ep_data (qy_smap y (qe_sockid q))) q
            (eq_qevent (qy_eque y l) ! eq_end (qy_eque y l))]
     else eque_list (qy_eque y l))"
proof -
  have w: "eque_wf (qy_eque y l)" using assms by (simp add: qepoll_wf_def ques_wfD)
  have "eque_count (qy_eque y l) < eq_size (qy_eque y l) - 1 \<or> eque_count (qy_eque y l) = eq_size (qy_eque y l) - 1"
    using eque_count_less [OF w] by linarith
  then show ?thesis using eque_put_cases(1,2) [OF w] by (auto simp: announced_def)
qed

lemma put_event_result:
  assumes "qepoll_wf y"
  shows "fst (put_event event y q) =
    (if eque_count (qy_eque y (event_loc y q)) < eq_size (qy_eque y (event_loc y q)) - 1 then 0 else - 1)"
proof -
  let ?eq = "qy_eque y (event_loc y q)"
  have w: "eque_wf ?eq" using assms by (simp add: qepoll_wf_def ques_wfD)
  then show ?thesis using eque_put_cases(1,2) [OF w] eque_count_less [OF w] by auto
qed

lemma event_loc_polled:
  assumes "qepoll_wf y" "event_ok y sockets q"
  shows "event_loc y q \<in> set (app_ques y (event_target y q))"
proof -
  let ?n = "qy_num_stack y" and ?t = "event_target y q"
  have "?n * ?t + qe_core q \<in> set (wait_chans ?n (?n * ?t) (?n * (qy_num_server y + ?t)))"
    using assms(2) by (simp add: set_wait_chans event_ok_def)
  moreover have "unat (qe_pri q) = 0 \<or> unat (qe_pri q) = 1"
    using assms(2) by (auto simp: event_ok_def NUM_PRI_def)
  ultimately show ?thesis
    by (auto simp: app_ques_def ques_of_def event_loc_def chan_ques_def)
qed

abbreviation new_slot :: "u32 \<Rightarrow> qepoll_sys \<Rightarrow> qepoll_item \<Rightarrow> qepoll_item" where
  "new_slot event y q \<equiv> slot_write event (sm_ep_data (qy_smap y (qe_sockid q))) q
     (eq_qevent (qy_eque y (event_loc y q)) ! eq_end (qy_eque y (event_loc y q)))"

lemma announced_queued:
  assumes "qepoll_wf y" "event_ok y sockets q" "AddTimeEvent event now q sockets y = Inr (0, y1)"
  shows "y1 = announced event q y" "new_slot event y q \<in> set (eque_list (qy_eque y1 (event_loc y q)))"
    "new_slot event y q \<in> set (queued y1 (app_ques y1 (event_target y q)))"
proof -
  let ?l = "event_loc y q"
  show y1: "y1 = announced event q y"
    using assms(3) AddTimeEvent_stack [OF assms(1,2)] by auto
  have "fst (put_event event y q) = 0" using assms(3) AddTimeEvent_stack [OF assms(1,2)] by auto
  then show "new_slot event y q \<in> set (eque_list (qy_eque y1 ?l))"
    using announced_queue [OF assms(1)] put_event_result [OF assms(1), of event q] y1 by (simp split: if_splits)
  moreover have "?l \<in> set (app_ques y1 (event_target y q))"
    using event_loc_polled [OF assms(1,2)] y1 by (simp add: app_ques_def)
  ultimately show "new_slot event y q \<in> set (queued y1 (app_ques y1 (event_target y q)))"
    by (auto simp: queued_def)
qed

text \<open>
  An announcement, accepted or refused, that does not overwrite the mask of the socket \<open>k\<close> by one
  without \<open>event\<close>: one for any other socket, or one for \<open>k\<close> that shares an event.
\<close>

inductive announce_step :: "nat \<Rightarrow> u32 \<Rightarrow> qepoll_sys \<Rightarrow> qepoll_sys \<Rightarrow> bool" for k event where
  announce: "event_ok y sockets q \<Longrightarrow> (qe_sockid q = k \<longrightarrow> event' AND event \<noteq> 0) \<Longrightarrow>
    AddTimeEvent event' now q sockets y = Inr (r, y') \<Longrightarrow> announce_step k event y y'"

inductive_cases announce_stepE: "announce_step k event y y'"

lemma announce_steps_keep:
  assumes "(announce_step k event)\<^sup>*\<^sup>* y y'" "qepoll_wf y" "sm_qepoll (qy_smap y k) AND event \<noteq> 0"
  shows "qepoll_wf y' \<and> sm_qepoll (qy_smap y' k) AND event \<noteq> 0 \<and> app_ques y' = app_ques y
    \<and> (\<forall>ls. set (queued y ls) \<subseteq> set (queued y' ls))"
  using assms
proof (induction rule: rtranclp_induct)
  case (step y1 y2)
  have wf: "qepoll_wf y1" and m: "sm_qepoll (qy_smap y1 k) AND event \<noteq> 0" "app_ques y1 = app_ques y"
      "\<And>ls. set (queued y ls) \<subseteq> set (queued y1 ls)"
    using step.IH [OF step.prems] by blast+
  obtain sockets q event' now r where q: "event_ok y1 sockets q" "qe_sockid q = k \<longrightarrow> event' AND event \<noteq> 0"
      "AddTimeEvent event' now q sockets y1 = Inr (r, y2)"
    using step.hyps(2) by (rule announce_stepE)
  have y2: "y2 = announced event' q y1" using q(3) AddTimeEvent_stack [OF wf q(1)] by simp
  have "set (eque_list (qy_eque y1 l)) \<subseteq> set (eque_list (qy_eque y2 l))" for l
    using announced_queue [OF wf, of event' q] y2 by auto
  then have "set (queued y1 ls) \<subseteq> set (queued y2 ls)" for ls by (rule queued_mono)
  then have "\<forall>ls. set (queued y ls) \<subseteq> set (queued y2 ls)" using m(3) by blast
  moreover have "app_ques y2 = app_ques y1" by (simp add: y2 app_ques_def fun_eq_iff)
  ultimately show ?case using announced_wf [OF wf q(1), of event'] m(1,2) q(2) y2 by auto
qed simp

lemma announced_delivered:
  assumes "qepoll_wf y" "event_ok y sockets q" "AddTimeEvent event now q sockets y = Inr (0, y1)" "event \<noteq> 0"
    "(announce_step (qe_sockid q) event)\<^sup>*\<^sup>* y1 y2"
    "wait_ok y2 (event_target y q) events maxevents" "timeout \<le> 0"
    "length (queued y2 (app_ques y2 (event_target y q))) \<le> nat maxevents"
  shows "\<exists>evs y3. qepoll_wait (int (event_target y q)) events maxevents timeout y2 = Inr (int (length evs), evs, y3)
    \<and> (\<exists>e \<in> set evs. qe_sockid e = qe_sockid q \<and> qi_events e = event
          \<and> qi_data e = sm_ep_data (qy_smap y (qe_sockid q)))"
proof -
  let ?t = "event_target y q" and ?x = "new_slot event y q"
  note y1 = announced_queued [OF assms(1-3)]
  have wf1: "qepoll_wf y1" using announced_wf [OF assms(1,2)] y1(1) by simp
  have "sm_qepoll (qy_smap y1 (qe_sockid q)) AND event \<noteq> 0" using assms(4) y1(1) by simp
  then have k: "sm_qepoll (qy_smap y2 (qe_sockid q)) AND event \<noteq> 0" "?x \<in> set (queued y2 (app_ques y2 ?t))"
    using announce_steps_keep [OF assms(5) wf1] y1(3) by auto
  then have "event_valid y2 ?x" using assms(4) by (simp add: event_valid_def slot_write_def)
  with k(2) have x: "?x \<in> set (filter (event_valid y2) (queued y2 (app_ques y2 ?t)))" by simp
  obtain evs y3 where w: "qepoll_wait (int ?t) events maxevents timeout y2 = Inr (int (length evs), evs, y3)"
    "served (nat maxevents) (app_ques y2 ?t) [] y2 evs y3"
    using qepoll_wait_untimed [OF assms(6,7)] by blast
  have "length (filter (event_valid y2) (queued y2 (app_ques y2 ?t))) \<le> nat maxevents"
    using assms(8) length_filter_le order_trans by blast
  then have "evs = filter (event_valid y2) (queued y2 (app_ques y2 ?t))" using w(2) by (simp add: served_def)
  then show ?thesis using w(1) x by (auto simp: slot_write_def intro!: bexI [of _ ?x])
qed

section \<open>Explicit priorities\<close>

definition pri_ques :: "qepoll_sys \<Rightarrow> nat \<Rightarrow> nat \<Rightarrow> eque_loc list" where
  "pri_ques y i pri = map (\<lambda>ns. (qy_num_stack y * i + ns, pri, 0)) [0..<qy_num_stack y]"

definition buffered :: "evmgt_queue \<Rightarrow> qepoll_item list" where
  "buffered q = drop (eg_p q) (eg_events q)"

definition mgtq_ok :: "evmgt_queue \<Rightarrow> bool" where
  "mgtq_ok q \<longleftrightarrow> eg_num q = int (length (eg_events q)) \<and> eg_buf q \<noteq> NULL"

lemma evmgtq_get_buffered:
  "mgtq_ok q \<Longrightarrow> evmgtq_get q = (case buffered q of [] \<Rightarrow> (None, q) | e # _ \<Rightarrow> (Some e, q\<lparr>eg_p := eg_p q + 1\<rparr>))"
  by (auto simp: evmgtq_get_def mgtq_ok_def buffered_def split: list.splits)
    (metis nth_via_drop)

lemma fetch_served:
  assumes "wait_ok y i (eg_buf q) maxevents"
  shows "\<exists>q' y'. evmgtq_fetch_events q (int i) maxevents pri y = Inr (q', y') \<and> mgtq_ok q'
    \<and> buffered q' = take (nat maxevents) (filter (event_valid y) (queued y (pri_ques y i pri)))
    \<and> served (nat maxevents) (pri_ques y i pri) [] y (buffered q') y' \<and> poll_frame y y'"
proof -
  have ok: "ques_wf y" "distinct (pri_ques y i pri)" "i < qy_num_server y" "int i < MAX_SERVER_NUM"
    "qp_sq_chan (qm_qe (qy_qepoll y i)) = Some (qy_num_stack y * i)" "eg_buf q \<noteq> NULL" "0 < maxevents"
    using assms by (auto simp: wait_ok_def qepoll_wf_def has_handle_def pri_ques_def distinct_map inj_on_def)
  obtain evs y' where d: "drain_all (nat maxevents) (pri_ques y i pri) [] y = Inr (evs, y')"
    "served (nat maxevents) (pri_ques y i pri) [] y evs y'" "poll_frame y y'"
    using drain_all_served [OF ok(1,2)] by blast
  let ?q = "q\<lparr>eg_p := 0, eg_num := int (length evs), eg_events := evs\<rparr>"
  have "evmgtq_fetch_events q (int i) maxevents pri y = Inr (?q, y')"
    using ok d(1) by (simp add: evmgtq_fetch_events_def qepoll_mgt_wait_def pri_ques_def)
  moreover have "mgtq_ok ?q" "buffered ?q = evs" using ok by (simp_all add: mgtq_ok_def buffered_def)
  ultimately show ?thesis using d by (auto simp: served_def)
qed

definition next_event :: "'a list \<Rightarrow> 'a option" where
  "next_event xs = (case xs of [] \<Rightarrow> None | x # _ \<Rightarrow> Some x)"

definition mgt_ok :: "qepoll_sys \<Rightarrow> nat \<Rightarrow> event_mgt \<Rightarrow> bool" where
  "mgt_ok y i mgt \<longleftrightarrow> qepoll_wf y \<and> has_handle y i \<and> int i < MAX_SERVER_NUM
     \<and> mgtq_ok (em_events_h mgt) \<and> mgtq_ok (em_events_l mgt) \<and> 0 < em_size mgt \<and> 0 < em_lb mgt"

lemma next_event_append: "next_event (xs @ ys) = (if xs = [] then next_event ys else next_event xs)"
  by (cases xs) (simp_all add: next_event_def)

lemma next_event_take: "0 < n \<Longrightarrow> next_event (take n xs) = next_event xs"
  by (cases xs; cases n) (simp_all add: next_event_def)

lemma get_first: "mgtq_ok q \<Longrightarrow> fst (evmgtq_get q) = next_event (buffered q)"
  by (simp add: evmgtq_get_buffered next_event_def split: list.splits)

lemma eventmgt_get_serves:
  assumes "mgt_ok y i mgt"
  shows "\<exists>mgt' y'. eventmgt_get (int i) mgt y =
    Inr (next_event (buffered (em_events_h mgt) @ filter (event_valid y) (queued y (pri_ques y i 1))
          @ buffered (em_events_l mgt) @ filter (event_valid y) (queued y (pri_ques y i 0))), mgt', y')"
proof -
  have ok: "mgtq_ok (em_events_h mgt)" "mgtq_ok (em_events_l mgt)" "0 < em_size mgt" "0 < em_lb mgt"
    "wait_ok y i (eg_buf (em_events_h mgt)) (em_size mgt)"
    using assms by (auto simp: mgt_ok_def wait_ok_def mgtq_ok_def)
  obtain h1 y1 where h1: "evmgtq_fetch_events (em_events_h mgt) (int i) (em_size mgt) 1 y = Inr (h1, y1)"
    "mgtq_ok h1" "buffered h1 = take (nat (em_size mgt)) (filter (event_valid y) (queued y (pri_ques y i 1)))"
    "served (nat (em_size mgt)) (pri_ques y i 1) [] y (buffered h1) y1" "poll_frame y y1"
    using fetch_served [OF ok(5)] by blast
  have "wait_ok y1 i (eg_buf (em_events_l mgt)) (em_lb mgt)"
    using assms h1(4,5) poll_frame_wf [OF h1(5)]
    by (simp add: mgt_ok_def wait_ok_def mgtq_ok_def served_def has_handle_def poll_frame_fields)
  from fetch_served [OF this, of 0] obtain l1 y2 where l1:
    "evmgtq_fetch_events (em_events_l mgt) (int i) (em_lb mgt) 0 y1 = Inr (l1, y2)" "mgtq_ok l1"
    "buffered l1 = take (nat (em_lb mgt)) (filter (event_valid y1) (queued y1 (pri_ques y1 i 0)))" by blast
  have "set (pri_ques y i 0) \<inter> set (pri_ques y i 1) = {}" "pri_ques y1 i 0 = pri_ques y i 0"
    using poll_frame_fields [OF h1(5)] by (auto simp: pri_ques_def)
  then have "queued y1 (pri_ques y1 i 0) = queued y (pri_ques y i 0)"
    using h1(4) unfolding served_def by (simp, intro queued_cong) blast
  moreover have "event_valid y1 = event_valid y"
    using event_valid_cong [of y1 y] poll_frame_fields [OF h1(5)] by simp
  ultimately have b: "next_event (buffered h1) = next_event (filter (event_valid y) (queued y (pri_ques y i 1)))"
    "next_event (buffered l1) = next_event (filter (event_valid y) (queued y (pri_ques y i 0)))"
    using h1(3) l1(3) ok(3,4) by (simp_all add: next_event_take)
  show ?thesis
    using get_first [OF ok(1)] get_first [OF ok(2)] get_first [OF h1(2)] get_first [OF l1(2)] h1(1) l1(1) b
    by (auto simp: eventmgt_get_def next_event_append Let_def next_event_def split: prod.splits option.splits list.splits)
qed

section \<open>Registration\<close>

lemma AddTimeEvent_mask:
  "AddTimeEvent event now q sockets y = Inr (r, y') \<Longrightarrow> sm_qepoll (qy_smap y' (qe_sockid q)) = event"
  by (auto simp: AddTimeEvent_def bind_r_Inr_iff smap_upd_def Let_def split_beta split: if_splits)

text \<open>
  A registered socket that asks for reading and writing is announced for reading only: the first
  announcement replaces the mask that the second test reads.
\<close>

lemma add_registered_read_only:
  assumes "sm_qepoll (qy_smap y fd) AND Q_EPOLLIN \<noteq> 0" "qe_sockid event = fd"
  shows "add_registered fd now event sockets y
    = bind_r (AddTimeEvent Q_EPOLLIN now event sockets y) (\<lambda>(_, y1). Inr y1)"
  using assms AddTimeEvent_mask [of Q_EPOLLIN now event sockets y]
  by (cases "AddTimeEvent Q_EPOLLIN now event sockets y")
    (auto simp: add_registered_def Q_EPOLLIN_def Q_EPOLLOUT_def)

lemma ctl_first_pending:
  assumes "ctl_first efd fd now s y = Inr (s', y')"
    and sock: "so_socktype (tb_sockets (qs_sockets s) fd) = SOCK_TYPE_STREAM"
      "so_stream (tb_sockets (qs_sockets s) fd) = p" "p \<noteq> NULL" "st_socket (qs_streams s p) = Some fd"
    and pend: "st_pdev_st (qs_streams s p) = Pdev_WRITEN" "st_pending_events (qs_streams s p) = e # es"
  shows "st_pending_events (qs_streams s' p) = es" "st_pdev_st (qs_streams s' p) = Pdev_READ"
    "so_qe (tb_sockets (qs_sockets s') fd) \<noteq> NULL" "st_socket (qs_streams s' p) = Some fd"
    "so_socktype (tb_sockets (qs_sockets s') fd) = SOCK_TYPE_STREAM" "so_stream (tb_sockets (qs_sockets s') fd) = p"
  using assms
  by (auto simp: ctl_first_def get_pending_event_def bind_socket_with_qe_def event_list_pop_def bind_r_Inr_iff
      st_upd_def Let_def split: if_splits)

section \<open>Preallocated events\<close>

text \<open>
  The ring of a stack thread stays inside its buffer. The ring of an application does not, once half
  of its buffer is used: its counter wraps at the size for one application, whatever their number.
\<close>

lemma CreateQevent_stack_bound:
  assumes "core < qy_num_stack y" "qy_num_stack y \<le> QEPOLL_SIZE"
  shows "fst (CreateQevent_slot core y) < QEPOLL_SIZE div qy_num_stack y"
  using assms div_greater_zero_iff [of QEPOLL_SIZE "qy_num_stack y"]
  by (simp add: CreateQevent_slot_def Let_def)

lemma CreateQevent_app_overrun:
  assumes "qy_num_app y = 1" "0 < qy_num_server y" "qy_app_count y qid = QEPOLL_SIZE div (2 * qy_num_server y)"
  shows "fst (CreateQevent_slot (qy_num_stack y + qid) y) = QEPOLL_SIZE div (2 * qy_num_server y)"
proof -
  have "QEPOLL_SIZE div (2 * qy_num_server y) \<le> QEPOLL_SIZE div 2"
    using assms(2) by (intro div_le_mono2) simp_all
  moreover have "QEPOLL_SIZE div 2 < QEPOLL_SIZE" by (simp add: QEPOLL_SIZE_def)
  ultimately have "QEPOLL_SIZE div (2 * qy_num_server y) < QEPOLL_SIZE" by (rule le_less_trans)
  then show ?thesis using assms by (simp add: CreateQevent_slot_def Let_def)
qed

section \<open>Properties\<close>

text \<open>A system with one stack thread and one application, and queues of four slots.\<close>

definition demo_sys :: qepoll_sys where
  "demo_sys = (q_init_manager 1 1 (\<lambda>_. 1))\<lparr>qy_efd := 0, qy_eque := (\<lambda>_. q_create_eque 4),
     qy_qepoll := (\<lambda>i. \<lparr>qm_qe = \<lparr>qp_qfd = i, qp_size = 1, qp_sq_chan = Some i, qp_qs_chan = Some (1 + i)\<rparr>,
                       qm_sq_chan = i, qm_qs_chan = 1 + i\<rparr>)\<rparr>"

definition demo_sockets :: socket_table where
  "demo_sockets = \<lparr>tb_sockets = (\<lambda>_. \<lparr>so_socktype = SOCK_TYPE_STREAM, so_default_app = 0, so_opts = 0,
       so_epoll = 0, so_qe = 1, so_stream = 5, so_saddr = (0, 0), so_daddr = (0, 0)\<rparr>),
     tb_free_socket = (\<lambda>_. []), tb_free_num = (\<lambda>_. 0), tb_free_public = [], tb_free_public_num = 0,
     tb_qe_reset = []\<rparr>"

definition demo_event :: "u8 \<Rightarrow> qepoll_item" where
  "demo_event pri = item_of STACK_TO_QE (CreateQevent pri 0 7 0 Q_READ)"

lemma demo_sys_wf: "qepoll_wf demo_sys" "has_handle demo_sys 0"
  by (simp_all add: demo_sys_def q_init_manager_def qepoll_wf_def ques_wf_def one_slot_def layout_ok_def
      q_alloc_achan_def q_alloc_timeout_def WHEEL_SIZE_def q_create_eque_def eque_wf_def has_handle_def)

lemma demo_wait_ok: "wait_ok demo_sys 0 1 3"
  using demo_sys_wf by (simp add: wait_ok_def MAX_SERVER_NUM_def)

lemma demo_event_ok: "unat pri < 2 \<Longrightarrow> event_ok demo_sys demo_sockets (demo_event pri)"
  using demo_sys_wf(2)
  by (simp add: event_ok_def demo_event_def item_of_def CreateQevent_def qepoll_event.defs qepoll_item.defs
      MAX_FLOW_NUM_def NUM_PRI_def demo_sockets_def demo_sys_def q_init_manager_def)

text \<open>The same system after a read event for socket 7, of low priority.\<close>

definition demo_sys1 :: qepoll_sys where
  "demo_sys1 = announced Q_EPOLLIN (demo_event 0) demo_sys"

definition demo_item :: "u32 \<Rightarrow> u8 \<Rightarrow> qepoll_item" where
  "demo_item event pri = slot_write event 0 (demo_event pri) zero_item"

lemma demo_loc: "event_target demo_sys (demo_event pri) = 0" "event_loc demo_sys (demo_event pri) = (0, unat pri, 0)"
  by (simp_all add: event_target_def event_loc_def bound_def demo_event_def item_of_def CreateQevent_def
      qepoll_event.defs qepoll_item.defs demo_sys_def q_init_manager_def)

lemma demo_fields:
  "qy_eque demo_sys l = q_create_eque 4" "sm_ep_data (qy_smap demo_sys k) = 0"
  "qy_num_stack demo_sys = 1" "qy_num_server demo_sys = 1"
  by (simp_all add: demo_sys_def q_init_manager_def AllocateSocket_def)

lemma demo_fresh:
  "eque_count (q_create_eque 4) = 0" "eq_size (q_create_eque 4) = 4" "eque_list (q_create_eque 4) = []"
  "eq_qevent (q_create_eque 4) ! eq_end (q_create_eque 4) = zero_item"
  by (simp_all add: q_create_eque_def eque_count_def eque_list_def)

lemma demo_sys1_nums: "qy_num_stack demo_sys1 = 1" "qy_num_server demo_sys1 = 1"
  by (simp_all add: demo_sys1_def demo_fields)

lemma demo_sys1_list:
  "eque_list (qy_eque demo_sys1 l) = (if l = (0, 0, 0) then [demo_item Q_EPOLLIN 0] else [])"
  by (simp add: demo_sys1_def announced_queue [OF demo_sys_wf(1)] demo_loc demo_fields demo_fresh demo_item_def)

lemma demo_sys1:
  shows "AddTimeEvent Q_EPOLLIN 9 (demo_event 0) demo_sockets demo_sys = Inr (0, demo_sys1)"
    and "wait_ok demo_sys1 0 1 3"
    and "queued demo_sys1 (app_ques demo_sys1 0) = [demo_item Q_EPOLLIN 0]"
    and "event_valid demo_sys1 (demo_item Q_EPOLLIN 0)" "qe_sockid (demo_item Q_EPOLLIN 0) = 7"
proof -
  note ok = demo_sys_wf(1) demo_event_ok [of 0, simplified]
  show "AddTimeEvent Q_EPOLLIN 9 (demo_event 0) demo_sockets demo_sys = Inr (0, demo_sys1)"
    using AddTimeEvent_stack [OF ok, of Q_EPOLLIN 9] put_event_result [OF ok(1), of Q_EPOLLIN "demo_event 0"]
    by (simp add: demo_sys1_def demo_fields demo_fresh)
  show "wait_ok demo_sys1 0 1 3"
    using announced_wf [OF ok, of Q_EPOLLIN] demo_sys_wf(2)
    by (simp add: wait_ok_def demo_sys1_def MAX_SERVER_NUM_def has_handle_def)
  show "queued demo_sys1 (app_ques demo_sys1 0) = [demo_item Q_EPOLLIN 0]"
    by (simp add: app_ques_def wait_chans_def chan_ques_def demo_sys1_list demo_sys1_nums)
  show "event_valid demo_sys1 (demo_item Q_EPOLLIN 0)" "qe_sockid (demo_item Q_EPOLLIN 0) = 7"
    by (simp_all add: demo_sys1_def event_valid_def demo_item_def slot_write_def Q_EPOLLIN_def demo_event_def
        item_of_def CreateQevent_def qepoll_event.defs qepoll_item.defs)
qed

text \<open>
  C16 (type). On a well-formed system an event of a stack thread for a live socket and an application
  with a handle is always accepted or refused, and the system stays well-formed: it is appended to
  the queue of its application, core and priority, or, exactly if that queue is full, refused with
  \<open>- 1\<close>; no other queue changes.
\<close>

theorem AddTimeEvent_total:
  assumes "qepoll_wf y" "event_ok y sockets q"
  shows "\<exists>r y'. AddTimeEvent event now q sockets y = Inr (r, y') \<and> qepoll_wf y'
    \<and> r = (if EventQueueFull (qy_eque y (event_loc y q)) then - 1 else 0)
    \<and> (\<forall>l. eque_list (qy_eque y' l) = eque_list (qy_eque y l)
         @ (if l = event_loc y q \<and> r = 0
            then [slot_write event (sm_ep_data (qy_smap y (qe_sockid q))) q
                    (eq_qevent (qy_eque y l) ! eq_end (qy_eque y l))] else []))"
proof -
  let ?eq = "qy_eque y (event_loc y q)"
  have w: "eque_wf ?eq" using assms(1) by (simp add: qepoll_wf_def ques_wfD)
  have "EventQueueFull ?eq \<longleftrightarrow> \<not> eque_count ?eq < eq_size ?eq - 1"
    using EventQueueFull_iff [OF w] eque_count_less [OF w] by auto
  then show ?thesis
    using AddTimeEvent_stack [OF assms] announced_wf [OF assms] put_event_result [OF assms(1)]
      announced_queue [OF assms(1), of event q] by simp
qed

theorem AddTimeEvent_total_witness:
  "\<exists>r y'. AddTimeEvent Q_EPOLLIN 9 (demo_event 1) demo_sockets demo_sys = Inr (r, y') \<and> qepoll_wf y'
    \<and> r = (if EventQueueFull (qy_eque demo_sys (event_loc demo_sys (demo_event 1))) then - 1 else 0)"
  using AddTimeEvent_total [OF demo_sys_wf(1) demo_event_ok [of 1], of Q_EPOLLIN 9] by auto

text \<open>
  C14 (functional). \<^verbatim>\<open>qepoll_wait\<close> without a timeout returns, up to the number asked for, the
  valid events in order: stack by stack, first those the stack raised, then those the application
  itself raised, each time those of high priority before those of low priority. The valid events that
  did not fit stay queued, in order, and an application that got fewer events than it asked for has
  seen everything.
\<close>

theorem qepoll_wait_serves:
  assumes "wait_ok y i events maxevents" "timeout \<le> 0"
  shows "\<exists>evs y'. qepoll_wait (int i) events maxevents timeout y = Inr (int (length evs), evs, y')
    \<and> evs = take (nat maxevents) (filter (event_valid y) (queued y (app_ques y i)))
    \<and> filter (event_valid y') (queued y' (app_ques y i))
        = drop (nat maxevents) (filter (event_valid y) (queued y (app_ques y i)))
    \<and> (length evs < nat maxevents \<longrightarrow> queued y' (app_ques y i) = []) \<and> qepoll_wf y'"
proof -
  obtain evs y' where w: "qepoll_wait (int i) events maxevents timeout y = Inr (int (length evs), evs, y')"
    "served (nat maxevents) (app_ques y i) [] y evs y'" "qepoll_wf y'"
    using qepoll_wait_untimed [OF assms] by blast
  then have "event_valid y' = event_valid y" by (intro event_valid_cong) (simp add: served_def)
  moreover have "evs = take (nat maxevents) (filter (event_valid y) (queued y (app_ques y i)))"
    "filter (event_valid y) (queued y' (app_ques y i))
       = drop (nat maxevents) (filter (event_valid y) (queued y (app_ques y i)))"
    "length evs < nat maxevents \<longrightarrow> queued y' (app_ques y i) = []"
    using w(2) unfolding served_def list.size diff_zero append_Nil by blast+
  ultimately show ?thesis using w(1,3) by (metis (no_types))
qed

theorem qepoll_wait_serves_witness:
  "\<exists>evs y'. qepoll_wait 0 1 3 (- 1) demo_sys1 = Inr (int (length evs), evs, y')
     \<and> map qe_sockid evs = [7] \<and> queued y' (app_ques demo_sys1 0) = []"
proof -
  obtain evs y' where w: "qepoll_wait 0 1 3 (- 1) demo_sys1 = Inr (int (length evs), evs, y')"
    "evs = take 3 (filter (event_valid demo_sys1) (queued demo_sys1 (app_ques demo_sys1 0)))"
    "length evs < 3 \<longrightarrow> queued y' (app_ques demo_sys1 0) = []"
    using qepoll_wait_serves [OF demo_sys1(2), of "- 1"] by auto
  then show ?thesis using demo_sys1(3-5) by (intro exI [of _ evs] exI [of _ y']) simp
qed

text \<open>
  C34 (equivalence). As the time wheel has one slot, a wait with a timeout returns the same number and the same
  events as one without, as long as the clock does not go back and stays within \<open>2 ^ 31 - 1\<close> milliseconds of a
  positive base that also bounds the timers already started (\<open>clock_ok\<close>; otherwise the timed wait may leave its
  loop early and return 0). In particular both return 0, and not the \<open>-1\<close> the headers promise, when nothing is queued.
\<close>

theorem qepoll_wait_timeout_equiv:
  assumes "wait_ok y i events maxevents" "0 < timeout" "clock_ok b y"
  shows "map_sum id (\<lambda>(n, evs, _). (n, evs)) (qepoll_wait (int i) events maxevents timeout y)
    = map_sum id (\<lambda>(n, evs, _). (n, evs)) (qepoll_wait (int i) events maxevents 0 y)"
proof -
  obtain evs y' where t: "qepoll_wait (int i) events maxevents timeout y = Inr (int (length evs), evs, y')"
    "served (nat maxevents) (app_ques y i) [] y evs y'" using qepoll_wait_timed [OF assms] by blast
  obtain evs0 y0 where u: "qepoll_wait (int i) events maxevents 0 y = Inr (int (length evs0), evs0, y0)"
    "served (nat maxevents) (app_ques y i) [] y evs0 y0" using qepoll_wait_untimed [OF assms(1), of 0] by blast
  show ?thesis using t u by (simp add: served_def)
qed

text \<open>A further event for the socket that already has one queued.\<close>

lemma demo_sys2:
  fixes event
  defines "y2 \<equiv> announced event (demo_event 0) demo_sys1"
  shows "event_ok demo_sys1 demo_sockets (demo_event 0)"
    and "AddTimeEvent event 9 (demo_event 0) demo_sockets demo_sys1 = Inr (0, y2)"
    and "wait_ok y2 0 1 3" and "length (queued y2 (app_ques y2 0)) = 2"
proof -
  have wf: "qepoll_wf demo_sys1" "has_handle demo_sys1 0" using demo_sys1(2) by (simp_all add: wait_ok_def)
  note nums = demo_sys1_nums
  show ok: "event_ok demo_sys1 demo_sockets (demo_event 0)"
    using demo_event_ok [of 0] wf(2) nums demo_sys_wf(2)
    by (simp add: event_ok_def has_handle_def demo_sys1_def)
  have loc: "event_loc demo_sys1 (demo_event 0) = (0, 0, 0)"
    by (simp add: event_loc_def event_target_def bound_def demo_sys1_def routed_def nums demo_event_def item_of_def
        demo_sys_def q_init_manager_def CreateQevent_def qepoll_event.defs qepoll_item.defs)
  have q: "queued demo_sys1 [(0, 1, 0), (0, 0, 0), (1, 1, 0), (1, 0, 0)] = [demo_item Q_EPOLLIN 0]"
    using demo_sys1(3) by (simp add: app_ques_def nums wait_chans_def chan_ques_def)
  have c: "eque_count (qy_eque demo_sys1 (0, 0, 0)) < eq_size (qy_eque demo_sys1 (0, 0, 0)) - 1"
  proof -
    have "eque_wf (qy_eque demo_sys l)" "eq_size (qy_eque demo_sys l) = 4" for l
      by (simp_all add: eque_wf_def demo_sys_def q_init_manager_def q_create_eque_def)
    then have "eq_size (qy_eque demo_sys1 l) = 4" for l
      by (simp add: demo_sys1_def announced_def eque_put_cases(4))
    then show ?thesis using arg_cong [OF q, of length] by simp
  qed
  show "AddTimeEvent event 9 (demo_event 0) demo_sockets demo_sys1 = Inr (0, y2)"
    using AddTimeEvent_stack [OF wf(1) ok, of event 9] c put_event_result [OF wf(1), of event "demo_event 0"]
    by (simp add: y2_def loc)
  show "wait_ok y2 0 1 3"
    using announced_wf [OF wf(1) ok, of event] demo_sys1(2) by (simp add: wait_ok_def y2_def has_handle_def)
  show "length (queued y2 (app_ques y2 0)) = 2"
    using c arg_cong [OF q, of length]
    by (simp add: y2_def app_ques_def wait_chans_def chan_ques_def nums announced_queue [OF wf(1)] loc)
qed

text \<open>
  C15 (liveness). An event that was accepted reaches its application: after any number of further
  announcements, for other sockets or for the same socket with a mask that shares an event with it, the
  next call of \<^verbatim>\<open>qepoll_wait\<close> with room for all queued events returns it, with the socket, the events and the
  data registered for the socket. The restriction on announcements for the same socket is needed: each
  overwrites the mask of the socket, and one of another type makes the wait drop the queued event
  (\<open>read_event_lost\<close>).
\<close>

theorem event_reaches_application:
  assumes "qepoll_wf y" "event_ok y sockets q" "AddTimeEvent event now q sockets y = Inr (0, y1)" "event \<noteq> 0"
    "(announce_step (qe_sockid q) event)\<^sup>*\<^sup>* y1 y2"
    "wait_ok y2 (event_target y q) events maxevents" "timeout \<le> 0"
    "length (queued y2 (app_ques y2 (event_target y q))) \<le> nat maxevents"
  shows "\<exists>evs y3. qepoll_wait (int (event_target y q)) events maxevents timeout y2 = Inr (int (length evs), evs, y3)
    \<and> (\<exists>e \<in> set evs. qe_sockid e = qe_sockid q \<and> qi_events e = event
          \<and> qi_data e = sm_ep_data (qy_smap y (qe_sockid q)))"
  by (rule announced_delivered [OF assms])

theorem event_reaches_application_witness:
  "\<exists>evs y3. qepoll_wait 0 1 3 (- 1) (announced (Q_EPOLLIN OR Q_EPOLLOUT) (demo_event 0) demo_sys1) = Inr (int (length evs), evs, y3)
     \<and> (\<exists>e \<in> set evs. qe_sockid e = 7 \<and> qi_events e = Q_EPOLLIN)"
proof -
  have e: "Q_EPOLLIN \<noteq> 0" "qe_sockid (demo_event 0) = 7" "(Q_EPOLLIN OR Q_EPOLLOUT) AND Q_EPOLLIN \<noteq> 0"
    by (simp_all add: Q_EPOLLIN_def Q_EPOLLOUT_def demo_event_def item_of_def CreateQevent_def qepoll_event.defs qepoll_item.defs)
  have "announce_step (qe_sockid (demo_event 0)) Q_EPOLLIN demo_sys1 (announced (Q_EPOLLIN OR Q_EPOLLOUT) (demo_event 0) demo_sys1)"
    using announce_step.announce [OF demo_sys2(1) _ demo_sys2(2)] e(3) by blast
  then have st: "(announce_step (qe_sockid (demo_event 0)) Q_EPOLLIN)\<^sup>*\<^sup>* demo_sys1 (announced (Q_EPOLLIN OR Q_EPOLLOUT) (demo_event 0) demo_sys1)"
    by (rule r_into_rtranclp)
  show ?thesis
    using event_reaches_application [OF demo_sys_wf(1) demo_event_ok [of 0] demo_sys1(1) e(1) st, of 1 3 "- 1"]
      demo_sys2(3,4) [of "Q_EPOLLIN OR Q_EPOLLOUT"] e(2) by (auto simp: demo_loc)
qed

theorem qepoll_wait_timeout_equiv_witness:
  "map_sum id (\<lambda>(n, evs, _). (n, evs)) (qepoll_wait 0 1 3 20 demo_sys1)
    = map_sum id (\<lambda>(n, evs, _). (n, evs)) (qepoll_wait 0 1 3 0 demo_sys1)"
proof -
  have "clock_ok 1 demo_sys1"
    by (simp add: clock_ok_def demo_sys1_def announced_def smap_upd_def routed_def demo_sys_def q_init_manager_def
        q_alloc_achan_def q_alloc_timeout_def)
  then show ?thesis using qepoll_wait_timeout_equiv [OF demo_sys1(2), of 20 1] by simp
qed

text \<open>
  The mask that decides whether a queued event is still wanted is overwritten by every
  announcement. A read event that waits in a queue when a write event for the same socket is announced
  is taken out of its queue by the next \<^verbatim>\<open>qepoll_wait\<close> without being returned: the application is
  never told that the socket can be read.
\<close>

lemma read_event_lost:
  assumes "qepoll_wf y" "event_ok y sockets q" "AddTimeEvent Q_EPOLLIN now q sockets y = Inr (0, y1)"
    "event_ok y1 sockets q'" "AddTimeEvent Q_EPOLLOUT now' q' sockets y1 = Inr (0, y2)" "qe_sockid q' = qe_sockid q"
    "wait_ok y2 (event_target y q) events maxevents" "timeout \<le> 0"
    "length (queued y2 (app_ques y2 (event_target y q))) < nat maxevents"
  shows "(\<exists>e \<in> set (queued y2 (app_ques y2 (event_target y q))). qe_sockid e = qe_sockid q \<and> qi_events e = Q_EPOLLIN)
    \<and> (\<exists>evs y3. qepoll_wait (int (event_target y q)) events maxevents timeout y2 = Inr (int (length evs), evs, y3)
        \<and> (\<forall>e \<in> set evs. qe_sockid e = qe_sockid q \<longrightarrow> qi_events e \<noteq> Q_EPOLLIN)
        \<and> queued y3 (app_ques y2 (event_target y q)) = [])"
proof -
  let ?t = "event_target y q" and ?l = "event_loc y q" and ?x = "new_slot Q_EPOLLIN y q"
  note y1 = announced_queued [OF assms(1-3)]
  have wf1: "qepoll_wf y1" using announced_wf [OF assms(1,2)] y1(1) by simp
  note y2 = announced_queued [OF wf1 assms(4,5)]
  have "set (eque_list (qy_eque y1 l)) \<subseteq> set (eque_list (qy_eque y2 l))" for l
    using announced_queue [OF wf1, of Q_EPOLLOUT q'] y2(1) by auto
  then have "set (queued y1 (app_ques y1 ?t)) \<subseteq> set (queued y2 (app_ques y1 ?t))" by (rule queued_mono)
  moreover have "app_ques y2 ?t = app_ques y1 ?t" using y2(1) by (simp add: app_ques_def)
  ultimately have x: "?x \<in> set (queued y2 (app_ques y2 ?t))" using y1(3) by auto
  obtain evs y3 where w: "qepoll_wait (int ?t) events maxevents timeout y2 = Inr (int (length evs), evs, y3)"
    "served (nat maxevents) (app_ques y2 ?t) [] y2 evs y3"
    using qepoll_wait_untimed [OF assms(7,8)] by blast
  have evs: "evs = take (nat maxevents) (filter (event_valid y2) (queued y2 (app_ques y2 ?t)))"
    "length evs < nat maxevents \<longrightarrow> queued y3 (app_ques y2 ?t) = []"
    using w(2) unfolding served_def list.size diff_zero append_Nil by blast+
  have "length (filter (event_valid y2) (queued y2 (app_ques y2 ?t))) < nat maxevents"
    using assms(9) by (rule le_less_trans [OF length_filter_le])
  then have "length evs < nat maxevents" by (simp add: evs(1))
  moreover have "qi_events e \<noteq> Q_EPOLLIN" if "e \<in> set evs" "qe_sockid e = qe_sockid q" for e
  proof -
    have "event_valid y2 e" using that(1) evs(1) by (auto dest: in_set_takeD)
    then show ?thesis
      using that(2) assms(6) y2(1) by (auto simp: event_valid_def Q_EPOLLIN_def Q_EPOLLOUT_def)
  qed
  moreover have "qe_sockid ?x = qe_sockid q" "qi_events ?x = Q_EPOLLIN" by (simp_all add: slot_write_def)
  ultimately show ?thesis
    using x w(1) evs(2) by blast
qed

theorem read_event_lost_witness:
  "\<exists>evs y3. qepoll_wait 0 1 3 (- 1) (announced Q_EPOLLOUT (demo_event 0) demo_sys1) = Inr (int (length evs), evs, y3)
     \<and> (\<forall>e \<in> set evs. qe_sockid e = 7 \<longrightarrow> qi_events e \<noteq> Q_EPOLLIN)"
proof -
  have "qe_sockid (demo_event 0) = 7"
    by (simp add: demo_event_def item_of_def CreateQevent_def qepoll_event.defs qepoll_item.defs)
  then show ?thesis
    using read_event_lost [OF demo_sys_wf(1) demo_event_ok [of 0] demo_sys1(1) demo_sys2(1,2) refl, of 1 3 "- 1"]
      demo_sys2(3,4) by (auto simp: demo_loc)
qed

text \<open>
  \<^verbatim>\<open>eventmgt_get\<close> hands out events one by one and prefers high priority: the next
  event is the first of those buffered with high priority, then those queued with high priority, then
  those buffered and those queued with low priority; it returns \<^verbatim>\<open>NULL\<close> only if there is none.
\<close>

lemma eventmgt_get_first:
  assumes "mgt_ok y i mgt"
  shows "\<exists>mgt' y'. eventmgt_get (int i) mgt y =
    Inr (next_event (buffered (em_events_h mgt) @ filter (event_valid y) (queued y (pri_ques y i 1))
          @ buffered (em_events_l mgt) @ filter (event_valid y) (queued y (pri_ques y i 0))), mgt', y')"
  by (rule eventmgt_get_serves [OF assms])

theorem eventmgt_get_first_witness:
  "\<exists>mgt' y'. eventmgt_get 0 (eventmgt_init 1 2 3 3) demo_sys1 = Inr (Some (demo_item Q_EPOLLIN 0), mgt', y')"
proof -
  have "mgt_ok demo_sys1 0 (eventmgt_init 1 2 3 3)"
    using demo_sys1(2) by (simp add: mgt_ok_def wait_ok_def eventmgt_init_def evmgtq_init_def mgtq_ok_def)
  moreover note demo_sys1_nums
  moreover have "queued demo_sys1 [(0, 1, 0)] = []" "queued demo_sys1 [(0, 0, 0)] = [demo_item Q_EPOLLIN 0]"
    by (simp_all add: demo_sys1_list)
  ultimately show ?thesis
    using eventmgt_get_first [of demo_sys1 0 "eventmgt_init 1 2 3 3"] demo_sys1(4)
    by (simp add: eventmgt_init_def evmgtq_init_def buffered_def pri_ques_def next_event_def del: queued_simps)
qed

text \<open>
  Events that a stream raised before its socket was registered wait in a list. The
  registration delivers the first of them; the others stay in the list for good: from then on new
  events bypass it, and the call that reads it finds it marked as read.
\<close>

lemma registration_strands_events:
  assumes "qepoll_ctl (int efd) Q_EPOLL_CTL_ADD (int fd) (Some ev) now s y = Inr (0, s', y')"
    "sm_socktype (qy_smap y fd) \<le> 1"
    "so_socktype (tb_sockets (qs_sockets s) fd) = SOCK_TYPE_STREAM" "so_stream (tb_sockets (qs_sockets s) fd) = p"
    "p \<noteq> NULL" "st_socket (qs_streams s p) = Some fd"
    "st_pdev_st (qs_streams s p) = Pdev_WRITEN" "st_pending_events (qs_streams s p) = e # es"
  shows "st_pending_events (qs_streams s' p) = es \<and> check_stream_event_validation p e' s' = Inr (True, s')
    \<and> get_pending_event fd s' = (None, s')"
proof -
  have "ctl_first efd fd now s (register_events fd (ev\<lparr>qe_sockid := fd, qe_apid := efd\<rparr>) y) = Inr (s', y')"
    using assms(1,2)
    by (auto simp: qepoll_ctl_def qepoll_consts register_events_def smap_upd_def bind_r_Inr_iff Let_def
        split: if_splits)
  note c = ctl_first_pending [OF this assms(3-8)]
  then show ?thesis
    using assms(5) by (simp add: check_stream_event_validation_def get_pending_event_def)
qed

text \<open>A stream that raised two events before its socket was registered.\<close>

definition demo_stack :: "(ipv4_5tuple \<Rightarrow> ptr option) qstack" where
  "demo_stack = stack0\<lparr>qs_sockets := demo_sockets, qs_streams := (\<lambda>_. zero_stream)(5 :=
     zero_stream\<lparr>st_socket := Some 7, st_pdev_st := Pdev_WRITEN,
       st_pending_events := [CreateQevent 1 0 7 0 Q_READ, CreateQevent 0 0 7 0 Q_READ]\<rparr>)\<rparr>"

lemma demo_ctl:
  "\<exists>s' y'. qepoll_ctl (int 0) Q_EPOLL_CTL_ADD (int 7) (Some (demo_event 0)) 9 demo_stack demo_sys = Inr (0, s', y')"
  by (simp add: qepoll_ctl_def qepoll_consts MAX_FLOW_NUM_def register_events_def smap_upd_def demo_sys_def
      q_init_manager_def AllocateSocket_def ctl_first_def bind_socket_with_qe_def get_pending_event_def demo_stack_def
      demo_sockets_def event_list_pop_def st_upd_def AddTimeEvent_def event_chan_def item_of_def CreateQevent_def
      qepoll_event.defs qepoll_item.defs split_beta Let_def)

theorem registration_strands_events_witness:
  "\<exists>s' y'. qepoll_ctl (int 0) Q_EPOLL_CTL_ADD (int 7) (Some (demo_event 0)) 9 demo_stack demo_sys = Inr (0, s', y')
     \<and> st_pending_events (qs_streams s' 5) = [CreateQevent 0 0 7 0 Q_READ] \<and> get_pending_event 7 s' = (None, s')"
proof -
  obtain s' y' where c: "qepoll_ctl (int 0) Q_EPOLL_CTL_ADD (int 7) (Some (demo_event 0)) 9 demo_stack demo_sys
      = Inr (0, s', y')" using demo_ctl by blast
  show ?thesis
    using registration_strands_events [OF c, of 5] c
    by (simp add: demo_stack_def demo_sockets_def demo_sys_def q_init_manager_def AllocateSocket_def)
qed

end
