(* ===== verification/Driver.thy ===== *)
theory Driver
  imports Packet_Out
begin

text \<open>
  The polling of the network card: the receive and transmit rings of \<^verbatim>\<open>dpdk_module.c\<close> and
  the calls of \<^verbatim>\<open>io_module.c\<close> by which the stack takes packets and has them sent. The card is
  the record \<open>nic\<close>. Two functions the driver calls are parameters: the application's filter that
  gives a received packet its priority, and DPDK's checksum of the pseudo header. The core an mbuf
  belongs to, the offload flags and the counters are left out.
\<close>

section \<open>Receiving\<close>

definition MAX_PKT_BURST :: nat where "MAX_PKT_BURST = 256"
definition MAX_PKT_TX_BURST :: nat where "MAX_PKT_TX_BURST = 64"
definition MAX_TX_CHECK_BATCH :: nat where "MAX_TX_CHECK_BATCH = 5"

definition default_driver_pri_filter :: "mbuf \<Rightarrow> int" where
  "default_driver_pri_filter mb = 0"

definition dp_upd :: "(dpdk_private_context \<Rightarrow> dpdk_private_context) \<Rightarrow> 'h qstack \<Rightarrow> 'h qstack" where
  "dp_upd f s = s\<lparr>qs_dpdk := f (qs_dpdk s)\<rparr>"

definition dpdk_soft_filter :: "(mbuf \<Rightarrow> int) \<Rightarrow> ptr \<Rightarrow> 'h qstack \<Rightarrow> int \<times> 'h qstack" where
  "dpdk_soft_filter flt p s =
     (let ret = flt (mbuf_at s p) in (ret, mem_upd p (\<lambda>mb. mb\<lparr>mb_priority := truthy ret\<rparr>) s))"

definition dpdk_get_rx_state :: "int \<Rightarrow> 'h qstack \<Rightarrow> u32" where
  "dpdk_get_rx_state level s =
     (if level = 0 then cirq_count (dp_rl_mbufs (qs_dpdk s)) else cirq_count (dp_rh_mbufs (qs_dpdk s)))"

definition io_get_rx_backlog :: "'h qstack \<Rightarrow> u32" where
  "io_get_rx_backlog s = dpdk_get_rx_state 0 s + dpdk_get_rx_state 1 s"

text \<open>
  The mbufs that other cores gave back; one round per mbuf, and one that finds no more. A queue that
  does not return is one of the consumer's own index out of range.
\<close>

fun rxfree_loop :: "nat \<Rightarrow> dpdk_private_context \<Rightarrow> dpdk_private_context result" where
  "rxfree_loop 0 d = Inl Diverges"
| "rxfree_loop (Suc fuel) d =
     (case n21q_dequeue (dp_rxfree_queue d) of
        None \<Rightarrow> Inl Diverges
      | Some (p, q) \<Rightarrow>
          if p = NULL then Inr (d\<lparr>dp_rxfree_queue := q\<rparr>)
          else rxfree_loop fuel (d\<lparr>dp_rxfree_queue := q,
                 dp_nic := (dp_nic d)\<lparr>nic_freed := nic_freed (dp_nic d) @ [p]\<rparr>\<rparr>))"

definition n21q_total :: "n21_queue \<Rightarrow> nat" where
  "n21q_total q = sum_list (map (\<lambda>c. length (cirq_list c)) (nq_queues q))"

text \<open>
  The packets of one burst go to the queue of their priority. A full queue ends the process; a
  packet whose priority is neither 0 nor 1 goes to no queue.
\<close>

definition rx_enqueue :: "(mbuf \<Rightarrow> int) \<Rightarrow> ptr \<Rightarrow> 'h qstack \<Rightarrow> 'h qstack result" where
  "rx_enqueue flt p s =
     (let (level, s1) = dpdk_soft_filter flt p s
      in if level = 0
         then let (r, q) = cirq_add (dp_rl_mbufs (qs_dpdk s1)) p
              in if r \<noteq> SUCCESS then Inl Exit0 else Inr (dp_upd (\<lambda>d. d\<lparr>dp_rl_mbufs := q\<rparr>) s1)
         else if level = 1
         then let (r, q) = cirq_add (dp_rh_mbufs (qs_dpdk s1)) p
              in if r \<noteq> SUCCESS then Inl Exit0 else Inr (dp_upd (\<lambda>d. d\<lparr>dp_rh_mbufs := q\<rparr>) s1)
         else Inr s1)"

fun rx_deliver :: "(mbuf \<Rightarrow> int) \<Rightarrow> ptr list \<Rightarrow> 'h qstack \<Rightarrow> 'h qstack result" where
  "rx_deliver flt [] s = Inr s"
| "rx_deliver flt (p # ps) s = bind_r (rx_enqueue flt p s) (rx_deliver flt ps)"

text \<open>Bursts are read until one is empty.\<close>

fun rx_again :: "(mbuf \<Rightarrow> int) \<Rightarrow> ptr list list \<Rightarrow> 'h qstack \<Rightarrow> 'h qstack result" where
  "rx_again flt [] s = Inr (dp_upd (\<lambda>d. d\<lparr>dp_nic := (dp_nic d)\<lparr>nic_rx := []\<rparr>\<rparr>) s)"
| "rx_again flt (b # bs) s =
     (if b = [] then Inr (dp_upd (\<lambda>d. d\<lparr>dp_nic := (dp_nic d)\<lparr>nic_rx := bs\<rparr>\<rparr>) s)
      else bind_r (rx_deliver flt b s) (rx_again flt bs))"

definition dpdk_check_rx_ring :: "(mbuf \<Rightarrow> int) \<Rightarrow> 'h qstack \<Rightarrow> (u32 \<times> 'h qstack) result" where
  "dpdk_check_rx_ring flt s =
     bind_r (rxfree_loop (n21q_total (dp_rxfree_queue (qs_dpdk s)) + 1) (qs_dpdk s)) (\<lambda>d.
     bind_r (rx_again flt (nic_rx (dp_nic d)) (s\<lparr>qs_dpdk := d\<rparr>)) (\<lambda>s1.
       Inr (cirq_count (dp_rh_mbufs (qs_dpdk s1)) + cirq_count (dp_rl_mbufs (qs_dpdk s1)), s1)))"

definition io_recv_check :: "(mbuf \<Rightarrow> int) \<Rightarrow> 'h qstack \<Rightarrow> (u32 \<times> 'h qstack) result" where
  "io_recv_check flt s = dpdk_check_rx_ring flt s"

definition dpdk_rx_receive_one :: "int \<Rightarrow> 'h qstack \<Rightarrow> (ptr \<times> 'h qstack) result" where
  "dpdk_rx_receive_one level s =
     (let (tag, s1) = (if level = 1
            then let (p, q) = cirq_get (dp_rh_mbufs (qs_dpdk s)) in (p, dp_upd (\<lambda>d. d\<lparr>dp_rh_mbufs := q\<rparr>) s)
            else (NULL, s))
      in if tag \<noteq> NULL then Inr (tag, s1)
         else let (p, q) = cirq_get (dp_rl_mbufs (qs_dpdk s1));
                  s2 = dp_upd (\<lambda>d. d\<lparr>dp_rl_mbufs := q\<rparr>) s1
              in if p \<noteq> NULL then Inr (p, s2) else Inl Exit0)"

definition io_recv_mbuf :: "'h qstack \<Rightarrow> (ptr \<times> u16 \<times> 'h qstack) result" where
  "io_recv_mbuf s =
     bind_r (dpdk_rx_receive_one 1 s) (\<lambda>(point, s1).
     bind_r (if point = NULL then dpdk_rx_receive_one 0 s1 else Inr (point, s1)) (\<lambda>(point, s2).
       if point = NULL then Inl Exit0
       else Inr (point, ucast (mb_pkt_len (mbuf_at s2 point)), s2)))"

section \<open>Transmitting\<close>

definition set_l3_len :: "u64 \<Rightarrow> u64 \<Rightarrow> u64" where
  "set_l3_len v w = (w AND NOT (push_bit 7 0x1FF)) OR push_bit 7 (take_bit 9 v)"

definition add_tx_checksum_offloading_flag :: "(iphdr \<Rightarrow> u16) \<Rightarrow> mbuf \<Rightarrow> int \<times> mbuf" where
  "add_tx_checksum_offloading_flag ck mb =
     (if ntohs (eth_proto (mb_eth mb)) \<noteq> ETH_P_IP \<or> ip_protocol (mb_iph mb) \<noteq> IPPROTO_TCP then (1, mb)
      else let iph = (mb_iph mb)\<lparr>ip_check := 0\<rparr>
           in (1, mb\<lparr>mb_iph := iph, mb_tcph := (mb_tcph mb)\<lparr>th_check := ck iph\<rparr>,
                 mb_tx_offload := set_l4_len (of_nat (th_doff (mb_tcph mb) * 4))
                   (set_l3_len (of_nat (ip_ihl iph * 4)) (set_l2_len 14 (mb_tx_offload mb)))\<rparr>))"

text \<open>One call of \<^verbatim>\<open>rte_eth_tx_burst\<close> with the waiting packets, and the move of the rest to
  the front of the array.\<close>

definition tx_room :: "dpdk_private_context \<Rightarrow> nat" where
  "tx_room d = (case nic_tx_room (dp_nic d) of [] \<Rightarrow> dp_tx_num d | r # rs \<Rightarrow> min r (dp_tx_num d))"

definition rte_eth_tx_burst :: "dpdk_private_context \<Rightarrow> nat \<times> dpdk_private_context" where
  "rte_eth_tx_burst d =
     (let nb_tx = tx_room d
      in (nb_tx, d\<lparr>dp_nic := (dp_nic d)\<lparr>nic_tx_room := tl (nic_tx_room (dp_nic d)),
                     nic_sent := nic_sent (dp_nic d) @ take nb_tx (dp_pkts_txburst d)\<rparr>\<rparr>))"

definition tx_move :: "nat \<Rightarrow> nat \<Rightarrow> ptr list \<Rightarrow> ptr list" where
  "tx_move nb_tx num a = fold (\<lambda>i a. a[i := a ! (i + nb_tx)]) [0..<num] a"

definition tx_burst :: "dpdk_private_context \<Rightarrow> nat \<times> dpdk_private_context" where
  "tx_burst d =
     (let (nb_tx, d1) = rte_eth_tx_burst d;
          num = dp_tx_num d - nb_tx
      in (nb_tx, d1\<lparr>dp_tx_num := num, dp_pkts_txburst := tx_move nb_tx num (dp_pkts_txburst d1)\<rparr>))"

text \<open>
  The inner loop of the high queue. \<open>left\<close> is how many bursts the call may still make; the
  first component tells whether the call returns.
\<close>

fun tx_flush :: "nat \<Rightarrow> nat \<Rightarrow> dpdk_private_context \<Rightarrow> bool \<times> nat \<times> nat \<times> dpdk_private_context" where
  "tx_flush 0 tx_sum d = (True, 0, tx_sum, d)"
| "tx_flush (Suc left) tx_sum d =
     (if dp_tx_num d = 0 then (False, Suc left, tx_sum, d)
      else let (nb_tx, d1) = tx_burst d
           in if left = 0 then (True, 0, tx_sum + nb_tx, d1) else tx_flush left (tx_sum + nb_tx) d1)"

text \<open>The packet at the head of a queue goes behind the waiting ones. The array has 256 places.\<close>

definition tx_take :: "(iphdr \<Rightarrow> u16) \<Rightarrow> ptr \<Rightarrow> 'h qstack \<Rightarrow> 'h qstack result" where
  "tx_take ck p s =
     (let num = dp_tx_num (qs_dpdk s)
      in if num \<ge> MAX_PKT_BURST then Inl Undefined
         else if p = NULL then Inl Exit0
         else let (ret, mb) = add_tx_checksum_offloading_flag ck (mbuf_at s p)
              in if ret \<noteq> 1 then Inl Exit0
                 else Inr (dp_upd (\<lambda>d. d\<lparr>dp_pkts_txburst := (dp_pkts_txburst d)[num := p], dp_tx_num := num + 1\<rparr>)
                             (mem_upd p (\<lambda>_. mb) s)))"

fun tx_high_loop :: "(iphdr \<Rightarrow> u16) \<Rightarrow> nat \<Rightarrow> nat \<Rightarrow> nat \<Rightarrow> 'h qstack \<Rightarrow> (bool \<times> nat \<times> 'h qstack) result" where
  "tx_high_loop ck 0 left tx_sum s = Inl Diverges"
| "tx_high_loop ck (Suc fuel) left tx_sum s =
     (if cirq_empty (dp_th_mbufs (qs_dpdk s)) then Inr (False, tx_sum, s)
      else let (p, q) = cirq_get (dp_th_mbufs (qs_dpdk s))
           in bind_r (tx_take ck p (dp_upd (\<lambda>d. d\<lparr>dp_th_mbufs := q\<rparr>) s)) (\<lambda>s1.
                if dp_tx_num (qs_dpdk s1) \<ge> MAX_PKT_TX_BURST
                then let (ret, left1, tx_sum1, d) = tx_flush left tx_sum (qs_dpdk s1);
                         s2 = s1\<lparr>qs_dpdk := d\<rparr>
                     in if ret then Inr (True, tx_sum1, s2) else tx_high_loop ck fuel left1 tx_sum1 s2
                else tx_high_loop ck fuel left tx_sum s1))"

text \<open>The low queue: the first full burst ends the loop, and so does an empty entry.\<close>

fun tx_low_loop :: "(iphdr \<Rightarrow> u16) \<Rightarrow> nat \<Rightarrow> nat \<Rightarrow> 'h qstack \<Rightarrow> (nat \<times> 'h qstack) result" where
  "tx_low_loop ck 0 tx_sum s = Inl Diverges"
| "tx_low_loop ck (Suc fuel) tx_sum s =
     (if cirq_empty (dp_tl_mbufs (qs_dpdk s)) then Inr (tx_sum, s)
      else let (p, q) = cirq_get (dp_tl_mbufs (qs_dpdk s));
               s1 = dp_upd (\<lambda>d. d\<lparr>dp_tl_mbufs := q\<rparr>) s
           in if p = NULL \<and> dp_tx_num (qs_dpdk s) < MAX_PKT_BURST
              then Inr (tx_sum, dp_upd (\<lambda>d. d\<lparr>dp_pkts_txburst := (dp_pkts_txburst d)[dp_tx_num d := NULL]\<rparr>) s1)
              else bind_r (tx_take ck p s1) (\<lambda>s2.
                if dp_tx_num (qs_dpdk s2) \<ge> MAX_PKT_TX_BURST
                then let (nb_tx, d) = tx_burst (qs_dpdk s2) in Inr (tx_sum + nb_tx, s2\<lparr>qs_dpdk := d\<rparr>)
                else tx_low_loop ck fuel tx_sum s2))"

text \<open>The last burst clears the places of the packets sent before it moves the rest.\<close>

definition tx_last :: "dpdk_private_context \<Rightarrow> nat \<times> dpdk_private_context" where
  "tx_last d =
     (if dp_tx_num d = 0 then (0, d)
      else let (nb_tx, d1) = rte_eth_tx_burst d;
               num = dp_tx_num d - nb_tx;
               a = fold (\<lambda>i a. a[i := NULL]) [0..<nb_tx] (dp_pkts_txburst d1)
           in (nb_tx, d1\<lparr>dp_tx_num := num, dp_pkts_txburst := tx_move nb_tx num a\<rparr>))"

definition dpdk_check_tx_ring :: "(iphdr \<Rightarrow> u16) \<Rightarrow> 'h qstack \<Rightarrow> (nat \<times> 'h qstack) result" where
  "dpdk_check_tx_ring ck s =
     bind_r (tx_high_loop ck (length (cirq_list (dp_th_mbufs (qs_dpdk s))) + 1) MAX_TX_CHECK_BATCH 0 s) (\<lambda>(ret, tx_sum, s1).
       if ret then Inr (tx_sum, s1)
       else bind_r (tx_low_loop ck (length (cirq_list (dp_tl_mbufs (qs_dpdk s1))) + 1) tx_sum s1) (\<lambda>(tx_sum, s2).
              let (nb_tx, d) = tx_last (qs_dpdk s2) in Inr (tx_sum + nb_tx, s2\<lparr>qs_dpdk := d\<rparr>)))"

definition io_send_check :: "(iphdr \<Rightarrow> u16) \<Rightarrow> 'h qstack \<Rightarrow> (nat \<times> 'h qstack) result" where
  "io_send_check ck s = dpdk_check_tx_ring ck s"

section \<open>The transmit path keeps the order\<close>

text \<open>The packets waiting in the array, and all packets on their way out in the order they entered.\<close>

definition tx_waiting :: "dpdk_private_context \<Rightarrow> ptr list" where
  "tx_waiting d = take (dp_tx_num d) (dp_pkts_txburst d)"

definition tx_line :: "dpdk_private_context \<Rightarrow> ptr list" where
  "tx_line d = nic_sent (dp_nic d) @ tx_waiting d @ cirq_list (dp_th_mbufs d)"

definition tx_ok :: "dpdk_private_context \<Rightarrow> bool" where
  "tx_ok d \<longleftrightarrow> length (dp_pkts_txburst d) = MAX_PKT_BURST \<and> cirq_wf (dp_th_mbufs d)
     \<and> NULL \<notin> set (cirq_list (dp_th_mbufs d)) \<and> cirq_wf (dp_tl_mbufs d) \<and> cirq_list (dp_tl_mbufs d) = []"

lemma tx_move_nth:
  "num + nb \<le> length a \<Longrightarrow> length (tx_move nb num a) = length a
   \<and> (\<forall>j < length a. tx_move nb num a ! j = (if j < num then a ! (j + nb) else a ! j))"
proof (induction num)
  case (Suc num)
  then show ?case by (auto simp: tx_move_def nth_list_update less_Suc_eq)
qed (simp add: tx_move_def)

lemma tx_move_take:
  assumes "num + nb \<le> length a"
  shows "take num (tx_move nb num a) = take num (drop nb a)" "length (tx_move nb num a) = length a"
  using tx_move_nth [OF assms] assms by (auto intro!: nth_equalityI simp: add.commute)

lemma tx_room_le: "tx_room d \<le> dp_tx_num d"
  by (simp add: tx_room_def split: list.split)

lemma take_split: "n \<le> m \<Longrightarrow> take n xs @ take (m - n) (drop n xs) = take m xs"
  by (metis le_add_diff_inverse take_add)

lemma tx_burst_line:
  assumes "tx_burst d = (nb, d')" "dp_tx_num d \<le> length (dp_pkts_txburst d)"
  shows "nb \<le> dp_tx_num d" "dp_tx_num d' = dp_tx_num d - nb" "tx_line d' = tx_line d"
    "length (nic_sent (dp_nic d')) = length (nic_sent (dp_nic d)) + nb" "tx_ok d' = tx_ok d"
    "length (dp_pkts_txburst d') = length (dp_pkts_txburst d)"
    "nic_tx_room (dp_nic d') = tl (nic_tx_room (dp_nic d))" "dp_th_mbufs d' = dp_th_mbufs d"
proof -
  let ?num = "dp_tx_num d - tx_room d"
  have d': "nb = tx_room d" "d' = d\<lparr>dp_nic := (dp_nic d)\<lparr>nic_tx_room := tl (nic_tx_room (dp_nic d)),
      nic_sent := nic_sent (dp_nic d) @ take nb (dp_pkts_txburst d)\<rparr>, dp_tx_num := ?num,
      dp_pkts_txburst := tx_move nb ?num (dp_pkts_txburst d)\<rparr>"
    using assms(1) by (auto simp: tx_burst_def rte_eth_tx_burst_def Let_def)
  have nb: "nb \<le> dp_tx_num d" using tx_room_le d'(1) by simp
  then have le: "?num + nb \<le> length (dp_pkts_txburst d)" using assms(2) d'(1) by simp
  have "take nb (dp_pkts_txburst d) @ take ?num (tx_move nb ?num (dp_pkts_txburst d)) = tx_waiting d"
    using take_split [OF nb, of "dp_pkts_txburst d"] tx_move_take(1) [OF le] d'(1) by (simp add: tx_waiting_def)
  then show "nb \<le> dp_tx_num d" "dp_tx_num d' = dp_tx_num d - nb" "tx_line d' = tx_line d"
    "length (nic_sent (dp_nic d')) = length (nic_sent (dp_nic d)) + nb" "tx_ok d' = tx_ok d"
    "length (dp_pkts_txburst d') = length (dp_pkts_txburst d)"
    "nic_tx_room (dp_nic d') = tl (nic_tx_room (dp_nic d))" "dp_th_mbufs d' = dp_th_mbufs d"
    using nb assms(2) tx_move_take(2) [OF le] by (auto simp: d'(2) d'(1) tx_line_def tx_waiting_def tx_ok_def)
qed

lemma tx_flush_line:
  "tx_flush left tx_sum d = (ret, left', tx_sum', d') \<Longrightarrow> dp_tx_num d \<le> length (dp_pkts_txburst d) \<Longrightarrow>
   tx_line d' = tx_line d \<and> tx_ok d' = tx_ok d \<and> dp_th_mbufs d' = dp_th_mbufs d \<and> dp_tx_num d' \<le> dp_tx_num d
   \<and> length (dp_pkts_txburst d') = length (dp_pkts_txburst d)
   \<and> length (nic_sent (dp_nic d')) + tx_sum = length (nic_sent (dp_nic d)) + tx_sum'
   \<and> (\<not> ret \<longrightarrow> dp_tx_num d' = 0)"
proof (induction left tx_sum d rule: tx_flush.induct)
  case (2 left tx_sum d)
  obtain nb d1 where b: "tx_burst d = (nb, d1)" by (cases "tx_burst d")
  note t = tx_burst_line [OF b "2.prems"(2)]
  show ?case
  proof (cases "dp_tx_num d = 0 \<or> left = 0")
    case True
    then show ?thesis using 2 b t by (auto split: if_splits)
  next
    case False
    have "dp_tx_num d1 \<le> length (dp_pkts_txburst d1)" using t "2.prems"(2) by simp
    then show ?thesis using "2.IH" [of "(nb, d1)"] False b t "2.prems" by (auto split: if_splits)
  qed
qed auto

lemma tx_take_line:
  assumes "tx_ok (qs_dpdk s)" "cirq_list (dp_th_mbufs (qs_dpdk s)) = p # ps" "dp_tx_num (qs_dpdk s) < MAX_PKT_BURST"
  obtains s1 where "tx_take ck p (dp_upd (\<lambda>d. d\<lparr>dp_th_mbufs := snd (cirq_get (dp_th_mbufs d))\<rparr>) s) = Inr s1"
    "tx_ok (qs_dpdk s1)" "tx_line (qs_dpdk s1) = tx_line (qs_dpdk s)" "cirq_list (dp_th_mbufs (qs_dpdk s1)) = ps"
    "dp_tx_num (qs_dpdk s1) = dp_tx_num (qs_dpdk s) + 1" "dp_nic (qs_dpdk s1) = dp_nic (qs_dpdk s)"
proof -
  let ?d = "qs_dpdk s"
  let ?mb = "snd (add_tx_checksum_offloading_flag ck (mbuf_at s p))"
  define s1 where "s1 = dp_upd (\<lambda>d. d\<lparr>dp_pkts_txburst := (dp_pkts_txburst d)[dp_tx_num ?d := p], dp_tx_num := dp_tx_num ?d + 1\<rparr>)
    (mem_upd p (\<lambda>_. ?mb) (dp_upd (\<lambda>d. d\<lparr>dp_th_mbufs := snd (cirq_get (dp_th_mbufs d))\<rparr>) s))"
  have p: "p \<noteq> NULL" "fst (cirq_get (dp_th_mbufs ?d)) = p" "cirq_list (snd (cirq_get (dp_th_mbufs ?d))) = ps"
      "cirq_wf (snd (cirq_get (dp_th_mbufs ?d)))"
    using assms cirq_get_item [of "dp_th_mbufs ?d" p ps] by (auto simp: tx_ok_def)
  have one: "fst (add_tx_checksum_offloading_flag ck mb) = 1" for mb
    by (simp add: add_tx_checksum_offloading_flag_def Let_def)
  have d1: "qs_dpdk s1 = ?d\<lparr>dp_th_mbufs := snd (cirq_get (dp_th_mbufs ?d)),
      dp_pkts_txburst := (dp_pkts_txburst ?d)[dp_tx_num ?d := p], dp_tx_num := dp_tx_num ?d + 1\<rparr>"
    by (simp add: s1_def dp_upd_def)
  have "take (dp_tx_num ?d + 1) ((dp_pkts_txburst ?d)[dp_tx_num ?d := p]) = tx_waiting ?d @ [p]"
    using assms by (simp add: tx_waiting_def tx_ok_def take_Suc_conv_app_nth)
  then have line: "tx_line (qs_dpdk s1) = tx_line ?d"
    using p assms(2) by (simp add: d1 tx_line_def tx_waiting_def)
  show thesis
  proof (rule that)
    show "tx_take ck p (dp_upd (\<lambda>d. d\<lparr>dp_th_mbufs := snd (cirq_get (dp_th_mbufs d))\<rparr>) s) = Inr s1"
      using assms(3) p one [of "mbuf_at s p"] by (simp add: tx_take_def Let_def split_beta s1_def dp_upd_def)
  qed (use assms p line in \<open>auto simp: d1 tx_ok_def\<close>)
qed

lemma tx_high_loop_line:
  "tx_ok (qs_dpdk s) \<Longrightarrow> dp_tx_num (qs_dpdk s) < MAX_PKT_BURST \<Longrightarrow>
   length (cirq_list (dp_th_mbufs (qs_dpdk s))) < fuel \<Longrightarrow>
   \<exists>ret tx_sum' s'. tx_high_loop ck fuel left tx_sum s = Inr (ret, tx_sum', s') \<and> tx_ok (qs_dpdk s')
     \<and> tx_line (qs_dpdk s') = tx_line (qs_dpdk s)
     \<and> length (nic_sent (dp_nic (qs_dpdk s'))) + tx_sum = length (nic_sent (dp_nic (qs_dpdk s))) + tx_sum'
     \<and> dp_tx_num (qs_dpdk s') \<le> max 64 (dp_tx_num (qs_dpdk s) + 1)
     \<and> (\<not> ret \<longrightarrow> cirq_list (dp_th_mbufs (qs_dpdk s')) = [])"
proof (induction fuel arbitrary: left tx_sum s)
  case (Suc fuel)
  let ?q = "dp_th_mbufs (qs_dpdk s)"
  have wf: "cirq_wf ?q" using Suc.prems by (simp add: tx_ok_def)
  show ?case
  proof (cases "cirq_list ?q")
    case Nil
    then show ?thesis using Suc.prems by (intro exI [of _ False]) (simp add: cirq_empty_iff [OF wf])
  next
    case (Cons p ps)
    then have ne: "\<not> cirq_empty ?q" by (simp add: cirq_empty_iff [OF wf])
    have g: "cirq_get ?q = (p, snd (cirq_get ?q))" using cirq_get_item(1) [OF wf Cons] by (metis prod.collapse)
    obtain s1 where s1: "tx_take ck p (dp_upd (\<lambda>d. d\<lparr>dp_th_mbufs := snd (cirq_get (dp_th_mbufs d))\<rparr>) s) = Inr s1"
      "tx_ok (qs_dpdk s1)" "tx_line (qs_dpdk s1) = tx_line (qs_dpdk s)" "cirq_list (dp_th_mbufs (qs_dpdk s1)) = ps"
      "dp_tx_num (qs_dpdk s1) = dp_tx_num (qs_dpdk s) + 1" "dp_nic (qs_dpdk s1) = dp_nic (qs_dpdk s)"
      by (rule tx_take_line [OF Suc.prems(1) Cons Suc.prems(2)])
    have take: "tx_take ck p (dp_upd (\<lambda>d. d\<lparr>dp_th_mbufs := snd (cirq_get ?q)\<rparr>) s) = Inr s1"
      using s1(1) by (simp add: dp_upd_def)
    obtain ret left' sum' d where f: "tx_flush left tx_sum (qs_dpdk s1) = (ret, left', sum', d)"
      by (metis prod_cases4)
    have "dp_tx_num (qs_dpdk s1) \<le> length (dp_pkts_txburst (qs_dpdk s1))"
      using s1(2,5) Suc.prems(2) by (simp add: tx_ok_def)
    note fl = tx_flush_line [OF f this]
    have step: "tx_high_loop ck (Suc fuel) left tx_sum s =
        (if dp_tx_num (qs_dpdk s1) \<ge> MAX_PKT_TX_BURST
         then if ret then Inr (True, sum', s1\<lparr>qs_dpdk := d\<rparr>) else tx_high_loop ck fuel left' sum' (s1\<lparr>qs_dpdk := d\<rparr>)
         else tx_high_loop ck fuel left tx_sum s1)"
    proof -
      obtain q where q: "cirq_get ?q = (p, q)" "snd (cirq_get ?q) = q" using g by metis
      then show ?thesis using ne take f by simp
    qed
    show ?thesis
    proof (cases "dp_tx_num (qs_dpdk s1) \<ge> MAX_PKT_TX_BURST")
      case big: True
      show ?thesis
      proof (cases ret)
        case True
        then show ?thesis unfolding step using big fl s1
          by (intro exI [of _ True] exI [of _ sum'] exI [of _ "s1\<lparr>qs_dpdk := d\<rparr>"]) auto
      next
        case False
        let ?s = "s1\<lparr>qs_dpdk := d\<rparr>"
        have "tx_ok (qs_dpdk ?s)" "dp_tx_num (qs_dpdk ?s) = 0" "cirq_list (dp_th_mbufs (qs_dpdk ?s)) = ps"
          using fl s1 False by simp_all
        then have "\<exists>ret tx_sum' s'. tx_high_loop ck fuel left' sum' ?s = Inr (ret, tx_sum', s') \<and> tx_ok (qs_dpdk s')
          \<and> tx_line (qs_dpdk s') = tx_line d
          \<and> length (nic_sent (dp_nic (qs_dpdk s'))) + sum' = length (nic_sent (dp_nic d)) + tx_sum'
          \<and> dp_tx_num (qs_dpdk s') \<le> max 64 1 \<and> (\<not> ret \<longrightarrow> cirq_list (dp_th_mbufs (qs_dpdk s')) = [])"
          using Suc.IH [of ?s left' sum'] Cons Suc.prems(3) by (simp add: MAX_PKT_BURST_def)
        then show ?thesis unfolding step using big False fl s1 by fastforce
      qed
    next
      case False
      then have small: "dp_tx_num (qs_dpdk s1) < 64" by (simp add: MAX_PKT_TX_BURST_def)
      then obtain ret tx_sum' s' where r: "tx_high_loop ck fuel left tx_sum s1 = Inr (ret, tx_sum', s')" "tx_ok (qs_dpdk s')"
        "tx_line (qs_dpdk s') = tx_line (qs_dpdk s1)"
        "length (nic_sent (dp_nic (qs_dpdk s'))) + tx_sum = length (nic_sent (dp_nic (qs_dpdk s1))) + tx_sum'"
        "dp_tx_num (qs_dpdk s') \<le> max 64 (dp_tx_num (qs_dpdk s1) + 1)"
        "\<not> ret \<longrightarrow> cirq_list (dp_th_mbufs (qs_dpdk s')) = []"
        using Suc.IH [of s1 left tx_sum] s1 Cons Suc.prems(3) by (auto simp: MAX_PKT_BURST_def)
      have "dp_tx_num (qs_dpdk s') \<le> max 64 (dp_tx_num (qs_dpdk s) + 1)" using r(5) small by simp
      then show ?thesis unfolding step using r s1 False
        by (intro exI [of _ ret] exI [of _ tx_sum'] exI [of _ s']) simp
    qed
  qed
qed simp

lemma clear_front:
  "n \<le> length a \<Longrightarrow> length (fold (\<lambda>i a. a[i := NULL]) [0..<n] a) = length a
   \<and> drop n (fold (\<lambda>i a. a[i := NULL]) [0..<n] a) = drop n a"
proof (induction n)
  case (Suc n)
  let ?b = "fold (\<lambda>i a. a[i := NULL]) [0..<n] a"
  have "drop n ?b = drop n a" using Suc by simp
  then have "drop (Suc n) ?b = drop (Suc n) a" by (metis drop_drop plus_1_eq_Suc)
  then show ?case using Suc by simp
qed simp

lemma tx_last_line:
  assumes "tx_ok d" "dp_tx_num d \<le> MAX_PKT_BURST" "tx_last d = (nb, d')"
  shows "tx_ok d' \<and> tx_line d' = tx_line d \<and> dp_tx_num d' \<le> dp_tx_num d
    \<and> length (nic_sent (dp_nic d')) = length (nic_sent (dp_nic d)) + nb"
proof (cases "dp_tx_num d = 0")
  case True
  then show ?thesis using assms by (simp add: tx_last_def)
next
  case False
  let ?num = "dp_tx_num d - nb" and ?a = "fold (\<lambda>i a. a[i := NULL]) [0..<nb] (dp_pkts_txburst d)"
  have d': "nb = tx_room d" "d' = d\<lparr>dp_nic := (dp_nic d)\<lparr>nic_tx_room := tl (nic_tx_room (dp_nic d)),
      nic_sent := nic_sent (dp_nic d) @ take nb (dp_pkts_txburst d)\<rparr>, dp_tx_num := ?num,
      dp_pkts_txburst := tx_move nb ?num ?a\<rparr>"
    using assms(3) False by (auto simp: tx_last_def rte_eth_tx_burst_def Let_def)
  have nb: "nb \<le> dp_tx_num d" using tx_room_le d'(1) by simp
  have len: "length (dp_pkts_txburst d) = MAX_PKT_BURST" using assms(1) by (simp add: tx_ok_def)
  have a: "length ?a = length (dp_pkts_txburst d)" "drop nb ?a = drop nb (dp_pkts_txburst d)"
    using clear_front [of nb "dp_pkts_txburst d"] nb assms(2) len by simp_all
  have le: "?num + nb \<le> length ?a" using nb assms(2) len a by simp
  have "take nb (dp_pkts_txburst d) @ take ?num (tx_move nb ?num ?a) = tx_waiting d"
    using take_split [OF nb, of "dp_pkts_txburst d"] tx_move_take(1) [OF le] a by (simp add: tx_waiting_def)
  then show ?thesis
    using nb assms len a tx_move_take(2) [OF le] by (auto simp: d'(2) tx_line_def tx_waiting_def tx_ok_def)
qed

lemma check_tx_ring_line:
  assumes ok: "tx_ok (qs_dpdk s)" and num: "dp_tx_num (qs_dpdk s) < MAX_PKT_BURST"
  shows "\<exists>n s'. dpdk_check_tx_ring ck s = Inr (n, s') \<and> tx_ok (qs_dpdk s')
    \<and> tx_line (qs_dpdk s') = tx_line (qs_dpdk s)
    \<and> length (nic_sent (dp_nic (qs_dpdk s'))) = length (nic_sent (dp_nic (qs_dpdk s))) + n
    \<and> dp_tx_num (qs_dpdk s') \<le> max 64 (dp_tx_num (qs_dpdk s) + 1)"
proof -
  obtain ret n s1 where h: "tx_high_loop ck (length (cirq_list (dp_th_mbufs (qs_dpdk s))) + 1) MAX_TX_CHECK_BATCH 0 s
      = Inr (ret, n, s1)" "tx_ok (qs_dpdk s1)" "tx_line (qs_dpdk s1) = tx_line (qs_dpdk s)"
      "length (nic_sent (dp_nic (qs_dpdk s1))) = length (nic_sent (dp_nic (qs_dpdk s))) + n"
      "dp_tx_num (qs_dpdk s1) \<le> max 64 (dp_tx_num (qs_dpdk s) + 1)"
    using tx_high_loop_line [OF ok num, of "length (cirq_list (dp_th_mbufs (qs_dpdk s))) + 1" ck MAX_TX_CHECK_BATCH 0] by auto
  show ?thesis
  proof (cases ret)
    case True
    then show ?thesis using h by (simp add: dpdk_check_tx_ring_def)
  next
    case False
    obtain nb d where l: "tx_last (qs_dpdk s1) = (nb, d)" by (cases "tx_last (qs_dpdk s1)")
    have "dp_tx_num (qs_dpdk s1) \<le> MAX_PKT_BURST" using h(5) num by (simp add: MAX_PKT_BURST_def)
    note t = tx_last_line [OF h(2) this l]
    have "cirq_wf (dp_tl_mbufs (qs_dpdk s1))" "cirq_list (dp_tl_mbufs (qs_dpdk s1)) = []"
      using h(2) by (simp_all add: tx_ok_def)
    then have "dpdk_check_tx_ring ck s = Inr (n + nb, s1\<lparr>qs_dpdk := d\<rparr>)"
      using h(1) False l by (simp add: dpdk_check_tx_ring_def cirq_empty_iff)
    then show ?thesis using t h by auto
  qed
qed

subsection \<open>A card that accepts nothing\<close>

lemma tx_burst_refused:
  assumes "nic_tx_room (dp_nic d) = 0 # rs" "dp_tx_num d \<le> length (dp_pkts_txburst d)"
  obtains d' where "tx_burst d = (0, d')" "dp_tx_num d' = dp_tx_num d" "tx_ok d' = tx_ok d"
    "dp_th_mbufs d' = dp_th_mbufs d" "nic_tx_room (dp_nic d') = rs" "length (dp_pkts_txburst d') = length (dp_pkts_txburst d)"
proof -
  obtain nb d' where b: "tx_burst d = (nb, d')" by (cases "tx_burst d")
  have "nb = 0" using b assms(1) by (simp add: tx_burst_def rte_eth_tx_burst_def tx_room_def Let_def)
  then show thesis using that b tx_burst_line [OF b assms(2)] assms(1) by simp
qed

lemma tx_flush_refused:
  "nic_tx_room (dp_nic d) = replicate (Suc left) 0 @ rs \<Longrightarrow> 0 < dp_tx_num d \<Longrightarrow>
   dp_tx_num d \<le> length (dp_pkts_txburst d) \<Longrightarrow>
   \<exists>d'. tx_flush (Suc left) tx_sum d = (True, 0, tx_sum, d') \<and> dp_tx_num d' = dp_tx_num d \<and> tx_ok d' = tx_ok d
     \<and> dp_th_mbufs d' = dp_th_mbufs d \<and> nic_tx_room (dp_nic d') = rs"
proof (induction left arbitrary: d)
  case 0
  then obtain d' where "tx_burst d = (0, d')" "dp_tx_num d' = dp_tx_num d" "tx_ok d' = tx_ok d"
    "dp_th_mbufs d' = dp_th_mbufs d" "nic_tx_room (dp_nic d') = rs"
    using tx_burst_refused [of d rs] by auto
  then show ?case using 0 by simp
next
  case (Suc left)
  then obtain d' where "tx_burst d = (0, d')" "dp_tx_num d' = dp_tx_num d" "tx_ok d' = tx_ok d"
    "dp_th_mbufs d' = dp_th_mbufs d" "nic_tx_room (dp_nic d') = replicate (Suc left) 0 @ rs"
    "length (dp_pkts_txburst d') = length (dp_pkts_txburst d)"
    using tx_burst_refused [of d "replicate (Suc left) 0 @ rs"] by auto
  moreover from this have "tx_flush (Suc (Suc left)) tx_sum d = tx_flush (Suc left) tx_sum d'"
    using Suc.prems by (subst tx_flush.simps(2)) (simp del: tx_flush.simps)
  ultimately show ?case using Suc.IH [of d'] Suc.prems by simp
qed

lemma check_tx_ring_refused:
  assumes ok: "tx_ok (qs_dpdk s)" and num: "63 \<le> dp_tx_num (qs_dpdk s)" "dp_tx_num (qs_dpdk s) < MAX_PKT_BURST"
    and q: "cirq_list (dp_th_mbufs (qs_dpdk s)) = p # ps"
    and room: "nic_tx_room (dp_nic (qs_dpdk s)) = replicate MAX_TX_CHECK_BATCH 0 @ rs"
  obtains s' where "dpdk_check_tx_ring ck s = Inr (0, s')" "tx_ok (qs_dpdk s')"
    "dp_tx_num (qs_dpdk s') = dp_tx_num (qs_dpdk s) + 1" "cirq_list (dp_th_mbufs (qs_dpdk s')) = ps"
    "nic_tx_room (dp_nic (qs_dpdk s')) = rs"
proof -
  let ?q = "dp_th_mbufs (qs_dpdk s)"
  have wf: "cirq_wf ?q" using ok by (simp add: tx_ok_def)
  obtain s1 where s1: "tx_take ck p (dp_upd (\<lambda>d. d\<lparr>dp_th_mbufs := snd (cirq_get (dp_th_mbufs d))\<rparr>) s) = Inr s1"
      "tx_ok (qs_dpdk s1)" "tx_line (qs_dpdk s1) = tx_line (qs_dpdk s)" "cirq_list (dp_th_mbufs (qs_dpdk s1)) = ps"
      "dp_tx_num (qs_dpdk s1) = dp_tx_num (qs_dpdk s) + 1" "dp_nic (qs_dpdk s1) = dp_nic (qs_dpdk s)"
    by (rule tx_take_line [OF ok q num(2)])
  have "dp_tx_num (qs_dpdk s1) \<le> length (dp_pkts_txburst (qs_dpdk s1))" using s1(2,5) num by (simp add: tx_ok_def)
  then obtain d where d: "tx_flush MAX_TX_CHECK_BATCH 0 (qs_dpdk s1) = (True, 0, 0, d)" "dp_tx_num d = dp_tx_num (qs_dpdk s1)"
      "tx_ok d" "dp_th_mbufs d = dp_th_mbufs (qs_dpdk s1)" "nic_tx_room (dp_nic d) = rs"
    using tx_flush_refused [of "qs_dpdk s1" 4 rs 0] room s1 by (auto simp: MAX_TX_CHECK_BATCH_def)
  obtain q' where q': "cirq_get ?q = (p, q')" "snd (cirq_get ?q) = q'"
    using cirq_get_item(1) [OF wf q] by (cases "cirq_get ?q") auto
  have "tx_high_loop ck (Suc (length (p # ps))) MAX_TX_CHECK_BATCH 0 s = Inr (True, 0, s1\<lparr>qs_dpdk := d\<rparr>)"
    using s1(1,5) d(1) q' q num by (simp add: cirq_empty_iff [OF wf] MAX_PKT_TX_BURST_def dp_upd_def)
  then have "dpdk_check_tx_ring ck s = Inr (0, s1\<lparr>qs_dpdk := d\<rparr>)"
    by (simp only: dpdk_check_tx_ring_def q) simp
  then show thesis using that d s1 by simp
qed

fun tx_checks :: "(iphdr \<Rightarrow> u16) \<Rightarrow> nat \<Rightarrow> 'h qstack \<Rightarrow> 'h qstack result" where
  "tx_checks ck 0 s = Inr s"
| "tx_checks ck (Suc n) s = bind_r (io_send_check ck s) (\<lambda>(_, s1). tx_checks ck n s1)"

lemma tx_checks_overrun:
  assumes "tx_ok (qs_dpdk s)" "63 \<le> dp_tx_num (qs_dpdk s)" "dp_tx_num (qs_dpdk s) + n = MAX_PKT_BURST"
    "n < length (cirq_list (dp_th_mbufs (qs_dpdk s)))"
    "nic_tx_room (dp_nic (qs_dpdk s)) = replicate (MAX_TX_CHECK_BATCH * n) 0 @ rs"
  shows "tx_checks ck (Suc n) s = Inl Undefined"
  using assms
proof (induction n arbitrary: s)
  case 0
  let ?q = "dp_th_mbufs (qs_dpdk s)"
  have wf: "cirq_wf ?q" using 0 by (simp add: tx_ok_def)
  obtain p ps where q: "cirq_list ?q = p # ps" using 0 by (cases "cirq_list ?q") auto
  have "tx_high_loop ck (Suc (length (p # ps))) MAX_TX_CHECK_BATCH 0 s = Inl Undefined"
    using 0 q by (simp add: cirq_empty_iff [OF wf] tx_take_def dp_upd_def split_beta Let_def)
  then show ?case by (simp only: tx_checks.simps io_send_check_def dpdk_check_tx_ring_def q) simp
next
  case (Suc n)
  obtain p ps where q: "cirq_list (dp_th_mbufs (qs_dpdk s)) = p # ps"
    using Suc.prems(4) by (cases "cirq_list (dp_th_mbufs (qs_dpdk s))") auto
  have "nic_tx_room (dp_nic (qs_dpdk s)) = replicate MAX_TX_CHECK_BATCH 0 @ replicate (MAX_TX_CHECK_BATCH * n) 0 @ rs"
    using Suc.prems(5) by (simp add: replicate_add)
  from check_tx_ring_refused [OF Suc.prems(1,2) _ q this] Suc.prems(3)
  obtain s' where "dpdk_check_tx_ring ck s = Inr (0, s')" "tx_ok (qs_dpdk s')"
    "dp_tx_num (qs_dpdk s') = dp_tx_num (qs_dpdk s) + 1" "cirq_list (dp_th_mbufs (qs_dpdk s')) = ps"
    "nic_tx_room (dp_nic (qs_dpdk s')) = replicate (MAX_TX_CHECK_BATCH * n) 0 @ rs" by auto
  then show ?case using Suc.IH [of s'] Suc.prems q by (simp add: io_send_check_def)
qed

text \<open>A full array: with nothing queued the check only sends, with a packet queued it writes behind the array.\<close>

lemma check_tx_ring_full:
  assumes ok: "tx_ok (qs_dpdk s)" and num: "dp_tx_num (qs_dpdk s) = MAX_PKT_BURST"
  shows "if cirq_list (dp_th_mbufs (qs_dpdk s)) = []
    then \<exists>n s'. dpdk_check_tx_ring ck s = Inr (n, s') \<and> tx_ok (qs_dpdk s') \<and> tx_line (qs_dpdk s') = tx_line (qs_dpdk s)
      \<and> length (nic_sent (dp_nic (qs_dpdk s'))) = length (nic_sent (dp_nic (qs_dpdk s))) + n
      \<and> dp_tx_num (qs_dpdk s') \<le> dp_tx_num (qs_dpdk s)
    else dpdk_check_tx_ring ck s = Inl Undefined"
proof -
  have wf: "cirq_wf (dp_th_mbufs (qs_dpdk s))" "cirq_wf (dp_tl_mbufs (qs_dpdk s))" "cirq_list (dp_tl_mbufs (qs_dpdk s)) = []"
    using ok by (simp_all add: tx_ok_def)
  show ?thesis
  proof (cases "cirq_list (dp_th_mbufs (qs_dpdk s))")
    case Nil
    obtain nb d where l: "tx_last (qs_dpdk s) = (nb, d)" by (cases "tx_last (qs_dpdk s)")
    have "dpdk_check_tx_ring ck s = Inr (nb, s\<lparr>qs_dpdk := d\<rparr>)"
      using Nil l by (simp add: dpdk_check_tx_ring_def cirq_empty_iff [OF wf(1)] cirq_empty_iff [OF wf(2)] wf(3))
    then show ?thesis using Nil tx_last_line [OF ok _ l] num by auto
  next
    case (Cons p ps)
    have "tx_high_loop ck (Suc (length (p # ps))) MAX_TX_CHECK_BATCH 0 s = Inl Undefined"
      using num Cons by (simp add: cirq_empty_iff [OF wf(1)] tx_take_def dp_upd_def split_beta Let_def)
    then show ?thesis using Cons by (simp add: dpdk_check_tx_ring_def del: tx_high_loop.simps)
  qed
qed

section \<open>The receive path keeps the order of each priority\<close>

text \<open>The packets a check reads: those of the bursts before the first empty one.\<close>

definition arrivals :: "ptr list list \<Rightarrow> ptr list" where
  "arrivals bs = concat (takeWhile (\<lambda>b. b \<noteq> []) bs)"

definition rx_class :: "(mbuf \<Rightarrow> int) \<Rightarrow> 'h qstack \<Rightarrow> int \<Rightarrow> ptr list \<Rightarrow> ptr list" where
  "rx_class flt s level ps = filter (\<lambda>p. flt (mbuf_at s p) = level) ps"

text \<open>Queues that hold no null pointer and have room for so many more packets.\<close>

definition rx_ok :: "nat \<Rightarrow> dpdk_private_context \<Rightarrow> bool" where
  "rx_ok n d \<longleftrightarrow> (\<forall>q \<in> {dp_rh_mbufs d, dp_rl_mbufs d}. cirq_wf q \<and> NULL \<notin> set (cirq_list q)
     \<and> length (cirq_list q) + n \<le> cirq_capacity q)"

lemma rx_ok_queues:
  "rx_ok n d \<longleftrightarrow> cirq_wf (dp_rh_mbufs d) \<and> NULL \<notin> set (cirq_list (dp_rh_mbufs d))
     \<and> length (cirq_list (dp_rh_mbufs d)) + n \<le> cirq_capacity (dp_rh_mbufs d)
     \<and> cirq_wf (dp_rl_mbufs d) \<and> NULL \<notin> set (cirq_list (dp_rl_mbufs d))
     \<and> length (cirq_list (dp_rl_mbufs d)) + n \<le> cirq_capacity (dp_rl_mbufs d)"
  by (auto simp: rx_ok_def)

lemma rx_deliver_append: "rx_deliver flt (xs @ ys) s = bind_r (rx_deliver flt xs s) (rx_deliver flt ys)"
proof (induction xs arbitrary: s)
  case (Cons x xs)
  then show ?case by (cases "rx_enqueue flt x s") simp_all
qed simp

lemma rx_again_arrivals:
  "rx_again flt bs s = bind_r (rx_deliver flt (arrivals bs) s)
     (\<lambda>s1. Inr (dp_upd (\<lambda>d. d\<lparr>dp_nic := (dp_nic d)\<lparr>nic_rx := tl (dropWhile (\<lambda>b. b \<noteq> []) bs)\<rparr>\<rparr>) s1))"
proof (induction bs arbitrary: s)
  case (Cons b bs)
  show ?case
  proof (cases "b = []")
    case False
    then have "arrivals (b # bs) = b @ arrivals bs" by (simp add: arrivals_def)
    then show ?thesis using False Cons by (cases "rx_deliver flt b s") (simp_all add: rx_deliver_append)
  qed (simp add: arrivals_def)
qed (simp add: arrivals_def)

lemma rx_enqueue_queues:
  assumes "rx_ok (Suc n) (qs_dpdk s)" "p \<noteq> NULL" "flt (mbuf_at s p) \<in> {0, 1}"
  obtains s1 where "rx_enqueue flt p s = Inr s1" "rx_ok n (qs_dpdk s1)"
    "cirq_list (dp_rh_mbufs (qs_dpdk s1)) = cirq_list (dp_rh_mbufs (qs_dpdk s)) @ rx_class flt s 1 [p]"
    "cirq_list (dp_rl_mbufs (qs_dpdk s1)) = cirq_list (dp_rl_mbufs (qs_dpdk s)) @ rx_class flt s 0 [p]"
    "dp_nic (qs_dpdk s1) = dp_nic (qs_dpdk s)" "\<And>q. q \<noteq> p \<Longrightarrow> mbuf_at s1 q = mbuf_at s q"
proof -
  let ?d = "qs_dpdk s" and ?s1 = "mem_upd p (\<lambda>mb. mb\<lparr>mb_priority := truthy (flt (mbuf_at s p))\<rparr>) s"
  have ok: "cirq_wf (dp_rh_mbufs ?d)" "length (cirq_list (dp_rh_mbufs ?d)) < cirq_capacity (dp_rh_mbufs ?d)"
      "cirq_wf (dp_rl_mbufs ?d)" "length (cirq_list (dp_rl_mbufs ?d)) < cirq_capacity (dp_rl_mbufs ?d)"
    using assms(1) by (simp_all add: rx_ok_queues)
  note add = cq.add_room [OF ok(1,2), of p] cq.add_room [OF ok(3,4), of p]
  define s1 where "s1 = (if flt (mbuf_at s p) = 0
    then dp_upd (\<lambda>d. d\<lparr>dp_rl_mbufs := snd (cirq_add (dp_rl_mbufs ?d) p)\<rparr>) ?s1
    else dp_upd (\<lambda>d. d\<lparr>dp_rh_mbufs := snd (cirq_add (dp_rh_mbufs ?d) p)\<rparr>) ?s1)"
  have "rx_enqueue flt p s = Inr s1"
    using add assms(3) by (auto simp: rx_enqueue_def dpdk_soft_filter_def Let_def split_beta s1_def)
  moreover have "mbuf_at s1 q = mbuf_at s q" if "q \<noteq> p" for q
    using that by (simp add: s1_def dp_upd_def mem_upd_get)
  ultimately show thesis
    using that [of s1] add assms by (auto simp: s1_def dp_upd_def rx_class_def rx_ok_queues)
qed

lemma rx_deliver_queues:
  "distinct ps \<Longrightarrow> NULL \<notin> set ps \<Longrightarrow> \<forall>p\<in>set ps. flt (mbuf_at s p) \<in> {0, 1} \<Longrightarrow> rx_ok (length ps) (qs_dpdk s) \<Longrightarrow>
   \<exists>s'. rx_deliver flt ps s = Inr s' \<and> rx_ok 0 (qs_dpdk s')
     \<and> cirq_list (dp_rh_mbufs (qs_dpdk s')) = cirq_list (dp_rh_mbufs (qs_dpdk s)) @ rx_class flt s 1 ps
     \<and> cirq_list (dp_rl_mbufs (qs_dpdk s')) = cirq_list (dp_rl_mbufs (qs_dpdk s)) @ rx_class flt s 0 ps
     \<and> dp_nic (qs_dpdk s') = dp_nic (qs_dpdk s)"
proof (induction ps arbitrary: s)
  case Nil
  then show ?case by (simp add: rx_class_def)
next
  case (Cons p ps)
  have "p \<noteq> NULL" "flt (mbuf_at s p) \<in> {0, 1}" using Cons.prems by auto
  then obtain s1 where s1: "rx_enqueue flt p s = Inr s1" "rx_ok (length ps) (qs_dpdk s1)"
    "cirq_list (dp_rh_mbufs (qs_dpdk s1)) = cirq_list (dp_rh_mbufs (qs_dpdk s)) @ rx_class flt s 1 [p]"
    "cirq_list (dp_rl_mbufs (qs_dpdk s1)) = cirq_list (dp_rl_mbufs (qs_dpdk s)) @ rx_class flt s 0 [p]"
    "dp_nic (qs_dpdk s1) = dp_nic (qs_dpdk s)" "\<And>q. q \<noteq> p \<Longrightarrow> mbuf_at s1 q = mbuf_at s q"
    using rx_enqueue_queues [of "length ps" s p flt] Cons.prems(4) by (metis length_Cons)
  have eq: "mbuf_at s1 q = mbuf_at s q" if "q \<in> set ps" for q using that s1(6) [of q] Cons.prems(1) by auto
  then have cls: "rx_class flt s1 l ps = rx_class flt s l ps" for l by (auto simp: rx_class_def intro!: filter_cong)
  obtain s' where "rx_deliver flt ps s1 = Inr s'" "rx_ok 0 (qs_dpdk s')"
    "cirq_list (dp_rh_mbufs (qs_dpdk s')) = cirq_list (dp_rh_mbufs (qs_dpdk s1)) @ rx_class flt s 1 ps"
    "cirq_list (dp_rl_mbufs (qs_dpdk s')) = cirq_list (dp_rl_mbufs (qs_dpdk s1)) @ rx_class flt s 0 ps"
    "dp_nic (qs_dpdk s') = dp_nic (qs_dpdk s1)"
    using Cons.IH [of s1] Cons.prems(1-3) s1(2) eq by (auto simp: cls)
  then show ?case using s1 by (auto simp: rx_class_def)
qed

lemma rxfree_loop_frees:
  "n21q_wf (dp_rxfree_queue d) \<Longrightarrow> size (n21q_items (dp_rxfree_queue d)) < fuel \<Longrightarrow>
   \<exists>q fs. rxfree_loop fuel d = Inr (d\<lparr>dp_rxfree_queue := q,
       dp_nic := (dp_nic d)\<lparr>nic_freed := nic_freed (dp_nic d) @ fs\<rparr>\<rparr>)
     \<and> mset fs = n21q_items (dp_rxfree_queue d) \<and> n21q_wf q \<and> n21q_items q = {#}"
proof (induction fuel arbitrary: d)
  case (Suc fuel)
  obtain x q where q: "n21q_dequeue_strong (dp_rxfree_queue d) = Some (x, q)" "n21q_wf q"
    "x = NULL \<Longrightarrow> n21q_items (dp_rxfree_queue d) = {#} \<and> n21q_items q = {#}"
    "x \<noteq> NULL \<Longrightarrow> n21q_items (dp_rxfree_queue d) = add_mset x (n21q_items q)"
    using n21q_dequeue_items [OF Suc.prems(1)] by metis
  have deq: "n21q_dequeue (dp_rxfree_queue d) = Some (x, q)"
    using q(1) by (simp add: n21q_dequeue_def do_n21q_dequeue_def n21q_dequeue_strong_def)
  show ?case
  proof (cases "x = NULL")
    case True
    have "d\<lparr>dp_rxfree_queue := q\<rparr> = d\<lparr>dp_rxfree_queue := q, dp_nic := (dp_nic d)\<lparr>nic_freed := nic_freed (dp_nic d) @ []\<rparr>\<rparr>"
      by (cases d) simp
    then show ?thesis using True deq q by (intro exI [of _ q] exI [of _ "[]"]) simp
  next
    case False
    let ?d = "d\<lparr>dp_rxfree_queue := q, dp_nic := (dp_nic d)\<lparr>nic_freed := nic_freed (dp_nic d) @ [x]\<rparr>\<rparr>"
    obtain q' fs where r: "rxfree_loop fuel ?d = Inr (?d\<lparr>dp_rxfree_queue := q',
        dp_nic := (dp_nic ?d)\<lparr>nic_freed := nic_freed (dp_nic ?d) @ fs\<rparr>\<rparr>)"
      "mset fs = n21q_items q" "n21q_wf q'" "n21q_items q' = {#}"
      using Suc.IH [of ?d] Suc.prems(2) q False by auto
    then show ?thesis using False deq q by (intro exI [of _ q'] exI [of _ "x # fs"]) simp
  qed
qed simp

fun io_recv_n :: "nat \<Rightarrow> 'h qstack \<Rightarrow> (ptr list \<times> 'h qstack) result" where
  "io_recv_n 0 s = Inr ([], s)"
| "io_recv_n (Suc n) s =
     bind_r (io_recv_mbuf s) (\<lambda>(p, _, s1). bind_r (io_recv_n n s1) (\<lambda>(ps, s2). Inr (p # ps, s2)))"

definition rx_line :: "'h qstack \<Rightarrow> ptr list" where
  "rx_line s = cirq_list (dp_rh_mbufs (qs_dpdk s)) @ cirq_list (dp_rl_mbufs (qs_dpdk s))"

text \<open>Receiving takes the next packet, of high priority first, and exits only when there is none.\<close>

lemma io_recv_mbuf_next:
  assumes ok: "rx_ok 0 (qs_dpdk s)" and line: "rx_line s = p # ps"
  obtains len s1 where "io_recv_mbuf s = Inr (p, len, s1)" "rx_ok 0 (qs_dpdk s1)" "rx_line s1 = ps"
    "qs_mem s1 = qs_mem s" "qs_streams s1 = qs_streams s" "\<exists>rh rl. s1 = dp_upd (\<lambda>d. d\<lparr>dp_rh_mbufs := rh, dp_rl_mbufs := rl\<rparr>) s"
proof -
  let ?h = "dp_rh_mbufs (qs_dpdk s)" and ?l = "dp_rl_mbufs (qs_dpdk s)"
  have wf: "cirq_wf ?h" "cirq_wf ?l" "NULL \<notin> set (cirq_list ?h)" "NULL \<notin> set (cirq_list ?l)"
    using ok by (simp_all add: rx_ok_queues)
  have p: "p \<noteq> NULL" using wf line by (metis Un_iff list.set_intros(1) rx_line_def set_append)
  have bound: "length (cirq_list q) \<le> cirq_capacity q" if "cirq_wf q" for q using that by (rule cirq_list_bound)
  show thesis
  proof (cases "cirq_list ?h")
    case Nil
    then have l: "cirq_list ?l = p # ps" using line by (simp add: rx_line_def)
    note g = cq.get_item [OF wf(2) l]
    have h: "cirq_get ?h = (NULL, ?h)" using cq.get_empty [OF wf(1) Nil] .
    define s1 where "s1 = dp_upd (\<lambda>d. d\<lparr>dp_rh_mbufs := ?h, dp_rl_mbufs := snd (cirq_get ?l)\<rparr>) s"
    have "io_recv_mbuf s = Inr (p, ucast (mb_pkt_len (mbuf_at s1 p)), s1)"
      using h g p by (simp add: io_recv_mbuf_def dpdk_rx_receive_one_def Let_def split_beta dp_upd_def s1_def)
    then show thesis
    proof (rule that)
      show "rx_ok 0 (qs_dpdk s1)" "rx_line s1 = ps" using g Nil l wf bound [OF wf(1)] bound [OF wf(2)] by (simp_all add: s1_def dp_upd_def rx_ok_queues rx_line_def)
      show "\<exists>rh rl. s1 = dp_upd (\<lambda>d. d\<lparr>dp_rh_mbufs := rh, dp_rl_mbufs := rl\<rparr>) s" unfolding s1_def by blast
    qed (simp_all add: s1_def dp_upd_def)
  next
    case (Cons a as)
    then have a: "a = p" "as @ cirq_list ?l = ps" using line by (simp_all add: rx_line_def)
    note g = cq.get_item [OF wf(1) Cons]
    define s1 where "s1 = dp_upd (\<lambda>d. d\<lparr>dp_rh_mbufs := snd (cirq_get ?h), dp_rl_mbufs := ?l\<rparr>) s"
    have eq: "dp_upd (\<lambda>d. d\<lparr>dp_rh_mbufs := snd (cirq_get ?h)\<rparr>) s = s1"
      by (cases "qs_dpdk s") (simp add: s1_def dp_upd_def)
    have "io_recv_mbuf s = Inr (p, ucast (mb_pkt_len (mbuf_at s1 p)), s1)"
      using g p a eq by (simp add: io_recv_mbuf_def dpdk_rx_receive_one_def Let_def split_beta)
    then show thesis
    proof (rule that)
      show "rx_ok 0 (qs_dpdk s1)" "rx_line s1 = ps" using g a Cons wf bound [OF wf(1)] bound [OF wf(2)] by (simp_all add: s1_def dp_upd_def rx_ok_queues rx_line_def)
      show "\<exists>rh rl. s1 = dp_upd (\<lambda>d. d\<lparr>dp_rh_mbufs := rh, dp_rl_mbufs := rl\<rparr>) s" unfolding s1_def by blast
    qed (simp_all add: s1_def dp_upd_def)
  qed
qed

lemma io_recv_n_line:
  "rx_ok 0 (qs_dpdk s) \<Longrightarrow> n \<le> length (rx_line s) \<Longrightarrow>
   \<exists>s'. io_recv_n n s = Inr (take n (rx_line s), s') \<and> rx_ok 0 (qs_dpdk s') \<and> rx_line s' = drop n (rx_line s)"
proof (induction n arbitrary: s)
  case (Suc n)
  then obtain p ps where line: "rx_line s = p # ps" by (cases "rx_line s") auto
  obtain len s1 where s1: "io_recv_mbuf s = Inr (p, len, s1)" "rx_ok 0 (qs_dpdk s1)" "rx_line s1 = ps"
    by (rule io_recv_mbuf_next [OF Suc.prems(1) line])
  obtain s' where "io_recv_n n s1 = Inr (take n ps, s')" "rx_ok 0 (qs_dpdk s')" "rx_line s' = drop n ps"
    using Suc.IH [OF s1(2)] Suc.prems(2) line s1(3) by auto
  then show ?case using s1 line by simp
qed simp

lemma io_recv_check_line:
  assumes arr_def: "arr = arrivals (nic_rx (dp_nic (qs_dpdk s)))"
    and wf: "n21q_wf (dp_rxfree_queue (qs_dpdk s))" and arr: "distinct arr" "NULL \<notin> set arr"
    "\<forall>p\<in>set arr. flt (mbuf_at s p) \<in> {0, 1}" and ok: "rx_ok (length arr) (qs_dpdk s)"
    and total: "length (rx_line s) + length arr < 2 ^ 32"
  shows "\<exists>n s1. io_recv_check flt s = Inr (n, s1) \<and> unat n = length (rx_line s1) \<and> rx_ok 0 (qs_dpdk s1)
    \<and> rx_line s1 = cirq_list (dp_rh_mbufs (qs_dpdk s)) @ rx_class flt s 1 arr
        @ cirq_list (dp_rl_mbufs (qs_dpdk s)) @ rx_class flt s 0 arr
    \<and> mset (nic_freed (dp_nic (qs_dpdk s1))) = mset (nic_freed (dp_nic (qs_dpdk s))) + n21q_items (dp_rxfree_queue (qs_dpdk s))"
proof -
  let ?d = "qs_dpdk s"
  obtain q fs where f: "rxfree_loop (n21q_total (dp_rxfree_queue ?d) + 1) ?d = Inr (?d\<lparr>dp_rxfree_queue := q,
      dp_nic := (dp_nic ?d)\<lparr>nic_freed := nic_freed (dp_nic ?d) @ fs\<rparr>\<rparr>)" (is "_ = Inr ?d1")
      "mset fs = n21q_items (dp_rxfree_queue ?d)"
    using rxfree_loop_frees [OF wf, of "n21q_total (dp_rxfree_queue ?d) + 1"] by (auto simp: sum_list_mset_size n21q_total_def)
  let ?s = "s\<lparr>qs_dpdk := ?d1\<rparr>"
  have cls: "rx_class flt ?s l ps = rx_class flt s l ps" for l ps by (simp add: rx_class_def)
  have "rx_ok (length arr) (qs_dpdk ?s)" "\<forall>p\<in>set arr. flt (mbuf_at ?s p) \<in> {0, 1}"
    using ok arr(3) by (simp_all add: rx_ok_queues)
  from rx_deliver_queues [OF arr(1,2) this(2,1)]
  obtain s2 where s2: "rx_deliver flt arr ?s = Inr s2" "rx_ok 0 (qs_dpdk s2)"
      "cirq_list (dp_rh_mbufs (qs_dpdk s2)) = cirq_list (dp_rh_mbufs ?d) @ rx_class flt s 1 arr"
      "cirq_list (dp_rl_mbufs (qs_dpdk s2)) = cirq_list (dp_rl_mbufs ?d) @ rx_class flt s 0 arr"
      "dp_nic (qs_dpdk s2) = dp_nic ?d1"
    by (auto simp: cls)
  define s1 where "s1 = dp_upd (\<lambda>d. d\<lparr>dp_nic := (dp_nic d)\<lparr>nic_rx := tl (dropWhile (\<lambda>b. b \<noteq> []) (nic_rx (dp_nic ?d)))\<rparr>\<rparr>) s2"
  let ?n = "cirq_count (dp_rh_mbufs (qs_dpdk s1)) + cirq_count (dp_rl_mbufs (qs_dpdk s1))"
  have check: "io_recv_check flt s = Inr (?n, s1)"
    using f(1) s2(1) by (simp add: io_recv_check_def dpdk_check_rx_ring_def rx_again_arrivals arr_def s1_def)
  have line: "rx_line s1 = cirq_list (dp_rh_mbufs ?d) @ rx_class flt s 1 arr @ cirq_list (dp_rl_mbufs ?d) @ rx_class flt s 0 arr"
    using s2 by (simp add: rx_line_def s1_def dp_upd_def)
  have "length (rx_class flt s 1 arr) + length (rx_class flt s 0 arr) \<le> length arr"
    unfolding rx_class_def by (induction arr) auto
  then have "length (rx_line s1) < 2 ^ 32" using total unfolding line rx_line_def [of s] by simp
  then have "unat ?n = length (rx_line s1)"
    by (simp add: rx_line_def length_cirq_list unat_word_ariths)
  then show ?thesis using check line s2 f(2) by (simp add: s1_def dp_upd_def rx_ok_queues)
qed

text \<open>A packet to which the filter gives a priority other than 0 and 1 is in no queue.\<close>

lemma rx_enqueue_lost:
  assumes "flt (mbuf_at s p) \<notin> {0, 1}"
  shows "rx_enqueue flt p s = Inr (mem_upd p (\<lambda>mb. mb\<lparr>mb_priority := truthy (flt (mbuf_at s p))\<rparr>) s)"
  using assms by (simp add: rx_enqueue_def dpdk_soft_filter_def Let_def)

section \<open>Main properties\<close>

text \<open>
  A check of the receive ring and as many receive calls as it announced hand the
  stack exactly the packets that waited and that arrived, those of high priority first and each
  priority in the order of arrival; none of the calls ends the process, and every mbuf that other
  cores released in the meantime is freed.
\<close>

lemma rx_ring_delivers:
  assumes "arr = arrivals (nic_rx (dp_nic (qs_dpdk s)))" "n21q_wf (dp_rxfree_queue (qs_dpdk s))" "distinct arr" "NULL \<notin> set arr"
    "\<forall>p\<in>set arr. flt (mbuf_at s p) \<in> {0, 1}" "rx_ok (length arr) (qs_dpdk s)"
    "length (rx_line s) + length arr < 2 ^ 32"
  shows "\<exists>n s1 s2. io_recv_check flt s = Inr (n, s1)
    \<and> io_recv_n (unat n) s1 = Inr (cirq_list (dp_rh_mbufs (qs_dpdk s)) @ rx_class flt s 1 arr
        @ cirq_list (dp_rl_mbufs (qs_dpdk s)) @ rx_class flt s 0 arr, s2)
    \<and> rx_line s2 = []
    \<and> mset (nic_freed (dp_nic (qs_dpdk s1))) = mset (nic_freed (dp_nic (qs_dpdk s))) + n21q_items (dp_rxfree_queue (qs_dpdk s))"
proof -
  obtain n s1 where c: "io_recv_check flt s = Inr (n, s1)" "unat n = length (rx_line s1)" "rx_ok 0 (qs_dpdk s1)"
    "rx_line s1 = cirq_list (dp_rh_mbufs (qs_dpdk s)) @ rx_class flt s 1 arr
        @ cirq_list (dp_rl_mbufs (qs_dpdk s)) @ rx_class flt s 0 arr"
    "mset (nic_freed (dp_nic (qs_dpdk s1))) = mset (nic_freed (dp_nic (qs_dpdk s))) + n21q_items (dp_rxfree_queue (qs_dpdk s))"
    using io_recv_check_line [OF assms] by auto
  obtain s2 where "io_recv_n (unat n) s1 = Inr (take (unat n) (rx_line s1), s2)" "rx_line s2 = drop (unat n) (rx_line s1)"
    using io_recv_n_line [OF c(3), of "unat n"] c(2) by auto
  then show ?thesis using c by auto
qed

text \<open>
  C35 (invariant). A check of the transmit ring whose array of 256 places is not full, or that finds nothing queued, returns
  and never loses, repeats or reorders a packet, however few packets the card accepts: what the card has accepted, what
  waits in the array and what is queued stay one sequence; it reports what the card accepted, and lengthens the
  waiting part by at most one beyond a full burst of 64. A check that finds the array full and a packet queued writes
  behind the array. A card that accepts nothing leads there (\<open>tx_ring_overruns\<close>), as nothing but the
  card bounds the waiting part. The low queue is empty, as \<^verbatim>\<open>io_send_mbuf\<close> files every packet as high.
\<close>

theorem tx_ring_in_order:
  assumes "tx_ok (qs_dpdk s)" "dp_tx_num (qs_dpdk s) \<le> MAX_PKT_BURST"
  shows "if dp_tx_num (qs_dpdk s) < MAX_PKT_BURST \<or> cirq_list (dp_th_mbufs (qs_dpdk s)) = []
    then \<exists>n s'. io_send_check ck s = Inr (n, s') \<and> tx_ok (qs_dpdk s')
      \<and> nic_sent (dp_nic (qs_dpdk s')) @ tx_waiting (qs_dpdk s') @ cirq_list (dp_th_mbufs (qs_dpdk s'))
        = nic_sent (dp_nic (qs_dpdk s)) @ tx_waiting (qs_dpdk s) @ cirq_list (dp_th_mbufs (qs_dpdk s))
      \<and> length (nic_sent (dp_nic (qs_dpdk s'))) = length (nic_sent (dp_nic (qs_dpdk s))) + n
      \<and> dp_tx_num (qs_dpdk s') \<le> max 64 (dp_tx_num (qs_dpdk s) + 1) \<and> dp_tx_num (qs_dpdk s') \<le> MAX_PKT_BURST
    else io_send_check ck s = Inl Undefined"
proof (cases "dp_tx_num (qs_dpdk s) < MAX_PKT_BURST")
  case True
  obtain n s' where "dpdk_check_tx_ring ck s = Inr (n, s')" "tx_ok (qs_dpdk s')" "tx_line (qs_dpdk s') = tx_line (qs_dpdk s)"
      "length (nic_sent (dp_nic (qs_dpdk s'))) = length (nic_sent (dp_nic (qs_dpdk s))) + n"
      "dp_tx_num (qs_dpdk s') \<le> max 64 (dp_tx_num (qs_dpdk s) + 1)"
    using check_tx_ring_line [OF assms(1) True, of ck] by blast
  moreover from this have "dp_tx_num (qs_dpdk s') \<le> MAX_PKT_BURST" using True by (simp add: MAX_PKT_BURST_def)
  ultimately show ?thesis using True by (simp add: io_send_check_def tx_line_def)
next
  case False
  then have full: "dp_tx_num (qs_dpdk s) = MAX_PKT_BURST" using assms(2) by simp
  then show ?thesis
    using check_tx_ring_full [OF assms(1) full, of ck] by (fastforce simp: io_send_check_def tx_line_def)
qed

text \<open>
  A card that accepts nothing overruns the array: once a burst waits, every check adds
  one packet to it, and the check after it is full writes behind its last place.
\<close>

lemma tx_ring_overruns:
  assumes "tx_ok (qs_dpdk s)" "63 \<le> dp_tx_num (qs_dpdk s)" "dp_tx_num (qs_dpdk s) + n = MAX_PKT_BURST"
    "n < length (cirq_list (dp_th_mbufs (qs_dpdk s)))"
    "nic_tx_room (dp_nic (qs_dpdk s)) = replicate (MAX_TX_CHECK_BATCH * n) 0 @ rs"
  shows "tx_checks ck (Suc n) s = Inl Undefined"
  using tx_checks_overrun [OF assms] .

text \<open>A ring with two packets queued, two waiting to be sent and two to be received.\<close>

definition two_queue :: circular_queue where
  "two_queue = \<lparr>cq_head = 2, cq_queue = [5, 6, 0, 0], cq_size = 4, cq_tail = 0\<rparr>"

definition drv_stack :: "(ipv4_5tuple \<Rightarrow> ptr option) qstack" where
  "drv_stack = stack0\<lparr>qs_dpdk := (qs_dpdk stack0)\<lparr>dp_th_mbufs := two_queue,
     dp_nic := \<lparr>nic_rx = [[7, 8], [], [9]], nic_tx_room = [1], nic_sent = [], nic_freed = []\<rparr>\<rparr>\<rparr>"

lemma two_queue: "cirq_wf two_queue" "cirq_list two_queue = [5, 6]"
  by (simp_all add: two_queue_def cirq_wf_def cirq_list_def cirq_count_def ring_slice_def upt_rec)

lemma squeue0_empty: "cirq_wf squeue0" "cirq_list squeue0 = []" "cirq_capacity squeue0 = 3"
  by (simp_all add: squeue0_def sstreamq_init_def cirq_init_def cirq_wf_def cirq_list_def cirq_count_def cirq_capacity_def)

theorem tx_ring_in_order_witness:
  "\<exists>n s'. io_send_check (\<lambda>_. 0) drv_stack = Inr (n, s')
    \<and> nic_sent (dp_nic (qs_dpdk s')) @ tx_waiting (qs_dpdk s') @ cirq_list (dp_th_mbufs (qs_dpdk s')) = [5, 6]"
proof -
  have n: "tx_ok (qs_dpdk drv_stack)" "dp_tx_num (qs_dpdk drv_stack) \<le> MAX_PKT_BURST" "dp_tx_num (qs_dpdk drv_stack) < MAX_PKT_BURST"
    by (simp_all add: drv_stack_def tx_ok_def two_queue squeue0_empty stack0_def MAX_PKT_BURST_def)
  from tx_ring_in_order [OF n(1,2), of "\<lambda>_. 0"] n(3)
  show ?thesis by (auto simp: drv_stack_def stack0_def two_queue tx_waiting_def)
qed

theorem tx_ring_overruns_witness:
  "tx_checks (\<lambda>_. 0) 2 (drv_stack\<lparr>qs_dpdk := (qs_dpdk drv_stack)\<lparr>dp_tx_num := 255,
     dp_nic := (dp_nic (qs_dpdk drv_stack))\<lparr>nic_tx_room := replicate 5 0\<rparr>\<rparr>\<rparr>) = Inl Undefined"
  using tx_ring_overruns [of "drv_stack\<lparr>qs_dpdk := (qs_dpdk drv_stack)\<lparr>dp_tx_num := 255,
     dp_nic := (dp_nic (qs_dpdk drv_stack))\<lparr>nic_tx_room := replicate 5 0\<rparr>\<rparr>\<rparr>" 1 "[]" "\<lambda>_. 0"]
  by (simp add: drv_stack_def tx_ok_def two_queue squeue0_empty stack0_def MAX_PKT_BURST_def MAX_TX_CHECK_BATCH_def
      numeral_2_eq_2)

theorem rx_ring_delivers_witness:
  "\<exists>n s1 s2. io_recv_check default_driver_pri_filter drv_stack = Inr (n, s1)
    \<and> io_recv_n (unat n) s1 = Inr ([7, 8], s2)"
proof -
  have "n21q_wf (dp_rxfree_queue (qs_dpdk drv_stack))"
    by (simp add: drv_stack_def stack0_def nqueue0_def n21_example_wf)
  moreover have "arrivals (nic_rx (dp_nic (qs_dpdk drv_stack))) = [7, 8]" by (simp add: drv_stack_def arrivals_def)
  moreover have "rx_ok (Suc (Suc 0)) (qs_dpdk drv_stack)" "rx_line drv_stack = []"
    by (simp_all add: drv_stack_def stack0_def rx_ok_queues squeue0_empty rx_line_def)
  ultimately show ?thesis
    using rx_ring_delivers [of "[7, 8]" drv_stack default_driver_pri_filter]
    by (auto simp: default_driver_pri_filter_def rx_class_def rx_line_def)
qed

end
