(* ===== verification/Arp.thy ===== *)
theory Arp
  imports Packet_Out
begin

text \<open>
  The address resolution protocol of \<^verbatim>\<open>arp.c\<close>: requests and replies on top of the tables of
  \<open>Arp_Table\<close>. The configuration has one interface (\<^verbatim>\<open>config.c\<close> sets
  \<^verbatim>\<open>eths_num\<close> to 1), whose addresses are in \<open>env\<close>. The ARP header of a packet is the
  field \<open>mb_arph\<close> of its mbuf, with multi-byte fields in network order.
\<close>

section \<open>Operations\<close>

definition ETH_P_ARP :: u16 where "ETH_P_ARP = 0x0806"
definition INADDR_LOOPBACK :: u32 where "INADDR_LOOPBACK = 0x7f000001"
definition arp_hrd_ethernet :: u16 where "arp_hrd_ethernet = 1"
definition arp_op_request :: u16 where "arp_op_request = 1"
definition arp_op_reply :: u16 where "arp_op_reply = 2"

text \<open>The size of the header with its padding of 18 bytes.\<close>

definition ARP_LEN :: nat where "ARP_LEN = 46"

lemmas arp_consts = ETH_P_ARP_def INADDR_LOOPBACK_def arp_hrd_ethernet_def arp_op_request_def arp_op_reply_def
  ARP_LEN_def

definition fill_arp :: "'h env \<Rightarrow> u16 \<Rightarrow> u32 \<Rightarrow> u8 list \<Rightarrow> arphdr" where
  "fill_arp ev opcode dst_ip dst_haddr =
     \<lparr>ar_hrd = htons arp_hrd_ethernet, ar_pro = htons ETH_P_IP, ar_hln = of_nat ETH_ALEN, ar_pln = 4, ar_op = htons opcode,
      ar_sha = take ETH_ALEN (ev_haddr ev), ar_sip = ev_ip_addr ev, ar_tha = take ETH_ALEN dst_haddr, ar_tip = dst_ip\<rparr>"

definition arp_output :: "'h env \<Rightarrow> u16 \<Rightarrow> u32 \<Rightarrow> u8 list \<Rightarrow> 'h qstack \<Rightarrow> (int \<times> 'h qstack) result" where
  "arp_output ev opcode dst_ip dst_haddr s =
     bind_r (io_get_swmbuf s) (\<lambda>(mbuf, s1).
       if mbuf = NULL then Inr (ERROR, s1)
       else let (ret, s2) = eth_hdr_generate ev mbuf ETH_P_ARP dst_haddr s1
            in if \<not> truthy ret then Inr (ERROR, s2)
               else let s3 = mem_upd mbuf (\<lambda>mb. mb\<lparr>mb_arph := fill_arp ev opcode dst_ip dst_haddr\<rparr>) s2;
                        len = unat (l2_len (mb_tx_offload (mbuf_at s3 mbuf))) + ARP_LEN
                    in bind_r (io_send_mbuf mbuf (of_nat len) s3) (\<lambda>(_, s4). Inr (0, s4)))"

definition process_arp_request :: "'h env \<Rightarrow> arphdr \<Rightarrow> 'h qstack \<Rightarrow> (int \<times> 'h qstack) result" where
  "process_arp_request ev arph s =
     bind_r (arp_output ev arp_op_reply (ar_sip arph) (ar_sha arph) s) (\<lambda>(_, s1). Inr (SUCCESS, s1))"

text \<open>The first entry for the address leaves the queue of requests.\<close>

fun arp_dequeue :: "u32 \<Rightarrow> arp_queue_entry list \<Rightarrow> arp_queue_entry list" where
  "arp_dequeue ip [] = []"
| "arp_dequeue ip (e # es) = (if aq_ip e = ip then es else e # arp_dequeue ip es)"

definition process_arp_reply :: "arphdr \<Rightarrow> 'h qstack \<Rightarrow> int \<times> 'h qstack" where
  "process_arp_reply arph s =
     (0, s\<lparr>qs_arp := (qs_arp s)\<lparr>ar_list := arp_dequeue (ar_sip arph) (ar_list (qs_arp s))\<rparr>\<rparr>)"

text \<open>The result of \<^verbatim>\<open>calloc\<close> is used without a test.\<close>

definition request_arp :: "'h env \<Rightarrow> u32 \<Rightarrow> nat \<Rightarrow> u32 \<Rightarrow> 'h qstack \<Rightarrow> 'h qstack result" where
  "request_arp ev ip nif cur_ts s =
     (if \<exists>ent\<in>set (ar_list (qs_arp s)). aq_ip ent = ip then Inr s
      else let (ok, a) = arp_calloc (qs_arp s)
           in if \<not> ok then Inl Undefined
              else let s1 = s\<lparr>qs_arp := a\<lparr>ar_list := ar_list a @ [\<lparr>aq_ip = ip, aq_nif_out = nif, aq_ts_out = cur_ts\<rparr>]\<rparr>\<rparr>
                   in bind_r (arp_output ev arp_op_request ip (replicate ETH_ALEN 0xFF) s1) (\<lambda>(_, s2). Inr s2))"

definition arp_header_ok :: "arphdr \<Rightarrow> bool" where
  "arp_header_ok arph \<longleftrightarrow> ar_hrd arph = htons arp_hrd_ethernet \<and> ar_pro arph = htons ETH_P_IP
     \<and> ar_hln arph = of_nat ETH_ALEN \<and> ar_pln arph = 4"

text \<open>The \<^verbatim>\<open>switch\<close> over the operation. The index of the interface is only read for a request.\<close>

definition arp_handle_op :: "'h env \<Rightarrow> nat \<Rightarrow> bool \<Rightarrow> arphdr \<Rightarrow> 'h qstack \<Rightarrow> (int \<times> 'h qstack) result" where
  "arp_handle_op ev ifidx to_me arph s =
     (if ntohs (ar_op arph) = arp_op_request
      then if to_me then if ifidx \<ge> 1 then Inl Undefined else process_arp_request ev arph s
           else Inr (SUCCESS, s)
      else if ntohs (ar_op arph) = arp_op_reply then Inr (process_arp_reply arph s)
      else Inr (SUCCESS, s))"

definition process_arp_packet :: "'h env \<Rightarrow> nat \<Rightarrow> u32 \<Rightarrow> ptr \<Rightarrow> 'h qstack \<Rightarrow> (int \<times> 'h qstack) result" where
  "process_arp_packet ev ifidx cur_ts mbuf s =
     (let arph = mb_arph (mbuf_at s mbuf)
      in if \<not> arp_header_ok arph then Inr (ERROR, s)
         else if ar_tip arph = INADDR_LOOPBACK then Inr (SUCCESS, s)
         else let to_me = (\<exists>ip\<in>set [ev_ip_addr ev]. ar_tip arph = ip)
              in bind_r (arp_handle_op ev ifidx to_me arph s) (\<lambda>(_, s1).
                   let (_, a) = register_arp_entry (ar_sip arph) (take ETH_ALEN (ar_sha arph)) cur_ts (qs_arp s1)
                   in Inr (SUCCESS, s1\<lparr>qs_arp := a\<rparr>)))"

section \<open>What a packet changes\<close>

lemma mem_upd_arp [simp]: "qs_arp (mem_upd b g s) = qs_arp s"
  by (simp add: mem_upd_def)

lemma alloc_keeps:
  assumes "io_get_swmbuf s = Inr (p, s1)"
  shows "qs_arp s1 = qs_arp s" "qs_streams s1 = qs_streams s"
    "dp_th_mbufs (qs_dpdk s1) = dp_th_mbufs (qs_dpdk s)"
    "mbuf_at s1 p = (if p = NULL then mbuf_at s p else (mbuf_at s p)\<lparr>mb_payload_len := 0, mb_tcp_seq := 0\<rparr>)"
  using assms by (auto simp: io_get_swmbuf_def dpdk_alloc_mbuf_def Let_def mem_upd_def heap_upd_def
      split: option.splits if_splits list.splits)

lemma send_keeps:
  "post (io_send_mbuf mbuf len s) (\<lambda>(_, s'). qs_arp s' = qs_arp s \<and> qs_streams s' = qs_streams s)"
  by (auto simp: io_send_mbuf_def dpdk_tx_send_def Let_def split_beta)

lemma arp_output_keeps:
  "post (arp_output ev opcode ip h s) (\<lambda>(_, s'). qs_arp s' = qs_arp s \<and> qs_streams s' = qs_streams s)"
proof -
  have eth: "qs_arp (snd (eth_hdr_generate ev b pr h s1)) = qs_arp s1" "qs_streams (snd (eth_hdr_generate ev b pr h s1)) = qs_streams s1"
    for b pr and s1 :: "'a qstack" by (simp_all add: eth_hdr_generate_def)
  have one: "post (io_send_mbuf b len s1) (\<lambda>(_, s'). qs_arp s' = qs_arp s \<and> qs_streams s' = qs_streams s)"
    if "qs_arp s1 = qs_arp s" "qs_streams s1 = qs_streams s" for b len and s1 :: "'a qstack"
    using that send_keeps [of b len s1] by (auto simp: post_def)
  have send: "post (bind_r (io_send_mbuf b len s1) (\<lambda>(_, s4). Inr (0 :: int, s4))) (\<lambda>(_, s'). qs_arp s' = qs_arp s \<and> qs_streams s' = qs_streams s)"
    if "qs_arp s1 = qs_arp s" "qs_streams s1 = qs_streams s" for b len and s1 :: "'a qstack"
    by (rule post_bindI [OF one [OF that]]) auto
  show ?thesis unfolding arp_output_def
  proof (rule post_bindI)
    show "post (io_get_swmbuf s) (\<lambda>(_, s1). qs_arp s1 = qs_arp s \<and> qs_streams s1 = qs_streams s)"
      using alloc_keeps(1,2) by (auto simp: post_def)
  qed (auto simp: Let_def split_beta eth intro!: send)
qed

lemma arp_handle_op_keeps:
  "post (arp_handle_op ev ifidx to_me h s) (\<lambda>(_, s1). qs_streams s1 = qs_streams s
     \<and> ar_tables (qs_arp s1) = ar_tables (qs_arp s) \<and> ar_calloc (qs_arp s1) = ar_calloc (qs_arp s)
     \<and> ar_calloc_idx (qs_arp s1) = ar_calloc_idx (qs_arp s))"
proof -
  have "post (process_arp_request ev h s) (\<lambda>(_, s1). qs_arp s1 = qs_arp s \<and> qs_streams s1 = qs_streams s)"
    unfolding process_arp_request_def by (rule post_bindI [OF arp_output_keeps]) auto
  then show ?thesis
    by (auto simp: arp_handle_op_def process_arp_reply_def post_def)
qed

text \<open>Learning: a packet with a good header registers its sender, whatever it asks.\<close>

definition arp_learned :: "'h qstack \<Rightarrow> ptr \<Rightarrow> u32 \<Rightarrow> (u32 \<times> u8 list \<times> u32) list" where
  "arp_learned s mbuf cur_ts =
     (let arph = mb_arph (mbuf_at s mbuf)
      in if arp_header_ok arph \<and> ar_tip arph \<noteq> INADDR_LOOPBACK
         then [(ar_sip arph, take ETH_ALEN (ar_sha arph), cur_ts)] else [])"

lemma process_arp_packet_tables:
  assumes "process_arp_packet ev ifidx ts mbuf s = Inr (r, s')" "\<forall>i. ar_calloc (qs_arp s) i"
  shows "ar_tables (qs_arp s') = fold (\<lambda>(k, v). arp_put k v) (arp_learned s mbuf ts) (ar_tables (qs_arp s))"
    "\<forall>i. ar_calloc (qs_arp s') i" "qs_streams s' = qs_streams s"
proof -
  let ?h = "mb_arph (mbuf_at s mbuf)"
  have "ar_tables (qs_arp s') = fold (\<lambda>(k, v). arp_put k v) (arp_learned s mbuf ts) (ar_tables (qs_arp s))
      \<and> (\<forall>i. ar_calloc (qs_arp s') i) \<and> qs_streams s' = qs_streams s"
  proof (cases "arp_header_ok ?h \<and> ar_tip ?h \<noteq> INADDR_LOOPBACK")
    case False
    then show ?thesis using assms by (auto simp: process_arp_packet_def Let_def arp_learned_def split: if_splits)
  next
    case True
    then obtain r0 s1 where op: "arp_handle_op ev ifidx (\<exists>ip\<in>set [ev_ip_addr ev]. ar_tip ?h = ip) ?h s = Inr (r0, s1)"
        and s': "s' = s1\<lparr>qs_arp := snd (register_arp_entry (ar_sip ?h) (take ETH_ALEN (ar_sha ?h)) ts (qs_arp s1))\<rparr>"
      using assms(1) by (auto simp: process_arp_packet_def Let_def bind_r_Inr_iff split_beta)
    then obtain r1 a where s1: "register_arp_entry (ar_sip ?h) (take ETH_ALEN (ar_sha ?h)) ts (qs_arp s1) = (r1, a)" "s' = s1\<lparr>qs_arp := a\<rparr>"
      by (cases "register_arp_entry (ar_sip ?h) (take ETH_ALEN (ar_sha ?h)) ts (qs_arp s1)") simp
    note k = postD [OF arp_handle_op_keeps op]
    have "ar_tables a = arp_put (ar_sip ?h) (take ETH_ALEN (ar_sha ?h), ts) (ar_tables (qs_arp s1))"
      using register_arp_entry_put [OF s1(1)] k assms(2) by auto
    then show ?thesis
      using s1 k True assms(2) register_arp_entry_frame(4) [OF s1(1)] by (simp add: arp_learned_def Let_def)
  qed
  then show "ar_tables (qs_arp s') = fold (\<lambda>(k, v). arp_put k v) (arp_learned s mbuf ts) (ar_tables (qs_arp s))"
    "\<forall>i. ar_calloc (qs_arp s') i" "qs_streams s' = qs_streams s" by simp_all
qed

text \<open>A run of packets, with what was learned from them in order.\<close>

fun arp_run :: "'h env \<Rightarrow> (ptr \<times> u32) list \<Rightarrow> 'h qstack \<Rightarrow> ((u32 \<times> u8 list \<times> u32) list \<times> 'h qstack) result" where
  "arp_run ev [] s = Inr ([], s)"
| "arp_run ev ((mbuf, ts) # ps) s =
     bind_r (process_arp_packet ev 0 ts mbuf s) (\<lambda>(_, s1).
     bind_r (arp_run ev ps s1) (\<lambda>(log, s2). Inr (arp_learned s mbuf ts @ log, s2)))"

lemma arp_run_tables:
  "arp_run ev ps s = Inr (log, s') \<Longrightarrow> \<forall>i. ar_calloc (qs_arp s) i \<Longrightarrow>
   ar_tables (qs_arp s') = fold (\<lambda>(k, v). arp_put k v) log (ar_tables (qs_arp s))"
proof (induction ps arbitrary: s log)
  case (Cons p ps)
  obtain mbuf ts where p: "p = (mbuf, ts)" by (cases p)
  then obtain r s1 log1 where s1: "process_arp_packet ev 0 ts mbuf s = Inr (r, s1)" "arp_run ev ps s1 = Inr (log1, s')"
      "log = arp_learned s mbuf ts @ log1"
    using Cons.prems(1) by (auto simp: bind_r_Inr_iff)
  note t = process_arp_packet_tables [OF s1(1) Cons.prems(2)]
  then show ?case using Cons.IH [OF s1(2)] s1 by simp
qed simp

lemma l2_len_set: "l2_len (set_l2_len v w) = take_bit 7 v"
proof -
  have m: "(0x7F :: u64) = mask 7" by (simp add: mask_eq_exp_minus_1)
  show ?thesis unfolding l2_len_def set_l2_len_def m
    by (rule bit_word_eqI) (auto simp: bit_simps)
qed

text \<open>The mbuf of an ARP packet as the driver gets it.\<close>

definition arp_wire :: "'h env \<Rightarrow> u16 \<Rightarrow> u32 \<Rightarrow> u8 list \<Rightarrow> mbuf \<Rightarrow> mbuf" where
  "arp_wire ev opcode ip h mb =
     mb\<lparr>mb_payload_len := 0, mb_tcp_seq := 0,
       mb_eth := \<lparr>eth_dest = h, eth_source = ev_haddr ev, eth_proto = htons ETH_P_ARP\<rparr>,
       mb_tx_offload := set_l2_len 14 (mb_tx_offload mb), mb_arph := fill_arp ev opcode ip h,
       mb_data_len := (if mb_data_len mb = 0 then 60 else mb_data_len mb),
       mb_pkt_len := (if mb_pkt_len mb = 0 then 60 else mb_pkt_len mb), mb_priority := True\<rparr>"

lemma arp_output_wire:
  assumes "io_get_swmbuf s = Inr (p, s1)" "p \<noteq> NULL" "cirq_wf (dp_th_mbufs (qs_dpdk s))" "\<not> cirq_full (dp_th_mbufs (qs_dpdk s))"
  obtains s' where "arp_output ev opcode ip h s = Inr (0, s')" "mbuf_at s' p = arp_wire ev opcode ip h (mbuf_at s p)"
    "cirq_list (dp_th_mbufs (qs_dpdk s')) = cirq_list (dp_th_mbufs (qs_dpdk s)) @ [p]"
proof -
  note k = alloc_keeps [OF assms(1)]
  let ?s3 = "mem_upd p (\<lambda>mb. mb\<lparr>mb_arph := fill_arp ev opcode ip h\<rparr>) (snd (eth_hdr_generate ev p ETH_P_ARP h s1))"
  have add: "fst (cirq_add (dp_th_mbufs (qs_dpdk s)) p) = SUCCESS"
      "cirq_list (snd (cirq_add (dp_th_mbufs (qs_dpdk s)) p)) = cirq_list (dp_th_mbufs (qs_dpdk s)) @ [p]"
    using cirq_add_room [OF assms(3,4)] by simp_all
  have q: "dp_th_mbufs (qs_dpdk ?s3) = dp_th_mbufs (qs_dpdk s)" using k assms(2) by (simp add: eth_hdr_generate_def)
  have mb: "mbuf_at ?s3 p = (mbuf_at s p)\<lparr>mb_payload_len := 0, mb_tcp_seq := 0,
      mb_eth := \<lparr>eth_dest = h, eth_source = ev_haddr ev, eth_proto = htons ETH_P_ARP\<rparr>,
      mb_tx_offload := set_l2_len 14 (mb_tx_offload (mbuf_at s p)), mb_arph := fill_arp ev opcode ip h\<rparr>"
    using k assms(2) by (simp add: eth_hdr_generate_def stack_simps header_lens)
  have len: "unat (l2_len (mb_tx_offload (mbuf_at ?s3 p))) + ARP_LEN = 60"
    by (simp add: mb l2_len_set ARP_LEN_def take_bit_eq_mod unat_word_ariths)
  have out: "arp_output ev opcode ip h s = bind_r (io_send_mbuf p 60 ?s3) (\<lambda>(_, s4). Inr (0, s4))"
  proof -
    have "fst (eth_hdr_generate ev p ETH_P_ARP h s1) = SUCCESS" using assms(2) by (simp add: eth_hdr_generate_def)
    then show ?thesis using assms(1,2) len by (simp add: arp_output_def Let_def split_beta del: of_nat_add)
  qed
  obtain s' where send: "io_send_mbuf p 60 ?s3 = Inr (1, s')" "mbuf_at s' p = arp_wire ev opcode ip h (mbuf_at s p)"
    "dp_th_mbufs (qs_dpdk s') = snd (cirq_add (dp_th_mbufs (qs_dpdk s)) p)"
  proof
    let ?s4 = "mem_upd p (\<lambda>mb. mb\<lparr>mb_data_len := (if mb_data_len mb = 0 then 60 else mb_data_len mb),
        mb_pkt_len := (if mb_pkt_len mb = 0 then ucast (60 :: u16) else mb_pkt_len mb)\<rparr>) ?s3"
    let ?s' = "(mem_upd p (\<lambda>mb. mb\<lparr>mb_priority := True\<rparr>) ?s4)\<lparr>qs_dpdk := (qs_dpdk ?s3)\<lparr>dp_th_mbufs := snd (cirq_add (dp_th_mbufs (qs_dpdk s)) p)\<rparr>\<rparr>"
    show "io_send_mbuf p 60 ?s3 = Inr (1, ?s')"
      using assms(2,4) add(1) q by (simp add: io_send_mbuf_def dpdk_tx_send_def Let_def split_beta stack_simps)
    show "dp_th_mbufs (qs_dpdk ?s') = snd (cirq_add (dp_th_mbufs (qs_dpdk s)) p)" by simp
    show "mbuf_at ?s' p = arp_wire ev opcode ip h (mbuf_at s p)"
      using mb by (simp add: stack_simps arp_wire_def)
  qed
  then show thesis using that [of s'] out add(2) by simp
qed

section \<open>Main properties\<close>

text \<open>
  C37 (refinement). The table of learned addresses implements a map: after any run of ARP packets it
  holds for every address what the last good packet of that sender said, and what it held before
  for all others, provided the memory for the entries was there.
\<close>

theorem arp_learns:
  assumes "arp_tables_inv (ar_tables (qs_arp s))" "\<forall>i. ar_calloc (qs_arp s) i" "arp_run ev ps s = Inr (log, s')"
  shows "arp_tables_inv (ar_tables (qs_arp s'))
    \<and> arp_lookup (ar_tables (qs_arp s')) = arp_lookup (ar_tables (qs_arp s)) ++ map_of (rev log)"
  using arp_run_tables [OF assms(3,2)] arpt.put_all_invar [OF assms(1)] arpt.get_put_all [OF assms(1)] by simp

text \<open>
  C38 (functional). A request for the stack's own address is answered: one packet more is queued for
  transmission, an ARP reply to the sender that carries the stack's addresses, and the sender is
  learned. Its length is that of an ARP packet, unless the mbuf it is written to has a length
  from before.
\<close>

theorem arp_request_answered:
  assumes h_def: "h = mb_arph (mbuf_at s m)"
    and "arp_header_ok h" "ntohs (ar_op h) = 1" "ar_tip h = ev_ip_addr ev" "ar_tip h \<noteq> 0x7f000001"
    and "arp_tables_inv (ar_tables (qs_arp s))" "\<forall>i. ar_calloc (qs_arp s) i"
    and "io_get_swmbuf s = Inr (p, s1)" "p \<noteq> NULL"
    and "cirq_wf (dp_th_mbufs (qs_dpdk s))" "\<not> cirq_full (dp_th_mbufs (qs_dpdk s))"
  shows "\<exists>s'. process_arp_packet ev 0 ts m s = Inr (SUCCESS, s')
    \<and> cirq_list (dp_th_mbufs (qs_dpdk s')) = cirq_list (dp_th_mbufs (qs_dpdk s)) @ [p]
    \<and> mb_arph (mbuf_at s' p) = \<lparr>ar_hrd = htons 1, ar_pro = htons 0x0800, ar_hln = 6, ar_pln = 4, ar_op = htons 2,
        ar_sha = take 6 (ev_haddr ev), ar_sip = ev_ip_addr ev, ar_tha = take 6 (ar_sha h), ar_tip = ar_sip h\<rparr>
    \<and> mb_eth (mbuf_at s' p) = \<lparr>eth_dest = ar_sha h, eth_source = ev_haddr ev, eth_proto = htons 0x0806\<rparr>
    \<and> mb_data_len (mbuf_at s' p) = (if mb_data_len (mbuf_at s p) = 0 then 60 else mb_data_len (mbuf_at s p))
    \<and> arp_lookup (ar_tables (qs_arp s')) (ar_sip h) = Some (take 6 (ar_sha h), ts)"
proof -
  obtain s2 where s2: "arp_output ev arp_op_reply (ar_sip h) (ar_sha h) s = Inr (0, s2)"
    "mbuf_at s2 p = arp_wire ev arp_op_reply (ar_sip h) (ar_sha h) (mbuf_at s p)"
    "cirq_list (dp_th_mbufs (qs_dpdk s2)) = cirq_list (dp_th_mbufs (qs_dpdk s)) @ [p]"
    by (rule arp_output_wire [OF assms(8-11)])
  define s' where "s' = s2\<lparr>qs_arp := snd (register_arp_entry (ar_sip h) (take ETH_ALEN (ar_sha h)) ts (qs_arp s2))\<rparr>"
  have p: "process_arp_packet ev 0 ts m s = Inr (SUCCESS, s')"
    using assms(2-5) s2(1) unfolding h_def s'_def
    by (simp add: process_arp_packet_def arp_handle_op_def process_arp_request_def Let_def split_beta arp_op_request_def INADDR_LOOPBACK_def)
  have "arp_lookup (ar_tables (qs_arp s')) (ar_sip h) = Some (take 6 (ar_sha h), ts)"
    using process_arp_packet_tables(1) [OF p assms(7)] assms(2,5) arpt.get_put [OF assms(6)]
    by (simp add: arp_learned_def Let_def h_def INADDR_LOOPBACK_def ETH_ALEN_def)
  moreover have "mbuf_at s' p = mbuf_at s2 p" "dp_th_mbufs (qs_dpdk s') = dp_th_mbufs (qs_dpdk s2)" by (simp_all add: s'_def)
  ultimately show ?thesis
    using p s2(2,3) by (simp add: arp_wire_def fill_arp_def arp_consts ETH_P_IP_def ETH_ALEN_def)
qed

text \<open>
  The static table resolves an address to the hardware address of the first rule
  whose prefix it has, in the order in which the rules were set; without such a rule the stack
  exits. Up to 16 rules with masks of 1 to 31 bits fit.
\<close>

lemma sarp_first_prefix:
  assumes "sarp_inv s" "ar_sarp_num s = 0" "length rules \<le> STATIC_ARP_NUM" "\<forall>r\<in>set rules. sarp_rule_ok r"
  shows "\<exists>s'. sarp_set_all rules s = Inr s'
    \<and> (\<forall>dip. get_dst_hwaddr dip s' = (case first_prefix dip rules of None \<Rightarrow> Inl Exit0 | Some h \<Rightarrow> Inr (take ETH_ALEN h)))"
proof -
  have "sarp_lookup dip s = None" for dip using assms(2) by (simp add: sarp_lookup_def)
  then show ?thesis
    using sarp_set_all_lookup [OF assms(1,4)] assms(2,3) by (auto simp: get_dst_hwaddr_def)
qed

text \<open>A request from 10.0.0.2 for the stack's address.\<close>

definition arp_req :: arphdr where
  "arp_req = \<lparr>ar_hrd = 0x0100, ar_pro = 8, ar_hln = 6, ar_pln = 4, ar_op = 0x0100, ar_sha = [2, 0, 0, 0, 0, 2],
     ar_sip = 0x0200000A, ar_tha = [0, 0, 0, 0, 0, 0], ar_tip = ev_ip_addr env0\<rparr>"

definition arp_stack :: "(ipv4_5tuple \<Rightarrow> ptr option) qstack" where
  "arp_stack = stack0\<lparr>qs_mem := \<lparr>mm_heap = (\<lambda>_. mbuf0)(9 := mbuf0\<lparr>mb_arph := arp_req\<rparr>), mm_released = [], mm_count = 9\<rparr>\<rparr>"

lemma arp_stack_facts:
  "arp_header_ok arp_req" "ntohs (ar_op arp_req) = 1" "ar_tip arp_req = ev_ip_addr env0" "ar_tip arp_req \<noteq> 0x7f000001"
  "arp_tables_inv (ar_tables (qs_arp arp_stack))" "\<forall>i. ar_calloc (qs_arp arp_stack) i"
  by (simp_all add: arp_req_def arp_header_ok_def arp_consts ETH_P_IP_def ETH_ALEN_def ntohs_def env0_def arp_stack_def
      stack0_def arp0_def arpt.empty_invar)

theorem arp_request_answered_witness:
  "\<exists>s'. process_arp_packet env0 0 7 9 arp_stack = Inr (SUCCESS, s') \<and> cirq_list (dp_th_mbufs (qs_dpdk s')) = [5]
    \<and> ar_tip (mb_arph (mbuf_at s' 5)) = 0x0200000A"
proof -
  obtain x q where d: "n21q_dequeue_strong nqueue0 = Some (x, q)"
    "x \<noteq> NULL \<Longrightarrow> n21q_items nqueue0 = add_mset x (n21q_items q)"
    using n21q_dequeue_items [of nqueue0] n21_example_wf(1) by (metis nqueue0_def)
  have "n21q_items nqueue0 = {#}"
    by (simp add: nqueue0_def n21_example_def n21q_init_def n21q_items_def cirq_init_def cirq_list_def cirq_count_def upt_rec o_def)
  then have "n21q_dequeue nqueue0 = Some (NULL, q)"
    using d by (auto simp: n21q_dequeue_def do_n21q_dequeue_def n21q_dequeue_strong_def)
  then obtain s1 where alloc: "io_get_swmbuf arp_stack = Inr (5, s1)"
    by (simp add: io_get_swmbuf_def dpdk_alloc_mbuf_def arp_stack_def stack0_def)
  have q: "cirq_wf (dp_th_mbufs (qs_dpdk arp_stack))" "\<not> cirq_full (dp_th_mbufs (qs_dpdk arp_stack))"
    "cirq_list (dp_th_mbufs (qs_dpdk arp_stack)) = []"
    by (simp_all add: arp_stack_def stack0_def squeue0_def sstreamq_init_def cirq_init_def cirq_wf_def cirq_list_def
        cirq_count_def cirq_full_def cirq_succ_def)
  have h: "arp_req = mb_arph (mbuf_at arp_stack 9)" by (simp add: arp_stack_def)
  show ?thesis
    using arp_request_answered [OF h arp_stack_facts alloc _ q(1,2), of 7] q(3) by (auto simp: arp_req_def)
qed

theorem arp_learns_witness:
  "\<exists>log s'. arp_run env0 [(9, 7)] (arp_stack\<lparr>qs_mem := \<lparr>mm_heap = (\<lambda>_. mbuf0\<lparr>mb_arph := arp_req\<lparr>ar_op := 0x0200\<rparr>\<rparr>), mm_released = [], mm_count = 9\<rparr>\<rparr>)
     = Inr (log, s') \<and> arp_lookup (ar_tables (qs_arp s')) 0x0200000A = Some ([2, 0, 0, 0, 0, 2], 7)"
proof -
  let ?s = "arp_stack\<lparr>qs_mem := \<lparr>mm_heap = (\<lambda>_. mbuf0\<lparr>mb_arph := arp_req\<lparr>ar_op := 0x0200\<rparr>\<rparr>), mm_released = [], mm_count = 9\<rparr>\<rparr>"
  have ok: "arp_header_ok (arp_req\<lparr>ar_op := 0x0200\<rparr>)" "ntohs 0x0200 = 2" "ar_tip arp_req \<noteq> INADDR_LOOPBACK"
    using arp_stack_facts(1,4) by (simp_all add: arp_header_ok_def ntohs_def INADDR_LOOPBACK_def)
  obtain s' where run: "arp_run env0 [(9, 7)] ?s = Inr ([(0x0200000A, [2, 0, 0, 0, 0, 2], 7)], s')"
    using ok by (simp add: process_arp_packet_def arp_handle_op_def process_arp_reply_def Let_def split_beta arp_op_request_def
        arp_op_reply_def arp_learned_def) (simp add: arp_req_def ETH_ALEN_def)
  have "arp_tables_inv (ar_tables (qs_arp ?s))" "\<forall>i. ar_calloc (qs_arp ?s) i" using arp_stack_facts(5,6) by simp_all
  from arp_learns [OF this run] show ?thesis using run by (auto simp: map_add_def)
qed

text \<open>Two rules: a more specific one after a general one is never reached.\<close>

theorem sarp_first_prefix_witness:
  "\<exists>s'. sarp_set_all [(0x0000000A, 8, [2, 0, 0, 0, 0, 1]), (0x0000010A, 16, [2, 0, 0, 0, 0, 2])] arp0 = Inr s'
    \<and> get_dst_hwaddr 0x0500010A s' = Inr [2, 0, 0, 0, 0, 1]"
proof -
  let ?rules = "[(0x0000000A, 8, [2, 0, 0, 0, 0, 1]), (0x0000010A, 16, [2, 0, 0, 0, 0, 2])] :: (u32 \<times> u8 \<times> u32 list) list"
  have "sarp_inv arp0" "ar_sarp_num arp0 = 0" "length ?rules \<le> STATIC_ARP_NUM" "\<forall>r\<in>set ?rules. sarp_rule_ok r"
    by (simp_all add: sarp_inv_def arp0_def STATIC_ARP_NUM_def ETH_ALEN_def sarp_rule_ok_def)
  from sarp_first_prefix [OF this] obtain s' where "sarp_set_all ?rules arp0 = Inr s'"
    "get_dst_hwaddr 0x0500010A s' = (case first_prefix 0x0500010A ?rules of None \<Rightarrow> Inl Exit0 | Some h \<Rightarrow> Inr (take ETH_ALEN h))" by blast
  moreover have "first_prefix 0x0500010A ?rules = Some [2, 0, 0, 0, 0, 1]"
    by (simp add: same_prefix_def ntohl_def)
  ultimately show ?thesis by (simp add: ETH_ALEN_def)
qed

end
