(* ===== verification/Tcp_Out.thy ===== *)
theory Tcp_Out
  imports Packet_Out
begin

text \<open>
  Sending (\<^verbatim>\<open>tcp_out.c\<close>): what an application's write does, the control packet that each
  state calls for, the flushing of a stream's send buffer, and the three loops that serve the
  streams waiting to send control packets, data and acknowledgements.
\<close>

section \<open>Operations\<close>

definition MAX_CTRL_PKT_BATCH :: nat where "MAX_CTRL_PKT_BATCH = 32"
definition MAX_DATA_PKT_BATCH :: int where "MAX_DATA_PKT_BATCH = 32"
definition MAX_ACK_PKT_BATCH :: nat where "MAX_ACK_PKT_BATCH = 32"
definition SEND_WINDOW_MIN :: u32 where "SEND_WINDOW_MIN = 1500"
definition QFLAG_SEND_HIGHPRI :: u8 where "QFLAG_SEND_HIGHPRI = 1"

definition TS_TO_MSEC :: "u32 \<Rightarrow> u32" where "TS_TO_MSEC t = t * 1000 div 1000"

definition send_tcp_control_packet :: "'h env \<Rightarrow> ptr \<Rightarrow> u32 \<Rightarrow> 'h qstack \<Rightarrow> (int \<times> 'h qstack) result" where
  "send_tcp_control_packet ev p cur_ts s =
     (case st_state (qs_streams s p) of
        TCP_ST_SYN_SENT \<Rightarrow> send_tcp_packet ev p cur_ts TCP_FLAG_SYN NULL 0 s
      | TCP_ST_SYN_RCVD \<Rightarrow> send_tcp_packet ev p cur_ts (TCP_FLAG_SYN OR TCP_FLAG_ACK) NULL 0
          (st_upd p (\<lambda>st. st\<lparr>st_snd_nxt := sv_iss (st_sndvar st)\<rparr>) s)
      | TCP_ST_ESTABLISHED \<Rightarrow> send_tcp_packet ev p cur_ts TCP_FLAG_ACK NULL 0 s
      | TCP_ST_CLOSE_WAIT \<Rightarrow> send_tcp_packet ev p cur_ts TCP_FLAG_ACK NULL 0 s
      | TCP_ST_LAST_ACK \<Rightarrow> send_tcp_packet ev p cur_ts (TCP_FLAG_FIN OR TCP_FLAG_ACK) NULL 0 s
      | TCP_ST_FIN_WAIT_1 \<Rightarrow> send_tcp_packet ev p cur_ts (TCP_FLAG_FIN OR TCP_FLAG_ACK) NULL 0 s
      | TCP_ST_FIN_WAIT_2 \<Rightarrow> send_tcp_packet ev p cur_ts TCP_FLAG_ACK NULL 0 s
      | TCP_ST_CLOSING \<Rightarrow>
          if sv_is_fin_sent (sndvar s p)
          then if st_snd_nxt (qs_streams s p) = sv_fss (sndvar s p)
               then send_tcp_packet ev p cur_ts (TCP_FLAG_FIN OR TCP_FLAG_ACK) NULL 0 s
               else send_tcp_packet ev p cur_ts TCP_FLAG_ACK NULL 0 s
          else send_tcp_packet ev p cur_ts (TCP_FLAG_FIN OR TCP_FLAG_ACK) NULL 0 s
      | TCP_ST_TIME_WAIT \<Rightarrow> send_tcp_packet ev p cur_ts TCP_FLAG_ACK NULL 0 s
      | TCP_ST_CLOSED \<Rightarrow> Inr (FAILED, s)
      | TCP_ST_LISTEN \<Rightarrow> Inr (FAILED, s))"

definition set_sndbuf :: "ptr \<Rightarrow> tcp_send_buffer \<Rightarrow> mbufs \<Rightarrow> 'h qstack \<Rightarrow> 'h qstack" where
  "set_sndbuf p sb m s = sv_upd p (\<lambda>sv. sv\<lparr>sv_sndbuf := sb\<rparr>) (s\<lparr>qs_mem := m\<rparr>)"

text \<open>
  The next mbuf to send: one to send again, else one of high priority, else one of low priority.
\<close>

definition flush_next :: "tcp_send_buffer \<Rightarrow> mbufs \<Rightarrow> ptr \<times> tcp_send_buffer \<times> mbufs" where
  "flush_next b m =
     (let (mbuf, rl, m1) = mbuf_list_pop (sb_retrans_list b) m;
          b1 = b\<lparr>sb_retrans_list := rl\<rparr>
      in if mbuf = NULL
         then let (mbuf1, hq) = mbufq_dequeue (sb_husnd_q b1);
                  b2 = b1\<lparr>sb_husnd_q := hq\<rparr>
              in if mbuf1 = NULL
                 then let (mbuf2, uq) = mbufq_dequeue (sb_usnd_q b2) in (mbuf2, b2\<lparr>sb_usnd_q := uq\<rparr>, m1)
                 else (mbuf1, b2, m1)
         else (mbuf, b1, m1))"

fun flush_loop :: "nat \<Rightarrow> 'h env \<Rightarrow> ptr \<Rightarrow> u32 \<Rightarrow> u32 \<Rightarrow> int \<Rightarrow> 'h qstack \<Rightarrow> (int \<times> 'h qstack) result" where
  "flush_loop 0 ev p cur_ts window packets s = Inl Diverges"
| "flush_loop (Suc fuel) ev p cur_ts window packets s =
     (let seq = st_snd_nxt (qs_streams s p);
          buff = sv_sndbuf (sndvar s p)
      in if TCP_SEQ_LT seq (sb_head_seq buff) then Inr (packets, s)
         else
           let (mbuf, buff1, m1) = flush_next buff (qs_mem s);
               s1 = set_sndbuf p buff1 m1 s;
               len = ucast (mb_payload_len (mbuf_at s1 mbuf)) :: u32;
               sv = sndvar s1 p
           in if mbuf = NULL then Inr (packets, s1)
              else if len = 0
              then bind_r (mbuf_free (qs_stack_id s1) mbuf (qs_mem s1)) (\<lambda>m2.
                     flush_loop fuel ev p cur_ts window packets (s1\<lparr>qs_mem := m2\<rparr>))
              else if TCP_SEQ_GT (seq + len) (sv_snd_una sv + window)
              then let s2 = (if seq - sv_snd_una sv + len > sv_peer_wnd sv
                                \<and> TS_TO_MSEC (cur_ts - sv_ts_lastack_sent sv) > 500
                             then snd (enqueue_ack p ACK_OPT_WACK s1) else s1)
                   in Inr (packets, snd (send_event_add (qs_stack_id s2) p (mb_priority (mbuf_at s2 mbuf)) s2))
              else bind_r (send_tcp_packet ev p cur_ts TCP_FLAG_ACK mbuf len s1) (\<lambda>(ret, s2).
                     if ret < 0 then Inl Exit0
                     else let (ul, m2) = mbuf_list_append (sb_uack_list (sv_sndbuf (sndvar s2 p))) mbuf (qs_mem s2);
                              s3 = set_sndbuf p ((sv_sndbuf (sndvar s2 p))\<lparr>sb_uack_list := ul\<rparr>) m2 s2
                          in flush_loop fuel ev p cur_ts window (packets + 1) s3))"

text \<open>
  Each round takes an mbuf out of a list of at most all mbufs or out of one of two queues of 8
  slots, so the fuel suffices.
\<close>

definition flush_tcp_sending_buffer :: "'h env \<Rightarrow> ptr \<Rightarrow> u32 \<Rightarrow> 'h qstack \<Rightarrow> (int \<times> 'h qstack) result" where
  "flush_tcp_sending_buffer ev p cur_ts s =
     (let sv = sndvar s p
      in if sv_is_fin_sent sv then Inr (0, s)
         else if sb_len (sv_sndbuf sv) = 0 then Inr (0, s)
         else let window = max (min (sv_cwnd sv) (sv_peer_wnd sv)) SEND_WINDOW_MIN
              in flush_loop (mm_count (qs_mem s) + 17) ev p cur_ts window 0 s)"

definition get_from_send_queue :: "'h qstack \<Rightarrow> (ptr \<times> 'h qstack) result" where
  "get_from_send_queue s =
     (case streamq_dequeue (qs_send_hevent_queue s) of
        None \<Rightarrow> Inl Diverges
      | Some (p, hq) \<Rightarrow>
          let s1 = s\<lparr>qs_send_hevent_queue := hq\<rparr>
          in if p \<noteq> NULL then Inr (p, s1)
             else case streamq_dequeue (qs_send_event_queue s1) of
                    None \<Rightarrow> Inl Diverges
                  | Some (p1, q) \<Rightarrow> Inr (p1, s1\<lparr>qs_send_event_queue := q\<rparr>))"

definition send_from_user :: "ptr \<Rightarrow> ptr \<Rightarrow> 'h qstack \<Rightarrow> int \<times> 'h qstack" where
  "send_from_user p mbuf s =
     (let sndlen = min (sint (sv_snd_wnd (sndvar s p))) (uint (mb_payload_len (mbuf_at s mbuf)))
      in if sndlen \<le> 0 then (FAILED, s)
         else let (ret, sb, m) = sb_put (sv_sndbuf (sndvar s p)) mbuf (qs_mem s);
                  s1 = sv_upd p (\<lambda>sv. sv\<lparr>sv_snd_wnd := sb_size sb - sb_len sb\<rparr>) (set_sndbuf p sb m s)
              in if ret \<le> 0 then (FAILED, s1) else (ret, s1))"

text \<open>
  \<^verbatim>\<open>q_free_mbuf\<close> takes the application's context, from which it reads the core; its call in
  \<^verbatim>\<open>_q_tcp_send\<close> passes the number of the core instead, and so reads through a pointer that
  points nowhere, unless the mbuf is one that is only marked as read.
\<close>

definition q_free_mbuf_core :: "ptr \<Rightarrow> 'h qstack \<Rightarrow> 'h qstack result" where
  "q_free_mbuf_core mbuf s =
     (if mb_priority (mbuf_at s mbuf) \<and> mb_holding (mbuf_at s mbuf)
      then Inr (mem_upd mbuf (\<lambda>mb. mb\<lparr>mb_holding := False\<rparr>) s)
      else Inl Undefined)"

definition q_tcp_send :: "'h env \<Rightarrow> nat \<Rightarrow> int \<Rightarrow> ptr \<Rightarrow> u32 \<Rightarrow> u8 \<Rightarrow> 'h qstack \<Rightarrow> (int \<times> 'h qstack) result" where
  "q_tcp_send ev core_id sockid mbuf len flags s =
     (if sockid < 0 \<or> sockid \<ge> int (ev_max_concurrency ev) then Inr (- 1, s)
      else let p = so_stream (tb_sockets (qs_sockets s) (nat sockid))
           in if p = NULL then Inr (- 1, s)
              else if mbuf = NULL then Inr (- 1, s)
              else if mb_state (mbuf_at s mbuf) \<noteq> MBUF_STATE_TALLOC then Inl Exit0
              else
                let s1 = mem_upd mbuf (\<lambda>mb. mb\<lparr>mb_payload_len := ucast len, mb_buf_next := NULL,
                           mb_priority := has_flag flags QFLAG_SEND_HIGHPRI\<rparr>) s;
                    state = st_state (qs_streams s1 p)
                in if \<not> (state = TCP_ST_ESTABLISHED \<or> state = TCP_ST_CLOSE_WAIT) then Inr (ERROR, s1)
                   else if len = 0 then Inr (- 1, s1)
                   else let (ret, s2) = send_from_user p mbuf s1
                        in if ret > 0
                           then Inr (ret, snd (send_event_add core_id p (mb_priority (mbuf_at s2 mbuf)) s2))
                           else bind_r (q_free_mbuf_core mbuf s2) (\<lambda>s3. Inr (ret, s3)))"

section \<open>The loops over the waiting streams\<close>

fun control_loop :: "nat \<Rightarrow> 'h env \<Rightarrow> u32 \<Rightarrow> nat \<Rightarrow> 'h qstack \<Rightarrow> (nat \<times> 'h qstack) result" where
  "control_loop 0 ev cur_ts cnt s = Inl Diverges"
| "control_loop (Suc fuel) ev cur_ts cnt s =
     (if cnt < MAX_CTRL_PKT_BATCH
      then let (p, q) = sstreamq_dequeue (qs_control_queue s);
               s1 = s\<lparr>qs_control_queue := q\<rparr>
           in if p = NULL then Inr (cnt, s1)
              else if sv_on_control_queue (sndvar s1 p)
              then bind_r (send_tcp_control_packet ev p cur_ts
                             (sv_upd p (\<lambda>sv. sv\<lparr>sv_on_control_queue := False\<rparr>) s1)) (\<lambda>(ret, s2).
                     control_loop fuel ev cur_ts (if ret = SUCCESS then cnt + 1 else cnt) s2)
              else control_loop fuel ev cur_ts cnt s1
      else Inr (cnt, s))"

definition write_tcp_control_queue :: "'h env \<Rightarrow> u32 \<Rightarrow> 'h qstack \<Rightarrow> (nat \<times> 'h qstack) result" where
  "write_tcp_control_queue ev cur_ts s = control_loop (unat (cq_size (qs_control_queue s)) + 1) ev cur_ts 0 s"

text \<open>Acknowledgements that travelled with \<open>ret\<close> data packets.\<close>

definition piggyback :: "int \<Rightarrow> 6 word \<Rightarrow> 6 word" where
  "piggyback ret a = (if uint a > ret then a - word_of_int ret else 0)"

fun send_loop :: "nat \<Rightarrow> 'h env \<Rightarrow> u32 \<Rightarrow> int \<Rightarrow> 'h qstack \<Rightarrow> (int \<times> 'h qstack) result" where
  "send_loop 0 ev cur_ts cnt s = Inl Diverges"
| "send_loop (Suc fuel) ev cur_ts cnt s =
     (if cnt < MAX_DATA_PKT_BATCH
      then bind_r (get_from_send_queue s) (\<lambda>(p, s1).
        if p = NULL then Inr (cnt, s1)
        else
          let state = st_state (qs_streams s1 p)
          in bind_r (if state = TCP_ST_ESTABLISHED \<or> state = TCP_ST_CLOSE_WAIT \<or> state = TCP_ST_FIN_WAIT_1
                        \<or> state = TCP_ST_LAST_ACK
                     then flush_tcp_sending_buffer ev p cur_ts s1 else Inr (FAILED, s1)) (\<lambda>(ret, s2).
             let cnt1 = (if ret > 0 then cnt + ret else cnt)
             in if ret \<le> 0 then Inr (cnt1, snd (control_queue_add p s2))
                else
                  let s3 = sv_upd p (\<lambda>sv. sv\<lparr>sv_on_send_queue := False,
                             sv_ack_cnt := (if sv_ack_cnt sv > 0 then piggyback ret (sv_ack_cnt sv)
                                            else sv_ack_cnt sv)\<rparr>) s2;
                      s4 = (if st_control_list_waiting (qs_streams s3 p) \<and> \<not> sv_on_ack_queue (sndvar s3 p)
                            then snd (control_queue_add p
                                   (st_upd p (\<lambda>st. st\<lparr>st_control_list_waiting := False\<rparr>) s3))
                            else s3)
                  in send_loop fuel ev cur_ts cnt1 s4))
      else Inr (cnt, s))"

text \<open>Every round but the last sends a packet, so 33 rounds suffice.\<close>

definition write_tcp_send_queue :: "'h env \<Rightarrow> u32 \<Rightarrow> 'h qstack \<Rightarrow> (int \<times> 'h qstack) result" where
  "write_tcp_send_queue ev cur_ts s = send_loop 33 ev cur_ts 0 s"

fun send_acks :: "nat \<Rightarrow> 'h env \<Rightarrow> ptr \<Rightarrow> u32 \<Rightarrow> nat \<Rightarrow> 'h qstack \<Rightarrow> (nat \<times> 'h qstack) result" where
  "send_acks 0 ev p cur_ts cnt s = (if sv_ack_cnt (sndvar s p) > 0 then Inl Diverges else Inr (cnt, s))"
| "send_acks (Suc fuel) ev p cur_ts cnt s =
     (if sv_ack_cnt (sndvar s p) > 0
      then bind_r (send_tcp_packet ev p cur_ts TCP_FLAG_ACK NULL 0 s) (\<lambda>(ret, s1).
             if ret \<noteq> SUCCESS then Inr (cnt, s1)
             else send_acks fuel ev p cur_ts (cnt + 1) (sv_upd p (\<lambda>sv. sv\<lparr>sv_ack_cnt := sv_ack_cnt sv - 1\<rparr>) s1))
      else Inr (cnt, s))"

text \<open>What the loop does for one stream that has acknowledgements to send.\<close>

definition ack_stream :: "'h env \<Rightarrow> ptr \<Rightarrow> u32 \<Rightarrow> nat \<Rightarrow> 'h qstack \<Rightarrow> (nat \<times> 'h qstack) result" where
  "ack_stream ev p cur_ts cnt s =
     (let s1 = sv_upd p (\<lambda>sv. sv\<lparr>sv_on_ack_queue := False\<rparr>) s;
          state = st_state (qs_streams s1 p);
          to_ack = (state = TCP_ST_ESTABLISHED \<or> state = TCP_ST_CLOSE_WAIT \<or> state = TCP_ST_FIN_WAIT_1
                    \<or> state = TCP_ST_FIN_WAIT_2 \<or> state = TCP_ST_TIME_WAIT)
      in bind_r
           (if to_ack
            then bind_r (send_acks (unat (sv_ack_cnt (sndvar s1 p))) ev p cur_ts cnt s1) (\<lambda>(cnt2, s2).
                   if sv_is_wack (sndvar s2 p)
                   then bind_r (send_tcp_packet ev p cur_ts (TCP_FLAG_ACK OR TCP_FLAG_WACK) NULL 0
                                  (sv_upd p (\<lambda>sv. sv\<lparr>sv_is_wack := False\<rparr>) s2)) (\<lambda>(ret, s3).
                          if ret \<noteq> SUCCESS then Inr (cnt2, sv_upd p (\<lambda>sv. sv\<lparr>sv_is_wack := True\<rparr>) s3)
                          else Inr (cnt2 + 1, s3))
                   else Inr (cnt2, s2))
            else Inr (cnt, sv_upd p (\<lambda>sv. sv\<lparr>sv_on_ack_queue := False, sv_ack_cnt := 0, sv_is_wack := False\<rparr>) s1))
           (\<lambda>(cnt4, s4).
             Inr (cnt4, if st_control_list_waiting (qs_streams s4 p) \<and> \<not> sv_on_send_queue (sndvar s4 p)
                        then snd (control_queue_add p
                               (st_upd p (\<lambda>st. st\<lparr>st_control_list_waiting := False\<rparr>) s4))
                        else s4)))"

fun ack_loop :: "nat \<Rightarrow> 'h env \<Rightarrow> u32 \<Rightarrow> nat \<Rightarrow> 'h qstack \<Rightarrow> (nat \<times> 'h qstack) result" where
  "ack_loop 0 ev cur_ts cnt s = Inl Diverges"
| "ack_loop (Suc fuel) ev cur_ts cnt s =
     (if cnt < MAX_ACK_PKT_BATCH
      then let (p, q) = sstreamq_dequeue (qs_ack_queue s);
               s1 = s\<lparr>qs_ack_queue := q\<rparr>
           in if p = NULL then Inr (cnt, s1)
              else if sv_on_ack_queue (sndvar s1 p)
              then bind_r (ack_stream ev p cur_ts cnt s1) (\<lambda>(cnt2, s2). ack_loop fuel ev cur_ts cnt2 s2)
              else ack_loop fuel ev cur_ts cnt s1
      else Inr (cnt, s))"

definition write_tcp_ack_queue :: "'h env \<Rightarrow> u32 \<Rightarrow> 'h qstack \<Rightarrow> (nat \<times> 'h qstack) result" where
  "write_tcp_ack_queue ev cur_ts s = ack_loop (unat (cq_size (qs_ack_queue s)) + 1) ev cur_ts 0 s"

section \<open>Flushing the send buffer\<close>

text \<open>
  The stream \<open>p\<close> has sent \<open>us\<close> and has \<open>qs\<close> to send, in order from its next sequence
  number to \<open>e\<close>, all within the window, and the transmit queue has room for them.
\<close>

definition can_flush :: "u32 \<Rightarrow> 'h qstack \<Rightarrow> ptr \<Rightarrow> ptr list \<Rightarrow> ptr list \<Rightarrow> u32 \<Rightarrow> bool" where
  "can_flush window s p us qs e \<longleftrightarrow>
     timer_inv s \<and> sb_rel (qs_mem s) (sv_sndbuf (sndvar s p)) us [] qs []
     \<and> distinct (us @ qs) \<and> (\<forall>q\<in>set qs. q \<le> mm_count (qs_mem s))
     \<and> cirq_wf (dp_th_mbufs (qs_dpdk s))
     \<and> length (cirq_list (dp_th_mbufs (qs_dpdk s))) + length qs \<le> cirq_capacity (dp_th_mbufs (qs_dpdk s))
     \<and> (\<forall>q\<in>set qs. mb_payload_len (mbuf_at s q) \<noteq> 0 \<and> mb_payload_len (mbuf_at s q) \<le> sv_mss (sndvar s p)
          \<and> \<not> TCP_SEQ_LT (seg_seq (qs_mem s) q) (sb_head_seq (sv_sndbuf (sndvar s p)))
          \<and> \<not> TCP_SEQ_GT (seg_end (qs_mem s) q) (sv_snd_una (sndvar s p) + window))
     \<and> seg_chain (qs_mem s) (st_snd_nxt (qs_streams s p)) qs e"

lemma flush_next_low:
  assumes "sb_rel m b us [] (x # qs) []"
  shows "\<exists>uq. flush_next b m = (x, b\<lparr>sb_usnd_q := uq\<rparr>, m) \<and> cirq_list uq = qs \<and> dir_cirq_wf uq \<and> x \<noteq> NULL"
proof -
  have r: "mlist (mm_heap m) (sb_retrans_list b) []" "dir_cirq_wf (sb_husnd_q b)" "cirq_list (sb_husnd_q b) = []"
    "dir_cirq_wf (sb_usnd_q b)" "cirq_list (sb_usnd_q b) = x # qs" "x \<noteq> NULL"
    using assms by (auto simp: sb_rel_def)
  obtain uq where "mbufq_dequeue (sb_usnd_q b) = (x, uq)" "cirq_list uq = qs" "dir_cirq_wf uq"
    using mbufq_dequeue_item [OF r(4,5)] by blast
  then show ?thesis
    using mbuf_list_pop_empty [OF r(1)] mbufq_dequeue_empty [OF r(2,3)] r(6)
    by (intro exI [of _ uq]) (simp add: flush_next_def)
qed

lemma flush_next_none:
  assumes "sb_rel m b us [] [] []"
  shows "flush_next b m = (NULL, b, m)"
proof -
  have r: "mlist (mm_heap m) (sb_retrans_list b) []" "dir_cirq_wf (sb_husnd_q b)" "cirq_list (sb_husnd_q b) = []"
    "dir_cirq_wf (sb_usnd_q b)" "cirq_list (sb_usnd_q b) = []"
    using assms by (auto simp: sb_rel_def)
  show ?thesis
    using mbuf_list_pop_empty [OF r(1)] mbufq_dequeue_empty [OF r(2,3)] mbufq_dequeue_empty [OF r(4,5)]
    by (simp add: flush_next_def)
qed

lemma ack_flag: "\<not> has_flag TCP_FLAG_ACK TCP_FLAG_SYN" "out_extra TCP_FLAG_ACK = 0" "out_fin TCP_FLAG_ACK = False"
  "calculate_option_length TCP_FLAG_ACK = 0" "out_seq TCP_FLAG_ACK st = st_snd_nxt st"
  by (simp_all add: has_flag_def tcp_flag_defs out_extra_def out_fin_def calculate_option_length_def out_seq_def)

lemma data_packet_sent:
  assumes inv: "timer_inv s" and mb: "mbuf \<noteq> NULL" and len: "mb_payload_len (mbuf_at s mbuf) \<le> sv_mss (sndvar s p)"
    and room: "cirq_wf (dp_th_mbufs (qs_dpdk s))" "\<not> cirq_full (dp_th_mbufs (qs_dpdk s))"
  shows "\<exists>s'. send_tcp_packet ev p ts TCP_FLAG_ACK mbuf (ucast (mb_payload_len (mbuf_at s mbuf))) s = Inr (SUCCESS, s')
    \<and> timer_inv s' \<and> (\<forall>q. q \<noteq> p \<longrightarrow> qs_streams s' q = qs_streams s q)
    \<and> (\<forall>q. q \<noteq> mbuf \<longrightarrow> mbuf_at s' q = mbuf_at s q) \<and> mb_payload_len (mbuf_at s' mbuf) = mb_payload_len (mbuf_at s mbuf)
    \<and> mb_tcp_seq (mbuf_at s' mbuf) = st_snd_nxt (qs_streams s p)
    \<and> mm_count (qs_mem s') = mm_count (qs_mem s) \<and> mm_released (qs_mem s') = mm_released (qs_mem s)
    \<and> sv_sndbuf (sndvar s' p) = sv_sndbuf (sndvar s p) \<and> sv_mss (sndvar s' p) = sv_mss (sndvar s p)
    \<and> sv_snd_una (sndvar s' p) = sv_snd_una (sndvar s p)
    \<and> st_snd_nxt (qs_streams s' p) = st_snd_nxt (qs_streams s p) + ucast (mb_payload_len (mbuf_at s mbuf))
    \<and> dp_th_mbufs (qs_dpdk s') = snd (cirq_add (dp_th_mbufs (qs_dpdk s)) mbuf)
    \<and> ntohl (th_seq (mb_tcph (mbuf_at s' mbuf))) = st_snd_nxt (qs_streams s p)
    \<and> qs_send_event_queue s' = qs_send_event_queue s \<and> qs_send_hevent_queue s' = qs_send_hevent_queue s"
proof -
  let ?len = "ucast (mb_payload_len (mbuf_at s mbuf)) :: u32"
  have l: "?len \<le> ucast (sv_mss (sndvar s p)) - ucast (calculate_option_length TCP_FLAG_ACK)"
    using len by (simp add: ack_flag word_le_nat_alt unat_ucast16)
  let ?e = "sent_state p ts TCP_FLAG_ACK mbuf ?len (headed_state ev p TCP_FLAG_ACK mbuf ?len s)"
  obtain s' where s': "send_tcp_packet ev p ts TCP_FLAG_ACK mbuf ?len s = Inr (SUCCESS, s')" "timer_inv s'"
      "timer_frame ?e s'" "\<forall>q. q \<noteq> p \<longrightarrow> qs_streams s' q = qs_streams s q"
    using send_tcp_packet_spec [OF inv mb l room, of ev ts] by blast
  note d = timer_frameD [OF s'(3)]
  have m: "qs_mem ?e = heap_upd mbuf (\<lambda>mb. wire_mbuf TCP_FLAG_ACK ?len (qs_streams (headed_state ev p TCP_FLAG_ACK mbuf ?len s) p)
      (headed_mbuf ev TCP_FLAG_ACK ?len (qs_streams s p) mb)) (qs_mem s)"
    by (simp add: sent_state_def headed_state_def mem_upd_def heap_upd_def)
  have hn: "st_snd_nxt (qs_streams (headed_state ev p TCP_FLAG_ACK mbuf ?len s) p) = st_snd_nxt (qs_streams s p)"
    by (simp add: headed_state_def stack_simps)
  have "sv_mss (sndvar s' p) = sv_mss (sndvar s p)" "sv_snd_una (sndvar s' p) = sv_snd_una (sndvar s p)"
      "st_snd_nxt (qs_streams s' p) = st_snd_nxt (qs_streams s p) + ?len"
    using timer_frame_field [OF s'(3), of "\<lambda>st. sv_mss (st_sndvar st)" p]
      timer_frame_field [OF s'(3), of "\<lambda>st. sv_snd_una (st_sndvar st)" p] timer_frame_field [OF s'(3), of st_snd_nxt p]
    by (simp_all add: no_timer_fields_def sent_state_def headed_state_def stack_simps sent_stream_def ack_flag)
  moreover have "sv_sndbuf (sndvar s' p) = sv_sndbuf (sndvar s p)"
    by (simp add: d sent_state_def headed_state_def stack_simps sent_stream_def)
  moreover have "dp_th_mbufs (qs_dpdk s') = snd (cirq_add (dp_th_mbufs (qs_dpdk s)) mbuf)"
    by (simp add: d sent_state_def headed_state_def)
  moreover have "mb_payload_len (mbuf_at s' mbuf) = mb_payload_len (mbuf_at s mbuf)"
      "mb_tcp_seq (mbuf_at s' mbuf) = st_snd_nxt (qs_streams s p)"
      "ntohl (th_seq (mb_tcph (mbuf_at s' mbuf))) = st_snd_nxt (qs_streams s p)"
    by (simp_all add: d m heap_upd_def wire_mbuf_def Let_def ucast_u16_u32 ack_flag hn th_seq_fill)
  moreover have "qs_send_event_queue s' = qs_send_event_queue s" "qs_send_hevent_queue s' = qs_send_hevent_queue s"
    by (simp_all add: d) (simp_all add: sent_state_def headed_state_def stack_simps)
  ultimately show ?thesis using s' by (simp add: d m heap_upd_def)
qed

lemma set_sndbuf_get [simp]:
  "sv_sndbuf (sndvar (set_sndbuf p b m s) p) = b" "qs_mem (set_sndbuf p b m s) = m"
  "q \<noteq> p \<Longrightarrow> qs_streams (set_sndbuf p b m s) q = qs_streams s q"
  "st_snd_nxt (qs_streams (set_sndbuf p b m s) q) = st_snd_nxt (qs_streams s q)"
  "sv_mss (sndvar (set_sndbuf p b m s) q) = sv_mss (sndvar s q)"
  "sv_snd_una (sndvar (set_sndbuf p b m s) q) = sv_snd_una (sndvar s q)"
  "sv_peer_wnd (sndvar (set_sndbuf p b m s) q) = sv_peer_wnd (sndvar s q)"
  "sv_ts_lastack_sent (sndvar (set_sndbuf p b m s) q) = sv_ts_lastack_sent (sndvar s q)"
  "qs_send_event_queue (set_sndbuf p b m s) = qs_send_event_queue s"
  "qs_send_hevent_queue (set_sndbuf p b m s) = qs_send_hevent_queue s"
  "qs_dpdk (set_sndbuf p b m s) = qs_dpdk s" "qs_stack_id (set_sndbuf p b m s) = qs_stack_id s"
  "timer_inv (set_sndbuf p b m s) = timer_inv s"
proof -
  have "same_timers s (set_sndbuf p b m s)" by (simp add: set_sndbuf_def same_timers_def stack_simps)
  then show "timer_inv (set_sndbuf p b m s) = timer_inv s" by (rule timer_inv_same)
qed (simp_all add: set_sndbuf_def stack_simps)

lemma flush_step:
  assumes c: "can_flush w s p us (x # qs) e"
  shows "\<exists>s'. flush_loop (Suc fuel) ev p ts w n s = flush_loop fuel ev p ts w (n + 1) s'
    \<and> can_flush w s' p (us @ [x]) qs e
    \<and> cirq_list (dp_th_mbufs (qs_dpdk s')) = cirq_list (dp_th_mbufs (qs_dpdk s)) @ [x]
    \<and> mm_released (qs_mem s') = mm_released (qs_mem s) \<and> (\<forall>q. q \<noteq> p \<longrightarrow> qs_streams s' q = qs_streams s q)
    \<and> (\<forall>q. q \<noteq> x \<longrightarrow> mb_tcph (mbuf_at s' q) = mb_tcph (mbuf_at s q)) \<and> (\<forall>q. seg_seq (qs_mem s') q = seg_seq (qs_mem s) q)
    \<and> ntohl (th_seq (mb_tcph (mbuf_at s' x))) = seg_seq (qs_mem s) x
    \<and> qs_send_event_queue s' = qs_send_event_queue s \<and> qs_send_hevent_queue s' = qs_send_hevent_queue s"
proof -
  let ?b = "sv_sndbuf (sndvar s p)" let ?m = "qs_mem s"
  have rel: "sb_rel ?m ?b us [] (x # qs) []" and inv: "timer_inv s" and dis: "distinct (us @ x # qs)"
    and wf: "cirq_wf (dp_th_mbufs (qs_dpdk s))" and xs: "x \<le> mm_count ?m"
    and len: "mb_payload_len (mbuf_at s x) \<noteq> 0" "mb_payload_len (mbuf_at s x) \<le> sv_mss (sndvar s p)"
    and seq: "seg_seq ?m x = st_snd_nxt (qs_streams s p)" "seg_chain ?m (seg_end ?m x) qs e"
    and win: "\<not> TCP_SEQ_LT (seg_seq ?m x) (sb_head_seq ?b)" "\<not> TCP_SEQ_GT (seg_end ?m x) (sv_snd_una (sndvar s p) + w)"
    using c by (auto simp: can_flush_def)
  have nf: "\<not> cirq_full (dp_th_mbufs (qs_dpdk s))" using c by (simp add: can_flush_def cirq_full_iff [OF wf])
  obtain uq where uq: "flush_next ?b ?m = (x, ?b\<lparr>sb_usnd_q := uq\<rparr>, ?m)" "cirq_list uq = qs" "dir_cirq_wf uq" "x \<noteq> NULL"
    using flush_next_low [OF rel] by blast
  let ?s1 = "set_sndbuf p (?b\<lparr>sb_usnd_q := uq\<rparr>) ?m s"
  let ?len = "ucast (mb_payload_len (mbuf_at ?s1 x)) :: u32"
  have len0: "?len \<noteq> 0" using len(1) ucast_u16_u32(1) [of "mb_payload_len (mbuf_at s x)"] by auto
  have e: "seg_end ?m x = st_snd_nxt (qs_streams s p) + ?len" using seq(1) by (simp add: seg_end_def seg_seq_def)
  obtain s2 where s2: "send_tcp_packet ev p ts TCP_FLAG_ACK x ?len ?s1 = Inr (SUCCESS, s2)" "timer_inv s2"
      "\<forall>q. q \<noteq> p \<longrightarrow> qs_streams s2 q = qs_streams ?s1 q"
      "\<forall>q. q \<noteq> x \<longrightarrow> mbuf_at s2 q = mbuf_at s q" "mb_payload_len (mbuf_at s2 x) = mb_payload_len (mbuf_at s x)"
      "mb_tcp_seq (mbuf_at s2 x) = st_snd_nxt (qs_streams s p)"
      "mm_count (qs_mem s2) = mm_count ?m" "mm_released (qs_mem s2) = mm_released ?m"
      "sv_sndbuf (sndvar s2 p) = ?b\<lparr>sb_usnd_q := uq\<rparr>" "sv_mss (sndvar s2 p) = sv_mss (sndvar s p)"
      "sv_snd_una (sndvar s2 p) = sv_snd_una (sndvar s p)"
      "st_snd_nxt (qs_streams s2 p) = st_snd_nxt (qs_streams s p) + ?len"
      "dp_th_mbufs (qs_dpdk s2) = snd (cirq_add (dp_th_mbufs (qs_dpdk s)) x)"
      "ntohl (th_seq (mb_tcph (mbuf_at s2 x))) = st_snd_nxt (qs_streams s p)"
      "qs_send_event_queue s2 = qs_send_event_queue s" "qs_send_hevent_queue s2 = qs_send_hevent_queue s"
    using data_packet_sent [of ?s1 x p ev ts] inv uq(4) len(2) wf nf by auto
  let ?a = "mbuf_list_append (sb_uack_list ?b) x (qs_mem s2)"
  let ?s3 = "set_sndbuf p (?b\<lparr>sb_usnd_q := uq, sb_uack_list := fst ?a\<rparr>) (snd ?a) s2"
  have step: "flush_loop (Suc fuel) ev p ts w n s = flush_loop fuel ev p ts w (n + 1) ?s3"
    using s2(1) win uq(1,4) len0 e seq(1) by (simp add: Let_def s2(9) case_prod_unfold SUCCESS_def)
  have "mlist (mm_heap ?m) (sb_uack_list ?b) us" using rel by (simp add: sb_rel_def)
  then have us: "mlist (mm_heap (qs_mem s2)) (sb_uack_list ?b) us"
    by (rule mlist_heap_eq) (use s2(4) dis in auto)
  have al: "mlist (mm_heap (snd ?a)) (fst ?a) (us @ [x])"
    using mbuf_list_append_mlist [OF us] dis uq(4) by simp
  have k: "seg_kept (qs_mem s2) (snd ?a)" by (rule mbuf_list_append_kept)
  have kq: "mb_payload_len (mm_heap (snd ?a) q) = mb_payload_len (mbuf_at s q)"
      "seg_seq (snd ?a) q = seg_seq ?m q" "seg_end (snd ?a) q = seg_end ?m q" for q
    using k s2(4,5,6) seq(1) unfolding seg_kept_def seg_seq_def seg_end_def by (cases "q = x"; simp)+
  have ch: "seg_chain (snd ?a) y zs z = seg_chain ?m y zs z" for y zs z
    by (induction zs arbitrary: y) (simp_all add: kq)
  have rl: "mlist (mm_heap (snd ?a)) (sb_retrans_list ?b) []" using rel by (simp add: sb_rel_def mlist_def)
  have rel3: "sb_rel (snd ?a) (?b\<lparr>sb_usnd_q := uq, sb_uack_list := fst ?a\<rparr>) (us @ [x]) [] qs []"
    using rel al rl uq(2,3) xs s2(7) by (auto simp: sb_rel_def mbuf_list_append_mem)
  have q3: "cirq_list (dp_th_mbufs (qs_dpdk ?s3)) = cirq_list (dp_th_mbufs (qs_dpdk s)) @ [x]"
      "cirq_wf (dp_th_mbufs (qs_dpdk ?s3))" "cirq_capacity (dp_th_mbufs (qs_dpdk ?s3)) = cirq_capacity (dp_th_mbufs (qs_dpdk s))"
    using cirq_add_room [OF wf nf, of x] by (simp_all add: s2(13) cirq_capacity_def)
  have "can_flush w ?s3 p (us @ [x]) qs e"
    using c rel3 q3 dis s2(2,10-12) seq(2) unfolding can_flush_def
    by (simp add: kq ch mbuf_list_append_mem s2(7) e)
  moreover have "mb_tcph (mbuf_at ?s3 q) = mb_tcph (mbuf_at s2 q)" for q by (simp add: mbuf_list_append_def set_next_def heap_upd_def)
  ultimately show ?thesis
    using step q3(1) s2(3,4,8,14-16) kq(2) seq(1) by (intro exI [of _ ?s3]) (simp add: mbuf_list_append_mem)
qed

lemma flush_loop_sends:
  assumes "can_flush w s p us qs e" "length qs < fuel"
  shows "\<exists>s'. flush_loop fuel ev p ts w n s = Inr (n + int (length qs), s')
    \<and> timer_inv s' \<and> sb_rel (qs_mem s') (sv_sndbuf (sndvar s' p)) (us @ qs) [] [] []
    \<and> st_snd_nxt (qs_streams s' p) = e
    \<and> cirq_list (dp_th_mbufs (qs_dpdk s')) = cirq_list (dp_th_mbufs (qs_dpdk s)) @ qs
    \<and> mm_released (qs_mem s') = mm_released (qs_mem s) \<and> (\<forall>q. q \<noteq> p \<longrightarrow> qs_streams s' q = qs_streams s q)
    \<and> (\<forall>q. q \<notin> set qs \<longrightarrow> mb_tcph (mbuf_at s' q) = mb_tcph (mbuf_at s q))
    \<and> (\<forall>q\<in>set qs. ntohl (th_seq (mb_tcph (mbuf_at s' q))) = seg_seq (qs_mem s) q)
    \<and> qs_send_event_queue s' = qs_send_event_queue s \<and> qs_send_hevent_queue s' = qs_send_hevent_queue s"
  using assms
proof (induction qs arbitrary: s us n fuel)
  case Nil
  then obtain f where f: "fuel = Suc f" by (cases fuel) auto
  have rel: "sb_rel (qs_mem s) (sv_sndbuf (sndvar s p)) us [] [] []" and c: "timer_inv s" "st_snd_nxt (qs_streams s p) = e"
    using Nil(1) by (auto simp: can_flush_def)
  show ?case
  proof (cases "TCP_SEQ_LT (st_snd_nxt (qs_streams s p)) (sb_head_seq (sv_sndbuf (sndvar s p)))")
    case True
    then show ?thesis using c rel by (simp add: f)
  next
    case False
    let ?s1 = "set_sndbuf p (sv_sndbuf (sndvar s p)) (qs_mem s) s"
    have "flush_loop fuel ev p ts w n s = Inr (n, ?s1)"
      using False flush_next_none [OF rel] by (simp add: f Let_def)
    then show ?thesis using c rel by simp
  qed
next
  case (Cons x qs)
  then obtain f where f: "fuel = Suc f" "length qs < f" by (cases fuel) auto
  obtain s1 where s1: "flush_loop fuel ev p ts w n s = flush_loop f ev p ts w (n + 1) s1"
      "can_flush w s1 p (us @ [x]) qs e"
      "cirq_list (dp_th_mbufs (qs_dpdk s1)) = cirq_list (dp_th_mbufs (qs_dpdk s)) @ [x]"
      "mm_released (qs_mem s1) = mm_released (qs_mem s)" "\<forall>q. q \<noteq> p \<longrightarrow> qs_streams s1 q = qs_streams s q"
      "\<forall>q. q \<noteq> x \<longrightarrow> mb_tcph (mbuf_at s1 q) = mb_tcph (mbuf_at s q)" "\<forall>q. seg_seq (qs_mem s1) q = seg_seq (qs_mem s) q"
      "ntohl (th_seq (mb_tcph (mbuf_at s1 x))) = seg_seq (qs_mem s) x"
      "qs_send_event_queue s1 = qs_send_event_queue s" "qs_send_hevent_queue s1 = qs_send_hevent_queue s"
    using flush_step [OF Cons.prems(1), of f ev ts n] f(1) by blast
  have "x \<notin> set qs" using Cons.prems(1) by (auto simp: can_flush_def)
  with Cons.IH [OF s1(2) f(2), of "n + 1"] show ?case using s1 by (auto simp: add.commute add.left_commute)
qed

definition send_window :: "'h qstack \<Rightarrow> ptr \<Rightarrow> u32" where
  "send_window s p = max (min (sv_cwnd (sndvar s p)) (sv_peer_wnd (sndvar s p))) SEND_WINDOW_MIN"

lemma flush_sends:
  assumes "can_flush (send_window s p) s p us qs e" "\<not> sv_is_fin_sent (sndvar s p)"
    "sb_len (sv_sndbuf (sndvar s p)) \<noteq> 0"
  shows "\<exists>s'. flush_tcp_sending_buffer ev p ts s = Inr (int (length qs), s') \<and> timer_inv s'
    \<and> sb_rel (qs_mem s') (sv_sndbuf (sndvar s' p)) (us @ qs) [] [] [] \<and> st_snd_nxt (qs_streams s' p) = e
    \<and> cirq_list (dp_th_mbufs (qs_dpdk s')) = cirq_list (dp_th_mbufs (qs_dpdk s)) @ qs
    \<and> mm_released (qs_mem s') = mm_released (qs_mem s) \<and> (\<forall>q. q \<noteq> p \<longrightarrow> qs_streams s' q = qs_streams s q)
    \<and> (\<forall>q\<in>set qs. ntohl (th_seq (mb_tcph (mbuf_at s' q))) = seg_seq (qs_mem s) q)
    \<and> qs_send_event_queue s' = qs_send_event_queue s \<and> qs_send_hevent_queue s' = qs_send_hevent_queue s"
proof -
  have "length qs \<le> 7"
    using assms(1) dir_list_bound [of "sb_usnd_q (sv_sndbuf (sndvar s p))"] by (auto simp: can_flush_def sb_rel_def)
  then have "length qs < mm_count (qs_mem s) + 17" by simp
  from flush_loop_sends [OF assms(1) this, of ev ts 0] assms(2,3) show ?thesis
    by (auto simp: flush_tcp_sending_buffer_def Let_def send_window_def)
qed

section \<open>Main properties\<close>

text \<open>
  Flushing a stream whose waiting data follows its next sequence number and lies
  within the window hands all of it to the driver, in order and each segment once, ends, and
  returns the number of packets: the data then waits, still in order, for acknowledgement behind
  what was sent before, each header carries the sequence number of its segment, and the next
  sequence number is behind the last byte. Nothing is released and no other stream changes.
\<close>

lemma flush_sends_window:
  assumes "can_flush (send_window s p) s p us qs e" "\<not> sv_is_fin_sent (sndvar s p)"
    "sb_len (sv_sndbuf (sndvar s p)) \<noteq> 0"
  shows "\<exists>s'. flush_tcp_sending_buffer ev p ts s = Inr (int (length qs), s') \<and> timer_inv s'
    \<and> sb_rel (qs_mem s') (sv_sndbuf (sndvar s' p)) (us @ qs) [] [] [] \<and> st_snd_nxt (qs_streams s' p) = e
    \<and> cirq_list (dp_th_mbufs (qs_dpdk s')) = cirq_list (dp_th_mbufs (qs_dpdk s)) @ qs
    \<and> mm_released (qs_mem s') = mm_released (qs_mem s) \<and> (\<forall>q. q \<noteq> p \<longrightarrow> qs_streams s' q = qs_streams s q)
    \<and> (\<forall>q\<in>set qs. ntohl (th_seq (mb_tcph (mbuf_at s' q))) = seg_seq (qs_mem s) q)"
  using flush_sends [OF assms, of ev ts] by blast

text \<open>Stream 1 of the sample has two segments to send from sequence number 0xFFFFFF00 on.\<close>

definition sb_wait :: tcp_send_buffer where
  "sb_wait = sb0\<lparr>sb_usnd_q := snd (mbufq_enqueue (snd (mbufq_enqueue dq0 1)) 2),
     sb_head_seq := 0xFFFFFF00, sb_next_seq := 0x100\<rparr>"

definition stack4 :: "(ipv4_5tuple \<Rightarrow> ptr option) qstack" where
  "stack4 = stack3\<lparr>qs_streams := (qs_streams stack3)(1 := (qs_streams stack3 1)\<lparr>st_snd_nxt := 0xFFFFFF00,
     st_sndvar := (sndvar stack3 1)\<lparr>sv_sndbuf := sb_wait, sv_cwnd := 3000, sv_peer_wnd := 3000,
       sv_snd_una := 0xFFFFFF00\<rparr>\<rparr>)\<rparr>"

lemma sb_wait:
  "dir_cirq_wf (sb_usnd_q sb_wait)" "cirq_list (sb_usnd_q sb_wait) = [1, 2]"
proof -
  obtain q1 where q1: "mbufq_enqueue dq0 1 = (SUCCESS, q1)" "cirq_list q1 = [1]" "dir_cirq_wf q1"
    using mbufq_enqueue_room [OF dq0(1), of 1] dq0(2) by auto
  obtain q2 where q2: "mbufq_enqueue q1 2 = (SUCCESS, q2)" "cirq_list q2 = [1, 2]" "dir_cirq_wf q2"
    using mbufq_enqueue_room [OF q1(3), of 2] q1(2) by auto
  show "dir_cirq_wf (sb_usnd_q sb_wait)" "cirq_list (sb_usnd_q sb_wait) = [1, 2]"
    using q1 q2 by (simp_all add: sb_wait_def)
qed

lemma stack4_flush: "can_flush (send_window stack4 1) stack4 1 [] [1, 2] 0x100"
proof -
  have st: "sv_sndbuf (sndvar stack4 1) = sb_wait" "qs_mem stack4 = mem_segs" "st_snd_nxt (qs_streams stack4 1) = 0xFFFFFF00"
      "sv_snd_una (sndvar stack4 1) = 0xFFFFFF00" "qs_dpdk stack4 = qs_dpdk stack3" "sv_mss (sndvar stack4 1) = 1460"
      "send_window stack4 1 = 3000"
    using stack3_ok(4)
    by (simp_all add: stack4_def stack3_def stack1_def stack0_def send_window_def SEND_WINDOW_MIN_def)
  have "same_timers stack3 stack4" by (simp add: same_timers_def stack4_def)
  then have inv: "timer_inv stack4" using stack3_ok(1) timer_inv_same by blast
  have rel: "sb_rel mem_segs sb_wait [] [] [1, 2] []"
    using sb_wait sb0(1) [of mem_segs] by (simp add: sb_rel_def sb_wait_def)
  have cap: "cirq_capacity (dp_th_mbufs (qs_dpdk stack3)) = 3"
    by (simp add: cirq_capacity_def stack3_def stack1_def stack0_def squeue0_def sstreamq_init_def cirq_init_def queue0_def)
  show ?thesis
    unfolding can_flush_def st using inv rel stack3_ok(2,5) cap
    by (simp add: mem_segs_def seg_seq_def seg_end_def seg0_def mbuf0_def seq_defs sb_wait_def)
qed

theorem flush_sends_window_witness:
  "\<exists>s'. flush_tcp_sending_buffer env0 1 5 stack4 = Inr (2, s')
     \<and> cirq_list (dp_th_mbufs (qs_dpdk s')) = [1, 2] \<and> st_snd_nxt (qs_streams s' 1) = 0x100"
proof -
  have a: "\<not> sv_is_fin_sent (sndvar stack4 1)" "sb_len (sv_sndbuf (sndvar stack4 1)) \<noteq> 0"
    by (simp_all add: stack4_def stack3_def stack1_def stream1_def init_sndvar_def zero_stream_def sb_wait_def sb_len_def)
  have b: "cirq_list (dp_th_mbufs (qs_dpdk stack4)) = []" using stack3_ok(5) by (simp add: stack4_def)
  show ?thesis using flush_sends_window [OF stack4_flush a, of env0 5] b by auto
qed

text \<open>
  When the next waiting segment does not fit into the window, flushing takes it out
  of the send buffer and drops it: it is neither sent, nor kept for later, nor released, although
  the stream is queued to be flushed again.
\<close>

lemma flush_window_loses:
  assumes rel: "sb_rel (qs_mem s) (sv_sndbuf (sndvar s p)) us [] (x # qs) []"
    and fin: "\<not> sv_is_fin_sent (sndvar s p)" and ne: "sb_len (sv_sndbuf (sndvar s p)) \<noteq> 0"
    and seq: "\<not> TCP_SEQ_LT (st_snd_nxt (qs_streams s p)) (sb_head_seq (sv_sndbuf (sndvar s p)))"
    and len: "mb_payload_len (mbuf_at s x) \<noteq> 0"
    and win: "TCP_SEQ_GT (st_snd_nxt (qs_streams s p) + ucast (mb_payload_len (mbuf_at s x)))
       (sv_snd_una (sndvar s p) + send_window s p)"
  shows "\<exists>s'. flush_tcp_sending_buffer ev p ts s = Inr (0, s')
    \<and> sb_rel (qs_mem s') (sv_sndbuf (sndvar s' p)) us [] qs []
    \<and> mm_released (qs_mem s') = mm_released (qs_mem s) \<and> qs_dpdk s' = qs_dpdk s"
proof -
  obtain uq where uq: "flush_next (sv_sndbuf (sndvar s p)) (qs_mem s) = (x, (sv_sndbuf (sndvar s p))\<lparr>sb_usnd_q := uq\<rparr>, qs_mem s)"
      "cirq_list uq = qs" "dir_cirq_wf uq" "x \<noteq> NULL"
    using flush_next_low [OF rel] by blast
  let ?s1 = "set_sndbuf p ((sv_sndbuf (sndvar s p))\<lparr>sb_usnd_q := uq\<rparr>) (qs_mem s) s"
  have len0: "(ucast (mb_payload_len (mbuf_at s x)) :: u32) \<noteq> 0"
    using len ucast_u16_u32(1) [of "mb_payload_len (mbuf_at s x)"] by auto
  have keep: "qs_mem (snd (send_event_add c p pr t)) = qs_mem t" "sndvar (snd (send_event_add c p pr t)) p = sndvar t p"
      "qs_dpdk (snd (send_event_add c p pr t)) = qs_dpdk t" for c pr and t :: "'a qstack"
    by (simp_all add: send_event_add_def case_prod_unfold Let_def)
  have keep2: "qs_mem (snd (enqueue_ack p op t)) = qs_mem t" "sv_sndbuf (sndvar (snd (enqueue_ack p op t)) p) = sv_sndbuf (sndvar t p)"
      "qs_dpdk (snd (enqueue_ack p op t)) = qs_dpdk t" for op and t :: "'a qstack"
    by (simp_all add: enqueue_ack_def ack_queue_add_def case_prod_unfold stack_simps Let_def split: ack_opt.splits)
  have r1: "sb_rel (qs_mem s) ((sv_sndbuf (sndvar s p))\<lparr>sb_usnd_q := uq\<rparr>) us [] qs []"
    using rel uq(2,3) by (simp add: sb_rel_def)
  define k where "k = mm_count (qs_mem s) + 16"
  have u: "flush_tcp_sending_buffer ev p ts s = flush_loop (Suc k) ev p ts (send_window s p) 0 s"
    using fin ne by (simp add: flush_tcp_sending_buffer_def Let_def send_window_def k_def add.commute del: flush_loop.simps)
  have "\<exists>s2 c pr. flush_tcp_sending_buffer ev p ts s = Inr (0, snd (send_event_add c p pr s2))
      \<and> (s2 = ?s1 \<or> s2 = snd (enqueue_ack p ACK_OPT_WACK ?s1))"
    unfolding u using seq uq(1,4) len0 win by (auto simp: Let_def)
  then show ?thesis using r1 by (auto simp: keep keep2)
qed

lemma flush_window_loses_witness:
  "\<exists>s'. flush_tcp_sending_buffer env0 1 5 (sv_upd 1 (\<lambda>sv. sv\<lparr>sv_snd_una := 0xFFFF0000\<rparr>) stack4) = Inr (0, s')
     \<and> sb_rel (qs_mem s') (sv_sndbuf (sndvar s' 1)) [] [] [2] []"
proof -
  let ?s = "sv_upd 1 (\<lambda>sv. sv\<lparr>sv_snd_una := 0xFFFF0000\<rparr>) stack4"
  have rel: "sb_rel (qs_mem ?s) (sv_sndbuf (sndvar ?s 1)) [] [] [1, 2] []"
    using stack4_flush by (simp add: can_flush_def stack_simps)
  have v: "send_window ?s 1 = 3000" "\<not> sv_is_fin_sent (sndvar ?s 1)" "sv_sndbuf (sndvar ?s 1) = sb_wait"
      "st_snd_nxt (qs_streams ?s 1) = 0xFFFFFF00" "sv_snd_una (sndvar ?s 1) = 0xFFFF0000"
      "mb_payload_len (mbuf_at ?s 1) = 256"
    by (simp_all add: stack_simps stack4_def stack3_def stack1_def stack0_def stream1_def init_sndvar_def zero_stream_def
        send_window_def SEND_WINDOW_MIN_def mem_segs_def seg0_def mbuf0_def)
  show ?thesis
    using flush_window_loses [OF rel v(2), of env0 5] v by (auto simp: sb_wait_def sb_len_def seq_defs)
qed

text \<open>
  A write on an open connection whose send window is used up does not fail cleanly:
  the code that should release the mbuf passes the core's number where a pointer to the
  application's context is expected and reads through it.
\<close>

lemma q_tcp_send_full_undefined:
  assumes "0 \<le> sockid" "sockid < int (ev_max_concurrency ev)"
    "so_stream (tb_sockets (qs_sockets s) (nat sockid)) = p" "p \<noteq> NULL" "mbuf \<noteq> NULL"
    "mb_state (mbuf_at s mbuf) = MBUF_STATE_TALLOC" "\<not> mb_holding (mbuf_at s mbuf)" "len \<noteq> 0"
    "st_state (qs_streams s p) = TCP_ST_ESTABLISHED" "sv_snd_wnd (sndvar s p) = 0"
  shows "q_tcp_send ev c sockid mbuf len flags s = Inl Undefined"
  using assms by (simp add: q_tcp_send_def Let_def send_from_user_def stack_simps q_free_mbuf_core_def FAILED_def)

lemma q_tcp_send_full_undefined_witness:
  "q_tcp_send env0 1 2 6 100 0 (mem_upd 6 (\<lambda>mb. mb\<lparr>mb_state := MBUF_STATE_TALLOC\<rparr>)
     (sv_upd 1 (\<lambda>sv. sv\<lparr>sv_snd_wnd := 0\<rparr>) stack3)) = Inl Undefined"
  by (rule q_tcp_send_full_undefined [where p = 1])
    (simp_all add: env0_def stack_simps stack3_def stack1_def stack0_def stream1_def mem_segs_def seg0_def mbuf0_def)

end
