(* ===== verification/Tcp_Ack.thy ===== *)
theory Tcp_Ack
  imports Tcp_Events Tcp_Out
begin

text \<open>
  Acknowledgements and payload of a received segment: \<^verbatim>\<open>process_tcp_ack\<close> and
  \<^verbatim>\<open>process_tcp_payload\<close> of \<^verbatim>\<open>tcp_in.c\<close>. The write events that the code marks as to do
  are not raised by it. Products of 16-bit numbers are computed as signed 32-bit numbers, whose
  overflow is undefined, as are a shift by 32 or more and a division by 0.
\<close>

section \<open>Acknowledgements\<close>

definition closing_state :: "tcp_state \<Rightarrow> bool" where
  "closing_state st \<longleftrightarrow> st = TCP_ST_FIN_WAIT_1 \<or> st = TCP_ST_FIN_WAIT_2 \<or> st = TCP_ST_CLOSING
     \<or> st = TCP_ST_CLOSE_WAIT \<or> st = TCP_ST_LAST_ACK"

text \<open>The acknowledgement of the FIN counts as one of the byte before it.\<close>

definition data_ack :: "tcp_stream \<Rightarrow> u32 \<Rightarrow> u32" where
  "data_ack st ack_seq =
     (if closing_state (st_state st) \<and> sv_is_fin_sent (st_sndvar st) \<and> ack_seq = sv_fss (st_sndvar st) + 1
      then ack_seq - 1 else ack_seq)"

definition ack_update_window :: "ptr \<Rightarrow> u32 \<Rightarrow> u32 \<Rightarrow> u32 \<Rightarrow> 'h qstack \<Rightarrow> 'h qstack" where
  "ack_update_window p cwindow seq ack_seq s =
     (let rv = rcvvar s p
      in if TCP_SEQ_LT (rv_snd_wl1 rv) seq
            \<or> rv_snd_wl1 rv = seq \<and> TCP_SEQ_LT (rv_snd_wl2 rv) ack_seq
            \<or> rv_snd_wl2 rv = ack_seq \<and> cwindow > sv_peer_wnd (sndvar s p)
         then rv_upd p (\<lambda>rv. rv\<lparr>rv_snd_wl1 := seq, rv_snd_wl2 := ack_seq\<rparr>)
                (sv_upd p (\<lambda>sv. sv\<lparr>sv_peer_wnd := cwindow\<rparr>) s)
         else s)"

text \<open>
  The test against overflow of the 8-bit counter of duplicates is made on its value as an
  \<^verbatim>\<open>int\<close>, where it always holds.
\<close>

definition ack_is_dup :: "ptr \<Rightarrow> u32 \<Rightarrow> u32 \<Rightarrow> int \<Rightarrow> 'h qstack \<Rightarrow> bool" where
  "ack_is_dup p right_wnd_edge ack_seq payloadlen s \<longleftrightarrow>
     TCP_SEQ_LT ack_seq (st_snd_nxt (qs_streams s p))
     \<and> ack_seq = rv_last_ack_seq (rcvvar s p) \<and> payloadlen = 0
     \<and> rv_snd_wl2 (rcvvar s p) + sv_peer_wnd (sndvar s p) = right_wnd_edge"

definition ack_count_dup :: "ptr \<Rightarrow> bool \<Rightarrow> u32 \<Rightarrow> 'h qstack \<Rightarrow> 'h qstack" where
  "ack_count_dup p dup ack_seq s =
     (if dup then rv_upd p (\<lambda>rv. rv\<lparr>rv_dup_acks := rv_dup_acks rv + 1\<rparr>) s
      else rv_upd p (\<lambda>rv. rv\<lparr>rv_dup_acks := 0, rv_last_ack_seq := ack_seq\<rparr>) s)"

definition fast_retransmit :: "ptr \<Rightarrow> u32 \<Rightarrow> 'h qstack \<Rightarrow> 'h qstack result" where
  "fast_retransmit p ack_seq s =
     bind_r (if TCP_SEQ_LT ack_seq (st_snd_nxt (qs_streams s p))
             then bind_r (sb_reset_retrans (sv_sndbuf (sndvar s p)) (qs_mem s)) (\<lambda>(_, sb, m).
                    Inr (sv_upd p (\<lambda>sv. sv\<lparr>sv_sndbuf := sb\<rparr>)
                           (st_upd p (\<lambda>st. st\<lparr>st_snd_nxt := ack_seq\<rparr>) (s\<lparr>qs_mem := m\<rparr>))))
             else Inr s) (\<lambda>s1.
     let s2 = sv_upd p (\<lambda>sv.
                let mss = ucast (sv_mss sv);
                    half = min (sv_cwnd sv) (sv_peer_wnd sv) div 2;
                    thresh = (if half < 2 * mss then 2 * mss else half)
                in sv\<lparr>sv_ssthresh := thresh, sv_cwnd := thresh + 3 * mss,
                      sv_nrtx := (if sv_nrtx sv < TCP_MAX_RTX then sv_nrtx sv + 1 else sv_nrtx sv)\<rparr>) s1;
         (_, q) = send_event_enqueue (qs_send_event_queue s2) (of_nat (qs_stack_id s2)) p
     in Inr (s2\<lparr>qs_send_event_queue := q\<rparr>))"

definition ack_inflate :: "ptr \<Rightarrow> 'h qstack \<Rightarrow> 'h qstack" where
  "ack_inflate p s =
     sv_upd p (\<lambda>sv. if sv_cwnd sv + ucast (sv_mss sv) > sv_cwnd sv
                    then sv\<lparr>sv_cwnd := sv_cwnd sv + ucast (sv_mss sv)\<rparr> else sv) s"

definition ack_recover :: "ptr \<Rightarrow> u32 \<Rightarrow> 'h qstack \<Rightarrow> 'h qstack" where
  "ack_recover p ack_seq s =
     (if TCP_SEQ_GT ack_seq (st_snd_nxt (qs_streams s p))
      then st_upd p (\<lambda>st. st\<lparr>st_snd_nxt := ack_seq\<rparr>) s else s)"

definition int_product :: "nat \<Rightarrow> u32 result" where
  "int_product n = (if n < 2 ^ 31 then Inr (of_nat n) else Inl Undefined)"

definition ack_packets :: "u32 \<Rightarrow> u16 \<Rightarrow> u16" where
  "ack_packets rmlen eff_mss =
     (let packets = ucast (rmlen div ucast eff_mss)
      in if (rmlen div ucast eff_mss) * ucast eff_mss > rmlen then packets + 1 else packets)"

definition ack_grow_cwnd :: "u16 \<Rightarrow> tcp_send_vars \<Rightarrow> tcp_send_vars result" where
  "ack_grow_cwnd packets sv =
     (if sv_cwnd sv < sv_ssthresh sv
      then if sv_cwnd sv + ucast (sv_mss sv) > sv_cwnd sv
           then bind_r (int_product (unat (sv_mss sv) * unat packets)) (\<lambda>d.
                  Inr (sv\<lparr>sv_cwnd := sv_cwnd sv + d\<rparr>))
           else Inr sv
      else bind_r (int_product (unat packets * unat (sv_mss sv) * unat (sv_mss sv))) (\<lambda>d.
             if sv_cwnd sv = 0 then Inl Undefined
             else let new_cwnd = sv_cwnd sv + d div sv_cwnd sv
                  in Inr (if new_cwnd > sv_cwnd sv then sv\<lparr>sv_cwnd := new_cwnd\<rparr> else sv)))"

definition ack_release :: "ptr \<Rightarrow> u32 \<Rightarrow> u32 \<Rightarrow> tcp_send_vars \<Rightarrow> 'h qstack \<Rightarrow> 'h qstack result" where
  "ack_release p cur_ts ack_seq sv1 s =
     bind_r (sb_remove_acked (qs_stack_id s) (sv_sndbuf sv1) ack_seq (qs_mem s)) (\<lambda>(_, sb, m).
     let s1 = sv_upd p (\<lambda>_. sv1\<lparr>sv_sndbuf := sb, sv_snd_una := ack_seq,
                sv_snd_wnd := sb_size sb - sb_len sb\<rparr>) (s\<lparr>qs_mem := m\<rparr>)
     in if st_snd_nxt (qs_streams s1 p) = ack_seq
        then bind_r (rto_list_remove p s1) (\<lambda>(_, s2). Inr s2)
        else rto_list_update p cur_ts s1)"

definition ack_new_data :: "ptr \<Rightarrow> u32 \<Rightarrow> u32 \<Rightarrow> 'h qstack \<Rightarrow> 'h qstack result" where
  "ack_new_data p cur_ts ack_seq s =
     (let rmlen = ack_seq - sb_head_seq (sv_sndbuf (sndvar s p))
      in if rmlen > 0
         then if sv_eff_mss (sndvar s p) = 0 then Inl Undefined
              else bind_r (if st_state (qs_streams s p) \<ge> TCP_ST_ESTABLISHED
                           then ack_grow_cwnd (ack_packets rmlen (sv_eff_mss (sndvar s p))) (sndvar s p)
                           else Inr (sndvar s p)) (\<lambda>sv1. ack_release p cur_ts ack_seq sv1 s)
         else Inr s)"

definition ack_congestion :: "ptr \<Rightarrow> bool \<Rightarrow> u32 \<Rightarrow> 'h qstack \<Rightarrow> 'h qstack result" where
  "ack_congestion p dup ack_seq s =
     (if dup \<and> rv_dup_acks (rcvvar s p) = 3 then fast_retransmit p ack_seq s
      else if rv_dup_acks (rcvvar s p) > 3 then Inr (ack_inflate p s)
      else Inr s)"

definition ack_finish :: "ptr \<Rightarrow> u32 \<Rightarrow> u32 \<Rightarrow> 'h qstack \<Rightarrow> 'h qstack result" where
  "ack_finish p cur_ts ack_seq s =
     (let s1 = ack_recover p ack_seq s
      in if TCP_SEQ_GEQ (sb_head_seq (sv_sndbuf (sndvar s1 p))) ack_seq then Inr s1
         else ack_new_data p cur_ts ack_seq s1)"

definition process_tcp_ack ::
    "ptr \<Rightarrow> u32 \<Rightarrow> tcphdr \<Rightarrow> u32 \<Rightarrow> u32 \<Rightarrow> u16 \<Rightarrow> int \<Rightarrow> 'h qstack \<Rightarrow> 'h qstack result" where
  "process_tcp_ack p cur_ts tcph seq ack_seq window payloadlen s =
     (if \<not> th_syn tcph \<and> sv_wscale_peer (sndvar s p) \<ge> 32 then Inl Undefined
      else
        let cwindow = (if \<not> th_syn tcph then push_bit (unat (sv_wscale_peer (sndvar s p))) (ucast window)
                       else ucast window);
            right_wnd_edge = sv_peer_wnd (sndvar s p) + rv_snd_wl2 (rcvvar s p);
            ack = data_ack (qs_streams s p) ack_seq;
            sb = sv_sndbuf (sndvar s p)
        in if TCP_SEQ_GT ack (sb_head_seq sb + sb_len sb) then Inr s
           else
             let s1 = ack_update_window p cwindow seq ack s;
                 dup = ack_is_dup p right_wnd_edge ack payloadlen s1;
                 s2 = ack_count_dup p dup ack s1
             in bind_r (ack_congestion p dup ack s2) (ack_finish p cur_ts ack))"

section \<open>Payload\<close>

text \<open>
  A closed connection has no reader: what arrives in FIN_WAIT_1 and FIN_WAIT_2 is put into the
  buffer and thrown away with it.
\<close>

definition discard_after_close :: "ptr \<Rightarrow> 'h qstack \<Rightarrow> 'h qstack result" where
  "discard_after_close p s =
     (if st_state (qs_streams s p) = TCP_ST_FIN_WAIT_1 \<or> st_state (qs_streams s p) = TCP_ST_FIN_WAIT_2
      then bind_r (rb_clear (qs_stack_id s) (rv_rcvbuf (rcvvar s p)) (qs_mem s)) (\<lambda>(rb, m).
             Inr (rv_upd p (\<lambda>rv. rv\<lparr>rv_rcvbuf := rb\<rparr>) (s\<lparr>qs_mem := m\<rparr>)))
      else Inr s)"

definition advance_rcv_nxt :: "ptr \<Rightarrow> 'h qstack \<Rightarrow> 'h qstack" where
  "advance_rcv_nxt p s =
     st_upd p (\<lambda>st. st\<lparr>st_rcv_nxt := rb_merged_next (rv_rcvbuf (st_rcvvar st)),
       st_rcvvar := (st_rcvvar st)\<lparr>rv_rcv_wnd := rb_size (rv_rcvbuf (st_rcvvar st))
         - rb_merged_len (rv_rcvbuf (st_rcvvar st))\<rparr>\<rparr>) s"

definition payload_events :: "'h env \<Rightarrow> ptr \<Rightarrow> ptr \<Rightarrow> int \<Rightarrow> 'h qstack \<Rightarrow> 'h qstack result" where
  "payload_events ev p mbuf ret s =
     (if st_state (qs_streams s p) = TCP_ST_ESTABLISHED
      then bind_r (if mb_priority (mbuf_at s mbuf) then raise_read_event ev 1 p s else Inr s) (\<lambda>s1.
             let event_num = (if mb_priority (mbuf_at s mbuf) then ret - 1 else ret)
             in if event_num > 0 then raise_read_event ev 0 p s1 else Inr s1)
      else Inr s)"

definition process_tcp_payload ::
    "'h env \<Rightarrow> ptr \<Rightarrow> ptr \<Rightarrow> u32 \<Rightarrow> int \<Rightarrow> 'h qstack \<Rightarrow> (int \<times> 'h qstack) result" where
  "process_tcp_payload ev p mbuf seq payloadlen s =
     (let st = qs_streams s p;
          prev_rcv_nxt = st_rcv_nxt st
      in if TCP_SEQ_LEQ (seq + of_int payloadlen) (st_rcv_nxt st) then Inr (FAILED, s)
         else if TCP_SEQ_GT (seq + of_int payloadlen) (st_rcv_nxt st + rv_rcv_wnd (st_rcvvar st)) then Inr (FAILED, s)
         else bind_r (rb_put (qs_stack_id s) (rv_rcvbuf (st_rcvvar st)) mbuf (qs_mem s)) (\<lambda>(ret, rb, m).
              bind_r (discard_after_close p (rv_upd p (\<lambda>rv. rv\<lparr>rv_rcvbuf := rb\<rparr>) (s\<lparr>qs_mem := m\<rparr>))) (\<lambda>s2.
              let s3 = advance_rcv_nxt p s2
              in if TCP_SEQ_LEQ (st_rcv_nxt (qs_streams s3 p)) prev_rcv_nxt \<and> \<not> mb_priority (mbuf_at s3 mbuf)
                 then Inr (FALSE, s3)
                 else bind_r (payload_events ev p mbuf ret s3) (\<lambda>s4. Inr (ret, s4)))))"

end
