(* ===== verification/Tcp_Options.thy ===== *)
theory Tcp_Options
  imports Packet_Out
begin

text \<open>
  Reading the options of a received header: \<^verbatim>\<open>ParseTCPOptions\<close> of \<^verbatim>\<open>tcp_in.h\<close>. The
  bytes are those that follow the fixed header in the packet's buffer, so a read past the option
  field sees payload and a read past the buffer is undefined. The index is compared in unsigned
  arithmetic, which is exact here because it is at least 2 at that point. The loop is bounded by
  fuel; one round more than the length of the option field is enough unless it does not end.
\<close>

section \<open>Parsing\<close>

definition opt_byte :: "u8 list \<Rightarrow> nat \<Rightarrow> u8 result" where
  "opt_byte bs i = (if i < length bs then Inr (bs ! i) else Inl Undefined)"

definition opt_u32 :: "u8 list \<Rightarrow> nat \<Rightarrow> u32 result" where
  "opt_u32 bs i =
     bind_r (opt_byte bs i) (\<lambda>a. bind_r (opt_byte bs (i + 1)) (\<lambda>b.
     bind_r (opt_byte bs (i + 2)) (\<lambda>c. bind_r (opt_byte bs (i + 3)) (\<lambda>d.
       Inr (ucast a + push_bit 8 (ucast b) + push_bit 16 (ucast c) + push_bit 24 (ucast d))))))"

definition set_mss :: "u8 \<Rightarrow> u8 \<Rightarrow> tcp_stream \<Rightarrow> tcp_stream" where
  "set_mss hi lo st =
     (let mss = push_bit 8 (ucast hi) + ucast lo
      in st\<lparr>st_sndvar := (st_sndvar st)\<lparr>sv_mss := mss, sv_eff_mss := mss\<rparr>\<rparr>)"

fun parse_opts_loop :: "nat \<Rightarrow> u32 \<Rightarrow> u8 list \<Rightarrow> nat \<Rightarrow> nat \<Rightarrow> tcp_stream \<Rightarrow> tcp_stream result" where
  "parse_opts_loop 0 cur_ts tcpopt len i st = Inl Diverges"
| "parse_opts_loop (Suc fuel) cur_ts tcpopt len i st =
     (if \<not> i < len then Inr st
      else bind_r (opt_byte tcpopt i) (\<lambda>opt.
        if opt = TCP_OPT_END then Inr st
        else if opt = TCP_OPT_NOP then parse_opts_loop fuel cur_ts tcpopt len (i + 1) st
        else bind_r (opt_byte tcpopt (i + 1)) (\<lambda>optlen.
          if i + 2 + unat optlen - 2 > len then Inr st
          else if opt = TCP_OPT_MSS
          then bind_r (opt_byte tcpopt (i + 2)) (\<lambda>hi. bind_r (opt_byte tcpopt (i + 3)) (\<lambda>lo.
                 parse_opts_loop fuel cur_ts tcpopt len (i + 4) (set_mss hi lo st)))
          else if opt = TCP_OPT_WSCALE
          then bind_r (opt_byte tcpopt (i + 2)) (\<lambda>w.
                 parse_opts_loop fuel cur_ts tcpopt len (i + 3)
                   (st\<lparr>st_sndvar := (st_sndvar st)\<lparr>sv_wscale_peer := w\<rparr>\<rparr>))
          else if opt = TCP_OPT_SACK_PERMIT
          then parse_opts_loop fuel cur_ts tcpopt len (i + 2) (st\<lparr>st_sack_permit := True\<rparr>)
          else if opt = TCP_OPT_TIMESTAMP
          then bind_r (opt_u32 tcpopt (i + 2)) (\<lambda>w.
                 parse_opts_loop fuel cur_ts tcpopt len (i + 10)
                   (st\<lparr>st_saw_timestamp := True,
                       st_rcvvar := (st_rcvvar st)\<lparr>rv_ts_recent := ntohl w, rv_ts_last_ts_upd := cur_ts\<rparr>\<rparr>))
          else parse_opts_loop fuel cur_ts tcpopt len (i + 2 + unat optlen - 2) st)))"

definition ParseTCPOptions :: "u32 \<Rightarrow> u8 list \<Rightarrow> nat \<Rightarrow> tcp_stream \<Rightarrow> tcp_stream result" where
  "ParseTCPOptions cur_ts tcpopt len st = parse_opts_loop (Suc len) cur_ts tcpopt len 0 st"

section \<open>What a peer's options mean\<close>

text \<open>The option at a position is one the loop knows nothing of, with length byte 0.\<close>

definition zero_opt :: "u8 list \<Rightarrow> nat \<Rightarrow> bool" where
  "zero_opt bs i \<longleftrightarrow> i + 1 < length bs \<and> bs ! (i + 1) = 0
     \<and> bs ! i \<notin> {TCP_OPT_END, TCP_OPT_NOP, TCP_OPT_MSS, TCP_OPT_WSCALE, TCP_OPT_SACK_PERMIT, TCP_OPT_TIMESTAMP}"

lemma zero_opt_loops:
  assumes "zero_opt bs i" "i < len"
  shows "parse_opts_loop fuel ts bs len i st = Inl Diverges"
  using assms by (induction fuel) (auto simp: zero_opt_def opt_byte_def)

text \<open>
  Where the loop goes on from an option, if it does: it stops at the end of the field, at an end mark, at an option
  longer than the field, and at a read past the buffer.
\<close>

definition opt_next :: "u8 list \<Rightarrow> nat \<Rightarrow> nat \<Rightarrow> nat option" where
  "opt_next bs len i =
     (if len \<le> i \<or> length bs \<le> i \<or> bs ! i = TCP_OPT_END then None
      else if bs ! i = TCP_OPT_NOP then Some (i + 1)
      else if length bs \<le> i + 1 \<or> len < i + unat (bs ! (i + 1)) then None
      else if bs ! i = TCP_OPT_MSS then (if i + 3 < length bs then Some (i + 4) else None)
      else if bs ! i = TCP_OPT_WSCALE then (if i + 2 < length bs then Some (i + 3) else None)
      else if bs ! i = TCP_OPT_SACK_PERMIT then Some (i + 2)
      else if bs ! i = TCP_OPT_TIMESTAMP then (if i + 5 < length bs then Some (i + 10) else None)
      else Some (i + unat (bs ! (i + 1))))"

text \<open>The options the loop meets on its way from a position.\<close>

inductive meets :: "u8 list \<Rightarrow> nat \<Rightarrow> nat \<Rightarrow> nat \<Rightarrow> bool" for bs len where
  here: "meets bs len i i"
| later: "opt_next bs len i = Some j \<Longrightarrow> meets bs len j k \<Longrightarrow> meets bs len i k"

lemma parse_opts_loop_next:
  "case opt_next bs len i of
     None \<Rightarrow> parse_opts_loop (Suc fuel) ts bs len i st \<noteq> Inl Diverges
   | Some j \<Rightarrow> \<exists>st'. parse_opts_loop (Suc fuel) ts bs len i st = parse_opts_loop fuel ts bs len j st'"
proof -
  have u32: "opt_u32 bs k = (if k + 3 < length bs then Inr (ucast (bs ! k) + push_bit 8 (ucast (bs ! (k + 1)))
      + push_bit 16 (ucast (bs ! (k + 2))) + push_bit 24 (ucast (bs ! (k + 3)))) else Inl Undefined)" for k
    by (simp add: opt_u32_def opt_byte_def)
  show ?thesis
    by (auto simp: opt_next_def opt_byte_def u32 numeral_eq_Suc simp del: parse_opts_loop.simps(1))
qed

lemma opt_next_less: "opt_next bs len i = Some j \<Longrightarrow> zero_opt bs i \<or> i < j"
  by (auto simp: opt_next_def zero_opt_def unat_gt_0 word_neq_0_conv [symmetric] split: if_splits)

lemma parse_opts_loop_meets:
  "meets bs len i j \<Longrightarrow> zero_opt bs j \<Longrightarrow> j < len \<Longrightarrow> parse_opts_loop fuel ts bs len i st = Inl Diverges"
proof (induction arbitrary: fuel st rule: meets.induct)
  case (here i)
  then show ?case by (rule zero_opt_loops)
next
  case (later i j k)
  show ?case
  proof (cases fuel)
    case (Suc f)
    then show ?thesis using parse_opts_loop_next [of f ts bs len i st] later by (auto simp del: parse_opts_loop.simps)
  qed simp
qed

lemma parse_opts_loop_ends:
  assumes "\<forall>j<len. meets bs len i j \<longrightarrow> \<not> zero_opt bs j" "len \<le> i + fuel"
  shows "parse_opts_loop (Suc fuel) ts bs len i st \<noteq> Inl Diverges"
  using assms
proof (induction fuel arbitrary: i st)
  case 0
  then show ?case by simp
next
  case (Suc fuel)
  show ?case
  proof (cases "opt_next bs len i")
    case None
    then show ?thesis using parse_opts_loop_next [of "Suc fuel" ts bs len i st] by (simp del: parse_opts_loop.simps)
  next
    case (Some j)
    then have "i < len" by (auto simp: opt_next_def split: if_splits)
    then have "i < j" using opt_next_less [OF Some] Suc.prems(1) meets.here by blast
    then have "parse_opts_loop (Suc fuel) ts bs len j st' \<noteq> Inl Diverges" for st'
      using Suc.prems meets.later [OF Some] by (intro Suc.IH) auto
    moreover obtain st' where "parse_opts_loop (Suc (Suc fuel)) ts bs len i st = parse_opts_loop (Suc fuel) ts bs len j st'"
      using parse_opts_loop_next [of "Suc fuel" ts bs len i st] Some by (auto simp del: parse_opts_loop.simps)
    ultimately show ?thesis by simp
  qed
qed

lemma bytes_u16:
  "push_bit 8 (ucast (ucast (drop_bit 8 (w :: u16)) :: u8)) + ucast (ucast (w mod 256) :: u8) = w"
proof -
  have "w mod 256 = take_bit 8 w" by (simp add: take_bit_eq_mod)
  then have "push_bit 8 (ucast (ucast (drop_bit 8 w) :: u8)) + ucast (ucast (w mod 256) :: u8)
      = push_bit 8 (ucast (ucast (drop_bit 8 w) :: u8)) OR (ucast (ucast (w mod 256) :: u8) :: u16)"
    by (intro disjunctive_add) (auto simp: bit_simps)
  also have "\<dots> = w"
    by (rule bit_word_eqI) (auto simp: bit_simps \<open>w mod 256 = take_bit 8 w\<close> le_add_diff_inverse2)
  finally show ?thesis .
qed

lemma parse_known:
  assumes "len \<le> length bs"
  shows
    "i < len \<Longrightarrow> bs ! i = TCP_OPT_NOP \<Longrightarrow>
       parse_opts_loop (Suc f) ts bs len i st = parse_opts_loop f ts bs len (i + 1) st"
    "i + 4 \<le> len \<Longrightarrow> bs ! i = TCP_OPT_MSS \<Longrightarrow> bs ! (i + 1) = TCP_OPT_MSS_LEN \<Longrightarrow>
       parse_opts_loop (Suc f) ts bs len i st
         = parse_opts_loop f ts bs len (i + 4) (set_mss (bs ! (i + 2)) (bs ! (i + 3)) st)"
    "i + 3 \<le> len \<Longrightarrow> bs ! i = TCP_OPT_WSCALE \<Longrightarrow> bs ! (i + 1) = TCP_OPT_WSCALE_LEN \<Longrightarrow>
       parse_opts_loop (Suc f) ts bs len i st
         = parse_opts_loop f ts bs len (i + 3) (st\<lparr>st_sndvar := (st_sndvar st)\<lparr>sv_wscale_peer := bs ! (i + 2)\<rparr>\<rparr>)"
    "parse_opts_loop (Suc f) ts bs len len st = Inr st"
  using assms by (simp_all add: opt_byte_def tcp_opt_defs)

lemma options_read:
  assumes "has_flag flags TCP_FLAG_SYN"
  shows "ParseTCPOptions ts (GenerateTCPOptions st flags @ rest) (unat (calculate_option_length flags)) peer =
    Inr (peer\<lparr>st_sndvar := (st_sndvar peer)\<lparr>sv_mss := sv_mss (st_sndvar st), sv_eff_mss := sv_mss (st_sndvar st),
          sv_wscale_peer := sv_wscale_mine (st_sndvar st)\<rparr>\<rparr>)"
proof -
  have len: "unat (calculate_option_length flags) = 8"
    using assms by (simp add: calculate_option_length_def tcp_opt_defs)
  define bs where "bs = GenerateTCPOptions st flags @ rest"
  have bs: "8 \<le> length bs" "bs ! 0 = TCP_OPT_MSS" "bs ! 1 = TCP_OPT_MSS_LEN"
      "bs ! 2 = ucast (drop_bit 8 (sv_mss (st_sndvar st)))" "bs ! 3 = ucast (sv_mss (st_sndvar st) mod 256)"
      "bs ! 4 = TCP_OPT_NOP" "bs ! 5 = TCP_OPT_WSCALE" "bs ! 6 = TCP_OPT_WSCALE_LEN"
      "bs ! 7 = sv_wscale_mine (st_sndvar st)"
    using assms by (simp_all add: bs_def GenerateTCPOptions_def Let_def)
  note pk = parse_known [OF bs(1)]
  have mss: "set_mss (bs ! 2) (bs ! 3) x = x\<lparr>st_sndvar := (st_sndvar x)\<lparr>sv_mss := sv_mss (st_sndvar st),
      sv_eff_mss := sv_mss (st_sndvar st)\<rparr>\<rparr>" for x
    by (simp only: set_mss_def bs Let_def bytes_u16)
  define x where "x = peer\<lparr>st_sndvar := (st_sndvar peer)\<lparr>sv_mss := sv_mss (st_sndvar st),
      sv_eff_mss := sv_mss (st_sndvar st)\<rparr>\<rparr>"
  have "parse_opts_loop (Suc (Suc (Suc (Suc k)))) ts bs 8 0 peer
      = parse_opts_loop (Suc (Suc (Suc k))) ts bs 8 4 x" for k
    using pk(2) [of 0] bs(2,3) mss by (simp only: x_def add_0 rel_simps)
  moreover have "parse_opts_loop (Suc (Suc (Suc k))) ts bs 8 4 x = parse_opts_loop (Suc (Suc k)) ts bs 8 5 x" for k
    using pk(1) [of 4] bs(6) by simp
  moreover have "parse_opts_loop (Suc (Suc k)) ts bs 8 5 x
      = parse_opts_loop (Suc k) ts bs 8 8 (x\<lparr>st_sndvar := (st_sndvar x)\<lparr>sv_wscale_peer := sv_wscale_mine (st_sndvar st)\<rparr>\<rparr>)" for k
    using pk(3) [of 5] bs(7,8,9) by simp
  ultimately have "parse_opts_loop (Suc (Suc (Suc (Suc 5)))) ts bs 8 0 peer
      = Inr (x\<lparr>st_sndvar := (st_sndvar x)\<lparr>sv_wscale_peer := sv_wscale_mine (st_sndvar st)\<rparr>\<rparr>)"
    by (simp only: pk(4))
  then show ?thesis
    by (simp add: ParseTCPOptions_def len bs_def x_def del: parse_opts_loop.simps)
qed

text \<open>
  C13 (roundtrip). The options that a stack writes into a SYN are read back by the peer, whatever
  follows them in the buffer: the peer learns the sender's segment size and window scale, and
  nothing else of its stream changes.
\<close>

theorem options_roundtrip:
  assumes "has_flag flags TCP_FLAG_SYN"
  shows "ParseTCPOptions ts (GenerateTCPOptions st flags @ rest) (unat (calculate_option_length flags)) peer =
    Inr (peer\<lparr>st_sndvar := (st_sndvar peer)\<lparr>sv_mss := sv_mss (st_sndvar st), sv_eff_mss := sv_mss (st_sndvar st),
          sv_wscale_peer := sv_wscale_mine (st_sndvar st)\<rparr>\<rparr>)"
  using assms by (rule options_read)

theorem options_roundtrip_witness:
  "ParseTCPOptions 0 (GenerateTCPOptions stream1 TCP_FLAG_SYN @ [7]) 8 zero_stream =
    Inr (zero_stream\<lparr>st_sndvar := (st_sndvar zero_stream)\<lparr>sv_mss := sv_mss (st_sndvar stream1),
      sv_eff_mss := sv_mss (st_sndvar stream1), sv_wscale_peer := sv_wscale_mine (st_sndvar stream1)\<rparr>\<rparr>)"
  using options_roundtrip [of TCP_FLAG_SYN 0 stream1 "[7]" zero_stream]
  by (simp add: has_flag_def tcp_flag_defs calculate_option_length_def tcp_opt_defs)

text \<open>
  C32 (termination). The loop runs forever exactly on the option fields in which, going from option to option,
  it meets an unknown option of length 0, be it the first option or a later one: then no number of rounds is enough, and one
  segment from any peer stops the stack thread. On every other field it ends, within one round more than
  the field has bytes.
\<close>

theorem options_loop_forever:
  "((\<exists>j<len. meets bs len 0 j \<and> zero_opt bs j) \<longrightarrow> (\<forall>fuel. parse_opts_loop fuel ts bs len 0 st = Inl Diverges))
    \<and> ((\<forall>j<len. meets bs len 0 j \<longrightarrow> \<not> zero_opt bs j) \<longrightarrow> ParseTCPOptions ts bs len st \<noteq> Inl Diverges)"
  using parse_opts_loop_ends [of len bs 0 len ts st] parse_opts_loop_meets [of bs len 0 _ _ ts st]
  by (auto simp: ParseTCPOptions_def simp del: parse_opts_loop.simps)

text \<open>
  Two fields: the first holds a segment size behind which no option of length 0 is met although such bytes stand
  inside it, the second a segment size and then an unknown option of length 0.
\<close>

theorem options_loop_forever_witness:
  "ParseTCPOptions 0 [2, 4, 5, 0] 4 zero_stream \<noteq> Inl Diverges \<and> zero_opt [2, 4, 5, 0] 2
    \<and> (\<forall>fuel. parse_opts_loop fuel 0 [2, 4, 5, 180, 30, 0] 6 0 zero_stream = Inl Diverges)"
proof -
  have nx: "opt_next [2, 4, 5, 0] 4 0 = Some 4" "opt_next [2, 4, 5, 0] 4 4 = None" by (simp_all add: opt_next_def tcp_opt_defs)
  have "k = 4 \<or> k = 0" if "meets [2, 4, 5, 0] 4 i k" "i = 0 \<or> i = 4" for i k
    using that by (induction rule: meets.induct) (use nx in auto)
  then have "\<forall>j<4. meets [2, 4, 5, 0] 4 0 j \<longrightarrow> \<not> zero_opt [2, 4, 5, 0] j" by (fastforce simp: zero_opt_def tcp_opt_defs)
  moreover have z: "zero_opt [2, 4, 5, 180, 30, 0] 4" "zero_opt [2, 4, 5, 0] 2" by (simp_all add: zero_opt_def tcp_opt_defs)
  moreover have "meets [2, 4, 5, 180, 30, 0] 6 0 4"
    by (rule meets.later [of _ _ 0 4]) (simp_all add: opt_next_def tcp_opt_defs meets.here)
  then have "\<exists>j<6. meets [2, 4, 5, 180, 30, 0] 6 0 j \<and> zero_opt [2, 4, 5, 180, 30, 0] j" using z(1) by (intro exI [of _ 4]) simp
  ultimately show ?thesis
    using options_loop_forever [of 4 "[2, 4, 5, 0]" 0 zero_stream]
      options_loop_forever [of 6 "[2, 4, 5, 180, 30, 0]" 0 zero_stream] by blast
qed

end
