(* ===== verification/Tcp_In.thy ===== *)
theory Tcp_In
  imports Tcp_Ack Tcp_Options
begin

text \<open>
  The receive path of \<^verbatim>\<open>tcp_in.c\<close>: opening connections, the checks on a segment, one handler
  per connection state and \<^verbatim>\<open>process_tcp_packet\<close>, which composes them. The header is read from
  the mbuf, its fields in network order; \<open>mb_opts\<close> are the bytes behind the fixed header.
  Sequence numbers are 32-bit words, \<^verbatim>\<open>payloadlen\<close> is an \<^verbatim>\<open>int\<close>. Traces and statistics
  are left out, except where a trace ends the process or reads through \<^verbatim>\<open>NULL\<close>.
\<close>

section \<open>Opening a connection\<close>

text \<open>For a wrong port the trace reads \<^verbatim>\<open>ret->port\<close> after \<^verbatim>\<open>ret\<close> was set to \<^verbatim>\<open>NULL\<close>.\<close>

definition syn_packet_filter :: "'h env \<Rightarrow> u32 \<Rightarrow> u16 \<Rightarrow> 'h qstack \<Rightarrow> nat option result" where
  "syn_packet_filter ev ip port s =
     (case (if ip \<noteq> ev_ip_addr ev then None else qs_listener0 s) of
        None \<Rightarrow> Inr None
      | Some l \<Rightarrow> if ntohs port \<noteq> ls_port (qs_listener s l) then Inl Undefined else Inr (Some l))"

definition stream_parse_options :: "ptr \<Rightarrow> u32 \<Rightarrow> mbuf \<Rightarrow> 'h qstack \<Rightarrow> 'h qstack result" where
  "stream_parse_options p cur_ts mb s =
     bind_r (ParseTCPOptions cur_ts (mb_opts mb) (th_doff (mb_tcph mb) * 4 - TCP_HEADER_LEN) (qs_streams s p))
       (\<lambda>st. Inr (st_upd p (\<lambda>_. st) s))"

definition handle_passive_open :: "'h env \<Rightarrow> u32 \<Rightarrow> mbuf \<Rightarrow> u32 \<Rightarrow> u16 \<Rightarrow> 'h qstack \<Rightarrow> (ptr \<times> 'h qstack) result" where
  "handle_passive_open ev cur_ts mb seq window s =
     (let (sock, tb) = socket_alloc (ev_stack_thread ev) (qs_stack_id s) SOCK_TYPE_STREAM (qs_sockets s)
      in case sock of
           None \<Rightarrow> Inl Undefined
         | Some k \<Rightarrow>
             let s1 = s\<lparr>qs_sockets := tb\<lparr>tb_sockets := (tb_sockets tb)
                        (k := (tb_sockets tb k)\<lparr>so_default_app := - 1\<rparr>)\<rparr>\<rparr>;
                 iph = mb_iph mb; tcph = mb_tcph mb
             in bind_r (tcp_stream_create ev (Some k) (ip_daddr iph) (th_dest tcph) (ip_saddr iph)
                          (th_source tcph) seq s1) (\<lambda>(p, s2).
                if p = NULL then Inr (NULL, s2)
                else let s3 = snd (timeout_list_add p cur_ts s2);
                         s4 = sv_upd p (\<lambda>sv. sv\<lparr>sv_peer_wnd := ucast window, sv_cwnd := 10\<rparr>) s3
                     in bind_r (stream_parse_options p cur_ts mb s4) (\<lambda>s5. Inr (p, s5))))"

definition handle_active_open :: "ptr \<Rightarrow> u32 \<Rightarrow> mbuf \<Rightarrow> u32 \<Rightarrow> u32 \<Rightarrow> u16 \<Rightarrow> 'h qstack \<Rightarrow> 'h qstack result" where
  "handle_active_open p cur_ts mb seq ack_seq window s =
     (let s1 = st_upd p (\<lambda>st. st\<lparr>st_snd_nxt := ack_seq, st_rcv_nxt := seq + 1,
                 st_sndvar := (st_sndvar st)\<lparr>sv_peer_wnd := ucast window\<rparr>,
                 st_rcvvar := (st_rcvvar st)\<lparr>rv_irs := seq, rv_snd_wl1 := seq - 1,
                   rv_rcvbuf := rb_update_seq (rv_rcvbuf (st_rcvvar st)) (seq + 1),
                   rv_last_ack_seq := ack_seq\<rparr>\<rparr>) s
      in bind_r (stream_parse_options p cur_ts mb s1) (\<lambda>s2.
         let s3 = sv_upd p (\<lambda>sv. sv\<lparr>
                    sv_cwnd := (if sv_cwnd sv = 1 then ucast (sv_mss sv) * 2 else ucast (sv_mss sv)),
                    sv_ssthresh := ucast (sv_mss sv) * 10, sv_nrtx := 0\<rparr>) s2
         in bind_r (rto_list_remove p s3) (\<lambda>(_, s4).
              Inr (st_upd p (\<lambda>st. st\<lparr>st_state := TCP_ST_ESTABLISHED\<rparr>) s4))))"

definition CreateNewFlowHTEntry ::
    "'h env \<Rightarrow> u32 \<Rightarrow> mbuf \<Rightarrow> u32 \<Rightarrow> u16 \<Rightarrow> 'h qstack \<Rightarrow> (ptr \<times> 'h qstack) result" where
  "CreateNewFlowHTEntry ev cur_ts mb seq window s =
     (let tcph = mb_tcph mb
      in if th_syn tcph \<and> \<not> th_ack tcph
         then bind_r (syn_packet_filter ev (ip_daddr (mb_iph mb)) (th_dest tcph) s) (\<lambda>listener.
              if listener = None
              then bind_r (send_tcp_packet_standalone s) (\<lambda>(_, s1). Inr (NULL, s1))
              else bind_r (handle_passive_open ev cur_ts mb seq window s) (\<lambda>(p, s1).
                   if p = NULL
                   then bind_r (send_tcp_packet_standalone s1) (\<lambda>(_, s2). Inr (NULL, s2))
                   else Inr (p, st_upd p (\<lambda>st. st\<lparr>st_listener := listener\<rparr>) s1)))
         else if th_rst tcph then Inr (NULL, s)
         else bind_r (send_tcp_packet_standalone s) (\<lambda>(_, s1). Inr (NULL, s1)))"

section \<open>Checks\<close>

definition check_sequence_validation ::
    "ptr \<Rightarrow> u32 \<Rightarrow> tcphdr \<Rightarrow> u32 \<Rightarrow> int \<Rightarrow> 'h qstack \<Rightarrow> (int \<times> 'h qstack) result" where
  "check_sequence_validation p cur_ts tcph seq payloadlen s =
     (let st = qs_streams s p
      in if \<not> TCP_SEQ_BETWEEN (seq + of_int payloadlen) (st_rcv_nxt st) (st_rcv_nxt st + rv_rcv_wnd (st_rcvvar st))
         then if th_rst tcph then Inr (FAILED, s)
              else if st_state st = TCP_ST_ESTABLISHED
              then if seq + 1 = st_rcv_nxt st
                   then Inr (FAILED, snd (enqueue_ack p ACK_OPT_AGGREGATE s))
                   else if TCP_SEQ_LEQ seq (st_rcv_nxt st)
                   then Inr (FAILED, snd (enqueue_ack p ACK_OPT_AGGREGATE s))
                   else Inr (FAILED, snd (enqueue_ack p ACK_OPT_NOW s))
              else bind_r (if st_state st = TCP_ST_TIME_WAIT then timewait_list_add p cur_ts s else Inr s) (\<lambda>s1.
                     Inr (FAILED, snd (control_queue_add p s1)))
         else Inr (TRUE, s))"

definition close_and_destroy :: "'h env \<Rightarrow> ptr \<Rightarrow> 4 word \<Rightarrow> 'h qstack \<Rightarrow> 'h qstack result" where
  "close_and_destroy ev p reason s =
     tcp_stream_destroy ev p (st_upd p (\<lambda>st. st\<lparr>st_state := TCP_ST_CLOSED, st_close_reason := reason\<rparr>) s)"

definition handle_rst :: "'h env \<Rightarrow> ptr \<Rightarrow> u32 \<Rightarrow> 'h qstack \<Rightarrow> (int \<times> 'h qstack) result" where
  "handle_rst ev p ack_seq s =
     (let st = qs_streams s p
      in if st_state st \<le> TCP_ST_SYN_SENT then Inr (FALSE, s)
         else if st_state st = TCP_ST_SYN_RCVD
         then if ack_seq = st_snd_nxt st
              then bind_r (close_and_destroy ev p TCP_RESET s) (\<lambda>s1. Inr (TRUE, s1))
              else Inr (TRUE, s)
         else if st_state st = TCP_ST_FIN_WAIT_1 \<or> st_state st = TCP_ST_FIN_WAIT_2 \<or> st_state st = TCP_ST_LAST_ACK
                 \<or> st_state st = TCP_ST_CLOSING \<or> st_state st = TCP_ST_TIME_WAIT
         then bind_r (close_and_destroy ev p TCP_ACTIVE_CLOSE s) (\<lambda>s1. Inr (TRUE, s1))
         else if \<not> (sv_on_closeq (st_sndvar st) \<or> sv_on_resetq (st_sndvar st))
         then bind_r (raise_close_event ev p
                        (st_upd p (\<lambda>st. st\<lparr>st_state := TCP_ST_CLOSE_WAIT, st_close_reason := TCP_RESET\<rparr>) s))
                (\<lambda>s1. Inr (TRUE, s1))
         else Inr (TRUE, s))"

section \<open>Handlers of the connection states\<close>

definition Handle_TCP_ST_LISTEN :: "ptr \<Rightarrow> tcphdr \<Rightarrow> 'h qstack \<Rightarrow> 'h qstack" where
  "Handle_TCP_ST_LISTEN p tcph s =
     (if th_syn tcph
      then snd (control_queue_add p (st_upd p (\<lambda>st. st\<lparr>
             st_rcv_nxt := (if st_state st = TCP_ST_LISTEN then st_rcv_nxt st + 1 else st_rcv_nxt st),
             st_state := TCP_ST_SYN_RCVD\<rparr>) s))
      else s)"

definition Handle_TCP_ST_SYN_SENT ::
    "'h env \<Rightarrow> ptr \<Rightarrow> u32 \<Rightarrow> mbuf \<Rightarrow> u32 \<Rightarrow> u32 \<Rightarrow> u16 \<Rightarrow> 'h qstack \<Rightarrow> 'h qstack result" where
  "Handle_TCP_ST_SYN_SENT ev p cur_ts mb seq ack_seq window s =
     (let tcph = mb_tcph mb
      in if th_ack tcph \<and> (TCP_SEQ_LEQ ack_seq (sv_iss (sndvar s p)) \<or> TCP_SEQ_GT ack_seq (st_snd_nxt (qs_streams s p)))
         then if \<not> th_rst tcph then bind_r (send_tcp_packet_standalone s) (\<lambda>(_, s1). Inr s1) else Inr s
         else
           let s1 = (if th_ack tcph then sv_upd p (\<lambda>sv. sv\<lparr>sv_snd_una := sv_snd_una sv + 1\<rparr>) s else s)
           in if th_rst tcph
              then if th_ack tcph
                   then let s2 = st_upd p (\<lambda>st. st\<lparr>st_state := TCP_ST_CLOSE_WAIT, st_close_reason := TCP_RESET\<rparr>) s1
                        in if st_socket (qs_streams s2 p) \<noteq> None then raise_error_event ev p s2
                           else tcp_stream_destroy ev p s2
                   else Inr s1
              else if th_syn tcph
              then if th_ack tcph
                   then bind_r (handle_active_open p cur_ts mb seq ack_seq window s1) (\<lambda>s2.
                        if st_socket (qs_streams s2 p) \<noteq> None
                        then bind_r (raise_write_event ev p s2) (\<lambda>s3.
                               Inr (snd (timeout_list_add p cur_ts (snd (control_queue_add p s3)))))
                        else bind_r (send_tcp_packet_standalone s2) (\<lambda>(_, s3).
                               tcp_stream_destroy ev p (st_upd p (\<lambda>st. st\<lparr>st_close_reason := TCP_ACTIVE_CLOSE\<rparr>) s3)))
                   else Inr (snd (control_queue_add p (st_upd p (\<lambda>st. st\<lparr>st_state := TCP_ST_SYN_RCVD,
                          st_snd_nxt := sv_iss (st_sndvar st)\<rparr>) s1)))
              else Inr s1)"

definition Handle_TCP_ST_SYN_RCVD :: "'h env \<Rightarrow> ptr \<Rightarrow> tcphdr \<Rightarrow> u32 \<Rightarrow> 'h qstack \<Rightarrow> 'h qstack result" where
  "Handle_TCP_ST_SYN_RCVD ev p tcph ack_seq s =
     (if th_ack tcph
      then if ack_seq \<noteq> sv_iss (sndvar s p) + 1 then Inr s
           else let s1 = st_upd p (\<lambda>st. st\<lparr>st_snd_nxt := ack_seq, st_rcv_nxt := rv_irs (st_rcvvar st) + 1,
                           st_sndvar := (st_sndvar st)\<lparr>sv_snd_una := sv_snd_una (st_sndvar st) + 1,
                             sv_cwnd := (if sv_cwnd (st_sndvar st) = 1 then ucast (sv_mss (st_sndvar st)) * 2
                                         else ucast (sv_mss (st_sndvar st))),
                             sv_nrtx := 0\<rparr>\<rparr>) s
                in bind_r (rto_list_remove p s1) (\<lambda>(_, s2).
                     raise_accept_event ev p (st_upd p (\<lambda>st. st\<lparr>st_state := TCP_ST_ESTABLISHED\<rparr>) s2))
      else Inr (snd (control_queue_add p (st_upd p (\<lambda>st. st\<lparr>st_snd_nxt := sv_iss (st_sndvar st)\<rparr>) s))))"

definition Handle_TCP_ST_CLOSE_WAIT ::
    "ptr \<Rightarrow> u32 \<Rightarrow> tcphdr \<Rightarrow> u32 \<Rightarrow> u32 \<Rightarrow> int \<Rightarrow> u16 \<Rightarrow> 'h qstack \<Rightarrow> 'h qstack result" where
  "Handle_TCP_ST_CLOSE_WAIT p cur_ts tcph seq ack_seq payloadlen window s =
     (if TCP_SEQ_LT seq (st_rcv_nxt (qs_streams s p)) then Inr (snd (control_queue_add p s))
      else process_tcp_ack p cur_ts tcph seq ack_seq window payloadlen s)"

definition Handle_TCP_ST_LAST_ACK ::
    "'h env \<Rightarrow> ptr \<Rightarrow> u32 \<Rightarrow> tcphdr \<Rightarrow> u32 \<Rightarrow> u32 \<Rightarrow> int \<Rightarrow> u16 \<Rightarrow> 'h qstack \<Rightarrow> 'h qstack result" where
  "Handle_TCP_ST_LAST_ACK ev p cur_ts tcph seq ack_seq payloadlen window s =
     (if TCP_SEQ_LT seq (st_rcv_nxt (qs_streams s p)) then Inr s
      else if th_ack tcph
      then bind_r (process_tcp_ack p cur_ts tcph seq ack_seq window payloadlen s) (\<lambda>s1.
           if \<not> sv_is_fin_sent (sndvar s1 p) then Inr s1
           else if ack_seq = sv_fss (sndvar s1 p) + 1
           then close_and_destroy ev p TCP_PASSIVE_CLOSE
                  (sv_upd p (\<lambda>sv. sv\<lparr>sv_snd_una := sv_snd_una sv + 1\<rparr>) s1)
           else Inr (snd (control_queue_add p s1)))
      else Inr (snd (control_queue_add p s)))"

text \<open>The result of \<^verbatim>\<open>process_tcp_payload\<close> is tested for non-zero here, for positive in ESTABLISHED.\<close>

definition closing_payload :: "'h env \<Rightarrow> ptr \<Rightarrow> ptr \<Rightarrow> u32 \<Rightarrow> int \<Rightarrow> 'h qstack \<Rightarrow> 'h qstack result" where
  "closing_payload ev p mbuf seq payloadlen s =
     (if payloadlen > 0
      then bind_r (process_tcp_payload ev p mbuf seq payloadlen s) (\<lambda>(r, s1).
             Inr (snd (enqueue_ack p (if truthy r then ACK_OPT_AGGREGATE else ACK_OPT_NOW) s1)))
      else Inr s)"

definition fin_wait_1_ack :: "ptr \<Rightarrow> u32 \<Rightarrow> 'h qstack \<Rightarrow> 'h qstack result" where
  "fin_wait_1_ack p ack_seq s =
     (if sv_is_fin_sent (sndvar s p) \<and> ack_seq = sv_fss (sndvar s p) + 1
      then let s1 = st_upd p (\<lambda>st. st\<lparr>
                 st_snd_nxt := (if TCP_SEQ_GT ack_seq (st_snd_nxt st) then ack_seq else st_snd_nxt st),
                 st_sndvar := (st_sndvar st)\<lparr>sv_snd_una := ack_seq, sv_nrtx := 0\<rparr>\<rparr>) s
           in bind_r (rto_list_remove p s1) (\<lambda>(_, s2).
                Inr (st_upd p (\<lambda>st. st\<lparr>st_state := TCP_ST_FIN_WAIT_2\<rparr>) s2))
      else Inr s)"

definition fin_wait_1_fin :: "ptr \<Rightarrow> u32 \<Rightarrow> 'h qstack \<Rightarrow> 'h qstack result" where
  "fin_wait_1_fin p cur_ts s =
     (let s1 = st_upd p (\<lambda>st. st\<lparr>st_rcv_nxt := st_rcv_nxt st + 1\<rparr>) s
      in bind_r (if st_state (qs_streams s1 p) = TCP_ST_FIN_WAIT_1
                 then Inr (st_upd p (\<lambda>st. st\<lparr>st_state := TCP_ST_CLOSING\<rparr>) s1)
                 else if st_state (qs_streams s1 p) = TCP_ST_FIN_WAIT_2
                 then timewait_list_add p cur_ts (st_upd p (\<lambda>st. st\<lparr>st_state := TCP_ST_TIME_WAIT\<rparr>) s1)
                 else Inr s1) (\<lambda>s2. Inr (snd (control_queue_add p s2))))"

definition Handle_TCP_ST_FIN_WAIT_1 ::
    "'h env \<Rightarrow> ptr \<Rightarrow> u32 \<Rightarrow> tcphdr \<Rightarrow> u32 \<Rightarrow> u32 \<Rightarrow> ptr \<Rightarrow> int \<Rightarrow> u16 \<Rightarrow> 'h qstack \<Rightarrow> 'h qstack result" where
  "Handle_TCP_ST_FIN_WAIT_1 ev p cur_ts tcph seq ack_seq mbuf payloadlen window s =
     (if TCP_SEQ_LT seq (st_rcv_nxt (qs_streams s p)) then Inr (snd (control_queue_add p s))
      else if \<not> th_ack tcph then Inr s
      else
        bind_r (process_tcp_ack p cur_ts tcph seq ack_seq window payloadlen s) (\<lambda>s1.
        bind_r (fin_wait_1_ack p ack_seq s1) (\<lambda>s2.
        bind_r (closing_payload ev p mbuf seq payloadlen s2) (\<lambda>s3.
        if th_fin tcph \<and> seq + of_int payloadlen = st_rcv_nxt (qs_streams s3 p)
        then fin_wait_1_fin p cur_ts s3
        else Inr s3))))"

definition Handle_TCP_ST_FIN_WAIT_2 ::
    "'h env \<Rightarrow> ptr \<Rightarrow> u32 \<Rightarrow> tcphdr \<Rightarrow> u32 \<Rightarrow> u32 \<Rightarrow> ptr \<Rightarrow> int \<Rightarrow> u16 \<Rightarrow> 'h qstack \<Rightarrow> 'h qstack result" where
  "Handle_TCP_ST_FIN_WAIT_2 ev p cur_ts tcph seq ack_seq mbuf payloadlen window s =
     (if \<not> th_ack tcph then Inr s
      else
        bind_r (process_tcp_ack p cur_ts tcph seq ack_seq window payloadlen s) (\<lambda>s1.
        bind_r (closing_payload ev p mbuf seq payloadlen s1) (\<lambda>s2.
        if th_fin tcph \<and> seq + of_int payloadlen = st_rcv_nxt (qs_streams s2 p)
        then bind_r (timewait_list_add p cur_ts (st_upd p (\<lambda>st. st\<lparr>st_state := TCP_ST_TIME_WAIT,
                       st_rcv_nxt := st_rcv_nxt st + 1\<rparr>) s2)) (\<lambda>s3.
               Inr (snd (control_queue_add p s3)))
        else Inr s2)))"

definition Handle_TCP_ST_CLOSING ::
    "ptr \<Rightarrow> u32 \<Rightarrow> tcphdr \<Rightarrow> u32 \<Rightarrow> u32 \<Rightarrow> int \<Rightarrow> u16 \<Rightarrow> 'h qstack \<Rightarrow> 'h qstack result" where
  "Handle_TCP_ST_CLOSING p cur_ts tcph seq ack_seq payloadlen window s =
     (if th_ack tcph
      then bind_r (process_tcp_ack p cur_ts tcph seq ack_seq window payloadlen s) (\<lambda>s1.
           if \<not> sv_is_fin_sent (sndvar s1 p) then Inr s1
           else if ack_seq \<noteq> sv_fss (sndvar s1 p) + 1 then Inr s1
           else timewait_list_add p cur_ts (st_upd p (\<lambda>st. st\<lparr>st_snd_nxt := ack_seq,
                  st_state := TCP_ST_TIME_WAIT, st_sndvar := (st_sndvar st)\<lparr>sv_snd_una := ack_seq\<rparr>\<rparr>) s1))
      else Inr s)"

definition Handle_TCP_ST_ESTABLISHED ::
    "'h env \<Rightarrow> ptr \<Rightarrow> u32 \<Rightarrow> tcphdr \<Rightarrow> u32 \<Rightarrow> u32 \<Rightarrow> ptr \<Rightarrow> int \<Rightarrow> u16 \<Rightarrow> 'h qstack \<Rightarrow> 'h qstack result" where
  "Handle_TCP_ST_ESTABLISHED ev p cur_ts tcph seq ack_seq mbuf payloadlen window s =
     (if th_syn tcph then Inr (snd (control_queue_add p s))
      else
        bind_r (if payloadlen > 0
                then bind_r (process_tcp_payload ev p mbuf seq payloadlen s) (\<lambda>(r, s1).
                       Inr (snd (enqueue_ack p (if 0 < r then ACK_OPT_AGGREGATE else ACK_OPT_NOW) s1)))
                else Inr s) (\<lambda>s2.
        bind_r (if th_ack tcph then process_tcp_ack p cur_ts tcph seq ack_seq window payloadlen s2 else Inr s2) (\<lambda>s3.
        if th_fin tcph
        then if seq + of_int payloadlen = st_rcv_nxt (qs_streams s3 p)
             then bind_r (raise_read_event ev 0 p s3) (\<lambda>s4.
                    Inr (snd (control_queue_add p (st_upd p (\<lambda>st. st\<lparr>st_state := TCP_ST_CLOSE_WAIT,
                      st_rcv_nxt := st_rcv_nxt st + 1\<rparr>) s4))))
             else Inr (snd (enqueue_ack p ACK_OPT_NOW s3))
        else Inr s3)))"

section \<open>Receiving a segment\<close>

definition packet_qtuple :: "mbuf \<Rightarrow> ipv4_5tuple" where
  "packet_qtuple mb = \<lparr>qt_proto = 6, qt_ip_src = ip_daddr (mb_iph mb), qt_ip_dst = ip_saddr (mb_iph mb),
     qt_port_src = th_dest (mb_tcph mb), qt_port_dst = th_source (mb_tcph mb)\<rparr>"

text \<open>The stream of the segment, found or new; \<^verbatim>\<open>NULL\<close> where the code returns \<^verbatim>\<open>FAILED\<close>.\<close>

definition packet_stream :: "'h env \<Rightarrow> u32 \<Rightarrow> mbuf \<Rightarrow> u32 \<Rightarrow> u16 \<Rightarrow> 'h qstack \<Rightarrow> (ptr \<times> 'h qstack) result" where
  "packet_stream ev cur_ts mb seq window s =
     (let p = StreamHTSearch ev (qs_stream_ht s) (packet_qtuple mb);
          tcph = mb_tcph mb
      in if p = NULL
         then if \<not> th_syn tcph then Inr (NULL, s)
              else bind_r (CreateNewFlowHTEntry ev cur_ts mb seq window s) (\<lambda>(p1, s1).
                   if p1 = NULL then Inr (NULL, s1)
                   else Inr (p1, st_upd p1 (\<lambda>st. st\<lparr>st_dhw_addr := eth_source (mb_eth mb)\<rparr>) s1))
         else if th_syn tcph \<and> st_state (qs_streams s p) \<noteq> TCP_ST_SYN_SENT
         then bind_r (stream_parse_options p cur_ts mb s) (\<lambda>s1. Inr (p, s1))
         else Inr (p, s))"

definition dispatch_state ::
    "'h env \<Rightarrow> ptr \<Rightarrow> u32 \<Rightarrow> mbuf \<Rightarrow> u32 \<Rightarrow> u32 \<Rightarrow> ptr \<Rightarrow> int \<Rightarrow> u16 \<Rightarrow> 'h qstack \<Rightarrow> 'h qstack result" where
  "dispatch_state ev p cur_ts mb seq ack_seq mbuf payloadlen window s =
     (let tcph = mb_tcph mb
      in case st_state (qs_streams s p) of
           TCP_ST_LISTEN \<Rightarrow> Inr (Handle_TCP_ST_LISTEN p tcph s)
         | TCP_ST_SYN_SENT \<Rightarrow> Handle_TCP_ST_SYN_SENT ev p cur_ts mb seq ack_seq window s
         | TCP_ST_SYN_RCVD \<Rightarrow>
             if th_syn tcph \<and> seq = rv_irs (rcvvar s p) then Inr (Handle_TCP_ST_LISTEN p tcph s)
             else bind_r (Handle_TCP_ST_SYN_RCVD ev p tcph ack_seq s) (\<lambda>s1.
                  if payloadlen > 0 \<and> st_state (qs_streams s1 p) = TCP_ST_ESTABLISHED
                  then Handle_TCP_ST_ESTABLISHED ev p cur_ts tcph seq ack_seq mbuf payloadlen window s1
                  else Inr s1)
         | TCP_ST_ESTABLISHED \<Rightarrow> Handle_TCP_ST_ESTABLISHED ev p cur_ts tcph seq ack_seq mbuf payloadlen window s
         | TCP_ST_CLOSE_WAIT \<Rightarrow> Handle_TCP_ST_CLOSE_WAIT p cur_ts tcph seq ack_seq payloadlen window s
         | TCP_ST_LAST_ACK \<Rightarrow> Handle_TCP_ST_LAST_ACK ev p cur_ts tcph seq ack_seq payloadlen window s
         | TCP_ST_FIN_WAIT_1 \<Rightarrow> Handle_TCP_ST_FIN_WAIT_1 ev p cur_ts tcph seq ack_seq mbuf payloadlen window s
         | TCP_ST_FIN_WAIT_2 \<Rightarrow> Handle_TCP_ST_FIN_WAIT_2 ev p cur_ts tcph seq ack_seq mbuf payloadlen window s
         | TCP_ST_CLOSING \<Rightarrow> Handle_TCP_ST_CLOSING p cur_ts tcph seq ack_seq payloadlen window s
         | TCP_ST_TIME_WAIT \<Rightarrow>
             bind_r (if st_on_timewait_list (qs_streams s p)
                     then bind_r (timewait_list_remove p s) (\<lambda>(_, s1). timewait_list_add p cur_ts s1)
                     else Inr s) (\<lambda>s2. Inr (snd (control_queue_add p s2)))
         | TCP_ST_CLOSED \<Rightarrow> Inr s)"

text \<open>Everything after the stream is known and the segment's sequence number accepted.\<close>

definition accepted_packet ::
    "'h env \<Rightarrow> ptr \<Rightarrow> u32 \<Rightarrow> mbuf \<Rightarrow> u32 \<Rightarrow> u32 \<Rightarrow> ptr \<Rightarrow> int \<Rightarrow> u16 \<Rightarrow> 'h qstack \<Rightarrow> (int \<times> 'h qstack) result" where
  "accepted_packet ev p cur_ts mb seq ack_seq mbuf payloadlen window s =
     (let tcph = mb_tcph mb
      in if \<not> th_syn tcph \<and> sv_wscale_peer (sndvar s p) \<ge> 32 then Inl Undefined
         else
           let s1 = sv_upd p (\<lambda>sv. sv\<lparr>sv_peer_wnd := (if th_syn tcph then ucast window
                      else push_bit (unat (sv_wscale_peer sv)) (ucast window))\<rparr>) s
           in bind_r (timeout_list_update p cur_ts s1) (\<lambda>s2.
              let s3 = (if th_rst tcph then st_upd p (\<lambda>st. st\<lparr>st_have_reset := True\<rparr>) s2 else s2)
              in bind_r (if th_rst tcph \<and> st_state (qs_streams s3 p) > TCP_ST_SYN_SENT
                         then handle_rst ev p ack_seq s3 else Inr (FALSE, s3)) (\<lambda>(r, s4).
                   if truthy r then Inr (TRUE, s4)
                   else bind_r (dispatch_state ev p cur_ts mb seq ack_seq mbuf payloadlen window s4)
                          (\<lambda>s5. Inr (TRUE, s5)))))"

definition stream_packet ::
    "'h env \<Rightarrow> ptr \<Rightarrow> u32 \<Rightarrow> mbuf \<Rightarrow> u32 \<Rightarrow> u32 \<Rightarrow> ptr \<Rightarrow> int \<Rightarrow> u16 \<Rightarrow> 'h qstack \<Rightarrow> (int \<times> 'h qstack) result" where
  "stream_packet ev p cur_ts mb seq ack_seq mbuf payloadlen window s =
     (let s1 = st_upd p (\<lambda>st. st\<lparr>st_last_active_ts := cur_ts\<rparr>) s
      in bind_r (if st_state (qs_streams s1 p) > TCP_ST_SYN_RCVD
                 then check_sequence_validation p cur_ts (mb_tcph mb) seq payloadlen s1
                 else Inr (TRUE, s1)) (\<lambda>(r, s2).
           if r \<noteq> TRUE then Inr (FAILED, s2)
           else accepted_packet ev p cur_ts mb seq ack_seq mbuf payloadlen window s2))"

definition process_tcp_packet :: "'h env \<Rightarrow> u32 \<Rightarrow> ptr \<Rightarrow> int \<Rightarrow> 'h qstack \<Rightarrow> (int \<times> 'h qstack) result" where
  "process_tcp_packet ev cur_ts mbuf ip_len s =
     (if mbuf = NULL then Inl Undefined
      else
        let mb = mbuf_at s mbuf; tcph = mb_tcph mb; doff = th_doff tcph;
            payloadlen = ip_len - int (IP_HEADER_LEN + doff * 4);
            seq = ntohl (th_seq tcph); ack_seq = ntohl (th_ack_seq tcph); window = ntohs (th_window tcph);
            s1 = mem_upd mbuf (\<lambda>mb. mb\<lparr>mb_tcp_seq := seq, mb_payload_len := of_int payloadlen,
                   mb_tx_offload := set_l4_len (of_nat (doff * 4)) (mb_tx_offload mb)\<rparr>) s
        in if doff = 0 \<or> ip_len < int ((ip_ihl (mb_iph mb) + doff) * 4) then Inr (ERROR, s1)
           else bind_r (packet_stream ev cur_ts mb seq window s1) (\<lambda>(p, s2).
             if p = NULL then Inr (FAILED, s2)
             else stream_packet ev p cur_ts mb seq ack_seq mbuf payloadlen window s2))"

end
