(* ===== verification/Tcp_States.thy ===== *)
theory Tcp_States
  imports Tcp_In
begin

text \<open>
  The connection states along the receive path: every operation that does not itself assign the
  state of a stream leaves all of them alone, and a segment moves its stream only along the edges of
  a fixed diagram.
\<close>

section \<open>Operations that keep all states\<close>

definition st_of :: "'h qstack \<Rightarrow> ptr \<Rightarrow> tcp_state" where
  "st_of s = (\<lambda>q. st_state (qs_streams s q))"

abbreviation keeps_states :: "'h qstack \<Rightarrow> 'h qstack result \<Rightarrow> bool" where
  "keeps_states s m \<equiv> post m (\<lambda>s'. st_of s' = st_of s)"

abbreviation keeps_states2 :: "'h qstack \<Rightarrow> ('a \<times> 'h qstack) result \<Rightarrow> bool" where
  "keeps_states2 s m \<equiv> post m (\<lambda>(r, s'). st_of s' = st_of s)"

lemma st_of_upd [simp]:
  "st_of (sv_upd p g s) = st_of s" "st_of (rv_upd p h s) = st_of s" "st_of (mem_upd b k s) = st_of s"
  "st_of (s\<lparr>qs_mem := m\<rparr>) = st_of s" "st_of (s\<lparr>qs_control_queue := q\<rparr>) = st_of s"
  "st_of (s\<lparr>qs_ack_queue := q\<rparr>) = st_of s" "st_of (s\<lparr>qs_send_event_queue := n\<rparr>) = st_of s"
  "st_of (s\<lparr>qs_sockets := t\<rparr>) = st_of s" "st_of (s\<lparr>qs_listener := l\<rparr>) = st_of s"
  "st_of (s\<lparr>qs_stream_pool := ps\<rparr>) = st_of s" "st_of (s\<lparr>qs_stream_ht := ht\<rparr>) = st_of s"
  "st_of (s\<lparr>qs_flow_cnt := c\<rparr>) = st_of s"
  by (simp_all add: st_of_def stack_simps mem_upd_def fun_eq_iff)

lemma st_of_st_upd [simp]: "st_of (st_upd p f s) = (st_of s)(p := st_state (f (qs_streams s p)))"
  by (simp add: st_of_def stack_simps fun_eq_iff)

lemma st_of_self [simp]: "(st_of s)(p := st_state (qs_streams s p)) = st_of s"
  by (simp add: st_of_def fun_eq_iff)

lemma st_of_frames:
  "timer_frame s s' \<Longrightarrow> st_of s' = st_of s" "event_frame s s' \<Longrightarrow> st_of s' = st_of s"
  using timer_frame_field [of s s' st_state] event_frame_field [of s s' st_state]
  by (simp_all add: st_of_def no_timer_fields_def no_events_def)

lemma keeps_states_timers:
  "keeps_states2 s (rto_list_remove p s)" "keeps_states2 s (timewait_list_remove p s)"
  "keeps_states2 s (timeout_list_remove p s)" "keeps_states s (timeout_list_update p ts s)"
  "keeps_states s (rto_list_update p ts s)" "keeps_states s (timewait_list_add p ts s)"
  using timer_frame_ops(2-4) [THEN st_of_frames(1)] timer_frame_update [THEN st_of_frames(1)]
  by (auto simp: post_def)

lemma st_of_timer_adds [simp]:
  "st_of (snd (rto_list_add p ts s)) = st_of s" "st_of (snd (timeout_list_add p ts s)) = st_of s"
  by (simp_all add: timer_frame_ops(1,5) [THEN st_of_frames(1)])

lemma keeps_states_events:
  "keeps_states s (raise_event ev t pri p s)" "keeps_states2 s (event_dest ev p s)"
  "keeps_states s (add_epoll_event t pri k d p s)" "keeps_states s (raise_read_event ev pri p s)"
  using raise_event_frame [THEN st_of_frames(2)] event_dest_frame [THEN st_of_frames(2)]
    add_epoll_event_frame [THEN st_of_frames(2)] by (auto simp: post_def raise_read_event_def)

lemma st_of_queues [simp]:
  "st_of (snd (control_queue_add p s)) = st_of s" "st_of (snd (enqueue_ack p opt s)) = st_of s"
  by (simp_all add: control_queue_add_def enqueue_ack_def ack_queue_add_def case_prod_unfold Let_def split: ack_opt.split)

text \<open>A step after which the states are those of an earlier state.\<close>

lemma keeps_step:
  "keeps_states s m \<Longrightarrow> (\<And>s1. st_of s1 = st_of s \<Longrightarrow> post (f s1) P) \<Longrightarrow> post (bind_r m f) P"
  "keeps_states2 s m2 \<Longrightarrow> (\<And>r s1. st_of s1 = st_of s \<Longrightarrow> post (g (r, s1)) P) \<Longrightarrow> post (bind_r m2 g) P"
  by (auto intro: post_bindI)

lemma keeps_opt:
  "(b \<Longrightarrow> keeps_states s m) \<Longrightarrow> keeps_states s (if b then m else Inr s)"
  "(b \<Longrightarrow> keeps_states2 s m2) \<Longrightarrow> keeps_states2 s (if b then m2 else Inr (x, s))"
  by simp_all

lemma keeps_release:
  "keeps_states s (stream_release_buffers p s)" "keeps_states s (stream_release_socket p s)"
  by (auto simp: post_def stream_release_buffers_def stream_release_socket_def bind_r_Inr_iff Let_def
      split: option.splits)

lemma keeps_destroy: "keeps_states s (tcp_stream_destroy ev p s)"
  unfolding tcp_stream_destroy_def Let_def case_prod_unfold
  apply (rule keeps_step(2) [OF keeps_opt(2)], rule keeps_states_timers)
  apply (rule keeps_step(2) [OF keeps_opt(2)], rule keeps_states_timers)
  apply (rule keeps_step(2) [OF keeps_opt(2)], rule keeps_states_timers)
  apply (rule keeps_step(1), rule keeps_release)
  apply (rule keeps_step(1), rule keeps_release)
  by simp

lemma st_of_ack_steps [simp]:
  "st_of (ack_update_window p w seq ack s) = st_of s" "st_of (ack_count_dup p dup ack s) = st_of s"
  "st_of (ack_inflate p s) = st_of s" "st_of (ack_recover p ack s) = st_of s" "st_of (advance_rcv_nxt p s) = st_of s"
  by (simp_all add: ack_update_window_def ack_count_dup_def ack_inflate_def ack_recover_def advance_rcv_nxt_def Let_def)

lemma keeps_fast_retransmit: "keeps_states s (fast_retransmit p ack s)"
  by (auto simp: post_def fast_retransmit_def bind_r_Inr_iff case_prod_unfold Let_def split: if_splits)

lemma keeps_same: "keeps_states s1 m \<Longrightarrow> st_of s1 = st_of s \<Longrightarrow> keeps_states s m"
  "keeps_states2 s1 m2 \<Longrightarrow> st_of s1 = st_of s \<Longrightarrow> keeps_states2 s m2"
  by simp_all

lemma post_any: "(\<And>a. post (f a) P) \<Longrightarrow> post (bind_r m f) P"
  by (rule post_bindI [where Q = "\<lambda>_. True"]) (simp_all add: post_def)

lemma keeps_ack_release: "keeps_states s (ack_release p ts ack sv s)"
  unfolding ack_release_def Let_def
proof (rule post_any, clarify)
  fix r sb m
  define s1 where "s1 = sv_upd p (\<lambda>_. sv\<lparr>sv_sndbuf := sb, sv_snd_una := ack, sv_snd_wnd := sb_size sb - sb_len sb\<rparr>)
    (s\<lparr>qs_mem := m\<rparr>)"
  show "keeps_states s (if st_snd_nxt (qs_streams s1 p) = ack then bind_r (rto_list_remove p s1) (\<lambda>(_, s2). Inr s2)
      else rto_list_update p ts s1)"
    using keeps_states_timers(1,5) [where s = s1] by (simp add: s1_def post_bind case_prod_unfold)
qed

lemma keeps_ack_new_data: "keeps_states s (ack_new_data p ts ack s)"
  unfolding ack_new_data_def Let_def
  by (simp add: post_bind keeps_ack_release) (simp add: post_def)

lemma keeps_ack_parts: "keeps_states s (ack_congestion p dup ack s)" "keeps_states s (ack_finish p ts ack s)"
  using keeps_ack_new_data [where s = "ack_recover p ack s"]
  by (simp_all add: ack_congestion_def ack_finish_def Let_def keeps_fast_retransmit)

lemma keeps_ack: "keeps_states s (process_tcp_ack p ts th seq ack w n s)"
proof -
  have "keeps_states s (bind_r (ack_congestion p dup a s2) (ack_finish p ts a))" if "st_of s2 = st_of s" for dup a s2
  proof (rule keeps_step(1) [OF keeps_ack_parts(1)])
    fix s1 :: "'a qstack" assume "st_of s1 = st_of s2"
    then show "keeps_states s (ack_finish p ts a s1)" using keeps_ack_parts(2) [where s = s1] that by simp
  qed
  then show ?thesis unfolding process_tcp_ack_def Let_def by simp
qed

lemma keeps_discard: "keeps_states s (discard_after_close p s)"
  by (auto simp: post_def discard_after_close_def bind_r_Inr_iff split: if_splits)

lemma keeps_payload_events: "keeps_states s (payload_events ev p b r s)"
proof -
  have "keeps_states s (bind_r (if c then raise_read_event ev 1 p s else Inr s)
      (\<lambda>s1. if c' then raise_read_event ev 0 p s1 else Inr s1))" for c c'
  proof (rule keeps_step(1) [OF keeps_opt(1) [OF keeps_states_events(4)]])
    fix s1 :: "'a qstack" assume "st_of s1 = st_of s"
    then show "keeps_states s (if c' then raise_read_event ev 0 p s1 else Inr s1)"
      using keeps_states_events(4) [where s = s1 and ev = ev and p = p and pri = 0] by simp
  qed
  then show ?thesis
    unfolding payload_events_def Let_def by (cases "st_state (qs_streams s p) = TCP_ST_ESTABLISHED") (simp_all only: if_True if_False simp_thms post_simps)
qed

lemma keeps_payload: "keeps_states2 s (process_tcp_payload ev p b seq n s)"
proof -
  have "keeps_states2 s (bind_r (discard_after_close p s1) (\<lambda>s2.
      let s3 = advance_rcv_nxt p s2 in if c s3 then Inr (FALSE, s3)
        else bind_r (payload_events ev p b r s3) (\<lambda>s4. Inr (r, s4))))" if "st_of s1 = st_of s" for c r and s1 :: "'a qstack"
  proof (rule keeps_step(1) [OF keeps_discard])
    fix s2 :: "'a qstack" assume "st_of s2 = st_of s1"
    then show "keeps_states2 s (let s3 = advance_rcv_nxt p s2 in if c s3 then Inr (FALSE, s3)
        else bind_r (payload_events ev p b r s3) (\<lambda>s4. Inr (r, s4)))"
      using keeps_payload_events [where s = "advance_rcv_nxt p s2" and ev = ev and p = p and b = b and r = r] that by (simp add: Let_def post_bind)
  qed
  note rest = this [unfolded Let_def]
  show ?thesis
    unfolding process_tcp_payload_def Let_def
  proof (simp, intro impI, rule post_any, clarify)
    fix ret rb m
    show "keeps_states2 s (bind_r (discard_after_close p (rv_upd p (\<lambda>rv. rv\<lparr>rv_rcvbuf := rb\<rparr>) (s\<lparr>qs_mem := m\<rparr>))) (\<lambda>s2.
        if TCP_SEQ_LEQ (st_rcv_nxt (qs_streams (advance_rcv_nxt p s2) p)) (st_rcv_nxt (qs_streams s p))
           \<and> \<not> mb_priority (mbuf_at (advance_rcv_nxt p s2) b) then Inr (FALSE, advance_rcv_nxt p s2)
        else bind_r (payload_events ev p b ret (advance_rcv_nxt p s2)) (\<lambda>s4. Inr (ret, s4))))"
      by (rule rest) simp
  qed
qed

section \<open>The state diagram\<close>

text \<open>
  The edges a received segment may take: those of the TCP standard, with two differences. A reset
  of a connection that the application still uses leads to CLOSE_WAIT, where the application learns
  of it, instead of CLOSED; and a connection that finds the accept queue full is closed without a
  word to the peer.
\<close>

inductive tcp_edge :: "tcp_state \<Rightarrow> tcp_state \<Rightarrow> bool" where
  syn: "tcp_edge TCP_ST_LISTEN TCP_ST_SYN_RCVD"
| syn_ack: "tcp_edge TCP_ST_SYN_SENT TCP_ST_ESTABLISHED"
| simultaneous: "tcp_edge TCP_ST_SYN_SENT TCP_ST_SYN_RCVD"
| handshake: "tcp_edge TCP_ST_SYN_RCVD TCP_ST_ESTABLISHED"
| peer_fin: "tcp_edge TCP_ST_ESTABLISHED TCP_ST_CLOSE_WAIT"
| fin_acked: "tcp_edge TCP_ST_FIN_WAIT_1 TCP_ST_FIN_WAIT_2"
| both_fin: "tcp_edge TCP_ST_FIN_WAIT_1 TCP_ST_CLOSING"
| last_fin: "tcp_edge TCP_ST_FIN_WAIT_2 TCP_ST_TIME_WAIT"
| closing_acked: "tcp_edge TCP_ST_CLOSING TCP_ST_TIME_WAIT"
| last_ack: "tcp_edge TCP_ST_LAST_ACK TCP_ST_CLOSED"
| reset: "tcp_edge st TCP_ST_CLOSED"
    if "st \<in> {TCP_ST_SYN_RCVD, TCP_ST_FIN_WAIT_1, TCP_ST_FIN_WAIT_2, TCP_ST_LAST_ACK, TCP_ST_CLOSING, TCP_ST_TIME_WAIT}"
| reset_used: "tcp_edge TCP_ST_SYN_SENT TCP_ST_CLOSE_WAIT"
| not_accepted: "tcp_edge TCP_ST_ESTABLISHED TCP_ST_CLOSED"

inductive_simps tcp_edge_iff: "tcp_edge st st'"

definition moves :: "ptr \<Rightarrow> 'h qstack \<Rightarrow> 'h qstack \<Rightarrow> bool" where
  "moves p s s' \<longleftrightarrow> (\<exists>t. st_of s' = (st_of s)(p := t) \<and> tcp_edge\<^sup>*\<^sup>* (st_of s p) t)"

lemma moves_same: "st_of s' = st_of s \<Longrightarrow> moves p s s'"
  unfolding moves_def by (metis fun_upd_triv rtranclp.rtrancl_refl)

lemma moves_edge: "st_of s' = (st_of s)(p := t) \<Longrightarrow> tcp_edge (st_of s p) t \<Longrightarrow> moves p s s'"
  unfolding moves_def by blast

lemma moves_trans [trans]: "moves p s1 s2 \<Longrightarrow> moves p s2 s3 \<Longrightarrow> moves p s1 s3"
  unfolding moves_def by (metis fun_upd_same fun_upd_upd rtranclp_trans)

lemma moves_keep: "moves p s s1 \<Longrightarrow> st_of s2 = st_of s1 \<Longrightarrow> moves p s s2" "st_of s1 = st_of s2 \<Longrightarrow> moves p s1 s3 = moves p s2 s3"
  by (simp_all add: moves_def)

lemma st_state_of: "st_state (qs_streams s p) = st_of s p"
  by (simp add: st_of_def)

text \<open>A step that keeps the states or takes one edge, and one that keeps them after that.\<close>

lemma post_moves_keep: "keeps_states s1 m \<Longrightarrow> moves p s s1 \<Longrightarrow> post m (moves p s)"
  by (rule post_mono, assumption) (rule moves_keep(1))

lemma post_moves_trans: "moves p s s1 \<Longrightarrow> post m (moves p s1) \<Longrightarrow> post m (moves p s)"
  by (erule post_mono) (rule moves_trans)

lemma moves_to:
  assumes "st_of s p = a" "tcp_edge a t"
  shows "st_of s' = st_of s \<or> st_of s' = (st_of s)(p := t) \<Longrightarrow> moves p s s'"
  using assms moves_same moves_edge by blast

lemma moves_listen:
  assumes "st_of s p \<in> {TCP_ST_LISTEN, TCP_ST_SYN_RCVD}"
  shows "moves p s (Handle_TCP_ST_LISTEN p th s)"
proof (cases "st_of s p = TCP_ST_LISTEN")
  case True
  then show ?thesis
    by (cases "th_syn th")
      (simp_all add: Handle_TCP_ST_LISTEN_def moves_same moves_edge [where t = TCP_ST_SYN_RCVD] tcp_edge.syn)
next
  case False
  then have "st_of s p = TCP_ST_SYN_RCVD" using assms by simp
  then have "(st_of s)(p := TCP_ST_SYN_RCVD) = st_of s" by (simp add: fun_upd_idem)
  then show ?thesis by (intro moves_same) (simp add: Handle_TCP_ST_LISTEN_def)
qed

lemma st_of_accept_enqueue:
  "st_of (accept_enqueue l a p s) = st_of s \<or> st_of (accept_enqueue l a p s) = (st_of s)(p := TCP_ST_CLOSED)"
  by (simp add: accept_enqueue_def case_prod_unfold Let_def)

lemma moves_accept:
  assumes "st_of s p = TCP_ST_ESTABLISHED"
  shows "post (raise_accept_event ev p s) (moves p s)"
  unfolding raise_accept_event_def Let_def
proof (rule keeps_step(2) [OF keeps_states_events(2)], simp only: prod.case)
  fix a and s1 :: "'a qstack" assume s1: "st_of s1 = st_of s"
  have m: "moves p s (accept_enqueue l a p s1)" for l
    using st_of_accept_enqueue [of l a p s1] assms tcp_edge.not_accepted moves_to [of s p] unfolding s1 by blast
  show "post (case st_listener (qs_streams s1 p) of None \<Rightarrow> Inl Undefined
     | Some l \<Rightarrow> (case ls_socket (qs_listener (accept_enqueue l a p s1) l) of
         None \<Rightarrow> Inr (accept_enqueue l a p s1)
       | Some k \<Rightarrow> if so_epoll (tb_sockets (qs_sockets (accept_enqueue l a p s1)) k) AND Q_EPOLLIN \<noteq> 0
           then add_epoll_event Q_EPOLLIN (- 1) (ls_sockid (qs_listener (accept_enqueue l a p s1) l)) a p (accept_enqueue l a p s1)
           else Inr (accept_enqueue l a p s1))) (moves p s)"
    using post_moves_keep [OF keeps_states_events(3) m] m by (simp split: option.split)
qed

lemma moves_syn_rcvd:
  assumes "st_of s p = TCP_ST_SYN_RCVD"
  shows "post (Handle_TCP_ST_SYN_RCVD ev p th ack s) (moves p s)"
proof -
  have "post (bind_r (rto_list_remove p s1) (\<lambda>(_, s2).
      raise_accept_event ev p (st_upd p (\<lambda>st. st\<lparr>st_state := TCP_ST_ESTABLISHED\<rparr>) s2))) (moves p s)"
    if "st_of s1 = st_of s" for s1
  proof (rule keeps_step(2) [OF keeps_states_timers(1)], simp only: prod.case)
    fix s2 :: "'a qstack" assume "st_of s2 = st_of s1"
    define s3 where "s3 = st_upd p (\<lambda>st. st\<lparr>st_state := TCP_ST_ESTABLISHED\<rparr>) s2"
    have s3: "st_of s3 = (st_of s)(p := TCP_ST_ESTABLISHED)" using \<open>st_of s2 = st_of s1\<close> that by (simp add: s3_def)
    then have "moves p s s3" by (rule moves_edge) (simp add: assms tcp_edge.handshake)
    then show "post (raise_accept_event ev p s3) (moves p s)"
      using moves_accept [of s3 p ev] s3 by (auto elim!: post_mono intro: moves_trans)
  qed
  then show ?thesis
    unfolding Handle_TCP_ST_SYN_RCVD_def Let_def by (simp add: moves_same)
qed

lemma parse_keeps_state: "post (parse_opts_loop fuel ts bs len i st) (\<lambda>st'. st_state st' = st_state st)"
proof (induction fuel arbitrary: i st)
  case (Suc fuel)
  have step: "st_state st1 = st_state st \<Longrightarrow> post (parse_opts_loop fuel ts bs len j st1) (\<lambda>st'. st_state st' = st_state st)"
    for j st1 using Suc.IH [of j st1] by simp
  show ?case
    by (subst parse_opts_loop.simps)
      (auto intro!: post_any step simp: set_mss_def Let_def simp del: parse_opts_loop.simps)
qed simp

lemma keeps_parse: "keeps_states s (stream_parse_options p ts mb s)"
  unfolding stream_parse_options_def ParseTCPOptions_def
  by (rule post_bindI [OF parse_keeps_state]) simp

lemma active_open_states:
  "post (handle_active_open p ts mb seq ack w s) (\<lambda>s'. st_of s' = (st_of s)(p := TCP_ST_ESTABLISHED))"
  unfolding handle_active_open_def Let_def
proof (rule keeps_step(1) [OF keeps_parse], rule keeps_step(2) [OF keeps_states_timers(1)])
qed simp

lemma moves_syn_sent:
  assumes "st_of s p = TCP_ST_SYN_SENT"
  shows "post (Handle_TCP_ST_SYN_SENT ev p ts mb seq ack w s) (moves p s)"
proof -
  have edge: "st_of s2 = (st_of s)(p := t) \<Longrightarrow> t \<in> {TCP_ST_ESTABLISHED, TCP_ST_SYN_RCVD, TCP_ST_CLOSE_WAIT} \<Longrightarrow> moves p s s2" for s2 t
    using assms by (auto intro!: moves_edge [of s2 s p t] simp: tcp_edge.intros)
  have act: "post (bind_r (handle_active_open p ts mb seq ack w s1) (\<lambda>s2.
        if st_socket (qs_streams s2 p) \<noteq> None
        then bind_r (raise_write_event ev p s2) (\<lambda>s3.
               Inr (snd (timeout_list_add p ts (snd (control_queue_add p s3)))))
        else bind_r (send_tcp_packet_standalone s2) (\<lambda>(_, s3).
               tcp_stream_destroy ev p (st_upd p (\<lambda>st. st\<lparr>st_close_reason := TCP_ACTIVE_CLOSE\<rparr>) s3)))) (moves p s)"
    if "st_of s1 = st_of s" for s1
  proof (rule post_bindI [OF active_open_states])
    fix s2 :: "'a qstack" assume "st_of s2 = (st_of s1)(p := TCP_ST_ESTABLISHED)"
    then have "moves p s s2" using edge [of s2 TCP_ST_ESTABLISHED] that by simp
    then show "post (if st_socket (qs_streams s2 p) \<noteq> None
        then bind_r (raise_write_event ev p s2) (\<lambda>s3.
               Inr (snd (timeout_list_add p ts (snd (control_queue_add p s3)))))
        else bind_r (send_tcp_packet_standalone s2) (\<lambda>(_, s3).
               tcp_stream_destroy ev p (st_upd p (\<lambda>st. st\<lparr>st_close_reason := TCP_ACTIVE_CLOSE\<rparr>) s3))) (moves p s)"
      by (auto simp: raise_write_event_def send_tcp_packet_standalone_def
          intro!: keeps_step(1) [OF keeps_states_events(1)] moves_keep(1) [OF \<open>moves p s s2\<close>])
  qed
  have rst: "post (if st_socket (qs_streams s2 p) \<noteq> None then raise_error_event ev p s2 else tcp_stream_destroy ev p s2) (moves p s)"
    if "st_of s2 = (st_of s)(p := TCP_ST_CLOSE_WAIT)" for s2
    using edge [OF that] by (auto simp: raise_error_event_def intro!: post_moves_keep [OF keeps_states_events(1)]
      post_moves_keep [OF keeps_destroy])
  show ?thesis
    unfolding Handle_TCP_ST_SYN_SENT_def Let_def
    using act rst edge by (simp add: send_tcp_packet_standalone_def moves_same)
qed

lemma destroy_states:
  "post (close_and_destroy ev p r s) (\<lambda>s'. st_of s' = (st_of s)(p := TCP_ST_CLOSED))"
  unfolding close_and_destroy_def by (rule post_mono [OF keeps_destroy]) simp

lemma moves_close_wait: "post (Handle_TCP_ST_CLOSE_WAIT p ts th seq ack n w s) (moves p s)"
  unfolding Handle_TCP_ST_CLOSE_WAIT_def
  by (simp add: moves_same post_moves_keep [OF keeps_ack])

lemma moves_last_ack:
  assumes "st_of s p = TCP_ST_LAST_ACK"
  shows "post (Handle_TCP_ST_LAST_ACK ev p ts th seq ack n w s) (moves p s)"
proof -
  have "post (close_and_destroy ev p r s1) (moves p s)" if "st_of s1 = st_of s" for r s1
    by (rule post_mono [OF destroy_states]) (simp add: that assms moves_to [OF assms tcp_edge.last_ack])
  then show ?thesis
    unfolding Handle_TCP_ST_LAST_ACK_def
    by (auto intro!: keeps_step(1) [OF keeps_ack] simp: moves_same)
qed

lemma keeps_closing_payload: "keeps_states s (closing_payload ev p b seq n s)"
  unfolding closing_payload_def by (auto intro!: keeps_step(2) [OF keeps_payload])

lemma moves_fin_wait_2:
  assumes "st_of s p = TCP_ST_FIN_WAIT_2"
  shows "post (Handle_TCP_ST_FIN_WAIT_2 ev p ts th seq ack b n w s) (moves p s)"
proof -
  have "post (bind_r (timewait_list_add p ts (st_upd p (\<lambda>st. st\<lparr>st_state := TCP_ST_TIME_WAIT,
      st_rcv_nxt := st_rcv_nxt st + 1\<rparr>) s2)) (\<lambda>s3. Inr (snd (control_queue_add p s3)))) (moves p s)"
    if "st_of s2 = st_of s" for s2
    by (rule keeps_step(1) [OF keeps_states_timers(6)]) (simp add: that moves_to [OF assms tcp_edge.last_fin])
  then show ?thesis
    unfolding Handle_TCP_ST_FIN_WAIT_2_def
    by (auto intro!: keeps_step(1) [OF keeps_ack] keeps_step(1) [OF keeps_closing_payload] simp: moves_same)
qed

lemma moves_closing:
  assumes "st_of s p = TCP_ST_CLOSING"
  shows "post (Handle_TCP_ST_CLOSING p ts th seq ack n w s) (moves p s)"
proof -
  have "post (timewait_list_add p ts (st_upd p (\<lambda>st. st\<lparr>st_snd_nxt := ack,
      st_state := TCP_ST_TIME_WAIT, st_sndvar := (st_sndvar st)\<lparr>sv_snd_una := ack\<rparr>\<rparr>) s1)) (moves p s)"
    if "st_of s1 = st_of s" for s1
    by (rule post_mono [OF keeps_states_timers(6)]) (simp add: that moves_to [OF assms tcp_edge.closing_acked])
  then show ?thesis
    unfolding Handle_TCP_ST_CLOSING_def by (auto intro!: keeps_step(1) [OF keeps_ack] simp: moves_same)
qed

lemma moves_established:
  assumes "st_of s p = TCP_ST_ESTABLISHED"
  shows "post (Handle_TCP_ST_ESTABLISHED ev p ts th seq ack b n w s) (moves p s)"
proof -
  have fin: "post (bind_r (raise_read_event ev 0 p s3) (\<lambda>s4. Inr (snd (control_queue_add p
      (st_upd p (\<lambda>st. st\<lparr>st_state := TCP_ST_CLOSE_WAIT, st_rcv_nxt := st_rcv_nxt st + 1\<rparr>) s4))))) (moves p s)"
    if "st_of s3 = st_of s" for s3
    by (rule keeps_step(1) [OF keeps_states_events(4)]) (simp add: that moves_to [OF assms tcp_edge.peer_fin])
  have pay: "keeps_states s (if c then bind_r (process_tcp_payload ev p b seq n s) (\<lambda>(r, s1).
      Inr (snd (enqueue_ack p (if 0 < r then ACK_OPT_AGGREGATE else ACK_OPT_NOW) s1))) else Inr s)" for c
    by (auto intro!: keeps_step(2) [OF keeps_payload])
  show ?thesis
  proof (cases "th_syn th")
    case False
    show ?thesis
      unfolding Handle_TCP_ST_ESTABLISHED_def if_not_P [OF False]
    proof (rule keeps_step(1) [OF pay], rule keeps_step(1) [OF keeps_opt(1) [OF keeps_ack]])
      fix s2 s3 :: "'a qstack" assume "st_of s2 = st_of s" "st_of s3 = st_of s2"
      then have "st_of s3 = st_of s" by simp
      then show "post (if th_fin th then if seq + of_int n = st_rcv_nxt (qs_streams s3 p)
          then bind_r (raise_read_event ev 0 p s3) (\<lambda>s4. Inr (snd (control_queue_add p
            (st_upd p (\<lambda>st. st\<lparr>st_state := TCP_ST_CLOSE_WAIT, st_rcv_nxt := st_rcv_nxt st + 1\<rparr>) s4))))
          else Inr (snd (enqueue_ack p ACK_OPT_NOW s3)) else Inr s3) (moves p s)"
        using fin by (simp add: moves_same)
    qed
  qed (simp add: Handle_TCP_ST_ESTABLISHED_def moves_same)
qed

lemma fin_wait_1_ack_moves:
  assumes "st_of s p = TCP_ST_FIN_WAIT_1"
  shows "post (fin_wait_1_ack p ack s) (moves p s)"
  unfolding fin_wait_1_ack_def Let_def
  by (auto intro!: keeps_step(2) [OF keeps_states_timers(1)] moves_to [OF assms tcp_edge.fin_acked] simp: moves_same)

lemma fin_wait_1_fin_moves: "post (fin_wait_1_fin p ts s) (moves p s)"
proof -
  define s1 where "s1 = st_upd p (\<lambda>st. st\<lparr>st_rcv_nxt := st_rcv_nxt st + 1\<rparr>) s"
  have s1: "st_of s1 = st_of s" by (simp add: s1_def)
  have 1: "moves p s (st_upd p (\<lambda>st. st\<lparr>st_state := TCP_ST_CLOSING\<rparr>) s1)" if "st_state (qs_streams s1 p) = TCP_ST_FIN_WAIT_1"
    using that s1 by (auto intro!: moves_to [OF _ tcp_edge.both_fin] simp: st_state_of)
  have 2: "moves p s (st_upd p (\<lambda>st. st\<lparr>st_state := TCP_ST_TIME_WAIT\<rparr>) s1)" if "st_state (qs_streams s1 p) = TCP_ST_FIN_WAIT_2"
    using that s1 by (auto intro!: moves_to [OF _ tcp_edge.last_fin] simp: st_state_of)
  have "post (fin_wait_1_fin p ts s) (moves p s)"
    unfolding fin_wait_1_fin_def Let_def s1_def [symmetric]
  proof (rule post_bindI [where Q = "moves p s"])
    show "post (if st_state (qs_streams s1 p) = TCP_ST_FIN_WAIT_1
        then Inr (st_upd p (\<lambda>st. st\<lparr>st_state := TCP_ST_CLOSING\<rparr>) s1)
        else if st_state (qs_streams s1 p) = TCP_ST_FIN_WAIT_2
        then timewait_list_add p ts (st_upd p (\<lambda>st. st\<lparr>st_state := TCP_ST_TIME_WAIT\<rparr>) s1)
        else Inr s1) (moves p s)"
      using 1 2 moves_same [OF s1] by (auto intro: post_moves_keep [OF keeps_states_timers(6)])
  qed (auto intro: moves_keep(1))
  then show ?thesis .
qed

lemma moves_fin_wait_1:
  assumes "st_of s p = TCP_ST_FIN_WAIT_1"
  shows "post (Handle_TCP_ST_FIN_WAIT_1 ev p ts th seq ack b n w s) (moves p s)"
proof (cases "TCP_SEQ_LT seq (st_rcv_nxt (qs_streams s p)) \<or> \<not> th_ack th")
  case False
  then have "\<not> TCP_SEQ_LT seq (st_rcv_nxt (qs_streams s p))" "\<not> \<not> th_ack th" by auto
  then show ?thesis
    unfolding Handle_TCP_ST_FIN_WAIT_1_def if_not_P [OF \<open>\<not> TCP_SEQ_LT _ _\<close>] if_not_P [OF \<open>\<not> \<not> th_ack th\<close>]
  proof (intro keeps_step(1) [OF keeps_ack])
    fix s1 :: "'a qstack" assume s1: "st_of s1 = st_of s"
    show "post (bind_r (fin_wait_1_ack p ack s1) (\<lambda>s2. bind_r (closing_payload ev p b seq n s2) (\<lambda>s3.
        if th_fin th \<and> seq + of_int n = st_rcv_nxt (qs_streams s3 p) then fin_wait_1_fin p ts s3 else Inr s3))) (moves p s)"
    proof (rule post_bindI [OF fin_wait_1_ack_moves], simp add: s1 assms, rule keeps_step(1) [OF keeps_closing_payload])
      fix s2 s3 :: "'a qstack" assume "moves p s1 s2" "st_of s3 = st_of s2"
      then have "moves p s s3" using s1 by (simp add: moves_def)
      then show "post (if th_fin th \<and> seq + of_int n = st_rcv_nxt (qs_streams s3 p) then fin_wait_1_fin p ts s3
          else Inr s3) (moves p s)"
        by (simp add: post_moves_trans [OF \<open>moves p s s3\<close> fin_wait_1_fin_moves])
    qed
  qed
qed (auto simp: Handle_TCP_ST_FIN_WAIT_1_def moves_same)

section \<open>The whole receive path\<close>

lemma handle_rst_moves:
  assumes "TCP_ST_SYN_SENT < st_of s p"
  shows "post (handle_rst ev p ack s) (\<lambda>(r, s'). moves p s s')"
proof -
  have destroy: "post (bind_r (close_and_destroy ev p r s) (\<lambda>s1. Inr (TRUE, s1))) (\<lambda>(r, s'). moves p s s')"
    if "tcp_edge (st_of s p) TCP_ST_CLOSED" for r
    by (rule post_bindI [OF destroy_states]) (simp add: moves_edge that)
  have used: "post (bind_r (raise_close_event ev p (st_upd p (\<lambda>st. st\<lparr>st_state := TCP_ST_CLOSE_WAIT, st_close_reason := TCP_RESET\<rparr>) s))
      (\<lambda>s1. Inr (TRUE, s1))) (\<lambda>(r, s'). moves p s s')" if "st_of s p \<in> {TCP_ST_ESTABLISHED, TCP_ST_CLOSE_WAIT}"
    unfolding raise_close_event_def
  proof (rule keeps_step(1) [OF keeps_states_events(4)])
    fix s1 :: "'a qstack"
    assume "st_of s1 = st_of (st_upd p (\<lambda>st. st\<lparr>st_state := TCP_ST_CLOSE_WAIT, st_close_reason := TCP_RESET\<rparr>) s)"
    then have s1: "st_of s1 = (st_of s)(p := TCP_ST_CLOSE_WAIT)" by simp
    have "moves p s s1"
    proof (cases "st_of s p = TCP_ST_ESTABLISHED")
      case True
      then show ?thesis using moves_edge [OF s1] by (simp add: tcp_edge.peer_fin)
    next
      case False
      then have "st_of s p = TCP_ST_CLOSE_WAIT" using that by simp
      then show ?thesis using s1 by (intro moves_same) (simp add: fun_upd_idem)
    qed
    then show "post (Inr (TRUE, s1)) (\<lambda>(r, s'). moves p s s')" by simp
  qed
  show ?thesis
    using assms destroy used
    by (cases "st_of s p") (simp_all add: handle_rst_def Let_def st_state_of moves_same tcp_edge.reset
      less_tcp_state_def less_eq_tcp_state_def)
qed

lemma moves_dispatch: "post (dispatch_state ev p ts mb seq ack b n w s) (moves p s)"
proof -
  have rcvd: "post (bind_r (Handle_TCP_ST_SYN_RCVD ev p (mb_tcph mb) ack s) (\<lambda>s1.
      if n > 0 \<and> st_state (qs_streams s1 p) = TCP_ST_ESTABLISHED
      then Handle_TCP_ST_ESTABLISHED ev p ts (mb_tcph mb) seq ack b n w s1 else Inr s1)) (moves p s)"
    if "st_of s p = TCP_ST_SYN_RCVD"
    by (rule post_bindI [OF moves_syn_rcvd [OF that]])
      (auto simp: st_state_of intro: post_mono [OF moves_established moves_trans])
  have tw: "post (bind_r (if c then bind_r (timewait_list_remove p s) (\<lambda>(_, s1). timewait_list_add p ts s1) else Inr s)
      (\<lambda>s2. Inr (snd (control_queue_add p s2)))) (moves p s)" for c
  proof (rule keeps_step(1) [OF keeps_opt(1)])
    show "keeps_states s (bind_r (timewait_list_remove p s) (\<lambda>(_, s1). timewait_list_add p ts s1))"
      by (rule keeps_step(2) [OF keeps_states_timers(2)]) (use keeps_states_timers(6) in \<open>force elim: post_mono\<close>)
  qed (simp add: moves_same)
  show ?thesis
    using rcvd tw moves_listen [of s p] moves_syn_sent [of s p] moves_established [of s p] moves_close_wait
      moves_last_ack [of s p] moves_fin_wait_1 [of s p] moves_fin_wait_2 [of s p] moves_closing [of s p] moves_same [of s s p]
    by (cases "st_of s p") (simp_all add: dispatch_state_def Let_def st_state_of)
qed

lemma accepted_packet_moves: "post (accepted_packet ev p ts mb seq ack b n w s) (\<lambda>(r, s'). moves p s s')"
proof -
  have last: "post (bind_r (if th_rst (mb_tcph mb) \<and> st_state (qs_streams s3 p) > TCP_ST_SYN_SENT
        then handle_rst ev p ack s3 else Inr (FALSE, s3)) (\<lambda>(r, s4).
          if truthy r then Inr (TRUE, s4)
          else bind_r (dispatch_state ev p ts mb seq ack b n w s4) (\<lambda>s5. Inr (TRUE, s5)))) (\<lambda>(r, s'). moves p s s')"
    if s3: "st_of s3 = st_of s" for s3
  proof (rule post_bindI [where Q = "\<lambda>(r, s'). moves p s s'"])
    show "post (if th_rst (mb_tcph mb) \<and> st_state (qs_streams s3 p) > TCP_ST_SYN_SENT
        then handle_rst ev p ack s3 else Inr (FALSE, s3)) (\<lambda>(r, s'). moves p s s')"
      using handle_rst_moves [of s3 p ev ack] moves_keep(2) [OF s3] s3 by (simp add: st_state_of moves_same case_prod_unfold)
    show "post (case a of (r, s4) \<Rightarrow> if truthy r then Inr (TRUE, s4)
          else bind_r (dispatch_state ev p ts mb seq ack b n w s4) (\<lambda>s5. Inr (TRUE, s5))) (\<lambda>(r, s'). moves p s s')"
      if "case a of (r, s') \<Rightarrow> moves p s s'" for a
      using that by (auto simp: post_bind intro!: post_moves_trans [OF _ moves_dispatch] split: prod.split)
  qed
  have upd: "st_of (if c then st_upd p (\<lambda>st. st\<lparr>st_have_reset := True\<rparr>) s2 else s2) = st_of s" if "st_of s2 = st_of s" for c s2
    using that by (simp add: st_state_of)
  have "post (bind_r (timeout_list_update p ts (sv_upd p g s)) (\<lambda>s2.
      bind_r (if th_rst (mb_tcph mb) \<and> st_state (qs_streams (f s2) p) > TCP_ST_SYN_SENT
        then handle_rst ev p ack (f s2) else Inr (FALSE, f s2)) (\<lambda>(r, s4).
          if truthy r then Inr (TRUE, s4)
          else bind_r (dispatch_state ev p ts mb seq ack b n w s4) (\<lambda>s5. Inr (TRUE, s5))))) (\<lambda>(r, s'). moves p s s')"
    if "\<And>s2. st_of s2 = st_of s \<Longrightarrow> st_of (f s2) = st_of s" for f g
    by (rule keeps_step(1) [OF keeps_states_timers(4)], rule last, rule that) simp
  from this [of "\<lambda>s2. if th_rst (mb_tcph mb) then st_upd p (\<lambda>st. st\<lparr>st_have_reset := True\<rparr>) s2 else s2", OF upd]
  show ?thesis unfolding accepted_packet_def Let_def by (simp del: post_simps(3) add: if_bool_eq_conj)
qed

lemma check_sequence_keeps: "keeps_states2 s (check_sequence_validation p ts th seq n s)"
  unfolding check_sequence_validation_def Let_def
  by (auto intro!: keeps_step(1) [OF keeps_states_timers(6)])

definition fresh_listen :: "'h qstack \<Rightarrow> ptr \<Rightarrow> 'h qstack \<Rightarrow> bool" where
  "fresh_listen s p s' \<longleftrightarrow> (\<exists>ps. qs_stream_pool s = p # ps) \<and> st_of s' = (st_of s)(p := TCP_ST_LISTEN)"

lemma create_fresh:
  "post (tcp_stream_create ev sock sa sp da dp seq s) (\<lambda>(p, s'). fresh_listen s p s')"
  by (auto simp: post_def tcp_stream_create_def fresh_listen_def st_of_def case_prod_unfold Let_def fun_eq_iff split: list.splits)

lemma passive_open_fresh:
  "post (handle_passive_open ev ts mb seq w s) (\<lambda>(p, s'). fresh_listen s p s')"
proof -
  have "post (bind_r (tcp_stream_create ev sock sa sp da dp seq s1) (\<lambda>(p, s2).
      if p = NULL then Inr (NULL, s2)
      else bind_r (stream_parse_options p ts mb (sv_upd p g (snd (timeout_list_add p ts s2)))) (\<lambda>s5. Inr (p, s5))))
      (\<lambda>(p, s'). fresh_listen s p s')" if s1: "st_of s1 = st_of s" "qs_stream_pool s1 = qs_stream_pool s" for sock sa sp da dp g s1
  proof (rule post_bindI [OF create_fresh], clarify)
    fix p s2 assume "fresh_listen s1 p s2"
    then have "fresh_listen s p s2" using s1 by (simp add: fresh_listen_def)
    then show "post (if p = NULL then Inr (NULL, s2)
        else bind_r (stream_parse_options p ts mb (sv_upd p g (snd (timeout_list_add p ts s2)))) (\<lambda>s5. Inr (p, s5)))
        (\<lambda>(p, s'). fresh_listen s p s')"
      by (auto intro!: keeps_step(1) [OF keeps_parse] simp: fresh_listen_def)
  qed
  note rest = this
  show ?thesis
    unfolding handle_passive_open_def Let_def
    by (auto intro!: rest split: prod.split option.split)
qed

lemma new_flow_fresh:
  "post (CreateNewFlowHTEntry ev ts mb seq w s) (\<lambda>(p, s'). (p = NULL \<longrightarrow> st_of s' = st_of s) \<and> (p \<noteq> NULL \<longrightarrow> fresh_listen s p s'))"
  unfolding CreateNewFlowHTEntry_def Let_def
  by (auto intro!: post_any post_bindI [OF passive_open_fresh] simp: send_tcp_packet_standalone_def fresh_listen_def st_state_of)

lemma packet_stream_states:
  "StreamHTSearch ev (qs_stream_ht s) (packet_qtuple mb) \<noteq> NULL \<Longrightarrow> post (packet_stream ev ts mb seq w s) (\<lambda>(p, s').
     p = StreamHTSearch ev (qs_stream_ht s) (packet_qtuple mb) \<and> st_of s' = st_of s)"
  "StreamHTSearch ev (qs_stream_ht s) (packet_qtuple mb) = NULL \<Longrightarrow> post (packet_stream ev ts mb seq w s) (\<lambda>(p, s').
     (p = NULL \<longrightarrow> st_of s' = st_of s) \<and> (p \<noteq> NULL \<longrightarrow> fresh_listen s p s'))"
proof -
  show "StreamHTSearch ev (qs_stream_ht s) (packet_qtuple mb) \<noteq> NULL \<Longrightarrow> post (packet_stream ev ts mb seq w s) (\<lambda>(p, s').
      p = StreamHTSearch ev (qs_stream_ht s) (packet_qtuple mb) \<and> st_of s' = st_of s)"
    unfolding packet_stream_def Let_def by (auto intro!: keeps_step(1) [OF keeps_parse])
  assume none: "StreamHTSearch ev (qs_stream_ht s) (packet_qtuple mb) = NULL"
  have "post (bind_r (CreateNewFlowHTEntry ev ts mb seq w s) (\<lambda>(p, s1). if p = NULL then Inr (NULL, s1)
      else Inr (p, st_upd p (\<lambda>st. st\<lparr>st_dhw_addr := eth_source (mb_eth mb)\<rparr>) s1)))
      (\<lambda>(p, s'). (p = NULL \<longrightarrow> st_of s' = st_of s) \<and> (p \<noteq> NULL \<longrightarrow> fresh_listen s p s'))"
    by (rule post_bindI [OF new_flow_fresh]) (auto simp: fresh_listen_def st_state_of)
  then show "post (packet_stream ev ts mb seq w s) (\<lambda>(p, s').
      (p = NULL \<longrightarrow> st_of s' = st_of s) \<and> (p \<noteq> NULL \<longrightarrow> fresh_listen s p s'))"
    unfolding packet_stream_def Let_def none by simp
qed

lemma stream_packet_moves: "post (stream_packet ev p ts mb seq ack b n w s) (\<lambda>(r, s'). moves p s s')"
  unfolding stream_packet_def Let_def
proof (rule keeps_step(2) [OF keeps_opt(2) [OF check_sequence_keeps]], clarify)
  fix r and s2 :: "'a qstack" assume "st_of s2 = st_of (st_upd p (\<lambda>st. st\<lparr>st_last_active_ts := ts\<rparr>) s)"
  then have s2: "st_of s2 = st_of s" by simp
  show "post (if r \<noteq> TRUE then Inr (FAILED, s2) else accepted_packet ev p ts mb seq ack b n w s2) (\<lambda>(r, s'). moves p s s')"
    using post_mono [OF accepted_packet_moves, of p s2 "\<lambda>(r, s'). moves p s s'"] moves_keep(2) [OF s2] s2
    by (auto simp: moves_same)
qed

lemma process_tcp_packet_moves:
  fixes s :: "'h qstack"
  assumes p: "p = StreamHTSearch ev (qs_stream_ht s) (packet_qtuple (mbuf_at s mbuf))"
  shows "post (process_tcp_packet ev ts mbuf len s) (\<lambda>(r, s').
    (p \<noteq> NULL \<longrightarrow> moves p s s') \<and> (p = NULL \<longrightarrow> st_of s' = st_of s \<or>
      (\<exists>q ps t. qs_stream_pool s = q # ps \<and> st_of s' = (st_of s)(q := t) \<and> tcp_edge\<^sup>*\<^sup>* TCP_ST_LISTEN t)))"
    (is "post _ (\<lambda>(r, s'). ?P s')")
proof -
  have str: "post (bind_r (packet_stream ev ts (mbuf_at s mbuf) seq w (mem_upd mbuf g s)) (\<lambda>(q, s2).
      if q = NULL then Inr (FAILED, s2) else stream_packet ev q ts (mbuf_at s mbuf) seq ack mbuf n w s2)) (\<lambda>(r, s'). ?P s')"
    for seq w g ack n
  proof (cases "p = NULL")
    case True
    show ?thesis
    proof (rule post_bindI [OF packet_stream_states(2)], simp add: p [unfolded True, symmetric], clarify)
      fix q and s2 :: "'h qstack"
      assume "q = NULL \<longrightarrow> st_of s2 = st_of (mem_upd mbuf g s)" "q \<noteq> NULL \<longrightarrow> fresh_listen (mem_upd mbuf g s) q s2"
      then show "post (if q = NULL then Inr (FAILED, s2) else stream_packet ev q ts (mbuf_at s mbuf) seq ack mbuf n w s2)
          (\<lambda>(r, s'). ?P s')"
        using True by (auto intro!: post_mono [OF stream_packet_moves] simp: fresh_listen_def moves_def mem_upd_def)
    qed
  next
    case False
    then show ?thesis
      by (auto intro!: post_bindI [OF packet_stream_states(1)] post_mono [OF stream_packet_moves] simp: p [symmetric] moves_def)
  qed
  show ?thesis
    using str by (simp add: process_tcp_packet_def Let_def moves_same)
qed

end
