(* ===== verification/Handshake.thy ===== *)
theory Handshake
  imports Tcp_States
begin

text \<open>
  Opening connections through the receive path: what a SYN and the acknowledgement after it do to
  the stack, and the segments that end the stack instead.
\<close>

section \<open>A new connection\<close>

definition new_stream :: "'h env \<Rightarrow> nat \<Rightarrow> mbuf \<Rightarrow> u32 \<Rightarrow> u32 \<Rightarrow> tcp_stream" where
  "new_stream ev k mb seq iss =
     zero_stream\<lparr>st_saddr := ip_daddr (mb_iph mb), st_sport := th_dest (mb_tcph mb),
       st_daddr := ip_saddr (mb_iph mb), st_dport := th_source (mb_tcph mb), st_socket := Some k, st_id := k,
       st_state := TCP_ST_LISTEN, st_rcvvar := init_rcvvar (ev_rcvbuf_size ev) seq (st_rcvvar zero_stream),
       st_sndvar := init_sndvar (ev_sndbuf_size ev) iss (st_sndvar zero_stream), st_rcv_nxt := seq, st_snd_nxt := iss\<rparr>"

lemma new_stream_fields:
  "st_on_timeout_list (new_stream ev k mb seq iss) = False" "st_on_timewait_list (new_stream ev k mb seq iss) = False"
  "st_on_rto_idx (new_stream ev k mb seq iss) = 0" "st_state (new_stream ev k mb seq iss) = TCP_ST_LISTEN"
  "st_rcv_nxt (new_stream ev k mb seq iss) = seq" "rv_irs (st_rcvvar (new_stream ev k mb seq iss)) = seq"
  "sv_on_control_queue (st_sndvar (new_stream ev k mb seq iss)) = False"
  "sv_iss (st_sndvar (new_stream ev k mb seq iss)) = iss"
  by (simp_all add: new_stream_def zero_stream_def init_rcvvar_def init_sndvar_def)

lemma tcp_stream_create_eq:
  assumes "qs_stream_pool s = p # ps"
  shows "tcp_stream_create ev (Some k) (ip_daddr (mb_iph mb)) (th_dest (mb_tcph mb)) (ip_saddr (mb_iph mb))
      (th_source (mb_tcph mb)) seq s =
    Inr (p, s\<lparr>qs_stream_pool := ps, qs_stream_ht := snd (ht_insert ev (qs_stream_ht s) (packet_qtuple mb) p),
      qs_flow_cnt := qs_flow_cnt s + 1, qs_rand_idx := qs_rand_idx s + 1,
      qs_sockets := (qs_sockets s)\<lparr>tb_sockets := (tb_sockets (qs_sockets s))
         (k := (tb_sockets (qs_sockets s) k)\<lparr>so_stream := p\<rparr>)\<rparr>,
      qs_streams := (qs_streams s)(p := new_stream ev k mb seq (qs_rand s (qs_rand_idx s)))\<rparr>)"
  unfolding tcp_stream_create_def assms new_stream_def
  by (simp add: Let_def case_prod_unfold stream_qtuple_def packet_qtuple_def zero_stream_def)

text \<open>A SYN as \<^verbatim>\<open>send_tcp_packet\<close> of the peer writes it.\<close>

definition peer_syn :: "tcp_stream \<Rightarrow> mbuf \<Rightarrow> bool" where
  "peer_syn peer mb \<longleftrightarrow> th_syn (mb_tcph mb) \<and> \<not> th_ack (mb_tcph mb) \<and> \<not> th_rst (mb_tcph mb)
     \<and> th_doff (mb_tcph mb) = 7 \<and> ip_ihl (mb_iph mb) = 5
     \<and> take 8 (mb_opts mb) = GenerateTCPOptions peer TCP_FLAG_SYN"

lemma peer_syn_parse:
  assumes "peer_syn peer mb"
  shows "stream_parse_options p ts mb s = Inr (st_upd p (\<lambda>st. st\<lparr>st_sndvar := (st_sndvar st)\<lparr>
      sv_mss := sv_mss (st_sndvar peer), sv_eff_mss := sv_mss (st_sndvar peer),
      sv_wscale_peer := sv_wscale_mine (st_sndvar peer)\<rparr>\<rparr>) s)"
proof -
  have f: "has_flag TCP_FLAG_SYN TCP_FLAG_SYN" by (simp add: has_flag_def tcp_flag_defs)
  have len: "unat (calculate_option_length TCP_FLAG_SYN) = 8"
    by (simp add: f calculate_option_length_def tcp_opt_defs)
  have "mb_opts mb = GenerateTCPOptions peer TCP_FLAG_SYN @ drop 8 (mb_opts mb)"
    using assms append_take_drop_id [of 8 "mb_opts mb"] by (simp add: peer_syn_def)
  then show ?thesis
    using options_read [OF f, of ts peer "drop 8 (mb_opts mb)" "qs_streams s p"] assms len
    by (simp add: stream_parse_options_def peer_syn_def TCP_HEADER_LEN_def st_upd_def)
qed

definition opened_state :: "'h env \<Rightarrow> nat \<Rightarrow> nat list \<Rightarrow> ptr \<Rightarrow> ptr list \<Rightarrow> mbuf \<Rightarrow> u32 \<Rightarrow> 'h qstack \<Rightarrow> 'h qstack" where
  "opened_state ev k ks p ps mb seq s = s\<lparr>qs_stream_pool := ps,
     qs_stream_ht := snd (ht_insert ev (qs_stream_ht s) (packet_qtuple mb) p),
     qs_flow_cnt := qs_flow_cnt s + 1, qs_rand_idx := qs_rand_idx s + 1,
     qs_sockets := (qs_sockets s)\<lparr>tb_free_socket := (tb_free_socket (qs_sockets s))(qs_stack_id s := ks),
       tb_free_num := (tb_free_num (qs_sockets s))(qs_stack_id s := tb_free_num (qs_sockets s) (qs_stack_id s) - 1),
       tb_sockets := (tb_sockets (qs_sockets s))(k := (socket_fresh SOCK_TYPE_STREAM (tb_sockets (qs_sockets s) k))
         \<lparr>so_default_app := - 1, so_stream := p\<rparr>)\<rparr>,
     qs_timeout_list := qs_timeout_list s @ [p],
     qs_streams := (qs_streams s)(p := new_stream ev k mb seq (qs_rand s (qs_rand_idx s)))\<rparr>"

lemma passive_open_eq:
  assumes "peer_syn peer mb" "qs_stack_id s < ev_stack_thread ev"
    "tb_free_socket (qs_sockets s) (qs_stack_id s) = k # ks" "qs_stream_pool s = p # ps" "p \<noteq> NULL"
  shows "handle_passive_open ev ts mb seq w s =
    Inr (p, st_upd p (\<lambda>st. st\<lparr>st_last_active_ts := ts, st_on_timeout_list := True, st_sndvar := (st_sndvar st)\<lparr>
      sv_peer_wnd := ucast w, sv_cwnd := 10, sv_mss := sv_mss (st_sndvar peer), sv_eff_mss := sv_mss (st_sndvar peer),
      sv_wscale_peer := sv_wscale_mine (st_sndvar peer)\<rparr>\<rparr>) (opened_state ev k ks p ps mb seq s))"
  using assms(2-) unfolding handle_passive_open_def
  by (simp add: socket_alloc_def tcp_stream_create_eq peer_syn_parse [OF assms(1)] timeout_list_add_def Let_def
      opened_state_def st_upd_def sv_upd_def new_stream_fields)

text \<open>A SYN for a stream in LISTEN moves it to SYN_RCVD and queues the answer.\<close>

lemma listen_packet:
  assumes "st_state (qs_streams s p) = TCP_ST_LISTEN" "st_on_timeout_list (qs_streams s p)" "p \<in> set (qs_timeout_list s)"
    "th_syn (mb_tcph mb)" "\<not> th_rst (mb_tcph mb)" "\<not> sv_on_control_queue (sndvar s p)"
    "cirq_wf (qs_control_queue s)" "\<not> cirq_full (qs_control_queue s)"
  shows "stream_packet ev p ts mb seq ack b n w s = Inr (TRUE,
    s\<lparr>qs_timeout_list := remove1 p (qs_timeout_list s) @ [p],
      qs_control_queue := snd (cirq_add (qs_control_queue s) p),
      qs_streams := (qs_streams s)(p := st_sndvar_update (sv_on_control_queue_update (\<lambda>_. True) \<circ> sv_peer_wnd_update (\<lambda>_. ucast w))
        (qs_streams s p\<lparr>st_last_active_ts := ts, st_rcv_nxt := st_rcv_nxt (qs_streams s p) + 1, st_state := TCP_ST_SYN_RCVD\<rparr>))\<rparr>)"
  using assms cirq_add_room(1) [OF assms(7,8), of p]
  by (simp add: stream_packet_def accepted_packet_def dispatch_state_def Handle_TCP_ST_LISTEN_def timeout_list_update_def
      control_queue_add_def sstreamq_enqueue_def Let_def case_prod_unfold stack_simps less_tcp_state_def truthy_def
      FALSE_def TRUE_def SUCCESS_def st_upd_def sv_upd_def)

text \<open>
  The stack can take a SYN: the listener serves its address and port, the connection is new, a
  socket, a stream and a place in the control queue are free, and the hash table has room.
\<close>

definition can_open :: "'h env \<Rightarrow> mbuf \<Rightarrow> nat \<Rightarrow> nat \<Rightarrow> ptr \<Rightarrow> 'h qstack \<Rightarrow> bool" where
  "can_open ev mb l k p s \<longleftrightarrow> rte_hash_laws ev
     \<and> StreamHTSearch ev (qs_stream_ht s) (packet_qtuple mb) = NULL \<and> ip_daddr (mb_iph mb) = ev_ip_addr ev
     \<and> qs_listener0 s = Some l \<and> ntohs (th_dest (mb_tcph mb)) = ls_port (qs_listener s l)
     \<and> qs_stack_id s < ev_stack_thread ev \<and> (\<exists>ks. tb_free_socket (qs_sockets s) (qs_stack_id s) = k # ks)
     \<and> (\<exists>ps. qs_stream_pool s = p # ps) \<and> p \<noteq> NULL \<and> p \<notin> set (qs_timeout_list s)
     \<and> 0 \<le> fst (ev_hash_add ev (qs_stream_ht s) (packet_qtuple mb) p)
     \<and> cirq_wf (qs_control_queue s) \<and> \<not> cirq_full (qs_control_queue s)"

lemma syn_opens:
  fixes s :: "'h qstack"
  assumes "mbuf \<noteq> NULL" "mb = mbuf_at s mbuf" "peer_syn peer mb" "can_open ev mb l k p s" "48 \<le> len"
  shows "\<exists>s'. process_tcp_packet ev ts mbuf len s = Inr (TRUE, s')
    \<and> st_state (qs_streams s' p) = TCP_ST_SYN_RCVD \<and> rv_irs (rcvvar s' p) = ntohl (th_seq (mb_tcph mb))
    \<and> st_rcv_nxt (qs_streams s' p) = ntohl (th_seq (mb_tcph mb)) + 1
    \<and> sv_iss (sndvar s' p) = qs_rand s (qs_rand_idx s) \<and> sv_mss (sndvar s' p) = sv_mss (st_sndvar peer)
    \<and> sv_wscale_peer (sndvar s' p) = sv_wscale_mine (st_sndvar peer)
    \<and> st_socket (qs_streams s' p) = Some k \<and> st_listener (qs_streams s' p) = Some l
    \<and> cirq_list (qs_control_queue s') = cirq_list (qs_control_queue s) @ [p]
    \<and> StreamHTSearch ev (qs_stream_ht s') (packet_qtuple mb) = p
    \<and> qs_timeout_list s' = qs_timeout_list s @ [p] \<and> (\<forall>q. q \<noteq> p \<longrightarrow> qs_streams s' q = qs_streams s q)"
proof -
  obtain ks ps where c: "tb_free_socket (qs_sockets s) (qs_stack_id s) = k # ks" "qs_stream_pool s = p # ps"
      "qs_stack_id s < ev_stack_thread ev" "p \<noteq> NULL" "p \<notin> set (qs_timeout_list s)"
      "cirq_wf (qs_control_queue s)" "\<not> cirq_full (qs_control_queue s)"
    using assms(4) by (auto simp: can_open_def)
  define seq where "seq = ntohl (th_seq (mb_tcph mb))"
  define w where "w = ntohs (th_window (mb_tcph mb))"
  define n where "n = len - 48"
  define s1 where "s1 = mem_upd mbuf (\<lambda>mb. mb\<lparr>mb_tcp_seq := seq, mb_payload_len := of_int n,
    mb_tx_offload := set_l4_len (of_nat 28) (mb_tx_offload mb)\<rparr>) s"
  have s1: "qs_streams s1 = qs_streams s" "qs_stream_ht s1 = qs_stream_ht s" "qs_listener0 s1 = qs_listener0 s"
      "qs_listener s1 = qs_listener s" "qs_stack_id s1 = qs_stack_id s" "qs_sockets s1 = qs_sockets s"
      "qs_stream_pool s1 = qs_stream_pool s" "qs_timeout_list s1 = qs_timeout_list s"
      "qs_control_queue s1 = qs_control_queue s" "qs_rand s1 = qs_rand s" "qs_rand_idx s1 = qs_rand_idx s"
    by (simp_all add: s1_def mem_upd_def)
  define s2 where "s2 = st_upd p (\<lambda>st. st\<lparr>st_last_active_ts := ts, st_on_timeout_list := True,
      st_sndvar := (st_sndvar st)\<lparr>sv_peer_wnd := ucast w, sv_cwnd := 10, sv_mss := sv_mss (st_sndvar peer),
        sv_eff_mss := sv_mss (st_sndvar peer), sv_wscale_peer := sv_wscale_mine (st_sndvar peer)\<rparr>,
      st_listener := Some l, st_dhw_addr := eth_source (mb_eth mb)\<rparr>) (opened_state ev k ks p ps mb seq s1)"
  have new: "packet_stream ev ts mb seq w s1 = Inr (p, s2)"
    using assms(3,4) c s1 passive_open_eq [OF assms(3), of s1 ev k ks p ps ts seq w]
    by (simp add: packet_stream_def CreateNewFlowHTEntry_def syn_packet_filter_def can_open_def peer_syn_def s2_def
        st_upd_def Let_def)
  have "process_tcp_packet ev ts mbuf len s = stream_packet ev p ts mb seq (ntohl (th_ack_seq (mb_tcph mb))) mbuf n w s2"
    using assms(1,2,3,5) new c(4) unfolding process_tcp_packet_def
    by (simp add: Let_def peer_syn_def IP_HEADER_LEN_def n_def s1_def seq_def w_def)
  moreover have s2: "st_state (qs_streams s2 p) = TCP_ST_LISTEN" "st_on_timeout_list (qs_streams s2 p)"
      "qs_timeout_list s2 = qs_timeout_list s @ [p]" "\<not> sv_on_control_queue (sndvar s2 p)"
      "qs_control_queue s2 = qs_control_queue s" "rv_irs (rcvvar s2 p) = seq" "st_rcv_nxt (qs_streams s2 p) = seq"
      "sv_iss (sndvar s2 p) = qs_rand s (qs_rand_idx s)" "sv_mss (sndvar s2 p) = sv_mss (st_sndvar peer)"
      "sv_wscale_peer (sndvar s2 p) = sv_wscale_mine (st_sndvar peer)" "st_socket (qs_streams s2 p) = Some k"
      "st_listener (qs_streams s2 p) = Some l" "\<forall>q. q \<noteq> p \<longrightarrow> qs_streams s2 q = qs_streams s q"
      "qs_stream_ht s2 = snd (ht_insert ev (qs_stream_ht s) (packet_qtuple mb) p)"
    by (simp_all add: s2_def stack_simps opened_state_def s1 new_stream_fields) (simp add: new_stream_def)
  moreover have "th_syn (mb_tcph mb)" "\<not> th_rst (mb_tcph mb)" using assms(3) by (simp_all add: peer_syn_def)
  ultimately have r: "process_tcp_packet ev ts mbuf len s = Inr (TRUE,
      s2\<lparr>qs_timeout_list := remove1 p (qs_timeout_list s @ [p]) @ [p], qs_control_queue := snd (cirq_add (qs_control_queue s) p),
        qs_streams := (qs_streams s2)(p := st_sndvar_update (sv_on_control_queue_update (\<lambda>_. True) \<circ> sv_peer_wnd_update (\<lambda>_. ucast w))
          (qs_streams s2 p\<lparr>st_last_active_ts := ts, st_rcv_nxt := st_rcv_nxt (qs_streams s2 p) + 1, st_state := TCP_ST_SYN_RCVD\<rparr>))\<rparr>)"
    using listen_packet [of s2 p mb ev ts seq "ntohl (th_ack_seq (mb_tcph mb))" mbuf n w] c(6,7) by simp
  obtain r0 h where h: "ht_insert ev (qs_stream_ht s) (packet_qtuple mb) p = (Some r0, h)" "0 \<le> r0"
    using assms(4) by (simp add: can_open_def ht_insert_def case_prod_unfold Let_def)
  have find: "StreamHTSearch ev h (packet_qtuple mb) = p"
    using ht_search_insert(1) [OF _ h] assms(4) by (simp add: can_open_def)
  show ?thesis
    unfolding r using s2 c(5) cirq_add_room(2) [OF c(6,7), of p] find h(1) by (simp add: remove1_append seq_def)
qed

section \<open>The end of the handshake\<close>

text \<open>
  The application that will accept the connection: the one the socket names, or, while it names none,
  the one with the number of the stack thread or by the number of the stream.
\<close>

definition accept_app :: "'h env \<Rightarrow> ptr \<Rightarrow> nat \<Rightarrow> 'h qstack \<Rightarrow> nat" where
  "accept_app ev p k s =
     (let d = so_default_app (tb_sockets (qs_sockets s) k)
      in if d \<noteq> - 1 then unat d
         else if ev_stack_thread ev = ev_app_thread ev then unat (of_nat (qs_stack_id s) :: u8)
         else unat (of_nat (st_id (qs_streams s p) mod ev_app_thread ev) :: u8))"

lemma event_dest_app:
  assumes "st_socket (qs_streams s p) = Some k" "0 < ev_app_thread ev"
  obtains tb where "event_dest ev p s = Inr (accept_app ev p k s, s\<lparr>qs_sockets := tb\<rparr>)"
    "\<And>j. so_epoll (tb_sockets tb j) = so_epoll (tb_sockets (qs_sockets s) j)"
    "\<And>j. so_socktype (tb_sockets tb j) = so_socktype (tb_sockets (qs_sockets s) j)"
    "so_default_app (tb_sockets tb k) = of_nat (accept_app ev p k s)"
proof (cases "so_default_app (tb_sockets (qs_sockets s) k) = - 1")
  case True
  let ?tb = "(qs_sockets s)\<lparr>tb_sockets := (tb_sockets (qs_sockets s))(k := (tb_sockets (qs_sockets s) k)\<lparr>so_default_app :=
    (if ev_stack_thread ev = ev_app_thread ev then of_nat (qs_stack_id s) else of_nat (st_id (qs_streams s p) mod ev_app_thread ev))\<rparr>)\<rparr>"
  show thesis by (rule that [of ?tb]) (use assms True in \<open>auto simp: event_dest_def accept_app_def Let_def\<close>)
next
  case False
  then show thesis by (intro that [of "qs_sockets s"]) (use assms in \<open>auto simp: event_dest_def accept_app_def Let_def\<close>)
qed

text \<open>
  The stream \<open>p\<close> with socket \<open>k\<close> came through the listener \<open>l\<close> as \<^verbatim>\<open>q_listen\<close> leaves it: with
  its socket \<open>m\<close>, which is a listening socket that is watched. The part of the accept queue that
  belongs to this stack thread has room.
\<close>

definition can_accept :: "'h env \<Rightarrow> ptr \<Rightarrow> nat \<Rightarrow> nat \<Rightarrow> nat \<Rightarrow> 'h qstack \<Rightarrow> bool" where
  "can_accept ev p k l m s \<longleftrightarrow> timer_inv s \<and> 0 < ev_app_thread ev \<and> qs_stack_id s < 255
     \<and> st_socket (qs_streams s p) = Some k \<and> st_listener (qs_streams s p) = Some l
     \<and> ls_socket (qs_listener s l) = Some m \<and> ls_sockid (qs_listener s l) = m
     \<and> so_socktype (tb_sockets (qs_sockets s) m) = SOCK_TYPE_LISTENER \<and> so_epoll (tb_sockets (qs_sockets s) m) AND Q_EPOLLIN \<noteq> 0
     \<and> (let q = ls_acceptq (qs_listener s l) (accept_app ev p k s)
        in n21q_wf q \<and> of_nat (qs_stack_id s) < nq_queue_num q \<and> \<not> cirq_full (nq_queues q ! qs_stack_id s))"

lemma raise_accept_event_queues:
  assumes c: "can_accept ev p k l m s"
  obtains tb s' where "raise_accept_event ev p s = Inr s'"
    "s' = s\<lparr>qs_sockets := tb, qs_listener := qs_listener s', qs_events := qs_events s @
       [(Q_EPOLLIN, CreateQevent 1 (qs_stack_id s) m (accept_app ev p k s) Q_ACCEPT)]\<rparr>"
    "cirq_list (nq_queues (ls_acceptq (qs_listener s' l) (accept_app ev p k s)) ! qs_stack_id s)
        = cirq_list (nq_queues (ls_acceptq (qs_listener s l) (accept_app ev p k s)) ! qs_stack_id s) @ [p]"
    "so_default_app (tb_sockets tb k) = of_nat (accept_app ev p k s)"
proof -
  let ?a = "accept_app ev p k s"
  obtain tb where tb: "event_dest ev p s = Inr (?a, s\<lparr>qs_sockets := tb\<rparr>)"
      "\<And>j. so_epoll (tb_sockets tb j) = so_epoll (tb_sockets (qs_sockets s) j)"
      "\<And>j. so_socktype (tb_sockets tb j) = so_socktype (tb_sockets (qs_sockets s) j)" "so_default_app (tb_sockets tb k) = of_nat ?a"
    using event_dest_app [of s p k ev] c by (auto simp: can_accept_def)
  have id: "unat (of_nat (qs_stack_id s) :: u8) = qs_stack_id s" using c by (simp add: can_accept_def unat_of_nat)
  define q where "q = ls_acceptq (qs_listener s l) ?a"
  have q: "n21q_wf q" "of_nat (qs_stack_id s) < nq_queue_num q" "\<not> cirq_full (nq_queues q ! unat (of_nat (qs_stack_id s) :: u8))"
    using c id by (simp_all add: q_def can_accept_def Let_def)
  have enq: "fst (n21q_enqueue q (of_nat (qs_stack_id s)) p) = SUCCESS"
      "cirq_list (nq_queues (snd (n21q_enqueue q (of_nat (qs_stack_id s)) p)) ! qs_stack_id s) = cirq_list (nq_queues q ! qs_stack_id s) @ [p]"
    using cirq_add_room(1) [of "nq_queues q ! qs_stack_id s" p] n21q_enqueue_queue [OF q, of p] q id
      n21q_wf_queue(1) [OF q(1), of "qs_stack_id s"]
    by (simp_all add: n21q_enqueue_def case_prod_unfold Let_def word_less_nat_alt)
  define ls where "ls = (qs_listener s l)\<lparr>ls_acceptq := (ls_acceptq (qs_listener s l))(?a := snd (n21q_enqueue q (of_nat (qs_stack_id s)) p))\<rparr>"
  have acc: "accept_enqueue l ?a p (s\<lparr>qs_sockets := tb\<rparr>) = s\<lparr>qs_sockets := tb, qs_listener := (qs_listener s)(l := ls)\<rparr>"
    using enq(1) by (simp add: accept_enqueue_def streamq_enqueue_def q_def ls_def Let_def case_prod_unfold SUCCESS_def)
  let ?s' = "s\<lparr>qs_sockets := tb, qs_listener := (qs_listener s)(l := ls), qs_events := qs_events s @
       [(Q_EPOLLIN, CreateQevent 1 (qs_stack_id s) m ?a Q_ACCEPT)]\<rparr>"
  have "raise_accept_event ev p s = Inr ?s'"
    using c tb(2,3) by (simp add: raise_accept_event_def tb(1) acc can_accept_def ls_def add_epoll_event_def submit_event_def CreateQevent_def Let_def)
  then show thesis by (rule that [of ?s' tb]) (use enq(2) tb(4) in \<open>simp_all add: ls_def q_def\<close>)
qed

lemma handshake_end:
  assumes c: "can_accept ev p k l m s" and th: "th_ack th" "ack = sv_iss (sndvar s p) + 1"
  shows "\<exists>s'. Handle_TCP_ST_SYN_RCVD ev p th ack s = Inr s'
    \<and> st_state (qs_streams s' p) = TCP_ST_ESTABLISHED \<and> st_snd_nxt (qs_streams s' p) = ack
    \<and> st_rcv_nxt (qs_streams s' p) = rv_irs (rcvvar s p) + 1
    \<and> cirq_list (nq_queues (ls_acceptq (qs_listener s' l) (accept_app ev p k s)) ! qs_stack_id s)
        = cirq_list (nq_queues (ls_acceptq (qs_listener s l) (accept_app ev p k s)) ! qs_stack_id s) @ [p]
    \<and> so_default_app (tb_sockets (qs_sockets s') k) = of_nat (accept_app ev p k s)
    \<and> qs_events s' = qs_events s @ [(Q_EPOLLIN, CreateQevent 1 (qs_stack_id s) m (accept_app ev p k s) Q_ACCEPT)]
    \<and> qs_rto_list s' = remove1 p (qs_rto_list s)"
proof -
  define s1 where "s1 = st_upd p (\<lambda>st. st\<lparr>st_snd_nxt := ack, st_rcv_nxt := rv_irs (st_rcvvar st) + 1,
      st_sndvar := (st_sndvar st)\<lparr>sv_snd_una := sv_snd_una (st_sndvar st) + 1,
        sv_cwnd := (if sv_cwnd (st_sndvar st) = 1 then ucast (sv_mss (st_sndvar st)) * 2 else ucast (sv_mss (st_sndvar st))),
        sv_nrtx := 0\<rparr>\<rparr>) s"
  have "timer_inv s1"
    using c timer_inv_same [of s s1] by (simp add: s1_def can_accept_def same_timers_def stack_simps)
  from rto_list_remove_inv [OF this, of p] obtain r s2 where s2: "rto_list_remove p s1 = Inr (r, s2)"
      "qs_rto_list s2 = remove1 p (qs_rto_list s1)" "timer_inv s2" by blast
  have f: "timer_frame s1 s2" using s2(1) by (rule timer_frame_ops(2))
  have nt: "no_timers s2 = no_timers s1" using f by (simp add: timer_frame_def)
  define s3 where "s3 = st_upd p (\<lambda>st. st\<lparr>st_state := TCP_ST_ESTABLISHED\<rparr>) s2"
  have e: "qs_listener s3 = qs_listener s" "qs_sockets s3 = qs_sockets s" "qs_stack_id s3 = qs_stack_id s" "qs_events s3 = qs_events s"
      "qs_rto_list s3 = remove1 p (qs_rto_list s)"
    using arg_cong [OF nt, of qs_listener] arg_cong [OF nt, of qs_sockets] arg_cong [OF nt, of qs_stack_id] arg_cong [OF nt, of qs_events] s2(2)
    by (simp_all add: no_timers_def s1_def s3_def stack_simps)
  have st3: "st_snd_nxt (qs_streams s3 p) = ack" "st_rcv_nxt (qs_streams s3 p) = rv_irs (rcvvar s p) + 1"
      "st_socket (qs_streams s3 p) = Some k" "st_listener (qs_streams s3 p) = Some l" "st_id (qs_streams s3 p) = st_id (qs_streams s p)"
      "st_state (qs_streams s3 p) = TCP_ST_ESTABLISHED"
    using c timer_frame_field [OF f, of st_snd_nxt p] timer_frame_field [OF f, of st_rcv_nxt p] timer_frame_field [OF f, of st_id p]
      timer_frame_field [OF f, of st_socket p] timer_frame_field [OF f, of st_listener p]
    by (simp_all add: no_timer_fields_def s1_def s3_def stack_simps can_accept_def)
  have "same_timers s2 s3" by (simp add: s3_def same_timers_def stack_simps)
  then have inv: "timer_inv s3" using s2(3) timer_inv_same by blast
  have app: "accept_app ev p k s3 = accept_app ev p k s" by (simp add: accept_app_def Let_def e st3(5))
  have a: "accept_app ev p k s3 = accept_app ev p k s" "can_accept ev p k l m s3"
    using c e(1-3) st3(3,4) inv app by (simp_all add: can_accept_def)
  have r1: "Handle_TCP_ST_SYN_RCVD ev p th ack s = raise_accept_event ev p s3"
    using th s2(1) by (simp add: Handle_TCP_ST_SYN_RCVD_def s1_def s3_def Let_def)
  obtain tb s' where s': "raise_accept_event ev p s3 = Inr s'"
      "s' = s3\<lparr>qs_sockets := tb, qs_listener := qs_listener s', qs_events := qs_events s3 @
         [(Q_EPOLLIN, CreateQevent 1 (qs_stack_id s3) m (accept_app ev p k s3) Q_ACCEPT)]\<rparr>"
      "cirq_list (nq_queues (ls_acceptq (qs_listener s' l) (accept_app ev p k s3)) ! qs_stack_id s3)
        = cirq_list (nq_queues (ls_acceptq (qs_listener s3 l) (accept_app ev p k s3)) ! qs_stack_id s3) @ [p]"
      "so_default_app (tb_sockets tb k) = of_nat (accept_app ev p k s3)"
    by (rule raise_accept_event_queues [OF a(2)])
  have "qs_streams s' = qs_streams s3" "qs_sockets s' = tb" "qs_rto_list s' = qs_rto_list s3"
      "qs_events s' = qs_events s3 @ [(Q_EPOLLIN, CreateQevent 1 (qs_stack_id s3) m (accept_app ev p k s3) Q_ACCEPT)]"
    by (subst s'(2), simp)+
  then show ?thesis unfolding r1 using s'(1,3,4) st3 e a(1) by simp
qed

section \<open>Main properties\<close>

text \<open>
  C2 (functional). A SYN as the peer's stack writes it, for an address and port that the listener
  serves, opens a connection: a free stream is found under the segment's addresses, in SYN_RCVD,
  expecting the byte after the SYN, with a socket, the listener and the peer's segment size and
  window scale; it waits in the control queue to answer and has an inactivity timer, and no other
  stream changes.
\<close>

theorem passive_open_correct:
  assumes "mbuf \<noteq> NULL" "mb = mbuf_at s mbuf" "peer_syn peer mb" "can_open ev mb l k p s" "48 \<le> len"
  shows "\<exists>s'. process_tcp_packet ev ts mbuf len s = Inr (TRUE, s')
    \<and> st_state (qs_streams s' p) = TCP_ST_SYN_RCVD \<and> rv_irs (rcvvar s' p) = ntohl (th_seq (mb_tcph mb))
    \<and> st_rcv_nxt (qs_streams s' p) = ntohl (th_seq (mb_tcph mb)) + 1
    \<and> sv_iss (sndvar s' p) = qs_rand s (qs_rand_idx s) \<and> sv_mss (sndvar s' p) = sv_mss (st_sndvar peer)
    \<and> sv_wscale_peer (sndvar s' p) = sv_wscale_mine (st_sndvar peer)
    \<and> st_socket (qs_streams s' p) = Some k \<and> st_listener (qs_streams s' p) = Some l
    \<and> cirq_list (qs_control_queue s') = cirq_list (qs_control_queue s) @ [p]
    \<and> StreamHTSearch ev (qs_stream_ht s') (packet_qtuple mb) = p
    \<and> qs_timeout_list s' = qs_timeout_list s @ [p] \<and> (\<forall>q. q \<noteq> p \<longrightarrow> qs_streams s' q = qs_streams s q)"
  using assms by (rule syn_opens)

definition syn_mbuf :: mbuf where
  "syn_mbuf = mbuf0\<lparr>mb_iph := (mb_iph mbuf0)\<lparr>ip_ihl := 5, ip_daddr := 0x0A000001\<rparr>,
     mb_tcph := (mb_tcph mbuf0)\<lparr>th_dest := ntohs 80, th_source := 9, th_seq := ntohl 77, th_doff := 7, th_syn := True,
       th_ack := False, th_rst := False\<rparr>,
     mb_opts := GenerateTCPOptions stream1 TCP_FLAG_SYN\<rparr>"

definition stack5 :: "(ipv4_5tuple \<Rightarrow> ptr option) qstack" where
  "stack5 = stack0\<lparr>qs_listener0 := Some 0, qs_mem := \<lparr>mm_heap = (\<lambda>_. syn_mbuf), mm_released = [], mm_count = 9\<rparr>\<rparr>"

lemma stack5_ok:
  "peer_syn stream1 syn_mbuf" "can_open env0 syn_mbuf 0 0 1 stack5" "mbuf_at stack5 6 = syn_mbuf"
proof -
  show "peer_syn stream1 syn_mbuf"
    by (simp add: peer_syn_def syn_mbuf_def GenerateTCPOptions_def Let_def)
  have q: "cirq_wf squeue0" "\<not> cirq_full squeue0" using stack3_ok(2,3) by (simp_all add: stack3_def stack1_def stack0_def)
  show "can_open env0 syn_mbuf 0 0 1 stack5"
    using q env0_laws by (simp add: can_open_def stack5_def stack0_def env0_def syn_mbuf_def ht_search_def ENOENT_def)
  show "mbuf_at stack5 6 = syn_mbuf" by (simp add: stack5_def)
qed

theorem passive_open_correct_witness:
  "\<exists>s'. process_tcp_packet env0 3 6 48 stack5 = Inr (TRUE, s') \<and> st_state (qs_streams s' 1) = TCP_ST_SYN_RCVD
     \<and> st_rcv_nxt (qs_streams s' 1) = 78"
proof -
  have "ntohl (th_seq (mb_tcph syn_mbuf)) = 77" by (simp add: syn_mbuf_def)
  then show ?thesis
    using passive_open_correct [OF _ stack5_ok(3) [symmetric] stack5_ok(1,2), of 48 3] by auto
qed

text \<open>
  C3 (functional). The acknowledgement of the stack's SYN establishes a connection that came through a
  listening socket: the stream leaves the retransmission list, its numbers start behind the two SYNs,
  it joins the accept queue of its application, as the last of this stack thread, the socket keeps this
  application, and the application gets a read event of high priority for the listening socket. The
  application is the socket's, or for a new socket that of the stack thread's number if there are as
  many applications as stack threads, and otherwise the one the stream's number chooses. Its accept queue has
  room in the part of this stack thread, and the listening socket is watched.
\<close>

theorem handshake_accepts:
  assumes "can_accept ev p k l m s" "th_ack th" "ack = sv_iss (sndvar s p) + 1"
  shows "\<exists>s'. Handle_TCP_ST_SYN_RCVD ev p th ack s = Inr s'
    \<and> st_state (qs_streams s' p) = TCP_ST_ESTABLISHED \<and> st_snd_nxt (qs_streams s' p) = ack
    \<and> st_rcv_nxt (qs_streams s' p) = rv_irs (rcvvar s p) + 1
    \<and> cirq_list (nq_queues (ls_acceptq (qs_listener s' l) (accept_app ev p k s)) ! qs_stack_id s)
        = cirq_list (nq_queues (ls_acceptq (qs_listener s l) (accept_app ev p k s)) ! qs_stack_id s) @ [p]
    \<and> so_default_app (tb_sockets (qs_sockets s') k) = of_nat (accept_app ev p k s)
    \<and> qs_events s' = qs_events s @ [(Q_EPOLLIN, CreateQevent 1 (qs_stack_id s) m (accept_app ev p k s) Q_ACCEPT)]
    \<and> qs_rto_list s' = remove1 p (qs_rto_list s)"
  using assms by (rule handshake_end)

text \<open>The connection of stream 1, which came through the listening socket 1.\<close>

definition stack6 :: "(ipv4_5tuple \<Rightarrow> ptr option) qstack" where
  "stack6 = stack1\<lparr>qs_streams := (qs_streams stack1)(1 := stream1\<lparr>st_state := TCP_ST_SYN_RCVD, st_listener := Some 0\<rparr>),
     qs_listener := (\<lambda>l. (qs_listener stack1 l)\<lparr>ls_sockid := 1, ls_socket := Some 1\<rparr>),
     qs_sockets := (qs_sockets stack1)\<lparr>tb_sockets := (\<lambda>_. socket0\<lparr>so_default_app := - 1\<rparr>)
       (1 := socket0\<lparr>so_socktype := SOCK_TYPE_LISTENER, so_epoll := Q_EPOLLIN\<rparr>)\<rparr>\<rparr>"

theorem handshake_accepts_witness:
  "\<exists>s'. Handle_TCP_ST_SYN_RCVD env0 1 ((mb_tcph mbuf0)\<lparr>th_ack := True\<rparr>) 1001 stack6 = Inr s'
     \<and> st_state (qs_streams s' 1) = TCP_ST_ESTABLISHED \<and> qs_rto_list s' = []
     \<and> qs_events s' = [(Q_EPOLLIN, CreateQevent 1 0 1 0 Q_ACCEPT)]"
proof -
  have inv: "timer_inv stack6"
    by (simp add: timer_inv_def stack6_def stack1_def stack0_def stream1_def zero_stream_def RTO_STORAGE_def)
  have a: "accept_app env0 1 2 stack6 = 0" by (simp add: accept_app_def stack6_def stack1_def stack0_def env0_def)
  have "can_accept env0 1 2 0 1 stack6"
    using n21_example_wf inv unfolding can_accept_def a
    by (simp add: stack6_def stack1_def stack0_def stream1_def nqueue0_def env0_def
      n21_example_def n21q_init_def cirq_init_def cirq_full_def cirq_succ_def Q_EPOLLIN_def)
  moreover have "sv_iss (sndvar stack6 1) = 1000" "qs_rto_list stack6 = [1]" "qs_events stack6 = []" "qs_stack_id stack6 = 0"
    by (simp_all add: stack6_def stream1_def init_sndvar_def stack1_def stack0_def)
  ultimately show ?thesis
    using handshake_accepts [of env0 1 2 0 1 stack6 "(mb_tcph mbuf0)\<lparr>th_ack := True\<rparr>" 1001] a by auto
qed

text \<open>
  C33 (error). Two SYNs end the stack thread with an access through \<^verbatim>\<open>NULL\<close>: one for the
  listener's address with a port it does not serve (a read), and one for its port when all sockets are in
  use (a write).
\<close>

theorem syn_ends_stack:
  assumes "mbuf \<noteq> NULL" "mb = mbuf_at s mbuf" "peer_syn peer mb" "48 \<le> len"
    "StreamHTSearch ev (qs_stream_ht s) (packet_qtuple mb) = NULL" "ip_daddr (mb_iph mb) = ev_ip_addr ev"
    "qs_listener0 s = Some l" "qs_stack_id s < ev_stack_thread ev"
    "ntohs (th_dest (mb_tcph mb)) \<noteq> ls_port (qs_listener s l) \<or> tb_free_socket (qs_sockets s) (qs_stack_id s) = []"
  shows "process_tcp_packet ev ts mbuf len s = Inl Undefined"
  using assms
  by (auto simp: process_tcp_packet_def packet_stream_def CreateNewFlowHTEntry_def syn_packet_filter_def peer_syn_def
      handle_passive_open_def socket_alloc_def Let_def IP_HEADER_LEN_def mem_upd_def)

theorem syn_ends_stack_witness:
  "process_tcp_packet env0 3 6 48 (stack5\<lparr>qs_listener := (\<lambda>_. (qs_listener stack5 0)\<lparr>ls_port := 443\<rparr>)\<rparr>) = Inl Undefined"
  using syn_ends_stack [OF _ _ stack5_ok(1), of 6 "stack5\<lparr>qs_listener := (\<lambda>_. (qs_listener stack5 0)\<lparr>ls_port := 443\<rparr>)\<rparr>" 48 env0 0 3]
    stack5_ok by (simp add: can_open_def stack5_def stack0_def syn_mbuf_def)

text \<open>
  C1 (safety). Whatever segment arrives, it leaves the state of every stream but its own as it is.
  A stream the hash table knows moves along the edges of the diagram; a segment of an unknown
  connection changes no stream, or opens one from the pool, which starts in LISTEN.
\<close>

theorem process_tcp_packet_diagram:
  assumes "process_tcp_packet ev ts mbuf len s = Inr (r, s')"
    and p: "p = StreamHTSearch ev (qs_stream_ht s) (packet_qtuple (mbuf_at s mbuf))"
  shows "\<exists>q. (\<forall>j. j \<noteq> q \<longrightarrow> st_state (qs_streams s' j) = st_state (qs_streams s j))
    \<and> (p \<noteq> NULL \<longrightarrow> q = p \<and> tcp_edge\<^sup>*\<^sup>* (st_state (qs_streams s p)) (st_state (qs_streams s' p)))
    \<and> (p = NULL \<longrightarrow> st_state (qs_streams s' q) = st_state (qs_streams s q)
         \<or> q = hd (qs_stream_pool s) \<and> tcp_edge\<^sup>*\<^sup>* TCP_ST_LISTEN (st_state (qs_streams s' q)))"
proof (cases "p = NULL")
  case True
  then show ?thesis
    using postD [OF process_tcp_packet_moves [OF p] assms(1)] unfolding st_state_of by auto
next
  case False
  then show ?thesis
    using postD [OF process_tcp_packet_moves [OF p] assms(1)] unfolding st_state_of
    by (intro exI [of _ p]) (auto simp: moves_def)
qed

theorem process_tcp_packet_diagram_witness:
  "\<exists>s'. process_tcp_packet env0 3 6 48 stack5 = Inr (TRUE, s')
     \<and> (\<exists>q. \<forall>j. j \<noteq> q \<longrightarrow> st_state (qs_streams s' j) = st_state (qs_streams stack5 j))"
proof -
  obtain s' where s': "process_tcp_packet env0 3 6 48 stack5 = Inr (TRUE, s')"
    using syn_opens [OF _ stack5_ok(3) [symmetric] stack5_ok(1,2), of 48 3] by auto
  then show ?thesis using process_tcp_packet_diagram [OF s' refl] by blast
qed

end
