(* ===== verification/Tcp_Data.thy ===== *)
theory Tcp_Data
  imports Handshake
begin

text \<open>
  Data on an established connection: a segment that arrives in order ends up in the receive buffer
  and is announced to the application, and an acknowledgement frees the data it covers and restarts
  the retransmission timer.
\<close>

section \<open>Events\<close>

text \<open>The socket of the stream is watched by an event handle and has its application.\<close>

definition watched :: "'h qstack \<Rightarrow> ptr \<Rightarrow> nat \<Rightarrow> bool" where
  "watched s p k \<longleftrightarrow> st_socket (qs_streams s p) = Some k \<and> st_id (qs_streams s p) = k
     \<and> so_qe (tb_sockets (qs_sockets s) k) \<noteq> NULL \<and> so_default_app (tb_sockets (qs_sockets s) k) \<noteq> - 1
     \<and> so_stream (tb_sockets (qs_sockets s) k) \<noteq> NULL"

lemma raise_event_watched:
  assumes "watched s p k"
  shows "raise_event ev t pri p s = Inr (s\<lparr>qs_events := qs_events s @ [(t, CreateQevent (if pri = - 1 then 1 else of_int pri)
    (qs_stack_id s) k (unat (so_default_app (tb_sockets (qs_sockets s) k))) (if pri = - 1 then Q_ACCEPT else Q_READ))]\<rparr>)"
  using assms by (auto simp: watched_def raise_event_def event_dest_def add_epoll_event_def check_stream_event_validation_def
      submit_event_def CreateQevent_def Let_def)

section \<open>Data in order\<close>

lemma seq_ahead:
  assumes "0 < n" "n < 2 ^ 31"
  shows "\<not> TCP_SEQ_LEQ (r + of_nat n) r" "n \<le> unat w \<Longrightarrow> unat w < 2 ^ 31 \<Longrightarrow> \<not> TCP_SEQ_GT (r + of_nat n) (r + w)"
proof -
  have n: "unat (of_nat n :: u32) = n" using assms by (simp add: unat_of_nat)
  show "\<not> TCP_SEQ_LEQ (r + of_nat n) r"
    using assms n by (simp add: seq_window_simps(2) [where base = r])
  show "n \<le> unat w \<Longrightarrow> unat w < 2 ^ 31 \<Longrightarrow> \<not> TCP_SEQ_GT (r + of_nat n) (r + w)"
    using assms n by (simp add: seq_window_simps(3) [where base = r])
qed

lemma payload_in_order:
  fixes s :: "'h qstack"
  assumes st: "st_state (qs_streams s p) = TCP_ST_ESTABLISHED" and w: "watched s p k"
    and rel: "rb_rel (qs_mem s) (rv_rcvbuf (rcvvar s p)) ms [] hs" "length ms < 7"
    and nxt: "st_rcv_nxt (qs_streams s p) = rb_merged_next (rv_rcvbuf (rcvvar s p))"
    and x: "x \<noteq> NULL" "\<not> mb_priority (mbuf_at s x)" "seg_seq (qs_mem s) x = st_rcv_nxt (qs_streams s p)"
    and n: "n = unat (mb_payload_len (mbuf_at s x))" "0 < n" "n \<le> unat (rv_rcv_wnd (rcvvar s p))"
      "unat (rv_rcv_wnd (rcvvar s p)) < 2 ^ 31"
    and room: "\<not> TCP_SEQ_GT (seg_end (qs_mem s) x) (rb_head_seq (rv_rcvbuf (rcvvar s p)) + rb_size (rv_rcvbuf (rcvvar s p)))"
  shows "\<exists>s'. process_tcp_payload ev p x (st_rcv_nxt (qs_streams s p)) (int n) s = Inr (1, s')
    \<and> st_rcv_nxt (qs_streams s' p) = st_rcv_nxt (qs_streams s p) + of_nat n
    \<and> rb_rel (qs_mem s') (rv_rcvbuf (rcvvar s' p)) (ms @ [x]) [] hs
    \<and> rb_merged_next (rv_rcvbuf (rcvvar s' p)) = st_rcv_nxt (qs_streams s' p)
    \<and> rv_rcv_wnd (rcvvar s' p) = rb_size (rv_rcvbuf (rcvvar s' p)) - rb_merged_len (rv_rcvbuf (rcvvar s' p))
    \<and> qs_events s' = qs_events s @ [(Q_EPOLLIN, CreateQevent 0 (qs_stack_id s) k
        (unat (so_default_app (tb_sockets (qs_sockets s) k))) Q_READ)]
    \<and> (\<forall>q. q \<noteq> p \<longrightarrow> qs_streams s' q = qs_streams s q) \<and> mm_released (qs_mem s') = mm_released (qs_mem s)
    \<and> mb_state (mbuf_at s' x) = MBUF_STATE_RBUFFED \<and> seg_kept (qs_mem s) (qs_mem s')
    \<and> st_state (qs_streams s' p) = TCP_ST_ESTABLISHED \<and> sndvar s' p = sndvar s p \<and> qs_sockets s' = qs_sockets s
    \<and> qs_dpdk s' = qs_dpdk s"
proof -
  let ?b = "rv_rcvbuf (rcvvar s p)" and ?r = "st_rcv_nxt (qs_streams s p)"
  have n16: "n < 2 ^ 16" using n(1) unat_word_less [of "mb_payload_len (mbuf_at s x)"] by simp
  have e: "seg_end (qs_mem s) x = ?r + of_nat n"
    using x(3) by (simp add: seg_end_def seg_seq_def n(1))
  obtain b m where b: "rb_put (qs_stack_id s) ?b x (qs_mem s) = Inr (1, b, m)" "rb_frame x (qs_mem s) ?b m b"
      "rb_merged_next b = seg_end (qs_mem s) x" "rb_rel m b (ms @ [x]) [] (high_after (qs_mem s) x hs)"
      "mb_state (mm_heap m x) = state_after (qs_mem s) x hs"
    using rb_put_next [OF rel(1) x(1) _ room, of "qs_stack_id s"] x(3) nxt rel(2) by auto
  have hi: "high_after (qs_mem s) x hs = hs" using x(2) by (simp add: high_after_def)
  have stx: "mb_state (mm_heap m x) = MBUF_STATE_RBUFFED" using b(5) x(2) by (simp add: state_after_def)
  have pri: "\<not> mb_priority (mm_heap m x)" using b(2) x(2) by (simp add: rb_frame_def seg_kept_def)
  define s1 where "s1 = advance_rcv_nxt p (rv_upd p (\<lambda>rv. rv\<lparr>rv_rcvbuf := b\<rparr>) (s\<lparr>qs_mem := m\<rparr>))"
  have s1: "st_rcv_nxt (qs_streams s1 p) = ?r + of_nat n" "qs_mem s1 = m" "rv_rcvbuf (rcvvar s1 p) = b"
      "rv_rcv_wnd (rcvvar s1 p) = rb_size b - rb_merged_len b" "qs_events s1 = qs_events s" "qs_stack_id s1 = qs_stack_id s"
      "qs_sockets s1 = qs_sockets s" "st_state (qs_streams s1 p) = TCP_ST_ESTABLISHED" "\<forall>q. q \<noteq> p \<longrightarrow> qs_streams s1 q = qs_streams s q"
      "watched s1 p k" "sndvar s1 p = sndvar s p" "qs_dpdk s1 = qs_dpdk s"
    using b(3) e st w by (simp_all add: s1_def advance_rcv_nxt_def stack_simps watched_def)
  note ahead = seq_ahead [OF n(2), of ?r] seq_ahead(2) [OF n(2) _ n(3,4), of ?r]
  have "process_tcp_payload ev p x ?r (int n) s = bind_r (payload_events ev p x 1 s1) (\<lambda>s4. Inr (1, s4))"
    using ahead n16 st b(1) s1(1,2) pri
    by (simp add: process_tcp_payload_def Let_def discard_after_close_def stack_simps s1_def [symmetric])
  also have "\<dots> = bind_r (raise_event ev Q_EPOLLIN 0 p s1) (\<lambda>s4. Inr (1, s4))"
    using s1(2,8) pri by (simp add: payload_events_def raise_read_event_def)
  finally show ?thesis
    using raise_event_watched [OF s1(10), of ev Q_EPOLLIN 0] s1 b(2,3,4) hi e stx by (simp add: rb_frame_def)
qed

section \<open>Acknowledgements\<close>

text \<open>The window grows whenever its arithmetic stays in range.\<close>

lemma grow_cwnd:
  assumes "sv_cwnd sv \<noteq> 0" "unat packets * unat (sv_mss sv) * unat (sv_mss sv) < 2 ^ 31"
  shows "\<exists>c. ack_grow_cwnd packets sv = Inr (sv\<lparr>sv_cwnd := c\<rparr>)"
proof -
  have "unat (sv_mss sv) * unat packets \<le> unat packets * unat (sv_mss sv) * unat (sv_mss sv)"
    by (cases "unat (sv_mss sv)") (simp_all add: algebra_simps)
  then have "unat (sv_mss sv) * unat packets < 2 ^ 31" using assms(2) by linarith
  moreover have "\<exists>c. sv = sv\<lparr>sv_cwnd := c\<rparr>" by (rule exI [of _ "sv_cwnd sv"]) simp
  ultimately show ?thesis
    using assms unfolding ack_grow_cwnd_def int_product_def by (auto simp: Let_def)
qed

definition ack_ready :: "'h qstack \<Rightarrow> ptr \<Rightarrow> u32 \<Rightarrow> ptr list \<Rightarrow> ptr list \<Rightarrow> ptr list \<Rightarrow> bool" where
  "ack_ready s p ack us qs hs \<longleftrightarrow> timer_inv s \<and> st_state (qs_streams s p) = TCP_ST_ESTABLISHED
     \<and> \<not> st_on_timewait_list (qs_streams s p)
     \<and> sb_rel (qs_mem s) (sv_sndbuf (sndvar s p)) us [] qs hs
     \<and> sb_contig (qs_mem s) (sv_sndbuf (sndvar s p)) (us @ qs) \<and> seg_bytes (qs_mem s) (us @ qs) < 2 ^ 31
     \<and> ack \<noteq> sb_head_seq (sv_sndbuf (sndvar s p)) \<and> ack \<noteq> rv_last_ack_seq (rcvvar s p)
     \<and> unat (ack - sb_head_seq (sv_sndbuf (sndvar s p))) \<le> unat (st_snd_nxt (qs_streams s p) - sb_head_seq (sv_sndbuf (sndvar s p)))
     \<and> unat (st_snd_nxt (qs_streams s p) - sb_head_seq (sv_sndbuf (sndvar s p))) \<le> unat (sb_len (sv_sndbuf (sndvar s p)))
     \<and> sv_wscale_peer (sndvar s p) < 32 \<and> sv_eff_mss (sndvar s p) \<noteq> 0 \<and> sv_cwnd (sndvar s p) \<noteq> 0
     \<and> (unat (ack - sb_head_seq (sv_sndbuf (sndvar s p))) div unat (sv_eff_mss (sndvar s p)))
         * unat (sv_mss (sndvar s p)) * unat (sv_mss (sndvar s p)) < 2 ^ 31"

lemma unat_ack_packets:
  assumes "e \<noteq> 0"
  shows "unat (ack_packets r e) \<le> unat r div unat e"
proof -
  have e: "unat (ucast e :: u32) = unat e" by (rule unat_ucast16)
  have d: "unat (r div ucast e) = unat r div unat e" by (simp add: unat_div e)
  have "unat (r div ucast e) * unat (ucast e :: u32) \<le> unat r" by (simp add: d e)
  then have "(r div ucast e) * ucast e \<le> r"
    by (simp add: word_le_nat_alt unat_word_ariths(2))
  then have "ack_packets r e = ucast (r div ucast e)" by (simp add: ack_packets_def Let_def not_less)
  then show ?thesis by (simp add: d [symmetric] unsigned_ucast_eq take_bit_eq_mod)
qed

lemma rto_restart:
  assumes "timer_inv s" "\<not> st_on_timewait_list (qs_streams s p)"
  shows "\<exists>s'. rto_list_update p ts s = Inr s' \<and> timer_inv s' \<and> qs_rto_list s' = remove1 p (qs_rto_list s) @ [p]"
proof -
  obtain r s1 where s1: "rto_list_remove p s = Inr (r, s1)" "timer_inv s1" "qs_rto_list s1 = remove1 p (qs_rto_list s)"
      "st_on_rto_idx (qs_streams s1 p) = 0" "st_on_timewait_list (qs_streams s1 p) = st_on_timewait_list (qs_streams s p)"
    using rto_list_remove_inv [OF assms(1), of p] by blast
  show ?thesis
    using s1 assms(2) rto_list_add_inv [OF s1(2), of p ts]
    by (simp add: rto_list_update_def) (simp add: rto_list_add_def Let_def stack_simps)
qed

lemma ack_release_spec:
  fixes s :: "'h qstack"
  assumes inv: "timer_inv s" "\<not> st_on_timewait_list (qs_streams s p)"
    and rel: "sb_rel (qs_mem s) (sv_sndbuf sv) us [] qs hs"
    and contig: "sb_contig (qs_mem s) (sv_sndbuf sv) (us @ qs)" "seg_bytes (qs_mem s) (us @ qs) < 2 ^ 31"
      "unat (a - sb_head_seq (sv_sndbuf sv)) < 2 ^ 31"
  shows "\<exists>s'. ack_release p ts a sv s = Inr s' \<and> timer_inv s' \<and> sv_snd_una (sndvar s' p) = a
    \<and> sb_rel (qs_mem s') (sv_sndbuf (sndvar s' p)) (dropWhile (acked (qs_mem s) a) us) [] qs hs
    \<and> sb_contig (qs_mem s') (sv_sndbuf (sndvar s' p)) (dropWhile (acked (qs_mem s) a) us @ qs)
    \<and> mm_released (qs_mem s') = mm_released (qs_mem s) @ map (Pair (qs_stack_id s)) (filter (acked (qs_mem s) a) us)
    \<and> st_snd_nxt (qs_streams s' p) = st_snd_nxt (qs_streams s p)
    \<and> qs_rto_list s' = remove1 p (qs_rto_list s) @ (if st_snd_nxt (qs_streams s p) = a then [] else [p])"
proof -
  obtain b m where b: "sb_remove_acked (qs_stack_id s) (sv_sndbuf sv) a (qs_mem s) = Inr (SUCCESS, b, m)"
      "sb_rel m b (dropWhile (acked (qs_mem s) a) us) [] qs hs" "sb_contig m b (dropWhile (acked (qs_mem s) a) us @ qs)"
      "mm_released m = mm_released (qs_mem s) @ map (Pair (qs_stack_id s)) (filter (acked (qs_mem s) a) us)"
    using sb_acked_exact [OF rel, of a "qs_stack_id s"] contig by auto
  define s1 where "s1 = sv_upd p (\<lambda>_. sv\<lparr>sv_sndbuf := b, sv_snd_una := a, sv_snd_wnd := sb_size b - sb_len b\<rparr>) (s\<lparr>qs_mem := m\<rparr>)"
  have "same_timers s s1" by (simp add: s1_def same_timers_def stack_simps)
  then have i1: "timer_inv s1" using inv(1) by (simp add: timer_inv_same)
  have s1: "qs_rto_list s1 = qs_rto_list s" "st_snd_nxt (qs_streams s1 p) = st_snd_nxt (qs_streams s p)"
      "qs_mem s1 = m" "sv_sndbuf (sndvar s1 p) = b" "sv_snd_una (sndvar s1 p) = a"
      "\<not> st_on_timewait_list (qs_streams s1 p)"
    using inv(2) by (simp_all add: s1_def stack_simps)
  have eq: "ack_release p ts a sv s = (if st_snd_nxt (qs_streams s p) = a
      then bind_r (rto_list_remove p s1) (\<lambda>(_, s2). Inr s2) else rto_list_update p ts s1)"
    using b(1) s1(2) by (simp add: ack_release_def s1_def Let_def)
  have "\<exists>s'. ack_release p ts a sv s = Inr s' \<and> timer_inv s' \<and> timer_frame s1 s'
      \<and> qs_rto_list s' = remove1 p (qs_rto_list s) @ (if st_snd_nxt (qs_streams s p) = a then [] else [p])"
    using eq s1(1) rto_list_remove_inv [OF i1, of p] rto_restart [OF i1 s1(6), of ts] timer_frame_ops(2) [of p s1]
      timer_frame_update(2) [of p ts s1] by (cases "st_snd_nxt (qs_streams s p) = a") fastforce+
  then obtain s' where s': "ack_release p ts a sv s = Inr s'" "timer_inv s'" "timer_frame s1 s'"
      "qs_rto_list s' = remove1 p (qs_rto_list s) @ (if st_snd_nxt (qs_streams s p) = a then [] else [p])" by blast
  have f: "sv_snd_una (sndvar s' p) = a" "sv_sndbuf (sndvar s' p) = b" "qs_mem s' = m"
      "st_snd_nxt (qs_streams s' p) = st_snd_nxt (qs_streams s p)"
    using timer_frame_field [OF s'(3), of "\<lambda>st. sv_snd_una (st_sndvar st)" p] timer_frameD(4,10) [OF s'(3)]
      timer_frame_field [OF s'(3), of st_snd_nxt p] s1 by (simp_all add: no_timer_fields_def)
  show ?thesis using s' f b by auto
qed

text \<open>The steps before the acknowledged data is released leave timers, buffers and memory alone.\<close>

definition ack_prepared :: "ptr \<Rightarrow> u32 \<Rightarrow> u32 \<Rightarrow> u32 \<Rightarrow> 'h qstack \<Rightarrow> 'h qstack" where
  "ack_prepared p w seq ack s = ack_count_dup p False ack (ack_update_window p w seq ack s)"

lemma ack_prepared_kept:
  "same_timers s (ack_prepared p w seq ack s)" "qs_mem (ack_prepared p w seq ack s) = qs_mem s"
  "qs_stack_id (ack_prepared p w seq ack s) = qs_stack_id s"
  "sndvar (ack_prepared p w seq ack s) p = (sndvar s p)\<lparr>sv_peer_wnd := sv_peer_wnd (sndvar (ack_prepared p w seq ack s) p)\<rparr>"
  "st_state (qs_streams (ack_prepared p w seq ack s) p) = st_state (qs_streams s p)"
  "st_snd_nxt (qs_streams (ack_prepared p w seq ack s) p) = st_snd_nxt (qs_streams s p)"
  "st_on_timewait_list (qs_streams (ack_prepared p w seq ack s) p) = st_on_timewait_list (qs_streams s p)"
  "qs_rto_list (ack_prepared p w seq ack s) = qs_rto_list s"
  "rv_dup_acks (rcvvar (ack_prepared p w seq ack s) p) = 0"
  by (simp_all add: ack_prepared_def ack_count_dup_def ack_update_window_def same_timers_def Let_def stack_simps)

lemma ack_frees:
  fixes s :: "'h qstack"
  assumes r: "ack_ready s p ack us qs hs" and th: "\<not> th_syn th"
  shows "\<exists>s'. process_tcp_ack p ts th seq ack w n s = Inr s' \<and> timer_inv s' \<and> sv_snd_una (sndvar s' p) = ack
    \<and> sb_rel (qs_mem s') (sv_sndbuf (sndvar s' p)) (dropWhile (acked (qs_mem s) ack) us) [] qs hs
    \<and> sb_contig (qs_mem s') (sv_sndbuf (sndvar s' p)) (dropWhile (acked (qs_mem s) ack) us @ qs)
    \<and> mm_released (qs_mem s') = mm_released (qs_mem s) @ map (Pair (qs_stack_id s)) (filter (acked (qs_mem s) ack) us)
    \<and> st_snd_nxt (qs_streams s' p) = st_snd_nxt (qs_streams s p)
    \<and> qs_rto_list s' = remove1 p (qs_rto_list s) @ (if st_snd_nxt (qs_streams s p) = ack then [] else [p])"
proof -
  note r = r [unfolded ack_ready_def]
  let ?b = "sv_sndbuf (sndvar s p)" and ?h = "sb_head_seq (sv_sndbuf (sndvar s p))" and ?nx = "st_snd_nxt (qs_streams s p)"
  have len: "unat (sb_len ?b) = seg_bytes (qs_mem s) (us @ qs)"
    using seg_chain_bytes [of "qs_mem s" ?h "us @ qs" "sb_next_seq ?b"] r unat_of_nat_u32 [of "seg_bytes (qs_mem s) (us @ qs)"]
    by (simp add: sb_contig_def sb_len_def del: seg_bytes_simps)
  have small: "unat (ack - ?h) < 2 ^ 31" "unat (?nx - ?h) < 2 ^ 31" "unat (sb_len ?b) < 2 ^ 31"
    using r len by linarith+
  have cmp: "\<not> TCP_SEQ_GT ack (?h + sb_len ?b)" "\<not> TCP_SEQ_GT ack ?nx" "\<not> TCP_SEQ_GEQ ?h ack" "ack - ?h > 0"
  proof -
    show "\<not> TCP_SEQ_GT ack (?h + sb_len ?b)" using small r by (simp add: seq_window_simps(3) [where base = ?h])
    show "\<not> TCP_SEQ_GT ack ?nx" using small r by (simp add: seq_window_simps(3) [where base = ?h])
    show "\<not> TCP_SEQ_GEQ ?h ack" "ack - ?h > 0"
      using small(1) r by (simp_all add: seq_window_simps(4) [where base = ?h] unat_gt_0 word_gt_0)
  qed
  define wd where "wd = push_bit (unat (sv_wscale_peer (sndvar s p))) (ucast w :: u32)"
  define s2 where "s2 = ack_prepared p wd seq ack s"
  note k = ack_prepared_kept [where s = s and p = p and w = wd and seq = seq and ack = ack, folded s2_def]
  have sv: "sv_sndbuf (sndvar s2 p) = ?b" "sv_eff_mss (sndvar s2 p) = sv_eff_mss (sndvar s p)"
      "sv_mss (sndvar s2 p) = sv_mss (sndvar s p)" "sv_cwnd (sndvar s2 p) = sv_cwnd (sndvar s p)"
    using arg_cong [OF k(4), of sv_sndbuf] arg_cong [OF k(4), of sv_eff_mss] arg_cong [OF k(4), of sv_mss]
      arg_cong [OF k(4), of sv_cwnd] by simp_all
  have dup: "\<not> ack_is_dup p e ack n (ack_update_window p wd seq ack s)" for e
    using r by (simp add: ack_is_dup_def ack_update_window_def Let_def stack_simps)
  have "\<not> 32 \<le> sv_wscale_peer (sndvar s p)" using r by (simp add: not_le)
  then have "process_tcp_ack p ts th seq ack w n s = bind_r (ack_congestion p False ack s2) (ack_finish p ts ack)"
    using th r cmp(1) dup unfolding process_tcp_ack_def
    by (simp add: Let_def data_ack_def closing_state_def wd_def [symmetric] s2_def ack_prepared_def)
  also have "\<dots> = ack_new_data p ts ack s2"
    using k(6,9) cmp sv(1) by (simp add: ack_congestion_def ack_finish_def ack_recover_def)
  also obtain c where "\<dots> = ack_release p ts ack ((sndvar s2 p)\<lparr>sv_cwnd := c\<rparr>) s2"
  proof -
    have "unat (ack_packets (ack - ?h) (sv_eff_mss (sndvar s p))) * unat (sv_mss (sndvar s p)) * unat (sv_mss (sndvar s p)) < 2 ^ 31"
      using r unat_ack_packets [of "sv_eff_mss (sndvar s p)" "ack - ?h"] by (meson le_less_trans mult_le_mono1)
    then obtain c where "ack_grow_cwnd (ack_packets (ack - ?h) (sv_eff_mss (sndvar s2 p))) (sndvar s2 p) = Inr ((sndvar s2 p)\<lparr>sv_cwnd := c\<rparr>)"
      using grow_cwnd [of "sndvar s2 p"] sv r by auto
    then show ?thesis
      using that [of c] r cmp(4) k(5) sv by (simp add: ack_new_data_def Let_def less_eq_tcp_state_def)
  qed
  finally have eq: "process_tcp_ack p ts th seq ack w n s = ack_release p ts ack ((sndvar s2 p)\<lparr>sv_cwnd := c\<rparr>) s2" .
  have "timer_inv s2" "\<not> st_on_timewait_list (qs_streams s2 p)" using r k(1,7) by (simp_all add: timer_inv_same)
  from ack_release_spec [OF this, of "(sndvar s2 p)\<lparr>sv_cwnd := c\<rparr>" us qs hs ack ts] show ?thesis
    unfolding eq using r k(2,3,6,8) sv(1) small(1) by simp
qed

section \<open>Main properties\<close>

text \<open>
  C11 (functional). On an established connection whose socket the application watches, a segment
  of low priority that is the next in sequence and fits the window is taken: it joins the data
  waiting in the receive buffer as its last segment, the next expected number moves behind it, the
  advertised window becomes the free space of the buffer, one read event for the connection goes to
  its application, and no other stream changes.
\<close>

theorem data_in_order_delivered:
  assumes "st_state (qs_streams s p) = TCP_ST_ESTABLISHED" "watched s p k"
    "rb_rel (qs_mem s) (rv_rcvbuf (rcvvar s p)) ms [] hs" "length ms < 7"
    "st_rcv_nxt (qs_streams s p) = rb_merged_next (rv_rcvbuf (rcvvar s p))"
    "x \<noteq> NULL" "\<not> mb_priority (mbuf_at s x)" "seg_seq (qs_mem s) x = st_rcv_nxt (qs_streams s p)"
    "n = unat (mb_payload_len (mbuf_at s x))" "0 < n" "n \<le> unat (rv_rcv_wnd (rcvvar s p))"
    "unat (rv_rcv_wnd (rcvvar s p)) < 2 ^ 31"
    "\<not> TCP_SEQ_GT (seg_end (qs_mem s) x) (rb_head_seq (rv_rcvbuf (rcvvar s p)) + rb_size (rv_rcvbuf (rcvvar s p)))"
  shows "\<exists>s'. process_tcp_payload ev p x (st_rcv_nxt (qs_streams s p)) (int n) s = Inr (1, s')
    \<and> st_rcv_nxt (qs_streams s' p) = st_rcv_nxt (qs_streams s p) + of_nat n
    \<and> rb_rel (qs_mem s') (rv_rcvbuf (rcvvar s' p)) (ms @ [x]) [] hs
    \<and> rb_merged_next (rv_rcvbuf (rcvvar s' p)) = st_rcv_nxt (qs_streams s' p)
    \<and> rv_rcv_wnd (rcvvar s' p) = rb_size (rv_rcvbuf (rcvvar s' p)) - rb_merged_len (rv_rcvbuf (rcvvar s' p))
    \<and> qs_events s' = qs_events s @ [(Q_EPOLLIN, CreateQevent 0 (qs_stack_id s) k
        (unat (so_default_app (tb_sockets (qs_sockets s) k))) Q_READ)]
    \<and> (\<forall>q. q \<noteq> p \<longrightarrow> qs_streams s' q = qs_streams s q) \<and> mm_released (qs_mem s') = mm_released (qs_mem s)"
  using payload_in_order [OF assms, of ev] by blast

definition stack7 :: "(ipv4_5tuple \<Rightarrow> ptr option) qstack" where
  "stack7 = stack1\<lparr>qs_streams := (qs_streams stack1)(1 := stream1\<lparr>st_id := 2, st_rcv_nxt := 78\<rparr>),
     qs_mem := \<lparr>mm_heap = (\<lambda>_. mbuf0\<lparr>mb_tcp_seq := 78, mb_payload_len := 5\<rparr>), mm_released = [], mm_count = 9\<rparr>,
     qs_sockets := (qs_sockets stack1)\<lparr>tb_sockets := (\<lambda>_. socket0\<lparr>so_default_app := 3, so_qe := 8, so_stream := 1\<rparr>)\<rparr>\<rparr>"

theorem data_in_order_delivered_witness:
  "\<exists>s'. process_tcp_payload env0 1 6 78 5 stack7 = Inr (1, s') \<and> st_rcv_nxt (qs_streams s' 1) = 83
     \<and> cirq_list (rb_merged_q (rv_rcvbuf (rcvvar s' 1))) = [6]"
proof -
  have b: "rv_rcvbuf (rcvvar stack7 1) = rb_init 8 (rv_rcvbuf (st_rcvvar zero_stream)) 78"
    by (simp add: stack7_def stream1_def init_rcvvar_def)
  have rel: "rb_rel (qs_mem stack7) (rv_rcvbuf (rcvvar stack7 1)) [] [] []" unfolding b by (rule init_buffers(3))
  have w: "watched stack7 1 2" by (simp add: watched_def stack7_def stream1_def)
  have st: "st_state (qs_streams stack7 1) = TCP_ST_ESTABLISHED" "st_rcv_nxt (qs_streams stack7 1) = 78"
      "rv_rcv_wnd (rcvvar stack7 1) = 14600" "mbuf_at stack7 6 = mbuf0\<lparr>mb_tcp_seq := 78, mb_payload_len := 5\<rparr>"
    by (simp_all add: stack7_def stream1_def init_rcvvar_def TCP_INITIAL_WINDOW_def)
  have room: "\<not> TCP_SEQ_GT (seg_end (qs_mem stack7) 6) (rb_head_seq (rv_rcvbuf (rcvvar stack7 1)) + rb_size (rv_rcvbuf (rcvvar stack7 1)))"
    unfolding b by (simp add: seg_end_def st(4) rb_init_def seq_defs)
  have nxt: "st_rcv_nxt (qs_streams stack7 1) = rb_merged_next (rv_rcvbuf (rcvvar stack7 1))"
    unfolding b st(2) by (simp add: rb_init_def)
  have h: "(6 :: ptr) \<noteq> NULL" "\<not> mb_priority (mbuf_at stack7 6)" "seg_seq (qs_mem stack7) 6 = st_rcv_nxt (qs_streams stack7 1)"
      "5 = unat (mb_payload_len (mbuf_at stack7 6))" "(0 :: nat) < 5"
      "5 \<le> unat (rv_rcv_wnd (rcvvar stack7 1))" "unat (rv_rcv_wnd (rcvvar stack7 1)) < 2 ^ 31"
    by (simp_all add: st(2-4) [unfolded One_nat_def] seg_seq_def mbuf0_def)
  obtain s' where s': "process_tcp_payload env0 1 6 78 (int 5) stack7 = Inr (1, s')"
      "st_rcv_nxt (qs_streams s' 1) = 78 + of_nat 5"
      "rb_rel (qs_mem s') (rv_rcvbuf (rcvvar s' 1)) ([] @ [6]) [] []"
    using data_in_order_delivered [OF st(1) w rel _ nxt h room, of env0] unfolding st(2) by fastforce
  have "cirq_list (rb_merged_q (rv_rcvbuf (rcvvar s' 1))) = [] @ [6]" using s'(3) unfolding rb_rel_def by blast
  then show ?thesis using s'(1,2) by (intro exI [of _ s']) simp
qed

text \<open>
  C12 (functional). An acknowledgement of new data within what was sent, on an established
  connection without pending retransmissions, is processed without a fault: it frees exactly the
  segments it covers, in order and once each, keeps the rest of the buffer contiguous, records the
  number, and restarts the retransmission timer if data is still outstanding or stops it if not.
  The premises on the window arithmetic say which values of the peer's options the code can stand.
\<close>

theorem ack_frees_acknowledged:
  assumes "ack_ready s p ack us qs hs" "\<not> th_syn th"
  shows "\<exists>s'. process_tcp_ack p ts th seq ack w n s = Inr s' \<and> timer_inv s' \<and> sv_snd_una (sndvar s' p) = ack
    \<and> sb_rel (qs_mem s') (sv_sndbuf (sndvar s' p)) (dropWhile (acked (qs_mem s) ack) us) [] qs hs
    \<and> sb_contig (qs_mem s') (sv_sndbuf (sndvar s' p)) (dropWhile (acked (qs_mem s) ack) us @ qs)
    \<and> mm_released (qs_mem s') = mm_released (qs_mem s) @ map (Pair (qs_stack_id s)) (filter (acked (qs_mem s) ack) us)
    \<and> st_snd_nxt (qs_streams s' p) = st_snd_nxt (qs_streams s p)
    \<and> qs_rto_list s' = remove1 p (qs_rto_list s) @ (if st_snd_nxt (qs_streams s p) = ack then [] else [p])"
  using assms by (rule ack_frees)

definition sb_two :: tcp_send_buffer where
  "sb_two = sb0\<lparr>sb_uack_list := \<lparr>ml_head = 1, ml_tail = 2\<rparr>, sb_head_seq := 0xFFFFFF00, sb_next_seq := 0x100\<rparr>"

definition stack8 :: "(ipv4_5tuple \<Rightarrow> ptr option) qstack" where
  "stack8 = stack1\<lparr>qs_mem := mem_sent, qs_streams := (qs_streams stack1)(1 := stream1\<lparr>st_snd_nxt := 0x100,
     st_rcvvar := (st_rcvvar stream1)\<lparr>rv_last_ack_seq := 0xFFFFFF00\<rparr>,
     st_sndvar := (st_sndvar stream1)\<lparr>sv_sndbuf := sb_two, sv_cwnd := 1460\<rparr>\<rparr>)\<rparr>"

theorem ack_frees_acknowledged_witness:
  "\<exists>s'. process_tcp_ack 1 9 (mb_tcph mbuf0) 77 0 500 0 stack8 = Inr s' \<and> sv_snd_una (sndvar s' 1) = 0
     \<and> mm_released (qs_mem s') = [(0, 1)] \<and> qs_rto_list s' = [1]"
proof -
  have inv: "timer_inv stack8"
    by (simp add: timer_inv_def stack8_def stack1_def stack0_def stream1_def zero_stream_def RTO_STORAGE_def)
  have rel: "sb_rel mem_sent sb_two [1, 2] [] [] []" "sb_contig mem_sent sb_two [1, 2]"
    using sb0(1) [of mem_sent]
    by (simp_all add: sb_rel_def sb_contig_def sb_two_def mlist_def mem_sent_def seg0_def mbuf0_def mem_segs_def
        seg_seq_def seg_end_def sb0_def)
  have ak: "acked mem_sent 0 1" "\<not> acked mem_sent 0 2" "seg_bytes mem_sent [1, 2] = 512" "mm_released mem_sent = []"
    by (simp_all add: acked_def mem_sent_def seg0_def mbuf0_def mem_segs_def seg_end_def seq_defs)
  have "ack_ready stack8 1 0 [1, 2] [] []"
    using inv rel ak(3)
    by (simp add: ack_ready_def stack8_def stream1_def init_sndvar_def zero_stream_def sb_two_def sb_len_def TCP_DEFAULT_MSS_def)
  moreover have "qs_mem stack8 = mem_sent" "qs_rto_list stack8 = [1]" "qs_stack_id stack8 = 0"
      "st_snd_nxt (qs_streams stack8 1) = 0x100" "\<not> th_syn (mb_tcph mbuf0)"
    by (simp_all add: stack8_def stack1_def stack0_def mbuf0_def)
  ultimately show ?thesis
    using ack_frees_acknowledged [of stack8 1 0 "[1, 2]" "[]" "[]" "mb_tcph mbuf0" 9 77 500 0] ak by auto
qed

end
