(* ===== verification/Frame_In.thy ===== *)
theory Frame_In
  imports Driver Arp Tcp_Data
begin

text \<open>
  The way of a frame up to TCP and ARP: \<^verbatim>\<open>eth_in.h\<close> and \<^verbatim>\<open>ip_in.h\<close>. The checksum of
  the IP header is left to the network card.
\<close>

section \<open>Operations\<close>

definition process_ipv4_packet :: "'h env \<Rightarrow> u32 \<Rightarrow> ptr \<Rightarrow> 'h qstack \<Rightarrow> (int \<times> 'h qstack) result" where
  "process_ipv4_packet ev cur_ts mbuf s =
     (let iph = mb_iph (mbuf_at s mbuf);
          ip_len = uint (ntohs (ip_tot_len iph));
          s1 = mem_upd mbuf (\<lambda>mb. mb\<lparr>mb_tx_offload := set_l3_len (of_nat IP_HEADER_LEN) (mb_tx_offload mb)\<rparr>) s
      in if ip_ihl iph \<noteq> IP_HEADER_LEN div 4 then Inl Exit0
         else if ip_version iph \<noteq> 4 then Inr (FAILED, s1)
         else if ip_protocol iph = IPPROTO_TCP then process_tcp_packet ev cur_ts mbuf ip_len s1
         else Inr (FAILED, s1))"

definition for_me :: "'h env \<Rightarrow> ethhdr \<Rightarrow> bool" where
  "for_me ev ethh \<longleftrightarrow> (\<forall>i\<in>set [0..<ETH_ALEN]. eth_dest ethh ! i = ev_haddr ev ! i)"

definition process_eth_packet :: "'h env \<Rightarrow> nat \<Rightarrow> u32 \<Rightarrow> ptr \<Rightarrow> 'h qstack \<Rightarrow> (int \<times> 'h qstack) result" where
  "process_eth_packet ev ifidx cur_ts mbuf s =
     (let ethh = mb_eth (mbuf_at s mbuf);
          ip_proto = ntohs (eth_proto ethh);
          s1 = mem_upd mbuf (\<lambda>mb. mb\<lparr>mb_state := MBUF_STATE_RCVED,
                 mb_tx_offload := set_l2_len (of_nat ETHERNET_HEADER_LEN) (mb_tx_offload mb)\<rparr>) s
      in if ip_proto = ETH_P_IP
         then if \<not> for_me ev ethh then Inr (FAILED, s1) else process_ipv4_packet ev cur_ts mbuf s1
         else if ip_proto = ETH_P_ARP
         then bind_r (process_arp_packet ev ifidx cur_ts mbuf s1) (\<lambda>(_, s2). Inr (TRUE, s2))
         else Inr (FAILED, s1))"

end
