(* ===== verification/Api.thy ===== *)
theory Api
  imports Tcp_Data
begin

text \<open>
  The calls of the applications: \<^verbatim>\<open>api.c\<close>, \<^verbatim>\<open>api_inner.c\<close> and the table of listeners of
  \<^verbatim>\<open>socket.c\<close>. The model has one stack thread and the calls of the applications on its sockets
  and streams; \<^verbatim>\<open>errno\<close> is a field of the state. A listener is named by its address. The members
  \<^verbatim>\<open>stream\<close> and \<^verbatim>\<open>listener\<close> of a socket share their storage, which is the field
  \<open>so_stream\<close>: reading a stream through the socket of a listener reads memory of another type. The
  hash \<^verbatim>\<open>rte_softrss\<close> of DPDK by which \<^verbatim>\<open>q_connect\<close> finds the stack of a connection is a
  parameter.
\<close>

section \<open>State\<close>

record qapp =
  qa_app_id :: nat
  qa_core_id :: nat

record 'h api =
  ap_stack :: "'h qstack"
  ap_listeners :: "ptr list"
  ap_listener_pool :: "ptr list"
  ap_connect_queue :: "nat \<Rightarrow> n21_queue"
  ap_errno :: int

record sockaddr =
  sa_family :: u16
  sin_addr :: u32
  sin_port :: u16

definition AF_INET :: u16 where "AF_INET = 2"
definition SOCKADDR_LEN :: nat where "SOCKADDR_LEN = 16"
definition SOCK_OPT_ADDR_BIND :: u32 where "SOCK_OPT_ADDR_BIND = 2"
definition MAX_SOCKET_NUM :: nat where "MAX_SOCKET_NUM = 14000000"
definition MAX_SERVER_NUM :: nat where "MAX_SERVER_NUM = 20"
definition INADDR_ANY :: u32 where "INADDR_ANY = 0"
definition INPORT_ANY :: u16 where "INPORT_ANY = 0"

definition EBADF :: int where "EBADF = 9"
definition EAGAIN :: int where "EAGAIN = 11"
definition EFAULT :: int where "EFAULT = 14"
definition ENFILE :: int where "ENFILE = 23"
definition ENOTSOCK :: int where "ENOTSOCK = 88"
definition EAFNOSUPPORT :: int where "EAFNOSUPPORT = 97"
definition EADDRINUSE :: int where "EADDRINUSE = 98"
definition EISCONN :: int where "EISCONN = 106"
definition ENOTCONN :: int where "ENOTCONN = 107"
definition EALREADY :: int where "EALREADY = 114"
definition EINPROGRESS :: int where "EINPROGRESS = 115"

lemmas api_errno = EBADF_def EAGAIN_def EFAULT_def ENFILE_def ENOTSOCK_def EAFNOSUPPORT_def EADDRINUSE_def
  EISCONN_def ENOTCONN_def EALREADY_def EINPROGRESS_def EINVAL_def

abbreviation api_socket :: "'h api \<Rightarrow> int \<Rightarrow> socket" where
  "api_socket a k \<equiv> tb_sockets (qs_sockets (ap_stack a)) (nat k)"

definition fail :: "int \<Rightarrow> 'h api \<Rightarrow> int \<times> 'h api" where
  "fail e a = (- 1, a\<lparr>ap_errno := e\<rparr>)"

definition stack_upd :: "('h qstack \<Rightarrow> 'h qstack) \<Rightarrow> 'h api \<Rightarrow> 'h api" where
  "stack_upd f a = a\<lparr>ap_stack := f (ap_stack a)\<rparr>"

definition socket_upd :: "int \<Rightarrow> (socket \<Rightarrow> socket) \<Rightarrow> 'h api \<Rightarrow> 'h api" where
  "socket_upd k f = stack_upd (\<lambda>s. s\<lparr>qs_sockets := (qs_sockets s)\<lparr>tb_sockets :=
     (tb_sockets (qs_sockets s))(nat k := f (tb_sockets (qs_sockets s) (nat k)))\<rparr>\<rparr>)"

definition sock_range :: "'h env \<Rightarrow> int \<Rightarrow> bool" where
  "sock_range ev k \<longleftrightarrow> 0 \<le> k \<and> k < int (ev_max_concurrency ev)"

text \<open>The stream behind a socket, for the calls that do not look at the type of the socket.\<close>

definition sock_stream :: "'h api \<Rightarrow> int \<Rightarrow> ptr result" where
  "sock_stream a k =
     (if so_socktype (api_socket a k) = SOCK_TYPE_LISTENER \<and> so_stream (api_socket a k) \<noteq> NULL then Inl Undefined
      else Inr (so_stream (api_socket a k)))"

section \<open>Sockets\<close>

definition get_sock_pool_map :: "qapp \<Rightarrow> nat" where
  "get_sock_pool_map app = 0"

definition q_socket :: "'h env \<Rightarrow> qapp \<Rightarrow> u16 \<Rightarrow> int \<Rightarrow> 'h api \<Rightarrow> int \<times> 'h api" where
  "q_socket ev app domain type a =
     (if domain \<noteq> AF_INET then fail EAFNOSUPPORT a
      else if type \<noteq> 1 then fail EINVAL a
      else case socket_alloc (ev_stack_thread ev) (get_sock_pool_map app) SOCK_TYPE_STREAM (qs_sockets (ap_stack a)) of
             (None, t) \<Rightarrow> fail ENFILE (stack_upd (\<lambda>s. s\<lparr>qs_sockets := t\<rparr>) a)
           | (Some k, t) \<Rightarrow> (int k, socket_upd (int k) (\<lambda>so. so\<lparr>so_default_app := of_nat (qa_app_id app)\<rparr>)
               (stack_upd (\<lambda>s. s\<lparr>qs_sockets := t\<rparr>) a)))"

definition q_bind :: "'h env \<Rightarrow> int \<Rightarrow> sockaddr option \<Rightarrow> nat \<Rightarrow> 'h api \<Rightarrow> int \<times> 'h api" where
  "q_bind ev sockid addr addrlen a =
     (if \<not> sock_range ev sockid then fail EBADF a
      else let so = api_socket a sockid
           in if so_socktype so = SOCK_TYPE_UNUSED then fail EBADF a
              else if so_socktype so \<noteq> SOCK_TYPE_STREAM \<and> so_socktype so \<noteq> SOCK_TYPE_LISTENER then fail ENOTSOCK a
              else case addr of
                     None \<Rightarrow> fail EINVAL a
                   | Some ad \<Rightarrow>
                       if so_opts so AND SOCK_OPT_ADDR_BIND \<noteq> 0 then fail EINVAL a
                       else if sa_family ad \<noteq> AF_INET \<or> addrlen < SOCKADDR_LEN then fail EINVAL a
                       else (0, socket_upd sockid (\<lambda>so. so\<lparr>so_saddr := (sin_addr ad, sin_port ad),
                                  so_opts := so_opts so OR SOCK_OPT_ADDR_BIND\<rparr>) a))"

section \<open>Listening and accepting\<close>

text \<open>The port of a listener is that of its socket.\<close>

fun listeners_search :: "'h qstack \<Rightarrow> ptr list \<Rightarrow> u16 \<Rightarrow> ptr result" where
  "listeners_search s [] port = Inr NULL"
| "listeners_search s (l # ls) port =
     (case ls_socket (qs_listener s l) of
        None \<Rightarrow> Inl Undefined
      | Some k \<Rightarrow> if snd (so_saddr (tb_sockets (qs_sockets s) k)) = port then Inr l else listeners_search s ls port)"

text \<open>The stack threads use the first entry of the table.\<close>

definition listeners_insert :: "ptr \<Rightarrow> 'h api \<Rightarrow> int \<times> 'h api" where
  "listeners_insert l a =
     (if length (ap_listeners a) < MAX_SOCKET_NUM
      then (SUCCESS, stack_upd (\<lambda>s. if ap_listeners a = [] then s\<lparr>qs_listener0 := Some l\<rparr> else s)
                       (a\<lparr>ap_listeners := ap_listeners a @ [l]\<rparr>))
      else (FAILED, a))"

definition listeners_remove :: "ptr \<Rightarrow> 'h api \<Rightarrow> (int \<times> 'h api) result" where
  "listeners_remove l a = Inl Exit0"

definition listener_init :: "'h env \<Rightarrow> int \<Rightarrow> int \<Rightarrow> 'h qstack \<Rightarrow> tcp_listener \<Rightarrow> tcp_listener" where
  "listener_init ev sockid backlog s l =
     l\<lparr>ls_sockid := nat sockid, ls_socket := Some (nat sockid),
       ls_port := ntohs (snd (so_saddr (tb_sockets (qs_sockets s) (nat sockid)))),
       ls_acceptq := (\<lambda>i. if i < ev_app_thread ev
                          then streamq_init (ls_acceptq l i) (of_nat (ev_stack_thread ev)) (word_of_int backlog)
                          else ls_acceptq l i)\<rparr>"

text \<open>The part of \<^verbatim>\<open>q_listen\<close> behind its checks. \<open>app\<close> is only read when the table is full.\<close>

definition listen_start :: "'h env \<Rightarrow> qapp option \<Rightarrow> int \<Rightarrow> int \<Rightarrow> 'h api \<Rightarrow> (int \<times> 'h api) result" where
  "listen_start ev app sockid backlog a =
     (case ap_listener_pool a of
        [] \<Rightarrow> Inr (- 1, a)
      | l # ls \<Rightarrow>
          if ev_app_thread ev > MAX_SERVER_NUM then Inl Undefined
          else let a1 = stack_upd (\<lambda>s. s\<lparr>qs_listener := (qs_listener s)(l := listener_init ev sockid backlog s (qs_listener s l))\<rparr>)
                          (a\<lparr>ap_listener_pool := ls\<rparr>);
                   a2 = socket_upd sockid (\<lambda>so. so\<lparr>so_epoll := so_epoll so OR Q_EPOLLIN, so_stream := l\<rparr>) a1;
                   (ret, a3) = listeners_insert l a2
               in if ret \<noteq> SUCCESS
                  then case app of None \<Rightarrow> Inl Undefined
                       | Some _ \<Rightarrow> Inr (- 1, a3\<lparr>ap_listener_pool := ap_listener_pool a3 @ [l]\<rparr>)
                  else Inr (0, a3))"

definition q_listen :: "'h env \<Rightarrow> qapp option \<Rightarrow> int \<Rightarrow> int \<Rightarrow> 'h api \<Rightarrow> (int \<times> 'h api) result" where
  "q_listen ev app sockid backlog a =
     (if \<not> sock_range ev sockid then Inr (fail EBADF a)
      else if so_socktype (api_socket a sockid) = SOCK_TYPE_UNUSED then Inr (fail EBADF a)
      else let a1 = (if so_socktype (api_socket a sockid) = SOCK_TYPE_STREAM
                     then socket_upd sockid (\<lambda>so. so\<lparr>so_socktype := SOCK_TYPE_LISTENER\<rparr>) a else a)
           in if so_socktype (api_socket a1 sockid) \<noteq> SOCK_TYPE_LISTENER then Inr (fail ENOTSOCK a1)
              else if backlog \<le> 0 \<or> backlog > int (ev_max_concurrency ev) then Inr (fail EINVAL a1)
              else bind_r (listeners_search (ap_stack a1) (ap_listeners a1) (snd (so_saddr (api_socket a1 sockid)))) (\<lambda>found.
                     if found \<noteq> NULL then Inr (fail EADDRINUSE a1) else listen_start ev app sockid backlog a1))"

text \<open>The address of the peer, as it is stored in the socket and given to the caller.\<close>

definition q_accept :: "'h env \<Rightarrow> qapp \<Rightarrow> int \<Rightarrow> 'h api \<Rightarrow> (int \<times> sockaddr option \<times> 'h api) result" where
  "q_accept ev app sockid a =
     (if qa_app_id app \<ge> ev_app_thread ev then Inr (- 1, None, a\<lparr>ap_errno := EBADF\<rparr>)
      else if \<not> sock_range ev sockid then Inr (- 1, None, a\<lparr>ap_errno := EBADF\<rparr>)
      else if so_socktype (api_socket a sockid) \<noteq> SOCK_TYPE_LISTENER then Inr (- 1, None, a\<lparr>ap_errno := EINVAL\<rparr>)
      else let l = so_stream (api_socket a sockid); s = ap_stack a
           in if l = NULL then Inl Undefined
              else case streamq_dequeue (ls_acceptq (qs_listener s l) (qa_app_id app)) of
                     None \<Rightarrow> Inl Diverges
                   | Some (p, q) \<Rightarrow>
                       let a1 = stack_upd (\<lambda>s. s\<lparr>qs_listener := (qs_listener s)(l := (qs_listener s l)\<lparr>ls_acceptq :=
                                  (ls_acceptq (qs_listener s l))(qa_app_id app := q)\<rparr>)\<rparr>) a
                       in if p = NULL then Inr (- 1, None, a1\<lparr>ap_errno := EAGAIN\<rparr>)
                          else case st_socket (qs_streams s p) of
                                 None \<Rightarrow> Inr (- 1, None, a1\<lparr>ap_errno := ENFILE\<rparr>)
                               | Some k \<Rightarrow>
                                   let peer = \<lparr>sa_family = AF_INET, sin_addr = st_daddr (qs_streams s p),
                                               sin_port = st_dport (qs_streams s p)\<rparr>
                                   in Inr (int k, Some peer,
                                        stack_upd (st_upd p (\<lambda>st. st\<lparr>st_id := k\<rparr>))
                                          (socket_upd (int k) (\<lambda>so. so\<lparr>so_stream := p,
                                             so_saddr := (sin_addr peer, sin_port peer)\<rparr>) a1)))"

section \<open>Connecting\<close>

definition get_rss_core :: "'h env \<Rightarrow> (u32 \<Rightarrow> u32 \<Rightarrow> u16 \<Rightarrow> u16 \<Rightarrow> u32) \<Rightarrow> u32 \<times> u16 \<Rightarrow> u32 \<times> u16 \<Rightarrow> nat" where
  "get_rss_core ev softrss saddr daddr =
     unat (softrss (ntohl (fst daddr)) (ntohl (fst saddr)) (ntohs (snd daddr)) (ntohs (snd saddr))) mod ev_stack_thread ev"

definition connect_enqueue :: "nat \<Rightarrow> qapp \<Rightarrow> int \<Rightarrow> 'h api \<Rightarrow> int \<times> 'h api" where
  "connect_enqueue core app sockid a =
     (if core = qs_stack_id (ap_stack a)
      then let (ret, q) = streamq_enqueue (qs_connect_queue (ap_stack a)) (of_nat (qa_core_id app)) (nat sockid + 1)
           in (ret, stack_upd (\<lambda>s. s\<lparr>qs_connect_queue := q\<rparr>) a)
      else let (ret, q) = streamq_enqueue (ap_connect_queue a core) (of_nat (qa_core_id app)) (nat sockid + 1)
           in (ret, a\<lparr>ap_connect_queue := (ap_connect_queue a)(core := q)\<rparr>))"

text \<open>The connect queue holds addresses of sockets: \<open>k + 1\<close> is the address of socket \<open>k\<close>, so that
  none is null.\<close>

definition q_connect :: "'h env \<Rightarrow> (u32 \<Rightarrow> u32 \<Rightarrow> u16 \<Rightarrow> u16 \<Rightarrow> u32) \<Rightarrow> qapp \<Rightarrow> int \<Rightarrow> sockaddr option \<Rightarrow> nat \<Rightarrow>
    'h api \<Rightarrow> (int \<times> 'h api) result" where
  "q_connect ev softrss app sockid addr addrlen a =
     (if \<not> sock_range ev sockid then Inr (ERROR, a\<lparr>ap_errno := EBADF\<rparr>)
      else let so = api_socket a sockid
           in if so_socktype so = SOCK_TYPE_UNUSED then Inr (FAILED, a\<lparr>ap_errno := EBADF\<rparr>)
              else if so_socktype so \<noteq> SOCK_TYPE_STREAM then Inr (FAILED, a\<lparr>ap_errno := ENOTSOCK\<rparr>)
              else case addr of
                     None \<Rightarrow> Inr (ERROR, a\<lparr>ap_errno := EFAULT\<rparr>)
                   | Some ad \<Rightarrow>
                       if sa_family ad \<noteq> AF_INET \<or> addrlen < SOCKADDR_LEN then Inr (FAILED, a\<lparr>ap_errno := EAFNOSUPPORT\<rparr>)
                       else if so_stream so \<noteq> NULL
                       then Inr (FAILED, a\<lparr>ap_errno :=
                              (if st_state (qs_streams (ap_stack a) (so_stream so)) \<ge> TCP_ST_ESTABLISHED then EISCONN else EALREADY)\<rparr>)
                       else let a1 = socket_upd sockid (\<lambda>so. so\<lparr>so_daddr := (sin_addr ad, sin_port ad)\<rparr>) a
                            in if so_opts so AND SOCK_OPT_ADDR_BIND \<noteq> 0 \<and> snd (so_saddr so) \<noteq> INPORT_ANY
                                  \<and> fst (so_saddr so) \<noteq> INADDR_ANY
                               then let (ret, a2) = connect_enqueue
                                          (get_rss_core ev softrss (so_saddr so) (sin_addr ad, sin_port ad)) app sockid a1
                                    in if ret < 0 then Inr (FAILED, a2\<lparr>ap_errno := EAGAIN\<rparr>)
                                       else Inr (SUCCESS, a2\<lparr>ap_errno := EINPROGRESS\<rparr>)
                               else Inl Exit0)"

section \<open>Receiving, sending and closing\<close>

definition q_recv :: "'h env \<Rightarrow> qapp \<Rightarrow> int \<Rightarrow> 'h api \<Rightarrow> (ptr \<times> int \<times> 'h api) result" where
  "q_recv ev app sockid a =
     (if \<not> sock_range ev sockid then Inr (NULL, - 1, a\<lparr>ap_errno := EBADF\<rparr>)
      else bind_r (sock_stream a sockid) (\<lambda>p.
        let s = ap_stack a; state = st_state (qs_streams s p)
        in if p = NULL \<or> \<not> (TCP_ST_ESTABLISHED \<le> state \<and> state \<le> TCP_ST_CLOSE_WAIT)
           then Inr (NULL, - 1, a\<lparr>ap_errno := ENOTCONN\<rparr>)
           else if state = TCP_ST_CLOSE_WAIT \<and> rb_merged_len (rv_rcvbuf (rcvvar s p)) = 0 then Inr (NULL, 0, a)
           else bind_r (rb_get (qa_core_id app) (rv_rcvbuf (rcvvar s p)) (qs_mem s)) (\<lambda>(ret, rb, m).
                  let s1 = rv_upd p (\<lambda>rv. rv\<lparr>rv_rcvbuf := rb\<rparr>) (s\<lparr>qs_mem := m\<rparr>);
                      s2 = (if ret \<noteq> NULL then mem_upd ret (\<lambda>mb. mb\<lparr>mb_state := MBUF_STATE_RREAD\<rparr>) s1 else s1);
                      s3 = rv_upd p (\<lambda>rv. rv\<lparr>rv_rcv_wnd := rb_size (rv_rcvbuf rv) - rb_merged_len (rv_rcvbuf rv)\<rparr>) s2
                  in if ret \<noteq> NULL then Inr (ret, uint (mb_payload_len (mbuf_at s2 ret)), a\<lparr>ap_stack := s3\<rparr>)
                     else Inr (NULL, - 1, a\<lparr>ap_stack := s3, ap_errno := EAGAIN\<rparr>))))"

definition q_send :: "'h env \<Rightarrow> qapp \<Rightarrow> int \<Rightarrow> ptr \<Rightarrow> u32 \<Rightarrow> u8 \<Rightarrow> 'h api \<Rightarrow> (int \<times> 'h api) result" where
  "q_send ev app sockid mbuf len flags a =
     (if \<not> sock_range ev sockid then Inr (fail EBADF a)
      else bind_r (sock_stream a sockid) (\<lambda>p.
        if p = NULL then Inr (fail EBADF a)
        else if mbuf = NULL then Inl Undefined
        else bind_r (q_tcp_send ev (qa_core_id app) sockid mbuf len flags
               (mem_upd mbuf (\<lambda>mb. mb\<lparr>mb_priority := has_flag flags QFLAG_SEND_HIGHPRI\<rparr>) (ap_stack a))) (\<lambda>(ret, s).
               Inr (ret, a\<lparr>ap_stack := s\<rparr>))))"

definition q_free_mbuf :: "qapp \<Rightarrow> ptr \<Rightarrow> 'h qstack \<Rightarrow> 'h qstack result" where
  "q_free_mbuf app mbuf s =
     (if mbuf = NULL then Inr s
      else if mb_priority (mbuf_at s mbuf) \<and> mb_holding (mbuf_at s mbuf)
      then Inr (mem_upd mbuf (\<lambda>mb. mb\<lparr>mb_holding := False\<rparr>) s)
      else bind_r (mbuf_free (qa_core_id app) mbuf (qs_mem s)) (\<lambda>m. Inr (s\<lparr>qs_mem := m\<rparr>)))"

text \<open>The close request is queued for the stack thread; whether the queue took it is not looked at.\<close>

definition close_stream_socket :: "qapp \<Rightarrow> int \<Rightarrow> 'h api \<Rightarrow> int \<times> 'h api" where
  "close_stream_socket app sockid a =
     (let p = so_stream (api_socket a sockid); s = ap_stack a
      in if p = NULL then fail ENOTCONN a
         else if st_closed (qs_streams s p) then (0, a)
         else let s1 = st_upd p (\<lambda>st. st\<lparr>st_closed := True\<rparr>) s
              in if st_state (qs_streams s p) \<noteq> TCP_ST_ESTABLISHED \<and> st_state (qs_streams s p) \<noteq> TCP_ST_CLOSE_WAIT
                 then fail EBADF (a\<lparr>ap_stack := s1\<rparr>)
                 else let (_, q) = streamq_enqueue (qs_close_queue s1) (of_nat (qa_core_id app)) p
                      in (0, a\<lparr>ap_stack := sv_upd p (\<lambda>sv. sv\<lparr>sv_on_closeq := True\<rparr>) (s1\<lparr>qs_close_queue := q\<rparr>)\<rparr>))"

text \<open>The state of the stream is read before the stream is known to exist.\<close>

definition q_close :: "'h env \<Rightarrow> qapp \<Rightarrow> int \<Rightarrow> 'h api \<Rightarrow> (int \<times> 'h api) result" where
  "q_close ev app sockid a =
     (if \<not> sock_range ev sockid then Inr (fail EBADF a)
      else if so_socktype (api_socket a sockid) \<noteq> SOCK_TYPE_STREAM then Inr (fail EBADF a)
      else if so_stream (api_socket a sockid) = NULL then Inl Undefined
      else Inr (close_stream_socket app sockid a))"

definition FIONREAD :: int where "FIONREAD = 0x541B"

text \<open>\<open>argp\<close> tells whether there is a place for the answer, which is the last component.\<close>

definition q_socket_ioctl :: "'h env \<Rightarrow> int \<Rightarrow> int \<Rightarrow> bool \<Rightarrow> 'h api \<Rightarrow> (int \<times> u32 option \<times> 'h api) result" where
  "q_socket_ioctl ev sockid request argp a =
     (if \<not> sock_range ev sockid then Inr (- 1, None, a\<lparr>ap_errno := EBADF\<rparr>)
      else if so_socktype (api_socket a sockid) \<noteq> SOCK_TYPE_STREAM \<and> so_socktype (api_socket a sockid) \<noteq> SOCK_TYPE_LISTENER
      then Inr (- 1, None, a\<lparr>ap_errno := EBADF\<rparr>)
      else if \<not> argp then Inr (- 1, None, a\<lparr>ap_errno := EFAULT\<rparr>)
      else if request = FIONREAD
      then bind_r (sock_stream a sockid) (\<lambda>p.
             if p = NULL then Inr (- 1, None, a\<lparr>ap_errno := EBADF\<rparr>)
             else Inr (0, Some (rb_merged_len (rv_rcvbuf (rcvvar (ap_stack a) p))), a))
      else Inr (- 1, None, a\<lparr>ap_errno := EINVAL\<rparr>))"

section \<open>Listeners\<close>

lemmas api_upd = stack_upd_def socket_upd_def

definition listener_port :: "'h api \<Rightarrow> ptr \<Rightarrow> u16" where
  "listener_port a l = snd (so_saddr (tb_sockets (qs_sockets (ap_stack a)) (the (ls_socket (qs_listener (ap_stack a) l)))))"

definition has_socket :: "'h api \<Rightarrow> ptr \<Rightarrow> bool" where
  "has_socket a l \<longleftrightarrow> ls_socket (qs_listener (ap_stack a) l) \<noteq> None"

text \<open>
  The socket is that of a listener in the table although it was never bound: \<^verbatim>\<open>q_listen\<close> does not
  require a bind, and \<^verbatim>\<open>q_bind\<close> does not refuse a socket that listens.
\<close>

definition listens_unbound :: "'h api \<Rightarrow> int \<Rightarrow> bool" where
  "listens_unbound a k \<longleftrightarrow> so_opts (api_socket a k) AND SOCK_OPT_ADDR_BIND = 0
     \<and> (\<exists>l\<in>set (ap_listeners a). ls_socket (qs_listener (ap_stack a) l) = Some (nat k))"

text \<open>
  The listeners in the table have sockets, their ports are different, none is free, and the first
  is the one the stack threads use.
\<close>

definition listeners_inv :: "'h api \<Rightarrow> bool" where
  "listeners_inv a \<longleftrightarrow>
     (\<forall>l\<in>set (ap_listeners a). has_socket a l) \<and> distinct (map (listener_port a) (ap_listeners a)) \<and> distinct (ap_listener_pool a)
     \<and> set (ap_listeners a) \<inter> set (ap_listener_pool a) = {} \<and> NULL \<notin> set (ap_listeners a @ ap_listener_pool a)
     \<and> qs_listener0 (ap_stack a) = (case ap_listeners a of [] \<Rightarrow> None | l # _ \<Rightarrow> Some l)"

lemma listeners_inv_errno [simp]: "listeners_inv (a\<lparr>ap_errno := e\<rparr>) = listeners_inv a"
proof -
  have "listener_port (a\<lparr>ap_errno := e\<rparr>) = listener_port a" "has_socket (a\<lparr>ap_errno := e\<rparr>) = has_socket a"
    by (auto simp: fun_eq_iff listener_port_def has_socket_def split: option.splits)
  then show ?thesis by (simp add: listeners_inv_def)
qed

lemma listeners_search_none:
  assumes "\<forall>l\<in>set ls. ls_socket (qs_listener (ap_stack a) l) \<noteq> None" "NULL \<notin> set ls"
  shows "listeners_search (ap_stack a) ls port = Inr NULL \<longleftrightarrow> port \<notin> listener_port a ` set ls"
  using assms by (induction ls) (auto simp: listener_port_def split: option.splits)

lemma q_bind_listeners:
  assumes inv: "listeners_inv a" and free: "\<not> listens_unbound a k" and step: "q_bind ev k ad len a = (r, a')"
  shows "listeners_inv a'"
proof (cases "r = 0")
  case False
  then have "a' = a \<or> (\<exists>e. a' = a\<lparr>ap_errno := e\<rparr>)"
    using step by (auto simp: q_bind_def fail_def Let_def split: if_splits option.splits)
  then show ?thesis using inv by auto
next
  case True
  then obtain d where d: "a' = socket_upd k (\<lambda>so. so\<lparr>so_saddr := d, so_opts := so_opts so OR SOCK_OPT_ADDR_BIND\<rparr>) a"
    "so_opts (api_socket a k) AND SOCK_OPT_ADDR_BIND = 0"
    using step by (auto simp: q_bind_def fail_def Let_def split: if_splits option.splits)
  have ne: "the (ls_socket (qs_listener (ap_stack a) l)) \<noteq> nat k" if "l \<in> set (ap_listeners a)" for l
    using inv that d(2) free by (auto simp: listeners_inv_def has_socket_def listens_unbound_def)
  have port: "listener_port a' l = listener_port a l" if "l \<in> set (ap_listeners a)" for l
    using ne [OF that] by (simp add: listener_port_def d(1) api_upd)
  have bound: "has_socket a' l" if "l \<in> set (ap_listeners a)" for l
    using inv ne [OF that] that by (auto simp: listeners_inv_def has_socket_def d(1) api_upd split: option.splits)
  have same: "ap_listeners a' = ap_listeners a" "ap_listener_pool a' = ap_listener_pool a"
      "qs_listener0 (ap_stack a') = qs_listener0 (ap_stack a)"
    by (simp_all add: d(1) api_upd)
  have m: "map (listener_port a') (ap_listeners a) = map (listener_port a) (ap_listeners a)" using port by simp
  show ?thesis using inv bound unfolding listeners_inv_def same m by blast
qed

text \<open>The type of a socket does not matter to the table of listeners.\<close>

lemma listeners_inv_type: "listeners_inv (socket_upd k (\<lambda>so. so\<lparr>so_socktype := t\<rparr>) a) = listeners_inv a"
proof -
  let ?a = "socket_upd k (\<lambda>so. so\<lparr>so_socktype := t\<rparr>) a"
  have "listener_port ?a = listener_port a" "has_socket ?a = has_socket a" "ap_listeners ?a = ap_listeners a"
      "ap_listener_pool ?a = ap_listener_pool a" "qs_listener0 (ap_stack ?a) = qs_listener0 (ap_stack a)"
    by (auto simp: fun_eq_iff listener_port_def has_socket_def api_upd split: option.splits)
  then show ?thesis by (simp add: listeners_inv_def)
qed

lemma listen_start_listeners:
  assumes inv: "listeners_inv a"
    and free: "snd (so_saddr (api_socket a k)) \<notin> listener_port a ` set (ap_listeners a)"
    and step: "listen_start ev app k backlog a = Inr (r, a')"
  shows "listeners_inv a' \<and> (r = 0 \<longrightarrow> (\<exists>l. ap_listeners a' = ap_listeners a @ [l]
    \<and> listener_port a' l = snd (so_saddr (api_socket a k)) \<and> so_stream (api_socket a' k) = l))"
proof (cases "ap_listener_pool a")
  case Nil
  then show ?thesis using step inv by (simp add: listen_start_def)
next
  case (Cons l ls)
  define a2 where "a2 = socket_upd k (\<lambda>so. so\<lparr>so_epoll := so_epoll so OR Q_EPOLLIN, so_stream := l\<rparr>)
    (stack_upd (\<lambda>s. s\<lparr>qs_listener := (qs_listener s)(l := listener_init ev k backlog s (qs_listener s l))\<rparr>)
      (a\<lparr>ap_listener_pool := ls\<rparr>))"
  have old: "listener_port a2 j = listener_port a j" "has_socket a2 j = has_socket a j" if "j \<noteq> l" for j
    using that by (auto simp: a2_def api_upd listener_port_def has_socket_def split: option.splits)
  have new: "listener_port a2 l = snd (so_saddr (api_socket a k))" "has_socket a2 l"
    by (simp_all add: a2_def api_upd listener_port_def has_socket_def listener_init_def)
  have f: "ap_listeners a2 = ap_listeners a" "ap_listener_pool a2 = ls" "so_stream (api_socket a2 k) = l"
      "qs_listener0 (ap_stack a2) = qs_listener0 (ap_stack a)"
    by (simp_all add: a2_def api_upd)
  have nl: "l \<notin> set (ap_listeners a)" "l \<notin> set ls" "l \<noteq> NULL" using inv Cons by (auto simp: listeners_inv_def)
  have m: "map (listener_port a2) (ap_listeners a) = map (listener_port a) (ap_listeners a)" "\<forall>j\<in>set (ap_listeners a). has_socket a2 j"
  proof -
    have ne: "j \<noteq> l" if "j \<in> set (ap_listeners a)" for j using that nl(1) by auto
    show "map (listener_port a2) (ap_listeners a) = map (listener_port a) (ap_listeners a)" using old(1) [OF ne] by simp
    show "\<forall>j\<in>set (ap_listeners a). has_socket a2 j" using old(2) [OF ne] inv by (simp add: listeners_inv_def)
  qed
  show ?thesis
  proof (cases "length (ap_listeners a) < MAX_SOCKET_NUM")
    case True
    define a3 where "a3 = stack_upd (\<lambda>s. if ap_listeners a = [] then s\<lparr>qs_listener0 := Some l\<rparr> else s) (a2\<lparr>ap_listeners := ap_listeners a @ [l]\<rparr>)"
    have k: "listener_port a3 = listener_port a2" "has_socket a3 = has_socket a2" "ap_listeners a3 = ap_listeners a @ [l]"
        "ap_listener_pool a3 = ls" "so_stream (api_socket a3 k) = l"
        "qs_listener0 (ap_stack a3) = (if ap_listeners a = [] then Some l else qs_listener0 (ap_stack a))"
      using f by (auto simp: a3_def fun_eq_iff stack_upd_def listener_port_def has_socket_def split: option.splits)
    have "distinct (map (listener_port a2) (ap_listeners a @ [l]))"
      unfolding map_append m(1) using inv free new(1) by (auto simp: listeners_inv_def)
    then have i: "listeners_inv a3"
      using inv m(2) new(2) nl unfolding listeners_inv_def k by (auto simp: Cons f split: list.splits)
    have "r = 0 \<and> a' = a3"
      using step Cons True f(1)
      by (auto simp: listen_start_def Let_def a2_def [symmetric] listeners_insert_def a3_def SUCCESS_def split: if_splits)
    then show ?thesis using i k new(1) by simp
  next
    case False
    define a4 where "a4 = a2\<lparr>ap_listener_pool := ls @ [l]\<rparr>"
    have k: "listener_port a4 = listener_port a2" "has_socket a4 = has_socket a2" "ap_listeners a4 = ap_listeners a"
        "ap_listener_pool a4 = ls @ [l]" "qs_listener0 (ap_stack a4) = qs_listener0 (ap_stack a)"
      using f by (auto simp: a4_def fun_eq_iff listener_port_def has_socket_def split: option.splits)
    have i: "listeners_inv a4"
      using inv m(2) nl Cons unfolding listeners_inv_def k m(1) by auto
    have "r = - 1 \<and> a' = a4"
      using step Cons False f
      by (auto simp: listen_start_def Let_def a2_def [symmetric] listeners_insert_def a4_def SUCCESS_def FAILED_def
          split: if_splits option.splits)
    then show ?thesis using i by simp
  qed
qed

lemma q_listen_listeners:
  assumes inv: "listeners_inv a" and step: "q_listen ev app k backlog a = Inr (r, a')"
  shows "listeners_inv a' \<and> (r = 0 \<longrightarrow> snd (so_saddr (api_socket a k)) \<notin> listener_port a ` set (ap_listeners a)
    \<and> (\<exists>l. ap_listeners a' = ap_listeners a @ [l]
         \<and> listener_port a' l = snd (so_saddr (api_socket a k)) \<and> so_stream (api_socket a' k) = l))"
proof -
  define a1 where "a1 = (if so_socktype (api_socket a k) = SOCK_TYPE_STREAM
    then socket_upd k (\<lambda>so. so\<lparr>so_socktype := SOCK_TYPE_LISTENER\<rparr>) a else a)"
  have i1: "listeners_inv a1" using inv by (simp add: a1_def listeners_inv_type)
  have f: "ap_listeners a1 = ap_listeners a" "so_saddr (api_socket a1 k) = so_saddr (api_socket a k)"
      "so_opts (api_socket a1 k) = so_opts (api_socket a k)" "listener_port a1 = listener_port a"
    by (auto simp: a1_def api_upd fun_eq_iff listener_port_def)
  have i: "listeners_inv a" "listeners_inv a1" by (rule inv, rule i1)
  have fl: "fail e b = (r, a') \<Longrightarrow> listeners_inv b \<Longrightarrow> listeners_inv a' \<and> r \<noteq> 0" for e b by (auto simp: fail_def)
  consider (fail) e b where "fail e b = (r, a')" "listeners_inv b"
    | (start) "listeners_search (ap_stack a1) (ap_listeners a1) (snd (so_saddr (api_socket a1 k))) = Inr NULL"
        "listen_start ev app k backlog a1 = Inr (r, a')"
    using step i unfolding q_listen_def Let_def a1_def [symmetric]
    by (auto simp: bind_r_Inr_iff split: if_splits)
  then show ?thesis
  proof cases
    case fail
    then show ?thesis using fl by simp
  next
    case start
    have "\<forall>l\<in>set (ap_listeners a1). ls_socket (qs_listener (ap_stack a1) l) \<noteq> None" "NULL \<notin> set (ap_listeners a1)"
      using i1 by (auto simp: listeners_inv_def has_socket_def split: option.splits)
    then have "snd (so_saddr (api_socket a1 k)) \<notin> listener_port a1 ` set (ap_listeners a1)"
      using start(1) listeners_search_none by blast
    then show ?thesis using listen_start_listeners [OF i1 _ start(2)] f by simp
  qed
qed

text \<open>
  Binding sockets and listening on them, bound or not, in any order; only a socket that already
  listens unbound is not bound any more.
\<close>

inductive listen_step :: "'h env \<Rightarrow> 'h api \<Rightarrow> 'h api \<Rightarrow> bool" for ev :: "'h env" where
  bind: "\<not> listens_unbound a k \<Longrightarrow> q_bind ev k ad len a = (r, a') \<Longrightarrow> listen_step ev a a'"
| listen: "q_listen ev app k backlog a = Inr (r, a') \<Longrightarrow> listen_step ev a a'"

inductive_cases listen_stepE: "listen_step ev a a'"

lemma listen_steps_inv: "(listen_step ev)\<^sup>*\<^sup>* a a' \<Longrightarrow> listeners_inv a \<Longrightarrow> listeners_inv a'"
proof (induction rule: rtranclp_induct)
  case (step b c)
  from step.hyps(2) show ?case
    by (rule listen_stepE) (use step.IH [OF step.prems] q_bind_listeners q_listen_listeners in blast)+
qed

section \<open>Accepting\<close>

lemma q_accept_dequeues:
  assumes "qa_app_id app < ev_app_thread ev" "sock_range ev k" "so_socktype (api_socket a k) = SOCK_TYPE_LISTENER"
    "so_stream (api_socket a k) = l" "l \<noteq> NULL" "ap_stack a = s"
    "streamq_dequeue (ls_acceptq (qs_listener s l) (qa_app_id app)) = Some (p, q)"
    "p \<noteq> NULL" "st_socket (qs_streams s p) = Some j"
  obtains a' where "q_accept ev app k a = Inr (int j, Some \<lparr>sa_family = AF_INET, sin_addr = st_daddr (qs_streams s p),
      sin_port = st_dport (qs_streams s p)\<rparr>, a')"
    "so_stream (api_socket a' (int j)) = p" "st_id (qs_streams (ap_stack a') p) = j"
    "ls_acceptq (qs_listener (ap_stack a') l) (qa_app_id app) = q" "\<And>r. r \<noteq> p \<Longrightarrow> qs_streams (ap_stack a') r = qs_streams s r"
  using assms by (auto simp: q_accept_def Let_def api_upd stack_simps)

section \<open>Main properties\<close>

text \<open>
  C36 (invariant). Whatever sockets the applications bind, and on whichever sockets they listen, bound or
  not and in whichever order, successfully or not, no two listeners in the table have the same port, and the
  first listener in the table is the one the stack threads use; a successful \<^verbatim>\<open>q_listen\<close> adds a listener
  with a port no other one has. The only call left out is a \<^verbatim>\<open>q_bind\<close> of a socket that already listens
  without having been bound, which the code accepts: \<open>late_bind_doubles_port\<close> shows that it gives
  two listeners one port.
\<close>

theorem listen_ports_distinct:
  assumes "(listen_step ev)\<^sup>*\<^sup>* a a'" "listeners_inv a"
  shows "distinct (map (listener_port a') (ap_listeners a'))
    \<and> (ap_listeners a' \<noteq> [] \<longrightarrow> qs_listener0 (ap_stack a') = Some (hd (ap_listeners a')))
    \<and> (\<forall>app k backlog a''. q_listen ev app k backlog a' = Inr (0, a'') \<longrightarrow>
         snd (so_saddr (api_socket a' k)) \<notin> listener_port a' ` set (ap_listeners a')
         \<and> (\<exists>l. ap_listeners a'' = ap_listeners a' @ [l] \<and> listener_port a'' l = snd (so_saddr (api_socket a' k))))"
proof -
  have i: "listeners_inv a'" using listen_steps_inv [OF assms] .
  then show ?thesis using q_listen_listeners [OF i] by (auto simp: listeners_inv_def split: list.splits)
qed

text \<open>
  C8 (functional). Behind a listening socket an application has one queue of established connections per
  stack thread. An accept serves the stack threads in turn: from the index of the queue on, it takes the
  first thread that has a connection waiting, and of this thread the connection that waits longest; it returns that
  connection's socket and the peer's address, connects the socket to the stream, moves the index behind the thread,
  and leaves the queues of the other threads and all other streams as they were. It fails with
  \<^verbatim>\<open>EAGAIN\<close> exactly when no thread has a connection waiting.
\<close>

theorem accept_takes_connection:
  assumes "qa_app_id app < ev_app_thread ev" "sock_range ev k" "so_socktype (api_socket a k) = SOCK_TYPE_LISTENER"
    "so_stream (api_socket a k) = l" "l \<noteq> NULL" "ap_stack a = s"
    "q = ls_acceptq (qs_listener s l) (qa_app_id app)" "n21q_wf q"
    "\<forall>i<unat (nq_queue_num q). \<forall>p\<in>set (cirq_list (nq_queues q ! i)). st_socket (qs_streams s p) \<noteq> None"
  shows "if \<forall>i<unat (nq_queue_num q). cirq_list (nq_queues q ! i) = []
    then \<exists>a'. q_accept ev app k a = Inr (- 1, None, a') \<and> ap_errno a' = EAGAIN \<and> qs_streams (ap_stack a') = qs_streams s
    else \<exists>d i p j c a' q'. d < unat (nq_queue_num q) \<and> i = (unat (nq_queue_point q) + d) mod unat (nq_queue_num q)
      \<and> (\<forall>e<d. cirq_list (nq_queues q ! ((unat (nq_queue_point q) + e) mod unat (nq_queue_num q))) = [])
      \<and> cirq_list (nq_queues q ! i) = p # cirq_list c \<and> st_socket (qs_streams s p) = Some j
      \<and> q_accept ev app k a = Inr (int j, Some \<lparr>sa_family = AF_INET, sin_addr = st_daddr (qs_streams s p),
          sin_port = st_dport (qs_streams s p)\<rparr>, a')
      \<and> so_stream (api_socket a' (int j)) = p \<and> st_id (qs_streams (ap_stack a') p) = j
      \<and> ls_acceptq (qs_listener (ap_stack a') l) (qa_app_id app) = q'
      \<and> nq_queues q' = (nq_queues q)[i := c] \<and> unat (nq_queue_point q') = (i + 1) mod unat (nq_queue_num q)
      \<and> (\<forall>r. r \<noteq> p \<longrightarrow> qs_streams (ap_stack a') r = qs_streams s r)"
proof (cases "\<forall>i<unat (nq_queue_num q). cirq_list (nq_queues q ! i) = []")
  case True
  then show ?thesis using streamq_dequeue_none [OF assms(8)] assms(1-7) by (simp add: q_accept_def Let_def api_upd)
next
  case False
  then obtain d i p c q' where d: "d < unat (nq_queue_num q)" "i = (unat (nq_queue_point q) + d) mod unat (nq_queue_num q)"
      "\<forall>e<d. cirq_list (nq_queues q ! ((unat (nq_queue_point q) + e) mod unat (nq_queue_num q))) = []"
      "cirq_list (nq_queues q ! i) = p # cirq_list c" "p \<noteq> NULL" "streamq_dequeue q = Some (p, q')"
      "nq_queues q' = (nq_queues q)[i := c]" "unat (nq_queue_point q') = (i + 1) mod unat (nq_queue_num q)"
    using streamq_dequeue_turn [OF assms(8)] by metis
  have "i < unat (nq_queue_num q)" using d(1,2) by simp
  then obtain j where j: "st_socket (qs_streams s p) = Some j" using assms(9) d(4) by fastforce
  obtain a' where a': "q_accept ev app k a = Inr (int j, Some \<lparr>sa_family = AF_INET, sin_addr = st_daddr (qs_streams s p),
      sin_port = st_dport (qs_streams s p)\<rparr>, a')"
    "so_stream (api_socket a' (int j)) = p" "st_id (qs_streams (ap_stack a') p) = j"
    "ls_acceptq (qs_listener (ap_stack a') l) (qa_app_id app) = q'" "\<And>r. r \<noteq> p \<Longrightarrow> qs_streams (ap_stack a') r = qs_streams s r"
    using q_accept_dequeues [OF assms(1-6) _ d(5) j] d(6) assms(7) by blast
  show ?thesis
    unfolding if_not_P [OF False]
    by (rule exI [of _ d], rule exI [of _ i], rule exI [of _ p], rule exI [of _ j], rule exI [of _ c], rule exI [of _ a'], rule exI [of _ q'])
      (intro conjI d(1-4,7,8) j a'(1-4) allI impI a'(5))
qed

text \<open>
  A close that comes before the connection is established fails, but marks the stream as
  closed: every later close reports success and does nothing, so that the established connection is
  never closed.
\<close>

lemma early_close_lost:
  assumes "sock_range ev k" "so_socktype (api_socket a k) = SOCK_TYPE_STREAM" "so_stream (api_socket a k) = p" "p \<noteq> NULL"
    "\<not> st_closed (qs_streams (ap_stack a) p)" "st_state (qs_streams (ap_stack a) p) < TCP_ST_ESTABLISHED"
  shows "\<exists>a1. q_close ev app k a = Inr (- 1, a1) \<and> ap_errno a1 = EBADF
    \<and> (\<forall>a2. api_socket a2 k = api_socket a1 k \<longrightarrow> st_closed (qs_streams (ap_stack a2) p) = st_closed (qs_streams (ap_stack a1) p) \<longrightarrow>
         q_close ev app k a2 = Inr (0, a2))"
  using assms by (auto simp: q_close_def close_stream_socket_def fail_def Let_def stack_simps less_tcp_state_def)

section \<open>Other errors\<close>

text \<open>A refused \<^verbatim>\<open>q_listen\<close> leaves a stream socket as a listener, which can no longer connect.\<close>

lemma refused_listen_converts:
  assumes "sock_range ev k" "so_socktype (api_socket a k) = SOCK_TYPE_STREAM" "backlog \<le> 0"
  shows "\<exists>a1. q_listen ev app k backlog a = Inr (- 1, a1) \<and> ap_errno a1 = EINVAL
    \<and> q_connect ev h app' k ad len a1 = Inr (FAILED, a1\<lparr>ap_errno := ENOTSOCK\<rparr>)"
  using assms by (auto simp: q_listen_def q_connect_def fail_def Let_def api_upd)

text \<open>Closing a socket that was never connected reads through the null pointer before it is tested.\<close>

lemma unconnected_close_undefined:
  "sock_range ev k \<Longrightarrow> so_socktype (api_socket a k) = SOCK_TYPE_STREAM \<Longrightarrow> so_stream (api_socket a k) = NULL \<Longrightarrow>
     q_close ev app k a = Inl Undefined"
  by (simp add: q_close_def)

text \<open>Reading from or writing to a listening socket uses the listener as a stream.\<close>

lemma listener_as_stream:
  assumes "sock_range ev k" "so_socktype (api_socket a k) = SOCK_TYPE_LISTENER" "so_stream (api_socket a k) \<noteq> NULL"
  shows "q_recv ev app k a = Inl Undefined" "q_send ev app k x len fl a = Inl Undefined"
    "q_socket_ioctl ev k FIONREAD True a = Inl Undefined"
  using assms by (simp_all add: q_recv_def q_send_def q_socket_ioctl_def sock_stream_def)

section \<open>Examples\<close>

text \<open>Two sockets, a free listener for each, and an application that binds both to port 80.\<close>

definition api0 :: "(ipv4_5tuple \<Rightarrow> ptr option) api" where
  "api0 = \<lparr>ap_stack = stack0\<lparr>qs_sockets := (qs_sockets stack0)\<lparr>tb_sockets :=
       (\<lambda>_. socket0\<lparr>so_socktype := SOCK_TYPE_STREAM\<rparr>)\<rparr>\<rparr>,
     ap_listeners = [], ap_listener_pool = [1, 2], ap_connect_queue = (\<lambda>_. nqueue0), ap_errno = 0\<rparr>"

definition addr80 :: sockaddr where
  "addr80 = \<lparr>sa_family = AF_INET, sin_addr = 0, sin_port = htons 80\<rparr>"

definition app0 :: qapp where
  "app0 = \<lparr>qa_app_id = 0, qa_core_id = 0\<rparr>"

definition api1 :: "(ipv4_5tuple \<Rightarrow> ptr option) api" where
  "api1 = snd (q_bind env0 1 (Some addr80) 16 (snd (q_bind env0 0 (Some addr80) 16 api0)))"

theorem listen_ports_distinct_witness:
  "\<exists>a'. q_listen env0 (Some app0) 0 4 api1 = Inr (0, a') \<and> distinct (map (listener_port a') (ap_listeners a'))
     \<and> (\<forall>a''. q_listen env0 (Some app0) 1 4 a' \<noteq> Inr (0, a''))"
proof -
  have inv: "listeners_inv api0" by (simp add: listeners_inv_def api0_def stack0_def)
  let ?b = "snd (q_bind env0 0 (Some addr80) 16 api0)"
  have "\<not> listens_unbound api0 0" "\<not> listens_unbound ?b 1"
    by (simp_all add: listens_unbound_def q_bind_def api0_def sock_range_def env0_def addr80_def SOCKADDR_LEN_def Let_def api_upd
        socket0_def)
  then have "listen_step env0 api0 ?b" "listen_step env0 ?b api1"
    unfolding api1_def by (auto intro!: listen_step.bind prod.collapse [symmetric])
  then have r1: "(listen_step env0)\<^sup>*\<^sup>* api0 api1" by auto
  have so: "so_socktype (api_socket api1 0) = SOCK_TYPE_STREAM" "snd (so_saddr (api_socket api1 0)) = htons 80"
      "snd (so_saddr (api_socket api1 1)) = htons 80" "ap_listeners api1 = []" "ap_listener_pool api1 = [1, 2]"
    by (simp_all add: api1_def q_bind_def api0_def sock_range_def env0_def addr80_def SOCKADDR_LEN_def Let_def api_upd socket0_def
        SOCK_OPT_ADDR_BIND_def)
  obtain a' where l: "q_listen env0 (Some app0) 0 4 api1 = Inr (0, a')" "so_saddr (api_socket a' 1) = so_saddr (api_socket api1 1)"
    using so by (simp add: q_listen_def sock_range_def env0_def Let_def listen_start_def listeners_insert_def api_upd
        MAX_SOCKET_NUM_def MAX_SERVER_NUM_def)
  have r2: "(listen_step env0)\<^sup>*\<^sup>* api0 a'" by (rule rtranclp.rtrancl_into_rtrancl [OF r1 listen_step.listen [OF l(1)]])
  obtain j where j: "ap_listeners a' = [j]" "listener_port a' j = htons 80"
    using listen_ports_distinct [OF r1 inv, THEN conjunct2, THEN conjunct2, rule_format, OF l(1)] so(2,4) by auto
  have "q_listen env0 (Some app0) 1 4 a' \<noteq> Inr (0, a'')" for a''
  proof
    assume "q_listen env0 (Some app0) 1 4 a' = Inr (0, a'')"
    from listen_ports_distinct [OF r2 inv, THEN conjunct2, THEN conjunct2, rule_format, OF this] show False
      using l(2) so(3) j by simp
  qed
  then show ?thesis using l(1) j(1) by auto
qed

text \<open>
  The call that the listeners do not survive: a socket that listens unbound is bound to the port of
  another listener.
\<close>

lemma late_bind_doubles_port:
  assumes "listens_unbound a k" "sock_range ev k" "so_socktype (api_socket a k) = SOCK_TYPE_LISTENER"
    "sa_family ad = AF_INET" "SOCKADDR_LEN \<le> len"
    "l \<in> set (ap_listeners a)" "has_socket a l" "ls_socket (qs_listener (ap_stack a) l) \<noteq> Some (nat k)" "sin_port ad = listener_port a l"
  shows "\<exists>a'. q_bind ev k (Some ad) len a = (0, a') \<and> ap_listeners a' = ap_listeners a
    \<and> \<not> distinct (map (listener_port a') (ap_listeners a'))"
proof -
  define a' where "a' = snd (q_bind ev k (Some ad) len a)"
  obtain m where m: "m \<in> set (ap_listeners a)" "ls_socket (qs_listener (ap_stack a) m) = Some (nat k)"
      "so_opts (api_socket a k) AND SOCK_OPT_ADDR_BIND = 0"
    using assms(1) by (auto simp: listens_unbound_def)
  have bind: "q_bind ev k (Some ad) len a = (0, a')" "ap_listeners a' = ap_listeners a"
    using assms(2-5) m(3) by (simp_all add: a'_def q_bind_def Let_def api_upd)
  have "listener_port a' m = sin_port ad" "listener_port a' l = sin_port ad"
    using assms(2-5,7-9) m(2,3) by (auto simp: a'_def q_bind_def Let_def api_upd listener_port_def has_socket_def)
  moreover have "m \<noteq> l" using m(2) assms(8) by auto
  ultimately have "\<not> inj_on (listener_port a') (set (ap_listeners a))" using m(1) assms(6) by (auto dest!: inj_onD [where x = m and y = l])
  then show ?thesis using bind by (auto simp: distinct_map)
qed

text \<open>Streams 3 and 4, whose sockets are numbers 2 and 5, wait for an accept, both established by stack thread 1.\<close>

definition acceptq2 :: n21_queue where
  "acceptq2 = snd (n21q_enqueue (snd (n21q_enqueue nqueue0 1 3)) 1 4)"

lemma acceptq2:
  "n21q_wf acceptq2" "nq_queue_num acceptq2 = 2" "cirq_list (nq_queues acceptq2 ! 0) = []" "cirq_list (nq_queues acceptq2 ! 1) = [3, 4]"
proof -
  let ?q = "snd (n21q_enqueue nqueue0 1 3)"
  have i: "1 < nq_queue_num nqueue0" "1 < nq_queue_num ?q" by (simp_all add: nqueue0_empty n21q_enqueue_def case_prod_unfold Let_def)
  have wf: "n21q_wf ?q" by (rule n21q_enqueue_wf [OF nqueue0_empty(1) i(1)]) simp
  show "n21q_wf acceptq2" unfolding acceptq2_def by (rule n21q_enqueue_wf [OF wf i(2)]) simp
  show "nq_queue_num acceptq2 = 2" by code_simp
  show "cirq_list (nq_queues acceptq2 ! 0) = []" by code_simp
  show "cirq_list (nq_queues acceptq2 ! 1) = [3, 4]" by code_simp
qed

definition api2 :: "(ipv4_5tuple \<Rightarrow> ptr option) api" where
  "api2 = api0\<lparr>ap_stack := (ap_stack api0)\<lparr>
     qs_streams := (\<lambda>_. zero_stream)(3 := zero_stream\<lparr>st_socket := Some 2, st_daddr := 7, st_dport := 9\<rparr>,
       4 := zero_stream\<lparr>st_socket := Some 5, st_daddr := 8, st_dport := 9\<rparr>),
     qs_listener := (\<lambda>_. \<lparr>ls_sockid = 0, ls_port = 80, ls_socket = Some 0, ls_acceptq = (\<lambda>_. acceptq2)\<rparr>),
     qs_sockets := (qs_sockets stack0)\<lparr>tb_sockets := (\<lambda>_. socket0\<lparr>so_socktype := SOCK_TYPE_LISTENER, so_stream := 1\<rparr>)\<rparr>\<rparr>\<rparr>"

theorem accept_takes_connection_witness:
  "\<exists>a' c. q_accept env0 app0 0 api2 = Inr (2, Some \<lparr>sa_family = AF_INET, sin_addr = 7, sin_port = 9\<rparr>, a')
     \<and> so_stream (api_socket a' 2) = 3
     \<and> nq_queues (ls_acceptq (qs_listener (ap_stack a') 1) 0) = (nq_queues acceptq2)[1 := c] \<and> cirq_list c = [4]"
proof -
  have so: "qa_app_id app0 < ev_app_thread env0" "sock_range env0 0" "so_socktype (api_socket api2 0) = SOCK_TYPE_LISTENER"
      "so_stream (api_socket api2 0) = 1" "st_socket (qs_streams (ap_stack api2) 3) = Some 2"
      "st_socket (qs_streams (ap_stack api2) 4) = Some 5"
      "st_daddr (qs_streams (ap_stack api2) 3) = 7" "st_dport (qs_streams (ap_stack api2) 3) = 9"
      "acceptq2 = ls_acceptq (qs_listener (ap_stack api2) 1) (qa_app_id app0)" "qa_app_id app0 = 0"
    by (simp_all add: app0_def env0_def sock_range_def api2_def)
  have q: "\<forall>i<unat (nq_queue_num acceptq2). \<forall>p\<in>set (cirq_list (nq_queues acceptq2 ! i)). st_socket (qs_streams (ap_stack api2) p) \<noteq> None"
      "\<not> (\<forall>i<unat (nq_queue_num acceptq2). cirq_list (nq_queues acceptq2 ! i) = [])"
    using so(5,6) acceptq2(2-4) by (auto simp: less_2_cases_iff)
  obtain d i p j c a' q' where r: "i = (unat (nq_queue_point acceptq2) + d) mod unat (nq_queue_num acceptq2)"
      "cirq_list (nq_queues acceptq2 ! i) = p # cirq_list c" "st_socket (qs_streams (ap_stack api2) p) = Some j"
      "q_accept env0 app0 0 api2 = Inr (int j, Some \<lparr>sa_family = AF_INET, sin_addr = st_daddr (qs_streams (ap_stack api2) p),
          sin_port = st_dport (qs_streams (ap_stack api2) p)\<rparr>, a')"
      "so_stream (api_socket a' (int j)) = p" "ls_acceptq (qs_listener (ap_stack a') 1) (qa_app_id app0) = q'"
      "nq_queues q' = (nq_queues acceptq2)[i := c]"
    using accept_takes_connection [OF so(1-4) _ refl so(9) acceptq2(1) q(1)] q(2) by (simp only: if_False) blast
  have "i < 2" using r(1) acceptq2(2) by simp
  then have "i = 1" using r(2) acceptq2(3) by (auto simp: less_2_cases_iff)
  then show ?thesis using r(2-7) acceptq2(4) so(5,7,8,10) by auto
qed

theorem early_close_lost_witness:
  "\<exists>a1. q_close env0 app0 0 (api0\<lparr>ap_stack := (ap_stack api0)\<lparr>
       qs_streams := (\<lambda>_. zero_stream\<lparr>st_state := TCP_ST_SYN_SENT\<rparr>),
       qs_sockets := (qs_sockets stack0)\<lparr>tb_sockets := (\<lambda>_. socket0\<lparr>so_socktype := SOCK_TYPE_STREAM, so_stream := 1\<rparr>)\<rparr>\<rparr>\<rparr>)
     = Inr (- 1, a1) \<and> q_close env0 app0 0 a1 = Inr (0, a1)"
  (is "\<exists>a1. q_close env0 app0 0 ?a = _ \<and> _")
proof -
  have "sock_range env0 0" "so_socktype (api_socket ?a 0) = SOCK_TYPE_STREAM" "so_stream (api_socket ?a 0) = 1"
      "\<not> st_closed (qs_streams (ap_stack ?a) 1)" "st_state (qs_streams (ap_stack ?a) 1) < TCP_ST_ESTABLISHED"
    by (simp_all add: sock_range_def env0_def zero_stream_def less_tcp_state_def)
  from early_close_lost [OF this(1-3) _ this(4,5), of app0] show ?thesis by blast
qed

end
