(* ===== verification/Main_Loop.thy ===== *)
theory Main_Loop
  imports Frame_In Api
begin

text \<open>
  The stack thread of \<^verbatim>\<open>core.c\<close>: the handling of the applications' close and connect requests
  and the main loop. What an application does when the loop wakes it up is a parameter of a round, as
  are the driver's filter and DPDK's checksum; time is an argument. Statistics and the tests of stage
  timeouts, which are switched off, are left out.
\<close>

section \<open>Requests of the applications\<close>

definition MAX_CLOSE_BATCH :: nat where "MAX_CLOSE_BATCH = 5"
definition MAX_CONNECT_BATCH :: nat where "MAX_CONNECT_BATCH = 5"
definition MAX_RECV_BATCH :: u32 where "MAX_RECV_BATCH = 32"

definition handle_close_call :: "'h env \<Rightarrow> ptr \<Rightarrow> 'h qstack \<Rightarrow> 'h qstack result" where
  "handle_close_call ev p s =
     (let s1 = sv_upd p (\<lambda>sv. sv\<lparr>sv_fss := sb_next_seq (sv_sndbuf sv)\<rparr>) s;
          state = st_state (qs_streams s1 p)
      in if st_have_reset (qs_streams s1 p)
         then if state \<noteq> TCP_ST_CLOSED
              then tcp_stream_destroy ev p
                     (st_upd p (\<lambda>st. st\<lparr>st_close_reason := TCP_RESET, st_state := TCP_ST_CLOSED\<rparr>) s1)
              else Inr s1
         else if state \<noteq> TCP_ST_CLOSED
         then let s2 = (if state = TCP_ST_ESTABLISHED then st_upd p (\<lambda>st. st\<lparr>st_state := TCP_ST_FIN_WAIT_1\<rparr>) s1
                        else if state = TCP_ST_CLOSE_WAIT then st_upd p (\<lambda>st. st\<lparr>st_state := TCP_ST_LAST_ACK\<rparr>) s1
                        else s1)
              in Inr (snd (control_queue_add p s2))
         else Inl Exit0)"

text \<open>\<open>k\<close> is the index of the socket.\<close>

definition handle_connect_call :: "'h env \<Rightarrow> nat \<Rightarrow> 'h qstack \<Rightarrow> 'h qstack result" where
  "handle_connect_call ev k s =
     (let so = tb_sockets (qs_sockets s) k
      in if snd (so_saddr so) = INPORT_ANY \<or> fst (so_saddr so) = INADDR_ANY then Inl Exit0
         else bind_r (tcp_stream_create ev (Some k) (fst (so_saddr so)) (snd (so_saddr so))
                        (fst (so_daddr so)) (snd (so_daddr so)) 0 s) (\<lambda>(p, s1).
              let s2 = sv_upd p (\<lambda>sv. sv\<lparr>sv_cwnd := 1, sv_ssthresh := ucast (sv_mss sv) * 10\<rparr>) s1
              in bind_r (get_dst_hwaddr (fst (so_daddr so)) (qs_arp s2)) (\<lambda>haddr.
                   Inr (snd (control_queue_add p
                     (st_upd p (\<lambda>st. st\<lparr>st_dhw_addr := haddr, st_state := TCP_ST_SYN_SENT\<rparr>) s2))))))"

fun close_loop :: "'h env \<Rightarrow> nat \<Rightarrow> 'h qstack \<Rightarrow> 'h qstack result" where
  "close_loop ev 0 s = Inr s"
| "close_loop ev (Suc n) s =
     (case streamq_dequeue (qs_close_queue s) of
        None \<Rightarrow> Inl Diverges
      | Some (p, q) \<Rightarrow>
          let s1 = s\<lparr>qs_close_queue := q\<rparr>
          in if p = NULL then Inr s1 else bind_r (handle_close_call ev p s1) (close_loop ev n))"

fun connect_loop :: "'h env \<Rightarrow> nat \<Rightarrow> 'h qstack \<Rightarrow> 'h qstack result" where
  "connect_loop ev 0 s = Inr s"
| "connect_loop ev (Suc n) s =
     (case streamq_dequeue (qs_connect_queue s) of
        None \<Rightarrow> Inl Diverges
      | Some (k, q) \<Rightarrow>
          let s1 = s\<lparr>qs_connect_queue := q\<rparr>
          in if k = NULL then Inr s1 else bind_r (handle_connect_call ev (k - 1) s1) (connect_loop ev n))"

definition handle_app_call :: "'h env \<Rightarrow> 'h qstack \<Rightarrow> 'h qstack result" where
  "handle_app_call ev s = bind_r (close_loop ev MAX_CLOSE_BATCH s) (connect_loop ev MAX_CONNECT_BATCH)"

section \<open>The main loop\<close>

text \<open>A packet that no layer has taken over is freed.\<close>

fun recv_loop :: "'h env \<Rightarrow> u32 \<Rightarrow> nat \<Rightarrow> 'h qstack \<Rightarrow> 'h qstack result" where
  "recv_loop ev cur_ts 0 s = Inr s"
| "recv_loop ev cur_ts (Suc n) s =
     bind_r (io_recv_mbuf s) (\<lambda>(mbuf, len, s1).
     bind_r (process_eth_packet ev 0 cur_ts mbuf s1) (\<lambda>(_, s2).
     bind_r (if mb_state (mbuf_at s2 mbuf) = MBUF_STATE_RCVED
             then bind_r (mbuf_free (qs_stack_id s2) mbuf (qs_mem s2)) (\<lambda>m. Inr (s2\<lparr>qs_mem := m\<rparr>))
             else Inr s2) (recv_loop ev cur_ts n)))"

text \<open>
  The clock of a round: microseconds since the start, which \<^verbatim>\<open>get_time_us\<close> returns in 64 bits,
  are stored in the 32 bits of \<^verbatim>\<open>systs_t\<close> and then divided.
\<close>

definition loop_ts_us :: "u64 \<Rightarrow> u32" where
  "loop_ts_us time_us = ucast time_us"

definition loop_ts :: "u64 \<Rightarrow> u32" where
  "loop_ts time_us = loop_ts_us time_us div 1000"

record loop_vars =
  lv_to_send :: u32
  lv_last_send_check_ts :: u32

definition send_check_due :: "u32 \<Rightarrow> loop_vars \<Rightarrow> bool" where
  "send_check_due cur_ts_us v \<longleftrightarrow> lv_to_send v \<ge> 10
     \<or> lv_to_send v \<noteq> 0 \<and> sint (cur_ts_us - lv_last_send_check_ts v) > 1
     \<or> cur_ts_us - lv_last_send_check_ts v > 10"

definition recv_phase :: "'h env \<Rightarrow> (mbuf \<Rightarrow> int) \<Rightarrow> u32 \<Rightarrow> 'h qstack \<Rightarrow> 'h qstack result" where
  "recv_phase ev flt cur_ts s =
     bind_r (io_recv_check flt s) (\<lambda>(rcv_num, s1). recv_loop ev cur_ts (unat (min MAX_RECV_BATCH rcv_num)) s1)"

definition timer_phase :: "'h env \<Rightarrow> u32 \<Rightarrow> 'h qstack \<Rightarrow> 'h qstack result" where
  "timer_phase ev cur_ts s =
     bind_r (timeout_list_check ev cur_ts s) (\<lambda>(_, s1).
     bind_r (timewait_list_check ev cur_ts s1) (\<lambda>(_, s2).
     bind_r (rto_list_check ev cur_ts s2) (\<lambda>(_, s3). Inr s3)))"

definition send_phase :: "'h env \<Rightarrow> u32 \<Rightarrow> 'h qstack \<Rightarrow> (u32 \<times> 'h qstack) result" where
  "send_phase ev cur_ts s =
     bind_r (write_tcp_send_queue ev cur_ts s) (\<lambda>(_, s1).
     bind_r (handle_app_call ev s1) (\<lambda>s2.
     bind_r (write_tcp_control_queue ev cur_ts s2) (\<lambda>(ctl_num, s3).
     bind_r (write_tcp_send_queue ev cur_ts s3) (\<lambda>(rsp_num, s4).
     bind_r (write_tcp_ack_queue ev cur_ts s4) (\<lambda>(ack_num, s5).
       Inr (of_nat ctl_num + of_nat ack_num + word_of_int rsp_num, s5))))))"

text \<open>The receive ring is also emptied between the phases.\<close>

definition extra_recv_check :: "(mbuf \<Rightarrow> int) \<Rightarrow> 'h qstack \<Rightarrow> 'h qstack result" where
  "extra_recv_check flt s = bind_r (io_recv_check flt s) (\<lambda>(_, s1). Inr s1)"

text \<open>One round. \<open>wakeup\<close> is what the application does when it is woken up.\<close>

definition main_loop_round ::
    "'h env \<Rightarrow> (mbuf \<Rightarrow> int) \<Rightarrow> (iphdr \<Rightarrow> u16) \<Rightarrow> ('h qstack \<Rightarrow> 'h qstack result) \<Rightarrow> u64 \<Rightarrow> loop_vars \<Rightarrow> 'h qstack \<Rightarrow>
       (loop_vars \<times> 'h qstack) result" where
  "main_loop_round ev flt ck wakeup time_us v s =
     (let cur_ts_us = loop_ts_us time_us; cur_ts = loop_ts time_us
      in bind_r (recv_phase ev flt cur_ts s) (\<lambda>s1.
         bind_r (extra_recv_check flt s1) (\<lambda>s2.
         bind_r (timer_phase ev cur_ts s2) (\<lambda>s3.
         bind_r (extra_recv_check flt s3) (\<lambda>s4.
         bind_r (wakeup s4) (\<lambda>s5.
         bind_r (extra_recv_check flt s5) (\<lambda>s6.
         bind_r (send_phase ev cur_ts s6) (\<lambda>(sent, s7).
         bind_r (extra_recv_check flt s7) (\<lambda>s8.
           let v1 = v\<lparr>lv_to_send := lv_to_send v + sent\<rparr>
           in if send_check_due cur_ts_us v1
              then bind_r (io_send_check ck s8) (\<lambda>(_, s9).
                     Inr (\<lparr>lv_to_send = 0, lv_last_send_check_ts = cur_ts_us\<rparr>, s9))
              else Inr (v1, s8))))))))))"

fun qstack_main_loop ::
    "'h env \<Rightarrow> (mbuf \<Rightarrow> int) \<Rightarrow> (iphdr \<Rightarrow> u16) \<Rightarrow> ('h qstack \<Rightarrow> 'h qstack result) \<Rightarrow> u64 list \<Rightarrow> loop_vars \<Rightarrow> 'h qstack \<Rightarrow>
       (loop_vars \<times> 'h qstack) result" where
  "qstack_main_loop ev flt ck wakeup [] v s = Inr (v, s)"
| "qstack_main_loop ev flt ck wakeup (t # ts) v s =
     bind_r (main_loop_round ev flt ck wakeup t v s) (\<lambda>(v1, s1). qstack_main_loop ev flt ck wakeup ts v1 s1)"

section \<open>The clock\<close>

lemma loop_ts_bound: "unat (loop_ts t) \<le> 4294967"
proof -
  have "unat (loop_ts_us t) < 2 ^ 32" using unsigned_less [of "loop_ts_us t"] by simp
  then show ?thesis by (simp add: loop_ts_def unat_div)
qed

lemma rto_head_blocks:
  assumes "qs_rto_list s = p # ps" "sint (ts - st_ts_rto (qs_streams s p)) < 0"
  shows "rto_list_check ev ts s = Inr (0, s)"
  using assms by (simp add: rto_list_check_def MAX_RTO_BATCH_def)

text \<open>
  C40 (error). The clock of the main loop counts at most 4294967 ms and starts again at 0. A
  retransmission timer that is armed so late that its time lies behind that point is never due: while
  the stream is at the head of the list, the check finds nothing to do at any time, for this stream
  and for all behind it, so that no lost segment of any of these connections is sent again.
\<close>

theorem rto_clock_stuck:
  assumes free: "st_on_rto_idx (qs_streams s p) = 0" "\<not> st_on_timewait_list (qs_streams s p)" "qs_rto_list s = []"
    and late: "4294967 < unat (loop_ts t) + unat (sv_rto (sndvar s p))"
      "unat (loop_ts t) + unat (sv_rto (sndvar s p)) < 2 ^ 31"
    and armed: "rto_list_add p (loop_ts t) s = (r, s1)"
  shows "qs_rto_list s1 = [p]
    \<and> (\<forall>t' s2 ps. qs_rto_list s2 = p # ps \<longrightarrow> st_ts_rto (qs_streams s2 p) = st_ts_rto (qs_streams s1 p) \<longrightarrow>
         rto_list_check ev (loop_ts t') s2 = Inr (0, s2))"
proof -
  have s1: "st_ts_rto (qs_streams s1 p) = loop_ts t + sv_rto (sndvar s p)" "qs_rto_list s1 = [p]"
    using armed free by (auto simp: rto_list_add_def Let_def stack_simps)
  have u: "unat (loop_ts t + sv_rto (sndvar s p)) = unat (loop_ts t) + unat (sv_rto (sndvar s p))"
    using late(2) by (subst unat_add_lem [THEN iffD1]) simp_all
  have "sint (loop_ts t' - (loop_ts t + sv_rto (sndvar s p))) < 0" for t'
  proof -
    have "sint (loop_ts t' - (loop_ts t + sv_rto (sndvar s p)))
        = int (unat (loop_ts t')) - int (unat (loop_ts t) + unat (sv_rto (sndvar s p)))"
      using loop_ts_bound [of t'] late(2) unfolding u [symmetric] by (intro sint_diff_small) simp_all
    then show ?thesis using loop_ts_bound [of t'] late(1) by linarith
  qed
  then show ?thesis using s1 by (auto intro: rto_head_blocks)
qed

text \<open>A timer of 500 ms that is armed 67 ms before the clock starts again.\<close>

definition clock_stack :: "(ipv4_5tuple \<Rightarrow> ptr option) qstack" where
  "clock_stack = sv_upd 1 (\<lambda>sv. sv\<lparr>sv_rto := TCP_INITIAL_RTO\<rparr>) stack0"

theorem rto_clock_stuck_witness:
  "loop_ts 4294900000 = 4294900 \<and> loop_ts 4294967296 = 0
    \<and> (\<forall>ev. rto_list_check ev (loop_ts 4295500000) (snd (rto_list_add 1 (loop_ts 4294900000) clock_stack))
        = Inr (0, snd (rto_list_add 1 (loop_ts 4294900000) clock_stack)))"
proof -
  have ts: "loop_ts 4294900000 = 4294900" "loop_ts 4294967296 = 0" by (simp_all add: loop_ts_def loop_ts_us_def)
  obtain r s1 where a: "rto_list_add 1 (loop_ts 4294900000) clock_stack = (r, s1)" by fastforce
  have c: "st_on_rto_idx (qs_streams clock_stack 1) = 0" "\<not> st_on_timewait_list (qs_streams clock_stack 1)"
      "qs_rto_list clock_stack = []" "sv_rto (sndvar clock_stack 1) = 500"
    by (simp_all add: clock_stack_def stack0_def zero_stream_def stack_simps TCP_INITIAL_RTO_def)
  have u: "unat (sv_rto (sndvar clock_stack 1)) = 500" by (simp only: c(4)) simp
  have "qs_rto_list s1 = [1] \<and> rto_list_check ev (loop_ts 4295500000) s1 = Inr (0, s1)" for ev
    using rto_clock_stuck [OF c(1-3) _ _ a, of ev] by (simp only: u ts(1)) simp
  then show ?thesis using ts a by simp
qed

end
