(* ===== verification/Conn_Close.thy ===== *)
theory Conn_Close
  imports Main_Loop
begin

text \<open>
  Closing a connection from the application's call to the FIN in the transmit queue: \<^verbatim>\<open>q_close\<close>
  of \<^verbatim>\<open>api.c\<close>, the handling of the request in \<^verbatim>\<open>core.c\<close> and the control packets of
  \<^verbatim>\<open>tcp_out.c\<close> together.
\<close>

section \<open>A control packet in an mbuf of the pool\<close>

lemma alloc_from_pool:
  assumes "n21q_wf (dp_free_queue (qs_dpdk s))" "dp_tx_pool (qs_dpdk s) = x # xs" "x \<noteq> NULL"
  obtains b d where "io_get_swmbuf s = Inr (b, mem_upd b (\<lambda>mb. mb\<lparr>mb_payload_len := 0, mb_tcp_seq := 0\<rparr>) (s\<lparr>qs_dpdk := d\<rparr>))"
    "b \<noteq> NULL" "dp_th_mbufs d = dp_th_mbufs (qs_dpdk s)"
proof -
  obtain y q where y: "n21q_dequeue_strong (dp_free_queue (qs_dpdk s)) = Some (y, q)"
    using n21q_dequeue_items [OF assms(1)] by metis
  show thesis
  proof (cases "y = NULL")
    case True
    then show ?thesis using that [of x "(qs_dpdk s)\<lparr>dp_free_queue := q, dp_tx_pool := xs\<rparr>"] y assms
      by (simp add: io_get_swmbuf_def dpdk_alloc_mbuf_def n21q_dequeue_def do_n21q_dequeue_def n21q_dequeue_strong_def)
  next
    case False
    then show ?thesis using that [of y "(qs_dpdk s)\<lparr>dp_free_queue := q\<rparr>"] y
      by (simp add: io_get_swmbuf_def dpdk_alloc_mbuf_def n21q_dequeue_def do_n21q_dequeue_def n21q_dequeue_strong_def)
  qed
qed

lemma control_packet_sent:
  assumes inv: "timer_inv s" and pool: "n21q_wf (dp_free_queue (qs_dpdk s))" "dp_tx_pool (qs_dpdk s) = x # xs" "x \<noteq> NULL"
    and syn: "\<not> has_flag flags TCP_FLAG_SYN"
    and room: "cirq_wf (dp_th_mbufs (qs_dpdk s))" "\<not> cirq_full (dp_th_mbufs (qs_dpdk s))"
  obtains b s1 s' where "send_tcp_packet ev p ts flags NULL 0 s = Inr (SUCCESS, s')" "timer_inv s'"
    "b \<noteq> NULL" "qs_streams s1 = qs_streams s" "qs_control_queue s1 = qs_control_queue s"
    "dp_th_mbufs (qs_dpdk s1) = dp_th_mbufs (qs_dpdk s)"
    "timer_frame (sent_state p ts flags b 0 (headed_state ev p flags b 0 s1)) s'"
    "out_extra flags \<noteq> 0 \<Longrightarrow> st_on_rto_idx (qs_streams s' p) \<noteq> 0 \<or> st_on_timewait_list (qs_streams s' p)"
    "\<And>q. q \<noteq> p \<Longrightarrow> qs_streams s' q = qs_streams s q"
proof -
  obtain b d where b: "io_get_swmbuf s = Inr (b, mem_upd b (\<lambda>mb. mb\<lparr>mb_payload_len := 0, mb_tcp_seq := 0\<rparr>) (s\<lparr>qs_dpdk := d\<rparr>))"
    "b \<noteq> NULL" "dp_th_mbufs d = dp_th_mbufs (qs_dpdk s)"
    by (rule alloc_from_pool [OF pool])
  let ?s1 = "mem_upd b (\<lambda>mb. mb\<lparr>mb_payload_len := 0, mb_tcp_seq := 0\<rparr>) (s\<lparr>qs_dpdk := d\<rparr>)"
  have s1: "qs_streams ?s1 = qs_streams s" "qs_control_queue ?s1 = qs_control_queue s" "dp_th_mbufs (qs_dpdk ?s1) = dp_th_mbufs (qs_dpdk s)"
    using b(3) by (simp_all add: mem_upd_def)
  have "same_timers s ?s1" by (simp add: same_timers_def mem_upd_def)
  then have inv1: "timer_inv ?s1" using timer_inv_same inv by blast
  have "send_tcp_packet ev p ts flags NULL 0 s = send_tcp_packet ev p ts flags b 0 ?s1"
    using b(1,2) s1(1) by (simp add: send_tcp_packet_def Let_def)
  moreover obtain s' where s': "send_tcp_packet ev p ts flags b 0 ?s1 = Inr (SUCCESS, s')" "timer_inv s'"
      "timer_frame (sent_state p ts flags b 0 (headed_state ev p flags b 0 ?s1)) s'"
      "\<forall>q. q \<noteq> p \<longrightarrow> qs_streams s' q = qs_streams ?s1 q"
      "0 + out_extra flags \<noteq> 0 \<longrightarrow> st_on_rto_idx (qs_streams s' p) \<noteq> 0 \<or> st_on_timewait_list (qs_streams s' p)"
    using send_tcp_packet_spec [OF inv1 b(2) word_zero_le room [folded s1(3)]] by blast
  ultimately show thesis by (intro that [of s' b ?s1]) (use s1 b(2) in simp_all)
qed

section \<open>From the request to the control queue\<close>

definition closed_stream :: "tcp_stream \<Rightarrow> tcp_stream" where
  "closed_stream st = st\<lparr>st_closed := True,
     st_state := (if st_state st = TCP_ST_ESTABLISHED then TCP_ST_FIN_WAIT_1 else TCP_ST_LAST_ACK),
     st_sndvar := (st_sndvar st)\<lparr>sv_on_closeq := True, sv_fss := sb_next_seq (sv_sndbuf (st_sndvar st)),
       sv_on_control_queue := True\<rparr>\<rparr>"

definition can_close :: "'h qstack \<Rightarrow> ptr \<Rightarrow> u8 \<Rightarrow> bool" where
  "can_close s p core \<longleftrightarrow> p \<noteq> NULL \<and> \<not> st_closed (qs_streams s p) \<and> \<not> st_have_reset (qs_streams s p)
     \<and> (st_state (qs_streams s p) = TCP_ST_ESTABLISHED \<or> st_state (qs_streams s p) = TCP_ST_CLOSE_WAIT)
     \<and> n21q_wf (qs_close_queue s) \<and> n21q_items (qs_close_queue s) = {#} \<and> core < nq_queue_num (qs_close_queue s)
     \<and> \<not> cirq_full (nq_queues (qs_close_queue s) ! unat core)
     \<and> n21q_wf (qs_connect_queue s) \<and> n21q_items (qs_connect_queue s) = {#}
     \<and> \<not> sv_on_control_queue (sndvar s p) \<and> cirq_wf (qs_control_queue s) \<and> \<not> cirq_full (qs_control_queue s)"

lemma control_queue_add_room:
  assumes "\<not> sv_on_control_queue (sndvar s p)" "cirq_wf (qs_control_queue s)" "\<not> cirq_full (qs_control_queue s)"
  shows "control_queue_add p s = (SUCCESS, sv_upd p (\<lambda>sv. sv\<lparr>sv_on_control_queue := True\<rparr>)
     (s\<lparr>qs_control_queue := snd (cirq_add (qs_control_queue s) p)\<rparr>))"
  using assms cirq_add_room(1) [of "qs_control_queue s" p]
  by (simp add: control_queue_add_def sstreamq_enqueue_def split_beta)

lemma close_request_handled:
  assumes ok: "can_close s p (of_nat (qa_core_id app))"
    and so: "sock_range ev k" "so_socktype (api_socket a k) = SOCK_TYPE_STREAM" "so_stream (api_socket a k) = p" "ap_stack a = s"
  obtains a1 q1 q2 where "q_close ev app k a = Inr (0, a1)"
    "handle_app_call ev (ap_stack a1) = Inr (s\<lparr>qs_streams := (qs_streams s)(p := closed_stream (qs_streams s p)),
       qs_control_queue := snd (cirq_add (qs_control_queue s) p), qs_close_queue := q1, qs_connect_queue := q2\<rparr>)"
proof -
  let ?core = "of_nat (qa_core_id app) :: u8"
  obtain q1 where q1: "streamq_dequeue (snd (streamq_enqueue (qs_close_queue s) ?core p)) = Some (p, q1)"
    "n21q_wf q1" "n21q_items q1 = {#}"
    using streamq_roundtrip [of "qs_close_queue s" ?core p] ok unfolding can_close_def by metis
  obtain q1' where q1': "streamq_dequeue q1 = Some (NULL, q1')" by (rule streamq_empty [OF q1(2,3)])
  obtain q2 where q2: "streamq_dequeue (qs_connect_queue s) = Some (NULL, q2)"
    using streamq_empty [of "qs_connect_queue s"] ok unfolding can_close_def by metis
  let ?s1 = "sv_upd p (\<lambda>sv. sv\<lparr>sv_on_closeq := True\<rparr>)
    ((st_upd p (\<lambda>st. st\<lparr>st_closed := True\<rparr>) s)\<lparr>qs_close_queue := snd (streamq_enqueue (qs_close_queue s) ?core p)\<rparr>)"
  have close: "q_close ev app k a = Inr (0, a\<lparr>ap_stack := ?s1\<rparr>)"
    using ok so by (auto simp: q_close_def close_stream_socket_def can_close_def Let_def split_beta)
  let ?s2 = "s\<lparr>qs_streams := (qs_streams s)(p := closed_stream (qs_streams s p)),
    qs_control_queue := snd (cirq_add (qs_control_queue s) p), qs_close_queue := q1\<rparr>"
  have "handle_close_call ev p (?s1\<lparr>qs_close_queue := q1\<rparr>) = Inr ?s2"
    using ok by (auto simp: handle_close_call_def can_close_def Let_def stack_simps control_queue_add_room
        closed_stream_def sv_upd_def st_upd_def intro!: qstack.equality tcp_stream.equality
        arg_cong [where f = "\<lambda>x. (qs_streams s)(p := x)"])
  then have "close_loop ev MAX_CLOSE_BATCH ?s1 = Inr (?s2\<lparr>qs_close_queue := q1'\<rparr>)"
    using q1(1) q1' ok by (simp add: MAX_CLOSE_BATCH_def can_close_def numeral_eq_Suc Let_def stack_simps)
  then have "handle_app_call ev ?s1 = Inr (?s2\<lparr>qs_close_queue := q1', qs_connect_queue := q2\<rparr>)"
    using q2 by (simp add: handle_app_call_def MAX_CONNECT_BATCH_def numeral_eq_Suc)
  then show thesis using that close by simp
qed

section \<open>The FIN\<close>

lemma cirq_get_none:
  assumes "cirq_wf q" "cirq_list q = []"
  shows "fst (cirq_get q) = NULL"
  using assms by (simp add: cirq_get_def cirq_empty_iff)

text \<open>The loop over the control queue when one stream is waiting in it.\<close>

lemma control_queue_one:
  assumes q: "cirq_wf (qs_control_queue s)" "cirq_list (qs_control_queue s) = [p]" "p \<noteq> NULL"
    and on: "sv_on_control_queue (sndvar s p)"
    and sent: "send_tcp_control_packet ev p ts (sv_upd p (\<lambda>sv. sv\<lparr>sv_on_control_queue := False\<rparr>)
        (s\<lparr>qs_control_queue := snd (cirq_get (qs_control_queue s))\<rparr>)) = Inr (SUCCESS, s1)"
    and kept: "qs_control_queue s1 = snd (cirq_get (qs_control_queue s))"
  shows "write_tcp_control_queue ev ts s = Inr (1, s1\<lparr>qs_control_queue := snd (cirq_get (qs_control_queue s1))\<rparr>)"
proof -
  note g = cirq_get_item [OF q(1,2)]
  have n: "fst (cirq_get (qs_control_queue s1)) = NULL" using g(2,4) by (simp add: kept cirq_get_none)
  obtain k where k: "unat (cq_size (qs_control_queue s)) = Suc k"
    using q(1) by (cases "unat (cq_size (qs_control_queue s))") (auto simp: cirq_wf_def unat_eq_zero)
  have "control_loop (Suc k) ev ts 1 s1 = Inr (1, s1\<lparr>qs_control_queue := snd (cirq_get (qs_control_queue s1))\<rparr>)"
    using n by (simp add: MAX_CTRL_PKT_BATCH_def sstreamq_dequeue_def split_beta Let_def)
  moreover have "control_loop (Suc (Suc k)) ev ts 0 s = control_loop (Suc k) ev ts 1 s1"
    using g(1) q(3) on sent by (subst control_loop.simps(2))
      (simp add: MAX_CTRL_PKT_BATCH_def sstreamq_dequeue_def split_beta Let_def del: control_loop.simps)
  ultimately show ?thesis by (simp add: write_tcp_control_queue_def k del: control_loop.simps)
qed

lemma fin_flags:
  "\<not> has_flag (TCP_FLAG_FIN OR TCP_FLAG_ACK) TCP_FLAG_SYN" "out_extra (TCP_FLAG_FIN OR TCP_FLAG_ACK) = 1"
  "out_fin (TCP_FLAG_FIN OR TCP_FLAG_ACK)" "has_flag (TCP_FLAG_FIN OR TCP_FLAG_ACK) TCP_FLAG_ACK"
  "out_seq (TCP_FLAG_FIN OR TCP_FLAG_ACK) st = sv_fss (st_sndvar st)"
  by (simp_all add: has_flag_def tcp_flag_defs out_extra_def out_fin_def out_seq_def)

text \<open>The two states from which a control packet is a FIN.\<close>

lemma fin_sent:
  assumes inv: "timer_inv s" and pool: "n21q_wf (dp_free_queue (qs_dpdk s))" "dp_tx_pool (qs_dpdk s) = x # xs" "x \<noteq> NULL"
    and room: "cirq_wf (dp_th_mbufs (qs_dpdk s))" "\<not> cirq_full (dp_th_mbufs (qs_dpdk s))"
    and st: "st_state (qs_streams s p) = TCP_ST_FIN_WAIT_1 \<or> st_state (qs_streams s p) = TCP_ST_LAST_ACK"
  obtains b s' where "send_tcp_control_packet ev p ts s = Inr (SUCCESS, s')" "timer_inv s'"
    "qs_control_queue s' = qs_control_queue s"
    "cirq_list (dp_th_mbufs (qs_dpdk s')) = cirq_list (dp_th_mbufs (qs_dpdk s)) @ [b]"
    "th_fin (mb_tcph (mbuf_at s' b))" "th_ack (mb_tcph (mbuf_at s' b))" "\<not> th_syn (mb_tcph (mbuf_at s' b))"
    "ntohl (th_seq (mb_tcph (mbuf_at s' b))) = sv_fss (sndvar s p)"
    "ntohl (th_ack_seq (mb_tcph (mbuf_at s' b))) = st_rcv_nxt (qs_streams s p)"
    "st_state (qs_streams s' p) = st_state (qs_streams s p)" "sv_is_fin_sent (sndvar s' p)"
    "st_on_rto_idx (qs_streams s' p) \<noteq> 0 \<or> st_on_timewait_list (qs_streams s' p)"
    "\<And>q. q \<noteq> p \<Longrightarrow> qs_streams s' q = qs_streams s q"
proof -
  let ?f = "TCP_FLAG_FIN OR TCP_FLAG_ACK"
  obtain b s1 s' where s': "send_tcp_packet ev p ts ?f NULL 0 s = Inr (SUCCESS, s')" "timer_inv s'"
    "b \<noteq> NULL" "qs_streams s1 = qs_streams s" "qs_control_queue s1 = qs_control_queue s"
    "dp_th_mbufs (qs_dpdk s1) = dp_th_mbufs (qs_dpdk s)"
    "timer_frame (sent_state p ts ?f b 0 (headed_state ev p ?f b 0 s1)) s'"
    "out_extra ?f \<noteq> 0 \<Longrightarrow> st_on_rto_idx (qs_streams s' p) \<noteq> 0 \<or> st_on_timewait_list (qs_streams s' p)"
    "\<And>q. q \<noteq> p \<Longrightarrow> qs_streams s' q = qs_streams s q"
    using control_packet_sent [OF inv pool fin_flags(1) room, of ev p ts] by metis
  let ?h = "headed_state ev p ?f b 0 s1"
  have h: "sv_fss (sndvar ?h p) = sv_fss (sndvar s p)" "st_rcv_nxt (qs_streams ?h p) = st_rcv_nxt (qs_streams s p)"
    "qs_dpdk ?h = qs_dpdk s1" "qs_control_queue ?h = qs_control_queue s" "st_state (qs_streams ?h p) = st_state (qs_streams s p)"
    by (simp_all add: headed_state_def stack_simps s'(4,5))
  have m: "mbuf_at s' b = wire_mbuf ?f 0 (qs_streams ?h p) (mbuf_at ?h b)"
    by (simp add: timer_frameD [OF s'(7)] sent_state_def stack_simps)
  have ctl: "send_tcp_control_packet ev p ts s = Inr (SUCCESS, s')"
    using s'(1) st by (auto simp: send_tcp_control_packet_def)
  have q: "cirq_list (dp_th_mbufs (qs_dpdk s')) = cirq_list (dp_th_mbufs (qs_dpdk s)) @ [b]"
    using cirq_add_room [of "dp_th_mbufs (qs_dpdk s)" b] room
    by (simp add: timer_frameD [OF s'(7)] sent_state_def h(3) s'(6))
  have c: "qs_control_queue s' = qs_control_queue s" "st_state (qs_streams s' p) = st_state (qs_streams s p)"
    using h(4,5) by (simp_all add: timer_frameD [OF s'(7)] sent_state_def sent_stream_def stack_simps)
  have fin: "sv_is_fin_sent (sndvar s' p)"
    using timer_frame_field [OF s'(7), of "\<lambda>st. sv_is_fin_sent (st_sndvar st)" p] fin_flags(3)
    by (simp add: no_timer_fields_def sent_state_def sent_stream_def stack_simps)
  show thesis
    by (rule that [OF ctl s'(2) c(1) q _ _ _ _ _ c(2) fin s'(8)])
      (simp_all add: m wire_mbuf_def Let_def fill_tcp_header_def fin_flags h(1,2) s'(9))
qed

text \<open>
  C6 (liveness). Closing an established connection, or one whose peer has closed, on a stack that has
  no other request waiting: the call succeeds, the stack thread takes the request up in its next round
  and puts a FIN into the transmit queue. The FIN has the sequence number behind everything the
  application has written, acknowledges everything received, and is guarded by the retransmission
  timer. From then on the send buffer is not served any more: what the application wrote and
  the windows had not let out, or the network lost, is never sent.
\<close>

theorem close_sends_fin:
  assumes ok: "can_close s p (of_nat (qa_core_id app))" "cirq_list (qs_control_queue s) = []"
    and so: "sock_range ev k" "so_socktype (api_socket a k) = SOCK_TYPE_STREAM" "so_stream (api_socket a k) = p" "ap_stack a = s"
    and inv: "timer_inv s"
    and pool: "n21q_wf (dp_free_queue (qs_dpdk s))" "dp_tx_pool (qs_dpdk s) = x # xs" "x \<noteq> NULL"
    and room: "cirq_wf (dp_th_mbufs (qs_dpdk s))" "\<not> cirq_full (dp_th_mbufs (qs_dpdk s))"
  shows "\<exists>a1 s2 s3 b. q_close ev app k a = Inr (0, a1) \<and> handle_app_call ev (ap_stack a1) = Inr s2
    \<and> write_tcp_control_queue ev ts s2 = Inr (1, s3)
    \<and> st_state (qs_streams s3 p) = (if st_state (qs_streams s p) = TCP_ST_ESTABLISHED then TCP_ST_FIN_WAIT_1 else TCP_ST_LAST_ACK)
    \<and> cirq_list (dp_th_mbufs (qs_dpdk s3)) = cirq_list (dp_th_mbufs (qs_dpdk s)) @ [b]
    \<and> th_fin (mb_tcph (mbuf_at s3 b)) \<and> th_ack (mb_tcph (mbuf_at s3 b))
    \<and> ntohl (th_seq (mb_tcph (mbuf_at s3 b))) = sb_next_seq (sv_sndbuf (sndvar s p))
    \<and> ntohl (th_ack_seq (mb_tcph (mbuf_at s3 b))) = st_rcv_nxt (qs_streams s p)
    \<and> (st_on_rto_idx (qs_streams s3 p) \<noteq> 0 \<or> st_on_timewait_list (qs_streams s3 p))
    \<and> (\<forall>q. q \<noteq> p \<longrightarrow> qs_streams s3 q = qs_streams s q)
    \<and> (\<forall>ts'. flush_tcp_sending_buffer ev p ts' s3 = Inr (0, s3))"
proof -
  obtain a1 q1 q2 where a1: "q_close ev app k a = Inr (0, a1)"
    "handle_app_call ev (ap_stack a1) = Inr (s\<lparr>qs_streams := (qs_streams s)(p := closed_stream (qs_streams s p)),
       qs_control_queue := snd (cirq_add (qs_control_queue s) p), qs_close_queue := q1, qs_connect_queue := q2\<rparr>)"
    using close_request_handled [OF ok(1) so] by metis
  let ?s2 = "s\<lparr>qs_streams := (qs_streams s)(p := closed_stream (qs_streams s p)),
       qs_control_queue := snd (cirq_add (qs_control_queue s) p), qs_close_queue := q1, qs_connect_queue := q2\<rparr>"
  define s3 where "s3 = sv_upd p (\<lambda>sv. sv\<lparr>sv_on_control_queue := False\<rparr>)
        (?s2\<lparr>qs_control_queue := snd (cirq_get (qs_control_queue ?s2))\<rparr>)"
  have p: "p \<noteq> NULL" "cirq_wf (qs_control_queue s)" "\<not> cirq_full (qs_control_queue s)" using ok(1) by (simp_all add: can_close_def)
  have q: "cirq_wf (qs_control_queue ?s2)" "cirq_list (qs_control_queue ?s2) = [p]"
    using cirq_add_room [OF p(2,3), of p] ok(2) by simp_all
  have s3: "st_state (qs_streams s3 p) = (if st_state (qs_streams s p) = TCP_ST_ESTABLISHED then TCP_ST_FIN_WAIT_1 else TCP_ST_LAST_ACK)"
    "sv_fss (sndvar s3 p) = sb_next_seq (sv_sndbuf (sndvar s p))" "st_rcv_nxt (qs_streams s3 p) = st_rcv_nxt (qs_streams s p)"
    "qs_dpdk s3 = qs_dpdk s" "\<And>q. q \<noteq> p \<Longrightarrow> qs_streams s3 q = qs_streams s q"
    "qs_control_queue s3 = snd (cirq_get (qs_control_queue ?s2))"
    by (simp_all add: s3_def closed_stream_def stack_simps)
  have "same_timers s s3" by (simp add: s3_def same_timers_def stack_simps closed_stream_def)
  then have inv3: "timer_inv s3" using timer_inv_same inv by blast
  have st3: "st_state (qs_streams s3 p) = TCP_ST_FIN_WAIT_1 \<or> st_state (qs_streams s3 p) = TCP_ST_LAST_ACK" by (simp add: s3(1))
  obtain b s' where s': "send_tcp_control_packet ev p ts s3 = Inr (SUCCESS, s')"
    "qs_control_queue s' = qs_control_queue s3"
    "cirq_list (dp_th_mbufs (qs_dpdk s')) = cirq_list (dp_th_mbufs (qs_dpdk s3)) @ [b]"
    "th_fin (mb_tcph (mbuf_at s' b))" "th_ack (mb_tcph (mbuf_at s' b))"
    "ntohl (th_seq (mb_tcph (mbuf_at s' b))) = sv_fss (sndvar s3 p)"
    "ntohl (th_ack_seq (mb_tcph (mbuf_at s' b))) = st_rcv_nxt (qs_streams s3 p)"
    "st_state (qs_streams s' p) = st_state (qs_streams s3 p)" "sv_is_fin_sent (sndvar s' p)"
    "st_on_rto_idx (qs_streams s' p) \<noteq> 0 \<or> st_on_timewait_list (qs_streams s' p)"
    "\<And>q. q \<noteq> p \<Longrightarrow> qs_streams s' q = qs_streams s3 q"
    using fin_sent [OF inv3 pool [folded s3(4)] room [folded s3(4)] st3, of ev ts] by metis
  have w: "write_tcp_control_queue ev ts ?s2 = Inr (1, s'\<lparr>qs_control_queue := snd (cirq_get (qs_control_queue s'))\<rparr>)"
    by (rule control_queue_one [OF q p(1) _ s'(1) [unfolded s3_def]]) (simp_all add: closed_stream_def s'(2) s3(6))
  show ?thesis
    by (intro exI conjI, rule a1(1), rule a1(2), rule w)
      (use s' s3 in \<open>simp_all add: flush_tcp_sending_buffer_def Let_def\<close>)
qed

text \<open>
  When data before the FIN was lost and the retransmission timer expires, the stack moves
  the data to the list of what to send again and hands the stream to the sender, which sends nothing
  behind a FIN. The expired timer is not started again and the FIN is not repeated: the connection
  hangs until its inactivity ends it.
\<close>

lemma fin_rto_silent:
  assumes "buffers_ok s p" "sv_nrtx (sndvar s p) < TCP_MAX_RTX" "sv_is_fin_sent (sndvar s p)"
    "st_state (qs_streams s p) = TCP_ST_FIN_WAIT_1 \<or> st_state (qs_streams s p) = TCP_ST_CLOSING
      \<or> st_state (qs_streams s p) = TCP_ST_LAST_ACK"
    "sv_fss (sndvar s p) \<noteq> 0" "TCP_SEQ_LT (sv_snd_una (sndvar s p)) (sv_fss (sndvar s p))"
  shows "\<exists>s'. handle_rto ev ts p s = Inr s' \<and> st_on_rto_idx (qs_streams s' p) = st_on_rto_idx (qs_streams s p)
    \<and> qs_rto_list s' = qs_rto_list s \<and> qs_control_queue s' = qs_control_queue s \<and> qs_dpdk s' = qs_dpdk s
    \<and> (\<forall>ts'. flush_tcp_sending_buffer ev p ts' s' = Inr (0, s'))"
proof -
  define s1 where "s1 = st_upd p (\<lambda>st. st\<lparr>st_snd_nxt := sv_snd_una (st_sndvar st)\<rparr>)
    (sv_upd p (\<lambda>sv. rto_backoff (sv\<lparr>sv_nrtx := sv_nrtx sv + 1\<rparr>)) s)"
  have fin: "sv_is_fin_sent (rto_backoff sv) = sv_is_fin_sent sv" for sv by (simp add: rto_backoff_def Let_def)
  have s1: "buffers_ok s1 p" "sv_is_fin_sent (sndvar s1 p)" "st_on_rto_idx (qs_streams s1 p) = st_on_rto_idx (qs_streams s p)"
      "qs_rto_list s1 = qs_rto_list s" "qs_control_queue s1 = qs_control_queue s" "qs_dpdk s1 = qs_dpdk s"
    using assms(1,3) by (simp_all add: s1_def buffers_ok_def stack_simps fin)
  have h: "handle_rto ev ts p s = rto_resend p s1"
    using assms(2,4-6) by (auto simp: handle_rto_def Let_def stack_simps s1_def)
  obtain s' where s': "rto_resend p s1 = Inr s'" "same_timers s1 s'"
      "\<exists>sb. qs_streams s' p = st_sndvar_update (sv_sndbuf_update (\<lambda>_. sb)) (qs_streams s1 p)"
    using rto_resend_spec [OF s1(1)] by blast
  have "qs_control_queue s' = qs_control_queue s1" "qs_dpdk s' = qs_dpdk s1"
    using s'(1) by (auto simp: rto_resend_def Let_def split_beta bind_r_def split: sum.splits)
  moreover have "sv_is_fin_sent (sndvar s' p)" using s'(3) s1(2) by auto
  ultimately show ?thesis
    using h s' s1 by (auto simp: flush_tcp_sending_buffer_def Let_def same_timers_def)
qed

section \<open>A close request that meets a timeout\<close>

text \<open>What the walks over the timer lists leave alone of the queue of close requests and of a stream.\<close>

definition close_kept :: "'h qstack \<Rightarrow> 'h qstack \<Rightarrow> bool" where
  "close_kept s s' \<longleftrightarrow> qs_close_queue s' = qs_close_queue s
     \<and> (\<forall>q. st_have_reset (qs_streams s' q) = st_have_reset (qs_streams s q)
          \<and> (st_state (qs_streams s q) = TCP_ST_CLOSED \<longrightarrow> st_state (qs_streams s' q) = TCP_ST_CLOSED))"

lemma close_kept_trans: "close_kept s1 s2 \<Longrightarrow> close_kept s2 s3 \<Longrightarrow> close_kept s1 s3"
  by (simp add: close_kept_def)

lemma close_kept_refl [simp]: "close_kept s s"
  by (simp add: close_kept_def)

lemma removals_close_kept:
  "post (timeout_list_remove p s) (\<lambda>(_, s'). close_kept s s')" "post (timewait_list_remove p s) (\<lambda>(_, s'). close_kept s s')"
  "post (rto_list_remove p s) (\<lambda>(_, s'). close_kept s s')" "post (stream_release_buffers p s) (close_kept s)"
  "post (stream_release_socket p s) (close_kept s)"
proof -
  show "post (timeout_list_remove p s) (\<lambda>(_, s'). close_kept s s')"
    by (auto simp: post_def timeout_list_remove_def bind_r_Inr_iff close_kept_def stack_simps split: if_splits)
  show "post (timewait_list_remove p s) (\<lambda>(_, s'). close_kept s s')"
    by (auto simp: post_def timewait_list_remove_def bind_r_Inr_iff close_kept_def stack_simps split: if_splits)
  show "post (rto_list_remove p s) (\<lambda>(_, s'). close_kept s s')"
    by (auto simp: post_def rto_list_remove_def bind_r_Inr_iff close_kept_def stack_simps split: if_splits)
  show "post (stream_release_buffers p s) (close_kept s)"
    by (auto simp: post_def stream_release_buffers_def bind_r_Inr_iff close_kept_def stack_simps Let_def split: if_splits)
  show "post (stream_release_socket p s) (close_kept s)"
    by (auto simp: post_def stream_release_socket_def bind_r_Inr_iff close_kept_def stack_simps split: option.splits)
qed

lemma close_kept_steps:
  assumes "close_kept s s0"
  shows "post (if b then timeout_list_remove p s0 else Inr (0, s0)) (\<lambda>(_, s'). close_kept s s')"
    "post (if b then timewait_list_remove p s0 else Inr (0, s0)) (\<lambda>(_, s'). close_kept s s')"
    "post (if b then rto_list_remove p s0 else Inr (0, s0)) (\<lambda>(_, s'). close_kept s s')"
  using removals_close_kept(1-3) [of p s0] close_kept_trans [OF assms] assms by (auto simp: post_def)

lemma destroy_close_kept: "post (tcp_stream_destroy ev p s) (close_kept s)"
proof -
  have rest: "post (bind_r (stream_release_buffers p s4) (\<lambda>s5. bind_r (stream_release_socket p s5)
      (\<lambda>s6. Inr (s6\<lparr>qs_stream_pool := qs_stream_pool s6 @ [p]\<rparr>)))) (close_kept s)"
    if k4: "close_kept s s4" for s4 :: "'a qstack"
  proof (rule post_bindI [OF removals_close_kept(4)], rule post_bindI [OF removals_close_kept(5)])
    fix s5 s6 assume "close_kept s4 s5" "close_kept s5 s6"
    then have "close_kept s s6" using k4 close_kept_trans by blast
    then show "post (Inr (s6\<lparr>qs_stream_pool := qs_stream_pool s6 @ [p]\<rparr>)) (close_kept s)" by (simp add: close_kept_def)
  qed
  have ht: "close_kept s (s3\<lparr>qs_stream_ht := h, qs_flow_cnt := n\<rparr>)" if "close_kept s s3" for s3 :: "'a qstack" and h n
    using that by (simp add: close_kept_def)
  show ?thesis unfolding tcp_stream_destroy_def
  proof (rule post_bindI [OF close_kept_steps(1) [OF close_kept_refl]], clarify)
    fix s1 :: "'a qstack" assume "close_kept s s1"
    then show "post (bind_r (if st_on_timewait_list (qs_streams s1 p) then timewait_list_remove p s1 else Inr (0, s1)) (\<lambda>(_, s2).
       bind_r (if st_on_rto_idx (qs_streams s2 p) \<noteq> 0 then rto_list_remove p s2 else Inr (0, s2)) (\<lambda>(_, s3).
       let (ret, ht) = ht_delete ev (qs_stream_ht s3) (stream_qtuple (qs_streams s3 p));
           s4 = s3\<lparr>qs_stream_ht := ht, qs_flow_cnt := qs_flow_cnt s3 - 1\<rparr>
       in bind_r (stream_release_buffers p s4) (\<lambda>s5. bind_r (stream_release_socket p s5)
            (\<lambda>s6. Inr (s6\<lparr>qs_stream_pool := qs_stream_pool s6 @ [p]\<rparr>)))))) (close_kept s)"
      by (intro post_bindI [OF close_kept_steps(2)]) (auto simp: Let_def split_beta intro!: rest ht
          post_bindI [OF close_kept_steps(3) [where b = True, simplified]])
  qed
qed

lemma timeout_walk_close_kept: "post (timeout_walk ev ts cnt ps s) (\<lambda>(_, s'). close_kept s s')"
proof (induction ps arbitrary: s cnt)
  case (Cons p ps)
  let ?s2 = "\<lambda>l. st_upd p (\<lambda>st. st\<lparr>st_state := TCP_ST_CLOSED, st_close_reason := ucast TCP_TIMEOUT\<rparr>)
      ((st_upd p (\<lambda>st. st\<lparr>st_on_timeout_list := False\<rparr>) s)\<lparr>qs_timeout_list := l\<rparr>)"
  have k2: "close_kept s (?s2 l)" for l by (simp add: close_kept_def stack_simps)
  have "post (bind_r (tcp_stream_destroy ev p (?s2 l)) (timeout_walk ev ts (cnt + 1) ps)) (\<lambda>(_, s'). close_kept s s')" for l
  proof (rule post_bindI [OF destroy_close_kept], rule post_mono [OF Cons.IH])
    fix s3 r assume "close_kept (?s2 l) s3" "case r of (_, s') \<Rightarrow> close_kept s3 s'"
    then show "case r of (_, s') \<Rightarrow> close_kept s s'"
      using close_kept_trans [OF close_kept_trans [OF k2]] by (auto split: prod.splits)
  qed
  then show ?case by (simp add: Let_def tailq_remove_def)
qed simp

text \<open>
  A close request that is still queued when the inactivity timer of its connection expires
  ends the process: the timer destroys the stream, which stays in the queue of close requests, and the
  handling of the request exits because it finds the stream closed.
\<close>

lemma close_meets_timeout:
  assumes ok: "can_close s p (of_nat (qa_core_id app))"
    and so: "sock_range ev k" "so_socktype (api_socket a k) = SOCK_TYPE_STREAM" "so_stream (api_socket a k) = p" "ap_stack a = s"
    and inv: "timer_inv s" "streams_live s (set (qs_timeout_list s))"
    and late: "qs_timeout_list s = p # ps" "sint TCP_TIMEOUT \<le> sint (ts - st_last_active_ts (qs_streams s p))"
  shows "\<exists>a1 n s2. q_close ev app k a = Inr (0, a1) \<and> timeout_list_check ev ts (ap_stack a1) = Inr (n, s2)
    \<and> handle_app_call ev s2 = Inl Exit0"
proof -
  let ?core = "of_nat (qa_core_id app) :: u8"
  define s1 where "s1 = sv_upd p (\<lambda>sv. sv\<lparr>sv_on_closeq := True\<rparr>)
    ((st_upd p (\<lambda>st. st\<lparr>st_closed := True\<rparr>) s)\<lparr>qs_close_queue := snd (streamq_enqueue (qs_close_queue s) ?core p)\<rparr>)"
  have close: "q_close ev app k a = Inr (0, a\<lparr>ap_stack := s1\<rparr>)"
    using ok so by (auto simp: q_close_def close_stream_socket_def can_close_def Let_def split_beta s1_def)
  have l1: "qs_timeout_list s1 = p # ps" and e1: "timeout_expired ts s1 p"
    using late by (simp_all add: s1_def timeout_expired_def stack_simps)
  have "same_timers s s1" by (simp add: s1_def same_timers_def stack_simps)
  then have i1: "timer_inv s1" using inv(1) timer_inv_same by blast
  have live1: "streams_live s1 (set (p # ps))"
    using inv(2) late(1) by (simp add: s1_def streams_live_def buffers_ok_def socket_in_use_def stack_simps)
  obtain n s2 where s2: "timeout_list_check ev ts s1 = Inr (n, s2)"
    using idle.walk_destroys [OF i1 live1 l1, of ev ts 0] by (auto simp: timeout_list_check_def l1)
  have w: "timeout_walk ev ts 0 (p # ps) s1 = bind_r (tcp_stream_destroy ev p (timeout_leave p s1)) (timeout_walk ev ts (0 + 1) ps)"
    by (rule idle.walk_fire [OF i1 l1 e1])
  then obtain s3 where s3: "tcp_stream_destroy ev p (timeout_leave p s1) = Inr s3" "timeout_walk ev ts 1 ps s3 = Inr (n, s2)"
    using s2 by (auto simp: timeout_list_check_def l1 bind_r_Inr_iff)
  have k: "close_kept (timeout_leave p s1) s2"
    using postD [OF destroy_close_kept s3(1)] postD [OF timeout_walk_close_kept s3(2)] close_kept_trans by auto
  have q: "qs_close_queue s2 = snd (streamq_enqueue (qs_close_queue s) ?core p)" "st_state (qs_streams s2 p) = TCP_ST_CLOSED"
      "\<not> st_have_reset (qs_streams s2 p)"
    using k ok by (simp_all add: close_kept_def timeout_leave_def s1_def stack_simps can_close_def)
  obtain q1 where q1: "streamq_dequeue (qs_close_queue s2) = Some (p, q1)"
    using streamq_roundtrip [of "qs_close_queue s" ?core p] ok q(1) unfolding can_close_def by metis
  have "handle_close_call ev p (s2\<lparr>qs_close_queue := q1\<rparr>) = Inl Exit0"
    using q(2,3) by (simp add: handle_close_call_def Let_def stack_simps)
  then have "handle_app_call ev s2 = Inl Exit0"
    using q1 ok by (simp add: handle_app_call_def MAX_CLOSE_BATCH_def numeral_eq_Suc can_close_def Let_def)
  then show ?thesis using close s2 by auto
qed

section \<open>Examples\<close>

text \<open>An established connection that is closed, and the same one with two segments lost before the FIN.\<close>

definition close_stack :: "(ipv4_5tuple \<Rightarrow> ptr option) qstack" where
  "close_stack = sv_upd 1 (\<lambda>sv. sv\<lparr>sv_on_control_queue := False\<rparr>) (stack3\<lparr>qs_control_queue := squeue0\<rparr>)"

definition close_api :: "(ipv4_5tuple \<Rightarrow> ptr option) api" where
  "close_api = \<lparr>ap_stack = close_stack, ap_listeners = [], ap_listener_pool = [], ap_connect_queue = (\<lambda>_. nqueue0), ap_errno = 0\<rparr>"

definition close_app :: qapp where
  "close_app = \<lparr>qa_app_id = 0, qa_core_id = 1\<rparr>"

lemma close_stack_facts:
  "qs_close_queue close_stack = nqueue0" "qs_connect_queue close_stack = nqueue0" "qs_control_queue close_stack = squeue0"
  "qs_dpdk close_stack = qs_dpdk stack0" "qs_sockets close_stack = qs_sockets stack1" "timer_inv close_stack"
  "qs_streams close_stack 1 = stream1\<lparr>st_on_rto_idx := 0, st_rcv_nxt := 77,
     st_sndvar := (st_sndvar stream1)\<lparr>sv_on_control_queue := False\<rparr>\<rparr>"
proof -
  show "timer_inv close_stack"
    using stack3_ok(1) by (simp add: close_stack_def timer_inv_same [OF same_timers_vars(1)]) (simp add: timer_inv_def)
qed (simp_all add: close_stack_def stack3_def stack1_def stack0_def sv_upd_def st_upd_def)

lemma close_stack_ok: "can_close close_stack 1 (of_nat (qa_core_id close_app))"
  using nqueue0_empty squeue0_empty cirq_full_iff [of squeue0]
  by (simp add: can_close_def close_stack_facts [unfolded One_nat_def] close_app_def stream1_def zero_stream_def)

lemma close_socket:
  "sock_range env0 2" "so_socktype (api_socket close_api 2) = SOCK_TYPE_STREAM" "so_stream (api_socket close_api 2) = 1"
  "ap_stack close_api = close_stack"
  by (simp_all add: sock_range_def env0_def close_api_def close_stack_facts stack1_def)

theorem close_sends_fin_witness:
  "\<exists>a1 s2 s3 b. q_close env0 close_app 2 close_api = Inr (0, a1) \<and> handle_app_call env0 (ap_stack a1) = Inr s2
    \<and> write_tcp_control_queue env0 9 s2 = Inr (1, s3) \<and> cirq_list (dp_th_mbufs (qs_dpdk s3)) = [b]
    \<and> th_fin (mb_tcph (mbuf_at s3 b)) \<and> ntohl (th_seq (mb_tcph (mbuf_at s3 b))) = 1001"
proof -
  have seq: "sb_next_seq (sv_sndbuf (sndvar close_stack 1)) = 1001"
    by (simp add: close_stack_facts [unfolded One_nat_def] stream1_def init_sndvar_def sb_init_def Let_def)
  have pool: "n21q_wf (dp_free_queue (qs_dpdk close_stack))" "dp_tx_pool (qs_dpdk close_stack) = 5 # [6, 7]"
    "cirq_wf (dp_th_mbufs (qs_dpdk close_stack))" "\<not> cirq_full (dp_th_mbufs (qs_dpdk close_stack))"
    "cirq_list (dp_th_mbufs (qs_dpdk close_stack)) = []" "cirq_list (qs_control_queue close_stack) = []"
    using nqueue0_empty(1) squeue0_empty cirq_full_iff [of squeue0] by (simp_all add: close_stack_facts) (simp_all add: stack0_def)
  show ?thesis
    using close_sends_fin [OF close_stack_ok pool(6) close_socket close_stack_facts(6) pool(1,2) _ pool(3,4), of 9] pool(5) seq by auto
qed

definition lost_stack :: "(ipv4_5tuple \<Rightarrow> ptr option) qstack" where
  "lost_stack = st_upd 1 (\<lambda>st. st\<lparr>st_state := TCP_ST_FIN_WAIT_1\<rparr>)
     (sv_upd 1 (\<lambda>sv. sv\<lparr>sv_is_fin_sent := True, sv_fss := 1200\<rparr>) stack2)"

theorem fin_rto_silent_witness:
  "\<exists>s'. handle_rto env0 600 1 lost_stack = Inr s' \<and> flush_tcp_sending_buffer env0 1 601 s' = Inr (0, s')"
proof -
  have "rb_rel (qs_mem lost_stack) (rv_rcvbuf (rcvvar lost_stack 1)) [] [] []"
    using init_buffers(3) by (simp add: lost_stack_def stack2_def stack_simps stack1_def stream1_def init_rcvvar_def)
  moreover have "sb_rel (qs_mem lost_stack) (sv_sndbuf (sndvar lost_stack 1)) [1, 2] [] [] []"
    using stack2(1) by (simp add: lost_stack_def stack_simps)
  ultimately have "buffers_ok lost_stack 1" unfolding buffers_ok_def by blast
  moreover have "sv_nrtx (sndvar lost_stack 1) < TCP_MAX_RTX" "sv_is_fin_sent (sndvar lost_stack 1)"
      "st_state (qs_streams lost_stack 1) = TCP_ST_FIN_WAIT_1" "sv_fss (sndvar lost_stack 1) \<noteq> 0"
    using stack2(3) by (simp_all add: lost_stack_def stack_simps TCP_MAX_RTX_def)
  moreover have "TCP_SEQ_LT (sv_snd_una (sndvar lost_stack 1)) (sv_fss (sndvar lost_stack 1))"
    by (simp add: lost_stack_def stack2_def stack1_def stream1_def init_sndvar_def stack_simps TCP_SEQ_LT_def)
  ultimately show ?thesis using fin_rto_silent [of lost_stack 1 env0 600] by blast
qed

theorem close_meets_timeout_witness:
  "\<exists>a1 n s2. q_close env0 close_app 2 close_api = Inr (0, a1) \<and> timeout_list_check env0 TCP_TIMEOUT (ap_stack a1) = Inr (n, s2)
     \<and> handle_app_call env0 s2 = Inl Exit0"
proof -
  have live: "streams_live close_stack (set (qs_timeout_list close_stack))"
    using stack1_live by (simp add: streams_live_def buffers_ok_def socket_in_use_def close_stack_def stack3_def stack_simps
        stack1_def stream1_def)
  have late: "qs_timeout_list close_stack = 1 # []"
      "sint TCP_TIMEOUT \<le> sint (TCP_TIMEOUT - st_last_active_ts (qs_streams close_stack 1))"
    by (simp_all add: close_stack_facts [unfolded One_nat_def] stream1_def zero_stream_def) (simp add: close_stack_def stack3_def stack1_def stack_simps)
  show ?thesis
    by (rule close_meets_timeout [OF close_stack_ok close_socket close_stack_facts(6) live late])
qed

end
