(* ===== verification/Receive_Path.thy ===== *)
theory Receive_Path
  imports Main_Loop
begin

text \<open>
  A data segment on its way through the stack: from the driver's queue through the layers into the
  receive buffer of its connection and from there to the application that reads.
\<close>

section \<open>A segment that acknowledges nothing new\<close>

definition rx_same :: "ptr \<Rightarrow> 'h qstack \<Rightarrow> 'h qstack \<Rightarrow> bool" where
  "rx_same p s s' \<longleftrightarrow> qs_mem s' = qs_mem s \<and> qs_dpdk s' = qs_dpdk s \<and> qs_events s' = qs_events s \<and> qs_sockets s' = qs_sockets s
     \<and> st_state (qs_streams s' p) = st_state (qs_streams s p) \<and> st_rcv_nxt (qs_streams s' p) = st_rcv_nxt (qs_streams s p)
     \<and> rv_rcvbuf (rcvvar s' p) = rv_rcvbuf (rcvvar s p) \<and> sv_sndbuf (sndvar s' p) = sv_sndbuf (sndvar s p)
     \<and> sv_wscale_peer (sndvar s' p) = sv_wscale_peer (sndvar s p) \<and> (\<forall>q. q \<noteq> p \<longrightarrow> qs_streams s' q = qs_streams s q)"

lemma rx_same_trans: "rx_same p s1 s2 \<Longrightarrow> rx_same p s2 s3 \<Longrightarrow> rx_same p s1 s3"
  by (simp add: rx_same_def)

lemma old_ack:
  assumes "st_state (qs_streams s p) = TCP_ST_ESTABLISHED" "\<not> th_syn th" "sv_wscale_peer (sndvar s p) < 32"
    "ack = sb_head_seq (sv_sndbuf (sndvar s p))" "unat (sb_len (sv_sndbuf (sndvar s p))) < 2 ^ 31" "0 < n"
  obtains s' where "process_tcp_ack p ts th seq ack w n s = Inr s'" "rx_same p s s'"
proof -
  define s1 where "s1 = ack_update_window p (push_bit (unat (sv_wscale_peer (sndvar s p))) (ucast w)) seq ack s"
  define s2 where "s2 = ack_recover p ack (ack_count_dup p False ack s1)"
  have a: "data_ack (qs_streams s p) ack = ack" using assms(1) by (simp add: data_ack_def closing_state_def)
  have g: "\<not> TCP_SEQ_GT ack (sb_head_seq (sv_sndbuf (sndvar s p)) + sb_len (sv_sndbuf (sndvar s p)))"
    using assms(4,5) by (simp add: seq_window_simps(3) [where base = ack])
  have d: "\<not> ack_is_dup p e ack n s1" for e using assms(6) by (simp add: ack_is_dup_def)
  have c: "ack_congestion p False ack (ack_count_dup p False ack s1) = Inr (ack_count_dup p False ack s1)"
    by (simp add: ack_congestion_def ack_count_dup_def stack_simps)
  have h: "sb_head_seq (sv_sndbuf (sndvar s2 p)) = ack"
    using assms(4) by (simp add: s2_def s1_def ack_recover_def ack_count_dup_def ack_update_window_def Let_def stack_simps)
  have "process_tcp_ack p ts th seq ack w n s = Inr s2"
    using assms(2,3) a g d c h
    by (simp add: process_tcp_ack_def Let_def s1_def [symmetric] ack_finish_def s2_def [symmetric] not_le [symmetric] TCP_SEQ_GEQ_def)
  moreover have "rx_same p s s2"
    by (simp add: rx_same_def s2_def s1_def ack_recover_def ack_count_dup_def ack_update_window_def Let_def stack_simps)
  ultimately show thesis by (rule that)
qed

lemma enqueue_ack_same: "rx_same p s (snd (enqueue_ack p opt s))"
  by (cases opt) (simp_all add: rx_same_def enqueue_ack_def ack_queue_add_def Let_def stack_simps split_beta)

section \<open>From the header to the receive buffer\<close>

text \<open>
  The connection \<open>p\<close> with socket \<open>k\<close> is established, its receive buffer is empty, and \<open>n\<close>
  bytes in the mbuf \<open>x\<close> are the next it expects and fit into its window and buffer.
\<close>

definition rx_open :: "'h qstack \<Rightarrow> ptr \<Rightarrow> nat \<Rightarrow> nat \<Rightarrow> bool" where
  "rx_open s p k n \<longleftrightarrow> st_state (qs_streams s p) = TCP_ST_ESTABLISHED \<and> watched s p k
     \<and> rb_rel (qs_mem s) (rv_rcvbuf (rcvvar s p)) [] [] []
     \<and> st_rcv_nxt (qs_streams s p) = rb_merged_next (rv_rcvbuf (rcvvar s p))
     \<and> 0 < n \<and> n < 2 ^ 16 \<and> n \<le> unat (rv_rcv_wnd (rcvvar s p)) \<and> unat (rv_rcv_wnd (rcvvar s p)) < 2 ^ 31
     \<and> \<not> TCP_SEQ_GT (rb_merged_next (rv_rcvbuf (rcvvar s p)) + of_nat n)
           (rb_head_seq (rv_rcvbuf (rcvvar s p)) + rb_size (rv_rcvbuf (rcvvar s p)))
     \<and> sv_wscale_peer (sndvar s p) < 32 \<and> unat (sb_len (sv_sndbuf (sndvar s p))) < 2 ^ 31"

definition rx_next :: "'h qstack \<Rightarrow> ptr \<Rightarrow> ptr \<Rightarrow> nat \<Rightarrow> bool" where
  "rx_next s p x n \<longleftrightarrow> x \<noteq> NULL \<and> \<not> mb_priority (mbuf_at s x) \<and> mb_tcp_seq (mbuf_at s x) = st_rcv_nxt (qs_streams s p)
     \<and> mb_payload_len (mbuf_at s x) = of_nat n \<and> has_payload (qs_mem s) x"

text \<open>What the application's read will find.\<close>

definition rx_done :: "'h qstack \<Rightarrow> ptr \<Rightarrow> nat \<Rightarrow> ptr \<Rightarrow> nat \<Rightarrow> 'h qstack \<Rightarrow> bool" where
  "rx_done s p k x n s' \<longleftrightarrow> st_state (qs_streams s' p) = TCP_ST_ESTABLISHED
     \<and> rb_rel (qs_mem s') (rv_rcvbuf (rcvvar s' p)) [x] [] [] \<and> has_payload (qs_mem s') x \<and> unread (qs_mem s') x
     \<and> mb_payload_len (mbuf_at s' x) = of_nat n \<and> st_rcv_nxt (qs_streams s' p) = st_rcv_nxt (qs_streams s p) + of_nat n
     \<and> qs_sockets s' = qs_sockets s \<and> qs_dpdk s' = qs_dpdk s \<and> mm_released (qs_mem s') = mm_released (qs_mem s)
     \<and> qs_events s' = qs_events s @ [(Q_EPOLLIN, CreateQevent 0 (qs_stack_id s) k
           (unat (so_default_app (tb_sockets (qs_sockets s) k))) Q_READ)]
     \<and> (\<forall>q. q \<noteq> p \<longrightarrow> qs_streams s' q = qs_streams s q)"

lemma rx_done_same: "rx_done s p k x n s1 \<Longrightarrow> rx_same p s1 s2 \<Longrightarrow> rx_done s p k x n s2"
  by (simp add: rx_done_def rx_same_def)

lemma established_data:
  assumes ready: "rx_open s p k n" "rx_next s p x n" and th: "\<not> th_syn th" "\<not> th_fin th" "th_ack th"
    and ack: "ack = sb_head_seq (sv_sndbuf (sndvar s p))"
  obtains s' where "Handle_TCP_ST_ESTABLISHED ev p ts th (st_rcv_nxt (qs_streams s p)) ack x (int n) w s = Inr s'"
    "rx_done s p k x n s'"
proof -
  have n: "n = unat (mb_payload_len (mbuf_at s x))" using ready by (simp add: rx_open_def rx_next_def unat_of_nat)
  have e: "seg_end (qs_mem s) x = st_rcv_nxt (qs_streams s p) + of_nat n"
    using ready(2) n by (simp add: seg_end_def rx_next_def)
  have o: "st_state (qs_streams s p) = TCP_ST_ESTABLISHED" "watched s p k" "rb_rel (qs_mem s) (rv_rcvbuf (rcvvar s p)) [] [] []"
      "length ([] :: ptr list) < 7" "st_rcv_nxt (qs_streams s p) = rb_merged_next (rv_rcvbuf (rcvvar s p))"
      "x \<noteq> NULL" "\<not> mb_priority (mbuf_at s x)" "seg_seq (qs_mem s) x = st_rcv_nxt (qs_streams s p)"
      "n = unat (mb_payload_len (mbuf_at s x))" "0 < n" "n \<le> unat (rv_rcv_wnd (rcvvar s p))" "unat (rv_rcv_wnd (rcvvar s p)) < 2 ^ 31"
      "\<not> TCP_SEQ_GT (seg_end (qs_mem s) x) (rb_head_seq (rv_rcvbuf (rcvvar s p)) + rb_size (rv_rcvbuf (rcvvar s p)))"
    using ready n e by (simp_all add: rx_open_def rx_next_def seg_seq_def)
  obtain s1 where s1: "process_tcp_payload ev p x (st_rcv_nxt (qs_streams s p)) (int n) s = Inr (1, s1)"
      "st_rcv_nxt (qs_streams s1 p) = st_rcv_nxt (qs_streams s p) + of_nat n"
      "rb_rel (qs_mem s1) (rv_rcvbuf (rcvvar s1 p)) ([] @ [x]) [] []"
      "qs_events s1 = qs_events s @ [(Q_EPOLLIN, CreateQevent 0 (qs_stack_id s) k
        (unat (so_default_app (tb_sockets (qs_sockets s) k))) Q_READ)]"
      "\<forall>q. q \<noteq> p \<longrightarrow> qs_streams s1 q = qs_streams s q" "mm_released (qs_mem s1) = mm_released (qs_mem s)"
      "mb_state (mbuf_at s1 x) = MBUF_STATE_RBUFFED" "seg_kept (qs_mem s) (qs_mem s1)"
      "st_state (qs_streams s1 p) = TCP_ST_ESTABLISHED" "sndvar s1 p = sndvar s p" "qs_sockets s1 = qs_sockets s" "qs_dpdk s1 = qs_dpdk s"
    using payload_in_order [OF o, of ev] by blast
  have done1: "rx_done s p k x n s1"
    using s1 ready(2) has_payload_kept [OF s1(8)] by (simp add: rx_done_def rx_next_def unread_def seg_kept_def)
  define s2 where "s2 = snd (enqueue_ack p ACK_OPT_AGGREGATE s1)"
  have s2: "rx_done s p k x n s2" "sv_sndbuf (sndvar s2 p) = sv_sndbuf (sndvar s p)" "sv_wscale_peer (sndvar s2 p) = sv_wscale_peer (sndvar s p)"
    using rx_done_same [OF done1] enqueue_ack_same [of p s1 ACK_OPT_AGGREGATE] s1(10) by (simp_all add: s2_def rx_same_def)
  obtain s3 where s3: "process_tcp_ack p ts th (st_rcv_nxt (qs_streams s p)) ack w (int n) s2 = Inr s3" "rx_same p s2 s3"
    using old_ack [of s2 p th ack "int n" ts "st_rcv_nxt (qs_streams s p)" w] s2 th ready ack by (auto simp: rx_open_def rx_done_def)
  have "Handle_TCP_ST_ESTABLISHED ev p ts th (st_rcv_nxt (qs_streams s p)) ack x (int n) w s = Inr s3"
    using th ready(1) s1(1) s3(1) by (simp add: Handle_TCP_ST_ESTABLISHED_def rx_open_def s2_def [symmetric])
  then show thesis using that rx_done_same [OF s2(1) s3(2)] by blast
qed

lemma rx_open_frame:
  assumes "rx_open s p k n" "rx_same p s s'" "rcvvar s' p = rcvvar s p"
    "st_socket (qs_streams s' p) = st_socket (qs_streams s p)" "st_id (qs_streams s' p) = st_id (qs_streams s p)"
  shows "rx_open s' p k n"
  using assms by (simp add: rx_open_def rx_same_def watched_def)

lemma rx_next_frame: "rx_next s p x n \<Longrightarrow> rx_same p s s' \<Longrightarrow> rx_next s' p x n"
  by (simp add: rx_next_def rx_same_def)

lemma timer_frame_rx:
  assumes "timer_frame s s'" "\<forall>q. q \<noteq> p \<longrightarrow> qs_streams s' q = qs_streams s q"
  shows "rx_same p s s'" "st_id (qs_streams s' p) = st_id (qs_streams s p)"
proof -
  have f: "st_rcv_nxt (qs_streams s' p) = st_rcv_nxt (qs_streams s p)" "st_id (qs_streams s' p) = st_id (qs_streams s p)"
      "sv_wscale_peer (sndvar s' p) = sv_wscale_peer (sndvar s p)"
    by (rule timer_frame_field [OF assms(1)], simp add: no_timer_fields_def)+
  then show "rx_same p s s'" "st_id (qs_streams s' p) = st_id (qs_streams s p)"
    using assms(2) by (simp_all add: rx_same_def timer_frameD [OF assms(1)])
qed

lemma accepted_data:
  assumes ready: "rx_open s p k n" "rx_next s p x n" and inv: "timer_inv s"
    and th: "\<not> th_syn (mb_tcph mb)" "\<not> th_rst (mb_tcph mb)" "\<not> th_fin (mb_tcph mb)" "th_ack (mb_tcph mb)"
    and ack: "ack = sb_head_seq (sv_sndbuf (sndvar s p))"
  obtains s' where "accepted_packet ev p ts mb (st_rcv_nxt (qs_streams s p)) ack x (int n) w s = Inr (TRUE, s')"
    "rx_done s p k x n s'"
proof -
  define s1 where "s1 = sv_upd p (\<lambda>sv. sv\<lparr>sv_peer_wnd := push_bit (unat (sv_wscale_peer sv)) (ucast w)\<rparr>) s"
  have s1: "rx_same p s s1" "timer_inv s1" "rcvvar s1 p = rcvvar s p" "st_id (qs_streams s1 p) = st_id (qs_streams s p)"
      "st_socket (qs_streams s1 p) = st_socket (qs_streams s p)" "qs_stack_id s1 = qs_stack_id s"
    using inv by (simp_all add: s1_def rx_same_def stack_simps timer_inv_same [OF same_timers_vars(1)])
  obtain s2 where s2: "timeout_list_update p ts s1 = Inr s2" "timer_inv s2" using timeout_list_update_inv [OF s1(2)] by blast
  note fr = timer_frame_update(1) [OF s2(1)]
  have oth: "\<forall>q. q \<noteq> p \<longrightarrow> qs_streams s2 q = qs_streams s1 q" using timeout_update_other [OF s2(1)] by blast
  have same: "rx_same p s s2" using rx_same_trans [OF s1(1)] timer_frame_rx(1) [OF fr oth] by blast
  have o: "rx_open s2 p k n"
    using rx_open_frame [OF ready(1) same] timer_frameD(2,3) [OF fr, of p] timer_frame_rx(2) [OF fr oth] s1 by simp
  have nx: "rx_next s2 p x n" by (rule rx_next_frame [OF ready(2) same])
  have sm: "st_rcv_nxt (qs_streams s2 p) = st_rcv_nxt (qs_streams s p)" "sv_sndbuf (sndvar s2 p) = sv_sndbuf (sndvar s p)"
      "qs_stack_id s2 = qs_stack_id s"
    using same s1(6) by (simp_all add: rx_same_def timer_frameD [OF fr])
  obtain s' where s': "Handle_TCP_ST_ESTABLISHED ev p ts (mb_tcph mb) (st_rcv_nxt (qs_streams s p)) ack x (int n) w s2 = Inr s'"
    "rx_done s2 p k x n s'"
    using established_data [OF o nx th(1,3,4), of ack ev ts w] ack sm by auto
  have d: "rx_done s p k x n s'" using s'(2) same sm(3) unfolding rx_done_def rx_same_def by auto
  have "\<not> 32 \<le> sv_wscale_peer (sndvar s p)" using ready(1) by (simp add: rx_open_def not_le)
  then have "accepted_packet ev p ts mb (st_rcv_nxt (qs_streams s p)) ack x (int n) w s
      = bind_r (timeout_list_update p ts s1) (\<lambda>s2. bind_r (dispatch_state ev p ts mb (st_rcv_nxt (qs_streams s p)) ack x (int n) w s2)
          (\<lambda>s5. Inr (TRUE, s5)))"
    using th by (simp add: accepted_packet_def Let_def s1_def truthy_def FALSE_def)
  moreover have "dispatch_state ev p ts mb (st_rcv_nxt (qs_streams s p)) ack x (int n) w s2 = Inr s'"
    using s'(1) o by (simp add: dispatch_state_def Let_def rx_open_def)
  ultimately show thesis using that [OF _ d] s2(1) by simp
qed

lemma in_window:
  assumes "rx_open s p k n"
  shows "TCP_SEQ_BETWEEN (st_rcv_nxt (qs_streams s p) + of_nat n) (st_rcv_nxt (qs_streams s p))
    (st_rcv_nxt (qs_streams s p) + rv_rcv_wnd (rcvvar s p))"
proof -
  have n: "0 < n" "n < 2 ^ 31" "n \<le> unat (rv_rcv_wnd (rcvvar s p))" "unat (rv_rcv_wnd (rcvvar s p)) < 2 ^ 31"
    using assms by (auto simp: rx_open_def)
  then show ?thesis
    using seq_ahead [OF n(1,2), of "st_rcv_nxt (qs_streams s p)"] seq_ahead(2) [OF n(1,2), of "rv_rcv_wnd (rcvvar s p)" "st_rcv_nxt (qs_streams s p)"]
    by (auto simp: TCP_SEQ_BETWEEN_def seq_defs)
qed

lemma stream_data:
  assumes ready: "rx_open s p k n" "rx_next s p x n" and inv: "timer_inv s"
    and th: "\<not> th_syn (mb_tcph mb)" "\<not> th_rst (mb_tcph mb)" "\<not> th_fin (mb_tcph mb)" "th_ack (mb_tcph mb)"
    and ack: "ack = sb_head_seq (sv_sndbuf (sndvar s p))"
  obtains s' where "stream_packet ev p ts mb (st_rcv_nxt (qs_streams s p)) ack x (int n) w s = Inr (TRUE, s')"
    "rx_done s p k x n s'"
proof -
  define s1 where "s1 = st_upd p (\<lambda>st. st\<lparr>st_last_active_ts := ts\<rparr>) s"
  have s1: "rx_same p s s1" "timer_inv s1" "rcvvar s1 p = rcvvar s p" "st_id (qs_streams s1 p) = st_id (qs_streams s p)"
      "st_socket (qs_streams s1 p) = st_socket (qs_streams s p)" "qs_stack_id s1 = qs_stack_id s"
    using inv timer_inv_state [of "\<lambda>st. st\<lparr>st_last_active_ts := ts\<rparr>" p s] by (simp_all add: s1_def rx_same_def stack_simps)
  have o: "rx_open s1 p k n" by (rule rx_open_frame [OF ready(1) s1(1,3,5,4)])
  have sm: "st_rcv_nxt (qs_streams s1 p) = st_rcv_nxt (qs_streams s p)" "sv_sndbuf (sndvar s1 p) = sv_sndbuf (sndvar s p)"
      "st_state (qs_streams s1 p) = TCP_ST_ESTABLISHED"
    using s1(1) o by (simp_all add: rx_same_def rx_open_def)
  have chk: "check_sequence_validation p ts (mb_tcph mb) (st_rcv_nxt (qs_streams s p)) (int n) s1 = Inr (TRUE, s1)"
    using in_window [OF o] by (simp add: check_sequence_validation_def Let_def sm(1))
  obtain s' where s': "accepted_packet ev p ts mb (st_rcv_nxt (qs_streams s1 p)) ack x (int n) w s1 = Inr (TRUE, s')"
    "rx_done s1 p k x n s'"
    using accepted_data [OF o rx_next_frame [OF ready(2) s1(1)] s1(2) th, of ack ev ts w] ack sm by auto
  have d: "rx_done s p k x n s'" using s'(2) s1(1,6) unfolding rx_done_def rx_same_def by auto
  have "st_state (qs_streams s1 p) > TCP_ST_SYN_RCVD" by (simp add: sm(3) less_tcp_state_def)
  then have "stream_packet ev p ts mb (st_rcv_nxt (qs_streams s p)) ack x (int n) w s = Inr (TRUE, s')"
    using chk s'(1) sm(1) by (simp add: stream_packet_def Let_def s1_def [symmetric])
  then show thesis using that d by blast
qed

text \<open>The frame in \<open>x\<close> carries \<open>n\<close> bytes for the connection \<open>p\<close>, with the options of a plain data segment.\<close>

definition data_frame :: "'h env \<Rightarrow> 'h qstack \<Rightarrow> ptr \<Rightarrow> ptr \<Rightarrow> nat \<Rightarrow> bool" where
  "data_frame ev s p x n \<longleftrightarrow>
     (let mb = mbuf_at s x; th = mb_tcph mb; iph = mb_iph mb
      in x \<noteq> NULL \<and> \<not> mb_priority mb \<and> ntohs (eth_proto (mb_eth mb)) = ETH_P_IP \<and> for_me ev (mb_eth mb)
         \<and> ip_ihl iph = 5 \<and> ip_version iph = 4 \<and> ip_protocol iph = IPPROTO_TCP
         \<and> 5 \<le> th_doff th \<and> th_doff th \<le> 15 \<and> unat (ntohs (ip_tot_len iph)) = 20 + 4 * th_doff th + n
         \<and> \<not> th_syn th \<and> \<not> th_rst th \<and> \<not> th_fin th \<and> th_ack th
         \<and> StreamHTSearch ev (qs_stream_ht s) (packet_qtuple mb) = p \<and> p \<noteq> NULL
         \<and> ntohl (th_seq th) = st_rcv_nxt (qs_streams s p) \<and> ntohl (th_ack_seq th) = sb_head_seq (sv_sndbuf (sndvar s p)))"

lemma rx_open_mem: "rx_open s p k n \<Longrightarrow> rx_open (mem_upd x f s) p k n"
  by (auto simp: rx_open_def watched_def rb_rel_def mem_upd_def heap_upd_def ooo_ordered_def mlist_def)

lemma l4_len_set: "d \<le> 15 \<Longrightarrow> l4_len (set_l4_len (of_nat (d * 4)) w) = of_nat (d * 4)"
proof -
  assume d: "d \<le> 15"
  have "l4_len (set_l4_len v w) = take_bit 8 v" for v w
    unfolding l4_len_def set_l4_len_def by (rule bit_word_eqI) (auto simp: bit_simps)
  moreover have "take_bit 8 (of_nat (d * 4) :: u64) = of_nat (d * 4)"
    using d by (simp add: word_unat_eq_iff unat_of_nat take_bit_eq_mod unat_mod del: of_nat_mult)
  ultimately show ?thesis by simp
qed

lemma tcp_data:
  assumes f: "data_frame ev s p x n" and o: "rx_open s p k n" and inv: "timer_inv s"
  obtains s' where "process_tcp_packet ev ts x (uint (ntohs (ip_tot_len (mb_iph (mbuf_at s x))))) s = Inr (TRUE, s')"
    "rx_done s p k x n s'"
proof -
  let ?mb = "mbuf_at s x"
  let ?th = "mb_tcph ?mb"
  define s1 where "s1 = mem_upd x (\<lambda>mb. mb\<lparr>mb_tcp_seq := ntohl (th_seq ?th), mb_payload_len := of_int (int n),
    mb_tx_offload := set_l4_len (of_nat (th_doff ?th * 4)) (mb_tx_offload mb)\<rparr>) s"
  have f': "x \<noteq> NULL" "\<not> mb_priority ?mb" "ip_ihl (mb_iph ?mb) = 5" "5 \<le> th_doff ?th" "th_doff ?th \<le> 15"
      "unat (ntohs (ip_tot_len (mb_iph ?mb))) = 20 + 4 * th_doff ?th + n"
      "\<not> th_syn ?th" "\<not> th_rst ?th" "\<not> th_fin ?th" "th_ack ?th"
      "StreamHTSearch ev (qs_stream_ht s) (packet_qtuple ?mb) = p" "p \<noteq> NULL"
      "ntohl (th_seq ?th) = st_rcv_nxt (qs_streams s p)" "ntohl (th_ack_seq ?th) = sb_head_seq (sv_sndbuf (sndvar s p))"
    using f by (simp_all add: data_frame_def Let_def)
  have len: "uint (ntohs (ip_tot_len (mb_iph ?mb))) = 20 + 4 * int (th_doff ?th) + int n"
    using arg_cong [OF f'(6), of int] by simp
  have s1: "qs_streams s1 = qs_streams s" "qs_stream_ht s1 = qs_stream_ht s" "timer_inv s1"
    using inv by (simp_all add: s1_def)
  have o1: "rx_open s1 p k n" unfolding s1_def by (rule rx_open_mem [OF o])
  have nz: "(of_nat (th_doff ?th * 4) :: u64) \<noteq> 0"
    using f'(4,5) by (simp add: word_unat_eq_iff unat_of_nat del: of_nat_mult)
  have nx: "rx_next s1 p x n"
    using f' nz l4_len_set [OF f'(5)] by (simp add: rx_next_def s1_def stack_simps has_payload_def del: of_nat_mult)
  have ps: "packet_stream ev ts ?mb (ntohl (th_seq ?th)) (ntohs (th_window ?th)) s1 = Inr (p, s1)"
    using f' s1(2) by (simp add: packet_stream_def Let_def)
  have pl: "uint (ntohs (ip_tot_len (mb_iph ?mb))) - int (IP_HEADER_LEN + th_doff ?th * 4) = int n"
    using len by (simp add: IP_HEADER_LEN_def)
  have ok: "\<not> (th_doff ?th = 0 \<or> uint (ntohs (ip_tot_len (mb_iph ?mb))) < int ((ip_ihl (mb_iph ?mb) + th_doff ?th) * 4))"
    using f'(3,4) len by simp
  obtain s' where s': "stream_packet ev p ts ?mb (st_rcv_nxt (qs_streams s1 p)) (ntohl (th_ack_seq ?th)) x (int n) (ntohs (th_window ?th)) s1 = Inr (TRUE, s')"
    "rx_done s1 p k x n s'"
    using stream_data [OF o1 nx s1(3) f'(7-10), of "ntohl (th_ack_seq ?th)" ev ts "ntohs (th_window ?th)"] f'(14) s1(1) by auto
  have d: "rx_done s p k x n s'"
    using s'(2) by (simp add: rx_done_def s1_def)
  have "process_tcp_packet ev ts x (uint (ntohs (ip_tot_len (mb_iph ?mb)))) s
      = bind_r (packet_stream ev ts ?mb (ntohl (th_seq ?th)) (ntohs (th_window ?th)) s1) (\<lambda>(p, s2).
             if p = NULL then Inr (FAILED, s2)
             else stream_packet ev p ts ?mb (ntohl (th_seq ?th)) (ntohl (th_ack_seq ?th)) x (int n) (ntohs (th_window ?th)) s2)"
    unfolding process_tcp_packet_def Let_def pl s1_def [symmetric] using f'(1) ok by (simp only: if_False if_not_P)
  also have "\<dots> = Inr (TRUE, s')" using ps s'(1) f'(12,13) s1(1) by simp
  finally show thesis using that d by blast
qed

lemma frame_data:
  assumes f: "data_frame ev s p x n" and o: "rx_open s p k n" and inv: "timer_inv s"
  obtains s' where "process_eth_packet ev ifidx ts x s = Inr (TRUE, s')" "rx_done s p k x n s'"
proof -
  define s1 where "s1 = mem_upd x (\<lambda>mb. mb\<lparr>mb_state := MBUF_STATE_RCVED,
    mb_tx_offload := set_l2_len (of_nat ETHERNET_HEADER_LEN) (mb_tx_offload mb)\<rparr>) s"
  define s2 where "s2 = mem_upd x (\<lambda>mb. mb\<lparr>mb_tx_offload := set_l3_len (of_nat IP_HEADER_LEN) (mb_tx_offload mb)\<rparr>) s1"
  have s2: "data_frame ev s2 p x n" "rx_open s2 p k n" "timer_inv s2" "mb_iph (mbuf_at s2 x) = mb_iph (mbuf_at s x)"
    using f o inv unfolding s2_def s1_def
    by (simp_all add: data_frame_def Let_def stack_simps rx_open_mem packet_qtuple_def)
  obtain s' where s': "process_tcp_packet ev ts x (uint (ntohs (ip_tot_len (mb_iph (mbuf_at s2 x))))) s2 = Inr (TRUE, s')"
    "rx_done s2 p k x n s'"
    using tcp_data [OF s2(1-3)] by blast
  have "process_eth_packet ev ifidx ts x s = process_ipv4_packet ev ts x s1"
    using f by (simp add: process_eth_packet_def data_frame_def Let_def s1_def [symmetric])
  also have "\<dots> = process_tcp_packet ev ts x (uint (ntohs (ip_tot_len (mb_iph (mbuf_at s2 x))))) s2"
    using f by (simp add: process_ipv4_packet_def data_frame_def Let_def IP_HEADER_LEN_def s1_def s2_def stack_simps)
  finally show thesis using that s' by (simp add: rx_done_def s2_def s1_def)
qed

section \<open>Reading\<close>

lemma q_recv_one:
  assumes rel: "rb_rel (qs_mem s) (rv_rcvbuf (rcvvar s p)) [x] [] []" and x: "has_payload (qs_mem s) x" "unread (qs_mem s) x"
    and st: "st_state (qs_streams s p) = TCP_ST_ESTABLISHED"
    and so: "sock_range ev k" "so_socktype (api_socket a k) \<noteq> SOCK_TYPE_LISTENER" "so_stream (api_socket a k) = p" "p \<noteq> NULL"
      "ap_stack a = s"
  obtains a' f m where "q_recv ev app k a = Inr (x, uint (mb_payload_len (mbuf_at s x)), a')"
    "rb_rel (qs_mem (ap_stack a')) (rv_rcvbuf (rcvvar (ap_stack a') p)) [] [] []"
    "mb_state (mbuf_at (ap_stack a') x) = MBUF_STATE_RREAD"
    "rv_rcv_wnd (rcvvar (ap_stack a') p) = rb_size (rv_rcvbuf (rcvvar (ap_stack a') p)) - rb_merged_len (rv_rcvbuf (rcvvar (ap_stack a') p))"
    "a' = a\<lparr>ap_stack := rv_upd p f (s\<lparr>qs_mem := m\<rparr>)\<rparr>" "mm_count m = mm_count (qs_mem s)" "mm_released m = mm_released (qs_mem s)"
    "mm_heap m = (mm_heap (qs_mem s))(x := (mbuf_at s x)\<lparr>mb_state := MBUF_STATE_RREAD\<rparr>)"
proof -
  have xn: "x \<noteq> NULL" using rel by (auto simp: rb_rel_def)
  obtain b m where g: "rb_get (qa_core_id app) (rv_rcvbuf (rcvvar s p)) (qs_mem s) = Inr (x, b, m)" "rb_rel m b [] [] []"
      "seg_kept (qs_mem s) m" "mm_heap m = mm_heap (qs_mem s)" "mm_released m = mm_released (qs_mem s)"
    using rb_get_low [OF rel, of "qa_core_id app"] x by (auto simp: first_of_def)
  define s1 where "s1 = rv_upd p (\<lambda>rv. rv\<lparr>rv_rcvbuf := b\<rparr>) (s\<lparr>qs_mem := m\<rparr>)"
  define s2 where "s2 = mem_upd x (\<lambda>mb. mb\<lparr>mb_state := MBUF_STATE_RREAD\<rparr>) s1"
  define s3 where "s3 = rv_upd p (\<lambda>rv. rv\<lparr>rv_rcv_wnd := rb_size (rv_rcvbuf rv) - rb_merged_len (rv_rcvbuf rv)\<rparr>) s2"
  have pl: "mb_payload_len (mbuf_at s2 x) = mb_payload_len (mbuf_at s x)"
    using g(4) by (simp add: s2_def s1_def stack_simps)
  have s3: "rv_rcvbuf (rcvvar s3 p) = b" "qs_mem s3 = heap_upd x (\<lambda>mb. mb\<lparr>mb_state := MBUF_STATE_RREAD\<rparr>) m"
      "rv_rcv_wnd (rcvvar s3 p) = rb_size b - rb_merged_len b"
    by (simp_all add: s3_def s2_def s1_def stack_simps mem_upd_def)
  have "q_recv ev app k a = Inr (x, uint (mb_payload_len (mbuf_at s x)), a\<lparr>ap_stack := s3\<rparr>)"
    using so st g(1) xn pl
    by (simp add: q_recv_def sock_stream_def Let_def s1_def [symmetric] s2_def [symmetric] s3_def [symmetric]
        less_eq_tcp_state_def less_tcp_state_def)
  moreover have "rb_rel (qs_mem s3) (rv_rcvbuf (rcvvar s3 p)) [] [] []"
    using rb_rel_state_updates g(2) s3 unfolding set_mbuf_state_def [symmetric] by simp
  moreover have "s3 = rv_upd p (\<lambda>rv. rv\<lparr>rv_rcvbuf := b, rv_rcv_wnd := rb_size b - rb_merged_len b\<rparr>)
      (s\<lparr>qs_mem := heap_upd x (\<lambda>mb. mb\<lparr>mb_state := MBUF_STATE_RREAD\<rparr>) m\<rparr>)"
    by (simp add: s3_def s2_def s1_def mem_upd_def rv_upd_def st_upd_def comp_def)
  ultimately show thesis using that [of "a\<lparr>ap_stack := s3\<rparr>"] s3 g(3-5) by (simp add: heap_upd_def seg_kept_def)
qed

section \<open>Main property\<close>

text \<open>
  C4 (functional). A frame that waits in the driver's receive queue and carries the next bytes of an
  established connection goes all the way: one step of the receive loop takes it through the layers
  into the connection's receive buffer and keeps its mbuf, the application gets a read event, and the
  application's next read returns this mbuf with the length of its payload and leaves the buffer
  empty. No other connection changes.
\<close>

theorem frame_reaches_reader:
  assumes drv: "rx_ok 0 (qs_dpdk s)" "rx_line s = x # xs"
    and f: "data_frame ev s p x n" and o: "rx_open s p k n" and inv: "timer_inv s"
    and so: "k < ev_max_concurrency ev" "so_socktype (tb_sockets (qs_sockets s) k) = SOCK_TYPE_STREAM"
      "so_stream (tb_sockets (qs_sockets s) k) = p"
  shows "\<exists>s' a'. recv_loop ev ts 1 s = Inr s' \<and> rx_line s' = xs
    \<and> st_rcv_nxt (qs_streams s' p) = st_rcv_nxt (qs_streams s p) + of_nat n
    \<and> qs_events s' = qs_events s @ [(Q_EPOLLIN, CreateQevent 0 (qs_stack_id s) k
           (unat (so_default_app (tb_sockets (qs_sockets s) k))) Q_READ)]
    \<and> mm_released (qs_mem s') = mm_released (qs_mem s) \<and> (\<forall>q. q \<noteq> p \<longrightarrow> qs_streams s' q = qs_streams s q)
    \<and> q_recv ev app (int k) (a\<lparr>ap_stack := s'\<rparr>) = Inr (x, int n, a')
    \<and> cirq_list (rb_merged_q (rv_rcvbuf (rcvvar (ap_stack a') p))) = []"
proof -
  obtain len s1 where s1: "io_recv_mbuf s = Inr (x, len, s1)" "rx_line s1 = xs"
      "\<exists>rh rl. s1 = dp_upd (\<lambda>d. d\<lparr>dp_rh_mbufs := rh, dp_rl_mbufs := rl\<rparr>) s"
    using io_recv_mbuf_next [OF drv] by metis
  have k: "qs_mem s1 = qs_mem s" "qs_streams s1 = qs_streams s" "qs_sockets s1 = qs_sockets s" "qs_stream_ht s1 = qs_stream_ht s"
      "qs_events s1 = qs_events s" "qs_stack_id s1 = qs_stack_id s" "same_timers s s1"
    using s1(3) by (auto simp: dp_upd_def same_timers_def)
  have f1: "data_frame ev s1 p x n" and o1: "rx_open s1 p k n"
    using f o k by (simp_all add: data_frame_def rx_open_def watched_def)
  have inv1: "timer_inv s1" using inv timer_inv_same [OF k(7)] by simp
  obtain s' where s': "process_eth_packet ev 0 ts x s1 = Inr (TRUE, s')" "rx_done s1 p k x n s'"
    using frame_data [OF f1 o1 inv1] by blast
  have mb: "unat (mb_payload_len (mbuf_at s' x)) = n" using s'(2) o by (simp add: rx_done_def rx_open_def unat_of_nat)
  have rd: "mb_state (mbuf_at s' x) \<noteq> MBUF_STATE_RCVED" using s'(2) by (simp add: rx_done_def unread_def mbuf_state_defs)
  have loop: "recv_loop ev ts 1 s = Inr s'" using s1(1) s'(1) rd by simp
  have p: "p \<noteq> NULL" using f by (simp add: data_frame_def Let_def)
  obtain a' where a': "q_recv ev app (int k) (a\<lparr>ap_stack := s'\<rparr>) = Inr (x, uint (mb_payload_len (mbuf_at s' x)), a')"
    "rb_rel (qs_mem (ap_stack a')) (rv_rcvbuf (rcvvar (ap_stack a') p)) [] [] []"
  proof (rule q_recv_one)
    show "rb_rel (qs_mem s') (rv_rcvbuf (rcvvar s' p)) [x] [] []" "has_payload (qs_mem s') x" "unread (qs_mem s') x"
      "st_state (qs_streams s' p) = TCP_ST_ESTABLISHED" using s'(2) by (simp_all add: rx_done_def)
    show "sock_range ev (int k)" "so_socktype (api_socket (a\<lparr>ap_stack := s'\<rparr>) (int k)) \<noteq> SOCK_TYPE_LISTENER"
      "so_stream (api_socket (a\<lparr>ap_stack := s'\<rparr>) (int k)) = p" "p \<noteq> NULL" "ap_stack (a\<lparr>ap_stack := s'\<rparr>) = s'"
      using so s'(2) k(3) p by (simp_all add: sock_range_def rx_done_def)
  qed
  have len: "uint (mb_payload_len (mbuf_at s' x)) = int n" using mb by (simp flip: mb)
  show ?thesis
    using loop a' s'(2) s1(2) k len
    by (intro exI [of _ s'] exI [of _ a']) (simp add: rx_done_def rx_line_def rb_rel_def)
qed

text \<open>
  One IP packet with options, which any host on the network can send, ends the process: its
  header is longer than 20 bytes, for which the code prints a message that exits.
\<close>

lemma ip_options_end_stack:
  assumes drv: "rx_ok 0 (qs_dpdk s)" "rx_line s = x # xs"
    and f: "ntohs (eth_proto (mb_eth (mbuf_at s x))) = ETH_P_IP" "for_me ev (mb_eth (mbuf_at s x))"
      "ip_ihl (mb_iph (mbuf_at s x)) \<noteq> 5"
  shows "recv_loop ev ts (Suc n) s = Inl Exit0"
proof -
  obtain len s1 where s1: "io_recv_mbuf s = Inr (x, len, s1)" "qs_mem s1 = qs_mem s"
    using io_recv_mbuf_next [OF drv] by metis
  then show ?thesis
    using f by (simp add: process_eth_packet_def process_ipv4_packet_def Let_def stack_simps IP_HEADER_LEN_def)
qed

text \<open>
  A frame that none of the layers up to TCP wants. ARP frames, also those for other stations, go to the
  address resolution.
\<close>

definition foreign_frame :: "'h env \<Rightarrow> mbuf \<Rightarrow> bool" where
  "foreign_frame ev mb \<longleftrightarrow>
     (let proto = ntohs (eth_proto (mb_eth mb)); iph = mb_iph mb
      in proto \<noteq> ETH_P_IP \<and> proto \<noteq> ETH_P_ARP
         \<or> proto = ETH_P_IP \<and> (\<not> for_me ev (mb_eth mb) \<or> ip_version iph \<noteq> 4 \<or> ip_protocol iph \<noteq> IPPROTO_TCP))"

text \<open>
  C39 (safety). A frame that is neither IP nor ARP, an IP frame for another station, or one for this station that is
  not IPv4 or holds no TCP, leaves no trace: the receive loop releases its mbuf once and changes no connection, timer,
  event or socket. The one exception is an IP frame for this station with IP options (a header length other than five words): it
  ends the process. ARP frames are not foreign: theory \<open>Arp\<close> has what they do.
\<close>

theorem foreign_frame_freed:
  assumes drv: "rx_ok 0 (qs_dpdk s)" "rx_line s = x # xs" and f: "foreign_frame ev (mbuf_at s x)"
  shows "if ntohs (eth_proto (mb_eth (mbuf_at s x))) = ETH_P_IP \<and> for_me ev (mb_eth (mbuf_at s x)) \<and> ip_ihl (mb_iph (mbuf_at s x)) \<noteq> 5
    then recv_loop ev ts 1 s = Inl Exit0
    else \<exists>s'. recv_loop ev ts 1 s = Inr s' \<and> rx_line s' = xs
      \<and> mm_released (qs_mem s') = mm_released (qs_mem s) @ [(qs_stack_id s, x)]
      \<and> qs_streams s' = qs_streams s \<and> same_timers s s' \<and> qs_events s' = qs_events s \<and> qs_sockets s' = qs_sockets s
      \<and> (\<forall>y. y \<noteq> x \<longrightarrow> mbuf_at s' y = mbuf_at s y)"
proof (cases "ntohs (eth_proto (mb_eth (mbuf_at s x))) = ETH_P_IP \<and> for_me ev (mb_eth (mbuf_at s x)) \<and> ip_ihl (mb_iph (mbuf_at s x)) \<noteq> 5")
  case True
  then show ?thesis using ip_options_end_stack [OF drv, of ev ts 0] by simp
next
  case False
  obtain len s1 where s1: "io_recv_mbuf s = Inr (x, len, s1)" "rx_line s1 = xs"
      "\<exists>rh rl. s1 = dp_upd (\<lambda>d. d\<lparr>dp_rh_mbufs := rh, dp_rl_mbufs := rl\<rparr>) s"
    using io_recv_mbuf_next [OF drv] by metis
  have k: "qs_mem s1 = qs_mem s" "qs_streams s1 = qs_streams s" "qs_sockets s1 = qs_sockets s" "qs_events s1 = qs_events s"
      "qs_stack_id s1 = qs_stack_id s" "same_timers s s1"
    using s1(3) by (auto simp: dp_upd_def same_timers_def)
  have xn: "x \<noteq> NULL" using drv by (auto simp: rx_ok_queues rx_line_def dest!: arg_cong [of _ _ set])
  define s2 where "s2 = mem_upd x (\<lambda>mb. mb\<lparr>mb_state := MBUF_STATE_RCVED,
    mb_tx_offload := set_l2_len (of_nat ETHERNET_HEADER_LEN) (mb_tx_offload mb)\<rparr>) s1"
  define s3 where "s3 = mem_upd x (\<lambda>mb. mb\<lparr>mb_tx_offload := set_l3_len (of_nat IP_HEADER_LEN) (mb_tx_offload mb)\<rparr>) s2"
  have mb: "mb_eth (mbuf_at s2 x) = mb_eth (mbuf_at s x)" "mb_iph (mbuf_at s2 x) = mb_iph (mbuf_at s x)"
    by (simp_all add: s2_def stack_simps k(1))
  have "process_eth_packet ev 0 ts x s1 = Inr (FAILED, s2) \<or> process_eth_packet ev 0 ts x s1 = Inr (FAILED, s3)"
    using f False mb by (auto simp: foreign_frame_def process_eth_packet_def process_ipv4_packet_def Let_def k(1) s2_def [symmetric]
        s3_def IP_HEADER_LEN_def ETH_P_IP_def ETH_P_ARP_def)
  then obtain s4 where s4: "process_eth_packet ev 0 ts x s1 = Inr (FAILED, s4)" "s4 = s2 \<or> s4 = s3" by blast
  have k4: "qs_streams s4 = qs_streams s" "qs_sockets s4 = qs_sockets s" "qs_events s4 = qs_events s" "qs_stack_id s4 = qs_stack_id s"
      "same_timers s s4" "qs_dpdk s4 = qs_dpdk s1" "mb_state (mbuf_at s4 x) = MBUF_STATE_RCVED" "mm_released (qs_mem s4) = mm_released (qs_mem s)"
      "y \<noteq> x \<Longrightarrow> mbuf_at s4 y = mbuf_at s y" for y
    using s4(2) k by (auto simp: s2_def s3_def stack_simps same_timers_def)
  have "recv_loop ev ts 1 s = Inr (s4\<lparr>qs_mem := io_free_mbuf (qs_stack_id s4) x (heap_upd x (mb_state_update (\<lambda>_. MBUF_STATE_FREE)) (qs_mem s4))\<rparr>)"
    using s1(1) s4(1) k4(7) xn by (simp add: mbuf_free_def)
  then show ?thesis
    unfolding if_not_P [OF False] using k4 s1(2) by (simp add: io_free_mbuf_def rx_line_def same_timers_def heap_upd_def)
qed

text \<open>Five bytes for stream 1 in the driver's queue.\<close>

definition rx_mbuf :: mbuf where
  "rx_mbuf = mbuf0\<lparr>mb_eth := \<lparr>eth_dest = [2, 0, 0, 0, 0, 1], eth_source = [2, 0, 0, 0, 0, 2], eth_proto = htons ETH_P_IP\<rparr>,
     mb_iph := \<lparr>ip_ihl = 5, ip_version = 4, ip_tos = 0, ip_tot_len = htons 45, ip_id = 0, ip_frag_off = 0, ip_ttl = 64,
       ip_protocol = IPPROTO_TCP, ip_check = 0, ip_saddr = 0, ip_daddr = 0\<rparr>,
     mb_tcph := (mb_tcph mbuf0)\<lparr>th_source := 4000, th_dest := 80, th_seq := htonl 78, th_ack_seq := htonl 1001, th_doff := 5,
       th_syn := False, th_rst := False, th_fin := False, th_ack := True\<rparr>\<rparr>"

definition rx_stack :: "(ipv4_5tuple \<Rightarrow> ptr option) qstack" where
  "rx_stack = stack7\<lparr>qs_mem := \<lparr>mm_heap = (\<lambda>_. rx_mbuf), mm_released = [], mm_count = 9\<rparr>,
     qs_sockets := (qs_sockets stack1)\<lparr>tb_sockets := (\<lambda>_. socket0\<lparr>so_socktype := SOCK_TYPE_STREAM, so_default_app := 3,
       so_qe := 8, so_stream := 1\<rparr>)\<rparr>,
     qs_dpdk := (qs_dpdk stack0)\<lparr>dp_rl_mbufs := snd (cirq_add squeue0 6)\<rparr>\<rparr>"

definition rx_api :: "(ipv4_5tuple \<Rightarrow> ptr option) api" where
  "rx_api = \<lparr>ap_stack = rx_stack, ap_listeners = [], ap_listener_pool = [], ap_connect_queue = (\<lambda>_. nqueue0), ap_errno = 0\<rparr>"

lemma rx_stack_open: "rx_open rx_stack 1 2 5"
proof -
  have st: "qs_streams rx_stack 1 = stream1\<lparr>st_id := 2, st_rcv_nxt := 78\<rparr>" by (simp add: rx_stack_def stack7_def)
  have b: "rv_rcvbuf (rcvvar rx_stack 1) = rb_init 8 (rv_rcvbuf (st_rcvvar zero_stream)) 78"
    by (simp add: st [unfolded One_nat_def] stream1_def init_rcvvar_def)
  have rel: "rb_rel (qs_mem rx_stack) (rv_rcvbuf (rcvvar rx_stack 1)) [] [] []" unfolding b by (rule init_buffers(3))
  have w: "rv_rcv_wnd (rcvvar rx_stack 1) = 14600" by (simp add: st [unfolded One_nat_def] stream1_def init_rcvvar_def TCP_INITIAL_WINDOW_def)
  have seq: "\<not> TCP_SEQ_GT (rb_merged_next (rv_rcvbuf (rcvvar rx_stack 1)) + of_nat 5)
      (rb_head_seq (rv_rcvbuf (rcvvar rx_stack 1)) + rb_size (rv_rcvbuf (rcvvar rx_stack 1)))"
    unfolding b by (simp add: rb_init_def seq_defs)
  have nxt: "st_rcv_nxt (qs_streams rx_stack 1) = rb_merged_next (rv_rcvbuf (rcvvar rx_stack 1))"
    unfolding b by (simp add: st [unfolded One_nat_def] rb_init_def)
  show ?thesis unfolding rx_open_def
    by (intro conjI rel seq nxt) (simp_all only: w, simp_all add: st [unfolded One_nat_def] watched_def, simp_all add: rx_stack_def stream1_def init_sndvar_def zero_stream_def
        sb_init_def sb_len_def)
qed

lemma rx_stack_frame: "data_frame env0 rx_stack 1 6 5"
  by (simp add: data_frame_def Let_def rx_stack_def rx_mbuf_def stack7_def stack1_def mbuf0_def for_me_def ETH_ALEN_def env0_def
      upt_rec packet_qtuple_def init_sndvar_def sb_init_def ht_search_def stream_qtuple_def stream1_def zero_stream_def)

lemma rx_stack_driver: "rx_ok 0 (qs_dpdk rx_stack)" "rx_line rx_stack = [6]"
proof -
  note a = cirq_add_room [of squeue0 6]
  have nf: "cirq_wf squeue0" "\<not> cirq_full squeue0" using squeue0_empty cirq_full_iff [of squeue0] by simp_all
  have "cirq_capacity (snd (cirq_add squeue0 6)) = 3" using a(3) [OF nf] squeue0_empty(3) by (simp add: cirq_capacity_def)
  then show "rx_ok 0 (qs_dpdk rx_stack)" "rx_line rx_stack = [6]"
    using a [OF nf] squeue0_empty by (simp_all add: rx_ok_queues rx_line_def rx_stack_def) (simp_all add: stack0_def)
qed

theorem frame_reaches_reader_witness:
  "\<exists>s' a'. recv_loop env0 9 1 rx_stack = Inr s' \<and> st_rcv_nxt (qs_streams s' 1) = 83
     \<and> q_recv env0 \<lparr>qa_app_id = 0, qa_core_id = 1\<rparr> 2 (rx_api\<lparr>ap_stack := s'\<rparr>) = Inr (6, 5, a')"
proof -
  have inv: "timer_inv rx_stack"
    by (simp add: timer_inv_def rx_stack_def stack7_def stack1_def stack0_def stream1_def zero_stream_def RTO_STORAGE_def)
  have so: "2 < ev_max_concurrency env0" "so_socktype (tb_sockets (qs_sockets rx_stack) 2) = SOCK_TYPE_STREAM"
      "so_stream (tb_sockets (qs_sockets rx_stack) 2) = 1" "st_rcv_nxt (qs_streams rx_stack 1) = 78"
    by (simp_all add: env0_def rx_stack_def stack7_def)
  show ?thesis
    using frame_reaches_reader [OF rx_stack_driver rx_stack_frame rx_stack_open inv so(1-3), of 9 "\<lparr>qa_app_id = 0, qa_core_id = 1\<rparr>" rx_api]
      so(4) by auto
qed

theorem foreign_frame_freed_witness:
  "\<exists>s'. recv_loop env0 9 1 (rx_stack\<lparr>qs_mem := \<lparr>mm_heap = (\<lambda>_. mbuf0), mm_released = [], mm_count = 9\<rparr>\<rparr>) = Inr s'
     \<and> mm_released (qs_mem s') = [(0, 6)]"
proof -
  let ?s = "rx_stack\<lparr>qs_mem := \<lparr>mm_heap = (\<lambda>_. mbuf0), mm_released = [], mm_count = 9\<rparr>\<rparr>"
  have d: "rx_ok 0 (qs_dpdk ?s)" "rx_line ?s = [6]" using rx_stack_driver by (simp_all add: rx_line_def)
  have p: "ntohs (eth_proto (mb_eth (mbuf_at ?s 6))) \<noteq> ETH_P_IP" "foreign_frame env0 (mbuf_at ?s 6)"
    by (simp_all add: foreign_frame_def mbuf0_def ETH_P_IP_def ETH_P_ARP_def ntohs_def)
  have "qs_stack_id ?s = 0" by (simp add: rx_stack_def stack7_def stack1_def stack0_def)
  then show ?thesis using foreign_frame_freed [OF d p(2), of 9] p(1) by auto
qed

theorem ip_options_end_stack_witness:
  "recv_loop env0 9 1 (rx_stack\<lparr>qs_mem := \<lparr>mm_heap = (\<lambda>_. rx_mbuf\<lparr>mb_iph := (mb_iph rx_mbuf)\<lparr>ip_ihl := 6\<rparr>\<rparr>),
     mm_released = [], mm_count = 9\<rparr>\<rparr>) = Inl Exit0"
proof -
  let ?s = "rx_stack\<lparr>qs_mem := \<lparr>mm_heap = (\<lambda>_. rx_mbuf\<lparr>mb_iph := (mb_iph rx_mbuf)\<lparr>ip_ihl := 6\<rparr>\<rparr>), mm_released = [], mm_count = 9\<rparr>\<rparr>"
  have "rx_ok 0 (qs_dpdk ?s)" "rx_line ?s = [6]" using rx_stack_driver by (simp_all add: rx_line_def)
  moreover have "ntohs (eth_proto (mb_eth (mbuf_at ?s 6))) = ETH_P_IP" "for_me env0 (mb_eth (mbuf_at ?s 6))"
      "ip_ihl (mb_iph (mbuf_at ?s 6)) \<noteq> 5"
    by (simp_all add: rx_mbuf_def mbuf0_def for_me_def ETH_ALEN_def env0_def upt_rec)
  ultimately show ?thesis using ip_options_end_stack [of ?s 6 "[]" env0 9 0] by simp
qed

end
