(* ===== verification/Send_Path.thy ===== *)
theory Send_Path
  imports Main_Loop
begin

text \<open>
  An application's write on its way down: \<^verbatim>\<open>q_send\<close> of \<^verbatim>\<open>api.c\<close>, the send buffer, the queue of
  streams with data and the flushing of \<^verbatim>\<open>tcp_out.c\<close>, up to the driver's transmit queue.
\<close>

section \<open>Into the send buffer\<close>

text \<open>
  Nothing waits in the send buffer of the connection \<open>p\<close>, and \<open>n\<close> bytes fit into its segments, its
  buffer and its windows.
\<close>

definition tx_open :: "'h qstack \<Rightarrow> ptr \<Rightarrow> nat \<Rightarrow> bool" where
  "tx_open s p n \<longleftrightarrow> st_state (qs_streams s p) = TCP_ST_ESTABLISHED \<and> \<not> sv_is_fin_sent (sndvar s p)
     \<and> sb_rel (qs_mem s) (sv_sndbuf (sndvar s p)) [] [] [] []
     \<and> sb_head_seq (sv_sndbuf (sndvar s p)) = sv_snd_una (sndvar s p)
     \<and> sb_next_seq (sv_sndbuf (sndvar s p)) = sv_snd_una (sndvar s p)
     \<and> st_snd_nxt (qs_streams s p) = sv_snd_una (sndvar s p)
     \<and> 0 < n \<and> n \<le> 1500 \<and> n \<le> unat (sv_mss (sndvar s p)) \<and> n \<le> unat (sb_size (sv_sndbuf (sndvar s p)))
     \<and> 0 < sint (sv_snd_wnd (sndvar s p)) \<and> unat (send_window s p) < 2 ^ 31"

definition written :: "ptr \<Rightarrow> nat \<Rightarrow> 'h qstack \<Rightarrow> 'h qstack \<Rightarrow> ptr \<Rightarrow> bool" where
  "written p n s s' x \<longleftrightarrow> can_flush (send_window s' p) s' p [] [x] (st_snd_nxt (qs_streams s p) + of_nat n)
     \<and> \<not> sv_is_fin_sent (sndvar s' p) \<and> sb_len (sv_sndbuf (sndvar s' p)) \<noteq> 0
     \<and> st_state (qs_streams s' p) = TCP_ST_ESTABLISHED \<and> st_snd_nxt (qs_streams s' p) = st_snd_nxt (qs_streams s p)
     \<and> (\<forall>q. q \<noteq> p \<longrightarrow> qs_streams s' q = qs_streams s q) \<and> qs_dpdk s' = qs_dpdk s"

lemma can_flush_cong:
  assumes "same_timers s s'" "qs_streams s' = qs_streams s" "qs_mem s' = qs_mem s" "qs_dpdk s' = qs_dpdk s"
  shows "can_flush v s' p us qs e = can_flush v s p us qs e" "send_window s' p = send_window s p"
  using timer_inv_same [OF assms(1)] assms(2-4) by (simp_all add: can_flush_def send_window_def)

lemma ucast_of_nat_u16: "n \<le> 1500 \<Longrightarrow> (ucast (of_nat n :: u16) :: u32) = of_nat n"
  by (simp add: word_unat_eq_iff unat_ucast16 unat_of_nat)

lemma send_from_user_empty:
  assumes o: "tx_open s p n" and inv: "timer_inv s"
    and x: "x \<noteq> NULL" "x \<le> mm_count (qs_mem s)" "\<not> mb_priority (mbuf_at s x)" "mb_payload_len (mbuf_at s x) = of_nat n"
    and room: "cirq_wf (dp_th_mbufs (qs_dpdk s))" "\<not> cirq_full (dp_th_mbufs (qs_dpdk s))"
  obtains s' where "send_from_user p x s = (int n, s')" "written p n s s' x" "\<not> mb_priority (mbuf_at s' x)"
    "qs_send_event_queue s' = qs_send_event_queue s" "qs_send_hevent_queue s' = qs_send_hevent_queue s"
    "rcvvar s' p = rcvvar s p" "mm_released (qs_mem s') = mm_released (qs_mem s)" "\<And>z. z \<noteq> x \<Longrightarrow> mbuf_at s' z = mbuf_at s z"
proof -
  let ?sb = "sv_sndbuf (sndvar s p)" and ?una = "sv_snd_una (sndvar s p)"
  have n: "0 < n" "n \<le> 1500" "n \<le> unat (sv_mss (sndvar s p))" "n \<le> unat (sb_size ?sb)" "0 < sint (sv_snd_wnd (sndvar s p))"
      "unat (send_window s p) < 2 ^ 31"
    and rel: "sb_rel (qs_mem s) ?sb [] [] [] []" and seqs: "sb_head_seq ?sb = ?una" "sb_next_seq ?sb = ?una"
    using o by (simp_all add: tx_open_def)
  have u: "unat (of_nat n :: u16) = n" "unat (of_nat n :: u32) = n" using n(2) by (simp_all add: unat_of_nat)
  have un: "uint (of_nat n :: u16) = int n" using arg_cong [OF u(1), of int] by simp
  obtain r b m where put: "sb_put ?sb x (qs_mem s) = (r, b, m)" by (cases "sb_put ?sb x (qs_mem s)")
  have ne: "mb_payload_len (mm_heap (qs_mem s) x) \<noteq> 0" using x(4) u(1) n(1) by (metis unat_eq_zero less_irrefl)
  have fit: "ucast (mb_payload_len (mm_heap (qs_mem s) x)) \<le> sb_size ?sb - sb_len ?sb"
    using n(4) u by (simp add: sb_len_def seqs x(4) word_le_nat_alt unat_ucast16)
  note k = sb_put_kept [OF put ne fit]
  obtain q where q: "mbufq_enqueue (sb_usnd_q ?sb) x = (SUCCESS, q)" "cirq_list q = [x]" "dir_cirq_wf q"
    using mbufq_enqueue_room [of "sb_usnd_q ?sb" x] rel by (auto simp: sb_rel_def)
  have r: "r = int n" "sb_usnd_q b = q" using k(10) [OF x(3) q(1)] x(4) u(1) by simp_all
  define s' where "s' = sv_upd p (\<lambda>sv. sv\<lparr>sv_snd_wnd := sb_size b - sb_len b\<rparr>) (set_sndbuf p b m s)"
  have su: "send_from_user p x s = (int n, s')"
    using n(1,5) un by (simp add: send_from_user_def Let_def x(4) put s'_def r(1) min_def)
  have f: "sv_sndbuf (sndvar s' p) = b" "qs_mem s' = m" "send_window s' p = send_window s p" "sv_mss (sndvar s' p) = sv_mss (sndvar s p)"
      "sv_snd_una (sndvar s' p) = ?una" "qs_dpdk s' = qs_dpdk s" "st_snd_nxt (qs_streams s' p) = st_snd_nxt (qs_streams s p)"
      "sv_is_fin_sent (sndvar s' p) = sv_is_fin_sent (sndvar s p)" "st_state (qs_streams s' p) = st_state (qs_streams s p)"
      "\<forall>q. q \<noteq> p \<longrightarrow> qs_streams s' q = qs_streams s q"
      "qs_send_event_queue s' = qs_send_event_queue s" "qs_send_hevent_queue s' = qs_send_hevent_queue s" "rcvvar s' p = rcvvar s p"
    by (simp_all add: s'_def set_sndbuf_def send_window_def stack_simps)
  have "same_timers s s'" by (simp add: s'_def set_sndbuf_def same_timers_def stack_simps)
  then have inv': "timer_inv s'" using inv timer_inv_same by blast
  have rel': "sb_rel m b [] [] [x] []"
    using rel q(2,3) r(2) k x by (simp add: sb_rel_def mlist_def)
  have seg: "seg_seq m x = ?una" "seg_end m x = ?una + of_nat n" "mb_payload_len (mm_heap m x) = of_nat n"
    using seqs(2) x(4) by (simp_all add: seg_seq_def seg_end_def k(1) ucast_of_nat_u16 [OF n(2)])
  have win: "\<not> TCP_SEQ_GT (?una + of_nat n) (?una + send_window s p)"
  proof -
    have "1500 \<le> unat (send_window s p)" by (simp add: send_window_def SEND_WINDOW_MIN_def max_def word_le_nat_alt)
    then show ?thesis using n(1,2,6) seq_ahead(2) [of n "send_window s p" ?una] by simp
  qed
  have cf: "can_flush (send_window s' p) s' p [] [x] (st_snd_nxt (qs_streams s p) + of_nat n)"
    using inv' rel' x(1,2) room win seg n(3) u(1) k(2,5) ne o seqs cirq_list_bound [OF room(1)] cirq_full_iff [OF room(1)]
    by (simp add: can_flush_def f word_le_nat_alt tx_open_def x(4))
  have "sb_len b = of_nat n" using k(4,5) seqs by (simp add: sb_len_def x(4) ucast_of_nat_u16 [OF n(2)])
  then have len: "sb_len b \<noteq> 0" using u(2) n(1) by (metis unat_eq_zero less_irrefl)
  show thesis
    by (rule that [OF su]) (use f cf len o k(1,3) x(3) in \<open>simp_all add: written_def tx_open_def\<close>)
qed

section \<open>From the queue of streams to the driver\<close>

lemma send_queue_empty:
  assumes "n21q_wf (qs_send_event_queue s)" "n21q_items (qs_send_event_queue s) = {#}"
    "n21q_wf (qs_send_hevent_queue s)" "n21q_items (qs_send_hevent_queue s) = {#}"
  obtains q h where "get_from_send_queue s = Inr (NULL, s\<lparr>qs_send_hevent_queue := h, qs_send_event_queue := q\<rparr>)"
proof -
  obtain h where h: "streamq_dequeue (qs_send_hevent_queue s) = Some (NULL, h)" by (rule streamq_empty [OF assms(3,4)])
  obtain q where q: "streamq_dequeue (qs_send_event_queue s) = Some (NULL, q)" by (rule streamq_empty [OF assms(1,2)])
  show thesis by (rule that [of q h]) (simp add: get_from_send_queue_def h q)
qed

text \<open>One stream is waiting with one segment.\<close>

lemma send_queue_one:
  assumes w: "written p n s s' x" and p: "p \<noteq> NULL"
    and q: "streamq_dequeue (qs_send_event_queue s') = Some (p, q)" "n21q_wf q" "n21q_items q = {#}"
    and h: "n21q_wf (qs_send_hevent_queue s')" "n21q_items (qs_send_hevent_queue s') = {#}"
  obtains s2 where "write_tcp_send_queue ev ts s' = Inr (1, s2)"
    "cirq_list (dp_th_mbufs (qs_dpdk s2)) = cirq_list (dp_th_mbufs (qs_dpdk s)) @ [x]"
    "ntohl (th_seq (mb_tcph (mbuf_at s2 x))) = st_snd_nxt (qs_streams s p)"
    "st_snd_nxt (qs_streams s2 p) = st_snd_nxt (qs_streams s p) + of_nat n"
    "sb_rel (qs_mem s2) (sv_sndbuf (sndvar s2 p)) [x] [] [] []" "\<And>q. q \<noteq> p \<Longrightarrow> qs_streams s2 q = qs_streams s q"
proof -
  obtain h1 where h1: "streamq_dequeue (qs_send_hevent_queue s') = Some (NULL, h1)" "n21q_wf h1" "n21q_items h1 = {#}"
    by (rule streamq_empty [OF h])
  define s1 where "s1 = s'\<lparr>qs_send_hevent_queue := h1, qs_send_event_queue := q\<rparr>"
  have get: "get_from_send_queue s' = Inr (p, s1)" using p by (simp add: get_from_send_queue_def h1 q(1) s1_def)
  have same: "same_timers s' s1" by (simp add: s1_def same_timers_def)
  note cf = can_flush_cong [OF same]
  have c1: "can_flush (send_window s1 p) s1 p [] [x] (st_snd_nxt (qs_streams s p) + of_nat n)" "\<not> sv_is_fin_sent (sndvar s1 p)"
      "sb_len (sv_sndbuf (sndvar s1 p)) \<noteq> 0" "st_state (qs_streams s1 p) = TCP_ST_ESTABLISHED"
    using w cf by (simp_all add: written_def s1_def)
  have sq: "seg_seq (qs_mem s1) x = st_snd_nxt (qs_streams s p)"
    using w unfolding written_def can_flush_def s1_def by auto
  obtain s2 where s2: "flush_tcp_sending_buffer ev p ts s1 = Inr (1, s2)"
      "sb_rel (qs_mem s2) (sv_sndbuf (sndvar s2 p)) [x] [] [] []" "st_snd_nxt (qs_streams s2 p) = st_snd_nxt (qs_streams s p) + of_nat n"
      "cirq_list (dp_th_mbufs (qs_dpdk s2)) = cirq_list (dp_th_mbufs (qs_dpdk s1)) @ [x]"
      "\<forall>q. q \<noteq> p \<longrightarrow> qs_streams s2 q = qs_streams s1 q" "ntohl (th_seq (mb_tcph (mbuf_at s2 x))) = seg_seq (qs_mem s1) x"
      "qs_send_event_queue s2 = q" "qs_send_hevent_queue s2 = h1"
    using flush_sends [OF c1(1-3), of ev ts] by (auto simp: s1_def)
  define s3 where "s3 = sv_upd p (\<lambda>sv. sv\<lparr>sv_on_send_queue := False,
    sv_ack_cnt := (if sv_ack_cnt sv > 0 then piggyback 1 (sv_ack_cnt sv) else sv_ack_cnt sv)\<rparr>) s2"
  define s4 where "s4 = (if st_control_list_waiting (qs_streams s3 p) \<and> \<not> sv_on_ack_queue (sndvar s3 p)
    then snd (control_queue_add p (st_upd p (\<lambda>st. st\<lparr>st_control_list_waiting := False\<rparr>) s3)) else s3)"
  have s4: "qs_mem s4 = qs_mem s2" "qs_dpdk s4 = qs_dpdk s2" "sv_sndbuf (sndvar s4 p) = sv_sndbuf (sndvar s2 p)"
      "st_snd_nxt (qs_streams s4 p) = st_snd_nxt (qs_streams s2 p)" "\<forall>q. q \<noteq> p \<longrightarrow> qs_streams s4 q = qs_streams s2 q"
      "qs_send_event_queue s4 = q" "qs_send_hevent_queue s4 = h1"
    using s2(7,8) by (simp_all add: s4_def s3_def control_queue_add_def sstreamq_enqueue_def Let_def split_beta stack_simps)
  obtain q5 h5 where s5: "get_from_send_queue s4 = Inr (NULL, s4\<lparr>qs_send_hevent_queue := h5, qs_send_event_queue := q5\<rparr>)"
    using send_queue_empty [of s4] s4(6,7) q(2,3) h1(2,3) by metis
  have last: "send_loop (Suc 31) ev ts 1 s4 = Inr (1, s4\<lparr>qs_send_hevent_queue := h5, qs_send_event_queue := q5\<rparr>)"
    using s5 by (subst send_loop.simps(2)) (simp add: MAX_DATA_PKT_BATCH_def)
  have first: "send_loop (Suc (Suc 31)) ev ts 0 s' = send_loop (Suc 31) ev ts 1 s4"
    using get p c1(4) s2(1) by (subst send_loop.simps(2))
      (simp add: MAX_DATA_PKT_BATCH_def Let_def s3_def [symmetric] s4_def del: send_loop.simps)
  have "write_tcp_send_queue ev ts s' = Inr (1, s4\<lparr>qs_send_hevent_queue := h5, qs_send_event_queue := q5\<rparr>)"
    using first last by (simp add: write_tcp_send_queue_def del: send_loop.simps)
  then show thesis
    by (rule that) (use s2 s4 sq w in \<open>simp_all add: s1_def written_def\<close>)
qed

section \<open>A write by the application\<close>

lemma q_send_written:
  assumes o: "tx_open s p n" and inv: "timer_inv s"
    and so: "sock_range ev k" "so_socktype (api_socket a k) \<noteq> SOCK_TYPE_LISTENER" "so_stream (api_socket a k) = p" "p \<noteq> NULL"
      "ap_stack a = s"
    and x: "x \<noteq> NULL" "x \<le> mm_count (qs_mem s)" "mb_state (mbuf_at s x) = MBUF_STATE_TALLOC"
    and room: "cirq_wf (dp_th_mbufs (qs_dpdk s))" "\<not> cirq_full (dp_th_mbufs (qs_dpdk s))"
  obtains s2 where "q_send ev app k x (of_nat n) 0 a = Inr (int n, a\<lparr>ap_stack := s2\<rparr>)" "written p n s s2 x"
    "qs_send_event_queue s2 = snd (streamq_enqueue (qs_send_event_queue s) (of_nat (qa_core_id app)) p)"
    "qs_send_hevent_queue s2 = qs_send_hevent_queue s" "rcvvar s2 p = rcvvar s p"
    "mm_released (qs_mem s2) = mm_released (qs_mem s)" "\<And>z. z \<noteq> x \<Longrightarrow> mbuf_at s2 z = mbuf_at s z"
proof -
  have n: "0 < n" "n \<le> 1500" "st_state (qs_streams s p) = TCP_ST_ESTABLISHED" using o by (simp_all add: tx_open_def)
  have u: "ucast (of_nat n :: u32) = (of_nat n :: u16)" "(of_nat n :: u32) \<noteq> 0"
    using n(1,2) by (simp_all add: word_unat_eq_iff unat_of_nat unsigned_ucast_eq take_bit_eq_mod)
  define s1 where "s1 = mem_upd x (\<lambda>mb. mb\<lparr>mb_payload_len := of_nat n, mb_buf_next := NULL, mb_priority := False\<rparr>) s"
  have s1: "qs_streams s1 = qs_streams s" "qs_dpdk s1 = qs_dpdk s" "timer_inv s1" "mm_count (qs_mem s1) = mm_count (qs_mem s)"
      "qs_send_event_queue s1 = qs_send_event_queue s" "qs_send_hevent_queue s1 = qs_send_hevent_queue s"
      "\<not> mb_priority (mbuf_at s1 x)" "mb_payload_len (mbuf_at s1 x) = of_nat n" "mm_released (qs_mem s1) = mm_released (qs_mem s)"
      "\<And>z. z \<noteq> x \<Longrightarrow> mbuf_at s1 z = mbuf_at s z"
    using inv by (simp_all add: s1_def stack_simps)
  have o1: "tx_open s1 p n"
    using o by (simp add: tx_open_def s1(1) send_window_def sb_rel_def s1_def mem_upd_def mlist_def)
  obtain s' where s': "send_from_user p x s1 = (int n, s')" "written p n s1 s' x" "\<not> mb_priority (mbuf_at s' x)"
      "qs_send_event_queue s' = qs_send_event_queue s" "qs_send_hevent_queue s' = qs_send_hevent_queue s"
      "rcvvar s' p = rcvvar s p" "mm_released (qs_mem s') = mm_released (qs_mem s)" "\<And>z. z \<noteq> x \<Longrightarrow> mbuf_at s' z = mbuf_at s z"
    using send_from_user_empty [OF o1 s1(3) x(1) _ s1(7,8)] x(2) room s1(1,2,4-6,9,10) by metis
  define s2 where "s2 = s'\<lparr>qs_send_event_queue := snd (streamq_enqueue (qs_send_event_queue s) (of_nat (qa_core_id app)) p)\<rparr>"
  have add: "snd (send_event_add (qa_core_id app) p False s') = s2"
    by (simp add: send_event_add_def send_event_enqueue_def send_event_queue_select_def s2_def s'(4) split_beta Let_def)
  have fl: "has_flag 0 QFLAG_SEND_HIGHPRI = False" by (simp add: has_flag_def)
  have st1: "mem_upd x (\<lambda>mb. mb\<lparr>mb_payload_len := ucast (of_nat n :: u32), mb_buf_next := NULL, mb_priority := False\<rparr>)
      (mem_upd x (\<lambda>mb. mb\<lparr>mb_priority := False\<rparr>) s) = s1"
    by (simp add: mem_upd_twice s1_def u(1))
  have "q_tcp_send ev (qa_core_id app) k x (of_nat n) 0 (mem_upd x (\<lambda>mb. mb\<lparr>mb_priority := False\<rparr>) s) = Inr (int n, s2)"
    using so x(1,3) n(1,3) u(2) s'(1,3) add unfolding q_tcp_send_def Let_def fl st1 s1(1)
    by (simp add: sock_range_def not_le not_less stack_simps)
  then have send: "q_send ev app k x (of_nat n) 0 a = Inr (int n, a\<lparr>ap_stack := s2\<rparr>)"
    using so x(1) by (simp add: q_send_def sock_stream_def fl)
  have "same_timers s' s2" by (simp add: s2_def same_timers_def)
  from can_flush_cong [OF this] have w: "written p n s s2 x" using s'(2) s1(1,2) by (simp add: written_def s2_def)
  show thesis by (rule that [OF send w]) (use s' in \<open>simp_all add: s2_def\<close>)
qed

section \<open>Main property\<close>

text \<open>
  C5 (functional). A write on an established connection with an empty send buffer, of a length that
  fits, succeeds for the whole length, and the stack thread's next look at the queue of streams with
  data puts the written mbuf into the transmit queue: the segment has the connection's next sequence
  number, the number moves behind the data, and the mbuf stays on the list of data that waits for its
  acknowledgement. No other connection changes.
\<close>

theorem write_reaches_driver:
  assumes o: "tx_open s p n" and inv: "timer_inv s"
    and so: "sock_range ev k" "so_socktype (api_socket a k) \<noteq> SOCK_TYPE_LISTENER" "so_stream (api_socket a k) = p" "p \<noteq> NULL"
      "ap_stack a = s"
    and x: "x \<noteq> NULL" "x \<le> mm_count (qs_mem s)" "mb_state (mbuf_at s x) = MBUF_STATE_TALLOC"
    and qs: "n21q_wf (qs_send_event_queue s)" "n21q_items (qs_send_event_queue s) = {#}"
      "of_nat (qa_core_id app) < nq_queue_num (qs_send_event_queue s)"
      "\<not> cirq_full (nq_queues (qs_send_event_queue s) ! unat (of_nat (qa_core_id app) :: u8))"
      "n21q_wf (qs_send_hevent_queue s)" "n21q_items (qs_send_hevent_queue s) = {#}"
    and room: "cirq_wf (dp_th_mbufs (qs_dpdk s))" "\<not> cirq_full (dp_th_mbufs (qs_dpdk s))"
  shows "\<exists>a1 s2. q_send ev app k x (of_nat n) 0 a = Inr (int n, a1)
    \<and> write_tcp_send_queue ev ts (ap_stack a1) = Inr (1, s2)
    \<and> cirq_list (dp_th_mbufs (qs_dpdk s2)) = cirq_list (dp_th_mbufs (qs_dpdk s)) @ [x]
    \<and> ntohl (th_seq (mb_tcph (mbuf_at s2 x))) = st_snd_nxt (qs_streams s p)
    \<and> st_snd_nxt (qs_streams s2 p) = st_snd_nxt (qs_streams s p) + of_nat n
    \<and> sb_rel (qs_mem s2) (sv_sndbuf (sndvar s2 p)) [x] [] [] []
    \<and> (\<forall>q. q \<noteq> p \<longrightarrow> qs_streams s2 q = qs_streams s q)"
proof -
  obtain s2 where s2: "q_send ev app k x (of_nat n) 0 a = Inr (int n, a\<lparr>ap_stack := s2\<rparr>)" "written p n s s2 x"
      "qs_send_event_queue s2 = snd (streamq_enqueue (qs_send_event_queue s) (of_nat (qa_core_id app)) p)"
      "qs_send_hevent_queue s2 = qs_send_hevent_queue s"
    by (rule q_send_written [OF o inv so x room]) blast
  obtain q1 where q1: "streamq_dequeue (qs_send_event_queue s2) = Some (p, q1)" "n21q_wf q1" "n21q_items q1 = {#}"
    unfolding s2(3) by (rule streamq_roundtrip [OF qs(1,3,4,2) so(4)])
  show ?thesis
    using send_queue_one [OF s2(2) so(4), of q1 ev ts] q1 s2(1,4) qs(5,6) by auto
qed

text \<open>Stream 1 after its handshake, and an mbuf the application has allocated.\<close>

definition tx_stack :: "(ipv4_5tuple \<Rightarrow> ptr option) qstack" where
  "tx_stack = stack3\<lparr>qs_mem := \<lparr>mm_heap = (\<lambda>_. mbuf0\<lparr>mb_state := MBUF_STATE_TALLOC\<rparr>), mm_released = [], mm_count = 9\<rparr>,
     qs_streams := (qs_streams stack3)(1 := (qs_streams stack3 1)\<lparr>st_snd_nxt := 1001,
       st_sndvar := (sndvar stack3 1)\<lparr>sv_snd_una := 1001\<rparr>\<rparr>)\<rparr>"

definition tx_api :: "(ipv4_5tuple \<Rightarrow> ptr option) api" where
  "tx_api = \<lparr>ap_stack = tx_stack, ap_listeners = [], ap_listener_pool = [], ap_connect_queue = (\<lambda>_. nqueue0), ap_errno = 0\<rparr>"

lemma tx_stack_facts:
  "timer_inv tx_stack" "qs_dpdk tx_stack = qs_dpdk stack3" "qs_send_event_queue tx_stack = nqueue0"
  "qs_send_hevent_queue tx_stack = nqueue0" "qs_sockets tx_stack = qs_sockets stack1"
  "qs_streams tx_stack 1 = stream1\<lparr>st_on_rto_idx := 0, st_rcv_nxt := 77, st_snd_nxt := 1001,
     st_sndvar := (st_sndvar stream1)\<lparr>sv_snd_una := 1001\<rparr>\<rparr>"
proof -
  have "same_timers stack3 tx_stack" by (simp add: same_timers_def tx_stack_def)
  then show "timer_inv tx_stack" using stack3_ok(1) timer_inv_same by blast
qed (simp_all add: tx_stack_def stack3_def stack1_def stack0_def)

lemma tx_stack_open: "tx_open tx_stack 1 5"
proof -
  have b: "sv_sndbuf (sndvar tx_stack 1) = sb_init 8 (sv_sndbuf (st_sndvar zero_stream)) 1001"
    by (simp add: tx_stack_facts(6) [unfolded One_nat_def] stream1_def init_sndvar_def)
  have rel: "sb_rel (qs_mem tx_stack) (sv_sndbuf (sndvar tx_stack 1)) [] [] [] []" unfolding b by (rule init_buffers(1))
  have sb: "sb_head_seq (sv_sndbuf (sndvar tx_stack 1)) = 1001" "sb_next_seq (sv_sndbuf (sndvar tx_stack 1)) = 1001"
      "sb_size (sv_sndbuf (sndvar tx_stack 1)) = 11200"
    unfolding b by (simp_all add: sb_init_def Let_def)
  show ?thesis unfolding tx_open_def sb
    by (intro conjI rel) (simp_all add: tx_stack_facts(6) [unfolded One_nat_def] stream1_def init_sndvar_def zero_stream_def
        TCP_DEFAULT_MSS_def TCP_INIT_CWND_def send_window_def SEND_WINDOW_MIN_def)
qed

theorem write_reaches_driver_witness:
  "\<exists>a1 s2. q_send env0 \<lparr>qa_app_id = 0, qa_core_id = 1\<rparr> 2 6 5 0 tx_api = Inr (5, a1)
     \<and> write_tcp_send_queue env0 9 (ap_stack a1) = Inr (1, s2) \<and> cirq_list (dp_th_mbufs (qs_dpdk s2)) = [6]
     \<and> ntohl (th_seq (mb_tcph (mbuf_at s2 6))) = 1001 \<and> st_snd_nxt (qs_streams s2 1) = 1006"
proof -
  let ?app = "\<lparr>qa_app_id = 0, qa_core_id = 1\<rparr>"
  have so: "sock_range env0 2" "so_socktype (api_socket tx_api 2) \<noteq> SOCK_TYPE_LISTENER" "so_stream (api_socket tx_api 2) = 1"
      "ap_stack tx_api = tx_stack"
    by (simp_all add: sock_range_def env0_def tx_api_def tx_stack_facts stack1_def)
  have x: "6 \<le> mm_count (qs_mem tx_stack)" "mb_state (mbuf_at tx_stack 6) = MBUF_STATE_TALLOC"
    by (simp_all add: tx_stack_def)
  have qs: "n21q_wf (qs_send_event_queue tx_stack)" "n21q_items (qs_send_event_queue tx_stack) = {#}"
      "of_nat (qa_core_id ?app) < nq_queue_num (qs_send_event_queue tx_stack)"
      "\<not> cirq_full (nq_queues (qs_send_event_queue tx_stack) ! unat (of_nat (qa_core_id ?app) :: u8))"
      "n21q_wf (qs_send_hevent_queue tx_stack)" "n21q_items (qs_send_hevent_queue tx_stack) = {#}"
    using nqueue0_empty by (simp_all add: tx_stack_facts(3,4))
  have nx: "st_snd_nxt (qs_streams tx_stack 1) = 1001" by (simp add: tx_stack_facts(6) [unfolded One_nat_def])
  have th: "cirq_wf (dp_th_mbufs (qs_dpdk tx_stack))" "\<not> cirq_full (dp_th_mbufs (qs_dpdk tx_stack))"
      "cirq_list (dp_th_mbufs (qs_dpdk tx_stack)) = []"
    using stack3_ok(2,3,5) by (simp_all add: tx_stack_facts(2))
  show ?thesis
    using write_reaches_driver [OF tx_stack_open tx_stack_facts(1) so(1-3) _ so(4) _ x qs th(1,2), of 9] th(3) nx by auto
qed

end
