(* ===== verification/Mbuf_Pool.thy ===== *)
theory Mbuf_Pool
  imports N21_Queue Qepoll
begin

text \<open>
  The life of packet buffers between the cores: \<^verbatim>\<open>dpdk_module.c\<close> and \<^verbatim>\<open>io_module.c\<close>. Every core
  has three pools of DPDK, for received packets, for packets of the stack and for packets that
  applications write, and three queues through which the other cores give mbufs back. An mbuf that an
  application got is marked in \<^verbatim>\<open>udata64\<close>; the card frees what it has sent when it likes, so an
  mbuf may return to its pool while it is still in use, or twice.

  DPDK's pools and reference counters are a parameter: its operations are a record and
  \<open>pktmbuf_laws\<close> is what its documentation says of them.
\<close>

section \<open>State\<close>

definition MAX_CORE_NUM :: nat where "MAX_CORE_NUM = 24"
definition MAX_STACK_NUM :: nat where "MAX_STACK_NUM = 4"
definition MEM_SCALE :: nat where "MEM_SCALE = 6"
definition MAX_RUN_CPUS :: nat where "MAX_RUN_CPUS = MAX_CORE_NUM"
definition MAX_DPC_THREAD :: nat where "MAX_DPC_THREAD = MAX_RUN_CPUS"

definition MAX_FLOW_PSTACK :: "nat \<Rightarrow> nat" where
  "MAX_FLOW_PSTACK stack_thread = MAX_FLOW_NUM div stack_thread"

record dmbuf =
  dm_pool :: ptr
  dm_score :: nat
  dm_udata64 :: u64
  dm_payload_len :: u16

record dpc =
  dc_cpu :: nat
  dc_rx_pktmbuf_pool :: ptr
  dc_tx_pktmbuf_pool :: ptr
  dc_pktmbuf_alloc_pool :: ptr
  dc_rh_mbufs :: circular_queue
  dc_rl_mbufs :: circular_queue
  dc_th_mbufs :: circular_queue
  dc_tl_mbufs :: circular_queue
  dc_free_queue :: n21_queue
  dc_nofree_queue :: n21_queue
  dc_rxfree_queue :: n21_queue

record 'm pktmbuf_ops =
  pk_alloc :: "ptr \<Rightarrow> 'm \<Rightarrow> ptr \<times> 'm"
  pk_free :: "ptr \<Rightarrow> 'm \<Rightarrow> 'm"
  pk_refcnt_set :: "ptr \<Rightarrow> u16 \<Rightarrow> 'm \<Rightarrow> 'm"

text \<open>The contexts of the cores, the mbufs and what DPDK keeps.\<close>

record 'm drv =
  dv_dpc :: "nat \<Rightarrow> dpc"
  dv_mbuf :: "ptr \<Rightarrow> dmbuf"
  dv_dpdk :: 'm

definition dc_upd :: "nat \<Rightarrow> (dpc \<Rightarrow> dpc) \<Rightarrow> 'm drv \<Rightarrow> 'm drv" where
  "dc_upd c f s = s\<lparr>dv_dpc := (dv_dpc s)(c := f (dv_dpc s c))\<rparr>"

definition dm_upd :: "ptr \<Rightarrow> (dmbuf \<Rightarrow> dmbuf) \<Rightarrow> 'm drv \<Rightarrow> 'm drv" where
  "dm_upd p f s = s\<lparr>dv_mbuf := (dv_mbuf s)(p := f (dv_mbuf s p))\<rparr>"

definition dk_upd :: "('m \<Rightarrow> 'm) \<Rightarrow> 'm drv \<Rightarrow> 'm drv" where
  "dk_upd f s = s\<lparr>dv_dpdk := f (dv_dpdk s)\<rparr>"

lemmas drv_upds = dc_upd_def dm_upd_def dk_upd_def

section \<open>Pools and contexts\<close>

text \<open>
  \<open>mk kind core n\<close> is DPDK's creation of a pool of \<open>n\<close> mbufs; the result is not tested. Cores
  without a stack thread have no pools for receiving and sending. The loop that rounds up to a power
  of two has no effect.
\<close>

datatype pool_kind = Rx_pool | Tx_pool | Alloc_pool

record pools =
  po_rx :: "nat \<Rightarrow> ptr"
  po_tx :: "nat \<Rightarrow> ptr"
  po_alloc :: "nat \<Rightarrow> ptr"

fun load_pools ::
    "(pool_kind \<Rightarrow> nat \<Rightarrow> nat \<Rightarrow> 'm \<Rightarrow> ptr \<times> 'm) \<Rightarrow> nat \<Rightarrow> nat \<Rightarrow> nat list \<Rightarrow> pools \<Rightarrow> 'm \<Rightarrow> pools \<times> 'm" where
  "load_pools mk max_concurrency stack_thread [] po m = (po, m)"
| "load_pools mk max_concurrency stack_thread (i # js) po m =
     (let nb_mbuf = max_concurrency div stack_thread div 2 ^ MEM_SCALE;
          (rx, m1) = (if i < stack_thread then mk Rx_pool i nb_mbuf m else (NULL, m));
          (tx, m2) = (if i < stack_thread then mk Tx_pool i nb_mbuf m1 else (NULL, m1));
          (al, m3) = mk Alloc_pool i (MAX_FLOW_PSTACK stack_thread div 2 ^ MEM_SCALE) m2
      in load_pools mk max_concurrency stack_thread js
           (po\<lparr>po_rx := (po_rx po)(i := rx), po_tx := (po_tx po)(i := tx), po_alloc := (po_alloc po)(i := al)\<rparr>) m3)"

definition cirq_blank :: circular_queue where
  "cirq_blank = \<lparr>cq_head = 0, cq_queue = [], cq_size = 0, cq_tail = 0\<rparr>"

definition n21q_blank :: n21_queue where
  "n21q_blank = \<lparr>nq_queue_num = 0, nq_queue_point = 0, nq_queues = []\<rparr>"

text \<open>\<open>mem\<close> tells whether \<^verbatim>\<open>calloc\<close> finds memory; its result is used without a test.\<close>

definition dpdk_init_handle :: "bool \<Rightarrow> pools \<Rightarrow> nat \<Rightarrow> nat \<Rightarrow> nat \<Rightarrow> 'm drv \<Rightarrow> 'm drv result" where
  "dpdk_init_handle mem po num_cores stack_thread cpu s =
     (if \<not> mem \<or> cpu \<ge> MAX_RUN_CPUS then Inl Undefined
      else let q = cirq_init cirq_blank (of_nat (MAX_FLOW_PSTACK stack_thread));
               nq = n21q_init n21q_blank (of_nat num_cores) (of_nat (MAX_FLOW_PSTACK stack_thread div 20))
           in Inr (dc_upd cpu (\<lambda>_. \<lparr>dc_cpu = cpu, dc_rx_pktmbuf_pool = po_rx po cpu, dc_tx_pktmbuf_pool = po_tx po cpu,
                dc_pktmbuf_alloc_pool = po_alloc po cpu, dc_rh_mbufs = q, dc_rl_mbufs = q, dc_th_mbufs = q, dc_tl_mbufs = q,
                dc_free_queue = nq, dc_nofree_queue = nq, dc_rxfree_queue = nq\<rparr>) s))"

fun init_handles :: "bool \<Rightarrow> pools \<Rightarrow> nat \<Rightarrow> nat \<Rightarrow> nat list \<Rightarrow> 'm drv \<Rightarrow> 'm drv result" where
  "init_handles mem po num_cores stack_thread [] s = Inr s"
| "init_handles mem po num_cores stack_thread (i # js) s =
     bind_r (dpdk_init_handle mem po num_cores stack_thread i s) (init_handles mem po num_cores stack_thread js)"

text \<open>\<open>eal\<close> is what \<^verbatim>\<open>rte_eal_init\<close> returns. The set-up of the card is left out.\<close>

definition io_init ::
    "int \<Rightarrow> bool \<Rightarrow> (pool_kind \<Rightarrow> nat \<Rightarrow> nat \<Rightarrow> 'm \<Rightarrow> ptr \<times> 'm) \<Rightarrow> nat \<Rightarrow> nat \<Rightarrow> nat \<Rightarrow> 'm drv \<Rightarrow> (int \<times> 'm drv) result" where
  "io_init eal mem mk max_concurrency num_cores stack_thread s =
     (if eal < 0 then Inl Exit0
      else if stack_thread = 0 then Inl Undefined
      else let (po, m) = load_pools mk max_concurrency stack_thread [0..<MAX_CORE_NUM]
                           \<lparr>po_rx = (\<lambda>_. NULL), po_tx = (\<lambda>_. NULL), po_alloc = (\<lambda>_. NULL)\<rparr> (dv_dpdk s)
           in bind_r (init_handles mem po num_cores stack_thread [0..<MAX_DPC_THREAD] (s\<lparr>dv_dpdk := m\<rparr>)) (\<lambda>s1. Inr (SUCCESS, s1)))"

section \<open>Giving an mbuf back\<close>

definition own_release :: "'m pktmbuf_ops \<Rightarrow> nat \<Rightarrow> ptr \<Rightarrow> 'm drv \<Rightarrow> 'm drv" where
  "own_release ops core_id pkt s =
     (let s1 = dm_upd pkt (\<lambda>m. m\<lparr>dm_payload_len := 0\<rparr>) s;
          s2 = (if dm_pool (dv_mbuf s pkt) = dc_pktmbuf_alloc_pool (dv_dpc s core_id)
                then dk_upd (pk_refcnt_set ops pkt 1) (dm_upd pkt (\<lambda>m. m\<lparr>dm_udata64 := 0\<rparr>) s1)
                else s1)
      in dk_upd (pk_free ops pkt) s2)"

text \<open>
  The loop over a full queue of received mbufs ends only when their owner takes some out: for the
  caller alone it does not end.
\<close>

definition dpdk_release_pkt :: "'m pktmbuf_ops \<Rightarrow> nat \<Rightarrow> ptr \<Rightarrow> 'm drv \<Rightarrow> 'm drv result" where
  "dpdk_release_pkt ops core_id pkt s =
     (let m = dv_mbuf s pkt; targ = dm_score m; d = dv_dpc s targ
      in if core_id = targ \<and> dm_pool m \<noteq> dc_rx_pktmbuf_pool d then Inr (own_release ops core_id pkt s)
         else if dm_pool m = dc_tx_pktmbuf_pool d
         then let (ret, q) = n21q_enqueue (dc_free_queue d) (of_nat core_id) pkt
              in if ret \<noteq> SUCCESS then Inl Exit0 else Inr (dc_upd targ (\<lambda>d. d\<lparr>dc_free_queue := q\<rparr>) s)
         else if dm_pool m = dc_rx_pktmbuf_pool d
         then let (ret, q) = n21q_enqueue (dc_rxfree_queue d) (of_nat core_id) pkt
              in if ret \<noteq> SUCCESS then Inl Diverges else Inr (dc_upd targ (\<lambda>d. d\<lparr>dc_rxfree_queue := q\<rparr>) s)
         else let s1 = dk_upd (pk_refcnt_set ops pkt 0) (dm_upd pkt (\<lambda>m. m\<lparr>dm_udata64 := 0\<rparr>) s);
                  (ret, q) = n21q_enqueue (dc_nofree_queue d) (of_nat core_id) pkt
              in if ret \<noteq> SUCCESS then Inl Exit0 else Inr (dc_upd targ (\<lambda>d. d\<lparr>dc_nofree_queue := q\<rparr>) s1))"

section \<open>Mbufs for applications\<close>

text \<open>
  A round takes an mbuf from the queue, or from the pool if the queue is empty; a marked one is put
  aside. The loop goes on until it has one, for ever if there is none.
\<close>

definition uw_fetch :: "'m pktmbuf_ops \<Rightarrow> nat \<Rightarrow> 'm drv \<Rightarrow> (ptr \<times> 'm drv) result" where
  "uw_fetch ops core_id s =
     (case n21q_dequeue (dc_nofree_queue (dv_dpc s core_id)) of
        None \<Rightarrow> Inl Diverges
      | Some (p, q) \<Rightarrow>
          let s1 = dc_upd core_id (\<lambda>d. d\<lparr>dc_nofree_queue := q\<rparr>) s
          in if p \<noteq> NULL then Inr (p, s1)
             else let (p1, m) = pk_alloc ops (dc_pktmbuf_alloc_pool (dv_dpc s core_id)) (dv_dpdk s1)
                  in Inr (p1, s1\<lparr>dv_dpdk := m\<rparr>))"

fun uw_loop :: "'m pktmbuf_ops \<Rightarrow> nat \<Rightarrow> nat \<Rightarrow> 'm drv \<Rightarrow> (ptr \<times> 'm drv) result" where
  "uw_loop ops 0 core_id s = Inl Diverges"
| "uw_loop ops (Suc fuel) core_id s =
     bind_r (uw_fetch ops core_id s) (\<lambda>(p, s1).
       if p = NULL \<or> dm_udata64 (dv_mbuf s1 p) = 2 then uw_loop ops fuel core_id s1
       else Inr (p, dk_upd (pk_refcnt_set ops p 2) (dm_upd p (\<lambda>m. m\<lparr>dm_udata64 := 2, dm_score := core_id\<rparr>) s1)))"

definition dpdk_alloc_uwmbuf :: "'m pktmbuf_ops \<Rightarrow> nat \<Rightarrow> nat \<Rightarrow> 'm drv \<Rightarrow> (ptr \<times> 'm drv) result" where
  "dpdk_alloc_uwmbuf ops fuel core_id s =
     (if dc_pktmbuf_alloc_pool (dv_dpc s core_id) = NULL then Inl Exit0 else uw_loop ops fuel core_id s)"

definition io_get_uwmbuf :: "'m pktmbuf_ops \<Rightarrow> nat \<Rightarrow> nat \<Rightarrow> 'm drv \<Rightarrow> (ptr \<times> 'm drv) result" where
  "io_get_uwmbuf ops fuel core_id s = dpdk_alloc_uwmbuf ops fuel core_id s"

text \<open>Sending an application's mbuf gives it a second reference, which the card takes away.\<close>

definition tx_send_hold :: "'m pktmbuf_ops \<Rightarrow> ptr \<Rightarrow> 'm drv \<Rightarrow> 'm drv" where
  "tx_send_hold ops p s =
     (let d = dv_dpc s (dm_score (dv_mbuf s p)); pool = dm_pool (dv_mbuf s p)
      in if pool = dc_tx_pktmbuf_pool d \<or> pool = dc_rx_pktmbuf_pool d then s else dk_upd (pk_refcnt_set ops p 2) s)"

section \<open>Runs\<close>

text \<open>
  What can happen to the mbufs of applications, in any order: one is allocated, handed to the
  card, freed by the card or given back by some core. \<open>U\<close> are the mbufs in use and \<open>K\<close> those the
  card holds.
\<close>

inductive uw_step :: "'m pktmbuf_ops \<Rightarrow> nat \<Rightarrow> 'm drv \<times> ptr set \<times> ptr multiset \<Rightarrow> 'm drv \<times> ptr set \<times> ptr multiset \<Rightarrow> bool"
  for ops n where
  alloc: "c < n \<Longrightarrow> io_get_uwmbuf ops fuel c s = Inr (p, s') \<Longrightarrow> uw_step ops n (s, U, K) (s', insert p U, K)"
| send: "p \<in> U \<Longrightarrow> uw_step ops n (s, U, K) (tx_send_hold ops p s, U, add_mset p K)"
| sent: "p \<in># K \<Longrightarrow> uw_step ops n (s, U, K) (dk_upd (pk_free ops p) s, U, K - {#p#})"
| release: "c < n \<Longrightarrow> p \<in> U \<Longrightarrow> dpdk_release_pkt ops c p s = Inr s' \<Longrightarrow> uw_step ops n (s, U, K) (s', U - {p}, K)"

inductive_cases uw_stepE: "uw_step ops n (s, U, K) t"

text \<open>
  What DPDK promises: \<open>objs m h\<close> are the mbufs in the pool \<open>h\<close>, \<open>home p\<close> is the pool of an mbuf.
  Freeing an mbuf puts it into its pool if its counter is one, and changes nothing but that pool.
\<close>

definition put_home :: "(ptr \<Rightarrow> ptr) \<Rightarrow> ptr \<Rightarrow> (ptr \<Rightarrow> ptr multiset) \<Rightarrow> ptr \<Rightarrow> ptr multiset" where
  "put_home home p ob = ob(home p := add_mset p (ob (home p)))"

definition pktmbuf_laws :: "'m pktmbuf_ops \<Rightarrow> ('m \<Rightarrow> ptr \<Rightarrow> ptr multiset) \<Rightarrow> ('m \<Rightarrow> ptr \<Rightarrow> u16) \<Rightarrow> (ptr \<Rightarrow> ptr) \<Rightarrow> bool" where
  "pktmbuf_laws ops objs refcnt home \<longleftrightarrow>
     (\<forall>h m m'. pk_alloc ops h m = (NULL, m') \<longrightarrow> objs m h = {#} \<and> objs m' = objs m)
   \<and> (\<forall>h m p m'. pk_alloc ops h m = (p, m') \<longrightarrow> p \<noteq> NULL \<longrightarrow> p \<in># objs m h \<and> objs m' = (objs m)(h := objs m h - {#p#}))
   \<and> (\<forall>p v m. objs (pk_refcnt_set ops p v m) = objs m \<and> refcnt (pk_refcnt_set ops p v m) p = v)
   \<and> (\<forall>p m. p \<noteq> NULL \<longrightarrow> objs (pk_free ops p m) = put_home home p (objs m) \<or> refcnt m p \<noteq> 1 \<and> objs (pk_free ops p m) = objs m)"

text \<open>
  \<open>A c\<close> is the application pool of core \<open>c\<close> and \<open>M c\<close> are the mbufs it was made with. A marked mbuf is one
  in use; an mbuf that is not in use waits in the queue of its core, once, or is in its pool.
\<close>

definition core_ok ::
    "('m \<Rightarrow> ptr \<Rightarrow> ptr multiset) \<Rightarrow> nat \<Rightarrow> (nat \<Rightarrow> ptr) \<Rightarrow> (nat \<Rightarrow> ptr set) \<Rightarrow> 'm drv \<Rightarrow> ptr set \<Rightarrow> nat \<Rightarrow> bool" where
  "core_ok objs n A M s U c \<longleftrightarrow>
     (let q = dc_nofree_queue (dv_dpc s c)
      in n21q_wf q \<and> nq_queue_num q = of_nat n \<and> dc_pktmbuf_alloc_pool (dv_dpc s c) = A c
       \<and> dc_rx_pktmbuf_pool (dv_dpc s c) \<noteq> A c \<and> dc_tx_pktmbuf_pool (dv_dpc s c) \<noteq> A c
       \<and> set_mset (n21q_items q) \<subseteq> M c - U \<and> (\<forall>x. count (n21q_items q) x \<le> 1)
       \<and> set_mset (objs (dv_dpdk s) (A c)) \<subseteq> M c \<and> M c \<subseteq> U \<union> set_mset (objs (dv_dpdk s) (A c)) \<union> set_mset (n21q_items q))"

definition pools_apart :: "nat \<Rightarrow> (nat \<Rightarrow> ptr) \<Rightarrow> (nat \<Rightarrow> ptr set) \<Rightarrow> (ptr \<Rightarrow> ptr) \<Rightarrow> bool" where
  "pools_apart n A M home \<longleftrightarrow> 0 < n \<and> n \<le> MAX_RUN_CPUS \<and> inj_on A {..<n} \<and> (\<forall>c<n. A c \<noteq> NULL \<and> (\<forall>p\<in>M c. p \<noteq> NULL \<and> home p = A c))"

definition uw_inv ::
    "('m \<Rightarrow> ptr \<Rightarrow> ptr multiset) \<Rightarrow> (ptr \<Rightarrow> ptr) \<Rightarrow> nat \<Rightarrow> (nat \<Rightarrow> ptr) \<Rightarrow> (nat \<Rightarrow> ptr set) \<Rightarrow> 'm drv \<times> ptr set \<times> ptr multiset \<Rightarrow> bool" where
  "uw_inv objs home n A M = (\<lambda>(s, U, K).
     (\<forall>p. dm_pool (dv_mbuf s p) = home p) \<and> (\<forall>p. dm_udata64 (dv_mbuf s p) = 2 \<longleftrightarrow> p \<in> U)
   \<and> (\<forall>p\<in>U. dm_score (dv_mbuf s p) < n \<and> p \<in> M (dm_score (dv_mbuf s p))) \<and> (\<forall>p\<in>#K. \<exists>c<n. p \<in> M c)
   \<and> (\<forall>c<n. core_ok objs n A M s U c))"

section \<open>The invariant holds\<close>

lemma laws_pk:
  assumes "pktmbuf_laws ops objs refcnt home"
  shows "pk_alloc ops h m = (NULL, m') \<Longrightarrow> objs m h = {#} \<and> objs m' = objs m"
    "pk_alloc ops h m = (p, m') \<Longrightarrow> p \<noteq> NULL \<Longrightarrow> p \<in># objs m h \<and> objs m' = (objs m)(h := objs m h - {#p#})"
    "objs (pk_refcnt_set ops p v m) = objs m" "refcnt (pk_refcnt_set ops p v m) p = v"
    "p \<noteq> NULL \<Longrightarrow> objs (pk_free ops p m) = put_home home p (objs m) \<or> refcnt m p \<noteq> 1 \<and> objs (pk_free ops p m) = objs m"
  using assms unfolding pktmbuf_laws_def by blast+

lemma core_okD:
  assumes "core_ok objs n A M s U c"
  shows "n21q_wf (dc_nofree_queue (dv_dpc s c))" "nq_queue_num (dc_nofree_queue (dv_dpc s c)) = of_nat n"
    "dc_pktmbuf_alloc_pool (dv_dpc s c) = A c" "dc_rx_pktmbuf_pool (dv_dpc s c) \<noteq> A c" "dc_tx_pktmbuf_pool (dv_dpc s c) \<noteq> A c"
    "set_mset (n21q_items (dc_nofree_queue (dv_dpc s c))) \<subseteq> M c - U" "count (n21q_items (dc_nofree_queue (dv_dpc s c))) x \<le> 1"
    "set_mset (objs (dv_dpdk s) (A c)) \<subseteq> M c"
    "M c \<subseteq> U \<union> set_mset (objs (dv_dpdk s) (A c)) \<union> set_mset (n21q_items (dc_nofree_queue (dv_dpc s c)))"
  using assms unfolding core_ok_def Let_def by blast+

lemma core_ok_cong:
  assumes "core_ok objs n A M s U c" "dv_dpc s' c = dv_dpc s c" "objs (dv_dpdk s') (A c) = objs (dv_dpdk s) (A c)" "U' \<inter> M c = U \<inter> M c"
  shows "core_ok objs n A M s' U' c"
  using assms(1,4) unfolding core_ok_def Let_def assms(2,3) by blast

text \<open>The queue of a core changed: what is in it and what is in the pool.\<close>

lemma core_ok_change:
  assumes "core_ok objs n A M s U c" "dv_dpc s' c = (dv_dpc s c)\<lparr>dc_nofree_queue := q\<rparr>" "n21q_wf q"
    "nq_queue_num q = nq_queue_num (dc_nofree_queue (dv_dpc s c))"
    "set_mset (n21q_items q) \<subseteq> M c - U'" "\<forall>x. count (n21q_items q) x \<le> 1" "set_mset (objs (dv_dpdk s') (A c)) \<subseteq> M c"
    "M c \<subseteq> U' \<union> set_mset (objs (dv_dpdk s') (A c)) \<union> set_mset (n21q_items q)"
  shows "core_ok objs n A M s' U' c"
  using assms(1,3-) unfolding core_ok_def Let_def assms(2) by simp

lemma apart_other:
  assumes "pools_apart n A M home" "c < n" "c' < n" "c' \<noteq> c" "p \<in> M c"
  shows "p \<notin> M c'" "A c' \<noteq> A c" "home p = A c"
proof -
  show "A c' \<noteq> A c" using assms unfolding pools_apart_def by (auto dest: inj_onD)
  then show "p \<notin> M c'" "home p = A c" using assms unfolding pools_apart_def by metis+
qed

lemma uw_invD:
  assumes "uw_inv objs home n A M (s, U, K)"
  shows "dm_pool (dv_mbuf s p) = home p" "dm_udata64 (dv_mbuf s p) = 2 \<longleftrightarrow> p \<in> U"
    "p \<in> U \<Longrightarrow> dm_score (dv_mbuf s p) < n" "p \<in> U \<Longrightarrow> p \<in> M (dm_score (dv_mbuf s p))" "p \<in># K \<Longrightarrow> \<exists>c<n. p \<in> M c"
    "c < n \<Longrightarrow> core_ok objs n A M s U c"
  using assms by (auto simp: uw_inv_def)

lemma uw_invI:
  assumes "\<And>p. dm_pool (dv_mbuf s p) = home p" "\<And>p. dm_udata64 (dv_mbuf s p) = 2 \<longleftrightarrow> p \<in> U"
    "\<And>p. p \<in> U \<Longrightarrow> dm_score (dv_mbuf s p) < n \<and> p \<in> M (dm_score (dv_mbuf s p))" "\<And>p. p \<in># K \<Longrightarrow> \<exists>c<n. p \<in> M c"
    "\<And>c. c < n \<Longrightarrow> core_ok objs n A M s U c"
  shows "uw_inv objs home n A M (s, U, K)"
  using assms by (simp add: uw_inv_def)

lemma null_unused: "pools_apart n A M home \<Longrightarrow> uw_inv objs home n A M (s, U, K) \<Longrightarrow> NULL \<notin> U"
  by (metis pools_apart_def uw_invD(3,4))

text \<open>One round of the allocation.\<close>

lemma uw_fetch_ok:
  assumes laws: "pktmbuf_laws ops objs refcnt home" and ap: "pools_apart n A M home"
    and inv: "uw_inv objs home n A M (s, U, K)" and c: "c < n"
  obtains p s1 where "uw_fetch ops c s = Inr (p, s1)" "dv_mbuf s1 = dv_mbuf s" "\<And>c'. c' < n \<Longrightarrow> c' \<noteq> c \<Longrightarrow> core_ok objs n A M s1 U c'"
    "p = NULL \<Longrightarrow> core_ok objs n A M s1 U c \<and> M c \<subseteq> U" "p \<noteq> NULL \<Longrightarrow> p \<in> M c \<and> core_ok objs n A M s1 (insert p U) c"
    "p \<in> U \<Longrightarrow> size (objs (dv_dpdk s1) (A c)) < size (objs (dv_dpdk s) (A c))"
proof -
  let ?q = "dc_nofree_queue (dv_dpc s c)"
  note ok = uw_invD(6) [OF inv c]
  note okc = core_okD [OF ok]
  obtain x q where q: "n21q_dequeue_strong ?q = Some (x, q)" "n21q_wf q" "nq_queue_num q = nq_queue_num ?q"
      "x = NULL \<Longrightarrow> n21q_items ?q = {#} \<and> n21q_items q = {#}" "x \<noteq> NULL \<Longrightarrow> n21q_items ?q = add_mset x (n21q_items q)"
    using n21q_dequeue_items [OF okc(1)] by blast
  define s1 where "s1 = dc_upd c (\<lambda>d. d\<lparr>dc_nofree_queue := q\<rparr>) s"
  have d: "n21q_dequeue ?q = Some (x, q)" using q(1) by (simp add: n21q_dequeue_def do_n21q_dequeue_def n21q_dequeue_strong_def)
  have s1c: "dv_dpc s1 c = (dv_dpc s c)\<lparr>dc_nofree_queue := q\<rparr>" "dv_mbuf s1 = dv_mbuf s" "dv_dpdk s1 = dv_dpdk s"
    by (simp_all add: s1_def dc_upd_def)
  have other1: "dv_dpc s1 c' = dv_dpc s c'" if "c' \<noteq> c" for c' using that by (simp add: s1_def dc_upd_def)
  show thesis
  proof (cases "x = NULL")
    case False
    have cnt: "count (n21q_items q) x = 0" using okc(7) [of x] q(5) [OF False] by simp
    then have xn: "x \<notin># n21q_items q" by (simp add: not_in_iff)
    have le: "count (n21q_items q) y \<le> 1" for y using okc(7) [of y] q(5) [OF False] by (simp split: if_splits)
    have x: "x \<in> M c" "x \<notin> U" using okc(6) q(5) [OF False] by auto
    have "core_ok objs n A M s1 (insert x U) c"
    proof (rule core_ok_change [OF ok s1c(1) q(2,3)])
      show "set_mset (n21q_items q) \<subseteq> M c - insert x U" using okc(6) q(5) [OF False] xn by auto
      show "\<forall>x. count (n21q_items q) x \<le> 1" using le by blast
      show "set_mset (objs (dv_dpdk s1) (A c)) \<subseteq> M c" using okc(8) by (simp add: s1c(3))
      show "M c \<subseteq> insert x U \<union> set_mset (objs (dv_dpdk s1) (A c)) \<union> set_mset (n21q_items q)"
        using okc(9) q(5) [OF False] by (auto simp: s1c(3))
    qed
    moreover have "uw_fetch ops c s = Inr (x, s1)" using d False by (simp add: uw_fetch_def s1_def)
    moreover have "core_ok objs n A M s1 U c'" if "c' < n" "c' \<noteq> c" for c'
      by (rule core_ok_cong [OF uw_invD(6) [OF inv that(1)] other1 [OF that(2)]]) (simp_all add: s1c(3))
    ultimately show thesis using that [of x s1] False x s1c(2) by auto
  next
    case True
    note e = q(4) [OF True]
    obtain p m where a: "pk_alloc ops (A c) (dv_dpdk s) = (p, m)" by (cases "pk_alloc ops (A c) (dv_dpdk s)") auto
    define s2 where "s2 = s1\<lparr>dv_dpdk := m\<rparr>"
    have r: "uw_fetch ops c s = Inr (p, s2)" using d True a okc(3) by (simp add: uw_fetch_def s1_def s2_def dc_upd_def)
    have s2: "dv_dpc s2 = dv_dpc s1" "dv_mbuf s2 = dv_mbuf s" "dv_dpdk s2 = m" by (simp_all add: s2_def s1c)
    have pools: "objs m (A c') = objs (dv_dpdk s) (A c')" if "c' < n" "c' \<noteq> c" for c'
    proof -
      have "A c' \<noteq> A c" using ap that c unfolding pools_apart_def by (auto dest: inj_onD)
      then show ?thesis using laws_pk(1,2) [OF laws] a by (cases "p = NULL") auto
    qed
    have others: "core_ok objs n A M s2 U c'" if "c' < n" "c' \<noteq> c" for c'
      by (rule core_ok_cong [OF uw_invD(6) [OF inv that(1)]]) (use that other1 pools in \<open>simp_all add: s2\<close>)
    have c2: "dv_dpc s2 c = (dv_dpc s c)\<lparr>dc_nofree_queue := q\<rparr>" by (simp add: s2(1) s1c(1))
    show thesis
    proof (cases "p = NULL")
      case True
      have o: "objs (dv_dpdk s) (A c) = {#}" "objs m = objs (dv_dpdk s)" using laws_pk(1) [OF laws] a True by auto
      have "core_ok objs n A M s2 U c"
        by (rule core_ok_change [OF ok c2 q(2,3)]) (use okc(9) o e in \<open>simp_all add: s2(3)\<close>)
      moreover have "M c \<subseteq> U" using okc(9) o e by simp
      ultimately show thesis using that [OF r s2(2) others] True null_unused [OF ap inv] by auto
    next
      case False
      have o: "p \<in># objs (dv_dpdk s) (A c)" "objs m (A c) = objs (dv_dpdk s) (A c) - {#p#}" using laws_pk(2) [OF laws a False] by auto
      have "core_ok objs n A M s2 (insert p U) c"
      proof (rule core_ok_change [OF ok c2 q(2,3)])
        show "set_mset (objs (dv_dpdk s2) (A c)) \<subseteq> M c" using okc(8) o by (auto simp: s2(3) dest: in_diffD)
        show "M c \<subseteq> insert p U \<union> set_mset (objs (dv_dpdk s2) (A c)) \<union> set_mset (n21q_items q)"
          using okc(9) o e by (auto simp: s2(3) in_diff_count)
      qed (use e in simp_all)
      moreover have "size (objs (dv_dpdk s2) (A c)) < size (objs (dv_dpdk s) (A c))"
        using o by (simp add: s2(3) size_Diff_singleton) (metis Suc_pred lessI size_eq_0_iff_empty empty_iff set_mset_empty gr0I)
      ultimately show thesis using that [OF r s2(2) others] False okc(8) o(1) by auto
    qed
  qed
qed

text \<open>A marked mbuf is put aside and the state is as good as before; an unmarked one is handed out.\<close>

lemma uw_skip:
  assumes inv: "uw_inv objs home n A M (s, U, K)" and s1: "dv_mbuf s1 = dv_mbuf s"
    and ok: "\<And>c'. c' < n \<Longrightarrow> c' \<noteq> c \<Longrightarrow> core_ok objs n A M s1 U c'" "core_ok objs n A M s1 U c"
  shows "uw_inv objs home n A M (s1, U, K)"
proof (rule uw_invI)
  show "core_ok objs n A M s1 U c'" if "c' < n" for c' using ok that by (cases "c' = c") auto
qed (use uw_invD(1-5) [OF inv] in \<open>auto simp: s1\<close>)

lemma uw_take:
  assumes laws: "pktmbuf_laws ops objs refcnt home" and ap: "pools_apart n A M home" and c: "c < n"
    and inv: "uw_inv objs home n A M (s, U, K)" and s1: "dv_mbuf s1 = dv_mbuf s" and p: "p \<in> M c"
    and ok: "\<And>c'. c' < n \<Longrightarrow> c' \<noteq> c \<Longrightarrow> core_ok objs n A M s1 U c'" "core_ok objs n A M s1 (insert p U) c"
  shows "uw_inv objs home n A M
    (dk_upd (pk_refcnt_set ops p 2) (dm_upd p (\<lambda>m. m\<lparr>dm_udata64 := 2, dm_score := c\<rparr>) s1), insert p U, K)"
proof (rule uw_invI)
  let ?s = "dk_upd (pk_refcnt_set ops p 2) (dm_upd p (\<lambda>m. m\<lparr>dm_udata64 := 2, dm_score := c\<rparr>) s1)"
  show "dm_pool (dv_mbuf ?s x) = home x" for x using uw_invD(1) [OF inv, of x] s1 by (auto simp: drv_upds)
  show "dm_udata64 (dv_mbuf ?s x) = 2 \<longleftrightarrow> x \<in> insert p U" for x using uw_invD(2) [OF inv, of x] s1 by (simp add: drv_upds)
  show "dm_score (dv_mbuf ?s x) < n \<and> x \<in> M (dm_score (dv_mbuf ?s x))" if "x \<in> insert p U" for x
    using that uw_invD(3,4) [OF inv, of x] s1 c p by (auto simp: drv_upds)
  show "\<exists>c<n. x \<in> M c" if "x \<in># K" for x using uw_invD(5) [OF inv that] .
  show "core_ok objs n A M ?s (insert p U) c'" if "c' < n" for c'
  proof (cases "c' = c")
    case True
    show ?thesis unfolding True by (rule core_ok_cong [OF ok(2)]) (simp_all add: drv_upds laws_pk(3) [OF laws])
  next
    case False
    then have "p \<notin> M c'" using apart_other(1) [OF ap c that _ p] by simp
    then show ?thesis by (intro core_ok_cong [OF ok(1) [OF that False]]) (auto simp: drv_upds laws_pk(3) [OF laws])
  qed
qed

lemma uw_loop_ok:
  assumes laws: "pktmbuf_laws ops objs refcnt home" and ap: "pools_apart n A M home" and c: "c < n"
  shows "uw_inv objs home n A M (s, U, K) \<Longrightarrow> uw_loop ops fuel c s = Inl Diverges
    \<or> (\<exists>p s'. uw_loop ops fuel c s = Inr (p, s') \<and> p \<in> M c \<and> p \<notin> U \<and> uw_inv objs home n A M (s', insert p U, K))"
proof (induction fuel arbitrary: s)
  case (Suc fuel)
  note inv = Suc.prems
  obtain p s1 where f: "uw_fetch ops c s = Inr (p, s1)" "dv_mbuf s1 = dv_mbuf s" "\<And>c'. c' < n \<Longrightarrow> c' \<noteq> c \<Longrightarrow> core_ok objs n A M s1 U c'"
    "p = NULL \<Longrightarrow> core_ok objs n A M s1 U c \<and> M c \<subseteq> U" "p \<noteq> NULL \<Longrightarrow> p \<in> M c \<and> core_ok objs n A M s1 (insert p U) c"
    using uw_fetch_ok [OF laws ap inv c] by metis
  show ?case
  proof (cases "p = NULL \<or> p \<in> U")
    case True
    then have "core_ok objs n A M s1 U c" using f(4,5) by (cases "p = NULL") (auto simp: insert_absorb)
    then have "uw_inv objs home n A M (s1, U, K)" using uw_skip [OF inv f(2,3)] by blast
    moreover have "uw_loop ops (Suc fuel) c s = uw_loop ops fuel c s1" using f(1,2) True uw_invD(2) [OF inv, of p] by auto
    ultimately show ?thesis using Suc.IH [of s1] by metis
  next
    case False
    then have p: "p \<in> M c" "core_ok objs n A M s1 (insert p U) c" using f(5) by auto
    show ?thesis using uw_take [OF laws ap c inv f(2) p(1) f(3) p(2)] f(1,2) False p(1) uw_invD(2) [OF inv, of p] by auto
  qed
qed simp

lemma uw_loop_returns:
  assumes laws: "pktmbuf_laws ops objs refcnt home" and ap: "pools_apart n A M home" and c: "c < n" and free: "\<not> M c \<subseteq> U"
  shows "uw_inv objs home n A M (s, U, K) \<Longrightarrow> size (objs (dv_dpdk s) (A c)) < fuel \<Longrightarrow> \<exists>p s'. uw_loop ops fuel c s = Inr (p, s')"
proof (induction fuel arbitrary: s)
  case (Suc fuel)
  note inv = Suc.prems(1)
  obtain p s1 where f: "uw_fetch ops c s = Inr (p, s1)" "dv_mbuf s1 = dv_mbuf s" "\<And>c'. c' < n \<Longrightarrow> c' \<noteq> c \<Longrightarrow> core_ok objs n A M s1 U c'"
    "p = NULL \<Longrightarrow> core_ok objs n A M s1 U c \<and> M c \<subseteq> U" "p \<noteq> NULL \<Longrightarrow> p \<in> M c \<and> core_ok objs n A M s1 (insert p U) c"
    "p \<in> U \<Longrightarrow> size (objs (dv_dpdk s1) (A c)) < size (objs (dv_dpdk s) (A c))"
    using uw_fetch_ok [OF laws ap inv c] by metis
  have p: "p \<noteq> NULL" using f(4) free by blast
  show ?case
  proof (cases "p \<in> U")
    case True
    then have "core_ok objs n A M s1 U c" using f(5) p by (simp add: insert_absorb)
    then have "uw_inv objs home n A M (s1, U, K)" using uw_skip [OF inv f(2,3)] by blast
    moreover have "uw_loop ops (Suc fuel) c s = uw_loop ops fuel c s1" using f(1,2) True uw_invD(2) [OF inv, of p] by auto
    ultimately show ?thesis using Suc.IH [of s1] f(6) [OF True] Suc.prems(2) by auto
  next
    case False
    then show ?thesis using f(1,2) p uw_invD(2) [OF inv, of p] by auto
  qed
qed simp

lemma uw_loop_none:
  assumes "pktmbuf_laws ops objs refcnt home" "pools_apart n A M home" "c < n" "M c \<subseteq> U" "uw_inv objs home n A M (s, U, K)"
  shows "uw_loop ops fuel c s = Inl Diverges"
  using uw_loop_ok [OF assms(1-3,5), of fuel] assms(4) by blast

text \<open>An mbuf that is given back: to the pool by its own core, to the queue by another one.\<close>

lemma release_own:
  assumes laws: "pktmbuf_laws ops objs refcnt home" and ap: "pools_apart n A M home" and inv: "uw_inv objs home n A M (s, U, K)"
    and p: "p \<in> U" and c: "c = dm_score (dv_mbuf s p)"
  shows "dpdk_release_pkt ops c p s = Inr (own_release ops c p s)" "uw_inv objs home n A M (own_release ops c p s, U - {p}, K)"
proof -
  have cn: "c < n" "p \<in> M c" using uw_invD(3,4) [OF inv p] c by auto
  note ok = uw_invD(6) [OF inv cn(1)]
  note okc = core_okD [OF ok]
  have h: "dm_pool (dv_mbuf s p) = A c" "home p = A c" "p \<noteq> NULL" using uw_invD(1) [OF inv, of p] ap cn by (auto simp: pools_apart_def)
  show "dpdk_release_pkt ops c p s = Inr (own_release ops c p s)"
    using okc(4) h c by (auto simp: dpdk_release_pkt_def Let_def)
  let ?s = "own_release ops c p s"
  have mb: "dv_mbuf ?s = (dv_mbuf s)(p := (dv_mbuf s p)\<lparr>dm_payload_len := 0, dm_udata64 := 0\<rparr>)" "dv_dpc ?s = dv_dpc s"
    using h okc(3) by (simp_all add: own_release_def Let_def drv_upds)
  have dk: "dv_dpdk ?s = pk_free ops p (pk_refcnt_set ops p 1 (dv_dpdk s))"
    using h okc(3) by (simp add: own_release_def Let_def drv_upds)
  have ob: "objs (dv_dpdk ?s) = put_home home p (objs (dv_dpdk s))"
    using laws_pk(5) [OF laws h(3), of "pk_refcnt_set ops p 1 (dv_dpdk s)"] laws_pk(4) [OF laws, of p 1 "dv_dpdk s"]
    unfolding dk laws_pk(3) [OF laws] by simp
  show "uw_inv objs home n A M (?s, U - {p}, K)"
  proof (rule uw_invI)
    show "dm_pool (dv_mbuf ?s x) = home x" for x using uw_invD(1) [OF inv, of x] by (auto simp: mb)
    show "dm_udata64 (dv_mbuf ?s x) = 2 \<longleftrightarrow> x \<in> U - {p}" for x using uw_invD(2) [OF inv, of x] by (auto simp: mb)
    show "dm_score (dv_mbuf ?s x) < n \<and> x \<in> M (dm_score (dv_mbuf ?s x))" if "x \<in> U - {p}" for x
      using that uw_invD(3,4) [OF inv, of x] by (simp add: mb)
    show "\<exists>c<n. x \<in> M c" if "x \<in># K" for x using uw_invD(5) [OF inv that] .
    show "core_ok objs n A M ?s (U - {p}) c'" if "c' < n" for c'
    proof (cases "c' = c")
      case True
      have "dv_dpc ?s c = (dv_dpc s c)\<lparr>dc_nofree_queue := dc_nofree_queue (dv_dpc s c)\<rparr>" by (simp add: mb)
      then show ?thesis unfolding True
        by (rule core_ok_change [OF ok _ okc(1) refl]) (use okc(6-9) cn h in \<open>auto simp: ob put_home_def\<close>)
    next
      case False
      note o = apart_other [OF ap cn(1) that False cn(2)]
      show ?thesis by (rule core_ok_cong [OF uw_invD(6) [OF inv that]]) (use o in \<open>auto simp: mb ob put_home_def\<close>)
    qed
  qed
qed

lemma n21q_enqueue_ok:
  assumes wf: "n21q_wf q" and i: "i < nq_queue_num q" and x: "x \<noteq> NULL" and r: "n21q_enqueue q i x = (SUCCESS, q')"
  shows "n21q_wf q'" "nq_queue_num q' = nq_queue_num q" "n21q_items q' = add_mset x (n21q_items q)"
proof -
  show "n21q_wf q'" using n21q_enqueue_wf [OF wf i x] r by simp
  show "nq_queue_num q' = nq_queue_num q" using r by (auto simp: n21q_enqueue_def split_beta Let_def)
  have "\<not> cirq_full (nq_queues q ! unat i)" using r by (auto simp: n21q_enqueue_def cirq_add_def Let_def split: if_splits)
  then show "n21q_items q' = add_mset x (n21q_items q)" using n21q_enqueue_items [OF wf i, of x] r by simp
qed

lemma release_other:
  assumes laws: "pktmbuf_laws ops objs refcnt home" and ap: "pools_apart n A M home" and inv: "uw_inv objs home n A M (s, U, K)"
    and p: "p \<in> U" and c: "c < n" "c \<noteq> dm_score (dv_mbuf s p)" and r: "dpdk_release_pkt ops c p s = Inr s'"
  shows "uw_inv objs home n A M (s', U - {p}, K)"
proof -
  define d where "d = dm_score (dv_mbuf s p)"
  have dn: "d < n" "p \<in> M d" using uw_invD(3,4) [OF inv p] d_def by auto
  note ok = uw_invD(6) [OF inv dn(1)]
  note okc = core_okD [OF ok]
  have h: "dm_pool (dv_mbuf s p) = A d" "p \<noteq> NULL" using uw_invD(1) [OF inv, of p] ap dn by (auto simp: pools_apart_def)
  obtain q where q: "n21q_enqueue (dc_nofree_queue (dv_dpc s d)) (of_nat c) p = (SUCCESS, q)"
    and s': "s' = dc_upd d (\<lambda>d. d\<lparr>dc_nofree_queue := q\<rparr>) (dk_upd (pk_refcnt_set ops p 0) (dm_upd p (\<lambda>m. m\<lparr>dm_udata64 := 0\<rparr>) s))"
    using r c okc(4,5) h by (auto simp: dpdk_release_pkt_def Let_def d_def split: prod.splits if_splits)
  have "(of_nat c :: u8) < of_nat n"
    using ap c by (simp add: pools_apart_def MAX_RUN_CPUS_def MAX_CORE_NUM_def word_less_nat_alt unat_of_nat)
  then have i: "of_nat c < nq_queue_num (dc_nofree_queue (dv_dpc s d))" by (simp add: okc(2))
  note e = n21q_enqueue_ok [OF okc(1) i h(2) q]
  have mb: "dv_mbuf s' = (dv_mbuf s)(p := (dv_mbuf s p)\<lparr>dm_udata64 := 0\<rparr>)" "objs (dv_dpdk s') = objs (dv_dpdk s)"
    by (simp_all add: s' drv_upds laws_pk(3) [OF laws])
  have dp: "dv_dpc s' d = (dv_dpc s d)\<lparr>dc_nofree_queue := q\<rparr>" "c' \<noteq> d \<Longrightarrow> dv_dpc s' c' = dv_dpc s c'" for c'
    by (simp_all add: s' drv_upds)
  have np: "p \<notin># n21q_items (dc_nofree_queue (dv_dpc s d))" using okc(6) p by blast
  show ?thesis
  proof (rule uw_invI)
    show "dm_pool (dv_mbuf s' x) = home x" for x using uw_invD(1) [OF inv, of x] by (auto simp: mb)
    show "dm_udata64 (dv_mbuf s' x) = 2 \<longleftrightarrow> x \<in> U - {p}" for x using uw_invD(2) [OF inv, of x] by (auto simp: mb)
    show "dm_score (dv_mbuf s' x) < n \<and> x \<in> M (dm_score (dv_mbuf s' x))" if "x \<in> U - {p}" for x
      using that uw_invD(3,4) [OF inv, of x] by (simp add: mb)
    show "\<exists>c<n. x \<in> M c" if "x \<in># K" for x using uw_invD(5) [OF inv that] .
    show "core_ok objs n A M s' (U - {p}) c'" if "c' < n" for c'
    proof (cases "c' = d")
      case True
      have "count (n21q_items q) x \<le> 1" for x using okc(7) [of x] np by (auto simp: e(3) not_in_iff)
      then show ?thesis unfolding True
        by (intro core_ok_change [OF ok dp(1) e(1,2)]) (use okc(6,8,9) dn np in \<open>auto simp: mb(2) e(3)\<close>)
    next
      case False
      show ?thesis
        by (rule core_ok_cong [OF uw_invD(6) [OF inv that] dp(2) [OF False]])
          (use apart_other(1) [OF ap dn(1) that False dn(2)] in \<open>auto simp: mb\<close>)
    qed
  qed
qed

lemma uw_dpdk:
  assumes inv: "uw_inv objs home n A M (s, U, K)" and eq: "dv_dpc s' = dv_dpc s" "dv_mbuf s' = dv_mbuf s"
    and K: "\<And>p. p \<in># K' \<Longrightarrow> \<exists>c<n. p \<in> M c"
    and ob: "\<And>c. c < n \<Longrightarrow> set_mset (objs (dv_dpdk s') (A c)) \<subseteq> M c \<and> objs (dv_dpdk s) (A c) \<subseteq># objs (dv_dpdk s') (A c)"
  shows "uw_inv objs home n A M (s', U, K')"
proof (rule uw_invI)
  show "core_ok objs n A M s' U c" if "c < n" for c
  proof -
    note ok = uw_invD(6) [OF inv that]
    note okc = core_okD [OF ok]
    have "dv_dpc s' c = (dv_dpc s c)\<lparr>dc_nofree_queue := dc_nofree_queue (dv_dpc s c)\<rparr>" by (simp add: eq)
    moreover have "set_mset (objs (dv_dpdk s) (A c)) \<subseteq> set_mset (objs (dv_dpdk s') (A c))" using ob [OF that] by (simp add: set_mset_mono)
    ultimately show ?thesis
      by (intro core_ok_change [OF ok _ okc(1) refl]) (use okc(6,7,9) ob [OF that] in auto)
  qed
qed (use uw_invD(1-4) [OF inv] K in \<open>auto simp: eq\<close>)

lemma uw_step_inv:
  assumes laws: "pktmbuf_laws ops objs refcnt home" and ap: "pools_apart n A M home" and inv: "uw_inv objs home n A M t" and st: "uw_step ops n t t'"
  shows "uw_inv objs home n A M t'"
  using st
proof cases
  case (alloc c fuel s p s' U K)
  then show ?thesis using uw_loop_ok [OF laws ap alloc(3), of s U K fuel] inv
    by (auto simp: io_get_uwmbuf_def dpdk_alloc_uwmbuf_def split: if_splits)
next
  case (send p U s K)
  have inv': "uw_inv objs home n A M (s, U, K)" using inv send by simp
  have "objs (dv_dpdk (tx_send_hold ops p s)) = objs (dv_dpdk s)" by (simp add: tx_send_hold_def Let_def drv_upds laws_pk(3) [OF laws])
  then show ?thesis unfolding send(2) using uw_invD(3-5) [OF inv'] core_okD(8) [OF uw_invD(6) [OF inv']] send(3)
    by (intro uw_dpdk [OF inv']) (auto simp: tx_send_hold_def Let_def drv_upds)
next
  case (sent p K s U)
  have inv': "uw_inv objs home n A M (s, U, K)" using inv sent by simp
  obtain d where d: "d < n" "p \<in> M d" using uw_invD(5) [OF inv' sent(3)] by blast
  have ob: "objs (pk_free ops p (dv_dpdk s)) = put_home home p (objs (dv_dpdk s)) \<or> objs (pk_free ops p (dv_dpdk s)) = objs (dv_dpdk s)"
    using laws_pk(5) [OF laws, of p "dv_dpdk s"] d ap by (auto simp: pools_apart_def)
  have "set_mset (objs (pk_free ops p (dv_dpdk s)) (A c)) \<subseteq> M c \<and> objs (dv_dpdk s) (A c) \<subseteq># objs (pk_free ops p (dv_dpdk s)) (A c)" if "c < n" for c
  proof (cases "c = d")
    case True
    then show ?thesis using ob d core_okD(8) [OF uw_invD(6) [OF inv' that]]
      by (auto simp: put_home_def split: if_splits)
  next
    case False
    have "home p \<noteq> A c" using apart_other(2,3) [OF ap d(1) that False d(2)] by simp
    then have "objs (pk_free ops p (dv_dpdk s)) (A c) = objs (dv_dpdk s) (A c)" using ob by (auto simp: put_home_def)
    then show ?thesis using core_okD(8) [OF uw_invD(6) [OF inv' that]] by simp
  qed
  then show ?thesis unfolding sent(2) using uw_invD(5) [OF inv']
    by (intro uw_dpdk [OF inv']) (auto simp: drv_upds dest: in_diffD)
next
  case (release c p U s s' K)
  have inv': "uw_inv objs home n A M (s, U, K)" using inv release by simp
  show ?thesis
  proof (cases "c = dm_score (dv_mbuf s p)")
    case True
    then show ?thesis using release_own [OF laws ap inv' release(4) True] release by simp
  next
    case False
    then show ?thesis using release_other [OF laws ap inv' release(4,3) False release(5)] release(2) by simp
  qed
qed

lemma uw_run_inv:
  assumes laws: "pktmbuf_laws ops objs refcnt home" and ap: "pools_apart n A M home" and run: "(uw_step ops n)\<^sup>*\<^sup>* t t'" and inv: "uw_inv objs home n A M t"
  shows "uw_inv objs home n A M t'"
  using run inv by (induction rule: rtranclp_induct) (auto intro: uw_step_inv [OF laws ap])

section \<open>From the start\<close>

definition new_dpc :: "pools \<Rightarrow> nat \<Rightarrow> nat \<Rightarrow> nat \<Rightarrow> dpc" where
  "new_dpc po num_cores stack_thread cpu =
     (let q = cirq_init cirq_blank (of_nat (MAX_FLOW_PSTACK stack_thread));
          nq = n21q_init n21q_blank (of_nat num_cores) (of_nat (MAX_FLOW_PSTACK stack_thread div 20))
      in \<lparr>dc_cpu = cpu, dc_rx_pktmbuf_pool = po_rx po cpu, dc_tx_pktmbuf_pool = po_tx po cpu,
           dc_pktmbuf_alloc_pool = po_alloc po cpu, dc_rh_mbufs = q, dc_rl_mbufs = q, dc_th_mbufs = q, dc_tl_mbufs = q,
           dc_free_queue = nq, dc_nofree_queue = nq, dc_rxfree_queue = nq\<rparr>)"

lemma init_handles_dpc:
  assumes "init_handles mem po n st js s = Inr s'" "distinct js"
  shows "dv_mbuf s' = dv_mbuf s \<and> dv_dpdk s' = dv_dpdk s
    \<and> (\<forall>c. c \<notin> set js \<longrightarrow> dv_dpc s' c = dv_dpc s c) \<and> (\<forall>c\<in>set js. dv_dpc s' c = new_dpc po n st c)"
  using assms
proof (induction js arbitrary: s)
  case (Cons i js)
  obtain s1 where "dpdk_init_handle mem po n st i s = Inr s1" "init_handles mem po n st js s1 = Inr s'"
    using Cons.prems(1) by (auto simp: bind_r_Inr_iff)
  then show ?case using Cons.IH [of s1] Cons.prems(2) by (auto simp: dpdk_init_handle_def new_dpc_def Let_def dc_upd_def split: if_splits)
qed simp

abbreviation app_pool :: "'m drv \<Rightarrow> nat \<Rightarrow> ptr" where
  "app_pool s c \<equiv> dc_pktmbuf_alloc_pool (dv_dpc s c)"

text \<open>What is assumed of new pools: they are different, their mbufs are their own and carry no mark.\<close>

definition pools_new :: "('m \<Rightarrow> ptr \<Rightarrow> ptr multiset) \<Rightarrow> (ptr \<Rightarrow> ptr) \<Rightarrow> nat \<Rightarrow> 'm drv \<Rightarrow> bool" where
  "pools_new objs home n s \<longleftrightarrow> (\<forall>p. dm_pool (dv_mbuf s p) = home p \<and> dm_udata64 (dv_mbuf s p) = 0) \<and> inj_on (app_pool s) {..<n}
     \<and> (\<forall>c<n. app_pool s c \<noteq> NULL \<and> dc_rx_pktmbuf_pool (dv_dpc s c) \<noteq> app_pool s c \<and> dc_tx_pktmbuf_pool (dv_dpc s c) \<noteq> app_pool s c
          \<and> (\<forall>p\<in>#objs (dv_dpdk s) (app_pool s c). p \<noteq> NULL \<and> home p = app_pool s c))"

lemma n21q_init_empty: "0 < sz \<Longrightarrow> n21q_items (n21q_init q num sz) = {#}"
proof -
  assume sz: "0 < sz"
  have "sum_list (map (\<lambda>c. mset (cirq_list c)) (map (\<lambda>i. cirq_init \<lparr>cq_head = 0, cq_queue = [], cq_size = 0, cq_tail = 0\<rparr> sz) js)) = {#}" for js :: "nat list"
    by (induction js) (simp_all add: cirq_init_wf(2) [OF sz])
  then show ?thesis by (simp add: n21q_items_def n21q_init_def)
qed

lemma flow_pstack_size:
  assumes "0 < st" "st \<le> MAX_STACK_NUM"
  shows "0 < (of_nat (MAX_FLOW_PSTACK st) :: u32)" "0 < (of_nat (MAX_FLOW_PSTACK st div 20) :: u32)"
proof -
  have "MAX_FLOW_PSTACK st \<le> 14000000" by (simp add: MAX_FLOW_PSTACK_def MAX_FLOW_NUM_def div_le_dividend)
  moreover have "3500000 \<le> MAX_FLOW_PSTACK st" using assms div_le_mono2 [of st 4 14000000]
    by (simp add: MAX_FLOW_PSTACK_def MAX_FLOW_NUM_def MAX_STACK_NUM_def)
  ultimately have "0 < MAX_FLOW_PSTACK st" "MAX_FLOW_PSTACK st < 2 ^ 32" "0 < MAX_FLOW_PSTACK st div 20" "MAX_FLOW_PSTACK st div 20 < 2 ^ 32" by simp_all
  then show "0 < (of_nat (MAX_FLOW_PSTACK st) :: u32)" "0 < (of_nat (MAX_FLOW_PSTACK st div 20) :: u32)"
    by (simp_all add: word_less_nat_alt unat_of_nat)
qed

lemma num_cores_word: "0 < n \<Longrightarrow> n \<le> MAX_RUN_CPUS \<Longrightarrow> 0 < (of_nat n :: u8)"
  by (simp add: word_less_nat_alt unat_of_nat MAX_RUN_CPUS_def MAX_CORE_NUM_def)

lemma n21q_new:
  assumes "0 < n" "n \<le> MAX_RUN_CPUS" "0 < st" "st \<le> MAX_STACK_NUM"
  shows "n21q_wf (n21q_init n21q_blank (of_nat n) (of_nat (MAX_FLOW_PSTACK st div 20)))"
    "n21q_items (n21q_init n21q_blank (of_nat n) (of_nat (MAX_FLOW_PSTACK st div 20))) = {#}"
    "nq_queue_num (n21q_init n21q_blank (of_nat n) (of_nat (MAX_FLOW_PSTACK st div 20))) = of_nat n"
  using n21q_init_wf [OF num_cores_word [OF assms(1,2)] flow_pstack_size(2) [OF assms(3,4)]] n21q_init_empty [OF flow_pstack_size(2) [OF assms(3,4)]]
  by (simp_all add: n21q_init_def)

lemma io_init_dpc:
  assumes "io_init eal mem mk mc n st s = Inr (r, s0)"
  obtains po where "0 < st" "\<And>c. c < MAX_RUN_CPUS \<Longrightarrow> dv_dpc s0 c = new_dpc po n st c"
proof -
  obtain po m where st: "0 < st" and h: "init_handles mem po n st [0..<MAX_DPC_THREAD] (s\<lparr>dv_dpdk := m\<rparr>) = Inr s0"
    using assms by (auto simp: io_init_def bind_r_Inr_iff split_beta Let_def split: if_splits)
  then show thesis using that [OF st, of po] init_handles_dpc [OF h] by (simp add: MAX_DPC_THREAD_def)
qed

lemma io_init_inv:
  assumes init: "io_init eal mem mk mc n st s = Inr (r, s0)" and new: "pools_new objs home n s0"
    and n: "0 < n" "n \<le> MAX_RUN_CPUS" "st \<le> MAX_STACK_NUM"
  defines "M \<equiv> \<lambda>c. set_mset (objs (dv_dpdk s0) (app_pool s0 c))"
  shows "pools_apart n (app_pool s0) M home" "uw_inv objs home n (app_pool s0) M (s0, {}, {#})"
proof -
  show "pools_apart n (app_pool s0) M home" using new n by (simp add: pools_new_def pools_apart_def M_def)
  obtain po where st: "0 < st" and h: "\<And>c. c < MAX_RUN_CPUS \<Longrightarrow> dv_dpc s0 c = new_dpc po n st c"
    using io_init_dpc [OF init] by blast
  have q: "dc_nofree_queue (dv_dpc s0 c) = n21q_init n21q_blank (of_nat n) (of_nat (MAX_FLOW_PSTACK st div 20))" if "c < n" for c
    using h [of c] that n(2) by (simp add: new_dpc_def Let_def)
  show "uw_inv objs home n (app_pool s0) M (s0, {}, {#})"
  proof (rule uw_invI)
    show "core_ok objs n (app_pool s0) M s0 {} c" if "c < n" for c
      using n21q_new [OF n(1,2) st n(3)] new that by (simp add: core_ok_def q pools_new_def M_def)
  qed (use new in \<open>simp_all add: pools_new_def\<close>)
qed

text \<open>
  A stack thread that gives back an mbuf it received itself uses its own queue, which only it empties:
  with a full queue it never comes back.
\<close>

lemma rx_release_stuck:
  assumes "dm_pool (dv_mbuf s p) = dc_rx_pktmbuf_pool (dv_dpc s (dm_score (dv_mbuf s p)))"
    "dc_tx_pktmbuf_pool (dv_dpc s (dm_score (dv_mbuf s p))) \<noteq> dc_rx_pktmbuf_pool (dv_dpc s (dm_score (dv_mbuf s p)))"
    "cirq_full (nq_queues (dc_rxfree_queue (dv_dpc s (dm_score (dv_mbuf s p)))) ! unat (of_nat core_id :: u8))"
  shows "dpdk_release_pkt ops core_id p s = Inl Diverges"
  using assms by (simp add: dpdk_release_pkt_def Let_def n21q_enqueue_def cirq_add_def)

section \<open>The property\<close>

text \<open>
  C10 (safety). From the start of the driver on, and however allocations, transmissions, late frees by
  the card and releases from any core are interleaved: an mbuf handed to an application is not in use
  elsewhere, even if the card put it into its pool while it was in use or put it there twice, and no
  mbuf is lost: each is in use, in its pool or in the queue of its core. A request returns if any
  mbuf of the core is not in use, after at most as many rounds as the pool holds mbufs and one more,
  and otherwise does not return.
\<close>

theorem uwmbuf_exclusive:
  assumes laws: "pktmbuf_laws ops objs refcnt home"
    and init: "io_init eal mem mk mc n st sa = Inr (r, s0)" and new: "pools_new objs home n s0"
    and n: "0 < n" "n \<le> MAX_RUN_CPUS" "st \<le> MAX_STACK_NUM"
    and run: "(uw_step ops n)\<^sup>*\<^sup>* (s0, {}, {#}) (s, U, K)" and c: "c < n"
    and M: "M = set_mset (objs (dv_dpdk s0) (app_pool s0 c))"
    and pool: "pool = objs (dv_dpdk s) (app_pool s c)" and wait: "wait = n21q_items (dc_nofree_queue (dv_dpc s c))"
  shows "M \<subseteq> U \<union> set_mset pool \<union> set_mset wait \<and> set_mset wait \<inter> U = {}
    \<and> (\<forall>fuel p s'. io_get_uwmbuf ops fuel c s = Inr (p, s') \<longrightarrow> p \<in> M \<and> p \<notin> U)
    \<and> (\<not> M \<subseteq> U \<longrightarrow> (\<exists>p s'. io_get_uwmbuf ops (size pool + 1) c s = Inr (p, s')))
    \<and> (M \<subseteq> U \<longrightarrow> (\<forall>fuel. io_get_uwmbuf ops fuel c s = Inl Diverges))"
proof -
  note ap = io_init_inv(1) [OF init new n] and inv = uw_run_inv [OF laws io_init_inv(1) [OF init new n] run io_init_inv(2) [OF init new n]]
  note okc = core_okD [OF uw_invD(6) [OF inv c]]
  have "app_pool s c \<noteq> NULL" using ap c okc(3) by (simp add: pools_apart_def)
  then have get: "io_get_uwmbuf ops fuel c s = uw_loop ops fuel c s" for fuel by (simp add: io_get_uwmbuf_def dpdk_alloc_uwmbuf_def)
  show ?thesis
  proof (intro conjI allI impI)
    show "M \<subseteq> U \<union> set_mset pool \<union> set_mset wait" using okc(9) by (simp add: M pool wait okc(3))
    show "set_mset wait \<inter> U = {}" using okc(6) by (auto simp: wait)
    show "p \<in> M" "p \<notin> U" if "io_get_uwmbuf ops fuel c s = Inr (p, s')" for fuel p s'
      using uw_loop_ok [OF laws ap c inv, of fuel] that by (auto simp: get M)
    show "\<exists>p s'. io_get_uwmbuf ops (size pool + 1) c s = Inr (p, s')" if "\<not> M \<subseteq> U"
      using uw_loop_returns [OF laws ap c _ inv] that by (simp add: get M pool okc(3) del: uw_loop.simps)
    show "io_get_uwmbuf ops fuel c s = Inl Diverges" if "M \<subseteq> U" for fuel
      using uw_loop_none [OF laws ap c _ inv] that by (simp add: get M)
  qed
qed

text \<open>Pools that are lists, with counters beside them.\<close>

type_synonym ldpdk = "(ptr \<Rightarrow> ptr list) \<times> (ptr \<Rightarrow> u16)"

definition lhome :: "ptr \<Rightarrow> ptr" where "lhome p = p div 1000000"

definition lobjs :: "ldpdk \<Rightarrow> ptr \<Rightarrow> ptr multiset" where "lobjs m h = mset (filter (\<lambda>p. p \<noteq> NULL) (fst m h))"

definition list_pk :: "ldpdk pktmbuf_ops" where
  "list_pk = \<lparr>pk_alloc = (\<lambda>h m. case filter (\<lambda>p. p \<noteq> NULL) (fst m h) of [] \<Rightarrow> (NULL, m) | x # xs \<Rightarrow> (x, (fst m)(h := xs), (snd m)(x := 1))),
     pk_free = (\<lambda>p m. if snd m p = 1 then ((fst m)(lhome p := fst m (lhome p) @ [p]), snd m) else (fst m, (snd m)(p := snd m p - 1))),
     pk_refcnt_set = (\<lambda>p v m. (fst m, (snd m)(p := v)))\<rparr>"

definition list_pool :: "ptr \<Rightarrow> nat \<Rightarrow> ptr list" where
  "list_pool h k = map (\<lambda>j. h * 1000000 + j) [0..<min k 1000000]"

definition list_handle :: "pool_kind \<Rightarrow> nat \<Rightarrow> ptr" where
  "list_handle kind c = 3 * c + (case kind of Rx_pool \<Rightarrow> 1 | Tx_pool \<Rightarrow> 2 | Alloc_pool \<Rightarrow> 3)"

definition list_create :: "pool_kind \<Rightarrow> nat \<Rightarrow> nat \<Rightarrow> ldpdk \<Rightarrow> ptr \<times> ldpdk" where
  "list_create kind c k m = (list_handle kind c, (fst m)(list_handle kind c := list_pool (list_handle kind c) k), snd m)"

definition ldrv0 :: "ldpdk drv" where
  "ldrv0 = \<lparr>dv_dpc = (\<lambda>_. \<lparr>dc_cpu = 0, dc_rx_pktmbuf_pool = 0, dc_tx_pktmbuf_pool = 0, dc_pktmbuf_alloc_pool = 0, dc_rh_mbufs = cirq_blank,
       dc_rl_mbufs = cirq_blank, dc_th_mbufs = cirq_blank, dc_tl_mbufs = cirq_blank, dc_free_queue = n21q_blank,
       dc_nofree_queue = n21q_blank, dc_rxfree_queue = n21q_blank\<rparr>),
     dv_mbuf = (\<lambda>p. \<lparr>dm_pool = lhome p, dm_score = 0, dm_udata64 = 0, dm_payload_len = 0\<rparr>), dv_dpdk = ((\<lambda>_. []), (\<lambda>_. 0))\<rparr>"

lemma list_pk_laws: "pktmbuf_laws list_pk lobjs (\<lambda>m. snd m) lhome"
  unfolding pktmbuf_laws_def
proof (intro conjI allI impI)
  fix h m p m' assume a: "pk_alloc list_pk h m = (p, m')" "p \<noteq> NULL"
  then obtain ys where ys: "filter (\<lambda>p. p \<noteq> NULL) (fst m h) = p # ys" "m' = ((fst m)(h := ys), (snd m)(p := 1))"
    by (auto simp: list_pk_def split: list.splits)
  have "filter (\<lambda>p. p \<noteq> NULL) ys = ys" using ys(1) by (auto simp: filter_eq_Cons_iff)
  then have "mset (filter (\<lambda>p. p \<noteq> NULL) ys) = mset ys" "mset (filter (\<lambda>p. p \<noteq> NULL) (fst m h)) = add_mset p (mset ys)" using ys(1) by simp_all
  then show "lobjs m' = (lobjs m)(h := lobjs m h - {#p#})" "p \<in># lobjs m h" using ys(2) by (auto simp: lobjs_def fun_eq_iff simp del: mset_filter)
next
  fix h m m' assume a: "pk_alloc list_pk h m = (NULL, m')"
  then have "filter (\<lambda>p. p \<noteq> NULL) (fst m h) = [] \<and> m' = m"
    by (auto simp: list_pk_def filter_eq_Cons_iff simp del: neq0_conv split: list.splits)
  then show "lobjs m h = {#}" "lobjs m' = lobjs m" by (simp_all add: lobjs_def del: mset_filter)
qed (auto simp: list_pk_def lobjs_def put_home_def fun_eq_iff)

lemma list_create_step:
  obtains po1 m1 where "load_pools list_create mc st (i # js) po m = load_pools list_create mc st js po1 m1"
    "po_alloc po1 = (po_alloc po)(i := 3 * i + 3)" "po_rx po1 i \<noteq> 3 * i + 3" "po_tx po1 i \<noteq> 3 * i + 3"
    "\<And>c. c \<noteq> i \<Longrightarrow> po_rx po1 c = po_rx po c \<and> po_tx po1 c = po_tx po c"
    "fst m1 (3 * i + 3) = list_pool (3 * i + 3) (MAX_FLOW_PSTACK st div 2 ^ MEM_SCALE)" "\<And>c. c \<noteq> i \<Longrightarrow> fst m1 (3 * c + 3) = fst m (3 * c + 3)"
proof -
  have ne: "3 * c + 3 \<noteq> 3 * i + 1" "3 * c + 3 \<noteq> 3 * i + 2" for c :: nat by presburger+
  define a where "a = (\<lambda>k::nat. if i < st then 3 * i + k else NULL)"
  define f where "f = (if i < st then (fst m)(3 * i + 1 := list_pool (3 * i + 1) (mc div st div 2 ^ MEM_SCALE), 3 * i + 2 := list_pool (3 * i + 2) (mc div st div 2 ^ MEM_SCALE)) else fst m)"
  define po1 where "po1 = po\<lparr>po_rx := (po_rx po)(i := a 1), po_tx := (po_tx po)(i := a 2), po_alloc := (po_alloc po)(i := 3 * i + 3)\<rparr>"
  define m1 where "m1 = (f(3 * i + 3 := list_pool (3 * i + 3) (MAX_FLOW_PSTACK st div 2 ^ MEM_SCALE)), snd m)"
  have "load_pools list_create mc st (i # js) po m = load_pools list_create mc st js po1 m1"
    by (simp add: list_create_def list_handle_def Let_def po1_def m1_def a_def f_def)
  moreover have "po_rx po1 i \<noteq> 3 * i + 3" "po_tx po1 i \<noteq> 3 * i + 3" by (simp_all add: po1_def a_def)
  moreover have "fst m1 (3 * c + 3) = fst m (3 * c + 3)" if "c \<noteq> i" for c using that ne [of c] by (simp add: m1_def f_def)
  moreover have "po_alloc po1 = (po_alloc po)(i := 3 * i + 3)" "\<And>c. c \<noteq> i \<Longrightarrow> po_rx po1 c = po_rx po c \<and> po_tx po1 c = po_tx po c"
    "fst m1 (3 * i + 3) = list_pool (3 * i + 3) (MAX_FLOW_PSTACK st div 2 ^ MEM_SCALE)" by (simp_all add: po1_def m1_def)
  ultimately show thesis using that by blast
qed

lemma list_create_all:
  assumes "load_pools list_create mc st js po m = (po', m')" "distinct js"
  shows "(\<forall>c\<in>set js. po_alloc po' c = 3 * c + 3 \<and> po_rx po' c \<noteq> 3 * c + 3 \<and> po_tx po' c \<noteq> 3 * c + 3
      \<and> fst m' (3 * c + 3) = list_pool (3 * c + 3) (MAX_FLOW_PSTACK st div 2 ^ MEM_SCALE))
    \<and> (\<forall>c. c \<notin> set js \<longrightarrow> fst m' (3 * c + 3) = fst m (3 * c + 3) \<and> po_alloc po' c = po_alloc po c \<and> po_rx po' c = po_rx po c \<and> po_tx po' c = po_tx po c)"
  using assms
proof (induction js arbitrary: po m)
  case (Cons i js)
  obtain po1 m1 where st: "load_pools list_create mc st (i # js) po m = load_pools list_create mc st js po1 m1"
    "po_alloc po1 = (po_alloc po)(i := 3 * i + 3)" "po_rx po1 i \<noteq> 3 * i + 3" "po_tx po1 i \<noteq> 3 * i + 3"
    "\<And>c. c \<noteq> i \<Longrightarrow> po_rx po1 c = po_rx po c \<and> po_tx po1 c = po_tx po c"
    "fst m1 (3 * i + 3) = list_pool (3 * i + 3) (MAX_FLOW_PSTACK st div 2 ^ MEM_SCALE)" "\<And>c. c \<noteq> i \<Longrightarrow> fst m1 (3 * c + 3) = fst m (3 * c + 3)"
    by (rule list_create_step [of mc st i js po m]) blast
  have ni: "i \<notin> set js" using Cons.prems(2) by simp
  note IH = Cons.IH [of po1 m1, folded st(1), OF Cons.prems(1)]
  show ?case
  proof (intro conjI ballI allI impI)
    fix c assume "c \<in> set (i # js)"
    then show "po_alloc po' c = 3 * c + 3" "po_rx po' c \<noteq> 3 * c + 3" "po_tx po' c \<noteq> 3 * c + 3"
      "fst m' (3 * c + 3) = list_pool (3 * c + 3) (MAX_FLOW_PSTACK st div 2 ^ MEM_SCALE)"
      using IH st(2-4,6) ni Cons.prems(2) by (cases "c = i"; simp)+
  next
    fix c assume "c \<notin> set (i # js)"
    then show "fst m' (3 * c + 3) = fst m (3 * c + 3)" "po_alloc po' c = po_alloc po c" "po_rx po' c = po_rx po c" "po_tx po' c = po_tx po c"
      using IH st(2,5,7) Cons.prems(2) by simp_all
  qed
qed simp

lemma list_init:
  obtains r s0 where "io_init 0 True list_create 14000000 2 1 ldrv0 = Inr (r, s0)" "pools_new lobjs lhome 2 s0"
    "lobjs (dv_dpdk s0) (app_pool s0 0) = mset (map (\<lambda>j. 3000000 + j) [0..<218750])"
proof -
  obtain po m where l: "load_pools list_create 14000000 1 [0..<MAX_CORE_NUM]
      \<lparr>po_rx = (\<lambda>_. NULL), po_tx = (\<lambda>_. NULL), po_alloc = (\<lambda>_. NULL)\<rparr> (dv_dpdk ldrv0) = (po, m)" by (rule prod.exhaust)
  have ih: "\<exists>s'. init_handles True po 2 1 js s = Inr s'" if "\<forall>c\<in>set js. c < MAX_RUN_CPUS" for js and s :: "ldpdk drv"
    using that by (induction js arbitrary: s) (auto simp: dpdk_init_handle_def Let_def)
  obtain s0 where h: "init_handles True po 2 1 [0..<MAX_DPC_THREAD] (ldrv0\<lparr>dv_dpdk := m\<rparr>) = Inr s0"
    using ih [of "[0..<MAX_DPC_THREAD]"] by (auto simp: MAX_DPC_THREAD_def)
  have r: "io_init 0 True list_create 14000000 2 1 ldrv0 = Inr (SUCCESS, s0)" using l h by (simp add: io_init_def)
  note hd = init_handles_dpc [OF h] and al = list_create_all [OF l]
  have dp: "app_pool s0 c = 3 * c + 3" "dc_rx_pktmbuf_pool (dv_dpc s0 c) \<noteq> 3 * c + 3" "dc_tx_pktmbuf_pool (dv_dpc s0 c) \<noteq> 3 * c + 3"
      "fst (dv_dpdk s0) (3 * c + 3) = list_pool (3 * c + 3) 218750" if "c < 2" for c
    using hd al that by (simp_all add: new_dpc_def Let_def MAX_DPC_THREAD_def MAX_RUN_CPUS_def MAX_CORE_NUM_def MAX_FLOW_PSTACK_def MAX_FLOW_NUM_def MEM_SCALE_def)
  have mb: "dv_mbuf s0 = dv_mbuf ldrv0" using hd by simp
  have pool: "lobjs (dv_dpdk s0) (3 * c + 3) = mset (map (\<lambda>j. (3 * c + 3) * 1000000 + j) [0..<218750])" if "c < 2" for c
    using dp(4) [OF that] by (simp add: lobjs_def list_pool_def filter_id_conv)
  have "pools_new lobjs lhome 2 s0"
    unfolding pools_new_def
  proof (intro conjI allI impI ballI)
    show "dm_pool (dv_mbuf s0 p) = lhome p" "dm_udata64 (dv_mbuf s0 p) = 0" for p by (simp_all add: mb ldrv0_def)
    show "inj_on (app_pool s0) {..<2}" using dp(1) by (simp add: inj_on_def)
    fix c :: nat assume c: "c < 2"
    show "app_pool s0 c \<noteq> NULL" "dc_rx_pktmbuf_pool (dv_dpc s0 c) \<noteq> app_pool s0 c" "dc_tx_pktmbuf_pool (dv_dpc s0 c) \<noteq> app_pool s0 c"
      using dp [OF c] by simp_all
    fix p assume "p \<in># lobjs (dv_dpdk s0) (app_pool s0 c)"
    then obtain j where "p = (3 * c + 3) * 1000000 + j" "j \<in> {0..<218750}" unfolding dp(1) [OF c] pool [OF c] set_mset_mset set_map set_upt by blast
    then show "p \<noteq> NULL" "lhome p = app_pool s0 c" using dp(1) [OF c] by (simp_all add: lhome_def)
  qed
  then show thesis using that r pool [of 0] dp(1) [of 0] by simp
qed

text \<open>Two requests of one core give two different mbufs.\<close>

theorem uwmbuf_exclusive_witness:
  "\<exists>r s0 f p s1 f' p' s2. io_init 0 True list_create 14000000 2 1 ldrv0 = Inr (r, s0)
    \<and> io_get_uwmbuf list_pk f 0 s0 = Inr (p, s1) \<and> io_get_uwmbuf list_pk f' 0 s1 = Inr (p', s2) \<and> p' \<noteq> p"
proof -
  obtain r s0 where i: "io_init 0 True list_create 14000000 2 1 ldrv0 = Inr (r, s0)" "pools_new lobjs lhome 2 s0"
    "lobjs (dv_dpdk s0) (app_pool s0 0) = mset (map (\<lambda>j. 3000000 + j) [0..<218750])" by (rule list_init)
  let ?M = "set_mset (lobjs (dv_dpdk s0) (app_pool s0 0))"
  have ne: "3000000 \<in> ?M" "3000001 \<in> ?M" unfolding i(3) by auto
  note ex = uwmbuf_exclusive [OF list_pk_laws i(1,2) _ _ _ _ _ refl refl refl]
  have cs: "(0::nat) < 2" "2 \<le> MAX_RUN_CPUS" "1 \<le> MAX_STACK_NUM" by (simp_all add: MAX_RUN_CPUS_def MAX_CORE_NUM_def MAX_STACK_NUM_def)
  note e0 = ex [OF cs rtranclp.rtrancl_refl cs(1)]
  obtain f p s1 where a: "io_get_uwmbuf list_pk f 0 s0 = Inr (p, s1)" using e0 ne by blast
  have "(uw_step list_pk 2)\<^sup>*\<^sup>* (s0, {}, {#}) (s1, {p}, {#})" using uw_step.alloc [OF cs(1) a, of "{}" "{#}"] by blast
  note e1 = ex [OF cs this cs(1)]
  have "\<not> ?M \<subseteq> {p}" using ne by (metis numeral_eq_iff semiring_norm(85) singletonD subsetD num.distinct(3) semiring_norm(89) semiring_norm(90))
  then obtain f' p' s2 where "io_get_uwmbuf list_pk f' 0 s1 = Inr (p', s2)" using e1 by blast
  moreover from this have "p' \<noteq> p" using e1 by blast
  ultimately show ?thesis using i(1) a by blast
qed

end
