(* ===== verification/Stack_Init.thy ===== *)
theory Stack_Init
  imports Main_Loop Mbuf_Pool Mempool
begin

text \<open>
  The start of the system, \<^verbatim>\<open>qstack_init\<close> of \<^verbatim>\<open>core.c\<close>: the driver, the tables and pools shared
  by all threads, one context per stack thread, the contexts of the applications and the event
  system; and what a stack thread does as long as nothing happens.

  What the code gets from outside is a record: the results of DPDK's start and of its creation
  functions, whether \<^verbatim>\<open>calloc\<close> finds memory, the sizes of two structs, and the clock. Threads,
  log files and the message queues of the log are left out. A stack's state contains its view of
  the shared tables and of the driver's context of its core.
\<close>

section \<open>The context of a stack thread\<close>

definition PUB_SOCKET_NUM :: nat where "PUB_SOCKET_NUM = 0"

definition MAX_SOCKET_PSTACK :: "nat \<Rightarrow> nat" where
  "MAX_SOCKET_PSTACK stack_thread = MAX_SOCKET_NUM div stack_thread"

definition FLOW_QUEUE_SIZE :: u32 where
  "FLOW_QUEUE_SIZE = of_nat (drop_bit (2 + MEM_SCALE) MAX_FLOW_NUM)"

definition sender_init :: "'h qstack \<Rightarrow> 'h qstack" where
  "sender_init s = s\<lparr>qs_control_queue := sstreamq_init cirq_blank FLOW_QUEUE_SIZE, qs_ack_queue := sstreamq_init cirq_blank FLOW_QUEUE_SIZE\<rparr>"

definition stack_context_init :: "bool \<Rightarrow> nat \<Rightarrow> nat \<Rightarrow> 'h qstack \<Rightarrow> 'h qstack result" where
  "stack_context_init mem num_cores stack_id s =
     (if \<not> mem \<or> stack_id \<ge> MAX_STACK_NUM then Inl Undefined
      else let s1 = sender_init (s\<lparr>qs_stack_id := stack_id, qs_flow_cnt := 0\<rparr>);
               q = streamq_init n21q_blank (of_nat num_cores) FLOW_QUEUE_SIZE;
               s2 = s1\<lparr>qs_send_event_queue := q, qs_send_hevent_queue := q, qs_close_queue := q,
                       qs_connect_queue := streamq_init n21q_blank (of_nat num_cores) (of_nat MAX_FLOW_NUM)\<rparr>
           in Inr (timer_init s2))"

section \<open>What the threads share\<close>

text \<open>\<open>mk n\<close> is DPDK's table for \<open>n\<close> entries, if it can be made.\<close>

definition ht_create :: "(nat \<Rightarrow> 'h option) \<Rightarrow> nat \<Rightarrow> 'h result" where
  "ht_create mk num_bins = (case mk num_bins of None \<Rightarrow> Inl Exit0 | Some h \<Rightarrow> Inr h)"

fun ht_create_all :: "(nat \<Rightarrow> 'h option) \<Rightarrow> nat \<Rightarrow> nat list \<Rightarrow> 'h list result" where
  "ht_create_all mk stack_thread [] = Inr []"
| "ht_create_all mk stack_thread (i # js) =
     bind_r (ht_create mk (MAX_FLOW_PSTACK stack_thread + i)) (\<lambda>h.
     bind_r (ht_create_all mk stack_thread js) (\<lambda>hs. Inr (h # hs)))"

record qconfig =
  cf_num_cores :: nat
  cf_stack_thread :: nat
  cf_app_thread :: nat
  cf_max_concurrency :: nat

record ('m, 'c, 'h) boot =
  bt_eal :: int
  bt_mem :: bool
  bt_mbuf_pool :: "pool_kind \<Rightarrow> nat \<Rightarrow> nat \<Rightarrow> 'm \<Rightarrow> ptr \<times> 'm"
  bt_listener_pool :: "nat \<Rightarrow> nat \<Rightarrow> nat \<Rightarrow> ptr \<times> ptr list \<times> 'c"
  bt_stream_pool :: "nat \<Rightarrow> nat \<Rightarrow> nat \<Rightarrow> ptr \<times> ptr list \<times> 'c"
  bt_hash :: "nat \<Rightarrow> 'h option"
  bt_listener_size :: nat
  bt_stream_size :: nat
  bt_socket :: socket
  bt_app_mem :: "nat \<Rightarrow> bool"
  bt_clock :: "nat \<Rightarrow> u64"

record ('c, 'h) gctx =
  gc_listeners :: "ptr list"
  gc_socket_table :: socket_table
  gc_stream_ht :: "'h list"
  gc_listener_ht :: 'h
  gc_mp_listener :: Mempool_t
  gc_mp_stream :: Mempool_t
  gc_chunks :: "'c cmem"

definition gctx_init :: "qconfig \<Rightarrow> ('m, 'c, 'h) boot \<Rightarrow> 'c cmem \<Rightarrow> ('c, 'h) gctx result" where
  "gctx_init cf b m =
     (let st = cf_stack_thread cf
      in if \<not> bt_mem b \<or> st = 0 then Inl Undefined
         else bind_r (socket_table_init (cf_max_concurrency cf) MAX_SOCKET_NUM PUB_SOCKET_NUM st (MAX_SOCKET_PSTACK st) (bt_socket b)) (\<lambda>tb.
              bind_r (ht_create_all (bt_hash b) st [0..<st]) (\<lambda>hts.
              bind_r (ht_create (bt_hash b) 10) (\<lambda>lht.
              bind_r (mempool_create (bt_mem b) (bt_listener_pool b) (bt_listener_size b) 10 10 st m) (\<lambda>(mpl, m1).
              case mpl of None \<Rightarrow> Inl Exit0 | Some pl \<Rightarrow>
              bind_r (mempool_create (bt_mem b) (bt_stream_pool b) (bt_stream_size b) (of_nat (MAX_FLOW_PSTACK st)) 0 st m1) (\<lambda>(mps, m2).
              case mps of None \<Rightarrow> Inl Exit0 | Some ps \<Rightarrow>
                Inr \<lparr>gc_listeners = [], gc_socket_table = tb, gc_stream_ht = hts, gc_listener_ht = lht, gc_mp_listener = pl,
                     gc_mp_stream = ps, gc_chunks = m2\<rparr>))))))"

section \<open>Applications\<close>

text \<open>\<open>mem 0\<close> tells whether there is memory for the array, \<open>mem (i + 1)\<close> for the \<open>i\<close>-th context.\<close>

fun app_contexts :: "(nat \<Rightarrow> bool) \<Rightarrow> nat \<Rightarrow> nat list \<Rightarrow> qapp list result" where
  "app_contexts mem stack_num [] = Inr []"
| "app_contexts mem stack_num (i # js) =
     (if \<not> mem (Suc i) then Inl Exit0
      else bind_r (app_contexts mem stack_num js) (\<lambda>as. Inr (\<lparr>qa_app_id = i, qa_core_id = i + stack_num\<rparr> # as)))"

definition qstack_app_init :: "(nat \<Rightarrow> bool) \<Rightarrow> nat \<Rightarrow> nat \<Rightarrow> qapp list result" where
  "qstack_app_init mem app_num stack_num = (if \<not> mem 0 then Inl Exit0 else app_contexts mem stack_num [0..<app_num])"

section \<open>The whole system\<close>

text \<open>The driver's context of a core as the stack sees it; \<^verbatim>\<open>calloc\<close> leaves the rest zero.\<close>

definition dpc_view :: "dpc \<Rightarrow> dpdk_private_context \<Rightarrow> dpdk_private_context" where
  "dpc_view d v = v\<lparr>dp_th_mbufs := dc_th_mbufs d, dp_tl_mbufs := dc_tl_mbufs d, dp_rh_mbufs := dc_rh_mbufs d, dp_rl_mbufs := dc_rl_mbufs d,
     dp_pkts_txburst := replicate MAX_PKT_BURST NULL, dp_tx_num := 0, dp_free_queue := dc_free_queue d, dp_rxfree_queue := dc_rxfree_queue d\<rparr>"

fun init_stacks :: "bool \<Rightarrow> nat \<Rightarrow> ('c, 'h) gctx \<Rightarrow> 'm drv \<Rightarrow> 'h qstack \<Rightarrow> nat list \<Rightarrow> 'h qstack list result" where
  "init_stacks mem num_cores g d z [] = Inr []"
| "init_stacks mem num_cores g d z (i # js) =
     bind_r (stack_context_init mem num_cores i (z\<lparr>qs_sockets := gc_socket_table g, qs_stream_ht := gc_stream_ht g ! i,
               qs_dpdk := dpc_view (dv_dpc d i) (qs_dpdk z)\<rparr>)) (\<lambda>s.
     bind_r (init_stacks mem num_cores g d z js) (\<lambda>ss. Inr (s # ss)))"

record ('m, 'c, 'h) qsystem =
  sy_drv :: "'m drv"
  sy_gctx :: "('c, 'h) gctx"
  sy_stacks :: "'h qstack list"
  sy_apps :: "qapp list"
  sy_qepoll :: qepoll_sys

definition qstack_init :: "qconfig \<Rightarrow> ('m, 'c, 'h) boot \<Rightarrow> 'm drv \<Rightarrow> 'c cmem \<Rightarrow> 'h qstack \<Rightarrow> ('m, 'c, 'h) qsystem result" where
  "qstack_init cf b d0 m0 z =
     bind_r (io_init (bt_eal b) (bt_mem b) (bt_mbuf_pool b) (cf_max_concurrency cf) (cf_num_cores cf) (cf_stack_thread cf) d0) (\<lambda>(_, d).
     bind_r (gctx_init cf b m0) (\<lambda>g.
     bind_r (init_stacks (bt_mem b) (cf_num_cores cf) g d z [0..<cf_stack_thread cf]) (\<lambda>ss.
     bind_r (qstack_app_init (bt_app_mem b) (cf_app_thread cf) (cf_stack_thread cf)) (\<lambda>as.
       Inr \<lparr>sy_drv = d, sy_gctx = g, sy_stacks = ss, sy_apps = as,
            sy_qepoll = q_init_manager (cf_stack_thread cf) (cf_app_thread cf) (bt_clock b)\<rparr>))))"

section \<open>Nothing to do\<close>

definition quiet_ring :: "circular_queue \<Rightarrow> bool" where
  "quiet_ring q \<longleftrightarrow> cirq_wf q \<and> cirq_list q = []"

definition quiet_queue :: "n21_queue \<Rightarrow> bool" where
  "quiet_queue q \<longleftrightarrow> n21q_wf q \<and> n21q_items q = {#}"

definition quiet :: "'h qstack \<Rightarrow> bool" where
  "quiet s \<longleftrightarrow> qs_rto_list s = [] \<and> qs_timewait_list s = [] \<and> qs_timeout_list s = []
     \<and> quiet_ring (qs_control_queue s) \<and> quiet_ring (qs_ack_queue s)
     \<and> quiet_queue (qs_send_event_queue s) \<and> quiet_queue (qs_send_hevent_queue s)
     \<and> quiet_queue (qs_close_queue s) \<and> quiet_queue (qs_connect_queue s)
     \<and> quiet_ring (dp_th_mbufs (qs_dpdk s)) \<and> quiet_ring (dp_tl_mbufs (qs_dpdk s))
     \<and> quiet_ring (dp_rh_mbufs (qs_dpdk s)) \<and> quiet_ring (dp_rl_mbufs (qs_dpdk s))
     \<and> quiet_queue (dp_rxfree_queue (qs_dpdk s)) \<and> dp_tx_num (qs_dpdk s) = 0 \<and> nic_rx (dp_nic (qs_dpdk s)) = []"

lemma quiet_ring_get: "quiet_ring q \<Longrightarrow> cirq_get q = (NULL, q) \<and> cirq_count q = 0 \<and> cirq_empty q"
proof -
  assume q: "quiet_ring q"
  then have c: "cirq_count q = 0" by (auto simp: quiet_ring_def cirq_list_def ring_slice_def unsigned_eq_0_iff)
  moreover have g: "cirq_get q = (NULL, q)" using q by (simp add: quiet_ring_def cq.get_empty)
  moreover have "cirq_empty q"
    using q by (simp add: quiet_ring_def cirq_empty_iff)
  ultimately show ?thesis by blast
qed

lemma quiet_queue_get:
  assumes "quiet_queue q"
  shows "n21q_dequeue_strong q = Some (NULL, q)" "streamq_dequeue q = Some (NULL, q)" "n21q_dequeue q = Some (NULL, q)"
proof -
  let ?v = "rr_scan (unat (nq_queue_num q)) (unat (nq_queue_point q)) (unat (nq_queue_num q))"
  have wf: "n21q_wf q" and e: "n21q_items q = {#}" using assms by (simp_all add: quiet_queue_def)
  obtain x q' where d: "n21q_dequeue_strong q = Some (x, q')" "x \<noteq> NULL \<Longrightarrow> n21q_items q = add_mset x (n21q_items q')"
    using n21q_dequeue_items [OF wf] by metis
  have x: "x = NULL" using d(2) e by auto
  have r: "(x, q') = n21q_result q (nq_queue_point q) ?v" using d(1) n21q_dequeue_strong_result [OF wf] by simp
  have "find (n21q_has q) ?v = None"
  proof (rule ccontr)
    assume "\<not> ?thesis"
    then obtain i where i: "find (n21q_has q) ?v = Some i" by blast
    have p: "unat (nq_queue_point q) < unat (nq_queue_num q)" using wf by (simp add: n21q_wf_def word_less_nat_alt)
    have "i < unat (nq_queue_num q)" "n21q_has q i" using i set_rr_scan [OF p] by (auto simp: find_Some_iff dest: nth_mem)
    then have "hd (cirq_list (nq_queues q ! i)) \<noteq> NULL" using n21q_get_cases(2) [OF wf] by blast
    then show False using r i x by (simp add: n21q_result_def)
  qed
  then show s: "n21q_dequeue_strong q = Some (NULL, q)" using d(1) r by (simp add: n21q_result_def)
  then show "streamq_dequeue q = Some (NULL, q)" "n21q_dequeue q = Some (NULL, q)"
    by (simp_all add: streamq_dequeue_def n21q_dequeue_def do_n21q_dequeue_def n21q_dequeue_strong_def)
qed

lemma quiet_recv:
  assumes "quiet s"
  shows "io_recv_check flt s = Inr (0, s)" "extra_recv_check flt s = Inr s" "recv_phase ev flt ts s = Inr s"
proof -
  have q: "quiet_queue (dp_rxfree_queue (qs_dpdk s))" "quiet_ring (dp_rh_mbufs (qs_dpdk s))" "quiet_ring (dp_rl_mbufs (qs_dpdk s))"
    and rx: "nic_rx (dp_nic (qs_dpdk s)) = []" using assms by (simp_all add: quiet_def)
  have "rxfree_loop (Suc k) (qs_dpdk s) = Inr (qs_dpdk s)" for k using quiet_queue_get(3) [OF q(1)] by simp
  moreover have "dp_upd (\<lambda>d. d\<lparr>dp_nic := (dp_nic d)\<lparr>nic_rx := []\<rparr>\<rparr>) s = s" using rx by (simp add: dp_upd_def)
  ultimately show r: "io_recv_check flt s = Inr (0, s)"
    using rx quiet_ring_get [OF q(2)] quiet_ring_get [OF q(3)] by (simp add: io_recv_check_def dpdk_check_rx_ring_def)
  then show "extra_recv_check flt s = Inr s" "recv_phase ev flt ts s = Inr s"
    by (simp_all add: extra_recv_check_def recv_phase_def min_def)
qed

lemma quiet_send:
  assumes "quiet s"
  shows "send_phase ev ts s = Inr (0, s)" "io_send_check ck s = Inr (0, s)"
proof -
  note rings = assms [unfolded quiet_def]
  have sq: "write_tcp_send_queue ev ts s = Inr (0, s)"
    using quiet_queue_get(2) [of "qs_send_hevent_queue s"] quiet_queue_get(2) [of "qs_send_event_queue s"] rings
    by (simp add: write_tcp_send_queue_def get_from_send_queue_def MAX_DATA_PKT_BATCH_def numeral_eq_Suc)
  have app: "handle_app_call ev s = Inr s"
    using quiet_queue_get(2) [of "qs_close_queue s"] quiet_queue_get(2) [of "qs_connect_queue s"] rings
    by (simp add: handle_app_call_def MAX_CLOSE_BATCH_def MAX_CONNECT_BATCH_def numeral_eq_Suc)
  have "write_tcp_control_queue ev ts s = Inr (0, s)" "write_tcp_ack_queue ev ts s = Inr (0, s)"
    using quiet_ring_get [of "qs_control_queue s"] quiet_ring_get [of "qs_ack_queue s"] rings
    by (simp_all add: write_tcp_control_queue_def write_tcp_ack_queue_def sstreamq_dequeue_def MAX_CTRL_PKT_BATCH_def MAX_ACK_PKT_BATCH_def)
  then show "send_phase ev ts s = Inr (0, s)" using sq app by (simp add: send_phase_def)
  show "io_send_check ck s = Inr (0, s)"
    using quiet_ring_get [of "dp_th_mbufs (qs_dpdk s)"] quiet_ring_get [of "dp_tl_mbufs (qs_dpdk s)"] rings
    by (simp add: io_send_check_def dpdk_check_tx_ring_def tx_last_def)
qed

lemma quiet_timer: "quiet s \<Longrightarrow> timer_phase ev ts s = Inr s"
  by (simp add: quiet_def timer_phase_def timeout_list_check_def timewait_list_check_def rto_list_check_def)

lemma quiet_round:
  assumes "quiet s"
  shows "\<exists>v'. main_loop_round ev flt ck Inr t v s = Inr (v', s)"
  using quiet_recv [OF assms] quiet_timer [OF assms] quiet_send [OF assms]
  by (simp add: main_loop_round_def Let_def)

lemma quiet_loop: "quiet s \<Longrightarrow> \<exists>v'. qstack_main_loop ev flt ck Inr ts v s = Inr (v', s)"
proof (induction ts arbitrary: v)
  case (Cons t ts)
  obtain v1 where "main_loop_round ev flt ck Inr t v s = Inr (v1, s)" using quiet_round [OF Cons.prems] by blast
  then show ?case using Cons.IH [OF Cons.prems, of v1] by simp
qed simp

section \<open>The start\<close>

lemma flow_queue_size: "0 < FLOW_QUEUE_SIZE"
  by (simp add: FLOW_QUEUE_SIZE_def MEM_SCALE_def MAX_FLOW_NUM_def drop_bit_eq_div word_less_nat_alt unat_of_nat)

lemma quiet_ring_new: "0 < sz \<Longrightarrow> quiet_ring (cirq_init q sz)"
  by (simp add: quiet_ring_def cirq_init_wf)

lemma quiet_queue_new: "0 < num \<Longrightarrow> 0 < sz \<Longrightarrow> quiet_queue (n21q_init q num sz)"
  by (simp add: quiet_queue_def n21q_init_wf n21q_init_empty)

lemma stack_context_quiet:
  assumes init: "stack_context_init mem n i s = Inr s'" and n: "0 < n" "n \<le> MAX_RUN_CPUS" and st: "0 < st" "st \<le> MAX_STACK_NUM"
    and dp: "qs_dpdk s = dpc_view (new_dpc po n st i) v" "nic_rx (dp_nic v) = []"
    and z: "\<And>p. st_on_rto_idx (qs_streams s p) = 0 \<and> \<not> st_on_timewait_list (qs_streams s p) \<and> \<not> st_on_timeout_list (qs_streams s p)"
  shows "quiet s'" "timer_inv s'" "qs_stack_id s' = i" "qs_sockets s' = qs_sockets s"
proof -
  have w: "0 < (of_nat n :: u8)" "0 < (of_nat MAX_FLOW_NUM :: u32)"
    using num_cores_word [OF n] by (simp_all add: MAX_FLOW_NUM_def)
  note new = quiet_queue_new [OF w(1)] quiet_ring_new
  show "quiet s'" "timer_inv s'" "qs_stack_id s' = i" "qs_sockets s' = qs_sockets s"
    using init z dp new flow_queue_size w flow_pstack_size [OF st]
    by (auto simp: stack_context_init_def sender_init_def timer_init_def Let_def quiet_def timer_inv_def dpc_view_def new_dpc_def
        sstreamq_init_def streamq_init_def split: if_splits)
qed

lemma init_stacks_nth:
  "init_stacks mem n g d z js = Inr ss \<Longrightarrow> length ss = length js \<and> (\<forall>k<length js.
     stack_context_init mem n (js ! k) (z\<lparr>qs_sockets := gc_socket_table g, qs_stream_ht := gc_stream_ht g ! (js ! k),
       qs_dpdk := dpc_view (dv_dpc d (js ! k)) (qs_dpdk z)\<rparr>) = Inr (ss ! k))"
proof (induction js arbitrary: ss)
  case (Cons i js)
  then obtain s1 ss1 where "stack_context_init mem n i (z\<lparr>qs_sockets := gc_socket_table g, qs_stream_ht := gc_stream_ht g ! i,
       qs_dpdk := dpc_view (dv_dpc d i) (qs_dpdk z)\<rparr>) = Inr s1" "init_stacks mem n g d z js = Inr ss1" "ss = s1 # ss1"
    by (auto simp: bind_r_Inr_iff)
  then show ?case using Cons.IH [of ss1] by (auto simp: nth_Cons split: nat.splits)
qed simp

lemma app_contexts_cores:
  "app_contexts mem st js = Inr as \<Longrightarrow> map qa_app_id as = js \<and> map qa_core_id as = map (\<lambda>i. i + st) js"
  by (induction js arbitrary: as) (auto simp: bind_r_Inr_iff split: if_splits)

lemma gctx_init_sockets:
  assumes "gctx_init cf b m = Inr g" "so_socktype (bt_socket b) = SOCK_TYPE_UNUSED"
  shows "socket_table_inv (cf_stack_thread cf * MAX_SOCKET_PSTACK (cf_stack_thread cf)) (cf_stack_thread cf) (gc_socket_table g)"
proof -
  obtain tb where "socket_table_init (cf_max_concurrency cf) MAX_SOCKET_NUM PUB_SOCKET_NUM (cf_stack_thread cf)
      (MAX_SOCKET_PSTACK (cf_stack_thread cf)) (bt_socket b) = Inr tb" "gc_socket_table g = tb"
    using assms(1) by (auto simp: gctx_init_def Let_def bind_r_Inr_iff split: if_splits option.splits)
  then show ?thesis using socket_table_init_inv assms(2) by blast
qed

text \<open>
  C9 (liveness). A system that starts has one stack per configured thread, whose timer lists and
  socket table satisfy their invariants and whose rings and queues are empty, and applications on
  cores of their own behind those of the stacks. As long as no packet arrives and no application
  asks for anything, every round of the main loop of every stack returns and changes nothing,
  whatever the clock shows.
\<close>

theorem fresh_system_idles:
  assumes init: "qstack_init cf b d0 m0 z = Inr sy"
    and n: "0 < cf_num_cores cf" "cf_num_cores cf \<le> MAX_RUN_CPUS" "cf_stack_thread cf \<le> MAX_STACK_NUM"
    and z: "\<forall>p. st_on_rto_idx (qs_streams z p) = 0 \<and> \<not> st_on_timewait_list (qs_streams z p) \<and> \<not> st_on_timeout_list (qs_streams z p)"
      "nic_rx (dp_nic (qs_dpdk z)) = []" "so_socktype (bt_socket b) = SOCK_TYPE_UNUSED"
  shows "length (sy_stacks sy) = cf_stack_thread cf
    \<and> map qa_core_id (sy_apps sy) = [cf_stack_thread cf..<cf_stack_thread cf + cf_app_thread cf]
    \<and> (\<forall>i<cf_stack_thread cf. qs_stack_id (sy_stacks sy ! i) = i \<and> timer_inv (sy_stacks sy ! i)
         \<and> socket_table_inv (cf_stack_thread cf * MAX_SOCKET_PSTACK (cf_stack_thread cf)) (cf_stack_thread cf) (qs_sockets (sy_stacks sy ! i))
         \<and> (\<forall>ts v. \<exists>v'. qstack_main_loop ev flt ck Inr ts v (sy_stacks sy ! i) = Inr (v', sy_stacks sy ! i)))"
proof -
  let ?st = "cf_stack_thread cf"
  obtain r d g where io: "io_init (bt_eal b) (bt_mem b) (bt_mbuf_pool b) (cf_max_concurrency cf) (cf_num_cores cf) ?st d0 = Inr (r, d)"
    and g: "gctx_init cf b m0 = Inr g" and ss: "init_stacks (bt_mem b) (cf_num_cores cf) g d z [0..<?st] = Inr (sy_stacks sy)"
    and as: "qstack_app_init (bt_app_mem b) (cf_app_thread cf) ?st = Inr (sy_apps sy)"
    using init by (auto simp: qstack_init_def bind_r_Inr_iff)
  obtain po where st: "0 < ?st" and dpc: "\<And>c. c < MAX_RUN_CPUS \<Longrightarrow> dv_dpc d c = new_dpc po (cf_num_cores cf) ?st c"
    using io_init_dpc [OF io] by blast
  note nth = init_stacks_nth [OF ss]
  have "map qa_core_id (sy_apps sy) = [?st..<?st + cf_app_thread cf]"
    using as app_contexts_cores [of "bt_app_mem b" ?st "[0..<cf_app_thread cf]" "sy_apps sy"]
    by (auto simp: qstack_app_init_def map_add_upt add.commute split: if_splits)
  moreover have "qs_stack_id (sy_stacks sy ! i) = i \<and> timer_inv (sy_stacks sy ! i)
         \<and> socket_table_inv (?st * MAX_SOCKET_PSTACK ?st) ?st (qs_sockets (sy_stacks sy ! i))
         \<and> (\<forall>ts v. \<exists>v'. qstack_main_loop ev flt ck Inr ts v (sy_stacks sy ! i) = Inr (v', sy_stacks sy ! i))" if i: "i < ?st" for i
  proof -
    have "dv_dpc d i = new_dpc po (cf_num_cores cf) ?st i" using dpc i n(3) by (simp add: MAX_RUN_CPUS_def MAX_CORE_NUM_def MAX_STACK_NUM_def)
    moreover have "stack_context_init (bt_mem b) (cf_num_cores cf) i (z\<lparr>qs_sockets := gc_socket_table g, qs_stream_ht := gc_stream_ht g ! i,
       qs_dpdk := dpc_view (dv_dpc d i) (qs_dpdk z)\<rparr>) = Inr (sy_stacks sy ! i)" using nth i by simp
    ultimately have "quiet (sy_stacks sy ! i)" "timer_inv (sy_stacks sy ! i)" "qs_stack_id (sy_stacks sy ! i) = i"
        "qs_sockets (sy_stacks sy ! i) = gc_socket_table g"
      using stack_context_quiet [where s = "z\<lparr>qs_sockets := gc_socket_table g, qs_stream_ht := gc_stream_ht g ! i,
          qs_dpdk := dpc_view (dv_dpc d i) (qs_dpdk z)\<rparr>" and v = "qs_dpdk z" and po = po, OF _ n(1,2) st n(3)] z by simp_all
    then show ?thesis using gctx_init_sockets [OF g z(3)] by (simp add: quiet_loop)
  qed
  ultimately show ?thesis using nth by simp
qed

lemma create_private_total:
  "(\<And>i n k. fst (mk i n k) \<noteq> NULL) \<Longrightarrow> \<forall>i\<in>set js. i < MAX_CPUS \<Longrightarrow> \<exists>mt' m'. create_private mk n csz js mt m = Inr (mt', m')"
proof (induction js arbitrary: mt m)
  case (Cons i js)
  obtain h ob pl where h: "mk i n (take_bit 16 csz) = (h, ob, pl)" "h \<noteq> NULL"
    using Cons.prems(1) [of i n "take_bit 16 csz"] by (cases "mk i n (take_bit 16 csz)") auto
  then show ?case using Cons.IH [OF Cons.prems(1)] Cons.prems(2) by (simp add: rte_chunk_pool_create_def)
qed simp

lemma mempool_create_total:
  assumes mk: "\<And>i n k. fst (mk i n k) \<noteq> NULL" and n: "n \<le> MAX_CPUS" "0 < sint (p * of_nat n + s + 1000)"
  shows "\<exists>mt m'. mempool_create True mk csz p s n m = Inr (Some mt, m')"
proof -
  have total: "\<exists>mt' m'. create_private mk k c [0..<n] mt m = Inr (mt', m')" for k c mt
    using create_private_total [OF mk, of "[0..<n]"] n(1) by simp
  have mp: "fst (rte_chunk_pool_create mk i k c mt m1) \<noteq> NULL" for i k c mt m1
    using mk [of i k "take_bit 16 c"] by (auto simp: rte_chunk_pool_create_def split: prod.splits)
  have "n < MAX_CORE" using n(1) by (simp add: MAX_CPUS_def MAX_CORE_def)
  then show ?thesis using n(2) total mp
    by (fastforce simp: mempool_create_def Let_def bind_r_Inr_iff split_beta)
qed

text \<open>One stack and one application, with pools and tables that are lists and maps.\<close>

definition conf1 :: qconfig where
  "conf1 = \<lparr>cf_num_cores = 2, cf_stack_thread = 1, cf_app_thread = 1, cf_max_concurrency = 14000000\<rparr>"

definition boot1 :: "(ldpdk, ptr list, ipv4_5tuple \<Rightarrow> ptr option) boot" where
  "boot1 = \<lparr>bt_eal = 0, bt_mem = True, bt_mbuf_pool = list_create, bt_listener_pool = list_mk, bt_stream_pool = list_mk,
     bt_hash = (\<lambda>_. Some (\<lambda>_. None)), bt_listener_size = 64, bt_stream_size = 512, bt_socket = socket0, bt_app_mem = (\<lambda>_. True),
     bt_clock = (\<lambda>_. 0)\<rparr>"

lemma gctx1: "\<exists>g. gctx_init conf1 boot1 cmem0 = Inr g"
proof -
  have mk: "fst (list_mk i k c) \<noteq> NULL" for i k c by (simp add: list_mk_def)
  obtain pl m1 where l: "mempool_create True list_mk 64 10 10 1 cmem0 = Inr (Some pl, m1)"
    using mempool_create_total [of list_mk, OF mk, where n = 1 and p = 10 and s = 10 and csz = 64 and m = cmem0] by (auto simp: MAX_CPUS_def)
  obtain ps m2 where s: "mempool_create True list_mk 512 14000000 0 1 m1 = Inr (Some ps, m2)"
    using mempool_create_total [of list_mk, OF mk, where n = 1 and p = 14000000 and s = 0 and csz = 512 and m = m1] by (auto simp: MAX_CPUS_def)
  obtain tb where tb: "socket_table_init 14000000 MAX_SOCKET_NUM PUB_SOCKET_NUM 1 (MAX_SOCKET_PSTACK 1) socket0 = Inr tb"
    by (simp add: socket_table_init_def MAX_SOCKET_NUM_def del: upt_rec_numeral)
  show ?thesis using tb l s
    by (simp add: gctx_init_def conf1_def boot1_def ht_create_def MAX_FLOW_PSTACK_def MAX_FLOW_NUM_def)
qed

theorem fresh_system_idles_witness:
  "\<exists>sy. qstack_init conf1 boot1 ldrv0 cmem0 stack0 = Inr sy \<and> map qa_core_id (sy_apps sy) = [1]
     \<and> timer_inv (sy_stacks sy ! 0)
     \<and> (\<exists>v'. qstack_main_loop env0 (\<lambda>_. 0) (\<lambda>_. 0) Inr [0, 1000, 4294967296] \<lparr>lv_to_send = 0, lv_last_send_check_ts = 0\<rparr> (sy_stacks sy ! 0)
          = Inr (v', sy_stacks sy ! 0))"
proof -
  obtain r d where io: "io_init 0 True list_create 14000000 2 1 ldrv0 = Inr (r, d)" using list_init by metis
  obtain g where g: "gctx_init conf1 boot1 cmem0 = Inr g" using gctx1 by blast
  obtain sy where sy: "qstack_init conf1 boot1 ldrv0 cmem0 stack0 = Inr sy"
    using io g by (simp add: qstack_init_def conf1_def boot1_def qstack_app_init_def stack_context_init_def MAX_STACK_NUM_def Let_def)
  have c: "0 < cf_num_cores conf1" "cf_num_cores conf1 \<le> MAX_RUN_CPUS" "cf_stack_thread conf1 \<le> MAX_STACK_NUM"
    by (simp_all add: conf1_def MAX_RUN_CPUS_def MAX_CORE_NUM_def MAX_STACK_NUM_def)
  have z: "\<forall>p. st_on_rto_idx (qs_streams stack0 p) = 0 \<and> \<not> st_on_timewait_list (qs_streams stack0 p) \<and> \<not> st_on_timeout_list (qs_streams stack0 p)"
    "nic_rx (dp_nic (qs_dpdk stack0)) = []" "so_socktype (bt_socket boot1) = SOCK_TYPE_UNUSED"
    by (simp_all add: stack0_def zero_stream_def boot1_def socket0_def)
  have st: "cf_stack_thread conf1 = 1" "cf_app_thread conf1 = 1" by (simp_all add: conf1_def)
  show ?thesis
    using fresh_system_idles [OF sy c z, of env0 "\<lambda>_. 0" "\<lambda>_. 0"] sy unfolding st by (auto simp: upt_rec simp del: qstack_main_loop.simps)
qed

end
