(* ===== verification/Config.thy ===== *)
theory Config
  imports Stack_Init "HOL-Library.Signed_Division"
begin

text \<open>
  The configuration file, \<^verbatim>\<open>config.c\<close>: reading it line by line, removing comments and
  surrounding space, and setting \<^verbatim>\<open>CONFIG\<close> option by option, with the parts of the C library
  that it uses (\<^verbatim>\<open>fgets\<close>, \<^verbatim>\<open>strtok_r\<close>, \<^verbatim>\<open>strtol\<close>). A file is the list of its characters,
  or \<open>None\<close> if it cannot be opened. The address parser \<^verbatim>\<open>inet_addr\<close> of the system and the number
  of processors it reports are parameters. The build defines \<^verbatim>\<open>NDEBUG\<close>, so the assertions are
  gone. Messages are left out. An \<^verbatim>\<open>int\<close> is an integer; only \<^verbatim>\<open>mystrtol\<close> cuts values to
  32 bits, and the one sum is compared for a message.
\<close>

section \<open>The C library\<close>

definition isspace :: "char \<Rightarrow> bool" where
  "isspace c \<longleftrightarrow> c \<in> {CHR '' '', CHR 0x09, CHR 0x0A, CHR 0x0B, CHR 0x0C, CHR 0x0D}"

definition isdigit :: "char \<Rightarrow> bool" where
  "isdigit c \<longleftrightarrow> 48 \<le> (of_char c :: nat) \<and> (of_char c :: nat) \<le> 57"

definition digit_val :: "char \<Rightarrow> int" where
  "digit_val c = int (of_char c) - 48"

definition LONG_MAX :: int where "LONG_MAX = 2 ^ 63 - 1"
definition LONG_MIN :: int where "LONG_MIN = - (2 ^ 63)"

text \<open>Base 10: the value, whether there was a number at all, and whether \<^verbatim>\<open>errno\<close> is \<^verbatim>\<open>ERANGE\<close>.\<close>

definition strtol :: "string \<Rightarrow> int \<times> bool \<times> bool" where
  "strtol s =
     (let t = dropWhile isspace s;
          neg = (t \<noteq> [] \<and> hd t = CHR ''-'');
          u = (if t \<noteq> [] \<and> (hd t = CHR ''-'' \<or> hd t = CHR ''+'') then tl t else t);
          ds = takeWhile isdigit u;
          m = foldl (\<lambda>a c. a * 10 + digit_val c) 0 ds;
          v = (if neg then - m else m)
      in if ds = [] then (0, False, False)
         else if v > LONG_MAX then (LONG_MAX, True, True)
         else if v < LONG_MIN then (LONG_MIN, True, True)
         else (v, True, False))"

text \<open>The token, \<open>None\<close> for \<^verbatim>\<open>NULL\<close>, and what the saved pointer points to.\<close>

definition strtok_r :: "string \<Rightarrow> string \<Rightarrow> string option \<times> string" where
  "strtok_r delim s =
     (let t = dropWhile (\<lambda>c. c \<in> set delim) s
      in if t = [] then (None, [])
         else (Some (takeWhile (\<lambda>c. c \<notin> set delim) t), drop 1 (dropWhile (\<lambda>c. c \<notin> set delim) t)))"

fun take_line :: "nat \<Rightarrow> string \<Rightarrow> string \<times> string" where
  "take_line 0 s = ([], s)"
| "take_line (Suc n) [] = ([], [])"
| "take_line (Suc n) (c # s) = (if c = CHR 0x0A then ([c], s) else let (l, r) = take_line n s in (c # l, r))"

definition fgets :: "nat \<Rightarrow> string \<Rightarrow> (string \<times> string) option" where
  "fgets n s = (if s = [] then None else Some (take_line (n - 1) s))"

text \<open>What C sees of an array of characters: everything up to the first zero.\<close>

definition c_string :: "string \<Rightarrow> string" where
  "c_string s = takeWhile (\<lambda>c. c \<noteq> CHR 0x00) s"

section \<open>The configuration\<close>

datatype conf_halt = Exit_failure | Bad_pointer

record eth_table =
  et_ifindex :: int
  et_stat_print :: int
  et_netmask :: u32
  et_ip_addr :: u32

record conf =
  cg_num_cpus :: int
  cg_eths_num :: int
  cg_eth0 :: eth_table
  cg_num_cores :: int
  cg_stack_thread :: int
  cg_app_thread :: int
  cg_max_concurrency :: int
  cg_max_num_buffers :: int
  cg_rcvbuf_size :: int
  cg_sndbuf_size :: int
  cg_pri :: int

definition MAX_OPTLINE_LEN :: nat where "MAX_OPTLINE_LEN = 1024"

text \<open>\<^verbatim>\<open>rval\<close> is an \<^verbatim>\<open>int\<close>: the result of \<^verbatim>\<open>strtol\<close> is cut to 32 bits before it is compared.\<close>

definition mystrtol :: "string \<Rightarrow> conf_halt + int" where
  "mystrtol nptr =
     (let (v, moved, erange) = strtol nptr;
          rval = signed_take_bit 31 v
      in if (erange \<and> (rval = LONG_MAX \<or> rval = LONG_MIN)) \<or> (erange \<and> rval = 0) then Inl Exit_failure
         else if \<not> moved then Inl Exit_failure
         else Inr rval)"

function mask_bits :: "int \<Rightarrow> int \<Rightarrow> int \<Rightarrow> u32 \<Rightarrow> u32" where
  "mask_bits prefix i j m =
     (if j < prefix - i * 8 \<and> j < 8 then mask_bits prefix i (j + 1) (m OR push_bit (nat (i * 8 + (7 - j))) 1) else m)"
  by auto
termination by (relation "measure (\<lambda>(p, i, j, w). nat (8 - j))") auto

function mask_bytes :: "int \<Rightarrow> int \<Rightarrow> u32 \<Rightarrow> u32" where
  "mask_bytes prefix i m =
     (if i \<le> prefix sdiv 8 \<and> i < 4 then mask_bytes prefix (i + 1) (mask_bits prefix i 0 m) else m)"
  by auto
termination by (relation "measure (\<lambda>(p, i, w). nat (4 - i))") auto

declare mask_bits.simps [simp del] mask_bytes.simps [simp del]

definition MaskFromPrefix :: "int \<Rightarrow> u32" where
  "MaskFromPrefix prefix = mask_bytes prefix 0 0"

definition set_eth0 :: "(eth_table \<Rightarrow> eth_table) \<Rightarrow> conf \<Rightarrow> conf" where
  "set_eth0 f c = c\<lparr>cg_eth0 := f (cg_eth0 c)\<rparr>"

definition set_host_ip :: "(string \<Rightarrow> u32) \<Rightarrow> string \<Rightarrow> conf \<Rightarrow> conf_halt + conf" where
  "set_host_ip inet_addr optstr c =
     (case strtok_r ''/'' optstr of (daddr_s, saveptr) \<Rightarrow>
      case strtok_r '' '' saveptr of (prefix, _) \<Rightarrow>
      case prefix of None \<Rightarrow> Inl Bad_pointer | Some pr \<Rightarrow>
        bind_r (mystrtol pr) (\<lambda>net_prefix.
        case daddr_s of None \<Rightarrow> Inl Bad_pointer | Some da \<Rightarrow>
          Inr (set_eth0 (\<lambda>e. e\<lparr>et_ip_addr := inet_addr da, et_netmask := MaskFromPrefix net_prefix\<rparr>) c)))"

definition conf_delim :: string where
  "conf_delim = [CHR '' '', CHR 0x09, CHR ''='']"

definition parse_num_cores :: "int \<Rightarrow> conf \<Rightarrow> int \<times> conf" where
  "parse_num_cores v c =
     (let c1 = c\<lparr>cg_num_cores := v\<rparr>
      in if v \<le> 0 then (- 1, c1) else if v > cg_num_cpus c1 then (- 1, c1) else (0, c1\<lparr>cg_num_cpus := v\<rparr>))"

definition parse_stat_print :: "int \<Rightarrow> conf \<Rightarrow> int \<times> conf" where
  "parse_stat_print v c = (0, set_eth0 (\<lambda>e. e\<lparr>et_stat_print := (if v = 0 then cg_num_cpus c - 1 else v)\<rparr>) c)"

text \<open>
  The copy of the line has room for 1023 characters and no terminator if the line has as many:
  what follows in memory then belongs to the last token.
\<close>

definition ParseConfiguration :: "(string \<Rightarrow> u32) \<Rightarrow> string \<Rightarrow> conf \<Rightarrow> conf_halt + int \<times> conf" where
  "ParseConfiguration inet_addr line c =
     (if length line \<ge> MAX_OPTLINE_LEN - 1 then Inl Bad_pointer
      else case strtok_r conf_delim line of (p0, saveptr) \<Rightarrow>
      case p0 of None \<Rightarrow> Inr (- 1, c) | Some p \<Rightarrow>
      case strtok_r conf_delim saveptr of (q0, _) \<Rightarrow>
      case q0 of None \<Rightarrow> Inr (- 1, c) | Some q \<Rightarrow>
        if p = ''num_cores'' then bind_r (mystrtol q) (\<lambda>v. Inr (parse_num_cores v c))
        else if p = ''max_concurrency'' then bind_r (mystrtol q) (\<lambda>v. Inr (if v < 0 then - 1 else 0, c\<lparr>cg_max_concurrency := v\<rparr>))
        else if p = ''max_num_buffers'' then bind_r (mystrtol q) (\<lambda>v. Inr (if v < 0 then - 1 else 0, c\<lparr>cg_max_num_buffers := v\<rparr>))
        else if p = ''rcvbuf'' then bind_r (mystrtol q) (\<lambda>v. Inr (if v < 64 then - 1 else 0, c\<lparr>cg_rcvbuf_size := v\<rparr>))
        else if p = ''sndbuf'' then bind_r (mystrtol q) (\<lambda>v. Inr (if v < 64 then - 1 else 0, c\<lparr>cg_sndbuf_size := v\<rparr>))
        else if p = ''stack_thread'' then bind_r (mystrtol q) (\<lambda>v. Inr (0, c\<lparr>cg_stack_thread := (if v = 0 then 1 else v)\<rparr>))
        else if p = ''app_thread'' then bind_r (mystrtol q) (\<lambda>v. Inr (0, c\<lparr>cg_app_thread := (if v = 0 then 1 else v)\<rparr>))
        else if p = ''stat_print'' then bind_r (mystrtol q) (\<lambda>v. Inr (parse_stat_print v c))
        else if p = ''host_ip'' then bind_r (set_host_ip inet_addr q c) (\<lambda>c1. Inr (0, c1))
        else if p = ''pri_enable'' then bind_r (mystrtol q) (\<lambda>v. Inr (0, c\<lparr>cg_pri := v\<rparr>))
        else Inr (- 1, c))"

text \<open>
  The loop over the trailing space does not move its pointer: it clears the last character if that
  is space, and then stops at the zero it has written.
\<close>

definition strip_line :: "string \<Rightarrow> string" where
  "strip_line optstr =
     (let p = dropWhile isspace (takeWhile (\<lambda>c. c \<noteq> CHR ''#'') (c_string optstr))
      in if p \<noteq> [] \<and> isspace (last p) then butlast p else p)"

lemma take_line_shorter: "0 < n \<Longrightarrow> s \<noteq> [] \<Longrightarrow> length (snd (take_line n s)) < length s"
proof (induction n s rule: take_line.induct)
  case (3 n c s)
  show ?case
  proof (cases "c = CHR 0x0A \<or> n = 0 \<or> s = []")
    case True
    then show ?thesis by (cases n) (auto split: prod.splits)
  next
    case False
    then show ?thesis using 3 by (auto split: prod.splits)
  qed
qed auto

lemma fgets_shorter: "fgets n s = Some (l, r) \<Longrightarrow> 1 < n \<Longrightarrow> length r < length s"
  using take_line_shorter [of "n - 1" s] by (auto simp: fgets_def split: if_splits)

function load_lines :: "(string \<Rightarrow> u32) \<Rightarrow> string \<Rightarrow> conf \<Rightarrow> conf_halt + int \<times> conf" where
  "load_lines inet_addr fp c =
     (case fgets MAX_OPTLINE_LEN fp of
        None \<Rightarrow> Inr (0, c)
      | Some (optstr, rest) \<Rightarrow>
          let p = strip_line optstr
          in if p = [] then load_lines inet_addr rest c
             else bind_r (ParseConfiguration inet_addr p c) (\<lambda>(ret, c1).
                    if ret < 0 then Inr (- 1, c1) else load_lines inet_addr rest c1))"
  by pat_completeness auto
termination
  by (relation "measure (\<lambda>(a, fp, c). length fp)") (auto dest: fgets_shorter simp: MAX_OPTLINE_LEN_def)

declare load_lines.simps [simp del]

definition default_conf :: "int \<Rightarrow> conf \<Rightarrow> conf" where
  "default_conf cpus c = c\<lparr>cg_num_cpus := cpus, cg_num_cores := 24, cg_max_concurrency := int MAX_FLOW_NUM,
     cg_max_num_buffers := 100000, cg_rcvbuf_size := uint STATIC_BUFF_SIZE, cg_sndbuf_size := uint STATIC_BUFF_SIZE,
     cg_eths_num := 1, cg_eth0 := \<lparr>et_ifindex = 0, et_stat_print = 0, et_netmask = 0, et_ip_addr = 0\<rparr>\<rparr>"

definition load_configuration :: "(string \<Rightarrow> u32) \<Rightarrow> int \<Rightarrow> string option \<Rightarrow> conf \<Rightarrow> conf_halt + int \<times> conf" where
  "load_configuration inet_addr cpus file c =
     (case file of None \<Rightarrow> Inr (- 1, c) | Some fp \<Rightarrow> load_lines inet_addr fp (default_conf cpus c))"

definition qstack_getconf :: "(string \<Rightarrow> u32) \<Rightarrow> int \<Rightarrow> string option \<Rightarrow> conf \<Rightarrow> conf_halt + conf option \<times> conf" where
  "qstack_getconf inet_addr cpus cfg_file c =
     bind_r (load_configuration inet_addr cpus cfg_file c) (\<lambda>(ret, c1). Inr (if ret < 0 then None else Some c1, c1))"


section \<open>The netmask\<close>

lemma bit_mask_bits:
  "0 \<le> i \<Longrightarrow> 0 \<le> j \<Longrightarrow> bit (mask_bits p i j m) n \<longleftrightarrow>
     bit m n \<or> n < 32 \<and> (\<exists>k. j \<le> k \<and> k < 8 \<and> k < p - i * 8 \<and> int n = i * 8 + (7 - k))"
proof (induction p i j m rule: mask_bits.induct)
  case (1 p i j m)
  show ?case
  proof (cases "j < p - i * 8 \<and> j < 8")
    case True
    have "0 \<le> i * 8 + (7 - j)" using True 1(2) by auto
    then have n: "n = nat (i * 8 + (7 - j)) \<longleftrightarrow> int n = i * 8 + (7 - j)" by (metis int_nat_eq nat_int)
    have "bit (mask_bits p i j m) n \<longleftrightarrow> bit (m OR push_bit (nat (i * 8 + (7 - j))) 1) n
      \<or> n < 32 \<and> (\<exists>k. j + 1 \<le> k \<and> k < 8 \<and> k < p - i * 8 \<and> int n = i * 8 + (7 - k))"
      using 1 True by (subst mask_bits.simps) simp
    also have "\<dots> \<longleftrightarrow> bit m n \<or> n < 32 \<and> (\<exists>k. j \<le> k \<and> k < 8 \<and> k < p - i * 8 \<and> int n = i * 8 + (7 - k))"
      using True n by (auto simp: bit_simps)
    finally show ?thesis .
  qed (subst mask_bits.simps, auto)
qed

lemma bit_mask_bytes:
  "0 \<le> i \<Longrightarrow> bit (mask_bytes p i m) n \<longleftrightarrow>
     bit m n \<or> n < 32 \<and> i \<le> int n div 8 \<and> 7 - int n mod 8 < p - (int n div 8) * 8"
proof (induction p i m rule: mask_bytes.induct)
  case (1 p i m)
  have ex: "(\<exists>k\<ge>0. k < 8 \<and> k < p - i * 8 \<and> int n = i * 8 + (7 - k)) \<longleftrightarrow> i = int n div 8 \<and> 7 - int n mod 8 < p - i * 8" for i
    by (rule iffI, fastforce, intro exI [of _ "7 - int n mod 8"]) auto
  show ?case
  proof (cases "i \<le> p sdiv 8 \<and> i < 4")
    case True
    have "bit (mask_bytes p i m) n \<longleftrightarrow> bit (mask_bits p i 0 m) n \<or> n < 32 \<and> i + 1 \<le> int n div 8 \<and> 7 - int n mod 8 < p - (int n div 8) * 8"
      using 1 True by (subst mask_bytes.simps) simp
    then show ?thesis using 1(2) by (auto simp: bit_mask_bits ex)
  next
    case False
    have "\<not> (n < 32 \<and> i \<le> int n div 8 \<and> 7 - int n mod 8 < p - (int n div 8) * 8)"
    proof
      assume a: "n < 32 \<and> i \<le> int n div 8 \<and> 7 - int n mod 8 < p - (int n div 8) * 8"
      then have "0 \<le> p" "i * 8 < p" "i < 4" using 1(2) by auto
      moreover have "p sdiv 8 = p div 8" using \<open>0 \<le> p\<close> by (cases "p = 0") (auto simp: signed_divide_int_def sgn_if)
      ultimately show False using False by auto
    qed
    then show ?thesis using False by (subst mask_bytes.simps) auto
  qed
qed

lemma bit_MaskFromPrefix:
  assumes "b < 4" "r < 8"
  shows "bit (MaskFromPrefix p) (8 * b + r) \<longleftrightarrow> 7 - int r < p - 8 * int b"
proof -
  have "int (8 * b + r) div 8 = int b" "int (8 * b + r) mod 8 = int r" using assms by simp_all
  then show ?thesis using assms by (simp add: MaskFromPrefix_def bit_mask_bytes mult.commute)
qed

lemma bit_ntohl_byte:
  assumes "b < 4" "r < 8"
  shows "bit (ntohl w) (8 * b + r) \<longleftrightarrow> bit w (8 * (3 - b) + r)"
proof -
  have "b = 0 \<or> b = 1 \<or> b = 2 \<or> b = 3" using assms by linarith
  then show ?thesis using assms by (auto simp: bit_ntohl add.commute)
qed

lemma MaskFromPrefix_top: "ntohl (MaskFromPrefix prefix) = NOT (mask (32 - nat prefix))"
proof (rule bit_word_eqI)
  fix n assume "n < LENGTH(32)"
  then have n: "n < 32" by simp
  define b r where "b = n div 8" and "r = n mod 8"
  have br: "n = 8 * b + r" "b < 4" "r < 8" using n by (auto simp: b_def r_def)
  have "bit (ntohl (MaskFromPrefix prefix)) n \<longleftrightarrow> 7 - int r < prefix - 8 * int (3 - b)"
    unfolding br(1) using br by (simp add: bit_ntohl_byte bit_MaskFromPrefix)
  also have "\<dots> \<longleftrightarrow> \<not> n < 32 - nat prefix" using br by linarith
  finally show "bit (ntohl (MaskFromPrefix prefix)) n \<longleftrightarrow> bit (NOT (mask (32 - nat prefix)) :: u32) n"
    using n by (simp add: bit_simps)
qed

section \<open>Numbers, words and lines\<close>

fun dec_nat :: "nat \<Rightarrow> string" where
  "dec_nat n = (if n < 10 then [char_of (48 + n)] else dec_nat (n div 10) @ [char_of (48 + n mod 10)])"

declare dec_nat.simps [simp del]

definition dec :: "int \<Rightarrow> string" where
  "dec v = (if v < 0 then CHR ''-'' # dec_nat (nat (- v)) else dec_nat (nat v))"

lemma of_digit_char: "n < 10 \<Longrightarrow> (of_char (char_of (48 + n :: nat) :: char) :: nat) = 48 + n"
  by (simp add: take_bit_nat_eq_self)

lemma isdigit_char: "n < 10 \<Longrightarrow> isdigit (char_of (48 + n :: nat))"
  using of_digit_char [of n] by (simp add: isdigit_def del: of_char_of)

lemma digit_val_char: "n < 10 \<Longrightarrow> digit_val (char_of (48 + n :: nat)) = int n"
  using of_digit_char [of n] by (simp add: digit_val_def del: of_char_of)

lemma dec_nat_digits: "\<forall>c\<in>set (dec_nat n). isdigit c"
proof (induction n rule: dec_nat.induct)
  case (1 n)
  then show ?case using isdigit_char [of n] isdigit_char [of "n mod 10"] by (subst dec_nat.simps) auto
qed

lemma dec_nat_ne: "dec_nat n \<noteq> []"
  by (subst dec_nat.simps) simp

lemma dec_nat_val: "foldl (\<lambda>a c. a * 10 + digit_val c) 0 (dec_nat n) = int n"
proof (induction n rule: dec_nat.induct)
  case (1 n)
  show ?case
  proof (cases "n < 10")
    case True
    then show ?thesis by (subst dec_nat.simps) (simp add: digit_val_char)
  next
    case False
    have "int (n div 10) * 10 + int (n mod 10) = int n" by (simp add: zdiv_int zmod_int)
    then show ?thesis using 1 False by (subst dec_nat.simps) (simp add: digit_val_char)
  qed
qed

lemma dec_nat_length: "n < 10 ^ k \<Longrightarrow> 0 < k \<Longrightarrow> length (dec_nat n) \<le> k"
proof (induction n arbitrary: k rule: dec_nat.induct)
  case (1 n)
  show ?case
  proof (cases "n < 10")
    case True
    then show ?thesis using 1 by (subst dec_nat.simps) simp
  next
    case False
    then obtain k' where k: "k = Suc k'" "0 < k'" using 1(2,3)
      by (cases k; cases "k - 1") auto
    have "n div 10 < 10 ^ k'" using 1(2) k by (simp add: less_mult_imp_div_less mult.commute)
    then show ?thesis using 1(1) [of k'] False k by (subst dec_nat.simps) simp
  qed
qed

definition int32 :: "int \<Rightarrow> bool" where
  "int32 v \<longleftrightarrow> - (2 ^ 31) \<le> v \<and> v < 2 ^ 31"

lemma isdigit_not_space: "isdigit c \<Longrightarrow> \<not> isspace c"
  by (auto simp: isdigit_def isspace_def)

lemma strtol_digits:
  assumes "ds \<noteq> []" "\<forall>c\<in>set ds. isdigit c" and m: "foldl (\<lambda>a c. a * 10 + digit_val c) 0 ds = m" "0 \<le> m"
  shows "strtol ds = (if m > LONG_MAX then (LONG_MAX, True, True) else (m, True, False))"
    "strtol (CHR ''-'' # ds) = (if - m < LONG_MIN then (LONG_MIN, True, True) else (- m, True, False))"
proof -
  have "isdigit (hd ds)" using assms(1,2) by simp
  then have hd: "\<not> isspace (hd ds)" "hd ds \<noteq> CHR ''-''" "hd ds \<noteq> CHR ''+''"
    by (auto simp: isdigit_not_space isdigit_def)
  have dw: "dropWhile isspace ds = ds" using assms(1) hd(1) by (cases ds) auto
  have tw: "takeWhile isdigit ds = ds" using assms(2) by (auto simp: takeWhile_eq_all_conv)
  show "strtol ds = (if m > LONG_MAX then (LONG_MAX, True, True) else (m, True, False))"
    "strtol (CHR ''-'' # ds) = (if - m < LONG_MIN then (LONG_MIN, True, True) else (- m, True, False))"
    using assms(1,4) hd(2,3) by (simp_all add: strtol_def Let_def dw tw m(1) LONG_MAX_def LONG_MIN_def isspace_def)
qed

lemma strtol_dec:
  "strtol (dec v) = (if v > LONG_MAX then (LONG_MAX, True, True) else if v < LONG_MIN then (LONG_MIN, True, True) else (v, True, False))"
  using strtol_digits [OF dec_nat_ne dec_nat_digits dec_nat_val, of "nat v"]
    strtol_digits [OF dec_nat_ne dec_nat_digits dec_nat_val, of "nat (- v)"]
  by (simp add: dec_def LONG_MAX_def LONG_MIN_def)

text \<open>
  The test for a number out of range never meets one that is too large: it becomes \<open>-1\<close>, and
  every other number is taken modulo \<open>2 ^ 32\<close>.
\<close>

lemma mystrtol_wraps:
  "mystrtol (dec v) = (if v > LONG_MAX then Inr (- 1) else if v < LONG_MIN then Inl Exit_failure else Inr (signed_take_bit 31 v))"
  by (simp add: mystrtol_def strtol_dec LONG_MAX_def LONG_MIN_def)

lemma mystrtol_dec: "int32 v \<Longrightarrow> mystrtol (dec v) = Inr v"
  by (simp add: mystrtol_wraps signed_take_bit_int_eq_self int32_def LONG_MAX_def LONG_MIN_def)

lemma dec_length: "int32 v \<Longrightarrow> length (dec v) \<le> 11"
  using dec_nat_length [of "nat v" 10] dec_nat_length [of "nat (- v)" 10] by (auto simp: dec_def int32_def nat_less_iff)

lemma strtok_r_word:
  assumes "w \<noteq> []" "set w \<inter> set D = {}" "set ds \<subseteq> set D"
  shows "strtok_r D (ds @ w) = (Some w, [])" "d \<in> set D \<Longrightarrow> strtok_r D (ds @ w @ d # s) = (Some w, s)"
proof -
  have ds: "dropWhile (\<lambda>c. c \<in> set D) (ds @ w @ r) = w @ r" for r
    using assms by (cases w) (auto simp: dropWhile_append1 dropWhile_append2 subset_iff)
  have tw: "takeWhile (\<lambda>c. c \<notin> set D) (w @ r) = w @ takeWhile (\<lambda>c. c \<notin> set D) r"
    "dropWhile (\<lambda>c. c \<notin> set D) (w @ r) = dropWhile (\<lambda>c. c \<notin> set D) r" for r
    using assms(2) by (auto intro!: takeWhile_append2 dropWhile_append2)
  have w: "takeWhile (\<lambda>c. c \<notin> set D) w = w" "dropWhile (\<lambda>c. c \<notin> set D) w = []"
    using assms(2) by (auto simp: takeWhile_eq_all_conv dropWhile_eq_Nil_conv)
  show "strtok_r D (ds @ w) = (Some w, [])"
    using ds [of "[]"] assms(1) by (simp add: strtok_r_def w)
  show "strtok_r D (ds @ w @ d # s) = (Some w, s)" if "d \<in> set D"
    using ds [of "d # s"] tw [of "d # s"] assms(1) that by (simp add: strtok_r_def)
qed

lemma take_line_nl: "CHR 0x0A \<notin> set l \<Longrightarrow> length l < n \<Longrightarrow> take_line n (l @ CHR 0x0A # s) = (l @ [CHR 0x0A], s)"
proof (induction l arbitrary: n)
  case Nil
  then show ?case by (cases n) auto
next
  case (Cons c l)
  then obtain n' where "n = Suc n'" by (cases n) auto
  then show ?case using Cons by auto
qed

lemma load_lines_line:
  assumes "CHR 0x0A \<notin> set l" "length l < 1023"
  shows "load_lines inet (l @ CHR 0x0A # s) c =
    (let p = strip_line (l @ [CHR 0x0A])
     in if p = [] then load_lines inet s c
        else bind_r (ParseConfiguration inet p c) (\<lambda>(ret, c1). if ret < 0 then Inr (- 1, c1) else load_lines inet s c1))"
  using take_line_nl [OF assms, of s] by (subst load_lines.simps) (simp add: fgets_def MAX_OPTLINE_LEN_def)

lemma strip_line_text:
  assumes "w \<noteq> []" "\<not> isspace (hd w)" "CHR 0x00 \<notin> set w" "CHR ''#'' \<notin> set w" "isspace b" 
    and "r = [] \<or> r = CHR ''#'' # t" "CHR 0x00 \<notin> set r"
  shows "strip_line (w @ b # r) = w"
proof -
  have b: "b \<noteq> CHR 0x00" "b \<noteq> CHR ''#''" using assms(5) by (auto simp: isspace_def)
  have "c_string (w @ b # r) = w @ b # r" using assms(3,7) b by (auto simp: c_string_def takeWhile_eq_all_conv)
  moreover have "takeWhile (\<lambda>c. c \<noteq> CHR ''#'') (w @ b # r) = w @ [b]"
    using assms(4,6) b by (subst takeWhile_append2) auto
  moreover have "dropWhile isspace (w @ [b]) = w @ [b]" using assms(1,2) by (cases w) auto
  ultimately show ?thesis using assms(5) by (simp add: strip_line_def)
qed

section \<open>Configuration files as they are written\<close>

datatype setting =
    Num_cores int | Max_concurrency int | Max_num_buffers int | Rcvbuf int | Sndbuf int
  | Stack_thread int | App_thread int | Stat_print int | Host_ip string int | Pri_enable int

fun setting_key :: "setting \<Rightarrow> string" where
  "setting_key (Num_cores v) = ''num_cores''"
| "setting_key (Max_concurrency v) = ''max_concurrency''"
| "setting_key (Max_num_buffers v) = ''max_num_buffers''"
| "setting_key (Rcvbuf v) = ''rcvbuf''"
| "setting_key (Sndbuf v) = ''sndbuf''"
| "setting_key (Stack_thread v) = ''stack_thread''"
| "setting_key (App_thread v) = ''app_thread''"
| "setting_key (Stat_print v) = ''stat_print''"
| "setting_key (Host_ip a n) = ''host_ip''"
| "setting_key (Pri_enable v) = ''pri_enable''"

fun setting_num :: "setting \<Rightarrow> int" where
  "setting_num (Num_cores v) = v"
| "setting_num (Max_concurrency v) = v"
| "setting_num (Max_num_buffers v) = v"
| "setting_num (Rcvbuf v) = v"
| "setting_num (Sndbuf v) = v"
| "setting_num (Stack_thread v) = v"
| "setting_num (App_thread v) = v"
| "setting_num (Stat_print v) = v"
| "setting_num (Host_ip a n) = n"
| "setting_num (Pri_enable v) = v"

fun setting_addr :: "setting \<Rightarrow> string" where
  "setting_addr (Host_ip a n) = a @ ''/''"
| "setting_addr _ = []"

definition setting_text :: "setting \<Rightarrow> string" where
  "setting_text st = setting_key st @ '' = '' @ setting_addr st @ dec (setting_num st)"

datatype conf_line = Blank nat | Note string | Put setting | Put_note setting string

fun line_of :: "conf_line \<Rightarrow> string" where
  "line_of (Blank k) = replicate k (CHR '' '')"
| "line_of (Note t) = CHR ''#'' # t"
| "line_of (Put st) = setting_text st"
| "line_of (Put_note st t) = setting_text st @ '' #'' @ t"

definition file_of :: "conf_line list \<Rightarrow> string" where
  "file_of ls = concat (map (\<lambda>l. line_of l @ [CHR 0x0A]) ls)"

fun addr_ok :: "setting \<Rightarrow> bool" where
  "addr_ok (Host_ip a n) \<longleftrightarrow> a \<noteq> [] \<and> set a \<inter> {CHR 0x00, CHR 0x0A, CHR ''#'', CHR '' '', CHR 0x09, CHR ''='', CHR ''/''} = {}"
| "addr_ok _ \<longleftrightarrow> True"

fun line_ok :: "conf_line \<Rightarrow> bool" where
  "line_ok (Blank k) \<longleftrightarrow> k < 1023"
| "line_ok (Note t) \<longleftrightarrow> set t \<inter> {CHR 0x00, CHR 0x0A} = {} \<and> length t < 1022"
| "line_ok (Put st) \<longleftrightarrow> addr_ok st \<and> int32 (setting_num st) \<and> length (setting_text st) < 1023"
| "line_ok (Put_note st t) \<longleftrightarrow> addr_ok st \<and> int32 (setting_num st) \<and> set t \<inter> {CHR 0x00, CHR 0x0A} = {}
     \<and> length (setting_text st) + 2 + length t < 1023"

text \<open>What a setting asks for.\<close>

fun accepts :: "conf \<Rightarrow> setting \<Rightarrow> bool" where
  "accepts c (Num_cores v) \<longleftrightarrow> 0 < v \<and> v \<le> cg_num_cpus c"
| "accepts c (Max_concurrency v) \<longleftrightarrow> 0 \<le> v"
| "accepts c (Max_num_buffers v) \<longleftrightarrow> 0 \<le> v"
| "accepts c (Rcvbuf v) \<longleftrightarrow> 64 \<le> v"
| "accepts c (Sndbuf v) \<longleftrightarrow> 64 \<le> v"
| "accepts c _ \<longleftrightarrow> True"

fun put :: "(string \<Rightarrow> u32) \<Rightarrow> setting \<Rightarrow> conf \<Rightarrow> conf" where
  "put inet (Num_cores v) c = c\<lparr>cg_num_cores := v, cg_num_cpus := (if accepts c (Num_cores v) then v else cg_num_cpus c)\<rparr>"
| "put inet (Max_concurrency v) c = c\<lparr>cg_max_concurrency := v\<rparr>"
| "put inet (Max_num_buffers v) c = c\<lparr>cg_max_num_buffers := v\<rparr>"
| "put inet (Rcvbuf v) c = c\<lparr>cg_rcvbuf_size := v\<rparr>"
| "put inet (Sndbuf v) c = c\<lparr>cg_sndbuf_size := v\<rparr>"
| "put inet (Stack_thread v) c = c\<lparr>cg_stack_thread := (if v = 0 then 1 else v)\<rparr>"
| "put inet (App_thread v) c = c\<lparr>cg_app_thread := (if v = 0 then 1 else v)\<rparr>"
| "put inet (Stat_print v) c = set_eth0 (\<lambda>e. e\<lparr>et_stat_print := (if v = 0 then cg_num_cpus c - 1 else v)\<rparr>) c"
| "put inet (Host_ip a n) c = set_eth0 (\<lambda>e. e\<lparr>et_ip_addr := inet a, et_netmask := htonl (NOT (mask (32 - nat n)))\<rparr>) c"
| "put inet (Pri_enable v) c = c\<lparr>cg_pri := v\<rparr>"

fun configure :: "(string \<Rightarrow> u32) \<Rightarrow> conf_line list \<Rightarrow> conf \<Rightarrow> int \<times> conf" where
  "configure inet [] c = (0, c)"
| "configure inet (Put st # ls) c = (if accepts c st then configure inet ls (put inet st c) else (- 1, put inet st c))"
| "configure inet (Put_note st t # ls) c = (if accepts c st then configure inet ls (put inet st c) else (- 1, put inet st c))"
| "configure inet (Blank k # ls) c = configure inet ls c"
| "configure inet (Note t # ls) c = configure inet ls c"

lemma dec_chars: "set (dec v) \<inter> {CHR 0x00, CHR 0x0A, CHR ''#'', CHR '' '', CHR 0x09, CHR ''='', CHR ''/''} = {}"
proof -
  have "isdigit c \<or> c = CHR ''-''" if "c \<in> set (dec v)" for c
    using that dec_nat_digits by (auto simp: dec_def split: if_splits)
  then show ?thesis by (fastforce simp: isdigit_def)
qed

lemma key_chars: "set (setting_key st) \<inter> {CHR 0x00, CHR 0x0A, CHR ''#'', CHR '' '', CHR 0x09, CHR ''='', CHR ''/''} = {}"
  "setting_key st \<noteq> []" "\<not> isspace (hd (setting_key st))"
  by (cases st; simp add: isspace_def)+

lemma addr_chars: "addr_ok st \<Longrightarrow> set (setting_addr st) \<inter> {CHR 0x00, CHR 0x0A, CHR ''#'', CHR '' '', CHR 0x09, CHR ''=''} = {}"
  by (cases st) auto

lemma dec_ne: "dec v \<noteq> []"
  by (simp add: dec_def dec_nat_ne)

lemma set_host_ip_text:
  assumes "addr_ok (Host_ip a n)" "int32 n"
  shows "set_host_ip inet (a @ ''/'' @ dec n) c = Inr (put inet (Host_ip a n) c)"
proof -
  have "strtok_r ''/'' (a @ CHR ''/'' # dec n) = (Some a, dec n)"
    using strtok_r_word(2) [of a "''/''" "[]" "CHR ''/''" "dec n"] assms(1) by simp
  moreover have "strtok_r '' '' (dec n) = (Some (dec n), [])"
    using strtok_r_word(1) [of "dec n" "'' ''" "[]"] dec_chars [of n] by (simp add: dec_ne)
  ultimately show ?thesis
    using MaskFromPrefix_top [of n] by (simp add: set_host_ip_def mystrtol_dec [OF assms(2)] set_eth0_def) (metis ntohl_ntohl)
qed

lemma ParseConfiguration_text:
  assumes "addr_ok st" "int32 (setting_num st)" "length (setting_text st) < 1023"
  shows "ParseConfiguration inet (setting_text st) c = Inr (if accepts c st then 0 else - 1, put inet st c)"
proof -
  have "strtok_r conf_delim (setting_text st) = (Some (setting_key st), ''= '' @ setting_addr st @ dec (setting_num st))"
    using strtok_r_word(2) [of "setting_key st" conf_delim "[]" "CHR '' ''"] key_chars [of st]
    by (simp add: setting_text_def conf_delim_def)
  moreover have "strtok_r conf_delim (''= '' @ setting_addr st @ dec (setting_num st)) = (Some (setting_addr st @ dec (setting_num st)), [])"
    using addr_chars [OF assms(1)] dec_chars [of "setting_num st"]
    by (intro strtok_r_word(1)) (auto simp: conf_delim_def dec_ne)
  ultimately show ?thesis using assms set_host_ip_text [of _ _ inet c]
    by (cases st) (auto simp: ParseConfiguration_def MAX_OPTLINE_LEN_def mystrtol_dec parse_num_cores_def parse_stat_print_def Let_def)
qed

lemma text_chars:
  assumes "addr_ok st"
  shows "setting_text st \<noteq> []" "\<not> isspace (hd (setting_text st))" "CHR 0x00 \<notin> set (setting_text st)"
    "CHR ''#'' \<notin> set (setting_text st)" "CHR 0x0A \<notin> set (setting_text st)"
  using key_chars [of st] addr_chars [OF assms] dec_chars [of "setting_num st"] by (auto simp: setting_text_def)

lemma load_lines_put:
  assumes "addr_ok st" "int32 (setting_num st)" "length (setting_text st) < 1023"
    and "strip_line (l @ [CHR 0x0A]) = setting_text st" "CHR 0x0A \<notin> set l" "length l < 1023"
  shows "load_lines inet (l @ CHR 0x0A # s) c =
    (if accepts c st then load_lines inet s (put inet st c) else Inr (- 1, put inet st c))"
  using text_chars(1) [OF assms(1)]
  by (simp add: load_lines_line [OF assms(5,6)] assms(4) ParseConfiguration_text [OF assms(1-3)])

lemma load_lines_skip:
  assumes "strip_line (l @ [CHR 0x0A]) = []" "CHR 0x0A \<notin> set l" "length l < 1023"
  shows "load_lines inet (l @ CHR 0x0A # s) c = load_lines inet s c"
  by (simp add: load_lines_line [OF assms(2,3)] assms(1))

lemma strip_line_blank: "strip_line (replicate k (CHR '' '') @ [CHR 0x0A]) = []" "strip_line (CHR ''#'' # t) = []"
proof -
  have "\<forall>c\<in>set (replicate k (CHR '' '') @ [CHR 0x0A]). isspace c" by (auto simp: isspace_def)
  then have "dropWhile isspace (takeWhile (\<lambda>c. c \<noteq> CHR ''#'') (c_string (replicate k (CHR '' '') @ [CHR 0x0A]))) = []"
    unfolding dropWhile_eq_Nil_conv c_string_def by (blast dest: set_takeWhileD)
  then show "strip_line (replicate k (CHR '' '') @ [CHR 0x0A]) = []" by (simp add: strip_line_def)
qed (simp add: strip_line_def c_string_def)

lemma load_lines_file:
  "\<forall>l\<in>set ls. line_ok l \<Longrightarrow> load_lines inet (file_of ls) c = Inr (configure inet ls c)"
proof (induction inet ls c rule: configure.induct)
  case (1 inet c)
  then show ?case by (simp add: file_of_def load_lines.simps fgets_def)
next
  case (2 inet st ls c)
  have f: "file_of (Put st # ls) = setting_text st @ CHR 0x0A # file_of ls" by (simp add: file_of_def)
  have ok: "addr_ok st" "int32 (setting_num st)" "length (setting_text st) < 1023" using 2(2) by auto
  have "strip_line (setting_text st @ [CHR 0x0A]) = setting_text st"
    using text_chars [OF ok(1)] by (intro strip_line_text) (auto simp: isspace_def)
  then show ?case using 2 by (simp add: f load_lines_put [OF ok] text_chars(5) [OF ok(1)] ok(3))
next
  case (3 inet st t ls c)
  let ?l = "setting_text st @ '' #'' @ t"
  have f: "file_of (Put_note st t # ls) = ?l @ CHR 0x0A # file_of ls" by (simp add: file_of_def)
  have ok: "addr_ok st" "int32 (setting_num st)" "length (setting_text st) < 1023" using 3(2) by auto
  have l: "CHR 0x0A \<notin> set ?l" "length ?l < 1023" using 3(2) text_chars(5) [OF ok(1)] by auto
  have "strip_line (setting_text st @ CHR '' '' # CHR ''#'' # t @ [CHR 0x0A]) = setting_text st"
    using text_chars [OF ok(1)] 3(2) by (intro strip_line_text [where t = "t @ [CHR 0x0A]"]) (auto simp: isspace_def)
  then have "strip_line (?l @ [CHR 0x0A]) = setting_text st" by simp
  from load_lines_put [OF ok this l] show ?case using 3 unfolding f by simp
next
  case (4 inet k ls c)
  have "file_of (Blank k # ls) = replicate k (CHR '' '') @ CHR 0x0A # file_of ls" by (simp add: file_of_def)
  then show ?case using 4 by (simp add: load_lines_skip strip_line_blank)
next
  case (5 inet t ls c)
  have f: "file_of (Note t # ls) = (CHR ''#'' # t) @ CHR 0x0A # file_of ls" by (simp add: file_of_def)
  have "strip_line ((CHR ''#'' # t) @ [CHR 0x0A]) = []" by (simp add: strip_line_blank)
  from load_lines_skip [OF this] show ?case using 5 unfolding f by simp
qed

section \<open>What a file can set\<close>

definition conf_bounds :: "int \<Rightarrow> conf \<Rightarrow> bool" where
  "conf_bounds cpus c \<longleftrightarrow> 0 \<le> cg_max_concurrency c \<and> 0 \<le> cg_max_num_buffers c
     \<and> (cg_rcvbuf_size c = 8 \<or> 64 \<le> cg_rcvbuf_size c) \<and> (cg_sndbuf_size c = 8 \<or> 64 \<le> cg_sndbuf_size c)
     \<and> (cg_num_cores c = 24 \<and> cg_num_cpus c = cpus
        \<or> 0 < cg_num_cores c \<and> cg_num_cores c = cg_num_cpus c \<and> cg_num_cpus c \<le> cpus)"

lemma set_host_ip_bounds: "set_host_ip inet q c = Inr c1 \<Longrightarrow> conf_bounds cpus c \<Longrightarrow> conf_bounds cpus c1"
  by (auto simp: set_host_ip_def set_eth0_def conf_bounds_def bind_r_Inr_iff split: prod.splits option.splits)

lemma ParseConfiguration_bounds:
  assumes "ParseConfiguration inet line c = Inr (ret, c1)" "0 \<le> ret" "conf_bounds cpus c"
  shows "conf_bounds cpus c1"
  using assms
  by (auto simp: ParseConfiguration_def parse_num_cores_def parse_stat_print_def Let_def set_eth0_def bind_r_Inr_iff
      split: if_splits prod.splits option.splits dest: set_host_ip_bounds) (auto simp: conf_bounds_def)

lemma load_lines_bounds:
  "load_lines inet fp c = Inr (ret, c1) \<Longrightarrow> 0 \<le> ret \<Longrightarrow> conf_bounds cpus c \<Longrightarrow> conf_bounds cpus c1"
proof (induction inet fp c rule: load_lines.induct)
  case (1 inet fp c)
  show ?case
  proof (cases "fgets MAX_OPTLINE_LEN fp")
    case None
    then show ?thesis using 1(3-5) by (simp add: load_lines.simps)
  next
    case (Some lr)
    obtain l r where lr: "lr = (l, r)" by force
    show ?thesis
    proof (cases "strip_line l = []")
      case True
      then show ?thesis using 1(1) [OF Some lr [symmetric] refl True] 1(3-5) Some lr by (simp add: load_lines.simps [of _ fp])
    next
      case False
      then obtain r2 c2 where p: "ParseConfiguration inet (strip_line l) c = Inr (r2, c2)"
          "(if r2 < 0 then Inr (- 1, c2) else load_lines inet r c2) = Inr (ret, c1)"
        using 1(3) Some lr by (auto simp: load_lines.simps [of _ fp] Let_def bind_r_Inr_iff)
      then have "\<not> r2 < 0" using 1(4) by (auto split: if_splits)
      then show ?thesis
        using 1(2) [OF Some lr [symmetric] refl False, of r2 c2] p 1(4) ParseConfiguration_bounds [OF p(1) _ 1(5)] by simp
    qed
  qed
qed

text \<open>
  Whatever the file contains: if it loads, the checked options are in their ranges. The number of
  threads is not among them, and the default of 24 cores is not compared with the processors.
\<close>

lemma loaded_conf_bounds:
  "load_configuration inet cpus (Some fp) c = Inr (0, c1) \<Longrightarrow> conf_bounds cpus c1"
  using load_lines_bounds [of inet fp "default_conf cpus c" 0 c1 cpus]
  by (simp add: load_configuration_def default_conf_def conf_bounds_def STATIC_BUFF_SIZE_def)

section \<open>A file without the number of stack threads\<close>

definition qconfig_of :: "conf \<Rightarrow> qconfig" where
  "qconfig_of c = \<lparr>cf_num_cores = nat (cg_num_cores c), cf_stack_thread = nat (cg_stack_thread c),
     cf_app_thread = nat (cg_app_thread c), cf_max_concurrency = nat (cg_max_concurrency c)\<rparr>"

fun sets_stack_thread :: "conf_line \<Rightarrow> bool" where
  "sets_stack_thread (Put (Stack_thread v)) \<longleftrightarrow> True"
| "sets_stack_thread (Put_note (Stack_thread v) t) \<longleftrightarrow> True"
| "sets_stack_thread _ \<longleftrightarrow> False"

lemma put_keeps_stack_thread:
  "\<not> sets_stack_thread (Put st) \<Longrightarrow> cg_stack_thread (put inet st c) = cg_stack_thread c"
  "\<not> sets_stack_thread (Put_note st t) \<Longrightarrow> cg_stack_thread (put inet st c) = cg_stack_thread c"
  by (cases st; simp add: set_eth0_def)+

lemma configure_keeps_stack_thread:
  "\<forall>l\<in>set ls. \<not> sets_stack_thread l \<Longrightarrow> cg_stack_thread (snd (configure inet ls c)) = cg_stack_thread c"
  by (induction inet ls c rule: configure.induct) (auto simp: put_keeps_stack_thread)

text \<open>
  \<^verbatim>\<open>stack_thread\<close> is the one option without a usable default: a file without it loads, and the start
  then divides by zero.
\<close>

lemma no_stack_thread_no_start:
  assumes "\<forall>l\<in>set ls. line_ok l \<and> \<not> sets_stack_thread l" "cg_stack_thread c = 0"
    and "load_configuration inet cpus (Some (file_of ls)) c = Inr (ret, c1)" "0 \<le> bt_eal b"
  shows "qstack_init (qconfig_of c1) b d m z = Inl Undefined"
proof -
  have "configure inet ls (default_conf cpus c) = (ret, c1)"
    using assms(1,3) by (simp add: load_configuration_def load_lines_file)
  then have "cg_stack_thread c1 = 0"
    using configure_keeps_stack_thread [of ls inet "default_conf cpus c"] assms(1,2) by (simp add: default_conf_def)
  then show ?thesis using assms(4) by (simp add: qstack_init_def qconfig_of_def io_init_def)
qed

section \<open>Loading a file\<close>

text \<open>
  C28 (roundtrip). A file of blank lines, comments and settings \<open>name = value\<close>, the values written in
  decimal within 32 bits and the lines shorter than the buffer, sets what it says: the
  settings take effect one after the other, a later one over an earlier one, and the first that the code
  refuses ends the loading with \<open>-1\<close>. A host address \<open>a/n\<close> becomes the system's reading of \<open>a\<close>
  and the netmask of \<open>n\<close> leading ones. The ranges and defaults are those of the code (\<open>configure\<close>, \<open>default_conf\<close>), which
  differ from the comments and messages: a buffer size that is not set stays 8 instead of following the
  other one, the concurrency that is not set 14000000 and the number of buffers 100000 instead of 10000, and the bounds 0
  and 64 that the messages exclude are accepted.
\<close>

theorem config_file_loads:
  assumes "\<forall>l\<in>set ls. line_ok l"
  shows "load_configuration inet cpus (Some (file_of ls)) c = Inr (configure inet ls (default_conf cpus c))"
  using assms by (simp add: load_configuration_def load_lines_file)

definition zero_conf :: conf where
  "zero_conf = \<lparr>cg_num_cpus = 0, cg_eths_num = 0, cg_eth0 = \<lparr>et_ifindex = 0, et_stat_print = 0, et_netmask = 0, et_ip_addr = 0\<rparr>,
     cg_num_cores = 0, cg_stack_thread = 0, cg_app_thread = 0, cg_max_concurrency = 0, cg_max_num_buffers = 0,
     cg_rcvbuf_size = 0, cg_sndbuf_size = 0, cg_pri = 0\<rparr>"

definition sample_lines :: "conf_line list" where
  "sample_lines = [Note '' No. of cores'', Put (Num_cores 32), Blank 2, Put_note (Host_ip ''192.168.78.100'' 16) ''this host'',
     Put (Max_concurrency 14000000), Put (Stack_thread 4), Put (App_thread 4), Put (Stat_print 0), Put (Pri_enable 1), Put (Rcvbuf 32)]"

lemma text_length: "int32 (setting_num st) \<Longrightarrow> length (setting_text st) \<le> 29 + length (setting_addr st)"
  using dec_length [of "setting_num st"] by (cases st) (simp_all add: setting_text_def)

lemma sample_lines_ok: "\<forall>l\<in>set sample_lines. line_ok l"
  using text_length [of "Num_cores 32"] text_length [of "Host_ip ''192.168.78.100'' 16"] text_length [of "Max_concurrency 14000000"]
    text_length [of "Stack_thread 4"] text_length [of "App_thread 4"] text_length [of "Stat_print 0"] text_length [of "Pri_enable 1"]
    text_length [of "Rcvbuf 32"]
  by (simp add: sample_lines_def int32_def)

theorem config_file_loads_witness:
  "load_configuration (\<lambda>_. 0x644EA8C0) 64 (Some (file_of sample_lines)) zero_conf
   = Inr (- 1, \<lparr>cg_num_cpus = 32, cg_eths_num = 1,
       cg_eth0 = \<lparr>et_ifindex = 0, et_stat_print = 31, et_netmask = 0x0000FFFF, et_ip_addr = 0x644EA8C0\<rparr>,
       cg_num_cores = 32, cg_stack_thread = 4, cg_app_thread = 4, cg_max_concurrency = 14000000,
       cg_max_num_buffers = 100000, cg_rcvbuf_size = 32, cg_sndbuf_size = 8, cg_pri = 1\<rparr>)"
  unfolding config_file_loads [OF sample_lines_ok]
  by (simp add: sample_lines_def default_conf_def zero_conf_def set_eth0_def ntohl_def mask_eq_exp_minus_1 STATIC_BUFF_SIZE_def MAX_FLOW_NUM_def)

end
