(* ===== verification/Echo_Server.thy ===== *)
theory Echo_Server
  imports Receive_Path Send_Path Mbuf_Pool
begin

text \<open>
  The echo server of \<^verbatim>\<open>apps/echo_server.c\<close>, an application on top of the stack: its listening
  socket, the acceptance of connections and the answer to a request, for the built configuration, which
  answers only the requests whose sixth byte is 1. The state joins the calls of the interface (\<open>api\<close>), the
  driver's pools (\<open>drv\<close>), the event system and the bytes of the mbufs, counted from where the
  application's pointer points. Messages are left out; assertions are compiled out.
\<close>

section \<open>State\<close>

record ('m, 'h) echo =
  ec_api :: "'h api"
  ec_drv :: "'m drv"
  ec_qepoll :: qepoll_sys
  ec_bytes :: "ptr \<Rightarrow> nat \<Rightarrow> u8"
  ec_req_high :: "ptr \<Rightarrow> bool"

record echo_args =
  ea_efd :: int
  ea_listener :: int
  ea_pri :: int
  ea_task_delay_h :: u32
  ea_task_delay_l :: u32

definition on_stack :: "('h qstack \<Rightarrow> 'h qstack) \<Rightarrow> ('m, 'h) echo \<Rightarrow> ('m, 'h) echo" where
  "on_stack f e = e\<lparr>ec_api := (ec_api e)\<lparr>ap_stack := f (ap_stack (ec_api e))\<rparr>\<rparr>"

abbreviation ec_stack :: "('m, 'h) echo \<Rightarrow> 'h qstack" where
  "ec_stack e \<equiv> ap_stack (ec_api e)"

section \<open>An mbuf to write\<close>

definition io_get_wmbuf :: "'m pktmbuf_ops \<Rightarrow> nat \<Rightarrow> qapp \<Rightarrow> bool \<Rightarrow> ('m, 'h) echo \<Rightarrow> (ptr \<times> ('m, 'h) echo) result" where
  "io_get_wmbuf ops fuel app hold e =
     bind_r (if hold then bind_r (io_get_uwmbuf ops fuel (qa_core_id app) (ec_drv e)) (\<lambda>(p, d). Inr (p, e\<lparr>ec_drv := d\<rparr>))
             else bind_r (io_get_swmbuf (ec_stack e)) (\<lambda>(p, s). Inr (p, on_stack (\<lambda>_. s) e))) (\<lambda>(mbuf, e1).
       if mbuf = NULL then Inr (NULL, e1)
       else if mb_state (mbuf_at (ec_stack e1) mbuf) \<noteq> MBUF_STATE_FREE then Inl Exit0
       else Inr (mbuf, on_stack (mem_upd mbuf (\<lambda>mb. mb\<lparr>mb_state := MBUF_STATE_TALLOC\<rparr>)) e1))"

definition q_get_wmbuf :: "'m pktmbuf_ops \<Rightarrow> nat \<Rightarrow> qapp \<Rightarrow> ('m, 'h) echo \<Rightarrow> (ptr \<times> ('m, 'h) echo) result" where
  "q_get_wmbuf ops fuel app e = io_get_wmbuf ops fuel app True e"

section \<open>The answer to a request\<close>

text \<open>The work of a request: a loop whose length is the delay, on 32-bit numbers.\<close>

fun virtual_loop :: "nat \<Rightarrow> u32 \<times> u32 \<Rightarrow> u32 \<times> u32" where
  "virtual_loop 0 ab = ab"
| "virtual_loop (Suc n) (a, b) =
     (let b1 = a + b; b2 = a + b1; a1 = b2 - a; b3 = b2 - a1 in virtual_loop n (a1, b3))"

definition q_virtual_process :: "u64 \<Rightarrow> u32" where
  "q_virtual_process delay = fst (virtual_loop (unat (delay * 23 div 15)) (1, 1))"

definition put_byte :: "ptr \<Rightarrow> nat \<Rightarrow> u8 \<Rightarrow> ('m, 'h) echo \<Rightarrow> ('m, 'h) echo" where
  "put_byte p i v e = e\<lparr>ec_bytes := (ec_bytes e)(p := (ec_bytes e p)(i := v))\<rparr>"

definition memcpy :: "ptr \<Rightarrow> ptr \<Rightarrow> nat \<Rightarrow> ('m, 'h) echo \<Rightarrow> ('m, 'h) echo" where
  "memcpy dst src n e = e\<lparr>ec_bytes := (ec_bytes e)(dst := (\<lambda>i. if i < n then ec_bytes e src i else ec_bytes e dst i))\<rparr>"

definition fill_response :: "echo_args \<Rightarrow> ptr \<Rightarrow> ptr \<Rightarrow> nat \<Rightarrow> ('m, 'h) echo \<Rightarrow> ('m, 'h) echo" where
  "fill_response ar buf response len e =
     (let e1 = put_byte response 6 3 (memcpy response buf len e)
      in if ec_bytes e1 buf 5 = 0 then put_byte response 8 (ucast (q_virtual_process (ucast (ea_task_delay_l ar)))) e1
         else if ec_bytes e1 buf 5 = 1 then put_byte response 8 (ucast (q_virtual_process (ucast (ea_task_delay_h ar)))) e1
         else e1)"

text \<open>\<^verbatim>\<open>len\<close> is unsigned, the result is an \<^verbatim>\<open>int\<close> again.\<close>

definition HandleReadEvent ::
    "'m pktmbuf_ops \<Rightarrow> nat \<Rightarrow> 'h env \<Rightarrow> echo_args \<Rightarrow> qapp \<Rightarrow> int \<Rightarrow> u8 \<Rightarrow> ('m, 'h) echo \<Rightarrow> (int \<times> ('m, 'h) echo) result" where
  "HandleReadEvent ops fuel ev ar app sockid pri e =
     bind_r (q_recv ev app sockid (ec_api e)) (\<lambda>(mbuf, len, a1).
     bind_r (if len = 0 then bind_r (q_close ev app sockid a1) (\<lambda>(_, a2). Inr a2) else Inr a1) (\<lambda>a2.
       let e2 = e\<lparr>ec_api := a2\<rparr>
       in if mbuf = NULL then Inr (len, e2)
          else bind_r
            (if ec_bytes e2 mbuf 5 = 1
             then bind_r (q_get_wmbuf ops fuel app e2) (\<lambda>(send_mbuf, e3).
                    if send_mbuf = NULL then Inr (False, e3)
                    else let e4 = fill_response ar mbuf send_mbuf (nat len) e3
                         in bind_r (q_send ev app sockid send_mbuf (of_int len) pri (ec_api e4)) (\<lambda>(_, a5).
                              Inr (True, e4\<lparr>ec_api := a5\<rparr>)))
             else Inr (True, e2)) (\<lambda>(go, e5).
            if \<not> go then Inr (len, e5)
            else bind_r (q_free_mbuf app mbuf (ec_stack e5)) (\<lambda>s. Inr (len, on_stack (\<lambda>_. s) e5)))))"

section \<open>Listening, accepting and the loop over the events\<close>

definition echo_addr :: sockaddr where
  "echo_addr = \<lparr>sa_family = AF_INET, sin_addr = INADDR_ANY, sin_port = htons 80\<rparr>"

definition qstack_createListenSock :: "'h env \<Rightarrow> qapp list \<Rightarrow> 'h api \<Rightarrow> (int \<times> 'h api) result" where
  "qstack_createListenSock ev ctx a =
     (case ctx of [] \<Rightarrow> Inl Undefined | qapp # _ \<Rightarrow>
        let (listener, a1) = q_socket ev qapp AF_INET 1 a
        in if listener < 0 then Inl Exit0
           else let (ret, a2) = q_bind ev listener (Some echo_addr) SOCKADDR_LEN a1
                in if ret < 0 then Inl Exit0
                   else bind_r (q_listen ev (Some qapp) listener 10000 a2) (\<lambda>(ret, a3).
                          if ret < 0 then Inl Exit0 else Inr (listener, a3)))"

definition q_sockset_req_high :: "'h env \<Rightarrow> int \<Rightarrow> ('m, 'h) echo \<Rightarrow> ('m, 'h) echo result" where
  "q_sockset_req_high ev sockid e =
     (if \<not> sock_range ev sockid then Inr (e\<lparr>ec_api := (ec_api e)\<lparr>ap_errno := EBADF\<rparr>\<rparr>)
      else bind_r (sock_stream (ec_api e) sockid) (\<lambda>p.
             if p = NULL then Inl Undefined else Inr (e\<lparr>ec_req_high := (ec_req_high e)(p := True)\<rparr>)))"

text \<open>\<open>junk\<close> is the event as it lies on the stack; the code sets two of its fields.\<close>

definition ep_ctl :: "int \<Rightarrow> int \<Rightarrow> int \<Rightarrow> qepoll_item option \<Rightarrow> ('m, 'h) echo \<Rightarrow> (int \<times> ('m, 'h) echo) result" where
  "ep_ctl efd op fd event e =
     bind_r (qepoll_ctl efd op fd event (- 1) (ec_stack e) (ec_qepoll e)) (\<lambda>(ret, s, y).
       Inr (ret, on_stack (\<lambda>_. s) (e\<lparr>ec_qepoll := y\<rparr>)))"

definition qstack_closeConn :: "int \<Rightarrow> ('m, 'h) echo \<Rightarrow> ('m, 'h) echo result" where
  "qstack_closeConn sockid e = bind_r (ep_ctl 0 Q_EPOLL_CTL_DEL sockid None e) (\<lambda>(_, e1). Inr e1)"

definition qstack_acceptConn ::
    "'h env \<Rightarrow> echo_args \<Rightarrow> qepoll_item \<Rightarrow> qapp \<Rightarrow> ('m, 'h) echo \<Rightarrow> (int \<times> ('m, 'h) echo) result" where
  "qstack_acceptConn ev ar junk qapp e =
     bind_r (q_accept ev qapp (ea_listener ar) (ec_api e)) (\<lambda>(c, _, a1).
       let e1 = e\<lparr>ec_api := a1\<rparr>
       in if c < 0 then Inr (c, e1)
          else if c \<ge> int (ev_max_concurrency ev) then Inl Exit0
          else bind_r (if ea_pri ar \<noteq> 0 then q_sockset_req_high ev c e1 else Inr e1) (\<lambda>e2.
               bind_r (ep_ctl (ea_efd ar) Q_EPOLL_CTL_ADD c
                         (Some (junk\<lparr>qi_events := Q_EPOLLIN, qi_data := (qi_data junk AND NOT (mask 32)) OR of_int c\<rparr>)) e2) (\<lambda>(_, e3).
                 Inr (c, e3))))"

definition EINTR :: int where "EINTR = 4"

definition data_fd :: "qepoll_item \<Rightarrow> int" where
  "data_fd it = sint (ucast (qi_data it) :: u32)"

definition echo_event ::
    "'m pktmbuf_ops \<Rightarrow> nat \<Rightarrow> 'h env \<Rightarrow> echo_args \<Rightarrow> qepoll_item \<Rightarrow> qapp \<Rightarrow> qepoll_item \<Rightarrow> ('m, 'h) echo \<Rightarrow> ('m, 'h) echo result" where
  "echo_event ops fuel ev ar junk qapp it e =
     (let sockid = data_fd it
      in if sockid = ea_listener ar then bind_r (qstack_acceptConn ev ar junk qapp e) (\<lambda>(_, e1). Inr e1)
         else if qi_events it AND Q_EPOLLERR \<noteq> 0 then Inr e
         else if qi_events it AND Q_EPOLLIN \<noteq> 0
         then bind_r (HandleReadEvent ops fuel ev ar qapp sockid (qe_pri it) e) (\<lambda>(ret, e1).
                if ret = 0 then qstack_closeConn sockid e1
                else if ret < 0 \<and> ap_errno (ec_api e1) \<notin> {EAGAIN, EINTR} then qstack_closeConn sockid e1
                else Inr e1)
         else Inr e)"

fun echo_events ::
    "'m pktmbuf_ops \<Rightarrow> nat \<Rightarrow> 'h env \<Rightarrow> echo_args \<Rightarrow> qepoll_item \<Rightarrow> qapp \<Rightarrow> qepoll_item list \<Rightarrow> ('m, 'h) echo \<Rightarrow> ('m, 'h) echo result" where
  "echo_events ops fuel ev ar junk qapp [] e = Inr e"
| "echo_events ops fuel ev ar junk qapp (it # its) e =
     bind_r (echo_event ops fuel ev ar junk qapp it e) (echo_events ops fuel ev ar junk qapp its)"

definition MAX_LOW_EVENTS :: int where "MAX_LOW_EVENTS = 128"

text \<open>One round of the server thread; \<open>evs\<close> is the address of its array of events.\<close>

definition server_round ::
    "'m pktmbuf_ops \<Rightarrow> nat \<Rightarrow> 'h env \<Rightarrow> echo_args \<Rightarrow> qepoll_item \<Rightarrow> qapp \<Rightarrow> ptr \<Rightarrow> ('m, 'h) echo \<Rightarrow> ('m, 'h) echo result" where
  "server_round ops fuel ev ar junk qapp evs e =
     bind_r (qepoll_wait (ea_efd ar) evs MAX_LOW_EVENTS (- 1) (ec_qepoll e)) (\<lambda>(n, its, y).
       echo_events ops fuel ev ar junk qapp (take (nat n) its) (e\<lparr>ec_qepoll := y\<rparr>))"

section \<open>The work of a request is a Fibonacci number\<close>

fun fib :: "nat \<Rightarrow> nat" where
  "fib 0 = 0"
| "fib (Suc 0) = 1"
| "fib (Suc (Suc n)) = fib (Suc n) + fib n"

lemma virtual_loop_fib: "virtual_loop n (of_nat (fib (Suc k)), of_nat (fib k)) = (of_nat (fib (Suc (n + k))), of_nat (fib (n + k)))"
proof (induction n arbitrary: k)
  case (Suc n)
  then show ?case using Suc [of "Suc k"] by (simp add: Let_def algebra_simps)
qed simp

lemma q_virtual_process_fib: "q_virtual_process delay = of_nat (fib (unat (delay * 23 div 15) + 2))"
  using virtual_loop_fib [of "unat (delay * 23 div 15)" 1] by (simp add: q_virtual_process_def)

section \<open>An answered request\<close>

lemma written_other_mem:
  assumes "written p n s s' y" "mm_heap m y = mbuf_at s' y" "mm_count m = mm_count (qs_mem s')"
  shows "written p n s (s'\<lparr>qs_mem := m\<rparr>) y"
proof -
  have "same_timers s' (s'\<lparr>qs_mem := m\<rparr>)" by (simp add: same_timers_def)
  then have "timer_inv (s'\<lparr>qs_mem := m\<rparr>) = timer_inv s'" by (rule timer_inv_same)
  then show ?thesis using assms
    by (auto simp: written_def can_flush_def send_window_def sb_rel_def mlist_def seg_seq_def seg_end_def)
qed

lemma tx_open_recv:
  assumes "tx_open s p n"
  shows "tx_open (rv_upd p f (s\<lparr>qs_mem := m\<rparr>)) p n"
  using assms by (simp add: tx_open_def sb_rel_def mlist_def send_window_def stack_simps)

lemma fill_response_bytes:
  assumes "y \<noteq> x" "ec_bytes e x 5 = 1"
  shows "ec_bytes (fill_response ar x y n e) y i =
      (if i = 8 then ucast (q_virtual_process (ucast (ea_task_delay_h ar))) else if i = 6 then 3
       else if i < n then ec_bytes e x i else ec_bytes e y i)"
    "ec_api (fill_response ar x y n e) = ec_api e"
  using assms by (simp_all add: fill_response_def Let_def put_byte_def memcpy_def)

text \<open>
  The connection \<open>p\<close> of socket \<open>k\<close> holds one unread request of \<open>n\<close> bytes in the mbuf \<open>x\<close>, of
  low priority as every packet is without a registered filter; its sixth byte is 1, the mark of the
  requests the server answers; and \<open>y\<close> is the mbuf the driver hands out next.
\<close>

definition request_waits :: "'h env \<Rightarrow> 'm pktmbuf_ops \<Rightarrow> nat \<Rightarrow> qapp \<Rightarrow> int \<Rightarrow> ptr \<Rightarrow> nat \<Rightarrow> ptr \<Rightarrow> ptr \<Rightarrow> ('m, 'h) echo \<Rightarrow> bool" where
  "request_waits ev ops fuel app k p n x y e \<longleftrightarrow>
     (let s = ec_stack e
      in timer_inv s \<and> tx_open s p n \<and> p \<noteq> NULL \<and> sock_range ev k
         \<and> so_socktype (api_socket (ec_api e) k) \<noteq> SOCK_TYPE_LISTENER \<and> so_stream (api_socket (ec_api e) k) = p
         \<and> rb_rel (qs_mem s) (rv_rcvbuf (rcvvar s p)) [x] [] [] \<and> has_payload (qs_mem s) x \<and> unread (qs_mem s) x
         \<and> mb_payload_len (mbuf_at s x) = of_nat n \<and> \<not> mb_priority (mbuf_at s x) \<and> ec_bytes e x 5 = 1
         \<and> y \<noteq> NULL \<and> y \<noteq> x \<and> y \<le> mm_count (qs_mem s) \<and> mb_state (mbuf_at s y) = MBUF_STATE_FREE
         \<and> (\<exists>d. io_get_uwmbuf ops fuel (qa_core_id app) (ec_drv e) = Inr (y, d))
         \<and> cirq_wf (dp_th_mbufs (qs_dpdk s)) \<and> \<not> cirq_full (dp_th_mbufs (qs_dpdk s)))"

definition answered :: "echo_args \<Rightarrow> qapp \<Rightarrow> ptr \<Rightarrow> nat \<Rightarrow> ptr \<Rightarrow> ptr \<Rightarrow> ('m, 'h) echo \<Rightarrow> ('m, 'h) echo \<Rightarrow> bool" where
  "answered ar app p n x y e e' \<longleftrightarrow> written p n (ec_stack e) (ec_stack e') y
     \<and> qs_send_event_queue (ec_stack e') = snd (streamq_enqueue (qs_send_event_queue (ec_stack e)) (of_nat (qa_core_id app)) p)
     \<and> qs_send_hevent_queue (ec_stack e') = qs_send_hevent_queue (ec_stack e)
     \<and> (\<forall>i<n. ec_bytes e' y i = (if i = 8 then ucast (q_virtual_process (ucast (ea_task_delay_h ar)))
                                  else if i = 6 then 3 else ec_bytes e x i))
     \<and> mm_released (qs_mem (ec_stack e')) = mm_released (qs_mem (ec_stack e)) @ [(qa_core_id app, x)]
     \<and> cirq_list (rb_merged_q (rv_rcvbuf (rcvvar (ec_stack e') p))) = []"

lemma HandleReadEvent_answers:
  assumes "request_waits ev ops fuel app k p n x y e"
  shows "\<exists>e'. HandleReadEvent ops fuel ev ar app k 0 e = Inr (int n, e') \<and> answered ar app p n x y e e'"
proof -
  let ?s = "ec_stack e"
  have inv: "timer_inv ?s" and o: "tx_open ?s p n"
    and so: "sock_range ev k" "so_socktype (api_socket (ec_api e) k) \<noteq> SOCK_TYPE_LISTENER" "so_stream (api_socket (ec_api e) k) = p" "p \<noteq> NULL"
    and rx: "rb_rel (qs_mem ?s) (rv_rcvbuf (rcvvar ?s p)) [x] [] []" "has_payload (qs_mem ?s) x" "unread (qs_mem ?s) x"
      "mb_payload_len (mbuf_at ?s x) = of_nat n" "\<not> mb_priority (mbuf_at ?s x)" "ec_bytes e x 5 = 1"
    and y: "y \<noteq> NULL" "y \<noteq> x" "y \<le> mm_count (qs_mem ?s)" "mb_state (mbuf_at ?s y) = MBUF_STATE_FREE"
    and room: "cirq_wf (dp_th_mbufs (qs_dpdk ?s))" "\<not> cirq_full (dp_th_mbufs (qs_dpdk ?s))"
    using assms by (simp_all add: request_waits_def Let_def)
  obtain d where d: "io_get_uwmbuf ops fuel (qa_core_id app) (ec_drv e) = Inr (y, d)"
    using assms by (auto simp: request_waits_def Let_def)
  have n: "0 < n" "n \<le> 1500" "st_state (qs_streams ?s p) = TCP_ST_ESTABLISHED" using o by (simp_all add: tx_open_def)
  have u: "unat (mb_payload_len (mbuf_at ?s x)) = n" using n(2) rx(4) by (simp add: unat_of_nat)
  have len: "uint (mb_payload_len (mbuf_at ?s x)) = int n" by (simp flip: u)
  have xn: "x \<noteq> NULL" using rx(1) by (simp add: rb_rel_def)
  obtain a1 f m where a1: "q_recv ev app k (ec_api e) = Inr (x, int n, a1)"
      "rb_rel (qs_mem (ap_stack a1)) (rv_rcvbuf (rcvvar (ap_stack a1) p)) [] [] []"
      "a1 = (ec_api e)\<lparr>ap_stack := rv_upd p f (?s\<lparr>qs_mem := m\<rparr>)\<rparr>"
      "mm_count m = mm_count (qs_mem ?s)" "mm_released m = mm_released (qs_mem ?s)"
      "mm_heap m = (mm_heap (qs_mem ?s))(x := (mbuf_at ?s x)\<lparr>mb_state := MBUF_STATE_RREAD\<rparr>)"
    by (rule q_recv_one [OF rx(1-3) n(3) so refl]) (simp add: len)
  define e2 where "e2 = e\<lparr>ec_api := a1\<rparr>"
  define e3 where "e3 = on_stack (mem_upd y (\<lambda>mb. mb\<lparr>mb_state := MBUF_STATE_TALLOC\<rparr>)) (e2\<lparr>ec_drv := d\<rparr>)"
  have get: "q_get_wmbuf ops fuel app e2 = Inr (y, e3)"
    using d y a1(3,6) by (simp add: q_get_wmbuf_def io_get_wmbuf_def e2_def e3_def stack_simps)
  define e4 where "e4 = fill_response ar x y n e3"
  let ?s4 = "ec_stack e4"
  have b: "ec_bytes e2 x 5 = 1" "ec_bytes e3 = ec_bytes e" by (simp_all add: e2_def e3_def on_stack_def rx(6))
  have api4: "ec_api e4 = ec_api e3" using fill_response_bytes(2) [OF y(2), of e3 ar n] b rx(6) by (simp add: e4_def)
  have s4: "?s4 = rv_upd p f (?s\<lparr>qs_mem := heap_upd y (\<lambda>mb. mb\<lparr>mb_state := MBUF_STATE_TALLOC\<rparr>) m\<rparr>)"
    by (simp add: api4 e3_def on_stack_def e2_def a1(3) mem_upd_def rv_upd_def st_upd_def)
  have o4: "tx_open ?s4 p n" unfolding s4 by (rule tx_open_recv [OF o])
  have "same_timers ?s ?s4" by (simp add: s4 same_timers_def stack_simps)
  then have inv4: "timer_inv ?s4" using inv timer_inv_same by blast
  have k4: "qs_sockets ?s4 = qs_sockets ?s" "qs_dpdk ?s4 = qs_dpdk ?s" "qs_send_event_queue ?s4 = qs_send_event_queue ?s"
      "qs_send_hevent_queue ?s4 = qs_send_hevent_queue ?s" "mm_count (qs_mem ?s4) = mm_count (qs_mem ?s)"
      "mm_released (qs_mem ?s4) = mm_released (qs_mem ?s)" "mb_state (mbuf_at ?s4 y) = MBUF_STATE_TALLOC"
      "\<not> mb_priority (mbuf_at ?s4 x)" "rcvvar ?s4 p = rcvvar (ap_stack a1) p" "\<And>q. q \<noteq> p \<Longrightarrow> qs_streams ?s4 q = qs_streams ?s q"
      "st_snd_nxt (qs_streams ?s4 p) = st_snd_nxt (qs_streams ?s p)"
    using a1 y rx(5) by (simp_all add: s4 stack_simps heap_upd_def)
  have so4: "so_socktype (api_socket (ec_api e4) k) \<noteq> SOCK_TYPE_LISTENER" "so_stream (api_socket (ec_api e4) k) = p"
    using so k4(1) by simp_all
  obtain s5 where s5: "q_send ev app k y (of_nat n) 0 (ec_api e4) = Inr (int n, (ec_api e4)\<lparr>ap_stack := s5\<rparr>)" "written p n ?s4 s5 y"
      "qs_send_event_queue s5 = snd (streamq_enqueue (qs_send_event_queue ?s) (of_nat (qa_core_id app)) p)"
      "qs_send_hevent_queue s5 = qs_send_hevent_queue ?s" "rcvvar s5 p = rcvvar (ap_stack a1) p"
      "mm_released (qs_mem s5) = mm_released (qs_mem ?s)" "\<And>z. z \<noteq> y \<Longrightarrow> mbuf_at s5 z = mbuf_at ?s4 z"
    using q_send_written [OF o4 inv4 so(1) so4 so(4) refl y(1), of app] y(3) k4 room by auto
  define m6 where "m6 = io_free_mbuf (qa_core_id app) x (heap_upd x (mb_state_update (\<lambda>_. MBUF_STATE_FREE)) (qs_mem s5))"
  have free: "q_free_mbuf app x s5 = Inr (s5\<lparr>qs_mem := m6\<rparr>)"
    using xn k4(8) s5(7) [of x] y(2) by (simp add: q_free_mbuf_def mbuf_free_def m6_def)
  define e' where "e' = on_stack (\<lambda>_. s5\<lparr>qs_mem := m6\<rparr>) (e4\<lparr>ec_api := (ec_api e4)\<lparr>ap_stack := s5\<rparr>\<rparr>)"
  have e': "ec_stack e' = s5\<lparr>qs_mem := m6\<rparr>" "ec_bytes e' = ec_bytes e4" by (simp_all add: e'_def on_stack_def)
  have run: "HandleReadEvent ops fuel ev ar app k 0 e = Inr (int n, e')"
    using a1(1) n(1) xn y(1) b(1) rx(6) get s5(1) free
    by (simp add: HandleReadEvent_def e2_def [symmetric] e4_def [symmetric] Let_def e'_def)
  have "written p n ?s4 (s5\<lparr>qs_mem := m6\<rparr>) y"
    by (rule written_other_mem [OF s5(2)]) (use y(2) in \<open>simp_all add: m6_def io_free_mbuf_def heap_upd_def\<close>)
  then have w: "written p n ?s (ec_stack e') y" using k4(2,10,11) by (simp add: written_def e'(1))
  have bytes: "ec_bytes e' y i = (if i = 8 then ucast (q_virtual_process (ucast (ea_task_delay_h ar))) else if i = 6 then 3 else ec_bytes e x i)"
    if "i < n" for i
    using fill_response_bytes(1) [OF y(2), of e3 ar n i] that b(2) rx(6) by (simp add: e'(2) e4_def)
  have "answered ar app p n x y e e'"
    unfolding answered_def
    by (intro conjI w) (use s5(3-6) a1(2) bytes e'(1) in \<open>simp_all add: m6_def io_free_mbuf_def heap_upd_def rb_rel_def\<close>)
  then show ?thesis using run by blast
qed

section \<open>The property\<close>

text \<open>
  C7 (liveness). The server answers when it runs without priorities (\<^verbatim>\<open>pri_enable = 0\<close>, as in its
  \<^verbatim>\<open>echo_server.conf\<close>), so that every packet and every event has low priority. If a request whose sixth byte
  is 1, the mark of those it answers, is the unread data of a connection and the server gets the read
  event of its socket, then it returns from the event, has sent a response of the request's length with the
  request's bytes, the mark of a response at index 6 and the result of the work at index 8, and has given the
  request's mbuf back; and the stack thread's next look at the queue of streams with data puts the response
  into the transmit queue under the connection's next sequence number. No other connection changes. The send buffer of
  the connection is empty and its windows are open for the response, an mbuf is free, and no other stream waits to send. Not
  covered is a request that the server's filter marked as high priority: its mbuf waits in both queues of the receive buffer,
  and \<^verbatim>\<open>q_free_mbuf\<close> only takes back the hold on it.
\<close>

theorem echo_answers:
  assumes req: "request_waits ev ops fuel app k p n x y e"
    and it: "data_fd it = k" "k \<noteq> ea_listener ar" "qi_events it AND Q_EPOLLERR = 0" "qi_events it AND Q_EPOLLIN \<noteq> 0" "qe_pri it = 0"
    and qs: "n21q_wf (qs_send_event_queue (ec_stack e))" "n21q_items (qs_send_event_queue (ec_stack e)) = {#}"
      "of_nat (qa_core_id app) < nq_queue_num (qs_send_event_queue (ec_stack e))"
      "\<not> cirq_full (nq_queues (qs_send_event_queue (ec_stack e)) ! unat (of_nat (qa_core_id app) :: u8))"
      "n21q_wf (qs_send_hevent_queue (ec_stack e))" "n21q_items (qs_send_hevent_queue (ec_stack e)) = {#}"
  shows "\<exists>e' s2. echo_event ops fuel ev ar junk app it e = Inr e'
    \<and> (\<forall>i<n. ec_bytes e' y i = (if i = 8 then ucast (q_virtual_process (ucast (ea_task_delay_h ar)))
                                 else if i = 6 then 3 else ec_bytes e x i))
    \<and> mm_released (qs_mem (ec_stack e')) = mm_released (qs_mem (ec_stack e)) @ [(qa_core_id app, x)]
    \<and> cirq_list (rb_merged_q (rv_rcvbuf (rcvvar (ec_stack e') p))) = []
    \<and> write_tcp_send_queue ev ts (ec_stack e') = Inr (1, s2)
    \<and> cirq_list (dp_th_mbufs (qs_dpdk s2)) = cirq_list (dp_th_mbufs (qs_dpdk (ec_stack e))) @ [y]
    \<and> ntohl (th_seq (mb_tcph (mbuf_at s2 y))) = st_snd_nxt (qs_streams (ec_stack e) p)
    \<and> st_snd_nxt (qs_streams s2 p) = st_snd_nxt (qs_streams (ec_stack e) p) + of_nat n
    \<and> (\<forall>q. q \<noteq> p \<longrightarrow> qs_streams s2 q = qs_streams (ec_stack e) q)"
proof -
  obtain e' where e': "HandleReadEvent ops fuel ev ar app k 0 e = Inr (int n, e')" "answered ar app p n x y e e'"
    using HandleReadEvent_answers [OF req] by blast
  have p: "p \<noteq> NULL" "0 < n" using req by (simp_all add: request_waits_def tx_open_def Let_def)
  have ev: "echo_event ops fuel ev ar junk app it e = Inr e'"
    using e'(1) it p(2) by (simp add: echo_event_def)
  obtain q1 where q1: "streamq_dequeue (qs_send_event_queue (ec_stack e')) = Some (p, q1)" "n21q_wf q1" "n21q_items q1 = {#}"
    using streamq_roundtrip [OF qs(1,3,4,2) p(1)] e'(2) by (auto simp: answered_def)
  have w: "written p n (ec_stack e) (ec_stack e') y" and h: "qs_send_hevent_queue (ec_stack e') = qs_send_hevent_queue (ec_stack e)"
    using e'(2) by (simp_all add: answered_def)
  obtain s2 where "write_tcp_send_queue ev ts (ec_stack e') = Inr (1, s2)"
    "cirq_list (dp_th_mbufs (qs_dpdk s2)) = cirq_list (dp_th_mbufs (qs_dpdk (ec_stack e))) @ [y]"
    "ntohl (th_seq (mb_tcph (mbuf_at s2 y))) = st_snd_nxt (qs_streams (ec_stack e) p)"
    "st_snd_nxt (qs_streams s2 p) = st_snd_nxt (qs_streams (ec_stack e) p) + of_nat n"
    "\<forall>q. q \<noteq> p \<longrightarrow> qs_streams s2 q = qs_streams (ec_stack e) q"
    using send_queue_one [OF w p(1) q1, of ev ts] qs(5,6) h by auto
  then show ?thesis using ev e'(2) unfolding answered_def by blast
qed

text \<open>Ten bytes of a request for stream 1 wait in mbuf 7; mbuf 6 is the next the driver hands out.\<close>

definition echo_rb :: tcp_recv_buffer where
  "echo_rb = (let b = rb_init 8 (rv_rcvbuf (st_rcvvar zero_stream)) 78
     in b\<lparr>rb_merged_q := snd (mbufq_enqueue (rb_merged_q b) 7), rb_merged_next := 88\<rparr>)"

definition echo_stack :: "(ipv4_5tuple \<Rightarrow> ptr option) qstack" where
  "echo_stack = rv_upd 1 (\<lambda>rv. rv\<lparr>rv_rcvbuf := echo_rb\<rparr>) (tx_stack\<lparr>qs_mem := \<lparr>mm_heap = (\<lambda>_. mbuf0)(7 := mbuf0\<lparr>mb_state := MBUF_STATE_RBUFFED,
     mb_payload_len := 10, mb_tcp_seq := 78, mb_tx_offload := set_l4_len 20 0\<rparr>), mm_released = [], mm_count = 9\<rparr>\<rparr>)"

definition echo_drv :: "ldpdk drv" where
  "echo_drv = ldrv0\<lparr>dv_dpc := (\<lambda>c. (dv_dpc ldrv0 c)\<lparr>dc_pktmbuf_alloc_pool := 3, dc_nofree_queue := nqueue0\<rparr>), dv_dpdk := ((\<lambda>_. [6]), (\<lambda>_. 0))\<rparr>"

definition echo0 :: "(ldpdk, ipv4_5tuple \<Rightarrow> ptr option) echo" where
  "echo0 = \<lparr>ec_api = tx_api\<lparr>ap_stack := echo_stack\<rparr>, ec_drv = echo_drv, ec_qepoll = q_init_manager 1 1 (\<lambda>_. 0),
     ec_bytes = (\<lambda>p i. if p = 7 then if i = 5 then 1 else of_nat i else 0), ec_req_high = (\<lambda>_. False)\<rparr>"

definition echo_app :: qapp where "echo_app = \<lparr>qa_app_id = 0, qa_core_id = 1\<rparr>"

definition echo_item :: qepoll_item where
  "echo_item = \<lparr>qe_pri = 0, qe_core = 0, qe_apid = 0, qe_nature = Q_READ, qe_sockid = 2, qi_dire = 0, qi_events = Q_EPOLLIN, qi_timeout = 0, qi_data = 2\<rparr>"

definition echo_ar :: echo_args where
  "echo_ar = \<lparr>ea_efd = 0, ea_listener = 1, ea_pri = 0, ea_task_delay_h = 4, ea_task_delay_l = 0\<rparr>"

lemma echo_rb_rel: "rb_rel (qs_mem echo_stack) echo_rb [7] [] []"
proof -
  let ?b = "rb_init 8 (rv_rcvbuf (st_rcvvar zero_stream)) 78"
  have rel: "rb_rel (qs_mem echo_stack) ?b [] [] []" by (rule init_buffers(3))
  obtain q where q: "mbufq_enqueue (rb_merged_q ?b) 7 = (SUCCESS, q)" "cirq_list q = [7]" "dir_cirq_wf q"
    using mbufq_enqueue_room [of "rb_merged_q ?b" 7] rel by (auto simp: rb_rel_def)
  have eq: "echo_rb = ?b\<lparr>rb_merged_q := q, rb_merged_next := 88\<rparr>" by (simp add: echo_rb_def Let_def q(1))
  show ?thesis using rel q(2,3) unfolding eq
    by (simp add: rb_rel_def rb_init_def echo_stack_def stack_simps seg_seq_def seg_end_def)
qed

lemma echo_alloc: "\<exists>d. io_get_uwmbuf list_pk 1 1 echo_drv = Inr (6, d)"
proof -
  obtain q where q: "streamq_dequeue nqueue0 = Some (NULL, q)" using streamq_empty [OF nqueue0_empty(1,2)] by metis
  then have "n21q_dequeue nqueue0 = Some (NULL, q)"
    by (simp add: streamq_dequeue_def n21q_dequeue_def do_n21q_dequeue_def n21q_dequeue_strong_def)
  then show ?thesis
    by (simp add: io_get_uwmbuf_def dpdk_alloc_uwmbuf_def uw_fetch_def echo_drv_def drv_upds Let_def list_pk_def ldrv0_def)
qed

lemma echo_waits: "request_waits env0 list_pk 1 echo_app 2 1 10 7 6 echo0"
proof -
  have tx: "tx_open tx_stack 1 10" using tx_stack_open by (simp add: tx_open_def tx_stack_facts(6) [unfolded One_nat_def] stream1_def init_sndvar_def
      TCP_DEFAULT_MSS_def sb_init_def)
  then have o: "tx_open echo_stack 1 10" unfolding echo_stack_def by (rule tx_open_recv)
  have "same_timers tx_stack echo_stack" by (simp add: echo_stack_def same_timers_def stack_simps)
  then have inv: "timer_inv echo_stack" using tx_stack_facts(1) timer_inv_same by blast
  have k: "qs_sockets echo_stack = qs_sockets stack1" "qs_dpdk echo_stack = qs_dpdk stack3" "rv_rcvbuf (rcvvar echo_stack 1) = echo_rb"
    using tx_stack_facts(2,5) by (simp_all add: echo_stack_def stack_simps)
  have m: "mbuf_at echo_stack 7 = mbuf0\<lparr>mb_state := MBUF_STATE_RBUFFED, mb_payload_len := 10, mb_tcp_seq := 78, mb_tx_offload := set_l4_len 20 0\<rparr>"
      "mbuf_at echo_stack 6 = mbuf0" "mm_count (qs_mem echo_stack) = 9"
    by (simp_all add: echo_stack_def stack_simps)
  have l4: "l4_len (set_l4_len 20 0) \<noteq> 0" by (simp add: l4_len_def set_l4_len_def take_bit_drop_bit)
  have e: "ec_stack echo0 = echo_stack" "ec_bytes echo0 7 5 = 1" "ec_drv echo0 = echo_drv" "qa_core_id echo_app = 1"
    by (simp_all add: echo0_def echo_app_def)
  show ?thesis
    unfolding request_waits_def Let_def e k m
    by (intro conjI inv o echo_rb_rel echo_alloc stack3_ok(2,3))
      (simp_all add: m l4 sock_range_def env0_def stack1_def has_payload_def unread_def, simp_all add: mbuf0_def MBUF_STATE_FREE_def)
qed

theorem echo_answers_witness:
  "\<exists>e' s2. echo_event list_pk 1 env0 echo_ar echo_item echo_app echo_item echo0 = Inr e'
     \<and> ec_bytes e' 6 5 = 1 \<and> ec_bytes e' 6 6 = 3 \<and> ec_bytes e' 6 8 = 21 \<and> ec_bytes e' 6 9 = 9
     \<and> mm_released (qs_mem (ec_stack e')) = [(1, 7)] \<and> write_tcp_send_queue env0 9 (ec_stack e') = Inr (1, s2)
     \<and> cirq_list (dp_th_mbufs (qs_dpdk s2)) = [6] \<and> ntohl (th_seq (mb_tcph (mbuf_at s2 6))) = 1001
     \<and> st_snd_nxt (qs_streams s2 1) = 1011"
proof -
  have it: "data_fd echo_item = 2" "2 \<noteq> ea_listener echo_ar" "qi_events echo_item AND Q_EPOLLERR = 0"
      "qi_events echo_item AND Q_EPOLLIN \<noteq> 0" "qe_pri echo_item = 0"
    by (simp_all add: data_fd_def echo_item_def echo_ar_def Q_EPOLLERR_def Q_EPOLLIN_def)
  have qs: "n21q_wf (qs_send_event_queue (ec_stack echo0))" "n21q_items (qs_send_event_queue (ec_stack echo0)) = {#}"
      "of_nat (qa_core_id echo_app) < nq_queue_num (qs_send_event_queue (ec_stack echo0))"
      "\<not> cirq_full (nq_queues (qs_send_event_queue (ec_stack echo0)) ! unat (of_nat (qa_core_id echo_app) :: u8))"
      "n21q_wf (qs_send_hevent_queue (ec_stack echo0))" "n21q_items (qs_send_hevent_queue (ec_stack echo0)) = {#}"
    using nqueue0_empty by (simp_all add: echo0_def echo_stack_def echo_app_def stack_simps tx_stack_facts(3,4))
  have nx: "st_snd_nxt (qs_streams (ec_stack echo0) 1) = 1001" "cirq_list (dp_th_mbufs (qs_dpdk (ec_stack echo0))) = []"
      "mm_released (qs_mem (ec_stack echo0)) = []"
    using stack3_ok(5) by (simp_all add: echo0_def echo_stack_def stack_simps tx_stack_facts(2) tx_stack_facts(6) [unfolded One_nat_def])
  have "fib 8 = 21" by (simp add: eval_nat_numeral)
  then have v: "q_virtual_process (ucast (ea_task_delay_h echo_ar)) = 21" by (simp add: q_virtual_process_fib echo_ar_def)
  show ?thesis
    using echo_answers [OF echo_waits it qs, of echo_item 9] unfolding nx v
    by (elim exE conjE) (intro exI conjI, assumption, auto simp: echo0_def echo_app_def)
qed

end
