(* ===== verification/Spec2Isabelle.thy ===== *)
theory Spec2Isabelle
  imports Spsc_Queue Mempool Event_Delivery Conn_Close Receive_Path Send_Path Config Echo_Server
begin

text \<open>
  A verification library for qstack, a user-level TCP stack in C on top of DPDK.

  \<^bold>\<open>The program.\<close> A stack thread (\<^verbatim>\<open>core.c\<close>) polls the network card (\<^verbatim>\<open>dpdk_module.c\<close>,
  \<^verbatim>\<open>io_module.c\<close>), hands each frame through Ethernet, ARP and IP (\<^verbatim>\<open>eth_in.h\<close>, \<^verbatim>\<open>arp.c\<close>,
  \<^verbatim>\<open>ip_in.h\<close>) to \<^verbatim>\<open>process_tcp_packet\<close> (\<^verbatim>\<open>tcp_in.c\<close>), checks its timers (\<^verbatim>\<open>timer.h\<close>),
  takes up what applications ask for (\<^verbatim>\<open>api.c\<close>) and writes the queues of streams that want to
  send (\<^verbatim>\<open>tcp_out.c\<close>). Streams (\<^verbatim>\<open>tcp_stream.c\<close>) are
  found through a hash table of DPDK, keep a receive and a send buffer of mbufs
  (\<^verbatim>\<open>tcp_recv_buff.c\<close>, \<^verbatim>\<open>tcp_send_buff.c\<close>) and belong to sockets (\<^verbatim>\<open>socket.c\<close>) that
  applications watch through an event system (\<^verbatim>\<open>qepoll.c\<close>). Threads exchange items through rings
  without locks (\<^verbatim>\<open>circular_queue.h\<close>, \<^verbatim>\<open>n21_queue.h\<close>). Paths here are under
  \<^verbatim>\<open>src/qstack/src\<close>; the rings, the return codes and the clock macro are under
  \<^verbatim>\<open>src/tools/src/include\<close>, the pools of chunks under \<^verbatim>\<open>src/tools/mempool/src\<close>.

  \<^bold>\<open>Theories, from the bottom.\<close>
  \<^item> \<open>Qprelude\<close>: machine types, return codes, results that may halt (\<open>Exit0\<close> for the
    traces that end the process, \<open>Undefined\<close> for undefined behaviour of C, \<open>Diverges\<close> for loops
    that do not end), the rules by which such code is taken apart, slices of rings.
  \<^item> \<open>Fifo_Spec\<close>: the interface of a bounded first-in-first-out queue as a locale.
  \<^item> \<open>Circular_Queue\<close>, \<open>Spsc_Queue\<close>, \<open>N21_Queue\<close>: the ring, its direct variant and
    its pool; the ring under every interleaving of one producer and one consumer; the queue with one
    ring per producer and the queues of streams on top.
  \<^item> \<open>Mempool\<close>: the pools of chunks for streams and listeners, private to a core or shared.
  \<^item> \<open>Protocol\<close>: flags, states, sequence numbers, byte order, checksum and address masks.
  \<^item> \<open>Mbuf\<close>, \<open>Mbuf_Queue\<close>: packet buffers on an explicit heap, their lists and queues.
  \<^item> \<open>Tcp_Recv_Buff\<close>, \<open>Tcp_Send_Buff\<close>: the two buffers of a stream.
  \<^item> \<open>Socket\<close>, \<open>Stack\<close>, \<open>Timer_Lists\<close>, \<open>Tcp_Stream\<close>, \<open>Timer\<close>: the socket table,
    the state of a stack thread, the three timer lists, creation and destruction of streams, and the
    periodic checks of the timers.
  \<^item> \<open>Packet_Out\<close>, \<open>Tcp_Out\<close>: headers, options and the driver's transmit queue; flushing of
    the send buffer and the control, acknowledgement and data queues.
  \<^item> \<open>Tcp_Options\<close>, \<open>Tcp_Events\<close>, \<open>Tcp_Ack\<close>, \<open>Tcp_In\<close>: reading options, raising
    events, acknowledgements and payload, and the handlers of the connection states.
  \<^item> \<open>Qepoll\<close>, \<open>Event_Delivery\<close>: the queues, channels and registrations of the event system,
    and what an application receives through it.
  \<^item> \<open>Tcp_States\<close>, \<open>Handshake\<close>, \<open>Tcp_Data\<close>: what the receive path does to the connection
    states, to new connections and to data.
  \<^item> \<open>Arp_Table\<close>, \<open>Arp\<close>: the tables of learned and of configured hardware addresses, the first
    as an instance of a map interface, and the ARP packets.
  \<^item> \<open>Driver\<close>, \<open>Mbuf_Pool\<close>: the receive and transmit rings between the stack and the card; the
    pools of packet buffers and their way between the cores.
  \<^item> \<open>Frame_In\<close>, \<open>Api\<close>, \<open>Main_Loop\<close>: the way of a frame up to TCP and ARP, the calls of the
    applications with their error numbers, and the requests, phases and rounds of the stack thread.
  \<^item> \<open>Receive_Path\<close>, \<open>Send_Path\<close>, \<open>Conn_Close\<close>: a frame from the card to the reading
    application, a write from the application to the card, and closing a connection.
  \<^item> \<open>Stack_Init\<close>: the start of the system, and stacks that have nothing to do.
  \<^item> \<open>Config\<close>: the configuration file, from its characters to the values the start uses.
  \<^item> \<open>Echo_Server\<close>: the application \<^verbatim>\<open>src/apps/echo_server.c\<close> on top of all this, from the event of a
    request to the response in the transmit queue.

  \<^bold>\<open>How the code is represented.\<close> C structs are records with the source's field names behind
  a short prefix, enumerations are datatypes or words of the width of the field that stores them,
  integers are words of their width wherever they can wrap. A pointer is a natural number with
  \<open>0\<close> for \<^verbatim>\<open>NULL\<close>; mbufs and streams live at addresses of explicit stores because several
  containers point at them. A function that changes state takes the state last and returns it. The
  model follows the built configuration: simple head and tail indices, direct queues of eight slots in
  the buffers, the constants of \<^verbatim>\<open>typical_macro.h\<close>, priorities in receiving and sending, one list of retransmission timers, checksums left
  to the card. Traces and statistics are left out unless a trace ends the process or reads through
  \<^verbatim>\<open>NULL\<close>.

  \<^bold>\<open>Code outside the repository.\<close> \<open>env\<close> holds the operations of DPDK's
  \<^verbatim>\<open>rte_hash\<close>, whose documented behaviour is the hypothesis \<open>rte_hash_laws\<close>, satisfied by a
  plain map; the pools of DPDK behind the chunk pools are a record of operations with the
  hypothesis \<open>rte_mempool_laws\<close>, satisfied by lists, and so are its pools of mbufs with their
  reference counters (\<open>pktmbuf_laws\<close>); what its creation functions and \<^verbatim>\<open>calloc\<close> return at the
  start is a record. In the stack itself the chunks and mbufs that memory pools hand out, the numbers that \<^verbatim>\<open>rand\<close> returns,
  the bursts that the card delivers, the room it has for packets and whether \<^verbatim>\<open>calloc\<close> finds
  memory are sequences in the state. The priority filter an application installs, the checksum over
  the pseudo header, the hash by which the card spreads connections over the threads, the system's parser of addresses, the readings of
  the clock and the hand-over to an application thread are arguments of the functions that use them.

  \<^bold>\<open>What is shown.\<close> Rings, queues and mbuf lists implement sequences, also under
  concurrency; the pools neither lose a chunk or mbuf nor hand
  one out twice; the settings of a configuration file take effect in order, with the ranges and defaults of the code; a system that starts satisfies its invariants and stays as it is while nothing happens; sequence comparison, checksum and masks mean what they should; the buffers keep the
  stream of bytes contiguous and deliver it in order; sockets, timers and streams keep their
  invariants through creation, expiry and destruction; a packet goes out as the stream says and
  within the windows; every segment moves only its own stream and only along the state diagram; a
  SYN opens a connection and its acknowledgement establishes it, queues it for accepting and announces it; data in order is delivered and
  announced, and an acknowledgement frees what it covers; an event that the event system accepts is
  returned to its application, in order and high priority first, by the waiting calls with and without
  a timeout, unless an event of another type for the same socket overwrites its mask; the rings of the driver lose and
  reorder nothing as long as the array of waiting packets is not full; addresses are learned and requests for
  them answered; listeners have distinct ports, unless a socket that listens is bound afterwards; the connections of one
  stack thread are accepted in order, and the stack threads in turn. Across the
  layers, a frame with data in sequence reaches the application's next read, a write reaches the card
  under its sequence number, closing sends a FIN behind all that was written, and the echo server
  answers a request of low priority it is told of. Beside these stand the places where the
  code does not do this, each stated as what it does: lost, doubly released or stuck segments, rings
  handed out twice, dropped and stranded events, endless loops, reads through \<^verbatim>\<open>NULL\<close>, lost
  closes, and a clock whose wrap stops retransmission.

  \<^bold>\<open>Loops and fuel.\<close> Walks over linked lists take the number of mbufs or streams as fuel and
  are shown to need less on well-formed lists; the round robin needs one round per ring; the option
  parser needs one round more than bytes unless it meets an option of length 0, on which no fuel is enough; the
  timer and send loops are bounded by the batch sizes of the code; a loop over an event queue needs
  one round per slot, one over a ring of the driver one round per waiting packet, and a request for an
  mbuf as many as the pool holds mbufs and one more. The main loop does
  not end; it is modelled by the number of its rounds.

  \<^bold>\<open>Not modelled.\<close> The receive path records the events it submits in order; the event system
  takes them from there. \<^verbatim>\<open>icmp.c\<close> is not called from the receive path, and \<^verbatim>\<open>q_sendv\<close> is a
  loop over \<^verbatim>\<open>q_send\<close>. The set-up of the network card, creation of threads,
  coroutines, measurement of time and the steering of flows in the network card are calls into DPDK
  and the system. The perfect hash of \<^verbatim>\<open>qing_hash.c\<close> is not called in the built program. The
  other example servers and the load generators are clients of the stack.
\<close>

end
